(* ===== verification/ET_Prelude.thy ===== *)
theory ET_Prelude
  imports Main "HOL-Library.Monad_Syntax" "HOL-Library.Multiset" "HOL-Library.Word"
begin

text \<open>
  Generic material shared by every component of the ET development: the theorem collections,
  and facts about option-valued programs, list segments and list updates that mention no
  definition of the program.

  Conventions. A C function that may dereference a null pointer, index an array out of range or
  wait forever is a function into \<open>option\<close>, where \<open>None\<close> is "does not return normally".
  Every theorem about such a function states that the result is \<open>Some\<close>.
\<close>

named_theorems et_defs \<open>definitions unfolded by the component proofs\<close>
named_theorems et_frame \<open>what an operation leaves unchanged\<close>

lemma bind_Some_eq [simp]: "Option.bind (Some x) f = f x"
  by simp

lemma nth_upd_neq [simp]: "i \<noteq> j \<Longrightarrow> xs[i := x] ! j = xs ! j"
  by simp

lemma hd_append_nonempty [simp]: "xs \<noteq> [] \<Longrightarrow> hd (xs @ ys) = hd xs"
  by simp

lemma int_length_eq_0 [simp]: "(int (length xs) = 0) = (xs = [])"
  by simp

lemma nat_minus_int_length: "nat (int n - int m) = n - m"
  by simp

lemma notin_butlast [simp]: "x \<notin> set xs \<Longrightarrow> x \<notin> set (butlast xs)"
  by (blast dest: in_set_butlastD)

lemma set_butlast_subset: "set (butlast xs) \<subseteq> set xs"
  by (blast dest: in_set_butlastD)

lemma in_set_tlD: "x \<in> set (tl xs) \<Longrightarrow> x \<in> set xs"
  by (cases xs) auto

lemma distinct_last_butlast: "distinct xs \<Longrightarrow> last xs \<notin> set (butlast xs)"
  by (cases xs rule: rev_cases) auto

lemma distinct_append_ends:
  "distinct (xs @ ys) \<Longrightarrow> xs \<noteq> [] \<Longrightarrow> last xs \<notin> set ys"
  "distinct (xs @ ys) \<Longrightarrow> ys \<noteq> [] \<Longrightarrow> hd ys \<notin> set xs"
  using last_in_set [of xs] hd_in_set [of ys] by (auto simp del: last_in_set hd_in_set)

lemma distinct_concat_nth:
  "distinct (concat gs) \<Longrightarrow> i < length gs \<Longrightarrow> j < length gs \<Longrightarrow> i \<noteq> j \<Longrightarrow> set (gs ! i) \<inter> set (gs ! j) = {}"
proof (induction gs arbitrary: i j)
  case (Cons a gs)
  have a: "set a \<inter> set (gs ! k) = {}" if "k < length gs" for k
  proof -
    have "set a \<inter> set (concat gs) = {}" "set (gs ! k) \<subseteq> set (concat gs)"
      using Cons.prems(1) nth_mem [OF that] by auto
    then show ?thesis by blast
  qed
  from Cons a show ?case by (cases i; cases j) auto
qed simp

lemma distinct_mset_sub:
  assumes "mset xs \<subseteq># mset ys" "distinct ys" shows "distinct xs"
proof -
  from assms(1) obtain zs where "mset ys = mset (xs @ zs)"
    by (metis ex_mset mset_append mset_subset_eq_exists_conv)
  with assms(2) have "distinct (xs @ zs)" using mset_eq_imp_distinct_iff by blast
  then show ?thesis by simp
qed

lemma concat_nth_in: "k < length gs \<Longrightarrow> j < length (gs ! k) \<Longrightarrow> gs ! k ! j \<in> set (concat gs)"
  using nth_mem [of k gs] nth_mem [of j "gs ! k"] by (auto intro!: bexI [of _ "gs ! k"])

lemma sorted_le_last: "sorted xs \<Longrightarrow> u \<in> set xs \<Longrightarrow> u \<le> last xs"
  by (induction xs rule: rev_induct) (auto simp: sorted_append)

lemma sum_list_bump:
  "k < length xs \<Longrightarrow> sum_list (xs[k := xs ! k + (x :: int)]) = sum_list xs + x"
proof (induction xs arbitrary: k)
  case (Cons y ys)
  then show ?case by (cases k) auto
qed simp

lemma last_take_Suc: "n < length xs \<Longrightarrow> last (take (Suc n) xs) = xs ! n"
  by (simp add: take_Suc_conv_app_nth)

lemma hd_drop_eq_nth: "n < length xs \<Longrightarrow> hd (drop n xs) = xs ! n"
  by (rule hd_drop_conv_nth)

lemma takeWhile_append_dropWhile_filter:
  assumes "\<forall>x \<in> set (dropWhile P xs). \<not> P x"
  shows "takeWhile P xs = filter P xs \<and> dropWhile P xs = filter (\<lambda>x. \<not> P x) xs"
proof -
  have "filter P xs = filter P (takeWhile P xs) @ filter P (dropWhile P xs)"
    by (metis filter_append takeWhile_dropWhile_id)
  moreover have "filter (\<lambda>x. \<not> P x) xs =
      filter (\<lambda>x. \<not> P x) (takeWhile P xs) @ filter (\<lambda>x. \<not> P x) (dropWhile P xs)"
    by (metis filter_append takeWhile_dropWhile_id)
  moreover have "filter P (takeWhile P xs) = takeWhile P xs"
    by (simp add: filter_id_conv) (meson set_takeWhileD)
  moreover have "filter (\<lambda>x. \<not> P x) (takeWhile P xs) = []"
    by (simp add: filter_empty_conv) (meson set_takeWhileD)
  moreover have "filter P (dropWhile P xs) = []"
    using assms by (simp add: filter_empty_conv)
  moreover have "filter (\<lambda>x. \<not> P x) (dropWhile P xs) = dropWhile P xs"
    using assms by (simp add: filter_id_conv)
  ultimately show ?thesis by simp
qed

end
