(* ===== verification/ET_Types.thy ===== *)
theory ET_Types
  imports ET_Prelude
begin

text \<open>
  The data of an ET system (src/libsrc/et.h and et_private.h) and its initialisation
  (et_init.c): events, event lists, stations, attachments, processes, the system structure and
  the id a process uses to reach all of them.

  \<^item> A C \<open>int\<close> is an \<open>int\<close>; a \<open>uint64_t\<close> counter is a \<open>64 word\<close>, which wraps.
  \<^item> An event pointer is \<open>None\<close> (NULL) or \<open>Some i\<close>, the address of \<open>id->events[i]\<close>. The
    translation macros \<open>ET_PEVENT2USR\<close>/\<open>ET_PEVENT2ET\<close> add and subtract the constant distance
    of two mappings of one shared memory, so both sides of a translation name the same event
    and are the same \<open>Some i\<close> here.
  \<^item> The mutex of an event list is a flag (\<open>True\<close>: locked). Condition variables carry no data;
    a wait is modelled where it is called (theory \<open>ET_StationIO\<close>).
\<close>

type_synonym evptr = "nat option"
type_synonym uint64 = "64 word"

abbreviation (input) "ET_OK \<equiv> (0::int)"
abbreviation (input) "ET_ERROR \<equiv> (-1::int)"
abbreviation (input) "ET_ERROR_TOOMANY \<equiv> (-2::int)"
abbreviation (input) "ET_ERROR_EXISTS \<equiv> (-3::int)"
abbreviation (input) "ET_ERROR_WAKEUP \<equiv> (-4::int)"
abbreviation (input) "ET_ERROR_TIMEOUT \<equiv> (-5::int)"
abbreviation (input) "ET_ERROR_EMPTY \<equiv> (-6::int)"
abbreviation (input) "ET_ERROR_BUSY \<equiv> (-7::int)"
abbreviation (input) "ET_ERROR_DEAD \<equiv> (-8::int)"
abbreviation (input) "ET_ERROR_BADARG \<equiv> (-15::int)"
abbreviation (input) "ET_ERROR_CLOSED \<equiv> (-18::int)"

abbreviation (input) "ET_GRANDCENTRAL \<equiv> (0::int)"
abbreviation (input) "ET_SYS \<equiv> (-1::int)"
abbreviation (input) "ET_END \<equiv> (-1::int)"
abbreviation (input) "ET_NEWHEAD \<equiv> (-2::int)"

abbreviation (input) "ET_STATION_UNUSED \<equiv> (0::int)"
abbreviation (input) "ET_STATION_CREATING \<equiv> (1::int)"
abbreviation (input) "ET_STATION_IDLE \<equiv> (2::int)"
abbreviation (input) "ET_STATION_ACTIVE \<equiv> (3::int)"
abbreviation (input) "ET_STATION_USER_MULTI \<equiv> (0::int)"
abbreviation (input) "ET_STATION_USER_SINGLE \<equiv> (1::int)"
abbreviation (input) "ET_STATION_NONBLOCKING \<equiv> (0::int)"
abbreviation (input) "ET_STATION_BLOCKING \<equiv> (1::int)"
abbreviation (input) "ET_STATION_SELECT_ALL \<equiv> (1::int)"
abbreviation (input) "ET_STATION_SELECT_MATCH \<equiv> (2::int)"
abbreviation (input) "ET_STATION_SELECT_USER \<equiv> (3::int)"
abbreviation (input) "ET_STATION_SELECT_RROBIN \<equiv> (4::int)"
abbreviation (input) "ET_STATION_SELECT_EQUALCUE \<equiv> (5::int)"
abbreviation (input) "ET_STATION_RESTORE_OUT \<equiv> (0::int)"
abbreviation (input) "ET_STATION_RESTORE_IN \<equiv> (1::int)"
abbreviation (input) "ET_STATION_RESTORE_GC \<equiv> (2::int)"
abbreviation (input) "ET_STATION_RESTORE_REDIST \<equiv> (3::int)"
abbreviation (input) "ET_STATION_SERIAL \<equiv> (0::int)"
abbreviation (input) "ET_STATION_PARALLEL \<equiv> (1::int)"
abbreviation (input) "ET_STATION_CUE \<equiv> (10::int)"
abbreviation (input) "ET_STATION_PRESCALE \<equiv> (1::int)"
abbreviation (input) "ET_STATION_SELECT_INTS \<equiv> (6::nat)"

abbreviation (input) "ET_LOW \<equiv> (0::int)"
abbreviation (input) "ET_HIGH \<equiv> (1::int)"
abbreviation (input) "ET_EVENT_NORMAL \<equiv> (0::int)"
abbreviation (input) "ET_EVENT_TEMP \<equiv> (1::int)"
abbreviation (input) "ET_EVENT_USED \<equiv> (0::int)"
abbreviation (input) "ET_EVENT_NEW \<equiv> (1::int)"
abbreviation (input) "ET_DATA_OK \<equiv> (0::int)"
abbreviation (input) "ET_DATA_CORRUPT \<equiv> (1::int)"
abbreviation (input) "ET_DATA_POSSIBLY_CORRUPT \<equiv> (2::int)"
abbreviation (input) "ET_SLEEP \<equiv> (0::int)"
abbreviation (input) "ET_TIMED \<equiv> (1::int)"
abbreviation (input) "ET_ASYNC \<equiv> (2::int)"
abbreviation (input) "ET_REMOTE \<equiv> (0::int)"
abbreviation (input) "ET_LOCAL \<equiv> (1::int)"
abbreviation (input) "ET_LOCAL_NOSHARE \<equiv> (2::int)"

abbreviation (input) "ET_LANG_C \<equiv> (0::int)"
abbreviation (input) "ET_LANG_JAVA \<equiv> (2::int)"
abbreviation (input) "ET_STATNAME_LENGTH \<equiv> (48::nat)"
abbreviation (input) "ET_ATTACHMENTS_MAX \<equiv> (100::nat)"
abbreviation (input) "ET_PROCESSES_MAX \<equiv> (100::nat)"
abbreviation (input) "ET_ATT_UNUSED \<equiv> (0::int)"
abbreviation (input) "ET_ATT_ACTIVE \<equiv> (1::int)"
abbreviation (input) "ET_ATT_CONTINUE \<equiv> (0::int)"
abbreviation (input) "ET_ATT_QUIT \<equiv> (1::int)"
abbreviation (input) "ET_ATT_UNBLOCKED \<equiv> (0::int)"
abbreviation (input) "ET_ATT_BLOCKED \<equiv> (1::int)"
abbreviation (input) "ET_ATT_NOSLEEP \<equiv> (0::int)"
abbreviation (input) "ET_ATT_SLEEP \<equiv> (1::int)"
abbreviation (input) "ET_PROC_CLOSED \<equiv> (0::int)"
abbreviation (input) "ET_PROC_OPEN \<equiv> (1::int)"
abbreviation (input) "ET_PROC_ETDEAD \<equiv> (0::int)"
abbreviation (input) "ET_PROC_ETOK \<equiv> (1::int)"
abbreviation (input) "ET_STRUCT_NEW \<equiv> (0::int)"
abbreviation (input) "ET_STRUCT_OK \<equiv> (1::int)"
abbreviation (input) "ET_THREAD_KEEP \<equiv> (0::int)"
abbreviation (input) "ET_THREAD_KILL \<equiv> (1::int)"
abbreviation (input) "ET_VERSION \<equiv> (16::int)"
abbreviation (input) "ET_BIT64_MASK \<equiv> (1::32 word)"
abbreviation (input) "ET_KILL_MASK \<equiv> (2::32 word)"
abbreviation (input) "ET_DEBUG_NONE \<equiv> (0::int)"
abbreviation (input) "ET_DEBUG_SEVERE \<equiv> (1::int)"
abbreviation (input) "ET_DEBUG_ERROR \<equiv> (2::int)"
abbreviation (input) "ET_DEBUG_WARN \<equiv> (3::int)"
abbreviation (input) "ET_DEBUG_INFO \<equiv> (4::int)"
abbreviation (input) "ET_FIX_READ \<equiv> (0::int)"
abbreviation (input) "ET_FIX_DUMP \<equiv> (1::int)"

text \<open>
  An event's data pointer is null, the event's own place in the shared data area, or the
  mapping of the temporary file of that name.
\<close>

datatype dataptr = DNull | DShared nat | DTemp string

record et_event =
  ev_next :: evptr
  ev_tempdata :: dataptr
  ev_pdata :: dataptr
  ev_data :: dataptr
  ev_length :: uint64
  ev_memsize :: uint64
  ev_pointer :: uint64
  ev_modify :: int
  ev_priority :: int
  ev_owner :: int
  ev_temp :: int
  ev_age :: int
  ev_datastatus :: int
  ev_byteorder :: int
  ev_group :: int
  ev_place :: int
  ev_control :: "int list"
  ev_filename :: string

record et_list =
  l_cnt :: int
  l_lasthigh :: int
  l_events_try :: uint64
  l_events_in :: uint64
  l_events_out :: uint64
  l_firstevent :: evptr
  l_lastevent :: evptr
  l_mutex :: bool

record et_fixin =
  fi_first :: evptr
  fi_eventsin :: uint64
  fi_start :: int
  fi_cnt :: int
  fi_num :: int
  fi_call :: int

record et_fixout =
  fo_start :: int
  fo_cnt :: int
  fo_num :: int

record et_fix =
  fix_in :: et_fixin
  fix_out :: et_fixout

record et_stat_config =
  cf_init :: int
  cf_flow_mode :: int
  cf_user_mode :: int
  cf_restore_mode :: int
  cf_block_mode :: int
  cf_prescale :: int
  cf_cue :: int
  cf_select_mode :: int
  cf_select :: "int list"
  cf_fname :: string
  cf_lib :: string
  cf_classs :: string

record et_stat_data =
  sd_status :: int
  sd_pid_create :: int
  sd_nattachments :: int
  sd_att :: "int list"

record et_station =
  st_num :: int
  st_conductor :: int
  st_next :: int
  st_prev :: int
  st_nextparallel :: int
  st_prevparallel :: int
  st_waslast :: int
  st_name :: string
  st_fix :: et_fix
  st_data :: et_stat_data
  st_config :: et_stat_config
  st_list_in :: et_list
  st_list_out :: et_list

record et_proc =
  pr_num :: int
  pr_att :: "int list"
  pr_time :: uint64
  pr_nattachments :: int
  pr_status :: int
  pr_et_status :: int
  pr_heartbeat :: "32 word"
  pr_pid :: int

record et_attach =
  at_num :: int
  at_proc :: int
  at_stat :: int
  at_status :: int
  at_blocked :: int
  at_quit :: int
  at_sleep :: int
  at_events_put :: uint64
  at_events_get :: uint64
  at_events_dump :: uint64
  at_events_make :: uint64
  at_pid :: int
  at_host :: string
  at_interface :: string

record et_sys_config =
  sc_event_size :: uint64
  sc_init :: int
  sc_nevents :: int
  sc_ntemps :: int
  sc_nstations :: int
  sc_nprocesses :: int
  sc_nattachments :: int
  sc_groupCount :: int
  sc_groups :: "int list"
  sc_filename :: string
  sc_port :: int
  sc_serverport :: int
  sc_tcpSendBufSize :: int
  sc_tcpRecvBufSize :: int
  sc_tcpNoDelay :: int
  sc_mcastaddrs :: "string list"

record et_system =
  sy_version :: int
  sy_nselects :: int
  sy_bitInfo :: "32 word"
  sy_asthread :: int
  sy_nstations :: int
  sy_ntemps :: int
  sy_nprocesses :: int
  sy_nattachments :: int
  sy_heartbeat :: "32 word"
  sy_hz :: int
  sy_port :: int
  sy_stat_head :: int
  sy_stat_tail :: int
  sy_mainpid :: int
  sy_host :: string
  sy_proc :: "et_proc list"
  sy_attach :: "et_attach list"
  sy_config :: et_sys_config

type_synonym evheap = "nat \<Rightarrow> et_event"

record et_id =
  id_init :: int
  id_alive :: bool
  id_closed :: bool
  id_lang :: int
  id_proc :: int
  id_cleanup :: int
  id_debug :: int
  id_nevents :: int
  id_group :: int
  id_version :: int
  id_nselects :: int
  id_esize :: uint64
  id_locality :: int
  id_port :: int
  id_ethost :: string
  id_localAddr :: string
  id_sys :: et_system
  id_stats :: "et_station list"
  id_histogram :: "int list"
  id_events :: evheap

section \<open>Initialisation (et\_init.c)\<close>

definition et_init_process :: "et_proc \<Rightarrow> et_proc" where
  "et_init_process p = p\<lparr>pr_time := 0, pr_num := -1, pr_nattachments := 0,
     pr_et_status := ET_PROC_ETDEAD, pr_heartbeat := 0, pr_pid := -1,
     pr_att := replicate ET_ATTACHMENTS_MAX (-1), pr_status := ET_PROC_CLOSED\<rparr>"

definition et_init_attachment :: "et_attach \<Rightarrow> et_attach" where
  "et_init_attachment a = a\<lparr>at_num := -1, at_proc := -1, at_stat := -1,
     at_blocked := ET_ATT_UNBLOCKED, at_quit := ET_ATT_CONTINUE, at_sleep := ET_ATT_NOSLEEP,
     at_events_put := 0, at_events_get := 0, at_events_dump := 0, at_events_make := 0,
     at_pid := -1, at_host := ''CANNOT_FIND_HOST'', at_interface := [],
     at_status := ET_ATT_UNUSED\<rparr>"

definition et_init_llist :: "et_list \<Rightarrow> et_list" where
  "et_init_llist pl = pl\<lparr>l_cnt := 0, l_lasthigh := 0, l_events_try := 0, l_events_in := 0,
     l_events_out := 0, l_firstevent := None, l_lastevent := None\<rparr>"

definition et_init_station :: "et_station \<Rightarrow> et_station" where
  "et_init_station ps = ps\<lparr>st_num := -1, st_next := -1, st_prev := -1,
     st_nextparallel := -1, st_prevparallel := -1, st_waslast := 0, st_name := [],
     st_conductor := ET_THREAD_KEEP,
     st_config := (st_config ps)\<lparr>cf_flow_mode := ET_STATION_SERIAL,
       cf_user_mode := ET_STATION_USER_MULTI, cf_restore_mode := ET_STATION_RESTORE_OUT,
       cf_block_mode := ET_STATION_BLOCKING, cf_select_mode := ET_STATION_SELECT_ALL,
       cf_cue := ET_STATION_CUE, cf_prescale := ET_STATION_PRESCALE,
       cf_fname := [], cf_lib := [], cf_classs := [],
       cf_select := replicate ET_STATION_SELECT_INTS (-1), cf_init := ET_STRUCT_OK\<rparr>,
     st_fix := \<lparr>fix_in = \<lparr>fi_first = None, fi_eventsin = 0, fi_start = 0, fi_cnt = 0,
         fi_num = 0, fi_call = ET_FIX_READ\<rparr>,
       fix_out = \<lparr>fo_start = 0, fo_cnt = 0, fo_num = 0\<rparr>\<rparr>,
     st_list_in := et_init_llist (st_list_in ps),
     st_list_out := et_init_llist (st_list_out ps),
     st_data := (st_data ps)\<lparr>sd_nattachments := 0, sd_pid_create := -1,
       sd_att := replicate ET_ATTACHMENTS_MAX (-1), sd_status := ET_STATION_UNUSED\<rparr>\<rparr>"

definition et_init_event :: "et_event \<Rightarrow> et_event" where
  "et_init_event pe = pe\<lparr>ev_owner := ET_SYS, ev_next := None, ev_tempdata := DNull,
     ev_pdata := DNull, ev_length := 0, ev_memsize := 0, ev_priority := ET_LOW,
     ev_temp := ET_EVENT_NORMAL, ev_age := ET_EVENT_NEW, ev_datastatus := ET_DATA_OK,
     ev_byteorder := 0x04030201, ev_group := 0, ev_pointer := 0, ev_modify := 0,
     ev_control := replicate ET_STATION_SELECT_INTS 0\<rparr>"

definition et_init_event_keep :: "et_event \<Rightarrow> et_event" where
  "et_init_event_keep pe =
     (let group = ev_group pe; owner = ev_owner pe
      in (et_init_event pe)\<lparr>ev_owner := owner, ev_group := group\<rparr>)"

definition et_init_stats_att :: "et_attach \<Rightarrow> et_attach" where
  "et_init_stats_att a = a\<lparr>at_events_put := 0, at_events_get := 0, at_events_dump := 0,
     at_events_make := 0\<rparr>"

definition et_init_stats_station :: "et_station \<Rightarrow> et_station" where
  "et_init_stats_station ps = ps\<lparr>
     st_list_in := (st_list_in ps)\<lparr>l_events_try := 0, l_events_out := 0, l_events_in := 0\<rparr>,
     st_list_out := (st_list_out ps)\<lparr>l_events_try := 0, l_events_out := 0, l_events_in := 0\<rparr>\<rparr>"

definition et_init_histogram :: "et_id \<Rightarrow> et_id" where
  "et_init_histogram eid = eid\<lparr>id_histogram :=
     replicate (nat (id_nevents eid + 1)) 0 @ drop (nat (id_nevents eid + 1)) (id_histogram eid)\<rparr>"

definition et_init_stats_allatts :: "et_id \<Rightarrow> et_id" where
  "et_init_stats_allatts eid = eid\<lparr>id_sys := (id_sys eid)\<lparr>sy_attach :=
     map et_init_stats_att (take ET_ATTACHMENTS_MAX (sy_attach (id_sys eid))) @
     drop ET_ATTACHMENTS_MAX (sy_attach (id_sys eid))\<rparr>\<rparr>"

definition et_init_stats_allstations :: "et_id \<Rightarrow> et_id" where
  "et_init_stats_allstations eid =
     (let n = nat (sc_nstations (sy_config (id_sys eid)))
      in eid\<lparr>id_stats := map et_init_stats_station (take n (id_stats eid)) @ drop n (id_stats eid)\<rparr>)"

definition et_init_stats_all :: "et_id \<Rightarrow> et_id" where
  "et_init_stats_all eid = et_init_histogram (et_init_stats_allstations (et_init_stats_allatts eid))"

text \<open>
  A new id: the memory is not cleared, so the fields that are not set keep what was there, and the
  pointers to the shared memory are null until the system is started or opened.
\<close>

definition et_id_init :: "et_id \<Rightarrow> et_id" where
  "et_id_init eid = eid\<lparr>id_lang := ET_LANG_C, id_alive := False, id_closed := False, id_proc := ET_SYS,
     id_cleanup := 0, id_debug := ET_DEBUG_ERROR, id_nevents := 0, id_group := 0, id_version := ET_VERSION,
     id_nselects := int ET_STATION_SELECT_INTS, id_esize := 0, id_locality := ET_LOCAL, id_port := 0,
     id_ethost := [], id_localAddr := [], id_init := ET_STRUCT_OK\<rparr>"

section \<open>Sample data\<close>

text \<open>
  Concrete values at which the theorems of the development are applied: an event, a list head
  and a station in the state the \<open>et_init\<close> routines leave, and a local, live id over given
  stations and events. \<open>sample_heap hs\<close> gives the events listed in \<open>hs\<close> high priority.
\<close>

definition sample_event :: et_event where
  "sample_event = et_init_event \<lparr>ev_next = None, ev_tempdata = DNull, ev_pdata = DNull, ev_data = DNull,
     ev_length = 0, ev_memsize = 0, ev_pointer = 0, ev_modify = 0, ev_priority = 0, ev_owner = -1,
     ev_temp = 0, ev_age = 0, ev_datastatus = 0, ev_byteorder = 0, ev_group = 0, ev_place = 0,
     ev_control = [], ev_filename = []\<rparr>"

definition sample_heap :: "nat list \<Rightarrow> evheap" where
  "sample_heap hs i = sample_event\<lparr>ev_priority := (if List.member hs i then ET_HIGH else ET_LOW)\<rparr>"

definition sample_list :: et_list where
  "sample_list = \<lparr>l_cnt = 0, l_lasthigh = 0, l_events_try = 0, l_events_in = 0, l_events_out = 0,
     l_firstevent = None, l_lastevent = None, l_mutex = False\<rparr>"

definition sample_config :: et_stat_config where
  "sample_config = \<lparr>cf_init = ET_STRUCT_OK, cf_flow_mode = 0, cf_user_mode = 0, cf_restore_mode = 0,
     cf_block_mode = ET_STATION_BLOCKING, cf_prescale = 1, cf_cue = 10,
     cf_select_mode = ET_STATION_SELECT_ALL, cf_select = replicate ET_STATION_SELECT_INTS (-1),
     cf_fname = [], cf_lib = [], cf_classs = []\<rparr>"

definition sample_station :: et_station where
  "sample_station = et_init_station \<lparr>st_num = 0, st_conductor = 0, st_next = -1, st_prev = -1,
     st_nextparallel = -1, st_prevparallel = -1, st_waslast = 0, st_name = [],
     st_fix = \<lparr>fix_in = \<lparr>fi_first = None, fi_eventsin = 0, fi_start = 0, fi_cnt = 0, fi_num = 0, fi_call = 0\<rparr>,
               fix_out = \<lparr>fo_start = 0, fo_cnt = 0, fo_num = 0\<rparr>\<rparr>,
     st_data = \<lparr>sd_status = 0, sd_pid_create = 0, sd_nattachments = 0, sd_att = []\<rparr>,
     st_config = sample_config, st_list_in = sample_list, st_list_out = sample_list\<rparr>"

definition sample_attach :: et_attach where
  "sample_attach = et_init_attachment \<lparr>at_num = 0, at_proc = 0, at_stat = 0, at_status = 0, at_blocked = 0,
     at_quit = 0, at_sleep = 0, at_events_put = 0, at_events_get = 0, at_events_dump = 0,
     at_events_make = 0, at_pid = 0, at_host = [], at_interface = []\<rparr>"

definition sample_id :: "nat \<Rightarrow> et_station list \<Rightarrow> evheap \<Rightarrow> et_id" where
  "sample_id n sts ev = \<lparr>id_init = ET_STRUCT_OK, id_alive = True, id_closed = False, id_lang = ET_LANG_C, id_proc = ET_SYS,
     id_cleanup = 0, id_debug = ET_DEBUG_ERROR, id_nevents = int n, id_group = 0, id_version = ET_VERSION,
     id_nselects = int ET_STATION_SELECT_INTS, id_esize = 1000, id_locality = ET_LOCAL, id_port = 11111, id_ethost = [], id_localAddr = [],
     id_sys = \<lparr>sy_version = ET_VERSION, sy_nselects = int ET_STATION_SELECT_INTS, sy_bitInfo = ET_BIT64_MASK, sy_asthread = 0,
       sy_nstations = int (length sts), sy_ntemps = 0, sy_nprocesses = 0, sy_nattachments = 0,
       sy_heartbeat = 0, sy_hz = 100, sy_port = 11111, sy_stat_head = 0, sy_stat_tail = 0, sy_mainpid = 0, sy_host = [], sy_proc = [],
       sy_attach = [sample_attach, sample_attach, sample_attach],
       sy_config = \<lparr>sc_event_size = 1000, sc_init = ET_STRUCT_OK, sc_nevents = int n, sc_ntemps = int n,
         sc_nstations = int (length sts), sc_nprocesses = 3, sc_nattachments = 3, sc_groupCount = 1,
         sc_groups = [int n], sc_filename = ''/tmp/et'', sc_port = 11111, sc_serverport = 11111,
         sc_tcpSendBufSize = 0, sc_tcpRecvBufSize = 0, sc_tcpNoDelay = 0, sc_mcastaddrs = []\<rparr>\<rparr>,
     id_stats = sts, id_histogram = replicate (n + 1) 0, id_events = ev\<rparr>"

lemma sample_id_simps [simp]:
  "id_stats (sample_id n sts ev) = sts" "id_events (sample_id n sts ev) = ev"
  "sc_nevents (sy_config (id_sys (sample_id n sts ev))) = int n"
  "id_histogram (sample_id n sts ev) = replicate (n + 1) 0"
  "sy_attach (id_sys (sample_id n sts ev)) = [sample_attach, sample_attach, sample_attach]"
  by (simp_all add: sample_id_def)

lemma sample_list_simps [simp]:
  "l_cnt sample_list = 0" "l_lasthigh sample_list = 0" "\<not> l_mutex sample_list"
  "l_events_in sample_list = 0" "l_events_out sample_list = 0" "l_firstevent sample_list = None"
  by (simp_all add: sample_list_def)

lemma sample_station_simps [simp]:
  "st_list_in sample_station = sample_list" "st_list_out sample_station = sample_list"
  by (simp_all add: sample_station_def et_init_station_def et_init_llist_def sample_list_def)

lemma sample_heap_simps [simp]:
  "ev_priority (sample_heap hs i) = (if i \<in> set hs then ET_HIGH else ET_LOW)"
  "ev_owner (sample_heap hs i) = ET_SYS" "ev_next (sample_heap hs i) = None"
  "ev_group (sample_heap hs i) = 0"
  by (simp_all add: sample_heap_def sample_event_def et_init_event_def)

lemmas sample_defs = sample_event_def sample_heap_def sample_list_def sample_config_def sample_station_def
  sample_attach_def sample_id_def et_init_event_def et_init_station_def et_init_llist_def
  et_init_attachment_def

end
