(* ===== verification/ET_LList.thy ===== *)
theory ET_LList
  imports ET_Types
begin

text \<open>
  The linked lists of events that stations hold (src/libsrc/et\_readwrite.c, routines
  \<open>et_llist_read\<close>, \<open>et_llist_write_gc\<close>, \<open>et_llist_write\<close>), over the heap of event
  structures. A list is given by its \<open>et_list\<close> head and the \<open>next\<close> pointers of its events; the
  \<open>next\<close> pointer of its last event is never read and may hold anything.

  The abstraction \<open>list_ok ev pl xs\<close> relates a list head to the sequence \<open>xs\<close> of event
  numbers it stands for; \<open>hi_first ev xs\<close> is the priority order; \<open>pri_append\<close> is the abstract
  operation that \<open>et_llist_write\<close> refines.
\<close>

section \<open>Stores into the event heap\<close>

definition set_next :: "evheap \<Rightarrow> nat \<Rightarrow> evptr \<Rightarrow> evheap" where
  "set_next ev i p = ev(i := (ev i)\<lparr>ev_next := p\<rparr>)"

definition set_owner :: "evheap \<Rightarrow> nat \<Rightarrow> int \<Rightarrow> evheap" where
  "set_owner ev i a = ev(i := (ev i)\<lparr>ev_owner := a\<rparr>)"

definition is_high :: "evheap \<Rightarrow> nat \<Rightarrow> bool" where
  "is_high ev i \<longleftrightarrow> ev_priority (ev i) = ET_HIGH"

section \<open>Routines for the ET system process\<close>

fun follow :: "evheap \<Rightarrow> nat \<Rightarrow> evptr \<Rightarrow> nat list option" where
  "follow ev 0 p = Some []"
| "follow ev (Suc n) None = None"
| "follow ev (Suc n) (Some i) =
     (case follow ev n (ev_next (ev i)) of None \<Rightarrow> None | Some r \<Rightarrow> Some (i # r))"

definition et_llist_read :: "evheap \<Rightarrow> et_list \<Rightarrow> (int \<times> nat list \<times> et_list) option" where
  "et_llist_read ev pl =
     (let cnt = l_cnt pl in
      if cnt = 0 then Some (ET_ERROR, [], pl)
      else case follow ev (nat cnt) (l_firstevent pl) of
             None \<Rightarrow> None
           | Some pe \<Rightarrow> Some (cnt, pe, pl\<lparr>l_firstevent := None, l_cnt := 0, l_lasthigh := 0,
                           l_events_out := l_events_out pl + word_of_int cnt\<rparr>))"

fun link_up :: "evheap \<Rightarrow> nat list \<Rightarrow> evheap" where
  "link_up ev (x # y # zs) = link_up (set_next ev x (Some y)) (y # zs)"
| "link_up ev zs = ev"

definition put_first :: "evheap \<Rightarrow> et_list \<Rightarrow> nat \<Rightarrow> (evheap \<times> et_list) option" where
  "put_first ev pl e =
     (if l_cnt pl = 0 then Some (ev, pl\<lparr>l_firstevent := Some e\<rparr>)
      else case l_lastevent pl of
             None \<Rightarrow> None
           | Some l \<Rightarrow> Some (set_next ev l (Some e), pl))"

definition et_llist_write_gc ::
  "int \<Rightarrow> evheap \<Rightarrow> et_list \<Rightarrow> nat list \<Rightarrow> int \<Rightarrow> (int \<times> evheap \<times> et_list) option" where
  "et_llist_write_gc nevents_max ev pl pe num =
     (if num > nevents_max - l_cnt pl then Some (ET_ERROR, ev, pl)
      else let es = take (nat num) pe in
        if es = [] then None
        else case put_first ev pl (hd es) of
               None \<Rightarrow> None
             | Some (ev1, pl1) \<Rightarrow>
                 Some (ET_OK, link_up ev1 es,
                   pl1\<lparr>l_lastevent := Some (last es),
                       l_events_in := l_events_in pl1 + word_of_int num,
                       l_cnt := l_cnt pl1 + num\<rparr>))"

fun scan_high :: "evheap \<Rightarrow> nat \<Rightarrow> evptr \<Rightarrow> evptr \<Rightarrow> int \<Rightarrow> (evptr \<times> evptr \<times> int) option" where
  "scan_high ev 0 pevent pe_lasthigh high_cnt = Some (pevent, pe_lasthigh, high_cnt)"
| "scan_high ev (Suc n) None pe_lasthigh high_cnt = None"
| "scan_high ev (Suc n) (Some i) pe_lasthigh high_cnt =
     (if is_high ev i then scan_high ev n (ev_next (ev i)) (Some i) (high_cnt + 1)
      else Some (Some i, pe_lasthigh, high_cnt))"

fun add_high :: "evheap \<Rightarrow> evptr \<Rightarrow> nat \<Rightarrow> nat list \<Rightarrow> nat \<Rightarrow> evheap \<times> nat" where
  "add_high ev pevent x [] num_high = (ev, num_high)"
| "add_high ev pevent x (y # ys) num_high =
     (if \<not> is_high ev y then (ev, num_high)
      else add_high (set_next (set_next ev x (Some y)) y pevent) pevent y ys (Suc num_high))"

definition insert_first_high ::
  "evheap \<Rightarrow> et_list \<Rightarrow> evptr \<Rightarrow> nat \<Rightarrow> evheap \<times> et_list" where
  "insert_first_high ev pl pe_lasthigh e =
     (case pe_lasthigh of
        Some h \<Rightarrow> (set_next (set_next ev e (ev_next (ev h))) h (Some e), pl)
      | None \<Rightarrow> (set_next ev e (l_firstevent pl), pl\<lparr>l_firstevent := Some e\<rparr>))"

definition add_lows ::
  "evheap \<Rightarrow> et_list \<Rightarrow> nat list \<Rightarrow> nat \<Rightarrow> (evheap \<times> et_list) option" where
  "add_lows ev pl es num_high =
     (if num_high < length es then
        let ev1 = link_up ev (drop num_high es) in
        case l_lastevent pl of
          None \<Rightarrow> None
        | Some l \<Rightarrow> Some (set_next ev1 l (Some (es ! num_high)), pl\<lparr>l_lastevent := Some (last es)\<rparr>)
      else Some (ev, pl))"

definition write_high :: "evheap \<Rightarrow> et_list \<Rightarrow> nat list \<Rightarrow> (evheap \<times> et_list) option" where
  "write_high ev pl es =
     (case scan_high ev (nat (l_cnt pl)) (l_firstevent pl) None 0 of
        None \<Rightarrow> None
      | Some (pevent, pe_lasthigh, high_cnt) \<Rightarrow>
          let (ev1, pl1) = insert_first_high ev pl pe_lasthigh (hd es);
              (ev2, num_high) = add_high ev1 pevent (hd es) (tl es) 1;
              pl2 = (if high_cnt = l_cnt pl then pl1\<lparr>l_lastevent := Some (es ! (num_high - 1))\<rparr>
                     else pl1)
          in add_lows ev2 pl2 es num_high)"

definition write_all :: "evheap \<Rightarrow> et_list \<Rightarrow> nat list \<Rightarrow> (evheap \<times> et_list) option" where
  "write_all ev pl es =
     (case put_first ev pl (hd es) of
        None \<Rightarrow> None
      | Some (ev1, pl1) \<Rightarrow> Some (link_up ev1 es, pl1\<lparr>l_lastevent := Some (last es)\<rparr>))"

definition et_llist_write ::
  "int \<Rightarrow> evheap \<Rightarrow> et_list \<Rightarrow> nat list \<Rightarrow> int \<Rightarrow> (int \<times> evheap \<times> et_list) option" where
  "et_llist_write nevents_max ev pl pe num0 =
     (let num = (if num0 > nevents_max - l_cnt pl then nevents_max - l_cnt pl else num0);
          es = take (nat num) pe in
      if es = [] then None
      else case (if ev_priority (ev (hd es)) = ET_LOW \<or> l_cnt pl = 0
                 then write_all ev pl es else write_high ev pl es) of
             None \<Rightarrow> None
           | Some (ev1, pl1) \<Rightarrow>
               Some (num, ev1, pl1\<lparr>l_events_in := l_events_in pl1 + word_of_int num,
                                   l_cnt := l_cnt pl1 + num\<rparr>))"

section \<open>Abstraction\<close>

fun linked :: "evheap \<Rightarrow> nat list \<Rightarrow> bool" where
  "linked ev (x # y # zs) \<longleftrightarrow> ev_next (ev x) = Some y \<and> linked ev (y # zs)"
| "linked ev zs \<longleftrightarrow> True"

definition list_ok :: "evheap \<Rightarrow> et_list \<Rightarrow> nat list \<Rightarrow> bool" where
  "list_ok ev pl xs \<longleftrightarrow> l_cnt pl = int (length xs) \<and> distinct xs \<and> linked ev xs \<and>
     (xs \<noteq> [] \<longrightarrow> l_firstevent pl = Some (hd xs) \<and> l_lastevent pl = Some (last xs))"

definition hi_first :: "evheap \<Rightarrow> nat list \<Rightarrow> bool" where
  "hi_first ev xs \<longleftrightarrow> (\<forall>x \<in> set (dropWhile (is_high ev) xs). \<not> is_high ev x)"

definition pri_append :: "evheap \<Rightarrow> nat list \<Rightarrow> nat list \<Rightarrow> nat list" where
  "pri_append ev xs es = filter (is_high ev) xs @ filter (is_high ev) es @
     filter (\<lambda>x. \<not> is_high ev x) xs @ filter (\<lambda>x. \<not> is_high ev x) es"

definition pri_ok :: "evheap \<Rightarrow> nat list \<Rightarrow> bool" where
  "pri_ok ev xs \<longleftrightarrow> (\<forall>x \<in> set xs. ev_priority (ev x) = ET_LOW \<or> ev_priority (ev x) = ET_HIGH)"

text \<open>Nothing but \<open>next\<close> pointers of the events in \<open>S\<close> differs.\<close>

definition next_only :: "nat set \<Rightarrow> evheap \<Rightarrow> evheap \<Rightarrow> bool" where
  "next_only S ev ev' \<longleftrightarrow> (\<forall>i. (i \<notin> S \<longrightarrow> ev' i = ev i) \<and>
     (ev' i)\<lparr>ev_next := None\<rparr> = (ev i)\<lparr>ev_next := None\<rparr>)"

section \<open>Segments\<close>

lemma ev_next_set_next [simp]: "ev_next (set_next ev i p j) = (if j = i then p else ev_next (ev j))"
  by (simp add: set_next_def)

lemma set_next_other [simp]: "j \<noteq> i \<Longrightarrow> set_next ev i p j = ev j"
  by (simp add: set_next_def)

lemma set_next_fields [simp]:
  "ev_priority (set_next ev i p j) = ev_priority (ev j)"
  "ev_owner (set_next ev i p j) = ev_owner (ev j)"
  "ev_group (set_next ev i p j) = ev_group (ev j)"
  by (simp_all add: set_next_def)

lemma set_owner_fields [simp]:
  "ev_priority (set_owner ev i a j) = ev_priority (ev j)"
  "ev_next (set_owner ev i a j) = ev_next (ev j)"
  "ev_group (set_owner ev i a j) = ev_group (ev j)"
  "ev_owner (set_owner ev i a j) = (if j = i then a else ev_owner (ev j))"
  by (simp_all add: set_owner_def)

lemma is_high_set_next [simp]: "is_high (set_next ev i p) = is_high ev"
  by (simp add: is_high_def fun_eq_iff)

lemma is_high_set_owner [simp]: "is_high (set_owner ev i a) = is_high ev"
  by (simp add: is_high_def fun_eq_iff)

lemma linked_Cons:
  "linked ev (x # xs) \<longleftrightarrow> linked ev xs \<and> (xs \<noteq> [] \<longrightarrow> ev_next (ev x) = Some (hd xs))"
  by (cases xs) auto

lemma linked_append:
  "linked ev (xs @ ys) \<longleftrightarrow> linked ev xs \<and> linked ev ys \<and>
     (xs \<noteq> [] \<longrightarrow> ys \<noteq> [] \<longrightarrow> ev_next (ev (last xs)) = Some (hd ys))"
  by (induction xs) (auto simp: linked_Cons)

lemma linked_cong:
  assumes "\<And>x. x \<in> set (butlast xs) \<Longrightarrow> ev_next (ev' x) = ev_next (ev x)"
  shows "linked ev' xs = linked ev xs"
  using assms by (induction xs rule: linked.induct [of _ ev']) simp_all

lemma linked_set_next:
  "i \<notin> set (butlast xs) \<Longrightarrow> linked (set_next ev i p) xs = linked ev xs"
  by (rule linked_cong) auto

lemma linked_set_owner [simp]: "linked (set_owner ev i a) xs = linked ev xs"
  by (rule linked_cong) auto

lemma follow_linked:
  assumes "linked ev xs" "n \<le> length xs" "xs \<noteq> []"
  shows "follow ev n (Some (hd xs)) = Some (take n xs)"
  using assms
proof (induction n arbitrary: xs)
  case 0
  then show ?case by simp
next
  case (Suc n)
  then obtain y ys where xs: "xs = y # ys" by (cases xs) auto
  show ?case
  proof (cases "ys = []")
    case True
    with Suc.prems xs show ?thesis by simp
  next
    case False
    with Suc.prems xs have "ev_next (ev y) = Some (hd ys)" "linked ev ys" "n \<le> length ys"
      by (auto simp: linked_Cons)
    with Suc.IH [of ys] False xs show ?thesis by simp
  qed
qed

lemma ev_next_link_up_other [simp]:
  "x \<notin> set (butlast es) \<Longrightarrow> link_up ev es x = ev x"
  by (induction ev es rule: link_up.induct) (auto split: if_splits)

lemma is_high_link_up [simp]: "is_high (link_up ev es) = is_high ev"
  by (induction ev es rule: link_up.induct) auto

lemma linked_link_up: "distinct es \<Longrightarrow> linked (link_up ev es) es"
proof (induction ev es rule: link_up.induct)
  case (1 ev x y zs)
  then have "x \<notin> set (butlast (y # zs))"
    by (auto dest: in_set_butlastD)
  with 1 show ?case by simp
qed auto

lemma next_only_refl [simp]: "next_only S ev ev"
  by (simp add: next_only_def)

lemma next_only_mono: "next_only S ev ev' \<Longrightarrow> S \<subseteq> T \<Longrightarrow> next_only T ev ev'"
  by (auto simp: next_only_def)

lemma next_only_trans: "next_only S ev ev1 \<Longrightarrow> next_only S ev1 ev2 \<Longrightarrow> next_only S ev ev2"
  by (simp add: next_only_def)

lemma next_only_set_next: "i \<in> S \<Longrightarrow> next_only S ev (set_next ev i p)"
  by (auto simp: next_only_def set_next_def)

lemma next_only_set_next_trans:
  "next_only S ev ev' \<Longrightarrow> i \<in> S \<Longrightarrow> next_only S ev (set_next ev' i p)"
  by (blast intro: next_only_trans next_only_set_next)

lemma next_only_link_up: "set es \<subseteq> S \<Longrightarrow> next_only S ev (link_up ev es)"
  by (induction ev es rule: link_up.induct) (auto intro: next_only_trans next_only_set_next)

lemma next_onlyD:
  assumes "next_only S ev ev'"
  shows "i \<notin> S \<Longrightarrow> ev' i = ev i" "ev_priority (ev' i) = ev_priority (ev i)"
    "ev_owner (ev' i) = ev_owner (ev i)" "ev_group (ev' i) = ev_group (ev i)"
proof -
  from assms have eq: "(ev' i)\<lparr>ev_next := None\<rparr> = (ev i)\<lparr>ev_next := None\<rparr>"
    by (simp add: next_only_def)
  show "ev_priority (ev' i) = ev_priority (ev i)" using arg_cong [OF eq, of ev_priority] by simp
  show "ev_owner (ev' i) = ev_owner (ev i)" using arg_cong [OF eq, of ev_owner] by simp
  show "ev_group (ev' i) = ev_group (ev i)" using arg_cong [OF eq, of ev_group] by simp
  show "i \<notin> S \<Longrightarrow> ev' i = ev i" using assms by (simp add: next_only_def)
qed

lemma next_only_is_high: "next_only S ev ev' \<Longrightarrow> is_high ev' = is_high ev"
  by (simp add: is_high_def fun_eq_iff next_onlyD)

section \<open>The routines refine sequences of events\<close>

lemma list_okD:
  assumes "list_ok ev pl xs"
  shows "l_cnt pl = int (length xs)" "distinct xs" "linked ev xs"
    "xs \<noteq> [] \<Longrightarrow> l_firstevent pl = Some (hd xs)" "xs \<noteq> [] \<Longrightarrow> l_lastevent pl = Some (last xs)"
  using assms by (auto simp: list_ok_def)

lemma list_ok_Nil [simp]: "list_ok ev pl [] \<longleftrightarrow> l_cnt pl = 0"
  by (simp add: list_ok_def)

lemma et_llist_read_list_ok:
  assumes "list_ok ev pl xs" "xs \<noteq> []"
  shows "et_llist_read ev pl = Some (int (length xs), xs, pl\<lparr>l_firstevent := None, l_cnt := 0,
     l_lasthigh := 0, l_events_out := l_events_out pl + of_nat (length xs)\<rparr>)"
  using assms follow_linked [of ev xs "length xs"]
  by (auto simp: et_llist_read_def list_ok_def Let_def)

lemma put_first_list_ok:
  assumes "list_ok ev pl xs" "e \<notin> set xs"
  shows "\<exists>ev1. put_first ev pl e = Some (ev1, pl\<lparr>l_firstevent := Some (hd (xs @ [e]))\<rparr>) \<and>
     next_only (set xs) ev ev1 \<and> linked ev1 xs \<and>
     (xs \<noteq> [] \<longrightarrow> ev_next (ev1 (last xs)) = Some e)"
proof (cases "xs = []")
  case True
  with assms show ?thesis by (simp add: put_first_def list_ok_def)
next
  case False
  have "last xs \<notin> set (butlast xs)"
    using list_okD(2) [OF assms(1)] False by (metis append_butlast_last_id distinct_butlast not_distinct_conv_prefix)
  moreover have "pl\<lparr>l_firstevent := Some (hd (xs @ [e]))\<rparr> = pl"
    using list_okD(4) [OF assms(1) False] False by simp
  ultimately show ?thesis
    using assms False by (auto simp: put_first_def list_ok_def linked_set_next intro!: next_only_set_next)
qed

lemma write_all_list_ok:
  assumes "list_ok ev pl xs" "es \<noteq> []" "distinct (xs @ es)"
  shows "\<exists>ev'. write_all ev pl es =
       Some (ev', pl\<lparr>l_firstevent := Some (hd (xs @ es)), l_lastevent := Some (last (xs @ es))\<rparr>) \<and>
     next_only (set (xs @ es)) ev ev' \<and> linked ev' (xs @ es)"
proof -
  from assms have "hd es \<notin> set xs" by (cases es) auto
  from put_first_list_ok [OF assms(1) this] obtain ev1 where
    pf: "put_first ev pl (hd es) = Some (ev1, pl\<lparr>l_firstevent := Some (hd (xs @ [hd es]))\<rparr>)"
    and no: "next_only (set xs) ev ev1" and lk: "linked ev1 xs"
    and nx: "xs \<noteq> [] \<longrightarrow> ev_next (ev1 (last xs)) = Some (hd es)" by blast
  have keep: "link_up ev1 es x = ev1 x" if "x \<in> set xs" for x
    using assms(3) that by (intro ev_next_link_up_other) (auto dest: in_set_butlastD)
  have "linked (link_up ev1 es) xs"
    using lk by (subst linked_cong) (auto simp: keep dest: in_set_butlastD)
  then have "linked (link_up ev1 es) (xs @ es)"
    using nx keep assms(3) by (auto simp: linked_append linked_link_up)
  moreover have "next_only (set (xs @ es)) ev (link_up ev1 es)"
    by (rule next_only_trans [OF next_only_mono [OF no] next_only_link_up]) auto
  moreover have "hd (xs @ [hd es]) = hd (xs @ es)"
    using assms(2) by (cases xs) auto
  ultimately show ?thesis
    using assms(2) pf by (simp add: write_all_def)
qed

lemma scan_high_linked:
  assumes "linked ev xs" "xs \<noteq> []"
  shows "scan_high ev (length xs) (Some (hd xs)) lh hc =
     Some (if dropWhile (is_high ev) xs = [] then ev_next (ev (last xs))
           else Some (hd (dropWhile (is_high ev) xs)),
           if takeWhile (is_high ev) xs = [] then lh else Some (last (takeWhile (is_high ev) xs)),
           hc + int (length (takeWhile (is_high ev) xs)))"
  using assms
proof (induction xs arbitrary: lh hc)
  case (Cons y ys)
  show ?case
  proof (cases "ys = [] \<or> \<not> is_high ev y")
    case True
    then show ?thesis by auto
  next
    case False
    with Cons.prems have "ev_next (ev y) = Some (hd ys)" "linked ev ys"
      by (auto simp: linked_Cons)
    with Cons.IH [of "Some y" "hc + 1"] False show ?thesis by auto
  qed
qed simp

lemma add_high_spec:
  assumes "add_high ev pev x ys n = (ev', n')" "distinct (x # ys)"
  shows "n' = n + length (takeWhile (is_high ev) ys) \<and>
     linked ev' (x # takeWhile (is_high ev) ys) \<and>
     next_only (set (x # takeWhile (is_high ev) ys)) ev ev' \<and>
     (ev_next (ev x) = pev \<longrightarrow> ev_next (ev' (last (x # takeWhile (is_high ev) ys))) = pev)"
  using assms
proof (induction ys arbitrary: ev x n)
  case Nil
  then show ?case by simp
next
  case (Cons y ys)
  show ?case
  proof (cases "is_high ev y")
    case False
    with Cons.prems show ?thesis by auto
  next
    case True
    let ?ev1 = "set_next (set_next ev x (Some y)) y pev"
    let ?hs = "takeWhile (is_high ev) ys"
    from Cons.prems True have step: "add_high ?ev1 pev y ys (Suc n) = (ev', n')"
      and dist: "distinct (y # ys)" by auto
    from Cons.IH [OF step dist] have IH: "n' = Suc n + length ?hs" "linked ev' (y # ?hs)"
      "next_only (set (y # ?hs)) ?ev1 ev'" "ev_next (ev' (last (y # ?hs))) = pev" by auto
    have "x \<notin> set (y # ?hs)" using Cons.prems(2) by (auto dest: set_takeWhileD)
    then have "ev' x = ?ev1 x" using IH(3) by (rule next_onlyD(1) [rotated])
    moreover have "x \<noteq> y" using Cons.prems(2) by auto
    moreover have "next_only (set (x # y # ?hs)) ev ev'"
      by (rule next_only_trans [OF next_only_set_next_trans next_only_mono [OF IH(3)]])
        (auto intro: next_only_set_next)
    ultimately show ?thesis using IH True by simp
  qed
qed

lemma linked_next_only:
  "next_only S ev ev' \<Longrightarrow> set (butlast xs) \<inter> S = {} \<Longrightarrow> linked ev' xs = linked ev xs"
  by (rule linked_cong) (metis disjoint_iff next_onlyD(1))

lemma add_lows_spec:
  assumes "l_lastevent pl = Some l" "distinct es" "l \<notin> set (drop n es)"
  shows "\<exists>ev'. add_lows ev pl es n =
       Some (ev', if n < length es then pl\<lparr>l_lastevent := Some (last es)\<rparr> else pl) \<and>
     next_only (insert l (set (drop n es))) ev ev' \<and> linked ev' (drop n es) \<and>
     (n < length es \<longrightarrow> ev_next (ev' l) = Some (hd (drop n es)))"
proof (cases "n < length es")
  case True
  let ?ev1 = "link_up ev (drop n es)"
  have "linked (set_next ?ev1 l (Some (es ! n))) (drop n es)"
    using assms(2,3) by (subst linked_set_next) (auto simp: linked_link_up dest: in_set_butlastD)
  moreover have "next_only (insert l (set (drop n es))) ev (set_next ?ev1 l (Some (es ! n)))"
    by (rule next_only_set_next_trans [OF next_only_link_up]) auto
  ultimately show ?thesis using True assms(1)
    by (auto simp: add_lows_def Let_def hd_drop_conv_nth)
next
  case False
  with assms(1) show ?thesis by (auto simp: add_lows_def)
qed

lemma insert_first_high_spec:
  assumes ok: "list_ok ev pl xs" "xs \<noteq> []" "e \<notin> set xs"
    and H: "H = takeWhile (is_high ev) xs" and L: "L = dropWhile (is_high ev) xs"
    and pev: "pev = (if L = [] then ev_next (ev (last xs)) else Some (hd L))"
    and lh: "lh = (if H = [] then None else Some (last H))"
  shows "\<exists>ev1. insert_first_high ev pl lh e = (ev1, pl\<lparr>l_firstevent := Some (hd (H @ [e]))\<rparr>) \<and>
     next_only (set xs \<union> {e}) ev ev1 \<and> linked ev1 H \<and> linked ev1 L \<and> ev_next (ev1 e) = pev \<and>
     (H \<noteq> [] \<longrightarrow> ev_next (ev1 (last H)) = Some e)"
proof -
  have xs: "xs = H @ L" using H L by simp
  from ok xs have dist: "distinct (H @ L)" and lk: "linked ev (H @ L)" by (auto simp: list_ok_def)
  show ?thesis
  proof (cases "H = []")
    case True
    with ok xs pev lk lh show ?thesis
      by (auto simp: insert_first_high_def list_ok_def linked_set_next dest: in_set_butlastD
          intro!: next_only_set_next)
  next
    case False
    have h: "ev_next (ev (last H)) = pev"
      using False lk pev xs by (auto simp: linked_append)
    have nin: "last H \<notin> set (butlast H)" "last H \<notin> set L"
      using dist False distinct_last_butlast [of H] by (simp, metis disjoint_iff distinct_append last_in_set)
    have "pl\<lparr>l_firstevent := Some (hd (H @ [e]))\<rparr> = pl"
      using list_okD(4) [OF ok(1,2)] False xs by simp
    moreover have "next_only (set xs \<union> {e}) ev (set_next (set_next ev e pev) (last H) (Some e))"
      using False xs by (intro next_only_set_next_trans next_only_refl) auto
    moreover have "e \<noteq> last H" using ok(3) False xs by (metis UnCI last_in_set set_append)
    ultimately show ?thesis
      using False h nin lk ok(3) xs lh
      by (auto simp: insert_first_high_def linked_set_next linked_append dest: in_set_butlastD)
  qed
qed

lemma write_high_list_ok:
  assumes ok: "list_ok ev pl xs" "xs \<noteq> []" and es: "es \<noteq> []" "distinct (xs @ es)" "is_high ev (hd es)"
    and H: "H = takeWhile (is_high ev) xs" and L: "L = dropWhile (is_high ev) xs"
    and hs: "hs = takeWhile (is_high ev) es" and ls: "ls = dropWhile (is_high ev) es"
  shows "\<exists>ev'. write_high ev pl es =
       Some (ev', pl\<lparr>l_firstevent := Some (hd (H @ hs @ L @ ls)),
                    l_lastevent := Some (last (H @ hs @ L @ ls))\<rparr>) \<and>
     next_only (set (xs @ es)) ev ev' \<and> linked ev' (H @ hs @ L @ ls)"
proof -
  let ?pev = "if L = [] then ev_next (ev (last xs)) else Some (hd L)"
  let ?lh = "if H = [] then None else Some (last H)"
  have xs: "xs = H @ L" and ess: "es = hs @ ls" using H L hs ls by simp_all
  have hs0: "hs = hd es # takeWhile (is_high ev) (tl es)" using es(1,3) hs by (cases es) auto
  then have hne: "hs \<noteq> []" "hd hs = hd es" by auto
  have dist: "distinct (H @ L @ hs @ ls)" using es(2) xs ess by simp
  have "hd es \<notin> set xs" using es(1,2) by (cases es) auto
  from insert_first_high_spec [OF ok this H L refl refl] obtain ev1 where
    ins: "insert_first_high ev pl ?lh (hd es) = (ev1, pl\<lparr>l_firstevent := Some (hd (H @ [hd es]))\<rparr>)"
    and no1: "next_only (set xs \<union> {hd es}) ev ev1" and lkH: "linked ev1 H" and lkL: "linked ev1 L"
    and nx: "ev_next (ev1 (hd es)) = ?pev" "H \<noteq> [] \<longrightarrow> ev_next (ev1 (last H)) = Some (hd es)"
    by blast
  obtain ev2 n where ah: "add_high ev1 ?pev (hd es) (tl es) 1 = (ev2, n)" by fastforce
  have "distinct (hd es # tl es)" using es(1,2) by simp
  from add_high_spec [OF ah this] hs0 nx(1) next_only_is_high [OF no1]
  have n: "n = length hs" and lkhs: "linked ev2 hs" and no2: "next_only (set hs) ev1 ev2"
    and nxhs: "ev_next (ev2 (last hs)) = ?pev" by auto
  have same: "ev2 i = ev1 i" if "i \<in> set (H @ L)" for i
    using next_onlyD(1) [OF no2] that dist by auto
  have "linked ev2 H" "linked ev2 L"
    using lkH lkL dist by (subst linked_next_only [OF no2]; auto dest: in_set_butlastD)+
  then have lk2: "linked ev2 (H @ hs @ L)"
    using lkhs nx(2) nxhs hne same by (auto simp: linked_append)
  let ?l = "last (H @ hs @ L)"
  let ?pl1 = "pl\<lparr>l_firstevent := Some (hd (H @ [hd es]))\<rparr>"
  let ?pl2 = "if int (length H) = l_cnt pl then ?pl1\<lparr>l_lastevent := Some (es ! (n - 1))\<rparr> else ?pl1"
  have "int (length H) = l_cnt pl \<longleftrightarrow> L = []"
    using list_okD(1) [OF ok(1)] xs by simp
  moreover have "es ! (n - 1) = last hs"
    using n hne ess by (simp add: nth_append last_conv_nth)
  moreover have "l_lastevent pl = Some (last xs)" using ok by (simp add: list_ok_def)
  ultimately have pl2: "?pl2 = ?pl1\<lparr>l_lastevent := Some ?l\<rparr>" using xs hne by auto
  have drop: "drop n es = ls" "n < length es \<longleftrightarrow> ls \<noteq> []" using n ess by auto
  have "?l \<notin> set ls" "?l \<in> set (H @ hs @ L)" "distinct es"
    using dist ess hne last_in_set [of "H @ hs @ L"] by (auto split: if_splits)
  with add_lows_spec [of "?pl1\<lparr>l_lastevent := Some ?l\<rparr>" ?l es n ev2] drop obtain ev' where
    al: "add_lows ev2 (?pl1\<lparr>l_lastevent := Some ?l\<rparr>) es n =
      Some (ev', if ls \<noteq> [] then ?pl1\<lparr>l_lastevent := Some (last es)\<rparr>
                 else ?pl1\<lparr>l_lastevent := Some ?l\<rparr>)"
    and no3: "next_only (insert ?l (set ls)) ev2 ev'" and lkls: "linked ev' ls"
    and nxl: "ls \<noteq> [] \<longrightarrow> ev_next (ev' ?l) = Some (hd ls)" by auto
  have "set (butlast (H @ hs @ L)) \<inter> insert ?l (set ls) = {}"
    using dist distinct_last_butlast [of "H @ hs @ L"] set_butlast_subset [of "H @ hs @ L"]
    by (auto simp del: butlast_append)
  then have "linked ev' (H @ hs @ L)" using lk2 by (subst linked_next_only [OF no3])
  then have "linked ev' ((H @ hs @ L) @ ls)" using lkls nxl hne by (subst linked_append) auto
  moreover have "set (xs @ es) = set (H @ L @ hs @ ls)" "hd es \<in> set hs"
    using xs ess hs0 by (simp, metis hne hd_in_set)
  then have "next_only (set (xs @ es)) ev ev'"
    using \<open>?l \<in> set (H @ hs @ L)\<close>
    by (intro next_only_trans [OF next_only_mono [OF no1] next_only_trans [OF next_only_mono [OF no2]
          next_only_mono [OF no3]]]) auto
  moreover have "write_high ev pl es = add_lows ev2 ?pl2 es n"
    using ok scan_high_linked [OF list_okD(3) [OF ok(1)] ok(2), of None 0] ins ah
    unfolding H [symmetric] L [symmetric] by (simp add: write_high_def list_ok_def)
  moreover have "hd (H @ [hd es]) = hd (H @ hs @ L @ ls)" using hne by (cases H) auto
  ultimately show ?thesis
    using al pl2 ess by (auto simp: ac_simps)
qed

section \<open>Priority order\<close>

lemma hi_first_split:
  assumes "hi_first ev xs"
  shows "takeWhile (is_high ev) xs = filter (is_high ev) xs"
    "dropWhile (is_high ev) xs = filter (\<lambda>x. \<not> is_high ev x) xs"
  using takeWhile_append_dropWhile_filter assms unfolding hi_first_def by blast+

lemma hi_first_iff:
  "hi_first ev xs \<longleftrightarrow> xs = filter (is_high ev) xs @ filter (\<lambda>x. \<not> is_high ev x) xs"
proof
  assume "hi_first ev xs"
  then show "xs = filter (is_high ev) xs @ filter (\<lambda>x. \<not> is_high ev x) xs"
    by (metis hi_first_split takeWhile_dropWhile_id)
next
  assume eq: "xs = filter (is_high ev) xs @ filter (\<lambda>x. \<not> is_high ev x) xs"
  have "dropWhile (is_high ev) (filter (is_high ev) xs @ filter (\<lambda>x. \<not> is_high ev x) xs) =
      dropWhile (is_high ev) (filter (\<lambda>x. \<not> is_high ev x) xs)"
    by (rule dropWhile_append2) simp
  with eq have "set (dropWhile (is_high ev) xs) \<subseteq> set (filter (\<lambda>x. \<not> is_high ev x) xs)"
    by (metis set_dropWhileD subsetI)
  then show "hi_first ev xs" by (auto simp: hi_first_def)
qed

lemma filter_filter_neg [simp]:
  "filter P (filter (\<lambda>x. \<not> P x) xs) = []" "filter (\<lambda>x. \<not> P x) (filter P xs) = []"
  by (simp_all add: filter_empty_conv)

lemma hi_first_pri_append: "hi_first ev (pri_append ev xs es)"
  by (simp add: hi_first_iff pri_append_def)

lemma mset_pri_append: "mset (pri_append ev xs es) = mset xs + mset es"
proof -
  have part: "filter_mset P M + filter_mset (\<lambda>x. \<not> P x) M = M" for P and M :: "nat multiset"
    by (rule multiset_partition [symmetric])
  have "mset (pri_append ev xs es) =
      (filter_mset (is_high ev) (mset xs) + filter_mset (\<lambda>x. \<not> is_high ev x) (mset xs)) +
      (filter_mset (is_high ev) (mset es) + filter_mset (\<lambda>x. \<not> is_high ev x) (mset es))"
    by (simp only: pri_append_def mset_append mset_filter ac_simps)
  then show ?thesis by (simp only: part)
qed

lemma hi_first_sorted: "hi_first ev xs = sorted_wrt (\<lambda>x y. is_high ev y \<longrightarrow> is_high ev x) xs"
proof (induction xs)
  case (Cons x xs)
  show ?case
  proof (cases "is_high ev x")
    case True
    with Cons show ?thesis by (simp add: hi_first_def)
  next
    case False
    moreover have "sorted_wrt (\<lambda>x y. is_high ev y \<longrightarrow> is_high ev x) xs" if "\<forall>y \<in> set xs. \<not> is_high ev y"
      using that by (induction xs) auto
    ultimately show ?thesis by (auto simp: hi_first_def)
  qed
qed (simp add: hi_first_def)

lemma hi_first_filter: "hi_first ev xs \<Longrightarrow> hi_first ev (filter P xs)"
  by (simp add: hi_first_sorted sorted_wrt_filter)

lemma hi_first_is_high_cong: "is_high ev' = is_high ev \<Longrightarrow> hi_first ev' = hi_first ev"
  by (intro ext) (simp add: hi_first_sorted)

lemma pri_append_low:
  assumes "hi_first ev xs" "hi_first ev es" "xs = [] \<or> \<not> is_high ev (hd es)" "es \<noteq> []"
  shows "pri_append ev xs es = xs @ es"
proof (cases "xs = []")
  case True
  with assms(2) show ?thesis by (auto simp: pri_append_def hi_first_iff)
next
  case False
  with assms(3,4) have "takeWhile (is_high ev) es = []" by (cases es) auto
  then have no: "filter (is_high ev) es = []" by (simp add: hi_first_split(1) [OF assms(2)])
  then have "filter (\<lambda>x. \<not> is_high ev x) es = es"
    using assms(2) by (simp add: hi_first_iff)
  then show ?thesis
    using assms(1) no by (simp add: pri_append_def hi_first_iff)
qed

lemma distinct_pri_append: "distinct (pri_append ev xs es) = distinct (xs @ es)"
  by (metis mset_append mset_eq_imp_distinct_iff mset_pri_append)

lemma set_pri_append [simp]: "set (pri_append ev xs es) = set xs \<union> set es"
  by (metis mset_append mset_pri_append set_append set_mset_mset)

lemma length_pri_append [simp]: "length (pri_append ev xs es) = length xs + length es"
  by (metis length_append mset_append mset_pri_append size_mset)

lemma et_llist_write_list_ok:
  assumes ok: "list_ok ev pl xs" "hi_first ev xs" and pe: "hi_first ev pe" "pri_ok ev pe" "pe \<noteq> []"
    and dist: "distinct (xs @ pe)" and room: "int (length (xs @ pe)) \<le> nevents_max"
  defines "R \<equiv> pri_append ev xs pe"
  shows "\<exists>ev'. et_llist_write nevents_max ev pl pe (int (length pe)) =
       Some (int (length pe), ev', pl\<lparr>l_firstevent := Some (hd R), l_lastevent := Some (last R),
         l_events_in := l_events_in pl + of_nat (length pe), l_cnt := int (length R)\<rparr>) \<and>
     next_only (set (xs @ pe)) ev ev' \<and> linked ev' R"
proof -
  have R: "length R = length xs + length pe" by (simp add: R_def)
  have cnt: "l_cnt pl = int (length xs)" using ok(1) by (rule list_okD)
  let ?w = "if ev_priority (ev (hd pe)) = ET_LOW \<or> l_cnt pl = 0 then write_all ev pl pe
            else write_high ev pl pe"
  have "\<exists>ev'. ?w = Some (ev', pl\<lparr>l_firstevent := Some (hd R), l_lastevent := Some (last R)\<rparr>) \<and>
      next_only (set (xs @ pe)) ev ev' \<and> linked ev' R"
  proof (cases "ev_priority (ev (hd pe)) = ET_LOW \<or> l_cnt pl = 0")
    case True
    then have "R = xs @ pe"
      unfolding R_def using ok(2) pe(1,3) cnt by (intro pri_append_low) (auto simp: is_high_def)
    with write_all_list_ok [OF ok(1) pe(3) dist] True show ?thesis by simp
  next
    case False
    then have "is_high ev (hd pe)" using pe(2,3) by (auto simp: pri_ok_def is_high_def)
    from write_high_list_ok [OF ok(1) _ pe(3) dist this refl refl refl refl] False cnt
    show ?thesis
      by (simp add: R_def pri_append_def hi_first_split [OF ok(2)] hi_first_split [OF pe(1)])
  qed
  then obtain ev' where
    "?w = Some (ev', pl\<lparr>l_firstevent := Some (hd R), l_lastevent := Some (last R)\<rparr>)"
    "next_only (set (xs @ pe)) ev ev'" "linked ev' R" by blast
  then show ?thesis
    using room cnt pe(3) R by (auto simp: et_llist_write_def Let_def)
qed

lemma et_llist_write_gc_list_ok:
  assumes "list_ok ev pl xs" "pe \<noteq> []" "distinct (xs @ pe)" "int (length (xs @ pe)) \<le> nevents_max"
  shows "\<exists>ev'. et_llist_write_gc nevents_max ev pl pe (int (length pe)) =
       Some (ET_OK, ev', pl\<lparr>l_firstevent := Some (hd (xs @ pe)), l_lastevent := Some (last (xs @ pe)),
         l_events_in := l_events_in pl + of_nat (length pe), l_cnt := int (length (xs @ pe))\<rparr>) \<and>
     next_only (set (xs @ pe)) ev ev' \<and> linked ev' (xs @ pe)"
proof -
  from write_all_list_ok [OF assms(1-3)] obtain ev' where
    w: "write_all ev pl pe =
       Some (ev', pl\<lparr>l_firstevent := Some (hd (xs @ pe)), l_lastevent := Some (last (xs @ pe))\<rparr>)"
    and rest: "next_only (set (xs @ pe)) ev ev'" "linked ev' (xs @ pe)" by blast
  from w obtain ev1 pl1 where pf: "put_first ev pl (hd pe) = Some (ev1, pl1)" "ev' = link_up ev1 pe"
    "pl1\<lparr>l_lastevent := Some (last pe)\<rparr> =
      pl\<lparr>l_firstevent := Some (hd (xs @ pe)), l_lastevent := Some (last (xs @ pe))\<rparr>"
    by (auto simp: write_all_def split: option.splits)
  have "l_events_in pl1 = l_events_in pl" "l_cnt pl1 = l_cnt pl"
    using arg_cong [OF pf(3), of l_events_in] arg_cong [OF pf(3), of l_cnt] by simp_all
  with pf rest assms show ?thesis
    by (auto simp: et_llist_write_gc_def Let_def list_ok_def)
qed

section \<open>The contract of a list writer\<close>

text \<open>
  The conductor moves events with two routines, one that keeps priority order and one that does
  not. Both fulfil one contract: given a well-formed list that is in the routine's order, and a
  nonempty batch of new events in that order, the routine returns its success code, the list then
  holds the old and the new events, in order, and lists of other events are untouched.
\<close>

locale list_writer =
  fixes wr :: "int \<Rightarrow> evheap \<Rightarrow> et_list \<Rightarrow> nat list \<Rightarrow> int \<Rightarrow> (int \<times> evheap \<times> et_list) option"
    and place :: "evheap \<Rightarrow> nat list \<Rightarrow> nat list \<Rightarrow> nat list"
    and ordered :: "evheap \<Rightarrow> nat list \<Rightarrow> bool"
    and code :: "nat \<Rightarrow> int"
  assumes wr_ok: "list_ok ev pl xs \<Longrightarrow> ordered ev xs \<Longrightarrow> ordered ev es \<Longrightarrow> es \<noteq> [] \<Longrightarrow>
      distinct (xs @ es) \<Longrightarrow> int (length (xs @ es)) \<le> m \<Longrightarrow>
      \<exists>ev' pl'. wr m ev pl es (int (length es)) = Some (code (length es), ev', pl') \<and>
        list_ok ev' pl' (place ev xs es) \<and> ordered ev' (place ev xs es) \<and>
        next_only (set (xs @ es)) ev ev' \<and> l_mutex pl' = l_mutex pl \<and>
        l_events_in pl' = l_events_in pl + of_nat (length es)"
    and place_mset: "mset (place ev xs es) = mset xs + mset es"
    and ordered_frame: "next_only S ev ev' \<Longrightarrow> ordered ev' xs = ordered ev xs"
begin

lemma place_set: "set (place ev xs es) = set xs \<union> set es"
  by (metis mset_append place_mset set_append set_mset_mset)

lemma place_length: "length (place ev xs es) = length xs + length es"
  by (metis length_append mset_append place_mset size_mset)

lemma place_distinct: "distinct (place ev xs es) = distinct (xs @ es)"
  by (metis mset_append mset_eq_imp_distinct_iff place_mset)

text \<open>Two batches in a row: both arrive, whatever was there stays.\<close>

lemma wr_twice:
  assumes "list_ok ev pl xs" "ordered ev xs" "ordered ev es" "ordered ev fs" "es \<noteq> []" "fs \<noteq> []"
    "distinct (xs @ es @ fs)" "int (length (xs @ es @ fs)) \<le> m"
  shows "\<exists>ev1 pl1 ev2 pl2 ys. wr m ev pl es (int (length es)) = Some (code (length es), ev1, pl1) \<and>
     wr m ev1 pl1 fs (int (length fs)) = Some (code (length fs), ev2, pl2) \<and>
     list_ok ev2 pl2 ys \<and> ordered ev2 ys \<and> mset ys = mset (xs @ es @ fs)"
proof -
  obtain ev1 pl1 where 1: "wr m ev pl es (int (length es)) = Some (code (length es), ev1, pl1)"
    "list_ok ev1 pl1 (place ev xs es)" "ordered ev1 (place ev xs es)" "next_only (set (xs @ es)) ev ev1"
    using wr_ok [of ev pl xs es m] assms by auto
  have "ordered ev1 fs" using ordered_frame [OF 1(4)] assms(4) by simp
  moreover have "distinct (place ev xs es @ fs)"
    using assms(7) place_distinct [of ev xs es] place_set [of ev xs es] by auto
  ultimately obtain ev2 pl2 where "wr m ev1 pl1 fs (int (length fs)) = Some (code (length fs), ev2, pl2)"
    "list_ok ev2 pl2 (place ev1 (place ev xs es) fs)" "ordered ev2 (place ev1 (place ev xs es) fs)"
    using wr_ok [OF 1(2,3), of fs m] assms(6,8) place_length by auto
  moreover have "mset (place ev1 (place ev xs es) fs) = mset (xs @ es @ fs)" by (simp add: place_mset)
  ultimately show ?thesis using 1(1) by blast
qed

end

lemma list_ok_next_only:
  "next_only S ev ev' \<Longrightarrow> set xs \<inter> S = {} \<Longrightarrow> list_ok ev' pl xs = list_ok ev pl xs"
  using linked_next_only [of S ev ev' xs] set_butlast_subset [of xs] by (auto simp: list_ok_def)

interpretation pri: list_writer et_llist_write pri_append "\<lambda>ev xs. hi_first ev xs \<and> pri_ok ev xs" int
proof unfold_locales
  fix ev pl xs es m
  assume "list_ok ev pl xs" "hi_first ev xs \<and> pri_ok ev xs" "hi_first ev es \<and> pri_ok ev es" "es \<noteq> []"
    "distinct (xs @ es)" "int (length (xs @ es)) \<le> m"
  with et_llist_write_list_ok [of ev pl xs es m] obtain ev' where
    w: "et_llist_write m ev pl es (int (length es)) =
       Some (int (length es), ev', pl\<lparr>l_firstevent := Some (hd (pri_append ev xs es)),
         l_lastevent := Some (last (pri_append ev xs es)),
         l_events_in := l_events_in pl + of_nat (length es), l_cnt := int (length (pri_append ev xs es))\<rparr>)"
      "next_only (set (xs @ es)) ev ev'" "linked ev' (pri_append ev xs es)" by blast
  moreover have "hi_first ev' (pri_append ev xs es)"
    using hi_first_pri_append hi_first_is_high_cong [OF next_only_is_high [OF w(2)]] by simp
  moreover have "pri_ok ev' (pri_append ev xs es)"
    using \<open>hi_first ev xs \<and> pri_ok ev xs\<close> \<open>hi_first ev es \<and> pri_ok ev es\<close> next_onlyD(2) [OF w(2)]
    by (auto simp: pri_ok_def)
  ultimately show "\<exists>ev' pl'. et_llist_write m ev pl es (int (length es)) = Some (int (length es), ev', pl') \<and>
      list_ok ev' pl' (pri_append ev xs es) \<and>
      (hi_first ev' (pri_append ev xs es) \<and> pri_ok ev' (pri_append ev xs es)) \<and>
      next_only (set (xs @ es)) ev ev' \<and> l_mutex pl' = l_mutex pl \<and>
      l_events_in pl' = l_events_in pl + of_nat (length es)"
    using \<open>distinct (xs @ es)\<close> by (auto simp: list_ok_def distinct_pri_append)
next
  fix S ev ev' xs
  assume "next_only S ev ev'"
  then show "(hi_first ev' xs \<and> pri_ok ev' xs) = (hi_first ev xs \<and> pri_ok ev xs)"
    using hi_first_is_high_cong [OF next_only_is_high] next_onlyD(2) by (simp add: pri_ok_def)
qed (rule mset_pri_append)

interpretation gc: list_writer et_llist_write_gc "\<lambda>ev xs es. xs @ es" "\<lambda>ev xs. True" "\<lambda>n. ET_OK"
proof unfold_locales
  fix ev pl xs es m
  assume "list_ok ev pl xs" "es \<noteq> []" "distinct (xs @ es)" "int (length (xs @ es)) \<le> m"
  from et_llist_write_gc_list_ok [OF this] \<open>distinct (xs @ es)\<close>
  show "\<exists>ev' pl'. et_llist_write_gc m ev pl es (int (length es)) = Some (ET_OK, ev', pl') \<and>
      list_ok ev' pl' (xs @ es) \<and> True \<and> next_only (set (xs @ es)) ev ev' \<and> l_mutex pl' = l_mutex pl \<and>
      l_events_in pl' = l_events_in pl + of_nat (length es)"
    by (fastforce simp: list_ok_def)
qed auto

section \<open>Properties\<close>

lemma hi_first_take: "hi_first ev es \<Longrightarrow> hi_first ev (take k es)"
  by (simp add: hi_first_sorted sorted_wrt_take)

text \<open>A batch that is too large is cut to what the list has room for.\<close>

lemma et_llist_write_cut:
  assumes "0 < num" "num \<le> int (length es)" "l_cnt pl < m" "k = (if num > m - l_cnt pl then m - l_cnt pl else num)"
  shows "et_llist_write m ev pl es num = et_llist_write m ev pl (take (nat k) es) (int (length (take (nat k) es)))"
proof -
  have k: "int (length (take (nat k) es)) = k" "\<not> k > m - l_cnt pl" using assms by auto
  show ?thesis unfolding et_llist_write_def Let_def k(1) by (simp only: k(2) if_False assms(4) [symmetric] take_take min.idem)
qed

text \<open>
  C12. \<open>et_llist_write\<close>, given a well-formed list in priority order that is not full, and a nonempty batch
  of new events in priority order, returns the number of events written, which is the size of the
  batch or, if the list has less room, the room there is. The list then holds the old high, the
  written high, the old low and the written low priority events in that order; the input counter
  grows by the number of events written, only the links of the events of the list and of the written
  ones change, and every list of other events is untouched.
\<close>

theorem et_llist_write_refines:
  assumes "list_ok ev pl xs" "hi_first ev xs" "pri_ok ev xs" "hi_first ev es" "pri_ok ev es"
    "0 < num" "num \<le> int (length es)" "distinct (xs @ es)" "int (length xs) < m"
    and k: "k = min num (m - int (length xs))" and ys: "ys = take (nat k) es"
  shows "\<exists>ev' pl'. et_llist_write m ev pl es num = Some (k, ev', pl') \<and>
     list_ok ev' pl' (filter (is_high ev) xs @ filter (is_high ev) ys @
       filter (\<lambda>x. \<not> is_high ev x) xs @ filter (\<lambda>x. \<not> is_high ev x) ys) \<and>
     hi_first ev' (pri_append ev xs ys) \<and> l_events_in pl' = l_events_in pl + word_of_int k \<and>
     next_only (set (xs @ ys)) ev ev' \<and>
     (\<forall>zs q. set zs \<inter> set (xs @ ys) = {} \<longrightarrow> list_ok ev' q zs = list_ok ev q zs)"
proof -
  have c: "l_cnt pl = int (length xs)" using assms(1) by (simp add: list_ok_def)
  have n: "int (length ys) = k" "k = (if num > m - l_cnt pl then m - l_cnt pl else num)" "0 < k" "k \<le> m - int (length xs)"
    using assms(6,7,9) by (auto simp: c k ys)
  have "ys \<noteq> []" using n(1,3) by auto
  moreover have "distinct (xs @ ys)" using assms(8) set_take_subset [of "nat k" es] by (auto simp: ys)
  moreover have "hi_first ev ys" "pri_ok ev ys" using assms(4,5) hi_first_take by (auto simp: ys pri_ok_def dest: in_set_takeD)
  moreover have "int (length (xs @ ys)) \<le> m" using n(1,4) by simp
  ultimately obtain ev' pl' where w: "et_llist_write m ev pl ys (int (length ys)) = Some (int (length ys), ev', pl')"
    "list_ok ev' pl' (pri_append ev xs ys)" "hi_first ev' (pri_append ev xs ys)" "next_only (set (xs @ ys)) ev ev'"
    "l_events_in pl' = l_events_in pl + of_nat (length ys)"
    using pri.wr_ok [of ev pl xs ys m] assms(1-3) by blast
  have "et_llist_write m ev pl es num = Some (k, ev', pl')"
    using et_llist_write_cut [OF assms(6,7) _ n(2), of ev] w(1) assms(9) unfolding ys [symmetric] n(1) by (simp add: c)
  moreover have "(of_nat (length ys) :: 64 word) = word_of_int k" unfolding n(1) [symmetric] by simp
  moreover have "\<forall>zs q. set zs \<inter> set (xs @ ys) = {} \<longrightarrow> list_ok ev' q zs = list_ok ev q zs"
    using list_ok_next_only [OF w(4)] by blast
  ultimately show ?thesis using w(2-5) unfolding pri_append_def by (intro exI [of _ ev'] exI [of _ pl']) simp
qed

theorem et_llist_write_refines_witness:
  "\<exists>ev' pl'. et_llist_write 3 (set_next (sample_heap [0, 2]) 0 (Some 1))
     (sample_list\<lparr>l_cnt := 2, l_firstevent := Some 0, l_lastevent := Some 1\<rparr>) [2, 3] 2 =
       Some (1, ev', pl') \<and> list_ok ev' pl' [0, 2, 1]"
proof -
  let ?ev = "set_next (sample_heap [0, 2]) 0 (Some 1)"
  let ?pl = "sample_list\<lparr>l_cnt := 2, l_firstevent := Some 0, l_lastevent := Some 1\<rparr>"
  have hi: "is_high (sample_heap [0, 2]) i \<longleftrightarrow> i = 0 \<or> i = 2" for i
    by (auto simp: is_high_def)
  have l: "list_ok ?ev ?pl [0, 1]" by (simp add: list_ok_def)
  have p: "pri_ok ?ev [0, 1]" "pri_ok ?ev [2, 3]" by (auto simp: pri_ok_def)
  have h: "hi_first ?ev [0, 1]" "hi_first ?ev [2, 3]" by (auto simp: hi_first_sorted hi)
  have n: "(0::int) < 2" "(2::int) \<le> int (length [2, 3 :: nat])" "distinct ([0, 1] @ [2, 3 :: nat])" "int (length [0, 1 :: nat]) < 3"
    "(1::int) = min 2 (3 - int (length [0, 1 :: nat]))" "[2 :: nat] = take (nat 1) [2, 3]" by simp_all
  have "filter (is_high ?ev) [0, 1] @ filter (is_high ?ev) [2] @ filter (\<lambda>x. \<not> is_high ?ev x) [0, 1] @ filter (\<lambda>x. \<not> is_high ?ev x) [2] =
      [0, 2, 1]" by (simp add: hi)
  with et_llist_write_refines [OF l h(1) p(1) h(2) p(2) n] show ?thesis by (elim exE conjE) (simp only: ex_simps, blast)
qed

text \<open>
  Moving events: \<open>et_llist_read\<close> hands over every event of a nonempty list in order and empties
  it, and \<open>et_llist_write_gc\<close> then appends exactly those events to GrandCentral's input list.
\<close>

lemma et_llist_read_then_write_gc:
  assumes "list_ok ev pl xs" "xs \<noteq> []" "list_ok ev ql ys" "distinct (ys @ xs)" "int (length (ys @ xs)) \<le> m"
  shows "\<exists>pl' ev' ql'. et_llist_read ev pl = Some (int (length xs), xs, pl') \<and>
     et_llist_write_gc m ev ql xs (int (length xs)) = Some (ET_OK, ev', ql') \<and>
     list_ok ev' pl' [] \<and> l_lasthigh pl' = 0 \<and> list_ok ev' ql' (ys @ xs) \<and>
     l_events_out pl' = l_events_out pl + of_nat (length xs) \<and>
     l_events_in ql' = l_events_in ql + of_nat (length xs)"
  using et_llist_read_list_ok [OF assms(1,2)] gc.wr_ok [OF assms(3) _ _ assms(2,4,5)]
  by fastforce

end
