(* ===== verification/ET_StationIO.thy ===== *)
theory ET_StationIO
  imports ET_LList
begin

text \<open>
  Writing events into a station's output list and dumping them into GrandCentral's input list
  (src/libsrc/et\_readwrite.c, \<open>et_station_(n)write\<close>, \<open>et_station_nwriteNoPri\<close>, \<open>et_station_(n)dump\<close>).
  Reading is in theory \<open>ET_StationRead\<close>.

  Each routine has a core over the event heap and one station (lock, the information kept for
  crash repair, the relinking, unlock) and a wrapper over the whole \<open>et_id\<close>. Locking an already
  locked mutex does not return (\<open>None\<close>).
\<close>

section \<open>Access to stations and attachments\<close>

definition nevents_max :: "et_id \<Rightarrow> int" where
  "nevents_max eid = sc_nevents (sy_config (id_sys eid))"

definition upd_att :: "et_id \<Rightarrow> nat \<Rightarrow> (et_attach \<Rightarrow> et_attach) \<Rightarrow> et_id" where
  "upd_att eid a f = eid\<lparr>id_sys := (id_sys eid)\<lparr>sy_attach :=
     (sy_attach (id_sys eid))[a := f (sy_attach (id_sys eid) ! a)]\<rparr>\<rparr>"

definition upd_stat :: "et_id \<Rightarrow> nat \<Rightarrow> (et_station \<Rightarrow> et_station) \<Rightarrow> et_id" where
  "upd_stat eid s f = eid\<lparr>id_stats := (id_stats eid)[s := f (id_stats eid ! s)]\<rparr>"

definition on_station ::
  "et_id \<Rightarrow> nat \<Rightarrow> (evheap \<Rightarrow> et_station \<Rightarrow> (int \<times> evheap \<times> et_station) option) \<Rightarrow> (int \<times> et_id) option" where
  "on_station eid s core =
     (if s < length (id_stats eid) then
        case core (id_events eid) (id_stats eid ! s) of
          None \<Rightarrow> None
        | Some (r, ev, ps) \<Rightarrow> Some (r, eid\<lparr>id_stats := (id_stats eid)[s := ps], id_events := ev\<rparr>)
      else None)"

definition et_llist_lock :: "et_list \<Rightarrow> et_list option" where
  "et_llist_lock pl = (if l_mutex pl then None else Some (pl\<lparr>l_mutex := True\<rparr>))"

definition et_llist_unlock :: "et_list \<Rightarrow> et_list" where
  "et_llist_unlock pl = pl\<lparr>l_mutex := False\<rparr>"

definition fix_out_begin :: "et_station \<Rightarrow> et_list \<Rightarrow> int \<Rightarrow> et_station" where
  "fix_out_begin ps pl num = ps\<lparr>st_fix := (st_fix ps)\<lparr>fix_out := (fix_out (st_fix ps))\<lparr>
     fo_cnt := l_cnt pl, fo_num := num, fo_start := fo_start (fix_out (st_fix ps)) + 1\<rparr>\<rparr>\<rparr>"

definition fix_out_end :: "et_station \<Rightarrow> et_station" where
  "fix_out_end ps = ps\<lparr>st_fix := (st_fix ps)\<lparr>fix_out := (fix_out (st_fix ps))\<lparr>
     fo_start := fo_start (fix_out (st_fix ps)) - 1\<rparr>\<rparr>\<rparr>"

definition fix_in_dump_begin :: "et_station \<Rightarrow> et_list \<Rightarrow> int \<Rightarrow> et_station" where
  "fix_in_dump_begin ps pl num = ps\<lparr>st_fix := (st_fix ps)\<lparr>fix_in := (fix_in (st_fix ps))\<lparr>
     fi_eventsin := l_events_in pl, fi_cnt := l_cnt pl, fi_num := num, fi_call := ET_FIX_DUMP,
     fi_start := fi_start (fix_in (st_fix ps)) + 1\<rparr>\<rparr>\<rparr>"

definition fix_in_dump_end :: "et_station \<Rightarrow> et_station" where
  "fix_in_dump_end ps = ps\<lparr>st_fix := (st_fix ps)\<lparr>fix_in := (fix_in (st_fix ps))\<lparr>
     fi_start := fi_start (fix_in (st_fix ps)) - 1\<rparr>\<rparr>\<rparr>"

definition fix_in_read :: "et_station \<Rightarrow> et_list \<Rightarrow> int \<Rightarrow> et_station" where
  "fix_in_read ps pl num = ps\<lparr>st_fix := (st_fix ps)\<lparr>fix_in := (fix_in (st_fix ps))\<lparr>
     fi_cnt := l_cnt pl, fi_num := num, fi_call := ET_FIX_READ, fi_first := l_firstevent pl\<rparr>\<rparr>\<rparr>"

definition fix_in_read_done :: "et_station \<Rightarrow> et_station" where
  "fix_in_read_done ps = ps\<lparr>st_fix := (st_fix ps)\<lparr>fix_in := (fix_in (st_fix ps))\<lparr>
     fi_first := None\<rparr>\<rparr>\<rparr>"

section \<open>Writing into a station's output list\<close>

fun walk :: "evheap \<Rightarrow> nat \<Rightarrow> evptr \<Rightarrow> evptr" where
  "walk ev 0 p = p"
| "walk ev (Suc n) None = None"
| "walk ev (Suc n) (Some i) = walk ev n (ev_next (ev i))"

definition find_lasthigh :: "evheap \<Rightarrow> et_list \<Rightarrow> evptr option" where
  "find_lasthigh ev pl =
     (if l_lasthigh pl = 0 then Some None
      else case walk ev (nat (l_lasthigh pl - 1)) (l_firstevent pl) of
             None \<Rightarrow> None
           | Some h \<Rightarrow> Some (Some h))"

definition link_low :: "evheap \<Rightarrow> et_list \<Rightarrow> nat \<Rightarrow> nat \<Rightarrow> evheap \<times> et_list" where
  "link_low ev pl pe_last e = (set_next ev pe_last (Some e), pl\<lparr>l_lastevent := Some e\<rparr>)"

definition link_high :: "evheap \<Rightarrow> et_list \<Rightarrow> evptr \<Rightarrow> evptr \<Rightarrow> nat \<Rightarrow> evheap \<times> et_list" where
  "link_high ev pl pe_lasthigh pe_last e =
     (case pe_lasthigh of
        None \<Rightarrow> (set_next ev e (l_firstevent pl),
                 pl\<lparr>l_firstevent := Some e, l_lasthigh := l_lasthigh pl + 1\<rparr>)
      | Some h \<Rightarrow>
          if pe_last = Some h then
            (set_next ev h (Some e), pl\<lparr>l_lastevent := Some e, l_lasthigh := l_lasthigh pl + 1\<rparr>)
          else
            (set_next (set_next ev e (ev_next (ev h))) h (Some e), pl\<lparr>l_lasthigh := l_lasthigh pl + 1\<rparr>))"

definition link_only_one :: "evheap \<Rightarrow> et_list \<Rightarrow> nat \<Rightarrow> et_list" where
  "link_only_one ev pl e = pl\<lparr>l_firstevent := Some e, l_lastevent := Some e,
     l_lasthigh := (if ev_priority (ev e) = ET_HIGH then 1 else l_lasthigh pl)\<rparr>"

definition station_write_core ::
  "int \<Rightarrow> nat \<Rightarrow> evheap \<Rightarrow> et_station \<Rightarrow> (int \<times> evheap \<times> et_station) option" where
  "station_write_core nevents e ev ps =
     (case et_llist_lock (st_list_out ps) of None \<Rightarrow> None | Some pl \<Rightarrow>
      if l_cnt pl \<ge> nevents then Some (ET_ERROR, ev, ps\<lparr>st_list_out := et_llist_unlock pl\<rparr>)
      else
        let pl0 = (if l_cnt pl = 0 then pl\<lparr>l_firstevent := None\<rparr> else pl);
            ps0 = fix_out_begin ps pl0 1
        in case (if l_cnt pl0 = 0 then Some (ev, link_only_one ev pl0 e)
                 else if ev_priority (ev e) = ET_LOW then
                   (case l_lastevent pl0 of None \<Rightarrow> None | Some l \<Rightarrow> Some (link_low ev pl0 l e))
                 else
                   (case find_lasthigh ev pl0 of
                      None \<Rightarrow> None
                    | Some lh \<Rightarrow> Some (link_high ev pl0 lh (l_lastevent pl0) e))) of
             None \<Rightarrow> None
           | Some (ev1, pl1) \<Rightarrow>
               Some (ET_OK, set_owner ev1 e ET_SYS,
                 (fix_out_end ps0)\<lparr>st_list_out := et_llist_unlock (pl1\<lparr>l_cnt := l_cnt pl1 + 1\<rparr>)\<rparr>))"

definition et_station_write :: "et_id \<Rightarrow> nat \<Rightarrow> nat \<Rightarrow> (int \<times> et_id) option" where
  "et_station_write eid stat_id pe = on_station eid stat_id (station_write_core (nevents_max eid) pe)"

fun nwrite_loop :: "evheap \<Rightarrow> et_list \<Rightarrow> evptr \<Rightarrow> nat \<Rightarrow> nat list \<Rightarrow> evheap \<times> et_list" where
  "nwrite_loop ev pl pe_lasthigh pe_last [] = (ev, pl)"
| "nwrite_loop ev pl pe_lasthigh pe_last (e # es) =
     (if ev_priority (ev e) = ET_LOW then
        let (ev1, pl1) = link_low ev pl pe_last e
        in nwrite_loop (set_owner ev1 e ET_SYS) (pl1\<lparr>l_cnt := l_cnt pl1 + 1\<rparr>) pe_lasthigh e es
      else
        let (ev1, pl1) = link_high ev pl pe_lasthigh (Some pe_last) e
        in nwrite_loop (set_owner ev1 e ET_SYS) (pl1\<lparr>l_cnt := l_cnt pl1 + 1\<rparr>) (Some e)
             (if pe_lasthigh = Some pe_last then e else pe_last) es)"

definition station_nwrite_core ::
  "int \<Rightarrow> nat list \<Rightarrow> int \<Rightarrow> evheap \<Rightarrow> et_station \<Rightarrow> (int \<times> evheap \<times> et_station) option" where
  "station_nwrite_core nevents pe num ev ps =
     (case et_llist_lock (st_list_out ps) of None \<Rightarrow> None | Some pl \<Rightarrow>
      if num > nevents - l_cnt pl then Some (ET_ERROR, ev, ps\<lparr>st_list_out := et_llist_unlock pl\<rparr>)
      else if length pe < nat num then None
      else
        let pl0 = (if l_cnt pl = 0 then pl\<lparr>l_firstevent := None\<rparr> else pl);
            ps0 = fix_out_begin ps pl0 num;
            es = take (nat num) pe
        in case (if l_cnt pl0 = 0 then
                   (case es of [] \<Rightarrow> None | e # rest \<Rightarrow>
                      let pl1 = link_only_one ev pl0 e in
                      Some (set_owner ev e ET_SYS, pl1\<lparr>l_cnt := l_cnt pl1 + 1\<rparr>,
                            if ev_priority (ev e) = ET_HIGH then Some e else None, rest))
                 else
                   (case find_lasthigh ev pl0 of None \<Rightarrow> None | Some lh \<Rightarrow> Some (ev, pl0, lh, es))) of
             None \<Rightarrow> None
           | Some (ev1, pl1, lh, rest) \<Rightarrow>
               case l_lastevent pl1 of None \<Rightarrow> None | Some pe_last \<Rightarrow>
               let (ev2, pl2) = nwrite_loop ev1 pl1 lh pe_last rest
               in Some (ET_OK, ev2, (fix_out_end ps0)\<lparr>st_list_out := et_llist_unlock pl2\<rparr>))"

definition et_station_nwrite :: "et_id \<Rightarrow> nat \<Rightarrow> nat list \<Rightarrow> int \<Rightarrow> (int \<times> et_id) option" where
  "et_station_nwrite eid stat_id pe num =
     (if num \<le> 0 then Some (ET_OK, eid)
      else on_station eid stat_id (station_nwrite_core (nevents_max eid) pe num))"

fun append_loop :: "evheap \<Rightarrow> et_list \<Rightarrow> nat \<Rightarrow> nat list \<Rightarrow> evheap \<times> et_list" where
  "append_loop ev pl pe_last [] = (ev, pl)"
| "append_loop ev pl pe_last (e # es) =
     append_loop (set_owner (set_next ev pe_last (Some e)) e ET_SYS)
       (pl\<lparr>l_lastevent := Some e, l_cnt := l_cnt pl + 1\<rparr>) e es"

definition append_events :: "evheap \<Rightarrow> et_list \<Rightarrow> nat list \<Rightarrow> (evheap \<times> et_list) option" where
  "append_events ev pl es =
     (case (if l_cnt pl = 0 then
              (case es of [] \<Rightarrow> None | e # rest \<Rightarrow>
                 Some (set_owner ev e ET_SYS,
                   pl\<lparr>l_firstevent := Some e, l_lastevent := Some e, l_cnt := l_cnt pl + 1\<rparr>, rest))
            else Some (ev, pl, es)) of
        None \<Rightarrow> None
      | Some (ev1, pl1, rest) \<Rightarrow>
          case l_lastevent pl1 of None \<Rightarrow> None | Some pe_last \<Rightarrow>
          Some (append_loop ev1 pl1 pe_last rest))"

definition station_nwriteNoPri_core ::
  "int \<Rightarrow> nat list \<Rightarrow> int \<Rightarrow> evheap \<Rightarrow> et_station \<Rightarrow> (int \<times> evheap \<times> et_station) option" where
  "station_nwriteNoPri_core nevents pe num ev ps =
     (case et_llist_lock (st_list_out ps) of None \<Rightarrow> None | Some pl \<Rightarrow>
      if num > nevents - l_cnt pl then Some (ET_ERROR, ev, ps\<lparr>st_list_out := et_llist_unlock pl\<rparr>)
      else if length pe < nat num then None
      else
        let pl0 = (if l_cnt pl = 0 then pl\<lparr>l_firstevent := None\<rparr> else pl);
            ps0 = fix_out_begin ps pl0 num
        in case append_events ev pl0 (take (nat num) pe) of
             None \<Rightarrow> None
           | Some (ev1, pl1) \<Rightarrow>
               Some (ET_OK, ev1, (fix_out_end ps0)\<lparr>st_list_out := et_llist_unlock pl1\<rparr>))"

definition et_station_nwriteNoPri :: "et_id \<Rightarrow> nat \<Rightarrow> nat list \<Rightarrow> int \<Rightarrow> (int \<times> et_id) option" where
  "et_station_nwriteNoPri eid stat_id pe num =
     (if num \<le> 0 then Some (ET_OK, eid)
      else on_station eid stat_id (station_nwriteNoPri_core (nevents_max eid) pe num))"

section \<open>Dumping into GrandCentral's input list\<close>

definition station_dump_core ::
  "int \<Rightarrow> nat \<Rightarrow> evheap \<Rightarrow> et_station \<Rightarrow> (int \<times> evheap \<times> et_station) option" where
  "station_dump_core nevents e ev ps =
     (case et_llist_lock (st_list_in ps) of None \<Rightarrow> None | Some pl \<Rightarrow>
      if l_cnt pl \<ge> nevents then Some (ET_ERROR, ev, ps\<lparr>st_list_in := et_llist_unlock pl\<rparr>)
      else
        let pl0 = (if l_cnt pl = 0 then pl\<lparr>l_firstevent := None\<rparr> else pl);
            ps0 = fix_in_dump_begin ps pl0 1
        in case put_first ev pl0 e of
             None \<Rightarrow> None
           | Some (ev1, pl1) \<Rightarrow>
               Some (ET_OK, set_owner ev1 e ET_SYS,
                 (fix_in_dump_end ps0)\<lparr>st_list_in := et_llist_unlock
                   (pl1\<lparr>l_lastevent := Some e, l_cnt := l_cnt pl1 + 1,
                        l_events_in := l_events_in pl1 + 1\<rparr>)\<rparr>))"

definition et_station_dump :: "et_id \<Rightarrow> nat \<Rightarrow> (int \<times> et_id) option" where
  "et_station_dump eid pe = on_station eid 0 (station_dump_core (nevents_max eid) pe)"

definition station_ndump_core ::
  "int \<Rightarrow> nat list \<Rightarrow> int \<Rightarrow> evheap \<Rightarrow> et_station \<Rightarrow> (int \<times> evheap \<times> et_station) option" where
  "station_ndump_core nevents pe num ev ps =
     (case et_llist_lock (st_list_in ps) of None \<Rightarrow> None | Some pl \<Rightarrow>
      if num > nevents - l_cnt pl then Some (ET_ERROR, ev, ps\<lparr>st_list_in := et_llist_unlock pl\<rparr>)
      else if length pe < nat num then None
      else
        let pl0 = (if l_cnt pl = 0 then pl\<lparr>l_firstevent := None\<rparr> else pl);
            ps0 = fix_in_dump_begin ps pl0 num
        in case append_events ev pl0 (take (nat num) pe) of
             None \<Rightarrow> None
           | Some (ev1, pl1) \<Rightarrow>
               Some (ET_OK, ev1, (fix_in_dump_end ps0)\<lparr>st_list_in := et_llist_unlock pl1\<rparr>))"

definition et_station_ndump :: "et_id \<Rightarrow> nat list \<Rightarrow> int \<Rightarrow> (int \<times> et_id) option" where
  "et_station_ndump eid pe num =
     (if num \<le> 0 then Some (ET_OK, eid)
      else on_station eid 0 (station_ndump_core (nevents_max eid) pe num))"

section \<open>Abstraction of an output list\<close>

text \<open>
  \<open>put_list ev pl xs\<close> is the list head \<open>pl\<close> once it holds the events \<open>xs\<close>; an output list is
  well formed (\<open>out_ok\<close>) when its events are linked, its high priority events come first and
  \<open>lasthigh\<close> counts them.
\<close>

definition put_list :: "evheap \<Rightarrow> et_list \<Rightarrow> nat list \<Rightarrow> et_list" where
  "put_list ev pl xs = pl\<lparr>l_firstevent := Some (hd xs), l_lastevent := Some (last xs),
     l_lasthigh := int (length (filter (is_high ev) xs)), l_cnt := int (length xs)\<rparr>"

definition out_ok :: "evheap \<Rightarrow> et_list \<Rightarrow> nat list \<Rightarrow> bool" where
  "out_ok ev pl xs \<longleftrightarrow> list_ok ev pl xs \<and> hi_first ev xs \<and>
     l_lasthigh pl = int (length (filter (is_high ev) xs))"

definition lasthigh_ptr :: "evheap \<Rightarrow> nat list \<Rightarrow> evptr" where
  "lasthigh_ptr ev xs =
     (if filter (is_high ev) xs = [] then None else Some (last (filter (is_high ev) xs)))"

text \<open>Nothing but \<open>next\<close> and \<open>owner\<close> of the events in \<open>S\<close> differs.\<close>

definition link_only :: "nat set \<Rightarrow> evheap \<Rightarrow> evheap \<Rightarrow> bool" where
  "link_only S ev ev' \<longleftrightarrow> (\<forall>i. (i \<notin> S \<longrightarrow> ev' i = ev i) \<and>
     (ev' i)\<lparr>ev_next := None, ev_owner := 0\<rparr> = (ev i)\<lparr>ev_next := None, ev_owner := 0\<rparr>)"

lemma link_only_refl [simp]: "link_only S ev ev"
  by (simp add: link_only_def)

lemma link_only_mono: "link_only S ev ev' \<Longrightarrow> S \<subseteq> T \<Longrightarrow> link_only T ev ev'"
  by (auto simp: link_only_def)

lemma link_only_trans: "link_only S ev ev1 \<Longrightarrow> link_only S ev1 ev2 \<Longrightarrow> link_only S ev ev2"
  by (simp add: link_only_def)

lemma link_only_next_only: "next_only S ev ev' \<Longrightarrow> link_only S ev ev'"
  unfolding link_only_def next_only_def
  by (metis et_event.update_convs(1,10) et_event.surjective)

lemma link_only_set_next: "link_only S ev ev' \<Longrightarrow> i \<in> S \<Longrightarrow> link_only S ev (set_next ev' i p)"
  by (auto simp: link_only_def set_next_def)

lemma link_only_set_owner: "link_only S ev ev' \<Longrightarrow> i \<in> S \<Longrightarrow> link_only S ev (set_owner ev' i a)"
  by (auto simp: link_only_def set_owner_def)

lemma link_onlyD:
  assumes "link_only S ev ev'"
  shows "i \<notin> S \<Longrightarrow> ev' i = ev i" "ev_priority (ev' i) = ev_priority (ev i)"
    "ev_group (ev' i) = ev_group (ev i)"
proof -
  from assms have eq: "(ev' i)\<lparr>ev_next := None, ev_owner := 0\<rparr> = (ev i)\<lparr>ev_next := None, ev_owner := 0\<rparr>"
    by (simp add: link_only_def)
  show "ev_priority (ev' i) = ev_priority (ev i)" using arg_cong [OF eq, of ev_priority] by simp
  show "ev_group (ev' i) = ev_group (ev i)" using arg_cong [OF eq, of ev_group] by simp
  show "i \<notin> S \<Longrightarrow> ev' i = ev i" using assms by (simp add: link_only_def)
qed

lemma link_only_is_high: "link_only S ev ev' \<Longrightarrow> is_high ev' = is_high ev"
  by (simp add: is_high_def fun_eq_iff link_onlyD)

lemma put_list_simps [simp]:
  "l_cnt (put_list ev pl xs) = int (length xs)"
  "l_firstevent (put_list ev pl xs) = Some (hd xs)"
  "l_lastevent (put_list ev pl xs) = Some (last xs)"
  "l_lasthigh (put_list ev pl xs) = int (length (filter (is_high ev) xs))"
  "l_mutex (put_list ev pl xs) = l_mutex pl"
  "l_events_in (put_list ev pl xs) = l_events_in pl"
  "l_events_out (put_list ev pl xs) = l_events_out pl"
  "l_events_try (put_list ev pl xs) = l_events_try pl"
  by (simp_all add: put_list_def)

lemma put_list_eq: "out_ok ev pl xs \<Longrightarrow> xs \<noteq> [] \<Longrightarrow> put_list ev pl xs = pl"
  by (simp add: out_ok_def list_ok_def put_list_def)

lemma out_ok_put_list:
  "distinct xs \<Longrightarrow> linked ev xs \<Longrightarrow> hi_first ev xs \<Longrightarrow> out_ok ev (put_list ev pl xs) xs"
  by (simp add: out_ok_def list_ok_def)

lemma pri_append_singleton:
  "pri_append ev (pri_append ev xs [e]) es = pri_append ev xs (e # es)"
  by (simp add: pri_append_def)

lemma pri_append_cong: "is_high ev' = is_high ev \<Longrightarrow> pri_append ev' = pri_append ev"
  by (intro ext) (simp add: pri_append_def)

lemma put_list_cong: "is_high ev' = is_high ev \<Longrightarrow> put_list ev' = put_list ev"
  by (intro ext) (simp add: put_list_def)

lemma lasthigh_ptr_cong: "is_high ev' = is_high ev \<Longrightarrow> lasthigh_ptr ev' = lasthigh_ptr ev"
  by (intro ext) (simp add: lasthigh_ptr_def)

lemma linked_mid:
  assumes "linked ev (H @ L)" "distinct (H @ L)" "e \<notin> set (H @ L)" "H \<noteq> []" "L \<noteq> []"
  shows "linked (set_next (set_next ev e (ev_next (ev (last H)))) (last H) (Some e)) (H @ e # L)"
proof -
  have "last H \<in> set H" "last H \<notin> set L" using assms(2,4) by (auto dest: last_in_set)
  moreover have "last H \<notin> set (butlast H)" using assms(2) distinct_last_butlast by auto
  moreover have "e \<noteq> last H" using assms(3,4) by (auto dest: last_in_set)
  ultimately show ?thesis
    using assms by (auto simp: linked_append linked_Cons linked_set_next)
qed

lemma link_low_step:
  assumes "linked ev xs" "distinct xs" "xs \<noteq> []" "e \<notin> set xs" "hi_first ev xs" "\<not> is_high ev e"
    and "link_low ev (put_list ev pl xs) (last xs) e = (ev1, pl1)"
  shows "pl1\<lparr>l_cnt := l_cnt pl1 + 1\<rparr> = put_list ev pl (pri_append ev xs [e]) \<and>
     linked ev1 (pri_append ev xs [e]) \<and> next_only (set xs) ev ev1 \<and>
     last (pri_append ev xs [e]) = e \<and> lasthigh_ptr ev (pri_append ev xs [e]) = lasthigh_ptr ev xs"
proof -
  have "pri_append ev xs [e] = xs @ [e]"
    using assms(5,6) by (intro pri_append_low) (auto simp: hi_first_sorted)
  moreover have "linked (set_next ev (last xs) (Some e)) (xs @ [e])"
    using assms(1-4) distinct_last_butlast [of xs] by (auto simp: linked_append linked_set_next)
  ultimately show ?thesis
    using assms by (auto simp: link_low_def put_list_def lasthigh_ptr_def intro!: next_only_set_next)
qed

lemma link_high_step:
  assumes "linked ev xs" "distinct xs" "xs \<noteq> []" "e \<notin> set xs" "hi_first ev xs" "is_high ev e"
    and "link_high ev (put_list ev pl xs) (lasthigh_ptr ev xs) (Some (last xs)) e = (ev1, pl1)"
  shows "pl1\<lparr>l_cnt := l_cnt pl1 + 1\<rparr> = put_list ev pl (pri_append ev xs [e]) \<and>
     linked ev1 (pri_append ev xs [e]) \<and> next_only (insert e (set xs)) ev ev1 \<and>
     last (pri_append ev xs [e]) = (if lasthigh_ptr ev xs = Some (last xs) then e else last xs) \<and>
     lasthigh_ptr ev (pri_append ev xs [e]) = Some e"
proof -
  define H where "H = filter (is_high ev) xs"
  define L where "L = filter (\<lambda>x. \<not> is_high ev x) xs"
  have xs: "xs = H @ L" using assms(5) unfolding H_def L_def by (simp add: hi_first_iff)
  have R: "pri_append ev xs [e] = H @ e # L" using assms(6) by (simp add: pri_append_def H_def L_def)
  have fH: "filter (is_high ev) H = H" "filter (is_high ev) L = []"
    "\<And>x. x \<in> set L \<Longrightarrow> \<not> is_high ev x"
    by (auto simp: H_def L_def)
  consider "H = []" | "H \<noteq> []" "L = []" | "H \<noteq> []" "L \<noteq> []" by blast
  then show ?thesis
  proof cases
    case 1
    with assms xs fH show ?thesis unfolding R
      by (auto simp: link_high_def lasthigh_ptr_def put_list_def linked_Cons linked_set_next
          intro!: next_only_set_next)
  next
    case 2
    with assms xs fH distinct_last_butlast [of H] show ?thesis unfolding R
      by (auto simp: link_high_def lasthigh_ptr_def put_list_def linked_append linked_set_next
          intro!: next_only_set_next)
  next
    case 3
    then have "last H \<noteq> last xs" using assms(2) xs
      by (metis disjoint_iff distinct_append last_appendR last_in_set)
    with 3 assms xs fH linked_mid [of ev H L e] show ?thesis unfolding R
      by (auto simp: link_high_def lasthigh_ptr_def put_list_def
          intro!: next_only_set_next_trans)
  qed
qed

section \<open>The write routines refine priority insertion\<close>

lemma nwrite_loop_spec:
  assumes "linked ev xs" "distinct (xs @ es)" "xs \<noteq> []" "hi_first ev xs" "pri_ok ev es"
  shows "\<exists>ev'. nwrite_loop ev (put_list ev pl xs) (lasthigh_ptr ev xs) (last xs) es =
       (ev', put_list ev pl (pri_append ev xs es)) \<and>
     linked ev' (pri_append ev xs es) \<and> link_only (set xs \<union> set es) ev ev' \<and>
     (\<forall>i. ev_owner (ev' i) = (if i \<in> set es then ET_SYS else ev_owner (ev i)))"
  using assms
proof (induction es arbitrary: ev xs)
  case Nil
  then have "pri_append ev xs [] = xs" by (simp add: pri_append_def hi_first_iff [symmetric]) (metis hi_first_iff)
  with Nil show ?case by simp
next
  case (Cons e es)
  let ?xs = "pri_append ev xs [e]"
  let ?lk = "if ev_priority (ev e) = ET_LOW then link_low ev (put_list ev pl xs) (last xs) e
             else link_high ev (put_list ev pl xs) (lasthigh_ptr ev xs) (Some (last xs)) e"
  obtain ev1 pl1 where lk: "?lk = (ev1, pl1)" by fastforce
  have hi: "is_high ev e \<longleftrightarrow> ev_priority (ev e) \<noteq> ET_LOW" using Cons.prems(5) by (auto simp: pri_ok_def is_high_def)
  have e: "e \<notin> set xs" "distinct xs" using Cons.prems(2) by auto
  have step: "pl1\<lparr>l_cnt := l_cnt pl1 + 1\<rparr> = put_list ev pl ?xs" "linked ev1 ?xs"
    "next_only (insert e (set xs)) ev ev1"
    "last ?xs = (if \<not> is_high ev e \<or> lasthigh_ptr ev xs = Some (last xs) then e else last xs)"
    "lasthigh_ptr ev ?xs = (if is_high ev e then Some e else lasthigh_ptr ev xs)"
    using link_low_step [OF Cons.prems(1) e(2) Cons.prems(3) e(1) Cons.prems(4)]
      link_high_step [OF Cons.prems(1) e(2) Cons.prems(3) e(1) Cons.prems(4)] lk hi
    by (auto split: if_splits intro: next_only_mono)
  let ?ev2 = "set_owner ev1 e ET_SYS"
  have same: "is_high ?ev2 = is_high ev" using next_only_is_high [OF step(3)] by simp
  have eqs: "pri_append ?ev2 = pri_append ev" "put_list ?ev2 = put_list ev"
    "lasthigh_ptr ?ev2 = lasthigh_ptr ev" "hi_first ?ev2 = hi_first ev"
    by (rule pri_append_cong [OF same] put_list_cong [OF same] lasthigh_ptr_cong [OF same]
        hi_first_is_high_cong [OF same])+
  have "pri_ok ?ev2 es" using Cons.prems(5) next_onlyD(2) [OF step(3)] by (auto simp: pri_ok_def)
  moreover have "e \<in> set ?xs" "distinct ?xs" using e by (simp_all add: distinct_pri_append)
  then have "?xs \<noteq> []" "distinct (?xs @ es)" using Cons.prems(2) by (metis list.distinct(1) list.set_cases, auto)
  ultimately obtain ev' where
    IH: "nwrite_loop ?ev2 (put_list ev pl ?xs) (lasthigh_ptr ev ?xs) (last ?xs) es =
        (ev', put_list ev pl (pri_append ev ?xs es))"
      "linked ev' (pri_append ev ?xs es)" "link_only (set ?xs \<union> set es) ?ev2 ev'"
      "\<forall>i. ev_owner (ev' i) = (if i \<in> set es then ET_SYS else ev_owner (?ev2 i))"
    using Cons.IH [of ?ev2 ?xs] step(2) hi_first_pri_append eqs by auto
  have "nwrite_loop ev (put_list ev pl xs) (lasthigh_ptr ev xs) (last xs) (e # es) =
      nwrite_loop ?ev2 (put_list ev pl ?xs) (lasthigh_ptr ev ?xs) (last ?xs) es"
    using lk hi step(1,4,5) by (simp split: if_splits)
  moreover have "link_only (set xs \<union> set (e # es)) ev ev'"
    by (rule link_only_trans [OF link_only_set_owner [OF link_only_next_only [OF next_only_mono [OF step(3)]]]
          link_only_mono [OF IH(3)]]) auto
  moreover have "ev_owner (ev' i) = (if i \<in> set (e # es) then ET_SYS else ev_owner (ev i))" for i
    using IH(4) next_onlyD(3) [OF step(3)] by simp
  ultimately show ?case using IH(1,2) by (simp add: pri_append_singleton)
qed

lemma walk_linked: "linked ev xs \<Longrightarrow> n < length xs \<Longrightarrow> walk ev n (Some (hd xs)) = Some (xs ! n)"
proof (induction n arbitrary: xs)
  case 0
  then show ?case by (cases xs) auto
next
  case (Suc n)
  then obtain y ys where xs: "xs = y # ys" by (cases xs) auto
  with Suc.prems have "ys \<noteq> []" "linked ev ys" "ev_next (ev y) = Some (hd ys)" "n < length ys"
    by (auto simp: linked_Cons)
  with Suc.IH xs show ?case by simp
qed

lemma find_lasthigh_out_ok:
  assumes "out_ok ev pl xs" "xs \<noteq> []"
  shows "find_lasthigh ev pl = Some (lasthigh_ptr ev xs)"
proof (cases "filter (is_high ev) xs = []")
  case True
  with assms show ?thesis by (simp add: find_lasthigh_def lasthigh_ptr_def out_ok_def)
next
  case False
  let ?H = "filter (is_high ev) xs"
  from assms have xs: "xs = ?H @ filter (\<lambda>x. \<not> is_high ev x) xs" by (metis hi_first_iff out_ok_def)
  have n: "length ?H - 1 < length ?H" using False by (simp add: length_greater_0_conv)
  then have "xs ! (length ?H - 1) = last ?H"
    by (subst xs) (simp add: nth_append last_conv_nth [OF False])
  moreover have "length ?H - 1 < length xs" using n length_filter_le [of "is_high ev" xs] by linarith
  moreover have "nat (int (length ?H) - 1) = length ?H - 1" by simp
  ultimately show ?thesis
    using walk_linked [of ev xs "length ?H - 1"] assms False
    by (simp add: find_lasthigh_def lasthigh_ptr_def out_ok_def list_ok_def)
qed

definition fix_out_done :: "et_station \<Rightarrow> int \<Rightarrow> int \<Rightarrow> et_station" where
  "fix_out_done ps cnt num = ps\<lparr>st_fix := (st_fix ps)\<lparr>fix_out := (fix_out (st_fix ps))\<lparr>
     fo_cnt := cnt, fo_num := num\<rparr>\<rparr>\<rparr>"

lemma fix_out_begin_end [simp]: "fix_out_end (fix_out_begin ps pl num) = fix_out_done ps (l_cnt pl) num"
  by (simp add: fix_out_end_def fix_out_begin_def fix_out_done_def)

lemma fix_out_done_simps [simp]:
  "st_list_in (fix_out_done ps c n) = st_list_in ps"
  "fo_start (fix_out (st_fix (fix_out_done ps c n))) = fo_start (fix_out (st_fix ps))"
  "fix_in (st_fix (fix_out_done ps c n)) = fix_in (st_fix ps)"
  by (simp_all add: fix_out_done_def)

lemma station_nwrite_core_ok:
  assumes out: "out_ok ev (st_list_out ps) xs" and free: "\<not> l_mutex (st_list_out ps)"
    and es: "es \<noteq> []" "distinct (xs @ es)" "pri_ok ev es" and room: "int (length (xs @ es)) \<le> nevents"
  defines "R \<equiv> pri_append ev xs es"
  shows "\<exists>ev'. station_nwrite_core nevents es (int (length es)) ev ps =
       Some (ET_OK, ev', (fix_out_done ps (int (length xs)) (int (length es)))
         \<lparr>st_list_out := put_list ev (st_list_out ps) R\<rparr>) \<and>
     linked ev' R \<and> link_only (set xs \<union> set es) ev ev' \<and>
     (\<forall>i. ev_owner (ev' i) = (if i \<in> set es then ET_SYS else ev_owner (ev i)))"
proof -
  let ?pl = "st_list_out ps"
  have cnt: "l_cnt ?pl = int (length xs)" using out by (simp add: out_ok_def list_ok_def)
  have unlock: "et_llist_unlock (put_list ev (?pl\<lparr>l_mutex := True\<rparr>) R) = put_list ev ?pl R"
    using free by (simp add: put_list_def et_llist_unlock_def)
  show ?thesis
  proof (cases "xs = []")
    case True
    obtain e rest where e: "es = e # rest" using es(1) by (cases es) auto
    let ?ev1 = "set_owner ev e ET_SYS"
    have lh0: "l_lasthigh ?pl = 0" using out True by (simp add: out_ok_def)
    have pl1: "(link_only_one ev (?pl\<lparr>l_mutex := True, l_firstevent := None\<rparr>) e)\<lparr>l_cnt := 1\<rparr> =
        put_list ?ev1 (?pl\<lparr>l_mutex := True\<rparr>) [e]"
      using lh0 by (simp add: link_only_one_def put_list_def is_high_def)
    have hi1: "hi_first ?ev1 [e]" "pri_ok ?ev1 rest" "distinct ([e] @ rest)"
      using es e by (auto simp: hi_first_sorted pri_ok_def)
    have cong: "pri_append ?ev1 = pri_append ev" "put_list ?ev1 = put_list ev"
      by (auto intro: pri_append_cong put_list_cong)
    from nwrite_loop_spec [of ?ev1 "[e]" rest "?pl\<lparr>l_mutex := True\<rparr>"] hi1 cong obtain ev' where
      lp: "nwrite_loop ?ev1 (put_list ev (?pl\<lparr>l_mutex := True\<rparr>) [e]) (lasthigh_ptr ?ev1 [e]) e rest =
        (ev', put_list ev (?pl\<lparr>l_mutex := True\<rparr>) (pri_append ev [e] rest))"
      "linked ev' (pri_append ev [e] rest)" "link_only (insert e (set rest)) ?ev1 ev'"
      "\<forall>i. ev_owner (ev' i) = (if i \<in> set rest then ET_SYS else ev_owner (?ev1 i))" by auto
    have R: "pri_append ev [e] rest = R"
      unfolding R_def True e by (simp add: pri_append_def)
    have "link_only (set xs \<union> set es) ev ev'"
      by (rule link_only_trans [OF link_only_set_owner [OF link_only_refl] link_only_mono [OF lp(3)]])
        (auto simp: e)
    moreover have "lasthigh_ptr ?ev1 [e] = (if ev_priority (ev e) = ET_HIGH then Some e else None)"
      by (simp add: lasthigh_ptr_def is_high_def)
    ultimately show ?thesis
      using lp R True e cnt free room unlock pl1 cong
      by (auto simp: station_nwrite_core_def et_llist_lock_def Let_def link_only_one_def)
  next
    case False
    have plx: "put_list ev (?pl\<lparr>l_mutex := True\<rparr>) xs = ?pl\<lparr>l_mutex := True\<rparr>"
      using put_list_eq [OF out False] by (simp add: put_list_def) (metis et_list.surjective et_list.update_convs)
    have "linked ev xs" "hi_first ev xs" using out by (auto simp: out_ok_def list_ok_def)
    from nwrite_loop_spec [OF this(1) es(2) False this(2) es(3), of "?pl\<lparr>l_mutex := True\<rparr>"] plx
    obtain ev' where lp: "nwrite_loop ev (?pl\<lparr>l_mutex := True\<rparr>) (lasthigh_ptr ev xs) (last xs) es =
        (ev', put_list ev (?pl\<lparr>l_mutex := True\<rparr>) R)" "linked ev' R" "link_only (set xs \<union> set es) ev ev'"
      "\<forall>i. ev_owner (ev' i) = (if i \<in> set es then ET_SYS else ev_owner (ev i))"
      unfolding R_def by auto
    have "find_lasthigh ev (?pl\<lparr>l_mutex := True\<rparr>) = Some (lasthigh_ptr ev xs)"
      using find_lasthigh_out_ok [OF out False] by (auto simp: find_lasthigh_def split: if_splits)
    moreover have "l_lastevent ?pl = Some (last xs)" using out False by (simp add: out_ok_def list_ok_def)
    ultimately show ?thesis
      using lp cnt free room False unlock
      by (auto simp: station_nwrite_core_def et_llist_lock_def Let_def)
  qed
qed

lemma station_write_core_nwrite:
  assumes "out_ok ev (st_list_out ps) xs"
  shows "station_write_core nevents e ev ps = station_nwrite_core nevents [e] 1 ev ps"
proof (cases "xs = []")
  case True
  with assms have "l_cnt (st_list_out ps) = 0" by (simp add: out_ok_def)
  then show ?thesis
    by (auto simp: station_write_core_def station_nwrite_core_def et_llist_lock_def Let_def link_only_one_def)
next
  case False
  have "find_lasthigh ev (st_list_out ps\<lparr>l_mutex := True\<rparr>) = Some (lasthigh_ptr ev xs)"
    using find_lasthigh_out_ok [OF assms False] by (auto simp: find_lasthigh_def split: if_splits)
  moreover have "l_lastevent (st_list_out ps) = Some (last xs)" "l_cnt (st_list_out ps) \<noteq> 0"
    using assms False by (auto simp: out_ok_def list_ok_def)
  ultimately show ?thesis
    by (auto simp: station_write_core_def station_nwrite_core_def et_llist_lock_def Let_def
        split: prod.splits)
qed

section \<open>Appending without regard to priority\<close>

definition put_tail :: "et_list \<Rightarrow> nat list \<Rightarrow> et_list" where
  "put_tail pl xs = pl\<lparr>l_firstevent := Some (hd xs), l_lastevent := Some (last xs),
     l_cnt := int (length xs)\<rparr>"

lemma put_tail_simps [simp]:
  "l_cnt (put_tail pl xs) = int (length xs)"
  "l_firstevent (put_tail pl xs) = Some (hd xs)"
  "l_lastevent (put_tail pl xs) = Some (last xs)"
  "l_lasthigh (put_tail pl xs) = l_lasthigh pl"
  "l_mutex (put_tail pl xs) = l_mutex pl"
  "l_events_in (put_tail pl xs) = l_events_in pl"
  by (simp_all add: put_tail_def)

lemma put_tail_eq: "list_ok ev pl xs \<Longrightarrow> xs \<noteq> [] \<Longrightarrow> put_tail pl xs = pl"
  by (simp add: list_ok_def put_tail_def)

lemma list_ok_put_tail: "distinct xs \<Longrightarrow> linked ev xs \<Longrightarrow> list_ok ev (put_tail pl xs) xs"
  by (simp add: list_ok_def)

lemma append_loop_spec:
  assumes "linked ev xs" "distinct (xs @ es)" "xs \<noteq> []"
  shows "\<exists>ev'. append_loop ev (put_tail pl xs) (last xs) es = (ev', put_tail pl (xs @ es)) \<and>
     linked ev' (xs @ es) \<and> link_only (set xs \<union> set es) ev ev' \<and>
     (\<forall>i. ev_owner (ev' i) = (if i \<in> set es then ET_SYS else ev_owner (ev i)))"
  using assms
proof (induction es arbitrary: ev xs)
  case Nil
  then show ?case by simp
next
  case (Cons e es)
  let ?ev2 = "set_owner (set_next ev (last xs) (Some e)) e ET_SYS"
  have "last xs \<notin> set (butlast xs)" using Cons.prems(2) distinct_last_butlast by auto
  then have "linked ?ev2 (xs @ [e])" using Cons.prems by (auto simp: linked_append linked_set_next)
  with Cons.IH [of ?ev2 "xs @ [e]"] Cons.prems obtain ev' where
    IH: "append_loop ?ev2 (put_tail pl (xs @ [e])) e es = (ev', put_tail pl (xs @ e # es))"
      "linked ev' (xs @ e # es)" "link_only (set (xs @ [e]) \<union> set es) ?ev2 ev'"
      "\<forall>i. ev_owner (ev' i) = (if i \<in> set es then ET_SYS else ev_owner (?ev2 i))" by auto
  have "(put_tail pl xs)\<lparr>l_lastevent := Some e, l_cnt := int (length xs) + 1\<rparr> = put_tail pl (xs @ [e])"
    using Cons.prems(3) by (simp add: put_tail_def)
  then have "append_loop ev (put_tail pl xs) (last xs) (e # es) = (ev', put_tail pl (xs @ e # es))"
    using IH(1) by simp
  moreover have "link_only (set xs \<union> set (e # es)) ev ev'"
    by (rule link_only_trans [OF link_only_set_owner [OF link_only_set_next [OF link_only_refl]]
          link_only_mono [OF IH(3)]]) (use Cons.prems(3) in auto)
  ultimately show ?case using IH(2,4) by simp
qed

lemma append_events_spec:
  assumes "list_ok ev pl xs" "es \<noteq> []" "distinct (xs @ es)"
  shows "\<exists>ev'. append_events ev (if l_cnt pl = 0 then pl\<lparr>l_firstevent := None\<rparr> else pl) es =
       Some (ev', put_tail pl (xs @ es)) \<and>
     linked ev' (xs @ es) \<and> link_only (set xs \<union> set es) ev ev' \<and>
     (\<forall>i. ev_owner (ev' i) = (if i \<in> set es then ET_SYS else ev_owner (ev i)))"
proof (cases "xs = []")
  case True
  obtain e rest where e: "es = e # rest" using assms(2) by (cases es) auto
  let ?ev1 = "set_owner ev e ET_SYS"
  from append_loop_spec [of ?ev1 "[e]" rest pl] assms(3) e True obtain ev' where
    lp: "append_loop ?ev1 (put_tail pl [e]) e rest = (ev', put_tail pl es)" "linked ev' es"
      "link_only (set [e] \<union> set rest) ?ev1 ev'"
      "\<forall>i. ev_owner (ev' i) = (if i \<in> set rest then ET_SYS else ev_owner (?ev1 i))" by auto
  have "link_only (set es) ev ev'"
    by (rule link_only_trans [OF link_only_set_owner [OF link_only_refl] link_only_mono [OF lp(3)]])
      (auto simp: e)
  with lp assms(1) True e show ?thesis
    by (auto simp: append_events_def put_tail_def)
next
  case False
  from assms(1) False have "linked ev xs" "l_cnt pl \<noteq> 0" "l_lastevent pl = Some (last xs)"
    by (auto simp: list_ok_def)
  with append_loop_spec [OF _ assms(3) False, of ev pl] put_tail_eq [OF assms(1) False]
  show ?thesis by (auto simp: append_events_def)
qed

lemma list_ok_mutex [simp]: "list_ok ev (pl\<lparr>l_mutex := b\<rparr>) xs = list_ok ev pl xs"
  by (simp add: list_ok_def)

definition fix_in_dump_done :: "et_station \<Rightarrow> int \<Rightarrow> int \<Rightarrow> et_station" where
  "fix_in_dump_done ps cnt num = ps\<lparr>st_fix := (st_fix ps)\<lparr>fix_in := (fix_in (st_fix ps))\<lparr>
     fi_eventsin := l_events_in (st_list_in ps), fi_cnt := cnt, fi_num := num,
     fi_call := ET_FIX_DUMP\<rparr>\<rparr>\<rparr>"

lemma fix_in_dump_begin_end:
  "l_events_in pl = l_events_in (st_list_in ps) \<Longrightarrow>
     fix_in_dump_end (fix_in_dump_begin ps pl num) = fix_in_dump_done ps (l_cnt pl) num"
  by (simp add: fix_in_dump_end_def fix_in_dump_begin_def fix_in_dump_done_def)

lemma station_ndump_core_ok:
  assumes ok: "list_ok ev (st_list_in ps) xs" and free: "\<not> l_mutex (st_list_in ps)"
    and es: "es \<noteq> []" "distinct (xs @ es)" and room: "int (length (xs @ es)) \<le> nevents"
  shows "\<exists>ev'. station_ndump_core nevents es (int (length es)) ev ps =
       Some (ET_OK, ev', (fix_in_dump_done ps (int (length xs)) (int (length es)))
         \<lparr>st_list_in := put_tail (st_list_in ps) (xs @ es)\<rparr>) \<and>
     linked ev' (xs @ es) \<and> link_only (set xs \<union> set es) ev ev' \<and>
     (\<forall>i. ev_owner (ev' i) = (if i \<in> set es then ET_SYS else ev_owner (ev i)))"
proof -
  let ?pl = "st_list_in ps"
  have cnt: "l_cnt ?pl = int (length xs)" using ok by (simp add: list_ok_def)
  have unlock: "et_llist_unlock (put_tail (?pl\<lparr>l_mutex := True\<rparr>) (xs @ es)) = put_tail ?pl (xs @ es)"
    using free by (simp add: put_tail_def et_llist_unlock_def)
  from append_events_spec [of ev "?pl\<lparr>l_mutex := True\<rparr>" xs es] ok es show ?thesis
    using cnt free room unlock
    by (auto simp: station_ndump_core_def et_llist_lock_def Let_def fix_in_dump_begin_end split: if_splits)
qed

lemma station_nwriteNoPri_core_ok:
  assumes ok: "list_ok ev (st_list_out ps) xs" and free: "\<not> l_mutex (st_list_out ps)"
    and es: "es \<noteq> []" "distinct (xs @ es)" and room: "int (length (xs @ es)) \<le> nevents"
  shows "\<exists>ev'. station_nwriteNoPri_core nevents es (int (length es)) ev ps =
       Some (ET_OK, ev', (fix_out_done ps (int (length xs)) (int (length es)))
         \<lparr>st_list_out := put_tail (st_list_out ps) (xs @ es)\<rparr>) \<and>
     linked ev' (xs @ es) \<and> link_only (set xs \<union> set es) ev ev' \<and>
     (\<forall>i. ev_owner (ev' i) = (if i \<in> set es then ET_SYS else ev_owner (ev i)))"
proof -
  let ?pl = "st_list_out ps"
  have cnt: "l_cnt ?pl = int (length xs)" using ok by (simp add: list_ok_def)
  have unlock: "et_llist_unlock (put_tail (?pl\<lparr>l_mutex := True\<rparr>) (xs @ es)) = put_tail ?pl (xs @ es)"
    using free by (simp add: put_tail_def et_llist_unlock_def)
  from append_events_spec [of ev "?pl\<lparr>l_mutex := True\<rparr>" xs es] ok es show ?thesis
    using cnt free room unlock
    by (auto simp: station_nwriteNoPri_core_def et_llist_lock_def Let_def split: if_splits)
qed

lemma station_dump_core_ok:
  assumes ok: "list_ok ev (st_list_in ps) xs" and free: "\<not> l_mutex (st_list_in ps)"
    and e: "e \<notin> set xs" and room: "int (length xs) < nevents"
  shows "\<exists>ev'. station_dump_core nevents e ev ps =
       Some (ET_OK, ev', (fix_in_dump_done ps (int (length xs)) 1)
         \<lparr>st_list_in := (put_tail (st_list_in ps) (xs @ [e]))
            \<lparr>l_events_in := l_events_in (st_list_in ps) + 1\<rparr>\<rparr>) \<and>
     linked ev' (xs @ [e]) \<and> link_only (set xs \<union> {e}) ev ev' \<and>
     (\<forall>i. ev_owner (ev' i) = (if i = e then ET_SYS else ev_owner (ev i)))"
proof -
  let ?pl = "st_list_in ps"
  let ?pl0 = "if l_cnt ?pl = 0 then ?pl\<lparr>l_mutex := True, l_firstevent := None\<rparr> else ?pl\<lparr>l_mutex := True\<rparr>"
  have cnt: "l_cnt ?pl = int (length xs)" using ok by (simp add: list_ok_def)
  have "list_ok ev ?pl0 xs" using ok cnt by (auto simp: list_ok_def)
  from put_first_list_ok [OF this e] obtain ev1 where
    pf: "put_first ev ?pl0 e = Some (ev1, ?pl0\<lparr>l_firstevent := Some (hd (xs @ [e]))\<rparr>)"
      "next_only (set xs) ev ev1" "linked ev1 xs" "xs \<noteq> [] \<longrightarrow> ev_next (ev1 (last xs)) = Some e" by blast
  have "linked (set_owner ev1 e ET_SYS) (xs @ [e])" using pf(3,4) by (auto simp: linked_append)
  moreover have "link_only (set xs \<union> {e}) ev (set_owner ev1 e ET_SYS)"
    using link_only_next_only [OF pf(2)] by (intro link_only_set_owner) (auto elim: link_only_mono)
  moreover have "ev_owner (set_owner ev1 e ET_SYS i) = (if i = e then ET_SYS else ev_owner (ev i))" for i
    using next_onlyD(3) [OF pf(2)] by simp
  ultimately show ?thesis
    using pf(1) cnt free room
    by (auto simp: station_dump_core_def et_llist_lock_def et_llist_unlock_def Let_def
        fix_in_dump_begin_end put_tail_def split: if_splits)
qed

section \<open>Properties\<close>

lemma linked_link_only:
  "link_only S ev ev' \<Longrightarrow> set xs \<inter> S = {} \<Longrightarrow> linked ev' xs = linked ev xs"
  by (rule linked_cong) (metis disjoint_iff in_set_butlastD link_onlyD(1))

lemma list_ok_link_only:
  "link_only S ev ev' \<Longrightarrow> set xs \<inter> S = {} \<Longrightarrow> list_ok ev' pl xs = list_ok ev pl xs"
  using linked_link_only [of S ev ev' xs] by (auto simp: list_ok_def)

lemma out_ok_link_only:
  "link_only S ev ev' \<Longrightarrow> set xs \<inter> S = {} \<Longrightarrow> out_ok ev' pl xs = out_ok ev pl xs"
  using list_ok_link_only [of S ev ev' xs pl] link_only_is_high [of S ev ev']
    hi_first_is_high_cong [of ev' ev] by (simp add: out_ok_def)

lemma out_ok_put_list_link:
  "link_only S ev ev' \<Longrightarrow> distinct xs \<Longrightarrow> linked ev' xs \<Longrightarrow> hi_first ev xs \<Longrightarrow>
     out_ok ev' (put_list ev pl xs) xs"
  using out_ok_put_list [of xs ev' pl] link_only_is_high [of S ev ev']
    hi_first_is_high_cong [of ev' ev] put_list_cong [of ev' ev] by simp

text \<open>
  C14. \<open>et_station_nwrite\<close> on a station whose output list is well formed and unlocked, with a
  nonempty array of new events that fits, succeeds: the output list becomes the priority insertion
  of the new events, is unlocked again, and \<open>lasthigh\<close> counts its high priority events. The written
  events are owned by the system. Apart from that only the links of the events in the list and the
  station's record of the last write, its count before and its number of events, change: the state after
  is written out.
\<close>

theorem et_station_nwrite_refines:
  assumes "s < length (id_stats eid)" "out_ok (id_events eid) (st_list_out (id_stats eid ! s)) xs"
    "\<not> l_mutex (st_list_out (id_stats eid ! s))" "es \<noteq> []" "distinct (xs @ es)"
    "pri_ok (id_events eid) es" "int (length (xs @ es)) \<le> nevents_max eid"
    and ps: "ps = id_stats eid ! s" and pl: "pl = st_list_out ps"
  shows "\<exists>ev' pl'. et_station_nwrite eid s es (int (length es)) = Some (ET_OK, eid\<lparr>id_stats := (id_stats eid)[s :=
         ps\<lparr>st_fix := (st_fix ps)\<lparr>fix_out := (fix_out (st_fix ps))\<lparr>fo_cnt := int (length xs), fo_num := int (length es)\<rparr>\<rparr>, st_list_out := pl'\<rparr>], id_events := ev'\<rparr>) \<and>
     out_ok ev' pl' (pri_append (id_events eid) xs es) \<and> \<not> l_mutex pl' \<and>
     l_events_try pl' = l_events_try pl \<and> l_events_in pl' = l_events_in pl \<and> l_events_out pl' = l_events_out pl \<and>
     (\<forall>e. ev_owner (ev' e) = (if e \<in> set es then ET_SYS else ev_owner (id_events eid e))) \<and>
     (\<forall>e. (ev' e)\<lparr>ev_next := None, ev_owner := 0\<rparr> = (id_events eid e)\<lparr>ev_next := None, ev_owner := 0\<rparr>) \<and>
     (\<forall>e. e \<notin> set (xs @ es) \<longrightarrow> ev' e = id_events eid e) \<and>
     (\<forall>ys q. set ys \<inter> set (xs @ es) = {} \<longrightarrow> list_ok ev' q ys = list_ok (id_events eid) q ys)"
proof -
  let ?R = "pri_append (id_events eid) xs es" and ?pl = "put_list (id_events eid) pl (pri_append (id_events eid) xs es)"
  from station_nwrite_core_ok [OF assms(2-7)] obtain ev' where
    w: "station_nwrite_core (nevents_max eid) es (int (length es)) (id_events eid) ps =
       Some (ET_OK, ev', (fix_out_done ps (int (length xs)) (int (length es)))\<lparr>st_list_out := ?pl\<rparr>)"
    and lk: "linked ev' ?R" and lo: "link_only (set xs \<union> set es) (id_events eid) ev'"
    and own: "\<forall>i. ev_owner (ev' i) = (if i \<in> set es then ET_SYS else ev_owner (id_events eid i))" unfolding ps pl by blast
  have ok: "out_ok ev' ?pl ?R"
    using out_ok_put_list_link [OF lo _ lk] assms(5) hi_first_pri_append distinct_pri_append by blast
  have run: "et_station_nwrite eid s es (int (length es)) = Some (ET_OK, eid\<lparr>id_stats := (id_stats eid)[s :=
         ps\<lparr>st_fix := (st_fix ps)\<lparr>fix_out := (fix_out (st_fix ps))\<lparr>fo_cnt := int (length xs), fo_num := int (length es)\<rparr>\<rparr>, st_list_out := ?pl\<rparr>], id_events := ev'\<rparr>)"
    using w assms(1,4) unfolding ps [symmetric] by (simp add: et_station_nwrite_def on_station_def ps [symmetric] fix_out_done_def)
  have "\<forall>e. (ev' e)\<lparr>ev_next := None, ev_owner := 0\<rparr> = (id_events eid e)\<lparr>ev_next := None, ev_owner := 0\<rparr>"
    "\<forall>e. e \<notin> set (xs @ es) \<longrightarrow> ev' e = id_events eid e" using lo by (simp_all add: link_only_def)
  moreover have "\<not> l_mutex ?pl" "l_events_try ?pl = l_events_try pl" "l_events_in ?pl = l_events_in pl" "l_events_out ?pl = l_events_out pl"
    using assms(3) by (simp_all add: put_list_def ps pl)
  moreover have "\<forall>ys q. set ys \<inter> set (xs @ es) = {} \<longrightarrow> list_ok ev' q ys = list_ok (id_events eid) q ys"
    using list_ok_link_only [OF lo] by auto
  ultimately show ?thesis using run ok own by blast
qed

theorem et_station_nwrite_refines_witness:
  "\<exists>eid'. et_station_nwrite (sample_id 3 [sample_station, sample_station] (sample_heap [2])) 1 [0, 2] 2 =
       Some (ET_OK, eid') \<and> out_ok (id_events eid') (st_list_out (id_stats eid' ! 1)) [2, 0]"
proof -
  let ?id = "sample_id 3 [sample_station, sample_station] (sample_heap [2])"
  have "is_high (sample_heap [2]) i \<longleftrightarrow> i = 2" for i by (simp add: is_high_def)
  then have "pri_append (id_events ?id) [] [0, 2] = [2, 0]"
    by (simp add: pri_append_def)
  moreover have "out_ok (id_events ?id) (st_list_out (id_stats ?id ! 1)) []" "pri_ok (id_events ?id) [0, 2]"
    "int (length ([] @ [0, 2 :: nat])) \<le> nevents_max ?id"
    by (simp_all add: out_ok_def pri_ok_def hi_first_def nevents_max_def)
  ultimately show ?thesis
    using et_station_nwrite_refines [of 1 ?id "[]" "[0, 2]" "id_stats ?id ! 1" "st_list_out (id_stats ?id ! 1)"] by fastforce
qed

text \<open>
  Writing one event with \<open>et_station_write\<close> does exactly what \<open>et_station_nwrite\<close> does with an
  array of one event, on every well-formed output list, also when the list is full or locked.
\<close>

lemma et_station_write_eq_nwrite:
  assumes "out_ok (id_events eid) (st_list_out (id_stats eid ! s)) xs"
  shows "et_station_write eid s e = et_station_nwrite eid s [e] 1"
  using station_write_core_nwrite [OF assms]
  by (simp add: et_station_write_def et_station_nwrite_def on_station_def)

lemma nwrite_loop_low:
  assumes "\<And>e. e \<in> set es \<Longrightarrow> ev_priority (ev e) = ET_LOW"
  shows "nwrite_loop ev pl lh l es = append_loop ev pl l es"
  using assms by (induction es arbitrary: ev pl l) (simp_all add: link_low_def)

text \<open>
  C31. \<open>et_station_nwriteNoPri\<close> is a correct optimisation of \<open>et_station_nwrite\<close>: when no event of
  the output list and none of the new ones has high priority, both have the same effect and result.
\<close>

theorem et_station_nwriteNoPri_eq_nwrite:
  assumes "out_ok (id_events eid) (st_list_out (id_stats eid ! s)) xs"
    "\<forall>e \<in> set xs. \<not> is_high (id_events eid) e" "\<forall>e \<in> set es. ev_priority (id_events eid e) = ET_LOW"
  shows "et_station_nwriteNoPri eid s es num = et_station_nwrite eid s es num"
proof -
  let ?ev = "id_events eid" and ?ps = "id_stats eid ! s"
  have lh: "l_lasthigh (st_list_out ?ps) = 0"
    using assms(1,2) by (simp add: out_ok_def filter_empty_conv)
  have fl: "find_lasthigh ?ev (st_list_out ?ps\<lparr>l_mutex := True\<rparr>) = Some None"
    using lh by (simp add: find_lasthigh_def)
  have low: "ev_priority (?ev e) = ET_LOW" if "e \<in> set (take n es)" for e n
    using assms(3) that by (meson in_set_takeD)
  have one: "link_only_one ?ev pl e = pl\<lparr>l_firstevent := Some e, l_lastevent := Some e\<rparr>"
    if "ev_priority (?ev e) = ET_LOW" for pl e
    using that by (simp add: link_only_one_def)
  have lp: "nwrite_loop ?ev pl lh l (take n es) = append_loop ?ev pl l (take n es)" for pl lh l n
    using low by (rule nwrite_loop_low)
  have lp1: "nwrite_loop (set_owner ?ev e (- 1)) pl lh l rest = append_loop (set_owner ?ev e (- 1)) pl l rest"
    if "take n es = e # rest" for e rest pl lh l n
    using low [of _ n] that by (intro nwrite_loop_low) simp
  have "station_nwriteNoPri_core (nevents_max eid) es num ?ev ?ps =
      station_nwrite_core (nevents_max eid) es num ?ev ?ps"
    using low [of _ "nat num"]
    by (auto simp: station_nwriteNoPri_core_def station_nwrite_core_def append_events_def Let_def
        et_llist_lock_def fl lp lp1 one split: list.splits option.splits prod.splits)
  then show ?thesis
    by (simp add: et_station_nwriteNoPri_def et_station_nwrite_def on_station_def)
qed

theorem et_station_nwriteNoPri_eq_nwrite_witness:
  "et_station_nwriteNoPri (sample_id 3 [sample_station] (sample_heap [])) 0 [0, 1] 2 =
     et_station_nwrite (sample_id 3 [sample_station] (sample_heap [])) 0 [0, 1] 2"
  by (rule et_station_nwriteNoPri_eq_nwrite [of _ _ "[]"])
    (simp_all add: out_ok_def hi_first_def)

text \<open>
  Both dump routines append to GrandCentral's input list and hand the events to the system, but
  only \<open>et_station_dump\<close> counts them: after \<open>et_station_ndump\<close> the list's \<open>events_in\<close> statistic is what
  it was before, whatever the number of events dumped.
\<close>

lemma et_station_ndump_appends_uncounted:
  assumes "0 < length (id_stats eid)" "list_ok (id_events eid) (st_list_in (id_stats eid ! 0)) xs"
    "\<not> l_mutex (st_list_in (id_stats eid ! 0))" "es \<noteq> []" "distinct (xs @ es)"
    "int (length (xs @ es)) \<le> nevents_max eid"
  shows "\<exists>eid' eid''. et_station_ndump eid es (int (length es)) = Some (ET_OK, eid') \<and>
     list_ok (id_events eid') (st_list_in (id_stats eid' ! 0)) (xs @ es) \<and>
     (\<forall>e. ev_owner (id_events eid' e) = (if e \<in> set es then ET_SYS else ev_owner (id_events eid e))) \<and>
     l_events_in (st_list_in (id_stats eid' ! 0)) = l_events_in (st_list_in (id_stats eid ! 0)) \<and>
     et_station_dump eid (hd es) = Some (ET_OK, eid'') \<and>
     list_ok (id_events eid'') (st_list_in (id_stats eid'' ! 0)) (xs @ [hd es]) \<and>
     l_events_in (st_list_in (id_stats eid'' ! 0)) = l_events_in (st_list_in (id_stats eid ! 0)) + 1"
proof -
  from station_ndump_core_ok [OF assms(2-6)] obtain ev' where
    n: "station_ndump_core (nevents_max eid) es (int (length es)) (id_events eid) (id_stats eid ! 0) =
       Some (ET_OK, ev', (fix_in_dump_done (id_stats eid ! 0) (int (length xs)) (int (length es)))
         \<lparr>st_list_in := put_tail (st_list_in (id_stats eid ! 0)) (xs @ es)\<rparr>)"
      "linked ev' (xs @ es)"
      "\<forall>i. ev_owner (ev' i) = (if i \<in> set es then ET_SYS else ev_owner (id_events eid i))" by blast
  have "hd es \<notin> set xs" "int (length xs) < nevents_max eid" using assms(4-6) by (cases es; auto)+
  from station_dump_core_ok [OF assms(2,3) this] obtain ev'' where
    d: "station_dump_core (nevents_max eid) (hd es) (id_events eid) (id_stats eid ! 0) =
       Some (ET_OK, ev'', (fix_in_dump_done (id_stats eid ! 0) (int (length xs)) 1)
         \<lparr>st_list_in := (put_tail (st_list_in (id_stats eid ! 0)) (xs @ [hd es]))
            \<lparr>l_events_in := l_events_in (st_list_in (id_stats eid ! 0)) + 1\<rparr>\<rparr>)"
      "linked ev'' (xs @ [hd es])" by blast
  have "distinct (xs @ [hd es])" using assms(4,5) by (cases es) auto
  with n d assms(1,4,5) show ?thesis
    by (simp add: et_station_ndump_def et_station_dump_def on_station_def list_ok_def)
qed

end
