(* ===== verification/ET_StatConfig.thy ===== *)
theory ET_StatConfig
  imports ET_Types
begin

text \<open>
  Station configurations (src/libsrc/et\_statconfig.c): creation of a default configuration, the
  setters and getters of each field, the consistency check made when a station is created and
  the comparison of a configuration with that of an existing group of parallel stations.

  A configuration handle is \<open>None\<close> (a NULL pointer) or the structure it points to. A setter
  returns the status and the structure afterwards; a getter takes whether its result pointer is
  not NULL and returns the status and the value stored there, if one is. Strings are passed as
  \<open>None\<close> (NULL) or the characters before the terminating zero; the arrays of select words have
  \<open>ET_STATION_SELECT_INTS\<close> elements.

  The locale \<open>config_field\<close> is the contract between one setter and its getter; it is interpreted
  here for each field of a station configuration.
\<close>

abbreviation (input) "ET_FILENAME_LENGTH \<equiv> (100::nat)"
abbreviation (input) "ET_FUNCNAME_LENGTH \<equiv> (48::nat)"

section \<open>Creation, setters and getters\<close>

definition et_station_config_init :: et_stat_config where
  "et_station_config_init = \<lparr>cf_init = ET_STRUCT_OK, cf_flow_mode = ET_STATION_SERIAL,
     cf_user_mode = ET_STATION_USER_MULTI, cf_restore_mode = ET_STATION_RESTORE_OUT,
     cf_block_mode = ET_STATION_BLOCKING, cf_prescale = ET_STATION_PRESCALE, cf_cue = ET_STATION_CUE,
     cf_select_mode = ET_STATION_SELECT_ALL, cf_select = replicate ET_STATION_SELECT_INTS (-1),
     cf_fname = [], cf_lib = [], cf_classs = []\<rparr>"

definition config_set ::
  "('c \<Rightarrow> int) \<Rightarrow> 'c option \<Rightarrow> bool \<Rightarrow> ('c \<Rightarrow> 'c) \<Rightarrow> int \<times> 'c option" where
  "config_set ini config legal upd =
     (case config of
        None \<Rightarrow> (ET_ERROR, None)
      | Some c \<Rightarrow> if ini c \<noteq> ET_STRUCT_OK then (ET_ERROR, Some c)
                  else if \<not> legal then (ET_ERROR, Some c)
                  else (ET_OK, Some (upd c)))"

definition config_get :: "('c \<Rightarrow> int) \<Rightarrow> 'c option \<Rightarrow> bool \<Rightarrow> ('c \<Rightarrow> 'v) \<Rightarrow> int \<times> 'v option" where
  "config_get ini config val_nonnull sel =
     (case config of
        None \<Rightarrow> (ET_ERROR, None)
      | Some c \<Rightarrow> if ini c \<noteq> ET_STRUCT_OK \<or> \<not> val_nonnull then (ET_ERROR, None)
                  else (ET_OK, Some (sel c)))"

definition et_station_config_setblock :: "et_stat_config option \<Rightarrow> int \<Rightarrow> int \<times> et_stat_config option" where
  "et_station_config_setblock sconfig val = config_set cf_init sconfig
     (val = ET_STATION_NONBLOCKING \<or> val = ET_STATION_BLOCKING) (\<lambda>sc. sc\<lparr>cf_block_mode := val\<rparr>)"

definition et_station_config_getblock :: "et_stat_config option \<Rightarrow> bool \<Rightarrow> int \<times> int option" where
  "et_station_config_getblock sconfig val = config_get cf_init sconfig val cf_block_mode"

definition et_station_config_setflow :: "et_stat_config option \<Rightarrow> int \<Rightarrow> int \<times> et_stat_config option" where
  "et_station_config_setflow sconfig val = config_set cf_init sconfig
     (val = ET_STATION_SERIAL \<or> val = ET_STATION_PARALLEL) (\<lambda>sc. sc\<lparr>cf_flow_mode := val\<rparr>)"

definition et_station_config_getflow :: "et_stat_config option \<Rightarrow> bool \<Rightarrow> int \<times> int option" where
  "et_station_config_getflow sconfig val = config_get cf_init sconfig val cf_flow_mode"

definition et_station_config_setselect :: "et_stat_config option \<Rightarrow> int \<Rightarrow> int \<times> et_stat_config option" where
  "et_station_config_setselect sconfig val = config_set cf_init sconfig
     (val = ET_STATION_SELECT_ALL \<or> val = ET_STATION_SELECT_MATCH \<or> val = ET_STATION_SELECT_USER \<or>
      val = ET_STATION_SELECT_RROBIN \<or> val = ET_STATION_SELECT_EQUALCUE)
     (\<lambda>sc. sc\<lparr>cf_select_mode := val\<rparr>)"

definition et_station_config_getselect :: "et_stat_config option \<Rightarrow> bool \<Rightarrow> int \<times> int option" where
  "et_station_config_getselect sconfig val = config_get cf_init sconfig val cf_select_mode"

definition et_station_config_setuser :: "et_stat_config option \<Rightarrow> int \<Rightarrow> int \<times> et_stat_config option" where
  "et_station_config_setuser sconfig val = config_set cf_init sconfig
     (\<not> val < 0) (\<lambda>sc. sc\<lparr>cf_user_mode := val\<rparr>)"

definition et_station_config_getuser :: "et_stat_config option \<Rightarrow> bool \<Rightarrow> int \<times> int option" where
  "et_station_config_getuser sconfig val = config_get cf_init sconfig val cf_user_mode"

definition et_station_config_setrestore :: "et_stat_config option \<Rightarrow> int \<Rightarrow> int \<times> et_stat_config option" where
  "et_station_config_setrestore sconfig val = config_set cf_init sconfig
     (val = ET_STATION_RESTORE_OUT \<or> val = ET_STATION_RESTORE_IN \<or> val = ET_STATION_RESTORE_GC \<or>
      val = ET_STATION_RESTORE_REDIST) (\<lambda>sc. sc\<lparr>cf_restore_mode := val\<rparr>)"

definition et_station_config_getrestore :: "et_stat_config option \<Rightarrow> bool \<Rightarrow> int \<times> int option" where
  "et_station_config_getrestore sconfig val = config_get cf_init sconfig val cf_restore_mode"

definition et_station_config_setcue :: "et_stat_config option \<Rightarrow> int \<Rightarrow> int \<times> et_stat_config option" where
  "et_station_config_setcue sconfig val = config_set cf_init sconfig
     (\<not> val < 1) (\<lambda>sc. sc\<lparr>cf_cue := val\<rparr>)"

definition et_station_config_getcue :: "et_stat_config option \<Rightarrow> bool \<Rightarrow> int \<times> int option" where
  "et_station_config_getcue sconfig val = config_get cf_init sconfig val cf_cue"

definition et_station_config_setprescale :: "et_stat_config option \<Rightarrow> int \<Rightarrow> int \<times> et_stat_config option" where
  "et_station_config_setprescale sconfig val = config_set cf_init sconfig
     (\<not> val < 1) (\<lambda>sc. sc\<lparr>cf_prescale := val\<rparr>)"

definition et_station_config_getprescale :: "et_stat_config option \<Rightarrow> bool \<Rightarrow> int \<times> int option" where
  "et_station_config_getprescale sconfig val = config_get cf_init sconfig val cf_prescale"

definition et_station_config_setselectwords ::
  "et_stat_config option \<Rightarrow> int list \<Rightarrow> int \<times> et_stat_config option" where
  "et_station_config_setselectwords sconfig val = config_set cf_init sconfig True
     (\<lambda>sc. sc\<lparr>cf_select := map (\<lambda>i. val ! i) [0..<ET_STATION_SELECT_INTS]\<rparr>)"

definition et_station_config_getselectwords :: "et_stat_config option \<Rightarrow> bool \<Rightarrow> int \<times> int list option" where
  "et_station_config_getselectwords sconfig val = config_get cf_init sconfig val cf_select"

definition et_station_config_setfunction ::
  "et_stat_config option \<Rightarrow> string option \<Rightarrow> int \<times> et_stat_config option" where
  "et_station_config_setfunction sconfig val = config_set cf_init sconfig
     (val \<noteq> None \<and> \<not> length (the val) > ET_FUNCNAME_LENGTH - 1) (\<lambda>sc. sc\<lparr>cf_fname := the val\<rparr>)"

definition et_station_config_getfunction :: "et_stat_config option \<Rightarrow> bool \<Rightarrow> int \<times> string option" where
  "et_station_config_getfunction sconfig val = config_get cf_init sconfig val cf_fname"

definition et_station_config_setlib ::
  "et_stat_config option \<Rightarrow> string option \<Rightarrow> int \<times> et_stat_config option" where
  "et_station_config_setlib sconfig val = config_set cf_init sconfig
     (val \<noteq> None \<and> \<not> length (the val) > ET_FILENAME_LENGTH - 1) (\<lambda>sc. sc\<lparr>cf_lib := the val\<rparr>)"

definition et_station_config_getlib :: "et_stat_config option \<Rightarrow> bool \<Rightarrow> int \<times> string option" where
  "et_station_config_getlib sconfig val = config_get cf_init sconfig val cf_lib"

definition et_station_config_setclass ::
  "et_stat_config option \<Rightarrow> string option \<Rightarrow> int \<times> et_stat_config option" where
  "et_station_config_setclass sconfig val = config_set cf_init sconfig
     (val \<noteq> None \<and> \<not> length (the val) > ET_FILENAME_LENGTH - 1) (\<lambda>sc. sc\<lparr>cf_classs := the val\<rparr>)"

definition et_station_config_getclass :: "et_stat_config option \<Rightarrow> bool \<Rightarrow> int \<times> string option" where
  "et_station_config_getclass sconfig val = config_get cf_init sconfig val cf_classs"

section \<open>Consistency of a whole configuration\<close>

definition et_station_config_check :: "et_system \<Rightarrow> et_stat_config \<Rightarrow> int \<times> et_stat_config" where
  "et_station_config_check sys sc =
     (if cf_flow_mode sc \<noteq> ET_STATION_SERIAL \<and> cf_flow_mode sc \<noteq> ET_STATION_PARALLEL then (ET_ERROR, sc)
      else if cf_restore_mode sc \<noteq> ET_STATION_RESTORE_OUT \<and> cf_restore_mode sc \<noteq> ET_STATION_RESTORE_IN \<and>
        cf_restore_mode sc \<noteq> ET_STATION_RESTORE_GC \<and> cf_restore_mode sc \<noteq> ET_STATION_RESTORE_REDIST
        then (ET_ERROR, sc)
      else if cf_user_mode sc < 0 \<or> cf_user_mode sc > sc_nattachments (sy_config sys) then (ET_ERROR, sc)
      else if cf_select_mode sc \<noteq> ET_STATION_SELECT_ALL \<and> cf_select_mode sc \<noteq> ET_STATION_SELECT_MATCH \<and>
        cf_select_mode sc \<noteq> ET_STATION_SELECT_USER \<and> cf_select_mode sc \<noteq> ET_STATION_SELECT_RROBIN \<and>
        cf_select_mode sc \<noteq> ET_STATION_SELECT_EQUALCUE then (ET_ERROR, sc)
      else if cf_select_mode sc = ET_STATION_SELECT_USER \<and> (length (cf_lib sc) < 4 \<or> length (cf_fname sc) < 1)
        then (ET_ERROR, sc)
      else if (cf_select_mode sc = ET_STATION_SELECT_RROBIN \<or> cf_select_mode sc = ET_STATION_SELECT_EQUALCUE) \<and>
        (cf_flow_mode sc = ET_STATION_SERIAL \<or> cf_block_mode sc = ET_STATION_NONBLOCKING \<or>
         cf_restore_mode sc = ET_STATION_RESTORE_IN \<or> cf_prescale sc \<noteq> 1) then (ET_ERROR, sc)
      else if cf_restore_mode sc = ET_STATION_RESTORE_REDIST \<and> cf_flow_mode sc \<noteq> ET_STATION_PARALLEL
        then (ET_ERROR, sc)
      else if cf_block_mode sc \<noteq> ET_STATION_BLOCKING \<and> cf_block_mode sc \<noteq> ET_STATION_NONBLOCKING
        then (ET_ERROR, sc)
      else if cf_block_mode sc = ET_STATION_BLOCKING then
        (if cf_prescale sc < 1 then (ET_ERROR, sc) else (ET_OK, sc))
      else if cf_cue sc < 1 then (ET_ERROR, sc)
      else if cf_cue sc > sc_nevents (sy_config sys) then (ET_OK, sc\<lparr>cf_cue := sc_nevents (sy_config sys)\<rparr>)
      else (ET_OK, sc))"

definition et_station_compare_parallel :: "et_stat_config \<Rightarrow> et_stat_config \<Rightarrow> int" where
  "et_station_compare_parallel grp config =
     (if cf_flow_mode grp \<noteq> cf_flow_mode config then 0
      else if (cf_select_mode grp = ET_STATION_SELECT_RROBIN \<and> cf_select_mode config \<noteq> ET_STATION_SELECT_RROBIN) \<or>
        (cf_select_mode grp = ET_STATION_SELECT_EQUALCUE \<and> cf_select_mode config \<noteq> ET_STATION_SELECT_EQUALCUE) then 0
      else if (cf_select_mode grp = ET_STATION_SELECT_RROBIN \<or> cf_select_mode grp = ET_STATION_SELECT_EQUALCUE) \<and>
        (cf_block_mode grp \<noteq> cf_block_mode config \<or> cf_prescale grp \<noteq> cf_prescale config) then 0
      else if (cf_select_mode grp \<noteq> ET_STATION_SELECT_RROBIN \<and> cf_select_mode grp \<noteq> ET_STATION_SELECT_EQUALCUE) \<and>
        (cf_select_mode config = ET_STATION_SELECT_RROBIN \<or> cf_select_mode config = ET_STATION_SELECT_EQUALCUE) then 0
      else 1)"

section \<open>The contract of a field\<close>

locale config_field =
  fixes ready :: "'c \<Rightarrow> bool"
    and put :: "'c option \<Rightarrow> 'v \<Rightarrow> int \<times> 'c option"
    and fetch :: "'c option \<Rightarrow> bool \<Rightarrow> int \<times> 'w option"
    and legal :: "'v \<Rightarrow> bool"
    and stored :: "'v \<Rightarrow> 'w"
  assumes put_legal: "ready c \<Longrightarrow> legal v \<Longrightarrow>
      \<exists>c'. put (Some c) v = (ET_OK, Some c') \<and> ready c' \<and> fetch (Some c') True = (ET_OK, Some (stored v))"
    and put_illegal: "\<not> legal v \<Longrightarrow> put (Some c) v = (ET_ERROR, Some c)"
    and put_unready: "\<not> ready c \<Longrightarrow> put (Some c) v = (ET_ERROR, Some c)"
    and fetch_unready: "\<not> ready c \<or> \<not> b \<Longrightarrow> fetch (Some c) b = (ET_ERROR, None)"
    and put_null: "put None v = (ET_ERROR, None)"
    and fetch_null: "fetch None b = (ET_ERROR, None)"
begin

definition put_all :: "'c option \<Rightarrow> 'v list \<Rightarrow> 'c option" where
  "put_all c vs = fold (\<lambda>v c. snd (put c v)) vs c"

lemma put_OK_iff: "fst (put c v) = ET_OK \<longleftrightarrow> (\<exists>x. c = Some x \<and> ready x \<and> legal v)"
  using put_legal put_illegal put_unready put_null
  by (cases c) (simp_all, metis fst_conv zero_neq_neg_one)

lemma put_error_keeps: "fst (put c v) \<noteq> ET_OK \<Longrightarrow> put c v = (ET_ERROR, c)"
  using put_legal put_illegal put_unready put_null by (cases c) (simp_all, metis fst_conv)

lemma put_fetch: "fst (put c v) = ET_OK \<Longrightarrow> fetch (snd (put c v)) True = (ET_OK, Some (stored v))"
  unfolding put_OK_iff using put_legal by fastforce

text \<open>The getter returns the last legal value that was set.\<close>

lemma put_all_fetch:
  "ready c \<Longrightarrow> fetch (put_all (Some c) vs) True =
     (if filter legal vs = [] then fetch (Some c) True else (ET_OK, Some (stored (last (filter legal vs)))))"
proof (induction vs arbitrary: c)
  case Nil
  then show ?case by (simp add: put_all_def)
next
  case (Cons v vs)
  show ?case
  proof (cases "legal v")
    case True
    with put_legal [OF Cons.prems] obtain c' where
      c': "put (Some c) v = (ET_OK, Some c')" "ready c'" "fetch (Some c') True = (ET_OK, Some (stored v))"
      by blast
    have "put_all (Some c) (v # vs) = put_all (Some c') vs" by (simp add: put_all_def c')
    with Cons.IH [OF c'(2)] c'(3) True show ?thesis by auto
  next
    case False
    have "put_all (Some c) (v # vs) = put_all (Some c) vs" by (simp add: put_all_def put_illegal [OF False])
    with Cons.IH [OF Cons.prems] False show ?thesis by simp
  qed
qed

end

lemma config_fieldI:
  assumes "\<And>c v. legal v \<Longrightarrow> sel (upd v c) = stored v" "\<And>c v. ini (upd v c) = ini c"
  shows "config_field (\<lambda>c. ini c = ET_STRUCT_OK) (\<lambda>cfg v. config_set ini cfg (legal v) (upd v))
     (\<lambda>cfg b. config_get ini cfg b sel) legal stored"
  using assms by unfold_locales (auto simp: config_set_def config_get_def)

abbreviation (input) "config_ready c \<equiv> cf_init c = ET_STRUCT_OK"

interpretation block: config_field "\<lambda>c. config_ready c" et_station_config_setblock et_station_config_getblock
  "\<lambda>val. val = ET_STATION_NONBLOCKING \<or> val = ET_STATION_BLOCKING" "\<lambda>val. val"
  unfolding et_station_config_setblock_def [abs_def] et_station_config_getblock_def [abs_def]
  by (rule config_fieldI) simp_all

interpretation flow: config_field "\<lambda>c. config_ready c" et_station_config_setflow et_station_config_getflow
  "\<lambda>val. val = ET_STATION_SERIAL \<or> val = ET_STATION_PARALLEL" "\<lambda>val. val"
  unfolding et_station_config_setflow_def [abs_def] et_station_config_getflow_def [abs_def]
  by (rule config_fieldI) simp_all

interpretation select: config_field "\<lambda>c. config_ready c" et_station_config_setselect et_station_config_getselect
  "\<lambda>val. val = ET_STATION_SELECT_ALL \<or> val = ET_STATION_SELECT_MATCH \<or> val = ET_STATION_SELECT_USER \<or>
     val = ET_STATION_SELECT_RROBIN \<or> val = ET_STATION_SELECT_EQUALCUE" "\<lambda>val. val"
  unfolding et_station_config_setselect_def [abs_def] et_station_config_getselect_def [abs_def]
  by (rule config_fieldI) simp_all

interpretation user: config_field "\<lambda>c. config_ready c" et_station_config_setuser et_station_config_getuser
  "\<lambda>val. \<not> val < 0" "\<lambda>val. val"
  unfolding et_station_config_setuser_def [abs_def] et_station_config_getuser_def [abs_def]
  by (rule config_fieldI) simp_all

interpretation restore: config_field "\<lambda>c. config_ready c" et_station_config_setrestore et_station_config_getrestore
  "\<lambda>val. val = ET_STATION_RESTORE_OUT \<or> val = ET_STATION_RESTORE_IN \<or> val = ET_STATION_RESTORE_GC \<or>
     val = ET_STATION_RESTORE_REDIST" "\<lambda>val. val"
  unfolding et_station_config_setrestore_def [abs_def] et_station_config_getrestore_def [abs_def]
  by (rule config_fieldI) simp_all

interpretation cue: config_field "\<lambda>c. config_ready c" et_station_config_setcue et_station_config_getcue
  "\<lambda>val. \<not> val < 1" "\<lambda>val. val"
  unfolding et_station_config_setcue_def [abs_def] et_station_config_getcue_def [abs_def]
  by (rule config_fieldI) simp_all

interpretation prescale: config_field "\<lambda>c. config_ready c" et_station_config_setprescale et_station_config_getprescale
  "\<lambda>val. \<not> val < 1" "\<lambda>val. val"
  unfolding et_station_config_setprescale_def [abs_def] et_station_config_getprescale_def [abs_def]
  by (rule config_fieldI) simp_all

interpretation selectwords: config_field "\<lambda>c. config_ready c" et_station_config_setselectwords
  et_station_config_getselectwords "\<lambda>val. True" "\<lambda>val. map (\<lambda>i. val ! i) [0..<ET_STATION_SELECT_INTS]"
  unfolding et_station_config_setselectwords_def [abs_def] et_station_config_getselectwords_def [abs_def]
  by (rule config_fieldI) simp_all

interpretation funct: config_field "\<lambda>c. config_ready c" et_station_config_setfunction et_station_config_getfunction
  "\<lambda>val. val \<noteq> None \<and> \<not> length (the val) > ET_FUNCNAME_LENGTH - 1" "\<lambda>val. the val"
  unfolding et_station_config_setfunction_def [abs_def] et_station_config_getfunction_def [abs_def]
  by (rule config_fieldI) simp_all

interpretation lib: config_field "\<lambda>c. config_ready c" et_station_config_setlib et_station_config_getlib
  "\<lambda>val. val \<noteq> None \<and> \<not> length (the val) > ET_FILENAME_LENGTH - 1" "\<lambda>val. the val"
  unfolding et_station_config_setlib_def [abs_def] et_station_config_getlib_def [abs_def]
  by (rule config_fieldI) simp_all

interpretation classs: config_field "\<lambda>c. config_ready c" et_station_config_setclass et_station_config_getclass
  "\<lambda>val. val \<noteq> None \<and> \<not> length (the val) > ET_FILENAME_LENGTH - 1" "\<lambda>val. the val"
  unfolding et_station_config_setclass_def [abs_def] et_station_config_getclass_def [abs_def]
  by (rule config_fieldI) simp_all

section \<open>Sequences of settings\<close>

datatype stat_setting = SetBlock int | SetFlow int | SetSelect int | SetUser int | SetRestore int
  | SetCue int | SetPrescale int | SetSelectwords "int list" | SetFunction "string option"
  | SetLib "string option" | SetClass "string option"

fun apply_setting :: "stat_setting \<Rightarrow> et_stat_config option \<Rightarrow> int \<times> et_stat_config option" where
  "apply_setting (SetBlock v) c = et_station_config_setblock c v"
| "apply_setting (SetFlow v) c = et_station_config_setflow c v"
| "apply_setting (SetSelect v) c = et_station_config_setselect c v"
| "apply_setting (SetUser v) c = et_station_config_setuser c v"
| "apply_setting (SetRestore v) c = et_station_config_setrestore c v"
| "apply_setting (SetCue v) c = et_station_config_setcue c v"
| "apply_setting (SetPrescale v) c = et_station_config_setprescale c v"
| "apply_setting (SetSelectwords v) c = et_station_config_setselectwords c v"
| "apply_setting (SetFunction v) c = et_station_config_setfunction c v"
| "apply_setting (SetLib v) c = et_station_config_setlib c v"
| "apply_setting (SetClass v) c = et_station_config_setclass c v"

fun read_setting :: "stat_setting \<Rightarrow> et_stat_config option \<Rightarrow> stat_setting option" where
  "read_setting (SetBlock v) c = map_option SetBlock (snd (et_station_config_getblock c True))"
| "read_setting (SetFlow v) c = map_option SetFlow (snd (et_station_config_getflow c True))"
| "read_setting (SetSelect v) c = map_option SetSelect (snd (et_station_config_getselect c True))"
| "read_setting (SetUser v) c = map_option SetUser (snd (et_station_config_getuser c True))"
| "read_setting (SetRestore v) c = map_option SetRestore (snd (et_station_config_getrestore c True))"
| "read_setting (SetCue v) c = map_option SetCue (snd (et_station_config_getcue c True))"
| "read_setting (SetPrescale v) c = map_option SetPrescale (snd (et_station_config_getprescale c True))"
| "read_setting (SetSelectwords v) c = map_option SetSelectwords (snd (et_station_config_getselectwords c True))"
| "read_setting (SetFunction v) c = map_option (SetFunction \<circ> Some) (snd (et_station_config_getfunction c True))"
| "read_setting (SetLib v) c = map_option (SetLib \<circ> Some) (snd (et_station_config_getlib c True))"
| "read_setting (SetClass v) c = map_option (SetClass \<circ> Some) (snd (et_station_config_getclass c True))"

fun words_ok :: "stat_setting \<Rightarrow> bool" where
  "words_ok (SetSelectwords v) \<longleftrightarrow> length v = ET_STATION_SELECT_INTS"
| "words_ok _ \<longleftrightarrow> True"

fun field_no :: "stat_setting \<Rightarrow> nat" where
  "field_no (SetBlock v) = 0" | "field_no (SetFlow v) = 1" | "field_no (SetSelect v) = 2"
| "field_no (SetUser v) = 3" | "field_no (SetRestore v) = 4" | "field_no (SetCue v) = 5"
| "field_no (SetPrescale v) = 6" | "field_no (SetSelectwords v) = 7" | "field_no (SetFunction v) = 8"
| "field_no (SetLib v) = 9" | "field_no (SetClass v) = 10"

definition fields_ok :: "et_stat_config \<Rightarrow> bool" where
  "fields_ok c \<longleftrightarrow> cf_init c = ET_STRUCT_OK \<and>
     (cf_flow_mode c = ET_STATION_SERIAL \<or> cf_flow_mode c = ET_STATION_PARALLEL) \<and>
     (cf_block_mode c = ET_STATION_NONBLOCKING \<or> cf_block_mode c = ET_STATION_BLOCKING) \<and>
     ET_STATION_SELECT_ALL \<le> cf_select_mode c \<and> cf_select_mode c \<le> ET_STATION_SELECT_EQUALCUE \<and>
     ET_STATION_RESTORE_OUT \<le> cf_restore_mode c \<and> cf_restore_mode c \<le> ET_STATION_RESTORE_REDIST \<and>
     0 \<le> cf_user_mode c \<and> 1 \<le> cf_cue c \<and> 1 \<le> cf_prescale c \<and>
     length (cf_select c) = ET_STATION_SELECT_INTS \<and> length (cf_fname c) < ET_FUNCNAME_LENGTH \<and>
     length (cf_lib c) < ET_FILENAME_LENGTH \<and> length (cf_classs c) < ET_FILENAME_LENGTH"

lemmas setter_defs = et_station_config_setblock_def et_station_config_setflow_def et_station_config_setselect_def
  et_station_config_setuser_def et_station_config_setrestore_def et_station_config_setcue_def
  et_station_config_setprescale_def et_station_config_setselectwords_def et_station_config_setfunction_def
  et_station_config_setlib_def et_station_config_setclass_def

lemmas getter_defs = et_station_config_getblock_def et_station_config_getflow_def et_station_config_getselect_def
  et_station_config_getuser_def et_station_config_getrestore_def et_station_config_getcue_def
  et_station_config_getprescale_def et_station_config_getselectwords_def et_station_config_getfunction_def
  et_station_config_getlib_def et_station_config_getclass_def

lemma apply_setting_fields_ok:
  assumes "fields_ok c" shows "\<exists>c'. snd (apply_setting st (Some c)) = Some c' \<and> fields_ok c'"
  using assms by (cases st) (auto simp: setter_defs config_set_def fields_ok_def)

lemma map_nth_words: "length v = ET_STATION_SELECT_INTS \<Longrightarrow> map (\<lambda>i. v ! i) [0..<ET_STATION_SELECT_INTS] = v"
  by (metis map_nth)

lemma read_after_apply:
  assumes "words_ok st" "apply_setting st (Some c) = (ET_OK, c')"
  shows "read_setting st c' = Some st"
  using assms
  by (cases st) (auto simp: setter_defs getter_defs config_set_def config_get_def map_nth_words
      simp del: upt_rec_numeral upt.simps split: if_splits)

lemma read_other_after_apply:
  assumes "apply_setting st (Some c) = (ET_OK, c')" "field_no st' \<noteq> field_no st"
  shows "read_setting st' c' = read_setting st' (Some c)"
  using assms
  by (cases st; cases st') (auto simp: setter_defs getter_defs config_set_def config_get_def split: if_splits)

lemma fold_settings_fields_ok:
  "fields_ok c \<Longrightarrow> \<exists>c'. fold (\<lambda>st c. snd (apply_setting st c)) sts (Some c) = Some c' \<and> fields_ok c'"
proof (induction sts arbitrary: c)
  case (Cons st sts)
  from apply_setting_fields_ok [OF Cons.prems] obtain c1 where
    "snd (apply_setting st (Some c)) = Some c1" "fields_ok c1" by blast
  with Cons.IH show ?case by simp
qed simp

lemma fields_ok_init: "fields_ok et_station_config_init"
  by (simp add: fields_ok_def et_station_config_init_def)

text \<open>The rules that involve more than one field or the system's limits.\<close>

definition distributes :: "et_stat_config \<Rightarrow> bool" where
  "distributes c \<longleftrightarrow> cf_select_mode c = ET_STATION_SELECT_RROBIN \<or> cf_select_mode c = ET_STATION_SELECT_EQUALCUE"

definition cross_ok :: "et_system \<Rightarrow> et_stat_config \<Rightarrow> bool" where
  "cross_ok sys c \<longleftrightarrow> cf_user_mode c \<le> sc_nattachments (sy_config sys) \<and>
     (cf_select_mode c = ET_STATION_SELECT_USER \<longrightarrow> 4 \<le> length (cf_lib c) \<and> cf_fname c \<noteq> []) \<and>
     (distributes c \<longrightarrow> cf_flow_mode c = ET_STATION_PARALLEL \<and> cf_block_mode c = ET_STATION_BLOCKING \<and>
        cf_restore_mode c \<noteq> ET_STATION_RESTORE_IN \<and> cf_prescale c = 1) \<and>
     (cf_restore_mode c = ET_STATION_RESTORE_REDIST \<longrightarrow> cf_flow_mode c = ET_STATION_PARALLEL)"

lemma config_check_fields_ok:
  assumes "fields_ok c"
  shows "et_station_config_check sys c =
     (if cross_ok sys c then
        (ET_OK, if cf_block_mode c = ET_STATION_NONBLOCKING \<and> cf_cue c > sc_nevents (sy_config sys)
                then c\<lparr>cf_cue := sc_nevents (sy_config sys)\<rparr> else c)
      else (ET_ERROR, c))"
proof -
  have sel: "cf_select_mode c = 1 \<or> cf_select_mode c = 2 \<or> cf_select_mode c = 3 \<or> cf_select_mode c = 4 \<or>
      cf_select_mode c = 5" and res: "cf_restore_mode c = 0 \<or> cf_restore_mode c = 1 \<or> cf_restore_mode c = 2 \<or>
      cf_restore_mode c = 3"
    using assms unfolding fields_ok_def by presburger+
  have len: "length (cf_lib c) < 4 \<longleftrightarrow> \<not> 4 \<le> length (cf_lib c)" "length (cf_fname c) < 1 \<longleftrightarrow> cf_fname c = []"
    by auto
  from assms sel res show ?thesis
    unfolding et_station_config_check_def cross_ok_def distributes_def fields_ok_def len
    by (elim conjE disjE) simp_all
qed

text \<open>What an accepted configuration satisfies, and what the check returns for it.\<close>

definition limit_cue :: "et_system \<Rightarrow> et_stat_config \<Rightarrow> et_stat_config" where
  "limit_cue sys c = (if cf_block_mode c = ET_STATION_NONBLOCKING \<and> cf_cue c > sc_nevents (sy_config sys)
     then c\<lparr>cf_cue := sc_nevents (sy_config sys)\<rparr> else c)"

definition accepted :: "et_system \<Rightarrow> et_stat_config \<Rightarrow> bool" where
  "accepted sys c \<longleftrightarrow> (cf_flow_mode c = ET_STATION_SERIAL \<or> cf_flow_mode c = ET_STATION_PARALLEL) \<and>
     (cf_restore_mode c = ET_STATION_RESTORE_OUT \<or> cf_restore_mode c = ET_STATION_RESTORE_IN \<or>
      cf_restore_mode c = ET_STATION_RESTORE_GC \<or> cf_restore_mode c = ET_STATION_RESTORE_REDIST) \<and>
     \<not> cf_user_mode c < 0 \<and>
     (cf_select_mode c = ET_STATION_SELECT_ALL \<or> cf_select_mode c = ET_STATION_SELECT_MATCH \<or>
      cf_select_mode c = ET_STATION_SELECT_USER \<or> cf_select_mode c = ET_STATION_SELECT_RROBIN \<or>
      cf_select_mode c = ET_STATION_SELECT_EQUALCUE) \<and>
     (cf_block_mode c = ET_STATION_BLOCKING \<and> \<not> cf_prescale c < 1 \<or>
      cf_block_mode c = ET_STATION_NONBLOCKING \<and> \<not> cf_cue c < 1) \<and> cross_ok sys c"

lemma check_chain:
  "(if a1 then (ET_ERROR, c) else if a2 then (ET_ERROR, c) else if a3 then (ET_ERROR, c)
    else if a4 then (ET_ERROR, c) else if a5 then (ET_ERROR, c) else if a6 then (ET_ERROR, c)
    else if a7 then (ET_ERROR, c) else if a8 then (ET_ERROR, c)
    else if b then (if p then (ET_ERROR, c) else (ET_OK, c))
    else if q then (ET_ERROR, c) else if r then (ET_OK, c2) else (ET_OK, c)) =
   (if \<not> a1 \<and> \<not> a2 \<and> \<not> a3 \<and> \<not> a4 \<and> \<not> a5 \<and> \<not> a6 \<and> \<not> a7 \<and> \<not> a8 \<and> (b \<and> \<not> p \<or> \<not> b \<and> \<not> q)
    then (ET_OK, if \<not> b \<and> r then c2 else c) else (ET_ERROR, c))"
  by simp

lemma accepted_chain:
  assumes "a1 = (\<not> b1)" "a2 = (\<not> b2)" "a3 = (\<not> (b3 \<and> b4))" "a4 = (\<not> b5)" "a5 = (\<not> b6)" "b1 \<Longrightarrow> b9 \<Longrightarrow> a6 = (\<not> b7)"
    "a7 = (\<not> b8)" "a8 = (\<not> b9)" "b10 \<Longrightarrow> b9" "b9 \<Longrightarrow> (d1 \<or> d2) = b10"
  shows "(\<not> a1 \<and> \<not> a2 \<and> \<not> a3 \<and> \<not> a4 \<and> \<not> a5 \<and> \<not> a6 \<and> \<not> a7 \<and> \<not> a8 \<and> (d1 \<or> d2)) =
    (b1 \<and> b2 \<and> b3 \<and> b5 \<and> b10 \<and> b4 \<and> b6 \<and> b7 \<and> b8)"
  using assms by auto

lemma et_station_config_check_eq:
  "et_station_config_check sys c = (if accepted sys c then (ET_OK, limit_cue sys c) else (ET_ERROR, c))"
proof -
  have len: "length (cf_lib c) < 4 \<longleftrightarrow> \<not> 4 \<le> length (cf_lib c)" "length (cf_fname c) < 1 \<longleftrightarrow> cf_fname c = []"
    "cf_user_mode c > sc_nattachments (sy_config sys) \<longleftrightarrow> \<not> cf_user_mode c \<le> sc_nattachments (sy_config sys)"
    by auto
  have "et_station_config_check sys c = (if accepted sys c then
      (ET_OK, if cf_block_mode c \<noteq> ET_STATION_BLOCKING \<and> cf_cue c > sc_nevents (sy_config sys)
         then c\<lparr>cf_cue := sc_nevents (sy_config sys)\<rparr> else c) else (ET_ERROR, c))"
    unfolding et_station_config_check_def check_chain len accepted_def cross_ok_def
    by (rule if_cong [OF accepted_chain [where ?b9.0 = "cf_block_mode c = 1 \<or> cf_block_mode c = 0"] refl refl])
      (blast | force simp: distributes_def)+
  moreover have "accepted sys c \<Longrightarrow> cf_block_mode c \<noteq> ET_STATION_BLOCKING \<longleftrightarrow> cf_block_mode c = ET_STATION_NONBLOCKING"
    by (auto simp: accepted_def)
  ultimately show ?thesis by (simp add: limit_cue_def)
qed

lemma et_station_config_check_OK:
  "fst (et_station_config_check sys c) = ET_OK \<longleftrightarrow> accepted sys c"
  by (simp add: et_station_config_check_eq)

lemma accepted_cue: "accepted sys c \<Longrightarrow> 1 \<le> n \<Longrightarrow> accepted sys (c\<lparr>cf_cue := n\<rparr>)"
  unfolding accepted_def cross_ok_def distributes_def by (elim conjE, intro conjI) (simp_all, blast?)

section \<open>Properties\<close>

text \<open>
  A successful call of any setter of a station configuration is read back by its getter, and
  the getter of every other field returns what it returned before.
\<close>

lemma stat_setting_roundtrip:
  assumes "words_ok st" "apply_setting st (Some c) = (ET_OK, c')"
  shows "read_setting st c' = Some st \<and>
     (\<forall>st'. field_no st' \<noteq> field_no st \<longrightarrow> read_setting st' c' = read_setting st' (Some c))"
  using read_after_apply [OF assms] read_other_after_apply [OF assms(2)] by blast

text \<open>
  C22. Whatever sequence of setter calls follows the creation of a configuration, legal or not, every
  field stays in its legal range, and \<open>et_station_config_check\<close> accepts the result exactly when the
  rules between fields hold: the user count fits the system, user selection names a library and a
  function, round-robin and equal-cue stations are parallel, blocking, unprescaled and do not
  restore to their input list, and redistribution needs a parallel station.
\<close>

theorem config_check_after_settings:
  "\<exists>c. fold (\<lambda>st c. snd (apply_setting st c)) sts (Some et_station_config_init) = Some c \<and> fields_ok c \<and>
     (fst (et_station_config_check sys c) = ET_OK) = cross_ok sys c"
proof -
  from fold_settings_fields_ok [OF fields_ok_init] obtain c where
    "fold (\<lambda>st c. snd (apply_setting st c)) sts (Some et_station_config_init) = Some c" "fields_ok c" by blast
  then show ?thesis using config_check_fields_ok [of c sys] by auto
qed

text \<open>
  \<open>et_station_config_check\<close> changes nothing but the cue of a nonblocking station, which it
  limits to the number of events in the system, and accepts its own result unchanged.
\<close>

lemma config_check_idempotent:
  assumes "et_station_config_check sys c = (ET_OK, c')" "1 \<le> sc_nevents (sy_config sys)"
  shows "et_station_config_check sys c' = (ET_OK, c') \<and> c' = c\<lparr>cf_cue := cf_cue c'\<rparr> \<and>
     (cf_block_mode c = ET_STATION_NONBLOCKING \<longrightarrow> 1 \<le> cf_cue c' \<and> cf_cue c' = min (cf_cue c) (sc_nevents (sy_config sys))) \<and>
     (cf_block_mode c = ET_STATION_BLOCKING \<longrightarrow> c' = c)"
proof -
  have c: "accepted sys c" "c' = limit_cue sys c"
    using assms(1) by (simp_all add: et_station_config_check_eq split: if_splits)
  have "accepted sys c'" using c assms(2) accepted_cue by (auto simp: limit_cue_def)
  then have "et_station_config_check sys c' = (ET_OK, c')"
    using c(2) by (simp add: et_station_config_check_eq) (simp add: limit_cue_def)
  with c assms(2) show ?thesis by (auto simp: limit_cue_def accepted_def)
qed

definition distribution :: "et_stat_config \<Rightarrow> int" where
  "distribution c = (if distributes c then cf_select_mode c else 0)"

text \<open>
  Among configurations of parallel stations that pass the check, \<open>et_station_compare_parallel\<close>
  accepts exactly those that distribute events the same way (both round-robin, both equal-cue, or
  neither). It is therefore symmetric and transitive, so that comparing with the group's first
  station keeps the whole group homogeneous.
\<close>

lemma compare_parallel_homogeneous:
  assumes "fst (et_station_config_check sys g) = ET_OK" "fst (et_station_config_check sys c) = ET_OK"
    "cf_flow_mode g = ET_STATION_PARALLEL"
  shows "et_station_compare_parallel g c = 1 \<longleftrightarrow>
     cf_flow_mode c = ET_STATION_PARALLEL \<and> distribution c = distribution g"
proof -
  have d: "distributes x \<Longrightarrow> cf_flow_mode x = 1 \<and> cf_block_mode x = 1 \<and> cf_prescale x = 1"
    if "fst (et_station_config_check sys x) = ET_OK" for x
    using that by (simp add: et_station_config_check_OK accepted_def cross_ok_def)
  show ?thesis
  proof (cases "distributes g")
    case True
    with d [OF assms(1)] d [OF assms(2)] assms(3) show ?thesis
      by (cases "distributes c") (auto simp: et_station_compare_parallel_def distribution_def distributes_def)
  next
    case False
    with assms(3) show ?thesis
      by (auto simp: et_station_compare_parallel_def distribution_def distributes_def)
  qed
qed

end
