(* ===== verification/ET_Chain.thy ===== *)
theory ET_Chain
  imports ET_StatConfig
begin

text \<open>
  The linked lists of stations (src/libsrc/et\_station.c: \<open>station_remove\<close>, \<open>station_insert\<close>,
  \<open>station_find\<close>). Stations are linked by index through \<open>next\<close>/\<open>prev\<close>; the members of a group
  of parallel stations are linked through \<open>nextparallel\<close>/\<open>prevparallel\<close>, and only the head of a
  group is in the main list. The number -1 ends a list.

  The routines work on the array of stations and the system's \<open>stat_tail\<close>. Using an index outside
  the array, which in C is an access outside the station array, is \<open>None\<close>. The loops of
  \<open>station_insert\<close> and \<open>station_find\<close> follow the links and do not end on a cyclic chain; they take
  a bound on the number of steps and are \<open>None\<close> when it is reached. The number of stations of the
  array is enough for every chain that satisfies \<open>chain_ok\<close>.

  The abstraction \<open>chain_ok stats tail gs\<close> relates the links to the sequence \<open>gs\<close> of groups behind
  GrandCentral (a serial station is a group of one).
\<close>

section \<open>The routines\<close>

type_synonym chain = "et_station list \<times> int"

definition stat_ix :: "et_station list \<Rightarrow> int \<Rightarrow> nat option" where
  "stat_ix stats i = (if 0 \<le> i \<and> nat i < length stats then Some (nat i) else None)"

definition upd_at :: "nat \<Rightarrow> (et_station \<Rightarrow> et_station) \<Rightarrow> et_station list \<Rightarrow> et_station list" where
  "upd_at i f stats = stats[i := f (stats ! i)]"

definition unlink_main :: "chain \<Rightarrow> nat \<Rightarrow> chain option" where
  "unlink_main ch s =
     (let (stats, tail) = ch; ps = stats ! s in
      do { previous \<leftarrow> stat_ix stats (st_prev ps);
           (stats1, tail1) \<leftarrow>
             (if tail = int s then Some (stats, st_num (stats ! previous))
              else do { nxt \<leftarrow> stat_ix stats (st_next ps);
                        Some (upd_at nxt (\<lambda>x. x\<lparr>st_prev := st_num (stats ! previous)\<rparr>) stats, tail) });
           Some (upd_at previous (\<lambda>x. x\<lparr>st_next := st_next (stats1 ! s)\<rparr>) stats1, tail1) })"

definition promote_parallel :: "chain \<Rightarrow> nat \<Rightarrow> chain option" where
  "promote_parallel ch s =
     (let (stats, tail) = ch; ps = stats ! s in
      do { previous \<leftarrow> stat_ix stats (st_prev ps);
           nextparallel \<leftarrow> stat_ix stats (st_nextparallel ps);
           let stats1 = upd_at nextparallel (\<lambda>x. x\<lparr>st_prev := st_prev ps, st_next := st_next ps,
                          st_prevparallel := -1\<rparr>) stats;
           (stats2, tail2) \<leftarrow>
             (if tail = int s then Some (stats1, st_num (stats1 ! nextparallel))
              else do { nxt \<leftarrow> stat_ix stats1 (st_next ps);
                        Some (upd_at nxt (\<lambda>x. x\<lparr>st_prev := st_nextparallel ps\<rparr>) stats1, tail) });
           Some (upd_at previous (\<lambda>x. x\<lparr>st_next := st_nextparallel ps\<rparr>) stats2, tail2) })"

definition unlink_parallel :: "chain \<Rightarrow> nat \<Rightarrow> chain option" where
  "unlink_parallel ch s =
     (let (stats, tail) = ch; ps = stats ! s in
      do { previous \<leftarrow> stat_ix stats (st_prevparallel ps);
           stats1 \<leftarrow>
             (if st_nextparallel ps > -1 then
                do { nxt \<leftarrow> stat_ix stats (st_nextparallel ps);
                     Some (upd_at nxt (\<lambda>x. x\<lparr>st_prevparallel := st_num (stats ! previous)\<rparr>) stats) }
              else Some stats);
           let stats2 = upd_at previous (\<lambda>x. x\<lparr>st_nextparallel := st_nextparallel ps\<rparr>) stats1;
           Some (if st_waslast ps = 1 then upd_at previous (\<lambda>x. x\<lparr>st_waslast := 1\<rparr>) stats2 else stats2,
                 tail) })"

definition station_remove :: "chain \<Rightarrow> nat \<Rightarrow> chain option" where
  "station_remove ch s =
     (let ps = fst ch ! s in
      if cf_flow_mode (st_config ps) = ET_STATION_PARALLEL then
        if st_prev ps > -1 then
          if st_nextparallel ps < 0 then unlink_main ch s else promote_parallel ch s
        else unlink_parallel ch s
      else unlink_main ch s)"

datatype slot = AtEnd nat | Between nat nat

fun insert_walk :: "nat \<Rightarrow> et_station list \<Rightarrow> nat \<Rightarrow> int \<Rightarrow> int \<Rightarrow> slot option" where
  "insert_walk 0 stats previous counter position = None"
| "insert_walk (Suc fuel) stats previous counter position =
     (let nxt = st_next (stats ! previous) in
      if nxt < 0 then Some (AtEnd previous)
      else case stat_ix stats nxt of
             None \<Rightarrow> None
           | Some n \<Rightarrow> if counter = position then Some (Between previous n)
                       else insert_walk fuel stats n (counter + 1) position)"

fun parallel_walk :: "nat \<Rightarrow> et_station list \<Rightarrow> nat \<Rightarrow> int \<Rightarrow> int \<Rightarrow> nat option" where
  "parallel_walk 0 stats parallelStation counter parallelposition = None"
| "parallel_walk (Suc fuel) stats parallelStation counter parallelposition =
     (let nextparallel = st_nextparallel (stats ! parallelStation) in
      if counter = parallelposition \<or> nextparallel < 0 then Some parallelStation
      else case stat_ix stats nextparallel of
             None \<Rightarrow> None
           | Some n \<Rightarrow> parallel_walk fuel stats n (counter + 1) parallelposition)"

definition append_station :: "chain \<Rightarrow> nat \<Rightarrow> nat \<Rightarrow> chain" where
  "append_station ch s previous =
     (let (stats, tail) = ch;
          stats1 = upd_at s (\<lambda>x. x\<lparr>st_prev := st_num (stats ! previous)\<rparr>) stats
      in (upd_at previous (\<lambda>x. x\<lparr>st_next := st_num (stats1 ! s)\<rparr>) stats1, st_num (stats1 ! s)))"

definition insert_parallel :: "chain \<Rightarrow> nat \<Rightarrow> nat \<Rightarrow> chain option" where
  "insert_parallel ch s parallelStation =
     (let (stats, tail) = ch; nextparallel = st_nextparallel (stats ! parallelStation);
          stats1 = upd_at s (\<lambda>x. x\<lparr>st_nextparallel := nextparallel,
                     st_prevparallel := st_num (stats ! parallelStation)\<rparr>) stats in
      do { stats2 \<leftarrow>
             (if nextparallel > -1 then
                do { n \<leftarrow> stat_ix stats1 nextparallel;
                     Some (upd_at n (\<lambda>x. x\<lparr>st_prevparallel := st_num (stats1 ! s)\<rparr>) stats1) }
              else Some stats1);
           Some (upd_at parallelStation (\<lambda>x. x\<lparr>st_nextparallel := st_num (stats2 ! s)\<rparr>) stats2, tail) })"

definition insert_between :: "chain \<Rightarrow> nat \<Rightarrow> nat \<Rightarrow> nat \<Rightarrow> chain" where
  "insert_between ch s previous pnext =
     (let (stats, tail) = ch;
          stats1 = upd_at s (\<lambda>x. x\<lparr>st_next := int pnext, st_prev := st_num (stats ! previous)\<rparr>) stats;
          stats2 = upd_at pnext (\<lambda>x. x\<lparr>st_prev := st_num (stats1 ! s)\<rparr>) stats1
      in (upd_at previous (\<lambda>x. x\<lparr>st_next := st_num (stats2 ! s)\<rparr>) stats2, tail))"

definition station_insert ::
  "nat \<Rightarrow> int \<Rightarrow> chain \<Rightarrow> nat \<Rightarrow> int \<Rightarrow> int \<Rightarrow> (int \<times> chain) option" where
  "station_insert fuel nstations ch s position parallelposition =
     (if nstations < 3 then Some (ET_OK, append_station ch s 0)
      else
        let stats = fst ch in
        case insert_walk fuel stats 0 1 position of
          None \<Rightarrow> None
        | Some (AtEnd previous) \<Rightarrow> Some (ET_OK, append_station ch s previous)
        | Some (Between previous pnext) \<Rightarrow>
            if cf_flow_mode (st_config (stats ! s)) = ET_STATION_PARALLEL \<and>
               cf_flow_mode (st_config (stats ! pnext)) = ET_STATION_PARALLEL \<and> parallelposition \<noteq> ET_NEWHEAD then
              if et_station_compare_parallel (st_config (stats ! pnext)) (st_config (stats ! s)) = 0 then
                Some (ET_ERROR, ch)
              else if parallelposition = 0 then Some (ET_ERROR, ch)
              else
                do { p \<leftarrow> parallel_walk fuel stats pnext 1 parallelposition;
                     ch1 \<leftarrow> insert_parallel ch s p;
                     Some (ET_OK, ch1) }
            else Some (ET_OK, insert_between ch s previous pnext))"

fun parallel_find :: "nat \<Rightarrow> et_station list \<Rightarrow> nat \<Rightarrow> nat \<Rightarrow> int \<Rightarrow> int option option" where
  "parallel_find 0 stats s parallelStation cur = None"
| "parallel_find (Suc fuel) stats s parallelStation cur =
     (let nextparallel = st_nextparallel (stats ! parallelStation) in
      if nextparallel < 0 then Some None
      else case stat_ix stats nextparallel of
             None \<Rightarrow> None
           | Some n \<Rightarrow> if n = s then Some (Some cur) else parallel_find fuel stats s n (cur + 1))"

fun find_walk :: "nat \<Rightarrow> et_station list \<Rightarrow> nat \<Rightarrow> nat \<Rightarrow> int \<Rightarrow> (int \<times> int \<times> int) option" where
  "find_walk 0 stats s previous currentPosition = None"
| "find_walk (Suc fuel) stats s previous currentPosition =
     (let nxt = st_next (stats ! previous) in
      if nxt < 0 then Some (ET_ERROR, 0, 0)
      else case stat_ix stats nxt of
             None \<Rightarrow> None
           | Some n \<Rightarrow>
               if n = s then Some (ET_OK, currentPosition, 0)
               else
                 case (if cf_flow_mode (st_config (stats ! n)) = ET_STATION_PARALLEL
                       then parallel_find (length stats) stats s n 1 else Some None) of
                   None \<Rightarrow> None
                 | Some (Some p) \<Rightarrow> Some (ET_OK, currentPosition, p)
                 | Some None \<Rightarrow> find_walk fuel stats s n (currentPosition + 1))"

definition station_find :: "et_station list \<Rightarrow> int \<Rightarrow> nat \<Rightarrow> (int \<times> int \<times> int) option" where
  "station_find stats nstations s =
     (if s = 0 then Some (ET_OK, 0, 0)
      else if nstations < 2 then Some (ET_ERROR, 0, 0)
      else find_walk (length stats) stats s 0 1)"

section \<open>Abstraction\<close>

fun dlinked :: "(nat \<Rightarrow> int) \<Rightarrow> (nat \<Rightarrow> int) \<Rightarrow> nat list \<Rightarrow> bool" where
  "dlinked nx pv (x # y # zs) \<longleftrightarrow> nx x = int y \<and> pv y = int x \<and> dlinked nx pv (y # zs)"
| "dlinked nx pv zs \<longleftrightarrow> True"

definition group_ok :: "et_station list \<Rightarrow> nat list \<Rightarrow> bool" where
  "group_ok stats g \<longleftrightarrow> g \<noteq> [] \<and>
     dlinked (\<lambda>i. st_nextparallel (stats ! i)) (\<lambda>i. st_prevparallel (stats ! i)) g \<and>
     st_nextparallel (stats ! last g) = -1 \<and> st_prevparallel (stats ! hd g) = -1 \<and>
     (\<forall>i \<in> set (tl g). st_prev (stats ! i) = -1 \<and> st_next (stats ! i) = -1) \<and>
     (tl g \<noteq> [] \<longrightarrow> (\<forall>i \<in> set g. cf_flow_mode (st_config (stats ! i)) = ET_STATION_PARALLEL))"

definition main_ok :: "et_station list \<Rightarrow> int \<Rightarrow> nat list \<Rightarrow> bool" where
  "main_ok stats tail hs \<longleftrightarrow> hs \<noteq> [] \<and>
     dlinked (\<lambda>i. st_next (stats ! i)) (\<lambda>i. st_prev (stats ! i)) hs \<and>
     st_next (stats ! last hs) = -1 \<and> st_prev (stats ! hd hs) = -1 \<and> tail = int (last hs)"

definition members_ok :: "et_station list \<Rightarrow> nat set \<Rightarrow> bool" where
  "members_ok stats M \<longleftrightarrow> (\<forall>i \<in> M. i < length stats \<and> st_num (stats ! i) = int i)"

definition chain_ok :: "et_station list \<Rightarrow> int \<Rightarrow> nat list list \<Rightarrow> bool" where
  "chain_ok stats tail gs \<longleftrightarrow> distinct (0 # concat gs) \<and> members_ok stats (set (0 # concat gs)) \<and>
     main_ok stats tail (0 # map hd gs) \<and> (\<forall>g \<in> set gs. group_ok stats g)"

definition fresh_station :: "et_station list \<Rightarrow> nat \<Rightarrow> bool" where
  "fresh_station stats s \<longleftrightarrow> s < length stats \<and> st_num (stats ! s) = int s \<and> st_next (stats ! s) = -1 \<and>
     st_prev (stats ! s) = -1 \<and> st_nextparallel (stats ! s) = -1 \<and> st_prevparallel (stats ! s) = -1"

section \<open>Links\<close>

lemma stat_ix_Some [simp]: "i < length stats \<Longrightarrow> stat_ix stats (int i) = Some i"
  by (simp add: stat_ix_def)

lemma upd_at_nth: "upd_at j f stats ! i = (if i = j \<and> j < length stats then f (stats ! j) else stats ! i)"
  by (cases "j < length stats") (auto simp: upd_at_def list_update_beyond nth_list_update)

lemma upd_at_keeps [et_frame]:
  "(\<And>x. st_next (f x) = st_next x) \<Longrightarrow> st_next (upd_at j f stats ! i) = st_next (stats ! i)"
  "(\<And>x. st_prev (f x) = st_prev x) \<Longrightarrow> st_prev (upd_at j f stats ! i) = st_prev (stats ! i)"
  "(\<And>x. st_nextparallel (f x) = st_nextparallel x) \<Longrightarrow>
     st_nextparallel (upd_at j f stats ! i) = st_nextparallel (stats ! i)"
  "(\<And>x. st_prevparallel (f x) = st_prevparallel x) \<Longrightarrow>
     st_prevparallel (upd_at j f stats ! i) = st_prevparallel (stats ! i)"
  "(\<And>x. st_num (f x) = st_num x) \<Longrightarrow> st_num (upd_at j f stats ! i) = st_num (stats ! i)"
  "(\<And>x. st_config (f x) = st_config x) \<Longrightarrow> st_config (upd_at j f stats ! i) = st_config (stats ! i)"
  by (simp_all add: upd_at_nth)

lemma upd_at_length [simp]: "length (upd_at j f stats) = length stats"
  by (simp add: upd_at_def)

lemma dlinked_Cons:
  "dlinked nx pv (x # xs) \<longleftrightarrow> dlinked nx pv xs \<and> (xs \<noteq> [] \<longrightarrow> nx x = int (hd xs) \<and> pv (hd xs) = int x)"
  by (cases xs) auto

lemma dlinked_append:
  "dlinked nx pv (xs @ ys) \<longleftrightarrow> dlinked nx pv xs \<and> dlinked nx pv ys \<and>
     (xs \<noteq> [] \<longrightarrow> ys \<noteq> [] \<longrightarrow> nx (last xs) = int (hd ys) \<and> pv (hd ys) = int (last xs))"
  by (induction xs) (auto simp: dlinked_Cons)

lemma dlinked_cong:
  assumes "\<And>x. x \<in> set (butlast xs) \<Longrightarrow> nx' x = nx x" "\<And>x. x \<in> set (tl xs) \<Longrightarrow> pv' x = pv x"
  shows "dlinked nx' pv' xs = dlinked nx pv xs"
  using assms by (induction nx' pv' xs rule: dlinked.induct) (auto simp: dlinked_Cons)

lemma insert_walk_spec:
  assumes "dlinked (\<lambda>i. st_next (stats ! i)) pv (x # rest)" "st_next (stats ! last (x # rest)) = -1"
    "\<forall>i \<in> set rest. i < length stats" "length rest < fuel"
  shows "insert_walk fuel stats x c position =
     Some (if c \<le> position \<and> nat (position - c) < length rest
           then Between ((x # rest) ! nat (position - c)) (rest ! nat (position - c))
           else AtEnd (last (x # rest)))"
  using assms
proof (induction rest arbitrary: x c fuel)
  case Nil
  then obtain f where "fuel = Suc f" by (cases fuel) auto
  with Nil show ?case by simp
next
  case (Cons y rest)
  then obtain f where f: "fuel = Suc f" "length rest < f" by (cases fuel) auto
  have n: "st_next (stats ! x) = int y" "y < length stats" using Cons.prems by auto
  have IH: "insert_walk f stats y (c + 1) position =
     Some (if c + 1 \<le> position \<and> nat (position - (c + 1)) < length rest
           then Between ((y # rest) ! nat (position - (c + 1))) (rest ! nat (position - (c + 1)))
           else AtEnd (last (y # rest)))"
    using Cons.prems f(2) by (intro Cons.IH) auto
  have *: "c < position \<Longrightarrow> nat (position - c) = Suc (nat (position - (c + 1)))" by linarith
  consider "position < c" | "position = c" | "c < position" by linarith
  then show ?case using IH n f(1) by cases (auto simp: *)
qed

lemma parallel_walk_spec:
  assumes "dlinked (\<lambda>i. st_nextparallel (stats ! i)) pv (x # rest)" "st_nextparallel (stats ! last (x # rest)) = -1"
    "\<forall>i \<in> set rest. i < length stats" "length rest < fuel"
  shows "parallel_walk fuel stats x c pp =
     Some (if c \<le> pp \<and> nat (pp - c) \<le> length rest then (x # rest) ! nat (pp - c) else last (x # rest))"
  using assms
proof (induction rest arbitrary: x c fuel)
  case Nil
  then obtain f where "fuel = Suc f" by (cases fuel) auto
  with Nil show ?case by simp
next
  case (Cons y rest)
  then obtain f where f: "fuel = Suc f" "length rest < f" by (cases fuel) auto
  have n: "st_nextparallel (stats ! x) = int y" "y < length stats" using Cons.prems by auto
  have IH: "parallel_walk f stats y (c + 1) pp =
     Some (if c + 1 \<le> pp \<and> nat (pp - (c + 1)) \<le> length rest then (y # rest) ! nat (pp - (c + 1)) else last (y # rest))"
    using Cons.prems f(2) by (intro Cons.IH) auto
  have *: "c < pp \<Longrightarrow> nat (pp - c) = Suc (nat (pp - (c + 1)))" by linarith
  consider "pp < c" | "pp = c" | "c < pp" by linarith
  then show ?case using IH n f(1) by cases (auto simp: *)
qed

lemma main_ok_cong:
  assumes "\<And>i. i \<in> set hs \<Longrightarrow> st_next (stats' ! i) = st_next (stats ! i) \<and> st_prev (stats' ! i) = st_prev (stats ! i)"
  shows "main_ok stats' tail hs = main_ok stats tail hs"
proof (cases "hs = []")
  case False
  have "dlinked (\<lambda>i. st_next (stats' ! i)) (\<lambda>i. st_prev (stats' ! i)) hs =
      dlinked (\<lambda>i. st_next (stats ! i)) (\<lambda>i. st_prev (stats ! i)) hs"
    using assms by (intro dlinked_cong) (auto dest: in_set_butlastD in_set_tlD)
  with assms False show ?thesis by (simp add: main_ok_def)
qed (simp add: main_ok_def)

lemma group_ok_cong:
  assumes "\<And>i. i \<in> set g \<Longrightarrow> st_nextparallel (stats' ! i) = st_nextparallel (stats ! i) \<and>
      st_prevparallel (stats' ! i) = st_prevparallel (stats ! i) \<and>
      cf_flow_mode (st_config (stats' ! i)) = cf_flow_mode (st_config (stats ! i))"
    "\<And>i. i \<in> set (tl g) \<Longrightarrow> st_next (stats' ! i) = st_next (stats ! i) \<and> st_prev (stats' ! i) = st_prev (stats ! i)"
  shows "group_ok stats' g = group_ok stats g"
proof (cases "g = []")
  case False
  have "dlinked (\<lambda>i. st_nextparallel (stats' ! i)) (\<lambda>i. st_prevparallel (stats' ! i)) g =
      dlinked (\<lambda>i. st_nextparallel (stats ! i)) (\<lambda>i. st_prevparallel (stats ! i)) g"
    using assms(1) by (intro dlinked_cong) (auto dest: in_set_butlastD in_set_tlD)
  with assms False show ?thesis by (simp add: group_ok_def)
qed (simp add: group_ok_def)

lemma members_ok_cong:
  "length stats' = length stats \<Longrightarrow> (\<And>i. st_num (stats' ! i) = st_num (stats ! i)) \<Longrightarrow>
     members_ok stats' M = members_ok stats M"
  by (simp add: members_ok_def)

lemma head_notin_tl:
  assumes "distinct (concat gs)" "g \<in> set gs" "g' \<in> set gs" "g' \<noteq> []"
  shows "hd g' \<notin> set (tl g)"
  using assms
proof (induction gs)
  case (Cons a gs)
  have d: "distinct a" "set a \<inter> \<Union> (set ` set gs) = {}" using Cons.prems(1) by auto
  have mem: "hd g' \<in> set g'" "set (tl x) \<subseteq> set x" for x using Cons.prems(4) by (auto dest: in_set_tlD)
  show ?case
  proof (cases "g = a")
    case ga: True
    show ?thesis
    proof (cases "g' = a")
      case True
      with ga d(1) Cons.prems(4) show ?thesis by (cases a) auto
    next
      case False
      then have "g' \<in> set gs" using Cons.prems(3) by simp
      with mem(1) mem(2) [of g] d(2) ga show ?thesis by blast
    qed
  next
    case False
    then have g: "g \<in> set gs" using Cons.prems(2) by simp
    show ?thesis
    proof (cases "g' \<in> set gs")
      case True
      with Cons.IH Cons.prems g show ?thesis by simp
    next
      case False
      then have "g' = a" using Cons.prems(3) by simp
      with mem(1) mem(2) [of g] d(2) g show ?thesis by blast
    qed
  qed
qed simp

section \<open>Insertion\<close>

lemma append_station_main:
  assumes "main_ok stats tail hs" "fresh_station stats s" "s \<notin> set hs" "last hs < length stats" "distinct hs"
    "st_num (stats ! last hs) = int (last hs)"
  shows "main_ok (fst (append_station (stats, tail) s (last hs))) (snd (append_station (stats, tail) s (last hs)))
     (hs @ [s])"
proof -
  have s: "s < length stats" "last hs \<noteq> s" using assms(1-3) by (auto simp: fresh_station_def main_ok_def)
  let ?st = "fst (append_station (stats, tail) s (last hs))"
  have "dlinked (\<lambda>i. st_next (?st ! i)) (\<lambda>i. st_prev (?st ! i)) hs =
      dlinked (\<lambda>i. st_next (stats ! i)) (\<lambda>i. st_prev (stats ! i)) hs"
  proof (rule dlinked_cong)
    fix x assume "x \<in> set (butlast hs)"
    then have "x \<noteq> s" "x \<noteq> last hs"
      using assms(3,5) in_set_butlastD [of x hs] distinct_last_butlast [of hs] by auto
    then show "st_next (?st ! x) = st_next (stats ! x)" by (simp add: append_station_def upd_at_nth)
  next
    fix x assume "x \<in> set (tl hs)"
    then have "x \<noteq> s" using assms(3) in_set_tlD by metis
    then show "st_prev (?st ! x) = st_prev (stats ! x)" by (simp add: append_station_def upd_at_nth)
  qed
  with assms s show ?thesis
    by (auto simp: main_ok_def dlinked_append append_station_def upd_at_nth fresh_station_def hd_append)
qed

lemma insert_between_main:
  assumes "main_ok stats tail (H1 @ H2)" "fresh_station stats s" "s \<notin> set (H1 @ H2)" "distinct (H1 @ H2)"
    "H1 \<noteq> []" "H2 \<noteq> []" "members_ok stats (set (H1 @ H2))"
  defines "C \<equiv> insert_between (stats, tail) s (last H1) (hd H2)"
  shows "main_ok (fst C) (snd C) (H1 @ s # H2)"
proof -
  have m: "last H1 < length stats" "hd H2 < length stats" "s < length stats" "st_num (stats ! last H1) = int (last H1)"
    "st_num (stats ! s) = int s"
    using assms(2,5-7) by (auto simp: members_ok_def fresh_station_def)
  have ne: "last H1 \<noteq> s" "hd H2 \<noteq> s" "last H1 \<noteq> hd H2" "hd H2 \<notin> set H1" "last H1 \<notin> set H2"
    using assms(3,5,6) distinct_append_ends [OF assms(4)] by auto
  have d: "distinct H1" "distinct H2" "hd H2 \<notin> set (tl H2)" using assms(4,6) by (auto, cases H2, auto)
  have "dlinked (\<lambda>i. st_next (fst C ! i)) (\<lambda>i. st_prev (fst C ! i)) H1 =
      dlinked (\<lambda>i. st_next (stats ! i)) (\<lambda>i. st_prev (stats ! i)) H1"
    using ne assms(3) distinct_last_butlast [OF d(1)]
    by (intro dlinked_cong) (auto simp: C_def insert_between_def upd_at_nth dest: in_set_butlastD in_set_tlD)
  moreover have "dlinked (\<lambda>i. st_next (fst C ! i)) (\<lambda>i. st_prev (fst C ! i)) H2 =
      dlinked (\<lambda>i. st_next (stats ! i)) (\<lambda>i. st_prev (stats ! i)) H2"
    using ne assms(3) d(3)
    by (intro dlinked_cong) (auto simp: C_def insert_between_def upd_at_nth dest: in_set_butlastD in_set_tlD)
  moreover have "st_next (fst C ! last H2) = st_next (stats ! last H2)" "st_prev (fst C ! hd H1) = st_prev (stats ! hd H1)"
  proof -
    have "last H2 \<noteq> s" "last H2 \<noteq> last H1" "hd H1 \<noteq> s" "hd H1 \<noteq> hd H2"
      using ne assms(3,5,6) last_in_set [of H2] hd_in_set [of H1] by (auto simp del: last_in_set hd_in_set)
    then show "st_next (fst C ! last H2) = st_next (stats ! last H2)" "st_prev (fst C ! hd H1) = st_prev (stats ! hd H1)"
      by (simp_all add: C_def insert_between_def Let_def upd_at_nth)
  qed
  moreover have "st_next (fst C ! last H1) = int s" "st_prev (fst C ! s) = int (last H1)"
    "st_next (fst C ! s) = int (hd H2)" "st_prev (fst C ! hd H2) = int s" "snd C = tail"
    using ne m by (auto simp: C_def insert_between_def upd_at_nth)
  ultimately show ?thesis using assms(1,5,6) by (auto simp: main_ok_def dlinked_append dlinked_Cons)
qed

lemma insert_parallel_group:
  assumes "group_ok stats (G1 @ G2)" "fresh_station stats s" "s \<notin> set (G1 @ G2)" "distinct (G1 @ G2)" "G1 \<noteq> []"
    "members_ok stats (set (G1 @ G2))" "\<forall>i \<in> set (s # G1 @ G2). cf_flow_mode (st_config (stats ! i)) = ET_STATION_PARALLEL"
  shows "\<exists>stats'. insert_parallel (stats, tail) s (last G1) = Some (stats', tail) \<and> group_ok stats' (G1 @ s # G2) \<and>
     length stats' = length stats \<and> (\<forall>i. i \<notin> set (s # G1 @ G2) \<longrightarrow> stats' ! i = stats ! i) \<and>
     (\<forall>i. st_next (stats' ! i) = st_next (stats ! i) \<and> st_prev (stats' ! i) = st_prev (stats ! i) \<and>
        st_num (stats' ! i) = st_num (stats ! i))"
proof -
  have m: "last G1 < length stats" "s < length stats" "st_num (stats ! last G1) = int (last G1)" "st_num (stats ! s) = int s"
    and h2: "G2 \<noteq> [] \<Longrightarrow> hd G2 < length stats \<and> hd G2 \<noteq> s \<and> hd G2 \<noteq> last G1 \<and> hd G2 \<notin> set G1 \<and> last G1 \<notin> set G2"
    using assms(2,3,5,6) distinct_append_ends [OF assms(4)] by (auto simp: members_ok_def fresh_station_def)
  have ne: "last G1 \<noteq> s" using assms(3,5) by auto
  have np: "st_nextparallel (stats ! last G1) = (if G2 = [] then -1 else int (hd G2))"
    using assms(1,5) by (auto simp: group_ok_def dlinked_append)
  define stats1 where "stats1 = upd_at s (\<lambda>x. x\<lparr>st_nextparallel := (if G2 = [] then -1 else int (hd G2)),
      st_prevparallel := int (last G1)\<rparr>) stats"
  define stats2 where "stats2 = (if G2 = [] then stats1 else upd_at (hd G2) (\<lambda>x. x\<lparr>st_prevparallel := int s\<rparr>) stats1)"
  define stats' where "stats' = upd_at (last G1) (\<lambda>x. x\<lparr>st_nextparallel := int s\<rparr>) stats2"
  have n1: "st_num (stats1 ! s) = int s" "st_num (stats2 ! s) = int s" "length stats1 = length stats"
    using m by (auto simp: stats1_def stats2_def upd_at_nth)
  have run: "insert_parallel (stats, tail) s (last G1) = Some (stats', tail)"
    using m h2 ne by (cases "G2 = []")
      (simp_all add: insert_parallel_def Let_def np stats'_def stats2_def stats1_def upd_at_nth)
  have nx: "st_nextparallel (stats' ! i) = (if i = last G1 then int s else if i = s then
      (if G2 = [] then -1 else int (hd G2)) else st_nextparallel (stats ! i))" for i
    using m h2 ne by (auto simp: stats'_def stats2_def stats1_def upd_at_nth)
  have pv: "st_prevparallel (stats' ! i) = (if G2 \<noteq> [] \<and> i = hd G2 then int s else if i = s then
      int (last G1) else st_prevparallel (stats ! i))" for i
    using m h2 ne by (auto simp: stats'_def stats2_def stats1_def upd_at_nth)
  have d: "distinct G1" "distinct G2" using assms(4) by auto
  then have hd2: "G2 \<noteq> [] \<Longrightarrow> hd G2 \<notin> set (tl G2)" by (cases G2) auto
  have l1: "dlinked (\<lambda>i. st_nextparallel (stats' ! i)) (\<lambda>i. st_prevparallel (stats' ! i)) G1 =
      dlinked (\<lambda>i. st_nextparallel (stats ! i)) (\<lambda>i. st_prevparallel (stats ! i)) G1"
    unfolding nx pv using h2 assms(3) distinct_last_butlast [OF d(1)]
    by (intro dlinked_cong) (auto dest: in_set_butlastD in_set_tlD)
  have l2: "dlinked (\<lambda>i. st_nextparallel (stats' ! i)) (\<lambda>i. st_prevparallel (stats' ! i)) G2 =
      dlinked (\<lambda>i. st_nextparallel (stats ! i)) (\<lambda>i. st_prevparallel (stats ! i)) G2"
    unfolding nx pv using h2 assms(3) hd2
    by (intro dlinked_cong) (auto dest: in_set_butlastD in_set_tlD)
  have other: "st_next (stats' ! i) = st_next (stats ! i) \<and> st_prev (stats' ! i) = st_prev (stats ! i) \<and>
      st_num (stats' ! i) = st_num (stats ! i) \<and> st_config (stats' ! i) = st_config (stats ! i)" for i
    by (simp add: stats'_def stats2_def stats1_def et_frame)
  have ends: "st_nextparallel (stats' ! last (s # G2)) = -1" "st_prevparallel (stats' ! hd G1) = -1"
  proof -
    have "G2 \<noteq> [] \<Longrightarrow> last G2 \<noteq> last G1 \<and> last G2 \<noteq> s" "G2 \<noteq> [] \<Longrightarrow> hd G1 \<noteq> hd G2" "hd G1 \<noteq> s"
      using h2 assms(3,5) last_in_set [of G2] hd_in_set [of G1] by (auto simp del: last_in_set hd_in_set)
    then show "st_nextparallel (stats' ! last (s # G2)) = -1" "st_prevparallel (stats' ! hd G1) = -1"
      using assms(1,5) ne unfolding nx pv by (auto simp: group_ok_def)
  qed
  have tls: "st_prev (stats' ! i) = -1 \<and> st_next (stats' ! i) = -1" if "i \<in> set (tl G1) \<union> {s} \<union> set G2" for i
    using that assms(1,2,5) other by (auto simp: group_ok_def fresh_station_def)
  have "group_ok stats' (G1 @ s # G2)"
    using assms(1,5,7) l1 l2 ends tls other nx [of "last G1"] pv [of s] nx [of s] pv [of "hd G2"] h2 ne
    by (auto simp: group_ok_def dlinked_append dlinked_Cons)
  moreover have "\<forall>i. i \<notin> set (s # G1 @ G2) \<longrightarrow> stats' ! i = stats ! i"
    using assms(5) by (auto simp: stats'_def stats2_def stats1_def upd_at_nth)
  moreover have "length stats' = length stats" by (simp add: stats'_def stats2_def stats1_def)
  ultimately show ?thesis using run other by blast
qed

text \<open>What insertion does to the sequence of groups; \<open>None\<close> is refusal.\<close>

definition insert_in_group :: "nat list \<Rightarrow> nat \<Rightarrow> int \<Rightarrow> nat list" where
  "insert_in_group g s pp =
     (let j = (if 1 \<le> pp \<and> nat pp \<le> length g then nat pp else length g) in take j g @ s # drop j g)"

definition insert_group ::
  "et_station list \<Rightarrow> nat list list \<Rightarrow> nat \<Rightarrow> int \<Rightarrow> int \<Rightarrow> nat list list option" where
  "insert_group stats gs s position pp =
     (if 1 \<le> position \<and> nat position \<le> length gs then
        let k = nat position - 1; h = hd (gs ! k) in
        if cf_flow_mode (st_config (stats ! s)) = ET_STATION_PARALLEL \<and>
           cf_flow_mode (st_config (stats ! h)) = ET_STATION_PARALLEL \<and> pp \<noteq> ET_NEWHEAD then
          if et_station_compare_parallel (st_config (stats ! h)) (st_config (stats ! s)) = 0 \<or> pp = 0 then None
          else Some (gs[k := insert_in_group (gs ! k) s pp])
        else Some (take k gs @ [s] # drop k gs)
      else Some (gs @ [[s]]))"

lemma chain_okD:
  assumes "chain_ok stats tail gs"
  shows "distinct (0 # concat gs)" "members_ok stats (set (0 # concat gs))" "main_ok stats tail (0 # map hd gs)"
    "\<And>g. g \<in> set gs \<Longrightarrow> group_ok stats g" "\<And>g. g \<in> set gs \<Longrightarrow> g \<noteq> []"
    "\<And>g. g \<in> set gs \<Longrightarrow> hd g \<in> set (concat gs)"
    "set (0 # map hd gs) \<subseteq> set (0 # concat gs)" "distinct (0 # map hd gs)"
proof -
  show g: "distinct (0 # concat gs)" "members_ok stats (set (0 # concat gs))" "main_ok stats tail (0 # map hd gs)"
    "\<And>g. g \<in> set gs \<Longrightarrow> group_ok stats g" "\<And>g. g \<in> set gs \<Longrightarrow> g \<noteq> []"
    using assms by (auto simp: chain_ok_def group_ok_def)
  show h: "hd x \<in> set (concat gs)" if "x \<in> set gs" for x using g(5) [OF that] that by (auto intro!: bexI [of _ x])
  then show "set (0 # map hd gs) \<subseteq> set (0 # concat gs)" by auto
  have "distinct (map hd gs)" using g(1,5)
  proof (induction gs)
    case (Cons a gs)
    then have "hd a \<notin> set (map hd gs)" by (auto simp: disjoint_iff) (metis hd_in_set)
    with Cons show ?case by auto
  qed simp
  moreover have "0 \<notin> set (map hd gs)"
  proof
    assume "0 \<in> set (map hd gs)"
    then obtain x where "x \<in> set gs" "hd x = 0" by auto
    with h [of x] g(1) show False by (metis distinct.simps(2))
  qed
  ultimately show "distinct (0 # map hd gs)" by simp
qed

lemma chain_length:
  assumes "chain_ok stats tail gs" "s \<notin> set (0 # concat gs)" "s < length stats"
  shows "length (0 # concat gs) < length stats" "length gs \<le> length (concat gs)"
proof -
  have "distinct (s # 0 # concat gs)" using chain_okD(1) [OF assms(1)] assms(2) by auto
  moreover have "set (s # 0 # concat gs) \<subseteq> {..<length stats}"
    using chain_okD(2) [OF assms(1)] assms(3) by (auto simp: members_ok_def)
  ultimately have "length (s # 0 # concat gs) \<le> card {..<length stats}"
    by (metis card_mono distinct_card finite_lessThan)
  then show "length (0 # concat gs) < length stats" by simp
  show "length gs \<le> length (concat gs)" using chain_okD(5) [OF assms(1)]
  proof (induction gs)
    case (Cons a gs)
    then have "1 \<le> length a" by (cases a) auto
    with Cons show ?case by auto
  qed simp
qed

lemma concat_insert_set: "set (concat (take k gs @ [s] # drop k gs)) = insert s (set (concat gs))"
proof -
  have "set (concat gs) = set (concat (take k gs)) \<union> set (concat (drop k gs))"
    by (metis append_take_drop_id concat_append set_append)
  then show ?thesis by simp
qed

lemma distinct_concat_insert:
  assumes "distinct (concat gs)" "s \<notin> set (concat gs)"
  shows "distinct (concat (take k gs @ [s] # drop k gs))"
proof -
  have "mset (concat (take k gs @ [s] # drop k gs)) = add_mset s (mset (concat (take k gs @ drop k gs)))"
    unfolding concat_append by simp
  then have "mset (concat (take k gs @ [s] # drop k gs)) = mset (s # concat gs)" by simp
  then show ?thesis using assms by (metis distinct.simps(2) mset_eq_imp_distinct_iff)
qed

lemma single_group_ok:
  "fresh_station stats s \<Longrightarrow> st_nextparallel (stats' ! s) = st_nextparallel (stats ! s) \<Longrightarrow>
     st_prevparallel (stats' ! s) = st_prevparallel (stats ! s) \<Longrightarrow> group_ok stats' [s]"
  by (simp add: group_ok_def fresh_station_def)

lemma chain_insert_single:
  assumes ok: "chain_ok stats tail gs" and new: "fresh_station stats s" "s \<notin> set (0 # concat gs)"
    and len: "length stats' = length stats" "\<And>i. st_num (stats' ! i) = st_num (stats ! i)"
    and par: "\<And>i. st_nextparallel (stats' ! i) = st_nextparallel (stats ! i)"
      "\<And>i. st_prevparallel (stats' ! i) = st_prevparallel (stats ! i)"
      "\<And>i. st_config (stats' ! i) = st_config (stats ! i)"
    and frame: "\<And>i. i \<notin> set (s # 0 # map hd gs) \<Longrightarrow>
      st_next (stats' ! i) = st_next (stats ! i) \<and> st_prev (stats' ! i) = st_prev (stats ! i)"
    and main: "main_ok stats' tail' (0 # map hd (take k gs @ [s] # drop k gs))"
  shows "chain_ok stats' tail' (take k gs @ [s] # drop k gs)"
proof -
  note D = chain_okD [OF ok]
  have "group_ok stats' g" if "g \<in> set gs" for g
  proof -
    have "i \<notin> set (s # 0 # map hd gs)" if i: "i \<in> set (tl g)" for i
    proof -
      have "i \<in> set (concat gs)" using \<open>g \<in> set gs\<close> i in_set_tlD by fastforce
      then have "i \<noteq> s" "i \<noteq> 0" using new(2) D(1) by (metis list.set_intros(2), metis distinct.simps(2))
      moreover have "distinct (concat gs)" using D(1) by simp
      ultimately show ?thesis using head_notin_tl [of gs g] \<open>g \<in> set gs\<close> i D(5) by auto
    qed
    with frame have "group_ok stats' g = group_ok stats g" by (intro group_ok_cong) (simp_all add: par)
    with D(4) [OF that] show ?thesis by simp
  qed
  moreover have "group_ok stats' [s]" by (rule single_group_ok [OF new(1)]) (simp_all add: par)
  moreover have "distinct (0 # concat (take k gs @ [s] # drop k gs))"
    using D(1) new(2) distinct_concat_insert [of gs s k] concat_insert_set [of k gs s] by auto
  moreover have "members_ok stats' (set (0 # concat (take k gs @ [s] # drop k gs)))"
    using D(2) new(1) concat_insert_set [of k gs s] len by (simp add: members_ok_def fresh_station_def)
  ultimately show ?thesis using main set_take_subset [of k gs] set_drop_subset [of k gs]
    by (auto simp: chain_ok_def)
qed

lemma chain_append:
  assumes ok: "chain_ok stats tail gs" and new: "fresh_station stats s" "s \<notin> set (0 # concat gs)"
  defines "C \<equiv> append_station (stats, tail) s (last (0 # map hd gs))"
  shows "chain_ok (fst C) (snd C) (gs @ [[s]])"
proof -
  note D = chain_okD [OF ok]
  let ?l = "last (0 # map hd gs)"
  have l: "?l \<in> set (0 # map hd gs)" by (rule last_in_set) simp
  with D(7) have l2: "?l \<in> set (0 # concat gs)" by blast
  then have m: "?l < length stats" "st_num (stats ! ?l) = int ?l" using D(2) unfolding members_ok_def by blast+
  have "s \<notin> set (0 # map hd gs)" using D(7) new(2) by blast
  from append_station_main [OF D(3) new(1) this m(1) D(8) m(2)]
  have "main_ok (fst C) (snd C) (0 # map hd (gs @ [[s]]))" unfolding C_def by simp
  moreover have "st_next (fst C ! i) = st_next (stats ! i) \<and> st_prev (fst C ! i) = st_prev (stats ! i)"
    if "i \<notin> set (s # 0 # map hd gs)" for i
    using that l by (auto simp: C_def append_station_def upd_at_nth)
  ultimately have "chain_ok (fst C) (snd C) (take (length gs) gs @ [s] # drop (length gs) gs)"
    by (intro chain_insert_single [OF ok new]) (simp_all add: C_def append_station_def Let_def et_frame)
  then show ?thesis by simp
qed

lemma chain_between:
  assumes ok: "chain_ok stats tail gs" and new: "fresh_station stats s" "s \<notin> set (0 # concat gs)"
    and k: "k < length gs"
  defines "C \<equiv> insert_between (stats, tail) s ((0 # map hd gs) ! k) (hd (gs ! k))"
  shows "chain_ok (fst C) (snd C) (take k gs @ [s] # drop k gs)"
proof -
  note D = chain_okD [OF ok]
  let ?H1 = "0 # map hd (take k gs)" and ?H2 = "map hd (drop k gs)"
  have hs: "?H1 @ ?H2 = 0 # map hd gs" by (simp add: map_append [symmetric] del: map_append)
  have "?H2 \<noteq> []" using k by simp
  have l1: "last ?H1 = (0 # map hd gs) ! k"
    using k by (cases k) (simp_all add: last_map take_Suc_conv_app_nth)
  have h2: "hd ?H2 = hd (gs ! k)" using k by (simp add: hd_map hd_drop_conv_nth)
  have ns: "s \<notin> set (?H1 @ ?H2)" "distinct (?H1 @ ?H2)" "main_ok stats tail (?H1 @ ?H2)"
    unfolding hs using D(3,7,8) new(2) by blast+
  have mem: "members_ok stats (set (?H1 @ ?H2))"
    unfolding hs using D(2,7) by (auto simp: members_ok_def)
  have "main_ok (fst C) (snd C) (?H1 @ s # ?H2)"
    using insert_between_main [OF ns(3) new(1) ns(1,2) _ \<open>?H2 \<noteq> []\<close> mem] unfolding C_def l1 h2 by simp
  then have main: "main_ok (fst C) (snd C) (0 # map hd (take k gs @ [s] # drop k gs))" by simp
  have p: "(0 # map hd gs) ! k \<in> set (0 # map hd gs)" by (rule nth_mem) (use k in simp)
  have q: "hd (gs ! k) \<in> set (0 # map hd gs)" using k by simp
  have "st_next (fst C ! i) = st_next (stats ! i) \<and> st_prev (fst C ! i) = st_prev (stats ! i)"
    if "i \<notin> set (s # 0 # map hd gs)" for i
  proof -
    have "i \<noteq> s" "i \<noteq> (0 # map hd gs) ! k" "i \<noteq> hd (gs ! k)" using that p q by auto
    then show ?thesis by (simp add: C_def insert_between_def Let_def upd_at_nth)
  qed
  with main show ?thesis
    by (intro chain_insert_single [OF ok new]) (simp_all add: C_def insert_between_def Let_def et_frame)
qed

lemma mset_concat_update:
  "k < length gs \<Longrightarrow> mset g' = add_mset s (mset (gs ! k)) \<Longrightarrow> mset (concat (gs[k := g'])) = add_mset s (mset (concat gs))"
proof -
  assume a: "k < length gs" "mset g' = add_mset s (mset (gs ! k))"
  have "mset (concat gs) = mset (concat (take k gs)) + mset (gs ! k) + mset (concat (drop (Suc k) gs))"
    by (subst id_take_nth_drop [OF a(1)]) simp
  with a show ?thesis by (simp add: upd_conv_take_nth_drop)
qed

lemma chain_parallel:
  assumes ok: "chain_ok stats tail gs" and new: "fresh_station stats s" "s \<notin> set (0 # concat gs)"
    and k: "k < length gs" and j: "0 < j" "j \<le> length (gs ! k)"
    and flow: "cf_flow_mode (st_config (stats ! s)) = ET_STATION_PARALLEL"
      "cf_flow_mode (st_config (stats ! hd (gs ! k))) = ET_STATION_PARALLEL"
  shows "\<exists>stats'. insert_parallel (stats, tail) s (gs ! k ! (j - 1)) = Some (stats', tail) \<and>
     chain_ok stats' tail (gs[k := take j (gs ! k) @ s # drop j (gs ! k)])"
proof -
  note D = chain_okD [OF ok]
  let ?g = "gs ! k" and ?G1 = "take j (gs ! k)" and ?G2 = "drop j (gs ! k)"
  have gk: "?g \<in> set gs" using k by simp
  have sub: "set ?g \<subseteq> set (concat gs)" using gk by auto
  have dc: "distinct (concat gs)" using D(1) by simp
  have "\<forall>i \<in> set ?g. cf_flow_mode (st_config (stats ! i)) = ET_STATION_PARALLEL"
    using D(4) [OF gk] flow(2) by (cases ?g; cases "tl ?g = []") (auto simp: group_ok_def)
  with flow(1) have pf: "\<forall>i \<in> set (s # ?G1 @ ?G2). cf_flow_mode (st_config (stats ! i)) = ET_STATION_PARALLEL"
    by simp
  have h: "group_ok stats (?G1 @ ?G2)" "s \<notin> set (?G1 @ ?G2)" "distinct (?G1 @ ?G2)" "?G1 \<noteq> []"
    "members_ok stats (set (?G1 @ ?G2))"
    using D(4) [OF gk] sub new(2) distinct_concat_iff [of gs] dc gk j D(2)
    by (auto simp: members_ok_def)
  have lst: "last ?G1 = ?g ! (j - 1)" using j by (cases j) (simp_all add: last_take_Suc)
  from insert_parallel_group [OF h(1) new(1) h(2-5) pf, of tail] obtain stats' where
    run: "insert_parallel (stats, tail) s (?g ! (j - 1)) = Some (stats', tail)"
    and grp: "group_ok stats' (?G1 @ s # ?G2)" and len: "length stats' = length stats"
    and frame: "\<And>i. i \<notin> set (s # ?g) \<Longrightarrow> stats' ! i = stats ! i"
    and keep: "\<And>i. st_next (stats' ! i) = st_next (stats ! i) \<and> st_prev (stats' ! i) = st_prev (stats ! i) \<and>
        st_num (stats' ! i) = st_num (stats ! i)"
    unfolding lst by auto
  let ?gs = "gs[k := ?G1 @ s # ?G2]"
  have ms: "mset (concat ?gs) = mset (s # concat gs)"
  proof -
    have "mset (?G1 @ s # ?G2) = add_mset s (mset (?G1 @ ?G2))" by (simp del: append_take_drop_id)
    then have "mset (?G1 @ s # ?G2) = add_mset s (mset ?g)" by (simp only: append_take_drop_id)
    from mset_concat_update [OF k this] show ?thesis by simp
  qed
  then have set: "set (concat ?gs) = set (s # concat gs)" by (metis set_mset_mset)
  have "distinct (s # concat gs)" using dc new(2) by simp
  with ms have "distinct (concat ?gs)" by (metis mset_eq_imp_distinct_iff)
  then have d: "distinct (0 # concat ?gs)" using set D(1) new(2) by auto
  have heads: "map hd ?gs = map hd gs"
    using j k D(5) [OF gk] by (intro nth_equalityI) (auto simp: nth_list_update)
  have main: "main_ok stats' tail (0 # map hd ?gs)"
    using D(3) unfolding heads by (subst main_ok_cong [of _ _ stats]) (auto simp: keep)
  have other: "group_ok stats' g" if i: "i < length gs" "i \<noteq> k" "g = gs ! i" for g i
  proof -
    have "set g \<inter> set ?g = {}" using distinct_concat_nth [OF dc i(1) k i(2)] i(3) by simp
    moreover have "s \<notin> set g" using new(2) i by auto
    ultimately have "i \<notin> set (s # ?g)" if "i \<in> set g" for i using that by auto
    then have "group_ok stats' g = group_ok stats g" by (intro group_ok_cong) (simp_all add: frame keep)
    with D(4) i show ?thesis by simp
  qed
  have "members_ok stats' (set (0 # concat ?gs))"
    using D(2) new(1) set len keep by (simp add: members_ok_def fresh_station_def)
  moreover have "\<forall>g \<in> set ?gs. group_ok stats' g"
    using other grp k by (auto simp: in_set_conv_nth nth_list_update)
  ultimately show ?thesis using run d main by (auto simp: chain_ok_def)
qed

lemma station_insert_chain:
  assumes ok: "chain_ok stats tail gs" and new: "fresh_station stats s" "s \<notin> set (0 # concat gs)"
    and n: "nstations = int (length (concat gs)) + 2"
  shows "case insert_group stats gs s position pp of
     None \<Rightarrow> station_insert (length stats) nstations (stats, tail) s position pp = Some (ET_ERROR, (stats, tail))
   | Some gs' \<Rightarrow> \<exists>stats' tail'. station_insert (length stats) nstations (stats, tail) s position pp =
       Some (ET_OK, (stats', tail')) \<and> chain_ok stats' tail' gs'"
proof -
  note D = chain_okD [OF ok]
  have s: "s < length stats" using new(1) by (simp add: fresh_station_def)
  note len = chain_length [OF ok new(2) s]
  have main: "dlinked (\<lambda>i. st_next (stats ! i)) (\<lambda>i. st_prev (stats ! i)) (0 # map hd gs)"
    "st_next (stats ! last (0 # map hd gs)) = -1"
    using D(3) by (simp_all add: main_ok_def)
  have bnd: "\<forall>i \<in> set (map hd gs). i < length stats" using D(2,7) by (auto simp: members_ok_def)
  have "length (map hd gs) < length stats" using len by simp
  note walk = insert_walk_spec [OF main bnd this, of 1 position]
  show ?thesis
  proof (cases "1 \<le> position \<and> nat position \<le> length gs")
    case False
    then have "\<not> (1 \<le> position \<and> nat (position - 1) < length (map hd gs))" by auto
    with walk have w: "insert_walk (length stats) stats 0 1 position = Some (AtEnd (last (0 # map hd gs)))" by simp
    have "nstations < 3 \<Longrightarrow> length gs = 0" using n len(2) by linarith
    with w have run: "station_insert (length stats) nstations (stats, tail) s position pp =
        Some (ET_OK, append_station (stats, tail) s (last (0 # map hd gs)))"
      by (auto simp: station_insert_def)
    have ig: "insert_group stats gs s position pp = Some (gs @ [[s]])"
      using False by (auto simp: insert_group_def)
    from run chain_append [OF ok new] show ?thesis unfolding ig option.case
      by (metis prod.collapse)
  next
    case True
    define k where "k = nat position - 1"
    have k: "k < length gs" "nat (position - 1) = k" using True by (auto simp: k_def)
    have "\<not> nstations < 3" using n len(2) k(1) by linarith
    from walk k True have w: "insert_walk (length stats) stats 0 1 position =
        Some (Between ((0 # map hd gs) ! k) (hd (gs ! k)))" by (simp add: nth_map)
    have gk: "gs ! k \<in> set gs" using k by simp
    let ?par = "cf_flow_mode (st_config (stats ! s)) = ET_STATION_PARALLEL \<and>
       cf_flow_mode (st_config (stats ! hd (gs ! k))) = ET_STATION_PARALLEL \<and> pp \<noteq> ET_NEWHEAD"
    let ?bad = "et_station_compare_parallel (st_config (stats ! hd (gs ! k))) (st_config (stats ! s)) = 0 \<or> pp = 0"
    have ig: "insert_group stats gs s position pp = (if ?par then
        if ?bad then None else Some (gs[k := insert_in_group (gs ! k) s pp])
        else Some (take k gs @ [s] # drop k gs))"
      unfolding insert_group_def Let_def k_def by (simp only: if_P [OF True])
    show ?thesis
    proof (cases "?par \<and> \<not> ?bad")
      case False
      then show ?thesis using w \<open>\<not> nstations < 3\<close> chain_between [OF ok new k(1)] unfolding ig
        by (cases "insert_between (stats, tail) s ((0 # map hd gs) ! k) (hd (gs ! k))")
          (auto simp: station_insert_def)
    next
      case par: True
      define j where "j = (if 1 \<le> pp \<and> nat pp \<le> length (gs ! k) then nat pp else length (gs ! k))"
      have j: "0 < j" "j \<le> length (gs ! k)" using D(5) [OF gk] by (auto simp: j_def)
      obtain x rest where g: "gs ! k = x # rest" using D(5) [OF gk] by (cases "gs ! k") auto
      have "length (gs ! k) \<le> length (concat gs)" using gk by (simp add: length_concat member_le_sum_list)
      then have fuel: "length rest < length stats" using len(1) g by simp
      have gd: "dlinked (\<lambda>i. st_nextparallel (stats ! i)) (\<lambda>i. st_prevparallel (stats ! i)) (x # rest)"
        "st_nextparallel (stats ! last (x # rest)) = -1" "\<forall>i \<in> set rest. i < length stats"
        using D(4) [OF gk] D(2) gk g by (auto simp: group_ok_def members_ok_def)
      have "parallel_walk (length stats) stats (hd (gs ! k)) 1 pp = Some (gs ! k ! (j - 1))"
        using parallel_walk_spec [OF gd fuel, of 1 pp] g by (auto simp: j_def last_conv_nth nat_diff_distrib)
      moreover from chain_parallel [OF ok new k(1) j] par obtain stats' where
        "insert_parallel (stats, tail) s (gs ! k ! (j - 1)) = Some (stats', tail)"
        "chain_ok stats' tail (gs[k := take j (gs ! k) @ s # drop j (gs ! k)])" by blast
      ultimately show ?thesis using w \<open>\<not> nstations < 3\<close> par unfolding ig
        by (auto simp: station_insert_def insert_in_group_def j_def [symmetric] Let_def)
    qed
  qed
qed

section \<open>Removal\<close>

lemma chain_replace:
  assumes ok: "chain_ok stats tail (A @ g # B)"
    and len: "length stats' = length stats" "\<And>i. st_num (stats' ! i) = st_num (stats ! i)"
    and par: "\<And>i. i \<notin> set g \<Longrightarrow> st_nextparallel (stats' ! i) = st_nextparallel (stats ! i) \<and>
      st_prevparallel (stats' ! i) = st_prevparallel (stats ! i)"
      "\<And>i. st_config (stats' ! i) = st_config (stats ! i)"
    and frame: "\<And>i. i \<notin> set (0 # map hd (A @ g # B) @ g) \<Longrightarrow>
      st_next (stats' ! i) = st_next (stats ! i) \<and> st_prev (stats' ! i) = st_prev (stats ! i)"
    and main: "main_ok stats' tail' (0 # map hd (A @ gs' @ B))"
    and gs': "\<forall>x \<in> set gs'. group_ok stats' x" "mset (concat gs') \<subseteq># mset g"
  shows "chain_ok stats' tail' (A @ gs' @ B)"
proof -
  note D = chain_okD [OF ok]
  have dc: "distinct (concat (A @ g # B))" using D(1) by simp
  have "group_ok stats' x" if x: "x \<in> set A \<union> set B" for x
  proof -
    have xin: "x \<in> set (A @ g # B)" using x by auto
    have disj: "set x \<inter> set g = {}" using dc x by auto
    have "i \<notin> set (0 # map hd (A @ g # B) @ g)" if i: "i \<in> set (tl x)" for i
    proof -
      have "i \<in> set x" using i by (rule in_set_tlD)
      then have "i \<notin> set g" "i \<in> set (concat (A @ g # B))" using disj xin by auto
      moreover from this(2) have "i \<noteq> 0" using D(1) by (metis distinct.simps(2))
      moreover have "i \<noteq> hd y" if "y \<in> set (A @ g # B)" for y
        using head_notin_tl [OF dc xin that D(5) [OF that]] i by metis
      ultimately show ?thesis by auto
    qed
    moreover have "i \<notin> set g" if "i \<in> set x" for i using disj that by auto
    ultimately have "group_ok stats' x = group_ok stats x"
      using frame by (intro group_ok_cong) (simp_all add: par)
    with D(4) [OF xin] show ?thesis by simp
  qed
  moreover have sub: "mset (concat (A @ gs' @ B)) \<subseteq># mset (concat (A @ g # B))" using gs'(2) by simp
  have "distinct (concat (A @ gs' @ B))"
    by (rule distinct_mset_sub [OF sub dc])
  moreover have ss: "set (concat (A @ gs' @ B)) \<subseteq> set (concat (A @ g # B))"
    using sub by (metis mset_subset_eqD set_mset_mset subsetI)
  then have "0 \<notin> set (concat (A @ gs' @ B))" using D(1) by (metis distinct.simps(2) subsetD)
  moreover have "members_ok stats' (set (0 # concat (A @ gs' @ B)))"
    using D(2) ss len unfolding members_ok_def by (metis insert_iff list.simps(15) subsetD)
  ultimately show ?thesis using main gs'(1) by (simp add: chain_ok_def Un_iff ball_Un)
qed

lemma unlink_main_ok:
  assumes main: "main_ok stats tail (H1 @ s # H2)" "H1 \<noteq> []" "distinct (H1 @ s # H2)"
    and mem: "members_ok stats (set (H1 @ s # H2))"
  shows "\<exists>stats' tail'. unlink_main (stats, tail) s = Some (stats', tail') \<and> main_ok stats' tail' (H1 @ H2) \<and>
     length stats' = length stats \<and>
     (\<forall>i. st_num (stats' ! i) = st_num (stats ! i) \<and> st_config (stats' ! i) = st_config (stats ! i) \<and>
        st_nextparallel (stats' ! i) = st_nextparallel (stats ! i) \<and>
        st_prevparallel (stats' ! i) = st_prevparallel (stats ! i)) \<and>
     (\<forall>i. i \<notin> set (H1 @ H2) \<longrightarrow> stats' ! i = stats ! i)"
proof -
  let ?p = "last H1" and ?n = "hd H2"
  have m: "?p < length stats" "st_num (stats ! ?p) = int ?p" "H2 \<noteq> [] \<Longrightarrow> ?n < length stats"
    using mem main(2) by (auto simp: members_ok_def)
  have d: "?p \<noteq> s" "?p \<notin> set H2" "H2 \<noteq> [] \<Longrightarrow> ?n \<noteq> s \<and> ?n \<notin> set H1 \<and> ?n \<noteq> ?p" "distinct H1" "distinct H2"
    using main(2,3) distinct_append_ends [of H1 "s # H2"] distinct_append_ends [of "H1 @ [s]" H2] by auto
  have links: "st_prev (stats ! s) = int ?p" "st_next (stats ! s) = (if H2 = [] then -1 else int ?n)"
    "tail = (if H2 = [] then int s else int (last H2))"
    using main by (auto simp: main_ok_def dlinked_append dlinked_Cons)
  have tl: "H2 \<noteq> [] \<Longrightarrow> tail \<noteq> int s" using main(3) links(3) last_in_set [of H2] by (auto simp del: last_in_set)
  define stats1 where "stats1 = (if H2 = [] then stats else upd_at ?n (\<lambda>x. x\<lparr>st_prev := int ?p\<rparr>) stats)"
  define stats' where "stats' = upd_at ?p (\<lambda>x. x\<lparr>st_next := (if H2 = [] then -1 else int ?n)\<rparr>) stats1"
  define tail' where "tail' = (if H2 = [] then int ?p else tail)"
  have nx1: "st_next (stats1 ! s) = st_next (stats ! s)" by (simp add: stats1_def et_frame)
  have run: "unlink_main (stats, tail) s = Some (stats', tail')"
    using links m tl nx1 by (cases "H2 = []") (simp_all add: unlink_main_def stats'_def stats1_def tail'_def)
  have nx: "st_next (stats' ! i) = (if i = ?p then if H2 = [] then -1 else int ?n else st_next (stats ! i))" for i
    using m by (auto simp: stats'_def stats1_def upd_at_nth)
  have pv: "st_prev (stats' ! i) = (if H2 \<noteq> [] \<and> i = ?n then int ?p else st_prev (stats ! i))" for i
    using m by (auto simp: stats'_def stats1_def upd_at_nth)
  have hd2: "H2 \<noteq> [] \<Longrightarrow> ?n \<notin> set (tl H2)" using d(5) by (cases H2) auto
  have "dlinked (\<lambda>i. st_next (stats' ! i)) (\<lambda>i. st_prev (stats' ! i)) H1 =
      dlinked (\<lambda>i. st_next (stats ! i)) (\<lambda>i. st_prev (stats ! i)) H1"
    unfolding nx pv using d distinct_last_butlast [OF d(4)]
    by (intro dlinked_cong) (auto dest: in_set_butlastD in_set_tlD)
  moreover have "dlinked (\<lambda>i. st_next (stats' ! i)) (\<lambda>i. st_prev (stats' ! i)) H2 =
      dlinked (\<lambda>i. st_next (stats ! i)) (\<lambda>i. st_prev (stats ! i)) H2"
    unfolding nx pv using d hd2 by (intro dlinked_cong) (auto dest: in_set_butlastD in_set_tlD)
  moreover have "H2 \<noteq> [] \<Longrightarrow> last H2 \<noteq> ?p" "H2 \<noteq> [] \<Longrightarrow> hd H1 \<noteq> ?n"
    using d(2,3) main(2) last_in_set [of H2] hd_in_set [of H1] by (auto simp del: last_in_set hd_in_set)
  ultimately have "main_ok stats' tail' (H1 @ H2)"
    using main(1,2) links(3) nx [of "last (H1 @ H2)"] pv [of "hd H1"] nx [of ?p] pv [of ?n]
    by (auto simp: main_ok_def dlinked_append dlinked_Cons tail'_def)
  moreover have "\<forall>i. i \<notin> set (H1 @ H2) \<longrightarrow> stats' ! i = stats ! i"
    using main(2) by (auto simp: stats'_def stats1_def upd_at_nth)
  ultimately show ?thesis using run by (auto simp: stats'_def stats1_def et_frame)
qed

lemma promote_parallel_ok:
  assumes main: "main_ok stats tail (H1 @ s # H2)" "H1 \<noteq> []" "distinct (H1 @ s # H2)"
    and mem: "members_ok stats (insert n (set (H1 @ s # H2)))" and n: "st_nextparallel (stats ! s) = int n"
      "n \<notin> set (H1 @ s # H2)"
  shows "\<exists>stats' tail'. promote_parallel (stats, tail) s = Some (stats', tail') \<and> main_ok stats' tail' (H1 @ n # H2) \<and>
     length stats' = length stats \<and>
     (\<forall>i. st_num (stats' ! i) = st_num (stats ! i) \<and> st_config (stats' ! i) = st_config (stats ! i) \<and>
        st_nextparallel (stats' ! i) = st_nextparallel (stats ! i)) \<and>
     (\<forall>i. i \<noteq> n \<longrightarrow> st_prevparallel (stats' ! i) = st_prevparallel (stats ! i)) \<and>
     st_prevparallel (stats' ! n) = -1 \<and> (\<forall>i. i \<notin> set (H1 @ n # H2) \<longrightarrow> stats' ! i = stats ! i)"
proof -
  let ?p = "last H1" and ?h = "hd H2"
  have m: "?p < length stats" "st_num (stats ! n) = int n" "n < length stats" "H2 \<noteq> [] \<Longrightarrow> ?h < length stats"
    using mem main(2) by (auto simp: members_ok_def)
  have d: "?p \<noteq> s" "?p \<notin> set H2" "?p \<noteq> n" "H2 \<noteq> [] \<Longrightarrow> ?h \<noteq> s \<and> ?h \<notin> set H1 \<and> ?h \<noteq> ?p \<and> ?h \<noteq> n"
    "distinct H1" "distinct H2" "n \<notin> set H1" "n \<notin> set H2"
    using main(2,3) distinct_append_ends [of H1 "s # H2"] distinct_append_ends [of "H1 @ [s]" H2] n(2) by auto
  have links: "st_prev (stats ! s) = int ?p" "st_next (stats ! s) = (if H2 = [] then -1 else int ?h)"
    "tail = (if H2 = [] then int s else int (last H2))"
    using main by (auto simp: main_ok_def dlinked_append dlinked_Cons)
  have tl: "H2 \<noteq> [] \<Longrightarrow> tail \<noteq> int s" using main(3) links(3) last_in_set [of H2] by (auto simp del: last_in_set)
  define stats1 where "stats1 = upd_at n (\<lambda>x. x\<lparr>st_prev := int ?p, st_next := (if H2 = [] then -1 else int ?h),
      st_prevparallel := -1\<rparr>) stats"
  define stats2 where "stats2 = (if H2 = [] then stats1 else upd_at ?h (\<lambda>x. x\<lparr>st_prev := int n\<rparr>) stats1)"
  define stats' where "stats' = upd_at ?p (\<lambda>x. x\<lparr>st_next := int n\<rparr>) stats2"
  define tail' where "tail' = (if H2 = [] then int n else tail)"
  have run: "promote_parallel (stats, tail) s = Some (stats', tail')"
    using links m tl n(1) d
    by (cases "H2 = []") (simp_all add: promote_parallel_def stats'_def stats2_def stats1_def tail'_def Let_def et_frame)
  have nx: "st_next (stats' ! i) = (if i = ?p then int n else if i = n then if H2 = [] then -1 else int ?h
      else st_next (stats ! i))" for i
    using m d by (auto simp: stats'_def stats2_def stats1_def upd_at_nth)
  have pv: "st_prev (stats' ! i) = (if H2 \<noteq> [] \<and> i = ?h then int n else if i = n then int ?p else st_prev (stats ! i))" for i
    using m d by (auto simp: stats'_def stats2_def stats1_def upd_at_nth)
  have hd2: "H2 \<noteq> [] \<Longrightarrow> ?h \<notin> set (tl H2)" using d(6) by (cases H2) auto
  have l1: "dlinked (\<lambda>i. st_next (stats' ! i)) (\<lambda>i. st_prev (stats' ! i)) H1 =
      dlinked (\<lambda>i. st_next (stats ! i)) (\<lambda>i. st_prev (stats ! i)) H1"
    unfolding nx pv using d distinct_last_butlast [OF d(5)]
    by (intro dlinked_cong) (auto dest: in_set_butlastD in_set_tlD)
  have l2: "dlinked (\<lambda>i. st_next (stats' ! i)) (\<lambda>i. st_prev (stats' ! i)) H2 =
      dlinked (\<lambda>i. st_next (stats ! i)) (\<lambda>i. st_prev (stats ! i)) H2"
    unfolding nx pv using d hd2 by (intro dlinked_cong) (auto dest: in_set_butlastD in_set_tlD)
  have e: "H2 \<noteq> [] \<Longrightarrow> last H2 \<noteq> ?p \<and> last H2 \<noteq> n" "H2 \<noteq> [] \<Longrightarrow> hd H1 \<noteq> ?h" "hd H1 \<noteq> n"
    using d main(2) last_in_set [of H2] hd_in_set [of H1] by (auto simp del: last_in_set hd_in_set)
  have "main_ok stats' tail' (H1 @ n # H2)"
    using main(1,2) links(3) nx [of "last H2"] nx [of n] pv [of "hd H1"] nx [of ?p] pv [of ?h] pv [of n] l1 l2 e d(3,4)
    by (auto simp: main_ok_def dlinked_append dlinked_Cons tail'_def)
  moreover have "\<forall>i. i \<notin> set (H1 @ n # H2) \<longrightarrow> stats' ! i = stats ! i"
    using main(2) by (auto simp: stats'_def stats2_def stats1_def upd_at_nth)
  moreover have "\<forall>i. i \<noteq> n \<longrightarrow> st_prevparallel (stats' ! i) = st_prevparallel (stats ! i)"
    "st_prevparallel (stats' ! n) = -1"
    using m(3) by (auto simp: stats'_def stats2_def et_frame) (auto simp: stats1_def upd_at_nth)
  ultimately show ?thesis using run by (auto simp: stats'_def stats2_def stats1_def et_frame)
qed

lemma unlink_parallel_ok:
  assumes grp: "group_ok stats (G1 @ s # G2)" "G1 \<noteq> []" "distinct (G1 @ s # G2)"
    and mem: "members_ok stats (set (G1 @ s # G2))"
  shows "\<exists>stats'. unlink_parallel (stats, tail) s = Some (stats', tail) \<and> group_ok stats' (G1 @ G2) \<and>
     length stats' = length stats \<and>
     (\<forall>i. st_num (stats' ! i) = st_num (stats ! i) \<and> st_config (stats' ! i) = st_config (stats ! i) \<and>
        st_next (stats' ! i) = st_next (stats ! i) \<and> st_prev (stats' ! i) = st_prev (stats ! i)) \<and>
     (\<forall>i. i \<notin> set (G1 @ G2) \<longrightarrow> stats' ! i = stats ! i)"
proof -
  let ?p = "last G1" and ?n = "hd G2"
  have m: "?p < length stats" "st_num (stats ! ?p) = int ?p" "G2 \<noteq> [] \<Longrightarrow> ?n < length stats"
    using mem grp(2) by (auto simp: members_ok_def)
  have d: "?p \<noteq> s" "?p \<notin> set G2" "G2 \<noteq> [] \<Longrightarrow> ?n \<noteq> s \<and> ?n \<notin> set G1 \<and> ?n \<noteq> ?p" "distinct G1" "distinct G2"
    using grp(2,3) distinct_append_ends [of G1 "s # G2"] distinct_append_ends [of "G1 @ [s]" G2] by auto
  have links: "st_prevparallel (stats ! s) = int ?p" "st_nextparallel (stats ! s) = (if G2 = [] then -1 else int ?n)"
    using grp by (auto simp: group_ok_def dlinked_append dlinked_Cons)
  define stats1 where "stats1 = (if G2 = [] then stats else upd_at ?n (\<lambda>x. x\<lparr>st_prevparallel := int ?p\<rparr>) stats)"
  define stats2 where "stats2 = upd_at ?p (\<lambda>x. x\<lparr>st_nextparallel := (if G2 = [] then -1 else int ?n)\<rparr>) stats1"
  define stats' where "stats' = (if st_waslast (stats ! s) = 1 then upd_at ?p (\<lambda>x. x\<lparr>st_waslast := 1\<rparr>) stats2 else stats2)"
  have run: "unlink_parallel (stats, tail) s = Some (stats', tail)"
    using links m by (cases "G2 = []")
      (simp_all add: unlink_parallel_def stats'_def stats2_def stats1_def Let_def)
  have nx: "st_nextparallel (stats' ! i) = (if i = ?p then if G2 = [] then -1 else int ?n else st_nextparallel (stats ! i))" for i
    using m by (auto simp: stats'_def stats2_def stats1_def upd_at_nth)
  have pv: "st_prevparallel (stats' ! i) = (if G2 \<noteq> [] \<and> i = ?n then int ?p else st_prevparallel (stats ! i))" for i
    using m by (auto simp: stats'_def stats2_def stats1_def upd_at_nth)
  have keep: "st_num (stats' ! i) = st_num (stats ! i)" "st_config (stats' ! i) = st_config (stats ! i)"
    "st_next (stats' ! i) = st_next (stats ! i)" "st_prev (stats' ! i) = st_prev (stats ! i)" for i
    by (simp_all add: stats'_def stats2_def stats1_def et_frame)
  have hd2: "G2 \<noteq> [] \<Longrightarrow> ?n \<notin> set (tl G2)" using d(5) by (cases G2) auto
  have l1: "dlinked (\<lambda>i. st_nextparallel (stats' ! i)) (\<lambda>i. st_prevparallel (stats' ! i)) G1 =
      dlinked (\<lambda>i. st_nextparallel (stats ! i)) (\<lambda>i. st_prevparallel (stats ! i)) G1"
    unfolding nx pv using d distinct_last_butlast [OF d(4)]
    by (intro dlinked_cong) (auto dest: in_set_butlastD in_set_tlD)
  have l2: "dlinked (\<lambda>i. st_nextparallel (stats' ! i)) (\<lambda>i. st_prevparallel (stats' ! i)) G2 =
      dlinked (\<lambda>i. st_nextparallel (stats ! i)) (\<lambda>i. st_prevparallel (stats ! i)) G2"
    unfolding nx pv using d hd2 by (intro dlinked_cong) (auto dest: in_set_butlastD in_set_tlD)
  have e: "G2 \<noteq> [] \<Longrightarrow> last G2 \<noteq> ?p" "G2 \<noteq> [] \<Longrightarrow> hd G1 \<noteq> ?n"
    using d grp(2) last_in_set [of G2] hd_in_set [of G1] by (auto simp del: last_in_set hd_in_set)
  have "group_ok stats' (G1 @ G2)"
    using grp(1,2) nx [of "last G2"] pv [of "hd G1"] nx [of ?p] pv [of ?n] l1 l2 e
    by (cases "G2 = []") (auto simp: group_ok_def dlinked_append dlinked_Cons keep)
  moreover have "\<forall>i. i \<notin> set (G1 @ G2) \<longrightarrow> stats' ! i = stats ! i"
  proof (intro allI impI)
    fix i assume "i \<notin> set (G1 @ G2)"
    then have "i \<noteq> ?p" "G2 = [] \<or> i \<noteq> ?n" using grp(2) by auto
    then show "stats' ! i = stats ! i" by (auto simp: stats'_def stats2_def stats1_def upd_at_nth)
  qed
  moreover have "length stats' = length stats" by (simp add: stats'_def stats2_def stats1_def)
  ultimately show ?thesis using run keep by blast
qed

lemma members_ok_mono: "members_ok stats M \<Longrightarrow> N \<subseteq> M \<Longrightarrow> members_ok stats N"
  by (auto simp: members_ok_def)

lemma station_remove_chain:
  assumes ok: "chain_ok stats tail (A @ (G1 @ s # G2) # B)"
  shows "\<exists>stats' tail'. station_remove (stats, tail) s = Some (stats', tail') \<and>
     chain_ok stats' tail' (A @ (if G1 @ G2 = [] then [] else [G1 @ G2]) @ B)"
proof -
  let ?g = "G1 @ s # G2" and ?gs = "A @ (G1 @ s # G2) # B"
  note D = chain_okD [OF ok]
  have gg: "group_ok stats ?g" "distinct ?g" using D(1,4) by auto
  have gm: "members_ok stats (set ?g)" by (rule members_ok_mono [OF D(2)]) auto
  have mm: "members_ok stats (set (0 # map hd ?gs))" by (rule members_ok_mono [OF D(2,7)])
  have sub: "mset (concat (if G1 @ G2 = [] then [] else [G1 @ G2])) \<subseteq># mset ?g" by simp
  show ?thesis
  proof (cases "G1 = []")
    case False
    from unlink_parallel_ok [OF gg(1) False gg(2) gm, of tail] obtain stats' where
      u: "unlink_parallel (stats, tail) s = Some (stats', tail)" "group_ok stats' (G1 @ G2)"
        "length stats' = length stats" "\<And>i. st_num (stats' ! i) = st_num (stats ! i)"
        "\<And>i. st_config (stats' ! i) = st_config (stats ! i)" "\<And>i. st_next (stats' ! i) = st_next (stats ! i)"
        "\<And>i. st_prev (stats' ! i) = st_prev (stats ! i)" "\<And>i. i \<notin> set (G1 @ G2) \<Longrightarrow> stats' ! i = stats ! i"
      by blast
    have s: "st_prev (stats ! s) = -1" "cf_flow_mode (st_config (stats ! s)) = ET_STATION_PARALLEL"
      using gg(1) False by (auto simp: group_ok_def)
    have "main_ok stats' tail (0 # map hd (A @ [G1 @ G2] @ B))"
      using D(3) False by (subst main_ok_cong [of _ _ stats]) (auto simp: u)
    then have "chain_ok stats' tail (A @ [G1 @ G2] @ B)"
      using u(2-8) by (intro chain_replace [OF ok]) auto
    with u(1) s False show ?thesis by (simp add: station_remove_def)
  next
    case G1: True
    let ?H1 = "0 # map hd A" and ?H2 = "map hd B"
    have main: "main_ok stats tail (?H1 @ s # ?H2)" "distinct (?H1 @ s # ?H2)" "members_ok stats (set (?H1 @ s # ?H2))"
      using D(3,8) mm G1 by auto
    have pv: "st_prev (stats ! s) > -1" using main(1) by (auto simp: main_ok_def dlinked_append dlinked_Cons)
    show ?thesis
    proof (cases "G2 = []")
      case True
      have np: "st_nextparallel (stats ! s) < 0" using gg(1) G1 True by (simp add: group_ok_def)
      from unlink_main_ok [OF main(1) _ main(2,3)] obtain stats' tail' where
        u: "unlink_main (stats, tail) s = Some (stats', tail')" "main_ok stats' tail' (?H1 @ ?H2)"
          "length stats' = length stats" "\<And>i. st_num (stats' ! i) = st_num (stats ! i)"
          "\<And>i. st_config (stats' ! i) = st_config (stats ! i)"
          "\<And>i. st_nextparallel (stats' ! i) = st_nextparallel (stats ! i)"
          "\<And>i. st_prevparallel (stats' ! i) = st_prevparallel (stats ! i)"
          "\<And>i. i \<notin> set (?H1 @ ?H2) \<Longrightarrow> stats' ! i = stats ! i" by blast
      have "chain_ok stats' tail' (A @ [] @ B)"
        using u(2-8) G1 True by (intro chain_replace [OF ok]) auto
      with u(1) pv np G1 True show ?thesis by (simp add: station_remove_def Let_def)
    next
      case False
      let ?n = "hd G2"
      have n: "st_nextparallel (stats ! s) = int ?n" "cf_flow_mode (st_config (stats ! s)) = ET_STATION_PARALLEL"
        using gg(1) G1 False by (auto simp: group_ok_def dlinked_Cons)
      have nt: "?n \<in> set (tl ?g)" using G1 False by simp
      have dc: "distinct (concat ?gs)" using D(1) by simp
      have "?n \<noteq> hd y" if "y \<in> set ?gs" for y
        using head_notin_tl [OF dc _ that D(5) [OF that], of ?g] nt by auto
      moreover have "?n \<noteq> 0" using D(1) nt in_set_tlD [OF nt] by auto
      moreover have "?n \<noteq> s" using gg(2) G1 False by auto
      ultimately have nn: "?n \<notin> set (?H1 @ s # ?H2)" by auto
      have "members_ok stats (insert ?n (set (?H1 @ s # ?H2)))"
        using main(3) gm False by (simp add: members_ok_def)
      from promote_parallel_ok [OF main(1) _ main(2) this n(1) nn] obtain stats' tail' where
        u: "promote_parallel (stats, tail) s = Some (stats', tail')" "main_ok stats' tail' (?H1 @ ?n # ?H2)"
          "length stats' = length stats" "\<And>i. st_num (stats' ! i) = st_num (stats ! i)"
          "\<And>i. st_config (stats' ! i) = st_config (stats ! i)"
          "\<And>i. st_nextparallel (stats' ! i) = st_nextparallel (stats ! i)"
          "\<And>i. i \<noteq> ?n \<Longrightarrow> st_prevparallel (stats' ! i) = st_prevparallel (stats ! i)"
          "st_prevparallel (stats' ! ?n) = -1"
          "\<And>i. i \<notin> set (?H1 @ ?n # ?H2) \<Longrightarrow> stats' ! i = stats ! i" by blast
      have tls: "stats' ! i = stats ! i" if "i \<in> set (tl G2)" for i
      proof (rule u(9))
        have it: "i \<in> set (tl ?g)" using that G1 in_set_tlD by auto
        have "i \<noteq> hd y" if "y \<in> set ?gs" for y
          using head_notin_tl [OF dc _ that D(5) [OF that], of ?g] it by auto
        moreover have "i \<noteq> 0" using D(1) in_set_tlD [OF it] by auto
        moreover have "i \<noteq> ?n" using gg(2) that False by (cases G2) auto
        ultimately show "i \<notin> set (?H1 @ ?n # ?H2)" by auto
      qed
      have "dlinked (\<lambda>i. st_nextparallel (stats' ! i)) (\<lambda>i. st_prevparallel (stats' ! i)) G2 =
          dlinked (\<lambda>i. st_nextparallel (stats ! i)) (\<lambda>i. st_prevparallel (stats ! i)) G2"
        using tls by (intro dlinked_cong) (simp_all add: u(6))
      with gg(1) G1 False have "group_ok stats' G2"
        by (auto simp: group_ok_def dlinked_Cons u(5,6,8) tls dest: in_set_tlD)
      moreover have "main_ok stats' tail' (0 # map hd (A @ [G2] @ B))" using u(2) by simp
      ultimately have "chain_ok stats' tail' (A @ [G2] @ B)"
      proof (intro chain_replace [OF ok])
        have hg: "?n \<in> set ?g" using False by simp
        show "st_next (stats' ! i) = st_next (stats ! i) \<and> st_prev (stats' ! i) = st_prev (stats ! i)"
          if "i \<notin> set (0 # map hd ?gs @ ?g)" for i
        proof -
          have "i \<notin> set (?H1 @ ?n # ?H2)" using that hg by auto
          then show ?thesis by (simp add: u(9))
        qed
        show "st_nextparallel (stats' ! i) = st_nextparallel (stats ! i) \<and>
            st_prevparallel (stats' ! i) = st_prevparallel (stats ! i)" if "i \<notin> set ?g" for i
        proof -
          have "i \<noteq> ?n" using that hg by metis
          then show ?thesis by (simp add: u(6,7))
        qed
      qed (use u(3-5) G1 in auto)
      with u(1) pv n G1 False show ?thesis by (simp add: station_remove_def)
    qed
  qed
qed

section \<open>Search\<close>

lemma parallel_find_spec:
  assumes "dlinked (\<lambda>i. st_nextparallel (stats ! i)) pv (x # rest)" "st_nextparallel (stats ! last (x # rest)) = -1"
    "\<forall>i \<in> set rest. i < length stats" "length rest < fuel" "distinct rest"
  shows "(s \<notin> set rest \<longrightarrow> parallel_find fuel stats s x c = Some None) \<and>
     (\<forall>m < length rest. s = rest ! m \<longrightarrow> parallel_find fuel stats s x c = Some (Some (c + int m)))"
  using assms
proof (induction rest arbitrary: x c fuel)
  case Nil
  then obtain f where "fuel = Suc f" by (cases fuel) auto
  with Nil show ?case by simp
next
  case (Cons y rest)
  then obtain f where f: "fuel = Suc f" "length rest < f" by (cases fuel) auto
  have n: "st_nextparallel (stats ! x) = int y" "y < length stats" using Cons.prems by auto
  have IH: "(s \<notin> set rest \<longrightarrow> parallel_find f stats s y (c + 1) = Some None) \<and>
      (\<forall>m < length rest. s = rest ! m \<longrightarrow> parallel_find f stats s y (c + 1) = Some (Some (c + 1 + int m)))"
    using Cons.prems f(2) by (intro Cons.IH) auto
  show ?case
  proof (intro conjI allI impI)
    assume "s \<notin> set (y # rest)"
    with IH n f(1) show "parallel_find fuel stats s x c = Some None" by simp
  next
    fix m assume m: "m < length (y # rest)" "s = (y # rest) ! m"
    show "parallel_find fuel stats s x c = Some (Some (c + int m))"
    proof (cases m)
      case (Suc m')
      with m Cons.prems(5) have "y \<noteq> s" "m' < length rest" "s = rest ! m'" by auto
      with IH n f(1) Suc show ?thesis by simp
    qed (use m n f(1) in simp)
  qed
qed

lemma find_walk_spec:
  assumes "\<forall>g \<in> set gs. group_ok stats g" "distinct (concat gs)" "members_ok stats (set (concat gs))"
    "dlinked (\<lambda>i. st_next (stats ! i)) pv (p # map hd gs)" "k < length gs" "j < length (gs ! k)" "k < fuel"
  shows "find_walk fuel stats (gs ! k ! j) p c = Some (ET_OK, c + int k, int j)"
  using assms
proof (induction gs arbitrary: p c k fuel)
  case (Cons g gs)
  let ?s = "(g # gs) ! k ! j"
  obtain f where f: "fuel = Suc f" using Cons.prems(7) by (cases fuel) auto
  have g: "group_ok stats g" "g \<noteq> []" "distinct g" using Cons.prems(1,2) by (auto simp: group_ok_def)
  obtain x rest where gx: "g = x # rest" using g(2) by (cases g) auto
  have mem: "\<forall>i \<in> set g. i < length stats" using Cons.prems(3) by (auto simp: members_ok_def)
  then have nx: "st_next (stats ! p) = int x" "x < length stats" using Cons.prems(4) gx by (auto simp: dlinked_Cons)
  have "card (set g) \<le> card {..<length stats}" by (rule card_mono) (use mem in auto)
  then have fuel: "length rest < length stats" using g(3) gx by (simp add: distinct_card)
  have pf: "(?s \<notin> set rest \<longrightarrow> parallel_find (length stats) stats ?s x 1 = Some None) \<and>
      (\<forall>m < length rest. ?s = rest ! m \<longrightarrow> parallel_find (length stats) stats ?s x 1 = Some (Some (1 + int m)))"
    using g mem gx fuel by (intro parallel_find_spec) (auto simp: group_ok_def)
  show ?case
  proof (cases k)
    case 0
    show ?thesis
    proof (cases j)
      case 0
      with \<open>k = 0\<close> gx f nx show ?thesis by simp
    next
      case (Suc m)
      with \<open>k = 0\<close> gx Cons.prems(6) have m: "m < length rest" "?s = rest ! m" by auto
      then have "tl g \<noteq> []" "?s \<noteq> x" using gx g(3) by (auto dest: nth_mem)
      with g(1) gx have "cf_flow_mode (st_config (stats ! x)) = ET_STATION_PARALLEL" by (simp add: group_ok_def)
      with \<open>?s \<noteq> x\<close> pf m f nx Suc \<open>k = 0\<close> show ?thesis by simp
    qed
  next
    case (Suc k')
    have k': "k' < length gs" "j < length (gs ! k')" "?s = gs ! k' ! j" using Cons.prems(5,6) Suc by auto
    then have "?s \<in> set (concat gs)" by (metis concat_nth_in)
    then have ns: "?s \<notin> set g" using Cons.prems(2) by auto
    have "find_walk f stats (gs ! k' ! j) x (c + 1) = Some (ET_OK, c + 1 + int k', int j)"
      using Cons.prems f Suc k' gx by (intro Cons.IH) (auto simp: members_ok_def dlinked_Cons)
    with ns pf gx f nx Suc k'(3) show ?thesis by auto
  qed
qed simp

lemma station_find_chain:
  assumes ok: "chain_ok stats tail gs" and n: "2 \<le> nstations" and k: "k < length gs" "j < length (gs ! k)"
  shows "station_find stats nstations (gs ! k ! j) = Some (ET_OK, int k + 1, int j)"
proof -
  note D = chain_okD [OF ok]
  have "gs ! k ! j \<in> set (concat gs)" using k by (metis concat_nth_in)
  then have "gs ! k ! j \<noteq> 0" using D(1) by (metis distinct.simps(2))
  moreover have "length gs \<le> length stats"
  proof -
    have "card (set (0 # map hd gs)) \<le> card {..<length stats}"
      using D(2,7) by (intro card_mono) (auto simp: members_ok_def)
    then show ?thesis using distinct_card [OF D(8)] by simp
  qed
  ultimately show ?thesis
    using find_walk_spec [of gs stats "\<lambda>i. st_prev (stats ! i)" 0 k j "length stats" 1] D(1-4) n k
    by (simp add: station_find_def main_ok_def members_ok_def)
qed

section \<open>Properties\<close>

text \<open>Concrete chains: \<open>n\<close> stations of which the first \<open>m\<close> are in the main list, all serial.\<close>

definition sample_stats :: "nat \<Rightarrow> nat \<Rightarrow> et_station list" where
  "sample_stats n m = map (\<lambda>i. sample_station\<lparr>st_num := int i,
     st_next := (if Suc i < m then int i + 1 else -1), st_prev := (if i < m then int i - 1 else -1)\<rparr>) [0..<n]"

lemma sample_station_links [simp]:
  "st_nextparallel sample_station = -1" "st_prevparallel sample_station = -1"
  "cf_flow_mode (st_config sample_station) = ET_STATION_SERIAL" "st_next sample_station = -1"
  by (simp_all add: sample_station_def et_init_station_def)

lemma sample_stats_nth [simp]:
  "i < n \<Longrightarrow> sample_stats n m ! i = sample_station\<lparr>st_num := int i,
     st_next := (if Suc i < m then int i + 1 else -1), st_prev := (if i < m then int i - 1 else -1)\<rparr>"
  by (simp add: sample_stats_def)

lemma sample_stats_length [simp]: "length (sample_stats n m) = n"
  by (simp add: sample_stats_def)

lemma sample_chain: "chain_ok (sample_stats 4 3) 2 [[1], [2]]" "fresh_station (sample_stats 4 3) 3"
  by (simp_all add: chain_ok_def members_ok_def main_ok_def group_ok_def fresh_station_def)

text \<open>
  C15. \<open>station_insert\<close> on a well-formed chain inserts a new station at the place its arguments
  name: at the end of the main list when \<open>position\<close> is \<open>ET_END\<close> or beyond the end, otherwise before
  the group at \<open>position\<close>, or inside that group at \<open>parallelposition\<close> when both are parallel and no
  new head is wanted; it refuses exactly an incompatible station or the place of an existing head,
  and then leaves the chain as it was. The result is well formed, and the walks always end.
\<close>

theorem station_insert_refines:
  assumes "chain_ok stats tail gs" "fresh_station stats s" "s \<notin> set (0 # concat gs)"
    "nstations = int (length (concat gs)) + 2"
  shows "case insert_group stats gs s position pp of
     None \<Rightarrow> station_insert (length stats) nstations (stats, tail) s position pp = Some (ET_ERROR, (stats, tail))
   | Some gs' \<Rightarrow> \<exists>stats' tail'. station_insert (length stats) nstations (stats, tail) s position pp =
       Some (ET_OK, (stats', tail')) \<and> chain_ok stats' tail' gs'"
  by (rule station_insert_chain [OF assms])

theorem station_insert_refines_witness:
  "\<exists>stats' tail'. station_insert 4 4 (sample_stats 4 3, 2) 3 2 ET_END = Some (ET_OK, (stats', tail')) \<and>
     chain_ok stats' tail' [[1], [3], [2]]"
proof -
  have "insert_group (sample_stats 4 3) [[1], [2]] 3 2 ET_END = Some [[1], [3], [2]]"
    by (simp add: insert_group_def)
  with station_insert_refines [OF sample_chain, of 4 2 ET_END] show ?thesis by simp
qed

text \<open>
  C16. \<open>station_remove\<close> takes a station out of a well-formed chain: a station that is alone leaves
  the main list, the head of a parallel group hands its place in the main list to the next member,
  and any other member leaves its group; everything else keeps its place and the tail is right.
\<close>

theorem station_remove_refines:
  assumes "chain_ok stats tail (A @ (G1 @ s # G2) # B)"
  shows "\<exists>stats' tail'. station_remove (stats, tail) s = Some (stats', tail') \<and>
     chain_ok stats' tail' (A @ (if G1 @ G2 = [] then [] else [G1 @ G2]) @ B)"
  by (rule station_remove_chain [OF assms])

theorem station_remove_refines_witness:
  "\<exists>stats' tail'. station_remove (sample_stats 4 3, 2) 1 = Some (stats', tail') \<and> chain_ok stats' tail' [[2]]"
  using station_remove_refines [of "sample_stats 4 3" 2 "[]" "[]" 1 "[]" "[[2]]"] sample_chain by simp

text \<open>
  \<open>station_find\<close> returns the position of every station of a well-formed chain: the number of
  its group, counted from GrandCentral at 0, and its place within the group.
\<close>

lemma station_find_position:
  assumes "chain_ok stats tail gs" "2 \<le> nstations" "k < length gs" "j < length (gs ! k)"
  shows "station_find stats nstations (gs ! k ! j) = Some (ET_OK, int k + 1, int j)"
  by (rule station_find_chain [OF assms])

end
