(* ===== verification/ET_StationGetSet.thy ===== *)
theory ET_StationGetSet
  imports ET_StationIO ET_Chain
begin

text \<open>
  Queries about stations and changes of a station's configuration while the system runs
  (src/libsrc/et\_station.c, \<open>et_station_isattached\<close> to \<open>et_station_getfunction\<close>).

  Every call first decides where it runs. For a remote user the result is that of the network
  request (\<open>etr_\<close> functions), a parameter of the definitions. A local call answers
  \<open>ET_ERROR_DEAD\<close> when the system's heartbeat stopped and \<open>ET_ERROR_CLOSED\<close> after \<open>et_close\<close>; it
  holds the read lock of the shared memory and, where it writes, the station mutex, so each call
  is one step. A query returns its code and the value it stores through the caller's pointer.
\<close>

type_synonym 'a answer = "(int \<times> 'a option) option"

definition nstations_max :: "et_id \<Rightarrow> int" where
  "nstations_max eid = sc_nstations (sy_config (id_sys eid))"

definition local_guard :: "et_id \<Rightarrow> (int \<Rightarrow> 'r) \<Rightarrow> 'r \<Rightarrow> 'r" where
  "local_guard eid fail body =
     (if \<not> id_alive eid then fail ET_ERROR_DEAD
      else if id_closed eid then fail ET_ERROR_CLOSED
      else body)"

definition get_station ::
  "(et_id \<Rightarrow> int \<Rightarrow> int \<times> 'a option) \<Rightarrow> et_id \<Rightarrow> int \<Rightarrow> (et_station \<Rightarrow> 'a answer) \<Rightarrow> 'a answer" where
  "get_station etr eid stat_id f =
     (if id_locality eid = ET_REMOTE then Some (etr eid stat_id)
      else local_guard eid (\<lambda>e. Some (e, None))
        (if stat_id < 0 \<or> stat_id \<ge> nstations_max eid then Some (ET_ERROR, None)
         else case stat_ix (id_stats eid) stat_id of
                None \<Rightarrow> None
              | Some s \<Rightarrow> f (id_stats eid ! s)))"

definition unless_unused :: "(et_station \<Rightarrow> 'a) \<Rightarrow> et_station \<Rightarrow> 'a answer" where
  "unless_unused f ps =
     (if sd_status (st_data ps) = ET_STATION_UNUSED then Some (ET_ERROR, None) else Some (ET_OK, Some (f ps)))"

definition et_station_getattachments :: "(et_id \<Rightarrow> int \<Rightarrow> int \<times> int option) \<Rightarrow> et_id \<Rightarrow> int \<Rightarrow> int answer" where
  "et_station_getattachments etr eid stat_id =
     get_station etr eid stat_id (unless_unused (\<lambda>ps. sd_nattachments (st_data ps)))"

definition et_station_getstatus :: "(et_id \<Rightarrow> int \<Rightarrow> int \<times> int option) \<Rightarrow> et_id \<Rightarrow> int \<Rightarrow> int answer" where
  "et_station_getstatus etr eid stat_id =
     get_station etr eid stat_id (\<lambda>ps. Some (ET_OK, Some (sd_status (st_data ps))))"

definition et_station_getinputcount :: "(et_id \<Rightarrow> int \<Rightarrow> int \<times> int option) \<Rightarrow> et_id \<Rightarrow> int \<Rightarrow> int answer" where
  "et_station_getinputcount etr eid stat_id =
     get_station etr eid stat_id (\<lambda>ps. Some (ET_OK, Some (l_cnt (st_list_in ps))))"

definition et_station_getinputcount_rt :: "(et_id \<Rightarrow> int \<Rightarrow> int \<times> int option) \<Rightarrow> et_id \<Rightarrow> int \<Rightarrow> int answer" where
  "et_station_getinputcount_rt etr eid stat_id =
     get_station etr eid stat_id
       (\<lambda>ps. if l_mutex (st_list_in ps) then None else Some (ET_OK, Some (l_cnt (st_list_in ps))))"

definition et_station_getoutputcount :: "(et_id \<Rightarrow> int \<Rightarrow> int \<times> int option) \<Rightarrow> et_id \<Rightarrow> int \<Rightarrow> int answer" where
  "et_station_getoutputcount etr eid stat_id =
     get_station etr eid stat_id (\<lambda>ps. Some (ET_OK, Some (l_cnt (st_list_out ps))))"

definition et_station_getblock :: "(et_id \<Rightarrow> int \<Rightarrow> int \<times> int option) \<Rightarrow> et_id \<Rightarrow> int \<Rightarrow> int answer" where
  "et_station_getblock etr eid stat_id =
     get_station etr eid stat_id (unless_unused (\<lambda>ps. cf_block_mode (st_config ps)))"

definition et_station_getuser :: "(et_id \<Rightarrow> int \<Rightarrow> int \<times> int option) \<Rightarrow> et_id \<Rightarrow> int \<Rightarrow> int answer" where
  "et_station_getuser etr eid stat_id =
     get_station etr eid stat_id (unless_unused (\<lambda>ps. cf_user_mode (st_config ps)))"

definition et_station_getrestore :: "(et_id \<Rightarrow> int \<Rightarrow> int \<times> int option) \<Rightarrow> et_id \<Rightarrow> int \<Rightarrow> int answer" where
  "et_station_getrestore etr eid stat_id =
     get_station etr eid stat_id (unless_unused (\<lambda>ps. cf_restore_mode (st_config ps)))"

definition et_station_getprescale :: "(et_id \<Rightarrow> int \<Rightarrow> int \<times> int option) \<Rightarrow> et_id \<Rightarrow> int \<Rightarrow> int answer" where
  "et_station_getprescale etr eid stat_id =
     get_station etr eid stat_id (unless_unused (\<lambda>ps. cf_prescale (st_config ps)))"

definition et_station_getcue :: "(et_id \<Rightarrow> int \<Rightarrow> int \<times> int option) \<Rightarrow> et_id \<Rightarrow> int \<Rightarrow> int answer" where
  "et_station_getcue etr eid stat_id =
     get_station etr eid stat_id (unless_unused (\<lambda>ps. cf_cue (st_config ps)))"

definition et_station_getselectwords ::
  "(et_id \<Rightarrow> int \<Rightarrow> int \<times> int list option) \<Rightarrow> et_id \<Rightarrow> int \<Rightarrow> int list answer" where
  "et_station_getselectwords etr eid stat_id =
     get_station etr eid stat_id (unless_unused (\<lambda>ps. take ET_STATION_SELECT_INTS (cf_select (st_config ps))))"

definition et_station_getselect :: "(et_id \<Rightarrow> int \<Rightarrow> int \<times> int option) \<Rightarrow> et_id \<Rightarrow> int \<Rightarrow> int answer" where
  "et_station_getselect etr eid stat_id =
     get_station etr eid stat_id (unless_unused (\<lambda>ps. cf_select_mode (st_config ps)))"

definition if_user :: "(et_station \<Rightarrow> 'a) \<Rightarrow> et_station \<Rightarrow> 'a answer" where
  "if_user f ps =
     (if sd_status (st_data ps) = ET_STATION_UNUSED then Some (ET_ERROR, None)
      else if cf_select_mode (st_config ps) \<noteq> ET_STATION_SELECT_USER then Some (ET_ERROR, None)
      else Some (ET_OK, Some (f ps)))"

definition et_station_getlib :: "(et_id \<Rightarrow> int \<Rightarrow> int \<times> string option) \<Rightarrow> et_id \<Rightarrow> int \<Rightarrow> string answer" where
  "et_station_getlib etr eid stat_id =
     (if id_lang eid = ET_LANG_JAVA then Some (ET_ERROR, None)
      else get_station etr eid stat_id (if_user (\<lambda>ps. cf_lib (st_config ps))))"

definition et_station_getclass :: "(et_id \<Rightarrow> int \<Rightarrow> int \<times> string option) \<Rightarrow> et_id \<Rightarrow> int \<Rightarrow> string answer" where
  "et_station_getclass etr eid stat_id =
     (if id_lang eid \<noteq> ET_LANG_JAVA then Some (ET_ERROR, None)
      else get_station etr eid stat_id (if_user (\<lambda>ps. cf_classs (st_config ps))))"

definition et_station_getfunction :: "(et_id \<Rightarrow> int \<Rightarrow> int \<times> string option) \<Rightarrow> et_id \<Rightarrow> int \<Rightarrow> string answer" where
  "et_station_getfunction etr eid stat_id =
     (if id_lang eid = ET_LANG_JAVA then Some (ET_ERROR, None)
      else get_station etr eid stat_id (if_user (\<lambda>ps. cf_fname (st_config ps))))"

section \<open>Attachments and names\<close>

definition et_station_isattached :: "(et_id \<Rightarrow> int \<Rightarrow> int \<Rightarrow> int) \<Rightarrow> et_id \<Rightarrow> int \<Rightarrow> int \<Rightarrow> int option" where
  "et_station_isattached etr eid stat_id att =
     (if id_locality eid = ET_REMOTE then Some (etr eid stat_id att)
      else local_guard eid Some
        (if stat_id < 0 \<or> stat_id \<ge> nstations_max eid then Some ET_ERROR
         else if att < 0 \<or> att \<ge> sc_nattachments (sy_config (id_sys eid)) then Some ET_ERROR
         else case stat_ix (id_stats eid) stat_id of
                None \<Rightarrow> None
              | Some s \<Rightarrow>
                  if \<not> nat att < length (sd_att (st_data (id_stats eid ! s))) then None
                  else Some (if sd_att (st_data (id_stats eid ! s)) ! nat att = att then 1 else 0)))"

fun find_name :: "et_station list \<Rightarrow> string \<Rightarrow> nat \<Rightarrow> nat option" where
  "find_name [] stat_name num = None"
| "find_name (ps # stats) stat_name num =
     (if sd_status (st_data ps) \<noteq> ET_STATION_UNUSED \<and> st_name ps = stat_name then Some num
      else find_name stats stat_name (Suc num))"

definition et_station_exists ::
  "(et_id \<Rightarrow> string \<Rightarrow> int \<times> nat option) \<Rightarrow> et_id \<Rightarrow> string option \<Rightarrow> int \<times> nat option" where
  "et_station_exists etr eid stat_name =
     (case stat_name of
        None \<Rightarrow> (ET_ERROR_BADARG, None)
      | Some name \<Rightarrow>
          if id_locality eid = ET_REMOTE then etr eid name
          else local_guard eid (\<lambda>e. (e, None))
            (case find_name (take (nat (nstations_max eid)) (id_stats eid)) name 0 of
               None \<Rightarrow> (0, None)
             | Some n \<Rightarrow> (1, Some n)))"

definition et_station_name_to_id ::
  "(et_id \<Rightarrow> string \<Rightarrow> int \<times> nat option) \<Rightarrow> et_id \<Rightarrow> string option \<Rightarrow> int \<times> nat option" where
  "et_station_name_to_id etr eid stat_name =
     (let (status, stat_id) = et_station_exists etr eid stat_name in
      if status < 0 then (status, stat_id)
      else if status = 1 then (ET_OK, stat_id)
      else (ET_ERROR, stat_id))"

section \<open>Changing a station's configuration\<close>

text \<open>
  GrandCentral's configuration is fixed. The value is checked before and, where it depends on the
  station, after the station is located; the list mutex is needed for what conductors read.
\<close>

definition set_station ::
  "(et_id \<Rightarrow> int \<Rightarrow> int \<times> et_id) \<Rightarrow> bool \<Rightarrow> bool \<Rightarrow> et_id \<Rightarrow> int \<Rightarrow>
     (et_station \<Rightarrow> bool) \<Rightarrow> (et_stat_config \<Rightarrow> et_stat_config) \<Rightarrow> (int \<times> et_id) option" where
  "set_station etr legal locks eid stat_id allowed upd =
     (if stat_id = ET_GRANDCENTRAL then Some (ET_ERROR, eid)
      else if \<not> legal then Some (ET_ERROR, eid)
      else if id_locality eid \<noteq> ET_LOCAL then Some (etr eid stat_id)
      else local_guard eid (\<lambda>e. Some (e, eid))
        (if stat_id < 0 \<or> stat_id \<ge> nstations_max eid then Some (ET_ERROR, eid)
         else case stat_ix (id_stats eid) stat_id of
                None \<Rightarrow> None
              | Some s \<Rightarrow>
                  if \<not> allowed (id_stats eid ! s) then Some (ET_ERROR, eid)
                  else if locks \<and> l_mutex (st_list_in (id_stats eid ! s)) then None
                  else Some (ET_OK, upd_stat eid s (\<lambda>ps. ps\<lparr>st_config := upd (st_config ps)\<rparr>))))"

definition shares_out :: "et_station \<Rightarrow> bool" where
  "shares_out ps \<longleftrightarrow> cf_select_mode (st_config ps) = ET_STATION_SELECT_RROBIN \<or>
     cf_select_mode (st_config ps) = ET_STATION_SELECT_EQUALCUE"

definition et_station_setblock ::
  "(et_id \<Rightarrow> int \<Rightarrow> int \<Rightarrow> int \<times> et_id) \<Rightarrow> et_id \<Rightarrow> int \<Rightarrow> int \<Rightarrow> (int \<times> et_id) option" where
  "et_station_setblock etr eid stat_id block =
     set_station (\<lambda>i s. etr i s block) (block = ET_STATION_BLOCKING \<or> block = ET_STATION_NONBLOCKING) False eid stat_id
       (\<lambda>ps. \<not> (shares_out ps \<and> block = ET_STATION_NONBLOCKING)) (\<lambda>c. c\<lparr>cf_block_mode := block\<rparr>)"

definition et_station_setuser ::
  "(et_id \<Rightarrow> int \<Rightarrow> int \<Rightarrow> int \<times> et_id) \<Rightarrow> et_id \<Rightarrow> int \<Rightarrow> int \<Rightarrow> (int \<times> et_id) option" where
  "et_station_setuser etr eid stat_id user =
     set_station (\<lambda>i s. etr i s user) (\<not> user < 0) False eid stat_id (\<lambda>ps. True) (\<lambda>c. c\<lparr>cf_user_mode := user\<rparr>)"

definition et_station_setrestore ::
  "(et_id \<Rightarrow> int \<Rightarrow> int \<Rightarrow> int \<times> et_id) \<Rightarrow> et_id \<Rightarrow> int \<Rightarrow> int \<Rightarrow> (int \<times> et_id) option" where
  "et_station_setrestore etr eid stat_id restore =
     set_station (\<lambda>i s. etr i s restore)
       (restore = ET_STATION_RESTORE_OUT \<or> restore = ET_STATION_RESTORE_IN \<or> restore = ET_STATION_RESTORE_GC) False eid stat_id
       (\<lambda>ps. \<not> (shares_out ps \<and> restore = ET_STATION_RESTORE_IN)) (\<lambda>c. c\<lparr>cf_restore_mode := restore\<rparr>)"

definition et_station_setprescale ::
  "(et_id \<Rightarrow> int \<Rightarrow> int \<Rightarrow> int \<times> et_id) \<Rightarrow> et_id \<Rightarrow> int \<Rightarrow> int \<Rightarrow> (int \<times> et_id) option" where
  "et_station_setprescale etr eid stat_id prescale =
     set_station (\<lambda>i s. etr i s prescale) (\<not> prescale < 1) True eid stat_id
       (\<lambda>ps. \<not> (shares_out ps \<and> prescale \<noteq> 1)) (\<lambda>c. c\<lparr>cf_prescale := prescale\<rparr>)"

definition et_station_setcue ::
  "(et_id \<Rightarrow> int \<Rightarrow> int \<Rightarrow> int \<times> et_id) \<Rightarrow> et_id \<Rightarrow> int \<Rightarrow> int \<Rightarrow> (int \<times> et_id) option" where
  "et_station_setcue etr eid stat_id cue =
     set_station (\<lambda>i s. etr i s cue) True True eid stat_id
       (\<lambda>ps. \<not> (cue < 1 \<or> cue > nevents_max eid)) (\<lambda>c. c\<lparr>cf_cue := cue\<rparr>)"

definition et_station_setselectwords ::
  "(et_id \<Rightarrow> int \<Rightarrow> int list \<Rightarrow> int \<times> et_id) \<Rightarrow> et_id \<Rightarrow> int \<Rightarrow> int list \<Rightarrow> (int \<times> et_id) option" where
  "et_station_setselectwords etr eid stat_id select =
     set_station (\<lambda>i s. etr i s select) True True eid stat_id (\<lambda>ps. True)
       (\<lambda>c. c\<lparr>cf_select := take ET_STATION_SELECT_INTS select\<rparr>)"

end
