(* ===== verification/ET_StationRead.thy ===== *)
theory ET_StationRead
  imports ET_StationIO
begin

text \<open>
  Reading events from a station's input list (src/libsrc/et\_readwrite.c: \<open>et_station_read\<close>,
  \<open>et_station_nread\<close>, \<open>et_station_nread_group\<close>) in the modes \<open>ET_SLEEP\<close>, \<open>ET_TIMED\<close> and
  \<open>ET_ASYNC\<close>.

  A wake-up is the status that \<open>pthread_cond_wait\<close> or \<open>pthread_cond_timedwait\<close> returns together
  with what the other threads did to the shared state meanwhile. The wait itself releases the
  list's mutex and takes it again.
\<close>

type_synonym wake = "int \<times> (et_id \<Rightarrow> et_id)"

abbreviation (input) "ETIMEDOUT \<equiv> (110::int)"

definition in_list :: "et_id \<Rightarrow> nat \<Rightarrow> et_list" where
  "in_list eid s = st_list_in (id_stats eid ! s)"

definition set_in_mutex :: "et_id \<Rightarrow> nat \<Rightarrow> bool \<Rightarrow> et_id" where
  "set_in_mutex eid s b =
     upd_stat eid s (\<lambda>ps. ps\<lparr>st_list_in := (st_list_in ps)\<lparr>l_mutex := b\<rparr>\<rparr>)"

definition set_blocked :: "et_id \<Rightarrow> nat \<Rightarrow> int \<Rightarrow> et_id" where
  "set_blocked eid a v = upd_att eid a (\<lambda>at. at\<lparr>at_blocked := v\<rparr>)"

definition set_quit :: "et_id \<Rightarrow> nat \<Rightarrow> int \<Rightarrow> et_id" where
  "set_quit eid a v = upd_att eid a (\<lambda>at. at\<lparr>at_quit := v\<rparr>)"

definition att_quit :: "et_id \<Rightarrow> nat \<Rightarrow> int" where
  "att_quit eid a = at_quit (sy_attach (id_sys eid) ! a)"

fun wait_scan ::
  "bool \<Rightarrow> nat \<Rightarrow> nat \<Rightarrow> et_id \<Rightarrow> wake list \<Rightarrow> bool \<Rightarrow> (int \<times> et_id \<times> wake list) option" where
  "wait_scan timed s a eid [] scanList =
     (if l_cnt (in_list eid s) < 1 \<or> \<not> scanList then None else Some (ET_OK, eid, []))"
| "wait_scan timed s a eid ((status, others) # ws) scanList =
     (if l_cnt (in_list eid s) < 1 \<or> \<not> scanList then
        let eid0 = others (set_in_mutex (set_blocked eid a ET_ATT_BLOCKED) s False);
            eid1 = set_blocked (set_in_mutex eid0 s True) a ET_ATT_UNBLOCKED
        in if timed \<and> status = ETIMEDOUT then
             Some (ET_ERROR_TIMEOUT, set_in_mutex eid1 s False, ws)
           else if status \<noteq> 0 then
             (if timed then Some (ET_ERROR, eid1, ws) else None)
           else if att_quit eid1 a = ET_ATT_QUIT then
             Some (ET_ERROR_WAKEUP, set_quit (set_in_mutex eid1 s False) a ET_ATT_CONTINUE, ws)
           else wait_scan timed s a eid1 ws True
      else Some (ET_OK, eid, (status, others) # ws))"

definition histogram_bump :: "et_id \<Rightarrow> nat \<Rightarrow> et_id option" where
  "histogram_bump eid s =
     (if s = 0 then
        let c = l_cnt (in_list eid s) in
        if 0 \<le> c \<and> nat c < length (id_histogram eid) then
          Some (eid\<lparr>id_histogram := (id_histogram eid)[nat c := id_histogram eid ! nat c + 1]\<rparr>)
        else None
      else Some eid)"

definition read_acquire ::
  "et_id \<Rightarrow> nat \<Rightarrow> int \<Rightarrow> nat \<Rightarrow> wake list \<Rightarrow> bool \<Rightarrow> (int \<times> et_id \<times> wake list) option" where
  "read_acquire eid s mode a ws scanList =
     (if mode = ET_SLEEP \<or> mode = ET_TIMED then
        if l_mutex (in_list eid s) then None
        else case (if scanList then histogram_bump (set_in_mutex eid s True) s
                   else Some (set_in_mutex eid s True)) of
               None \<Rightarrow> None
             | Some eid1 \<Rightarrow> wait_scan (mode = ET_TIMED) s a eid1 ws scanList
      else if mode = ET_ASYNC then
        if l_mutex (in_list eid s) then Some (ET_ERROR_BUSY, eid, ws)
        else if att_quit eid a = ET_ATT_QUIT then
          Some (ET_ERROR_WAKEUP, set_quit eid a ET_ATT_CONTINUE, ws)
        else case histogram_bump (set_in_mutex eid s True) s of
               None \<Rightarrow> None
             | Some eid1 \<Rightarrow>
                 if l_cnt (in_list eid1 s) < 1 then
                   Some (ET_ERROR_EMPTY, set_in_mutex eid1 s False, ws)
                 else Some (ET_OK, eid1, ws)
      else Some (ET_ERROR, eid, ws))"

fun set_owners :: "evheap \<Rightarrow> nat list \<Rightarrow> int \<Rightarrow> evheap" where
  "set_owners ev [] att = ev"
| "set_owners ev (e # es) att = set_owners (set_owner ev e att) es att"

definition station_read_core ::
  "int \<Rightarrow> evheap \<Rightarrow> et_station \<Rightarrow> (nat list \<times> evheap \<times> et_station) option" where
  "station_read_core att ev ps =
     (let pl = st_list_in ps; ps0 = fix_in_read ps pl 1 in
      case l_firstevent pl of
        None \<Rightarrow> None
      | Some e \<Rightarrow>
          let pl1 = pl\<lparr>l_firstevent := ev_next (ev e)\<rparr>;
              ev1 = set_owner ev e att;
              pl2 = pl1\<lparr>l_cnt := l_cnt pl1 - 1\<rparr>
          in Some ([e], ev1, (fix_in_read_done ps0)\<lparr>st_list_in := et_llist_unlock pl2\<rparr>))"

definition station_nread_core ::
  "int \<Rightarrow> int \<Rightarrow> evheap \<Rightarrow> et_station \<Rightarrow> (nat list \<times> evheap \<times> et_station) option" where
  "station_nread_core num0 att ev ps =
     (let pl = st_list_in ps;
          num = (if num0 > l_cnt pl then l_cnt pl else num0);
          ps0 = fix_in_read ps pl num in
      case follow ev (nat num) (l_firstevent pl) of
        None \<Rightarrow> None
      | Some pe \<Rightarrow>
          if pe = [] then None
          else
            let ev1 = set_owners ev pe att;
                pl1 = pl\<lparr>l_firstevent := ev_next (ev1 (last pe)), l_cnt := l_cnt pl - num\<rparr>
            in Some (pe, ev1, (fix_in_read_done ps0)\<lparr>st_list_in := et_llist_unlock pl1\<rparr>))"

definition read_body ::
  "et_id \<Rightarrow> nat \<Rightarrow> (evheap \<Rightarrow> et_station \<Rightarrow> (nat list \<times> evheap \<times> et_station) option)
     \<Rightarrow> (int \<times> nat list \<times> et_id) option" where
  "read_body eid s core =
     (case core (id_events eid) (id_stats eid ! s) of
        None \<Rightarrow> None
      | Some (pe, ev, ps) \<Rightarrow>
          Some (ET_OK, pe, eid\<lparr>id_stats := (id_stats eid)[s := ps], id_events := ev\<rparr>))"

definition et_station_read ::
  "et_id \<Rightarrow> nat \<Rightarrow> int \<Rightarrow> nat \<Rightarrow> wake list \<Rightarrow> (int \<times> nat list \<times> et_id) option" where
  "et_station_read eid stat_id mode att ws =
     (if \<not> stat_id < length (id_stats eid) then None
      else case read_acquire eid stat_id mode att ws True of
             None \<Rightarrow> None
           | Some (r, eid1, ws1) \<Rightarrow>
               if r \<noteq> ET_OK then Some (r, [], eid1)
               else read_body eid1 stat_id (station_read_core (int att)))"

definition et_station_nread ::
  "et_id \<Rightarrow> nat \<Rightarrow> int \<Rightarrow> nat \<Rightarrow> wake list \<Rightarrow> int \<Rightarrow> (int \<times> nat list \<times> et_id) option" where
  "et_station_nread eid stat_id mode att ws num =
     (if num < 1 then Some (ET_OK, [], eid)
      else if \<not> stat_id < length (id_stats eid) then None
      else case read_acquire eid stat_id mode att ws True of
             None \<Rightarrow> None
           | Some (r, eid1, ws1) \<Rightarrow>
               if r \<noteq> ET_OK then Some (r, [], eid1)
               else read_body eid1 stat_id (station_nread_core num (int att)))"

fun group_scan ::
  "evheap \<Rightarrow> et_list \<Rightarrow> evptr \<Rightarrow> evptr \<Rightarrow> nat \<Rightarrow> int \<Rightarrow> int \<Rightarrow> int \<Rightarrow> nat list
     \<Rightarrow> (nat list \<times> evheap \<times> et_list) option" where
  "group_scan ev pl prev pev 0 num grp att pe = Some (pe, ev, pl)"
| "group_scan ev pl prev None (Suc n) num grp att pe = None"
| "group_scan ev pl prev (Some i) (Suc n) num grp att pe =
     (if ev_group (ev i) \<noteq> grp then
        group_scan ev pl (Some i) (ev_next (ev i)) n num grp att pe
      else
        let ev1 = set_owner ev i att;
            (ev2, pl1) = (case prev of
                            None \<Rightarrow> (ev1, pl\<lparr>l_firstevent := ev_next (ev1 i)\<rparr>)
                          | Some p \<Rightarrow> (set_next ev1 p (ev_next (ev1 i)), pl));
            pl2 = (if l_lastevent pl1 = Some i then pl1\<lparr>l_lastevent := prev\<rparr> else pl1)
        in if int (length (pe @ [i])) \<ge> num then Some (pe @ [i], ev2, pl2)
           else group_scan ev2 pl2 prev (ev_next (ev2 i)) n num grp att (pe @ [i]))"

definition station_nread_group_core ::
  "int \<Rightarrow> int \<Rightarrow> int \<Rightarrow> evheap \<Rightarrow> et_station \<Rightarrow> (nat list \<times> evheap \<times> et_station) option" where
  "station_nread_group_core num grp att ev ps =
     (let pl = st_list_in ps;
          ps0 = fix_in_read ps pl num in
      case group_scan ev pl None (l_firstevent pl) (nat (l_cnt pl)) num grp att [] of
        None \<Rightarrow> None
      | Some (pe, ev1, pl1) \<Rightarrow>
          Some (pe, ev1, (fix_in_read_done ps0)\<lparr>st_list_in :=
            et_llist_unlock (pl1\<lparr>l_cnt := l_cnt pl1 - int (length pe)\<rparr>)\<rparr>))"

lemma wait_scan_shorter:
  "wait_scan timed s a eid ws scanList = Some (r, eid', ws') \<Longrightarrow>
     length ws' \<le> length ws \<and> (\<not> scanList \<longrightarrow> length ws' < length ws)"
proof (induction timed s a eid ws scanList arbitrary: r eid' ws' rule: wait_scan.induct)
  case (2 timed s a eid status others ws scanList)
  then show ?case by (fastforce simp: Let_def split: if_splits)
qed (auto split: if_splits)

lemma read_acquire_shorter:
  assumes "read_acquire eid s mode a ws scanList = Some (r, eid', ws')" "mode \<noteq> ET_ASYNC" "r = ET_OK"
  shows "length ws' \<le> length ws \<and> (\<not> scanList \<longrightarrow> length ws' < length ws)"
  using assms by (auto simp: read_acquire_def split: if_splits option.splits dest!: wait_scan_shorter)

function nread_group_loop ::
  "et_id \<Rightarrow> nat \<Rightarrow> int \<Rightarrow> nat \<Rightarrow> wake list \<Rightarrow> int \<Rightarrow> int \<Rightarrow> bool \<Rightarrow> (int \<times> nat list \<times> et_id) option" where
  "nread_group_loop eid s mode att ws num grp scanList =
     (case read_acquire eid s mode att ws scanList of
        None \<Rightarrow> None
      | Some (r, eid1, ws1) \<Rightarrow>
          if r \<noteq> ET_OK then Some (r, [], eid1)
          else
            let num' = (if num > l_cnt (in_list eid1 s) then l_cnt (in_list eid1 s) else num) in
            case read_body eid1 s (station_nread_group_core num' grp (int att)) of
              None \<Rightarrow> None
            | Some (r2, pe, eid2) \<Rightarrow>
                if pe = [] \<and> mode \<noteq> ET_ASYNC then nread_group_loop eid2 s mode att ws1 num' grp False
                else Some (ET_OK, pe, eid2))"
  by pat_completeness auto
termination
  by (relation "measure (\<lambda>(eid, s, mode, att, ws, num, group, scanList).
        2 * length ws + (if scanList then 1 else 0))")
    (force dest!: read_acquire_shorter)+

declare nread_group_loop.simps [simp del]

definition et_station_nread_group ::
  "et_id \<Rightarrow> nat \<Rightarrow> int \<Rightarrow> nat \<Rightarrow> wake list \<Rightarrow> int \<Rightarrow> int \<Rightarrow> (int \<times> nat list \<times> et_id) option" where
  "et_station_nread_group eid stat_id mode att ws num grp =
     (if num < 1 then Some (ET_OK, [], eid)
      else if \<not> stat_id < length (id_stats eid) then None
      else nread_group_loop eid stat_id mode att ws num grp True)"

section \<open>What the readers take\<close>

lemma set_owners_fields [simp]:
  "ev_next (set_owners ev es a i) = ev_next (ev i)"
  "ev_priority (set_owners ev es a i) = ev_priority (ev i)"
  "ev_group (set_owners ev es a i) = ev_group (ev i)"
  "ev_owner (set_owners ev es a i) = (if i \<in> set es then a else ev_owner (ev i))"
  by (induction es arbitrary: ev) auto

lemma linked_set_owners [simp]: "linked (set_owners ev es a) xs = linked ev xs"
  by (rule linked_cong) simp

lemma link_only_set_owners: "set es \<subseteq> S \<Longrightarrow> link_only S ev (set_owners ev es a)"
proof (induction es arbitrary: ev)
  case (Cons e es)
  then have "link_only S ev (set_owner ev e a)" by (intro link_only_set_owner) auto
  with Cons show ?case by (auto intro: link_only_trans)
qed simp

definition fix_in_read_after :: "et_station \<Rightarrow> int \<Rightarrow> int \<Rightarrow> et_station" where
  "fix_in_read_after ps cnt num = ps\<lparr>st_fix := (st_fix ps)\<lparr>fix_in := (fix_in (st_fix ps))\<lparr>
     fi_cnt := cnt, fi_num := num, fi_call := ET_FIX_READ, fi_first := None\<rparr>\<rparr>\<rparr>"

lemma fix_in_read_done_read [simp]:
  "fix_in_read_done (fix_in_read ps pl num) = fix_in_read_after ps (l_cnt pl) num"
  by (simp add: fix_in_read_done_def fix_in_read_def fix_in_read_after_def)

lemma list_ok_drop:
  assumes "list_ok ev pl xs" "0 < k" "k \<le> length xs"
  shows "list_ok ev (pl\<lparr>l_firstevent := ev_next (ev (last (take k xs))), l_cnt := int (length xs - k)\<rparr>)
     (drop k xs)"
proof -
  have lk: "linked ev (take k xs @ drop k xs)" and d: "distinct xs" using assms(1) by (auto simp: list_ok_def)
  have "take k xs \<noteq> []" using assms(2,3) by auto
  with lk have "drop k xs \<noteq> [] \<longrightarrow> ev_next (ev (last (take k xs))) = Some (hd (drop k xs))"
    unfolding linked_append by blast
  with lk d assms(1) show ?thesis
    by (auto simp: list_ok_def linked_append simp del: append_take_drop_id)
qed

lemma station_nread_core_ok:
  assumes ok: "list_ok ev (st_list_in ps) xs" "xs \<noteq> []" and num: "1 \<le> num"
  defines "k \<equiv> min (nat num) (length xs)"
  shows "\<exists>ps'. station_nread_core num att ev ps = Some (take k xs, set_owners ev (take k xs) att, ps') \<and>
     list_ok (set_owners ev (take k xs) att) (st_list_in ps') (drop k xs) \<and>
     \<not> l_mutex (st_list_in ps') \<and>
     ps' = (fix_in_read_after ps (int (length xs)) (int k))\<lparr>st_list_in := st_list_in ps'\<rparr>"
proof -
  have cnt: "l_cnt (st_list_in ps) = int (length xs)" using ok by (simp add: list_ok_def)
  have k: "0 < k" "k \<le> length xs" using num ok(2) by (auto simp: k_def)
  have kk: "(if num > int (length xs) then int (length xs) else num) = int k"
    using num by (auto simp: k_def)
  have fl: "follow ev k (l_firstevent (st_list_in ps)) = Some (take k xs)"
    using follow_linked [of ev xs k] ok k by (simp add: list_ok_def)
  have ne: "take k xs \<noteq> []" using k by auto
  let ?ev1 = "set_owners ev (take k xs) att"
  let ?pl1 = "(st_list_in ps)\<lparr>l_firstevent := ev_next (ev (last (take k xs))), l_cnt := int (length xs - k)\<rparr>"
  let ?ps = "(fix_in_read_after ps (int (length xs)) (int k))\<lparr>st_list_in := et_llist_unlock ?pl1\<rparr>"
  have sub: "int (length xs) - int k = int (length xs - k)" using k(2) by simp
  have "station_nread_core num att ev ps = Some (take k xs, ?ev1, ?ps)"
    using fl ne unfolding station_nread_core_def Let_def cnt kk sub by (simp add: cnt)
  moreover have "list_ok ?ev1 (et_llist_unlock ?pl1) (drop k xs)"
    using list_ok_drop [OF ok(1) k] by (simp add: et_llist_unlock_def list_ok_def)
  ultimately show ?thesis by (intro exI [of _ ?ps]) (simp add: et_llist_unlock_def)
qed

lemma station_read_core_nread:
  assumes "list_ok ev (st_list_in ps) xs" "xs \<noteq> []"
  shows "station_read_core att ev ps = station_nread_core 1 att ev ps"
proof -
  have "l_cnt (st_list_in ps) = int (length xs)" "l_firstevent (st_list_in ps) = Some (hd xs)" "0 < length xs"
    using assms by (auto simp: list_ok_def)
  moreover have "follow ev (Suc 0) (Some e) = Some [e]" for e by simp
  ultimately show ?thesis
    by (simp add: station_read_core_def station_nread_core_def Let_def)
qed

section \<open>Reading the events of a group\<close>

text \<open>What is left of \<open>xs\<close> when the first \<open>m\<close> events satisfying \<open>P\<close> are taken out.\<close>

fun drop_filter :: "('a \<Rightarrow> bool) \<Rightarrow> nat \<Rightarrow> 'a list \<Rightarrow> 'a list" where
  "drop_filter P 0 xs = xs"
| "drop_filter P (Suc m) [] = []"
| "drop_filter P (Suc m) (x # xs) =
     (if P x then drop_filter P m xs else x # drop_filter P (Suc m) xs)"

lemma mset_drop_filter: "mset (take m (filter P xs)) + mset (drop_filter P m xs) = mset xs"
  by (induction P m xs rule: drop_filter.induct) auto

lemma set_drop_filter_subset: "set (drop_filter P m xs) \<subseteq> set xs"
  by (induction P m xs rule: drop_filter.induct) auto

lemma distinct_drop_filter: "distinct xs \<Longrightarrow> distinct (drop_filter P m xs)"
  by (induction P m xs rule: drop_filter.induct) (auto dest: set_drop_filter_subset [THEN subsetD])

lemma length_drop_filter:
  "length (drop_filter P m xs) = length xs - length (take m (filter P xs))"
proof -
  have "length (take m (filter P xs)) + length (drop_filter P m xs) = length xs"
    using arg_cong [OF mset_drop_filter [of m P xs], of size] by (simp del: length_take)
  then show ?thesis by linarith
qed

lemma group_scan_spec:
  assumes "linked ev (K @ ys)" "distinct (K @ ys)" "ys = [] \<or> pev = Some (hd ys)"
    and "prev = (if K = [] then None else Some (last K))"
    and "K @ ys \<noteq> [] \<longrightarrow> l_firstevent pl = Some (hd (K @ ys)) \<and> l_lastevent pl = Some (last (K @ ys))"
    and "int (length pe) < num" and P: "P = (\<lambda>i. ev_group (ev i) = grp)"
  shows "\<exists>ev' pl'. group_scan ev pl prev pev (length ys) num grp att pe =
       Some (pe @ take (nat num - length pe) (filter P ys), ev', pl') \<and>
     linked ev' (K @ drop_filter P (nat num - length pe) ys) \<and>
     link_only (set (K @ ys)) ev ev' \<and> l_cnt pl' = l_cnt pl \<and> l_events_in pl' = l_events_in pl \<and>
     (K @ drop_filter P (nat num - length pe) ys \<noteq> [] \<longrightarrow>
        l_firstevent pl' = Some (hd (K @ drop_filter P (nat num - length pe) ys)) \<and>
        l_lastevent pl' = Some (last (K @ drop_filter P (nat num - length pe) ys))) \<and>
     (\<forall>i. ev_owner (ev' i) = (if i \<in> set (take (nat num - length pe) (filter P ys)) then att
                              else ev_owner (ev i)))"
  using assms
proof (induction ys arbitrary: ev pl K prev pev pe P)
  case Nil
  then have "nat num - length pe = Suc (nat num - length pe - 1)" by linarith
  then have "drop_filter P (nat num - length pe) [] = []" by (metis drop_filter.simps(2))
  with Nil show ?case by auto
next
  case (Cons y ys)
  define m where "m = nat num - length pe - 1"
  have m: "nat num - length pe = Suc m" using Cons.prems(6) unfolding m_def by linarith
  have pev: "pev = Some y" using Cons.prems(3) by simp
  show ?case
  proof (cases "P y")
    case False
    have "linked ev ((K @ [y]) @ ys)" "distinct ((K @ [y]) @ ys)" using Cons.prems(1,2) by auto
    moreover have "ys = [] \<or> ev_next (ev y) = Some (hd ys)"
      using Cons.prems(1) by (auto simp: linked_append linked_Cons)
    ultimately have "\<exists>ev' pl'. group_scan ev pl (Some y) (ev_next (ev y)) (length ys) num grp att pe =
       Some (pe @ take (nat num - length pe) (filter P ys), ev', pl') \<and>
     linked ev' ((K @ [y]) @ drop_filter P (nat num - length pe) ys) \<and>
     link_only (set ((K @ [y]) @ ys)) ev ev' \<and> l_cnt pl' = l_cnt pl \<and> l_events_in pl' = l_events_in pl \<and>
     ((K @ [y]) @ drop_filter P (nat num - length pe) ys \<noteq> [] \<longrightarrow>
        l_firstevent pl' = Some (hd ((K @ [y]) @ drop_filter P (nat num - length pe) ys)) \<and>
        l_lastevent pl' = Some (last ((K @ [y]) @ drop_filter P (nat num - length pe) ys))) \<and>
     (\<forall>i. ev_owner (ev' i) = (if i \<in> set (take (nat num - length pe) (filter P ys)) then att
                              else ev_owner (ev i)))"
      using Cons.prems(5-7) by (intro Cons.IH) auto
    with False pev Cons.prems(7) show ?thesis by (auto simp: m)
  next
    case True
    define ev1 where "ev1 = set_owner ev y att"
    define ev2 where "ev2 = (case prev of None \<Rightarrow> ev1 | Some p \<Rightarrow> set_next ev1 p (ev_next (ev1 y)))"
    define pl1 where "pl1 = (case prev of None \<Rightarrow> pl\<lparr>l_firstevent := ev_next (ev1 y)\<rparr> | Some p \<Rightarrow> pl)"
    define pl2 where "pl2 = (if l_lastevent pl1 = Some y then pl1\<lparr>l_lastevent := prev\<rparr> else pl1)"
    have Kd: "K \<noteq> [] \<Longrightarrow> last K \<notin> set ys \<and> last K \<notin> set (butlast K) \<and> last K \<noteq> y"
      using Cons.prems(2) distinct_last_butlast [of K] by (simp, metis disjoint_iff last_in_set)
    have nxt: "ys \<noteq> [] \<longrightarrow> ev_next (ev y) = Some (hd ys)"
      using Cons.prems(1) by (auto simp: linked_append linked_Cons)
    have lk: "linked ev2 (K @ ys)"
      using Cons.prems(1,4) Kd nxt unfolding ev2_def ev1_def
      by (auto simp: linked_append linked_Cons linked_set_next)
    have lo: "link_only (set (K @ y # ys)) ev ev2"
      using Cons.prems(4) unfolding ev2_def ev1_def
      by (auto intro!: link_only_set_next link_only_set_owner)
    have grp: "P = (\<lambda>i. ev_group (ev2 i) = grp)"
      using Cons.prems(7) link_onlyD(3) [OF lo] by simp
    have ny: "y \<notin> set (K @ ys)" using Cons.prems(2) by auto
    have last_ys: "ys \<noteq> [] \<Longrightarrow> last (K @ y # ys) \<noteq> y" using ny by (auto dest: last_in_set)
    have fl: "K @ ys \<noteq> [] \<longrightarrow> l_firstevent pl2 = Some (hd (K @ ys)) \<and> l_lastevent pl2 = Some (last (K @ ys))"
      using Cons.prems(4,5) nxt last_ys unfolding pl2_def pl1_def ev1_def by (cases "ys = []"; cases "K = []") auto
    have cnts: "l_cnt pl2 = l_cnt pl" "l_events_in pl2 = l_events_in pl"
      by (auto simp: pl2_def pl1_def split: option.splits)
    have own: "ev_owner (ev2 i) = (if i = y then att else ev_owner (ev i))" for i
      by (auto simp: ev2_def ev1_def split: option.splits)
    have unf: "group_scan ev pl prev pev (length (y # ys)) num grp att pe =
        (if int (length (pe @ [y])) \<ge> num then Some (pe @ [y], ev2, pl2)
         else group_scan ev2 pl2 prev (ev_next (ev2 y)) (length ys) num grp att (pe @ [y]))"
      using True Cons.prems(7) pev
      by (auto simp: ev2_def ev1_def pl1_def pl2_def Let_def split: option.splits)
    show ?thesis
    proof (cases "int (length (pe @ [y])) \<ge> num")
      case stop: True
      then have "m = 0" using Cons.prems(6) unfolding m_def by auto
      with stop unf lk lo fl cnts own True show ?thesis by (auto simp: m)
    next
      case False
      then have m': "nat num - length (pe @ [y]) = m" "int (length (pe @ [y])) < num" unfolding m_def by auto
      have "ys = [] \<or> ev_next (ev2 y) = Some (hd ys)"
        using nxt Kd Cons.prems(4) unfolding ev2_def ev1_def by (auto split: option.splits)
      from Cons.IH [OF lk _ this Cons.prems(4) fl m'(2) grp] Cons.prems(2) m'(1) obtain ev' pl' where
        IH: "group_scan ev2 pl2 prev (ev_next (ev2 y)) (length ys) num grp att (pe @ [y]) =
          Some ((pe @ [y]) @ take m (filter P ys), ev', pl')"
          "linked ev' (K @ drop_filter P m ys)" "link_only (set (K @ ys)) ev2 ev'"
          "l_cnt pl' = l_cnt pl2" "l_events_in pl' = l_events_in pl2"
          "K @ drop_filter P m ys \<noteq> [] \<longrightarrow> l_firstevent pl' = Some (hd (K @ drop_filter P m ys)) \<and>
             l_lastevent pl' = Some (last (K @ drop_filter P m ys))"
          "\<forall>i. ev_owner (ev' i) = (if i \<in> set (take m (filter P ys)) then att else ev_owner (ev2 i))"
        by auto
      have "link_only (set (K @ y # ys)) ev ev'"
        by (rule link_only_trans [OF lo link_only_mono [OF IH(3)]]) auto
      with IH unf False True cnts own show ?thesis by (auto simp: m)
    qed
  qed
qed

section \<open>Taking the input list\<close>

lemma set_in_mutex_simps [simp]:
  "id_events (set_in_mutex eid s b) = id_events eid"
  "id_histogram (set_in_mutex eid s b) = id_histogram eid"
  "length (id_stats (set_in_mutex eid s b)) = length (id_stats eid)"
  "t \<noteq> s \<Longrightarrow> id_stats (set_in_mutex eid s b) ! t = id_stats eid ! t"
  "id_sys (set_in_mutex eid s b) = id_sys eid"
  by (simp_all add: set_in_mutex_def upd_stat_def)

lemma cnt_set_in_mutex [simp]: "l_cnt (in_list (set_in_mutex eid s b) s) = l_cnt (in_list eid s)"
  by (cases "s < length (id_stats eid)")
    (simp_all add: set_in_mutex_def upd_stat_def in_list_def list_update_beyond not_less)

lemma set_in_mutex_list [simp]:
  assumes "s < length (id_stats eid)"
  shows "in_list (set_in_mutex eid s b) s = (in_list eid s)\<lparr>l_mutex := b\<rparr>"
    "list_ok ev (in_list (set_in_mutex eid s b) s) xs = list_ok ev (in_list eid s) xs"
  using assms by (simp_all add: set_in_mutex_def upd_stat_def in_list_def)

lemma set_in_mutex_twice [simp]: "set_in_mutex (set_in_mutex eid s b) s c = set_in_mutex eid s c"
  by (cases "s < length (id_stats eid)") (simp_all add: set_in_mutex_def upd_stat_def list_update_beyond not_less)

lemma set_in_mutex_id:
  assumes "l_mutex (in_list eid s) = b" shows "set_in_mutex eid s b = eid"
proof -
  have "(id_stats eid ! s)\<lparr>st_list_in := (st_list_in (id_stats eid ! s))\<lparr>l_mutex := b\<rparr>\<rparr> = id_stats eid ! s"
    using assms by (simp add: in_list_def)
  then show ?thesis by (simp add: set_in_mutex_def upd_stat_def)
qed

lemma set_blocked_simps [simp]:
  "id_events (set_blocked eid a v) = id_events eid" "id_stats (set_blocked eid a v) = id_stats eid"
  "id_histogram (set_blocked eid a v) = id_histogram eid" "in_list (set_blocked eid a v) s = in_list eid s"
  by (simp_all add: set_blocked_def upd_att_def in_list_def)

lemma att_quit_set_blocked [simp]: "att_quit (set_blocked eid a v) b = att_quit eid b"
  by (cases "a < length (sy_attach (id_sys eid))"; cases "a = b")
    (simp_all add: set_blocked_def upd_att_def att_quit_def list_update_beyond not_less)

lemma set_blocked_in_mutex: "set_blocked (set_in_mutex eid s b) a v = set_in_mutex (set_blocked eid a v) s b"
  by (simp add: set_blocked_def upd_att_def set_in_mutex_def upd_stat_def)

lemma att_quit_set_in_mutex [simp]: "att_quit (set_in_mutex eid s b) a = att_quit eid a"
  by (simp add: att_quit_def)

lemma histogram_bump_frame:
  assumes "histogram_bump eid s = Some eid1"
  shows "id_events eid1 = id_events eid" "id_stats eid1 = id_stats eid" "id_sys eid1 = id_sys eid"
  using assms by (auto simp: histogram_bump_def Let_def split: if_splits)

lemma histogram_bump_total:
  assumes "list_ok (id_events eid) (in_list eid s) xs" "s = 0 \<longrightarrow> length xs < length (id_histogram eid)"
  shows "\<exists>eid1. histogram_bump eid s = Some eid1"
proof -
  have "l_cnt (in_list eid s) = int (length xs)" using assms(1) by (simp add: list_ok_def)
  with assms(2) show ?thesis by (cases "s = 0") (simp_all add: histogram_bump_def)
qed

text \<open>
  The modes in which a read of a nonempty, unlocked list goes straight to the list: sleeping and
  timed reads do, an asynchronous one does unless its attachment was told to wake up.
\<close>

definition read_ready :: "et_id \<Rightarrow> int \<Rightarrow> nat \<Rightarrow> bool" where
  "read_ready eid mode a \<longleftrightarrow> mode = ET_SLEEP \<or> mode = ET_TIMED \<or>
     (mode = ET_ASYNC \<and> att_quit eid a \<noteq> ET_ATT_QUIT)"

lemma wait_scan_ready: "\<not> l_cnt (in_list eid s) < 1 \<Longrightarrow> wait_scan timed s a eid ws True = Some (ET_OK, eid, ws)"
  by (cases ws) auto

lemma read_acquire_ready:
  assumes "s < length (id_stats eid)" "list_ok (id_events eid) (in_list eid s) xs" "xs \<noteq> []"
    "\<not> l_mutex (in_list eid s)" "read_ready eid mode a" "s = 0 \<longrightarrow> length xs < length (id_histogram eid)"
  shows "\<exists>eid1. read_acquire eid s mode a ws True = Some (ET_OK, eid1, ws) \<and>
     id_events eid1 = id_events eid \<and> id_stats eid1 = id_stats (set_in_mutex eid s True) \<and>
     id_sys eid1 = id_sys eid"
proof -
  have "list_ok (id_events (set_in_mutex eid s True)) (in_list (set_in_mutex eid s True) s) xs"
    "s = 0 \<longrightarrow> length xs < length (id_histogram (set_in_mutex eid s True))"
    using assms by simp_all
  from histogram_bump_total [OF this] obtain eid1 where
    b: "histogram_bump (set_in_mutex eid s True) s = Some eid1" by blast
  note fr = histogram_bump_frame [OF b]
  have "l_cnt (in_list eid1 s) = int (length xs)"
    using fr assms(1,2) by (simp add: in_list_def list_ok_def set_in_mutex_def upd_stat_def)
  then have "\<not> l_cnt (in_list eid1 s) < 1" using assms(3) by (cases xs) auto
  with b fr assms(4,5) wait_scan_ready show ?thesis
    by (auto simp: read_acquire_def read_ready_def)
qed

lemma et_station_nread_ready:
  assumes "s < length (id_stats eid)" "list_ok (id_events eid) (in_list eid s) xs" "xs \<noteq> []"
    "\<not> l_mutex (in_list eid s)" "read_ready eid mode a" "s = 0 \<longrightarrow> length xs < length (id_histogram eid)"
    "1 \<le> num"
  defines "k \<equiv> min (nat num) (length xs)"
  shows "\<exists>eid'. et_station_nread eid s mode a ws num = Some (ET_OK, take k xs, eid') \<and>
     id_events eid' = set_owners (id_events eid) (take k xs) (int a) \<and>
     list_ok (id_events eid') (in_list eid' s) (drop k xs) \<and> \<not> l_mutex (in_list eid' s) \<and>
     length (id_stats eid') = length (id_stats eid) \<and>
     st_list_out (id_stats eid' ! s) = st_list_out (id_stats eid ! s) \<and>
     (\<forall>t. t \<noteq> s \<longrightarrow> id_stats eid' ! t = id_stats eid ! t)"
proof -
  from read_acquire_ready [OF assms(1-6)] obtain eid1 where
    acq: "read_acquire eid s mode a ws True = Some (ET_OK, eid1, ws)" "id_events eid1 = id_events eid"
      "id_stats eid1 = id_stats (set_in_mutex eid s True)" by blast
  have lk: "list_ok (id_events eid1) (st_list_in (id_stats eid1 ! s)) xs"
    using acq(2,3) assms(1,2) set_in_mutex_list(2) [of s eid "id_events eid" True xs]
    by (simp add: in_list_def)
  from station_nread_core_ok [OF lk assms(3,7), of "int a"] obtain ps' where
    c: "station_nread_core num (int a) (id_events eid1) (id_stats eid1 ! s) =
        Some (take k xs, set_owners (id_events eid1) (take k xs) (int a), ps')"
      "list_ok (set_owners (id_events eid1) (take k xs) (int a)) (st_list_in ps') (drop k xs)"
      "\<not> l_mutex (st_list_in ps')"
      "ps' = (fix_in_read_after (id_stats eid1 ! s) (int (length xs)) (int k))\<lparr>st_list_in := st_list_in ps'\<rparr>"
    unfolding k_def by blast
  have "st_list_out ps' = st_list_out (id_stats eid1 ! s)"
    using arg_cong [OF c(4), of st_list_out] by (simp add: fix_in_read_after_def)
  also have "\<dots> = st_list_out (id_stats eid ! s)"
    using acq(3) assms(1) by (simp add: set_in_mutex_def upd_stat_def)
  finally have "st_list_out ps' = st_list_out (id_stats eid ! s)" .
  with acq c assms(1,7) show ?thesis
    by (auto simp: et_station_nread_def read_body_def in_list_def)
qed

lemma wait_scan_OK_cnt: "wait_scan timed s a eid ws sc = Some (ET_OK, eid1, ws1) \<Longrightarrow> 1 \<le> l_cnt (in_list eid1 s)"
  by (induction timed s a eid ws sc rule: wait_scan.induct) (auto simp: Let_def split: if_splits)

lemma read_acquire_OK_cnt:
  "read_acquire eid s mode a ws True = Some (ET_OK, eid1, ws1) \<Longrightarrow> 1 \<le> l_cnt (in_list eid1 s)"
  by (auto simp: read_acquire_def split: if_splits option.splits dest: wait_scan_OK_cnt)

lemma wait_scan_spurious:
  assumes "l_cnt (in_list eid s) < 1" "at_blocked (sy_attach (id_sys eid) ! a) = ET_ATT_UNBLOCKED"
    "l_mutex (in_list eid s)" "att_quit eid a \<noteq> ET_ATT_QUIT"
  shows "wait_scan timed s a eid (replicate n (0, \<lambda>x. x) @ ws) True = wait_scan timed s a eid ws True"
proof (induction n)
  case (Suc n)
  have "set_blocked (set_blocked eid a ET_ATT_BLOCKED) a ET_ATT_UNBLOCKED = eid"
  proof (cases "a < length (sy_attach (id_sys eid))")
    case True
    have "(sy_attach (id_sys eid) ! a)\<lparr>at_blocked := ET_ATT_UNBLOCKED\<rparr> = sy_attach (id_sys eid) ! a"
      using assms(2) by simp
    with True show ?thesis by (simp add: set_blocked_def upd_att_def)
  qed (simp add: set_blocked_def upd_att_def list_update_beyond not_less)
  then have "set_blocked (set_in_mutex (set_in_mutex (set_blocked eid a ET_ATT_BLOCKED) s False) s True) a
      ET_ATT_UNBLOCKED = eid"
    by (simp add: set_blocked_in_mutex set_in_mutex_id [OF iffD2 [OF eq_True assms(3)]])
  with assms Suc show ?case by (simp add: Let_def)
qed simp

section \<open>Properties\<close>

text \<open>
  C13. \<open>et_station_nread\<close> on a nonempty, unlocked and well-formed input list returns its first
  \<open>min num cnt\<close> events in order, in every mode (an asynchronous read unless its attachment was
  told to wake up). Exactly these events change owner, to the reading attachment; the rest of the
  list stays well formed in the same order and is unlocked again; the output list, the other
  stations and the lists of other events do not change.
\<close>

theorem et_station_nread_refines:
  assumes "s < length (id_stats eid)" "list_ok (id_events eid) (in_list eid s) xs" "xs \<noteq> []"
    "\<not> l_mutex (in_list eid s)" "read_ready eid mode a" "s = 0 \<longrightarrow> length xs < length (id_histogram eid)"
    "1 \<le> num" "k = min (nat num) (length xs)"
  shows "\<exists>eid'. et_station_nread eid s mode a ws num = Some (ET_OK, take k xs, eid') \<and>
     list_ok (id_events eid') (in_list eid' s) (drop k xs) \<and> \<not> l_mutex (in_list eid' s) \<and>
     (\<forall>e. ev_owner (id_events eid' e) = (if e \<in> set (take k xs) then int a else ev_owner (id_events eid e))) \<and>
     st_list_out (id_stats eid' ! s) = st_list_out (id_stats eid ! s) \<and>
     (\<forall>t. t \<noteq> s \<longrightarrow> id_stats eid' ! t = id_stats eid ! t) \<and>
     (\<forall>ys q. list_ok (id_events eid') q ys = list_ok (id_events eid) q ys)"
proof -
  have "list_ok (set_owners ev es b) q ys = list_ok ev q ys" for ev es b q ys
    by (simp add: list_ok_def)
  with et_station_nread_ready [OF assms(1-7), of ws] assms(8) show ?thesis by (auto simp: min_def)
qed

definition sample_full :: "nat \<Rightarrow> nat list \<Rightarrow> et_id" where
  "sample_full n xs = sample_id n [sample_station, sample_station\<lparr>st_list_in := put_tail sample_list xs\<rparr>]
     (link_up (sample_heap []) xs)"

lemma sample_full_simps [simp]:
  "length (id_stats (sample_full n xs)) = 2" "in_list (sample_full n xs) 1 = put_tail sample_list xs"
  "in_list (sample_full n xs) (Suc 0) = put_tail sample_list xs"
  "id_events (sample_full n xs) = link_up (sample_heap []) xs"
  "a < 3 \<Longrightarrow> att_quit (sample_full n xs) a = ET_ATT_CONTINUE"
  "a < 3 \<Longrightarrow> at_blocked (sy_attach (id_sys (sample_full n xs)) ! a) = ET_ATT_UNBLOCKED"
  by (auto simp: sample_full_def in_list_def att_quit_def sample_attach_def et_init_attachment_def
      nth_Cons less_Suc_eq numeral_3_eq_3 split: nat.splits)

lemma sample_full_ok:
  "distinct xs \<Longrightarrow> list_ok (id_events (sample_full n xs)) (in_list (sample_full n xs) 1) xs"
  using linked_link_up list_ok_put_tail by simp

theorem et_station_nread_refines_witness:
  "\<exists>eid'. et_station_nread (sample_full 5 [3, 1, 4]) 1 ET_ASYNC 2 [] 2 = Some (ET_OK, [3, 1], eid') \<and>
     list_ok (id_events eid') (in_list eid' 1) [4]"
proof -
  let ?id = "sample_full 5 [3, 1, 4]"
  have ok: "list_ok (id_events ?id) (in_list ?id 1) [3, 1, 4]" by (rule sample_full_ok) simp
  have h: "1 < length (id_stats ?id)" "\<not> l_mutex (in_list ?id 1)" "read_ready ?id ET_ASYNC 2"
    "[3, 1, 4 :: nat] \<noteq> []" "(1 :: nat) = 0 \<longrightarrow> length [3, 1, 4 :: nat] < length (id_histogram ?id)"
    "(1 :: int) \<le> 2" "2 = min (nat 2) (length [3, 1, 4 :: nat])" by (simp_all add: read_ready_def)
  from et_station_nread_refines [OF h(1) ok h(4) h(2) h(3) h(5) h(6) h(7), of "[]"] show ?thesis
    by (elim exE conjE, intro exI conjI) (assumption | simp)+
qed

text \<open>
  \<open>et_station_read\<close> behaves as \<open>et_station_nread\<close> with \<open>num = 1\<close>, in every mode and for every
  behaviour of the other threads during the waits that leaves the input list well formed.
\<close>

lemma et_station_read_eq_nread:
  assumes "\<And>eid1 ws1. read_acquire eid s mode a ws True = Some (ET_OK, eid1, ws1) \<Longrightarrow>
      \<exists>xs. list_ok (id_events eid1) (in_list eid1 s) xs"
  shows "et_station_read eid s mode a ws = et_station_nread eid s mode a ws 1"
proof -
  have "station_read_core (int a) (id_events eid1) (id_stats eid1 ! s) =
      station_nread_core 1 (int a) (id_events eid1) (id_stats eid1 ! s)"
    if acq: "read_acquire eid s mode a ws True = Some (ET_OK, eid1, ws1)" for eid1 ws1
  proof -
    from assms [OF acq] obtain xs where xs: "list_ok (id_events eid1) (in_list eid1 s) xs" by blast
    moreover have "xs \<noteq> []" using read_acquire_OK_cnt [OF acq] xs by auto
    ultimately show ?thesis by (simp add: station_read_core_nread in_list_def)
  qed
  then show ?thesis
    by (auto simp: et_station_read_def et_station_nread_def read_body_def split: option.splits)
qed

text \<open>
  C32. A sleeping read of an empty list waits through any number of spurious wake-ups; when another
  thread has put events into the list it goes on exactly as a read started in the state that thread
  left (with the reader marked unblocked again).
\<close>

theorem et_station_nread_sleep_waits:
  assumes "s < length (id_stats eid)" "s \<noteq> 0" "l_cnt (in_list eid s) < 1" "\<not> l_mutex (in_list eid s)"
    "at_blocked (sy_attach (id_sys eid) ! a) = ET_ATT_UNBLOCKED" "att_quit eid a \<noteq> ET_ATT_QUIT"
    and put: "eidp = put (set_blocked eid a ET_ATT_BLOCKED)" "1 \<le> l_cnt (in_list eidp s)"
      "\<not> l_mutex (in_list eidp s)" "att_quit eidp a \<noteq> ET_ATT_QUIT" "s < length (id_stats eidp)"
  shows "et_station_nread eid s ET_SLEEP a (replicate n (0, \<lambda>x. x) @ (0, put) # ws) num =
     (if num < 1 then Some (ET_OK, [], eid)
      else et_station_nread (set_blocked eidp a ET_ATT_UNBLOCKED) s ET_SLEEP a ws num)"
proof -
  let ?l = "set_in_mutex eid s True" and ?p = "set_blocked eidp a ET_ATT_UNBLOCKED"
  have "wait_scan False s a ?l (replicate n (0, \<lambda>x. x) @ (0, put) # ws) True =
      wait_scan False s a ?l ((0, put) # ws) True"
    using assms(1,3,5,6) by (intro wait_scan_spurious) simp_all
  also have "\<dots> = wait_scan False s a (set_in_mutex ?p s True) ws True"
  proof -
    have "set_in_mutex (set_blocked ?l a ET_ATT_BLOCKED) s False = set_blocked eid a ET_ATT_BLOCKED"
      using assms(4) by (simp add: set_blocked_in_mutex set_in_mutex_id)
    with assms(3) put show ?thesis by (simp add: Let_def set_blocked_in_mutex)
  qed
  finally have "read_acquire eid s ET_SLEEP a (replicate n (0, \<lambda>x. x) @ (0, put) # ws) True =
      read_acquire ?p s ET_SLEEP a ws True"
    using assms(2,4) put(3) by (simp add: read_acquire_def histogram_bump_def)
  then show ?thesis using assms(1) put(5) by (simp add: et_station_nread_def)
qed

theorem et_station_nread_sleep_waits_witness:
  "et_station_nread (sample_full 5 []) 1 ET_SLEEP 2
       (replicate 7 (0, \<lambda>x. x) @ [(0, \<lambda>x. sample_full 5 [3, 1])]) 2 =
     et_station_nread (set_blocked (sample_full 5 [3, 1]) 2 ET_ATT_UNBLOCKED) 1 ET_SLEEP 2 [] 2"
  using et_station_nread_sleep_waits [of 1 "sample_full 5 []" 2 "sample_full 5 [3, 1]"
      "\<lambda>x. sample_full 5 [3, 1]" 7 "[]" 2] by simp

text \<open>
  C33. When \<open>pthread_cond_timedwait\<close> fails with anything but \<open>ETIMEDOUT\<close>, a timed read returns
  \<open>ET_ERROR\<close> and leaves the station's input list locked: from then on asynchronous reads of that
  station report \<open>ET_ERROR_BUSY\<close> and all sleeping and timed reads block forever.
\<close>

theorem et_station_nread_timed_leaves_lock:
  assumes "s < length (id_stats eid)" "s \<noteq> 0" "l_cnt (in_list eid s) < 1" "\<not> l_mutex (in_list eid s)"
    "status \<noteq> 0" "status \<noteq> ETIMEDOUT" "1 \<le> num"
  shows "\<exists>eid'. et_station_nread eid s ET_TIMED a [(status, \<lambda>x. x)] num = Some (ET_ERROR, [], eid') \<and>
     l_mutex (in_list eid' s) \<and>
     (\<forall>b ws m. 1 \<le> m \<longrightarrow> et_station_nread eid' s ET_ASYNC b ws m = Some (ET_ERROR_BUSY, [], eid') \<and>
        et_station_nread eid' s ET_SLEEP b ws m = None \<and> et_station_nread eid' s ET_TIMED b ws m = None)"
  using assms
  by (simp add: et_station_nread_def read_acquire_def histogram_bump_def Let_def set_blocked_in_mutex)

theorem et_station_nread_timed_leaves_lock_witness:
  "\<exists>eid'. et_station_nread (sample_full 5 []) 1 ET_TIMED 2 [(22, \<lambda>x. x)] 1 = Some (ET_ERROR, [], eid') \<and>
     l_mutex (in_list eid' 1)"
  using et_station_nread_timed_leaves_lock [of 1 "sample_full 5 []" 22 1 2] by auto

lemma drop_filter_ge: "length (filter P xs) \<le> m \<Longrightarrow> drop_filter P m xs = filter (\<lambda>x. \<not> P x) xs"
  by (induction P m xs rule: drop_filter.induct) (auto simp: filter_empty_conv)

lemma drop_filter_min: "drop_filter P (min m (length xs)) xs = drop_filter P m xs"
proof (cases "m \<le> length xs")
  case False
  then have "length (filter P xs) \<le> length xs" "length (filter P xs) \<le> m"
    using length_filter_le [of P xs] by linarith+
  with False show ?thesis by (simp add: drop_filter_ge min_def)
qed (simp add: min_def)

lemma take_filter_min: "take (min m (length xs)) (filter P xs) = take m (filter P xs)"
proof (cases "m \<le> length xs")
  case False
  then have "length (filter P xs) \<le> m" using length_filter_le [of P xs] by linarith
  with False show ?thesis by (simp add: min_def)
qed (simp add: min_def)

lemma station_nread_group_core_ok:
  assumes ok: "list_ok ev (st_list_in ps) xs" "xs \<noteq> []" and num: "1 \<le> num"
    and P: "P = (\<lambda>i. ev_group (ev i) = grp)" and n: "n = min (nat num) (length xs)"
  shows "\<exists>ev' ps'. station_nread_group_core (int n) grp att ev ps = Some (take n (filter P xs), ev', ps') \<and>
     list_ok ev' (st_list_in ps') (drop_filter P n xs) \<and> \<not> l_mutex (st_list_in ps') \<and>
     ps' = (fix_in_read_after ps (int (length xs)) (int n))\<lparr>st_list_in := st_list_in ps'\<rparr> \<and>
     link_only (set xs) ev ev' \<and>
     (\<forall>i. ev_owner (ev' i) = (if i \<in> set (take n (filter P xs)) then att else ev_owner (ev i)))"
proof -
  have cnt: "l_cnt (st_list_in ps) = int (length xs)" and lk: "linked ev ([] @ xs)" "distinct ([] @ xs)"
    and fl: "l_firstevent (st_list_in ps) = Some (hd xs)" "l_lastevent (st_list_in ps) = Some (last xs)"
    using ok by (simp_all add: list_ok_def)
  have n0: "0 < n" using n num ok(2) by simp
  from group_scan_spec [OF lk, of "Some (hd xs)" None "st_list_in ps" "[]" "int n" P grp att] fl P n0
  obtain ev' pl' where
    g: "group_scan ev (st_list_in ps) None (Some (hd xs)) (length xs) (int n) grp att [] =
        Some (take n (filter P xs), ev', pl')"
      "linked ev' (drop_filter P n xs)" "link_only (set xs) ev ev'" "l_cnt pl' = int (length xs)"
      "drop_filter P n xs \<noteq> [] \<longrightarrow> l_firstevent pl' = Some (hd (drop_filter P n xs)) \<and>
        l_lastevent pl' = Some (last (drop_filter P n xs))"
      "\<forall>i. ev_owner (ev' i) = (if i \<in> set (take n (filter P xs)) then att else ev_owner (ev i))"
    by (auto simp: cnt)
  have len: "int (length xs) - int (length (take n (filter P xs))) = int (length (drop_filter P n xs))"
  proof -
    have "length (take n (filter P xs)) \<le> length xs"
      using length_filter_le [of P xs] by (simp add: min.coboundedI1)
    then show ?thesis by (simp only: length_drop_filter of_nat_diff)
  qed
  let ?ps = "(fix_in_read_after ps (int (length xs)) (int n))\<lparr>st_list_in :=
      et_llist_unlock (pl'\<lparr>l_cnt := int (length (drop_filter P n xs))\<rparr>)\<rparr>"
  have "station_nread_group_core (int n) grp att ev ps = Some (take n (filter P xs), ev', ?ps)"
    using g(1) unfolding station_nread_group_core_def Let_def cnt fl(1) by (simp add: g(4) cnt len del: length_take)
  moreover have "list_ok ev' (st_list_in ?ps) (drop_filter P n xs)"
    using g(2,5) distinct_drop_filter [of xs P n] lk(2) by (simp add: list_ok_def et_llist_unlock_def)
  ultimately show ?thesis using g(3,6) by (intro exI [of _ ev'] exI [of _ ?ps]) (simp add: et_llist_unlock_def)
qed

text \<open>
  C34. \<open>et_station_nread_group\<close> takes exactly the first \<open>num\<close> events of the wanted group, in list order,
  and leaves all other events in the list in their order; no event is lost or duplicated. In
  asynchronous mode this also holds when no event of the group is there (nothing is taken).
\<close>

theorem et_station_nread_group_refines:
  assumes "s < length (id_stats eid)" "list_ok (id_events eid) (in_list eid s) xs" "xs \<noteq> []"
    "\<not> l_mutex (in_list eid s)" "read_ready eid mode a" "s = 0 \<longrightarrow> length xs < length (id_histogram eid)"
    "1 \<le> num" "P = (\<lambda>i. ev_group (id_events eid i) = grp)" "mode = ET_ASYNC \<or> filter P xs \<noteq> []"
  shows "\<exists>eid'. et_station_nread_group eid s mode a ws num grp = Some (ET_OK, take (nat num) (filter P xs), eid') \<and>
     list_ok (id_events eid') (in_list eid' s) (drop_filter P (nat num) xs) \<and> \<not> l_mutex (in_list eid' s) \<and>
     mset (take (nat num) (filter P xs)) + mset (drop_filter P (nat num) xs) = mset xs \<and>
     (\<forall>e. ev_owner (id_events eid' e) =
        (if e \<in> set (take (nat num) (filter P xs)) then int a else ev_owner (id_events eid e))) \<and>
     (\<forall>t. t \<noteq> s \<longrightarrow> id_stats eid' ! t = id_stats eid ! t)"
proof -
  define n where "n = min (nat num) (length xs)"
  from read_acquire_ready [OF assms(1-6)] obtain eid1 where
    acq: "read_acquire eid s mode a ws True = Some (ET_OK, eid1, ws)" "id_events eid1 = id_events eid"
      "id_stats eid1 = id_stats (set_in_mutex eid s True)" by blast
  have lk: "list_ok (id_events eid1) (st_list_in (id_stats eid1 ! s)) xs"
    using acq(2,3) assms(1,2) set_in_mutex_list(2) [of s eid "id_events eid" True xs]
    by (simp add: in_list_def)
  have num': "(if num > l_cnt (in_list eid1 s) then l_cnt (in_list eid1 s) else num) = int n"
    using lk assms(7) by (auto simp: n_def list_ok_def in_list_def)
  have P1: "P = (\<lambda>i. ev_group (id_events eid1 i) = grp)" using assms(8) acq(2) by simp
  have eqs: "take n (filter P xs) = take (nat num) (filter P xs)"
    "drop_filter P n xs = drop_filter P (nat num) xs"
    unfolding n_def by (rule take_filter_min drop_filter_min)+
  from station_nread_group_core_ok [OF lk assms(3,7) P1 n_def, of "int a", unfolded eqs] obtain ev' ps' where
    c: "station_nread_group_core (int n) grp (int a) (id_events eid1) (id_stats eid1 ! s) =
        Some (take (nat num) (filter P xs), ev', ps')"
      "list_ok ev' (st_list_in ps') (drop_filter P (nat num) xs)" "\<not> l_mutex (st_list_in ps')"
      "\<forall>i. ev_owner (ev' i) = (if i \<in> set (take (nat num) (filter P xs)) then int a else ev_owner (id_events eid1 i))"
    by blast
  have ne: "\<not> (take (nat num) (filter P xs) = [] \<and> mode \<noteq> ET_ASYNC)" using assms(7,9) by auto
  let ?eid = "eid1\<lparr>id_stats := (id_stats eid1)[s := ps'], id_events := ev'\<rparr>"
  have "et_station_nread_group eid s mode a ws num grp = Some (ET_OK, take (nat num) (filter P xs), ?eid)"
    using assms(1,7) acq(1) c(1) ne num' unfolding et_station_nread_group_def
    by (subst nread_group_loop.simps) (auto simp: read_body_def Let_def)
  moreover have "list_ok (id_events ?eid) (in_list ?eid s) (drop_filter P (nat num) xs)"
    "\<not> l_mutex (in_list ?eid s)" using c(2,3) assms(1) acq(3) by (simp_all add: in_list_def)
  ultimately show ?thesis using c(4) acq(2,3) mset_drop_filter [of "nat num" P xs] by (intro exI [of _ ?eid]) simp
qed

definition sample_groups :: et_id where
  "sample_groups = (sample_full 5 [3, 1, 4])\<lparr>id_events := (\<lambda>i. (id_events (sample_full 5 [3, 1, 4]) i)\<lparr>ev_group := if i = 1 then 7 else 0\<rparr>)\<rparr>"

theorem et_station_nread_group_refines_witness:
  "\<exists>eid'. et_station_nread_group sample_groups 1 ET_ASYNC 2 [] 2 7 = Some (ET_OK, [1], eid') \<and>
     list_ok (id_events eid') (in_list eid' 1) [3, 4] \<and> ev_owner (id_events eid' 1) = 2"
proof -
  let ?id = sample_groups
  let ?P = "\<lambda>i. ev_group (id_events ?id i) = 7"
  have same: "in_list ?id 1 = in_list (sample_full 5 [3, 1, 4]) 1" "in_list ?id (Suc 0) = in_list (sample_full 5 [3, 1, 4]) 1" "length (id_stats ?id) = 2" "att_quit ?id 2 = ET_ATT_CONTINUE"
    using sample_full_simps(1) [of 5 "[3, 1, 4]"] sample_full_simps(5) [of 2 5 "[3, 1, 4]"]
    by (simp_all add: sample_groups_def in_list_def att_quit_def del: sample_full_simps)
  have "linked (id_events ?id) [3, 1, 4] = linked (id_events (sample_full 5 [3, 1, 4])) [3, 1, 4]"
    by (rule linked_cong) (simp add: sample_groups_def)
  then have ok: "list_ok (id_events ?id) (in_list ?id 1) [3, 1, 4]"
    using sample_full_ok [of "[3, 1, 4]" 5] unfolding list_ok_def same by simp
  have h: "1 < length (id_stats ?id)" "\<not> l_mutex (in_list ?id 1)" "read_ready ?id ET_ASYNC 2"
    "[3, 1, 4 :: nat] \<noteq> []" "(1 :: nat) = 0 \<longrightarrow> length [3, 1, 4 :: nat] < length (id_histogram ?id)"
    "(1 :: int) \<le> 2" "ET_ASYNC = ET_ASYNC \<or> filter ?P [3, 1, 4] \<noteq> []" by (simp_all add: read_ready_def same)
  have P: "?P i \<longleftrightarrow> i = 1" for i by (simp add: sample_groups_def)
  then have "filter ?P [3, 1, 4] = [1]" "drop_filter ?P (nat 2) [3, 1, 4] = [3, 4]"
    by (simp_all add: numeral_2_eq_2)
  with et_station_nread_group_refines [OF h(1) ok h(4) h(2) h(3) h(5) h(6) refl h(7), of "[]"] show ?thesis
    by (elim exE conjE, intro exI conjI) (assumption | simp)+
qed

end
