(* ===== verification/ET_Events.thy ===== *)
theory ET_Events
  imports ET_StationGetSet ET_StationRead
begin

unbundle bit_operations_syntax

text \<open>
  The calls by which a user takes new events, gets events of its station, puts them back or dumps
  them, and the access to the fields of an event (src/libsrc/et\_event.c).

  A local call holds the read lock of the shared memory. What it depends on besides the shared
  state is collected in \<open>event_env\<close>: the time of day, what happens during the waits for a list
  (given the absolute time at which a timed wait ends), whether the operating system creates, maps,
  unmaps and removes the file of a temporary event, and what other threads do while a call waits
  for temporary events. The calls of remote users (\<open>etr_\<close>) and of local users who cannot share a
  mutex (\<open>etn_\<close>) are requests to the server and parameters. A returned list holds the events
  stored in the caller's array; \<open>*nread\<close> is its length when the status is \<open>ET_OK\<close> and else 0.
  The caller's result pointers are not null.
\<close>

type_synonym timespec = "int \<times> int"
type_synonym events_result = "(int \<times> nat list \<times> et_id) option"

text \<open>
  One attempt to make a temporary event: what others do before the system mutex is taken, and what
  they do during each nap of the wait that follows when there are too many.
\<close>

type_synonym attempt = "(et_id \<Rightarrow> et_id) \<times> (et_id \<Rightarrow> et_id) list"

record event_env =
  en_now :: "int \<times> int"
  en_wakes :: "timespec option \<Rightarrow> wake list"
  en_create :: "string \<Rightarrow> uint64 \<Rightarrow> bool"
  en_attach :: "string \<Rightarrow> uint64 \<Rightarrow> bool"
  en_unmap :: "dataptr \<Rightarrow> uint64 \<Rightarrow> bool"
  en_remove :: "string \<Rightarrow> uint64 \<Rightarrow> bool"
  en_attempts :: "nat \<Rightarrow> attempt list"

section \<open>Arguments\<close>

definition wait_mode :: "int \<Rightarrow> int" where
  "wait_mode mode = mode AND 3"

definition request_ok :: "int \<Rightarrow> int \<Rightarrow> timespec option \<Rightarrow> bool" where
  "request_ok att mode deltatime \<longleftrightarrow> \<not> att < 0 \<and>
     (wait_mode mode = ET_SLEEP \<or> wait_mode mode = ET_TIMED \<or> wait_mode mode = ET_ASYNC) \<and>
     (wait_mode mode = ET_TIMED \<longrightarrow>
       (case deltatime of None \<Rightarrow> False | Some (sec, nsec) \<Rightarrow> \<not> (sec < 0 \<or> nsec < 0)))"

definition abs_time :: "int \<times> int \<Rightarrow> timespec \<Rightarrow> timespec" where
  "abs_time now deltatime =
     (let nsec_total = snd deltatime + 1000 * snd now in
      if nsec_total \<ge> 1000000000 then (fst deltatime + fst now + 1, nsec_total - 1000000000)
      else (fst deltatime + fst now, nsec_total))"

definition wait_ends :: "event_env \<Rightarrow> int \<Rightarrow> timespec option \<Rightarrow> wake list" where
  "wait_ends env wait deltatime =
     en_wakes env (if wait \<noteq> ET_TIMED then None else map_option (abs_time (en_now env)) deltatime)"

definition attach_active :: "et_id \<Rightarrow> int \<Rightarrow> bool option" where
  "attach_active eid att =
     (if nat att < length (sy_attach (id_sys eid)) then
        Some (at_status (sy_attach (id_sys eid) ! nat att) = ET_ATT_ACTIVE)
      else None)"

definition read_status :: "et_id \<Rightarrow> int \<Rightarrow> int" where
  "read_status eid status = (if status = ET_ERROR_WAKEUP \<and> \<not> id_alive eid then ET_ERROR_DEAD else status)"

definition upd_event :: "et_id \<Rightarrow> nat \<Rightarrow> (et_event \<Rightarrow> et_event) \<Rightarrow> et_id" where
  "upd_event eid e f = eid\<lparr>id_events := (id_events eid)(e := f (id_events eid e))\<rparr>"

definition add_ntemps :: "int \<Rightarrow> et_id \<Rightarrow> et_id" where
  "add_ntemps n eid = eid\<lparr>id_sys := (id_sys eid)\<lparr>sy_ntemps := sy_ntemps (id_sys eid) + n\<rparr>\<rparr>"

section \<open>New events\<close>

definition et_event_make :: "event_env \<Rightarrow> et_id \<Rightarrow> nat \<Rightarrow> uint64 \<Rightarrow> int \<times> et_id" where
  "et_event_make env eid pe sz =
     (if sy_ntemps (id_sys eid) \<ge> sc_ntemps (sy_config (id_sys eid)) then (ET_ERROR_TOOMANY, eid)
      else
        let eid1 = add_ntemps 1 eid; name = ev_filename (id_events eid1 pe)
        in if \<not> en_create env name sz then (ET_ERROR, eid1)
           else (ET_OK, upd_event eid1 pe (\<lambda>x. (et_init_event_keep x)\<lparr>ev_temp := ET_EVENT_TEMP,
                  ev_pdata := DTemp name, ev_length := sz, ev_memsize := sz\<rparr>)))"

text \<open>The wait until fewer temporary events exist; the result tells how many naps are left.\<close>

fun wait_temps :: "nat \<Rightarrow> (et_id \<Rightarrow> et_id) list \<Rightarrow> et_id \<Rightarrow> nat \<times> et_id" where
  "wait_temps 0 naps eid = (0, eid)"
| "wait_temps (Suc k) naps eid =
     (if \<not> sy_ntemps (id_sys eid) \<ge> sc_ntemps (sy_config (id_sys eid)) then (Suc k, eid)
      else case naps of [] \<Rightarrow> wait_temps k [] eid | f # fs \<Rightarrow> wait_temps k fs (f eid))"

text \<open>
  Beyond the given attempts nothing else happens, so that a wait for temporary events cannot end
  before the last nap.
\<close>

fun make_temp :: "event_env \<Rightarrow> attempt list \<Rightarrow> et_id \<Rightarrow> nat \<Rightarrow> uint64 \<Rightarrow> int \<times> et_id" where
  "make_temp env [] eid pe sz = et_event_make env eid pe sz"
| "make_temp env ((before, naps) # attempts) eid pe sz =
     (let (status, eid1) = et_event_make env (before eid) pe sz in
      if status = ET_ERROR_TOOMANY then
        let (left, eid2) = wait_temps (nat (sy_hz (id_sys eid1) * 30)) naps eid1
        in if left = 0 then (status, eid2) else make_temp env attempts eid2 pe sz
      else (status, eid1))"

fun make_temps :: "event_env \<Rightarrow> et_id \<Rightarrow> nat list \<Rightarrow> uint64 \<Rightarrow> int \<times> et_id" where
  "make_temps env eid [] sz = (ET_OK, eid)"
| "make_temps env eid (e # es) sz =
     (let (status, eid1) = make_temp env (en_attempts env e) eid e sz in
      if status \<noteq> ET_OK then (status, eid1) else make_temps env eid1 es sz)"

definition own_space :: "uint64 \<Rightarrow> uint64 \<Rightarrow> et_event \<Rightarrow> et_event" where
  "own_space event_size sz x = (et_init_event_keep x)\<lparr>ev_pdata := ev_data x, ev_length := sz, ev_memsize := event_size\<rparr>"

fun own_spaces :: "et_id \<Rightarrow> nat list \<Rightarrow> uint64 \<Rightarrow> et_id" where
  "own_spaces eid [] sz = eid"
| "own_spaces eid (e # es) sz =
     own_spaces (upd_event eid e (own_space (sc_event_size (sy_config (id_sys eid))) sz)) es sz"

definition fill_events :: "event_env \<Rightarrow> et_id \<Rightarrow> nat list \<Rightarrow> uint64 \<Rightarrow> int \<times> et_id" where
  "fill_events env eid es sz =
     (if sz > sc_event_size (sy_config (id_sys eid)) then make_temps env eid es sz
      else (ET_OK, own_spaces eid es sz))"

definition finish_new :: "event_env \<Rightarrow> int \<Rightarrow> uint64 \<Rightarrow> events_result \<Rightarrow> events_result" where
  "finish_new env att sz r =
     (case r of
        None \<Rightarrow> None
      | Some (status, es, eid1) \<Rightarrow>
          if status \<noteq> ET_OK then Some (read_status eid1 status, [], eid1)
          else
            let (status2, eid2) = fill_events env eid1 es sz in
            if status2 \<noteq> ET_OK then Some (status2, es, eid2)
            else Some (ET_OK, es, upd_att eid2 (nat att)
                   (\<lambda>a. a\<lparr>at_events_make := at_events_make a + word_of_nat (length es)\<rparr>)))"

definition temps_wanted :: "et_id \<Rightarrow> uint64 \<Rightarrow> int \<Rightarrow> int" where
  "temps_wanted eid sz num =
     (if sc_event_size (sy_config (id_sys eid)) < sz \<and> sc_ntemps (sy_config (id_sys eid)) < num
      then sc_ntemps (sy_config (id_sys eid)) else num)"

text \<open>The part of a local call after the attachment is known to exist: it has to be active.\<close>

definition when_active :: "et_id \<Rightarrow> int \<Rightarrow> events_result \<Rightarrow> events_result" where
  "when_active eid att body =
     (case attach_active eid att of
        None \<Rightarrow> None
      | Some False \<Rightarrow> Some (ET_ERROR, [], eid)
      | Some True \<Rightarrow> body)"

definition et_events_new_group ::
  "(et_id \<Rightarrow> int \<Rightarrow> int \<Rightarrow> timespec option \<Rightarrow> uint64 \<Rightarrow> int \<Rightarrow> int \<Rightarrow> events_result) \<Rightarrow>
   (et_id \<Rightarrow> int \<Rightarrow> int \<Rightarrow> timespec option \<Rightarrow> uint64 \<Rightarrow> int \<Rightarrow> int \<Rightarrow> events_result) \<Rightarrow> event_env \<Rightarrow>
   et_id \<Rightarrow> int \<Rightarrow> int \<Rightarrow> timespec option \<Rightarrow> uint64 \<Rightarrow> int \<Rightarrow> int \<Rightarrow> events_result" where
  "et_events_new_group etr etn env eid att mode deltatime sz num grp =
     (if num = 0 then Some (ET_OK, [], eid)
      else if \<not> request_ok att mode deltatime \<or> num < 0 \<or> grp < 1 then Some (ET_ERROR, [], eid)
      else if id_locality eid = ET_REMOTE then etr eid att mode deltatime sz num grp
      else if id_locality eid = ET_LOCAL_NOSHARE then etn eid att (wait_mode mode) deltatime sz num grp
      else local_guard eid (\<lambda>e. Some (e, [], eid))
        (if grp > sc_groupCount (sy_config (id_sys eid)) then Some (ET_ERROR, [], eid)
         else when_active eid att (finish_new env att sz
           (et_station_nread_group eid 0 (wait_mode mode) (nat att) (wait_ends env (wait_mode mode) deltatime)
              (temps_wanted eid sz num) grp))))"

definition et_event_new_group ::
  "(et_id \<Rightarrow> int \<Rightarrow> int \<Rightarrow> timespec option \<Rightarrow> uint64 \<Rightarrow> int \<Rightarrow> int \<Rightarrow> events_result) \<Rightarrow>
   (et_id \<Rightarrow> int \<Rightarrow> int \<Rightarrow> timespec option \<Rightarrow> uint64 \<Rightarrow> int \<Rightarrow> int \<Rightarrow> events_result) \<Rightarrow> event_env \<Rightarrow>
   et_id \<Rightarrow> int \<Rightarrow> int \<Rightarrow> timespec option \<Rightarrow> uint64 \<Rightarrow> int \<Rightarrow> events_result" where
  "et_event_new_group etr etn env eid att mode deltatime sz grp =
     et_events_new_group etr etn env eid att mode deltatime sz 1 grp"

text \<open>
  The requests of remote users without a group, and those with one, are \<open>etr\<close> and \<open>etrg\<close>; those of
  local users without shared mutexes \<open>etn\<close> and \<open>etng\<close>.
\<close>

definition et_events_new ::
  "(et_id \<Rightarrow> int \<Rightarrow> int \<Rightarrow> timespec option \<Rightarrow> uint64 \<Rightarrow> int \<Rightarrow> events_result) \<Rightarrow>
   (et_id \<Rightarrow> int \<Rightarrow> int \<Rightarrow> timespec option \<Rightarrow> uint64 \<Rightarrow> int \<Rightarrow> events_result) \<Rightarrow>
   (et_id \<Rightarrow> int \<Rightarrow> int \<Rightarrow> timespec option \<Rightarrow> uint64 \<Rightarrow> int \<Rightarrow> int \<Rightarrow> events_result) \<Rightarrow>
   (et_id \<Rightarrow> int \<Rightarrow> int \<Rightarrow> timespec option \<Rightarrow> uint64 \<Rightarrow> int \<Rightarrow> int \<Rightarrow> events_result) \<Rightarrow> event_env \<Rightarrow>
   et_id \<Rightarrow> int \<Rightarrow> int \<Rightarrow> timespec option \<Rightarrow> uint64 \<Rightarrow> int \<Rightarrow> events_result" where
  "et_events_new etr etn etrg etng env eid att mode deltatime sz num =
     (if id_group eid \<noteq> 0 then et_events_new_group etrg etng env eid att mode deltatime sz num (id_group eid)
      else if num = 0 then Some (ET_OK, [], eid)
      else if \<not> request_ok att mode deltatime \<or> num < 0 then Some (ET_ERROR, [], eid)
      else if id_locality eid = ET_REMOTE then etr eid att mode deltatime sz num
      else if id_locality eid = ET_LOCAL_NOSHARE then etn eid att (wait_mode mode) deltatime sz num
      else local_guard eid (\<lambda>e. Some (e, [], eid))
        (when_active eid att (finish_new env att sz
           (et_station_nread eid 0 (wait_mode mode) (nat att) (wait_ends env (wait_mode mode) deltatime)
              (temps_wanted eid sz num)))))"

definition et_event_new ::
  "(et_id \<Rightarrow> int \<Rightarrow> int \<Rightarrow> timespec option \<Rightarrow> uint64 \<Rightarrow> events_result) \<Rightarrow>
   (et_id \<Rightarrow> int \<Rightarrow> int \<Rightarrow> timespec option \<Rightarrow> uint64 \<Rightarrow> events_result) \<Rightarrow>
   (et_id \<Rightarrow> int \<Rightarrow> int \<Rightarrow> timespec option \<Rightarrow> uint64 \<Rightarrow> int \<Rightarrow> int \<Rightarrow> events_result) \<Rightarrow>
   (et_id \<Rightarrow> int \<Rightarrow> int \<Rightarrow> timespec option \<Rightarrow> uint64 \<Rightarrow> int \<Rightarrow> int \<Rightarrow> events_result) \<Rightarrow> event_env \<Rightarrow>
   et_id \<Rightarrow> int \<Rightarrow> int \<Rightarrow> timespec option \<Rightarrow> uint64 \<Rightarrow> events_result" where
  "et_event_new etr etn etrg etng env eid att mode deltatime sz =
     (if id_group eid \<noteq> 0 then et_event_new_group etrg etng env eid att mode deltatime sz (id_group eid)
      else if \<not> request_ok att mode deltatime then Some (ET_ERROR, [], eid)
      else if id_locality eid = ET_REMOTE then etr eid att mode deltatime sz
      else if id_locality eid = ET_LOCAL_NOSHARE then etn eid att (wait_mode mode) deltatime sz
      else local_guard eid (\<lambda>e. Some (e, [], eid))
        (when_active eid att (finish_new env att sz
           (et_station_read eid 0 (wait_mode mode) (nat att) (wait_ends env (wait_mode mode) deltatime)))))"

section \<open>Getting events\<close>

fun map_data :: "event_env \<Rightarrow> et_id \<Rightarrow> nat list \<Rightarrow> int \<times> et_id" where
  "map_data env eid [] = (ET_OK, eid)"
| "map_data env eid (e # es) =
     (let x = id_events eid e in
      if ev_temp x \<noteq> ET_EVENT_TEMP then map_data env (upd_event eid e (\<lambda>x. x\<lparr>ev_pdata := ev_data x\<rparr>)) es
      else if \<not> en_attach env (ev_filename x) (ev_memsize x) then (ET_ERROR, eid)
      else map_data env (upd_event eid e (\<lambda>x. x\<lparr>ev_pdata := DTemp (ev_filename x)\<rparr>)) es)"

definition finish_get :: "event_env \<Rightarrow> int \<Rightarrow> events_result \<Rightarrow> events_result" where
  "finish_get env att r =
     (case r of
        None \<Rightarrow> None
      | Some (status, es, eid1) \<Rightarrow>
          if status \<noteq> ET_OK then Some (read_status eid1 status, [], eid1)
          else
            let (status2, eid2) = map_data env eid1 es in
            if status2 \<noteq> ET_OK then Some (status2, es, eid2)
            else Some (ET_OK, es, upd_att eid2 (nat att)
                   (\<lambda>a. a\<lparr>at_events_get := at_events_get a + word_of_nat (length es)\<rparr>)))"

definition get_from_station :: "et_id \<Rightarrow> int \<Rightarrow> (nat \<Rightarrow> events_result) \<Rightarrow> events_result" where
  "get_from_station eid att body =
     when_active eid att
       (let stat_id = at_stat (sy_attach (id_sys eid) ! nat att) in
        if stat_id = ET_GRANDCENTRAL then Some (ET_ERROR, [], eid)
        else case stat_ix (id_stats eid) stat_id of None \<Rightarrow> None | Some s \<Rightarrow> body s)"

definition et_event_get ::
  "(et_id \<Rightarrow> int \<Rightarrow> int \<Rightarrow> timespec option \<Rightarrow> events_result) \<Rightarrow> (et_id \<Rightarrow> int \<Rightarrow> int \<Rightarrow> timespec option \<Rightarrow> events_result) \<Rightarrow>
     event_env \<Rightarrow> et_id \<Rightarrow> int \<Rightarrow> int \<Rightarrow> timespec option \<Rightarrow> events_result" where
  "et_event_get etr etn env eid att mode deltatime =
     (if \<not> request_ok att mode deltatime then Some (ET_ERROR, [], eid)
      else if id_locality eid = ET_REMOTE then etr eid att mode deltatime
      else if id_locality eid = ET_LOCAL_NOSHARE then etn eid att (wait_mode mode) deltatime
      else local_guard eid (\<lambda>e. Some (e, [], eid))
        (get_from_station eid att (\<lambda>s. finish_get env att
           (et_station_read eid s (wait_mode mode) (nat att) (wait_ends env (wait_mode mode) deltatime)))))"

definition et_events_get ::
  "(et_id \<Rightarrow> int \<Rightarrow> int \<Rightarrow> timespec option \<Rightarrow> int \<Rightarrow> events_result) \<Rightarrow>
   (et_id \<Rightarrow> int \<Rightarrow> int \<Rightarrow> timespec option \<Rightarrow> int \<Rightarrow> events_result) \<Rightarrow>
     event_env \<Rightarrow> et_id \<Rightarrow> int \<Rightarrow> int \<Rightarrow> timespec option \<Rightarrow> int \<Rightarrow> events_result" where
  "et_events_get etr etn env eid att mode deltatime num =
     (if num = 0 then Some (ET_OK, [], eid)
      else if \<not> request_ok att mode deltatime \<or> num < 0 then Some (ET_ERROR, [], eid)
      else if id_locality eid = ET_REMOTE then etr eid att mode deltatime num
      else if id_locality eid = ET_LOCAL_NOSHARE then etn eid att (wait_mode mode) deltatime num
      else local_guard eid (\<lambda>e. Some (e, [], eid))
        (get_from_station eid att (\<lambda>s. finish_get env att
           (et_station_nread eid s (wait_mode mode) (nat att) (wait_ends env (wait_mode mode) deltatime) num))))"

section \<open>Putting events back\<close>

text \<open>The station an attachment writes to; the attachment need not be active.\<close>

definition att_station :: "et_id \<Rightarrow> int \<Rightarrow> nat option" where
  "att_station eid att =
     (if nat att < length (sy_attach (id_sys eid)) then stat_ix (id_stats eid) (at_stat (sy_attach (id_sys eid) ! nat att))
      else None)"

definition count_put :: "int \<Rightarrow> nat \<Rightarrow> et_id \<Rightarrow> et_id" where
  "count_put att n eid = upd_att eid (nat att) (\<lambda>a. a\<lparr>at_events_put := at_events_put a + word_of_nat n\<rparr>)"

definition et_event_put ::
  "(et_id \<Rightarrow> int \<Rightarrow> nat \<Rightarrow> int \<times> et_id) \<Rightarrow> (et_id \<Rightarrow> int \<Rightarrow> nat \<Rightarrow> int \<times> et_id) \<Rightarrow> event_env \<Rightarrow>
     et_id \<Rightarrow> int \<Rightarrow> nat \<Rightarrow> (int \<times> et_id) option" where
  "et_event_put etr etn env eid att pe =
     (if att < 0 then Some (ET_ERROR, eid)
      else if id_locality eid = ET_REMOTE then Some (etr eid att pe)
      else if id_locality eid = ET_LOCAL_NOSHARE then Some (etn eid att pe)
      else local_guard eid (\<lambda>e. Some (e, eid))
        (let x = id_events eid pe in
         if ev_length x > ev_memsize x then Some (ET_ERROR, eid)
         else if ev_owner x \<noteq> att then Some (ET_ERROR, eid)
         else if ev_temp x = ET_EVENT_TEMP \<and> \<not> en_unmap env (ev_pdata x) (ev_memsize x) then Some (ET_ERROR, eid)
         else case att_station eid att of
                None \<Rightarrow> None
              | Some s \<Rightarrow>
                  case et_station_write (upd_event eid pe (\<lambda>x. x\<lparr>ev_age := ET_EVENT_USED\<rparr>)) s pe of
                    None \<Rightarrow> None
                  | Some (status, eid1) \<Rightarrow>
                      if status \<noteq> ET_OK then Some (status, upd_event eid1 pe (\<lambda>y. y\<lparr>ev_age := ev_age x\<rparr>))
                      else Some (ET_OK, count_put att 1 eid1)))"

text \<open>The age is kept in \<open>modify\<close> until the events are written.\<close>

fun mark_used :: "event_env \<Rightarrow> et_id \<Rightarrow> nat list \<Rightarrow> int \<times> et_id" where
  "mark_used env eid [] = (ET_OK, eid)"
| "mark_used env eid (e # es) =
     (let x = id_events eid e in
      if ev_temp x = ET_EVENT_TEMP \<and> \<not> en_unmap env (ev_pdata x) (ev_memsize x) then (ET_ERROR, eid)
      else mark_used env (upd_event eid e (\<lambda>x. x\<lparr>ev_modify := ev_age x, ev_age := ET_EVENT_USED\<rparr>)) es)"

fun unmark_used :: "et_id \<Rightarrow> nat list \<Rightarrow> et_id" where
  "unmark_used eid [] = eid"
| "unmark_used eid (e # es) = unmark_used (upd_event eid e (\<lambda>x. x\<lparr>ev_age := ev_modify x, ev_modify := 0\<rparr>)) es"

definition et_events_put ::
  "(et_id \<Rightarrow> int \<Rightarrow> nat list \<Rightarrow> int \<times> et_id) \<Rightarrow> (et_id \<Rightarrow> int \<Rightarrow> nat list \<Rightarrow> int \<times> et_id) \<Rightarrow> event_env \<Rightarrow>
     et_id \<Rightarrow> int \<Rightarrow> nat list \<Rightarrow> (int \<times> et_id) option" where
  "et_events_put etr etn env eid att pe =
     (if pe = [] then Some (ET_OK, eid)
      else if att < 0 then Some (ET_ERROR, eid)
      else if id_locality eid = ET_REMOTE then Some (etr eid att pe)
      else if id_locality eid = ET_LOCAL_NOSHARE then Some (etn eid att pe)
      else local_guard eid (\<lambda>e. Some (e, eid))
        (if \<exists>e \<in> set pe. ev_length (id_events eid e) > ev_memsize (id_events eid e) \<or> ev_owner (id_events eid e) \<noteq> att
         then Some (ET_ERROR, eid)
         else
           let (status, eid1) = mark_used env eid pe in
           if status \<noteq> ET_OK then Some (status, eid1)
           else case att_station eid1 att of
                  None \<Rightarrow> None
                | Some s \<Rightarrow>
                    case et_station_nwrite eid1 s pe (int (length pe)) of
                      None \<Rightarrow> None
                    | Some (status, eid2) \<Rightarrow>
                        if status \<noteq> ET_OK then Some (status, unmark_used eid2 pe)
                        else Some (ET_OK, count_put att (length pe) eid2)))"

section \<open>Dumping events\<close>

definition count_dump :: "int \<Rightarrow> nat \<Rightarrow> et_id \<Rightarrow> et_id" where
  "count_dump att n eid = upd_att eid (nat att) (\<lambda>a. a\<lparr>at_events_dump := at_events_dump a + word_of_nat n\<rparr>)"

definition et_event_dump ::
  "(et_id \<Rightarrow> int \<Rightarrow> nat \<Rightarrow> int \<times> et_id) \<Rightarrow> (et_id \<Rightarrow> int \<Rightarrow> nat \<Rightarrow> int \<times> et_id) \<Rightarrow> event_env \<Rightarrow>
     et_id \<Rightarrow> int \<Rightarrow> nat \<Rightarrow> (int \<times> et_id) option" where
  "et_event_dump etr etn env eid att pe =
     (if att < 0 then Some (ET_ERROR, eid)
      else if id_locality eid = ET_REMOTE then Some (etr eid att pe)
      else if id_locality eid = ET_LOCAL_NOSHARE then Some (etn eid att pe)
      else local_guard eid (\<lambda>e. Some (e, eid))
        (let x = id_events eid pe; temp = (ev_temp x = ET_EVENT_TEMP) in
         if ev_owner x \<noteq> att then Some (ET_ERROR, eid)
         else if temp \<and> \<not> en_remove env (ev_filename x) (ev_memsize x) then Some (ET_ERROR, eid)
         else case et_station_dump eid pe of
                None \<Rightarrow> None
              | Some (status, eid1) \<Rightarrow>
                  if status \<noteq> ET_OK then Some (status, upd_event eid1 pe (\<lambda>x. x\<lparr>ev_owner := att\<rparr>))
                  else if \<not> nat att < length (sy_attach (id_sys eid1)) then None
                  else Some (ET_OK, count_dump att 1 (if temp then add_ntemps (-1) eid1 else eid1))))"

definition et_events_dump ::
  "(et_id \<Rightarrow> int \<Rightarrow> nat list \<Rightarrow> int \<times> et_id) \<Rightarrow> (et_id \<Rightarrow> int \<Rightarrow> nat list \<Rightarrow> int \<times> et_id) \<Rightarrow> event_env \<Rightarrow>
     et_id \<Rightarrow> int \<Rightarrow> nat list \<Rightarrow> (int \<times> et_id) option" where
  "et_events_dump etr etn env eid att pe =
     (if pe = [] then Some (ET_OK, eid)
      else if att < 0 then Some (ET_ERROR, eid)
      else if id_locality eid = ET_REMOTE then Some (etr eid att pe)
      else if id_locality eid = ET_LOCAL_NOSHARE then Some (etn eid att pe)
      else local_guard eid (\<lambda>e. Some (e, eid))
        (let temps = filter (\<lambda>e. ev_temp (id_events eid e) = ET_EVENT_TEMP) pe in
         if \<exists>e \<in> set pe. ev_owner (id_events eid e) \<noteq> att then Some (ET_ERROR, eid)
         else if \<exists>e \<in> set temps. \<not> en_remove env (ev_filename (id_events eid e)) (ev_memsize (id_events eid e)) then
           Some (ET_ERROR, eid)
         else case et_station_ndump eid pe (int (length pe)) of
                None \<Rightarrow> None
              | Some (status, eid1) \<Rightarrow>
                  if status \<noteq> ET_OK then Some (status, eid1)
                  else if \<not> nat att < length (sy_attach (id_sys eid1)) then None
                  else Some (ET_OK, count_dump att (length pe)
                         (if temps \<noteq> [] then add_ntemps (- int (length temps)) eid1 else eid1))))"

section \<open>Fields of an event\<close>

text \<open>A null event pointer is \<open>None\<close>; the result pointer of a query is not null.\<close>

definition set_event :: "bool \<Rightarrow> (et_event \<Rightarrow> et_event) \<Rightarrow> et_event option \<Rightarrow> int \<times> et_event option" where
  "set_event legal f pe =
     (case pe of None \<Rightarrow> (ET_ERROR, None) | Some x \<Rightarrow> if legal then (ET_OK, Some (f x)) else (ET_ERROR, Some x))"

definition get_event :: "(et_event \<Rightarrow> 'a) \<Rightarrow> et_event option \<Rightarrow> int \<times> 'a option" where
  "get_event f pe = (case pe of None \<Rightarrow> (ET_ERROR, None) | Some x \<Rightarrow> (ET_OK, Some (f x)))"

definition et_event_getgroup :: "et_event option \<Rightarrow> int \<times> int option" where
  "et_event_getgroup = get_event ev_group"

definition et_event_setpriority :: "et_event option \<Rightarrow> int \<Rightarrow> int \<times> et_event option" where
  "et_event_setpriority pe pri = set_event (\<not> (pri \<noteq> ET_HIGH \<and> pri \<noteq> ET_LOW)) (\<lambda>x. x\<lparr>ev_priority := pri\<rparr>) pe"

definition et_event_getpriority :: "et_event option \<Rightarrow> int \<times> int option" where
  "et_event_getpriority = get_event ev_priority"

definition et_event_setlength :: "et_event option \<Rightarrow> uint64 \<Rightarrow> int \<times> et_event option" where
  "et_event_setlength pe len =
     (case pe of None \<Rightarrow> (ET_ERROR, None) | Some x \<Rightarrow> set_event (\<not> len > ev_memsize x) (\<lambda>x. x\<lparr>ev_length := len\<rparr>) pe)"

definition et_event_getlength :: "et_event option \<Rightarrow> int \<times> uint64 option" where
  "et_event_getlength = get_event ev_length"

definition et_event_getdata :: "et_event option \<Rightarrow> int \<times> dataptr option" where
  "et_event_getdata = get_event ev_pdata"

text \<open>\<open>con\<close> has at least \<open>num\<close> elements, else the call reads beyond it (\<open>None\<close>).\<close>

definition et_event_setcontrol :: "et_event option \<Rightarrow> int list \<Rightarrow> int \<Rightarrow> (int \<times> et_event option) option" where
  "et_event_setcontrol pe con num =
     (if pe = None \<or> num < 1 \<or> num > int ET_STATION_SELECT_INTS then Some (ET_ERROR, pe)
      else if int (length con) < num then None
      else Some (set_event True (\<lambda>x. x\<lparr>ev_control := take (nat num) con @ drop (nat num) (ev_control x)\<rparr>) pe))"

definition et_event_getcontrol :: "et_event option \<Rightarrow> int \<times> int list option" where
  "et_event_getcontrol = get_event (\<lambda>x. take ET_STATION_SELECT_INTS (ev_control x))"

definition et_event_setdatastatus :: "et_event option \<Rightarrow> int \<Rightarrow> int \<times> et_event option" where
  "et_event_setdatastatus pe datastatus =
     set_event (\<not> (datastatus \<noteq> ET_DATA_OK \<and> datastatus \<noteq> ET_DATA_CORRUPT \<and> datastatus \<noteq> ET_DATA_POSSIBLY_CORRUPT))
       (\<lambda>x. x\<lparr>ev_datastatus := datastatus\<rparr>) pe"

definition et_event_getdatastatus :: "et_event option \<Rightarrow> int \<times> int option" where
  "et_event_getdatastatus = get_event ev_datastatus"

abbreviation (input) "ET_ENDIAN_BIG \<equiv> (0::int)"
abbreviation (input) "ET_ENDIAN_LITTLE \<equiv> (1::int)"
abbreviation (input) "ET_ENDIAN_LOCAL \<equiv> (2::int)"
abbreviation (input) "ET_ENDIAN_NOTLOCAL \<equiv> (3::int)"
abbreviation (input) "ET_ENDIAN_SWITCH \<equiv> (4::int)"
abbreviation (input) "ET_NOSWAP \<equiv> (0::int)"
abbreviation (input) "ET_SWAP \<equiv> (1::int)"

definition ET_SWAP32 :: "32 word \<Rightarrow> 32 word" where
  "ET_SWAP32 x = drop_bit 24 x OR drop_bit 8 (x AND 0x00ff0000) OR push_bit 8 (x AND 0x0000ff00) OR push_bit 24 x"

text \<open>\<open>order\<close> is the status and the byte order that \<open>etNetLocalByteOrder\<close> finds.\<close>

definition et_event_setendian :: "int \<times> int \<Rightarrow> et_event option \<Rightarrow> int \<Rightarrow> int \<times> et_event option" where
  "et_event_setendian order pe endian =
     (if fst order \<noteq> ET_OK then (fst order, pe)
      else if endian = ET_ENDIAN_BIG \<or> endian = ET_ENDIAN_LITTLE then
        set_event True (\<lambda>x. x\<lparr>ev_byteorder := (if snd order = endian then 0x04030201 else 0x01020304)\<rparr>) pe
      else if endian = ET_ENDIAN_LOCAL then set_event True (\<lambda>x. x\<lparr>ev_byteorder := 0x04030201\<rparr>) pe
      else if endian = ET_ENDIAN_NOTLOCAL then set_event True (\<lambda>x. x\<lparr>ev_byteorder := 0x01020304\<rparr>) pe
      else set_event (endian = ET_ENDIAN_SWITCH) (\<lambda>x. x\<lparr>ev_byteorder := sint (ET_SWAP32 (word_of_int (ev_byteorder x)))\<rparr>) pe)"

definition et_event_getendian :: "int \<times> int \<Rightarrow> et_event option \<Rightarrow> int \<times> int option" where
  "et_event_getendian order pe =
     (if pe = None then (ET_ERROR, None)
      else if fst order \<noteq> ET_OK then (fst order, None)
      else get_event (\<lambda>x. if ev_byteorder x = 0x04030201 then snd order
                          else if snd order = ET_ENDIAN_BIG then ET_ENDIAN_LITTLE else ET_ENDIAN_BIG) pe)"

definition et_event_needtoswap :: "et_event option \<Rightarrow> int \<times> int option" where
  "et_event_needtoswap = get_event (\<lambda>x. if ev_byteorder x = 0x04030201 then ET_NOSWAP else ET_SWAP)"

end
