(* ===== verification/ET_ShellSort.thy ===== *)
theory ET_ShellSort
  imports ET_Prelude
begin

text \<open>
  The sort used by the equal-cue distribution (src/libsrc/et\_system.c: \<open>shellSort\<close>), which sorts an
  array \<open>a\<close> and carries a second array \<open>b\<close> along. The C routine indexes from 1 to \<open>n\<close>; element
  \<open>i\<close> is element \<open>i - 1\<close> of the lists here. The increments are never 0 (they are 1, 4, 13, ...),
  so the test \<open>0 < inc\<close> of the inner loop only serves termination.
\<close>

section \<open>The routine\<close>

function shell_insert ::
  "nat \<Rightarrow> nat \<Rightarrow> int \<Rightarrow> int list \<Rightarrow> nat list \<Rightarrow> nat \<times> int list \<times> nat list" where
  "shell_insert inc j v a b =
     (if 0 < inc \<and> a ! (j - inc - 1) > v then
        let a' = a[j - 1 := a ! (j - inc - 1)]; b' = b[j - 1 := b ! (j - inc - 1)]; j' = j - inc
        in if j' \<le> inc then (j', a', b') else shell_insert inc j' v a' b'
      else (j, a, b))"
  by pat_completeness auto
termination by (relation "measure (\<lambda>(inc, j, v, a, b). j)") auto

declare shell_insert.simps [simp del]

definition shell_step :: "nat \<Rightarrow> nat \<Rightarrow> int list \<times> nat list \<Rightarrow> int list \<times> nat list" where
  "shell_step inc i ab =
     (let (a, b) = ab; v = a ! (i - 1); w = b ! (i - 1);
          (j, a', b') = shell_insert inc i v a b
      in (a'[j - 1 := v], b'[j - 1 := w]))"

definition shell_pass :: "nat \<Rightarrow> nat \<Rightarrow> int list \<times> nat list \<Rightarrow> int list \<times> nat list" where
  "shell_pass inc n ab = fold (shell_step inc) [inc + 1..<n + 1] ab"

function shell_grow :: "nat \<Rightarrow> nat \<Rightarrow> nat" where
  "shell_grow n inc = (let inc' = inc * 3 + 1 in if inc' \<le> n then shell_grow n inc' else inc')"
  by pat_completeness auto
termination by (relation "measure (\<lambda>(n, inc). Suc n - inc)") auto

declare shell_grow.simps [simp del]

function shell_passes :: "nat \<Rightarrow> nat \<Rightarrow> int list \<times> nat list \<Rightarrow> int list \<times> nat list" where
  "shell_passes n inc ab =
     (let inc' = inc div 3; ab' = shell_pass inc' n ab
      in if inc' > 1 then shell_passes n inc' ab' else ab')"
  by pat_completeness auto
termination by (relation "measure (\<lambda>(n, inc, ab). inc)") auto

declare shell_passes.simps [simp del]

definition shellSort :: "nat \<Rightarrow> int list \<Rightarrow> nat list \<Rightarrow> int list \<times> nat list" where
  "shellSort n a b = shell_passes n (shell_grow n 1) (a, b)"

section \<open>It permutes the pairs\<close>

lemma shell_insert_fill:
  assumes "inc < j" "j \<le> length a" "length b = length a" "shell_insert inc j v a b = (k, a', b')"
  shows "0 < k \<and> k \<le> length a \<and> length a' = length a \<and> length b' = length a \<and>
     mset (zip (a'[k - 1 := v]) (b'[k - 1 := w])) = mset (zip (a[j - 1 := v]) (b[j - 1 := w]))"
  using assms
proof (induction inc j v a b arbitrary: k a' b' rule: shell_insert.induct)
  case (1 inc j v a b)
  show ?case
  proof (cases "0 < inc \<and> a ! (j - inc - 1) > v")
    case False
    with 1 show ?thesis by (subst (asm) (2) shell_insert.simps) auto
  next
    case True
    define q where "q = j - inc - 1"
    define a1 where "a1 = a[j - 1 := a ! q]"
    define b1 where "b1 = b[j - 1 := b ! q]"
    have q: "q < length a" "q \<noteq> j - 1" "j - 1 < length a" "j - inc - 1 = q" "j - inc = Suc q"
      using 1 True by (auto simp: q_def)
    let ?z = "zip (a[j - 1 := v]) (b[j - 1 := w])"
    have zl: "length ?z = length a" using 1 by simp
    have sw: "zip (a1[q := v]) (b1[q := w]) = ?z[j - 1 := ?z ! q, q := ?z ! (j - 1)]"
      using q 1 by (intro nth_equalityI) (auto simp: a1_def b1_def nth_list_update)
    have m: "mset (zip (a1[q := v]) (b1[q := w])) = mset ?z"
      unfolding sw using q zl by (intro mset_swap) auto
    have run: "shell_insert inc j v a b =
        (if j - inc \<le> inc then (j - inc, a1, b1) else shell_insert inc (j - inc) v a1 b1)"
      using True by (subst shell_insert.simps) (simp add: Let_def a1_def b1_def q_def)
    show ?thesis
    proof (cases "j - inc \<le> inc")
      case stop: True
      with run 1(5) have "k = j - inc" "a' = a1" "b' = b1" by auto
      with m q 1 show ?thesis by (simp add: a1_def b1_def)
    next
      case False
      with run 1(5) have "shell_insert inc (j - inc) v a1 b1 = (k, a', b')" by simp
      moreover have "inc < j - inc" "j - inc \<le> length a1" "length b1 = length a1" "length a1 = length a"
        using False 1(3,4) by (simp_all add: a1_def b1_def)
      ultimately have "0 < k \<and> k \<le> length a1 \<and> length a' = length a1 \<and> length b' = length a1 \<and>
          mset (zip (a'[k - 1 := v]) (b'[k - 1 := w])) = mset (zip (a1[j - inc - 1 := v]) (b1[j - inc - 1 := w]))"
        using False by (intro 1(1) [OF True, of a1 b1 "j - inc"]) (simp_all add: a1_def b1_def q_def)
      with m q(4) \<open>length a1 = length a\<close> show ?thesis by simp
    qed
  qed
qed

lemma shell_step_mset:
  assumes "inc < i" "i \<le> length a" "length b = length a"
  shows "length (fst (shell_step inc i (a, b))) = length a \<and> length (snd (shell_step inc i (a, b))) = length a \<and>
     mset (zip (fst (shell_step inc i (a, b))) (snd (shell_step inc i (a, b)))) = mset (zip a b)"
proof -
  obtain k a' b' where r: "shell_insert inc i (a ! (i - 1)) a b = (k, a', b')" by (cases rule: prod_cases3)
  from shell_insert_fill [OF assms r, of "b ! (i - 1)"] r show ?thesis by (simp add: shell_step_def)
qed

lemma shell_pass_mset:
  assumes "n \<le> length a" "length b = length a"
  shows "length (fst (shell_pass inc n (a, b))) = length a \<and> length (snd (shell_pass inc n (a, b))) = length a \<and>
     mset (zip (fst (shell_pass inc n (a, b))) (snd (shell_pass inc n (a, b)))) = mset (zip a b)"
proof -
  have "length (fst (fold (shell_step inc) is (a, b))) = length a \<and>
      length (snd (fold (shell_step inc) is (a, b))) = length a \<and>
      mset (zip (fst (fold (shell_step inc) is (a, b))) (snd (fold (shell_step inc) is (a, b)))) = mset (zip a b)"
    if "\<forall>i \<in> set is. inc < i \<and> i \<le> length a" for "is"
    using that assms(2)
  proof (induction "is" arbitrary: a b)
    case (Cons i js)
    have "inc < i" "i \<le> length a" using Cons.prems by auto
    note st = shell_step_mset [OF this Cons.prems(2)]
    obtain a1 b1 where ab1: "shell_step inc i (a, b) = (a1, b1)" by (cases "shell_step inc i (a, b)")
    with st Cons.prems Cons.IH [of a1 b1] show ?case by simp
  qed simp
  from this [of "[inc + 1..<n + 1]"] assms(1) show ?thesis unfolding shell_pass_def by (auto simp del: upt_Suc)
qed

lemma shell_passes_mset:
  assumes "n \<le> length a" "length b = length a"
  shows "length (fst (shell_passes n inc (a, b))) = length a \<and> length (snd (shell_passes n inc (a, b))) = length a \<and>
     mset (zip (fst (shell_passes n inc (a, b))) (snd (shell_passes n inc (a, b)))) = mset (zip a b)"
  using assms
proof (induction n inc "(a, b)" arbitrary: a b rule: shell_passes.induct)
  case (1 n inc a b)
  obtain a1 b1 where p: "shell_pass (inc div 3) n (a, b) = (a1, b1)" by (cases "shell_pass (inc div 3) n (a, b)")
  note m = shell_pass_mset [OF 1(2,3), of "inc div 3", unfolded p fst_conv snd_conv]
  show ?case
  proof (cases "inc div 3 > 1")
    case True
    have "length (fst (shell_passes n (inc div 3) (a1, b1))) = length a1 \<and>
      length (snd (shell_passes n (inc div 3) (a1, b1))) = length a1 \<and>
      mset (zip (fst (shell_passes n (inc div 3) (a1, b1))) (snd (shell_passes n (inc div 3) (a1, b1)))) = mset (zip a1 b1)"
      using True m 1(2) by (intro 1(1)) (simp_all add: p)
    with m True show ?thesis by (subst (1 2 3 4) shell_passes.simps) (simp add: p)
  next
    case False
    with m show ?thesis by (subst (1 2 3 4) shell_passes.simps) (simp add: p)
  qed
qed

section \<open>It sorts\<close>

lemma shell_insert_one:
  assumes "xs \<noteq> []"
  shows "\<exists>k a' b'. shell_insert 1 (Suc (length xs)) v (xs @ x # ys) b = (Suc k, a', b') \<and>
     k = length (dropWhile (\<lambda>u. u > v) (rev xs)) \<and> a'[k := v] = take k xs @ v # drop k xs @ ys"
  using assms
proof (induction xs arbitrary: x ys b rule: rev_induct)
  case (snoc u xs)
  let ?a = "(xs @ [u]) @ x # ys" and ?j = "Suc (length (xs @ [u]))"
  have at: "?a ! (?j - 1 - 1) = u" by (simp add: nth_append)
  have up: "?a[?j - 1 := u] = xs @ u # u # ys" by (simp add: list_update_append)
  show ?case
  proof (cases "u > v")
    case False
    have "shell_insert 1 ?j v ?a b = (?j, ?a, b)" using False at by (subst shell_insert.simps) simp
    moreover have "?a[length (xs @ [u]) := v] = (xs @ [u]) @ v # ys" by (rule list_update_length)
    ultimately show ?thesis using False by simp
  next
    case True
    define b1 where "b1 = b[?j - 1 := b ! (?j - 1 - 1)]"
    have run: "shell_insert 1 ?j v ?a b =
        (if length xs + 1 \<le> 1 then (length xs + 1, xs @ u # u # ys, b1)
         else shell_insert 1 (Suc (length xs)) v (xs @ u # u # ys) b1)"
      using True at up by (subst shell_insert.simps) (simp add: Let_def b1_def)
    show ?thesis
    proof (cases "xs = []")
      case True
      with run \<open>u > v\<close> show ?thesis by simp
    next
      case False
      from snoc.IH [OF False, of u "u # ys" b1] obtain k a' b' where
        IH: "shell_insert 1 (Suc (length xs)) v (xs @ u # u # ys) b1 = (Suc k, a', b')"
          "k = length (dropWhile (\<lambda>u. u > v) (rev xs))" "a'[k := v] = take k xs @ v # drop k xs @ u # ys" by blast
      have "k \<le> length xs" using IH(2) length_dropWhile_le [of "\<lambda>u. u > v" "rev xs"] by simp
      with run IH False \<open>u > v\<close> show ?thesis by simp
    qed
  qed
qed simp

lemma sorted_insert_back:
  assumes "sorted xs" "k = length (dropWhile (\<lambda>u. u > v) (rev xs))"
  shows "sorted (take k xs @ v # drop k xs)"
proof -
  have rx: "rev xs = takeWhile (\<lambda>u. u > v) (rev xs) @ dropWhile (\<lambda>u. u > v) (rev xs)" by simp
  then have xs: "xs = rev (dropWhile (\<lambda>u. u > v) (rev xs)) @ rev (takeWhile (\<lambda>u. u > v) (rev xs))"
    by (metis rev_append rev_rev_ident)
  let ?L = "rev (dropWhile (\<lambda>u. u > v) (rev xs))" and ?R = "rev (takeWhile (\<lambda>u. u > v) (rev xs))"
  have t: "take k xs = ?L" "drop k xs = ?R" using assms(2) by (subst xs, simp)+
  have R: "\<forall>u \<in> set ?R. v < u" by (auto dest: set_takeWhileD)
  have s: "sorted ?L" "sorted ?R" "\<forall>x \<in> set ?L. \<forall>y \<in> set ?R. x \<le> y"
    using assms(1) xs sorted_append [of ?L ?R] by metis+
  have L: "\<forall>u \<in> set ?L. u \<le> v"
  proof (cases "?L = []")
    case False
    then have "\<not> v < last ?L" using hd_dropWhile [of "\<lambda>u. u > v" "rev xs"] by (simp add: last_rev)
    moreover have "u \<le> last ?L" if "u \<in> set ?L" for u using s(1) that by (rule sorted_le_last)
    ultimately show ?thesis by fastforce
  next
    case True
    then have "u \<notin> set ?L" for u by (simp only: list.set) simp
    then show ?thesis by metis
  qed
  show ?thesis unfolding t using s R L by (auto simp: sorted_append intro: less_imp_le)
qed

lemma shell_step_one:
  assumes "xs \<noteq> []" "sorted xs"
  shows "\<exists>xs' b'. shell_step 1 (Suc (length xs)) (xs @ x # ys, b) = (xs' @ ys, b') \<and> sorted xs' \<and> length xs' = Suc (length xs)"
proof -
  from shell_insert_one [OF assms(1), of x x ys b] obtain k a' b' where
    r: "shell_insert 1 (Suc (length xs)) x (xs @ x # ys) b = (Suc k, a', b')"
      "k = length (dropWhile (\<lambda>u. u > x) (rev xs))" "a'[k := x] = take k xs @ x # drop k xs @ ys" by blast
  have "k \<le> length xs" using r(2) length_dropWhile_le [of "\<lambda>u. u > x" "rev xs"] by simp
  with r sorted_insert_back [OF assms(2) r(2)] show ?thesis
    by (intro exI [of _ "take k xs @ x # drop k xs"]) (simp add: shell_step_def)
qed

lemma shell_pass_one:
  assumes "length ys = m" "xs \<noteq> []" "sorted xs"
  shows "\<exists>xs' b'. fold (shell_step 1) [Suc (length xs)..<Suc (length xs + m)] (xs @ ys @ zs, b) = (xs' @ zs, b') \<and>
     sorted xs' \<and> length xs' = length xs + m"
  using assms
proof (induction m arbitrary: xs ys b)
  case (Suc m)
  then obtain y ys' where y: "ys = y # ys'" "length ys' = m" by (cases ys) auto
  from shell_step_one [OF Suc.prems(2,3), of y "ys' @ zs" b] obtain xs1 b1 where
    s: "shell_step 1 (Suc (length xs)) (xs @ y # ys' @ zs, b) = (xs1 @ ys' @ zs, b1)" "sorted xs1"
      "length xs1 = Suc (length xs)" by blast
  then have "xs1 \<noteq> []" by auto
  from Suc.IH [OF y(2) this s(2), of b1] s(3) obtain xs' b' where
    "fold (shell_step 1) [Suc (Suc (length xs))..<Suc (Suc (length xs + m))] (xs1 @ ys' @ zs, b1) = (xs' @ zs, b')"
    "sorted xs'" "length xs' = length xs + Suc m" by auto
  moreover have "[Suc (length xs)..<Suc (length xs + Suc m)] =
      Suc (length xs) # [Suc (Suc (length xs))..<Suc (Suc (length xs + m))]"
    by (subst upt_conv_Cons) auto
  ultimately show ?case using s(1) y(1) by (simp del: upt_Suc)
qed simp

lemma shell_pass_sorts:
  assumes "n \<le> length a" "1 \<le> n"
  shows "sorted (take n (fst (shell_pass 1 n (a, b))))"
proof -
  obtain x xs where a: "take n a = x # xs" using assms by (cases "take n a") auto
  then have split: "a = [x] @ xs @ drop n a" by (metis append_Cons append_Nil append_take_drop_id)
  have len: "length xs = n - 1" using arg_cong [OF a, of length] assms by simp
  from shell_pass_one [OF len, of "[x]" "drop n a" b] split obtain xs' b' where
    "fold (shell_step 1) [Suc 1..<Suc (1 + (n - 1))] (a, b) = (xs' @ drop n a, b')" "sorted xs'" "length xs' = n"
    using assms(2) by auto
  with assms(2) show ?thesis by (simp add: shell_pass_def del: upt_Suc)
qed

fun shell_inc :: "nat \<Rightarrow> nat" where
  "shell_inc 0 = 1"
| "shell_inc (Suc k) = 3 * shell_inc k + 1"

lemma shell_grow_inc: "\<exists>k'. shell_grow n (shell_inc k) = shell_inc (Suc k')"
proof (induction n "shell_inc k" arbitrary: k rule: shell_grow.induct)
  case (1 n)
  show ?case
  proof (cases "shell_inc k * 3 + 1 \<le> n")
    case True
    then have "\<exists>k'. shell_grow n (shell_inc (Suc k)) = shell_inc (Suc k')"
      by (intro 1) (simp_all add: mult.commute)
    with True show ?thesis by (subst shell_grow.simps) (simp add: mult.commute)
  next
    case False
    then show ?thesis by (subst shell_grow.simps) (auto simp: mult.commute intro!: exI [of _ k])
  qed
qed

lemma shell_inc_ge: "shell_inc k \<ge> 1"
  by (induction k) auto

lemma shell_passes_sorts:
  assumes "n \<le> length a" "length b = length a" "1 \<le> n"
  shows "sorted (take n (fst (shell_passes n (shell_inc (Suc k)) (a, b))))"
  using assms
proof (induction k arbitrary: a b)
  case 0
  then show ?case by (subst shell_passes.simps) (simp add: shell_pass_sorts [unfolded One_nat_def] Let_def)
next
  case (Suc k)
  obtain a1 b1 where p: "shell_pass (shell_inc (Suc k)) n (a, b) = (a1, b1)"
    by (cases "shell_pass (shell_inc (Suc k)) n (a, b)")
  have "length a1 = length a" "length b1 = length a"
    using shell_pass_mset [OF Suc.prems(1,2), of "shell_inc (Suc k)"] p by simp_all
  with Suc.IH [of a1 b1] Suc.prems have IH: "sorted (take n (fst (shell_passes n (shell_inc (Suc k)) (a1, b1))))" by simp
  have d: "shell_inc (Suc (Suc k)) div 3 = shell_inc (Suc k)" "1 < shell_inc (Suc k)"
    using shell_inc_ge [of k] by simp_all
  show ?case by (subst shell_passes.simps) (simp only: d Let_def p if_True IH)
qed

lemma shellSort_correct:
  assumes "n \<le> length a" "length b = length a" "1 \<le> n"
  shows "sorted (take n (fst (shellSort n a b))) \<and> length (fst (shellSort n a b)) = length a \<and>
     length (snd (shellSort n a b)) = length a \<and>
     mset (zip (fst (shellSort n a b)) (snd (shellSort n a b))) = mset (zip a b)"
proof -
  obtain k where "shell_grow n 1 = shell_inc (Suc k)" using shell_grow_inc [of n 0] by auto
  with shell_passes_sorts [OF assms] shell_passes_mset [OF assms(1,2)] show ?thesis
    by (simp add: shellSort_def)
qed

section \<open>Properties\<close>

text \<open>
  C25. \<open>shellSort\<close> sorts the first array and carries the second along: the result is sorted, and the
  pairs of elements at the same index are a permutation of the pairs before, so each sorted queue
  length still stands beside the number of the station it belongs to.
\<close>

theorem shellSort_sorts:
  assumes "1 \<le> n" "length a = n" "length b = n" "shellSort n a b = (a', b')"
  shows "sorted a' \<and> length b' = n \<and> mset (zip a' b') = mset (zip a b)"
  using shellSort_correct [of n a b] assms by auto

theorem shellSort_sorts_witness:
  "sorted (fst (shellSort 3 [5, 2, 4] [1, 2, 3]))"
  using shellSort_sorts [of 3 "[5, 2, 4]" "[1, 2, 3]" "fst (shellSort 3 [5, 2, 4] [1, 2, 3])"
      "snd (shellSort 3 [5, 2, 4] [1, 2, 3])"] by simp

end
