(* ===== verification/ET_Select.thy ===== *)
theory ET_Select
  imports ET_LList
begin

text \<open>
  How a conductor chooses the events that go into one station (src/libsrc/et\_system.c:
  \<open>et_condition\<close> and the selection branches of \<open>et_conductor\<close>).

  \<open>event_put\<close> is the conductor's array of flags that mark the events already given to an earlier
  station; it is a list as long as the list of all events the conductor read. The function of a
  station in the mode \<open>ET_STATION_SELECT_USER\<close> comes from a shared library and is a parameter.
  A blocking station's \<open>prescale\<close> is at least 1, which \<open>et_station_config_check\<close> ensures.
\<close>

section \<open>The selection function\<close>

fun condition_loop :: "nat \<Rightarrow> int list \<Rightarrow> int list \<Rightarrow> bool \<Rightarrow> bool" where
  "condition_loop i (s # ss) (c # cs) result =
     condition_loop (Suc i) ss cs
       (if i mod 2 = 0 then result \<or> (s \<noteq> -1 \<and> s = c) else result \<or> (s \<noteq> -1 \<and> and s c \<noteq> 0))"
| "condition_loop i _ _ result = result"

definition et_condition :: "et_stat_config \<Rightarrow> et_event \<Rightarrow> bool" where
  "et_condition config pe = condition_loop 0 (take ET_STATION_SELECT_INTS (cf_select config))
     (take ET_STATION_SELECT_INTS (ev_control pe)) False"

type_synonym user_function = "string \<Rightarrow> string \<Rightarrow> int \<Rightarrow> et_event \<Rightarrow> bool"

definition station_func :: "user_function \<Rightarrow> et_station \<Rightarrow> et_event \<Rightarrow> bool" where
  "station_func ufunc ps pe =
     (if cf_select_mode (st_config ps) = ET_STATION_SELECT_MATCH then et_condition (st_config ps) pe
      else ufunc (cf_lib (st_config ps)) (cf_fname (st_config ps)) (st_num ps) pe)"

section \<open>The loops over the events\<close>

fun prescale_loop ::
  "(nat \<Rightarrow> bool) \<Rightarrow> int \<Rightarrow> uint64 \<Rightarrow> nat list \<Rightarrow> bool list \<Rightarrow> nat list \<times> bool list \<times> uint64" where
  "prescale_loop f prescale events_try (e # es) (p # ps) =
     (if p then
        let (out, ps', t) = prescale_loop f prescale events_try es ps in (out, p # ps', t)
      else if \<not> f e then
        let (out, ps', t) = prescale_loop f prescale events_try es ps in (out, p # ps', t)
      else if events_try mod word_of_int prescale = 0 then
        let (out, ps', t) = prescale_loop f prescale (events_try + 1) es ps in (e # out, True # ps', t)
      else
        let (out, ps', t) = prescale_loop f prescale (events_try + 1) es ps in (out, p # ps', t))"
| "prescale_loop f prescale events_try _ ps = ([], ps, events_try)"

fun cue_loop :: "(nat \<Rightarrow> bool) \<Rightarrow> int \<Rightarrow> nat list \<Rightarrow> bool list \<Rightarrow> nat list \<times> bool list" where
  "cue_loop f j (e # es) (p # ps) =
     (if p then let (out, ps') = cue_loop f j es ps in (out, p # ps')
      else if \<not> f e then let (out, ps') = cue_loop f j es ps in (out, p # ps')
      else if j - 1 = 0 then ([e], True # ps)
      else let (out, ps') = cue_loop f (j - 1) es ps in (e # out, True # ps'))"
| "cue_loop f j _ ps = ([], ps)"

definition unput :: "nat list \<Rightarrow> bool list \<Rightarrow> nat list" where
  "unput es ps = map fst (filter (\<lambda>(e, p). \<not> p) (zip es ps))"

text \<open>
  The selection for a station other than GrandCentral: the events to put, the flags afterwards,
  the list with its \<open>events_try\<close> counter, and whether everything is dumped into the station.
\<close>

definition select_events ::
  "user_function \<Rightarrow> evheap \<Rightarrow> et_station \<Rightarrow> bool \<Rightarrow> nat list \<Rightarrow> bool list \<Rightarrow> nat list \<times> bool list \<times> et_list \<times> bool" where
  "select_events ufunc ev ps firstimethruloop allevents event_put =
     (let pl = st_list_in ps; c = st_config ps in
      if cf_select_mode c = ET_STATION_SELECT_ALL \<and> cf_block_mode c = ET_STATION_BLOCKING then
        if firstimethruloop \<and> cf_prescale c = 1 then
          (allevents, event_put,
           pl\<lparr>l_events_try := l_events_try pl + word_of_nat (length allevents)\<rparr>, True)
        else
          let (out, put, t) = prescale_loop (\<lambda>e. True) (cf_prescale c) (l_events_try pl) allevents event_put
          in (out, put, pl\<lparr>l_events_try := t\<rparr>, False)
      else if cf_select_mode c = ET_STATION_SELECT_ALL \<and> cf_block_mode c = ET_STATION_NONBLOCKING then
        if l_cnt pl < cf_cue c then
          let (out, put) = cue_loop (\<lambda>e. True) (cf_cue c - l_cnt pl) allevents event_put
          in (out, put, pl, False)
        else ([], event_put, pl, False)
      else if cf_block_mode c = ET_STATION_BLOCKING then
        let (out, put, t) = prescale_loop (\<lambda>e. station_func ufunc ps (ev e)) (cf_prescale c) (l_events_try pl)
              allevents event_put
        in (out, put, pl\<lparr>l_events_try := t\<rparr>, False)
      else if cf_block_mode c = ET_STATION_NONBLOCKING then
        if l_cnt pl < cf_cue c then
          let (out, put) = cue_loop (\<lambda>e. station_func ufunc ps (ev e)) (cf_cue c - l_cnt pl) allevents event_put
          in (out, put, pl, False)
        else ([], event_put, pl, False)
      else ([], event_put, pl, False))"

section \<open>What the loops select\<close>

lemma unput_simps [simp]:
  "unput [] ps = []" "unput es [] = []"
  "unput (e # es) (p # ps) = (if p then unput es ps else e # unput es ps)"
  by (simp_all add: unput_def)

lemma unput_replicate [simp]: "length es \<le> n \<Longrightarrow> unput es (replicate n False) = es"
proof (induction es arbitrary: n)
  case (Cons e es)
  then show ?case by (cases n) auto
qed simp

text \<open>
  The contract of a selection: it takes events that no earlier station got, in their order, marks
  exactly them, and changes no other flag.
\<close>

fun split_put :: "nat list \<Rightarrow> bool list \<Rightarrow> nat list \<Rightarrow> bool list \<Rightarrow> bool" where
  "split_put (e # es) (p # ps) out (q # qs) \<longleftrightarrow>
     (if p then q \<and> split_put es ps out qs
      else if q then out \<noteq> [] \<and> hd out = e \<and> split_put es ps (tl out) qs
      else split_put es ps out qs)"
| "split_put _ ps out qs \<longleftrightarrow> out = [] \<and> qs = ps"

lemma split_put_none [simp]: "split_put es ps [] ps"
  by (induction es ps rule: list_induct2') auto

lemma split_put_mset:
  "split_put es ps out qs \<Longrightarrow> length es = length ps \<Longrightarrow>
     length qs = length ps \<and> mset out + mset (unput es qs) = mset (unput es ps)"
  by (induction es ps out qs rule: split_put.induct) (auto split: if_splits simp: neq_Nil_conv)

lemma split_put_set: "split_put es ps out qs \<Longrightarrow> set out \<subseteq> set es"
  by (induction es ps out qs rule: split_put.induct) (auto split: if_splits simp: neq_Nil_conv)

lemma prescale_loop_split:
  "prescale_loop f n t es ps = (out, qs, t') \<Longrightarrow> split_put es ps out qs"
  by (induction f n t es ps arbitrary: out qs t' rule: prescale_loop.induct)
    (auto simp: Let_def split: if_splits prod.splits)

lemma cue_loop_split: "cue_loop f j es ps = (out, qs) \<Longrightarrow> split_put es ps out qs"
  by (induction f j es ps arbitrary: out qs rule: cue_loop.induct)
    (auto simp: Let_def split: if_splits prod.splits)

text \<open>The events a blocking station takes are every \<open>prescale\<close>-th of those it accepts.\<close>

fun every :: "int \<Rightarrow> uint64 \<Rightarrow> nat list \<Rightarrow> nat list" where
  "every n t [] = []"
| "every n t (x # xs) = (if t mod word_of_int n = 0 then x # every n (t + 1) xs else every n (t + 1) xs)"

lemma prescale_loop_spec:
  assumes "length es = length ps"
  shows "fst (prescale_loop f n t es ps) = every n t (filter f (unput es ps))"
    "snd (snd (prescale_loop f n t es ps)) = t + word_of_nat (length (filter f (unput es ps)))"
  using assms
  by (induction f n t es ps rule: prescale_loop.induct) (auto simp: case_prod_beta add.assoc)

lemma cue_loop_spec:
  assumes "length es = length ps" "0 < j"
  shows "fst (cue_loop f j es ps) = take (nat j) (filter f (unput es ps))"
  using assms
proof (induction f j es ps rule: cue_loop.induct)
  case (1 f j e es p ps)
  have "1 < j \<Longrightarrow> nat j = Suc (nat (j - 1))" by simp
  with 1 show ?case by (auto simp: case_prod_beta)
qed auto

lemma every_nths: "every n t xs = nths xs {i. (t + word_of_nat i) mod word_of_int n = 0}"
proof (induction xs arbitrary: t)
  case (Cons x xs)
  have "{j. Suc j \<in> {i. (t + word_of_nat i) mod word_of_int n = 0}} = {i. (t + 1 + word_of_nat i) mod word_of_int n = 0}"
    by (simp add: ac_simps)
  with Cons show ?case by (simp add: nths_Cons)
qed simp

lemma condition_loop_spec:
  "length cs = length ss \<Longrightarrow> condition_loop k ss cs r \<longleftrightarrow>
     r \<or> (\<exists>i < length ss. ss ! i \<noteq> -1 \<and> (if even (k + i) then ss ! i = cs ! i else and (ss ! i) (cs ! i) \<noteq> 0))"
proof (induction k ss cs r rule: condition_loop.induct)
  case (1 k s ss c cs r)
  let ?P = "\<lambda>i. (s # ss) ! i \<noteq> -1 \<and> (if even (k + i) then (s # ss) ! i = (c # cs) ! i else and ((s # ss) ! i) ((c # cs) ! i) \<noteq> 0)"
  let ?r = "if k mod 2 = 0 then r \<or> (s \<noteq> -1 \<and> s = c) else r \<or> (s \<noteq> -1 \<and> and s c \<noteq> 0)"
  have r: "?r \<longleftrightarrow> r \<or> ?P 0" by (simp add: even_iff_mod_2_eq_zero)
  have "condition_loop k (s # ss) (c # cs) r \<longleftrightarrow> ?r \<or> (\<exists>i < length ss. ?P (Suc i))"
    using 1 by simp
  also have "\<dots> \<longleftrightarrow> r \<or> (\<exists>i < Suc (length ss). ?P i)"
    unfolding r Ex_less_Suc2 by blast
  finally show ?case by simp
qed auto

section \<open>Properties\<close>

definition accepts :: "user_function \<Rightarrow> evheap \<Rightarrow> et_station \<Rightarrow> nat \<Rightarrow> bool" where
  "accepts ufunc ev ps e \<longleftrightarrow> cf_select_mode (st_config ps) = ET_STATION_SELECT_ALL \<or> station_func ufunc ps (ev e)"

text \<open>
  The built-in selection function: an event is accepted when, for one of the six selection
  words that is not -1, the event's control word at the same index is equal to it (even index) or
  has a bit in common with it (odd index).
\<close>

lemma et_condition_accepts:
  assumes "length (cf_select config) = ET_STATION_SELECT_INTS" "length (ev_control pe) = ET_STATION_SELECT_INTS"
  shows "et_condition config pe \<longleftrightarrow> (\<exists>i < ET_STATION_SELECT_INTS. cf_select config ! i \<noteq> -1 \<and>
     (if even i then cf_select config ! i = ev_control pe ! i else and (cf_select config ! i) (ev_control pe ! i) \<noteq> 0))"
  using assms condition_loop_spec [of "ev_control pe" "cf_select config" 0 False] by (simp add: et_condition_def)

text \<open>
  C21. The selection of a conductor for one station. Of the events no earlier station took and the
  station accepts, a blocking station gets those for which its counter \<open>events_try\<close>, which counts
  the accepted events modulo $2^{64}$, is a multiple of the prescale; a nonblocking station gets the first
  ones, at most as many as its cue has room for, so its list never grows beyond the cue. The short
  cut that dumps all events into a station without prescale gives the same events and counter.
\<close>

theorem select_events_spec:
  assumes "length event_put = length allevents" "first \<Longrightarrow> event_put = replicate (length allevents) False"
    "cf_block_mode (st_config ps) = ET_STATION_BLOCKING \<or> cf_block_mode (st_config ps) = ET_STATION_NONBLOCKING"
    "select_events ufunc ev ps first allevents event_put = (toput, put', pl, writeall)"
    "held = filter (accepts ufunc ev ps) (unput allevents event_put)"
  shows "if cf_block_mode (st_config ps) = ET_STATION_BLOCKING
     then toput = nths held {i. (l_events_try (st_list_in ps) + word_of_nat i) mod word_of_int (cf_prescale (st_config ps)) = 0} \<and>
       l_events_try pl = l_events_try (st_list_in ps) + word_of_nat (length held)
     else toput = take (nat (cf_cue (st_config ps) - l_cnt (st_list_in ps))) held \<and>
       l_events_try pl = l_events_try (st_list_in ps) \<and>
       (l_cnt (st_list_in ps) \<le> cf_cue (st_config ps) \<longrightarrow> l_cnt (st_list_in ps) + int (length toput) \<le> cf_cue (st_config ps))"
proof (cases "cf_select_mode (st_config ps) = ET_STATION_SELECT_ALL")
  case True
  then have h: "held = unput allevents event_put" using assms(5) by (simp add: accepts_def)
  show ?thesis
  proof (cases "first \<and> cf_prescale (st_config ps) = 1 \<and> cf_block_mode (st_config ps) = ET_STATION_BLOCKING")
    case dump: True
    then have "held = allevents" using h assms(2) by simp
    with dump True assms(4) show ?thesis by (auto simp: select_events_def Let_def nths_all)
  next
    case False
    with True h assms show ?thesis
      using prescale_loop_spec [of allevents event_put "\<lambda>e. True" "cf_prescale (st_config ps)" "l_events_try (st_list_in ps)"]
        cue_loop_spec [of allevents event_put "cf_cue (st_config ps) - l_cnt (st_list_in ps)" "\<lambda>e. True"]
      by (auto simp: select_events_def Let_def every_nths split: if_splits prod.splits)
  qed
next
  case False
  then have h: "held = filter (\<lambda>e. station_func ufunc ps (ev e)) (unput allevents event_put)"
    using assms(5) by (simp add: accepts_def [abs_def])
  with False assms show ?thesis
    using prescale_loop_spec [of allevents event_put "\<lambda>e. station_func ufunc ps (ev e)" "cf_prescale (st_config ps)" "l_events_try (st_list_in ps)"]
      cue_loop_spec [of allevents event_put "cf_cue (st_config ps) - l_cnt (st_list_in ps)" "\<lambda>e. station_func ufunc ps (ev e)"]
    by (auto simp: select_events_def Let_def every_nths split: if_splits prod.splits)
qed

theorem select_events_spec_witness:
  "fst (select_events (\<lambda>_ _ _ _. True) (sample_heap []) (sample_station\<lparr>st_config := sample_config\<lparr>cf_block_mode := ET_STATION_NONBLOCKING,
     cf_select_mode := ET_STATION_SELECT_ALL, cf_cue := 2\<rparr>\<rparr>) False [0, 1, 2, 3] [True, False, False, False]) = [1, 2]"
proof -
  let ?ps = "sample_station\<lparr>st_config := sample_config\<lparr>cf_block_mode := ET_STATION_NONBLOCKING,
     cf_select_mode := ET_STATION_SELECT_ALL, cf_cue := 2\<rparr>\<rparr>"
  obtain toput put' pl wa where s: "select_events (\<lambda>_ _ _ _. True) (sample_heap []) ?ps False [0, 1, 2, 3] [True, False, False, False]
      = (toput, put', pl, wa)" by (metis prod_cases4)
  from select_events_spec [OF _ _ _ s refl] show ?thesis unfolding s by (simp add: accepts_def [abs_def])
qed

end
