(* ===== verification/ET_Distribute.thy ===== *)
theory ET_Distribute
  imports ET_ShellSort ET_Select
begin

text \<open>
  How a conductor divides events among a group of parallel stations (src/libsrc/et\_system.c,
  \<open>et_conductor\<close>): the equal-cue algorithm, which levels the lengths of the input lists, and the
  dealing of the round-robin algorithm. Both work on the active stations of the group, numbered
  from 0 in the order of the parallel list.
\<close>

section \<open>Equal cues\<close>

fun count_same :: "int \<Rightarrow> int list \<Rightarrow> nat list \<Rightarrow> int list \<Rightarrow> nat \<Rightarrow> int \<Rightarrow> nat \<times> int" where
  "count_same lowest (c # cs) (p # ps) numEvents same nextHigherCue =
     (if lowest = c + numEvents ! (p - 1) then count_same lowest cs ps numEvents (Suc same) nextHigherCue
      else (same, c))"
| "count_same lowest _ _ numEvents same nextHigherCue = (same, nextHigherCue)"

fun add_shares :: "nat list \<Rightarrow> int list \<Rightarrow> int list \<Rightarrow> int list" where
  "add_shares (p # ps) (x # xs) numEvents = add_shares ps xs (numEvents[p - 1 := numEvents ! (p - 1) + x])"
| "add_shares _ _ numEvents = numEvents"

fun fill_cues ::
  "nat \<Rightarrow> int list \<Rightarrow> nat list \<Rightarrow> int \<Rightarrow> int \<Rightarrow> int \<Rightarrow> int \<Rightarrow> int list \<Rightarrow> int list option" where
  "fill_cues 0 cues place left doled lowest nextHigherCue numEvents = None"
| "fill_cues (Suc fuel) cues place left doled lowest nextHigherCue numEvents =
     (if \<not> doled < left then Some numEvents
      else
        let n = length cues;
            (same, higher) = count_same lowest cues place numEvents 0 nextHigherCue
        in if same = n \<or> left - doled < (higher - lowest) * int same then
             if same = 0 then None
             else
               let per = (left - doled) div int same; extra = (left - doled) mod int same
               in Some (add_shares place (map (\<lambda>i. if int i < extra then per + 1 else per) [0..<same]) numEvents)
           else
             let per = higher - lowest
             in fill_cues fuel cues place left (doled + per * int same) higher higher
                  (add_shares place (replicate same per) numEvents))"

definition equal_cue :: "int list \<Rightarrow> int \<Rightarrow> int list option" where
  "equal_cue inListCount events_left =
     (let n = length inListCount;
          (cues, place) = shellSort n inListCount (map Suc [0..<n])
      in fill_cues (Suc n) cues place events_left 0 (cues ! 0) 0 (replicate n 0))"

section \<open>Round robin\<close>

definition deal_count :: "int \<Rightarrow> int \<Rightarrow> nat \<Rightarrow> int" where
  "deal_count events_left numActiveStations i =
     (if int i < events_left mod numActiveStations then events_left div numActiveStations + 1
      else events_left div numActiveStations)"

definition last_event_index :: "int \<Rightarrow> nat \<Rightarrow> nat" where
  "last_event_index events_left numActiveStations =
     (let extra = events_left mod int numActiveStations in
      if extra = 0 then numActiveStations - 1 else nat extra - 1)"

definition deal_first :: "nat list \<Rightarrow> nat \<Rightarrow> nat \<Rightarrow> int \<Rightarrow> nat list" where
  "deal_first allevents numActiveStations i numOfEvents =
     map (\<lambda>j. allevents ! (i + j * numActiveStations)) [0..<nat numOfEvents]"

fun deal_later :: "nat list \<Rightarrow> bool list \<Rightarrow> int \<Rightarrow> nat \<Rightarrow> int \<Rightarrow> nat list" where
  "deal_later (e # es) (p # ps) skip numActiveStations numOfEvents =
     (if p then deal_later es ps skip numActiveStations numOfEvents
      else if skip > 0 then deal_later es ps (skip - 1) numActiveStations numOfEvents
      else if numOfEvents - 1 = 0 then [e]
      else e # deal_later es ps (int numActiveStations - 1) numActiveStations (numOfEvents - 1))"
| "deal_later _ _ skip numActiveStations numOfEvents = []"

definition deal_rrobin :: "bool \<Rightarrow> nat list \<Rightarrow> bool list \<Rightarrow> int \<Rightarrow> nat \<Rightarrow> nat list" where
  "deal_rrobin firstimethruloop allevents event_put events_left numActiveStations =
     concat (map (\<lambda>i.
       let numOfEvents = deal_count events_left (int numActiveStations) i in
       if firstimethruloop then deal_first allevents numActiveStations i numOfEvents
       else deal_later (drop i allevents) (drop i event_put) 0 numActiveStations numOfEvents)
     [0..<numActiveStations])"

fun split_counts :: "nat list \<Rightarrow> int list \<Rightarrow> nat list list" where
  "split_counts es [] = []"
| "split_counts es (n # ns) = take (nat n) es # split_counts (drop (nat n) es) ns"

definition rrobin_shares :: "bool \<Rightarrow> nat list \<Rightarrow> bool list \<Rightarrow> int \<Rightarrow> nat \<Rightarrow> nat list list" where
  "rrobin_shares firstimethruloop allevents event_put events_left numActiveStations =
     split_counts (deal_rrobin firstimethruloop allevents event_put events_left numActiveStations)
       (map (deal_count events_left (int numActiveStations)) [0..<numActiveStations])"

section \<open>The equal-cue algorithm levels the queues\<close>

definition places_ok :: "nat list \<Rightarrow> nat \<Rightarrow> bool" where
  "places_ok place n \<longleftrightarrow> length place = n \<and> distinct (map (\<lambda>p. p - 1) place) \<and> (\<forall>p \<in> set place. p - 1 < n)"

lemma add_shares_spec:
  assumes "distinct (map (\<lambda>p. p - 1) ps)" "\<forall>p \<in> set ps. p - 1 < length num" "length xs \<le> length ps"
  shows "length (add_shares ps xs num) = length num \<and> sum_list (add_shares ps xs num) = sum_list num + sum_list xs \<and>
     (\<forall>q. q \<notin> set (map (\<lambda>p. p - 1) ps) \<longrightarrow> add_shares ps xs num ! q = num ! q) \<and>
     (\<forall>i < length ps. add_shares ps xs num ! (ps ! i - 1) = num ! (ps ! i - 1) + (if i < length xs then xs ! i else 0))"
  using assms
proof (induction ps xs num rule: add_shares.induct)
  case (1 p ps x xs num)
  let ?num = "num[p - 1 := num ! (p - 1) + x]"
  have p: "p - 1 < length num" "p - 1 \<notin> set (map (\<lambda>p. p - 1) ps)" using 1(2,3) by auto
  have IH: "length (add_shares ps xs ?num) = length ?num" "sum_list (add_shares ps xs ?num) = sum_list ?num + sum_list xs"
    "\<And>q. q \<notin> set (map (\<lambda>p. p - 1) ps) \<Longrightarrow> add_shares ps xs ?num ! q = ?num ! q"
    "\<And>i. i < length ps \<Longrightarrow> add_shares ps xs ?num ! (ps ! i - 1) = ?num ! (ps ! i - 1) + (if i < length xs then xs ! i else 0)"
    using 1 by auto
  have s: "sum_list ?num = sum_list num + x" using p(1) by (rule sum_list_bump)
  have ne: "i < length ps \<Longrightarrow> ps ! i - 1 \<noteq> p - 1" for i using p(2) by (metis length_map nth_map nth_mem)
  show ?case
  proof (intro conjI allI impI)
    fix i assume i: "i < length (p # ps)"
    show "add_shares (p # ps) (x # xs) num ! ((p # ps) ! i - 1) =
        num ! ((p # ps) ! i - 1) + (if i < length (x # xs) then (x # xs) ! i else 0)"
    proof (cases i)
      case 0
      then show ?thesis using IH(3) [OF p(2)] p(1) by simp
    next
      case (Suc k)
      then show ?thesis using IH(4) [of k] i ne [of k] by simp
    qed
  next
    fix q assume "q \<notin> set (map (\<lambda>p. p - 1) (p # ps))"
    then show "add_shares (p # ps) (x # xs) num ! q = num ! q" using IH(3) [of q] by simp
  qed (use IH s in simp_all)
qed auto

lemma count_same_spec:
  assumes "length cs = length ps" "\<forall>i < length cs. num ! (ps ! i - 1) = max 0 (low - cs ! i)"
  shows "count_same low cs ps num same h =
     (same + length (takeWhile (\<lambda>c. c \<le> low) cs),
      if dropWhile (\<lambda>c. c \<le> low) cs = [] then h else hd (dropWhile (\<lambda>c. c \<le> low) cs))"
  using assms
proof (induction low cs ps num same h rule: count_same.induct)
  case (1 low c cs p ps num same h)
  have "num ! (p - 1) = max 0 (low - c)" using 1(3) by (metis length_Cons nth_Cons_0 zero_less_Suc)
  then have "low = c + num ! (p - 1) \<longleftrightarrow> c \<le> low" by (auto simp: max_def)
  moreover have "\<forall>i < length cs. num ! (ps ! i - 1) = max 0 (low - cs ! i)"
    using 1(3) by (metis Suc_less_eq length_Cons nth_Cons_Suc)
  ultimately show ?case using 1 by auto
qed auto

definition level :: "int list \<Rightarrow> nat list \<Rightarrow> int list \<Rightarrow> nat \<Rightarrow> int" where
  "level cues place num i = cues ! i + num ! (place ! i - 1)"

definition levelled :: "int list \<Rightarrow> nat list \<Rightarrow> int list \<Rightarrow> int \<Rightarrow> bool" where
  "levelled cues place num left \<longleftrightarrow> length num = length cues \<and> sum_list num = left \<and>
     (\<forall>i < length cues. 0 \<le> num ! (place ! i - 1) \<and>
       (\<forall>k < length cues. 0 < num ! (place ! i - 1) \<longrightarrow> level cues place num i \<le> level cues place num k + 1))"

lemma takeWhile_sorted_nth:
  assumes "sorted (cs :: int list)" "i < length cs"
  shows "i < length (takeWhile (\<lambda>c. c \<le> low) cs) \<longleftrightarrow> cs ! i \<le> low"
proof
  assume "i < length (takeWhile (\<lambda>c. c \<le> low) cs)"
  then show "cs ! i \<le> low" by (metis nth_mem set_takeWhileD takeWhile_nth)
next
  assume le: "cs ! i \<le> low"
  show "i < length (takeWhile (\<lambda>c. c \<le> low) cs)"
  proof (rule ccontr)
    assume n: "\<not> i < length (takeWhile (\<lambda>c. c \<le> low) cs)"
    let ?k = "length (takeWhile (\<lambda>c. c \<le> low) cs)"
    have "?k < length cs" using n assms(2) by linarith
    then have "\<not> cs ! ?k \<le> low" by (rule nth_length_takeWhile)
    moreover have "cs ! ?k \<le> cs ! i" using n assms by (intro sorted_nth_mono) auto
    ultimately show False using le by linarith
  qed
qed

lemma spread_levelled:
  assumes sorted: "sorted cues" and pl: "places_ok place (length cues)"
    and inv: "length num = length cues" "\<forall>i < length cues. num ! (place ! i - 1) = max 0 (low - cues ! i)"
    and s: "s = length (takeWhile (\<lambda>c. c \<le> low) cues)" "0 < s"
    and rest: "sum_list num = doled" "doled < left"
    and fits: "s < length cues \<Longrightarrow> left - doled < (cues ! s - low) * int s"
  defines "q \<equiv> (left - doled) div int s" and "r \<equiv> (left - doled) mod int s"
  shows "levelled cues place (add_shares place (map (\<lambda>i. if int i < r then q + 1 else q) [0..<s]) num) left"
proof -
  let ?xs = "map (\<lambda>i. if int i < r then q + 1 else q) [0..<s]"
  let ?num = "add_shares place ?xs num"
  have sn: "s \<le> length cues" using s(1) by (simp add: length_takeWhile_le)
  have q0: "0 \<le> q" using rest(2) s(2) by (simp add: q_def pos_imp_zdiv_nonneg_iff)
  have r0: "0 \<le> r" "r < int s" using s(2) by (simp_all add: r_def)
  have "sum_list ?xs = left - doled"
  proof -
    have "sum_list (map (\<lambda>i. if int i < r then q + 1 else q) [0..<m]) = int m * q + min r (int m)" if "0 \<le> r" for m
      using that by (induction m) (auto simp: algebra_simps min_def)
    from this [of s] r0 show ?thesis by (simp add: q_def r_def min_def)
  qed
  moreover have "length ?xs \<le> length place" using sn pl by (simp add: places_ok_def)
  ultimately have add: "length ?num = length num" "sum_list ?num = left"
    "\<And>i. i < length cues \<Longrightarrow> ?num ! (place ! i - 1) = num ! (place ! i - 1) + (if i < s then ?xs ! i else 0)"
    using add_shares_spec [of place num ?xs] pl inv(1) rest(1) by (auto simp: places_ok_def)
  have val: "?num ! (place ! i - 1) = (if i < s then low - cues ! i + (if int i < r then q + 1 else q) else 0)"
    if "i < length cues" for i
    using add(3) [OF that] inv(2) that takeWhile_sorted_nth [OF sorted that, of low] s(1) by auto
  have low: "cues ! i \<le> low" if "i < s" for i using takeWhile_sorted_nth [OF sorted, of i low] that sn s(1) by simp
  have high: "low + q + 1 \<le> cues ! k" if "s \<le> k" "k < length cues" for k
  proof -
    have "(left - doled) < (cues ! s - low) * int s" using fits that by simp
    moreover have "q * int s \<le> left - doled"
      using div_mult_mod_eq [of "left - doled" "int s"] r0(1) unfolding q_def r_def by linarith
    ultimately have "q * int s < (cues ! s - low) * int s" by linarith
    then have "q < cues ! s - low" using s(2) by simp
    moreover have "cues ! s \<le> cues ! k" using sorted that by (intro sorted_nth_mono)
    ultimately show ?thesis by linarith
  qed
  show ?thesis unfolding levelled_def level_def
  proof (intro conjI allI impI)
    fix i assume i: "i < length cues"
    show "0 \<le> ?num ! (place ! i - 1)" using val [OF i] low [of i] q0 by auto
    fix k assume k: "k < length cues" and pos: "0 < ?num ! (place ! i - 1)"
    then have "i < s" using val [OF i] by (auto split: if_splits)
    then have "cues ! i + ?num ! (place ! i - 1) \<le> low + q + 1" using val [OF i] by auto
    moreover have "low + q \<le> cues ! k + ?num ! (place ! k - 1)"
      using val [OF k] high [OF _ k] by (cases "k < s") auto
    ultimately show "cues ! i + ?num ! (place ! i - 1) \<le> cues ! k + ?num ! (place ! k - 1) + 1" by linarith
  qed (use add inv(1) in simp_all)
qed

lemma fill_cues_levelled:
  assumes "sorted cues" "places_ok place (length cues)" "length num = length cues"
    "\<forall>i < length cues. num ! (place ! i - 1) = max 0 (low - cues ! i)" "cues \<noteq> []" "hd cues \<le> low"
    "sum_list num = doled" "doled \<le> left"
    "length cues < fuel + length (takeWhile (\<lambda>c. c \<le> low) cues)"
  shows "\<exists>num'. fill_cues fuel cues place left doled low higher num = Some num' \<and> levelled cues place num' left"
  using assms
proof (induction fuel arbitrary: num low higher doled)
  case 0
  then show ?case using length_takeWhile_le [of "\<lambda>c. c \<le> low" cues] by simp
next
  case (Suc fuel)
  let ?n = "length cues" and ?s = "length (takeWhile (\<lambda>c. c \<le> low) cues)"
  have pl: "length place = ?n" using Suc.prems(2) by (simp add: places_ok_def)
  have s0: "0 < ?s" using Suc.prems(5,6) by (cases cues) auto
  have sn: "?s \<le> ?n" by (rule length_takeWhile_le)
  show ?case
  proof (cases "doled < left")
    case False
    then have "levelled cues place num left"
      using Suc.prems(3,4,7,8) unfolding levelled_def level_def by (auto simp: max_def)
    with False show ?thesis by simp
  next
    case True
    obtain h where cs: "count_same low cues place num 0 higher = (?s, h)"
      "?s < ?n \<Longrightarrow> h = cues ! ?s"
    proof -
      have d: "?s < ?n \<Longrightarrow> dropWhile (\<lambda>c. c \<le> low) cues \<noteq> []"
        by (metis append_Nil2 nat_neq_iff takeWhile_dropWhile_id)
      moreover have "?s < ?n \<Longrightarrow> hd (dropWhile (\<lambda>c. c \<le> low) cues) = cues ! ?s"
        using d by (metis hd_conv_nth nth_append_length takeWhile_dropWhile_id append_Cons list.exhaust_sel nth_append_length)
      ultimately have e: "?s < ?n \<Longrightarrow> (if dropWhile (\<lambda>c. c \<le> low) cues = [] then higher
          else hd (dropWhile (\<lambda>c. c \<le> low) cues)) = cues ! ?s" by (simp only: if_False)
      from count_same_spec [of cues place num low 0 higher] pl Suc.prems(4)
      have "count_same low cues place num 0 higher = (?s, if dropWhile (\<lambda>c. c \<le> low) cues = [] then higher
          else hd (dropWhile (\<lambda>c. c \<le> low) cues))" by (simp only: add_0)
      from that [OF this e] show ?thesis by blast
    qed
    show ?thesis
    proof (cases "?s = ?n \<or> left - doled < (h - low) * int ?s")
      case stop: True
      have "levelled cues place (add_shares place (map (\<lambda>i. if int i < (left - doled) mod int ?s
          then (left - doled) div int ?s + 1 else (left - doled) div int ?s) [0..<?s]) num) left"
        using stop cs(2) True Suc.prems s0 by (intro spread_levelled) auto
      with True cs(1) stop s0 show ?thesis by (auto simp: Let_def)
    next
      case False
      then have lt: "?s < ?n" using sn by simp
      note h = cs(2) [OF lt]
      have hl: "low < h" using nth_length_takeWhile [OF lt] h by simp
      let ?num = "add_shares place (replicate ?s (h - low)) num"
      have add: "length ?num = length num" "sum_list ?num = sum_list num + int ?s * (h - low)"
        "\<And>i. i < ?n \<Longrightarrow> ?num ! (place ! i - 1) = num ! (place ! i - 1) + (if i < ?s then h - low else 0)"
        using add_shares_spec [of place num "replicate ?s (h - low)"] Suc.prems(2,3) sn
        by (auto simp: places_ok_def sum_list_replicate)
      have inv: "\<forall>i < ?n. ?num ! (place ! i - 1) = max 0 (h - cues ! i)"
      proof (intro allI impI)
        fix i assume i: "i < ?n"
        show "?num ! (place ! i - 1) = max 0 (h - cues ! i)"
        proof (cases "i < ?s")
          case True
          then have "cues ! i \<le> low" using takeWhile_sorted_nth [OF Suc.prems(1) i] by simp
          with True add(3) [OF i] Suc.prems(4) i hl show ?thesis by simp
        next
          case False
          then have "low < cues ! i" using takeWhile_sorted_nth [OF Suc.prems(1) i] by auto
          moreover have "h \<le> cues ! i" unfolding h using False i Suc.prems(1) by (intro sorted_nth_mono) auto
          ultimately show ?thesis using add(3) [OF i] Suc.prems(4) i False by simp
        qed
      qed
      have more: "?s < length (takeWhile (\<lambda>c. c \<le> h) cues)"
        using takeWhile_sorted_nth [OF Suc.prems(1) lt, of h] h by simp
      have "\<exists>num'. fill_cues fuel cues place left (doled + (h - low) * int ?s) h h ?num = Some num' \<and>
          levelled cues place num' left"
        using Suc.prems False add(1,2) inv hl more by (intro Suc.IH) (auto simp: mult.commute)
      with True cs(1) False show ?thesis by (simp add: Let_def)
    qed
  qed
qed

lemma equal_cue_levelled:
  assumes "cues \<noteq> []" "0 \<le> left"
  shows "\<exists>num. equal_cue cues left = Some num \<and> length num = length cues \<and> sum_list num = left \<and>
     (\<forall>i < length cues. 0 \<le> num ! i \<and>
       (\<forall>k < length cues. 0 < num ! i \<longrightarrow> cues ! i + num ! i \<le> cues ! k + num ! k + 1))"
proof -
  let ?n = "length cues" and ?p = "map Suc [0..<length cues]"
  obtain c p where sp: "shellSort ?n cues ?p = (c, p)" by (cases "shellSort ?n cues ?p")
  have "1 \<le> ?n" using assms(1) by (cases cues) auto
  with shellSort_correct [of ?n cues ?p] sp have s: "sorted c" "length c = ?n" "length p = ?n"
    "mset (zip c p) = mset (zip cues ?p)" by auto
  have mp: "mset p = mset ?p"
    using arg_cong [OF s(4), of "image_mset snd"] s(2,3) by (simp add: mset_map [symmetric] del: mset_map)
  then have "mset (map (\<lambda>p. p - 1) p) = mset (map (\<lambda>p. p - 1) ?p)" by (simp only: mset_map)
  moreover have "map (\<lambda>p. p - 1) ?p = [0..<?n]" by (simp add: comp_def)
  ultimately have d: "distinct (map (\<lambda>p. p - 1) p)" by (metis distinct_upt mset_eq_imp_distinct_iff)
  have "set p = set ?p" using mp by (metis set_mset_mset)
  then have pl: "places_ok p (length c)" using d s(2,3) by (auto simp: places_ok_def)
  have c0: "c \<noteq> []" using s(2) assms(1) by auto
  have hdmin: "c ! 0 \<le> c ! i" if "i < length c" for i using s(1) that by (intro sorted_nth_mono) auto
  have "replicate ?n 0 ! (p ! i - 1) = max 0 (c ! 0 - c ! i)" if "i < length c" for i
  proof -
    have "p ! i - 1 < ?n" using pl that s(2,3) by (auto simp: places_ok_def)
    with hdmin [OF that] show ?thesis by simp
  qed
  moreover have "hd c \<le> c ! 0" using c0 by (simp add: hd_conv_nth)
  ultimately have "\<exists>num. fill_cues (Suc ?n) c p left 0 (c ! 0) 0 (replicate ?n 0) = Some num \<and> levelled c p num left"
    using s pl c0 assms(2) by (intro fill_cues_levelled) (auto simp: sum_list_replicate)
  then obtain num where num: "equal_cue cues left = Some num" "levelled c p num left"
    by (auto simp: equal_cue_def sp)
  have at: "\<exists>i < length c. p ! i - 1 = k \<and> c ! i = cues ! k" if k: "k < ?n" for k
  proof -
    have "(cues ! k, Suc k) \<in> set (zip cues ?p)" using k by (auto simp: set_zip intro!: exI [of _ k])
    then have "(cues ! k, Suc k) \<in> set (zip c p)" using s(4) by (metis set_mset_mset)
    then show ?thesis by (auto simp: set_zip)
  qed
  show ?thesis
  proof (intro exI [of _ num] conjI allI impI)
    fix i assume "i < ?n"
    then obtain i' where i': "i' < length c" "p ! i' - 1 = i" "c ! i' = cues ! i" using at by blast
    with num(2) show "0 \<le> num ! i" by (auto simp: levelled_def)
    fix k assume "k < ?n" and pos: "0 < num ! i"
    then obtain k' where k': "k' < length c" "p ! k' - 1 = k" "c ! k' = cues ! k" using at by blast
    have "level c p num i' \<le> level c p num k' + 1" using num(2) i' k' pos by (auto simp: levelled_def)
    with i' k' show "cues ! i + num ! i \<le> cues ! k + num ! k + 1" by (simp add: level_def)
  qed (use num s(2) in \<open>auto simp: levelled_def\<close>)
qed

section \<open>Dealing in turn\<close>

lemma residue_class:
  assumes "i < n"
  shows "filter (\<lambda>k. k mod n = i) [0..<L] = map (\<lambda>j. i + j * n) [0..<L div n + (if i < L mod n then 1 else 0)]"
proof (induction L)
  case (Suc L)
  have L: "L = L mod n + L div n * n" by (metis div_mult_mod_eq add.commute)
  show ?case
  proof (cases "Suc (L mod n) = n")
    case True
    then have "Suc L mod n = 0" "Suc L div n = Suc (L div n)" by (simp_all add: mod_Suc div_Suc)
    with Suc True assms L show ?thesis by (cases "L mod n = i") (auto simp: less_Suc_eq)
  next
    case False
    then have "Suc L mod n = Suc (L mod n)" "Suc L div n = L div n" by (simp_all add: mod_Suc div_Suc)
    with Suc assms L show ?thesis by (cases "L mod n = i") (auto simp: less_Suc_eq)
  qed
qed simp

lemma nths_filter: "nths es A = map (\<lambda>k. es ! k) (filter (\<lambda>k. k \<in> A) [0..<length es])"
proof -
  have "zip es [0..<length es] = map (\<lambda>k. (es ! k, k)) [0..<length es]"
    by (intro nth_equalityI) auto
  then show ?thesis by (simp add: nths_def filter_map comp_def)
qed

lemma deal_count_nat:
  assumes "0 < n" shows "nat (deal_count (int L) (int n) i) = L div n + (if i < L mod n then 1 else 0)"
proof -
  have "int L div int n = int (L div n)" "int L mod int n = int (L mod n)" by (simp_all add: zdiv_int zmod_int)
  then show ?thesis by (simp add: deal_count_def nat_add_distrib)
qed

lemma deal_first_class:
  assumes "i < n"
  shows "deal_first es n i (deal_count (int (length es)) (int n) i) = nths es {k. k mod n = i}"
  using assms residue_class [OF assms, of "length es"] deal_count_nat [of n "length es" i]
  by (simp add: deal_first_def nths_filter comp_def)

lemma split_counts_concat:
  "map (\<lambda>c. nat c) ns = map length xss \<Longrightarrow> split_counts (concat xss) ns = xss"
proof (induction ns arbitrary: xss)
  case (Cons n ns)
  then show ?case by (cases xss) auto
qed simp

lemma rrobin_first:
  assumes "0 < n"
  shows "rrobin_shares True es put (int (length es)) n = map (\<lambda>i. nths es {k. k mod n = i}) [0..<n]"
proof -
  have d: "deal_rrobin True es put (int (length es)) n = concat (map (\<lambda>i. nths es {k. k mod n = i}) [0..<n])"
    unfolding deal_rrobin_def Let_def if_True
    by (rule arg_cong [of _ _ concat], rule map_cong) (auto simp: deal_first_class)
  have len: "length (nths es {k. k mod n = i}) = nat (deal_count (int (length es)) (int n) i)" if "i < n" for i
    using deal_first_class [OF that, of es] by (metis deal_first_def length_map length_upt minus_nat.diff_0)
  show ?thesis unfolding rrobin_shares_def d by (rule split_counts_concat) (auto simp: len)
qed

section \<open>Properties\<close>

text \<open>
  C24. The equal-cue algorithm always ends and gives out exactly the events there are, a natural
  number to each active station, so that the queues are as level as they can be: after the events
  are added, the queue of a station that received any is at most one event longer than the queue of
  any other station.
\<close>

theorem equal_cue_levels:
  assumes "cues \<noteq> []" "0 \<le> events_left"
  shows "\<exists>num. equal_cue cues events_left = Some num \<and> length num = length cues \<and> sum_list num = events_left \<and>
     (\<forall>i < length cues. 0 \<le> num ! i \<and>
       (\<forall>k < length cues. 0 < num ! i \<longrightarrow> cues ! i + num ! i \<le> cues ! k + num ! k + 1))"
  by (rule equal_cue_levelled [OF assms])

theorem equal_cue_levels_witness:
  "\<exists>num. equal_cue [3, 0, 7, 1] 6 = Some num \<and> length num = 4 \<and> sum_list num = 6"
  using equal_cue_levels [of "[3, 0, 7, 1]" 6] by auto

text \<open>
  When all events go into a group (the first time through the conductor's loop), the round-robin
  algorithm deals them in turn: of \<open>n\<close> active stations the \<open>i\<close>-th from the start station gets exactly
  the events at the positions congruent to \<open>i\<close> modulo \<open>n\<close>, in order. No event is lost or given twice.
\<close>

lemma rrobin_first_deals:
  assumes "0 < n"
  shows "rrobin_shares True es event_put (int (length es)) n = map (\<lambda>i. nths es {k. k mod n = i}) [0..<n]"
  by (rule rrobin_first [OF assms])

text \<open>
  When an earlier station has already taken events, the round-robin algorithm starts the search
  for the \<open>i\<close>-th station at position \<open>i\<close> of all the events instead of the \<open>i\<close>-th event that is left.
  With three events of which the first is gone and two active stations, the second event is given to
  both stations and the third to none.
\<close>

lemma rrobin_later_duplicates:
  "rrobin_shares False [e0, e1, e2] [True, False, False] 2 2 = [[e1], [e1]]"
  by (simp add: rrobin_shares_def deal_rrobin_def deal_count_def upt_rec)

end
