(* ===== verification/ET_Conductor.thy ===== *)
theory ET_Conductor
  imports ET_Distribute ET_StationIO ET_Chain
begin

text \<open>
  The conductor of a station (src/libsrc/et\_system.c: \<open>et_conductor\<close>), the thread that moves events
  from the station's output list into the input lists of the stations downstream and finally to
  GrandCentral. One round of its endless loop is \<open>et_conductor\<close>: it reads the whole output list
  and then serves station after station along the chain until no events are left.

  The conductor's local variables that live across stations are a record: \<open>event_put\<close>, \<open>events_left\<close>
  and \<open>firstimethruloop\<close>. A step returns \<open>None\<close> when it does not return normally (a list mutex that
  this thread would wait for, an index outside the station array, a stale event pointer),
  \<open>Some (False, _)\<close> when the thread ends through \<open>error\<close>, and \<open>Some (True, _)\<close> otherwise. The loops
  that follow station links are bounded by the number of stations, which every well-formed chain
  respects. The conductor holds the transfer lock of its station, so the chain does not change.
\<close>

record cstate =
  c_put :: "bool list"
  c_left :: int
  c_first :: bool

type_synonym cstep = "et_id \<times> cstate \<Rightarrow> (bool \<times> et_id \<times> cstate) option"

definition in_pl :: "et_id \<Rightarrow> nat \<Rightarrow> et_list" where
  "in_pl eid t = st_list_in (id_stats eid ! t)"

definition set_in_pl :: "et_id \<Rightarrow> nat \<Rightarrow> et_list \<Rightarrow> et_id" where
  "set_in_pl eid t pl = upd_stat eid t (\<lambda>ps. ps\<lparr>st_list_in := pl\<rparr>)"

definition is_active :: "et_id \<Rightarrow> nat \<Rightarrow> bool" where
  "is_active eid t \<longleftrightarrow> sd_status (st_data (id_stats eid ! t)) = ET_STATION_ACTIVE"

definition is_parallel :: "et_id \<Rightarrow> nat \<Rightarrow> bool" where
  "is_parallel eid t \<longleftrightarrow> cf_flow_mode (st_config (id_stats eid ! t)) = ET_STATION_PARALLEL"

section \<open>One station\<close>

definition put_into ::
  "nat \<Rightarrow> et_list \<Rightarrow> nat list \<Rightarrow> int \<Rightarrow> bool list \<Rightarrow> cstep" where
  "put_into t pl es left' put' st =
     (let (eid, cs) = st in
      case et_llist_write (nevents_max eid) (id_events eid) pl es (int (length es)) of
        None \<Rightarrow> None
      | Some (numwritten, ev', pl') \<Rightarrow>
          Some (\<not> numwritten < int (length es),
            (set_in_pl eid t pl')\<lparr>id_events := ev'\<rparr>, cs\<lparr>c_left := left', c_put := put'\<rparr>))"

definition offer_station :: "user_function \<Rightarrow> nat list \<Rightarrow> nat \<Rightarrow> cstep" where
  "offer_station ufunc allevents t st =
     (let (eid, cs) = st in
      if l_mutex (in_pl eid t) then None
      else
        let (toput, put', pl, writeall) =
              select_events ufunc (id_events eid) (id_stats eid ! t) (c_first cs) allevents (c_put cs)
        in if toput = [] then Some (True, set_in_pl eid t pl, cs\<lparr>c_put := put'\<rparr>)
           else put_into t pl toput (if writeall then 0 else c_left cs - int (length toput)) put' (eid, cs))"

definition offer_gc :: "nat list \<Rightarrow> cstep" where
  "offer_gc allevents st =
     (let (eid, cs) = st;
          toput = (if c_first cs then allevents else unput allevents (c_put cs));
          num_temp = length (filter (\<lambda>e. ev_temp (id_events eid e) = ET_EVENT_TEMP) toput);
          eid1 = eid\<lparr>id_sys := (id_sys eid)\<lparr>sy_ntemps := sy_ntemps (id_sys eid) - int num_temp\<rparr>\<rparr>
      in if toput = [] then Some (True, eid, cs)
         else if l_mutex (in_pl eid 0) then None
         else case et_llist_write_gc (nevents_max eid1) (id_events eid1) (in_pl eid1 0) toput (int (length toput)) of
                None \<Rightarrow> None
              | Some (status, ev', pl') \<Rightarrow>
                  Some (status \<noteq> ET_ERROR, (set_in_pl eid1 0 pl')\<lparr>id_events := ev'\<rparr>,
                    if status = ET_ERROR then cs else cs\<lparr>c_left := 0\<rparr>))"

definition offer :: "user_function \<Rightarrow> nat list \<Rightarrow> nat \<Rightarrow> cstep" where
  "offer ufunc allevents t st = (if t = 0 then offer_gc allevents st else offer_station ufunc allevents t st)"

section \<open>A group of parallel stations\<close>

fun group_members :: "nat \<Rightarrow> et_station list \<Rightarrow> nat \<Rightarrow> nat list option" where
  "group_members 0 stats s = None"
| "group_members (Suc fuel) stats s =
     (let np = st_nextparallel (stats ! s) in
      if np < 0 then Some [s]
      else case stat_ix stats np of
             None \<Rightarrow> None
           | Some n \<Rightarrow> map_option (Cons s) (group_members fuel stats n))"

text \<open>The loop over the active stations of a group, which stops when no events are left.\<close>

fun each_while :: "('a \<Rightarrow> cstep) \<Rightarrow> 'a list \<Rightarrow> cstep" where
  "each_while f [] st = Some (True, st)"
| "each_while f (t # ts) st =
     (case f t st of
        None \<Rightarrow> None
      | Some (False, st1) \<Rightarrow> Some (False, st1)
      | Some (True, eid1, cs1) \<Rightarrow>
          if ts = [] then Some (True, eid1, cs1)
          else if 0 < c_left cs1 then each_while f ts (eid1, cs1\<lparr>c_first := False\<rparr>)
          else Some (True, eid1, cs1\<lparr>c_first := False\<rparr>))"

text \<open>
  The station that gets the first round-robin event is the first active one after the last
  station marked \<open>waslast\<close>, else the first active one; the marks are cleared on the way.
\<close>

fun rr_start :: "et_id \<Rightarrow> nat list \<Rightarrow> bool \<Rightarrow> nat option \<Rightarrow> nat option" where
  "rr_start eid [] startLooking startStation = startStation"
| "rr_start eid (t # ts) startLooking startStation =
     (let (look1, start1) = (if is_active eid t \<and> startLooking then (False, Some t) else (startLooking, startStation));
          look2 = (if st_waslast (id_stats eid ! t) = 1 then True else look1)
      in rr_start eid ts look2 start1)"

fun clear_waslast :: "nat list \<Rightarrow> et_id \<Rightarrow> et_id" where
  "clear_waslast [] eid = eid"
| "clear_waslast (t # ts) eid = clear_waslast ts
     (if st_waslast (id_stats eid ! t) = 1 then upd_stat eid t (\<lambda>ps. ps\<lparr>st_waslast := 0\<rparr>) else eid)"

definition rotate_to :: "nat \<Rightarrow> nat list \<Rightarrow> nat list" where
  "rotate_to s ts = dropWhile (\<lambda>t. t \<noteq> s) ts @ takeWhile (\<lambda>t. t \<noteq> s) ts"

definition bump_try :: "et_list \<Rightarrow> nat \<Rightarrow> et_list" where
  "bump_try pl n = pl\<lparr>l_events_try := l_events_try pl + word_of_nat n\<rparr>"

fun put_shares :: "nat \<Rightarrow> (nat \<times> nat list \<times> int) list \<Rightarrow> nat \<Rightarrow> cstep" where
  "put_shares lastEventIndex [] cnt st = Some (True, st)"
| "put_shares lastEventIndex ((t, es, n) # rest) cnt st =
     (let (eid0, cs) = st;
          eid = (if cnt = lastEventIndex then upd_stat eid0 t (\<lambda>ps. ps\<lparr>st_waslast := 1\<rparr>) else eid0)
      in if \<not> 0 < n then put_shares lastEventIndex rest (Suc cnt) (eid, cs)
         else if int (length es) \<noteq> n \<or> l_mutex (in_pl eid t) then None
         else case put_into t (bump_try (in_pl eid t) (length es)) es (c_left cs - n) (c_put cs) (eid, cs) of
                None \<Rightarrow> None
              | Some (False, st1) \<Rightarrow> Some (False, st1)
              | Some (True, st1) \<Rightarrow> put_shares lastEventIndex rest (Suc cnt) st1)"

definition serve_rrobin :: "nat list \<Rightarrow> nat list \<Rightarrow> cstep" where
  "serve_rrobin allevents members st =
     (let (eid, cs) = st; active = filter (is_active eid) members; n = length active;
          start = (case rr_start eid members False None of None \<Rightarrow> hd active | Some s \<Rightarrow> s);
          shares = rrobin_shares (c_first cs) allevents (c_put cs) (c_left cs) n;
          counts = map (deal_count (c_left cs) (int n)) [0..<n]
      in put_shares (last_event_index (c_left cs) n) (zip (rotate_to start active) (zip shares counts)) 0
           (clear_waslast members eid, cs))"

fun put_numbers :: "nat list \<Rightarrow> (nat \<times> int) list \<Rightarrow> nat \<Rightarrow> cstep" where
  "put_numbers allevents [] already st = Some (True, st)"
| "put_numbers allevents ((t, n) # rest) already st =
     (let (eid, cs) = st in
      if n < 1 then put_numbers allevents rest already st
      else
        let (es, put') = (if c_first cs then (take (nat n) (drop already allevents), c_put cs)
                          else cue_loop (\<lambda>e. True) n allevents (c_put cs))
        in if int (length es) \<noteq> n \<or> l_mutex (in_pl eid t) then None
           else case put_into t (bump_try (in_pl eid t) (length es)) es (c_left cs - n) put' (eid, cs) of
                  None \<Rightarrow> None
                | Some (False, st1) \<Rightarrow> Some (False, st1)
                | Some (True, st1) \<Rightarrow> put_numbers allevents rest (already + nat n) st1)"

definition serve_equalcue :: "nat list \<Rightarrow> nat list \<Rightarrow> cstep" where
  "serve_equalcue allevents members st =
     (let (eid, cs) = st; active = filter (is_active eid) members in
      case equal_cue (map (\<lambda>t. l_cnt (in_pl eid t)) active) (c_left cs) of
        None \<Rightarrow> None
      | Some numEvents \<Rightarrow> put_numbers allevents (zip active numEvents) 0 st)"

section \<open>The chain\<close>

definition serve :: "user_function \<Rightarrow> nat list \<Rightarrow> nat \<Rightarrow> cstep" where
  "serve ufunc allevents s st =
     (let (eid, cs) = st; c = st_config (id_stats eid ! s) in
      if is_parallel eid s then
        case group_members (length (id_stats eid)) (id_stats eid) s of
          None \<Rightarrow> None
        | Some members \<Rightarrow>
            let active = filter (is_active eid) members in
            if active = [] then Some (True, st)
            else if cf_select_mode c = ET_STATION_SELECT_RROBIN then serve_rrobin allevents members st
            else if cf_select_mode c = ET_STATION_SELECT_EQUALCUE then serve_equalcue allevents members st
            else each_while (offer ufunc allevents) active st
      else if is_active eid s then offer ufunc allevents s st
      else Some (True, st))"

fun conduct :: "nat \<Rightarrow> user_function \<Rightarrow> nat list \<Rightarrow> nat \<Rightarrow> cstep" where
  "conduct 0 ufunc allevents s st = None"
| "conduct (Suc fuel) ufunc allevents s st =
     (if \<not> 0 < c_left (snd st) then Some (True, st)
      else case serve ufunc allevents s st of
             None \<Rightarrow> None
           | Some (False, st1) \<Rightarrow> Some (False, st1)
           | Some (True, eid1, cs1) \<Rightarrow>
               if s = 0 then Some (True, eid1, cs1)
               else
                 let nx = st_next (id_stats eid1 ! s) in
                 if nx < 0 then conduct fuel ufunc allevents 0 (eid1, cs1\<lparr>c_first := False\<rparr>)
                 else case stat_ix (id_stats eid1) nx of
                        None \<Rightarrow> None
                      | Some s' \<Rightarrow> conduct fuel ufunc allevents s' (eid1, cs1\<lparr>c_first := False\<rparr>))"

fun first_parallel :: "nat \<Rightarrow> et_station list \<Rightarrow> nat \<Rightarrow> nat option" where
  "first_parallel 0 stats s = None"
| "first_parallel (Suc fuel) stats s =
     (if st_prevparallel (stats ! s) > -1 then
        (case stat_ix stats (st_prevparallel (stats ! s)) of
           None \<Rightarrow> None
         | Some p \<Rightarrow> first_parallel fuel stats p)
      else Some s)"

definition next_station :: "et_station list \<Rightarrow> nat \<Rightarrow> nat option" where
  "next_station stats me =
     (case (if cf_flow_mode (st_config (stats ! me)) = ET_STATION_PARALLEL
            then first_parallel (length stats) stats me else Some me) of
        None \<Rightarrow> None
      | Some s \<Rightarrow> if st_next (stats ! s) < 0 then Some 0 else stat_ix stats (st_next (stats ! s)))"

definition et_conductor :: "user_function \<Rightarrow> nat \<Rightarrow> et_id \<Rightarrow> (bool \<times> et_id) option" where
  "et_conductor ufunc me eid =
     (let pl = st_list_out (id_stats eid ! me) in
      if l_mutex pl \<or> l_cnt pl < 1 then None
      else case et_llist_read (id_events eid) pl of
             None \<Rightarrow> None
           | Some (events_total, allevents, pl') \<Rightarrow>
               let eid1 = upd_stat eid me (\<lambda>ps. ps\<lparr>st_list_out := pl'\<rparr>);
                   cs = \<lparr>c_put = replicate (length allevents) False, c_left = events_total, c_first = True\<rparr>
               in case next_station (id_stats eid1) me of
                    None \<Rightarrow> None
                  | Some s \<Rightarrow>
                      map_option (\<lambda>(ok, eid', cs'). (ok, eid'))
                        (conduct (Suc (length (id_stats eid1))) ufunc allevents s (eid1, cs)))"

end
