(* ===== verification/ET_Conserve.thy ===== *)
theory ET_Conserve
  imports ET_Conductor
begin

text \<open>
  A round of a conductor (\<open>et_conductor\<close> of theory \<open>ET_Conductor\<close>) loses no event and duplicates
  none. The invariant \<open>cinv\<close> says what every list holds (\<open>Q\<close>) and which events the conductor still has
  in its hands (\<open>H\<close>); every step that serves a station moves events from \<open>H\<close> to
  the \<open>Q\<close> of some station. The locale \<open>event_mover\<close> is the contract of such a step, from which the
  loop over a group of parallel stations follows.
\<close>

section \<open>What a conductor leaves unchanged\<close>

definition strip :: "et_station \<Rightarrow> et_station" where
  "strip ps = ps\<lparr>st_list_in := st_list_out ps, st_waslast := 0\<rparr>"

definition same_chain :: "et_id \<Rightarrow> et_id \<Rightarrow> bool" where
  "same_chain eid eid' \<longleftrightarrow> map strip (id_stats eid') = map strip (id_stats eid) \<and>
     nevents_max eid' = nevents_max eid \<and> id_histogram eid' = id_histogram eid \<and>
     next_only UNIV (id_events eid) (id_events eid')"

lemma same_chain_refl [simp]: "same_chain eid eid"
  by (simp add: same_chain_def)

lemma same_chain_trans: "same_chain a b \<Longrightarrow> same_chain b c \<Longrightarrow> same_chain a c"
  by (auto simp: same_chain_def intro: next_only_trans)

lemma same_chain_is_high: "same_chain eid eid' \<Longrightarrow> is_high (id_events eid') = is_high (id_events eid)"
  by (auto simp: same_chain_def intro: next_only_is_high)

lemma strip_eqD:
  assumes "strip a = strip b"
  shows "st_next a = st_next b" "st_prev a = st_prev b" "st_nextparallel a = st_nextparallel b"
    "st_prevparallel a = st_prevparallel b" "st_num a = st_num b" "st_config a = st_config b"
    "st_data a = st_data b" "st_list_out a = st_list_out b" "st_name a = st_name b"
proof -
  show "st_next a = st_next b" "st_prev a = st_prev b" "st_nextparallel a = st_nextparallel b"
    "st_prevparallel a = st_prevparallel b" "st_num a = st_num b" "st_config a = st_config b"
    "st_data a = st_data b" "st_list_out a = st_list_out b" "st_name a = st_name b"
    using arg_cong [OF assms, of st_next] arg_cong [OF assms, of st_prev]
      arg_cong [OF assms, of st_nextparallel] arg_cong [OF assms, of st_prevparallel]
      arg_cong [OF assms, of st_num] arg_cong [OF assms, of st_config] arg_cong [OF assms, of st_data]
      arg_cong [OF assms, of st_list_out] arg_cong [OF assms, of st_name]
    by (simp_all add: strip_def)
qed

lemma same_chain_length: "same_chain eid eid' \<Longrightarrow> length (id_stats eid') = length (id_stats eid)"
  by (metis length_map same_chain_def)

lemma same_chain_nth:
  "same_chain eid eid' \<Longrightarrow> t < length (id_stats eid) \<Longrightarrow> strip (id_stats eid' ! t) = strip (id_stats eid ! t)"
proof -
  assume a: "same_chain eid eid'" and t: "t < length (id_stats eid)"
  from a have "map strip (id_stats eid') ! t = map strip (id_stats eid) ! t" by (simp add: same_chain_def)
  then show ?thesis using t same_chain_length [OF a] by simp
qed

lemma same_chain_active:
  "same_chain eid eid' \<Longrightarrow> t < length (id_stats eid) \<Longrightarrow>
     is_active eid' t = is_active eid t \<and> is_parallel eid' t = is_parallel eid t"
  using strip_eqD [OF same_chain_nth] by (simp add: is_active_def is_parallel_def)

lemma same_chain_ok:
  assumes "same_chain eid eid'" "chain_ok (id_stats eid) tail gs"
  shows "chain_ok (id_stats eid') tail gs"
proof -
  note g = chain_okD [OF assms(2)]
  have b: "t < length (id_stats eid)" if "t \<in> set (0 # concat gs)" for t
    using g(2) that by (auto simp: members_ok_def)
  note e = strip_eqD [OF same_chain_nth [OF assms(1) b]]
  have "members_ok (id_stats eid') (set (0 # concat gs))"
    using g(2) e(5) same_chain_length [OF assms(1)] unfolding members_ok_def by simp
  moreover have "main_ok (id_stats eid') tail (0 # map hd gs)"
  proof (subst main_ok_cong [of _ _ "id_stats eid"])
    fix i assume "i \<in> set (0 # map hd gs)"
    then have "i \<in> set (0 # concat gs)" using g(7) by blast
    then show "st_next (id_stats eid' ! i) = st_next (id_stats eid ! i) \<and> st_prev (id_stats eid' ! i) = st_prev (id_stats eid ! i)"
      using e(1,2) by simp
  qed (rule g(3))
  moreover have "group_ok (id_stats eid') x" if "x \<in> set gs" for x
  proof (subst group_ok_cong [of _ _ "id_stats eid"])
    fix i assume "i \<in> set x"
    then have "i \<in> set (0 # concat gs)" using that by auto
    then show "st_nextparallel (id_stats eid' ! i) = st_nextparallel (id_stats eid ! i) \<and>
        st_prevparallel (id_stats eid' ! i) = st_prevparallel (id_stats eid ! i) \<and>
        cf_flow_mode (st_config (id_stats eid' ! i)) = cf_flow_mode (st_config (id_stats eid ! i))"
      using e(3,4,6) by simp
  next
    fix i assume "i \<in> set (tl x)"
    then have "i \<in> set (0 # concat gs)" using that by (auto dest!: in_set_tlD)
    then show "st_next (id_stats eid' ! i) = st_next (id_stats eid ! i) \<and> st_prev (id_stats eid' ! i) = st_prev (id_stats eid ! i)"
      using e(1,2) by simp
  qed (rule g(4) [OF that])
  ultimately show ?thesis using g(1) by (simp add: chain_ok_def)
qed

section \<open>What the lists and the conductor hold\<close>

text \<open>
  With \<open>n\<close> stations \<open>Q t\<close> is the content of the input list of station \<open>t\<close> and \<open>Q (n + t)\<close> that of its
  output list; \<open>H\<close> are the events in the conductor's hands. All of them are different.
\<close>

definition out_pl :: "et_id \<Rightarrow> nat \<Rightarrow> et_list" where
  "out_pl eid t = st_list_out (id_stats eid ! t)"

definition apart :: "nat \<Rightarrow> (nat \<Rightarrow> nat list) \<Rightarrow> nat list \<Rightarrow> bool" where
  "apart m Q H \<longleftrightarrow> distinct H \<and>
     (\<forall>t < m. set (Q t) \<inter> set H = {} \<and> (\<forall>u < m. t \<noteq> u \<longrightarrow> set (Q t) \<inter> set (Q u) = {}))"

definition legal_events :: "et_id \<Rightarrow> nat list \<Rightarrow> bool" where
  "legal_events eid es \<longleftrightarrow> (\<forall>e \<in> set es. int e < nevents_max eid) \<and> pri_ok (id_events eid) es"

definition lists_ok :: "et_id \<Rightarrow> (nat \<Rightarrow> nat list) \<Rightarrow> nat list \<Rightarrow> bool" where
  "lists_ok eid Q H \<longleftrightarrow>
     (\<forall>t < length (id_stats eid). list_ok (id_events eid) (in_pl eid t) (Q t) \<and> \<not> l_mutex (in_pl eid t) \<and>
        (0 < t \<longrightarrow> hi_first (id_events eid) (Q t)) \<and>
        out_ok (id_events eid) (out_pl eid t) (Q (length (id_stats eid) + t)) \<and> \<not> l_mutex (out_pl eid t)) \<and>
     apart (length (id_stats eid) + length (id_stats eid)) Q H \<and>
     (\<forall>t < length (id_stats eid) + length (id_stats eid). legal_events eid (Q t)) \<and> legal_events eid H"

definition moved :: "nat \<Rightarrow> (nat \<Rightarrow> nat list) \<Rightarrow> nat list \<Rightarrow> (nat \<Rightarrow> nat list) \<Rightarrow> nat list \<Rightarrow> bool" where
  "moved n Q H Q' H' \<longleftrightarrow> mset H + (\<Sum>t<n. mset (Q t)) = mset H' + (\<Sum>t<n. mset (Q' t)) \<and>
     (\<forall>t<n. mset (Q t) \<subseteq># mset (Q' t)) \<and> (\<forall>t. n \<le> t \<longrightarrow> Q' t = Q t)"

definition cinv :: "nat list \<Rightarrow> (nat \<Rightarrow> nat list) \<Rightarrow> nat list \<Rightarrow> et_id \<times> cstate \<Rightarrow> bool" where
  "cinv alle Q H st \<longleftrightarrow> lists_ok (fst st) Q H \<and> hi_first (id_events (fst st)) alle \<and>
     length (c_put (snd st)) = length alle \<and> c_left (snd st) = int (length H) \<and>
     (H \<noteq> [] \<longrightarrow> H = unput alle (c_put (snd st))) \<and> (c_first (snd st) \<longrightarrow> H = alle)"

definition moves :: "nat list \<Rightarrow> et_id \<times> cstate \<Rightarrow> (bool \<times> et_id \<times> cstate) option \<Rightarrow> bool" where
  "moves alle st r \<longleftrightarrow> (\<forall>Q H. cinv alle Q H st \<longrightarrow> H \<noteq> [] \<longrightarrow>
     (\<exists>eid' cs' Q' H'. r = Some (True, eid', cs') \<and> cinv alle Q' H' (eid', cs'\<lparr>c_first := False\<rparr>) \<and>
        same_chain (fst st) eid' \<and> moved (length (id_stats (fst st))) Q H Q' H'))"

lemma moved_refl [simp]: "moved n Q H Q H"
  by (simp add: moved_def)

lemma moved_trans: "moved n Q H Q1 H1 \<Longrightarrow> moved n Q1 H1 Q2 H2 \<Longrightarrow> moved n Q H Q2 H2"
  unfolding moved_def using subset_mset.order_trans by fastforce

lemma moved_update:
  assumes "t < n" "mset R = mset (Q t) + mset es" "mset H = mset es + mset H'"
  shows "moved n Q H (Q(t := R)) H'"
proof -
  have "(\<Sum>u<n. mset ((Q(t := R)) u)) = mset R + (\<Sum>u \<in> {..<n} - {t}. mset ((Q(t := R)) u))"
    using assms(1) by (subst sum.remove [of _ t]) auto
  also have "(\<Sum>u \<in> {..<n} - {t}. mset ((Q(t := R)) u)) = (\<Sum>u \<in> {..<n} - {t}. mset (Q u))"
    by (rule sum.cong) auto
  also have "mset R + \<dots> = mset es + (\<Sum>u<n. mset (Q u))"
    using assms(1,2) by (subst (2) sum.remove [of _ t]) (auto simp: ac_simps)
  finally show ?thesis using assms by (auto simp: moved_def)
qed

lemma apartD:
  assumes "apart m Q H" "t < m"
  shows "distinct H" "set (Q t) \<inter> set H = {}" "\<And>u. u < m \<Longrightarrow> t \<noteq> u \<Longrightarrow> set (Q t) \<inter> set (Q u) = {}"
  using assms by (auto simp: apart_def)

lemma apart_move:
  assumes "apart m Q (es @ H)" "t < m" "set R \<subseteq> set (Q t) \<union> set es"
  shows "apart m (Q(t := R)) H"
  unfolding apart_def
proof (intro conjI allI impI)
  note d = apartD [OF assms(1)]
  fix u v assume u: "u < m"
  show "set ((Q(t := R)) u) \<inter> set H = {}" using d(1,2) [OF u] d(1,2) [OF assms(2)] assms(3) by auto
  assume v: "v < m" "u \<noteq> v"
  then show "set ((Q(t := R)) u) \<inter> set ((Q(t := R)) v) = {}"
    using d(2) [OF u] d(2) [OF v(1)] d(3) [OF u v] d(3) [OF assms(2) u] d(3) [OF assms(2) v(1)] assms(3)
    by (auto simp: disjoint_iff)
qed (use apartD(1) [OF assms(1,2)] in simp)

lemma lists_ok_mset: "mset H = mset H' \<Longrightarrow> lists_ok eid Q H = lists_ok eid Q H'"
  using mset_eq_setD [of H H'] mset_eq_imp_distinct_iff [of H H']
  by (simp add: lists_ok_def apart_def legal_events_def pri_ok_def)

lemma lists_okD:
  assumes "lists_ok eid Q H" "t < length (id_stats eid)"
  shows "list_ok (id_events eid) (in_pl eid t) (Q t)" "\<not> l_mutex (in_pl eid t)"
    "0 < t \<Longrightarrow> hi_first (id_events eid) (Q t)" "set (Q t) \<inter> set H = {}" "pri_ok (id_events eid) (Q t)"
    "\<And>u. u < length (id_stats eid) + length (id_stats eid) \<Longrightarrow> t \<noteq> u \<Longrightarrow> set (Q t) \<inter> set (Q u) = {}"
    "\<And>e. e \<in> set (Q t) \<Longrightarrow> int e < nevents_max eid"
    "out_ok (id_events eid) (out_pl eid t) (Q (length (id_stats eid) + t))" "\<not> l_mutex (out_pl eid t)"
proof -
  let ?n = "length (id_stats eid)"
  have ap: "apart (?n + ?n) Q H" and t: "t < ?n + ?n" and le: "legal_events eid (Q t)"
    using assms by (simp_all add: lists_ok_def)
  show "set (Q t) \<inter> set H = {}" "\<And>u. u < ?n + ?n \<Longrightarrow> t \<noteq> u \<Longrightarrow> set (Q t) \<inter> set (Q u) = {}"
    by (fact apartD [OF ap t])+
  show "pri_ok (id_events eid) (Q t)" "\<And>e. e \<in> set (Q t) \<Longrightarrow> int e < nevents_max eid"
    using le by (simp_all add: legal_events_def)
  show "list_ok (id_events eid) (in_pl eid t) (Q t)" "\<not> l_mutex (in_pl eid t)"
    "0 < t \<Longrightarrow> hi_first (id_events eid) (Q t)" "out_ok (id_events eid) (out_pl eid t) (Q (?n + t))" "\<not> l_mutex (out_pl eid t)"
    using assms by (simp_all add: lists_ok_def)
qed

lemma lists_okD_held:
  assumes "lists_ok eid Q H"
  shows "distinct H" "\<And>e. e \<in> set H \<Longrightarrow> int e < nevents_max eid" "pri_ok (id_events eid) H"
  using assms by (auto simp: lists_ok_def apart_def legal_events_def)

lemma lists_okD_all:
  assumes "lists_ok eid Q H" "t < length (id_stats eid) + length (id_stats eid)"
  shows "legal_events eid (Q t)" "distinct (Q t)"
proof -
  show "legal_events eid (Q t)" using assms by (simp add: lists_ok_def)
  show "distinct (Q t)"
  proof (cases "t < length (id_stats eid)")
    case True
    then show ?thesis using list_okD(2) [OF lists_okD(1) [OF assms(1)]] by blast
  next
    case False
    then obtain u where "t = length (id_stats eid) + u" "u < length (id_stats eid)"
      using assms(2) by (metis add_less_cancel_left le_iff_add not_le)
    then show ?thesis using lists_okD(8) [OF assms(1), of u] list_okD(2) by (auto simp: out_ok_def)
  qed
qed

lemma lists_ok_room:
  assumes "lists_ok eid Q (es @ H)" "t < length (id_stats eid) + length (id_stats eid)" "es \<noteq> []"
  shows "distinct (Q t @ es)" "int (length (Q t @ es)) \<le> nevents_max eid"
proof -
  note i = lists_okD_all [OF assms(1,2)] and h = lists_okD_held [OF assms(1)]
  have "apart (length (id_stats eid) + length (id_stats eid)) Q (es @ H)" using assms(1) by (simp add: lists_ok_def)
  then have "set (Q t) \<inter> set (es @ H) = {}" using apartD(2) assms(2) by blast
  then show d: "distinct (Q t @ es)" using i(2) h(1) by auto
  have "set (Q t @ es) \<subseteq> {..<nat (nevents_max eid)}" using i(1) h(2) by (fastforce simp: legal_events_def)
  then have "length (Q t @ es) \<le> nat (nevents_max eid)"
    by (metis card_lessThan card_mono d distinct_card finite_lessThan)
  moreover have "0 \<le> nevents_max eid" using h(2) [of "hd es"] assms(3) by auto
  ultimately show "int (length (Q t @ es)) \<le> nevents_max eid" by simp
qed

section \<open>Putting events into one station\<close>

lemma set_in_pl_simps [simp]:
  "length (id_stats (set_in_pl eid t pl)) = length (id_stats eid)"
  "nevents_max (set_in_pl eid t pl) = nevents_max eid" "id_histogram (set_in_pl eid t pl) = id_histogram eid" "id_events (set_in_pl eid t pl) = id_events eid"
  "nevents_max (eid\<lparr>id_events := ev\<rparr>) = nevents_max eid" "in_pl (eid\<lparr>id_events := ev\<rparr>) u = in_pl eid u"
  "out_pl (eid\<lparr>id_events := ev\<rparr>) u = out_pl eid u" "out_pl (eid\<lparr>id_sys := sy\<rparr>) = out_pl eid"
  "is_active (eid\<lparr>id_events := ev\<rparr>) u = is_active eid u" "in_pl (eid\<lparr>id_sys := sy\<rparr>) = in_pl eid"
  by (simp_all add: set_in_pl_def upd_stat_def nevents_max_def in_pl_def out_pl_def is_active_def fun_eq_iff)

lemma in_pl_set_in_pl:
  "t < length (id_stats eid) \<Longrightarrow> in_pl (set_in_pl eid t pl) u = (if u = t then pl else in_pl eid u)"
  by (simp add: in_pl_def set_in_pl_def upd_stat_def nth_list_update)

lemma out_pl_set_in_pl [simp]: "out_pl (set_in_pl eid t pl) u = out_pl eid u"
  by (cases "t < length (id_stats eid)"; cases "u = t")
    (simp_all add: out_pl_def set_in_pl_def upd_stat_def list_update_beyond)

lemma map_strip_upd:
  assumes "strip (f (xs ! t)) = strip (xs ! t)"
  shows "map strip (xs[t := f (xs ! t)]) = map strip xs"
  using assms by (metis list_update_id map_update)

lemma same_chain_set_in_pl:
  "next_only S (id_events eid) ev' \<Longrightarrow> same_chain eid ((set_in_pl eid t pl)\<lparr>id_events := ev'\<rparr>)"
  using next_only_mono [of S _ _ UNIV] unfolding same_chain_def set_in_pl_def upd_stat_def
  by (simp add: nevents_max_def map_strip_upd [of "\<lambda>ps. ps\<lparr>st_list_in := pl\<rparr>"] strip_def)

lemma legal_events_next_only:
  "next_only S (id_events eid) ev' \<Longrightarrow> nevents_max eid' = nevents_max eid \<Longrightarrow> id_events eid' = ev' \<Longrightarrow>
     legal_events eid' es = legal_events eid es"
  by (simp add: legal_events_def pri_ok_def next_onlyD)

lemma lists_ok_put:
  assumes i: "lists_ok eid Q (es @ H)" and t: "t < length (id_stats eid)"
    and n: "next_only (set (Q t @ es)) (id_events eid) ev'" and l: "list_ok ev' pl' R" "\<not> l_mutex pl'"
    and R: "mset R = mset (Q t) + mset es" and hi: "0 < t \<Longrightarrow> hi_first ev' R"
  shows "lists_ok ((set_in_pl eid t pl')\<lparr>id_events := ev'\<rparr>) (Q(t := R)) H"
proof -
  let ?id = "(set_in_pl eid t pl')\<lparr>id_events := ev'\<rparr>" and ?n = "length (id_stats eid)"
  note q = lists_okD [OF i]
  have ap: "apart (?n + ?n) Q (es @ H)" using i by (simp add: lists_ok_def)
  have setR: "set R = set (Q t) \<union> set es" using R by (metis mset_append set_append set_mset_mset)
  have frame: "list_ok ev' pl xs = list_ok (id_events eid) pl xs" if "set xs \<inter> set (Q t @ es) = {}" for pl xs
    using list_ok_next_only [OF n that] .
  have hf: "hi_first ev' = hi_first (id_events eid)" by (rule hi_first_is_high_cong [OF next_only_is_high [OF n]])
  have oframe: "out_ok ev' pl xs = out_ok (id_events eid) pl xs" if "set xs \<inter> set (Q t @ es) = {}" for pl xs
    using frame [OF that] by (simp add: out_ok_def hf next_only_is_high [OF n])
  have other: "set (Q u) \<inter> set (Q t @ es) = {}" if "u < ?n + ?n" "u \<noteq> t" for u
    using apartD(2) [OF ap that(1)] q(6) [OF t that(1)] that(2) by auto
  have le: "legal_events ?id xs = legal_events eid xs" for xs by (rule legal_events_next_only [OF n]) simp_all
  have "legal_events eid (Q t)" "legal_events eid (es @ H)" using i t by (simp_all add: lists_ok_def)
  then have "legal_events eid R" "legal_events eid H" using setR by (auto simp: legal_events_def pri_ok_def)
  moreover have "\<forall>u < ?n + ?n. legal_events eid (Q u)" using i by (simp add: lists_ok_def)
  ultimately have L: "\<forall>u < ?n + ?n. legal_events ?id ((Q(t := R)) u)" "legal_events ?id H" by (simp_all add: le)
  have A: "apart (?n + ?n) (Q(t := R)) H" using t setR by (intro apart_move [OF ap]) auto
  have I: "list_ok ev' (in_pl ?id u) ((Q(t := R)) u) \<and> \<not> l_mutex (in_pl ?id u) \<and> (0 < u \<longrightarrow> hi_first ev' ((Q(t := R)) u)) \<and>
      out_ok ev' (out_pl ?id u) ((Q(t := R)) (?n + u)) \<and> \<not> l_mutex (out_pl ?id u)" if u: "u < ?n" for u
    using l hi t u q(1,2,3,8,9) [OF u] frame [OF other, of u] oframe [OF other, of "?n + u"] hf
    by (auto simp: in_pl_set_in_pl)
  show ?thesis using I L A by (simp add: lists_ok_def)
qed

lemma put_into_moves:
  assumes i: "lists_ok eid Q (es @ H)" and t: "t < length (id_stats eid)" "0 < t" and es: "es \<noteq> []"
    and hi: "hi_first (id_events eid) es"
  shows "\<exists>eid' R. put_into t ((in_pl eid t)\<lparr>l_events_try := x\<rparr>) es left put (eid, cs) =
       Some (True, eid', cs\<lparr>c_left := left, c_put := put\<rparr>) \<and>
     lists_ok eid' (Q(t := R)) H \<and> mset R = mset (Q t) + mset es \<and> same_chain eid eid'"
proof -
  let ?pl = "(in_pl eid t)\<lparr>l_events_try := x\<rparr>"
  note q = lists_okD [OF i t(1)]
  have "list_ok (id_events eid) ?pl (Q t)" using q(1) by (simp add: list_ok_def)
  moreover have "pri_ok (id_events eid) es" using lists_okD_held(3) [OF i] by (simp add: pri_ok_def)
  ultimately obtain ev' pl' where
    w: "et_llist_write (nevents_max eid) (id_events eid) ?pl es (int (length es)) = Some (int (length es), ev', pl')"
      "list_ok ev' pl' (pri_append (id_events eid) (Q t) es)" "hi_first ev' (pri_append (id_events eid) (Q t) es)"
      "next_only (set (Q t @ es)) (id_events eid) ev'" "l_mutex pl' = l_mutex ?pl"
    using pri.wr_ok [of "id_events eid" ?pl "Q t" es "nevents_max eid"] q(3,5) t(2) es hi
      lists_ok_room [OF i trans_less_add1 [OF t(1)] es] by blast
  have "lists_ok ((set_in_pl eid t pl')\<lparr>id_events := ev'\<rparr>) (Q(t := pri_append (id_events eid) (Q t) es)) H"
    using lists_ok_put [OF i t(1) w(4,2)] w(3,5) q(2) by (simp add: mset_pri_append)
  moreover have "same_chain eid ((set_in_pl eid t pl')\<lparr>id_events := ev'\<rparr>)"
    by (rule same_chain_set_in_pl [OF w(4)])
  moreover have "put_into t ?pl es left put (eid, cs) =
      Some (True, (set_in_pl eid t pl')\<lparr>id_events := ev'\<rparr>, cs\<lparr>c_left := left, c_put := put\<rparr>)"
    using w(1) by (simp add: put_into_def)
  ultimately show ?thesis by (auto simp: mset_pri_append)
qed

lemma lists_ok_try:
  assumes "lists_ok eid Q H" "t < length (id_stats eid)"
  shows "lists_ok (set_in_pl eid t ((in_pl eid t)\<lparr>l_events_try := x\<rparr>)) Q H"
  using assms by (auto simp: lists_ok_def legal_events_def in_pl_set_in_pl list_ok_def)

lemma same_chain_hi_first: "same_chain eid eid' \<Longrightarrow> hi_first (id_events eid') = hi_first (id_events eid)"
  by (rule hi_first_is_high_cong [OF same_chain_is_high])

lemma split_put_sorted: "split_put es ps out qs \<Longrightarrow> sorted_wrt P es \<Longrightarrow> sorted_wrt P out"
proof (induction es ps out qs rule: split_put.induct)
  case (1 e es p ps out q qs)
  then show ?case using split_put_set [of es ps "tl out" qs]
    by (cases out) (auto split: if_splits)
qed auto

lemma split_put_hi_first: "split_put es ps out qs \<Longrightarrow> hi_first ev es \<Longrightarrow> hi_first ev out"
  unfolding hi_first_sorted by (rule split_put_sorted)

text \<open>Whatever the selection mode is, the selected events are a part of those still held.\<close>

lemma select_events_split:
  assumes "select_events ufunc ev ps first alle put = (toput, put', pl, writeall)"
  shows "(\<exists>x. pl = (st_list_in ps)\<lparr>l_events_try := x\<rparr>) \<and>
    (if writeall then toput = alle \<and> put' = put \<and> first else split_put alle put toput put')"
proof -
  have s: "st_list_in ps = (st_list_in ps)\<lparr>l_events_try := l_events_try (st_list_in ps)\<rparr>" by simp
  show ?thesis using assms unfolding select_events_def Let_def
    by (auto split: if_splits prod.splits intro: prescale_loop_split cue_loop_split s)
qed

section \<open>Serving a station\<close>

lemma cinvD:
  assumes "cinv alle Q H (eid, cs)"
  shows "lists_ok eid Q H" "hi_first (id_events eid) alle" "length (c_put cs) = length alle"
    "c_left cs = int (length H)" "H \<noteq> [] \<Longrightarrow> H = unput alle (c_put cs)" "c_first cs \<Longrightarrow> H = alle"
  using assms by (auto simp: cinv_def)

lemma movesI:
  assumes "\<And>Q H. cinv alle Q H (eid, cs) \<Longrightarrow> H \<noteq> [] \<Longrightarrow> \<exists>eid' cs' Q' H'. r = Some (True, eid', cs') \<and>
     lists_ok eid' Q' H' \<and> same_chain eid eid' \<and> moved (length (id_stats eid)) Q H Q' H' \<and>
     length (c_put cs') = length alle \<and> c_left cs' = int (length H') \<and> (H' \<noteq> [] \<longrightarrow> H' = unput alle (c_put cs'))"
  shows "moves alle (eid, cs) r"
  unfolding moves_def
proof (intro allI impI)
  fix Q H assume c: "cinv alle Q H (eid, cs)" "H \<noteq> []"
  then obtain eid' cs' Q' H' where r: "r = Some (True, eid', cs')" "lists_ok eid' Q' H'" "same_chain eid eid'"
    "moved (length (id_stats eid)) Q H Q' H'" "length (c_put cs') = length alle" "c_left cs' = int (length H')"
    "H' \<noteq> [] \<longrightarrow> H' = unput alle (c_put cs')" using assms by blast
  then have "cinv alle Q' H' (eid', cs'\<lparr>c_first := False\<rparr>)"
    using cinvD(2) [OF c(1)] same_chain_hi_first [OF r(3)] by (simp add: cinv_def)
  with r(1,3,4) show "\<exists>eid' cs' Q' H'. r = Some (True, eid', cs') \<and> cinv alle Q' H' (eid', cs'\<lparr>c_first := False\<rparr>) \<and>
      same_chain (fst (eid, cs)) eid' \<and> moved (length (id_stats (fst (eid, cs)))) Q H Q' H'" by auto
qed

lemma offer_station_moves:
  assumes t: "t < length (id_stats eid)" "0 < t"
  shows "moves alle (eid, cs) (offer_station ufunc alle t (eid, cs))"
proof (rule movesI)
  fix Q H assume c: "cinv alle Q H (eid, cs)" and H: "H \<noteq> []"
  note d = cinvD [OF c]
  obtain toput put' pl wa where s: "select_events ufunc (id_events eid) (id_stats eid ! t) (c_first cs) alle (c_put cs)
      = (toput, put', pl, wa)" by (metis prod_cases4)
  from select_events_split [OF s] obtain x where
    x: "pl = (in_pl eid t)\<lparr>l_events_try := x\<rparr>" and
    sp: "if wa then toput = alle \<and> put' = c_put cs \<and> c_first cs else split_put alle (c_put cs) toput put'"
    by (auto simp: in_pl_def)
  define H' where "H' = (if wa then [] else unput alle put')"
  have m: "mset H = mset (toput @ H')" and lp: "length put' = length alle"
    using sp d(3,5,6) split_put_mset [of alle "c_put cs" toput put'] H by (auto simp: H'_def split: if_splits)
  then have len: "length H = length toput + length H'" by (metis length_append size_mset)
  have i: "lists_ok eid Q (toput @ H')" using d(1) lists_ok_mset [OF m] by simp
  have nl: "\<not> l_mutex (in_pl eid t)" using lists_okD(2) [OF d(1) t(1)] .
  show "\<exists>eid' cs' Q' H'. offer_station ufunc alle t (eid, cs) = Some (True, eid', cs') \<and>
     lists_ok eid' Q' H' \<and> same_chain eid eid' \<and> moved (length (id_stats eid)) Q H Q' H' \<and>
     length (c_put cs') = length alle \<and> c_left cs' = int (length H') \<and> (H' \<noteq> [] \<longrightarrow> H' = unput alle (c_put cs'))"
  proof (cases "toput = []")
    case True
    have "\<not> wa" using True sp H d(6) by auto
    have "offer_station ufunc alle t (eid, cs) = Some (True, set_in_pl eid t pl, cs\<lparr>c_put := put'\<rparr>)"
      using s nl True by (simp add: offer_station_def)
    moreover have "same_chain eid (set_in_pl eid t pl)" using same_chain_set_in_pl [of UNIV eid "id_events eid" t pl] by (simp add: same_chain_def)
    moreover have "lists_ok (set_in_pl eid t pl) Q H'" using lists_ok_try [OF i t(1)] x True by simp
    moreover have "moved (length (id_stats eid)) Q H Q H'" using m True by (simp add: moved_def)
    ultimately show ?thesis using lp len True d(4) \<open>\<not> wa\<close>
      by (intro exI [of _ "set_in_pl eid t pl"] exI [of _ "cs\<lparr>c_put := put'\<rparr>"] exI [of _ Q] exI [of _ H'])
        (auto simp: H'_def)
  next
    case False
    have hi: "hi_first (id_events eid) toput"
      using sp d(2) split_put_hi_first by (auto split: if_splits)
    define left where "left = (if wa then 0 else c_left cs - int (length toput))"
    from put_into_moves [OF i t False hi, of x left put' cs] obtain eid' R where
      p: "put_into t pl toput left put' (eid, cs) = Some (True, eid', cs\<lparr>c_left := left, c_put := put'\<rparr>)"
      "lists_ok eid' (Q(t := R)) H'" "mset R = mset (Q t) + mset toput" "same_chain eid eid'"
      unfolding x [symmetric] by blast
    have "offer_station ufunc alle t (eid, cs) = Some (True, eid', cs\<lparr>c_left := left, c_put := put'\<rparr>)"
      using s nl False p(1) by (simp add: offer_station_def left_def)
    moreover have "moved (length (id_stats eid)) Q H (Q(t := R)) H'"
      by (rule moved_update [where es = toput]) (use t(1) p(3) m in simp_all)
    moreover have "left = int (length H')" using d(4) len by (auto simp: left_def H'_def)
    ultimately show ?thesis using p(2,4) lp
      by (intro exI [of _ eid'] exI [of _ "cs\<lparr>c_left := left, c_put := put'\<rparr>"] exI [of _ "Q(t := R)"] exI [of _ H'])
        (auto simp: H'_def)
  qed
qed

lemma offer_gc_moves:
  assumes "0 < length (id_stats eid)"
  shows "moves alle (eid, cs) (offer_gc alle (eid, cs)) \<and>
    (\<forall>Q H. cinv alle Q H (eid, cs) \<longrightarrow> H \<noteq> [] \<longrightarrow>
       (\<exists>eid' cs'. offer_gc alle (eid, cs) = Some (True, eid', cs') \<and> c_left cs' = 0))"
proof -
  have main: "\<exists>eid' Q'. offer_gc alle (eid, cs) = Some (True, eid', cs\<lparr>c_left := 0\<rparr>) \<and>
      lists_ok eid' Q' [] \<and> same_chain eid eid' \<and> moved (length (id_stats eid)) Q H Q' []"
    if c: "cinv alle Q H (eid, cs)" and H: "H \<noteq> []" for Q H
  proof -
    note d = cinvD [OF c]
    let ?toput = "if c_first cs then alle else unput alle (c_put cs)"
    have toput: "?toput = H" using d(5,6) H by auto
    define nt where "nt = length (filter (\<lambda>e. ev_temp (id_events eid e) = ET_EVENT_TEMP) H)"
    let ?id = "eid\<lparr>id_sys := (id_sys eid)\<lparr>sy_ntemps := sy_ntemps (id_sys eid) - int nt\<rparr>\<rparr>"
    have same: "nevents_max ?id = nevents_max eid" "id_events ?id = id_events eid" "id_stats ?id = id_stats eid"
      "in_pl ?id = in_pl eid" by (auto simp: nevents_max_def in_pl_def)
    have i: "lists_ok ?id Q (H @ [])" using d(1) by (simp add: lists_ok_def legal_events_def same)
    have t: "0 < length (id_stats ?id)" using assms by simp
    note q = lists_okD [OF i t]
    from gc.wr_ok [OF q(1), of H "nevents_max ?id"] lists_ok_room [OF i trans_less_add1 [OF t] H] H obtain ev' pl' where
      w: "et_llist_write_gc (nevents_max ?id) (id_events ?id) (in_pl ?id 0) H (int (length H)) = Some (ET_OK, ev', pl')"
        "list_ok ev' pl' (Q 0 @ H)" "next_only (set (Q 0 @ H)) (id_events ?id) ev'" "l_mutex pl' = l_mutex (in_pl ?id 0)"
      by blast
    let ?id2 = "(set_in_pl ?id 0 pl')\<lparr>id_events := ev'\<rparr>"
    have "lists_ok ?id2 (Q(0 := Q 0 @ H)) []"
      using lists_ok_put [OF i t w(3,2)] w(4) q(2) by simp
    moreover have "same_chain ?id ?id2"
      by (rule same_chain_set_in_pl [of _ ?id, OF w(3)])
    then have "same_chain eid ?id2" by (simp add: same_chain_def same)
    moreover have "moved (length (id_stats eid)) Q H (Q(0 := Q 0 @ H)) []"
      using assms by (intro moved_update) auto
    moreover have "offer_gc alle (eid, cs) = Some (True, ?id2, cs\<lparr>c_left := 0\<rparr>)"
      using w(1) H q(2) toput by (simp add: offer_gc_def Let_def nt_def)
    ultimately show ?thesis by blast
  qed
  show ?thesis
  proof (intro conjI allI impI)
    show "moves alle (eid, cs) (offer_gc alle (eid, cs))"
    proof (rule movesI)
      fix Q H assume c: "cinv alle Q H (eid, cs)" "H \<noteq> []"
      from main [OF this] cinvD(3) [OF c(1)]
      show "\<exists>eid' cs' Q' H'. offer_gc alle (eid, cs) = Some (True, eid', cs') \<and> lists_ok eid' Q' H' \<and>
        same_chain eid eid' \<and> moved (length (id_stats eid)) Q H Q' H' \<and> length (c_put cs') = length alle \<and>
        c_left cs' = int (length H') \<and> (H' \<noteq> [] \<longrightarrow> H' = unput alle (c_put cs'))"
        by (elim exE conjE) (rule exI conjI | assumption | simp)+
    qed
  next
    fix Q H assume "cinv alle Q H (eid, cs)" "H \<noteq> []"
    from main [OF this] show "\<exists>eid' cs'. offer_gc alle (eid, cs) = Some (True, eid', cs') \<and> c_left cs' = 0"
      by fastforce
  qed
qed

lemma offer_moves:
  "t < length (id_stats eid) \<Longrightarrow> moves alle (eid, cs) (offer ufunc alle t (eid, cs))"
  using offer_station_moves [of t eid alle cs ufunc] offer_gc_moves [of eid alle cs]
  by (cases "t = 0") (simp_all add: offer_def)

section \<open>The contract of a step and the loop over parallel stations\<close>

lemma movesD:
  assumes "moves alle (eid, cs) r" "cinv alle Q H (eid, cs)" "H \<noteq> []"
  obtains eid' cs' Q' H' where "r = Some (True, eid', cs')" "cinv alle Q' H' (eid', cs'\<lparr>c_first := False\<rparr>)"
    "same_chain eid eid'" "moved (length (id_stats eid)) Q H Q' H'"
  using assms by (fastforce simp: moves_def)

lemma moves_trans:
  assumes "moves alle (eid, cs) r1"
    and "\<And>eid' cs'. r1 = Some (True, eid', cs') \<Longrightarrow> same_chain eid eid' \<Longrightarrow> 0 < c_left cs' \<Longrightarrow>
      moves alle (eid', cs'\<lparr>c_first := False\<rparr>) (r2 eid' cs')"
    and "\<And>eid' cs'. r1 = Some (True, eid', cs') \<Longrightarrow> \<not> 0 < c_left cs' \<Longrightarrow> r2 eid' cs' = Some (True, eid', cs'\<lparr>c_first := False\<rparr>)"
    and "\<And>eid' cs'. r1 = Some (True, eid', cs') \<Longrightarrow> r = r2 eid' cs'"
  shows "moves alle (eid, cs) r"
  unfolding moves_def
proof (intro allI impI)
  fix Q H assume c: "cinv alle Q H (eid, cs)" "H \<noteq> []"
  obtain eid1 cs1 Q1 H1 where 1: "r1 = Some (True, eid1, cs1)" "cinv alle Q1 H1 (eid1, cs1\<lparr>c_first := False\<rparr>)"
    "same_chain eid eid1" "moved (length (id_stats eid)) Q H Q1 H1" by (rule movesD [OF assms(1) c])
  show "\<exists>eid' cs' Q' H'. r = Some (True, eid', cs') \<and> cinv alle Q' H' (eid', cs'\<lparr>c_first := False\<rparr>) \<and>
      same_chain (fst (eid, cs)) eid' \<and> moved (length (id_stats (fst (eid, cs)))) Q H Q' H'"
  proof (cases "0 < c_left cs1")
    case True
    then have ne: "H1 \<noteq> []" using cinvD(4) [OF 1(2)] by auto
    obtain eid2 cs2 Q2 H2 where 2: "r2 eid1 cs1 = Some (True, eid2, cs2)" "cinv alle Q2 H2 (eid2, cs2\<lparr>c_first := False\<rparr>)"
      "same_chain eid1 eid2" "moved (length (id_stats eid1)) Q1 H1 Q2 H2"
      by (rule movesD [OF assms(2) [OF 1(1,3) True] 1(2) ne])
    have "same_chain eid eid2" using same_chain_trans [OF 1(3) 2(3)] .
    moreover have "moved (length (id_stats eid)) Q H Q2 H2"
      using moved_trans [OF 1(4)] 2(4) same_chain_length [OF 1(3)] by simp
    ultimately show ?thesis using 2(1,2) assms(4) [OF 1(1)]
      by (intro exI [of _ eid2] exI [of _ cs2] exI [of _ Q2] exI [of _ H2]) simp
  next
    case False
    then show ?thesis using assms(3) [OF 1(1)] assms(4) [OF 1(1)] 1(2-4)
      by (intro exI [of _ eid1] exI [of _ "cs1\<lparr>c_first := False\<rparr>"] exI [of _ Q1] exI [of _ H1]) simp
  qed
qed

lemma moves_none: "moves alle (eid, cs) (Some (True, eid, cs))"
proof (rule movesI)
  fix Q H assume "cinv alle Q H (eid, cs)"
  then show "\<exists>eid' cs' Q' H'. Some (True, eid, cs) = Some (True, eid', cs') \<and> lists_ok eid' Q' H' \<and>
     same_chain eid eid' \<and> moved (length (id_stats eid)) Q H Q' H' \<and> length (c_put cs') = length alle \<and>
     c_left cs' = int (length H') \<and> (H' \<noteq> [] \<longrightarrow> H' = unput alle (c_put cs'))"
    by (intro exI [of _ eid] exI [of _ cs] exI [of _ Q] exI [of _ H]) (auto dest: cinvD)
qed

locale event_mover =
  fixes alle :: "nat list" and f :: "nat \<Rightarrow> cstep"
  assumes moves_f: "t < length (id_stats eid) \<Longrightarrow> moves alle (eid, cs) (f t (eid, cs))"
begin

lemma each_while_moves:
  "\<forall>t \<in> set ts. t < length (id_stats eid) \<Longrightarrow> moves alle (eid, cs) (each_while f ts (eid, cs))"
proof (induction ts arbitrary: eid cs)
  case Nil
  then show ?case by (simp add: moves_none)
next
  case (Cons t ts)
  have t: "moves alle (eid, cs) (f t (eid, cs))" using Cons.prems moves_f by simp
  show ?case
  proof (cases "ts = []")
    case True
    have "each_while f (t # ts) (eid, cs) = f t (eid, cs)" if "f t (eid, cs) = Some (True, eid', cs')" for eid' cs'
      using that True by simp
    then show ?thesis using t unfolding moves_def by (metis (no_types, lifting))
  next
    case False
    show ?thesis
    proof (rule moves_trans [OF t, where ?r2.0 = "\<lambda>eid1 cs1. if 0 < c_left cs1
        then each_while f ts (eid1, cs1\<lparr>c_first := False\<rparr>) else Some (True, eid1, cs1\<lparr>c_first := False\<rparr>)"])
      fix eid' and cs' :: cstate assume "same_chain eid eid'" "0 < c_left cs'"
      then show "moves alle (eid', cs'\<lparr>c_first := False\<rparr>) (if 0 < c_left cs'
        then each_while f ts (eid', cs'\<lparr>c_first := False\<rparr>) else Some (True, eid', cs'\<lparr>c_first := False\<rparr>))"
        using Cons.IH Cons.prems same_chain_length by simp
    qed (use False in auto)
  qed
qed

end

interpretation offers: event_mover alle "offer ufunc alle" for alle ufunc
  by unfold_locales (rule offer_moves)

section \<open>Batches: round robin and equal cue\<close>

lemma same_chain_waslast: "same_chain eid (upd_stat eid t (\<lambda>ps. ps\<lparr>st_waslast := w\<rparr>))"
  unfolding same_chain_def upd_stat_def
  by (simp add: nevents_max_def map_strip_upd [of "\<lambda>ps. ps\<lparr>st_waslast := w\<rparr>"] strip_def)

lemma in_pl_waslast: "in_pl (upd_stat eid t (\<lambda>ps. ps\<lparr>st_waslast := w\<rparr>)) u = in_pl eid u"
  by (cases "t < length (id_stats eid)"; cases "u = t") (simp_all add: in_pl_def upd_stat_def list_update_beyond)

lemma out_pl_waslast: "out_pl (upd_stat eid t (\<lambda>ps. ps\<lparr>st_waslast := w\<rparr>)) u = out_pl eid u"
  by (cases "t < length (id_stats eid)"; cases "u = t") (simp_all add: out_pl_def upd_stat_def list_update_beyond)

lemma lists_ok_waslast: "lists_ok (upd_stat eid t (\<lambda>ps. ps\<lparr>st_waslast := w\<rparr>)) Q H = lists_ok eid Q H"
  unfolding lists_ok_def in_pl_waslast out_pl_waslast by (simp add: upd_stat_def nevents_max_def legal_events_def)

lemma put_shares_moves:
  assumes "lists_ok eid Q (concat (map (\<lambda>a. fst (snd a)) xs))" "c_left cs = int (length (concat (map (\<lambda>a. fst (snd a)) xs)))"
    "\<forall>(t, es, n) \<in> set xs. t < length (id_stats eid) \<and> 0 < t \<and> n = int (length es) \<and> hi_first (id_events eid) es"
  shows "\<exists>eid' cs' Q'. put_shares li xs cnt (eid, cs) = Some (True, eid', cs') \<and> lists_ok eid' Q' [] \<and>
     same_chain eid eid' \<and> moved (length (id_stats eid)) Q (concat (map (\<lambda>a. fst (snd a)) xs)) Q' [] \<and>
     c_left cs' = 0 \<and> c_put cs' = c_put cs"
  using assms
proof (induction xs arbitrary: eid cs Q cnt)
  case Nil
  then show ?case by (intro exI [of _ eid] exI [of _ cs] exI [of _ Q]) simp
next
  case (Cons x rest)
  obtain t es n where x: "x = (t, es, n)" by (cases x)
  note prems = Cons.prems [unfolded x]
  let ?H = "concat (map (\<lambda>a. fst (snd a)) rest)"
  define eid0 where "eid0 = (if cnt = li then upd_stat eid t (\<lambda>ps. ps\<lparr>st_waslast := 1\<rparr>) else eid)"
  have s0: "same_chain eid eid0" by (simp add: eid0_def same_chain_waslast)
  have l0: "length (id_stats eid0) = length (id_stats eid)" using same_chain_length [OF s0] .
  have t: "t < length (id_stats eid0)" "0 < t" "n = int (length es)" "hi_first (id_events eid0) es"
    using prems(3) l0 same_chain_hi_first [OF s0] by auto
  have i: "lists_ok eid0 Q (es @ ?H)" using prems(1) by (simp add: eid0_def lists_ok_waslast)
  have rest: "\<forall>(t, es, n) \<in> set rest. t < length (id_stats eid1) \<and> 0 < t \<and> n = int (length es) \<and> hi_first (id_events eid1) es"
    if "same_chain eid0 eid1" for eid1
    using prems(3) l0 same_chain_length [OF that] same_chain_hi_first [OF s0] same_chain_hi_first [OF that]
    by (auto split: prod.splits)
  show ?case
  proof (cases "es = []")
    case True
    with t(3) have "put_shares li ((t, es, n) # rest) cnt (eid, cs) = put_shares li rest (Suc cnt) (eid0, cs)"
      by (simp add: eid0_def)
    moreover have "\<exists>eid' cs' Q'. put_shares li rest (Suc cnt) (eid0, cs) = Some (True, eid', cs') \<and> lists_ok eid' Q' [] \<and>
      same_chain eid0 eid' \<and> moved (length (id_stats eid0)) Q ?H Q' [] \<and> c_left cs' = 0 \<and> c_put cs' = c_put cs"
      by (rule Cons.IH) (use True t i prems(2) rest [OF same_chain_refl] in \<open>auto simp: eid0_def\<close>)
    ultimately show ?thesis unfolding x using True l0 same_chain_trans [OF s0] by auto
  next
    case False
    let ?x = "l_events_try (in_pl eid0 t) + word_of_nat (length es)"
    from put_into_moves [OF i t(1,2) False t(4), of ?x "c_left cs - n" "c_put cs" cs] obtain eid1 R where
      p: "put_into t (bump_try (in_pl eid0 t) (length es)) es (c_left cs - n) (c_put cs) (eid0, cs) =
          Some (True, eid1, cs\<lparr>c_left := c_left cs - n, c_put := c_put cs\<rparr>)"
      "lists_ok eid1 (Q(t := R)) ?H" "mset R = mset (Q t) + mset es" "same_chain eid0 eid1"
      unfolding bump_try_def by blast
    have nl: "\<not> l_mutex (in_pl eid0 t)" using lists_okD(2) [OF i t(1)] .
    let ?cs1 = "cs\<lparr>c_left := c_left cs - n, c_put := c_put cs\<rparr>"
    have e: "put_shares li ((t, es, n) # rest) cnt (eid, cs) = put_shares li rest (Suc cnt) (eid1, ?cs1)"
      using False t(3) nl p(1) by (simp add: eid0_def [symmetric])
    have "\<exists>eid' cs' Q'. put_shares li rest (Suc cnt) (eid1, ?cs1) = Some (True, eid', cs') \<and> lists_ok eid' Q' [] \<and>
      same_chain eid1 eid' \<and> moved (length (id_stats eid1)) (Q(t := R)) ?H Q' [] \<and> c_left cs' = 0 \<and> c_put cs' = c_put ?cs1"
      by (rule Cons.IH)
        (use False t nl p(1,2) prems(2) rest [OF p(4)] in \<open>auto simp: eid0_def [symmetric] fun_upd_def\<close>)
    then obtain eid' cs' Q' where r: "put_shares li rest (Suc cnt) (eid1, ?cs1) = Some (True, eid', cs')"
      "lists_ok eid' Q' []" "same_chain eid1 eid'" "moved (length (id_stats eid)) (Q(t := R)) ?H Q' []"
      "c_left cs' = 0" "c_put cs' = c_put cs" using same_chain_length [OF p(4)] l0 by auto
    have "moved (length (id_stats eid)) Q (es @ ?H) (Q(t := R)) ?H"
      by (rule moved_update [where es = es]) (use t(1) l0 p(3) in simp_all)
    from moved_trans [OF this r(4)] e r same_chain_trans [OF same_chain_trans [OF s0 p(4)] r(3)]
    show ?thesis unfolding x by (intro exI [of _ eid'] exI [of _ cs'] exI [of _ Q']) simp
  qed
qed

lemma put_numbers_moves:
  assumes "lists_ok eid Q H" "hi_first (id_events eid) alle" "length (c_put cs) = length alle"
    "H = (if c_first cs then drop already alle else unput alle (c_put cs))"
    "c_left cs = int (length H)" "sum_list (map snd xs) = c_left cs"
    "\<forall>(t, n) \<in> set xs. t < length (id_stats eid) \<and> 0 < t \<and> 0 \<le> n"
  shows "\<exists>eid' cs' Q'. put_numbers alle xs already (eid, cs) = Some (True, eid', cs') \<and> lists_ok eid' Q' [] \<and>
     same_chain eid eid' \<and> moved (length (id_stats eid)) Q H Q' [] \<and> c_left cs' = 0 \<and> length (c_put cs') = length alle"
  using assms
proof (induction xs arbitrary: eid cs Q H already)
  case Nil
  then have "H = []" by simp
  with Nil show ?case by (intro exI [of _ eid] exI [of _ cs] exI [of _ Q]) simp
next
  case (Cons x rest)
  obtain t n where x: "x = (t, n)" by (cases x)
  note prems = Cons.prems [unfolded x]
  have t: "t < length (id_stats eid)" "0 < t" "0 \<le> n" using prems(7) by auto
  have "0 \<le> sum_list (map snd rest)" using prems(7) by (intro sum_list_nonneg) auto
  then have n: "nat n \<le> length H" using prems(5,6) t(3) by simp
  show ?case
  proof (cases "n < 1")
    case True
    have "\<exists>eid' cs' Q'. put_numbers alle rest already (eid, cs) = Some (True, eid', cs') \<and> lists_ok eid' Q' [] \<and>
      same_chain eid eid' \<and> moved (length (id_stats eid)) Q H Q' [] \<and> c_left cs' = 0 \<and> length (c_put cs') = length alle"
      by (rule Cons.IH) (use prems True t in auto)
    then show ?thesis using True by (simp add: x)
  next
    case False
    obtain es put' where ep: "(if c_first cs then (take (nat n) (drop already alle), c_put cs)
        else cue_loop (\<lambda>e. True) n alle (c_put cs)) = (es, put')" by (metis surj_pair)
    define H' where "H' = (if c_first cs then drop (already + nat n) alle else unput alle put')"
    have split: "\<not> c_first cs \<Longrightarrow> split_put alle (c_put cs) es put'" using ep cue_loop_split by simp
    have m: "mset H = mset (es @ H')" and lp: "length put' = length alle"
    proof -
      have "H = es @ H'" if "c_first cs"
        using that ep prems(4) append_take_drop_id [of "nat n" "drop already alle"] by (auto simp: H'_def add.commute)
      then show "mset H = mset (es @ H')"
        using split split_put_mset [of alle "c_put cs" es put'] prems(3,4) by (cases "c_first cs") (auto simp: H'_def)
      show "length put' = length alle"
        using ep split split_put_mset [of alle "c_put cs" es put'] prems(3) by (cases "c_first cs") auto
    qed
    have len: "int (length es) = n"
    proof (cases "c_first cs")
      case False
      then have "es = take (nat n) H" using ep prems(3,4) \<open>\<not> n < 1\<close> cue_loop_spec [of alle "c_put cs" n "\<lambda>e. True"] by simp
      with n t(3) show ?thesis by simp
    qed (use ep n t(3) prems(4) in auto)
    have i: "lists_ok eid Q (es @ H')" using prems(1) lists_ok_mset [OF m] by simp
    have hi: "hi_first (id_events eid) es"
    proof (cases "c_first cs")
      case True
      then have "es = take (nat n) (drop already alle)" using ep by simp
      then show ?thesis using prems(2) unfolding hi_first_sorted by (simp add: sorted_wrt_take sorted_wrt_drop)
    qed (use split split_put_hi_first prems(2) in blast)
    have ne: "es \<noteq> []" using len False by auto
    let ?x = "l_events_try (in_pl eid t) + word_of_nat (length es)"
    from put_into_moves [OF i t(1,2) ne hi, of ?x "c_left cs - n" put' cs] obtain eid1 R where
      p: "put_into t (bump_try (in_pl eid t) (length es)) es (c_left cs - n) put' (eid, cs) =
          Some (True, eid1, cs\<lparr>c_left := c_left cs - n, c_put := put'\<rparr>)"
      "lists_ok eid1 (Q(t := R)) H'" "mset R = mset (Q t) + mset es" "same_chain eid eid1"
      unfolding bump_try_def by blast
    let ?cs1 = "cs\<lparr>c_left := c_left cs - n, c_put := put'\<rparr>"
    have e: "put_numbers alle ((t, n) # rest) already (eid, cs) = put_numbers alle rest (already + nat n) (eid1, ?cs1)"
      using False len ep p(1) lists_okD(2) [OF i t(1)] by simp
    have "length H = length es + length H'" using m by (metis length_append size_mset)
    then have "\<exists>eid' cs' Q'. put_numbers alle rest (already + nat n) (eid1, ?cs1) = Some (True, eid', cs') \<and> lists_ok eid' Q' [] \<and>
      same_chain eid1 eid' \<and> moved (length (id_stats eid1)) (Q(t := R)) H' Q' [] \<and> c_left cs' = 0 \<and> length (c_put cs') = length alle"
      using prems p(2) lp len same_chain_hi_first [OF p(4)] same_chain_length [OF p(4)]
      by (intro Cons.IH) (auto simp: H'_def fun_upd_def)
    then obtain eid' cs' Q' where r: "put_numbers alle rest (already + nat n) (eid1, ?cs1) = Some (True, eid', cs')"
      "lists_ok eid' Q' []" "same_chain eid1 eid'" "moved (length (id_stats eid)) (Q(t := R)) H' Q' []"
      "c_left cs' = 0" "length (c_put cs') = length alle" using same_chain_length [OF p(4)] by auto
    have "moved (length (id_stats eid)) Q H (Q(t := R)) H'"
      by (rule moved_update [where es = es]) (use t(1) p(3) m in simp_all)
    from moved_trans [OF this r(4)] e r same_chain_trans [OF p(4) r(3)]
    show ?thesis unfolding x by (intro exI [of _ eid'] exI [of _ cs'] exI [of _ Q']) simp
  qed
qed

lemma batch_moves:
  assumes "\<And>Q H. cinv alle Q H (eid, cs) \<Longrightarrow> H \<noteq> [] \<Longrightarrow> \<exists>eid' cs' Q'. r = Some (True, eid', cs') \<and> lists_ok eid' Q' [] \<and>
     same_chain eid eid' \<and> moved (length (id_stats eid)) Q H Q' [] \<and> c_left cs' = 0 \<and> length (c_put cs') = length alle"
  shows "moves alle (eid, cs) r"
proof (rule movesI)
  fix Q H assume "cinv alle Q H (eid, cs)" "H \<noteq> []"
  from assms [OF this] obtain eid' cs' Q' where "r = Some (True, eid', cs') \<and> lists_ok eid' Q' [] \<and>
     same_chain eid eid' \<and> moved (length (id_stats eid)) Q H Q' [] \<and> c_left cs' = 0 \<and> length (c_put cs') = length alle"
    by blast
  then show "\<exists>eid' cs' Q' H'. r = Some (True, eid', cs') \<and> lists_ok eid' Q' H' \<and> same_chain eid eid' \<and>
      moved (length (id_stats eid)) Q H Q' H' \<and> length (c_put cs') = length alle \<and>
      c_left cs' = int (length H') \<and> (H' \<noteq> [] \<longrightarrow> H' = unput alle (c_put cs'))"
    by (intro exI [of _ eid'] exI [of _ cs'] exI [of _ Q'] exI [of _ "[]"]) simp
qed

lemma serve_equalcue_moves:
  assumes "\<forall>t \<in> set members. t < length (id_stats eid) \<and> 0 < t" "filter (is_active eid) members \<noteq> []"
  shows "moves alle (eid, cs) (serve_equalcue alle members (eid, cs))"
proof (rule batch_moves)
  fix Q H assume c: "cinv alle Q H (eid, cs)" "H \<noteq> []"
  note d = cinvD [OF c(1)]
  let ?active = "filter (is_active eid) members" let ?cues = "map (\<lambda>t. l_cnt (in_pl eid t)) ?active"
  obtain num where num: "equal_cue ?cues (c_left cs) = Some num" "length num = length ?cues"
    "sum_list num = c_left cs" "\<forall>i < length ?cues. 0 \<le> num ! i"
    using equal_cue_levelled [of ?cues "c_left cs"] assms(2) d(4) by auto
  have "\<forall>(t, n) \<in> set (zip ?active num). t < length (id_stats eid) \<and> 0 < t \<and> 0 \<le> n"
  proof (clarify, goal_cases)
    case (1 t n)
    then have "t \<in> set ?active" "n \<in> set num" by (auto dest: set_zip_leftD set_zip_rightD)
    with assms(1) num(2,4) show ?case by (auto simp: in_set_conv_nth)
  qed
  moreover have "map snd (zip ?active num) = num" using num(2) by simp
  ultimately have "\<exists>eid' cs' Q'. put_numbers alle (zip ?active num) 0 (eid, cs) = Some (True, eid', cs') \<and> lists_ok eid' Q' [] \<and>
     same_chain eid eid' \<and> moved (length (id_stats eid)) Q H Q' [] \<and> c_left cs' = 0 \<and> length (c_put cs') = length alle"
    using d num(3) c(2) by (intro put_numbers_moves) auto
  then show "\<exists>eid' cs' Q'. serve_equalcue alle members (eid, cs) = Some (True, eid', cs') \<and> lists_ok eid' Q' [] \<and>
     same_chain eid eid' \<and> moved (length (id_stats eid)) Q H Q' [] \<and> c_left cs' = 0 \<and> length (c_put cs') = length alle"
    using num(1) by (simp add: serve_equalcue_def)
qed

lemma rr_start_active:
  "rr_start eid ts look start = Some s \<Longrightarrow> start = Some s \<or> (s \<in> set ts \<and> is_active eid s)"
proof (induction ts arbitrary: look start)
  case (Cons t ts)
  then show ?case
    by (cases "is_active eid t \<and> look"; cases "st_waslast (id_stats eid ! t) = 1") (fastforce simp: Let_def)+
qed simp

lemma clear_waslast_frame:
  "same_chain eid (clear_waslast ts eid) \<and> lists_ok (clear_waslast ts eid) Q H = lists_ok eid Q H"
proof (induction ts arbitrary: eid)
  case (Cons t ts)
  show ?case
  proof (cases "st_waslast (id_stats eid ! t) = 1")
    case True
    then show ?thesis
      using Cons.IH [of "upd_stat eid t (\<lambda>ps. ps\<lparr>st_waslast := 0\<rparr>)"] same_chain_waslast [of eid t 0]
        lists_ok_waslast [of eid t 0 Q H] by (auto intro: same_chain_trans)
  qed (use Cons.IH in simp)
qed simp

lemma rotate_to_props: "s \<in> set ts \<Longrightarrow> set (rotate_to s ts) = set ts \<and> length (rotate_to s ts) = length ts"
  unfolding rotate_to_def
  by (metis (no_types, lifting) add.commute length_append set_append sup_commute takeWhile_dropWhile_id)

lemma nths_sorted_wrt: "sorted_wrt P es \<Longrightarrow> sorted_wrt P (nths es A)"
proof (induction es arbitrary: A)
  case (Cons e es)
  then show ?case using set_nths_subset [of es "{j. Suc j \<in> A}"] by (auto simp: nths_Cons)
qed simp

lemma nths_classes_mset: "0 < n \<Longrightarrow> mset (concat (map (\<lambda>i. nths es {k. k mod n = i}) [0..<n])) = mset es"
proof (induction es rule: rev_induct)
  case Nil
  then show ?case by (induction n) auto
next
  case (snoc e es)
  have "mset (concat (map (\<lambda>i. nths (es @ [e]) {k. k mod n = i}) [0..<n])) =
      (\<Sum>i \<in> {0..<n}. mset (nths es {k. k mod n = i}) + (if length es mod n = i then {#e#} else {#}))"
    by (simp add: mset_concat nths_append comp_def interv_sum_list_conv_sum_set_nat if_distrib [of mset] cong: if_cong)
  also have "\<dots> = (\<Sum>i \<in> {0..<n}. mset (nths es {k. k mod n = i})) + {#e#}"
    using snoc(2) by (simp add: sum.distrib)
  also have "(\<Sum>i \<in> {0..<n}. mset (nths es {k. k mod n = i})) = mset es"
    using snoc by (simp add: mset_concat comp_def interv_sum_list_conv_sum_set_nat)
  finally show ?case by simp
qed

lemma serve_rrobin_moves:
  assumes mem: "\<forall>t \<in> set members. t < length (id_stats eid) \<and> 0 < t" and act: "filter (is_active eid) members \<noteq> []"
    and first: "c_first cs"
  shows "moves alle (eid, cs) (serve_rrobin alle members (eid, cs))"
proof (rule batch_moves)
  fix Q H assume c: "cinv alle Q H (eid, cs)" "H \<noteq> []"
  note d = cinvD [OF c(1)]
  define active where "active = filter (is_active eid) members"
  define n where "n = length active"
  define s where "s = (case rr_start eid members False None of None \<Rightarrow> hd active | Some s \<Rightarrow> s)"
  define shares where "shares = map (\<lambda>i. nths alle {k. k mod n = i}) [0..<n]"
  define counts where "counts = map (deal_count (c_left cs) (int n)) [0..<n]"
  have n: "0 < n" "active \<noteq> []" using act by (simp_all add: n_def active_def)
  have H: "H = alle" "c_left cs = int (length alle)" using d(4,6) first by auto
  have "s \<in> set active"
  proof (cases "rr_start eid members False None")
    case None
    then show ?thesis using hd_in_set [OF n(2)] by (simp add: s_def)
  next
    case (Some u)
    then show ?thesis using rr_start_active [OF Some] by (simp add: s_def active_def)
  qed
  then have rot: "set (rotate_to s active) = set active" "length (rotate_to s active) = n"
    using rotate_to_props n_def by auto
  have sh: "rrobin_shares (c_first cs) alle (c_put cs) (c_left cs) n = shares"
    using rrobin_first [OF n(1)] first H(2) by (simp add: shares_def)
  have lens: "counts = map (\<lambda>es. int (length es)) shares"
    unfolding counts_def shares_def H(2) map_map
  proof (rule map_cong [OF refl])
    fix i assume "i \<in> set [0..<n]"
    then have "i < n" by simp
    have "length (nths alle {k. k mod n = i}) = nat (deal_count (int (length alle)) (int n) i)"
      using arg_cong [OF deal_first_class [OF \<open>i < n\<close>, of alle], of length] by (simp add: deal_first_def)
    moreover have "0 \<le> deal_count (int (length alle)) (int n) i"
      using n(1) by (simp add: deal_count_def pos_imp_zdiv_nonneg_iff)
    ultimately show "deal_count (int (length alle)) (int n) i = ((\<lambda>es. int (length es)) \<circ> (\<lambda>i. nths alle {k. k mod n = i})) i"
      by simp
  qed
  let ?xs = "zip (rotate_to s active) (zip shares counts)"
  have [simp]: "length shares = n" "length counts = n" by (simp_all add: shares_def counts_def)
  have fsnd: "map (\<lambda>a. fst (snd a)) ?xs = shares"
    using rot(2) by (simp add: list_eq_iff_nth_eq)
  have cl: "same_chain eid (clear_waslast members eid)" using clear_waslast_frame by blast
  have m: "mset (concat shares) = mset H" using nths_classes_mset [OF n(1)] H(1) by (simp add: shares_def)
  have "\<exists>eid' cs' Q'. put_shares (last_event_index (c_left cs) n) ?xs 0 (clear_waslast members eid, cs) = Some (True, eid', cs') \<and>
      lists_ok eid' Q' [] \<and> same_chain (clear_waslast members eid) eid' \<and>
      moved (length (id_stats (clear_waslast members eid))) Q (concat (map (\<lambda>a. fst (snd a)) ?xs)) Q' [] \<and>
      c_left cs' = 0 \<and> c_put cs' = c_put cs"
  proof (rule put_shares_moves)
    show "lists_ok (clear_waslast members eid) Q (concat (map (\<lambda>a. fst (snd a)) ?xs))"
      unfolding fsnd using lists_ok_mset [OF m] d(1) clear_waslast_frame by blast
    show "c_left cs = int (length (concat (map (\<lambda>a. fst (snd a)) ?xs)))"
      unfolding fsnd using H m by (metis size_mset)
    show "\<forall>(t, es, n) \<in> set ?xs. t < length (id_stats (clear_waslast members eid)) \<and> 0 < t \<and> n = int (length es) \<and>
        hi_first (id_events (clear_waslast members eid)) es"
    proof (clarify, goal_cases)
      case (1 t es k)
      then have "t \<in> set active" "(es, k) \<in> set (zip shares counts)" using rot(1) by (auto dest: set_zip_leftD set_zip_rightD)
      moreover from this(2) have "es \<in> set shares" "k = int (length es)"
        by (auto dest: set_zip_leftD simp: lens set_zip)
      moreover from this(1) obtain i where "es = nths alle {k. k mod n = i}" by (auto simp: shares_def)
      then have "hi_first (id_events eid) es" using d(2) nths_sorted_wrt unfolding hi_first_sorted by blast
      ultimately show ?case
        using mem same_chain_length [OF cl] same_chain_hi_first [OF cl] by (simp add: active_def)
    qed
  qed
  then obtain eid' cs' Q' where r: "put_shares (last_event_index (c_left cs) n) ?xs 0 (clear_waslast members eid, cs) = Some (True, eid', cs')"
      "lists_ok eid' Q' []" "same_chain (clear_waslast members eid) eid'" "moved (length (id_stats eid)) Q (concat shares) Q' []"
      "c_left cs' = 0" "c_put cs' = c_put cs" using fsnd same_chain_length [OF cl] by auto
  have "serve_rrobin alle members (eid, cs) = Some (True, eid', cs')"
    using r(1) sh unfolding serve_rrobin_def Let_def prod.case
    unfolding active_def [symmetric] n_def [symmetric]
    unfolding s_def [symmetric] counts_def [symmetric] by simp
  moreover have "moved (length (id_stats eid)) Q H Q' []" using r(4) m by (simp add: moved_def)
  ultimately show "\<exists>eid' cs' Q'. serve_rrobin alle members (eid, cs) = Some (True, eid', cs') \<and> lists_ok eid' Q' [] \<and>
     same_chain eid eid' \<and> moved (length (id_stats eid)) Q H Q' [] \<and> c_left cs' = 0 \<and> length (c_put cs') = length alle"
    using r same_chain_trans [OF cl r(3)] d(3) by (intro exI [of _ eid'] exI [of _ cs'] exI [of _ Q']) simp
qed

section \<open>The chain\<close>

lemma group_members_group:
  assumes "dlinked (\<lambda>i. st_nextparallel (stats ! i)) (\<lambda>i. st_prevparallel (stats ! i)) g" "g \<noteq> []"
    "st_nextparallel (stats ! last g) = -1" "\<forall>i \<in> set g. i < length stats" "length g \<le> fuel"
  shows "group_members fuel stats (hd g) = Some g"
  using assms
proof (induction g arbitrary: fuel)
  case (Cons s g)
  from Cons.prems(5) obtain k where k: "fuel = Suc k" by (cases fuel) auto
  show ?case
  proof (cases "g = []")
    case False
    then have "st_nextparallel (stats ! s) = int (hd g)" "hd g < length stats"
      using Cons.prems(1,4) by (auto simp: dlinked_Cons)
    then show ?thesis using Cons.IH [of k] Cons.prems False k by (simp add: dlinked_Cons)
  qed (use Cons.prems k in simp)
qed simp

lemma group_length:
  assumes "chain_ok stats tail gs" "g \<in> set gs"
  shows "length g \<le> length stats" "\<forall>t \<in> set g. t < length stats \<and> 0 < t"
proof -
  note c = chain_okD [OF assms(1)]
  have sub: "set g \<subseteq> set (concat gs)" using assms(2) by auto
  show b: "\<forall>t \<in> set g. t < length stats \<and> 0 < t" 
  proof
    fix t assume "t \<in> set g"
    then have t: "t \<in> set (concat gs)" using sub by blast
    then have "t \<noteq> 0" using c(1) by (metis distinct.simps(2))
    with t c(2) show "t < length stats \<and> 0 < t" by (auto simp: members_ok_def)
  qed
  have "distinct g" using c(1) assms(2) by (auto simp: distinct_concat_iff)
  with b have "length g \<le> card {..<length stats}"
    by (metis card_mono distinct_card finite_lessThan lessThan_iff subsetI)
  then show "length g \<le> length stats" by simp
qed

lemma chain_short:
  assumes "chain_ok stats tail gs" shows "length gs < length stats"
proof -
  note c = chain_okD [OF assms]
  have "set (0 # map hd gs) \<subseteq> {..<length stats}" using c(2,7) by (auto simp: members_ok_def)
  then have "length (0 # map hd gs) \<le> card {..<length stats}"
    by (metis c(8) card_mono distinct_card finite_lessThan)
  then show "length gs < length stats" by simp
qed

definition rrobin_head :: "et_id \<Rightarrow> nat \<Rightarrow> bool" where
  "rrobin_head eid s \<longleftrightarrow> is_parallel eid s \<and> cf_select_mode (st_config (id_stats eid ! s)) = ET_STATION_SELECT_RROBIN"

lemma same_chain_rrobin: "same_chain eid eid' \<Longrightarrow> s < length (id_stats eid) \<Longrightarrow> rrobin_head eid' s = rrobin_head eid s"
  using strip_eqD(6) [OF same_chain_nth] same_chain_active by (simp add: rrobin_head_def)

lemma serve_moves:
  assumes ch: "chain_ok (id_stats eid) tail gs" and g: "g \<in> set gs" and rr: "rrobin_head eid (hd g) \<Longrightarrow> c_first cs"
  shows "moves alle (eid, cs) (serve ufunc alle (hd g) (eid, cs))"
proof -
  note b = group_length [OF ch g]
  have go: "group_ok (id_stats eid) g" and ne: "g \<noteq> []" using chain_okD [OF ch] g by auto
  then have hd: "hd g < length (id_stats eid)" using b(2) by (metis hd_in_set)
  show ?thesis
  proof (cases "is_parallel eid (hd g)")
    case False
    then show ?thesis using offer_moves [OF hd, of alle cs ufunc] moves_none by (simp add: serve_def)
  next
    case True
    have "group_members (length (id_stats eid)) (id_stats eid) (hd g) = Some g"
      using go b by (intro group_members_group) (auto simp: group_ok_def)
    then show ?thesis
      using True rr moves_none serve_equalcue_moves [of g eid alle cs] serve_rrobin_moves [of g eid cs alle] b(2)
        offers.each_while_moves [of "filter (is_active eid) g" eid alle cs ufunc]
      by (auto simp: serve_def rrobin_head_def Let_def)
  qed
qed

lemma serve_gc:
  assumes "is_active eid 0" "\<not> is_parallel eid 0" "0 < length (id_stats eid)"
  shows "moves alle (eid, cs) (serve ufunc alle 0 (eid, cs)) \<and>
    (\<forall>Q H. cinv alle Q H (eid, cs) \<longrightarrow> H \<noteq> [] \<longrightarrow>
       (\<exists>eid' cs'. serve ufunc alle 0 (eid, cs) = Some (True, eid', cs') \<and> c_left cs' = 0))"
  using offer_gc_moves [of eid alle cs] assms by (simp add: serve_def offer_def)

lemma conduct_moves:
  assumes "chain_ok (id_stats eid) tail gs" "is_active eid 0" "\<not> is_parallel eid 0"
    "cinv alle Q H (eid, cs)" "gs = done @ rest" "length rest + 1 < fuel"
    "\<forall>g \<in> set (tl rest). \<not> rrobin_head eid (hd g)" "rest \<noteq> [] \<Longrightarrow> rrobin_head eid (hd (hd rest)) \<Longrightarrow> c_first cs"
  shows "\<exists>eid' cs' Q'. conduct fuel ufunc alle (if rest = [] then 0 else hd (hd rest)) (eid, cs) = Some (True, eid', cs') \<and>
     lists_ok eid' Q' [] \<and> same_chain eid eid' \<and> moved (length (id_stats eid)) Q H Q' []"
  using assms
proof (induction rest arbitrary: eid cs Q H "done" fuel)
  case Nil
  obtain k where k: "fuel = Suc k" using Nil.prems(6) by (cases fuel) auto
  note d = cinvD [OF Nil.prems(4)]
  show ?case
  proof (cases "H = []")
    case True
    then show ?thesis using d k by (intro exI [of _ eid] exI [of _ cs] exI [of _ Q]) simp
  next
    case False
    have pos: "0 < length (id_stats eid)" using chain_okD(2) [OF Nil.prems(1)] by (simp add: members_ok_def)
    note s = serve_gc [OF Nil.prems(2,3) pos, of alle cs ufunc]
    obtain eid' cs' Q' H' where r: "serve ufunc alle 0 (eid, cs) = Some (True, eid', cs')"
      "cinv alle Q' H' (eid', cs'\<lparr>c_first := False\<rparr>)" "same_chain eid eid'" "moved (length (id_stats eid)) Q H Q' H'"
      by (rule movesD [OF conjunct1 [OF s] Nil.prems(4) False])
    have "c_left cs' = 0" using s Nil.prems(4) False r(1) by fastforce
    then have "H' = []" using cinvD(4) [OF r(2)] by simp
    then show ?thesis using r cinvD(1) [OF r(2)] cinvD(4) [OF Nil.prems(4)] False k
      by (intro exI [of _ eid'] exI [of _ cs'] exI [of _ Q']) simp
  qed
next
  case (Cons g rest)
  obtain k where k: "fuel = Suc k" using Cons.prems(6) by (cases fuel) auto
  note d = cinvD [OF Cons.prems(4)]
  note c = chain_okD [OF Cons.prems(1)]
  have g: "g \<in> set gs" using Cons.prems(5) by simp
  show ?case
  proof (cases "H = []")
    case True
    then show ?thesis using d k by (intro exI [of _ eid] exI [of _ cs] exI [of _ Q]) simp
  next
    case False
    have "moves alle (eid, cs) (serve ufunc alle (hd g) (eid, cs))"
      using Cons.prems(8) by (intro serve_moves [OF Cons.prems(1) g]) simp
    from movesD [OF this Cons.prems(4) False] obtain eid1 cs1 Q1 H1 where
      r: "serve ufunc alle (hd g) (eid, cs) = Some (True, eid1, cs1)" "cinv alle Q1 H1 (eid1, cs1\<lparr>c_first := False\<rparr>)"
      "same_chain eid eid1" "moved (length (id_stats eid)) Q H Q1 H1" by blast
    have hd: "hd g < length (id_stats eid)" "0 < hd g" using group_length(2) [OF Cons.prems(1) g] c(5) [OF g] by auto
    have pos: "0 < length (id_stats eid)" using hd by linarith
    have ch1: "chain_ok (id_stats eid1) tail gs" by (rule same_chain_ok [OF r(3) Cons.prems(1)])
    have act1: "is_active eid1 0" "\<not> is_parallel eid1 0" using same_chain_active [OF r(3) pos] Cons.prems(2,3) by auto
    have rr1: "\<not> rrobin_head eid1 (hd h)" if "h \<in> set rest" for h
    proof -
      have h: "h \<in> set gs" using that Cons.prems(5) by simp
      then have "hd h < length (id_stats eid)" using group_length(2) [OF Cons.prems(1) h] c(5) [OF h] by auto
      from same_chain_rrobin [OF r(3) this] show ?thesis using Cons.prems(7) that by simp
    qed
    have "\<exists>eid' cs' Q'. conduct k ufunc alle (if rest = [] then 0 else hd (hd rest)) (eid1, cs1\<lparr>c_first := False\<rparr>) = Some (True, eid', cs') \<and>
      lists_ok eid' Q' [] \<and> same_chain eid1 eid' \<and> moved (length (id_stats eid1)) Q1 H1 Q' []"
      by (rule Cons.IH [OF ch1 act1 r(2), of "done @ [g]"]) (use Cons.prems(5,6) k rr1 in \<open>auto dest: in_set_tlD\<close>)
    then obtain eid' cs' Q' where f: "conduct k ufunc alle (if rest = [] then 0 else hd (hd rest)) (eid1, cs1\<lparr>c_first := False\<rparr>) = Some (True, eid', cs')"
      "lists_ok eid' Q' []" "same_chain eid1 eid'" "moved (length (id_stats eid)) Q1 H1 Q' []"
      using same_chain_length [OF r(3)] by auto
    have "dlinked (\<lambda>i. st_next (id_stats eid1 ! i)) (\<lambda>i. st_prev (id_stats eid1 ! i)) ((0 # map hd done) @ (hd g # map hd rest))"
      "st_next (id_stats eid1 ! last (0 # map hd gs)) = -1"
      using chain_okD(3) [OF ch1] Cons.prems(5) by (auto simp: main_ok_def)
    then have nx: "st_next (id_stats eid1 ! hd g) = (if rest = [] then -1 else int (hd (hd rest)))"
      using Cons.prems(5) by (auto simp: dlinked_append dlinked_Cons hd_map)
    have ix: "stat_ix (id_stats eid1) (int (hd (hd rest))) = Some (hd (hd rest))" if "rest \<noteq> []"
    proof -
      have h: "hd rest \<in> set gs" using that Cons.prems(5) by simp
      then have "hd (hd rest) < length (id_stats eid1)" using group_length(2) [OF ch1 h] c(5) [OF h] by auto
      then show ?thesis by simp
    qed
    have "conduct fuel ufunc alle (hd g) (eid, cs) = Some (True, eid', cs')"
      using f(1) r(1) k hd(2) nx ix False d(4) by (cases "rest = []") simp_all
    then show ?thesis using f same_chain_trans [OF r(3) f(3)] moved_trans [OF r(4) f(4)]
      by (intro exI [of _ eid'] exI [of _ cs'] exI [of _ Q']) simp
  qed
qed

section \<open>One round\<close>

lemma first_parallel_head:
  assumes "dlinked (\<lambda>i. st_nextparallel (stats ! i)) (\<lambda>i. st_prevparallel (stats ! i)) g" "g \<noteq> []"
    "st_prevparallel (stats ! hd g) = -1" "\<forall>i \<in> set g. i < length stats" "length g \<le> fuel"
  shows "first_parallel fuel stats (last g) = Some (hd g)"
  using assms
proof (induction g arbitrary: fuel rule: rev_induct)
  case (snoc s g)
  from snoc.prems(5) obtain k where k: "fuel = Suc k" by (cases fuel) auto
  show ?case
  proof (cases "g = []")
    case False
    then have "st_prevparallel (stats ! s) = int (last g)" "last g < length stats" "s < length stats"
      using snoc.prems(1,4) by (auto simp: dlinked_append)
    then show ?thesis using snoc.IH [of k] snoc.prems False k by (simp add: dlinked_append)
  qed (use snoc.prems k in simp)
qed simp

lemma next_station_chain:
  assumes "chain_ok stats tail gs" "gs = done @ rest"
    "me = 0 \<and> done = [] \<or> done \<noteq> [] \<and> me \<in> set (last done)" "cf_flow_mode (st_config (stats ! 0)) \<noteq> ET_STATION_PARALLEL"
  shows "next_station stats me = Some (if rest = [] then 0 else hd (hd rest))"
proof -
  note c = chain_okD [OF assms(1)]
  define h where "h = (if done = [] then 0 else hd (last done))"
  have d: "dlinked (\<lambda>i. st_next (stats ! i)) (\<lambda>i. st_prev (stats ! i)) ((0 # map hd done) @ map hd rest)"
    "st_next (stats ! last (0 # map hd gs)) = -1"
    using c(3) assms(2) by (auto simp: main_ok_def)
  have h: "last (0 # map hd done) = h" by (simp add: h_def last_map)
  have nx: "st_next (stats ! h) = (if rest = [] then -1 else int (hd (hd rest)))"
    using d h assms(2) by (cases "rest = []") (auto simp: dlinked_append hd_map simp del: append_Cons last.simps)
  have hr: "hd (hd rest) < length stats" if "rest \<noteq> []"
    using group_length(2) [OF assms(1), of "hd rest"] c(5) [of "hd rest"] that assms(2) by auto
  have "(if cf_flow_mode (st_config (stats ! me)) = ET_STATION_PARALLEL
      then first_parallel (length stats) stats me else Some me) = Some h"
  proof (cases "done = []")
    case True
    then show ?thesis using assms(3,4) by (simp add: h_def)
  next
    case False
    let ?g = "last done"
    have g: "?g \<in> set gs" "me \<in> set ?g" using False assms(2,3) by auto
    have go: "group_ok stats ?g" using c(4) g(1) by blast
    show ?thesis
    proof (cases "cf_flow_mode (st_config (stats ! me)) = ET_STATION_PARALLEL")
      case True
      obtain xs ys where sp: "?g = (xs @ [me]) @ ys" using g(2) by (metis split_list append.assoc append_Cons append_Nil)
      have "first_parallel (length stats) stats (last (xs @ [me])) = Some (hd (xs @ [me]))"
      proof (rule first_parallel_head)
        show "dlinked (\<lambda>i. st_nextparallel (stats ! i)) (\<lambda>i. st_prevparallel (stats ! i)) (xs @ [me])"
          using go unfolding group_ok_def sp by (auto simp: dlinked_append)
        have "hd ?g = hd (xs @ [me])" unfolding sp by (cases xs) simp_all
        then show "st_prevparallel (stats ! hd (xs @ [me])) = -1" using go by (simp add: group_ok_def)
        show "\<forall>i \<in> set (xs @ [me]). i < length stats" using group_length(2) [OF assms(1) g(1)] sp by auto
        show "length (xs @ [me]) \<le> length stats" using group_length(1) [OF assms(1) g(1)] sp by simp
      qed simp
      moreover have "hd (xs @ [me]) = h" using sp False by (simp add: h_def hd_append split: if_splits)
      ultimately show ?thesis using True by simp
    next
      case nopar: False
      then have "tl ?g = []" using go g(2) by (auto simp: group_ok_def)
      then have "me = hd ?g" using g(2) by (cases ?g) auto
      then show ?thesis using nopar False by (simp add: h_def)
    qed
  qed
  then show ?thesis using nx hr by (auto simp: next_station_def)
qed

text \<open>The conductor takes all events of its output list.\<close>

lemma apart_take: "apart m Q [] \<Longrightarrow> t < m \<Longrightarrow> distinct (Q t) \<Longrightarrow> apart m (Q(t := [])) (Q t)"
  by (auto simp: apart_def)

definition out_emptied :: "et_list \<Rightarrow> nat \<Rightarrow> et_list" where
  "out_emptied pl n = pl\<lparr>l_firstevent := None, l_cnt := 0, l_lasthigh := 0, l_events_out := l_events_out pl + of_nat n\<rparr>"

lemma lists_ok_take_out:
  assumes ok: "lists_ok eid Q []" and me: "me < length (id_stats eid)"
  defines "n \<equiv> length (id_stats eid)"
  shows "lists_ok (upd_stat eid me (\<lambda>ps. ps\<lparr>st_list_out := out_emptied (out_pl eid me) k\<rparr>)) (Q(n + me := [])) (Q (n + me))"
proof -
  let ?id = "upd_stat eid me (\<lambda>ps. ps\<lparr>st_list_out := out_emptied (out_pl eid me) k\<rparr>)"
  have l: "length (id_stats ?id) = n" "id_events ?id = id_events eid" "nevents_max ?id = nevents_max eid"
    by (simp_all add: upd_stat_def nevents_max_def n_def)
  have i: "in_pl ?id t = in_pl eid t" and o: "out_pl ?id t = (if t = me then out_emptied (out_pl eid me) k else out_pl eid t)"
    if "t < n" for t
    using that me by (cases "t = me"; simp add: in_pl_def out_pl_def upd_stat_def n_def)+
  have me': "n + me < n + n" "n + me < length (id_stats eid) + length (id_stats eid)" using me by (simp_all add: n_def)
  have "apart (n + n) (Q(n + me := [])) (Q (n + me))"
    by (rule apart_take [of _ Q "n + me", OF _ me'(1) lists_okD_all(2) [OF ok me'(2)]]) (use ok in \<open>simp add: lists_ok_def n_def\<close>)
  moreover have "legal_events ?id es = legal_events eid es" for es by (simp add: legal_events_def l)
  moreover have "legal_events eid (Q t)" if "t < n + n" for t using lists_okD_all(1) [OF ok] that by (simp add: n_def)
  moreover have "out_ok (id_events eid) (out_emptied (out_pl eid me) k) []" "\<not> l_mutex (out_emptied (out_pl eid me) k)"
    using lists_okD(9) [OF ok me] by (simp_all add: out_ok_def list_ok_def hi_first_def out_emptied_def)
  moreover have "legal_events eid []" by (simp add: legal_events_def pri_ok_def)
  ultimately show ?thesis
    using lists_okD [OF ok] me'(1) by (auto simp: lists_ok_def l i o n_def)
qed

lemma conductor_round:
  assumes ch: "chain_ok (id_stats eid) tail (done @ rest)" and me': "me = 0 \<and> done = [] \<or> done \<noteq> [] \<and> me \<in> set (last done)"
    and rr: "\<forall>g \<in> set (tl rest). \<not> rrobin_head eid (hd g)" and gc: "is_active eid 0" "\<not> is_parallel eid 0"
    and ok: "lists_ok eid Q []" and n: "n = length (id_stats eid)" and ne: "Q (n + me) \<noteq> []"
  shows "\<exists>eid' Q'. et_conductor ufunc me eid = Some (True, eid') \<and> lists_ok eid' Q' [] \<and> Q' (n + me) = [] \<and>
     (\<forall>t. n \<le> t \<longrightarrow> t \<noteq> n + me \<longrightarrow> Q' t = Q t) \<and>
     mset (Q (n + me)) + (\<Sum>t < n. mset (Q t)) = (\<Sum>t < n. mset (Q' t)) \<and>
     (\<forall>t < n. mset (Q t) \<subseteq># mset (Q' t)) \<and> next_only UNIV (id_events eid) (id_events eid') \<and>
     length (id_stats eid') = n \<and> nevents_max eid' = nevents_max eid \<and> id_histogram eid' = id_histogram eid \<and> chain_ok (id_stats eid') tail (done @ rest)"
proof -
  define H where "H = Q (n + me)"
  let ?pl = "out_emptied (out_pl eid me) (length H)"
  define eid1 where "eid1 = upd_stat eid me (\<lambda>ps. ps\<lparr>st_list_out := ?pl\<rparr>)"
  let ?cs = "\<lparr>c_put = replicate (length H) False, c_left = int (length H), c_first = True\<rparr>"
  have me: "me < length (id_stats eid)"
    using me' group_length(2) [OF ch, of "last done"] chain_okD(2) [OF ch] by (auto simp: members_ok_def)
  note out = lists_okD(8,9) [OF ok me, folded n H_def]
  have H: "list_ok (id_events eid) (out_pl eid me) H" "hi_first (id_events eid) H" "H \<noteq> []"
    using out(1) ne by (simp_all add: out_ok_def H_def)
  have st1: "id_stats eid1 ! t = (id_stats eid ! t)\<lparr>st_list_out := (if t = me then ?pl else st_list_out (id_stats eid ! t))\<rparr>" for t
    using me by (cases "t = me") (simp_all add: eid1_def upd_stat_def)
  have len1: "length (id_stats eid1) = n" "id_events eid1 = id_events eid" "nevents_max eid1 = nevents_max eid"
      "id_histogram eid1 = id_histogram eid"
    by (simp_all add: eid1_def upd_stat_def nevents_max_def n)
  have i1: "lists_ok eid1 (Q(n + me := [])) H" using lists_ok_take_out [OF ok me] by (simp add: eid1_def n H_def)
  have same: "is_active eid1 = is_active eid" "is_parallel eid1 = is_parallel eid" "rrobin_head eid1 = rrobin_head eid"
    by (simp_all add: fun_eq_iff is_active_def is_parallel_def rrobin_head_def st1)
  have ch1: "chain_ok (id_stats eid1) tail (done @ rest)"
    using ch unfolding chain_ok_def members_ok_def main_ok_def group_ok_def by (simp add: st1 len1 n)
  have ns: "next_station (id_stats eid1) me = Some (if rest = [] then 0 else hd (hd rest))"
    using next_station_chain [OF ch1 refl me'] gc(2) by (simp add: st1 is_parallel_def)
  have c1: "cinv H (Q(n + me := [])) H (eid1, ?cs)" using i1 H(2) by (simp add: cinv_def len1)
  have "\<exists>eid' cs' Q'. conduct (Suc (length (id_stats eid1))) ufunc H (if rest = [] then 0 else hd (hd rest)) (eid1, ?cs) =
      Some (True, eid', cs') \<and> lists_ok eid' Q' [] \<and> same_chain eid1 eid' \<and>
      moved (length (id_stats eid1)) (Q(n + me := [])) H Q' []"
    by (rule conduct_moves [OF ch1 _ _ c1 refl])
      (use rr gc same chain_short [OF ch1] len1 in \<open>auto simp: chain_okD(5) [OF ch1]\<close>)
  then obtain eid' cs' Q' where r: "conduct (Suc (length (id_stats eid1))) ufunc H (if rest = [] then 0 else hd (hd rest)) (eid1, ?cs) =
      Some (True, eid', cs')" "lists_ok eid' Q' []" "same_chain eid1 eid'" "moved n (Q(n + me := [])) H Q' []"
    using len1(1) by auto
  note H' = H(1,3) [unfolded out_pl_def] and out' = out(2) [unfolded out_pl_def]
  have pl: "(st_list_out (id_stats eid ! me))\<lparr>l_firstevent := None, l_cnt := 0, l_lasthigh := 0,
      l_events_out := l_events_out (st_list_out (id_stats eid ! me)) + of_nat (length H)\<rparr> = ?pl"
    by (simp add: out_emptied_def out_pl_def)
  have "et_conductor ufunc me eid = Some (True, eid')"
    using H' out' et_llist_read_list_ok [OF H'] ns r(1) list_okD(1) [OF H'(1)]
    by (auto simp: et_conductor_def Let_def pl eid1_def [symmetric])
  moreover have "next_only UNIV (id_events eid) (id_events eid')" "nevents_max eid' = nevents_max eid"
      "id_histogram eid' = id_histogram eid" "length (id_stats eid') = n"
    using r(3) same_chain_length [OF r(3)] len1 by (simp_all add: same_chain_def)
  moreover have "(\<Sum>t < n. mset ((Q(n + me := [])) t)) = (\<Sum>t < n. mset (Q t))"
    by (rule sum.cong) auto
  ultimately show ?thesis
    using r(2,4) same_chain_ok [OF r(3) ch1] by (intro exI [of _ eid'] exI [of _ Q']) (auto simp: moved_def H_def)
qed

section \<open>Property\<close>

text \<open>
  C3. One round of a conductor conserves events. Let all input and output lists be well formed,
  in priority order (GrandCentral's input list apart), unlocked and without a common event. Whatever
  the selection modes and the user functions are, the round ends without error, empties the
  conductor's output list, and every event of it is afterwards in the input list of exactly one
  station; no station loses an event it had, the other output lists and everything but the links of
  the events are unchanged, and all lists and the chain are well formed again. Only groups that use
  the round-robin algorithm must not come later than as the next station.
\<close>

theorem et_conductor_conserves:
  assumes "chain_ok (id_stats eid) tail (done @ rest)"
    "me = 0 \<and> done = [] \<or> done \<noteq> [] \<and> me \<in> set (last done)"
    "\<forall>g \<in> set (tl rest). \<not> rrobin_head eid (hd g)" "is_active eid 0" "\<not> is_parallel eid 0"
    "lists_ok eid Q []" "n = length (id_stats eid)" "Q (n + me) \<noteq> []"
  shows "\<exists>eid' Q'. et_conductor ufunc me eid = Some (True, eid') \<and> lists_ok eid' Q' [] \<and> Q' (n + me) = [] \<and>
     (\<forall>t. n \<le> t \<longrightarrow> t \<noteq> n + me \<longrightarrow> Q' t = Q t) \<and>
     mset (Q (n + me)) + (\<Sum>t < n. mset (Q t)) = (\<Sum>t < n. mset (Q' t)) \<and>
     (\<forall>t < n. mset (Q t) \<subseteq># mset (Q' t)) \<and> next_only UNIV (id_events eid) (id_events eid') \<and>
     length (id_stats eid') = n \<and> nevents_max eid' = nevents_max eid \<and> id_histogram eid' = id_histogram eid \<and> chain_ok (id_stats eid') tail (done @ rest)"
  by (rule conductor_round [OF assms])

definition sample_round :: et_id where
  "sample_round = sample_id 2 [(sample_stats 2 2 ! 0)\<lparr>st_data := \<lparr>sd_status = ET_STATION_ACTIVE, sd_pid_create = 0,
       sd_nattachments = 0, sd_att = []\<rparr>, st_list_out := sample_list\<lparr>l_cnt := 2, l_firstevent := Some 0, l_lastevent := Some 1\<rparr>\<rparr>,
     sample_stats 2 2 ! 1] (set_next (sample_heap []) 0 (Some 1))"

lemma sample_round_chain:
  "chain_ok (id_stats sample_round) 1 ([] @ [[1]])" "is_active sample_round 0" "\<not> is_parallel sample_round 0"
  "length (id_stats sample_round) = 2"
  by (simp_all add: sample_round_def chain_ok_def members_ok_def main_ok_def group_ok_def is_active_def is_parallel_def)

lemma sample_round_ok: "lists_ok sample_round ((\<lambda>_ :: nat. [])(2 := [0, 1])) []"
proof -
  let ?Q = "(\<lambda>_ :: nat. [])(2 := [0, 1])"
  have "list_ok (id_events sample_round) (in_pl sample_round t) (?Q t) \<and> \<not> l_mutex (in_pl sample_round t) \<and>
      out_ok (id_events sample_round) (out_pl sample_round t) (?Q (2 + t)) \<and> \<not> l_mutex (out_pl sample_round t)" if "t < 2" for t
    using that by (auto simp: sample_round_def in_pl_def out_pl_def out_ok_def list_ok_def hi_first_def is_high_def less_Suc_eq numeral_2_eq_2)
  moreover have "legal_events sample_round (?Q t)" for t
    by (auto simp: legal_events_def sample_round_def nevents_max_def pri_ok_def)
  moreover have "apart 4 ?Q []" by (auto simp: apart_def)
  ultimately show ?thesis
    unfolding lists_ok_def sample_round_chain(4) by (simp add: hi_first_def legal_events_def pri_ok_def)
qed

theorem et_conductor_conserves_witness:
  "\<exists>eid' Q'. et_conductor (\<lambda>_ _ _ _. False) 0 sample_round = Some (True, eid') \<and> lists_ok eid' Q' [] \<and>
     mset [0, 1] = (\<Sum>t < 2. mset (Q' t))"
proof -
  let ?Q = "(\<lambda>_ :: nat. [])(2 := [0, 1])"
  have ne: "?Q (2 + 0) \<noteq> []" by simp
  from et_conductor_conserves [OF sample_round_chain(1) _ _ sample_round_chain(2,3) sample_round_ok sample_round_chain(4) [symmetric] ne]
  obtain eid' Q' where
    "et_conductor (\<lambda>_ _ _ _. False) 0 sample_round = Some (True, eid')" "lists_ok eid' Q' []"
    "mset (?Q (2 + 0)) + (\<Sum>t < 2. mset (?Q t)) = (\<Sum>t < 2. mset (Q' t))" by fastforce
  then show ?thesis by (intro exI [of _ eid'] exI [of _ Q']) (simp add: numeral_2_eq_2)
qed

end
