(* ===== verification/ET_Cycle.thy ===== *)
theory ET_Cycle
  imports ET_Events ET_Conserve
begin

text \<open>
  The life of events in an ET system: users take new events from GrandCentral, put them into the
  output list of their station, conductors move them from station to station, users get and put or
  dump them. The invariant \<open>events_ok\<close> says that at every moment each event is either owned by a user
  and in no list, or owned by the system and in exactly one list, once, and that all lists are well
  formed. The relation \<open>event_step\<close> has the calls of theory \<open>ET_Events\<close>, the changes of an event by
  its owner and the rounds of the conductors as its steps.
\<close>

section \<open>The invariant\<close>

definition in_lists :: "et_id \<Rightarrow> (nat \<Rightarrow> nat list) \<Rightarrow> nat \<Rightarrow> bool" where
  "in_lists eid Q e \<longleftrightarrow> (\<exists>t < length (id_stats eid) + length (id_stats eid). e \<in> set (Q t))"

definition legal_pri :: "et_event \<Rightarrow> bool" where
  "legal_pri x \<longleftrightarrow> ev_priority x = ET_LOW \<or> ev_priority x = ET_HIGH"

definition events_ok :: "et_id \<Rightarrow> (nat \<Rightarrow> nat list) \<Rightarrow> bool" where
  "events_ok eid Q \<longleftrightarrow> lists_ok eid Q [] \<and> nevents_max eid < int (length (id_histogram eid)) \<and>
     (\<forall>e. int e < nevents_max eid \<longrightarrow>
        legal_pri (id_events eid e) \<and> (ev_owner (id_events eid e) = ET_SYS \<longleftrightarrow> in_lists eid Q e))"

lemma events_okD:
  assumes "events_ok eid Q"
  shows "lists_ok eid Q []" "nevents_max eid < int (length (id_histogram eid))"
    "\<And>e. int e < nevents_max eid \<Longrightarrow> legal_pri (id_events eid e)"
    "\<And>e. int e < nevents_max eid \<Longrightarrow> ev_owner (id_events eid e) = ET_SYS \<longleftrightarrow> in_lists eid Q e"
  using assms by (auto simp: events_ok_def)

lemma in_lists_legal: "lists_ok eid Q [] \<Longrightarrow> in_lists eid Q e \<Longrightarrow> int e < nevents_max eid"
  using lists_okD_all(1) [of eid Q "[]"] by (auto simp: in_lists_def legal_events_def)

text \<open>Each event is in one list, once, or in none.\<close>

lemma count_places:
  assumes "lists_ok eid Q []"
  shows "(\<Sum>t < length (id_stats eid) + length (id_stats eid). count (mset (Q t)) e) = (if in_lists eid Q e then 1 else 0)"
proof (cases "in_lists eid Q e")
  case True
  then obtain t where t: "t < length (id_stats eid) + length (id_stats eid)" "e \<in> set (Q t)" by (auto simp: in_lists_def)
  have ap: "apart (length (id_stats eid) + length (id_stats eid)) Q []" using assms by (simp add: lists_ok_def)
  have "count (mset (Q u)) e = (if u = t then 1 else 0)" if "u < length (id_stats eid) + length (id_stats eid)" for u
    using lists_okD_all(2) [OF assms that] apartD(3) [OF ap t(1) that] t(2)
    by (auto simp: distinct_count_atmost_1)
  then show ?thesis using True t(1) by (simp add: sum.delta)
next
  case False
  then have "count (mset (Q t)) e = 0" if "t < length (id_stats eid) + length (id_stats eid)" for t
    using that by (auto simp: in_lists_def)
  with False show ?thesis by simp
qed

section \<open>Changes of one list\<close>

text \<open>
  An operation on the list at place \<open>p\<close>: only links and owners of its events and of the events \<open>es\<close>,
  which are in no other list, differ.
\<close>

lemma lists_ok_place:
  assumes ok: "lists_ok eid Q []" and p: "p < n + n" and n: "n = length (id_stats eid)"
    and ev: "link_only (set (Q p) \<union> set es) (id_events eid) (id_events eid')"
    and es: "\<And>q. q < n + n \<Longrightarrow> q \<noteq> p \<Longrightarrow> set (Q q) \<inter> set es = {}"
    and R: "set R \<subseteq> set (Q p) \<union> set es" "legal_events eid R"
    and same: "length (id_stats eid') = n" "nevents_max eid' = nevents_max eid"
      "\<And>t. t < n \<Longrightarrow> t \<noteq> p \<Longrightarrow> in_pl eid' t = in_pl eid t" "\<And>t. t < n \<Longrightarrow> n + t \<noteq> p \<Longrightarrow> out_pl eid' t = out_pl eid t"
    and inp: "p < n \<Longrightarrow> list_ok (id_events eid') (in_pl eid' p) R \<and> \<not> l_mutex (in_pl eid' p) \<and>
        (0 < p \<longrightarrow> hi_first (id_events eid') R)"
    and outp: "\<And>t. t < n \<Longrightarrow> p = n + t \<Longrightarrow> out_ok (id_events eid') (out_pl eid' t) R \<and> \<not> l_mutex (out_pl eid' t)"
  shows "lists_ok eid' (Q(p := R)) []"
proof -
  let ?ev = "id_events eid" and ?ev' = "id_events eid'"
  have ap: "apart (n + n) Q []" using ok by (simp add: lists_ok_def n)
  have other: "set (Q q) \<inter> (set (Q p) \<union> set es) = {}" if "q < n + n" "q \<noteq> p" for q
    using apartD(3) [OF ap that(1) p that(2)] es [OF that] by auto
  have hf: "hi_first ?ev' = hi_first ?ev" by (rule hi_first_is_high_cong [OF link_only_is_high [OF ev]])
  have fr: "list_ok ?ev' pl (Q q) = list_ok ?ev pl (Q q)" "out_ok ?ev' pl (Q q) = out_ok ?ev pl (Q q)"
    if "q < n + n" "q \<noteq> p" for q pl
    using list_ok_link_only [OF ev other [OF that]] out_ok_link_only [OF ev other [OF that]] by simp_all
  have le: "legal_events eid' xs = legal_events eid xs" for xs
    using same(2) link_onlyD(2) [OF ev] by (simp add: legal_events_def pri_ok_def)
  have "apart (n + n) (Q(p := R)) []" unfolding apart_def
  proof (intro conjI allI impI)
    fix u v assume u: "u < n + n" and v: "v < n + n" "u \<noteq> v"
    have "set (Q u) \<inter> set R = {}" if "u \<noteq> p" using other [OF u that] R(1) by blast
    moreover have "set (Q v) \<inter> set R = {}" if "v \<noteq> p" using other [OF v(1) that] R(1) by blast
    moreover have "set (Q u) \<inter> set (Q v) = {}" by (rule apartD(3) [OF ap u v])
    ultimately show "set ((Q(p := R)) u) \<inter> set ((Q(p := R)) v) = {}"
      using v(2) by (cases "u = p"; cases "v = p") (simp_all add: Int_commute)
  qed simp_all
  moreover have "\<forall>t < n + n. legal_events eid' ((Q(p := R)) t)" "legal_events eid' []"
    unfolding le using R(2) lists_okD_all(1) [OF ok] by (simp_all add: n) (simp add: legal_events_def pri_ok_def)
  moreover have "list_ok ?ev' (in_pl eid' t) ((Q(p := R)) t) \<and> \<not> l_mutex (in_pl eid' t) \<and> (0 < t \<longrightarrow> hi_first ?ev' ((Q(p := R)) t))"
    if "t < n" for t
  proof (cases "t = p")
    case False
    have t: "t < n + n" "t < length (id_stats eid)" using that by (simp_all add: n)
    show ?thesis using fr(1) [OF t(1) False] same(3) [OF that False] lists_okD(1-3) [OF ok t(2)] False by (simp add: hf)
  qed (use inp that in simp)
  moreover have "out_ok ?ev' (out_pl eid' t) ((Q(p := R)) (n + t)) \<and> \<not> l_mutex (out_pl eid' t)" if "t < n" for t
  proof (cases "n + t = p")
    case False
    have t: "n + t < n + n" "t < length (id_stats eid)" using that by (simp_all add: n)
    show ?thesis using fr(2) [OF t(1) False] same(4) [OF that False] lists_okD(8,9) [OF ok t(2)] False by (simp add: n)
  qed (use outp [OF that] in simp)
  ultimately show ?thesis by (simp add: lists_ok_def same(1))
qed

text \<open>
  An edit leaves all lists alone: links and priorities of listed events, owners, and the heads of the
  lists are the same.
\<close>

definition edit :: "et_id \<Rightarrow> et_id \<Rightarrow> bool" where
  "edit eid eid' \<longleftrightarrow> length (id_stats eid') = length (id_stats eid) \<and>
     (\<forall>t < length (id_stats eid). in_pl eid' t = in_pl eid t \<and> out_pl eid' t = out_pl eid t) \<and>
     nevents_max eid' = nevents_max eid \<and> length (id_histogram eid') = length (id_histogram eid) \<and>
     (\<forall>e. ev_owner (id_events eid' e) = ev_owner (id_events eid e) \<and>
       (legal_pri (id_events eid e) \<longrightarrow> legal_pri (id_events eid' e)) \<and>
       (ev_owner (id_events eid e) = ET_SYS \<longrightarrow> ev_next (id_events eid' e) = ev_next (id_events eid e) \<and>
          ev_priority (id_events eid' e) = ev_priority (id_events eid e)))"

lemma edit_refl [simp]: "edit eid eid"
  by (simp add: edit_def)

lemma edit_trans: "edit a b \<Longrightarrow> edit b c \<Longrightarrow> edit a c"
  by (simp add: edit_def)

lemma list_ok_same:
  assumes "\<And>e. e \<in> set xs \<Longrightarrow> ev_next (ev' e) = ev_next (ev e)"
  shows "list_ok ev' pl xs = list_ok ev pl xs"
proof -
  have "linked ev' xs = linked ev xs" using assms
  proof (induction xs)
    case (Cons x xs)
    then show ?case by (simp add: linked_Cons)
  qed simp
  then show ?thesis by (simp add: list_ok_def)
qed

lemma hi_first_same:
  assumes "\<And>e. e \<in> set xs \<Longrightarrow> is_high ev' e = is_high ev e"
  shows "hi_first ev' xs = hi_first ev xs" "filter (is_high ev') xs = filter (is_high ev) xs"
proof -
  have "dropWhile (is_high ev') xs = dropWhile (is_high ev) xs" by (rule dropWhile_cong) (use assms in simp_all)
  then show "hi_first ev' xs = hi_first ev xs"
    unfolding hi_first_def using assms set_dropWhileD [of _ "is_high ev" xs] by auto
  show "filter (is_high ev') xs = filter (is_high ev) xs" by (rule filter_cong) (use assms in simp_all)
qed

lemma edit_lists_ok:
  assumes "edit eid eid'" "lists_ok eid Q []"
    "\<And>e. in_lists eid Q e \<Longrightarrow> ev_owner (id_events eid e) = ET_SYS"
  shows "lists_ok eid' Q []"
proof -
  let ?n = "length (id_stats eid)" and ?ev = "id_events eid" and ?ev' = "id_events eid'"
  note e = assms(1) [unfolded edit_def]
  have s: "ev_next (?ev' x) = ev_next (?ev x)" "ev_priority (?ev' x) = ev_priority (?ev x)" "is_high ?ev' x = is_high ?ev x"
    if "t < ?n + ?n" "x \<in> set (Q t)" for t x
  proof -
    have "in_lists eid Q x" using that by (auto simp: in_lists_def)
    then have "ev_owner (?ev x) = ET_SYS" by (rule assms(3))
    then show "ev_next (?ev' x) = ev_next (?ev x)" "ev_priority (?ev' x) = ev_priority (?ev x)" using e by simp_all
    then show "is_high ?ev' x = is_high ?ev x" by (simp add: is_high_def)
  qed
  have l: "list_ok ?ev' pl (Q t) = list_ok ?ev pl (Q t)" "hi_first ?ev' (Q t) = hi_first ?ev (Q t)"
    "out_ok ?ev' pl (Q t) = out_ok ?ev pl (Q t)" if "t < ?n + ?n" for t pl
    using list_ok_same [of "Q t" ?ev' ?ev] hi_first_same [of "Q t" ?ev' ?ev] s [OF that] by (simp_all add: out_ok_def)
  have "legal_events eid' (Q t)" if "t < ?n + ?n" for t
    using lists_okD_all(1) [OF assms(2) that] s(2) [OF that] e by (simp add: legal_events_def pri_ok_def)
  moreover have "apart (?n + ?n) Q []" using assms(2) by (simp add: lists_ok_def)
  moreover have "legal_events eid' []" by (simp add: legal_events_def pri_ok_def)
  ultimately show ?thesis using lists_okD [OF assms(2)] e l by (simp add: lists_ok_def)
qed

lemma edit_events_ok:
  assumes "edit eid eid'" "events_ok eid Q" shows "events_ok eid' Q"
proof -
  note o = events_okD [OF assms(2)] and e = assms(1) [unfolded edit_def]
  have "lists_ok eid' Q []"
    by (rule edit_lists_ok [OF assms(1) o(1)]) (use o(4) in_lists_legal [OF o(1)] in blast)
  then show ?thesis using o e by (simp add: events_ok_def in_lists_def)
qed

lemma place_step:
  assumes ok: "events_ok eid Q" and p: "p < n + n" and n: "n = length (id_stats eid)"
    and ev: "link_only (set (Q p) \<union> set es) (id_events eid) (id_events eid')"
    and es: "\<And>q. q < n + n \<Longrightarrow> q \<noteq> p \<Longrightarrow> set (Q q) \<inter> set es = {}"
    and R: "set R \<subseteq> set (Q p) \<union> set es" "legal_events eid R"
    and same: "length (id_stats eid') = n" "nevents_max eid' = nevents_max eid"
      "\<And>t. t < n \<Longrightarrow> t \<noteq> p \<Longrightarrow> in_pl eid' t = in_pl eid t" "\<And>t. t < n \<Longrightarrow> n + t \<noteq> p \<Longrightarrow> out_pl eid' t = out_pl eid t"
    and inp: "p < n \<Longrightarrow> list_ok (id_events eid') (in_pl eid' p) R \<and> \<not> l_mutex (in_pl eid' p) \<and>
        (0 < p \<longrightarrow> hi_first (id_events eid') R)"
    and outp: "\<And>t. t < n \<Longrightarrow> p = n + t \<Longrightarrow> out_ok (id_events eid') (out_pl eid' t) R \<and> \<not> l_mutex (out_pl eid' t)"
    and hist: "length (id_histogram eid') = length (id_histogram eid)"
    and own: "\<And>e. e \<in> set (Q p) \<union> set es \<Longrightarrow> ev_owner (id_events eid' e) = ET_SYS \<longleftrightarrow> e \<in> set R"
  shows "events_ok eid' (Q(p := R))"
proof -
  note o = events_okD [OF ok]
  have ap: "apart (n + n) Q []" using o(1) by (simp add: lists_ok_def n)
  have "in_lists eid' (Q(p := R)) e \<longleftrightarrow> (if e \<in> set (Q p) \<union> set es then e \<in> set R else in_lists eid Q e)" for e
  proof (cases "e \<in> set (Q p) \<union> set es")
    case True
    have "e \<notin> set (Q q)" if "q < n + n" "q \<noteq> p" for q using apartD(3) [OF ap that(1) p that(2)] es [OF that] True by auto
    then show ?thesis using True p by (auto simp: in_lists_def same(1))
  next
    case False
    then have "e \<notin> set R" using R(1) by blast
    then show ?thesis using False by (auto simp: in_lists_def same(1) n)
  qed
  moreover have "ev_owner (id_events eid' e) = ev_owner (id_events eid e)" if "e \<notin> set (Q p) \<union> set es" for e
    using link_onlyD(1) [OF ev that] by simp
  moreover have "lists_ok eid' (Q(p := R)) []"
    by (rule lists_ok_place [OF o(1) p n ev es R same inp outp])
  moreover have "legal_pri (id_events eid' e) = legal_pri (id_events eid e)" for e
    using link_onlyD(2) [OF ev] by (simp add: legal_pri_def)
  ultimately show ?thesis using o own hist same(2) unfolding events_ok_def by auto
qed

section \<open>The list operations\<close>

lemma in_pl_in_list: "in_pl = in_list"
  by (simp add: fun_eq_iff in_pl_def in_list_def)

lemma histogram_bump_length: "histogram_bump eid s = Some eid' \<Longrightarrow> length (id_histogram eid') = length (id_histogram eid)"
  by (auto simp: histogram_bump_def Let_def split: if_splits)

lemma legal_events_sub: "legal_events eid xs \<Longrightarrow> set ys \<subseteq> set xs \<Longrightarrow> legal_events eid ys"
  by (auto simp: legal_events_def pri_ok_def)

lemma hi_first_drop: "hi_first ev xs \<Longrightarrow> hi_first ev (drop k xs)"
  unfolding hi_first_sorted by (rule sorted_wrt_drop)

lemma set_in_mutex_pl:
  assumes "s < length (id_stats eid)"
  shows "in_pl (set_in_mutex eid s b) t = (if t = s then (in_pl eid s)\<lparr>l_mutex := b\<rparr> else in_pl eid t)"
    "out_pl (set_in_mutex eid s b) t = out_pl eid t"
  using assms by (cases "t = s"; simp add: set_in_mutex_def upd_stat_def in_pl_def out_pl_def)+

text \<open>Events in a user's hands fit into every list.\<close>

definition held :: "et_id \<Rightarrow> nat list \<Rightarrow> bool" where
  "held eid es \<longleftrightarrow> distinct es \<and> (\<forall>e \<in> set es. int e < nevents_max eid \<and> ev_owner (id_events eid e) \<noteq> ET_SYS)"

lemma held_facts:
  assumes ok: "events_ok eid Q" and h: "held eid es" and t: "t < length (id_stats eid) + length (id_stats eid)"
  shows "set (Q t) \<inter> set es = {}" "legal_events eid es" "distinct (Q t @ es)"
    "es \<noteq> [] \<Longrightarrow> int (length (Q t @ es)) \<le> nevents_max eid" "legal_events eid (Q t @ es)"
proof -
  note o = events_okD [OF ok]
  show d: "set (Q t) \<inter> set es = {}"
  proof (rule ccontr)
    assume "set (Q t) \<inter> set es \<noteq> {}"
    then obtain e where "e \<in> set (Q t)" "e \<in> set es" by blast
    with t h o(4) show False unfolding in_lists_def held_def by blast
  qed
  show l: "legal_events eid es" using h o(3) by (auto simp: held_def legal_events_def pri_ok_def legal_pri_def)
  note q = lists_okD_all [OF o(1) t]
  show dd: "distinct (Q t @ es)" using d q(2) h by (simp add: held_def)
  show "legal_events eid (Q t @ es)" using q(1) l by (auto simp: legal_events_def pri_ok_def)
  then have "set (Q t @ es) \<subseteq> {..<nat (nevents_max eid)}" unfolding legal_events_def by (auto simp: zless_nat_eq_int_zless)
  then have "length (Q t @ es) \<le> nat (nevents_max eid)"
    by (metis card_lessThan card_mono dd distinct_card finite_lessThan)
  moreover assume "es \<noteq> []"
  then have "0 \<le> nevents_max eid" using l by (cases es) (auto simp: legal_events_def)
  ultimately show "int (length (Q t @ es)) \<le> nevents_max eid" by simp
qed

text \<open>
  Links and owners of the events to be put do not matter: \<open>ev\<close> may differ in them.
\<close>

lemma heap_swap:
  assumes "link_only (set es) (id_events eid) ev" "events_ok eid Q" "held eid es" "s < length (id_stats eid)"
  shows "out_ok ev (out_pl eid s) (Q (length (id_stats eid) + s))" "list_ok ev (in_pl eid s) (Q s)" "pri_ok ev es"
    "is_high ev = is_high (id_events eid)"
proof -
  note l = lists_okD [OF events_okD(1) [OF assms(2)] assms(4)]
  have "s < length (id_stats eid) + length (id_stats eid)" "length (id_stats eid) + s < length (id_stats eid) + length (id_stats eid)"
    using assms(4) by simp_all
  note hf = held_facts(1) [OF assms(2,3) this(1)] held_facts(1) [OF assms(2,3) this(2)]
  show "out_ok ev (out_pl eid s) (Q (length (id_stats eid) + s))" using out_ok_link_only [OF assms(1) hf(2)] l(8) by simp
  show "list_ok ev (in_pl eid s) (Q s)" using list_ok_link_only [OF assms(1) hf(1)] l(1) by simp
  show "is_high ev = is_high (id_events eid)" by (rule link_only_is_high [OF assms(1)])
  show "pri_ok ev es" using held_facts(2) [OF assms(2,3), of s] assms(4) link_onlyD(2) [OF assms(1)]
    by (simp add: legal_events_def pri_ok_def)
qed

lemma put_from:
  assumes ok: "events_ok eid Q" and h: "held eid es" and s: "s < length (id_stats eid)" and ne: "es \<noteq> []"
    and ev: "link_only (set es) (id_events eid) ev" "eid0 = eid\<lparr>id_events := ev\<rparr>"
  shows "\<exists>eid'. et_station_nwrite eid0 s es (int (length es)) = Some (ET_OK, eid') \<and>
    events_ok eid' (Q(length (id_stats eid) + s := pri_append (id_events eid) (Q (length (id_stats eid) + s)) es)) \<and>
    (\<forall>i. ev_owner (id_events eid' i) = (if i \<in> set es then ET_SYS else ev_owner (id_events eid i)))"
proof -
  note o = events_okD [OF ok]
  let ?n = "length (id_stats eid)"
  let ?xs = "Q (?n + s)" and ?ps = "id_stats eid ! s"
  have t: "?n + s < ?n + ?n" using s by simp
  note hf = held_facts [OF ok h] and sw = heap_swap [OF ev(1) ok h s]
  define R where "R = pri_append (id_events eid) ?xs es"
  note pa = pri_append_cong [OF sw(4)] put_list_cong [OF sw(4)]
  from station_nwrite_core_ok [of ev ?ps ?xs es "nevents_max eid"] obtain ev' where
    w: "station_nwrite_core (nevents_max eid) es (int (length es)) ev ?ps =
       Some (ET_OK, ev', (fix_out_done ?ps (int (length ?xs)) (int (length es)))\<lparr>st_list_out := put_list (id_events eid) (st_list_out ?ps) R\<rparr>)"
      "linked ev' R" "link_only (set ?xs \<union> set es) ev ev'"
      "\<forall>i. ev_owner (ev' i) = (if i \<in> set es then ET_SYS else ev_owner (ev i))"
    using lists_okD(9) [OF o(1) s] sw(1,3) ne hf(3,4) [OF t] by (auto simp: R_def out_pl_def pa)
  have w3: "link_only (set ?xs \<union> set es) (id_events eid) ev'"
    by (rule link_only_trans [OF link_only_mono [OF ev(1)] w(3)]) simp
  have w4: "ev_owner (ev' i) = (if i \<in> set es then ET_SYS else ev_owner (id_events eid i))" for i
    using w(4) link_onlyD(1) [OF ev(1), of i] by simp
  let ?ps' = "(fix_out_done ?ps (int (length ?xs)) (int (length es)))\<lparr>st_list_out := put_list (id_events eid) (st_list_out ?ps) R\<rparr>"
  define eid' where "eid' = eid\<lparr>id_stats := (id_stats eid)[s := ?ps'], id_events := ev'\<rparr>"
  have call: "et_station_nwrite eid0 s es (int (length es)) = Some (ET_OK, eid')"
    using w(1) s ne by (simp add: et_station_nwrite_def on_station_def eid'_def ev(2) nevents_max_def)
  have setR: "set R = set ?xs \<union> set es" by (auto simp: R_def pri_append_def)
  have outR: "out_ok ev' (put_list (id_events eid) (st_list_out ?ps) R) R"
    using out_ok_put_list_link [OF w3 _ w(2)] hf(3) [OF t] hi_first_pri_append distinct_pri_append unfolding R_def by blast
  have io: "in_pl eid' t = in_pl eid t" "out_pl eid' t = (if t = s then put_list (id_events eid) (st_list_out ?ps) R else out_pl eid t)" for t
    using s by (cases "t = s"; simp add: eid'_def in_pl_def out_pl_def fix_out_done_def)+
  have "events_ok eid' (Q(?n + s := R))"
  proof (rule place_step [OF ok t refl, where es = es])
    show "link_only (set ?xs \<union> set es) (id_events eid) (id_events eid')" using w3 by (simp add: eid'_def)
    show "set (Q q) \<inter> set es = {}" if "q < ?n + ?n" for q using hf(1) [OF that] .
    show "set R \<subseteq> set ?xs \<union> set es" using setR by simp
    show "legal_events eid R" by (rule legal_events_sub [OF hf(5) [OF t]]) (simp add: setR)
    show "out_ok (id_events eid') (out_pl eid' t) R \<and> \<not> l_mutex (out_pl eid' t)" if "?n + s = ?n + t" for t
      using that outR lists_okD(9) [OF o(1) s] unfolding io by (simp add: eid'_def out_pl_def)
    show "ev_owner (id_events eid' e) = ET_SYS \<longleftrightarrow> e \<in> set R" if "e \<in> set ?xs \<union> set es" for e
    proof -
      have "ev_owner (id_events eid e) = ET_SYS" if "e \<in> set ?xs"
      proof -
        have "in_lists eid Q e" using that t unfolding in_lists_def by blast
        then show ?thesis using o(4) in_lists_legal [OF o(1)] by blast
      qed
      then show ?thesis using that w4 setR by (auto simp: eid'_def)
    qed
  qed (use io s in \<open>auto simp: eid'_def nevents_max_def\<close>)
  moreover have "ev_owner (id_events eid' i) = (if i \<in> set es then ET_SYS else ev_owner (id_events eid i))" for i
    using w4 by (simp add: eid'_def)
  ultimately show ?thesis using call by (auto simp: R_def)
qed

lemma put_step:
  assumes "events_ok eid Q" "held eid es" "s < length (id_stats eid)" "es \<noteq> []"
  shows "\<exists>eid'. et_station_nwrite eid s es (int (length es)) = Some (ET_OK, eid') \<and>
    events_ok eid' (Q(length (id_stats eid) + s := pri_append (id_events eid) (Q (length (id_stats eid) + s)) es))"
  using put_from [OF assms, of "id_events eid" eid] by auto

text \<open>Whatever way the events get to the end of GrandCentral's input list.\<close>

lemma gc_append_step:
  assumes ok: "events_ok eid Q" and h: "held eid es" and s: "0 < length (id_stats eid)"
    and ps: "st_list_out ps = st_list_out (id_stats eid ! 0)" "list_ok ev' (st_list_in ps) (Q 0 @ es)" "\<not> l_mutex (st_list_in ps)"
    and ev: "link_only (set (Q 0) \<union> set es) (id_events eid) ev'"
      "\<forall>i. ev_owner (ev' i) = (if i \<in> set es then ET_SYS else ev_owner (id_events eid i))"
  shows "events_ok (eid\<lparr>id_stats := (id_stats eid)[0 := ps], id_events := ev'\<rparr>) (Q(0 := Q 0 @ es))"
proof -
  note o = events_okD [OF ok] and hf = held_facts [OF ok h]
  let ?n = "length (id_stats eid)" and ?id = "eid\<lparr>id_stats := (id_stats eid)[0 := ps], id_events := ev'\<rparr>"
  have t: "0 < ?n + ?n" using s by simp
  have io: "in_pl (eid\<lparr>id_stats := (id_stats eid)[0 := ps]\<rparr>) t = (if t = 0 then st_list_in ps else in_pl eid t)"
    "out_pl (eid\<lparr>id_stats := (id_stats eid)[0 := ps]\<rparr>) t = out_pl eid t" for t
    using s ps(1) by (cases "t = 0"; simp add: in_pl_def out_pl_def)+
  show ?thesis
  proof (rule place_step [OF ok t refl, where es = es])
    show "set (Q q) \<inter> set es = {}" if "q < ?n + ?n" for q using hf(1) [OF that] .
    show "legal_events eid (Q 0 @ es)" by (rule hf(5) [OF t])
    show "ev_owner (id_events ?id e) = ET_SYS \<longleftrightarrow> e \<in> set (Q 0 @ es)" if "e \<in> set (Q 0) \<union> set es" for e
    proof -
      have "ev_owner (id_events eid e) = ET_SYS" if "e \<in> set (Q 0)"
      proof -
        have "in_lists eid Q e" using that t unfolding in_lists_def by blast
        then show ?thesis using o(4) in_lists_legal [OF o(1)] by blast
      qed
      then show ?thesis using that ev(2) by auto
    qed
    show "list_ok (id_events ?id) (in_pl ?id 0) (Q 0 @ es) \<and> \<not> l_mutex (in_pl ?id 0) \<and> (0 < (0::nat) \<longrightarrow> hi_first (id_events ?id) (Q 0 @ es))"
      using ps(2,3) by (simp add: io)
    show "out_ok (id_events ?id) (out_pl ?id u) (Q 0 @ es) \<and> \<not> l_mutex (out_pl ?id u)" if "0 = ?n + u" for u
      using that s by simp
    show "link_only (set (Q 0) \<union> set es) (id_events eid) (id_events ?id)" using ev(1) by simp
  qed (simp_all add: io nevents_max_def)
qed

lemma dump_from:
  assumes ok: "events_ok eid Q" and h: "held eid es" and s: "0 < length (id_stats eid)" and ne: "es \<noteq> []"
    and ev: "link_only (set es) (id_events eid) ev" "eid0 = eid\<lparr>id_events := ev\<rparr>"
  shows "\<exists>eid'. et_station_ndump eid0 es (int (length es)) = Some (ET_OK, eid') \<and> events_ok eid' (Q(0 := Q 0 @ es)) \<and>
    (\<forall>i. ev_owner (id_events eid' i) = (if i \<in> set es then ET_SYS else ev_owner (id_events eid i)))"
proof -
  note o = events_okD [OF ok] and hf = held_facts [OF ok h] and sw = heap_swap [OF ev(1) ok h s]
  note l = lists_okD [OF o(1) s]
  have t: "0 < length (id_stats eid) + length (id_stats eid)" using s by simp
  from station_ndump_core_ok [of ev "id_stats eid ! 0" "Q 0" es "nevents_max eid"] obtain ev' where
    w: "station_ndump_core (nevents_max eid) es (int (length es)) ev (id_stats eid ! 0) = Some (ET_OK, ev',
         (fix_in_dump_done (id_stats eid ! 0) (int (length (Q 0))) (int (length es)))\<lparr>st_list_in := put_tail (st_list_in (id_stats eid ! 0)) (Q 0 @ es)\<rparr>)"
      "linked ev' (Q 0 @ es)" "link_only (set (Q 0) \<union> set es) ev ev'"
      "\<forall>i. ev_owner (ev' i) = (if i \<in> set es then ET_SYS else ev_owner (ev i))"
    using l(2) sw(2) hf(3,4) [OF t] ne by (auto simp: in_pl_def)
  let ?ps = "(fix_in_dump_done (id_stats eid ! 0) (int (length (Q 0))) (int (length es)))\<lparr>st_list_in := put_tail (st_list_in (id_stats eid ! 0)) (Q 0 @ es)\<rparr>"
  let ?e = "eid\<lparr>id_stats := (id_stats eid)[0 := ?ps], id_events := ev'\<rparr>"
  have w3: "link_only (set (Q 0) \<union> set es) (id_events eid) ev'"
    by (rule link_only_trans [OF link_only_mono [OF ev(1)] w(3)]) simp
  have w4: "\<forall>i. ev_owner (ev' i) = (if i \<in> set es then ET_SYS else ev_owner (id_events eid i))"
    using w(4) link_onlyD(1) [OF ev(1)] by simp
  have "et_station_ndump eid0 es (int (length es)) = Some (ET_OK, ?e)"
    using w(1) s ne by (simp add: et_station_ndump_def on_station_def ev(2) nevents_max_def)
  moreover have "events_ok ?e (Q(0 := Q 0 @ es))"
    by (rule gc_append_step [OF ok h s])
      (use l(2) w(2) w3 w4 list_ok_put_tail [OF hf(3) [OF t] w(2)] in \<open>auto simp: fix_in_dump_done_def in_pl_def\<close>)
  ultimately show ?thesis using w4 by auto
qed

lemma dump_step:
  assumes "events_ok eid Q" "held eid es" "0 < length (id_stats eid)" "es \<noteq> []"
  shows "\<exists>eid'. et_station_ndump eid es (int (length es)) = Some (ET_OK, eid') \<and> events_ok eid' (Q(0 := Q 0 @ es))"
  using dump_from [OF assms, of "id_events eid" eid] by auto

lemma dump_one_step:
  assumes ok: "events_ok eid Q" and h: "held eid [e]" and s: "0 < length (id_stats eid)"
  shows "\<exists>eid'. et_station_dump eid e = Some (ET_OK, eid') \<and> events_ok eid' (Q(0 := Q 0 @ [e]))"
proof -
  note o = events_okD [OF ok] and hf = held_facts [OF ok h]
  note l = lists_okD [OF o(1) s]
  have t: "0 < length (id_stats eid) + length (id_stats eid)" using s by simp
  from station_dump_core_ok [of "id_events eid" "id_stats eid ! 0" "Q 0" e "nevents_max eid"] obtain ev' where
    w: "station_dump_core (nevents_max eid) e (id_events eid) (id_stats eid ! 0) = Some (ET_OK, ev',
         (fix_in_dump_done (id_stats eid ! 0) (int (length (Q 0))) 1)\<lparr>st_list_in := (put_tail (st_list_in (id_stats eid ! 0)) (Q 0 @ [e]))
            \<lparr>l_events_in := l_events_in (st_list_in (id_stats eid ! 0)) + 1\<rparr>\<rparr>)"
      "linked ev' (Q 0 @ [e])" "link_only (set (Q 0) \<union> {e}) (id_events eid) ev'"
      "\<forall>i. ev_owner (ev' i) = (if i = e then ET_SYS else ev_owner (id_events eid i))"
    using l(1,2) hf(3,4) [OF t] by (auto simp: in_pl_def)
  let ?ps = "(fix_in_dump_done (id_stats eid ! 0) (int (length (Q 0))) 1)\<lparr>st_list_in := (put_tail (st_list_in (id_stats eid ! 0)) (Q 0 @ [e]))
            \<lparr>l_events_in := l_events_in (st_list_in (id_stats eid ! 0)) + 1\<rparr>\<rparr>"
  have "et_station_dump eid e = Some (ET_OK, eid\<lparr>id_stats := (id_stats eid)[0 := ?ps], id_events := ev'\<rparr>)"
    using w(1) s by (simp add: et_station_dump_def on_station_def)
  moreover have "events_ok (eid\<lparr>id_stats := (id_stats eid)[0 := ?ps], id_events := ev'\<rparr>) (Q(0 := Q 0 @ [e]))"
    by (rule gc_append_step [OF ok h s])
      (use l(2) w list_ok_put_tail [OF hf(3) [OF t] w(2), of "st_list_in (id_stats eid ! 0)"] in
        \<open>auto simp: fix_in_dump_done_def in_pl_def list_ok_def put_tail_def\<close>)
  ultimately show ?thesis by blast
qed

lemma write_one_eq:
  assumes "events_ok eid Q" shows "et_station_write eid s e = et_station_nwrite eid s [e] 1"
proof (cases "s < length (id_stats eid)")
  case True
  from lists_okD(8) [OF events_okD(1) [OF assms] True]
  show ?thesis by (intro et_station_write_eq_nwrite) (simp add: out_pl_def)
qed (simp add: et_station_write_def et_station_nwrite_def on_station_def)

section \<open>What the calls change outside the lists\<close>

lemma edit_upd_att [simp]: "edit eid (upd_att eid a f)"
  by (simp add: edit_def upd_att_def in_pl_def out_pl_def nevents_max_def)

lemma edit_add_ntemps [simp]: "edit eid (add_ntemps n eid)"
  by (simp add: edit_def add_ntemps_def in_pl_def out_pl_def nevents_max_def)

lemma edit_upd_event:
  assumes "ev_owner (f (id_events eid e)) = ev_owner (id_events eid e)"
    "legal_pri (id_events eid e) \<Longrightarrow> legal_pri (f (id_events eid e))"
    "ev_owner (id_events eid e) = ET_SYS \<Longrightarrow> ev_next (f (id_events eid e)) = ev_next (id_events eid e) \<and>
       ev_priority (f (id_events eid e)) = ev_priority (id_events eid e)"
  shows "edit eid (upd_event eid e f)"
  using assms by (simp add: edit_def upd_event_def nevents_max_def)

text \<open>The events a user holds keep their owner.\<close>

definition held_by :: "et_id \<Rightarrow> int \<Rightarrow> nat list \<Rightarrow> bool" where
  "held_by eid a es \<longleftrightarrow> a \<noteq> ET_SYS \<and> (\<forall>e \<in> set es. ev_owner (id_events eid e) = a)"

lemma edit_held_by: "edit eid eid' \<Longrightarrow> held_by eid a es \<Longrightarrow> held_by eid' a es"
  by (simp add: edit_def held_by_def)

lemma edit_held: "edit eid eid' \<Longrightarrow> held eid es \<Longrightarrow> held eid' es"
  by (simp add: edit_def held_def)

lemma init_event_keep_fields [simp]:
  "ev_owner (et_init_event_keep x) = ev_owner x" "ev_priority (et_init_event_keep x) = ET_LOW"
  by (simp_all add: et_init_event_keep_def et_init_event_def Let_def)

lemma make_edit: "held_by eid a [e] \<Longrightarrow> et_event_make env eid e sz = (r, eid') \<Longrightarrow> edit eid eid'"
proof -
  assume h: "held_by eid a [e]" and m: "et_event_make env eid e sz = (r, eid')"
  let ?g = "\<lambda>x. (et_init_event_keep x)\<lparr>ev_temp := ET_EVENT_TEMP,
       ev_pdata := DTemp (ev_filename (id_events (add_ntemps 1 eid) e)), ev_length := sz, ev_memsize := sz\<rparr>"
  have "held_by (add_ntemps 1 eid) a [e]" using h by (simp add: held_by_def add_ntemps_def)
  then have "edit (add_ntemps 1 eid) (upd_event (add_ntemps 1 eid) e ?g)"
    by (intro edit_upd_event) (auto simp: legal_pri_def held_by_def)
  from edit_trans [OF edit_add_ntemps this] show ?thesis
    using m by (auto simp: et_event_make_def Let_def split: if_splits)
qed

lemma own_spaces_edit: "held_by eid a es \<Longrightarrow> edit eid (own_spaces eid es sz)"
proof (induction es arbitrary: eid)
  case (Cons e es)
  let ?id = "upd_event eid e (own_space (sc_event_size (sy_config (id_sys eid))) sz)"
  have e1: "edit eid ?id"
    using Cons.prems by (intro edit_upd_event) (auto simp: own_space_def legal_pri_def held_by_def)
  have "held_by eid a es" using Cons.prems by (simp add: held_by_def)
  from edit_trans [OF e1 Cons.IH [OF edit_held_by [OF e1 this]]] show ?case by simp
qed simp

lemma map_data_edit: "map_data env eid es = (r, eid') \<Longrightarrow> edit eid eid'"
proof (induction es arbitrary: eid)
  case (Cons e es)
  have u: "edit eid (upd_event eid e (\<lambda>x. x\<lparr>ev_pdata := g x\<rparr>))" for g by (rule edit_upd_event) (simp_all add: legal_pri_def)
  let ?x = "id_events eid e"
  show ?case
  proof (cases "ev_temp ?x \<noteq> ET_EVENT_TEMP")
    case True
    then show ?thesis using Cons.prems Cons.IH by (simp add: Let_def) (rule edit_trans [OF u])
  next
    case False
    show ?thesis
    proof (cases "en_attach env (ev_filename ?x) (ev_memsize ?x)")
      case True
      then have "map_data env (upd_event eid e (\<lambda>x. x\<lparr>ev_pdata := DTemp (ev_filename x)\<rparr>)) es = (r, eid')"
        using False Cons.prems by (simp add: Let_def)
      from edit_trans [OF u Cons.IH [OF this]] show ?thesis .
    qed (use False Cons.prems in \<open>simp add: Let_def\<close>)
  qed
qed simp

lemma mark_used_edit: "mark_used env eid es = (r, eid') \<Longrightarrow> edit eid eid'"
proof (induction es arbitrary: eid)
  case (Cons e es)
  have u: "edit eid (upd_event eid e (\<lambda>x. x\<lparr>ev_modify := ev_age x, ev_age := ET_EVENT_USED\<rparr>))"
    by (rule edit_upd_event) (simp_all add: legal_pri_def)
  show ?case using Cons.prems Cons.IH edit_trans [OF u]
    by (auto simp: Let_def split: if_splits)
qed simp

section \<open>Reads that wait\<close>

text \<open>
  While a reader waits others change the shared memory, by steps of the relation \<open>step\<close>. The wait is
  not broken off by an error (with an error other than \<open>ETIMEDOUT\<close> the reader leaves the list locked,
  see theory \<open>ET_StationRead\<close>).
\<close>

definition quiet_wakes :: "(et_id \<Rightarrow> et_id \<Rightarrow> bool) \<Rightarrow> wake list \<Rightarrow> bool" where
  "quiet_wakes step ws \<longleftrightarrow> (\<forall>w. w \<in> set ws \<longrightarrow> (fst w = 0 \<or> fst w = ETIMEDOUT) \<and>
     (\<forall>e. step e (snd w e) \<and> length (id_stats (snd w e)) = length (id_stats e)))"

lemma quiet_wakes_Nil [simp]: "quiet_wakes step []"
  by (simp add: quiet_wakes_def)

lemma quiet_wakes_Cons:
  "quiet_wakes step (w # ws) \<longleftrightarrow> (fst w = 0 \<or> fst w = ETIMEDOUT) \<and>
     (\<forall>e. step e (snd w e) \<and> length (id_stats (snd w e)) = length (id_stats e)) \<and> quiet_wakes step ws"
  unfolding quiet_wakes_def list.set insert_iff by blast

text \<open>The state of a reader that has the list, and the state with the list released.\<close>

definition reading_ok :: "et_id \<Rightarrow> nat \<Rightarrow> bool" where
  "reading_ok eid s \<longleftrightarrow> s < length (id_stats eid) \<and> (\<exists>Q. events_ok (set_in_mutex eid s False) Q)"

definition guards :: "(et_id \<Rightarrow> et_id \<Rightarrow> bool) \<Rightarrow> bool" where
  "guards step \<longleftrightarrow> (\<forall>e e' Q. step e e' \<longrightarrow> events_ok e Q \<longrightarrow> (\<exists>Q'. events_ok e' Q'))"

lemma edit_set_blocked [simp]: "edit eid (set_blocked eid a v)"
  unfolding set_blocked_def by (rule edit_upd_att)

lemma edit_set_quit [simp]: "edit eid (set_quit eid a v)"
  unfolding set_quit_def by (rule edit_upd_att)

lemma set_quit_stats [simp]: "id_stats (set_quit eid a v) = id_stats eid"
  by (simp add: set_quit_def upd_att_def)

lemma edit_sizes: "edit eid eid' \<Longrightarrow> length (id_stats eid') = length (id_stats eid)"
  by (simp add: edit_def)

lemma reading_ok_edit: "reading_ok eid s \<Longrightarrow> edit (set_in_mutex eid s False) (set_in_mutex eid' s False) \<Longrightarrow> reading_ok eid' s"
  using edit_events_ok [of "set_in_mutex eid s False" "set_in_mutex eid' s False"]
  by (auto simp: reading_ok_def dest: edit_sizes)

lemma events_ok_reading: "events_ok eid Q \<Longrightarrow> s < length (id_stats eid) \<Longrightarrow> reading_ok (set_in_mutex eid s b) s \<and> set_in_mutex eid s False = eid"
  using lists_okD(2) [OF events_okD(1), of eid Q s] set_in_mutex_id [of eid s False]
  by (auto simp: reading_ok_def in_pl_in_list)

lemma reading_ok_released: "reading_ok eid s \<Longrightarrow> \<exists>Q. events_ok (set_in_mutex eid s False) Q"
  by (simp add: reading_ok_def)

lemma wait_scan_keeps:
  assumes "wait_scan timed s a eid ws scanList = Some (r, eid1, ws1)" "reading_ok eid s" "quiet_wakes step ws" "guards step"
  shows "s < length (id_stats eid1) \<and> quiet_wakes step ws1 \<and>
    (if r = ET_OK then reading_ok eid1 s \<and> 1 \<le> l_cnt (in_list eid1 s) else \<exists>Q. events_ok eid1 Q)"
  using assms
proof (induction timed s a eid ws scanList rule: wait_scan.induct)
  case (1 timed s a eid scanList)
  then show ?case by (auto simp: reading_ok_def split: if_splits)
next
  case (2 timed s a eid status others ws scanList)
  show ?case
  proof (cases "l_cnt (in_list eid s) < 1 \<or> \<not> scanList")
    case False
    then show ?thesis using 2(2,3,4) by (auto simp: reading_ok_def)
  next
    case True
    let ?e = "set_in_mutex (set_blocked eid a ET_ATT_BLOCKED) s False"
    define eid0 where "eid0 = others ?e"
    define eid1' where "eid1' = set_blocked (set_in_mutex eid0 s True) a ET_ATT_UNBLOCKED"
    have w: "status = 0 \<or> status = ETIMEDOUT" "step ?e eid0" "length (id_stats eid0) = length (id_stats ?e)" "quiet_wakes step ws"
      using 2(4) by (simp_all add: quiet_wakes_Cons eid0_def)
    obtain Q where "events_ok (set_in_mutex eid s False) Q" using 2(3) by (auto simp: reading_ok_def)
    then have "events_ok ?e Q" by (rule edit_events_ok [rotated]) (simp flip: set_blocked_in_mutex)
    then obtain Q0 where Q0: "events_ok eid0 Q0" using 2(5) w(2) unfolding guards_def by blast
    have s: "s < length (id_stats eid0)" using 2(3) w(3) by (simp add: reading_ok_def)
    have rel: "set_in_mutex eid1' s False = set_blocked eid0 a ET_ATT_UNBLOCKED"
      using events_ok_reading [OF Q0 s] by (simp add: eid1'_def flip: set_blocked_in_mutex)
    have ok1: "events_ok (set_in_mutex eid1' s False) Q0" unfolding rel by (rule edit_events_ok [OF _ Q0]) simp
    have r1: "reading_ok eid1' s" using ok1 s by (auto simp: reading_ok_def eid1'_def)
    have q: "events_ok (set_quit (set_in_mutex eid1' s False) a ET_ATT_CONTINUE) Q0" by (rule edit_events_ok [OF _ ok1]) simp
    have s': "s < length (id_stats eid1')" using r1 by (simp add: reading_ok_def)
    have step: "(if timed \<and> status = ETIMEDOUT then Some (ET_ERROR_TIMEOUT, set_in_mutex eid1' s False, ws)
        else if status \<noteq> 0 then (if timed then Some (ET_ERROR, eid1', ws) else None)
        else if att_quit eid1' a = ET_ATT_QUIT then Some (ET_ERROR_WAKEUP, set_quit (set_in_mutex eid1' s False) a ET_ATT_CONTINUE, ws)
        else wait_scan timed s a eid1' ws True) = Some (r, eid1, ws1)"
      using 2(2) unfolding wait_scan.simps(2) if_P [OF True] Let_def eid1'_def eid0_def .
    consider "r = ET_ERROR_TIMEOUT" "eid1 = set_in_mutex eid1' s False" "ws1 = ws"
      | "r = ET_ERROR_WAKEUP" "eid1 = set_quit (set_in_mutex eid1' s False) a ET_ATT_CONTINUE" "ws1 = ws"
      | "status = 0" "att_quit eid1' a \<noteq> ET_ATT_QUIT" "wait_scan timed s a eid1' ws True = Some (r, eid1, ws1)"
      using step w(1) by (auto split: if_splits)
    then show ?thesis
    proof cases
      case 1
      then show ?thesis using ok1 w(4) s' by auto
    next
      case 2
      then show ?thesis using q w(4) s' by auto
    next
      case 3
      show ?thesis
        by (rule 2(1) [OF True eid0_def eid1'_def _ _ _ 3(3) r1 w(4) 2(5)]) (use 3 in simp_all)
    qed
  qed
qed

lemma bump_edit:
  assumes "histogram_bump (set_in_mutex eid s True) s = Some eid2" "s < length (id_stats eid)"
  shows "edit (set_in_mutex eid s False) (set_in_mutex eid2 s False)" "length (id_stats eid2) = length (id_stats eid)"
proof -
  note f = histogram_bump_frame [OF assms(1)] histogram_bump_length [OF assms(1)]
  have s2: "s < length (id_stats eid2)" using assms(2) f(2) by simp
  have "in_pl eid2 t = in_pl (set_in_mutex eid s True) t" "out_pl eid2 t = out_pl (set_in_mutex eid s True) t" for t
    by (simp_all add: in_pl_def out_pl_def f(2))
  then show "edit (set_in_mutex eid s False) (set_in_mutex eid2 s False)" using f
    by (simp add: edit_def set_in_mutex_pl [OF assms(2)] set_in_mutex_pl [OF s2] nevents_max_def)
  show "length (id_stats eid2) = length (id_stats eid)" using f(2) by simp
qed

lemma read_acquire_keeps:
  assumes r: "read_acquire eid s mode a ws scanList = Some (r, eid1, ws1)" and ok: "events_ok eid Q" and s: "s < length (id_stats eid)"
    and w: "quiet_wakes step ws" "guards step"
  shows "s < length (id_stats eid1) \<and> quiet_wakes step ws1 \<and>
    (if r = ET_OK then reading_ok eid1 s \<and> 1 \<le> l_cnt (in_list eid1 s) else \<exists>Q. events_ok eid1 Q)"
proof -
  note u = events_ok_reading [OF ok s]
  have b: "reading_ok eid2 s \<and> s < length (id_stats eid2)" if "histogram_bump (set_in_mutex eid s True) s = Some eid2" for eid2
    using bump_edit [OF that s] reading_ok_edit [of "set_in_mutex eid s True" s eid2] u s by simp
  consider "mode = ET_SLEEP \<or> mode = ET_TIMED" | "mode = ET_ASYNC" | "mode \<noteq> ET_SLEEP" "mode \<noteq> ET_TIMED" "mode \<noteq> ET_ASYNC" by blast
  then show ?thesis
  proof cases
    case 1
    then obtain eid2 where e: "eid2 = set_in_mutex eid s True \<or> histogram_bump (set_in_mutex eid s True) s = Some eid2"
      "wait_scan (mode = ET_TIMED) s a eid2 ws scanList = Some (r, eid1, ws1)"
      using r by (auto simp: read_acquire_def split: if_splits option.splits)
    then have "reading_ok eid2 s" using b u by blast
    from wait_scan_keeps [OF e(2) this w] show ?thesis .
  next
    case 2
    have q: "events_ok (set_quit eid a ET_ATT_CONTINUE) Q" "s < length (id_stats (set_quit eid a ET_ATT_CONTINUE))"
      using edit_events_ok [OF edit_set_quit ok] s by simp_all
    from r 2 consider "eid1 = eid" "ws1 = ws" "r = ET_ERROR_BUSY" | "eid1 = set_quit eid a ET_ATT_CONTINUE" "ws1 = ws" "r = ET_ERROR_WAKEUP"
      | eid2 where "histogram_bump (set_in_mutex eid s True) s = Some eid2" "ws1 = ws"
        "r = ET_ERROR_EMPTY \<and> eid1 = set_in_mutex eid2 s False \<or> r = ET_OK \<and> eid1 = eid2 \<and> 1 \<le> l_cnt (in_list eid2 s)"
      by (auto simp: read_acquire_def split: if_splits option.splits)
    then show ?thesis
    proof cases
      case 3
      then show ?thesis using b [OF 3(1)] reading_ok_released w(1) by auto
    qed (use ok q w(1) s in auto)
  next
    case 3
    then show ?thesis using r ok s w(1) by (auto simp: read_acquire_def)
  qed
qed

text \<open>A reader that has the list takes the events \<open>T\<close> and leaves the events \<open>R\<close>.\<close>

lemma taken_step:
  assumes ok: "events_ok (set_in_mutex eid s False) Q" and s: "s < length (id_stats eid)" and a: "0 \<le> a"
    and list: "list_ok ev' (st_list_in ps') R" "\<not> l_mutex (st_list_in ps')" "st_list_out ps' = st_list_out (id_stats eid ! s)"
    and ev: "link_only (set (Q s)) (id_events eid) ev'"
      "\<forall>i. ev_owner (ev' i) = (if i \<in> set T then a else ev_owner (id_events eid i))"
    and R: "set R \<union> set T = set (Q s)" "set R \<inter> set T = {}" "0 < s \<Longrightarrow> hi_first (id_events eid) (Q s) \<Longrightarrow> hi_first (id_events eid) R"
  shows "\<exists>Q'. events_ok (eid\<lparr>id_stats := (id_stats eid)[s := ps'], id_events := ev'\<rparr>) Q'"
    "held_by (eid\<lparr>id_stats := (id_stats eid)[s := ps'], id_events := ev'\<rparr>) a T"
proof -
  let ?u = "set_in_mutex eid s False" and ?e = "eid\<lparr>id_stats := (id_stats eid)[s := ps'], id_events := ev'\<rparr>"
  note o = events_okD [OF ok]
  have su: "s < length (id_stats ?u)" "s < length (id_stats ?u) + length (id_stats ?u)" using s by simp_all
  note l = lists_okD [OF o(1) su(1)]
  have out: "out_pl ?e t = out_pl ?u t" for t
    using s list(3) set_in_mutex_pl(2) [OF s, of False t] by (cases "t = s") (simp_all add: out_pl_def)
  have inp: "in_pl ?e t = in_pl ?u t" if "t \<noteq> s" for t using that set_in_mutex_pl(1) [OF s, of False t] by (simp add: in_pl_def)
  have "events_ok ?e (Q(s := R))"
  proof (rule place_step [OF ok su(2) refl, where es = "[]"])
    show "legal_events ?u R" by (rule legal_events_sub [OF lists_okD_all(1) [OF o(1) su(2)]]) (use R(1) in blast)
    show "list_ok (id_events ?e) (in_pl ?e s) R \<and> \<not> l_mutex (in_pl ?e s) \<and> (0 < s \<longrightarrow> hi_first (id_events ?e) R)"
      using list(1,2) R(3) l(3) s hi_first_is_high_cong [OF link_only_is_high [OF ev(1)]] by (simp add: in_pl_def)
    show "ev_owner (id_events ?e e) = ET_SYS \<longleftrightarrow> e \<in> set R" if "e \<in> set (Q s) \<union> set []" for e
    proof -
      have "in_lists ?u Q e" using that su unfolding in_lists_def by (intro exI [of _ s]) simp
      then have "ev_owner (id_events ?u e) = ET_SYS" using o(4) in_lists_legal [OF o(1)] by blast
      moreover have "a \<noteq> ET_SYS" using a by simp
      ultimately show ?thesis using ev(2) R(1,2) that by auto
    qed
  qed (use ev(1) R(1) out inp s in \<open>auto simp: nevents_max_def\<close>)
  then show "\<exists>Q'. events_ok ?e Q'" by blast
  show "held_by ?e a T" using ev(2) a by (simp add: held_by_def)
qed

lemma nread_body_keeps:
  assumes r: "read_body eid s (station_nread_core num (int a)) = Some (r, es, eid')" and ok: "reading_ok eid s"
    and n: "1 \<le> l_cnt (in_list eid s)" "1 \<le> num"
  shows "(\<exists>Q'. events_ok eid' Q') \<and> held_by eid' (int a) es"
proof -
  from ok obtain Q where s: "s < length (id_stats eid)" and Q: "events_ok (set_in_mutex eid s False) Q" by (auto simp: reading_ok_def)
  note l = lists_okD [OF events_okD(1) [OF Q], unfolded set_in_mutex_simps, OF s]
  have lk: "list_ok (id_events eid) (st_list_in (id_stats eid ! s)) (Q s)"
    using l(1) set_in_mutex_list(2) [OF s] by (simp add: in_pl_in_list) (simp add: in_list_def)
  have ne: "Q s \<noteq> []" using lk n(1) by (auto simp: list_ok_def in_list_def)
  define k where "k = min (nat num) (length (Q s))"
  from station_nread_core_ok [OF lk ne n(2), of "int a", folded k_def] obtain ps' where
    c: "station_nread_core num (int a) (id_events eid) (id_stats eid ! s) =
        Some (take k (Q s), set_owners (id_events eid) (take k (Q s)) (int a), ps')"
      "list_ok (set_owners (id_events eid) (take k (Q s)) (int a)) (st_list_in ps') (drop k (Q s))" "\<not> l_mutex (st_list_in ps')"
      "ps' = (fix_in_read_after (id_stats eid ! s) (int (length (Q s))) (int k))\<lparr>st_list_in := st_list_in ps'\<rparr>"
    by blast
  have out: "st_list_out ps' = st_list_out (id_stats eid ! s)"
    using arg_cong [OF c(4), of st_list_out] by (simp add: fix_in_read_after_def)
  have e: "es = take k (Q s)" "eid' = eid\<lparr>id_stats := (id_stats eid)[s := ps'], id_events := set_owners (id_events eid) (take k (Q s)) (int a)\<rparr>"
    using r c(1) by (auto simp: read_body_def)
  have parts: "set (drop k (Q s)) \<union> set (take k (Q s)) = set (Q s)" "set (drop k (Q s)) \<inter> set (take k (Q s)) = {}"
    using set_take_disj_set_drop_if_distinct [of "Q s" k k] list_okD(2) [OF lk] set_append [of "take k (Q s)" "drop k (Q s)"] by auto
  have lo: "link_only (set (Q s)) (id_events eid) (set_owners (id_events eid) (take k (Q s)) (int a))"
    by (rule link_only_set_owners [OF set_take_subset])
  show ?thesis unfolding e
    using taken_step [OF Q s _ c(2,3) out lo _ parts hi_first_drop, of "int a"] by simp
qed

lemma read_body_keeps:
  assumes r: "read_body eid s (station_read_core (int a)) = Some (r, es, eid')" and ok: "reading_ok eid s" and n: "1 \<le> l_cnt (in_list eid s)"
  shows "(\<exists>Q'. events_ok eid' Q') \<and> held_by eid' (int a) es"
proof -
  from ok obtain Q where s: "s < length (id_stats eid)" and Q: "events_ok (set_in_mutex eid s False) Q" by (auto simp: reading_ok_def)
  note l = lists_okD [OF events_okD(1) [OF Q], unfolded set_in_mutex_simps, OF s]
  have lk: "list_ok (id_events eid) (st_list_in (id_stats eid ! s)) (Q s)"
    using l(1) set_in_mutex_list(2) [OF s] by (simp add: in_pl_in_list) (simp add: in_list_def)
  have ne: "Q s \<noteq> []" using lk n by (auto simp: list_ok_def in_list_def)
  have "read_body eid s (station_nread_core 1 (int a)) = Some (r, es, eid')"
    using r station_read_core_nread [OF lk ne, of "int a"] by (simp add: read_body_def)
  from nread_body_keeps [OF this ok n] show ?thesis by simp
qed

lemma hi_first_drop_filter: "hi_first ev xs \<Longrightarrow> hi_first ev (drop_filter P m xs)"
  unfolding hi_first_sorted
  by (induction P m xs rule: drop_filter.induct) (auto dest: set_drop_filter_subset [THEN subsetD])

lemma drop_filter_parts: "set (drop_filter P m xs) \<union> set (take m (filter P xs)) = set xs"
  using arg_cong [OF mset_drop_filter [of m P xs], of set_mset] by auto

lemma drop_filter_disjoint: "distinct xs \<Longrightarrow> set (drop_filter P m xs) \<inter> set (take m (filter P xs)) = {}"
proof (induction P m xs rule: drop_filter.induct)
  case (3 P m x xs)
  have "set (take n (filter P xs)) \<subseteq> set xs" "set (drop_filter P n xs) \<subseteq> set xs" for n
    using set_take_subset [of n "filter P xs"] set_drop_filter_subset [of P n xs] by auto
  note sub = subsetD [OF this(1)] subsetD [OF this(2)]
  show ?case using 3 by (cases "P x") (auto dest: sub)
qed simp_all

lemma group_body_keeps:
  assumes r: "read_body eid s (station_nread_group_core num grp (int a)) = Some (r, es, eid')" and ok: "reading_ok eid s"
    and n: "1 \<le> l_cnt (in_list eid s)" "1 \<le> num" "num \<le> l_cnt (in_list eid s)"
  shows "(\<exists>Q'. events_ok eid' Q') \<and> held_by eid' (int a) es \<and> s < length (id_stats eid')"
proof -
  from ok obtain Q where s: "s < length (id_stats eid)" and Q: "events_ok (set_in_mutex eid s False) Q" by (auto simp: reading_ok_def)
  note l = lists_okD [OF events_okD(1) [OF Q], unfolded set_in_mutex_simps, OF s]
  have lk: "list_ok (id_events eid) (st_list_in (id_stats eid ! s)) (Q s)"
    using l(1) set_in_mutex_list(2) [OF s] by (simp add: in_pl_in_list) (simp add: in_list_def)
  have ne: "Q s \<noteq> []" using lk n(1) by (auto simp: list_ok_def in_list_def)
  define P where "P = (\<lambda>i. ev_group (id_events eid i) = grp)"
  define k where "k = nat num"
  have k: "k = min (nat num) (length (Q s))" "num = int k" using n list_okD(1) [OF lk] by (simp_all add: k_def in_list_def)
  from station_nread_group_core_ok [OF lk ne n(2) P_def k(1), of "int a"] obtain ev' ps' where
    c: "station_nread_group_core num grp (int a) (id_events eid) (id_stats eid ! s) = Some (take k (filter P (Q s)), ev', ps')"
      "list_ok ev' (st_list_in ps') (drop_filter P k (Q s))" "\<not> l_mutex (st_list_in ps')"
      "ps' = (fix_in_read_after (id_stats eid ! s) (int (length (Q s))) (int k))\<lparr>st_list_in := st_list_in ps'\<rparr>"
      "link_only (set (Q s)) (id_events eid) ev'"
      "\<forall>i. ev_owner (ev' i) = (if i \<in> set (take k (filter P (Q s))) then int a else ev_owner (id_events eid i))"
    unfolding k(2) by blast
  have out: "st_list_out ps' = st_list_out (id_stats eid ! s)"
    using arg_cong [OF c(4), of st_list_out] by (simp add: fix_in_read_after_def)
  have e: "es = take k (filter P (Q s))" "eid' = eid\<lparr>id_stats := (id_stats eid)[s := ps'], id_events := ev'\<rparr>"
    using r c(1) by (auto simp: read_body_def)
  show ?thesis unfolding e
    using taken_step [OF Q s _ c(2,3) out c(5,6) drop_filter_parts drop_filter_disjoint [OF list_okD(2) [OF lk]] hi_first_drop_filter] s
    by auto
qed

lemma nread_waits:
  assumes "events_ok eid Q" "et_station_nread eid s mode a ws num = Some (r, es, eid')" "quiet_wakes step ws" "guards step"
  shows "(\<exists>Q'. events_ok eid' Q') \<and> held_by eid' (int a) es"
proof (cases "num < 1")
  case True
  then show ?thesis using assms(1,2) by (auto simp: et_station_nread_def held_by_def)
next
  case False
  with assms(2) obtain r1 eid1 ws1 where s: "s < length (id_stats eid)" and acq: "read_acquire eid s mode a ws True = Some (r1, eid1, ws1)"
    and b: "if r1 \<noteq> ET_OK then (r, es, eid') = (r1, [], eid1) else read_body eid1 s (station_nread_core num (int a)) = Some (r, es, eid')"
    by (auto simp: et_station_nread_def split: if_splits option.splits)
  from read_acquire_keeps [OF acq assms(1) s assms(3,4)] b False nread_body_keeps [of eid1 s num a r es eid']
  show ?thesis by (auto simp: held_by_def split: if_splits)
qed

lemma nread_step:
  assumes "events_ok eid Q" "et_station_nread eid s mode a [] num = Some (r, es, eid')"
  shows "\<exists>Q'. events_ok eid' Q'" "\<forall>e \<in> set es. ev_owner (id_events eid' e) = int a"
  using nread_waits [OF assms quiet_wakes_Nil, of "\<lambda>_ _. False"] by (simp_all add: guards_def held_by_def)

lemma read_waits:
  assumes "events_ok eid Q" "et_station_read eid s mode a ws = Some (r, es, eid')" "quiet_wakes step ws" "guards step"
  shows "(\<exists>Q'. events_ok eid' Q') \<and> held_by eid' (int a) es"
proof -
  from assms(2) obtain r1 eid1 ws1 where s: "s < length (id_stats eid)" and acq: "read_acquire eid s mode a ws True = Some (r1, eid1, ws1)"
    and b: "if r1 \<noteq> ET_OK then (r, es, eid') = (r1, [], eid1) else read_body eid1 s (station_read_core (int a)) = Some (r, es, eid')"
    by (auto simp: et_station_read_def split: if_splits option.splits)
  from read_acquire_keeps [OF acq assms(1) s assms(3,4)] b read_body_keeps [of eid1 s a r es eid']
  show ?thesis by (auto simp: held_by_def split: if_splits)
qed

lemma group_loop_keeps:
  assumes "nread_group_loop eid s mode a ws num grp scanList = Some (r, es, eid')" "\<exists>Q. events_ok eid Q" "s < length (id_stats eid)"
    "1 \<le> num" "quiet_wakes step ws" "guards step"
  shows "(\<exists>Q'. events_ok eid' Q') \<and> held_by eid' (int a) es"
  using assms
proof (induction eid s mode a ws num grp scanList rule: nread_group_loop.induct)
  case (1 eid s mode a ws num grp scanList)
  from 1(2) obtain r1 eid1 ws1 where acq: "read_acquire eid s mode a ws scanList = Some (r1, eid1, ws1)"
    by (subst (asm) nread_group_loop.simps) (auto split: option.splits)
  from 1(3) obtain Q where Q: "events_ok eid Q" by blast
  note k = read_acquire_keeps [OF acq Q 1(4) 1(6,7)]
  show ?case
  proof (cases "r1 = ET_OK")
    case False
    then have "es = []" "eid' = eid1" using 1(2) acq by (simp_all add: nread_group_loop.simps)
    then show ?thesis using k False by (simp add: held_by_def)
  next
    case True
    define num' where "num' = (if num > l_cnt (in_list eid1 s) then l_cnt (in_list eid1 s) else num)"
    from 1(2) acq True obtain r2 pe eid2 where body: "read_body eid1 s (station_nread_group_core num' grp (int a)) = Some (r2, pe, eid2)"
      and rest: "if pe = [] \<and> mode \<noteq> ET_ASYNC then nread_group_loop eid2 s mode a ws1 num' grp False = Some (r, es, eid')
        else es = pe \<and> eid' = eid2"
      unfolding nread_group_loop.simps [of eid s] num'_def
      by (simp add: Let_def split: option.split_asm prod.split_asm if_split_asm)
    have n: "1 \<le> l_cnt (in_list eid1 s)" "1 \<le> num'" "num' \<le> l_cnt (in_list eid1 s)" using k True 1(5) by (auto simp: num'_def)
    have ok1: "reading_ok eid1 s" using k True by simp
    note b = group_body_keeps [OF body ok1 n]
    show ?thesis
    proof (cases "pe = [] \<and> mode \<noteq> ET_ASYNC")
      case False
      then show ?thesis using b rest by auto
    next
      case e: True
      show ?thesis
        by (rule 1(1) [OF acq _ _ _ num'_def body]) (use True e b rest n k 1(7) in auto)
    qed
  qed
qed

lemma nread_group_waits:
  assumes "events_ok eid Q" "et_station_nread_group eid s mode a ws num grp = Some (r, es, eid')" "quiet_wakes step ws" "guards step"
  shows "(\<exists>Q'. events_ok eid' Q') \<and> held_by eid' (int a) es"
proof (cases "num < 1")
  case True
  then show ?thesis using assms(1,2) by (auto simp: et_station_nread_group_def held_by_def)
next
  case False
  then show ?thesis using assms group_loop_keeps [of eid s mode a ws num grp True r es eid' step]
    by (auto simp: et_station_nread_group_def split: if_splits)
qed

section \<open>Waiting for temporary events\<close>

text \<open>Others also leave the events of attachment \<open>a\<close> alone.\<close>

definition leaves :: "(et_id \<Rightarrow> et_id \<Rightarrow> bool) \<Rightarrow> int \<Rightarrow> (et_id \<Rightarrow> et_id) \<Rightarrow> bool" where
  "leaves step a f \<longleftrightarrow> (\<forall>e. step e (f e) \<and> (\<forall>x. ev_owner (id_events e x) = a \<longrightarrow> ev_owner (id_events (f e) x) = a))"

definition quiet_attempts :: "(et_id \<Rightarrow> et_id \<Rightarrow> bool) \<Rightarrow> int \<Rightarrow> attempt list \<Rightarrow> bool" where
  "quiet_attempts step a ts \<longleftrightarrow> (\<forall>t f. t \<in> set ts \<longrightarrow> f = fst t \<or> f \<in> set (snd t) \<longrightarrow> leaves step a f)"

definition holding :: "et_id \<Rightarrow> int \<Rightarrow> nat list \<Rightarrow> bool" where
  "holding eid a es \<longleftrightarrow> (\<exists>Q. events_ok eid Q) \<and> held_by eid a es"

lemma holding_edit: "edit eid eid' \<Longrightarrow> holding eid a es \<Longrightarrow> holding eid' a es"
  using edit_events_ok edit_held_by unfolding holding_def by blast

lemma holding_leaves: "leaves step a f \<Longrightarrow> guards step \<Longrightarrow> holding eid a es \<Longrightarrow> holding (f eid) a es"
  unfolding leaves_def guards_def holding_def held_by_def by blast

lemma wait_temps_holding:
  "wait_temps k naps eid = (left, eid') \<Longrightarrow> holding eid a es \<Longrightarrow> \<forall>f \<in> set naps. leaves step a f \<Longrightarrow> guards step \<Longrightarrow> holding eid' a es"
proof (induction k naps eid rule: wait_temps.induct)
  case (2 k naps eid)
  then show ?case by (cases naps) (auto split: if_splits intro: holding_leaves)
qed simp

lemma holding_sub: "holding eid a es \<Longrightarrow> set fs \<subseteq> set es \<Longrightarrow> holding eid a fs"
  by (auto simp: holding_def held_by_def)

lemma make_temp_holding:
  assumes "make_temp env ts eid e sz = (r, eid')" "holding eid a es" "e \<in> set es" "quiet_attempts step a ts" "guards step"
  shows "holding eid' a es"
  using assms
proof (induction env ts eid e sz rule: make_temp.induct)
  case (1 env eid e sz)
  then have "held_by eid a [e]" by (simp add: holding_def held_by_def)
  from make_edit [OF this, of env sz r eid'] 1(1,2) show ?case using holding_edit [of eid eid' a es] by simp
next
  case (2 env before naps ts eid e sz)
  obtain r1 eid1 where m: "et_event_make env (before eid) e sz = (r1, eid1)" by (metis surj_pair)
  obtain l eid2 where w: "wait_temps (nat (sy_hz (id_sys eid1) * 30)) naps eid1 = (l, eid2)" by (metis surj_pair)
  have q: "leaves step a before" "\<forall>f \<in> set naps. leaves step a f" "quiet_attempts step a ts"
    using 2(5) by (auto simp: quiet_attempts_def)
  have h: "holding (before eid) a es" by (rule holding_leaves [OF q(1) 2(6,3)])
  then have "held_by (before eid) a [e]" using 2(4) by (simp add: holding_def held_by_def)
  from holding_edit [OF make_edit [OF this m] h] have h1: "holding eid1 a es" .
  from wait_temps_holding [OF w h1 q(2) 2(6)] have h2: "holding eid2 a es" .
  show ?case using 2(1) [OF m [symmetric] refl _ w [symmetric] refl _ _ h2 2(4) q(3) 2(6)] 2(2) m w h1 h2
    by (auto split: if_splits)
qed

lemma make_temps_holding:
  assumes "make_temps env eid fs sz = (r, eid')" "holding eid a es" "set fs \<subseteq> set es" "\<forall>n. quiet_attempts step a (en_attempts env n)"
    "guards step"
  shows "holding eid' a es"
  using assms
proof (induction fs arbitrary: eid)
  case (Cons f fs)
  obtain r1 eid1 where m: "make_temp env (en_attempts env f) eid f sz = (r1, eid1)" by (metis surj_pair)
  have h1: "holding eid1 a es" by (rule make_temp_holding [OF m Cons.prems(2) _ _ Cons.prems(5)]) (use Cons.prems in auto)
  then show ?case using Cons m by (auto split: if_splits)
qed simp

lemma fill_holding:
  assumes "fill_events env eid es sz = (r, eid')" "holding eid a es" "\<forall>n. quiet_attempts step a (en_attempts env n)" "guards step"
  shows "holding eid' a es"
proof (cases "sz > sc_event_size (sy_config (id_sys eid))")
  case True
  with assms make_temps_holding [OF _ assms(2) subset_refl assms(3,4)] show ?thesis by (simp add: fill_events_def)
next
  case False
  have "edit eid (own_spaces eid es sz)" using assms(2) by (intro own_spaces_edit [of _ a]) (simp add: holding_def)
  with False holding_edit [OF this assms(2)] assms(1) show ?thesis by (simp add: fill_events_def)
qed

text \<open>What others do while a call with the environment \<open>env\<close> waits.\<close>

definition quiet_env :: "(et_id \<Rightarrow> et_id \<Rightarrow> bool) \<Rightarrow> event_env \<Rightarrow> int \<Rightarrow> bool" where
  "quiet_env step env att \<longleftrightarrow> (\<forall>t. quiet_wakes step (en_wakes env t)) \<and>
     (\<forall>n. quiet_attempts step (int (nat att)) (en_attempts env n))"

lemma quiet_env_mono [mono]: "(\<And>a b. P a b \<longrightarrow> Q a b) \<Longrightarrow> quiet_env P env att \<longrightarrow> quiet_env Q env att"
  unfolding quiet_env_def quiet_wakes_def quiet_attempts_def leaves_def by blast

lemma quiet_wait_ends: "quiet_env step env att \<Longrightarrow> quiet_wakes step (wait_ends env wait deltatime)"
  by (simp add: quiet_env_def wait_ends_def)

section \<open>The calls keep the invariant\<close>

abbreviation (input) keeps :: "et_id \<Rightarrow> bool" where
  "keeps eid' \<equiv> \<exists>Q. events_ok eid' Q"

lemma edit_keeps: "edit eid eid' \<Longrightarrow> keeps eid \<Longrightarrow> keeps eid'"
  using edit_events_ok by blast

lemma finish_new_keeps:
  assumes "\<And>r es eid1. res = Some (r, es, eid1) \<Longrightarrow> keeps eid1 \<and> held_by eid1 (int (nat att)) es"
    "quiet_env step env att" "guards step" "finish_new env att sz res = Some (r, es, eid')"
  shows "keeps eid'"
proof (cases res)
  case (Some x)
  obtain r1 es1 eid1 where x: "res = Some (r1, es1, eid1)" using Some by (cases x) auto
  have h: "holding eid1 (int (nat att)) es1" using assms(1) [OF x] by (simp add: holding_def)
  obtain r2 eid2 where f: "fill_events env eid1 es1 sz = (r2, eid2)" by (metis surj_pair)
  have "holding eid2 (int (nat att)) es1"
    by (rule fill_holding [OF f h _ assms(3)]) (use assms(2) in \<open>simp add: quiet_env_def\<close>)
  then have "keeps eid2" by (simp add: holding_def)
  moreover have "eid' = eid1 \<or> edit eid2 eid'"
    using assms(4) x f by (auto simp: finish_new_def split: if_splits)
  ultimately show ?thesis using assms(1) [OF x] edit_events_ok by blast
qed (use assms(4) in \<open>simp add: finish_new_def\<close>)

lemma finish_get_keeps:
  assumes "\<And>r es eid1. res = Some (r, es, eid1) \<Longrightarrow> keeps eid1" "finish_get env att res = Some (r, es, eid')"
  shows "keeps eid'"
proof (cases res)
  case (Some x)
  obtain r1 es1 eid1 where x: "res = Some (r1, es1, eid1)" using Some by (cases x) auto
  obtain r2 eid2 where f: "map_data env eid1 es1 = (r2, eid2)" by (metis surj_pair)
  have "edit eid1 eid2" by (rule map_data_edit [OF f])
  then have "edit eid1 eid'"
    using assms(2) x f by (auto simp: finish_get_def split: if_splits intro: edit_trans)
  then show ?thesis using assms(1) [OF x] edit_events_ok by blast
qed (use assms(2) in \<open>simp add: finish_get_def\<close>)

lemma when_active_cases:
  "when_active eid att body = Some (r, es, eid') \<Longrightarrow> eid' = eid \<or> body = Some (r, es, eid')"
  by (auto simp: when_active_def split: option.splits bool.splits)

lemma local_guard_cases:
  "local_guard eid (\<lambda>e. Some (f e)) body = Some x \<Longrightarrow> (\<exists>e. x = f e) \<or> body = Some x"
  by (auto simp: local_guard_def split: if_splits)

lemma waits_finish:
  assumes "events_ok eid Q" "quiet_env step env att" "guards step"
    "res \<in> {et_station_nread eid s m (nat att) (wait_ends env m d) num, et_station_read eid s m (nat att) (wait_ends env m d),
       et_station_nread_group eid s m (nat att) (wait_ends env m d) num grp}"
  shows "finish_new env att sz res = Some (r, es, eid') \<Longrightarrow> keeps eid'" "finish_get env att res = Some (r, es, eid') \<Longrightarrow> keeps eid'"
proof -
  note q = quiet_wait_ends [OF assms(2)]
  have h: "keeps eid1 \<and> held_by eid1 (int (nat att)) es1" if "res = Some (r1, es1, eid1)" for r1 es1 eid1
    using assms(4) that nread_waits [OF assms(1) _ q assms(3), of s m "nat att" m d num r1 es1 eid1]
      read_waits [OF assms(1) _ q assms(3), of s m "nat att" m d r1 es1 eid1]
      nread_group_waits [OF assms(1) _ q assms(3), of s m "nat att" m d num grp r1 es1 eid1] by auto
  show "keeps eid'" if "finish_new env att sz res = Some (r, es, eid')" by (rule finish_new_keeps [OF h assms(2,3) that])
  show "keeps eid'" if "finish_get env att res = Some (r, es, eid')" by (rule finish_get_keeps [OF conjunct1 [OF h] that])
qed

lemma events_new_group_keeps:
  assumes "et_events_new_group etrg etng env eid att mode deltatime sz num grp = Some (r, es, eid')" "events_ok eid Q"
    "id_locality eid = ET_LOCAL" "quiet_env step env att" "guards step"
  shows "keeps eid'"
proof -
  from assms have "eid' = eid \<or> finish_new env att sz (et_station_nread_group eid 0 (wait_mode mode) (nat att)
      (wait_ends env (wait_mode mode) deltatime) (temps_wanted eid sz num) grp) = Some (r, es, eid')"
    by (auto simp: et_events_new_group_def split: if_splits dest!: local_guard_cases when_active_cases)
  then show ?thesis using assms(2) waits_finish(1) [OF assms(2,4,5)] by blast
qed

lemma events_new_keeps:
  assumes "et_events_new etr etn etrg etng env eid att mode deltatime sz num = Some (r, es, eid')" "events_ok eid Q"
    "id_locality eid = ET_LOCAL" "quiet_env step env att" "guards step"
  shows "keeps eid'"
proof (cases "id_group eid = 0")
  case True
  with assms have "eid' = eid \<or> finish_new env att sz (et_station_nread eid 0 (wait_mode mode) (nat att)
      (wait_ends env (wait_mode mode) deltatime) (temps_wanted eid sz num)) = Some (r, es, eid')"
    by (auto simp: et_events_new_def split: if_splits dest!: local_guard_cases when_active_cases)
  then show ?thesis using assms(2) waits_finish(1) [OF assms(2,4,5)] by blast
next
  case False
  with assms(1) show ?thesis using events_new_group_keeps [OF _ assms(2-5)] by (simp add: et_events_new_def)
qed

lemma event_new_keeps:
  assumes "et_event_new etr etn etrg etng env eid att mode deltatime sz = Some (r, es, eid')" "events_ok eid Q"
    "id_locality eid = ET_LOCAL" "quiet_env step env att" "guards step"
  shows "keeps eid'"
proof (cases "id_group eid = 0")
  case True
  with assms have "eid' = eid \<or> finish_new env att sz (et_station_read eid 0 (wait_mode mode) (nat att)
      (wait_ends env (wait_mode mode) deltatime)) = Some (r, es, eid')"
    by (auto simp: et_event_new_def split: if_splits dest!: local_guard_cases when_active_cases)
  then show ?thesis using assms(2) waits_finish(1) [OF assms(2,4,5)] by blast
next
  case False
  with assms(1) show ?thesis using events_new_group_keeps [OF _ assms(2-5)] by (simp add: et_event_new_def et_event_new_group_def)
qed

lemma get_from_station_cases:
  "get_from_station eid att body = Some (r, es, eid') \<Longrightarrow> eid' = eid \<or> (\<exists>s. body s = Some (r, es, eid'))"
  by (auto simp: get_from_station_def Let_def split: if_splits option.splits dest!: when_active_cases)

lemma events_get_keeps:
  assumes "et_events_get etr etn env eid att mode deltatime num = Some (r, es, eid')" "events_ok eid Q"
    "id_locality eid = ET_LOCAL" "quiet_env step env att" "guards step"
  shows "keeps eid'"
proof -
  from assms have "eid' = eid \<or> (\<exists>s. finish_get env att (et_station_nread eid s (wait_mode mode) (nat att)
      (wait_ends env (wait_mode mode) deltatime) num) = Some (r, es, eid'))"
    by (auto simp: et_events_get_def split: if_splits dest!: local_guard_cases get_from_station_cases)
  then show ?thesis using assms(2) waits_finish(2) [OF assms(2,4,5)] by blast
qed

lemma event_get_keeps:
  assumes "et_event_get etr etn env eid att mode deltatime = Some (r, es, eid')" "events_ok eid Q"
    "id_locality eid = ET_LOCAL" "quiet_env step env att" "guards step"
  shows "keeps eid'"
proof -
  from assms have "eid' = eid \<or> (\<exists>s. finish_get env att (et_station_read eid s (wait_mode mode) (nat att)
      (wait_ends env (wait_mode mode) deltatime)) = Some (r, es, eid'))"
    by (auto simp: et_event_get_def split: if_splits dest!: local_guard_cases get_from_station_cases)
  then show ?thesis using assms(2) waits_finish(2) [OF assms(2,4,5)] by blast
qed

text \<open>
  A user hands over events of the system, each once; that he owns them is tested by the calls.
\<close>

definition proper :: "et_id \<Rightarrow> nat list \<Rightarrow> bool" where
  "proper eid es \<longleftrightarrow> distinct es \<and> (\<forall>e \<in> set es. int e < nevents_max eid)"

lemma proper_held: "proper eid es \<Longrightarrow> \<forall>e \<in> set es. ev_owner (id_events eid e) = a \<Longrightarrow> \<not> a < 0 \<Longrightarrow> held eid es"
  by (auto simp: proper_def held_def)

lemma write_keeps:
  assumes "events_ok eid Q" "held eid es" "es \<noteq> []" "et_station_nwrite eid s es (int (length es)) = Some (r, eid')"
  shows "r = ET_OK \<and> keeps eid'"
proof -
  have "s < length (id_stats eid)" using assms(3,4) by (auto simp: et_station_nwrite_def on_station_def split: if_splits)
  from put_step [OF assms(1,2) this assms(3)] assms(4) show ?thesis by auto
qed

lemma events_put_keeps:
  assumes "et_events_put etr etn env eid att es = Some (r, eid')" "events_ok eid Q" "id_locality eid = ET_LOCAL" "proper eid es"
  shows "keeps eid'"
proof -
  obtain r1 eid1 where m: "mark_used env eid es = (r1, eid1)" by (metis surj_pair)
  note e = mark_used_edit [OF m]
  have k1: "events_ok eid1 Q" by (rule edit_events_ok [OF e assms(2)])
  have "eid' = eid \<or> eid' = eid1 \<or> (es \<noteq> [] \<and> held eid es \<and> (\<exists>s r2 eid2. et_station_nwrite eid1 s es (int (length es)) = Some (r2, eid2) \<and>
      eid' = (if r2 \<noteq> ET_OK then unmark_used eid2 es else count_put att (length es) eid2)))"
    using assms(1,3,4) m proper_held [OF assms(4), of att]
    by (auto simp: et_events_put_def split: if_splits option.splits dest!: local_guard_cases) blast+
  then consider "eid' = eid" | "eid' = eid1" | s r2 eid2 where "es \<noteq> []" "held eid es"
      "et_station_nwrite eid1 s es (int (length es)) = Some (r2, eid2)"
      "eid' = (if r2 \<noteq> ET_OK then unmark_used eid2 es else count_put att (length es) eid2)" by blast
  then show ?thesis
  proof cases
    case 3
    from write_keeps [OF k1 edit_held [OF e 3(2)] 3(1,3)] have "r2 = ET_OK" "keeps eid2" by auto
    then show ?thesis using 3(4) edit_keeps [OF edit_upd_att] by (simp add: count_put_def)
  qed (use assms(2) k1 in blast)+
qed

lemma event_put_keeps:
  assumes "et_event_put etr etn env eid att e = Some (r, eid')" "events_ok eid Q" "id_locality eid = ET_LOCAL" "proper eid [e]"
  shows "keeps eid'"
proof -
  let ?id1 = "upd_event eid e (\<lambda>x. x\<lparr>ev_age := ET_EVENT_USED\<rparr>)"
  have e: "edit eid ?id1" by (rule edit_upd_event) (simp_all add: legal_pri_def)
  have k1: "events_ok ?id1 Q" by (rule edit_events_ok [OF e assms(2)])
  have "eid' = eid \<or> (held eid [e] \<and> (\<exists>s r2 eid2 f. et_station_nwrite ?id1 s [e] 1 = Some (r2, eid2) \<and>
      eid' = (if r2 \<noteq> ET_OK then upd_event eid2 e f else count_put att 1 eid2)))"
    using assms(1,3,4) proper_held [OF assms(4), of att] write_one_eq [OF k1]
    by (auto simp: et_event_put_def Let_def split: if_splits option.splits dest!: local_guard_cases) blast+
  then consider "eid' = eid" | s r2 eid2 f where "held eid [e]" "et_station_nwrite ?id1 s [e] 1 = Some (r2, eid2)"
      "eid' = (if r2 \<noteq> ET_OK then upd_event eid2 e f else count_put att 1 eid2)" by blast
  then show ?thesis
  proof cases
    case 2
    from write_keeps [OF k1 edit_held [OF e 2(1)], of s r2 eid2] 2(2) have "r2 = ET_OK" "keeps eid2" by auto
    then show ?thesis using 2(3) edit_keeps [OF edit_upd_att] by (simp add: count_put_def)
  qed (use assms(2) in blast)
qed

lemma dump_edits: "edit eid (count_dump att n (if b then add_ntemps k eid else eid))"
  unfolding count_dump_def using edit_trans [OF edit_add_ntemps edit_upd_att] by simp

lemma events_dump_keeps:
  assumes "et_events_dump etr etn env eid att es = Some (r, eid')" "events_ok eid Q" "id_locality eid = ET_LOCAL" "proper eid es"
  shows "keeps eid'"
proof -
  have "eid' = eid \<or> (es \<noteq> [] \<and> held eid es \<and> (\<exists>r2 eid2 b k. et_station_ndump eid es (int (length es)) = Some (r2, eid2) \<and>
      eid' = (if r2 \<noteq> ET_OK then eid2 else count_dump att (length es) (if b then add_ntemps k eid2 else eid2))))"
    using assms(1,3,4) proper_held [OF assms(4), of att]
    by (auto simp: et_events_dump_def Let_def split: if_splits option.splits dest!: local_guard_cases) blast+
  then consider "eid' = eid" | r2 eid2 b k where "es \<noteq> []" "held eid es"
      "et_station_ndump eid es (int (length es)) = Some (r2, eid2)"
      "eid' = (if r2 \<noteq> ET_OK then eid2 else count_dump att (length es) (if b then add_ntemps k eid2 else eid2))" by blast
  then show ?thesis
  proof cases
    case 2
    then have "0 < length (id_stats eid)" by (auto simp: et_station_ndump_def on_station_def split: if_splits)
    from dump_step [OF assms(2) 2(2) this 2(1)] 2(3) have "r2 = ET_OK" "keeps eid2" by auto
    then show ?thesis using 2(4) edit_keeps [OF dump_edits, of eid2 att "length es" b k] by simp
  qed (use assms(2) in blast)
qed

lemma event_dump_keeps:
  assumes "et_event_dump etr etn env eid att e = Some (r, eid')" "events_ok eid Q" "id_locality eid = ET_LOCAL" "proper eid [e]"
  shows "keeps eid'"
proof -
  have "eid' = eid \<or> (held eid [e] \<and> (\<exists>r2 eid2 b k f. et_station_dump eid e = Some (r2, eid2) \<and>
      eid' = (if r2 \<noteq> ET_OK then upd_event eid2 e f else count_dump att 1 (if b then add_ntemps k eid2 else eid2))))"
    using assms(1,3,4) proper_held [OF assms(4), of att]
    by (auto simp: et_event_dump_def Let_def split: if_splits option.splits dest!: local_guard_cases) blast+
  then consider "eid' = eid" | r2 eid2 b k f where "held eid [e]" "et_station_dump eid e = Some (r2, eid2)"
      "eid' = (if r2 \<noteq> ET_OK then upd_event eid2 e f else count_dump att 1 (if b then add_ntemps k eid2 else eid2))" by blast
  then show ?thesis
  proof cases
    case 2
    then have "0 < length (id_stats eid)" by (auto simp: et_station_dump_def on_station_def split: if_splits)
    from dump_one_step [OF assms(2) 2(1) this] 2(2) have "r2 = ET_OK" "keeps eid2" by auto
    then show ?thesis using 2(3) edit_keeps [OF dump_edits, of eid2 att 1 b k] by simp
  qed (use assms(2) in blast)
qed

lemma conductor_keeps:
  assumes "et_conductor ufunc me eid = Some (r, eid')" "events_ok eid Q" "chain_ok (id_stats eid) tail (done @ rest)"
    "me = 0 \<and> done = [] \<or> done \<noteq> [] \<and> me \<in> set (last done)" "\<forall>g \<in> set (tl rest). \<not> rrobin_head eid (hd g)"
    "is_active eid 0" "\<not> is_parallel eid 0" "0 < l_cnt (out_pl eid me)"
  shows "keeps eid'"
proof -
  note o = events_okD [OF assms(2)]
  define n where "n = length (id_stats eid)"
  have me: "me < n"
    using assms(4) group_length(2) [OF assms(3), of "last done"] chain_okD(2) [OF assms(3)] by (auto simp: members_ok_def n_def)
  have ne: "Q (n + me) \<noteq> []" using lists_okD(8) [OF o(1), of me] me assms(8) by (auto simp: n_def out_ok_def)
  from conductor_round [OF assms(3-7) o(1) n_def ne, of ufunc] assms(1) obtain Q' where
    c: "lists_ok eid' Q' []" "Q' (n + me) = []" "\<forall>t. n \<le> t \<longrightarrow> t \<noteq> n + me \<longrightarrow> Q' t = Q t"
      "mset (Q (n + me)) + (\<Sum>t < n. mset (Q t)) = (\<Sum>t < n. mset (Q' t))"
      "next_only UNIV (id_events eid) (id_events eid')" "length (id_stats eid') = n" "nevents_max eid' = nevents_max eid"
      "id_histogram eid' = id_histogram eid" by auto
  have inp: "(\<exists>t < n. e \<in> set (P t)) \<longleftrightarrow> e \<in># (\<Sum>t < n. mset (P t))" for e and P :: "nat \<Rightarrow> nat list"
    by (auto simp: set_mset_sum)
  have split: "in_lists i P e \<longleftrightarrow> (\<exists>t < n. e \<in> set (P t)) \<or> (\<exists>t < n. e \<in> set (P (n + t)))" if len: "length (id_stats i) = n" for i P e
  proof
    assume "in_lists i P e"
    then obtain t where t: "t < n + n" "e \<in> set (P t)" using len by (auto simp: in_lists_def)
    show "(\<exists>t < n. e \<in> set (P t)) \<or> (\<exists>t < n. e \<in> set (P (n + t)))"
    proof (cases "t < n")
      case False
      then show ?thesis using t by (intro disjI2 exI [of _ "t - n"]) simp
    qed (use t in blast)
  next
    assume "(\<exists>t < n. e \<in> set (P t)) \<or> (\<exists>t < n. e \<in> set (P (n + t)))"
    then show "in_lists i P e" unfolding in_lists_def len by (auto intro: trans_less_add1 add_strict_left_mono)
  qed
  have "in_lists eid' Q' e = in_lists eid Q e" for e
  proof -
    have out: "(\<exists>t < n. e \<in> set (Q (n + t))) \<longleftrightarrow> e \<in> set (Q (n + me)) \<or> (\<exists>t < n. e \<in> set (Q' (n + t)))"
    proof -
      have "set (Q' (n + t)) = (if t = me then {} else set (Q (n + t)))" for t using c(2,3) by simp
      then show ?thesis using me by auto metis
    qed
    have "(\<exists>t < n. e \<in> set (Q' t)) \<longleftrightarrow> e \<in> set (Q (n + me)) \<or> (\<exists>t < n. e \<in> set (Q t))"
      unfolding inp c(4) [symmetric] by simp
    then show ?thesis
      unfolding split [OF c(6)] split [OF n_def [symmetric]] out by blast
  qed
  moreover have "legal_pri (id_events eid' e) = legal_pri (id_events eid e)" for e
    using next_onlyD(2) [OF c(5)] by (simp add: legal_pri_def)
  moreover have "ev_owner (id_events eid' e) = ev_owner (id_events eid e)" for e by (rule next_onlyD(3) [OF c(5)])
  ultimately have "events_ok eid' Q'" using o(2-4) c(1,7,8) by (simp add: events_ok_def)
  then show ?thesis by blast
qed

lemma set_event_keeps:
  assumes "ev_owner (f x) = ev_owner x" "ev_priority (f x) = ev_priority x" "set_event legal f (Some x) = (r, Some y)"
  shows "ev_owner y = ev_owner x \<and> (legal_pri x \<longrightarrow> legal_pri y)"
  using assms by (auto simp: set_event_def legal_pri_def split: if_splits)

lemma setter_edit:
  assumes "et_event_setpriority (Some x) pri = (r, Some y) \<or> et_event_setlength (Some x) len = (r, Some y) \<or>
      et_event_setcontrol (Some x) con num = Some (r, Some y) \<or> et_event_setdatastatus (Some x) st = (r, Some y) \<or>
      et_event_setendian order (Some x) endian = (r, Some y)"
  shows "ev_owner y = ev_owner x \<and> (legal_pri x \<longrightarrow> legal_pri y)"
  using assms
proof (elim disjE)
  assume "et_event_setpriority (Some x) pri = (r, Some y)"
  then show ?thesis by (auto simp: et_event_setpriority_def set_event_def legal_pri_def split: if_splits)
next
  assume "et_event_setlength (Some x) len = (r, Some y)"
  then show ?thesis by (auto simp: et_event_setlength_def set_event_def legal_pri_def split: if_splits)
next
  assume "et_event_setcontrol (Some x) con num = Some (r, Some y)"
  then show ?thesis by (auto simp: et_event_setcontrol_def set_event_def legal_pri_def split: if_splits)
next
  assume "et_event_setdatastatus (Some x) st = (r, Some y)"
  then show ?thesis unfolding et_event_setdatastatus_def by (elim set_event_keeps [rotated 2]) simp_all
next
  assume "et_event_setendian order (Some x) endian = (r, Some y)"
  then show ?thesis unfolding et_event_setendian_def
    by (simp split: if_split_asm) (auto elim!: set_event_keeps [rotated 2])
qed

section \<open>The steps\<close>

text \<open>
  Steps are completed calls of local users, the setters applied by the owner of an event, and the
  rounds of conductors with a nonempty output list. While a call waits for events, or for a temporary
  event, others do such steps as well; a wait for events does not end with an error, and those who
  act while it waits for a temporary event leave the caller's events alone. No step is a round of a
  conductor behind whose next group another group uses the round-robin algorithm.
\<close>

inductive event_step :: "et_id \<Rightarrow> et_id \<Rightarrow> bool" where
  step_new: "id_locality eid = ET_LOCAL \<Longrightarrow> quiet_env event_step\<^sup>*\<^sup>* env att \<Longrightarrow>
    et_event_new etr etn etrg etng env eid att mode deltatime sz = Some (r, es, eid') \<Longrightarrow> event_step eid eid'"
| step_news: "id_locality eid = ET_LOCAL \<Longrightarrow> quiet_env event_step\<^sup>*\<^sup>* env att \<Longrightarrow>
    et_events_new etrs etns etrg etng env eid att mode deltatime sz num = Some (r, es, eid') \<Longrightarrow> event_step eid eid'"
| step_news_group: "id_locality eid = ET_LOCAL \<Longrightarrow> quiet_env event_step\<^sup>*\<^sup>* env att \<Longrightarrow>
    et_events_new_group etrg etng env eid att mode deltatime sz num grp = Some (r, es, eid') \<Longrightarrow> event_step eid eid'"
| step_get: "id_locality eid = ET_LOCAL \<Longrightarrow> quiet_env event_step\<^sup>*\<^sup>* env att \<Longrightarrow>
    et_event_get etg eng env eid att mode deltatime = Some (r, es, eid') \<Longrightarrow> event_step eid eid'"
| step_gets: "id_locality eid = ET_LOCAL \<Longrightarrow> quiet_env event_step\<^sup>*\<^sup>* env att \<Longrightarrow>
    et_events_get etgs engs env eid att mode deltatime num = Some (r, es, eid') \<Longrightarrow> event_step eid eid'"
| step_put: "id_locality eid = ET_LOCAL \<Longrightarrow> proper eid [e] \<Longrightarrow>
    et_event_put etp enp env eid att e = Some (r, eid') \<Longrightarrow> event_step eid eid'"
| step_puts: "id_locality eid = ET_LOCAL \<Longrightarrow> proper eid es \<Longrightarrow>
    et_events_put etps enps env eid att es = Some (r, eid') \<Longrightarrow> event_step eid eid'"
| step_dump: "id_locality eid = ET_LOCAL \<Longrightarrow> proper eid [e] \<Longrightarrow>
    et_event_dump etp enp env eid att e = Some (r, eid') \<Longrightarrow> event_step eid eid'"
| step_dumps: "id_locality eid = ET_LOCAL \<Longrightarrow> proper eid es \<Longrightarrow>
    et_events_dump etps enps env eid att es = Some (r, eid') \<Longrightarrow> event_step eid eid'"
| step_set: "ev_owner x \<noteq> ET_SYS \<Longrightarrow> x = id_events eid e \<Longrightarrow>
    et_event_setpriority (Some x) pri = (r, Some y) \<or> et_event_setlength (Some x) len = (r, Some y) \<or>
    et_event_setcontrol (Some x) con num = Some (r, Some y) \<or> et_event_setdatastatus (Some x) st = (r, Some y) \<or>
    et_event_setendian order (Some x) endian = (r, Some y) \<Longrightarrow> event_step eid (upd_event eid e (\<lambda>_. y))"
| step_conduct: "chain_ok (id_stats eid) tail (done @ rest) \<Longrightarrow> me = 0 \<and> done = [] \<or> done \<noteq> [] \<and> me \<in> set (last done) \<Longrightarrow>
    \<forall>g \<in> set (tl rest). \<not> rrobin_head eid (hd g) \<Longrightarrow> is_active eid 0 \<Longrightarrow> \<not> is_parallel eid 0 \<Longrightarrow>
    0 < l_cnt (out_pl eid me) \<Longrightarrow> et_conductor ufunc me eid = Some (ok, eid') \<Longrightarrow> event_step eid eid'"

lemma guards_rtranclp: "(\<And>a b Q. step a b \<Longrightarrow> events_ok a Q \<Longrightarrow> keeps b) \<Longrightarrow> guards step\<^sup>*\<^sup>*"
proof -
  assume st: "\<And>a b Q. step a b \<Longrightarrow> events_ok a Q \<Longrightarrow> keeps b"
  have "keeps b" if "step\<^sup>*\<^sup>* a b" "events_ok a Q" for a b Q
    using that by (induction rule: rtranclp_induct) (auto dest: st)
  then show ?thesis by (simp add: guards_def)
qed

lemma event_step_keeps: "event_step eid eid' \<Longrightarrow> events_ok eid Q \<Longrightarrow> keeps eid'"
proof (induction arbitrary: Q rule: event_step.induct)
  case (step_set x eid e pri r y len con num st order endian)
  have "edit eid (upd_event eid e (\<lambda>_. y))"
    using setter_edit [OF step_set(3)] step_set(1,2) by (intro edit_upd_event) auto
  then show ?case using edit_events_ok step_set(4) by blast
next
  case (step_new eid env att etr etn etrg etng mode deltatime sz r es eid')
  show ?case by (rule event_new_keeps [OF step_new(2,4,1,3) guards_rtranclp]) blast
next
  case (step_news eid env att etrs etns etrg etng mode deltatime sz num r es eid')
  show ?case by (rule events_new_keeps [OF step_news(2,4,1,3) guards_rtranclp]) blast
next
  case (step_news_group eid env att etrg etng mode deltatime sz num grp r es eid')
  show ?case by (rule events_new_group_keeps [OF step_news_group(2,4,1,3) guards_rtranclp]) blast
next
  case (step_get eid env att etg eng mode deltatime r es eid')
  show ?case by (rule event_get_keeps [OF step_get(2,4,1,3) guards_rtranclp]) blast
next
  case (step_gets eid env att etgs engs mode deltatime num r es eid')
  show ?case by (rule events_get_keeps [OF step_gets(2,4,1,3) guards_rtranclp]) blast
next
  case (step_put eid e etp enp env att r eid')
  show ?case by (rule event_put_keeps [OF step_put(3,4,1,2)])
next
  case (step_puts eid es etps enps env att r eid')
  show ?case by (rule events_put_keeps [OF step_puts(3,4,1,2)])
next
  case (step_dump eid e etp enp env att r eid')
  show ?case by (rule event_dump_keeps [OF step_dump(3,4,1,2)])
next
  case (step_dumps eid es etps enps env att r eid')
  show ?case by (rule events_dump_keeps [OF step_dumps(3,4,1,2)])
next
  case (step_conduct eid tail "done" rest me ufunc ok eid')
  show ?case by (rule conductor_keeps [OF step_conduct(7,8,1-6)])
qed

lemma event_steps_keep: "event_step\<^sup>*\<^sup>* eid eid' \<Longrightarrow> events_ok eid Q \<Longrightarrow> keeps eid'"
  by (induction rule: rtranclp_induct) (auto dest: event_step_keeps)

section \<open>Property\<close>

text \<open>
  C1. No event is ever lost or duplicated: after any sequence of calls by local users that take new
  events of any or of one group, get, put or dump events, each once in a call, or change their own
  events, also when a call waits while others do such steps, and of rounds of conductors, all lists
  are well formed, and every event is either owned by the system and in exactly one list, once, or
  owned by a user and in no list. Two things are not among these steps: rounds of a conductor behind
  whose next group another group uses the round-robin algorithm, where lemma
  \<open>rrobin_later_duplicates\<close> shows that the code duplicates events, and waits that end with an error
  of \<open>pthread_cond_timedwait\<close>, after which the code leaves the list locked.
\<close>

theorem events_never_lost:
  assumes "event_step\<^sup>*\<^sup>* eid eid'" "events_ok eid Q"
  shows "\<exists>Q'. lists_ok eid' Q' [] \<and> (\<forall>e. int e < nevents_max eid' \<longrightarrow>
     (\<Sum>t < length (id_stats eid') + length (id_stats eid'). count (mset (Q' t)) e) =
       (if ev_owner (id_events eid' e) = ET_SYS then 1 else 0))"
proof -
  from event_steps_keep [OF assms] obtain Q' where Q': "events_ok eid' Q'" by blast
  note o = events_okD [OF Q']
  show ?thesis using o(1,4) count_places [OF o(1)] by (intro exI [of _ Q']) simp
qed

lemma sample_round_events: "events_ok sample_round ((\<lambda>_ :: nat. [])(2 := [0, 1]))"
proof -
  have "ev_owner (id_events sample_round e) = ET_SYS" "legal_pri (id_events sample_round e)"
    "in_lists sample_round ((\<lambda>_ :: nat. [])(2 := [0, 1])) e \<longleftrightarrow> e < 2" for e
    unfolding in_lists_def sample_round_chain(4)
    by (auto simp: sample_round_def legal_pri_def set_next_def sample_defs)
  moreover have "nevents_max sample_round = 2" "length (id_histogram sample_round) = 3"
    by (simp_all add: sample_round_def nevents_max_def)
  ultimately show ?thesis using sample_round_ok by (simp add: events_ok_def)
qed

theorem events_never_lost_witness:
  "\<exists>eid' Q'. event_step sample_round eid' \<and> lists_ok eid' Q' [] \<and>
     (\<forall>e. int e < nevents_max eid' \<longrightarrow>
       (\<Sum>t < length (id_stats eid') + length (id_stats eid'). count (mset (Q' t)) e) =
         (if ev_owner (id_events eid' e) = ET_SYS then 1 else 0))"
proof -
  let ?Q = "(\<lambda>_ :: nat. [])(2 := [0, 1])"
  have ne: "?Q (2 + 0) \<noteq> []" by simp
  from conductor_round [OF sample_round_chain(1) _ _ sample_round_chain(2,3) sample_round_ok sample_round_chain(4) [symmetric] ne]
  obtain eid' where c: "et_conductor (\<lambda>_ _ _ _. False) 0 sample_round = Some (True, eid')" by fastforce
  have "0 < l_cnt (out_pl sample_round 0)" by (simp add: sample_round_def out_pl_def)
  from step_conduct [OF sample_round_chain(1) _ _ sample_round_chain(2,3) this c]
  have st: "event_step sample_round eid'" by simp
  from events_never_lost [OF r_into_rtranclp, OF st sample_round_events] st show ?thesis by blast
qed

end
