(* ===== verification/ET_Repair.thy ===== *)
theory ET_Repair
  imports ET_StationRead
begin

text \<open>
  What the ET system process does to the lists of a station when a user process died in the middle
  of an operation on them (src/libsrc/et\_readwrite.c: \<open>et_mutex_locked\<close>, \<open>et_repair_station\<close>,
  \<open>et_repair_gc\<close>, \<open>et_repair_outputlist\<close>, \<open>et_repair_inputlist\<close>, \<open>et_repair_gcinputlist\<close>). The
  operations leave a record of what they are doing in the station's \<open>fix\<close> structure; the repair
  routines read it.

  To say where an operation died, its critical section is also given as the list of its single
  assignments (\<open>nwrite_code\<close>, \<open>nread_code\<close> and so on); theory \<open>ET_CrashIO\<close> shows that all of them
  together are the operation of the theories \<open>ET_StationIO\<close> and \<open>ET_StationRead\<close>. Assignments reach
  the shared memory in the order of the source.
\<close>

section \<open>Repair\<close>

text \<open>
  A mutex counts as locked when 40 attempts, with a nap of 50 milliseconds after each failure, do
  not get it. \<open>naps\<close> is what others do meanwhile; beyond the list nothing happens.
\<close>

fun mutex_tries :: "(et_id \<Rightarrow> bool) \<Rightarrow> nat \<Rightarrow> (et_id \<Rightarrow> et_id) list \<Rightarrow> et_id \<Rightarrow> bool \<times> et_id" where
  "mutex_tries locked 0 naps eid = (True, eid)"
| "mutex_tries locked (Suc k) naps eid =
     (if \<not> locked eid then (False, eid)
      else case naps of [] \<Rightarrow> mutex_tries locked k [] eid | f # fs \<Rightarrow> mutex_tries locked k fs (f eid))"

definition et_mutex_locked :: "(et_id \<Rightarrow> bool) \<Rightarrow> (et_id \<Rightarrow> et_id) list \<Rightarrow> et_id \<Rightarrow> bool \<times> et_id" where
  "et_mutex_locked locked naps eid = mutex_tries locked 40 naps eid"

text \<open>
  The loop over at most \<open>n\<close> events from \<open>pe\<close> to the last one: whether that was found, the owners, the
  number of events and of those with high priority.
\<close>

fun repair_scan :: "evheap \<Rightarrow> nat \<Rightarrow> evptr \<Rightarrow> evptr \<Rightarrow> int \<Rightarrow> int \<Rightarrow> (bool \<times> evheap \<times> int \<times> int) option" where
  "repair_scan ev 0 pe lastevent cnt hi = Some (False, ev, cnt, hi)"
| "repair_scan ev (Suc n) None lastevent cnt hi = None"
| "repair_scan ev (Suc n) (Some e) lastevent cnt hi =
     (let ev1 = set_owner ev e ET_SYS; hi1 = (if ev_priority (ev1 e) = ET_HIGH then hi + 1 else hi) in
      if lastevent = Some e then Some (True, ev1, cnt + 1, hi1)
      else repair_scan ev1 n (ev_next (ev1 e)) lastevent (cnt + 1) hi1)"

definition set_out_start :: "int \<Rightarrow> et_station \<Rightarrow> et_station" where
  "set_out_start v ps = ps\<lparr>st_fix := (st_fix ps)\<lparr>fix_out := (fix_out (st_fix ps))\<lparr>fo_start := v\<rparr>\<rparr>\<rparr>"

definition set_in_start :: "int \<Rightarrow> et_station \<Rightarrow> et_station" where
  "set_in_start v ps = ps\<lparr>st_fix := (st_fix ps)\<lparr>fix_in := (fix_in (st_fix ps))\<lparr>fi_start := v\<rparr>\<rparr>\<rparr>"

definition et_repair_outputlist :: "evheap \<Rightarrow> et_station \<Rightarrow> (int \<times> evheap \<times> et_station) option" where
  "et_repair_outputlist ev ps =
     (let pl = st_list_out ps; fo = fix_out (st_fix ps) in
      if fo_start fo = 0 then Some (ET_OK, ev, ps)
      else if l_cnt pl = fo_cnt fo + fo_num fo then Some (ET_OK, ev, set_out_start 0 ps)
      else if l_cnt pl = 0 \<and> l_firstevent pl = None then Some (ET_OK, ev, set_out_start 0 ps)
      else
        let pl1 = (if l_cnt pl = 0 then pl\<lparr>l_lastevent := l_firstevent pl\<rparr> else pl) in
        case repair_scan ev (nat (fo_cnt fo + fo_num fo)) (l_firstevent pl1) (l_lastevent pl1) 0 0 of
          None \<Rightarrow> None
        | Some (found, ev1, cnt, lasthigh) \<Rightarrow>
            Some (if found then ET_OK else ET_ERROR, ev1,
              set_out_start 0 (ps\<lparr>st_list_out := pl1\<lparr>l_cnt := cnt, l_lasthigh := lasthigh\<rparr>\<rparr>)))"

text \<open>This loop has no bound: it ends when it meets the last event (\<open>None\<close>: never, or at a null pointer).\<close>

partial_function (option) repair_walk :: "evheap \<Rightarrow> evptr \<Rightarrow> evptr \<Rightarrow> int \<Rightarrow> (evheap \<times> int) option" where
  "repair_walk ev pe lastevent cnt =
     (case pe of
        None \<Rightarrow> None
      | Some e \<Rightarrow>
          if lastevent = Some e then Some (set_owner ev e ET_SYS, cnt + 1)
          else repair_walk (set_owner ev e ET_SYS) (ev_next (ev e)) lastevent (cnt + 1))"

definition clear_in_first :: "et_station \<Rightarrow> et_station" where
  "clear_in_first ps = ps\<lparr>st_fix := (st_fix ps)\<lparr>fix_in := (fix_in (st_fix ps))\<lparr>fi_first := None\<rparr>\<rparr>\<rparr>"

definition et_repair_inputlist :: "evheap \<Rightarrow> et_station \<Rightarrow> (int \<times> evheap \<times> et_station) option" where
  "et_repair_inputlist ev ps =
     (let pl = st_list_in ps; fi = fix_in (st_fix ps) in
      if fi_first fi = None then Some (ET_OK, ev, ps)
      else if l_cnt pl = fi_cnt fi - fi_num fi then Some (ET_OK, ev, clear_in_first ps)
      else
        let pl1 = pl\<lparr>l_firstevent := fi_first fi\<rparr> in
        case repair_walk ev (fi_first fi) (l_lastevent pl1) 0 of
          None \<Rightarrow> None
        | Some (ev1, cnt) \<Rightarrow> Some (ET_OK, ev1, clear_in_first (ps\<lparr>st_list_in := pl1\<lparr>l_cnt := cnt\<rparr>\<rparr>)))"

text \<open>Priorities do not matter in GrandCentral's input list; their count is not used.\<close>

definition et_repair_gcinputlist :: "evheap \<Rightarrow> et_station \<Rightarrow> (int \<times> evheap \<times> et_station) option" where
  "et_repair_gcinputlist ev ps =
     (let pl = st_list_in ps; fi = fix_in (st_fix ps) in
      if fi_start fi = 0 then Some (ET_OK, ev, ps)
      else if l_cnt pl = fi_cnt fi + fi_num fi then Some (ET_OK, ev, set_in_start 0 ps)
      else if l_cnt pl = 0 \<and> l_firstevent pl = None then Some (ET_OK, ev, set_in_start 0 ps)
      else
        let pl1 = (if l_cnt pl = 0 then pl\<lparr>l_lastevent := l_firstevent pl\<rparr> else pl) in
        case repair_scan ev (nat (fi_cnt fi + fi_num fi)) (l_firstevent pl1) (l_lastevent pl1) 0 0 of
          None \<Rightarrow> None
        | Some (found, ev1, cnt, hi) \<Rightarrow>
            let pl2 = pl1\<lparr>l_cnt := cnt\<rparr>;
                pl3 = (if fi_eventsin fi = l_events_in pl2
                       then pl2\<lparr>l_events_in := l_events_in pl2 + word_of_int (cnt - fi_cnt fi)\<rparr> else pl2)
            in Some (if found then ET_OK else ET_ERROR, ev1, set_in_start 0 (ps\<lparr>st_list_in := pl3\<rparr>)))"

text \<open>Repair of one list followed by the release of its mutex; after an error it stays locked.\<close>

definition repair_list ::
  "(et_station \<Rightarrow> et_station) \<Rightarrow> (evheap \<Rightarrow> et_station \<Rightarrow> (int \<times> evheap \<times> et_station) option) \<Rightarrow>
     et_id \<Rightarrow> nat \<Rightarrow> (int \<times> et_id) option" where
  "repair_list unlock repair eid s =
     (case repair (id_events eid) (id_stats eid ! s) of
        None \<Rightarrow> None
      | Some (status, ev, ps) \<Rightarrow>
          Some (if status = ET_ERROR then ET_ERROR else ET_OK,
            eid\<lparr>id_stats := (id_stats eid)[s := if status = ET_ERROR then ps else unlock ps], id_events := ev\<rparr>))"

definition unlock_in :: "et_station \<Rightarrow> et_station" where
  "unlock_in ps = ps\<lparr>st_list_in := et_llist_unlock (st_list_in ps)\<rparr>"

definition unlock_out :: "et_station \<Rightarrow> et_station" where
  "unlock_out ps = ps\<lparr>st_list_out := et_llist_unlock (st_list_out ps)\<rparr>"

definition in_locked :: "nat \<Rightarrow> et_id \<Rightarrow> bool" where
  "in_locked s eid = l_mutex (st_list_in (id_stats eid ! s))"

definition out_locked :: "nat \<Rightarrow> et_id \<Rightarrow> bool" where
  "out_locked s eid = l_mutex (st_list_out (id_stats eid ! s))"

definition et_repair_station ::
  "(et_id \<Rightarrow> et_id) list \<Rightarrow> (et_id \<Rightarrow> et_id) list \<Rightarrow> et_id \<Rightarrow> nat \<Rightarrow> (int \<times> et_id) option" where
  "et_repair_station naps_in naps_out eid s =
     (if \<not> s < length (id_stats eid) then None
      else
        let (locked, eid1) = et_mutex_locked (in_locked s) naps_in eid in
        if locked then repair_list unlock_in et_repair_inputlist eid1 s
        else
          let (locked, eid2) = et_mutex_locked (out_locked s) naps_out eid1 in
          if locked then repair_list unlock_out et_repair_outputlist eid2 s else Some (ET_OK, eid2))"

definition et_repair_gc :: "(et_id \<Rightarrow> et_id) list \<Rightarrow> et_id \<Rightarrow> (int \<times> et_id) option" where
  "et_repair_gc naps eid =
     (if \<not> 0 < length (id_stats eid) then None
      else
        let (locked, eid1) = et_mutex_locked (in_locked 0) naps eid in
        if locked then
          repair_list unlock_in
            (if fi_call (fix_in (st_fix (id_stats eid1 ! 0))) = ET_FIX_DUMP then et_repair_gcinputlist else et_repair_inputlist)
            eid1 0
        else Some (ET_OK, eid1))"

section \<open>The critical sections, assignment by assignment\<close>

text \<open>Assignments to a list and the events in it, and those to the events and a station.\<close>

type_synonym lmem = "evheap \<times> et_list"
type_synonym smem = "evheap \<times> et_station"

definition exec :: "('m \<Rightarrow> 'm) list \<Rightarrow> 'm \<Rightarrow> 'm" where
  "exec code m = fold (\<lambda>f. f) code m"

definition on_ev :: "(evheap \<Rightarrow> evheap) \<Rightarrow> evheap \<times> 'a \<Rightarrow> evheap \<times> 'a" where
  "on_ev f m = (f (fst m), snd m)"

definition on_pl :: "('a \<Rightarrow> 'a) \<Rightarrow> evheap \<times> 'a \<Rightarrow> evheap \<times> 'a" where
  "on_pl f m = (fst m, f (snd m))"

definition in_out :: "(lmem \<Rightarrow> lmem) \<Rightarrow> smem \<Rightarrow> smem" where
  "in_out f m = (let (ev, pl) = f (fst m, st_list_out (snd m)) in (ev, (snd m)\<lparr>st_list_out := pl\<rparr>))"

definition in_in :: "(lmem \<Rightarrow> lmem) \<Rightarrow> smem \<Rightarrow> smem" where
  "in_in f m = (let (ev, pl) = f (fst m, st_list_in (snd m)) in (ev, (snd m)\<lparr>st_list_in := pl\<rparr>))"

definition on_fixin :: "(et_fixin \<Rightarrow> et_fixin) \<Rightarrow> smem \<Rightarrow> smem" where
  "on_fixin f = on_pl (\<lambda>ps. ps\<lparr>st_fix := (st_fix ps)\<lparr>fix_in := f (fix_in (st_fix ps))\<rparr>\<rparr>)"

definition on_fixout :: "(et_fixout \<Rightarrow> et_fixout) \<Rightarrow> smem \<Rightarrow> smem" where
  "on_fixout f = on_pl (\<lambda>ps. ps\<lparr>st_fix := (st_fix ps)\<lparr>fix_out := f (fix_out (st_fix ps))\<rparr>\<rparr>)"

abbreviation (input) "set_mutex b \<equiv> on_pl (\<lambda>pl. pl\<lparr>l_mutex := b\<rparr>)"
abbreviation (input) "set_first p \<equiv> on_pl (\<lambda>pl. pl\<lparr>l_firstevent := p\<rparr>)"
abbreviation (input) "set_last p \<equiv> on_pl (\<lambda>pl. pl\<lparr>l_lastevent := p\<rparr>)"
abbreviation (input) "add_cnt c \<equiv> on_pl (\<lambda>pl. pl\<lparr>l_cnt := l_cnt pl + c\<rparr>)"
abbreviation (input) "add_lasthigh \<equiv> on_pl (\<lambda>pl. pl\<lparr>l_lasthigh := l_lasthigh pl + 1\<rparr>)"

text \<open>The events \<open>es\<close> put into an output list (\<open>et_station_nwrite\<close>); \<open>ev0\<close> has their priorities.\<close>

definition high_code :: "evptr \<Rightarrow> nat \<Rightarrow> nat \<Rightarrow> (lmem \<Rightarrow> lmem) list" where
  "high_code pe_lasthigh pe_last e =
     (case pe_lasthigh of
        None \<Rightarrow> [\<lambda>m. (set_next (fst m) e (l_firstevent (snd m)), snd m), set_first (Some e)]
      | Some h \<Rightarrow>
          if h = pe_last then [on_ev (\<lambda>ev. set_next ev h (Some e)), set_last (Some e)]
          else [on_ev (\<lambda>ev. set_next ev e (ev_next (ev h))), on_ev (\<lambda>ev. set_next ev h (Some e))])"

fun link_code :: "evheap \<Rightarrow> evptr \<Rightarrow> nat \<Rightarrow> nat list \<Rightarrow> (lmem \<Rightarrow> lmem) list" where
  "link_code ev0 pe_lasthigh pe_last [] = []"
| "link_code ev0 pe_lasthigh pe_last (e # es) =
     (if ev_priority (ev0 e) = ET_LOW then
        [on_ev (\<lambda>ev. set_next ev pe_last (Some e)), set_last (Some e), on_ev (\<lambda>ev. set_owner ev e ET_SYS), add_cnt 1]
        @ link_code ev0 pe_lasthigh e es
      else high_code pe_lasthigh pe_last e @ [add_lasthigh, on_ev (\<lambda>ev. set_owner ev e ET_SYS), add_cnt 1]
        @ link_code ev0 (Some e) (if pe_lasthigh = Some pe_last then e else pe_last) es)"

definition first_code :: "evheap \<Rightarrow> nat \<Rightarrow> (lmem \<Rightarrow> lmem) list" where
  "first_code ev0 e = [set_first (Some e), set_last (Some e), on_ev (\<lambda>ev. set_owner ev e ET_SYS)]
     @ (if ev_priority (ev0 e) = ET_HIGH then [on_pl (\<lambda>pl. pl\<lparr>l_lasthigh := 1\<rparr>)] else []) @ [add_cnt 1]"

definition put_code :: "evheap \<Rightarrow> et_list \<Rightarrow> nat list \<Rightarrow> (lmem \<Rightarrow> lmem) list option" where
  "put_code ev pl es =
     (if l_cnt pl = 0 then
        (case es of [] \<Rightarrow> None
         | e # rest \<Rightarrow> Some (first_code ev e @ link_code ev (if ev_priority (ev e) = ET_HIGH then Some e else None) e rest))
      else case find_lasthigh ev pl of None \<Rightarrow> None
           | Some lh \<Rightarrow> (case l_lastevent pl of None \<Rightarrow> None | Some l \<Rightarrow> Some (link_code ev lh l es)))"

definition empty_first :: "et_list \<Rightarrow> (lmem \<Rightarrow> lmem) list" where
  "empty_first pl = (if l_cnt pl = 0 then [set_first None] else [])"

text \<open>The critical section around the assignments \<open>put\<close> that put \<open>num\<close> events into an output list.\<close>

definition out_section :: "et_list \<Rightarrow> int \<Rightarrow> (lmem \<Rightarrow> lmem) list \<Rightarrow> (smem \<Rightarrow> smem) list" where
  "out_section pl num put =
     map in_out (set_mutex True # empty_first pl)
     @ [on_fixout (\<lambda>f. f\<lparr>fo_cnt := l_cnt pl\<rparr>), on_fixout (\<lambda>f. f\<lparr>fo_num := num\<rparr>), on_fixout (\<lambda>f. f\<lparr>fo_start := fo_start f + 1\<rparr>)]
     @ map in_out put
     @ [on_fixout (\<lambda>f. f\<lparr>fo_start := fo_start f - 1\<rparr>), in_out (set_mutex False)]"

definition nwrite_code :: "evheap \<Rightarrow> et_station \<Rightarrow> nat list \<Rightarrow> (smem \<Rightarrow> smem) list option" where
  "nwrite_code ev ps es =
     (case put_code ev (st_list_out ps) es of
        None \<Rightarrow> None
      | Some put \<Rightarrow> Some (out_section (st_list_out ps) (int (length es)) put))"

text \<open>One event put into an output list (\<open>et_station_write\<close>, which sets the owner later when the list is empty).\<close>

definition put_one_code :: "evheap \<Rightarrow> et_list \<Rightarrow> nat \<Rightarrow> (lmem \<Rightarrow> lmem) list option" where
  "put_one_code ev pl e =
     (if l_cnt pl = 0 then
        Some ([set_first (Some e), set_last (Some e)]
          @ (if ev_priority (ev e) = ET_HIGH then [on_pl (\<lambda>pl. pl\<lparr>l_lasthigh := 1\<rparr>)] else [])
          @ [on_ev (\<lambda>ev. set_owner ev e ET_SYS), add_cnt 1])
      else put_code ev pl [e])"

definition write_code :: "evheap \<Rightarrow> et_station \<Rightarrow> nat \<Rightarrow> (smem \<Rightarrow> smem) list option" where
  "write_code ev ps e =
     (case put_one_code ev (st_list_out ps) e of
        None \<Rightarrow> None
      | Some put \<Rightarrow> Some (out_section (st_list_out ps) 1 put))"

text \<open>The events \<open>es\<close> appended to GrandCentral's input list (\<open>et_station_ndump\<close>).\<close>

fun append_code :: "nat \<Rightarrow> nat list \<Rightarrow> (lmem \<Rightarrow> lmem) list" where
  "append_code pe_last [] = []"
| "append_code pe_last (e # es) =
     [on_ev (\<lambda>ev. set_next ev pe_last (Some e)), set_last (Some e), on_ev (\<lambda>ev. set_owner ev e ET_SYS), add_cnt 1]
     @ append_code e es"

definition tail_code :: "et_list \<Rightarrow> nat list \<Rightarrow> (lmem \<Rightarrow> lmem) list option" where
  "tail_code pl es =
     (if l_cnt pl = 0 then
        (case es of [] \<Rightarrow> None
         | e # rest \<Rightarrow> Some ([set_first (Some e), set_last (Some e), on_ev (\<lambda>ev. set_owner ev e ET_SYS), add_cnt 1]
             @ append_code e rest))
      else case l_lastevent pl of None \<Rightarrow> None | Some l \<Rightarrow> Some (append_code l es))"

definition in_section :: "et_list \<Rightarrow> int \<Rightarrow> (lmem \<Rightarrow> lmem) list \<Rightarrow> (smem \<Rightarrow> smem) list" where
  "in_section pl num put =
     map in_in (set_mutex True # empty_first pl)
     @ [on_fixin (\<lambda>f. f\<lparr>fi_eventsin := l_events_in pl\<rparr>), on_fixin (\<lambda>f. f\<lparr>fi_cnt := l_cnt pl\<rparr>),
        on_fixin (\<lambda>f. f\<lparr>fi_num := num\<rparr>), on_fixin (\<lambda>f. f\<lparr>fi_call := ET_FIX_DUMP\<rparr>),
        on_fixin (\<lambda>f. f\<lparr>fi_start := fi_start f + 1\<rparr>)]
     @ map in_in put
     @ [on_fixin (\<lambda>f. f\<lparr>fi_start := fi_start f - 1\<rparr>), in_in (set_mutex False)]"

definition ndump_code :: "et_station \<Rightarrow> nat list \<Rightarrow> (smem \<Rightarrow> smem) list option" where
  "ndump_code ps es =
     (case tail_code (st_list_in ps) es of
        None \<Rightarrow> None
      | Some put \<Rightarrow> Some (in_section (st_list_in ps) (int (length es)) put))"

text \<open>One event (\<open>et_station_dump\<close>); this routine keeps the statistics.\<close>

definition dump_code :: "et_station \<Rightarrow> nat \<Rightarrow> (smem \<Rightarrow> smem) list option" where
  "dump_code ps e =
     (case tail_code (st_list_in ps) [e] of
        None \<Rightarrow> None
      | Some put \<Rightarrow> Some (in_section (st_list_in ps) 1 (put @ [on_pl (\<lambda>pl. pl\<lparr>l_events_in := l_events_in pl + 1\<rparr>)])))"

text \<open>The events \<open>pe\<close>, the first \<open>num\<close> of an input list, taken out of it (\<open>et_station_nread\<close>).\<close>

definition nread_code :: "evheap \<Rightarrow> et_station \<Rightarrow> int \<Rightarrow> int \<Rightarrow> nat list \<Rightarrow> (smem \<Rightarrow> smem) list" where
  "nread_code ev ps att num pe =
     [in_in (set_mutex True), on_fixin (\<lambda>f. f\<lparr>fi_num := num\<rparr>), on_fixin (\<lambda>f. f\<lparr>fi_cnt := l_cnt (st_list_in ps)\<rparr>),
      on_fixin (\<lambda>f. f\<lparr>fi_call := ET_FIX_READ\<rparr>), on_fixin (\<lambda>f. f\<lparr>fi_first := l_firstevent (st_list_in ps)\<rparr>)]
     @ map (\<lambda>e. on_ev (\<lambda>ev. set_owner ev e att)) pe
     @ [in_in (set_first (ev_next (ev (last pe)))), in_in (add_cnt (- num)),
        on_fixin (\<lambda>f. f\<lparr>fi_first := None\<rparr>), in_in (set_mutex False)]"

text \<open>The first event of an input list taken out of it (\<open>et_station_read\<close>).\<close>

definition read_code :: "evheap \<Rightarrow> et_station \<Rightarrow> int \<Rightarrow> nat \<Rightarrow> (smem \<Rightarrow> smem) list" where
  "read_code ev ps att e =
     [in_in (set_mutex True), on_fixin (\<lambda>f. f\<lparr>fi_cnt := l_cnt (st_list_in ps)\<rparr>), on_fixin (\<lambda>f. f\<lparr>fi_num := 1\<rparr>),
      on_fixin (\<lambda>f. f\<lparr>fi_call := ET_FIX_READ\<rparr>), on_fixin (\<lambda>f. f\<lparr>fi_first := l_firstevent (st_list_in ps)\<rparr>),
      in_in (set_first (ev_next (ev e))), on_ev (\<lambda>ev. set_owner ev e att), in_in (add_cnt (- 1)),
      on_fixin (\<lambda>f. f\<lparr>fi_first := None\<rparr>), in_in (set_mutex False)]"

text \<open>
  The events \<open>pe\<close> of a group taken out of an input list (\<open>et_station_nread_group\<close>): the loop, started
  with \<open>k\<close> events taken; \<open>ev\<close> is the memory it finds.
\<close>

fun group_code ::
  "evheap \<Rightarrow> evptr \<Rightarrow> evptr \<Rightarrow> nat \<Rightarrow> int \<Rightarrow> int \<Rightarrow> int \<Rightarrow> int \<Rightarrow> (lmem \<Rightarrow> lmem) list" where
  "group_code ev prev pev 0 num grp att k = []"
| "group_code ev prev None (Suc n) num grp att k = []"
| "group_code ev prev (Some i) (Suc n) num grp att k =
     (if ev_group (ev i) \<noteq> grp then group_code ev (Some i) (ev_next (ev i)) n num grp att k
      else
        let ev1 = set_owner ev i att;
            ev2 = (case prev of None \<Rightarrow> ev1 | Some p \<Rightarrow> set_next ev1 p (ev_next (ev1 i)))
        in [on_ev (\<lambda>ev. set_owner ev i att),
            (\<lambda>m. case prev of None \<Rightarrow> (fst m, (snd m)\<lparr>l_firstevent := ev_next (fst m i)\<rparr>)
                 | Some p \<Rightarrow> (set_next (fst m) p (ev_next (fst m i)), snd m)),
            on_pl (\<lambda>pl. if l_lastevent pl = Some i then pl\<lparr>l_lastevent := prev\<rparr> else pl)]
           @ (if k + 1 \<ge> num then [] else group_code ev2 prev (ev_next (ev2 i)) n num grp att (k + 1)))"

definition nread_group_code :: "evheap \<Rightarrow> et_station \<Rightarrow> int \<Rightarrow> int \<Rightarrow> int \<Rightarrow> nat list \<Rightarrow> (smem \<Rightarrow> smem) list" where
  "nread_group_code ev ps att num grp pe =
     [in_in (set_mutex True), on_fixin (\<lambda>f. f\<lparr>fi_num := num\<rparr>), on_fixin (\<lambda>f. f\<lparr>fi_cnt := l_cnt (st_list_in ps)\<rparr>),
      on_fixin (\<lambda>f. f\<lparr>fi_call := ET_FIX_READ\<rparr>), on_fixin (\<lambda>f. f\<lparr>fi_first := l_firstevent (st_list_in ps)\<rparr>)]
     @ map in_in (group_code ev None (l_firstevent (st_list_in ps)) (nat (l_cnt (st_list_in ps))) num grp att 0)
     @ [in_in (add_cnt (- int (length pe))), on_fixin (\<lambda>f. f\<lparr>fi_first := None\<rparr>), in_in (set_mutex False)]"

end
