(* ===== verification/ET_CrashIO.thy ===== *)
theory ET_CrashIO
  imports ET_Repair
begin

text \<open>
  A process may die after any assignment of a critical section. The lists of assignments of theory
  \<open>ET_Repair\<close> are the operations (\<open>exec_nwrite_code\<close> and so on), and from the state after any number
  of them the repair routines make a well-formed list that holds the old events and a first part
  of the new ones, or, after reading, either all old events or what is left when all wanted events
  are taken.
\<close>

section \<open>Execution of assignments\<close>

lemma exec_simps [simp]:
  "exec [] m = m" "exec (f # c) m = exec c (f m)" "exec (a @ b) m = exec b (exec a m)"
  by (simp_all add: exec_def)

lemma on_simps [simp]: "on_ev f (ev, x) = (f ev, x)" "on_pl g (ev, x) = (ev, g x)"
  by (simp_all add: on_ev_def on_pl_def)

text \<open>What holds before, between and after the assignments.\<close>

fun always :: "('m \<Rightarrow> bool) \<Rightarrow> ('m \<Rightarrow> 'm) list \<Rightarrow> 'm \<Rightarrow> bool" where
  "always P [] m = P m"
| "always P (f # c) m = (P m \<and> always P c (f m))"

lemma always_append: "always P (a @ b) m \<longleftrightarrow> always P a m \<and> always P b (exec a m)"
proof (induction a arbitrary: m)
  case Nil
  then show ?case by (cases b) auto
qed auto

lemma always_take: "always P c m \<Longrightarrow> P (exec (take k c) m)"
proof (induction c arbitrary: k m)
  case (Cons f c)
  then show ?case by (cases k) auto
qed simp

lemma always_mono: "always P c m \<Longrightarrow> (\<And>m. P m \<Longrightarrow> Q m) \<Longrightarrow> always Q c m"
  by (induction c arbitrary: m) auto

lemma exec_in_out: "exec (map in_out c) (ev, ps) =
   (fst (exec c (ev, st_list_out ps)), ps\<lparr>st_list_out := snd (exec c (ev, st_list_out ps))\<rparr>)"
proof (induction c arbitrary: ev ps)
  case (Cons f c)
  then show ?case by (cases "f (ev, st_list_out ps)") (simp add: in_out_def)
qed simp

lemma exec_in_in: "exec (map in_in c) (ev, ps) =
   (fst (exec c (ev, st_list_in ps)), ps\<lparr>st_list_in := snd (exec c (ev, st_list_in ps))\<rparr>)"
proof (induction c arbitrary: ev ps)
  case (Cons f c)
  then show ?case by (cases "f (ev, st_list_in ps)") (simp add: in_in_def)
qed simp

lemma always_in_out: "always P c (ev, st_list_out ps) \<Longrightarrow>
   always (\<lambda>m. P (fst m, st_list_out (snd m)) \<and> snd m = ps\<lparr>st_list_out := st_list_out (snd m)\<rparr>) (map in_out c) (ev, ps)"
proof (induction c arbitrary: ev ps)
  case (Cons f c)
  obtain ev1 pl1 where f: "f (ev, st_list_out ps) = (ev1, pl1)" by fastforce
  with Cons have "always (\<lambda>m. P (fst m, st_list_out (snd m)) \<and> snd m = ps\<lparr>st_list_out := st_list_out (snd m)\<rparr>)
      (map in_out c) (ev1, ps\<lparr>st_list_out := pl1\<rparr>)"
    using Cons.IH [of ev1 "ps\<lparr>st_list_out := pl1\<rparr>"] by simp
  moreover have "in_out f (ev, ps) = (ev1, ps\<lparr>st_list_out := pl1\<rparr>)" using f by (simp add: in_out_def)
  ultimately show ?case using Cons.prems f by simp
qed simp

lemma always_in_in: "always P c (ev, st_list_in ps) \<Longrightarrow>
   always (\<lambda>m. P (fst m, st_list_in (snd m)) \<and> snd m = ps\<lparr>st_list_in := st_list_in (snd m)\<rparr>) (map in_in c) (ev, ps)"
proof (induction c arbitrary: ev ps)
  case (Cons f c)
  obtain ev1 pl1 where f: "f (ev, st_list_in ps) = (ev1, pl1)" by fastforce
  with Cons have "always (\<lambda>m. P (fst m, st_list_in (snd m)) \<and> snd m = ps\<lparr>st_list_in := st_list_in (snd m)\<rparr>)
      (map in_in c) (ev1, ps\<lparr>st_list_in := pl1\<rparr>)"
    using Cons.IH [of ev1 "ps\<lparr>st_list_in := pl1\<rparr>"] by simp
  moreover have "in_in f (ev, ps) = (ev1, ps\<lparr>st_list_in := pl1\<rparr>)" using f by (simp add: in_in_def)
  ultimately show ?case using Cons.prems f by simp
qed simp

section \<open>All assignments are the operation\<close>

lemma exec_high_code: "exec (high_code lh l e @ [add_lasthigh]) (ev, pl) = link_high ev pl lh (Some l) e"
  by (cases lh) (auto simp: high_code_def link_high_def)

lemma exec_link_code:
  "\<forall>e. ev_priority (ev0 e) = ev_priority (ev e) \<Longrightarrow> exec (link_code ev0 lh l es) (ev, pl) = nwrite_loop ev pl lh l es"
proof (induction ev0 lh l es arbitrary: ev pl rule: link_code.induct)
  case (2 ev0 lh l e es)
  obtain ev1 pl1 where lk: "link_high ev pl lh (Some l) e = (ev1, pl1)" by fastforce
  have "next_only UNIV ev ev1"
    using lk by (auto simp: link_high_def split: option.splits if_splits intro: next_only_set_next_trans next_only_set_next)
  then have "\<forall>i. ev_priority (ev0 i) = ev_priority (set_owner ev1 e ET_SYS i)"
    "\<forall>i. ev_priority (ev0 i) = ev_priority (set_owner (set_next ev l (Some e)) e ET_SYS i)"
    using 2(3) by (simp_all add: next_onlyD(2))
  with 2 lk exec_high_code [of lh l e ev pl] show ?case
    by (simp add: link_low_def)
qed simp
section \<open>Lists in the middle of a write\<close>

text \<open>
  \<open>torn\<close>: the events \<open>ys\<close> are linked and the first of them is in the head of the list, whose other
  fields may not be up to date; besides links and owners of the events in \<open>D\<close> nothing differs from
  \<open>ev\<close> and \<open>pl\<close>. \<open>partly\<close>: this is so for the old events and a first part of the new ones, and when the
  count tells that all are there, everything is up to date.
\<close>

definition torn :: "evheap \<Rightarrow> et_list \<Rightarrow> nat set \<Rightarrow> nat set \<Rightarrow> nat list \<Rightarrow> lmem \<Rightarrow> bool" where
  "torn ev pl S D ys m \<longleftrightarrow> linked (fst m) ys \<and> link_only S ev (fst m) \<and>
     (\<forall>i. i \<notin> D \<longrightarrow> ev_owner (fst m i) = ev_owner (ev i)) \<and>
     (snd m)\<lparr>l_cnt := l_cnt pl, l_lasthigh := l_lasthigh pl, l_firstevent := l_firstevent pl, l_lastevent := l_lastevent pl\<rparr> = pl \<and>
     (if ys = [] then l_cnt (snd m) = 0 \<and> l_firstevent (snd m) = None \<and> l_lasthigh (snd m) = l_lasthigh pl
      else l_firstevent (snd m) = Some (hd ys) \<and>
        (l_cnt (snd m) = 0 \<and> length ys = Suc 0 \<or> 0 < l_cnt (snd m) \<and> l_lastevent (snd m) = Some (last ys)))"

definition partly ::
  "(nat list \<Rightarrow> nat list \<Rightarrow> nat list) \<Rightarrow> (nat list \<Rightarrow> int) \<Rightarrow> evheap \<Rightarrow> et_list \<Rightarrow> nat list \<Rightarrow> nat list \<Rightarrow> int \<Rightarrow> lmem \<Rightarrow> bool" where
  "partly join hi ev pl xs es tot m \<longleftrightarrow> (\<exists>j \<le> length es.
     torn ev pl (set xs \<union> set es) (set (take j es)) (join xs (take j es)) m \<and>
     (l_cnt (snd m) = tot \<longrightarrow> j = length es \<and> l_lasthigh (snd m) = hi (join xs es) \<and> (\<forall>i \<in> set es. ev_owner (fst m i) = ET_SYS)))"

lemma partly_none:
  assumes "torn ev pl (set xs \<union> set es) {} (join xs []) m" "l_cnt (snd m) \<noteq> tot"
  shows "partly join hi ev pl xs es tot m"
  using assms by (auto simp: partly_def intro: exI [of _ 0])

lemma partly_one:
  assumes "torn ev pl (set xs \<union> set (e # es)) {e} (join xs [e]) m" "l_cnt (snd m) \<noteq> tot"
  shows "partly join hi ev pl xs (e # es) tot m"
  using assms by (auto simp: partly_def intro!: exI [of _ 1])

lemma partly_Cons:
  assumes "partly join hi ev1 pl1 xs1 es tot m"
    and join: "\<And>fs. join xs1 fs = join xs (e # fs)" and xs1: "set xs1 \<subseteq> insert e (set xs)"
    and ev1: "link_only (insert e (set xs)) ev ev1" "\<And>i. i \<noteq> e \<Longrightarrow> ev_owner (ev1 i) = ev_owner (ev i)"
      "ev_owner (ev1 e) = ET_SYS"
    and new: "e \<notin> set es" "\<And>fs. join xs1 fs \<noteq> []"
    and pl1: "pl1\<lparr>l_cnt := l_cnt pl, l_lasthigh := l_lasthigh pl, l_firstevent := l_firstevent pl, l_lastevent := l_lastevent pl\<rparr> = pl"
  shows "partly join hi ev pl xs (e # es) tot m"
proof -
  from assms(1) obtain j where j: "j \<le> length es" "torn ev1 pl1 (set xs1 \<union> set es) (set (take j es)) (join xs1 (take j es)) m"
    "l_cnt (snd m) = tot \<Longrightarrow> j = length es \<and> l_lasthigh (snd m) = hi (join xs1 es) \<and> (\<forall>i \<in> set es. ev_owner (fst m i) = ET_SYS)"
    by (auto simp: partly_def)
  have "link_only (set xs \<union> set (e # es)) ev (fst m)"
    by (rule link_only_trans [OF link_only_mono [OF ev1(1)] link_only_mono [of "set xs1 \<union> set es"]])
      (use xs1 j(2) in \<open>auto simp: torn_def\<close>)
  moreover have "(snd m)\<lparr>l_cnt := l_cnt pl, l_lasthigh := l_lasthigh pl, l_firstevent := l_firstevent pl, l_lastevent := l_lastevent pl\<rparr> = pl"
  proof -
    have "(snd m)\<lparr>l_cnt := l_cnt pl1, l_lasthigh := l_lasthigh pl1, l_firstevent := l_firstevent pl1, l_lastevent := l_lastevent pl1\<rparr> = pl1"
      using j(2) by (simp add: torn_def)
    from arg_cong [OF this, of "\<lambda>p. p\<lparr>l_cnt := l_cnt pl, l_lasthigh := l_lasthigh pl, l_firstevent := l_firstevent pl, l_lastevent := l_lastevent pl\<rparr>"]
    show ?thesis using pl1 by simp
  qed
  moreover have "ev_owner (fst m i) = ev_owner (ev i)" if "i \<notin> set (take (Suc j) (e # es))" for i
    using that j(2) ev1(2) by (auto simp: torn_def)
  ultimately have "torn ev pl (set xs \<union> set (e # es)) (set (take (Suc j) (e # es))) (join xs (take (Suc j) (e # es))) m"
    using j(2) new(2) by (simp add: torn_def join split: if_splits)
  moreover have "ev_owner (fst m e) = ET_SYS"
    using j(2) ev1(3) new(1) set_take_subset [of j es] by (auto simp: torn_def)
  ultimately show ?thesis
    using j(1,3) unfolding partly_def by (intro exI [of _ "Suc j"]) (simp add: join)
qed

abbreviation pri_hi :: "evheap \<Rightarrow> nat list \<Rightarrow> int" where
  "pri_hi ev ys \<equiv> int (length (filter (is_high ev) ys))"

lemma tornI:
  assumes "linked ev' ys" "ys \<noteq> []" "link_only S ev ev'" "\<And>i. i \<notin> D \<Longrightarrow> ev_owner (ev' i) = ev_owner (ev i)" "0 < c"
  shows "torn ev pl S D ys (ev', pl\<lparr>l_cnt := c, l_lasthigh := h, l_firstevent := Some (hd ys), l_lastevent := Some (last ys)\<rparr>)"
  using assms by (simp add: torn_def)

lemma put_list_upd: "put_list ev pl xs = pl\<lparr>l_cnt := int (length xs), l_lasthigh := pri_hi ev xs,
   l_firstevent := Some (hd xs), l_lastevent := Some (last xs)\<rparr>"
  by (simp add: put_list_def)

lemma torn_lasthigh: "torn ev pl S D ys (ev', pl') \<Longrightarrow> ys \<noteq> [] \<Longrightarrow> torn ev pl S D ys (ev', pl'\<lparr>l_lasthigh := h\<rparr>)"
  by (simp add: torn_def split: if_splits)

text \<open>One event linked into a list with events: it is not there before the second assignment.\<close>

lemma torn_two:
  assumes xs: "linked ev xs" "xs \<noteq> []" and ev1: "next_only (insert e (set xs)) ev ev1" "linked ev1 xs"
    and ev2: "next_only (insert e (set xs)) ev ev2" "linked ev2 ys" "ys \<noteq> []" and c: "c = int (length xs)" "c \<noteq> tot"
    and pl1: "pl1 = pl\<lparr>l_cnt := c, l_lasthigh := h, l_firstevent := Some (hd xs), l_lastevent := Some (last xs)\<rparr>"
    and pl2: "pl2 = pl\<lparr>l_cnt := c, l_lasthigh := h, l_firstevent := Some (hd ys), l_lastevent := Some (last ys)\<rparr>"
    and join: "join xs [] = xs" "join xs [e] = ys"
  shows "partly join hi ev pl xs (e # es) tot (ev, pl1) \<and> partly join hi ev pl xs (e # es) tot (ev1, pl1) \<and>
     partly join hi ev pl xs (e # es) tot (ev2, pl2) \<and> partly join hi ev pl xs (e # es) tot (ev2, pl2\<lparr>l_lasthigh := h'\<rparr>) \<and>
     partly join hi ev pl xs (e # es) tot (set_owner ev2 e ET_SYS, pl2) \<and>
     partly join hi ev pl xs (e # es) tot (set_owner ev2 e ET_SYS, pl2\<lparr>l_lasthigh := h'\<rparr>)"
proof -
  have c0: "0 < c" using c(1) xs(2) by simp
  have lo: "link_only (set xs \<union> set (e # es)) ev ev1" "link_only (set xs \<union> set (e # es)) ev ev2"
    "link_only (set xs \<union> set (e # es)) ev (set_owner ev2 e ET_SYS)"
    by (rule link_only_mono [OF link_only_next_only [OF ev1(1)]], simp add: insert_commute subset_insertI2,
      rule link_only_mono [OF link_only_next_only [OF ev2(1)]], simp add: subset_insertI2,
      rule link_only_set_owner [OF link_only_mono [OF link_only_next_only [OF ev2(1)]]], simp_all add: subset_insertI2)
  have ow: "ev_owner (ev1 i) = ev_owner (ev i)" "ev_owner (ev2 i) = ev_owner (ev i)" for i
    using next_onlyD(3) [OF ev1(1)] next_onlyD(3) [OF ev2(1)] by auto
  have t: "torn ev pl (set xs \<union> set (e # es)) {} xs (ev, pl1)" "torn ev pl (set xs \<union> set (e # es)) {} xs (ev1, pl1)"
    unfolding pl1 by (rule tornI, use xs c0 lo ow ev1(2) in simp_all)+
  have u: "torn ev pl (set xs \<union> set (e # es)) {e} ys (ev2, pl2)"
    "torn ev pl (set xs \<union> set (e # es)) {e} ys (set_owner ev2 e ET_SYS, pl2)"
    unfolding pl2 by (rule tornI, use ev2(2,3) c0 lo ow in simp_all)+
  note v = torn_lasthigh [OF u(1) ev2(3), of h'] torn_lasthigh [OF u(2) ev2(3), of h']
  note none = partly_none [where join = join and xs = xs and es = "e # es", unfolded join]
    and one = partly_one [where join = join and xs = xs and e = e and es = es, unfolded join]
  show ?thesis using none [OF t(1)] none [OF t(2)] one [OF u(1)] one [OF u(2)] one [OF v(1)] one [OF v(2)] c(2)
    by (simp add: pl1 pl2)
qed

lemma always_link_event:
  assumes xs: "linked ev xs" "distinct xs" "xs \<noteq> []" "e \<notin> set xs" "hi_first ev xs" and tot: "int (length xs) < tot"
    and code: "code = (if \<not> is_high ev e
        then [on_ev (\<lambda>ev. set_next ev (last xs) (Some e)), set_last (Some e), on_ev (\<lambda>ev. set_owner ev e ET_SYS)]
        else high_code (lasthigh_ptr ev xs) (last xs) e @ [add_lasthigh, on_ev (\<lambda>ev. set_owner ev e ET_SYS)])"
  shows "always (partly (pri_append ev) (pri_hi ev) ev pl xs (e # es) tot) code (ev, put_list ev pl xs)"
proof -
  define H where "H = filter (is_high ev) xs"
  define L where "L = filter (\<lambda>x. \<not> is_high ev x) xs"
  have sp: "xs = H @ L" using xs(5) unfolding H_def L_def by (simp add: hi_first_iff)
  have c: "int (length xs) \<noteq> tot" using tot by simp
  have bl: "last xs \<notin> set (butlast xs)" using xs(2) by (rule distinct_last_butlast)
  have join: "pri_append ev xs [] = xs"
    unfolding pri_append_def by (simp flip: H_def L_def sp)
  have R0: "is_high ev e \<Longrightarrow> pri_append ev xs [e] = H @ e # L"
    and lhH: "lasthigh_ptr ev xs = (if H = [] then None else Some (last H))"
    by (simp_all add: pri_append_def lasthigh_ptr_def flip: H_def L_def)
  note two = torn_two [where ev = ev and xs = xs and e = e and tot = tot and c = "int (length xs)" and h = "pri_hi ev xs"
      and pl = pl and es = es and hi = "pri_hi ev" and join = "pri_append ev" and ?pl1.0 = "put_list ev pl xs"
      and h' = "pri_hi ev xs + 1", OF xs(1,3) _ _ _ _ _ refl c put_list_upd _ join]
  have lastl: "linked (set_next ev (last xs) (Some e)) xs" "linked (set_next ev (last xs) (Some e)) (xs @ [e])"
    "next_only (insert e (set xs)) ev (set_next ev (last xs) (Some e))"
    using xs bl by (simp_all add: linked_append linked_set_next next_only_set_next)
  have put_last: "put_list ev pl xs\<lparr>l_lastevent := Some e\<rparr> = pl\<lparr>l_cnt := int (length xs), l_lasthigh := pri_hi ev xs,
      l_firstevent := Some (hd (xs @ [e])), l_lastevent := Some (last (xs @ [e]))\<rparr>"
    and put_first: "put_list ev pl xs\<lparr>l_firstevent := Some e\<rparr> = pl\<lparr>l_cnt := int (length xs), l_lasthigh := pri_hi ev xs,
      l_firstevent := Some (hd (e # xs)), l_lastevent := Some (last (e # xs))\<rparr>"
    using xs(3) by (simp_all add: put_list_def)
  consider "\<not> is_high ev e" | "is_high ev e" "H = []" | "is_high ev e" "H \<noteq> []" "L = []" | "is_high ev e" "H \<noteq> []" "L \<noteq> []" by blast
  then show ?thesis
  proof cases
    case 1
    then have R: "pri_append ev xs [e] = xs @ [e]" using xs(5) by (intro pri_append_low) (auto simp: hi_first_sorted)
    from two [OF lastl(3,1,3,2) _ put_last R]
    show ?thesis using 1 by (simp add: code)
  next
    case 2
    then have R: "pri_append ev xs [e] = e # xs" using sp R0 by simp
    have lh0: "lasthigh_ptr ev xs = None" using 2 lhH by simp
    let ?ev1 = "set_next ev e (Some (hd xs))"
    have "linked ?ev1 xs" "linked ?ev1 (e # xs)" "next_only (insert e (set xs)) ev ?ev1"
      using xs in_set_butlastD [of e xs] by (auto simp: linked_Cons linked_set_next next_only_set_next)
    from two [OF this(3,1,3,2) _ put_first R]
    show ?thesis using 2 lh0 by (simp add: code high_code_def)
  next
    case 3
    then have R: "pri_append ev xs [e] = xs @ [e]" using sp R0 by simp
    have lh: "lasthigh_ptr ev xs = Some (last xs)" using 3 lhH sp by simp
    from two [OF lastl(3,1,3,2) _ put_last R]
    show ?thesis using 3 lh by (simp add: code high_code_def)
  next
    case 4
    then have R: "pri_append ev xs [e] = H @ e # L" using R0 by simp
    have lh: "lasthigh_ptr ev xs = Some (last H)" using 4 lhH by simp
    have ne: "last H \<noteq> last xs" using 4 xs(2) sp by (metis disjoint_iff distinct_append last_appendR last_in_set)
    let ?ev1 = "set_next ev e (ev_next (ev (last H)))"
    let ?ev2 = "set_next ?ev1 (last H) (Some e)"
    have "linked ?ev1 xs" using xs in_set_butlastD [of e xs] by (subst linked_set_next) auto
    moreover have "linked ?ev2 (H @ e # L)" by (rule linked_mid) (use xs sp 4 in auto)
    moreover have "next_only (insert e (set xs)) ev ?ev1" "next_only (insert e (set xs)) ev ?ev2"
      using sp 4 by (auto intro!: next_only_set_next_trans next_only_set_next)
    moreover have "put_list ev pl xs = pl\<lparr>l_cnt := int (length xs), l_lasthigh := pri_hi ev xs,
        l_firstevent := Some (hd (H @ e # L)), l_lastevent := Some (last (H @ e # L))\<rparr>"
      using sp 4 by (simp add: put_list_def)
    note two [OF _ _ _ _ _ this R, of ?ev1 ?ev2]
    ultimately show ?thesis using ne lh 4 by (simp add: code high_code_def)
  qed
qed

lemma pri_append_Nil: "hi_first ev xs \<Longrightarrow> pri_append ev xs [] = xs"
  by (simp add: pri_append_def) (metis hi_first_iff)

lemma partly_put_list:
  assumes "linked ev xs" "xs \<noteq> []" "hi_first ev xs" "int (length xs) \<noteq> tot"
  shows "partly (pri_append ev) (pri_hi ev) ev pl xs es tot (ev, put_list ev pl xs)"
proof -
  have "pri_append ev xs [] = xs" by (rule pri_append_Nil [OF assms(3)])
  then show ?thesis using assms by (intro partly_none) (auto simp: torn_def put_list_def)
qed

lemma partly_done:
  assumes "linked ev xs" "xs \<noteq> []" "hi_first ev xs"
  shows "partly (pri_append ev) (pri_hi ev) ev pl xs [] tot (ev, put_list ev pl xs)"
proof -
  have "pri_append ev xs [] = xs" by (rule pri_append_Nil [OF assms(3)])
  then show ?thesis using assms by (auto simp: partly_def torn_def put_list_def)
qed

lemma always_snoc: "always P (a @ [f]) m \<longleftrightarrow> always P a m \<and> P (f (exec a m))"
  by (induction a arbitrary: m) auto

lemma always_link_code:
  assumes "linked ev xs" "distinct (xs @ es)" "xs \<noteq> []" "hi_first ev xs" "pri_ok ev es"
    "int (length xs + length es) \<le> tot" "\<forall>e. ev_priority (ev0 e) = ev_priority (ev e)"
  shows "always (partly (pri_append ev) (pri_hi ev) ev pl xs es tot)
     (link_code ev0 (lasthigh_ptr ev xs) (last xs) es) (ev, put_list ev pl xs)"
  using assms
proof (induction es arbitrary: ev xs)
  case Nil
  then show ?case by (simp add: partly_done)
next
  case (Cons e es)
  let ?P = "partly (pri_append ev) (pri_hi ev) ev pl xs (e # es) tot"
  let ?xs = "pri_append ev xs [e]"
  let ?lh = "lasthigh_ptr ev xs"
  have hi: "is_high ev e \<longleftrightarrow> ev_priority (ev0 e) \<noteq> ET_LOW" using Cons.prems(5,7) by (auto simp: pri_ok_def is_high_def)
  have e: "e \<notin> set xs" "distinct xs" "e \<notin> set es" using Cons.prems(2) by auto
  let ?lk = "if \<not> is_high ev e then link_low ev (put_list ev pl xs) (last xs) e
             else link_high ev (put_list ev pl xs) ?lh (Some (last xs)) e"
  obtain ev1 pl1 where lk: "?lk = (ev1, pl1)" by fastforce
  have step: "pl1\<lparr>l_cnt := l_cnt pl1 + 1\<rparr> = put_list ev pl ?xs" "linked ev1 ?xs"
    "next_only (insert e (set xs)) ev ev1"
    "last ?xs = (if \<not> is_high ev e \<or> ?lh = Some (last xs) then e else last xs)"
    "lasthigh_ptr ev ?xs = (if is_high ev e then Some e else ?lh)"
    using link_low_step [OF Cons.prems(1) e(2) Cons.prems(3) e(1) Cons.prems(4)]
      link_high_step [OF Cons.prems(1) e(2) Cons.prems(3) e(1) Cons.prems(4)] lk
    by (auto split: if_splits intro: next_only_mono)
  define ev2 where "ev2 = set_owner ev1 e ET_SYS"
  have same: "is_high ev2 = is_high ev" using next_only_is_high [OF step(3)] by (simp add: ev2_def)
  note eqs = pri_append_cong [OF same] put_list_cong [OF same] lasthigh_ptr_cong [OF same] hi_first_is_high_cong [OF same]
  define code where "code = (if \<not> is_high ev e
      then [on_ev (\<lambda>ev. set_next ev (last xs) (Some e)), set_last (Some e), on_ev (\<lambda>ev. set_owner ev e ET_SYS)]
      else high_code ?lh (last xs) e @ [add_lasthigh, on_ev (\<lambda>ev. set_owner ev e ET_SYS)])"
  have now: "always ?P code (ev, put_list ev pl xs)"
    using always_link_event [OF Cons.prems(1) e(2) Cons.prems(3) e(1) Cons.prems(4) _ code_def] Cons.prems(6) by simp
  have ex: "exec (code @ [add_cnt 1]) (ev, put_list ev pl xs) = (ev2, put_list ev pl ?xs)"
    using lk exec_high_code [of ?lh "last xs" e ev "put_list ev pl xs"] step(1)
    by (auto simp: code_def ev2_def link_low_def split: if_splits)
  have ne: "?xs \<noteq> []" by (metis length_pri_append add_is_0 length_0_conv list.distinct(1))
  have "always (partly (pri_append ev2) (pri_hi ev2) ev2 pl ?xs es tot) (link_code ev0 (lasthigh_ptr ev2 ?xs) (last ?xs) es)
      (ev2, put_list ev2 pl ?xs)"
  proof (rule Cons.IH)
    show "pri_ok ev2 es" using Cons.prems(5) next_onlyD(2) [OF step(3)] by (auto simp: pri_ok_def ev2_def)
    show "linked ev2 ?xs" using step(2) by (simp add: ev2_def)
    show "hi_first ev2 ?xs" by (simp add: eqs hi_first_pri_append)
    show "distinct (?xs @ es)" using Cons.prems(2) by (simp add: distinct_pri_append)
    show "int (length ?xs + length es) \<le> tot" using Cons.prems(6) by simp
    show "\<forall>e. ev_priority (ev0 e) = ev_priority (ev2 e)"
      using Cons.prems(7) next_onlyD(2) [OF step(3)] by (simp add: ev2_def)
  qed (rule ne)
  then have "always ?P (link_code ev0 (lasthigh_ptr ev2 ?xs) (last ?xs) es) (ev2, put_list ev2 pl ?xs)"
  proof (rule always_mono)
    fix m assume "partly (pri_append ev2) (pri_hi ev2) ev2 pl ?xs es tot m"
    then have "partly (pri_append ev) (pri_hi ev) ev2 pl ?xs es tot m" by (simp add: eqs same)
    then show "?P m"
    proof (rule partly_Cons)
      show "link_only (insert e (set xs)) ev ev2"
        unfolding ev2_def by (rule link_only_set_owner [OF link_only_next_only [OF step(3)]]) simp
      show "\<And>i. i \<noteq> e \<Longrightarrow> ev_owner (ev2 i) = ev_owner (ev i)" using next_onlyD(3) [OF step(3)] by (simp add: ev2_def)
      show "pri_append ev ?xs fs \<noteq> []" for fs by (metis length_pri_append add_is_0 length_0_conv list.distinct(1))
    qed (use e in \<open>auto simp: pri_append_singleton ev2_def\<close>)
  qed
  moreover have "link_code ev0 ?lh (last xs) (e # es) = (code @ [add_cnt 1]) @ link_code ev0 (lasthigh_ptr ev2 ?xs) (last ?xs) es"
    using hi step(4,5) by (simp add: code_def eqs)
  moreover have "always ?P (code @ [add_cnt 1]) (ev, put_list ev pl xs)"
  proof (subst always_snoc, intro conjI now)
    have "always ?P (link_code ev0 (lasthigh_ptr ev2 ?xs) (last ?xs) es) (ev2, put_list ev2 pl ?xs)" by fact
    from always_take [OF this, of 0] ex show "?P (add_cnt 1 (exec code (ev, put_list ev pl xs)))" by (simp add: eqs)
  qed
  ultimately show ?case using ex by (simp add: always_append eqs del: link_code.simps)
qed

lemma torn_first:
  assumes "l_cnt pl = 0" "l_firstevent pl = None"
  shows "torn ev pl S {e} [e] (ev, pl\<lparr>l_firstevent := Some e\<rparr>)"
    "torn ev pl S {e} [e] (ev, pl\<lparr>l_firstevent := Some e, l_lastevent := Some e\<rparr>)"
    "e \<in> S \<Longrightarrow> torn ev pl S {e} [e] (set_owner ev e ET_SYS, pl\<lparr>l_firstevent := Some e, l_lastevent := Some e\<rparr>)"
    "e \<in> S \<Longrightarrow> torn ev pl S {e} [e] (set_owner ev e ET_SYS, pl\<lparr>l_firstevent := Some e, l_lastevent := Some e, l_lasthigh := 1\<rparr>)"
  using assms by (auto simp: torn_def link_only_set_owner)

lemma always_first_code:
  assumes pl: "l_cnt pl = 0" "l_lasthigh pl = 0" "l_firstevent pl = None"
    and es: "distinct (e # es)" "pri_ok ev (e # es)" and tot: "int (Suc (length es)) \<le> tot"
  shows "always (partly (pri_append ev) (pri_hi ev) ev pl [] (e # es) tot)
     (first_code ev e @ link_code ev (if ev_priority (ev e) = ET_HIGH then Some e else None) e es) (ev, pl)"
proof -
  let ?P = "partly (pri_append ev) (pri_hi ev) ev pl [] (e # es) tot"
  define ev2 where "ev2 = set_owner ev e ET_SYS"
  have same: "is_high ev2 = is_high ev" by (simp add: ev2_def)
  note eqs = pri_append_cong [OF same] put_list_cong [OF same] lasthigh_ptr_cong [OF same] hi_first_is_high_cong [OF same]
  have lh: "(if ev_priority (ev e) = ET_HIGH then Some e else None) = lasthigh_ptr ev [e]"
    by (simp add: lasthigh_ptr_def is_high_def)
  have one: "pri_append ev [] [e] = [e]" by (simp add: pri_append_def)
  define code where "code = [set_first (Some e), set_last (Some e), on_ev (\<lambda>ev. set_owner ev e ET_SYS)]
     @ (if ev_priority (ev e) = ET_HIGH then [on_pl (\<lambda>pl :: et_list. pl\<lparr>l_lasthigh := 1\<rparr>)] else [])"
  have ex: "exec (code @ [add_cnt 1]) (ev, pl) = (ev2, put_list ev pl [e])"
    using pl by (simp add: code_def ev2_def put_list_def is_high_def)
  have tot0: "0 \<noteq> tot" using tot by simp
  have S: "e \<in> set [] \<union> set (e # es)" by simp
  have "torn ev pl (set [] \<union> set (e # es)) {} (pri_append ev [] []) (ev, pl)" using pl by (simp add: torn_def pri_append_def)
  from partly_none [where xs = "[]" and es = "e # es" and join = "pri_append ev", OF this] have "?P (ev, pl)" using tot0 pl(1) by simp
  moreover note new = partly_one [where join = "pri_append ev" and xs = "[]" and e = e and es = es, unfolded one]
  note new [OF torn_first(1) [OF pl(1,3)]] new [OF torn_first(2) [OF pl(1,3)]] new [OF torn_first(3) [OF pl(1,3) S]]
    new [OF torn_first(4) [OF pl(1,3) S]]
  ultimately have now: "always ?P code (ev, pl)" using pl(1) tot0 by (simp add: code_def)
  have "always (partly (pri_append ev2) (pri_hi ev2) ev2 pl [e] es tot) (link_code ev (lasthigh_ptr ev2 [e]) (last [e]) es)
      (ev2, put_list ev2 pl [e])"
    by (rule always_link_code) (use es tot in \<open>auto simp: ev2_def pri_ok_def hi_first_sorted\<close>)
  then have rest: "always ?P (link_code ev (lasthigh_ptr ev [e]) e es) (ev2, put_list ev pl [e])"
    unfolding eqs last_ConsL [OF refl]
  proof (rule always_mono)
    fix m assume "partly (pri_append ev) (pri_hi ev2) ev2 pl [e] es tot m"
    then have "partly (pri_append ev) (pri_hi ev) ev2 pl [e] es tot m" by (simp add: same)
    then show "?P m"
    proof (rule partly_Cons)
      show "pri_append ev [e] fs \<noteq> []" for fs by (metis length_pri_append add_is_0 length_0_conv list.distinct(1))
      show "link_only (insert e (set [])) ev ev2" unfolding ev2_def by (rule link_only_set_owner [OF link_only_refl]) simp
      show "pri_append ev [e] fs = pri_append ev [] (e # fs)" for fs using pri_append_singleton [of ev "[]" e fs] one by simp
    qed (use es in \<open>auto simp: ev2_def\<close>)
  qed
  have "always ?P (code @ [add_cnt 1]) (ev, pl)"
    using now always_take [OF rest, of 0] ex by (simp add: always_snoc)
  with rest ex have "always ?P ((code @ [add_cnt 1]) @ link_code ev (lasthigh_ptr ev [e]) e es) (ev, pl)"
    by (simp only: always_append)
  then show ?thesis unfolding lh by (simp add: first_code_def code_def)
qed

lemma always_put_code:
  assumes ok: "out_ok ev pl xs" "xs = [] \<Longrightarrow> l_firstevent pl = None"
    and es: "es \<noteq> []" "distinct (xs @ es)" "pri_ok ev es"
  shows "\<exists>code. put_code ev pl es = Some code \<and>
     always (partly (pri_append ev) (pri_hi ev) ev pl xs es (int (length xs + length es))) code (ev, pl) \<and>
     l_cnt (snd (exec code (ev, pl))) = int (length xs + length es)"
proof (cases "xs = []")
  case True
  obtain e rest where e: "es = e # rest" using es(1) by (cases es) auto
  have pl: "l_cnt pl = 0" "l_lasthigh pl = 0" "l_firstevent pl = None" using ok True by (auto simp: out_ok_def)
  let ?lh = "if ev_priority (ev e) = ET_HIGH then Some e else None"
  let ?c = "first_code ev e @ link_code ev ?lh e rest"
  let ?ev1 = "set_owner ev e ET_SYS"
  have "exec (first_code ev e) (ev, pl) = (?ev1, put_list ?ev1 pl [e])"
    using pl by (simp add: first_code_def put_list_def is_high_def)
  moreover have "?lh = lasthigh_ptr ?ev1 [e]" by (simp add: lasthigh_ptr_def is_high_def)
  moreover obtain ev' where "nwrite_loop ?ev1 (put_list ?ev1 pl [e]) (lasthigh_ptr ?ev1 [e]) e rest =
      (ev', put_list ?ev1 pl (pri_append ?ev1 [e] rest))"
    using nwrite_loop_spec [of ?ev1 "[e]" rest pl] es e by (auto simp: pri_ok_def hi_first_sorted)
  ultimately have "l_cnt (snd (exec ?c (ev, pl))) = int (length xs + length es)"
    using exec_link_code [of ev ?ev1 "lasthigh_ptr ?ev1 [e]" e rest] e True by simp
  then show ?thesis
    using always_first_code [OF pl, of e rest ev "int (length xs + length es)"] es True e pl(1)
    by (simp add: put_code_def)
next
  case False
  have pl: "put_list ev pl xs = pl" by (rule put_list_eq [OF ok(1) False])
  have lk: "linked ev xs" "hi_first ev xs" "l_cnt pl \<noteq> 0" "l_lastevent pl = Some (last xs)"
    using ok(1) False by (auto simp: out_ok_def list_ok_def)
  obtain ev' where "nwrite_loop ev pl (lasthigh_ptr ev xs) (last xs) es = (ev', put_list ev pl (pri_append ev xs es))"
    using nwrite_loop_spec [OF lk(1) es(2) False lk(2) es(3), of pl] pl by auto
  then have "l_cnt (snd (exec (link_code ev (lasthigh_ptr ev xs) (last xs) es) (ev, pl))) = int (length xs + length es)"
    using exec_link_code [of ev ev] by simp
  then show ?thesis
    using always_link_code [OF lk(1) es(2) False lk(2) es(3) order_refl, of ev pl] find_lasthigh_out_ok [OF ok(1) False] lk(3,4)
    by (simp add: put_code_def pl)
qed

section \<open>Appending\<close>

lemma always_append_code:
  assumes "linked ev xs" "distinct (xs @ es)" "xs \<noteq> []" "int (length xs + length es) \<le> tot"
  shows "always (partly (@) (\<lambda>_. l_lasthigh pl) ev pl xs es tot) (append_code (last xs) es) (ev, put_tail pl xs) \<and>
     l_cnt (snd (exec (append_code (last xs) es) (ev, put_tail pl xs))) = int (length xs + length es)"
  using assms
proof (induction es arbitrary: ev xs)
  case Nil
  then show ?case by (auto simp: partly_def torn_def put_tail_def)
next
  case (Cons e es)
  let ?P = "partly (@) (\<lambda>_. l_lasthigh pl) ev pl xs (e # es) tot"
  let ?ev1 = "set_next ev (last xs) (Some e)"
  let ?pl1 = "put_tail pl xs\<lparr>l_lastevent := Some e\<rparr>"
  define ev2 where "ev2 = set_owner ?ev1 e ET_SYS"
  have c: "int (length xs) \<noteq> tot" using Cons.prems(4) by simp
  have bl: "last xs \<notin> set (butlast xs)" using Cons.prems(2) distinct_last_butlast by auto
  have lk: "linked ?ev1 xs" "linked ?ev1 (xs @ [e])" "next_only (insert e (set xs)) ev ?ev1"
    using Cons.prems bl by (simp_all add: linked_append linked_set_next next_only_set_next)
  have upd: "put_tail pl xs = pl\<lparr>l_cnt := int (length xs), l_lasthigh := l_lasthigh pl, l_firstevent := Some (hd xs), l_lastevent := Some (last xs)\<rparr>"
    "?pl1 = pl\<lparr>l_cnt := int (length xs), l_lasthigh := l_lasthigh pl, l_firstevent := Some (hd (xs @ [e])), l_lastevent := Some (last (xs @ [e]))\<rparr>"
    using Cons.prems(3) by (simp_all add: put_tail_def)
  note two = torn_two [where ev = ev and xs = xs and e = e and tot = tot and c = "int (length xs)" and h = "l_lasthigh pl"
      and pl = pl and es = es and hi = "\<lambda>_. l_lasthigh pl" and join = "(@)" and h' = 0,
      OF Cons.prems(1,3) lk(3,1,3,2) _ refl c upd append_Nil2 refl]
  have ex: "?pl1\<lparr>l_cnt := int (length xs) + 1\<rparr> = put_tail pl (xs @ [e])" using Cons.prems(3) by (simp add: put_tail_def)
  have "linked ev2 (xs @ [e])" "distinct ((xs @ [e]) @ es)" "xs @ [e] \<noteq> []" "int (length (xs @ [e]) + length es) \<le> tot"
    using Cons.prems lk(2) by (simp_all add: ev2_def)
  note IH = Cons.IH [OF this]
  have rest: "always ?P (append_code e es) (ev2, put_tail pl (xs @ [e]))"
  proof -
    from IH have "always (partly (@) (\<lambda>_. l_lasthigh pl) ev2 pl (xs @ [e]) es tot) (append_code e es) (ev2, put_tail pl (xs @ [e]))" by simp
    then show ?thesis
    proof (rule always_mono)
      fix m assume "partly (@) (\<lambda>_. l_lasthigh pl) ev2 pl (xs @ [e]) es tot m"
      then show "?P m"
      proof (rule partly_Cons)
        show "link_only (insert e (set xs)) ev ev2"
          unfolding ev2_def by (rule link_only_set_owner [OF link_only_next_only [OF lk(3)]]) simp
      qed (use Cons.prems(2) in \<open>auto simp: ev2_def\<close>)
    qed
  qed
  have "append_code (last xs) (e # es) =
      [on_ev (\<lambda>ev. set_next ev (last xs) (Some e)), set_last (Some e), on_ev (\<lambda>ev. set_owner ev e ET_SYS), add_cnt 1] @ append_code e es"
    by simp
  then show ?case using two rest IH ex by (simp add: ev2_def always_append)
qed

lemma always_tail_code:
  assumes ok: "list_ok ev pl xs" "xs = [] \<Longrightarrow> l_firstevent pl = None" and es: "es \<noteq> []" "distinct (xs @ es)"
  shows "\<exists>code. tail_code pl es = Some code \<and>
     always (partly (@) (\<lambda>_. l_lasthigh pl) ev pl xs es (int (length xs + length es))) code (ev, pl) \<and>
     l_cnt (snd (exec code (ev, pl))) = int (length xs + length es)"
proof (cases "xs = []")
  case True
  obtain e rest where e: "es = e # rest" using es(1) by (cases es) auto
  have pl: "l_cnt pl = 0" "l_firstevent pl = None" using ok True by auto
  let ?ev1 = "set_owner ev e ET_SYS"
  let ?tot = "int (length xs + length es)"
  let ?P = "partly (@) (\<lambda>_. l_lasthigh pl) ev pl [] (e # rest) ?tot"
  let ?first = "[set_first (Some e), set_last (Some e), on_ev (\<lambda>ev. set_owner ev e ET_SYS), add_cnt 1]"
  have S: "e \<in> set [] \<union> set (e # rest)" by simp
  have IH: "always (partly (@) (\<lambda>_. l_lasthigh pl) ?ev1 pl [e] rest ?tot) (append_code (last [e]) rest) (?ev1, put_tail pl [e]) \<and>
      l_cnt (snd (exec (append_code (last [e]) rest) (?ev1, put_tail pl [e]))) = int (length [e] + length rest)"
    by (rule always_append_code) (use es e True in auto)
  have "always ?P (append_code e rest) (?ev1, put_tail pl [e])"
  proof -
    from IH have "always (partly (@) (\<lambda>_. l_lasthigh pl) ?ev1 pl [e] rest ?tot) (append_code e rest) (?ev1, put_tail pl [e])" by simp
    then show ?thesis
      by (rule always_mono, elim partly_Cons) (use es e True in \<open>auto intro: link_only_set_owner\<close>)
  qed
  moreover from always_take [OF this, of 0] have "?P (?ev1, put_tail pl [e])" by simp
  moreover have "torn ev pl (set [] \<union> set (e # rest)) {} ([] @ []) (ev, pl)" using pl by (simp add: torn_def)
  note partly_none [where xs = "[]" and es = "e # rest" and join = "(@)" and tot = ?tot, OF this]
  moreover note new = partly_one [where join = "(@)" and xs = "[]" and e = e and es = rest and tot = ?tot, unfolded append_Nil]
  note new [OF torn_first(1) [OF pl]] new [OF torn_first(2) [OF pl]] new [OF torn_first(3) [OF pl S]]
  moreover have "pl\<lparr>l_firstevent := Some e, l_lastevent := Some e, l_cnt := 1\<rparr> = put_tail pl [e]" by (simp add: put_tail_def)
  ultimately have "always ?P (?first @ append_code e rest) (ev, pl)" using pl e True
    unfolding always_append by simp
  moreover have "exec ?first (ev, pl) = (?ev1, put_tail pl [e])" using pl by (simp add: put_tail_def)
  ultimately show ?thesis using IH pl e True by (simp add: tail_code_def)
next
  case False
  then have "linked ev xs" "l_cnt pl \<noteq> 0" "l_lastevent pl = Some (last xs)" using ok(1) by (auto simp: list_ok_def)
  then show ?thesis
    using always_append_code [OF _ es(2) False order_refl, of ev pl] put_tail_eq [OF ok(1) False] by (simp add: tail_code_def)
qed

section \<open>What repair makes of a torn list\<close>

lemma repair_scan_linked:
  "linked ev ys \<Longrightarrow> distinct ys \<Longrightarrow> ys \<noteq> [] \<Longrightarrow> length ys \<le> n \<Longrightarrow>
   repair_scan ev n (Some (hd ys)) (Some (last ys)) c h =
     Some (True, set_owners ev ys ET_SYS, c + int (length ys), h + pri_hi ev ys)"
proof (induction ys arbitrary: ev n c h)
  case (Cons y ys)
  then obtain n' where n: "n = Suc n'" by (cases n) auto
  let ?ev1 = "set_owner ev y ET_SYS"
  show ?case
  proof (cases "ys = []")
    case False
    then have "last ys \<noteq> y" using Cons.prems(2) by (metis distinct.simps(2) last_in_set)
    moreover have "ev_next (ev y) = Some (hd ys)" "linked ?ev1 ys" using Cons.prems(1) False by (simp_all add: linked_Cons)
    moreover note Cons.IH [OF this(2), of n' "c + 1" "if is_high ev y then h + 1 else h"]
    ultimately show ?thesis using Cons.prems False n by (simp add: Let_def is_high_def)
  qed (simp add: n Let_def is_high_def)
qed simp

lemma repair_walk_linked:
  "linked ev ys \<Longrightarrow> distinct ys \<Longrightarrow> ys \<noteq> [] \<Longrightarrow>
   repair_walk ev (Some (hd ys)) (Some (last ys)) c = Some (set_owners ev ys ET_SYS, c + int (length ys))"
proof (induction ys arbitrary: ev c)
  case (Cons y ys)
  let ?ev1 = "set_owner ev y ET_SYS"
  show ?case
  proof (cases "ys = []")
    case True
    then show ?thesis by (subst repair_walk.simps) simp
  next
    case False
    then have "last ys \<noteq> y" using Cons.prems(2) by (metis distinct.simps(2) last_in_set)
    moreover have "ev_next (ev y) = Some (hd ys)" "linked ?ev1 ys" using Cons.prems(1) False by (simp_all add: linked_Cons)
    moreover note Cons.IH [OF this(2), of "c + 1"]
    ultimately show ?thesis using Cons.prems False by (subst repair_walk.simps) simp
  qed
qed simp

lemma torn_head: "torn ev pl S D ys (ev', pl') \<Longrightarrow> ys \<noteq> [] \<Longrightarrow>
   (if l_cnt pl' = 0 then pl'\<lparr>l_lastevent := l_firstevent pl'\<rparr> else pl') =
     pl\<lparr>l_cnt := l_cnt pl', l_lasthigh := l_lasthigh pl', l_firstevent := Some (hd ys), l_lastevent := Some (last ys)\<rparr>"
  by (cases pl'; cases pl; cases ys rule: rev_cases) (auto simp: torn_def split: if_splits)

lemma repair_outputlist_torn:
  assumes t: "torn ev pl S D ys (ev', st_list_out ps)" and ys: "distinct ys" "ys \<noteq> []"
    and fo: "fo_start (fix_out (st_fix ps)) \<noteq> 0" "tot = fo_cnt (fix_out (st_fix ps)) + fo_num (fix_out (st_fix ps))"
      "int (length ys) \<le> tot" "l_cnt (st_list_out ps) \<noteq> tot"
  shows "et_repair_outputlist ev' ps =
    Some (ET_OK, set_owners ev' ys ET_SYS, set_out_start 0 (ps\<lparr>st_list_out := put_list ev pl ys\<rparr>))"
proof -
  have "l_firstevent (st_list_out ps) = Some (hd ys)" "linked ev' ys" and lo: "link_only S ev ev'"
    using t ys(2) by (auto simp: torn_def)
  moreover from this repair_scan_linked [OF this(2) ys, of "nat tot" 0 0] fo(3)
  have "repair_scan ev' (nat tot) (Some (hd ys)) (Some (last ys)) 0 0 = Some (True, set_owners ev' ys ET_SYS, int (length ys), pri_hi ev ys)"
    using link_only_is_high [OF lo] by simp
  ultimately show ?thesis
    using fo(1,2,4) torn_head [OF t ys(2)] by (cases pl) (simp add: et_repair_outputlist_def Let_def put_list_def)
qed

lemma repair_gcinputlist_torn:
  assumes t: "torn ev pl S D ys (ev', st_list_in ps)" and ys: "distinct ys" "ys \<noteq> []"
    and fi: "fi_start (fix_in (st_fix ps)) \<noteq> 0" "tot = fi_cnt (fix_in (st_fix ps)) + fi_num (fix_in (st_fix ps))"
      "int (length ys) \<le> tot" "l_cnt (st_list_in ps) \<noteq> tot" "fi_eventsin (fix_in (st_fix ps)) = l_events_in pl"
  shows "et_repair_gcinputlist ev' ps =
    Some (ET_OK, set_owners ev' ys ET_SYS, set_in_start 0 (ps\<lparr>st_list_in := (put_tail pl ys)
      \<lparr>l_lasthigh := l_lasthigh (st_list_in ps), l_events_in := l_events_in pl + word_of_int (int (length ys) - fi_cnt (fix_in (st_fix ps)))\<rparr>\<rparr>))"
proof -
  have "l_firstevent (st_list_in ps) = Some (hd ys)" "linked ev' ys" using t ys(2) by (auto simp: torn_def)
  moreover from this repair_scan_linked [OF this(2) ys, of "nat tot" 0 0] fi(3)
  have "repair_scan ev' (nat tot) (Some (hd ys)) (Some (last ys)) 0 0 = Some (True, set_owners ev' ys ET_SYS, int (length ys), pri_hi ev' ys)"
    by simp
  ultimately show ?thesis
    using fi(1,2,4,5) torn_head [OF t ys(2)]
    by (cases pl) (simp add: et_repair_gcinputlist_def Let_def put_tail_def)
qed

section \<open>Death while writing to an output list\<close>

text \<open>
  \<open>mend_out\<close> is the repair of the output list if it is locked. In the mended state the list holds the
  old events and a first part of the new ones, these are owned by the system and all other events as
  before.
\<close>

definition mend_out :: "smem \<Rightarrow> smem option" where
  "mend_out m =
     (if l_mutex (st_list_out (snd m)) then
        case et_repair_outputlist (fst m) (snd m) of
          None \<Rightarrow> None
        | Some (status, ev, ps) \<Rightarrow> if status = ET_ERROR then None else Some (ev, unlock_out ps)
      else Some m)"

definition same_but_out :: "et_station \<Rightarrow> et_station \<Rightarrow> bool" where
  "same_but_out ps ps' \<longleftrightarrow> ps'\<lparr>st_list_out := st_list_out ps, st_fix := (st_fix ps')\<lparr>fix_out := fix_out (st_fix ps)\<rparr>\<rparr> = ps \<and>
     (st_list_out ps')\<lparr>l_cnt := l_cnt (st_list_out ps), l_lasthigh := l_lasthigh (st_list_out ps),
       l_firstevent := l_firstevent (st_list_out ps), l_lastevent := l_lastevent (st_list_out ps),
       l_mutex := l_mutex (st_list_out ps)\<rparr> = st_list_out ps"

definition whole_out :: "evheap \<Rightarrow> et_station \<Rightarrow> nat list \<Rightarrow> nat list \<Rightarrow> smem \<Rightarrow> bool" where
  "whole_out ev ps xs es m \<longleftrightarrow> (\<exists>j \<le> length es.
     out_ok (fst m) (st_list_out (snd m)) (pri_append ev xs (take j es)) \<and> link_only (set xs \<union> set es) ev (fst m) \<and>
     (\<forall>i. ev_owner (fst m i) = (if i \<in> set (take j es) then ET_SYS else ev_owner (ev i))) \<and>
     fo_start (fix_out (st_fix (snd m))) = 0 \<and> same_but_out ps (snd m))"

definition mends_out :: "evheap \<Rightarrow> et_station \<Rightarrow> nat list \<Rightarrow> nat list \<Rightarrow> smem \<Rightarrow> bool" where
  "mends_out ev ps xs es m \<longleftrightarrow> (\<exists>m'. mend_out m = Some m' \<and> \<not> l_mutex (st_list_out (snd m')) \<and> whole_out ev ps xs es m')"

lemma out_ok_unlock [simp]: "out_ok ev (et_llist_unlock pl) ys = out_ok ev pl ys"
  by (simp add: out_ok_def list_ok_def et_llist_unlock_def)

lemma whole_out_unlock: "whole_out ev ps xs es (ev', ps') \<Longrightarrow> whole_out ev ps xs es (ev', unlock_out ps')"
  by (simp add: whole_out_def same_but_out_def unlock_out_def et_llist_unlock_def out_ok_def list_ok_def)

lemma mends_out_whole: "whole_out ev ps xs es m \<Longrightarrow> mends_out ev ps xs es m"
proof -
  assume w: "whole_out ev ps xs es m"
  then have "fo_start (fix_out (st_fix (snd m))) = 0" by (auto simp: whole_out_def)
  then have "et_repair_outputlist (fst m) (snd m) = Some (ET_OK, fst m, snd m)" by (simp add: et_repair_outputlist_def)
  moreover have "whole_out ev ps xs es (fst m, unlock_out (snd m))" using whole_out_unlock [of ev ps xs es "fst m" "snd m"] w by simp
  moreover have "\<not> l_mutex (st_list_out (unlock_out (snd m)))" by (simp add: unlock_out_def et_llist_unlock_def)
  ultimately show ?thesis using w by (cases m) (simp add: mends_out_def mend_out_def)
qed

lemma mends_out_partly:
  assumes p: "partly (pri_append ev) (pri_hi ev) ev pl xs es tot (ev', st_list_out ps')"
    and xs: "distinct (xs @ es)" "es \<noteq> []" "tot = int (length xs + length es)" "\<forall>i \<in> set xs. ev_owner (ev i) = ET_SYS"
    and pl: "pl\<lparr>l_cnt := 0, l_lasthigh := 0, l_firstevent := None, l_lastevent := None, l_mutex := False\<rparr> =
        (st_list_out ps)\<lparr>l_cnt := 0, l_lasthigh := 0, l_firstevent := None, l_lastevent := None, l_mutex := False\<rparr>"
      "l_mutex pl" "xs = [] \<Longrightarrow> l_lasthigh pl = 0"
    and ps': "ps' = ps\<lparr>st_list_out := st_list_out ps', st_fix := (st_fix ps)\<lparr>fix_out := \<lparr>fo_start = 1, fo_cnt = int (length xs), fo_num = int (length es)\<rparr>\<rparr>\<rparr>"
  shows "mends_out ev ps xs es (ev', ps')"
proof -
  let ?pl = "st_list_out ps'"
  from p obtain j where j: "j \<le> length es" "torn ev pl (set xs \<union> set es) (set (take j es)) (pri_append ev xs (take j es)) (ev', ?pl)"
    "l_cnt ?pl = tot \<Longrightarrow> j = length es \<and> l_lasthigh ?pl = pri_hi ev (pri_append ev xs es) \<and> (\<forall>i \<in> set es. ev_owner (ev' i) = ET_SYS)"
    by (auto simp: partly_def)
  define ys where "ys = pri_append ev xs (take j es)"
  have d: "distinct ys" unfolding ys_def distinct_pri_append using xs(1) by (auto dest: in_set_takeD)
  have lo: "link_only (set xs \<union> set es) ev ev'" "linked ev' ys"
    "\<And>i. i \<notin> set (take j es) \<Longrightarrow> ev_owner (ev' i) = ev_owner (ev i)" using j(2) by (auto simp: torn_def ys_def)
  note same = link_only_is_high [OF lo(1)]
  note eqs = hi_first_is_high_cong [OF same]
  have hf: "hi_first ev' ys" unfolding eqs ys_def by (rule hi_first_pri_append)
  have fo: "fix_out (st_fix ps') = \<lparr>fo_start = 1, fo_cnt = int (length xs), fo_num = int (length es)\<rparr>" by (subst ps') simp
  have lock: "l_mutex ?pl" using j(2) pl(2) by (cases pl; cases ?pl) (simp add: torn_def)
  have rest: "?pl\<lparr>l_cnt := 0, l_lasthigh := 0, l_firstevent := None, l_lastevent := None, l_mutex := False\<rparr> =
      (st_list_out ps)\<lparr>l_cnt := 0, l_lasthigh := 0, l_firstevent := None, l_lastevent := None, l_mutex := False\<rparr>"
    using j(2) pl(1) by (cases pl; cases ?pl; cases "st_list_out ps") (simp add: torn_def)
  have sb: "same_but_out ps (set_out_start 0 ps')" 
    using rest by (subst ps', cases ?pl; cases "st_list_out ps") (simp add: same_but_out_def set_out_start_def)
  have whole: "whole_out ev ps xs es (ev1, ps1)"
    if "out_ok ev1 (st_list_out ps1) ys" "link_only (set xs \<union> set es) ev ev1" "\<And>i. ev_owner (ev1 i) = (if i \<in> set (take j es) then ET_SYS else ev_owner (ev i))"
      "fo_start (fix_out (st_fix ps1)) = 0" "same_but_out ps ps1" for ev1 ps1
    using that j(1) by (auto simp: whole_out_def ys_def)
  have mend: "mends_out ev ps xs es (ev', ps')" if "et_repair_outputlist ev' ps' = Some (ET_OK, ev1, ps1)"
    "whole_out ev ps xs es (ev1, ps1)" for ev1 ps1
    using that lock whole_out_unlock [OF that(2)] by (simp add: mends_out_def mend_out_def) (simp add: unlock_out_def et_llist_unlock_def)
  consider "l_cnt ?pl = tot" | "l_cnt ?pl \<noteq> tot" "ys = []" | "l_cnt ?pl \<noteq> tot" "ys \<noteq> []" by blast
  then show ?thesis
  proof cases
    case 1
    with j(3) have c: "j = length es" "l_lasthigh ?pl = pri_hi ev ys" "\<forall>i \<in> set es. ev_owner (ev' i) = ET_SYS" by (simp_all add: ys_def)
    have len: "length ys = length xs + length es" by (simp add: ys_def c(1))
    then have "ys \<noteq> []" using xs(2) by auto
    then have "list_ok ev' ?pl ys" using j(2) d lo(2) 1 xs(3) len by (auto simp: list_ok_def torn_def ys_def split: if_splits)
    then have "out_ok ev' (st_list_out (set_out_start 0 ps')) ys" using hf c(2) same by (simp add: out_ok_def set_out_start_def)
    then have "whole_out ev ps xs es (ev', set_out_start 0 ps')"
      using lo c(1,3) sb by (intro whole) (simp_all add: set_out_start_def)
    moreover have "et_repair_outputlist ev' ps' = Some (ET_OK, ev', set_out_start 0 ps')"
      using 1 xs(3) fo by (simp add: et_repair_outputlist_def)
    ultimately show ?thesis by (rule mend [rotated])
  next
    case 2
    then have n: "xs = []" "take j es = []" using set_pri_append [of ev xs "take j es"] by (auto simp: ys_def simp del: set_pri_append)
    have z: "l_cnt ?pl = 0" "l_firstevent ?pl = None" "l_lasthigh ?pl = 0" using j(2) [folded ys_def] 2(2) pl(3) n by (simp_all add: torn_def)
    then have "out_ok ev' (st_list_out (set_out_start 0 ps')) ys" using 2(2) by (simp add: out_ok_def set_out_start_def hi_first_sorted)
    then have "whole_out ev ps xs es (ev', set_out_start 0 ps')"
      using lo n sb by (intro whole) (auto simp: set_out_start_def)
    moreover have "et_repair_outputlist ev' ps' = Some (ET_OK, ev', set_out_start 0 ps')"
      using 2(1) z xs(3) fo by (simp add: et_repair_outputlist_def)
    ultimately show ?thesis by (rule mend [rotated])
  next
    case 3
    let ?ev1 = "set_owners ev' ys ET_SYS" and ?ps1 = "set_out_start 0 (ps'\<lparr>st_list_out := put_list ev pl ys\<rparr>)"
    have "length ys \<le> length xs + length es" using j(1) by (simp add: ys_def)
    then have "et_repair_outputlist ev' ps' = Some (ET_OK, ?ev1, ?ps1)"
      using repair_outputlist_torn [OF j(2) [folded ys_def] d 3(2), of tot] fo 3(1) xs(3) by simp
    moreover have "whole_out ev ps xs es (?ev1, ?ps1)"
    proof (rule whole)
      have "put_list ev = put_list ?ev1" by (rule put_list_cong) (simp add: is_high_def fun_eq_iff link_onlyD(2) [OF lo(1)])
      moreover have "hi_first ?ev1 = hi_first ev'" by (rule hi_first_is_high_cong) (simp add: is_high_def fun_eq_iff)
      ultimately show "out_ok ?ev1 (st_list_out ?ps1) ys"
        using d lo(2) hf by (simp add: set_out_start_def out_ok_put_list)
      show "link_only (set xs \<union> set es) ev ?ev1"
        by (rule link_only_trans [OF lo(1) link_only_set_owners]) (auto simp: ys_def dest: in_set_takeD)
      show "ev_owner (?ev1 i) = (if i \<in> set (take j es) then ET_SYS else ev_owner (ev i))" for i
        using lo(3) xs(4) by (simp add: ys_def)
      show "same_but_out ps ?ps1" using sb pl(1)
        by (cases pl; cases "st_list_out ps") (simp add: same_but_out_def set_out_start_def put_list_def)
    qed (simp add: set_out_start_def)
    ultimately show ?thesis by (rule mend)
  qed
qed

lemma torn_fields:
  assumes "torn ev pl S D ys (ev', pl')"
  shows "l_mutex pl' = l_mutex pl" "l_events_in pl' = l_events_in pl"
proof -
  have eq: "pl'\<lparr>l_cnt := l_cnt pl, l_lasthigh := l_lasthigh pl, l_firstevent := l_firstevent pl, l_lastevent := l_lastevent pl\<rparr> = pl"
    using assms by (simp add: torn_def)
  show "l_mutex pl' = l_mutex pl" "l_events_in pl' = l_events_in pl"
    using arg_cong [OF eq, of l_mutex] arg_cong [OF eq, of l_events_in] by simp_all
qed

lemma partly_fields:
  "partly join hi ev pl xs es tot (ev', pl') \<Longrightarrow> l_mutex pl' = l_mutex pl \<and> l_events_in pl' = l_events_in pl"
  by (auto simp: partly_def dest: torn_fields)

lemma always_in_outI: "always P c (ev, st_list_out ps) \<Longrightarrow>
   (\<And>ev' pl'. P (ev', pl') \<Longrightarrow> Q (ev', ps\<lparr>st_list_out := pl'\<rparr>)) \<Longrightarrow> always Q (map in_out c) (ev, ps)"
  by (rule always_mono [OF always_in_out], assumption) (metis prod.collapse)

text \<open>The list as the assignments that link the new events find it.\<close>

definition opened :: "nat list \<Rightarrow> et_list \<Rightarrow> et_list" where
  "opened xs pl = (if xs = [] then pl\<lparr>l_mutex := True, l_firstevent := None\<rparr> else pl\<lparr>l_mutex := True\<rparr>)"

lemma opened_simps [simp]: "l_cnt (opened xs pl) = l_cnt pl" "l_lastevent (opened xs pl) = l_lastevent pl"
  "l_lasthigh (opened xs pl) = l_lasthigh pl" "xs = [] \<Longrightarrow> l_firstevent (opened xs pl) = None"
  "out_ok ev (opened xs pl) xs = out_ok ev pl xs" "list_ok ev (opened xs pl) xs = list_ok ev pl xs"
  by (simp_all add: opened_def out_ok_def list_ok_def)

lemma always_out_section:
  assumes ok: "out_ok ev (st_list_out ps) xs" "\<not> l_mutex (st_list_out ps)" "fo_start (fix_out (st_fix ps)) = 0"
    and es: "es \<noteq> []" "distinct (xs @ es)" and own: "\<forall>i \<in> set xs. ev_owner (ev i) = ET_SYS"
    and p: "always (partly (pri_append ev) (pri_hi ev) ev (opened xs (st_list_out ps)) xs es (int (length xs + length es))) put
        (ev, opened xs (st_list_out ps))"
      "l_cnt (snd (exec put (ev, opened xs (st_list_out ps)))) = int (length xs + length es)"
  shows "always (mends_out ev ps xs es) (out_section (st_list_out ps) (int (length es)) put) (ev, ps)"
proof -
  let ?pl = "st_list_out ps"
  define pl1 where "pl1 = (if xs = [] then ?pl\<lparr>l_mutex := True, l_firstevent := None\<rparr> else ?pl\<lparr>l_mutex := True\<rparr>)"
  define tot where "tot = int (length xs + length es)"
  have cnt: "l_cnt ?pl = int (length xs)" using ok(1) by (simp add: out_ok_def list_ok_def)
  have ok1: "out_ok ev pl1 xs" using ok(1) by (auto simp: pl1_def out_ok_def list_ok_def)
  have put: "always (partly (pri_append ev) (pri_hi ev) ev pl1 xs es tot) put (ev, pl1)" "l_cnt (snd (exec put (ev, pl1))) = tot"
    using p by (simp_all add: pl1_def tot_def opened_def)
  let ?fo = "\<lparr>fo_start = 1, fo_cnt = int (length xs), fo_num = int (length es)\<rparr>"
  define ps1 where "ps1 = ps\<lparr>st_list_out := pl1, st_fix := (st_fix ps)\<lparr>fix_out := ?fo\<rparr>\<rparr>"
  let ?M = "mends_out ev ps xs es"
  have M0: "?M (ev, ps')" if "out_ok ev (st_list_out ps') xs" "fo_start (fix_out (st_fix ps')) = 0" "same_but_out ps ps'" for ps'
    by (rule mends_out_whole) (use that ok(1) in \<open>auto simp: whole_out_def out_ok_def pri_append_Nil intro!: exI [of _ 0]\<close>)
  have okx: "out_ok ev (?pl\<lparr>l_mutex := b\<rparr>) xs" "xs = [] \<Longrightarrow> out_ok ev (?pl\<lparr>l_mutex := b, l_firstevent := None\<rparr>) xs" for b
    using ok(1) by (auto simp: out_ok_def list_ok_def)
  have M: "?M (ev, ps)" "?M (ev, ps\<lparr>st_list_out := ?pl\<lparr>l_mutex := True\<rparr>\<rparr>)"
    "xs = [] \<Longrightarrow> ?M (ev, ps\<lparr>st_list_out := ?pl\<lparr>l_mutex := True, l_firstevent := None\<rparr>\<rparr>)"
    by (rule M0; use ok okx in \<open>simp add: same_but_out_def\<close>)+
  have F: "?M (ev, ps\<lparr>st_list_out := ?pl\<lparr>l_mutex := True\<rparr>, st_fix := (st_fix ps)\<lparr>fix_out := f\<rparr>\<rparr>)"
    "xs = [] \<Longrightarrow> ?M (ev, ps\<lparr>st_list_out := ?pl\<lparr>l_mutex := True, l_firstevent := None\<rparr>, st_fix := (st_fix ps)\<lparr>fix_out := f\<rparr>\<rparr>)"
    if "fo_start f = 0" for f
    by (rule M0; use okx that in \<open>simp add: same_but_out_def\<close>)+
  let ?startup = "map in_out (set_mutex True # empty_first ?pl)
    @ [on_fixout (\<lambda>f. f\<lparr>fo_cnt := l_cnt ?pl\<rparr>), on_fixout (\<lambda>f. f\<lparr>fo_num := int (length es)\<rparr>)]"
  have startup: "always ?M ?startup (ev, ps)"
    using ok(3) cnt M F by (cases "xs = []") (simp_all add: in_out_def on_fixout_def empty_first_def on_pl_def)
  have ps1: "exec (?startup @ [on_fixout (\<lambda>f. f\<lparr>fo_start := fo_start f + 1\<rparr>)]) (ev, ps) = (ev, ps1)"
    using ok(3) cnt by (simp add: in_out_def on_fixout_def empty_first_def on_pl_def ps1_def pl1_def)
  have M1: "?M (ev', ps1\<lparr>st_list_out := pl'\<rparr>)" if "partly (pri_append ev) (pri_hi ev) ev pl1 xs es tot (ev', pl')" for ev' pl'
  proof (rule mends_out_partly)
    show "partly (pri_append ev) (pri_hi ev) ev pl1 xs es tot (ev', st_list_out (ps1\<lparr>st_list_out := pl'\<rparr>))" using that by simp
    show "xs = [] \<Longrightarrow> l_lasthigh pl1 = 0" using ok1 by (simp add: out_ok_def)
  qed (use es own in \<open>simp_all add: tot_def ps1_def pl1_def\<close>)
  have puts: "always ?M (map in_out put) (ev, ps1)"
    by (rule always_in_outI [where P = "partly (pri_append ev) (pri_hi ev) ev pl1 xs es tot"])
      (use put(1) M1 in \<open>simp_all add: ps1_def\<close>)
  obtain ev2 pl2 where e2: "exec put (ev, pl1) = (ev2, pl2)" by fastforce
  define ps2 where "ps2 = ps1\<lparr>st_list_out := pl2\<rparr>"
  have ex2: "exec (map in_out put) (ev, ps1) = (ev2, ps2)"
    using exec_in_out [of put ev ps1] e2 by (simp add: ps1_def ps2_def)
  have p2: "partly (pri_append ev) (pri_hi ev) ev pl1 xs es tot (ev2, pl2)"
    using always_take [OF put(1), of "length put"] e2 by simp
  let ?ps3 = "set_out_start 0 ps2"
  from M1 [OF p2] have "?M (ev2, ps2)" by (simp add: ps2_def)
  moreover have "l_mutex pl2" using partly_fields [OF p2] by (simp add: pl1_def)
  moreover have "et_repair_outputlist ev2 ps2 = Some (ET_OK, ev2, ?ps3)"
    using put(2) e2 by (simp add: et_repair_outputlist_def ps2_def ps1_def tot_def)
  ultimately have w: "whole_out ev ps xs es (ev2, unlock_out ?ps3)"
    by (auto simp: mends_out_def mend_out_def ps2_def)
  then have w3: "whole_out ev ps xs es (ev2, ?ps3)"
    by (simp add: whole_out_def same_but_out_def unlock_out_def et_llist_unlock_def out_ok_def list_ok_def)
  have "?M (ev2, ?ps3)" "?M (ev2, unlock_out ?ps3)" by (rule mends_out_whole, fact)+
  moreover have "on_fixout (\<lambda>f. f\<lparr>fo_start := fo_start f - 1\<rparr>) (ev2, ps2) = (ev2, ?ps3)"
    "in_out (set_mutex False) (ev2, ?ps3) = (ev2, unlock_out ?ps3)"
    by (simp_all add: on_fixout_def on_pl_def in_out_def unlock_out_def et_llist_unlock_def set_out_start_def ps2_def ps1_def)
  ultimately have fin: "always ?M [on_fixout (\<lambda>f. f\<lparr>fo_start := fo_start f - 1\<rparr>), in_out (set_mutex False)] (ev2, ps2)"
    using always_take [OF puts, of "length (map in_out put)"] ex2 by simp
  have "always ?M (?startup @ [on_fixout (\<lambda>f. f\<lparr>fo_start := fo_start f + 1\<rparr>)]) (ev, ps)"
    unfolding always_snoc using startup ps1 always_take [OF puts, of 0] by simp
  with puts fin ps1 ex2 have "always ?M ((?startup @ [on_fixout (\<lambda>f. f\<lparr>fo_start := fo_start f + 1\<rparr>)]) @ map in_out put
      @ [on_fixout (\<lambda>f. f\<lparr>fo_start := fo_start f - 1\<rparr>), in_out (set_mutex False)]) (ev, ps)"
    by (simp only: always_append simp_thms)
  then show ?thesis by (simp add: out_section_def)
qed

lemma put_code_opened: "out_ok ev pl xs \<Longrightarrow> put_code ev (opened xs pl) es = put_code ev pl es"
  by (auto simp: put_code_def opened_def find_lasthigh_def out_ok_def list_ok_def cong: option.case_cong)

lemma always_nwrite_code:
  assumes ok: "out_ok ev (st_list_out ps) xs" "\<not> l_mutex (st_list_out ps)" "fo_start (fix_out (st_fix ps)) = 0"
    and es: "es \<noteq> []" "distinct (xs @ es)" "pri_ok ev es" and own: "\<forall>i \<in> set xs. ev_owner (ev i) = ET_SYS"
  shows "\<exists>code. nwrite_code ev ps es = Some code \<and> always (mends_out ev ps xs es) code (ev, ps)"
proof -
  have "out_ok ev (opened xs (st_list_out ps)) xs" using ok(1) by simp
  from always_put_code [OF this _ es] put_code_opened [OF ok(1), of es] obtain put where
    "put_code ev (st_list_out ps) es = Some put"
    "always (partly (pri_append ev) (pri_hi ev) ev (opened xs (st_list_out ps)) xs es (int (length xs + length es))) put
        (ev, opened xs (st_list_out ps))"
    "l_cnt (snd (exec put (ev, opened xs (st_list_out ps)))) = int (length xs + length es)" by auto
  with always_out_section [OF ok es(1,2) own] show ?thesis by (simp add: nwrite_code_def)
qed

text \<open>A single event is linked with the same assignments, in another order if the list is empty.\<close>

lemma always_put_one_code:
  assumes ok: "out_ok ev pl xs" "xs = [] \<Longrightarrow> l_firstevent pl = None" and e: "distinct (xs @ [e])" "pri_ok ev [e]"
  shows "\<exists>code. put_one_code ev pl e = Some code \<and>
     always (partly (pri_append ev) (pri_hi ev) ev pl xs [e] (int (length xs + 1))) code (ev, pl) \<and>
     l_cnt (snd (exec code (ev, pl))) = int (length xs + 1)"
proof (cases "xs = []")
  case True
  have pl: "l_cnt pl = 0" "l_lasthigh pl = 0" "l_firstevent pl = None" using ok True by (auto simp: out_ok_def)
  let ?P = "partly (pri_append ev) (pri_hi ev) ev pl [] [e] 1"
  have one: "pri_append ev [] [e] = [e]" by (simp add: pri_append_def)
  have "always ?P (first_code ev e) (ev, pl)"
    using always_first_code [OF pl, of e "[]" ev 1] e by simp
  moreover note new = partly_one [where join = "pri_append ev" and xs = "[]" and e = e and es = "[]" and tot = 1, unfolded one]
  have "torn ev pl (set [] \<union> set [e]) {e} [e] (ev, pl\<lparr>l_firstevent := Some e, l_lastevent := Some e\<rparr>\<lparr>l_lasthigh := 1\<rparr>)"
    by (rule torn_lasthigh [OF torn_first(2) [OF pl(1,3)]]) simp
  note new [OF this]
  ultimately show ?thesis using True pl by (simp add: put_one_code_def first_code_def split: if_splits)
next
  case False
  then have "l_cnt pl \<noteq> 0" using ok(1) by (auto simp: out_ok_def list_ok_def)
  with always_put_code [OF ok, of "[e]"] e show ?thesis by (simp add: put_one_code_def)
qed

lemma put_one_code_opened: "out_ok ev pl xs \<Longrightarrow> put_one_code ev (opened xs pl) e = put_one_code ev pl e"
  by (simp add: put_one_code_def put_code_opened)

lemma always_write_code:
  assumes ok: "out_ok ev (st_list_out ps) xs" "\<not> l_mutex (st_list_out ps)" "fo_start (fix_out (st_fix ps)) = 0"
    and e: "distinct (xs @ [e])" "pri_ok ev [e]" and own: "\<forall>i \<in> set xs. ev_owner (ev i) = ET_SYS"
  shows "\<exists>code. write_code ev ps e = Some code \<and> always (mends_out ev ps xs [e]) code (ev, ps)"
proof -
  have "out_ok ev (opened xs (st_list_out ps)) xs" using ok(1) by simp
  from always_put_one_code [OF this _ e] put_one_code_opened [OF ok(1), of e] obtain put where
    "put_one_code ev (st_list_out ps) e = Some put"
    "always (partly (pri_append ev) (pri_hi ev) ev (opened xs (st_list_out ps)) xs [e] (int (length xs + length [e]))) put
        (ev, opened xs (st_list_out ps))"
    "l_cnt (snd (exec put (ev, opened xs (st_list_out ps)))) = int (length xs + length [e])" by auto
  with always_out_section [OF ok _ e(1) own] show ?thesis by (simp add: write_code_def)
qed

section \<open>Death while dumping into GrandCentral's input list\<close>

text \<open>
  \<open>mend_in\<close> is the repair of an input list if it is locked; for GrandCentral the record tells whether
  a dump or a read was under way.
\<close>

definition mend_in :: "bool \<Rightarrow> smem \<Rightarrow> smem option" where
  "mend_in gc m =
     (if l_mutex (st_list_in (snd m)) then
        case (if gc \<and> fi_call (fix_in (st_fix (snd m))) = ET_FIX_DUMP then et_repair_gcinputlist (fst m) (snd m)
              else et_repair_inputlist (fst m) (snd m)) of
          None \<Rightarrow> None
        | Some (status, ev, ps) \<Rightarrow> if status = ET_ERROR then None else Some (ev, unlock_in ps)
      else Some m)"

definition same_but_in :: "et_station \<Rightarrow> et_station \<Rightarrow> bool" where
  "same_but_in ps ps' \<longleftrightarrow> ps'\<lparr>st_list_in := st_list_in ps, st_fix := (st_fix ps')\<lparr>fix_in := fix_in (st_fix ps)\<rparr>\<rparr> = ps \<and>
     (st_list_in ps')\<lparr>l_cnt := l_cnt (st_list_in ps), l_lasthigh := l_lasthigh (st_list_in ps),
       l_firstevent := l_firstevent (st_list_in ps), l_lastevent := l_lastevent (st_list_in ps),
       l_events_in := l_events_in (st_list_in ps), l_mutex := l_mutex (st_list_in ps)\<rparr> = st_list_in ps"

text \<open>
  The list holds \<open>ys\<close>, the owners are as \<open>own\<close> says, and the record is clear.
\<close>

definition whole_in :: "evheap \<Rightarrow> et_station \<Rightarrow> nat set \<Rightarrow> nat list \<Rightarrow> (nat \<Rightarrow> int) \<Rightarrow> smem \<Rightarrow> bool" where
  "whole_in ev ps S ys own m \<longleftrightarrow>
     list_ok (fst m) (st_list_in (snd m)) ys \<and> link_only S ev (fst m) \<and> (\<forall>i. ev_owner (fst m i) = own i) \<and>
     fi_start (fix_in (st_fix (snd m))) = 0 \<and> fi_first (fix_in (st_fix (snd m))) = None \<and> same_but_in ps (snd m)"

definition mends_in :: "bool \<Rightarrow> (smem \<Rightarrow> bool) \<Rightarrow> smem \<Rightarrow> bool" where
  "mends_in gc P m \<longleftrightarrow> (\<exists>m'. mend_in gc m = Some m' \<and> \<not> l_mutex (st_list_in (snd m')) \<and> P m')"

lemma list_ok_unlock [simp]: "list_ok ev (et_llist_unlock pl) ys = list_ok ev pl ys"
  by (simp add: list_ok_def et_llist_unlock_def)

lemma whole_in_unlock: "whole_in ev ps S ys own (ev', unlock_in ps') = whole_in ev ps S ys own (ev', ps')"
  by (simp add: whole_in_def same_but_in_def unlock_in_def et_llist_unlock_def list_ok_def)

lemma mends_in_fixed:
  assumes "(if gc \<and> fi_call (fix_in (st_fix ps')) = ET_FIX_DUMP then et_repair_gcinputlist ev' ps' else et_repair_inputlist ev' ps') =
      Some (ET_OK, ev1, ps1)" "l_mutex (st_list_in ps')" "P (ev1, unlock_in ps1)"
  shows "mends_in gc P (ev', ps')"
proof -
  have "mend_in gc (ev', ps') = Some (ev1, unlock_in ps1)"
    unfolding mend_in_def fst_conv snd_conv assms(1) using assms(2) by simp
  then show ?thesis using assms(3) by (simp add: mends_in_def) (simp add: unlock_in_def et_llist_unlock_def)
qed

lemma mends_in_whole:
  assumes "whole_in ev ps S ys own (ev', ps')" "\<And>m. whole_in ev ps S ys own m \<Longrightarrow> P m"
  shows "mends_in gc P (ev', ps')"
proof (cases "l_mutex (st_list_in ps')")
  case True
  have "fi_start (fix_in (st_fix ps')) = 0" "fi_first (fix_in (st_fix ps')) = None" using assms(1) by (simp_all add: whole_in_def)
  then have "(if gc \<and> fi_call (fix_in (st_fix ps')) = ET_FIX_DUMP then et_repair_gcinputlist ev' ps' else et_repair_inputlist ev' ps') =
      Some (ET_OK, ev', ps')" by (simp add: et_repair_gcinputlist_def et_repair_inputlist_def)
  from mends_in_fixed [OF this True] show ?thesis using assms by (simp add: whole_in_unlock)
next
  case False
  with assms show ?thesis by (simp add: mends_in_def mend_in_def)
qed

definition whole_dump :: "evheap \<Rightarrow> et_station \<Rightarrow> nat list \<Rightarrow> nat list \<Rightarrow> smem \<Rightarrow> bool" where
  "whole_dump ev ps xs es m \<longleftrightarrow> (\<exists>j \<le> length es. whole_in ev ps (set xs \<union> set es) (xs @ take j es)
     (\<lambda>i. if i \<in> set (take j es) then ET_SYS else ev_owner (ev i)) m)"

lemma mends_in_partly:
  assumes p: "partly (@) (\<lambda>_. l_lasthigh pl) ev pl xs es tot (ev', st_list_in ps')"
    and xs: "distinct (xs @ es)" "es \<noteq> []" "tot = int (length xs + length es)" "\<forall>i \<in> set xs. ev_owner (ev i) = ET_SYS"
    and pl: "pl\<lparr>l_cnt := 0, l_lasthigh := 0, l_firstevent := None, l_lastevent := None, l_mutex := False\<rparr> =
        (st_list_in ps)\<lparr>l_cnt := 0, l_lasthigh := 0, l_firstevent := None, l_lastevent := None, l_mutex := False\<rparr>"
      "l_mutex pl"
    and ps': "ps' = ps\<lparr>st_list_in := st_list_in ps', st_fix := (st_fix ps)\<lparr>fix_in := fi\<rparr>\<rparr>"
    and fi: "fi_start fi = 1" "fi_first fi = None" "fi_cnt fi = int (length xs)" "fi_num fi = int (length es)"
      "fi_call fi = ET_FIX_DUMP" "fi_eventsin fi = l_events_in (st_list_in ps)"
  shows "mends_in True (whole_dump ev ps xs es) (ev', ps')"
proof -
  let ?pl = "st_list_in ps'"
  from p obtain j where j: "j \<le> length es" "torn ev pl (set xs \<union> set es) (set (take j es)) (xs @ take j es) (ev', ?pl)"
    "l_cnt ?pl = tot \<Longrightarrow> j = length es \<and> (\<forall>i \<in> set es. ev_owner (ev' i) = ET_SYS)"
    by (auto simp: partly_def)
  define ys where "ys = xs @ take j es"
  have d: "distinct ys" unfolding ys_def using xs(1) by (auto dest: in_set_takeD)
  have lo: "link_only (set xs \<union> set es) ev ev'" "linked ev' ys"
    "\<And>i. i \<notin> set (take j es) \<Longrightarrow> ev_owner (ev' i) = ev_owner (ev i)" using j(2) by (auto simp: torn_def ys_def)
  have fi': "fix_in (st_fix ps') = fi" by (subst ps') simp
  have lock: "l_mutex ?pl" using torn_fields [OF j(2)] pl(2) by simp
  have evin: "l_events_in pl = l_events_in (st_list_in ps)" using arg_cong [OF pl(1), of l_events_in] by simp
  have rest: "?pl\<lparr>l_cnt := 0, l_lasthigh := 0, l_firstevent := None, l_lastevent := None, l_mutex := False\<rparr> =
      (st_list_in ps)\<lparr>l_cnt := 0, l_lasthigh := 0, l_firstevent := None, l_lastevent := None, l_mutex := False\<rparr>"
    using j(2) pl(1) by (cases pl; cases ?pl; cases "st_list_in ps") (simp add: torn_def)
  have sb: "same_but_in ps (set_in_start 0 ps')"
    using rest by (subst ps', cases ?pl; cases "st_list_in ps") (simp add: same_but_in_def set_in_start_def)
  have whole: "whole_dump ev ps xs es (ev1, unlock_in ps1)"
    if "list_ok ev1 (st_list_in ps1) ys" "link_only (set xs \<union> set es) ev ev1" "\<And>i. ev_owner (ev1 i) = (if i \<in> set (take j es) then ET_SYS else ev_owner (ev i))"
      "fi_start (fix_in (st_fix ps1)) = 0" "fi_first (fix_in (st_fix ps1)) = None" "same_but_in ps ps1" for ev1 ps1
    unfolding whole_dump_def whole_in_unlock using that j(1) by (intro exI [of _ j]) (simp add: whole_in_def ys_def)
  have mend: "mends_in True (whole_dump ev ps xs es) (ev', ps')" if "et_repair_gcinputlist ev' ps' = Some (ET_OK, ev1, ps1)"
    "whole_dump ev ps xs es (ev1, unlock_in ps1)" for ev1 ps1
    by (rule mends_in_fixed [where ?ev1.0 = ev1 and ?ps1.0 = ps1]) (use that lock in \<open>simp_all add: fi' fi(5)\<close>)
  consider "l_cnt ?pl = tot" | "l_cnt ?pl \<noteq> tot" "ys = []" | "l_cnt ?pl \<noteq> tot" "ys \<noteq> []" by blast
  then show ?thesis
  proof cases
    case 1
    with j(3) have c: "j = length es" "\<forall>i \<in> set es. ev_owner (ev' i) = ET_SYS" by simp_all
    have len: "length ys = length xs + length es" by (simp add: ys_def c(1))
    then have "ys \<noteq> []" using xs(2) by auto
    then have "list_ok ev' ?pl ys" using j(2) d lo(2) 1 xs(3) len by (auto simp: list_ok_def torn_def ys_def split: if_splits)
    then have "whole_dump ev ps xs es (ev', unlock_in (set_in_start 0 ps'))"
      using lo c sb fi' fi(2) by (intro whole) (simp_all add: set_in_start_def)
    moreover have "et_repair_gcinputlist ev' ps' = Some (ET_OK, ev', set_in_start 0 ps')"
      using 1 xs(3) fi' fi by (simp add: et_repair_gcinputlist_def)
    ultimately show ?thesis by (rule mend [rotated])
  next
    case 2
    then have n: "xs = []" "take j es = []" by (simp_all add: ys_def)
    have z: "l_cnt ?pl = 0" "l_firstevent ?pl = None" using j(2) [folded ys_def] 2(2) by (simp_all add: torn_def)
    then have "whole_dump ev ps xs es (ev', unlock_in (set_in_start 0 ps'))"
      using lo n sb fi' fi(2) 2(2) by (intro whole) (auto simp: set_in_start_def)
    moreover have "et_repair_gcinputlist ev' ps' = Some (ET_OK, ev', set_in_start 0 ps')"
      using 2(1) z xs(3) fi' fi by (simp add: et_repair_gcinputlist_def)
    ultimately show ?thesis by (rule mend [rotated])
  next
    case 3
    let ?pl1 = "(put_tail pl ys)\<lparr>l_lasthigh := l_lasthigh ?pl, l_events_in := l_events_in pl + word_of_int (int (length ys) - int (length xs))\<rparr>"
    let ?ev1 = "set_owners ev' ys ET_SYS" and ?ps1 = "set_in_start 0 (ps'\<lparr>st_list_in := ?pl1\<rparr>)"
    have "length ys \<le> length xs + length es" using j(1) by (simp add: ys_def)
    then have "et_repair_gcinputlist ev' ps' = Some (ET_OK, ?ev1, ?ps1)"
      using repair_gcinputlist_torn [OF j(2) [folded ys_def] d 3(2), of tot] fi' fi 3(1) xs(3) evin by simp
    moreover have "whole_dump ev ps xs es (?ev1, unlock_in ?ps1)"
    proof (rule whole)
      show "list_ok ?ev1 (st_list_in ?ps1) ys"
        using d lo(2) by (simp add: set_in_start_def list_ok_def)
      show "link_only (set xs \<union> set es) ev ?ev1"
        by (rule link_only_trans [OF lo(1) link_only_set_owners]) (auto simp: ys_def dest: in_set_takeD)
      show "ev_owner (?ev1 i) = (if i \<in> set (take j es) then ET_SYS else ev_owner (ev i))" for i
        using lo(3) xs(4) by (simp add: ys_def)
      show "same_but_in ps ?ps1" using sb pl(1)
        by (cases pl; cases "st_list_in ps") (simp add: same_but_in_def set_in_start_def put_tail_def)
    qed (simp_all add: set_in_start_def fi' fi(2))
    ultimately show ?thesis by (rule mend)
  qed
qed

lemma always_in_inI: "always P c (ev, st_list_in ps) \<Longrightarrow>
   (\<And>ev' pl'. P (ev', pl') \<Longrightarrow> Q (ev', ps\<lparr>st_list_in := pl'\<rparr>)) \<Longrightarrow> always Q (map in_in c) (ev, ps)"
  by (rule always_mono [OF always_in_in], assumption) (metis prod.collapse)

lemma whole_in_events_in: "whole_in ev ps S ys own (ev', ps') \<Longrightarrow>
   whole_in ev ps S ys own (ev', ps'\<lparr>st_list_in := (st_list_in ps')\<lparr>l_events_in := v\<rparr>\<rparr>)"
  by (simp add: whole_in_def same_but_in_def list_ok_def)

text \<open>The statistics are kept (\<open>stat\<close>) by \<open>et_station_dump\<close> only.\<close>

lemma always_in_section:
  assumes ok: "list_ok ev (st_list_in ps) xs" "\<not> l_mutex (st_list_in ps)" "fi_start (fix_in (st_fix ps)) = 0"
      "fi_first (fix_in (st_fix ps)) = None"
    and es: "es \<noteq> []" "distinct (xs @ es)" and own: "\<forall>i \<in> set xs. ev_owner (ev i) = ET_SYS"
    and p: "always (partly (@) (\<lambda>_. l_lasthigh (st_list_in ps)) ev (opened xs (st_list_in ps)) xs es (int (length xs + length es))) put
        (ev, opened xs (st_list_in ps))"
      "l_cnt (snd (exec put (ev, opened xs (st_list_in ps)))) = int (length xs + length es)"
    and stat: "stat = [] \<or> stat = [on_pl (\<lambda>pl. pl\<lparr>l_events_in := l_events_in pl + 1\<rparr>)]"
  shows "always (mends_in True (whole_dump ev ps xs es)) (in_section (st_list_in ps) (int (length es)) (put @ stat)) (ev, ps)"
proof -
  let ?pl = "st_list_in ps"
  define pl1 where "pl1 = (if xs = [] then ?pl\<lparr>l_mutex := True, l_firstevent := None\<rparr> else ?pl\<lparr>l_mutex := True\<rparr>)"
  define tot where "tot = int (length xs + length es)"
  have cnt: "l_cnt ?pl = int (length xs)" using ok(1) by (simp add: list_ok_def)
  have "l_lasthigh pl1 = l_lasthigh ?pl" by (simp add: pl1_def)
  then have put: "always (partly (@) (\<lambda>_. l_lasthigh pl1) ev pl1 xs es tot) put (ev, pl1)" "l_cnt (snd (exec put (ev, pl1))) = tot"
    using p by (simp_all add: pl1_def tot_def opened_def)
  let ?M = "mends_in True (whole_dump ev ps xs es)"
  have M0: "?M (ev, ps')" if "list_ok ev (st_list_in ps') xs" "fi_start (fix_in (st_fix ps')) = 0"
    "fi_first (fix_in (st_fix ps')) = None" "same_but_in ps ps'" for ps'
    by (rule mends_in_whole [of ev ps "set xs \<union> set es" xs "\<lambda>i. ev_owner (ev i)"])
      (use that in \<open>auto simp: whole_in_def whole_dump_def intro!: exI [of _ 0]\<close>)
  have okx: "list_ok ev (?pl\<lparr>l_mutex := b\<rparr>) xs" "xs = [] \<Longrightarrow> list_ok ev (?pl\<lparr>l_mutex := b, l_firstevent := None\<rparr>) xs" for b
    using ok(1) by (auto simp: list_ok_def)
  have M: "?M (ev, ps)" "?M (ev, ps\<lparr>st_list_in := ?pl\<lparr>l_mutex := True\<rparr>\<rparr>)"
    "xs = [] \<Longrightarrow> ?M (ev, ps\<lparr>st_list_in := ?pl\<lparr>l_mutex := True, l_firstevent := None\<rparr>\<rparr>)"
    by (rule M0; use ok okx in \<open>simp add: same_but_in_def\<close>)+
  have F: "?M (ev, ps\<lparr>st_list_in := ?pl\<lparr>l_mutex := True\<rparr>, st_fix := (st_fix ps)\<lparr>fix_in := f\<rparr>\<rparr>)"
    "xs = [] \<Longrightarrow> ?M (ev, ps\<lparr>st_list_in := ?pl\<lparr>l_mutex := True, l_firstevent := None\<rparr>, st_fix := (st_fix ps)\<lparr>fix_in := f\<rparr>\<rparr>)"
    if "fi_start f = 0" "fi_first f = None" for f
    by (rule M0; use okx that in \<open>simp add: same_but_in_def\<close>)+
  let ?startup = "map in_in (set_mutex True # empty_first ?pl)
    @ [on_fixin (\<lambda>f. f\<lparr>fi_eventsin := l_events_in ?pl\<rparr>), on_fixin (\<lambda>f. f\<lparr>fi_cnt := l_cnt ?pl\<rparr>),
       on_fixin (\<lambda>f. f\<lparr>fi_num := int (length es)\<rparr>), on_fixin (\<lambda>f. f\<lparr>fi_call := ET_FIX_DUMP\<rparr>)]"
  let ?go = "on_fixin (\<lambda>f. f\<lparr>fi_start := fi_start f + 1\<rparr>)"
  define fi where "fi = \<lparr>fi_first = None, fi_eventsin = l_events_in ?pl, fi_start = 1, fi_cnt = int (length xs),
    fi_num = int (length es), fi_call = ET_FIX_DUMP\<rparr>"
  define ps1 where "ps1 = ps\<lparr>st_list_in := pl1, st_fix := (st_fix ps)\<lparr>fix_in := fi\<rparr>\<rparr>"
  have startup: "always ?M ?startup (ev, ps)"
    using ok(3,4) cnt M F by (cases "xs = []") (simp_all add: in_in_def on_fixin_def empty_first_def on_pl_def)
  have ps1: "exec (?startup @ [?go]) (ev, ps) = (ev, ps1)"
    using ok(3,4) cnt by (cases "fix_in (st_fix ps)") (simp add: in_in_def on_fixin_def empty_first_def on_pl_def ps1_def pl1_def fi_def)
  have M1: "?M (ev', ps1\<lparr>st_list_in := pl'\<rparr>)" if "partly (@) (\<lambda>_. l_lasthigh pl1) ev pl1 xs es tot (ev', pl')" for ev' pl'
  proof (rule mends_in_partly [where fi = fi])
    show "partly (@) (\<lambda>_. l_lasthigh pl1) ev pl1 xs es tot (ev', st_list_in (ps1\<lparr>st_list_in := pl'\<rparr>))" using that by simp
  qed (use es own in \<open>simp_all add: tot_def ps1_def pl1_def fi_def\<close>)
  have puts: "always ?M (map in_in put) (ev, ps1)"
    by (rule always_in_inI [where P = "partly (@) (\<lambda>_. l_lasthigh pl1) ev pl1 xs es tot"])
      (use put(1) M1 in \<open>simp_all add: ps1_def\<close>)
  obtain ev2 pl2 where e2: "exec put (ev, pl1) = (ev2, pl2)" by fastforce
  define ps2 where "ps2 = ps1\<lparr>st_list_in := pl2\<rparr>"
  have ex2: "exec (map in_in put) (ev, ps1) = (ev2, ps2)"
    using exec_in_in [of put ev ps1] e2 by (simp add: ps1_def ps2_def)
  have p2: "partly (@) (\<lambda>_. l_lasthigh pl1) ev pl1 xs es tot (ev2, pl2)"
    using always_take [OF put(1), of "length put"] e2 by simp
  define ps3 where "ps3 = (\<lambda>v. ps2\<lparr>st_list_in := pl2\<lparr>l_events_in := v\<rparr>\<rparr>)"
  let ?v = "l_events_in pl2" and ?fin = "\<lambda>v. set_in_start 0 (ps3 v)"
  have same: "ps3 ?v = ps2" by (simp add: ps3_def ps2_def)
  have fixed: "et_repair_gcinputlist ev2 (ps3 v) = Some (ET_OK, ev2, ?fin v)" "fi_call (fix_in (st_fix (ps3 v))) = ET_FIX_DUMP"
    "l_mutex (st_list_in (ps3 v))" for v
    using put(2) e2 partly_fields [OF p2]
    by (simp_all add: et_repair_gcinputlist_def ps3_def ps2_def ps1_def pl1_def tot_def fi_def)
  from M1 [OF p2] have "?M (ev2, ps3 ?v)" by (simp add: ps2_def same)
  with fixed [of ?v] have "whole_dump ev ps xs es (ev2, unlock_in (?fin ?v))"
    by (auto simp: mends_in_def mend_in_def)
  then obtain j where j: "j \<le> length es" and wj: "whole_in ev ps (set xs \<union> set es) (xs @ take j es)
      (\<lambda>i. if i \<in> set (take j es) then ET_SYS else ev_owner (ev i)) (ev2, ?fin ?v)"
    by (auto simp: whole_dump_def whole_in_unlock)
  have wv: "whole_in ev ps (set xs \<union> set es) (xs @ take j es)
      (\<lambda>i. if i \<in> set (take j es) then ET_SYS else ev_owner (ev i)) (ev2, ?fin v)" for v
  proof -
    have "?fin v = (?fin ?v)\<lparr>st_list_in := (st_list_in (?fin ?v))\<lparr>l_events_in := v\<rparr>\<rparr>" by (simp add: ps3_def set_in_start_def)
    with whole_in_events_in [OF wj, of v] show ?thesis by (simp only:)
  qed
  have "whole_in ev ps (set xs \<union> set es) (xs @ take j es)
      (\<lambda>i. if i \<in> set (take j es) then ET_SYS else ev_owner (ev i)) (ev2, unlock_in (?fin v))" for v
    unfolding whole_in_unlock by (rule wv)
  note M3 = mends_in_whole [OF wv] mends_in_whole [OF this]
  have M3: "?M (ev2, ?fin v)" "?M (ev2, unlock_in (?fin v))" for v
    by (rule M3, use j in \<open>auto simp: whole_dump_def\<close>)+
  have M2: "?M (ev2, ps3 v)" for v
    by (rule mends_in_fixed [where ?ev1.0 = ev2 and ?ps1.0 = "?fin v"])
      (use fixed [of v] wv [of v] j in \<open>auto simp: whole_dump_def whole_in_unlock\<close>)
  have steps: "on_fixin (\<lambda>f. f\<lparr>fi_start := fi_start f - 1\<rparr>) (ev2, ps3 v) = (ev2, ?fin v)"
    "in_in (set_mutex False) (ev2, ?fin v) = (ev2, unlock_in (?fin v))"
    "in_in (on_pl (\<lambda>pl. pl\<lparr>l_events_in := l_events_in pl + 1\<rparr>)) (ev2, ps3 v) = (ev2, ps3 (v + 1))" for v
    by (simp_all add: on_fixin_def on_pl_def in_in_def unlock_in_def et_llist_unlock_def set_in_start_def ps3_def ps2_def ps1_def fi_def)
  have fin: "always ?M (map in_in stat @ [on_fixin (\<lambda>f. f\<lparr>fi_start := fi_start f - 1\<rparr>), in_in (set_mutex False)]) (ev2, ps2)"
    unfolding same [symmetric] using stat M2 M3 steps by auto
  have "always ?M (?startup @ [?go]) (ev, ps)"
    unfolding always_snoc using startup ps1 always_take [OF puts, of 0] by simp
  with puts fin ps1 ex2 have "always ?M ((?startup @ [?go]) @ map in_in put
      @ map in_in stat @ [on_fixin (\<lambda>f. f\<lparr>fi_start := fi_start f - 1\<rparr>), in_in (set_mutex False)]) (ev, ps)"
    by (simp only: always_append simp_thms)
  then show ?thesis by (simp add: in_section_def)
qed

lemma tail_code_opened: "list_ok ev pl xs \<Longrightarrow> tail_code (opened xs pl) es = tail_code pl es"
  by (simp add: tail_code_def cong: option.case_cong)

lemma always_tail_code_opened:
  assumes "list_ok ev pl xs" "es \<noteq> []" "distinct (xs @ es)"
  shows "\<exists>code. tail_code pl es = Some code \<and>
     always (partly (@) (\<lambda>_. l_lasthigh pl) ev (opened xs pl) xs es (int (length xs + length es))) code (ev, opened xs pl) \<and>
     l_cnt (snd (exec code (ev, opened xs pl))) = int (length xs + length es)"
proof -
  have "list_ok ev (opened xs pl) xs" using assms(1) by simp
  from always_tail_code [OF this _ assms(2,3)] tail_code_opened [OF assms(1)] show ?thesis by simp
qed

lemma always_ndump_code:
  assumes ok: "list_ok ev (st_list_in ps) xs" "\<not> l_mutex (st_list_in ps)" "fi_start (fix_in (st_fix ps)) = 0"
      "fi_first (fix_in (st_fix ps)) = None"
    and es: "es \<noteq> []" "distinct (xs @ es)" and own: "\<forall>i \<in> set xs. ev_owner (ev i) = ET_SYS"
  shows "\<exists>code. ndump_code ps es = Some code \<and> always (mends_in True (whole_dump ev ps xs es)) code (ev, ps)"
  using always_tail_code_opened [OF ok(1) es] always_in_section [OF ok es own, where stat = "[]"]
  by (auto simp: ndump_code_def)

lemma always_dump_code:
  assumes ok: "list_ok ev (st_list_in ps) xs" "\<not> l_mutex (st_list_in ps)" "fi_start (fix_in (st_fix ps)) = 0"
      "fi_first (fix_in (st_fix ps)) = None"
    and e: "e \<notin> set xs" and own: "\<forall>i \<in> set xs. ev_owner (ev i) = ET_SYS"
  shows "\<exists>code. dump_code ps e = Some code \<and> always (mends_in True (whole_dump ev ps xs [e])) code (ev, ps)"
proof -
  have d: "[e] \<noteq> []" "distinct (xs @ [e])" using e list_okD(2) [OF ok(1)] by simp_all
  from always_tail_code_opened [OF ok(1) d] always_in_section [OF ok d own _ _ disjI2 [OF refl]]
  show ?thesis by (auto simp: dump_code_def)
qed

section \<open>Death while reading from an input list\<close>

definition whole_read :: "evheap \<Rightarrow> et_station \<Rightarrow> nat list \<Rightarrow> nat \<Rightarrow> int \<Rightarrow> smem \<Rightarrow> bool" where
  "whole_read ev ps xs k att m \<longleftrightarrow> whole_in ev ps (set xs) xs (\<lambda>i. ev_owner (ev i)) m \<or>
     whole_in ev ps (set xs) (drop k xs) (\<lambda>i. if i \<in> set (take k xs) then att else ev_owner (ev i)) m"

lemma exec_owners: "exec (map (\<lambda>e. on_ev (\<lambda>ev. set_owner ev e att)) pe) (ev, ps) = (set_owners ev pe att, ps)"
  by (induction pe arbitrary: ev) simp_all

lemma always_owners: "(\<And>i. P (set_owners ev (take i pe) att, ps)) \<Longrightarrow>
   always P (map (\<lambda>e. on_ev (\<lambda>ev. set_owner ev e att)) pe) (ev, ps)"
proof (induction pe arbitrary: ev)
  case (Cons e pe)
  have "P (set_owners (set_owner ev e att) (take i pe) att, ps)" for i using Cons.prems [of "Suc i"] by simp
  from Cons.IH [OF this] show ?case using Cons.prems [of 0] by simp
qed simp

lemma mends_in_read_back:
  assumes ok: "list_ok ev (st_list_in ps) xs" "\<not> l_mutex (st_list_in ps)" "fi_start (fix_in (st_fix ps)) = 0"
    and own: "\<forall>i \<in> set xs. ev_owner (ev i) = ET_SYS" and k: "0 < k" "k \<le> length xs"
  shows "mends_in gc (whole_read ev ps xs k att) (set_owners ev (take i (take k xs)) att,
     ps\<lparr>st_list_in := (st_list_in ps)\<lparr>l_mutex := True, l_firstevent := f\<rparr>, st_fix := (st_fix ps)\<lparr>fix_in := (fix_in (st_fix ps))
       \<lparr>fi_num := int k, fi_cnt := int (length xs), fi_call := ET_FIX_READ, fi_first := Some (hd xs)\<rparr>\<rparr>\<rparr>)"
    (is "mends_in gc ?P (?ev1, ?ps1)")
proof -
  have xs: "xs \<noteq> []" using k by auto
  let ?ev2 = "set_owners ?ev1 xs ET_SYS"
  let ?ps2 = "clear_in_first (?ps1\<lparr>st_list_in := (st_list_in ps)\<lparr>l_mutex := True, l_firstevent := Some (hd xs), l_cnt := int (length xs)\<rparr>\<rparr>)"
  have "repair_walk ?ev1 (Some (hd xs)) (Some (last xs)) 0 = Some (?ev2, int (length xs))"
    using repair_walk_linked [of ?ev1 xs 0] ok(1) xs by (simp add: list_ok_def)
  then have "et_repair_inputlist ?ev1 ?ps1 = Some (ET_OK, ?ev2, ?ps2)"
    using ok(1) xs k by (simp add: et_repair_inputlist_def Let_def list_ok_def)
  moreover have "whole_in ev ps (set xs) xs (\<lambda>i. ev_owner (ev i)) (?ev2, ?ps2)"
  proof -
    have "link_only (set xs) ev ?ev1" by (rule link_only_set_owners) (auto dest: in_set_takeD)
    then have "link_only (set xs) ev ?ev2" by (rule link_only_trans [OF _ link_only_set_owners [OF order_refl]])
    moreover have "ev_owner (?ev2 j) = ev_owner (ev j)" for j
      using own by (auto dest: in_set_takeD)
    ultimately show ?thesis
      using ok xs by (auto simp: whole_in_def list_ok_def same_but_in_def clear_in_first_def)
  qed
  ultimately show ?thesis
    by (intro mends_in_fixed [where ?ev1.0 = ?ev2 and ?ps1.0 = ?ps2]) (simp_all add: whole_read_def whole_in_unlock)
qed

definition with_in :: "et_station \<Rightarrow> et_list \<Rightarrow> et_fixin \<Rightarrow> et_station" where
  "with_in ps pl fi = ps\<lparr>st_list_in := pl, st_fix := (st_fix ps)\<lparr>fix_in := fi\<rparr>\<rparr>"

lemma with_in_steps:
  "in_in f (ev', with_in ps pl fi) = (fst (f (ev', pl)), with_in ps (snd (f (ev', pl))) fi)"
  "on_fixin g (ev', with_in ps pl fi) = (ev', with_in ps pl (g fi))"
  "on_ev h (ev', with_in ps pl fi) = (h ev', with_in ps pl fi)"
  by (simp_all add: with_in_def in_in_def on_fixin_def on_pl_def on_ev_def split: prod.split)

lemma with_in_same: "with_in ps (st_list_in ps) (fix_in (st_fix ps)) = ps"
  by (simp add: with_in_def)

text \<open>The states before a read is recorded, and those when the events are taken out of the list.\<close>

lemma read_before:
  assumes "list_ok ev (st_list_in ps) xs" "fi_start fi = 0" "fi_first fi = None"
  shows "mends_in gc (whole_read ev ps xs k att) (ev, with_in ps ((st_list_in ps)\<lparr>l_mutex := b\<rparr>) fi)"
  by (rule mends_in_whole [of ev ps "set xs" xs "\<lambda>i. ev_owner (ev i)"])
    (use assms in \<open>auto simp: whole_in_def whole_read_def same_but_in_def with_in_def list_ok_def\<close>)

lemma read_during:
  assumes "list_ok ev (st_list_in ps) xs" "\<not> l_mutex (st_list_in ps)" "fi_start (fix_in (st_fix ps)) = 0"
    "\<forall>i \<in> set xs. ev_owner (ev i) = ET_SYS" "0 < k" "k \<le> length xs"
  shows "mends_in gc (whole_read ev ps xs k att) (set_owners ev (take i (take k xs)) att,
     with_in ps ((st_list_in ps)\<lparr>l_mutex := True, l_firstevent := f\<rparr>) ((fix_in (st_fix ps))
       \<lparr>fi_num := int k, fi_cnt := int (length xs), fi_call := ET_FIX_READ, fi_first := Some (hd xs)\<rparr>))"
  using mends_in_read_back [OF assms, of gc att i f] by (simp add: with_in_def)

lemma read_taken:
  assumes ok: "list_ok ev (st_list_in ps) xs" "fi_start fi = 0" "fi_num fi = int k" "fi_cnt fi = int (length xs)" "fi_call fi = ET_FIX_READ"
    and k: "0 < k" "k \<le> length xs"
    and pl: "pl = (st_list_in ps)\<lparr>l_mutex := b, l_firstevent := ev_next (ev (last (take k xs))), l_cnt := int (length xs) - int k\<rparr>"
  shows "fi_first fi = None \<or> b \<Longrightarrow> mends_in gc (whole_read ev ps xs k att) (set_owners ev (take k xs) att, with_in ps pl fi)"
proof -
  assume f: "fi_first fi = None \<or> b"
  let ?evk = "set_owners ev (take k xs) att" and ?own = "\<lambda>i. if i \<in> set (take k xs) then att else ev_owner (ev i)"
  have lk: "list_ok ?evk ((st_list_in ps)\<lparr>l_firstevent := ev_next (ev (last (take k xs))), l_cnt := int (length xs - k)\<rparr>) (drop k xs)"
    using list_ok_drop [of ?evk "st_list_in ps" xs k] ok(1) k by (simp add: list_ok_def)
  have wh: "whole_in ev ps (set xs) (drop k xs) ?own (?evk, with_in ps pl (fi\<lparr>fi_first := None\<rparr>))"
    using lk ok(2) k link_only_set_owners [of "take k xs" "set xs" ev att] ok(1)
    by (auto simp: whole_in_def same_but_in_def list_ok_def of_nat_diff with_in_def pl dest: in_set_takeD)
  show ?thesis
  proof (cases "fi_first fi = None")
    case True
    then have "fi\<lparr>fi_first := None\<rparr> = fi" by simp
    then show ?thesis using mends_in_whole [OF wh] by (simp add: whole_read_def)
  next
    case False
    have "et_repair_inputlist ?evk (with_in ps pl fi) = Some (ET_OK, ?evk, clear_in_first (with_in ps pl fi))"
      using False ok(3,4) by (auto simp: et_repair_inputlist_def with_in_def pl)
    moreover have "clear_in_first (with_in ps pl fi) = with_in ps pl (fi\<lparr>fi_first := None\<rparr>)" by (simp add: clear_in_first_def with_in_def)
    ultimately show ?thesis using f False ok(5) wh
      by (intro mends_in_fixed [where ?ev1.0 = ?evk and ?ps1.0 = "with_in ps pl (fi\<lparr>fi_first := None\<rparr>)"])
        (simp_all add: whole_read_def whole_in_unlock with_in_def pl)
  qed
qed

lemma read_over:
  assumes "list_ok ev (st_list_in ps) xs" "fi_start fi = 0" "fi_num fi = int k" "fi_cnt fi = int (length xs)" "fi_call fi = ET_FIX_READ"
    "fi_first fi = None" "0 < k" "k \<le> length xs"
  shows "mends_in gc (whole_read ev ps xs k att) (set_owners ev (take k xs) att,
     with_in ps ((st_list_in ps)\<lparr>l_firstevent := ev_next (ev (last (take k xs))), l_cnt := int (length xs) - int k, l_mutex := b\<rparr>) fi)"
  by (rule read_taken [OF assms(1-5,7,8), where b = b]) (use assms(6) in simp_all)

lemma always_nread_code:
  assumes ok: "list_ok ev (st_list_in ps) xs" "\<not> l_mutex (st_list_in ps)" "fi_start (fix_in (st_fix ps)) = 0"
      "fi_first (fix_in (st_fix ps)) = None"
    and own: "\<forall>i \<in> set xs. ev_owner (ev i) = ET_SYS" and k: "0 < k" "k \<le> length xs"
  shows "always (mends_in gc (whole_read ev ps xs k att)) (nread_code ev ps att (int k) (take k xs)) (ev, ps)"
proof -
  let ?pl = "st_list_in ps" and ?fi = "fix_in (st_fix ps)" and ?M = "mends_in gc (whole_read ev ps xs k att)"
  let ?evk = "set_owners ev (take k xs) att" and ?lock = "(st_list_in ps)\<lparr>l_mutex := True\<rparr>"
  have xs: "l_cnt ?pl = int (length xs)" "l_firstevent ?pl = Some (hd xs)" using k ok(1) by (auto simp: list_ok_def)
  let ?fif = "?fi\<lparr>fi_num := int k, fi_cnt := int (length xs), fi_call := ET_FIX_READ, fi_first := Some (hd xs)\<rparr>"
  note during = read_during [OF ok(1-3) own k, of gc att]
  have d0: "?M (set_owners ev (take i (take k xs)) att, with_in ps ?lock ?fif)" for i
    using during [of i "l_firstevent ?pl"] by simp
  let ?startup = "[in_in (set_mutex True), on_fixin (\<lambda>f. f\<lparr>fi_num := int k\<rparr>), on_fixin (\<lambda>f. f\<lparr>fi_cnt := l_cnt ?pl\<rparr>),
      on_fixin (\<lambda>f. f\<lparr>fi_call := ET_FIX_READ\<rparr>), on_fixin (\<lambda>f. f\<lparr>fi_first := l_firstevent ?pl\<rparr>)]"
  have "always ?M ?startup (ev, with_in ps ?pl ?fi) \<and> exec ?startup (ev, with_in ps ?pl ?fi) = (ev, with_in ps ?lock ?fif)"
    using read_before [OF ok(1), of ?fi gc k att "l_mutex ?pl"] d0 [of 0] ok(3,4) xs read_before [OF ok(1), where b = True]
    by (simp add: with_in_steps on_pl_def)
  then have start: "always ?M ?startup (ev, ps)" "exec ?startup (ev, ps) = (ev, with_in ps ?lock ?fif)"
    unfolding with_in_same by blast+
  have owners: "always ?M (map (\<lambda>e. on_ev (\<lambda>ev. set_owner ev e att)) (take k xs)) (ev, with_in ps ?lock ?fif)"
    by (rule always_owners) (rule d0)
  let ?final = "[in_in (set_first (ev_next (ev (last (take k xs))))), in_in (add_cnt (- int k)), on_fixin (\<lambda>f. f\<lparr>fi_first := None\<rparr>),
      in_in (set_mutex False)]"
  have last: "always ?M ?final (?evk, with_in ps ?lock ?fif)"
    using d0 [of k] during [of k "ev_next (ev (last (take k xs)))"] read_taken [OF ok(1) _ _ _ _ k refl, where b = True and gc = gc and att = att]
      read_over [OF ok(1) _ _ _ _ _ k, where b = False and gc = gc and att = att] ok(3) xs
    by (simp add: with_in_steps on_pl_def)
  show ?thesis
    using start owners last by (simp only: nread_code_def always_append exec_owners simp_thms)
qed

text \<open>\<open>et_station_read\<close> moves the head of the list before it writes the owner.\<close>

lemma always_read_code:
  assumes ok: "list_ok ev (st_list_in ps) xs" "\<not> l_mutex (st_list_in ps)" "fi_start (fix_in (st_fix ps)) = 0"
      "fi_first (fix_in (st_fix ps)) = None"
    and own: "\<forall>i \<in> set xs. ev_owner (ev i) = ET_SYS" and xs: "xs \<noteq> []"
  shows "always (mends_in gc (whole_read ev ps xs 1 att)) (read_code ev ps att (hd xs)) (ev, ps)"
proof -
  let ?pl = "st_list_in ps" and ?fi = "fix_in (st_fix ps)"
  have k: "0 < (1 :: nat)" "1 \<le> length xs" and h: "take 1 xs = [hd xs]" using xs by (cases xs; simp)+
  have l: "l_cnt ?pl = int (length xs)" "l_firstevent ?pl = Some (hd xs)" using xs ok(1) by (auto simp: list_ok_def)
  have "?fi\<lparr>fi_num := int 1, fi_cnt := int (length xs), fi_call := ET_FIX_READ, fi_first := Some (hd xs)\<rparr> =
      ?fi\<lparr>fi_cnt := int (length xs), fi_num := 1, fi_call := ET_FIX_READ, fi_first := Some (hd xs)\<rparr>" by simp
  note during = read_during [OF ok(1-3) own k, of gc att, unfolded h this]
  have d0: "mends_in gc (whole_read ev ps xs 1 att) (ev, with_in ps (?pl\<lparr>l_mutex := True\<rparr>)
      (?fi\<lparr>fi_cnt := int (length xs), fi_num := 1, fi_call := ET_FIX_READ, fi_first := Some (hd xs)\<rparr>))"
    using during [of 0 "l_firstevent ?pl"] by simp
  have "always (mends_in gc (whole_read ev ps xs 1 att)) (read_code ev ps att (hd xs)) (ev, with_in ps ?pl ?fi)" unfolding read_code_def
    using read_before [OF ok(1), of ?fi gc 1 att "l_mutex ?pl"] read_before [OF ok(1), where b = True and k = 1] ok(3,4) l
      d0 during [of 0] during [of 1] read_taken [OF ok(1) _ _ _ _ k refl, where b = True and gc = gc and att = att, unfolded h]
      read_over [OF ok(1) _ _ _ _ _ k, where b = False and gc = gc and att = att, unfolded h]
    by (simp add: with_in_steps on_pl_def)
  then show ?thesis unfolding with_in_same .
qed

section \<open>The assignments together are the operations\<close>

lemma find_lasthigh_mutex [simp]: "find_lasthigh ev (pl\<lparr>l_mutex := b\<rparr>) = find_lasthigh ev pl"
  by (simp add: find_lasthigh_def)

lemma exec_append_code: "exec (append_code l es) (ev, pl) = append_loop ev pl l es"
  by (induction l es arbitrary: ev pl rule: append_code.induct) simp_all

lemma exec_first_code: "exec (first_code ev0 e) (ev, pl) =
   (set_owner ev e ET_SYS, (link_only_one ev0 pl e)\<lparr>l_cnt := l_cnt pl + 1\<rparr>)"
  by (simp add: first_code_def link_only_one_def)

lemma in_out_mutex: "in_out (set_mutex False) (ev, ps) = (ev, ps\<lparr>st_list_out := et_llist_unlock (st_list_out ps)\<rparr>)"
  "in_in (set_mutex False) (ev, ps) = (ev, ps\<lparr>st_list_in := et_llist_unlock (st_list_in ps)\<rparr>)"
  by (simp_all add: in_out_def in_in_def et_llist_unlock_def)

definition opened_list :: "et_list \<Rightarrow> et_list" where
  "opened_list pl = (if l_cnt pl = 0 then pl\<lparr>l_mutex := True, l_firstevent := None\<rparr> else pl\<lparr>l_mutex := True\<rparr>)"

lemma exec_out_section:
  assumes "exec put (ev, opened_list (st_list_out ps)) = (ev2, pl2)"
  shows "exec (out_section (st_list_out ps) num put) (ev, ps) =
     (ev2, (fix_out_end (fix_out_begin ps (opened_list (st_list_out ps)) num))\<lparr>st_list_out := et_llist_unlock pl2\<rparr>)"
proof -
  let ?pl = "st_list_out ps"
  define pl0 where "pl0 = (if l_cnt ?pl = 0 then ?pl\<lparr>l_mutex := True, l_firstevent := None\<rparr> else ?pl\<lparr>l_mutex := True\<rparr>)"
  let ?ps1 = "(fix_out_begin ps pl0 num)\<lparr>st_list_out := pl0\<rparr>"
  have "exec (map in_out (set_mutex True # empty_first ?pl)
      @ [on_fixout (\<lambda>f. f\<lparr>fo_cnt := l_cnt ?pl\<rparr>), on_fixout (\<lambda>f. f\<lparr>fo_num := num\<rparr>),
         on_fixout (\<lambda>f. f\<lparr>fo_start := fo_start f + 1\<rparr>)]) (ev, ps) = (ev, ?ps1)"
    by (cases "fix_out (st_fix ps)") (simp add: in_out_def on_fixout_def on_pl_def empty_first_def pl0_def fix_out_begin_def)
  moreover have "exec (map in_out put) (ev, ?ps1) = (ev2, ?ps1\<lparr>st_list_out := pl2\<rparr>)"
    using exec_in_out [of put ev ?ps1] assms by (simp add: opened_list_def pl0_def)
  moreover have "on_fixout (\<lambda>f. f\<lparr>fo_start := fo_start f - 1\<rparr>) (ev2, ?ps1\<lparr>st_list_out := pl2\<rparr>) =
      (ev2, (fix_out_end (fix_out_begin ps pl0 num))\<lparr>st_list_out := pl2\<rparr>)"
    by (simp add: on_fixout_def on_pl_def fix_out_end_def fix_out_begin_def)
  ultimately show ?thesis
    using in_out_mutex(1) by (auto simp: out_section_def opened_list_def pl0_def)
qed

lemma exec_in_section:
  assumes "exec put (ev, opened_list (st_list_in ps)) = (ev2, pl2)"
  shows "exec (in_section (st_list_in ps) num put) (ev, ps) =
     (ev2, (fix_in_dump_end (fix_in_dump_begin ps (opened_list (st_list_in ps)) num))\<lparr>st_list_in := et_llist_unlock pl2\<rparr>)"
proof -
  let ?pl = "st_list_in ps"
  define pl0 where "pl0 = (if l_cnt ?pl = 0 then ?pl\<lparr>l_mutex := True, l_firstevent := None\<rparr> else ?pl\<lparr>l_mutex := True\<rparr>)"
  let ?ps1 = "(fix_in_dump_begin ps pl0 num)\<lparr>st_list_in := pl0\<rparr>"
  have "exec (map in_in (set_mutex True # empty_first ?pl)
      @ [on_fixin (\<lambda>f. f\<lparr>fi_eventsin := l_events_in ?pl\<rparr>), on_fixin (\<lambda>f. f\<lparr>fi_cnt := l_cnt ?pl\<rparr>),
         on_fixin (\<lambda>f. f\<lparr>fi_num := num\<rparr>), on_fixin (\<lambda>f. f\<lparr>fi_call := ET_FIX_DUMP\<rparr>),
         on_fixin (\<lambda>f. f\<lparr>fi_start := fi_start f + 1\<rparr>)]) (ev, ps) = (ev, ?ps1)"
    by (cases "fix_in (st_fix ps)") (simp add: in_in_def on_fixin_def on_pl_def empty_first_def pl0_def fix_in_dump_begin_def)
  moreover have "exec (map in_in put) (ev, ?ps1) = (ev2, ?ps1\<lparr>st_list_in := pl2\<rparr>)"
    using exec_in_in [of put ev ?ps1] assms by (simp add: opened_list_def pl0_def)
  moreover have "on_fixin (\<lambda>f. f\<lparr>fi_start := fi_start f - 1\<rparr>) (ev2, ?ps1\<lparr>st_list_in := pl2\<rparr>) =
      (ev2, (fix_in_dump_end (fix_in_dump_begin ps pl0 num))\<lparr>st_list_in := pl2\<rparr>)"
    by (simp add: on_fixin_def on_pl_def fix_in_dump_end_def fix_in_dump_begin_def)
  ultimately show ?thesis
    using in_out_mutex(2) by (auto simp: in_section_def opened_list_def pl0_def)
qed

lemma exec_put_code:
  assumes "put_code ev pl es = Some put" "l_cnt pl = 0" "es = e # rest"
  shows "exec put (ev, opened_list pl) = nwrite_loop (set_owner ev e ET_SYS)
     ((link_only_one ev (opened_list pl) e)\<lparr>l_cnt := l_cnt pl + 1\<rparr>) (if ev_priority (ev e) = ET_HIGH then Some e else None) e rest"
  using assms by (auto simp: put_code_def exec_first_code exec_link_code opened_list_def link_only_one_def)

lemma exec_put_code_nonempty:
  assumes "put_code ev pl es = Some put" "l_cnt pl \<noteq> 0"
  shows "\<exists>lh l. find_lasthigh ev pl = Some lh \<and> l_lastevent pl = Some l \<and>
     exec put (ev, opened_list pl) = nwrite_loop ev (opened_list pl) lh l es"
  using assms by (auto simp: put_code_def exec_link_code split: option.splits)

lemma exec_nwrite_code:
  assumes "nwrite_code ev ps es = Some code" "\<not> l_mutex (st_list_out ps)" "int (length es) \<le> nevents - l_cnt (st_list_out ps)"
  shows "station_nwrite_core nevents es (int (length es)) ev ps =
     Some (ET_OK, fst (exec code (ev, ps)), snd (exec code (ev, ps)))"
proof -
  let ?pl = "st_list_out ps"
  from assms(1) obtain put where put: "put_code ev ?pl es = Some put" "code = out_section ?pl (int (length es)) put"
    by (auto simp: nwrite_code_def split: option.splits)
  obtain ev2 pl2 where e: "exec put (ev, opened_list ?pl) = (ev2, pl2)" by fastforce
  note ex = exec_out_section [OF this, of "int (length es)", folded put(2)]
  show ?thesis
  proof (cases "l_cnt ?pl = 0")
    case True
    then obtain e1 rest where es: "es = e1 # rest" using put(1) by (auto simp: put_code_def split: list.splits)
    with exec_put_code [OF put(1) True es] show ?thesis using assms(2,3) True e ex
      by (simp add: station_nwrite_core_def et_llist_lock_def Let_def opened_list_def link_only_one_def)
  next
    case False
    from exec_put_code_nonempty [OF put(1) False] e obtain lh l where "find_lasthigh ev ?pl = Some lh" "l_lastevent ?pl = Some l"
      "nwrite_loop ev (opened_list ?pl) lh l es = (ev2, pl2)" by metis
    with False show ?thesis using assms(2,3) ex
      by (simp add: station_nwrite_core_def et_llist_lock_def Let_def opened_list_def)
  qed
qed

lemma exec_write_code:
  assumes "write_code ev ps e = Some code" "\<not> l_mutex (st_list_out ps)" "l_cnt (st_list_out ps) < nevents"
  shows "station_write_core nevents e ev ps = Some (ET_OK, fst (exec code (ev, ps)), snd (exec code (ev, ps)))"
proof -
  let ?pl = "st_list_out ps"
  from assms(1) obtain put where put: "put_one_code ev ?pl e = Some put" "code = out_section ?pl 1 put"
    by (auto simp: write_code_def split: option.splits)
  obtain ev2 pl2 where e: "exec put (ev, opened_list ?pl) = (ev2, pl2)" by fastforce
  note ex = exec_out_section [OF this, of 1, folded put(2)]
  show ?thesis
  proof (cases "l_cnt ?pl = 0")
    case True
    with put(1) have "exec put (ev, opened_list ?pl) =
        (set_owner ev e ET_SYS, (link_only_one ev (opened_list ?pl) e)\<lparr>l_cnt := l_cnt ?pl + 1\<rparr>)"
      by (auto simp: put_one_code_def link_only_one_def opened_list_def)
    then show ?thesis using assms(2,3) True e ex
      by (simp add: station_write_core_def et_llist_lock_def Let_def opened_list_def link_only_one_def)
  next
    case False
    with put(1) have "put_code ev ?pl [e] = Some put" by (simp add: put_one_code_def)
    from exec_put_code_nonempty [OF this False] e obtain lh l where h: "find_lasthigh ev ?pl = Some lh" "l_lastevent ?pl = Some l"
      and n: "nwrite_loop ev (opened_list ?pl) lh l [e] = (ev2, pl2)" by metis
    let ?lk = "if ev_priority (ev e) = ET_LOW then link_low ev (opened_list ?pl) l e else link_high ev (opened_list ?pl) lh (Some l) e"
    obtain ev1 pl1 where lk: "?lk = (ev1, pl1)" by fastforce
    with n have "ev2 = set_owner ev1 e ET_SYS" "pl2 = pl1\<lparr>l_cnt := l_cnt pl1 + 1\<rparr>" by (auto split: if_splits)
    with h lk False show ?thesis using assms(2,3) ex
      by (cases "ev_priority (ev e) = ET_LOW") (simp_all add: station_write_core_def et_llist_lock_def Let_def opened_list_def)
  qed
qed

lemma exec_tail_code:
  assumes "tail_code pl es = Some put"
  shows "append_events ev (opened_list pl) es = Some (exec put (ev, opened_list pl))"
  using assms by (auto simp: tail_code_def append_events_def opened_list_def exec_append_code split: list.splits option.splits if_splits)

lemma exec_ndump_code:
  assumes "ndump_code ps es = Some code" "\<not> l_mutex (st_list_in ps)" "int (length es) \<le> nevents - l_cnt (st_list_in ps)"
  shows "station_ndump_core nevents es (int (length es)) ev ps =
     Some (ET_OK, fst (exec code (ev, ps)), snd (exec code (ev, ps)))"
proof -
  let ?pl = "st_list_in ps"
  from assms(1) obtain put where put: "tail_code ?pl es = Some put" "code = in_section ?pl (int (length es)) put"
    by (auto simp: ndump_code_def split: option.splits)
  obtain ev2 pl2 where e: "exec put (ev, opened_list ?pl) = (ev2, pl2)" by fastforce
  note ex = exec_in_section [OF this, of "int (length es)", folded put(2)]
  have "append_events ev (opened_list ?pl) es = Some (ev2, pl2)" using exec_tail_code [OF put(1), of ev] e by simp
  then show ?thesis using assms(2,3) ex
    by (simp add: station_ndump_core_def et_llist_lock_def Let_def opened_list_def)
qed

lemma exec_dump_code:
  assumes "dump_code ps e = Some code" "\<not> l_mutex (st_list_in ps)" "l_cnt (st_list_in ps) < nevents"
  shows "station_dump_core nevents e ev ps = Some (ET_OK, fst (exec code (ev, ps)), snd (exec code (ev, ps)))"
proof -
  let ?pl = "st_list_in ps"
  from assms(1) obtain put where put: "tail_code ?pl [e] = Some put"
    "code = in_section ?pl 1 (put @ [on_pl (\<lambda>pl. pl\<lparr>l_events_in := l_events_in pl + 1\<rparr>)])"
    by (auto simp: dump_code_def split: option.splits)
  obtain ev2 pl2 where e: "exec put (ev, opened_list ?pl) = (ev2, pl2)" by fastforce
  then have "exec (put @ [on_pl (\<lambda>pl. pl\<lparr>l_events_in := l_events_in pl + 1\<rparr>)]) (ev, opened_list ?pl) =
      (ev2, pl2\<lparr>l_events_in := l_events_in pl2 + 1\<rparr>)" by simp
  note ex = exec_in_section [OF this, of 1, folded put(2)]
  show ?thesis
  proof (cases "l_cnt ?pl = 0")
    case True
    with put(1) e have "ev2 = set_owner ev e ET_SYS" "pl2 = (opened_list ?pl)\<lparr>l_firstevent := Some e, l_lastevent := Some e, l_cnt := l_cnt ?pl + 1\<rparr>"
      by (auto simp: tail_code_def opened_list_def)
    with True show ?thesis using assms(2,3) ex
      by (simp add: station_dump_core_def et_llist_lock_def Let_def opened_list_def put_first_def)
  next
    case False
    with put(1) obtain l where "l_lastevent ?pl = Some l" "put = append_code l [e]" by (auto simp: tail_code_def split: option.splits)
    moreover from this e have "ev2 = set_owner (set_next ev l (Some e)) e ET_SYS"
      "pl2 = (opened_list ?pl)\<lparr>l_lastevent := Some e, l_cnt := l_cnt ?pl + 1\<rparr>"
      using False by (auto simp: opened_list_def)
    ultimately show ?thesis using False assms(2,3) ex
      by (simp add: station_dump_core_def et_llist_lock_def Let_def opened_list_def put_first_def)
  qed
qed

lemma exec_nread_code:
  assumes "follow ev (nat num) (l_firstevent (st_list_in ps)) = Some pe" "pe \<noteq> []" "num \<le> l_cnt (st_list_in ps)"
  shows "station_nread_core num att ev ps =
     Some (pe, fst (exec (nread_code ev ps att num pe) (ev, ps)), snd (exec (nread_code ev ps att num pe) (ev, ps)))"
  using assms
  by (cases ps; cases "st_list_in ps"; cases "st_fix ps"; cases "fix_in (st_fix ps)")
    (simp add: nread_code_def exec_owners station_nread_core_def Let_def in_in_def on_fixin_def on_pl_def
      fix_in_read_def fix_in_read_done_def et_llist_unlock_def)

lemma exec_read_code:
  assumes "l_firstevent (st_list_in ps) = Some e"
  shows "station_read_core att ev ps =
     Some ([e], fst (exec (read_code ev ps att e) (ev, ps)), snd (exec (read_code ev ps att e) (ev, ps)))"
  using assms
  by (cases ps; cases "st_list_in ps"; cases "st_fix ps"; cases "fix_in (st_fix ps)")
    (simp add: read_code_def station_read_core_def Let_def in_in_def on_fixin_def on_pl_def
      fix_in_read_def fix_in_read_done_def et_llist_unlock_def)

lemma exec_group_code:
  "group_scan ev pl prev pev n num grp att pe = Some (pe', ev', pl') \<Longrightarrow>
     exec (group_code ev prev pev n num grp att (int (length pe))) (ev, pl) = (ev', pl')"
proof (induction ev pl prev pev n num grp att pe rule: group_scan.induct)
  case (3 ev pl prev i n num grp att pe)
  show ?case
  proof (cases "ev_group (ev i) \<noteq> grp")
    case False
    show ?thesis
      using 3 False by (cases prev) (auto simp: Let_def add.commute split: if_splits)
  qed (use 3 in simp)
qed simp_all

lemma exec_nread_group_code:
  assumes "group_scan ev ((st_list_in ps)\<lparr>l_mutex := True\<rparr>) None (l_firstevent (st_list_in ps)) (nat (l_cnt (st_list_in ps))) num grp att [] = Some (pe, ev1, pl1)"
    "l_mutex (st_list_in ps)"
  shows "station_nread_group_core num grp att ev ps =
     Some (pe, fst (exec (nread_group_code ev ps att num grp pe) (ev, ps)), snd (exec (nread_group_code ev ps att num grp pe) (ev, ps)))"
proof -
  have pl: "(st_list_in ps)\<lparr>l_mutex := True\<rparr> = st_list_in ps" using assms(2) by simp
  from exec_group_code [OF assms(1)] have
    "exec (group_code ev None (l_firstevent (st_list_in ps)) (nat (l_cnt (st_list_in ps))) num grp att 0) (ev, st_list_in ps) = (ev1, pl1)"
    by (simp add: pl)
  then show ?thesis using assms pl
    by (cases ps; cases "st_list_in ps"; cases "st_fix ps"; cases "fix_in (st_fix ps)")
      (simp add: nread_group_code_def exec_in_in station_nread_group_core_def Let_def in_in_def on_fixin_def on_pl_def
        fix_in_read_def fix_in_read_done_def et_llist_unlock_def)
qed

end
