(* ===== verification/ET_Crash.thy ===== *)
theory ET_Crash
  imports ET_Cycle ET_CrashIO
begin

text \<open>
  The death of a user's process in the middle of an operation on an event list, and the repair by the
  ET system process (\<open>et_sys_heartmonitor\<close> calls \<open>et_repair_gc\<close> and then \<open>et_repair_station\<close> for
  the stations of the dead process). Wherever the process died, repair re-establishes the invariant
  of theory \<open>ET_Cycle\<close>: no event is lost or duplicated. A death while events of a group are read
  is the exception: repair then may not return.
\<close>

section \<open>Where a process dies\<close>

definition set_smem :: "et_id \<Rightarrow> nat \<Rightarrow> smem \<Rightarrow> et_id" where
  "set_smem eid s m = eid\<lparr>id_stats := (id_stats eid)[s := snd m], id_events := fst m\<rparr>"

definition smem_of :: "et_id \<Rightarrow> nat \<Rightarrow> smem" where
  "smem_of eid s = (id_events eid, id_stats eid ! s)"

text \<open>No operation is under way.\<close>

definition fix_clear :: "et_id \<Rightarrow> bool" where
  "fix_clear eid \<longleftrightarrow> (\<forall>ps \<in> set (id_stats eid). fo_start (fix_out (st_fix ps)) = 0 \<and>
     fi_start (fix_in (st_fix ps)) = 0 \<and> fi_first (fix_in (st_fix ps)) = None)"

text \<open>
  A process with an attachment to station \<open>s\<close> dies after \<open>k\<close> assignments: it was putting events into
  the station's output list, dumping events, or reading events of the station's input list or new
  events from GrandCentral's, with the routines for one or for several events. Reading the events of
  one group is not among these.
\<close>

inductive dies :: "et_id \<Rightarrow> nat \<Rightarrow> et_id \<Rightarrow> bool" where
  dies_write: "s < length (id_stats eid) \<Longrightarrow> held eid es \<Longrightarrow> es \<noteq> [] \<Longrightarrow>
    nwrite_code (id_events eid) (id_stats eid ! s) es = Some code \<Longrightarrow>
    dies eid s (set_smem eid s (exec (take k code) (smem_of eid s)))"
| dies_write_one: "s < length (id_stats eid) \<Longrightarrow> held eid [e] \<Longrightarrow>
    write_code (id_events eid) (id_stats eid ! s) e = Some code \<Longrightarrow>
    dies eid s (set_smem eid s (exec (take k code) (smem_of eid s)))"
| dies_dump: "s < length (id_stats eid) \<Longrightarrow> held eid es \<Longrightarrow> es \<noteq> [] \<Longrightarrow> ndump_code (id_stats eid ! 0) es = Some code \<Longrightarrow>
    dies eid s (set_smem eid 0 (exec (take k code) (smem_of eid 0)))"
| dies_dump_one: "s < length (id_stats eid) \<Longrightarrow> held eid [e] \<Longrightarrow> dump_code (id_stats eid ! 0) e = Some code \<Longrightarrow>
    dies eid s (set_smem eid 0 (exec (take k code) (smem_of eid 0)))"
| dies_read: "s < length (id_stats eid) \<Longrightarrow> t = s \<or> t = 0 \<Longrightarrow> 0 \<le> att \<Longrightarrow> 1 \<le> num \<Longrightarrow> num \<le> l_cnt (in_pl eid t) \<Longrightarrow>
    follow (id_events eid) (nat num) (l_firstevent (in_pl eid t)) = Some pe \<Longrightarrow>
    dies eid s (set_smem eid t (exec (take k (nread_code (id_events eid) (id_stats eid ! t) att num pe)) (smem_of eid t)))"
| dies_read_one: "s < length (id_stats eid) \<Longrightarrow> t = s \<or> t = 0 \<Longrightarrow> 0 \<le> att \<Longrightarrow> 1 \<le> l_cnt (in_pl eid t) \<Longrightarrow>
    l_firstevent (in_pl eid t) = Some e \<Longrightarrow>
    dies eid s (set_smem eid t (exec (take k (read_code (id_events eid) (id_stats eid ! t) att e)) (smem_of eid t)))"

section \<open>Repair of the shared memory\<close>

lemma mutex_tries_alone: "mutex_tries locked k [] eid = (k = 0 \<or> locked eid, eid)"
  by (induction k) auto

lemma mutex_locked_alone [simp]: "et_mutex_locked locked [] eid = (locked eid, eid)"
  by (simp add: et_mutex_locked_def mutex_tries_alone)

lemma set_smem_same [simp]: "set_smem eid s (smem_of eid s) = eid"
  by (simp add: set_smem_def smem_of_def)

lemma set_smem_simps [simp]:
  "s < length (id_stats eid) \<Longrightarrow> smem_of (set_smem eid s m) s = m" "set_smem (set_smem eid s m) s m' = set_smem eid s m'"
  "length (id_stats (set_smem eid s m)) = length (id_stats eid)" "id_events (set_smem eid s m) = fst m"
  "nevents_max (set_smem eid s m) = nevents_max eid" "id_histogram (set_smem eid s m) = id_histogram eid"
  "s < length (id_stats eid) \<Longrightarrow> id_stats (set_smem eid s m) ! t = (if t = s then snd m else id_stats eid ! t)"
  by (auto simp: set_smem_def smem_of_def nevents_max_def nth_list_update)

lemma repair_list_mend:
  assumes "(case repair (id_events eid) (id_stats eid ! s) of None \<Rightarrow> None
      | Some (status, ev, ps) \<Rightarrow> if status = ET_ERROR then None else Some (ev, unlock ps)) = Some m"
  shows "repair_list unlock repair eid s = Some (ET_OK, set_smem eid s m)"
proof -
  from assms obtain status ev ps where "repair (id_events eid) (id_stats eid ! s) = Some (status, ev, ps)"
    "status \<noteq> ET_ERROR" "m = (ev, unlock ps)" by (auto split: option.splits if_splits)
  then show ?thesis by (simp add: repair_list_def set_smem_def)
qed

lemma repair_gc_mend:
  assumes "0 < length (id_stats eid)" "mend_in True (smem_of eid 0) = Some m"
  shows "et_repair_gc [] eid = Some (ET_OK, set_smem eid 0 m)"
proof (cases "in_locked 0 eid")
  case True
  with assms(2) have "(case (if fi_call (fix_in (st_fix (id_stats eid ! 0))) = ET_FIX_DUMP then et_repair_gcinputlist
          else et_repair_inputlist) (id_events eid) (id_stats eid ! 0) of None \<Rightarrow> None
      | Some (status, ev, ps) \<Rightarrow> if status = ET_ERROR then None else Some (ev, unlock_in ps)) = Some m"
    by (cases "fi_call (fix_in (st_fix (id_stats eid ! 0))) = ET_FIX_DUMP") (simp_all add: mend_in_def smem_of_def in_locked_def)
  from repair_list_mend [where repair = "if fi_call (fix_in (st_fix (id_stats eid ! 0))) = ET_FIX_DUMP then et_repair_gcinputlist
      else et_repair_inputlist", OF this] True assms(1) show ?thesis by (simp add: et_repair_gc_def)
next
  case False
  then have "m = smem_of eid 0" using assms(2) by (simp add: mend_in_def smem_of_def in_locked_def)
  with False assms(1) show ?thesis by (simp add: et_repair_gc_def)
qed

lemma repair_station_mend_in:
  assumes "s < length (id_stats eid)" "mend_in False (smem_of eid s) = Some m" "\<not> out_locked s eid"
  shows "et_repair_station [] [] eid s = Some (ET_OK, set_smem eid s m)"
proof (cases "in_locked s eid")
  case True
  with assms(2) have "(case et_repair_inputlist (id_events eid) (id_stats eid ! s) of None \<Rightarrow> None
      | Some (status, ev, ps) \<Rightarrow> if status = ET_ERROR then None else Some (ev, unlock_in ps)) = Some m"
    by (simp add: mend_in_def smem_of_def in_locked_def)
  from repair_list_mend [where repair = et_repair_inputlist, OF this] True assms(1) show ?thesis by (simp add: et_repair_station_def)
next
  case False
  then have "m = smem_of eid s" using assms(2) by (simp add: mend_in_def smem_of_def in_locked_def)
  with False assms(1,3) show ?thesis by (simp add: et_repair_station_def)
qed

lemma repair_station_mend_out:
  assumes "s < length (id_stats eid)" "mend_out (smem_of eid s) = Some m" "\<not> in_locked s eid"
  shows "et_repair_station [] [] eid s = Some (ET_OK, set_smem eid s m)"
proof (cases "out_locked s eid")
  case True
  with assms(2) have "(case et_repair_outputlist (id_events eid) (id_stats eid ! s) of None \<Rightarrow> None
      | Some (status, ev, ps) \<Rightarrow> if status = ET_ERROR then None else Some (ev, unlock_out ps)) = Some m"
    by (simp add: mend_out_def smem_of_def out_locked_def)
  from repair_list_mend [where repair = et_repair_outputlist, OF this] True assms(1,3) show ?thesis by (simp add: et_repair_station_def)
next
  case False
  then have "m = smem_of eid s" using assms(2) by (simp add: mend_out_def smem_of_def out_locked_def)
  with False assms(1,3) show ?thesis by (simp add: et_repair_station_def)
qed

lemma repair_station_idle:
  "s < length (id_stats eid) \<Longrightarrow> \<not> in_locked s eid \<Longrightarrow> \<not> out_locked s eid \<Longrightarrow> et_repair_station [] [] eid s = Some (ET_OK, eid)"
  by (simp add: et_repair_station_def)

lemma repair_gc_idle: "0 < length (id_stats eid) \<Longrightarrow> \<not> in_locked 0 eid \<Longrightarrow> et_repair_gc [] eid = Some (ET_OK, eid)"
  by (simp add: et_repair_gc_def)

lemma events_ok_unlocked: "events_ok eid Q \<Longrightarrow> s < length (id_stats eid) \<Longrightarrow> \<not> in_locked s eid \<and> \<not> out_locked s eid"
  using lists_okD(2,9) [OF events_okD(1)] by (simp add: in_locked_def out_locked_def in_pl_def out_pl_def)

lemma listed_owner: "events_ok eid Q \<Longrightarrow> t < length (id_stats eid) + length (id_stats eid) \<Longrightarrow> e \<in> set (Q t) \<Longrightarrow>
   ev_owner (id_events eid e) = ET_SYS"
  using events_okD(4) in_lists_legal [OF events_okD(1)] unfolding in_lists_def by blast

section \<open>The invariant after repair\<close>

lemma fix_clear_set: "fix_clear eid \<Longrightarrow> fo_start (fix_out (st_fix (snd m))) = 0 \<Longrightarrow> fi_start (fix_in (st_fix (snd m))) = 0 \<Longrightarrow>
   fi_first (fix_in (st_fix (snd m))) = None \<Longrightarrow> fix_clear (set_smem eid s m)"
  using set_update_subset_insert [of "id_stats eid" s "snd m"] by (auto simp: fix_clear_def set_smem_def)

lemma same_but_outD:
  assumes "same_but_out ps ps'" shows "st_list_in ps' = st_list_in ps" "fix_in (st_fix ps') = fix_in (st_fix ps)"
proof -
  have eq: "ps'\<lparr>st_list_out := st_list_out ps, st_fix := (st_fix ps')\<lparr>fix_out := fix_out (st_fix ps)\<rparr>\<rparr> = ps"
    using assms by (simp add: same_but_out_def)
  show "st_list_in ps' = st_list_in ps" "fix_in (st_fix ps') = fix_in (st_fix ps)"
    using arg_cong [OF eq, of st_list_in] arg_cong [OF eq, of "\<lambda>p. fix_in (st_fix p)"] by simp_all
qed

lemma same_but_inD:
  assumes "same_but_in ps ps'" shows "st_list_out ps' = st_list_out ps" "fix_out (st_fix ps') = fix_out (st_fix ps)"
proof -
  have eq: "ps'\<lparr>st_list_in := st_list_in ps, st_fix := (st_fix ps')\<lparr>fix_in := fix_in (st_fix ps)\<rparr>\<rparr> = ps"
    using assms by (simp add: same_but_in_def)
  show "st_list_out ps' = st_list_out ps" "fix_out (st_fix ps') = fix_out (st_fix ps)"
    using arg_cong [OF eq, of st_list_out] arg_cong [OF eq, of "\<lambda>p. fix_out (st_fix p)"] by simp_all
qed

lemma whole_out_events:
  assumes ok: "events_ok eid Q" "fix_clear eid" and s: "s < length (id_stats eid)" and h: "held eid es"
    and w: "whole_out (id_events eid) (id_stats eid ! s) (Q (length (id_stats eid) + s)) es m" "\<not> l_mutex (st_list_out (snd m))"
  shows "\<exists>Q'. events_ok (set_smem eid s m) Q' \<and> fix_clear (set_smem eid s m)"
proof -
  let ?n = "length (id_stats eid)" and ?xs = "Q (length (id_stats eid) + s)"
  note o = events_okD [OF ok(1)]
  have t: "?n + s < ?n + ?n" using s by simp
  note hf = held_facts [OF ok(1) h]
  from w(1) obtain j where j: "j \<le> length es" "out_ok (fst m) (st_list_out (snd m)) (pri_append (id_events eid) ?xs (take j es))"
    "link_only (set ?xs \<union> set es) (id_events eid) (fst m)"
    "\<forall>i. ev_owner (fst m i) = (if i \<in> set (take j es) then ET_SYS else ev_owner (id_events eid i))"
    "fo_start (fix_out (st_fix (snd m))) = 0" "same_but_out (id_stats eid ! s) (snd m)"
    by (auto simp: whole_out_def)
  define R where "R = pri_append (id_events eid) ?xs (take j es)"
  have setR: "set R = set ?xs \<union> set (take j es)" by (simp add: R_def)
  let ?id = "set_smem eid s m"
  have io: "in_pl ?id u = in_pl eid u" "out_pl ?id u = (if u = s then st_list_out (snd m) else out_pl eid u)" for u
    using s same_but_outD(1) [OF j(6)] by (simp_all add: in_pl_def out_pl_def)
  have "events_ok ?id (Q(?n + s := R))"
  proof (rule place_step [OF ok(1) t refl, where es = es])
    show "link_only (set ?xs \<union> set es) (id_events eid) (id_events ?id)" using j(3) by simp
    show "set (Q q) \<inter> set es = {}" if "q < ?n + ?n" for q using hf(1) [OF that] .
    show "set R \<subseteq> set ?xs \<union> set es" using setR set_take_subset [of j es] by blast
    then show "legal_events eid R" by (intro legal_events_sub [OF hf(5) [OF t]]) simp
    show "out_ok (id_events ?id) (out_pl ?id u) R \<and> \<not> l_mutex (out_pl ?id u)" if "u < ?n" "?n + s = ?n + u" for u
      using that j(2) w(2) io by (simp add: R_def)
    show "ev_owner (id_events ?id e) = ET_SYS \<longleftrightarrow> e \<in> set R" if "e \<in> set ?xs \<union> set es" for e
      using that j(4) listed_owner [OF ok(1) t] h by (auto simp: setR held_def)
  qed (use s io in simp_all)
  moreover have "fix_clear ?id"
    using ok(2) s same_but_outD(2) [OF j(6)] j(5) by (intro fix_clear_set) (simp_all add: fix_clear_def)
  ultimately show ?thesis by blast
qed

lemma whole_in_events:
  assumes ok: "events_ok eid Q" "fix_clear eid" and s: "s < length (id_stats eid)" and h: "held eid es"
    and w: "whole_in (id_events eid) (id_stats eid ! s) (set (Q s) \<union> set es) ys own m" "\<not> l_mutex (st_list_in (snd m))"
    and ys: "set ys \<subseteq> set (Q s) \<union> set es" "0 < s \<Longrightarrow> hi_first (id_events eid) ys"
      "\<And>e. e \<in> set (Q s) \<union> set es \<Longrightarrow> own e = ET_SYS \<longleftrightarrow> e \<in> set ys"
  shows "\<exists>Q'. events_ok (set_smem eid s m) Q' \<and> fix_clear (set_smem eid s m)"
proof -
  let ?n = "length (id_stats eid)"
  note o = events_okD [OF ok(1)]
  have t: "s < ?n + ?n" using s by simp
  note hf = held_facts [OF ok(1) h]
  have j: "list_ok (fst m) (st_list_in (snd m)) ys" "link_only (set (Q s) \<union> set es) (id_events eid) (fst m)"
    "\<forall>i. ev_owner (fst m i) = own i" "fi_start (fix_in (st_fix (snd m))) = 0" "fi_first (fix_in (st_fix (snd m))) = None"
    "same_but_in (id_stats eid ! s) (snd m)"
    using w(1) by (simp_all add: whole_in_def)
  let ?id = "set_smem eid s m"
  have io: "out_pl ?id u = out_pl eid u" "in_pl ?id u = (if u = s then st_list_in (snd m) else in_pl eid u)" for u
    using s same_but_inD(1) [OF j(6)] by (simp_all add: in_pl_def out_pl_def)
  have "events_ok ?id (Q(s := ys))"
  proof (rule place_step [OF ok(1) t refl, where es = es])
    show "link_only (set (Q s) \<union> set es) (id_events eid) (id_events ?id)" using j(2) by simp
    show "set (Q q) \<inter> set es = {}" if "q < ?n + ?n" for q using hf(1) [OF that] .
    show "legal_events eid ys" by (rule legal_events_sub [OF hf(5) [OF t]]) (use ys(1) in simp)
    show "list_ok (id_events ?id) (in_pl ?id s) ys \<and> \<not> l_mutex (in_pl ?id s) \<and> (0 < s \<longrightarrow> hi_first (id_events ?id) ys)"
      using j(1) w(2) io ys(2) hi_first_is_high_cong [OF link_only_is_high [OF j(2)]] by simp
    show "ev_owner (id_events ?id e) = ET_SYS \<longleftrightarrow> e \<in> set ys" if "e \<in> set (Q s) \<union> set es" for e
      using j(3) ys(3) [OF that] by simp
  qed (use s io ys(1) in simp_all)
  moreover have "fix_clear ?id"
    using ok(2) s same_but_inD(2) [OF j(6)] j(4,5) by (intro fix_clear_set) (simp_all add: fix_clear_def)
  ultimately show ?thesis by blast
qed

definition repaired :: "et_id \<Rightarrow> nat \<Rightarrow> bool" where
  "repaired eid1 s \<longleftrightarrow> (\<exists>eid2 eid3 Q'. et_repair_gc [] eid1 = Some (ET_OK, eid2) \<and>
     et_repair_station [] [] eid2 s = Some (ET_OK, eid3) \<and> events_ok eid3 Q' \<and> fix_clear eid3)"

text \<open>GrandCentral's list mended first, or the list of the station.\<close>

lemma repaired_gc:
  assumes s: "s < length (id_stats eid)" and m: "mend_in True m = Some m'"
    and ok: "events_ok (set_smem eid 0 m') Q'" "fix_clear (set_smem eid 0 m')"
  shows "repaired (set_smem eid 0 m) s"
proof -
  have n: "0 < length (id_stats eid)" using s by linarith
  have "et_repair_gc [] (set_smem eid 0 m) = Some (ET_OK, set_smem eid 0 m')"
    using repair_gc_mend [of "set_smem eid 0 m" m'] m n by simp
  moreover have "et_repair_station [] [] (set_smem eid 0 m') s = Some (ET_OK, set_smem eid 0 m')"
    by (rule repair_station_idle) (use s events_ok_unlocked [OF ok(1), of s] in simp_all)
  ultimately show ?thesis using ok unfolding repaired_def by blast
qed

lemma repaired_station:
  assumes s: "s < length (id_stats eid)"
    and m: "(0 < s \<and> mend_in False m = Some m' \<and> \<not> l_mutex (st_list_out (snd m))) \<or> (mend_out m = Some m' \<and> \<not> l_mutex (st_list_in (snd m)))"
    and ok: "events_ok eid Q" "events_ok (set_smem eid s m') Q'" "fix_clear (set_smem eid s m')"
  shows "repaired (set_smem eid s m) s"
proof -
  let ?e = "set_smem eid s m"
  have n: "0 < length (id_stats eid)" using s by linarith
  have "\<not> in_locked 0 ?e" using m s events_ok_unlocked [OF ok(1) n] by (cases "s = 0") (auto simp: in_locked_def)
  then have "et_repair_gc [] ?e = Some (ET_OK, ?e)" by (rule repair_gc_idle [rotated]) (use n in simp)
  moreover have "et_repair_station [] [] ?e s = Some (ET_OK, set_smem eid s m')"
    using repair_station_mend_in [of s ?e m'] repair_station_mend_out [of s ?e m'] m s
    by (auto simp: in_locked_def out_locked_def)
  ultimately show ?thesis using ok(2,3) unfolding repaired_def by blast
qed

lemma mend_out_in: "mend_out m = Some m' \<Longrightarrow> st_list_in (snd m') = st_list_in (snd m)"
  by (cases m) (auto simp: mend_out_def et_repair_outputlist_def unlock_out_def set_out_start_def Let_def split: if_splits option.splits)

lemma mend_in_out: "mend_in gc m = Some m' \<Longrightarrow> st_list_out (snd m') = st_list_out (snd m)"
  by (cases m) (auto simp: mend_in_def et_repair_gcinputlist_def et_repair_inputlist_def unlock_in_def set_in_start_def clear_in_first_def Let_def
      split: if_splits option.splits)

lemma write_repaired:
  assumes ok: "events_ok eid Q" "fix_clear eid" and s: "s < length (id_stats eid)" and h: "held eid es" "es \<noteq> []"
    and c: "nwrite_code (id_events eid) (id_stats eid ! s) es = Some code \<or>
      (\<exists>e. es = [e] \<and> write_code (id_events eid) (id_stats eid ! s) e = Some code)"
  shows "repaired (set_smem eid s (exec (take k code) (smem_of eid s))) s"
proof -
  let ?n = "length (id_stats eid)" and ?m = "exec (take k code) (smem_of eid s)"
  have t: "?n + s < ?n + ?n" using s by simp
  note l = lists_okD [OF events_okD(1) [OF ok(1)] s]
  note hf = held_facts [OF ok(1) h(1) t]
  have o: "out_ok (id_events eid) (st_list_out (id_stats eid ! s)) (Q (?n + s))" "\<not> l_mutex (st_list_out (id_stats eid ! s))"
    "fo_start (fix_out (st_fix (id_stats eid ! s))) = 0" "distinct (Q (?n + s) @ es)" "pri_ok (id_events eid) es"
    "\<forall>i \<in> set (Q (?n + s)). ev_owner (id_events eid i) = ET_SYS"
    using l(8,9) hf(2,3) listed_owner [OF ok(1) t] ok(2) s by (auto simp: out_pl_def fix_clear_def legal_events_def)
  have a: "always (mends_out (id_events eid) (id_stats eid ! s) (Q (?n + s)) es) code (smem_of eid s)"
    using c
  proof (elim disjE exE conjE)
    assume "nwrite_code (id_events eid) (id_stats eid ! s) es = Some code"
    with always_nwrite_code [OF o(1-3) h(2) o(4-6)] show ?thesis by (simp add: smem_of_def)
  next
    fix e assume e: "es = [e]" "write_code (id_events eid) (id_stats eid ! s) e = Some code"
    with always_write_code [OF o(1-3) o(4,5) [unfolded e(1)] o(6)] show ?thesis by (simp add: smem_of_def)
  qed
  from always_take [OF a, of k] obtain m' where m: "mend_out ?m = Some m'" "\<not> l_mutex (st_list_out (snd m'))"
    "whole_out (id_events eid) (id_stats eid ! s) (Q (?n + s)) es m'"
    by (auto simp: mends_out_def)
  from m(3) have "same_but_out (id_stats eid ! s) (snd m')" by (auto simp: whole_out_def)
  then have "\<not> l_mutex (st_list_in (snd ?m))"
    using same_but_outD(1) mend_out_in [OF m(1)] l(2) by (simp add: in_pl_def)
  with whole_out_events [OF ok s h(1) m(3,2)] m(1) show ?thesis
    using repaired_station [OF s _ ok(1)] by blast
qed

lemma dump_repaired:
  assumes ok: "events_ok eid Q" "fix_clear eid" and s: "s < length (id_stats eid)" and h: "held eid es" "es \<noteq> []"
    and c: "ndump_code (id_stats eid ! 0) es = Some code \<or> (\<exists>e. es = [e] \<and> dump_code (id_stats eid ! 0) e = Some code)"
  shows "repaired (set_smem eid 0 (exec (take k code) (smem_of eid 0))) s"
proof -
  let ?n = "length (id_stats eid)" and ?m = "exec (take k code) (smem_of eid 0)"
  have n: "0 < ?n" "0 < ?n + ?n" using s by linarith+
  note l = lists_okD [OF events_okD(1) [OF ok(1)] n(1)]
  note hf = held_facts [OF ok(1) h(1) n(2)]
  have o: "list_ok (id_events eid) (st_list_in (id_stats eid ! 0)) (Q 0)" "\<not> l_mutex (st_list_in (id_stats eid ! 0))"
    "fi_start (fix_in (st_fix (id_stats eid ! 0))) = 0" "fi_first (fix_in (st_fix (id_stats eid ! 0))) = None"
    "distinct (Q 0 @ es)" "\<forall>i \<in> set (Q 0). ev_owner (id_events eid i) = ET_SYS"
    using l(1,2) hf(3) listed_owner [OF ok(1) n(2)] ok(2) n by (auto simp: in_pl_def fix_clear_def)
  have a: "always (mends_in True (whole_dump (id_events eid) (id_stats eid ! 0) (Q 0) es)) code (smem_of eid 0)"
    using c
  proof (elim disjE exE conjE)
    assume "ndump_code (id_stats eid ! 0) es = Some code"
    with always_ndump_code [OF o(1-4) h(2) o(5,6)] show ?thesis by (simp add: smem_of_def)
  next
    fix e assume e: "es = [e]" "dump_code (id_stats eid ! 0) e = Some code"
    then have "e \<notin> set (Q 0)" using o(5) by simp
    with e always_dump_code [OF o(1-4) this o(6)] show ?thesis by (simp add: smem_of_def)
  qed
  from always_take [OF a, of k] obtain m' j where m: "mend_in True ?m = Some m'" "\<not> l_mutex (st_list_in (snd m'))"
    "whole_in (id_events eid) (id_stats eid ! 0) (set (Q 0) \<union> set es) (Q 0 @ take j es)
       (\<lambda>i. if i \<in> set (take j es) then ET_SYS else ev_owner (id_events eid i)) m'"
    by (auto simp: mends_in_def whole_dump_def)
  have "\<exists>Q'. events_ok (set_smem eid 0 m') Q' \<and> fix_clear (set_smem eid 0 m')"
  proof (rule whole_in_events [OF ok n(1) h(1) m(3,2)])
    fix e assume "e \<in> set (Q 0) \<union> set es"
    then show "(if e \<in> set (take j es) then ET_SYS else ev_owner (id_events eid e)) = ET_SYS \<longleftrightarrow> e \<in> set (Q 0 @ take j es)"
      using listed_owner [OF ok(1) n(2)] h(1) by (auto simp: held_def)
  qed (use set_take_subset [of j es] in auto)
  then show ?thesis using repaired_gc [OF s m(1)] by blast
qed

lemma read_repaired:
  assumes ok: "events_ok eid Q" "fix_clear eid" and s: "s < length (id_stats eid)" "t = s \<or> t = 0" and att: "0 \<le> att"
    and num: "1 \<le> num" "num \<le> l_cnt (in_pl eid t)"
    and c: "(\<exists>pe. follow (id_events eid) (nat num) (l_firstevent (in_pl eid t)) = Some pe \<and>
        code = nread_code (id_events eid) (id_stats eid ! t) att num pe) \<or>
      (\<exists>e. num = 1 \<and> l_firstevent (in_pl eid t) = Some e \<and> code = read_code (id_events eid) (id_stats eid ! t) att e)"
  shows "repaired (set_smem eid t (exec (take k code) (smem_of eid t))) s"
proof -
  let ?n = "length (id_stats eid)" and ?m = "exec (take k code) (smem_of eid t)"
  define j where "j = nat num"
  have t: "t < ?n" "t < ?n + ?n" using s by auto
  note l = lists_okD [OF events_okD(1) [OF ok(1)] t(1)]
  have len: "0 < j" "j \<le> length (Q t)" "num = int j" using num list_okD(1) [OF l(1)] by (auto simp: j_def)
  then have ne: "Q t \<noteq> []" by auto
  have o: "list_ok (id_events eid) (st_list_in (id_stats eid ! t)) (Q t)" "\<not> l_mutex (st_list_in (id_stats eid ! t))"
    "fi_start (fix_in (st_fix (id_stats eid ! t))) = 0" "fi_first (fix_in (st_fix (id_stats eid ! t))) = None"
    "\<forall>i \<in> set (Q t). ev_owner (id_events eid i) = ET_SYS"
    using l(1,2) listed_owner [OF ok(1) t(2)] ok(2) t by (auto simp: in_pl_def fix_clear_def)
  have pe: "pe = take j (Q t)" if "follow (id_events eid) (nat num) (l_firstevent (in_pl eid t)) = Some pe" for pe
    using follow_linked [OF list_okD(3) [OF l(1)] len(2) ne] list_okD(4) [OF l(1) ne] that by (simp add: j_def)
  have a: "always (mends_in gc (whole_read (id_events eid) (id_stats eid ! t) (Q t) j att)) code (smem_of eid t)" for gc
    using c
  proof (elim disjE exE conjE)
    fix pe assume "follow (id_events eid) (nat num) (l_firstevent (in_pl eid t)) = Some pe"
      "code = nread_code (id_events eid) (id_stats eid ! t) att num pe"
    with pe always_nread_code [OF o len(1,2), of gc att] show ?thesis by (simp add: len(3) smem_of_def)
  next
    fix e assume r: "num = 1" "l_firstevent (in_pl eid t) = Some e" "code = read_code (id_events eid) (id_stats eid ! t) att e"
    then have "e = hd (Q t)" "j = 1" using list_okD(4) [OF l(1) ne] by (simp_all add: j_def)
    with r always_read_code [OF o ne, of gc att] show ?thesis by (simp add: smem_of_def)
  qed
  have good: "\<exists>Q'. events_ok (set_smem eid t m') Q' \<and> fix_clear (set_smem eid t m')"
    if w: "whole_read (id_events eid) (id_stats eid ! t) (Q t) j att m'" "\<not> l_mutex (st_list_in (snd m'))" for m'
    using w(1) unfolding whole_read_def
  proof
    assume "whole_in (id_events eid) (id_stats eid ! t) (set (Q t)) (Q t) (\<lambda>i. ev_owner (id_events eid i)) m'"
    then show ?thesis
      by (intro whole_in_events [OF ok t(1), of "[]"]) (use w(2) l(3) listed_owner [OF ok(1) t(2)] in \<open>auto simp: held_def\<close>)
  next
    assume "whole_in (id_events eid) (id_stats eid ! t) (set (Q t)) (drop j (Q t))
      (\<lambda>i. if i \<in> set (take j (Q t)) then att else ev_owner (id_events eid i)) m'"
    moreover have "set (take j (Q t)) \<union> set (drop j (Q t)) = set (Q t)" by (metis append_take_drop_id set_append)
    moreover have "set (take j (Q t)) \<inter> set (drop j (Q t)) = {}"
      using list_okD(2) [OF l(1)] by (rule set_take_disj_set_drop_if_distinct) simp
    ultimately show ?thesis
      by (intro whole_in_events [OF ok t(1), where es = "[]" and ys = "drop j (Q t)" and
          own = "\<lambda>i. if i \<in> set (take j (Q t)) then att else ev_owner (id_events eid i)"])
        (use w(2) l(3) listed_owner [OF ok(1) t(2)] att hi_first_drop in \<open>auto simp: held_def dest: in_set_dropD\<close>)
  qed
  show ?thesis
  proof (cases "t = 0")
    case True
    from always_take [OF a [of True], of k] obtain m' where "mend_in True ?m = Some m'"
      "\<not> l_mutex (st_list_in (snd m'))" "whole_read (id_events eid) (id_stats eid ! t) (Q t) j att m'"
      by (auto simp: mends_in_def)
    with good True show ?thesis using repaired_gc [OF s(1)] by blast
  next
    case False
    with s(2) have "t = s" by simp
    from always_take [OF a [of False], of k] obtain m' where m: "mend_in False ?m = Some m'"
      "\<not> l_mutex (st_list_in (snd m'))" "whole_read (id_events eid) (id_stats eid ! t) (Q t) j att m'"
      by (auto simp: mends_in_def)
    then have "same_but_in (id_stats eid ! t) (snd m')" by (auto simp: whole_read_def whole_in_def)
    then have "\<not> l_mutex (st_list_out (snd ?m))"
      using same_but_inD(1) mend_in_out [OF m(1)] l(9) by (simp add: out_pl_def)
    with good [OF m(3,2)] m(1) False \<open>t = s\<close> show ?thesis using repaired_station [OF s(1) _ ok(1)] by blast
  qed
qed

lemma dies_repaired: "dies eid s eid1 \<Longrightarrow> events_ok eid Q \<Longrightarrow> fix_clear eid \<Longrightarrow> repaired eid1 s"
proof (induction rule: dies.induct)
  case (dies_write s eid es code k)
  show ?case by (rule write_repaired [OF dies_write(5,6,1-3)]) (use dies_write(4) in simp)
next
  case (dies_write_one s eid e code k)
  show ?case by (rule write_repaired [OF dies_write_one(4,5,1,2)]) (use dies_write_one(3) in simp_all)
next
  case (dies_dump s eid es code k)
  show ?case by (rule dump_repaired [OF dies_dump(5,6,1-3)]) (use dies_dump(4) in simp)
next
  case (dies_dump_one s eid e code k)
  show ?case by (rule dump_repaired [OF dies_dump_one(4,5,1,2)]) (use dies_dump_one(3) in simp_all)
next
  case (dies_read s eid t att num pe k)
  show ?case by (rule read_repaired [OF dies_read(7,8,1-5)]) (use dies_read(6) in blast)
next
  case (dies_read_one s eid t att e k)
  show ?case by (rule read_repaired [OF dies_read_one(6,7,1-3), of 1]) (use dies_read_one(4,5) in simp_all)
qed

text \<open>
  C2. Crash safety of the event lists: a user's process may die after any single assignment of
  \<open>et_station_write\<close>, \<open>et_station_nwrite\<close>, \<open>et_station_dump\<close>, \<open>et_station_ndump\<close>, \<open>et_station_read\<close> or
  \<open>et_station_nread\<close>. (A death in \<open>et_station_nread_group\<close> is not repaired, as is shown below.)
  When the system process then repairs GrandCentral's input list and the
  lists of the dead process' station, both repairs succeed, nothing stays locked or recorded as under
  way, all lists are well formed again, and every event is owned by the system and in exactly one
  list, once, or owned by a user and in none.
\<close>

theorem death_is_repaired:
  assumes "dies eid s eid1" "events_ok eid Q" "fix_clear eid"
  shows "\<exists>eid2 eid3 Q'. et_repair_gc [] eid1 = Some (ET_OK, eid2) \<and>
     et_repair_station [] [] eid2 s = Some (ET_OK, eid3) \<and> events_ok eid3 Q' \<and> fix_clear eid3"
  using dies_repaired [OF assms] by (simp add: repaired_def)

text \<open>A reader of station 1 dies when it has written its number into the first of two events.\<close>

definition sample_dying :: et_id where
  "sample_dying = sample_id 2 [sample_stats 2 2 ! 0,
     (sample_stats 2 2 ! 1)\<lparr>st_list_in := sample_list\<lparr>l_cnt := 2, l_firstevent := Some 0, l_lastevent := Some 1\<rparr>\<rparr>]
     (set_next (sample_heap []) 0 (Some 1))"

lemma sample_dying_lists: "lists_ok sample_dying ((\<lambda>_ :: nat. [])(1 := [0, 1])) []"
proof -
  let ?Q = "(\<lambda>_ :: nat. [])(1 := [0, 1])"
  have "list_ok (id_events sample_dying) (in_pl sample_dying t) (?Q t) \<and> \<not> l_mutex (in_pl sample_dying t) \<and>
      hi_first (id_events sample_dying) (?Q t) \<and>
      out_ok (id_events sample_dying) (out_pl sample_dying t) (?Q (2 + t)) \<and> \<not> l_mutex (out_pl sample_dying t)" if "t < 2" for t
    using that by (auto simp: sample_dying_def in_pl_def out_pl_def out_ok_def list_ok_def hi_first_def is_high_def less_Suc_eq numeral_2_eq_2)
  moreover have "legal_events sample_dying (?Q t)" for t
    by (auto simp: legal_events_def pri_ok_def nevents_max_def sample_dying_def)
  moreover have "length (id_stats sample_dying) = 2" by (simp add: sample_dying_def)
  moreover have "apart (2 + 2) ?Q []" by (auto simp: apart_def)
  moreover have "legal_events sample_dying []" by (simp add: legal_events_def pri_ok_def)
  ultimately show ?thesis unfolding lists_ok_def by (simp del: fun_upd_apply)
qed

lemma sample_dying_ok: "events_ok sample_dying ((\<lambda>_ :: nat. [])(1 := [0, 1]))" "fix_clear sample_dying"
proof -
  have "ev_owner (id_events sample_dying e) = ET_SYS" "legal_pri (id_events sample_dying e)" for e
    by (auto simp: sample_dying_def legal_pri_def set_next_def sample_defs)
  moreover have "in_lists sample_dying ((\<lambda>_ :: nat. [])(1 := [0, 1])) e \<longleftrightarrow> e < 2" for e
    by (auto simp: in_lists_def sample_dying_def)
  moreover have "nevents_max sample_dying = 2" "length (id_histogram sample_dying) = 3"
    by (simp_all add: sample_dying_def nevents_max_def)
  ultimately show "events_ok sample_dying ((\<lambda>_ :: nat. [])(1 := [0, 1]))" using sample_dying_lists by (simp add: events_ok_def)
  show "fix_clear sample_dying" by (simp add: fix_clear_def sample_dying_def sample_defs sample_stats_def)
qed

theorem death_is_repaired_witness:
  "\<exists>eid1 eid2 eid3 Q'. dies sample_dying 1 eid1 \<and> ev_owner (id_events eid1 0) = 5 \<and>
     et_repair_gc [] eid1 = Some (ET_OK, eid2) \<and> et_repair_station [] [] eid2 1 = Some (ET_OK, eid3) \<and>
     events_ok eid3 Q' \<and> fix_clear eid3"
proof -
  let ?code = "nread_code (id_events sample_dying) (id_stats sample_dying ! 1) 5 2 [0, 1]"
  let ?eid1 = "set_smem sample_dying 1 (exec (take 6 ?code) (smem_of sample_dying 1))"
  have "follow (id_events sample_dying) (nat 2) (l_firstevent (in_pl sample_dying 1)) = Some [0, 1]"
    by (simp add: sample_dying_def in_pl_def numeral_2_eq_2 set_next_def)
  then have d: "dies sample_dying 1 ?eid1"
    by (intro dies_read) (simp_all add: sample_dying_def in_pl_def)
  have "ev_owner (id_events ?eid1 0) = 5"
    by (simp add: nread_code_def eval_nat_numeral smem_of_def in_in_def on_fixin_def on_pl_def set_smem_def)
  with d death_is_repaired [OF d sample_dying_ok] show ?thesis by blast
qed

section \<open>Death while events of a group are read\<close>

lemma repair_walk_endless: "repair_walk ev p None c = None"
proof -
  have "repair_walk ev p l c = Some r \<Longrightarrow> l \<noteq> None" for ev p l c r
    by (erule repair_walk.raw_induct [where P = "\<lambda>ev p l c r. l \<noteq> None", rotated]) (auto split: option.splits if_splits)
  then show ?thesis by (metis not_None_eq)
qed

lemma exec_group_all:
  "linked ev xs \<Longrightarrow> distinct xs \<Longrightarrow> xs \<noteq> [] \<Longrightarrow> \<forall>e \<in> set xs. ev_group (ev e) = grp \<Longrightarrow> num = k + int (length xs) \<Longrightarrow>
   l_lastevent pl = Some (last xs) \<Longrightarrow>
   length (group_code ev None (Some (hd xs)) (length xs) num grp att k) = 3 * length xs \<and>
   (\<exists>f ev'. exec (group_code ev None (Some (hd xs)) (length xs) num grp att k) (ev, pl) =
      (ev', pl\<lparr>l_firstevent := f, l_lastevent := None\<rparr>))"
proof (induction xs arbitrary: ev k pl)
  case (Cons x xs)
  let ?ev1 = "set_owner ev x att"
  show ?case
  proof (cases "xs = []")
    case True
    with Cons.prems show ?thesis by (auto simp: Let_def)
  next
    case False
    let ?pl1 = "pl\<lparr>l_firstevent := ev_next (ev x)\<rparr>"
    have nx: "ev_next (ev x) = Some (hd xs)" "linked ?ev1 xs" using Cons.prems(1) False by (simp_all add: linked_Cons)
    have "last xs \<noteq> x" using Cons.prems(2) False by (metis distinct.simps(2) last_in_set)
    moreover have "length (group_code ?ev1 None (Some (hd xs)) (length xs) num grp att (k + 1)) = 3 * length xs \<and>
        (\<exists>f ev'. exec (group_code ?ev1 None (Some (hd xs)) (length xs) num grp att (k + 1)) (?ev1, ?pl1) =
           (ev', ?pl1\<lparr>l_firstevent := f, l_lastevent := None\<rparr>))"
      by (rule Cons.IH) (use nx(2) False Cons.prems in auto)
    moreover have "\<not> k + 1 \<ge> num" using Cons.prems(5) False by simp
    ultimately show ?thesis using Cons.prems(4,6) nx(1) False by (auto simp: Let_def)
  qed
qed simp

lemma take_first: "length a = n \<Longrightarrow> take n (a @ b) = a"
  by auto

lemma group_death_memory:
  assumes ok: "list_ok ev (st_list_in ps) xs" "xs \<noteq> []" "\<forall>e \<in> set xs. ev_group (ev e) = grp"
  shows "\<exists>f ev'. exec (take (5 + 3 * length xs) (nread_group_code ev ps att (int (length xs)) grp pe)) (ev, ps) =
     (ev', ps\<lparr>st_list_in := (st_list_in ps)\<lparr>l_mutex := True, l_firstevent := f, l_lastevent := None\<rparr>,
        st_fix := (st_fix ps)\<lparr>fix_in := (fix_in (st_fix ps))\<lparr>fi_first := Some (hd xs), fi_cnt := int (length xs),
          fi_num := int (length xs), fi_call := ET_FIX_READ\<rparr>\<rparr>\<rparr>)"
proof -
  let ?pl = "st_list_in ps"
  have pl: "l_cnt ?pl = int (length xs)" "l_firstevent ?pl = Some (hd xs)" "l_lastevent ?pl = Some (last xs)"
    "linked ev xs" "distinct xs" using ok(1,2) by (auto simp: list_ok_def)
  let ?g = "group_code ev None (Some (hd xs)) (length xs) (int (length xs)) grp att 0"
  from exec_group_all [OF pl(4,5) ok(2,3), of "int (length xs)" 0 "?pl\<lparr>l_mutex := True\<rparr>" att] pl(3) obtain f ev' where
    g: "length ?g = 3 * length xs" "exec ?g (ev, ?pl\<lparr>l_mutex := True\<rparr>) = (ev', ?pl\<lparr>l_mutex := True, l_firstevent := f, l_lastevent := None\<rparr>)"
    by auto
  let ?fi = "(fix_in (st_fix ps))\<lparr>fi_first := Some (hd xs), fi_cnt := int (length xs), fi_num := int (length xs), fi_call := ET_FIX_READ\<rparr>"
  let ?startup = "[in_in (set_mutex True), on_fixin (\<lambda>f. f\<lparr>fi_num := int (length xs)\<rparr>), on_fixin (\<lambda>f. f\<lparr>fi_cnt := l_cnt ?pl\<rparr>),
      on_fixin (\<lambda>f. f\<lparr>fi_call := ET_FIX_READ\<rparr>), on_fixin (\<lambda>f. f\<lparr>fi_first := l_firstevent ?pl\<rparr>)]"
  let ?ps1 = "ps\<lparr>st_list_in := ?pl\<lparr>l_mutex := True\<rparr>, st_fix := (st_fix ps)\<lparr>fix_in := ?fi\<rparr>\<rparr>"
  have "length (?startup @ map in_in ?g) = 5 + 3 * length xs" using g(1) by simp
  then have "take (5 + 3 * length xs) (nread_group_code ev ps att (int (length xs)) grp pe) = ?startup @ map in_in ?g"
    unfolding nread_group_code_def pl(1,2) nat_int append_assoc [symmetric] by (rule take_first)
  moreover have "exec ?startup (ev, ps) = (ev, ?ps1)"
    by (cases "fix_in (st_fix ps)") (simp add: in_in_def on_fixin_def on_pl_def pl)
  moreover have "exec (map in_in ?g) (ev, ?ps1) = (ev', ?ps1\<lparr>st_list_in := ?pl\<lparr>l_mutex := True, l_firstevent := f, l_lastevent := None\<rparr>\<rparr>)"
    using exec_in_in [of ?g ev ?ps1] g(2) by simp
  ultimately show ?thesis
    by (simp only: exec_simps) (cases ps; cases "st_fix ps"; cases "fix_in (st_fix ps)"; auto)
qed

text \<open>
  C36. The repair of an input list does not cover reads by group: when a process dies after it has
  taken all events of a list because all belong to the wanted group, and before the count of the list
  is changed, the last event of the list is a null pointer, and the repair walks from the first event
  for ever or until it follows a null pointer; the ET system process never leaves it.
\<close>

theorem group_read_death_not_repaired:
  assumes "s < length (id_stats eid)" "list_ok (id_events eid) (in_pl eid s) xs" "xs \<noteq> []"
    "\<forall>e \<in> set xs. ev_group (id_events eid e) = grp"
    "eid1 = set_smem eid s (exec (take (5 + 3 * length xs)
     (nread_group_code (id_events eid) (id_stats eid ! s) att (int (length xs)) grp xs)) (smem_of eid s))"
  shows "et_repair_station [] [] eid1 s = None \<and> (s = 0 \<longrightarrow> et_repair_gc [] eid1 = None)"
proof -
  from group_death_memory [OF assms(2) [unfolded in_pl_def] assms(3,4), of att xs] obtain f ev' where
    m: "smem_of eid1 s = (ev', (id_stats eid ! s)\<lparr>st_list_in := (in_pl eid s)\<lparr>l_mutex := True, l_firstevent := f, l_lastevent := None\<rparr>,
      st_fix := (st_fix (id_stats eid ! s))\<lparr>fix_in := (fix_in (st_fix (id_stats eid ! s)))\<lparr>fi_first := Some (hd xs),
        fi_cnt := int (length xs), fi_num := int (length xs), fi_call := ET_FIX_READ\<rparr>\<rparr>\<rparr>)"
    using assms(1) by (auto simp: assms(5) smem_of_def in_pl_def)
  have "l_cnt (in_pl eid s) = int (length xs)" using assms(2) by (simp add: list_ok_def)
  then have r: "et_repair_inputlist (id_events eid1) (id_stats eid1 ! s) = None"
    using m assms(3) by (simp add: smem_of_def et_repair_inputlist_def repair_walk_endless)
  have lock: "in_locked s eid1" "s < length (id_stats eid1)" using m assms(1) by (simp_all add: smem_of_def in_locked_def assms(5))
  have "fi_call (fix_in (st_fix (id_stats eid1 ! s))) = ET_FIX_READ" using m by (simp add: smem_of_def)
  then have "et_repair_gc [] eid1 = None" if "s = 0" using r that lock by (simp add: et_repair_gc_def repair_list_def)
  moreover have "et_repair_station [] [] eid1 s = None"
    using r lock by (simp add: et_repair_station_def repair_list_def)
  ultimately show ?thesis by blast
qed

theorem group_read_death_not_repaired_witness:
  "et_repair_station [] [] (set_smem sample_dying 1 (exec (take 11
     (nread_group_code (id_events sample_dying) (id_stats sample_dying ! 1) 5 2 0 [0, 1])) (smem_of sample_dying 1))) 1 = None"
proof -
  have "list_ok (id_events sample_dying) (in_pl sample_dying 1) [0, 1]"
    using lists_okD(1) [OF sample_dying_lists, of 1] by (simp add: sample_dying_def)
  from group_read_death_not_repaired [OF _ this, of 0 _ 5] show ?thesis
    by (simp add: sample_dying_def set_next_def)
qed

end
