(* ===== verification/ET_Restore.thy ===== *)
theory ET_Restore
  imports ET_StationRead ET_Conductor
begin

text \<open>
  Returning events of a user who detaches or crashed to the system (src/libsrc/et\_readwrite.c:
  \<open>et_restore_in\<close>, \<open>et_restore\<close>, \<open>et_flush_events\<close>, \<open>et_restore_events\<close>). \<open>et_restore\<close> inserts events
  in front of those of the same priority; the callers collect the events an attachment owns and
  choose the list by the station's restore mode.

  The files and the private mapping of temporary events (\<open>unlink\<close>, \<open>munmap\<close>, \<open>et_temp_remove\<close>) are
  outside the model; the count of temporary events is kept. Memory for the local arrays is
  assumed to be available.
\<close>

section \<open>Insertion in front\<close>

fun scan_split ::
  "evheap \<Rightarrow> nat \<Rightarrow> evptr \<Rightarrow> evptr \<Rightarrow> nat \<Rightarrow> (evptr \<times> evptr \<times> nat) option" where
  "scan_split ev 0 plasthigh pfirstlow high_cnt = Some (plasthigh, pfirstlow, high_cnt)"
| "scan_split ev (Suc n) plasthigh pfirstlow high_cnt =
     (case pfirstlow of
        None \<Rightarrow> None
      | Some e \<Rightarrow>
          if ev_priority (ev e) = ET_HIGH then scan_split ev n (Some e) (ev_next (ev e)) (Suc high_cnt)
          else Some (plasthigh, pfirstlow, high_cnt))"

definition find_split :: "evheap \<Rightarrow> et_list \<Rightarrow> (evptr \<times> evptr) option" where
  "find_split ev pl =
     (if l_cnt pl \<noteq> 0 then
        (case scan_split ev (nat (l_cnt pl)) None (l_firstevent pl) 0 of
           None \<Rightarrow> None
         | Some (plasthigh, pfirstlow, high_cnt) \<Rightarrow>
             Some (plasthigh, if int high_cnt = l_cnt pl then None else pfirstlow))
      else Some (None, None))"

text \<open>The low priority events \<open>es\<close>, strung together, go between the last high and the first low one.\<close>

definition put_lows ::
  "evheap \<Rightarrow> et_list \<Rightarrow> evptr \<Rightarrow> evptr \<Rightarrow> evptr \<Rightarrow> nat list \<Rightarrow> (evheap \<times> et_list) option" where
  "put_lows ev pl before plast pfirstlow es =
     (let ev1 = link_up ev es in
      case pfirstlow of
        None \<Rightarrow> (case plast of
                   None \<Rightarrow> None
                 | Some l \<Rightarrow> Some (set_next ev1 l (Some (hd es)), pl\<lparr>l_lastevent := Some (last es)\<rparr>))
      | Some f \<Rightarrow>
          (case before of
             Some h \<Rightarrow> Some (set_next (set_next ev1 h (Some (hd es))) (last es) (Some f), pl)
           | None \<Rightarrow> Some (set_next ev1 (last es) (Some f), pl\<lparr>l_firstevent := Some (hd es)\<rparr>)))"

fun put_highs :: "evheap \<Rightarrow> nat \<Rightarrow> evptr \<Rightarrow> nat list \<Rightarrow> evheap \<times> nat list \<times> nat" where
  "put_highs ev e pfirst [] = (ev, [], e)"
| "put_highs ev e pfirst (x # es) =
     (if ev_priority (ev x) \<noteq> ET_HIGH then (ev, x # es, e)
      else put_highs (set_next (set_next ev e (Some x)) x pfirst) x pfirst es)"

definition restore_insert :: "evheap \<Rightarrow> et_list \<Rightarrow> nat list \<Rightarrow> (evheap \<times> et_list) option" where
  "restore_insert ev pl es =
     (case find_split ev pl of
        None \<Rightarrow> None
      | Some (plasthigh, pfirstlow) \<Rightarrow>
          if l_cnt pl = 0 then
            Some (link_up ev es, pl\<lparr>l_firstevent := Some (hd es), l_lastevent := Some (last es)\<rparr>)
          else if ev_priority (ev (hd es)) = ET_LOW then
            put_lows ev pl plasthigh (l_lastevent pl) pfirstlow es
          else
            let pfirst = l_firstevent pl;
                (ev1, lows, ehigh) = put_highs (set_next ev (hd es) pfirst) (hd es) pfirst (tl es);
                pl1 = pl\<lparr>l_firstevent := Some (hd es)\<rparr>
            in if lows = [] then Some (ev1, pl1)
               else put_lows ev1 pl1 (if plasthigh \<noteq> None then plasthigh else Some ehigh)
                      (l_lastevent pl) pfirstlow lows)"

definition restore_num :: "int \<Rightarrow> et_list \<Rightarrow> int \<Rightarrow> int" where
  "restore_num nev pl num = (if num > nev - l_cnt pl then nev - l_cnt pl else num)"

text \<open>The results are the status, the number of events written (when there is one) and the state.\<close>

definition et_restore_in ::
  "int \<Rightarrow> evheap \<Rightarrow> et_list \<Rightarrow> nat list \<Rightarrow> int \<Rightarrow> (int \<times> int option \<times> evheap \<times> et_list) option" where
  "et_restore_in nev ev pl pe num =
     (case et_llist_lock pl of None \<Rightarrow> None | Some pl0 \<Rightarrow>
      if l_cnt pl0 \<ge> nev then Some (ET_ERROR, None, ev, et_llist_unlock pl0)
      else
        let num1 = restore_num nev pl0 num; es = take (nat num1) pe
        in if es = [] then None
           else case restore_insert ev pl0 es of
                  None \<Rightarrow> None
                | Some (ev1, pl1) \<Rightarrow>
                    Some (ET_OK, Some num1, ev1, et_llist_unlock (pl1\<lparr>l_cnt := l_cnt pl1 + num1\<rparr>)))"

definition et_restore ::
  "int \<Rightarrow> evheap \<Rightarrow> et_list \<Rightarrow> nat list \<Rightarrow> int \<Rightarrow> (int \<times> int option \<times> evheap \<times> et_list) option" where
  "et_restore nev ev pl pe num =
     (case et_llist_lock pl of None \<Rightarrow> None | Some pl0 \<Rightarrow>
      if l_cnt pl0 \<ge> nev then Some (ET_ERROR, None, ev, et_llist_unlock pl0)
      else
        let num1 = restore_num nev pl0 num; es = take (nat num1) pe
        in if es = [] then None
           else case restore_insert (set_owners ev es ET_SYS) pl0 es of
                  None \<Rightarrow> None
                | Some (ev1, pl1) \<Rightarrow>
                    Some (ET_OK, Some num1, ev1, et_llist_unlock (pl1\<lparr>l_cnt := l_cnt pl1 + num1\<rparr>)))"

section \<open>Flushing and restoring\<close>

definition restore_to_prev :: "et_id \<Rightarrow> nat \<Rightarrow> nat list \<Rightarrow> (int \<times> et_id) option" where
  "restore_to_prev eid s pe =
     (case first_parallel (length (id_stats eid)) (id_stats eid) s of
        None \<Rightarrow> None
      | Some fp \<Rightarrow>
          case stat_ix (id_stats eid) (st_prev (id_stats eid ! fp)) of
            None \<Rightarrow> None
          | Some prev \<Rightarrow>
              case et_restore (nevents_max eid) (id_events eid) (st_list_out (id_stats eid ! prev)) pe (int (length pe)) of
                None \<Rightarrow> None
              | Some (status, n, ev, pl) \<Rightarrow>
                  Some (status, (upd_stat eid prev (\<lambda>ps. ps\<lparr>st_list_out := pl\<rparr>))\<lparr>id_events := ev\<rparr>))"

definition et_flush_events :: "et_id \<Rightarrow> nat \<Rightarrow> nat \<Rightarrow> et_id option" where
  "et_flush_events eid att s =
     (if s = 0 then Some eid
      else case et_station_nread eid s ET_ASYNC att [] (nevents_max eid) of
             None \<Rightarrow> None
           | Some (status, pe, eid1) \<Rightarrow>
               if status < 0 then Some eid1
               else if cf_restore_mode (st_config (id_stats eid1 ! s)) = ET_STATION_RESTORE_REDIST then
                 map_option snd (restore_to_prev eid1 s pe)
               else map_option snd (et_station_nwrite eid1 s pe (int (length pe))))"

definition owned_by :: "et_id \<Rightarrow> int \<Rightarrow> nat list" where
  "owned_by eid att = filter (\<lambda>e. ev_owner (id_events eid e) = att) [0..<nat (nevents_max eid)]"

definition high_before_low :: "evheap \<Rightarrow> nat list \<Rightarrow> nat list" where
  "high_before_low ev es = filter (\<lambda>e. ev_priority (ev e) = ET_HIGH) es @ filter (\<lambda>e. ev_priority (ev e) \<noteq> ET_HIGH) es"

definition drop_temps :: "et_id \<Rightarrow> nat list \<Rightarrow> et_id" where
  "drop_temps eid es = eid\<lparr>id_sys := (id_sys eid)\<lparr>sy_ntemps := sy_ntemps (id_sys eid) -
     int (length (filter (\<lambda>e. ev_temp (id_events eid e) = ET_EVENT_TEMP) es))\<rparr>\<rparr>"

fun mark_corrupt :: "evheap \<Rightarrow> nat list \<Rightarrow> evheap" where
  "mark_corrupt ev [] = ev"
| "mark_corrupt ev (e # es) = mark_corrupt (ev(e := (ev e)\<lparr>ev_datastatus := ET_DATA_POSSIBLY_CORRUPT\<rparr>)) es"

definition restore_used :: "et_id \<Rightarrow> nat \<Rightarrow> nat list \<Rightarrow> (int \<times> et_id) option" where
  "restore_used eid s ordered =
     (let ps = id_stats eid ! s; mode = cf_restore_mode (st_config ps);
          marked = eid\<lparr>id_events := mark_corrupt (id_events eid) ordered\<rparr>; n = int (length ordered) in
      if mode = ET_STATION_RESTORE_GC \<or> s = 0 then et_station_ndump (drop_temps eid ordered) ordered n
      else if mode = ET_STATION_RESTORE_OUT \<or> (mode = ET_STATION_RESTORE_IN \<and> sd_nattachments (st_data ps) = 0) then
        et_station_nwrite marked s ordered n
      else if mode = ET_STATION_RESTORE_IN then
        (case et_restore (nevents_max eid) (id_events marked) (st_list_in ps) ordered n of
           None \<Rightarrow> None
         | Some (status, written, ev, pl) \<Rightarrow>
             let eid1 = (upd_stat marked s (\<lambda>ps. ps\<lparr>st_list_in := pl\<rparr>))\<lparr>id_events := ev\<rparr>;
                 num_written = (case written of None \<Rightarrow> 0 | Some k \<Rightarrow> k)
             in if num_written < n then et_station_nwrite eid1 s (drop (nat num_written) ordered) (n - num_written)
                else Some (status, eid1))
      else if mode = ET_STATION_RESTORE_REDIST then restore_to_prev marked s ordered
      else Some (ET_ERROR, eid))"

definition et_restore_events :: "et_id \<Rightarrow> int \<Rightarrow> nat \<Rightarrow> (int \<times> et_id) option" where
  "et_restore_events eid att s =
     (let es = owned_by eid att;
          new = filter (\<lambda>e. ev_age (id_events eid e) = ET_EVENT_NEW) es;
          used = filter (\<lambda>e. ev_age (id_events eid e) \<noteq> ET_EVENT_NEW) es;
          eid1 = eid\<lparr>id_events := set_owners (id_events eid) used ET_SYS\<rparr>;
          ordered = high_before_low (id_events eid1) used
      in if used = [] \<and> new = [] then Some (ET_OK, eid)
         else case (if new = [] then Some (ET_OK, eid1)
                    else et_station_ndump (drop_temps eid1 new) new (int (length new))) of
                None \<Rightarrow> None
              | Some (status, eid2) \<Rightarrow>
                  if used = [] then Some (status, eid2) else restore_used eid2 s ordered)"

section \<open>What the insertion does\<close>

lemma scan_split_linked:
  assumes "linked ev xs" "xs \<noteq> [] \<Longrightarrow> p = Some (hd xs)"
  shows "\<exists>p'. scan_split ev (length xs) ph p hc =
       Some (if takeWhile (is_high ev) xs = [] then ph else Some (last (takeWhile (is_high ev) xs)), p',
         hc + length (takeWhile (is_high ev) xs)) \<and>
     (dropWhile (is_high ev) xs \<noteq> [] \<longrightarrow> p' = Some (hd (dropWhile (is_high ev) xs)))"
  using assms
proof (induction xs arbitrary: ph p hc)
  case (Cons x xs)
  then have l: "linked ev xs" "xs \<noteq> [] \<Longrightarrow> ev_next (ev x) = Some (hd xs)" by (auto simp: linked_Cons)
  have "ev_priority (ev x) = ET_HIGH \<longleftrightarrow> is_high ev x" by (simp add: is_high_def)
  with Cons.IH [OF l, of "Some x" "Suc hc"] Cons.prems(2) show ?case
    by (cases "is_high ev x") auto
qed simp

lemma find_split_ok:
  assumes "list_ok ev pl xs" "hi_first ev xs" "xs \<noteq> []"
  shows "find_split ev pl = Some (if filter (is_high ev) xs = [] then None else Some (last (filter (is_high ev) xs)),
     if filter (\<lambda>e. \<not> is_high ev e) xs = [] then None else Some (hd (filter (\<lambda>e. \<not> is_high ev e) xs)))"
proof -
  note tw = takeWhile_append_dropWhile_filter [OF assms(2) [unfolded hi_first_def]]
  note d = list_okD [OF assms(1)]
  from scan_split_linked [OF d(3), of "l_firstevent pl" None 0] d(4) obtain p' where
    s: "scan_split ev (length xs) None (l_firstevent pl) 0 =
       Some (if filter (is_high ev) xs = [] then None else Some (last (filter (is_high ev) xs)), p',
         length (filter (is_high ev) xs))"
     "filter (\<lambda>e. \<not> is_high ev e) xs \<noteq> [] \<longrightarrow> p' = Some (hd (filter (\<lambda>e. \<not> is_high ev e) xs))"
    unfolding tw [THEN conjunct1] tw [THEN conjunct2] by auto
  have "length (filter (is_high ev) xs) + length (filter (\<lambda>e. \<not> is_high ev e) xs) = length xs"
    by (rule sum_length_filter_compl)
  then have "length (filter (is_high ev) xs) = length xs \<longleftrightarrow> filter (\<lambda>e. \<not> is_high ev e) xs = []"
    by (metis add_cancel_left_right length_0_conv)
  with s d(1) assms(3) show ?thesis by (auto simp: find_split_def)
qed

lemma put_lows_ok:
  assumes "linked ev A" "linked ev B" "distinct (A @ es @ B)" "es \<noteq> []" "A @ B \<noteq> []"
  shows "\<exists>ev'. put_lows ev pl (if A = [] then None else Some (last A)) (Some (last (A @ B)))
       (if B = [] then None else Some (hd B)) es =
     Some (ev', pl\<lparr>l_firstevent := (if A = [] then Some (hd es) else l_firstevent pl),
       l_lastevent := (if B = [] then Some (last es) else l_lastevent pl)\<rparr>) \<and>
     linked ev' (A @ es @ B) \<and> next_only (set (A @ es @ B)) ev ev'"
proof -
  let ?ev1 = "link_up ev es"
  have n1: "next_only (set (A @ es @ B)) ev ?ev1" by (rule next_only_link_up) auto
  have n0: "next_only (set es) ev ?ev1" by (rule next_only_link_up) simp
  have "set (butlast A) \<inter> set es = {}" "set (butlast B) \<inter> set es = {}"
    using assms(3) set_butlast_subset [of A] set_butlast_subset [of B] by auto
  then have l1: "linked ?ev1 es" "linked ?ev1 A" "linked ?ev1 B"
    using linked_link_up [of es ev] assms(1-3) linked_next_only [OF n0, of A] linked_next_only [OF n0, of B] by auto
  have A: "A \<noteq> [] \<Longrightarrow> last A \<in> set A \<and> last A \<notin> set es \<and> last A \<notin> set B \<and> last A \<notin> set (butlast A)"
    and es: "last es \<in> set es" "last es \<notin> set A" "last es \<notin> set B" "last es \<notin> set (butlast es)"
    using assms(3,4) distinct_last_butlast [of A] distinct_last_butlast [of es] last_in_set [of A] last_in_set [of es]
    by (auto simp: disjoint_iff simp del: last_in_set)
  show ?thesis
  proof (cases "B = []")
    case True
    with assms(5) have ne: "A \<noteq> []" by simp
    have "linked (set_next ?ev1 (last A) (Some (hd es))) (A @ es)"
      using l1 A [OF ne] by (auto simp: linked_append linked_set_next)
    moreover have "next_only (set (A @ es @ B)) ev (set_next ?ev1 (last A) (Some (hd es)))"
      using n1 A [OF ne] by (intro next_only_set_next_trans) auto
    ultimately show ?thesis using True ne by (simp add: put_lows_def Let_def)
  next
    case B: False
    show ?thesis
    proof (cases "A = []")
      case True
      have "linked (set_next ?ev1 (last es) (Some (hd B))) (es @ B)"
        using l1 es B by (auto simp: linked_append linked_set_next)
      moreover have "next_only (set (A @ es @ B)) ev (set_next ?ev1 (last es) (Some (hd B)))"
        using n1 es by (intro next_only_set_next_trans) auto
      ultimately show ?thesis using True B by (simp add: put_lows_def Let_def)
    next
      case ne: False
      let ?ev2 = "set_next (set_next ?ev1 (last A) (Some (hd es))) (last es) (Some (hd B))"
      have "last A \<noteq> last es" using A [OF ne] es(1) by auto
      then have "linked ?ev2 (A @ es @ B)"
        using assms(4) l1 es A [OF ne] B by (auto simp: linked_append linked_set_next)
      moreover have "next_only (set (A @ es @ B)) ev ?ev2"
        using n1 es A [OF ne] by (intro next_only_set_next_trans) auto
      ultimately show ?thesis using ne B by (simp add: put_lows_def Let_def)
    qed
  qed
qed


lemma put_highs_Cons:
  "put_highs ev e pfirst (x # es) = (if is_high ev x then put_highs (set_next (set_next ev e (Some x)) x pfirst) x pfirst es
     else (ev, x # es, e))"
  by (simp add: is_high_def)

declare put_highs.simps(2) [simp del]

lemma put_highs_ok:
  assumes "ev_next (ev e) = pf" "distinct (e # es)"
  shows "\<exists>ev'. put_highs ev e pf es =
       (ev', dropWhile (is_high ev) es, last (e # takeWhile (is_high ev) es)) \<and>
     linked ev' (e # takeWhile (is_high ev) es) \<and> ev_next (ev' (last (e # takeWhile (is_high ev) es))) = pf \<and>
     next_only (set (e # takeWhile (is_high ev) es)) ev ev'"
  using assms
proof (induction es arbitrary: ev e)
  case (Cons x es)
  show ?case
  proof (cases "is_high ev x")
    case True
    let ?ev1 = "set_next (set_next ev e (Some x)) x pf"
    have n1: "next_only {e, x} ev ?ev1"
      by (rule next_only_set_next_trans [OF next_only_set_next]) auto
    have h1: "is_high ?ev1 = is_high ev" by simp
    from Cons.IH [of ?ev1 x, unfolded h1] Cons.prems obtain ev' where
      r: "put_highs ?ev1 x pf es = (ev', dropWhile (is_high ev) es, last (x # takeWhile (is_high ev) es))"
      "linked ev' (x # takeWhile (is_high ev) es)" "ev_next (ev' (last (x # takeWhile (is_high ev) es))) = pf"
      "next_only (set (x # takeWhile (is_high ev) es)) ?ev1 ev'" by auto
    have "e \<notin> set (x # takeWhile (is_high ev) es)" using Cons.prems(2) set_takeWhileD [of e "is_high ev" es] by auto
    then have "ev_next (ev' e) = Some x" using next_onlyD(1) [OF r(4)] Cons.prems(2) by simp
    then have "linked ev' (e # x # takeWhile (is_high ev) es)" using r(2) by (simp add: linked_Cons)
    moreover have "next_only (set (e # x # takeWhile (is_high ev) es)) ev ev'"
      by (rule next_only_trans [OF next_only_mono [OF n1] next_only_mono [OF r(4)]]) auto
    ultimately show ?thesis using r(1,3) True by (simp add: put_highs_Cons)
  next
    case False
    then show ?thesis using Cons.prems by (simp add: put_highs_Cons)
  qed
qed simp

lemma restore_insert_ok:
  assumes ok: "list_ok ev pl xs" "hi_first ev xs" and es: "hi_first ev es" "pri_ok ev es" "es \<noteq> []"
    and dist: "distinct (xs @ es)"
  defines "R \<equiv> pri_append ev es xs"
  shows "\<exists>ev'. restore_insert ev pl es = Some (ev', pl\<lparr>l_firstevent := Some (hd R), l_lastevent := Some (last R)\<rparr>) \<and>
     linked ev' R \<and> next_only (set (xs @ es)) ev ev'"
proof -
  note d = list_okD [OF ok(1)]
  let ?Hx = "filter (is_high ev) xs" and ?Lx = "filter (\<lambda>e. \<not> is_high ev e) xs"
  let ?He = "filter (is_high ev) es" and ?Le = "filter (\<lambda>e. \<not> is_high ev e) es"
  have R: "R = ?He @ ?Hx @ ?Le @ ?Lx" by (simp add: R_def pri_append_def)
  have xs: "xs = ?Hx @ ?Lx" and es': "es = ?He @ ?Le" using ok(2) es(1) unfolding hi_first_iff by auto
  have pl0: "pl\<lparr>l_firstevent := l_firstevent pl, l_lastevent := l_lastevent pl\<rparr> = pl" by simp
  show ?thesis
  proof (cases "xs = []")
    case True
    then have "R = es" using es' by (simp add: R)
    with True d(1) show ?thesis using linked_link_up [of es ev] dist next_only_link_up [of es "set (xs @ es)" ev]
      by (auto simp: restore_insert_def find_split_def)
  next
    case False
    note fs = find_split_ok [OF ok False]
    have cnt: "l_cnt pl \<noteq> 0" using d(1) False by simp
    have lx: "linked ev (?Hx @ ?Lx)" using d(3) xs by simp
    then have lHL: "linked ev ?Hx" "linked ev ?Lx" by (simp_all add: linked_append)
    have lastx: "l_lastevent pl = Some (last (?Hx @ ?Lx))" and fst: "l_firstevent pl = Some (hd (?Hx @ ?Lx))"
      using d(4,5) False xs by auto
    have ne: "?Hx @ ?Lx \<noteq> []" using False xs by metis
    have ds: "distinct (?Hx @ ?Le @ ?Lx)" "distinct ?He" "set ?He \<inter> set (?Hx @ ?Le @ ?Lx) = {}" using dist by auto
    show ?thesis
    proof (cases "is_high ev (hd es)")
      case low: False
      have He: "?He = []"
      proof (rule ccontr)
        assume "?He \<noteq> []"
        then have "hd es \<in> set ?He" using es' by (metis hd_append2 hd_in_set)
        with low show False by simp
      qed
      then have Le: "?Le = es" using es' by simp
      have "ev_priority (ev (hd es)) = ET_LOW" using low es(2,3) by (auto simp: pri_ok_def is_high_def)
      then have e: "restore_insert ev pl es = put_lows ev pl (if ?Hx = [] then None else Some (last ?Hx)) (Some (last (?Hx @ ?Lx)))
          (if ?Lx = [] then None else Some (hd ?Lx)) es"
        using fs cnt by (simp only: restore_insert_def option.case prod.case if_False refl [THEN eqTrueI] if_True lastx)
      have "distinct (?Hx @ es @ ?Lx)" using ds(1) Le by simp
      from put_lows_ok [OF lHL this es(3) ne, of pl] obtain ev' where
        r: "restore_insert ev pl es = Some (ev', pl\<lparr>l_firstevent := (if ?Hx = [] then Some (hd es) else l_firstevent pl),
            l_lastevent := (if ?Lx = [] then Some (last es) else l_lastevent pl)\<rparr>)"
          "linked ev' (?Hx @ es @ ?Lx)" "next_only (set (?Hx @ es @ ?Lx)) ev ev'" unfolding e by blast
      have Req: "R = ?Hx @ es @ ?Lx" using R He Le by simp
      have n: "next_only (set (xs @ es)) ev ev'" by (rule next_only_mono [OF r(3)]) auto
      have f: "(if ?Hx = [] then Some (hd es) else l_firstevent pl) = Some (hd R)"
        using fst es(3) unfolding Req by (cases "?Hx = []") auto
      have l: "(if ?Lx = [] then Some (last es) else l_lastevent pl) = Some (last R)"
        using lastx es(3) unfolding Req by (cases "?Lx = []") auto
      show ?thesis using r(1,2) n unfolding f l Req [symmetric] by blast
    next
      case high: True
      obtain e tes where ees: "es = e # tes" using es(3) by (cases es) auto
      have He: "e # takeWhile (is_high ev) tes = ?He" and Le: "dropWhile (is_high ev) tes = ?Le"
        using hi_first_split [OF es(1)] high ees by (auto split: if_splits)
      let ?ev0 = "set_next ev e (l_firstevent pl)"
      have "ev_next (?ev0 e) = l_firstevent pl" "distinct (e # tes)" using dist ees by simp_all
      from put_highs_ok [of ?ev0 e "l_firstevent pl" tes, OF this] obtain ev1 where
        h: "put_highs ?ev0 e (l_firstevent pl) tes = (ev1, ?Le, last ?He)" "linked ev1 ?He"
          "ev_next (ev1 (last ?He)) = l_firstevent pl" "next_only (set ?He) ?ev0 ev1"
        using He Le by auto
      have eHe: "e \<in> set ?He" "?He \<noteq> []" "hd ?He = e" using He by (metis list.set_intros(1), metis list.distinct(1), metis list.sel(1))
      have n1: "next_only (set ?He) ev ev1" by (rule next_only_trans [OF next_only_set_next [OF eHe(1)] h(4)])
      have "set (butlast (?Hx @ ?Lx)) \<inter> set ?He = {}" using ds(3) set_butlast_subset [of "?Hx @ ?Lx"] by auto
      then have l1: "linked ev1 (?Hx @ ?Lx)" using lx linked_next_only [OF n1] by simp
      have hx1: "linked ev1 (?He @ ?Hx)" "linked ev1 ?Lx"
        using l1 h(2,3) fst by (auto simp: linked_append)
      have npri: "ev_priority (ev e) \<noteq> ET_LOW" using high ees by (simp add: is_high_def)
      show ?thesis
      proof (cases "?Le = []")
        case True
        have Req: "R = ?He @ (?Hx @ ?Lx)" using R True by simp
        have k: "linked ev1 R" using l1 h(2,3) fst eHe(2) ne unfolding Req by (simp only: linked_append) simp
        have "hd R = e" unfolding Req hd_append2 [OF eHe(2)] by (rule eHe(3))
        moreover have "last R = last (?Hx @ ?Lx)" unfolding Req by (rule last_appendR [OF ne])
        ultimately have e: "pl\<lparr>l_firstevent := Some e\<rparr> = pl\<lparr>l_firstevent := Some (hd R), l_lastevent := Some (last R)\<rparr>"
          using lastx by (cases pl) simp
        have "restore_insert ev pl es = Some (ev1, pl\<lparr>l_firstevent := Some e\<rparr>)"
          using fs cnt npri h(1) True ees by (simp add: restore_insert_def Let_def del: filter.simps)
        moreover have "next_only (set (xs @ es)) ev ev1" by (rule next_only_mono [OF n1]) auto
        ultimately show ?thesis using k unfolding e by blast
      next
        case False
        let ?pl1 = "pl\<lparr>l_firstevent := Some e\<rparr>"
        have bef: "(if (if ?Hx = [] then None else Some (last ?Hx)) \<noteq> None then (if ?Hx = [] then None else Some (last ?Hx))
            else Some (last ?He)) = (if ?He @ ?Hx = [] then None else Some (last (?He @ ?Hx)))"
          using eHe(2) by simp
        have pla: "l_lastevent pl = Some (last ((?He @ ?Hx) @ ?Lx))" using lastx ne by auto
        have e: "restore_insert ev pl es = put_lows ev1 ?pl1 (if ?He @ ?Hx = [] then None else Some (last (?He @ ?Hx)))
            (Some (last ((?He @ ?Hx) @ ?Lx))) (if ?Lx = [] then None else Some (hd ?Lx)) ?Le"
          unfolding bef [symmetric] pla [symmetric]
          using fs cnt npri h(1) False by (simp only: restore_insert_def option.case prod.case if_False Let_def ees list.sel)
        have "distinct ((?He @ ?Hx) @ ?Le @ ?Lx)" using ds by auto
        from put_lows_ok [OF hx1 this False, of ?pl1] eHe(2) obtain ev' where
          r: "restore_insert ev pl es = Some (ev', ?pl1\<lparr>l_firstevent := Some e,
              l_lastevent := (if ?Lx = [] then Some (last ?Le) else l_lastevent pl)\<rparr>)"
            "linked ev' ((?He @ ?Hx) @ ?Le @ ?Lx)" "next_only (set ((?He @ ?Hx) @ ?Le @ ?Lx)) ev1 ev'"
          unfolding e by auto
        have Req: "R = (?He @ ?Hx) @ ?Le @ ?Lx" using R by simp
        have n: "next_only (set (xs @ es)) ev ev'"
          by (rule next_only_trans [OF next_only_mono [OF n1] next_only_mono [OF r(3)]]) auto
        have l: "(if ?Lx = [] then Some (last ?Le) else l_lastevent pl) = Some (last R)"
          using lastx False unfolding Req by (cases "?Lx = []") auto
        have f: "hd R = e" using eHe unfolding Req by simp
        have u: "?pl1\<lparr>l_firstevent := Some e, l_lastevent := Some (last R)\<rparr> = pl\<lparr>l_firstevent := Some (hd R), l_lastevent := Some (last R)\<rparr>"
          unfolding f by simp
        show ?thesis using r(1,2) n unfolding l Req [symmetric] u by blast
      qed
    qed
  qed
qed


end
