(* ===== verification/ET_Station.thy ===== *)
theory ET_Station
  imports ET_StationGetSet ET_Restore
begin

text \<open>
  Creating, removing, attaching to, detaching from and moving stations (src/libsrc/et\_station.c).

  The network requests of remote users (\<open>etr_\<close> functions), the process id and the host name are
  parameters. The station, system and transfer mutexes and the read lock of the shared memory make
  each call one step; where a call waits for other threads, their part is a parameter: the start of
  a conductor (\<open>conductor_start\<close>, with \<open>loads\<close> telling whether a user's selection function can be
  loaded) and what a conductor does while \<open>et_station_remove\<close> lets it work.
\<close>

section \<open>The start of a conductor\<close>

fun find_status :: "et_station list \<Rightarrow> int \<Rightarrow> nat \<Rightarrow> nat option" where
  "find_status [] status i = None"
| "find_status (ps # stats) status i =
     (if sd_status (st_data ps) = status then Some i else find_status stats status (Suc i))"

definition set_status :: "int \<Rightarrow> et_station \<Rightarrow> et_station" where
  "set_status status ps = ps\<lparr>st_data := (st_data ps)\<lparr>sd_status := status\<rparr>\<rparr>"

definition conductor_start :: "(string \<Rightarrow> string \<Rightarrow> bool) \<Rightarrow> et_id \<Rightarrow> et_id" where
  "conductor_start loads eid =
     (case find_status (take (nat (nstations_max eid)) (id_stats eid)) ET_STATION_CREATING 0 of
        None \<Rightarrow> eid
      | Some me \<Rightarrow>
          let c = st_config (id_stats eid ! me) in
          if cf_select_mode c = ET_STATION_SELECT_USER \<and> \<not> loads (cf_lib c) (cf_fname c) then eid
          else upd_stat eid me (set_status (if me = 0 then ET_STATION_ACTIVE else ET_STATION_IDLE)))"

section \<open>Creation and removal\<close>

definition same_definition :: "et_stat_config \<Rightarrow> et_stat_config \<Rightarrow> bool" where
  "same_definition c sc \<longleftrightarrow> cf_flow_mode c = cf_flow_mode sc \<and> cf_user_mode c = cf_user_mode sc \<and>
     cf_block_mode c = cf_block_mode sc \<and> cf_select_mode c = cf_select_mode sc \<and>
     cf_restore_mode c = cf_restore_mode sc \<and> cf_prescale c = cf_prescale sc \<and> cf_cue c = cf_cue sc \<and>
     take ET_STATION_SELECT_INTS (cf_select c) = take ET_STATION_SELECT_INTS (cf_select sc) \<and>
     cf_select_mode c \<noteq> ET_STATION_SELECT_USER"

definition chain_of :: "et_id \<Rightarrow> et_station list \<times> int" where
  "chain_of eid = (id_stats eid, sy_stat_tail (id_sys eid))"

definition set_chain :: "et_id \<Rightarrow> et_station list \<times> int \<Rightarrow> et_id" where
  "set_chain eid ch = eid\<lparr>id_stats := fst ch, id_sys := (id_sys eid)\<lparr>sy_stat_tail := snd ch\<rparr>\<rparr>"

definition add_nstations :: "int \<Rightarrow> et_id \<Rightarrow> et_id" where
  "add_nstations n eid = eid\<lparr>id_sys := (id_sys eid)\<lparr>sy_nstations := sy_nstations (id_sys eid) + n\<rparr>\<rparr>"

definition new_station :: "int \<Rightarrow> nat \<Rightarrow> string \<Rightarrow> et_stat_config \<Rightarrow> et_station \<Rightarrow> et_station" where
  "new_station pid s name sc ps =
     (let ps0 = et_init_station ps in
      ps0\<lparr>st_num := int s, st_name := name, st_config := sc,
        st_data := (st_data ps0)\<lparr>sd_pid_create := pid, sd_status := ET_STATION_CREATING\<rparr>\<rparr>)"

text \<open>The local part, from the search for an existing station on.\<close>

definition station_create_local ::
  "(string \<Rightarrow> string \<Rightarrow> bool) \<Rightarrow> int \<Rightarrow> et_id \<Rightarrow> string \<Rightarrow> et_stat_config \<Rightarrow> int \<Rightarrow> int \<Rightarrow> (int \<times> nat option \<times> et_id) option" where
  "station_create_local loads pid eid name sc position parallelposition =
     (case (if id_alive eid then find_name (take (nat (nstations_max eid)) (id_stats eid)) name 0 else None) of
        Some n \<Rightarrow>
          if sd_status (st_data (id_stats eid ! n)) \<noteq> ET_STATION_CREATING \<and> same_definition (st_config (id_stats eid ! n)) sc
          then Some (ET_OK, Some n, eid) else Some (ET_ERROR_EXISTS, Some n, eid)
      | None \<Rightarrow>
          if sy_nstations (id_sys eid) \<ge> nstations_max eid then Some (ET_ERROR_TOOMANY, None, eid)
          else case find_status (take (nat (nstations_max eid)) (id_stats eid)) ET_STATION_UNUSED 0 of
                 None \<Rightarrow> Some (ET_ERROR, None, eid)
               | Some s \<Rightarrow>
                   let eid1 = upd_stat (add_nstations 1 eid) s (new_station pid s name sc) in
                   if name = ''GRAND_CENTRAL'' then Some (ET_OK, None, eid1)
                   else
                     let eid2 = conductor_start loads eid1 in
                     if sd_status (st_data (id_stats eid2 ! s)) \<noteq> ET_STATION_IDLE then
                       Some (ET_ERROR, None, add_nstations (-1) (upd_stat eid2 s et_init_station))
                     else case station_insert (length (id_stats eid2)) (sy_nstations (id_sys eid2)) (chain_of eid2) s
                                 position parallelposition of
                            None \<Rightarrow> None
                          | Some (status, ch) \<Rightarrow>
                              if status \<noteq> ET_OK then
                                Some (ET_ERROR, None, add_nstations (-1) (upd_stat (set_chain eid2 ch) s
                                  (\<lambda>ps. set_status ET_STATION_UNUSED (ps\<lparr>st_conductor := ET_THREAD_KILL\<rparr>))))
                              else Some (ET_OK, Some s, set_chain eid2 ch))"

definition et_station_create_at ::
  "(et_id \<Rightarrow> string \<Rightarrow> et_stat_config \<Rightarrow> int \<Rightarrow> int \<Rightarrow> int \<times> nat option \<times> et_id) \<Rightarrow> (string \<Rightarrow> string \<Rightarrow> bool) \<Rightarrow> int \<Rightarrow>
     et_id \<Rightarrow> string option \<Rightarrow> et_stat_config option \<Rightarrow> int \<Rightarrow> int \<Rightarrow> (int \<times> nat option \<times> et_id) option" where
  "et_station_create_at etr loads pid eid stat_name sconfig position parallelposition =
     (case stat_name of
        None \<Rightarrow> Some (ET_ERROR, None, eid)
      | Some name \<Rightarrow>
          let sc = (case sconfig of None \<Rightarrow> et_station_config_init | Some c \<Rightarrow> c) in
          if length name > ET_STATNAME_LENGTH - 1 then Some (ET_ERROR, None, eid)
          else if position \<noteq> ET_END \<and> position < 0 then Some (ET_ERROR, None, eid)
          else if parallelposition \<noteq> ET_END \<and> parallelposition \<noteq> ET_NEWHEAD \<and> parallelposition < 0 then
            Some (ET_ERROR, None, eid)
          else if cf_init sc \<noteq> ET_STRUCT_OK then Some (ET_ERROR, None, eid)
          else if name \<noteq> ''GRAND_CENTRAL'' \<and> position = 0 then Some (ET_ERROR, None, eid)
          else if id_locality eid \<noteq> ET_LOCAL then Some (etr eid name sc position parallelposition)
          else if \<not> id_alive eid \<and> name \<noteq> ''GRAND_CENTRAL'' then Some (ET_ERROR_DEAD, None, eid)
          else if id_closed eid then Some (ET_ERROR_CLOSED, None, eid)
          else
            let (status, sc1) = et_station_config_check (id_sys eid) sc in
            if status = ET_ERROR then Some (ET_ERROR, None, eid)
            else station_create_local loads pid eid name sc1 position parallelposition)"

definition et_station_create ::
  "(et_id \<Rightarrow> string \<Rightarrow> et_stat_config \<Rightarrow> int \<Rightarrow> int \<Rightarrow> int \<times> nat option \<times> et_id) \<Rightarrow> (string \<Rightarrow> string \<Rightarrow> bool) \<Rightarrow> int \<Rightarrow>
     et_id \<Rightarrow> string option \<Rightarrow> et_stat_config option \<Rightarrow> (int \<times> nat option \<times> et_id) option" where
  "et_station_create etr loads pid eid stat_name sconfig =
     et_station_create_at etr loads pid eid stat_name sconfig ET_END ET_END"

definition et_station_remove ::
  "(et_id \<Rightarrow> int \<Rightarrow> int \<times> et_id) \<Rightarrow> (et_id \<Rightarrow> et_id) \<Rightarrow> et_id \<Rightarrow> int \<Rightarrow> (int \<times> et_id) option" where
  "et_station_remove etr conductor_works eid stat_id =
     (if stat_id < 0 then Some (ET_ERROR, eid)
      else if stat_id = ET_GRANDCENTRAL then Some (ET_ERROR, eid)
      else if id_locality eid \<noteq> ET_LOCAL then Some (etr eid stat_id)
      else local_guard eid (\<lambda>e. Some (e, eid))
        (if stat_id \<ge> nstations_max eid then Some (ET_ERROR, eid)
         else case stat_ix (id_stats eid) stat_id of
                None \<Rightarrow> None
              | Some s \<Rightarrow>
                  if sd_nattachments (st_data (id_stats eid ! s)) > 0 then Some (ET_ERROR, eid)
                  else case station_remove (chain_of eid) s of
                         None \<Rightarrow> None
                       | Some ch \<Rightarrow>
                           let eid1 = conductor_works (set_chain eid ch) in
                           Some (ET_OK, add_nstations (-1) (upd_stat eid1 s
                             (\<lambda>ps. set_status ET_STATION_UNUSED (ps\<lparr>st_conductor := ET_THREAD_KILL\<rparr>))))))"

section \<open>Attaching and detaching\<close>

fun find_att :: "et_attach list \<Rightarrow> nat \<Rightarrow> nat option" where
  "find_att [] i = None"
| "find_att (a # as) i = (if at_num a = -1 then Some i else find_att as (Suc i))"

definition add_nattachments :: "int \<Rightarrow> et_id \<Rightarrow> et_id" where
  "add_nattachments n eid = eid\<lparr>id_sys := (id_sys eid)\<lparr>sy_nattachments := sy_nattachments (id_sys eid) + n\<rparr>\<rparr>"

definition upd_proc :: "et_id \<Rightarrow> int \<Rightarrow> (et_proc \<Rightarrow> et_proc) \<Rightarrow> et_id" where
  "upd_proc eid p f = (if p = ET_SYS then eid else eid\<lparr>id_sys := (id_sys eid)\<lparr>sy_proc :=
     (sy_proc (id_sys eid))[nat p := f (sy_proc (id_sys eid) ! nat p)]\<rparr>\<rparr>)"

definition note_att :: "int \<Rightarrow> nat \<Rightarrow> int \<Rightarrow> et_station \<Rightarrow> et_station" where
  "note_att d a v ps = ps\<lparr>st_data := (st_data ps)\<lparr>sd_nattachments := sd_nattachments (st_data ps) + d,
     sd_att := (sd_att (st_data ps))[a := v]\<rparr>\<rparr>"

definition note_proc :: "int \<Rightarrow> nat \<Rightarrow> int \<Rightarrow> et_proc \<Rightarrow> et_proc" where
  "note_proc d a v p = p\<lparr>pr_nattachments := pr_nattachments p + d, pr_att := (pr_att p)[a := v]\<rparr>"

definition et_station_attach ::
  "(et_id \<Rightarrow> int \<Rightarrow> int \<times> nat option \<times> et_id) \<Rightarrow> int \<Rightarrow> string \<Rightarrow> et_id \<Rightarrow> int \<Rightarrow> (int \<times> nat option \<times> et_id) option" where
  "et_station_attach etr pid host eid stat_id =
     (let sys = id_sys eid in
      if stat_id < 0 then Some (ET_ERROR, None, eid)
      else if id_locality eid \<noteq> ET_LOCAL then Some (etr eid stat_id)
      else local_guard eid (\<lambda>e. Some (e, None, eid))
        (if stat_id \<ge> nstations_max eid then Some (ET_ERROR, None, eid)
         else case stat_ix (id_stats eid) stat_id of
                None \<Rightarrow> None
              | Some s \<Rightarrow>
                  let ps = id_stats eid ! s in
                  if sd_status (st_data ps) \<noteq> ET_STATION_ACTIVE \<and> sd_status (st_data ps) \<noteq> ET_STATION_IDLE then
                    Some (ET_ERROR, None, eid)
                  else if cf_user_mode (st_config ps) > 0 \<and> cf_user_mode (st_config ps) \<le> sd_nattachments (st_data ps) then
                    Some (ET_ERROR_TOOMANY, None, eid)
                  else if sy_nattachments sys \<ge> sc_nattachments (sy_config sys) then Some (ET_ERROR_TOOMANY, None, eid)
                  else case find_att (take (nat (sc_nattachments (sy_config sys))) (sy_attach sys)) 0 of
                         None \<Rightarrow> Some (ET_ERROR, None, eid)
                       | Some a \<Rightarrow>
                           let eid1 = upd_att (add_nattachments 1 eid) a (\<lambda>x. (et_init_attachment x)\<lparr>at_num := int a,
                                 at_proc := id_proc eid, at_stat := stat_id, at_status := ET_ATT_ACTIVE,
                                 at_pid := pid, at_host := host\<rparr>);
                               eid2 = upd_proc eid1 (id_proc eid) (note_proc 1 a (int a))
                           in Some (ET_OK, Some a, upd_stat eid2 s
                                (\<lambda>ps. set_status ET_STATION_ACTIVE (note_att 1 a (int a) ps)))))"

definition detach_local :: "et_id \<Rightarrow> nat \<Rightarrow> nat \<Rightarrow> (int \<times> et_id) option" where
  "detach_local eid a s =
     (let eid1 = add_nattachments (-1) (upd_att eid a (\<lambda>x. x\<lparr>at_num := -1, at_status := ET_ATT_UNUSED\<rparr>)) in
      case (if sd_nattachments (st_data (id_stats eid1 ! s)) = 1 \<and> s \<noteq> 0
            then et_flush_events (upd_stat eid1 s (set_status ET_STATION_IDLE)) a s
            else Some eid1) of
        None \<Rightarrow> None
      | Some eid2 \<Rightarrow>
          case et_restore_events eid2 (int a) s of
            None \<Rightarrow> None
          | Some (status, eid3) \<Rightarrow>
              let eid4 = upd_stat eid3 s (note_att (-1) a (-1)) in
              Some (ET_OK, if id_cleanup eid \<noteq> 1 then upd_proc eid4 (id_proc eid) (note_proc (-1) a (-1)) else eid4))"

definition et_station_detach ::
  "(et_id \<Rightarrow> int \<Rightarrow> int \<times> et_id) \<Rightarrow> et_id \<Rightarrow> int \<Rightarrow> (int \<times> et_id) option" where
  "et_station_detach etr eid att =
     (if att < 0 \<or> att \<ge> int ET_ATTACHMENTS_MAX then Some (ET_ERROR, eid)
      else if id_locality eid \<noteq> ET_LOCAL then Some (etr eid att)
      else local_guard eid (\<lambda>e. Some (e, eid))
        (if att \<ge> sc_nattachments (sy_config (id_sys eid)) then Some (ET_ERROR, eid)
         else if \<not> nat att < length (sy_attach (id_sys eid)) then None
         else
           let stat = at_stat (sy_attach (id_sys eid) ! nat att) in
           if stat < 0 then Some (ET_ERROR, eid)
           else case stat_ix (id_stats eid) stat of
                  None \<Rightarrow> None
                | Some s \<Rightarrow> detach_local eid (nat att) s))"

section \<open>Position\<close>

definition in_chain :: "et_station \<Rightarrow> bool" where
  "in_chain ps \<longleftrightarrow> sd_status (st_data ps) = ET_STATION_IDLE \<or> sd_status (st_data ps) = ET_STATION_ACTIVE"

definition move_station :: "int \<Rightarrow> et_station list \<times> int \<Rightarrow> nat \<Rightarrow> int \<Rightarrow> int \<Rightarrow> (int \<times> et_station list \<times> int) option" where
  "move_station nstations ch s position parallelposition =
     (case station_find (fst ch) nstations s of
        None \<Rightarrow> None
      | Some (r, currentPosition, currentParallelPosition) \<Rightarrow>
          case station_remove ch s of
            None \<Rightarrow> None
          | Some ch1 \<Rightarrow>
              case station_insert (length (fst ch1)) nstations ch1 s position parallelposition of
                None \<Rightarrow> None
              | Some (err, ch2) \<Rightarrow>
                  if err \<noteq> ET_OK then
                    map_option (\<lambda>(r, ch3). (err, ch3))
                      (station_insert (length (fst ch2)) nstations ch2 s currentPosition currentParallelPosition)
                  else Some (err, ch2))"

definition et_station_setposition ::
  "(et_id \<Rightarrow> int \<Rightarrow> int \<Rightarrow> int \<Rightarrow> int \<times> et_id) \<Rightarrow> et_id \<Rightarrow> int \<Rightarrow> int \<Rightarrow> int \<Rightarrow> (int \<times> et_id) option" where
  "et_station_setposition etr eid stat_id position parallelposition =
     (if stat_id < 0 then Some (ET_ERROR, eid)
      else if stat_id = ET_GRANDCENTRAL then Some (if position = 0 then ET_OK else ET_ERROR, eid)
      else if position \<noteq> ET_END \<and> position < 0 then Some (ET_ERROR, eid)
      else if position = 0 then Some (ET_ERROR, eid)
      else if parallelposition \<noteq> ET_END \<and> parallelposition \<noteq> ET_NEWHEAD \<and> parallelposition < 0 then Some (ET_ERROR, eid)
      else if id_locality eid \<noteq> ET_LOCAL then Some (etr eid stat_id position parallelposition)
      else local_guard eid (\<lambda>e. Some (e, eid))
        (if stat_id \<ge> nstations_max eid then Some (ET_ERROR, eid)
         else case stat_ix (id_stats eid) stat_id of
                None \<Rightarrow> None
              | Some s \<Rightarrow>
                  if \<not> in_chain (id_stats eid ! s) then Some (ET_ERROR, eid)
                  else map_option (\<lambda>(err, ch). (err, set_chain eid ch))
                    (move_station (sy_nstations (id_sys eid)) (chain_of eid) s position parallelposition)))"

definition et_station_getposition ::
  "(et_id \<Rightarrow> int \<Rightarrow> int \<times> (int \<times> int option) option) \<Rightarrow> et_id \<Rightarrow> int \<Rightarrow> (int \<times> int option) answer" where
  "et_station_getposition etr eid stat_id =
     (if stat_id < 0 then Some (ET_ERROR, None)
      else if stat_id = ET_GRANDCENTRAL then Some (ET_OK, Some (0, None))
      else if id_locality eid \<noteq> ET_LOCAL then Some (etr eid stat_id)
      else local_guard eid (\<lambda>e. Some (e, None))
        (if stat_id \<ge> nstations_max eid then Some (ET_ERROR, None)
         else case stat_ix (id_stats eid) stat_id of
                None \<Rightarrow> None
              | Some s \<Rightarrow>
                  if \<not> in_chain (id_stats eid ! s) then Some (ET_ERROR, None)
                  else map_option (\<lambda>(r, p, pp). if r = ET_OK then (r, Some (p, Some pp)) else (r, None))
                    (station_find (id_stats eid) (sy_nstations (id_sys eid)) s)))"

end
