(* ===== verification/ET_StationTable.thy ===== *)
theory ET_StationTable
  imports ET_Station
begin

text \<open>
  The table of stations as an invariant: which slots are used, their number, their names, and the
  chain that holds exactly the stations in use. Creation and removal keep it (src/libsrc/et\_station.c).
\<close>

section \<open>What chain operations leave unchanged\<close>

definition nolinks :: "et_station \<Rightarrow> et_station" where
  "nolinks ps = ps\<lparr>st_next := 0, st_prev := 0, st_nextparallel := 0, st_prevparallel := 0, st_waslast := 0\<rparr>"

lemma map_nolinks_upd [et_frame]: "(\<And>x. nolinks (f x) = nolinks x) \<Longrightarrow> map nolinks (upd_at i f stats) = map nolinks stats"
  unfolding upd_at_def by (metis list_update_id map_update)

lemma nolinks_simps [simp]:
  "nolinks (x\<lparr>st_next := a\<rparr>) = nolinks x" "nolinks (x\<lparr>st_prev := a\<rparr>) = nolinks x"
  "nolinks (x\<lparr>st_nextparallel := a\<rparr>) = nolinks x" "nolinks (x\<lparr>st_prevparallel := a\<rparr>) = nolinks x"
  "nolinks (x\<lparr>st_waslast := a\<rparr>) = nolinks x"
  by (simp_all add: nolinks_def)

lemma nolinks_eqD:
  assumes "nolinks a = nolinks b"
  shows "st_num a = st_num b" "st_config a = st_config b" "st_data a = st_data b" "st_name a = st_name b"
    "st_list_in a = st_list_in b" "st_list_out a = st_list_out b" "st_fix a = st_fix b"
  using arg_cong [OF assms, of st_num] arg_cong [OF assms, of st_config] arg_cong [OF assms, of st_data]
    arg_cong [OF assms, of st_name] arg_cong [OF assms, of st_list_in] arg_cong [OF assms, of st_list_out]
    arg_cong [OF assms, of st_fix]
  by (simp_all add: nolinks_def)

lemma station_insert_nolinks:
  assumes "station_insert fuel n ch s p pp = Some (r, ch')"
  shows "map nolinks (fst ch') = map nolinks (fst ch)"
  using assms
  by (auto simp: station_insert_def append_station_def insert_parallel_def insert_between_def Let_def et_frame
      split: if_splits option.splits prod.splits slot.splits Option.bind_splits)

lemma station_remove_nolinks:
  assumes "station_remove ch s = Some ch'"
  shows "map nolinks (fst ch') = map nolinks (fst ch)"
  using assms
  by (auto simp: station_remove_def unlink_main_def promote_parallel_def unlink_parallel_def Let_def et_frame
      split: if_splits option.splits prod.splits Option.bind_splits)

lemma map_nolinks_nth:
  assumes "map nolinks xs = map nolinks ys"
  shows "length xs = length ys" "i < length ys \<Longrightarrow> nolinks (xs ! i) = nolinks (ys ! i)"
proof -
  show l: "length xs = length ys" using assms by (metis length_map)
  assume "i < length ys"
  with l arg_cong [OF assms, of "\<lambda>zs. zs ! i"] show "nolinks (xs ! i) = nolinks (ys ! i)" by simp
qed

section \<open>The invariant\<close>

definition station_table :: "et_id \<Rightarrow> nat list list \<Rightarrow> bool" where
  "station_table eid gs \<longleftrightarrow> chain_ok (id_stats eid) (sy_stat_tail (id_sys eid)) gs \<and>
     nstations_max eid = int (length (id_stats eid)) \<and> sy_nstations (id_sys eid) = int (length (concat gs)) + 1 \<and>
     (\<forall>t < length (id_stats eid). if t \<in> set (0 # concat gs) then in_chain (id_stats eid ! t)
        else sd_status (st_data (id_stats eid ! t)) = ET_STATION_UNUSED) \<and>
     inj_on (\<lambda>t. st_name (id_stats eid ! t)) (set (0 # concat gs))"

lemma station_tableD:
  assumes "station_table eid gs"
  shows "chain_ok (id_stats eid) (sy_stat_tail (id_sys eid)) gs" "nstations_max eid = int (length (id_stats eid))"
    "sy_nstations (id_sys eid) = int (length (concat gs)) + 1"
    "\<And>t. t < length (id_stats eid) \<Longrightarrow> t \<in> set (0 # concat gs) \<Longrightarrow> in_chain (id_stats eid ! t)"
    "\<And>t. t < length (id_stats eid) \<Longrightarrow> t \<notin> set (0 # concat gs) \<Longrightarrow> sd_status (st_data (id_stats eid ! t)) = ET_STATION_UNUSED"
    "inj_on (\<lambda>t. st_name (id_stats eid ! t)) (set (0 # concat gs))"
    "\<And>t. t \<in> set (0 # concat gs) \<Longrightarrow> t < length (id_stats eid)"
  using assms chain_okD(2) [of "id_stats eid" "sy_stat_tail (id_sys eid)" gs]
  unfolding station_table_def members_ok_def by meson+

lemma chain_ok_outside:
  assumes "s \<notin> set (0 # concat gs)"
  shows "chain_ok (stats[s := x]) tail gs = chain_ok stats tail gs"
proof -
  have n: "stats[s := x] ! t = stats ! t" if "t \<in> set (0 # concat gs)" for t
  proof -
    have "t \<noteq> s" using assms that by blast
    then show ?thesis by simp
  qed
  have "members_ok (stats[s := x]) (set (0 # concat gs)) = members_ok stats (set (0 # concat gs))"
    using n by (simp add: members_ok_def)
  moreover have "main_ok (stats[s := x]) tail (0 # map hd gs) = main_ok stats tail (0 # map hd gs)"
    if "set (0 # map hd gs) \<subseteq> set (0 # concat gs)"
  proof (rule main_ok_cong)
    fix i assume "i \<in> set (0 # map hd gs)"
    with that n show "st_next (stats[s := x] ! i) = st_next (stats ! i) \<and> st_prev (stats[s := x] ! i) = st_prev (stats ! i)"
      by (metis subsetD)
  qed
  moreover have "group_ok (stats[s := x]) g = group_ok stats g" if "g \<in> set gs" for g
  proof (rule group_ok_cong)
    fix i assume "i \<in> set g"
    then have "i \<in> set (0 # concat gs)" using that by auto
    with n show "st_nextparallel (stats[s := x] ! i) = st_nextparallel (stats ! i) \<and>
        st_prevparallel (stats[s := x] ! i) = st_prevparallel (stats ! i) \<and>
        cf_flow_mode (st_config (stats[s := x] ! i)) = cf_flow_mode (st_config (stats ! i))" by metis
  next
    fix i assume "i \<in> set (tl g)"
    then have "i \<in> set (0 # concat gs)" using that by (auto dest!: in_set_tlD)
    with n show "st_next (stats[s := x] ! i) = st_next (stats ! i) \<and> st_prev (stats[s := x] ! i) = st_prev (stats ! i)" by metis
  qed
  moreover have "set (0 # map hd gs) \<subseteq> set (0 # concat gs)" if "\<forall>g \<in> set gs. g \<noteq> []"
    using that by (auto intro!: bexI)
  ultimately show ?thesis unfolding chain_ok_def by (metis group_ok_def)
qed

lemma find_status_Some:
  "find_status stats v i = Some k \<Longrightarrow> i \<le> k \<and> k - i < length stats \<and> sd_status (st_data (stats ! (k - i))) = v"
proof (induction stats v i rule: find_status.induct)
  case (2 ps stats v i)
  then show ?case by (cases "k - i") (auto split: if_splits, (metis Suc_diff_Suc diff_Suc_1 less_eq_Suc_le nth_Cons_Suc)+)
qed simp

lemma find_status_None: "find_status stats v i = None \<longleftrightarrow> (\<forall>ps \<in> set stats. sd_status (st_data ps) \<noteq> v)"
  by (induction stats v i rule: find_status.induct) auto

lemma find_status_unique:
  assumes "k < length stats" "\<And>t. t < length stats \<Longrightarrow> sd_status (st_data (stats ! t)) = v \<longleftrightarrow> t = k"
  shows "find_status stats v 0 = Some k"
proof (cases "find_status stats v 0")
  case None
  then show ?thesis using assms by (auto simp: find_status_None)
next
  case (Some j)
  with find_status_Some [OF Some] assms show ?thesis by auto
qed

lemma find_name_None:
  "find_name stats nm i = None \<longleftrightarrow> (\<forall>ps \<in> set stats. sd_status (st_data ps) = ET_STATION_UNUSED \<or> st_name ps \<noteq> nm)"
  by (induction stats nm i rule: find_name.induct) auto

lemma insert_group_set:
  assumes "insert_group stats gs s p pp = Some gs'"
  shows "mset (concat gs') = add_mset s (mset (concat gs))"
proof -
  have ins: "mset (insert_in_group g s q) = add_mset s (mset g)" for g q
    by (simp add: insert_in_group_def Let_def) (metis append_take_drop_id mset_append union_mset_add_mset_right)+
  have mid: "mset (concat (take k gs @ [s] # drop k gs)) = add_mset s (mset (concat gs))" for k
    by (simp add: mset_concat) (metis append_take_drop_id map_append sum_list.append union_mset_add_mset_right)
  from assms show ?thesis
    using ins mid mset_concat_update [OF _ ins]
    by (auto simp: insert_group_def Let_def split: if_splits)
qed


section \<open>Creation\<close>

lemma upd_stat_simps [simp]:
  "id_stats (upd_stat eid s f) = (id_stats eid)[s := f (id_stats eid ! s)]" "id_sys (upd_stat eid s f) = id_sys eid"
  "id_events (upd_stat eid s f) = id_events eid" "id_cleanup (upd_stat eid s f) = id_cleanup eid"
  "id_proc (upd_stat eid s f) = id_proc eid"
  by (simp_all add: upd_stat_def)

lemma nstations_max_simps [simp]:
  "nstations_max (upd_stat eid s f) = nstations_max eid" "nstations_max (set_chain eid ch) = nstations_max eid"
  "nstations_max (add_nstations n eid) = nstations_max eid"
  by (simp_all add: nstations_max_def set_chain_def add_nstations_def)

lemma add_nstations_simps [simp]:
  "id_stats (add_nstations n eid) = id_stats eid" "sy_stat_tail (id_sys (add_nstations n eid)) = sy_stat_tail (id_sys eid)"
  "sy_nstations (id_sys (add_nstations n eid)) = sy_nstations (id_sys eid) + n"
  by (simp_all add: add_nstations_def)

lemma set_chain_simps [simp]:
  "id_stats (set_chain eid ch) = fst ch" "sy_stat_tail (id_sys (set_chain eid ch)) = snd ch"
  "sy_nstations (id_sys (set_chain eid ch)) = sy_nstations (id_sys eid)"
  by (simp_all add: set_chain_def)

lemma new_station_simps [simp]:
  "st_config (new_station pid s name sc ps) = sc" "st_name (new_station pid s name sc ps) = name"
  "sd_status (st_data (new_station pid s name sc ps)) = ET_STATION_CREATING"
  "st_num (new_station pid s name sc ps) = int s" "st_next (new_station pid s name sc ps) = -1"
  "st_prev (new_station pid s name sc ps) = -1" "st_nextparallel (new_station pid s name sc ps) = -1"
  "st_prevparallel (new_station pid s name sc ps) = -1"
  by (simp_all add: new_station_def et_init_station_def Let_def)

lemma set_status_simps [simp]:
  "st_config (set_status v ps) = st_config ps" "st_name (set_status v ps) = st_name ps"
  "sd_status (st_data (set_status v ps)) = v" "st_num (set_status v ps) = st_num ps" "st_next (set_status v ps) = st_next ps"
  "st_prev (set_status v ps) = st_prev ps" "st_nextparallel (set_status v ps) = st_nextparallel ps"
  "st_prevparallel (set_status v ps) = st_prevparallel ps"
  by (simp_all add: set_status_def)

text \<open>A table with one more slot in an unused state is the same table.\<close>

lemma station_table_outside:
  assumes t: "station_table eid gs" and s: "s \<notin> set (0 # concat gs)"
    and e: "id_stats eid' = (id_stats eid)[s := x]" "sy_stat_tail (id_sys eid') = sy_stat_tail (id_sys eid)"
      "nstations_max eid' = nstations_max eid" "sy_nstations (id_sys eid') = sy_nstations (id_sys eid)"
    and x: "sd_status (st_data x) = ET_STATION_UNUSED"
  shows "station_table eid' gs"
proof -
  note d = station_tableD [OF t]
  have n: "id_stats eid' ! u = id_stats eid ! u" if "u \<in> set (0 # concat gs)" for u
  proof -
    have "u \<noteq> s" using that s by blast
    then show ?thesis by (simp add: e)
  qed
  have c: "chain_ok (id_stats eid') (sy_stat_tail (id_sys eid')) gs" using d(1) chain_ok_outside [OF s] by (simp add: e)
  have "inj_on (\<lambda>t. st_name (id_stats eid' ! t)) (set (0 # concat gs))"
    using d(6) n by (simp add: inj_on_def del: list.set) 
  moreover have "if u \<in> set (0 # concat gs) then in_chain (id_stats eid' ! u)
      else sd_status (st_data (id_stats eid' ! u)) = ET_STATION_UNUSED" if "u < length (id_stats eid')" for u
  proof (cases "u \<in> set (0 # concat gs)")
    case True
    then show ?thesis using n d(4) that by (simp add: e del: list.set)
  next
    case False
    then show ?thesis using d(5) [of u] that x by (cases "u = s") (simp_all add: e del: list.set)
  qed
  moreover have "length (id_stats eid') = length (id_stats eid)" by (simp add: e)
  ultimately show ?thesis using c d(2,3) unfolding station_table_def e(3,4) by (metis (mono_tags, lifting))
qed

lemma find_unused:
  assumes t: "station_table eid gs" and n: "\<not> sy_nstations (id_sys eid) \<ge> nstations_max eid"
  obtains s where "find_status (id_stats eid) ET_STATION_UNUSED 0 = Some s" "s < length (id_stats eid)" "s \<notin> set (0 # concat gs)"
proof -
  note d = station_tableD [OF t]
  have "\<exists>u < length (id_stats eid). u \<notin> set (0 # concat gs)"
  proof (rule ccontr)
    assume "\<not> (\<exists>u < length (id_stats eid). u \<notin> set (0 # concat gs))"
    then have "card {..<length (id_stats eid)} \<le> card (set (0 # concat gs))"
      by (intro card_mono) auto
    also have "\<dots> \<le> length (0 # concat gs)" by (rule card_length)
    finally show False using n d(2,3) by simp
  qed
  then obtain u where u: "u < length (id_stats eid)" "u \<notin> set (0 # concat gs)" by blast
  then have "find_status (id_stats eid) ET_STATION_UNUSED 0 \<noteq> None"
    using d(5) [OF u] nth_mem [OF u(1)] unfolding find_status_None by blast
  then obtain s where s: "find_status (id_stats eid) ET_STATION_UNUSED 0 = Some s" by auto
  from find_status_Some [OF s] have "s < length (id_stats eid)" "sd_status (st_data (id_stats eid ! s)) = ET_STATION_UNUSED" by auto
  then show ?thesis using that s d(4) [of s] by (fastforce simp: in_chain_def)
qed

lemma station_table_insert:
  assumes t: "station_table eid gs" and s: "s < length (id_stats eid)" "s \<notin> set (0 # concat gs)"
    and st: "length stats' = length (id_stats eid)"
      "\<And>u. u < length (id_stats eid) \<Longrightarrow> u \<noteq> s \<Longrightarrow> nolinks (stats' ! u) = nolinks (id_stats eid ! u)"
      "in_chain (stats' ! s)" "\<And>u. u \<in> set (0 # concat gs) \<Longrightarrow> st_name (stats' ! s) \<noteq> st_name (id_stats eid ! u)"
    and g: "mset (concat gs') = add_mset s (mset (concat gs))" and c: "chain_ok stats' tail' gs'"
    and e: "id_stats eid' = stats'" "sy_stat_tail (id_sys eid') = tail'" "nstations_max eid' = nstations_max eid"
      "sy_nstations (id_sys eid') = sy_nstations (id_sys eid) + 1"
  shows "station_table eid' gs'"
proof -
  note d = station_tableD [OF t]
  have set': "set (0 # concat gs') = insert s (set (0 # concat gs))" using g by (metis insert_commute list.simps(15) set_mset_add_mset_insert set_mset_mset)
  have len: "length (concat gs') = Suc (length (concat gs))" using g by (metis size_add_mset size_mset)
  have nm: "st_name (stats' ! u) = st_name (id_stats eid ! u)" if "u \<in> set (0 # concat gs)" for u
    using that s(2) d(7) [OF that] by (intro nolinks_eqD(4) st(2)) auto
  have "inj_on (\<lambda>t. st_name (stats' ! t)) (insert s (set (0 # concat gs)))"
    using d(6) nm st(4) unfolding inj_on_def by (metis insert_iff)
  moreover have "if u \<in> set (0 # concat gs') then in_chain (stats' ! u)
      else sd_status (st_data (stats' ! u)) = ET_STATION_UNUSED" if "u < length stats'" for u
  proof (cases "u = s")
    case False
    then have "st_data (stats' ! u) = st_data (id_stats eid ! u)" using that st by (intro nolinks_eqD(3) st(2)) auto
    then show ?thesis using False d(4,5) [of u] that st(1) unfolding set' by (auto simp: in_chain_def)
  qed (use st(3) set' in simp)
  ultimately show ?thesis using c d(2,3) st(1) len unfolding station_table_def e set' by simp
qed


lemma insert_group_cong:
  assumes "st_config (a ! s) = st_config (b ! s)" "\<And>t. t \<in> set (map hd gs) \<Longrightarrow> st_config (a ! t) = st_config (b ! t)"
  shows "insert_group a gs s p pp = insert_group b gs s p pp"
proof -
  have h: "st_config (a ! hd (gs ! k)) = st_config (b ! hd (gs ! k))" if "k < length gs" for k
    using assms(2) [of "hd (gs ! k)"] that by simp
  have "1 \<le> p \<and> nat p \<le> length gs \<Longrightarrow> st_config (a ! hd (gs ! (nat p - 1))) = st_config (b ! hd (gs ! (nat p - 1)))"
    using h [of "nat p - 1"] by linarith
  then show ?thesis unfolding insert_group_def Let_def assms(1) by (simp cong: if_cong)
qed

definition with_config :: "et_station list \<Rightarrow> nat \<Rightarrow> et_stat_config \<Rightarrow> et_station list" where
  "with_config stats s sc = stats[s := (stats ! s)\<lparr>st_config := sc\<rparr>]"

text \<open>What a call of creation leaves as it was when it used slot \<open>s\<close>.\<close>

definition created :: "et_id \<Rightarrow> nat \<Rightarrow> et_id \<Rightarrow> bool" where
  "created eid s eid' \<longleftrightarrow> length (id_stats eid') = length (id_stats eid) \<and>
     (\<forall>t < length (id_stats eid). t \<noteq> s \<longrightarrow> nolinks (id_stats eid' ! t) = nolinks (id_stats eid ! t)) \<and>
     sd_nattachments (st_data (id_stats eid' ! s)) = 0 \<and>
     sd_att (st_data (id_stats eid' ! s)) = replicate ET_ATTACHMENTS_MAX (-1) \<and>
     sd_status (st_data (id_stats eid' ! s)) \<noteq> ET_STATION_ACTIVE \<and>
     eid'\<lparr>id_sys := id_sys eid, id_stats := id_stats eid\<rparr> = eid \<and>
     (id_sys eid')\<lparr>sy_nstations := 0, sy_stat_tail := 0\<rparr> = (id_sys eid)\<lparr>sy_nstations := 0, sy_stat_tail := 0\<rparr>"

lemma create_local_new:
  assumes t: "station_table eid gs" and alive: "id_alive eid" and nm: "name \<noteq> ''GRAND_CENTRAL''"
    "find_name (id_stats eid) name 0 = None" and room: "\<not> sy_nstations (id_sys eid) \<ge> nstations_max eid"
  shows "\<exists>s r sid eid'. station_create_local loads pid eid name sc p pp = Some (r, sid, eid') \<and>
     s < length (id_stats eid) \<and> s \<notin> set (0 # concat gs) \<and> created eid s eid' \<and>
     (if cf_select_mode sc = ET_STATION_SELECT_USER \<and> \<not> loads (cf_lib sc) (cf_fname sc) then r = ET_ERROR \<and> station_table eid' gs
      else case insert_group (with_config (id_stats eid) s sc) gs s p pp of
             None \<Rightarrow> r = ET_ERROR \<and> station_table eid' gs
           | Some gs' \<Rightarrow> r = ET_OK \<and> sid = Some s \<and> station_table eid' gs' \<and> st_config (id_stats eid' ! s) = sc \<and>
               st_name (id_stats eid' ! s) = name)"
proof -
  note d = station_tableD [OF t]
  obtain s where s: "find_status (id_stats eid) ET_STATION_UNUSED 0 = Some s" "s < length (id_stats eid)" "s \<notin> set (0 # concat gs)"
    by (rule find_unused [OF t room])
  have s0: "s \<noteq> 0" using s(3) by auto
  have all: "take (nat (nstations_max eid)) xs = xs" if "length xs = length (id_stats eid)" for xs :: "et_station list"
    using d(2) that by simp
  let ?x = "new_station pid s name sc (id_stats eid ! s)"
  define eid1 where "eid1 = upd_stat (add_nstations 1 eid) s (new_station pid s name sc)"
  have st1: "id_stats eid1 = (id_stats eid)[s := ?x]" "nstations_max eid1 = nstations_max eid"
    "sy_nstations (id_sys eid1) = sy_nstations (id_sys eid) + 1" "sy_stat_tail (id_sys eid1) = sy_stat_tail (id_sys eid)"
    by (simp_all add: eid1_def)
  have cr: "find_status (take (nat (nstations_max eid1)) (id_stats eid1)) ET_STATION_CREATING 0 = Some s"
  proof -
    have "find_status (id_stats eid1) ET_STATION_CREATING 0 = Some s"
    proof (rule find_status_unique)
      fix u assume u: "u < length (id_stats eid1)"
      have "sd_status (st_data (id_stats eid ! u)) \<noteq> ET_STATION_CREATING"
        using d(4,5) [of u] u by (fastforce simp: st1 in_chain_def)
      then show "sd_status (st_data (id_stats eid1 ! u)) = ET_STATION_CREATING \<longleftrightarrow> u = s"
        using u by (cases "u = s") (simp_all add: st1)
    qed (simp add: st1 s(2))
    then show ?thesis using all [of "id_stats eid1"] by (simp add: st1)
  qed
  let ?no = "cf_select_mode sc = ET_STATION_SELECT_USER \<and> \<not> loads (cf_lib sc) (cf_fname sc)"
  have cs: "conductor_start loads eid1 = (if ?no then eid1 else upd_stat eid1 s (set_status ET_STATION_IDLE))"
    using cr s0 s(2) by (simp add: conductor_start_def Let_def st1)
  have run: "station_create_local loads pid eid name sc p pp =
    (let eid2 = conductor_start loads eid1 in
     if sd_status (st_data (id_stats eid2 ! s)) \<noteq> ET_STATION_IDLE then
       Some (ET_ERROR, None, add_nstations (-1) (upd_stat eid2 s et_init_station))
     else case station_insert (length (id_stats eid2)) (sy_nstations (id_sys eid2)) (chain_of eid2) s p pp of
            None \<Rightarrow> None
          | Some (status, ch) \<Rightarrow>
              if status \<noteq> ET_OK then
                Some (ET_ERROR, None, add_nstations (-1) (upd_stat (set_chain eid2 ch) s
                  (\<lambda>ps. set_status ET_STATION_UNUSED (ps\<lparr>st_conductor := ET_THREAD_KILL\<rparr>))))
              else Some (ET_OK, Some s, set_chain eid2 ch))"
    using alive nm room s(1) all [of "id_stats eid"] unfolding station_create_local_def eid1_def by simp
  show ?thesis
  proof (cases ?no)
    case True
    then have c: "conductor_start loads eid1 = eid1" using cs by simp
    let ?e = "add_nstations (-1) (upd_stat eid1 s et_init_station)"
    have "station_create_local loads pid eid name sc p pp = Some (ET_ERROR, None, ?e)"
      unfolding run c Let_def using s(2) by (simp add: st1)
    moreover have "station_table ?e gs"
      by (rule station_table_outside [OF t s(3), where x = "et_init_station ?x"])
        (use s(2) in \<open>simp_all add: st1 et_init_station_def\<close>)
    moreover have "created eid s ?e"
      using s(2) by (auto simp: created_def eid1_def et_init_station_def upd_stat_def add_nstations_def)
    ultimately show ?thesis using True s(2,3) by auto
  next
    case False
    let ?y = "set_status ET_STATION_IDLE ?x"
    define eid2 where "eid2 = upd_stat eid1 s (set_status ET_STATION_IDLE)"
    have c: "conductor_start loads eid1 = eid2" using cs False by (simp add: eid2_def)
    have st2: "id_stats eid2 = (id_stats eid)[s := ?y]" "nstations_max eid2 = nstations_max eid"
      "sy_nstations (id_sys eid2) = sy_nstations (id_sys eid) + 1" "sy_stat_tail (id_sys eid2) = sy_stat_tail (id_sys eid)"
      using s(2) by (simp_all add: eid2_def st1)
    have y: "sd_nattachments (st_data ?y) = 0" "sd_att (st_data ?y) = replicate ET_ATTACHMENTS_MAX (-1)"
      by (simp_all add: set_status_def new_station_def et_init_station_def Let_def)
    have ch2: "chain_ok (id_stats eid2) (sy_stat_tail (id_sys eid)) gs" using d(1) chain_ok_outside [OF s(3)] by (simp add: st2)
    have fr: "fresh_station (id_stats eid2) s" using s(2) by (simp add: fresh_station_def st2)
    have n2: "sy_nstations (id_sys eid2) = int (length (concat gs)) + 2" using d(3) by (simp add: st2)
    have hds: "st_config (id_stats eid2 ! u) = st_config (with_config (id_stats eid) s sc ! u)" if "u \<in> set (map hd gs)" for u
    proof -
      have "u \<noteq> s" using that s(3) chain_okD(7) [OF d(1)] by auto
      then show ?thesis by (simp add: st2 with_config_def)
    qed
    have ig: "insert_group (id_stats eid2) gs s p pp = insert_group (with_config (id_stats eid) s sc) gs s p pp"
      by (rule insert_group_cong [OF _ hds]) (use s(2) in \<open>simp_all add: st2 with_config_def\<close>)
    note ins = station_insert_chain [OF ch2 fr s(3) n2, of p pp, unfolded ig]
    show ?thesis
    proof (cases "insert_group (with_config (id_stats eid) s sc) gs s p pp")
      case None
      let ?e = "add_nstations (-1) (upd_stat (set_chain eid2 (id_stats eid2, sy_stat_tail (id_sys eid))) s
                  (\<lambda>ps. set_status ET_STATION_UNUSED (ps\<lparr>st_conductor := ET_THREAD_KILL\<rparr>)))"
      have "station_create_local loads pid eid name sc p pp = Some (ET_ERROR, None, ?e)"
        unfolding run c Let_def using s(2) ins None by (simp add: st2 chain_of_def)
      moreover have "station_table ?e gs"
        by (rule station_table_outside [OF t s(3), where x = "set_status ET_STATION_UNUSED (?y\<lparr>st_conductor := ET_THREAD_KILL\<rparr>)"])
          (use s(2) in \<open>simp_all add: st2\<close>)
      moreover have "created eid s ?e"
        using s(2) by (auto simp: created_def st2 set_status_def new_station_def et_init_station_def Let_def eid2_def eid1_def upd_stat_def add_nstations_def set_chain_def)
      ultimately show ?thesis using False None s(2,3) by auto
    next
      case (Some gs')
      then obtain stats' tail' where si: "station_insert (length (id_stats eid2)) (sy_nstations (id_sys eid2))
          (id_stats eid2, sy_stat_tail (id_sys eid)) s p pp = Some (ET_OK, (stats', tail'))" "chain_ok stats' tail' gs'"
        using ins by auto
      let ?e = "set_chain eid2 (stats', tail')"
      have r: "station_create_local loads pid eid name sc p pp = Some (ET_OK, Some s, ?e)"
        unfolding run c Let_def using s(2) si(1) by (simp add: st2 chain_of_def)
      note nl = map_nolinks_nth [OF station_insert_nolinks [OF si(1), unfolded fst_conv]]
      have ys: "nolinks (stats' ! s) = nolinks ?y" using nl(2) [of s] s(2) by (simp add: st2)
      have unused: "st_name (id_stats eid ! u) \<noteq> name" if "u \<in> set (0 # concat gs)" for u
      proof -
        have "id_stats eid ! u \<in> set (id_stats eid)" using d(7) [OF that] by simp
        then show ?thesis using nm(2) d(4) [OF d(7) [OF that] that] by (auto simp: find_name_None in_chain_def)
      qed
      have "station_table ?e gs'"
      proof (rule station_table_insert [OF t s(2,3), where stats' = stats' and tail' = tail'])
        show "length stats' = length (id_stats eid)" using nl(1) by (simp add: st2)
        show "nolinks (stats' ! u) = nolinks (id_stats eid ! u)" if "u < length (id_stats eid)" "u \<noteq> s" for u
          using nl(2) [of u] that by (simp add: st2)
        show "in_chain (stats' ! s)" using nolinks_eqD(3) [OF ys] by (simp add: in_chain_def)
        show "st_name (stats' ! s) \<noteq> st_name (id_stats eid ! u)" if "u \<in> set (0 # concat gs)" for u
          using nolinks_eqD(4) [OF ys] unused [OF that] by simp
        show "mset (concat gs') = add_mset s (mset (concat gs))" by (rule insert_group_set [OF Some])
      qed (use si(2) in \<open>simp_all add: st2\<close>)
      moreover have "created eid s ?e"
        using s(2) nl(1,2) nolinks_eqD(3) [OF ys] y
        by (auto simp: created_def st2 eid2_def eid1_def upd_stat_def add_nstations_def set_chain_def)
      ultimately show ?thesis using r False Some s(2,3) nolinks_eqD(2,4) [OF ys] by auto
    qed
  qed
qed


section \<open>Steps that only move events\<close>

definition list_change :: "et_station \<Rightarrow> et_station \<Rightarrow> bool" where
  "list_change ps ps' \<longleftrightarrow> ps' = ps\<lparr>st_list_in := st_list_in ps', st_list_out := st_list_out ps',
     st_fix := st_fix ps', st_waslast := st_waslast ps'\<rparr>"

definition calm :: "et_attach \<Rightarrow> et_attach" where
  "calm a = a\<lparr>at_quit := ET_ATT_CONTINUE, at_blocked := ET_ATT_UNBLOCKED\<rparr>"

definition events_only :: "et_id \<Rightarrow> et_id \<Rightarrow> bool" where
  "events_only eid eid' \<longleftrightarrow> list_all2 list_change (id_stats eid) (id_stats eid') \<and>
     id_alive eid' = id_alive eid \<and> id_closed eid' = id_closed eid \<and> id_locality eid' = id_locality eid \<and>
     id_proc eid' = id_proc eid \<and> id_cleanup eid' = id_cleanup eid \<and>
     (id_sys eid')\<lparr>sy_ntemps := 0, sy_attach := map calm (sy_attach (id_sys eid'))\<rparr> =
       (id_sys eid)\<lparr>sy_ntemps := 0, sy_attach := map calm (sy_attach (id_sys eid))\<rparr>"

lemma list_change_fields:
  assumes "list_change a b"
  shows "st_num b = st_num a" "st_config b = st_config a" "st_data b = st_data a" "st_name b = st_name a"
    "st_next b = st_next a" "st_prev b = st_prev a" "st_nextparallel b = st_nextparallel a" "st_prevparallel b = st_prevparallel a"
    "st_conductor b = st_conductor a"
proof -
  from assms have e: "b = a\<lparr>st_list_in := st_list_in b, st_list_out := st_list_out b, st_fix := st_fix b, st_waslast := st_waslast b\<rparr>"
    by (simp add: list_change_def)
  show "st_num b = st_num a" "st_config b = st_config a" "st_data b = st_data a" "st_name b = st_name a"
    "st_next b = st_next a" "st_prev b = st_prev a" "st_nextparallel b = st_nextparallel a" "st_prevparallel b = st_prevparallel a"
    "st_conductor b = st_conductor a"
    by (subst e, simp)+
qed

lemma list_change_refl [simp]: "list_change a a"
  by (simp add: list_change_def)

lemma list_change_trans: "list_change a b \<Longrightarrow> list_change b c \<Longrightarrow> list_change a c"
  unfolding list_change_def by (cases a; cases b; cases c) simp

lemma events_only_refl [simp]: "events_only e e"
  by (simp add: events_only_def list_all2_refl)

lemma events_only_trans: "events_only a b \<Longrightarrow> events_only b c \<Longrightarrow> events_only a c"
  unfolding events_only_def using list_all2_trans [of list_change list_change list_change, OF list_change_trans] by force

lemma events_only_stat:
  assumes "events_only e e'"
  shows "length (id_stats e') = length (id_stats e)" "t < length (id_stats e) \<Longrightarrow> list_change (id_stats e ! t) (id_stats e' ! t)"
  using assms by (auto simp: events_only_def list_all2_conv_all_nth)

lemma events_only_sys:
  assumes "events_only e e'"
  shows "sy_nstations (id_sys e') = sy_nstations (id_sys e)" "sy_stat_tail (id_sys e') = sy_stat_tail (id_sys e)"
    "sy_config (id_sys e') = sy_config (id_sys e)" "sy_nattachments (id_sys e') = sy_nattachments (id_sys e)"
    "sy_proc (id_sys e') = sy_proc (id_sys e)" "map calm (sy_attach (id_sys e')) = map calm (sy_attach (id_sys e))"
    "id_proc e' = id_proc e" "id_cleanup e' = id_cleanup e"
proof -
  from assms have e: "(id_sys e')\<lparr>sy_ntemps := 0, sy_attach := map calm (sy_attach (id_sys e'))\<rparr> =
       (id_sys e)\<lparr>sy_ntemps := 0, sy_attach := map calm (sy_attach (id_sys e))\<rparr>" by (simp add: events_only_def)
  show "sy_nstations (id_sys e') = sy_nstations (id_sys e)" using arg_cong [OF e, of sy_nstations] by simp
  show "sy_stat_tail (id_sys e') = sy_stat_tail (id_sys e)" using arg_cong [OF e, of sy_stat_tail] by simp
  show "sy_config (id_sys e') = sy_config (id_sys e)" using arg_cong [OF e, of sy_config] by simp
  show "sy_nattachments (id_sys e') = sy_nattachments (id_sys e)" using arg_cong [OF e, of sy_nattachments] by simp
  show "sy_proc (id_sys e') = sy_proc (id_sys e)" using arg_cong [OF e, of sy_proc] by simp
  show "map calm (sy_attach (id_sys e')) = map calm (sy_attach (id_sys e))" using arg_cong [OF e, of sy_attach] by simp
qed (use assms in \<open>simp_all add: events_only_def\<close>)

lemma events_only_upd_stat:
  "(s < length (id_stats e) \<Longrightarrow> list_change (id_stats e ! s) (f (id_stats e ! s))) \<Longrightarrow> events_only e (upd_stat e s f)"
  by (simp add: events_only_def upd_stat_def list_all2_conv_all_nth) (metis list_change_refl nth_list_update_eq nth_upd_neq)

lemma events_only_events [simp]: "events_only e (e'\<lparr>id_events := ev\<rparr>) = events_only e e'" "events_only e (e'\<lparr>id_histogram := h\<rparr>) = events_only e e'"
  by (simp_all add: events_only_def)

lemma events_only_ntemps [simp]: "events_only e (e'\<lparr>id_sys := (id_sys e')\<lparr>sy_ntemps := n\<rparr>\<rparr>) = events_only e e'"
  by (simp add: events_only_def)

lemma chain_ok_fields:
  assumes "length stats' = length stats"
    "\<And>t. t < length stats \<Longrightarrow> st_num (stats' ! t) = st_num (stats ! t) \<and>
      cf_flow_mode (st_config (stats' ! t)) = cf_flow_mode (st_config (stats ! t)) \<and>
      st_next (stats' ! t) = st_next (stats ! t) \<and> st_prev (stats' ! t) = st_prev (stats ! t) \<and>
      st_nextparallel (stats' ! t) = st_nextparallel (stats ! t) \<and> st_prevparallel (stats' ! t) = st_prevparallel (stats ! t)"
    "chain_ok stats tail gs"
  shows "chain_ok stats' tail gs"
proof -
  note c = chain_okD [OF assms(3)]
  have b: "t < length stats" if "t \<in> set (0 # concat gs)" for t using c(2) that by (auto simp: members_ok_def)
  note f = assms(2) [OF b]
  have "members_ok stats' (set (0 # concat gs))" using c(2) f assms(1) by (simp add: members_ok_def)
  moreover have "main_ok stats' tail (0 # map hd gs)"
  proof (subst main_ok_cong [of _ _ stats])
    fix i assume "i \<in> set (0 # map hd gs)"
    then show "st_next (stats' ! i) = st_next (stats ! i) \<and> st_prev (stats' ! i) = st_prev (stats ! i)" using f c(7) by blast
  qed (rule c(3))
  moreover have "group_ok stats' g" if "g \<in> set gs" for g
  proof (subst group_ok_cong [of _ _ stats])
    fix i assume "i \<in> set g"
    then have "i \<in> set (0 # concat gs)" using that by auto
    then show "st_nextparallel (stats' ! i) = st_nextparallel (stats ! i) \<and> st_prevparallel (stats' ! i) = st_prevparallel (stats ! i) \<and>
        cf_flow_mode (st_config (stats' ! i)) = cf_flow_mode (st_config (stats ! i))" using f by simp
  next
    fix i assume "i \<in> set (tl g)"
    then have "i \<in> set (0 # concat gs)" using that by (auto dest!: in_set_tlD)
    then show "st_next (stats' ! i) = st_next (stats ! i) \<and> st_prev (stats' ! i) = st_prev (stats ! i)" using f by simp
  qed (rule c(4) [OF that])
  ultimately show ?thesis using c(1) by (simp add: chain_ok_def)
qed

text \<open>What the table depends on.\<close>

definition same_place :: "et_station \<Rightarrow> et_station \<Rightarrow> bool" where
  "same_place a b \<longleftrightarrow> st_num b = st_num a \<and> cf_flow_mode (st_config b) = cf_flow_mode (st_config a) \<and>
     st_name b = st_name a \<and> st_next b = st_next a \<and> st_prev b = st_prev a \<and>
     st_nextparallel b = st_nextparallel a \<and> st_prevparallel b = st_prevparallel a \<and> in_chain b = in_chain a \<and>
     (sd_status (st_data b) = ET_STATION_UNUSED \<longleftrightarrow> sd_status (st_data a) = ET_STATION_UNUSED)"

lemma same_place_refl [simp]: "same_place a a"
  by (simp add: same_place_def)

lemma station_table_frame:
  assumes t: "station_table e gs" and l: "length (id_stats e') = length (id_stats e)"
    and p: "\<And>t. t < length (id_stats e) \<Longrightarrow> same_place (id_stats e ! t) (id_stats e' ! t)"
    and y: "sy_nstations (id_sys e') = sy_nstations (id_sys e)" "sy_stat_tail (id_sys e') = sy_stat_tail (id_sys e)"
      "sy_config (id_sys e') = sy_config (id_sys e)"
  shows "station_table e' gs"
proof -
  note d = station_tableD [OF t] and f = p [unfolded same_place_def]
  have "chain_ok (id_stats e') (sy_stat_tail (id_sys e')) gs"
    unfolding y by (rule chain_ok_fields [OF l _ d(1)]) (simp add: f)
  moreover have "inj_on (\<lambda>t. st_name (id_stats e' ! t)) (set (0 # concat gs))"
    using d(6) f [OF d(7)] unfolding inj_on_def by (metis (no_types, lifting))
  moreover have "nstations_max e' = nstations_max e" by (simp add: nstations_max_def y)
  ultimately show ?thesis using t f l unfolding station_table_def y by (simp del: list.set)
qed

lemma station_table_events_only:
  assumes "events_only e e'" "station_table e gs"
  shows "station_table e' gs"
proof (rule station_table_frame [OF assms(2)])
  fix t assume "t < length (id_stats e)"
  then show "same_place (id_stats e ! t) (id_stats e' ! t)"
    using list_change_fields [OF events_only_stat(2) [OF assms(1)]] by (simp add: same_place_def in_chain_def)
qed (simp_all add: events_only_stat [OF assms(1)] events_only_sys [OF assms(1)])

end
