(* ===== verification/ET_Attachments.thy ===== *)
theory ET_Attachments
  imports ET_StationTable
begin

text \<open>
  Users of stations: which calls only move events, and the bookkeeping of attachments
  (src/libsrc/et\_station.c, \<open>et_station_attach\<close> and \<open>et_station_detach\<close>, and the routines of
  et\_readwrite.c they call).
\<close>

section \<open>Reading, writing and dumping only move events\<close>

lemma list_change_upd [simp]:
  "list_change ps (ps'\<lparr>st_list_in := l\<rparr>) = list_change ps ps'"
  "list_change ps (ps'\<lparr>st_list_out := l\<rparr>) = list_change ps ps'"
  "list_change ps (ps'\<lparr>st_fix := f\<rparr>) = list_change ps ps'"
  by (cases ps; cases ps'; simp add: list_change_def)+

lemma list_change_fix [simp]:
  "list_change ps (fix_out_begin ps' pl n) = list_change ps ps'" "list_change ps (fix_out_end ps') = list_change ps ps'"
  "list_change ps (fix_in_dump_begin ps' pl n) = list_change ps ps'" "list_change ps (fix_in_dump_end ps') = list_change ps ps'"
  "list_change ps (fix_in_read ps' pl n) = list_change ps ps'" "list_change ps (fix_in_read_done ps') = list_change ps ps'"
  "list_change ps (fix_in_read_after ps' c n) = list_change ps ps'" "list_change ps (fix_out_done ps' c n) = list_change ps ps'"
  by (simp_all add: fix_in_read_after_def fix_out_done_def fix_out_begin_def fix_out_end_def fix_in_dump_begin_def fix_in_dump_end_def fix_in_read_def
      fix_in_read_done_def)

lemma station_nwrite_core_change: "station_nwrite_core m pe n ev ps = Some (r, ev', ps') \<Longrightarrow> list_change ps ps'"
  by (auto simp: station_nwrite_core_def Let_def split: option.splits if_splits prod.splits list.splits)

lemma station_ndump_core_change: "station_ndump_core m pe n ev ps = Some (r, ev', ps') \<Longrightarrow> list_change ps ps'"
  by (auto simp: station_ndump_core_def Let_def split: option.splits if_splits prod.splits)

lemma station_nread_core_change: "station_nread_core n a ev ps = Some (pe, ev', ps') \<Longrightarrow> list_change ps ps'"
  by (auto simp: station_nread_core_def Let_def split: option.splits if_splits)

lemma events_only_replace:
  assumes "list_change (id_stats eid ! s) ps"
  shows "events_only eid (eid\<lparr>id_stats := (id_stats eid)[s := ps], id_events := ev\<rparr>)"
proof -
  have "events_only eid (upd_stat eid s (\<lambda>x. ps))" by (rule events_only_upd_stat) (rule assms)
  then show ?thesis by (simp add: upd_stat_def events_only_def)
qed

lemma on_station_events_only:
  assumes "on_station eid s core = Some (r, eid')" "\<And>ev r' ev' ps'. core ev (id_stats eid ! s) = Some (r', ev', ps') \<Longrightarrow>
    list_change (id_stats eid ! s) ps'"
  shows "events_only eid eid'"
  using assms by (auto simp: on_station_def split: if_splits option.splits intro: events_only_replace)

lemma et_station_nwrite_events_only: "et_station_nwrite eid s pe n = Some (r, eid') \<Longrightarrow> events_only eid eid'"
  by (auto simp: et_station_nwrite_def split: if_splits intro: on_station_events_only station_nwrite_core_change)

lemma et_station_ndump_events_only: "et_station_ndump eid pe n = Some (r, eid') \<Longrightarrow> events_only eid eid'"
  by (auto simp: et_station_ndump_def split: if_splits intro: on_station_events_only station_ndump_core_change)

lemma calm_simps [simp]: "calm (a\<lparr>at_quit := q\<rparr>) = calm a" "calm (a\<lparr>at_blocked := b\<rparr>) = calm a"
  by (simp_all add: calm_def)

lemma events_only_upd_att:
  assumes "\<And>a. calm (f a) = calm a"
  shows "events_only eid (upd_att eid a f)"
proof -
  have "map calm ((sy_attach (id_sys eid))[a := f (sy_attach (id_sys eid) ! a)]) = map calm (sy_attach (id_sys eid))"
    unfolding map_update assms by (metis list_update_id map_update)
  then show ?thesis by (simp add: events_only_def upd_att_def list_all2_refl)
qed

lemma events_only_set_quit [simp]: "events_only eid (set_quit eid a v)"
  unfolding set_quit_def by (rule events_only_upd_att) simp

lemma events_only_set_mutex: "events_only eid (set_in_mutex eid s b)"
  unfolding set_in_mutex_def by (rule events_only_upd_stat) simp

lemma histogram_bump_events_only: "histogram_bump eid s = Some eid' \<Longrightarrow> events_only eid eid'"
  by (auto simp: histogram_bump_def Let_def split: if_splits)

lemma read_acquire_async_events_only:
  assumes "read_acquire eid s ET_ASYNC a ws sl = Some (r, eid', ws')"
  shows "events_only eid eid'"
proof -
  have h: "events_only eid eid1" if "histogram_bump (set_in_mutex eid s True) s = Some eid1" for eid1
    by (rule events_only_trans [OF events_only_set_mutex histogram_bump_events_only [OF that]])
  from assms show ?thesis
    by (auto simp: read_acquire_def split: if_splits option.splits dest!: h intro: events_only_trans events_only_set_mutex)
qed

lemma read_body_events_only:
  assumes "read_body eid s (station_nread_core n a) = Some (r, pe, eid')"
  shows "events_only eid eid'"
  using assms by (auto simp: read_body_def split: option.splits intro: events_only_replace station_nread_core_change)

lemma et_station_nread_async_events_only:
  assumes "et_station_nread eid s ET_ASYNC a ws n = Some (r, pe, eid')"
  shows "events_only eid eid'"
proof (cases "n < 1")
  case False
  with assms obtain r1 eid1 ws1 where 1: "read_acquire eid s ET_ASYNC a ws True = Some (r1, eid1, ws1)"
    "eid' = eid1 \<or> read_body eid1 s (station_nread_core n (int a)) = Some (r, pe, eid')"
    by (auto simp: et_station_nread_def split: if_splits option.splits)
  note e = read_acquire_async_events_only [OF 1(1)]
  from 1(2) show ?thesis
  proof
    assume "read_body eid1 s (station_nread_core n (int a)) = Some (r, pe, eid')"
    then show ?thesis by (rule events_only_trans [OF e read_body_events_only])
  qed (use e in simp)
qed (use assms in \<open>simp add: et_station_nread_def\<close>)

section \<open>Flushing and restoring only move events\<close>

lemma restore_to_prev_events_only: "restore_to_prev eid s pe = Some (r, eid') \<Longrightarrow> events_only eid eid'"
  by (auto simp: restore_to_prev_def split: option.splits intro!: events_only_upd_stat)

lemma et_flush_events_only:
  assumes "et_flush_events eid a s = Some eid'"
  shows "events_only eid eid'"
proof (cases "s = 0")
  case False
  with assms obtain r pe eid1 where 1: "et_station_nread eid s ET_ASYNC a [] (nevents_max eid) = Some (r, pe, eid1)"
    "eid' = eid1 \<or> (\<exists>r. restore_to_prev eid1 s pe = Some (r, eid')) \<or>
      (\<exists>r. et_station_nwrite eid1 s pe (int (length pe)) = Some (r, eid'))"
    by (auto simp: et_flush_events_def split: option.splits if_splits)
  from 1(2) show ?thesis
    using et_station_nread_async_events_only [OF 1(1)] restore_to_prev_events_only et_station_nwrite_events_only events_only_trans
    by metis
qed (use assms in \<open>simp add: et_flush_events_def\<close>)

lemma drop_temps_events_only: "events_only eid (drop_temps eid es)"
  by (simp add: drop_temps_def)

lemma restore_used_events_only:
  assumes "restore_used eid s es = Some (r, eid')"
  shows "events_only eid eid'"
proof -
  let ?m = "eid\<lparr>id_events := mark_corrupt (id_events eid) es\<rparr>" and ?n = "int (length es)"
  have m: "events_only eid ?m" by simp
  have gc: "events_only eid eid'" if "et_station_ndump (drop_temps eid es) es ?n = Some (r, eid')"
    by (rule events_only_trans [OF drop_temps_events_only et_station_ndump_events_only [OF that]])
  have wr: "events_only eid eid'" if "et_station_nwrite ?m s es ?n = Some (r, eid')"
    by (rule events_only_trans [OF m et_station_nwrite_events_only [OF that]])
  have pr: "events_only eid eid'" if "restore_to_prev ?m s es = Some (r, eid')"
    by (rule events_only_trans [OF m restore_to_prev_events_only [OF that]])
  have l: "events_only eid ((upd_stat ?m s (\<lambda>ps. ps\<lparr>st_list_in := pl\<rparr>))\<lparr>id_events := ev\<rparr>)" for pl ev
    using events_only_trans [OF m events_only_upd_stat [of s ?m "\<lambda>ps. ps\<lparr>st_list_in := pl\<rparr>"]] by simp
  have inp: "events_only eid eid'" if "(case et_restore (nevents_max eid) (mark_corrupt (id_events eid) es) (st_list_in (id_stats eid ! s)) es ?n of
           None \<Rightarrow> None
         | Some (status, written, ev, pl) \<Rightarrow>
             let eid1 = (upd_stat ?m s (\<lambda>ps. ps\<lparr>st_list_in := pl\<rparr>))\<lparr>id_events := ev\<rparr>;
                 num_written = (case written of None \<Rightarrow> 0 | Some k \<Rightarrow> k)
             in if num_written < ?n then et_station_nwrite eid1 s (drop (nat num_written) es) (?n - num_written)
                else Some (status, eid1)) = Some (r, eid')"
    using that events_only_trans [OF l et_station_nwrite_events_only] l
    by (auto simp: Let_def split: option.splits if_splits simp del: events_only_events)
  from assms show ?thesis
    unfolding restore_used_def Let_def by (auto split: if_splits dest: gc wr pr inp [unfolded Let_def])
qed

lemma et_restore_events_only:
  assumes "et_restore_events eid a s = Some (r, eid')"
  shows "events_only eid eid'"
proof -
  have dump: "events_only eid eid2" if "et_station_ndump (drop_temps (eid\<lparr>id_events := ev\<rparr>) es) es n = Some (r2, eid2)" for ev es n r2 eid2
    using events_only_trans [OF drop_temps_events_only et_station_ndump_events_only [OF that]] by (simp add: events_only_def)
  have m: "events_only (eid\<lparr>id_events := ev\<rparr>) e = events_only eid e" for ev e by (simp add: events_only_def)
  from assms show ?thesis
    unfolding et_restore_events_def Let_def
    by (auto split: if_splits option.splits dest!: dump restore_used_events_only simp: m intro: events_only_trans)
qed

section \<open>The attachments\<close>

definition live :: "et_id \<Rightarrow> nat set" where
  "live eid = {a. a < length (sy_attach (id_sys eid)) \<and> at_num (sy_attach (id_sys eid) ! a) \<noteq> -1}"

definition atts_of :: "et_id \<Rightarrow> nat \<Rightarrow> nat set" where
  "atts_of eid s = {a \<in> live eid. at_stat (sy_attach (id_sys eid) ! a) = int s}"

text \<open>
  Only numbers below the system's limit are in use, every attachment in use belongs to a station of the chain, the counters of the system and of each
  station are the numbers of attachments in use, each station's table of attachments names exactly
  its own, and a station is active exactly when it is GrandCentral or has an attachment.
\<close>

definition att_table :: "et_id \<Rightarrow> nat set \<Rightarrow> bool" where
  "att_table eid M \<longleftrightarrow>
     (0 \<le> sc_nattachments (sy_config (id_sys eid)) \<and>
      sc_nattachments (sy_config (id_sys eid)) \<le> int (length (sy_attach (id_sys eid))) \<and>
      (\<forall>a \<in> live eid. int a < sc_nattachments (sy_config (id_sys eid)))) \<and>
     length (sy_attach (id_sys eid)) \<le> ET_ATTACHMENTS_MAX \<and>
     (\<forall>a \<in> live eid. at_num (sy_attach (id_sys eid) ! a) = int a \<and> (\<exists>s \<in> M. a \<in> atts_of eid s)) \<and>
     sy_nattachments (id_sys eid) = int (card (live eid)) \<and>
     (\<forall>s < length (id_stats eid). sd_nattachments (st_data (id_stats eid ! s)) = int (card (atts_of eid s)) \<and>
        length (sd_att (st_data (id_stats eid ! s))) = ET_ATTACHMENTS_MAX \<and>
        (\<forall>a < ET_ATTACHMENTS_MAX. sd_att (st_data (id_stats eid ! s)) ! a = (if a \<in> atts_of eid s then int a else -1))) \<and>
     (\<forall>s \<in> M. s < length (id_stats eid) \<and>
        (sd_status (st_data (id_stats eid ! s)) = ET_STATION_ACTIVE \<longleftrightarrow> s = 0 \<or> atts_of eid s \<noteq> {}))"

lemma finite_live [simp]: "finite (live eid)" "finite (atts_of eid s)"
  by (simp_all add: live_def atts_of_def)

lemma att_tableD:
  assumes "att_table eid M"
  shows "0 \<le> sc_nattachments (sy_config (id_sys eid)) \<and>
      sc_nattachments (sy_config (id_sys eid)) \<le> int (length (sy_attach (id_sys eid))) \<and>
      (\<forall>a \<in> live eid. int a < sc_nattachments (sy_config (id_sys eid)))"
    "length (sy_attach (id_sys eid)) \<le> ET_ATTACHMENTS_MAX"
    "\<And>a. a \<in> live eid \<Longrightarrow> at_num (sy_attach (id_sys eid) ! a) = int a"
    "\<And>a. a \<in> live eid \<Longrightarrow> \<exists>s \<in> M. a \<in> atts_of eid s"
    "sy_nattachments (id_sys eid) = int (card (live eid))"
    "\<And>s. s < length (id_stats eid) \<Longrightarrow> sd_nattachments (st_data (id_stats eid ! s)) = int (card (atts_of eid s))"
    "\<And>s. s < length (id_stats eid) \<Longrightarrow> length (sd_att (st_data (id_stats eid ! s))) = ET_ATTACHMENTS_MAX"
    "\<And>s a. s < length (id_stats eid) \<Longrightarrow> a < ET_ATTACHMENTS_MAX \<Longrightarrow>
       sd_att (st_data (id_stats eid ! s)) ! a = (if a \<in> atts_of eid s then int a else -1)"
    "\<And>s. s \<in> M \<Longrightarrow> s < length (id_stats eid)"
    "\<And>s. s \<in> M \<Longrightarrow> sd_status (st_data (id_stats eid ! s)) = ET_STATION_ACTIVE \<longleftrightarrow> s = 0 \<or> atts_of eid s \<noteq> {}"
proof -
  note t = assms [unfolded att_table_def]
  show "0 \<le> sc_nattachments (sy_config (id_sys eid)) \<and>
      sc_nattachments (sy_config (id_sys eid)) \<le> int (length (sy_attach (id_sys eid))) \<and>
      (\<forall>a \<in> live eid. int a < sc_nattachments (sy_config (id_sys eid)))" using t by (rule conjunct1)
  note t2 = t [THEN conjunct2]
  show "length (sy_attach (id_sys eid)) \<le> ET_ATTACHMENTS_MAX" using t2 by (rule conjunct1)
  note t3 = t2 [THEN conjunct2]
  show "at_num (sy_attach (id_sys eid) ! a) = int a" "\<exists>s \<in> M. a \<in> atts_of eid s" if "a \<in> live eid" for a
    using t3 [THEN conjunct1] that by (simp, blast)
  note t4 = t3 [THEN conjunct2]
  show "sy_nattachments (id_sys eid) = int (card (live eid))" using t4 by (rule conjunct1)
  note t5 = t4 [THEN conjunct2]
  show "sd_nattachments (st_data (id_stats eid ! s)) = int (card (atts_of eid s))"
    "length (sd_att (st_data (id_stats eid ! s))) = ET_ATTACHMENTS_MAX" if "s < length (id_stats eid)" for s
    using t5 [THEN conjunct1] that by (simp, simp)
  show "sd_att (st_data (id_stats eid ! s)) ! a = (if a \<in> atts_of eid s then int a else -1)"
    if "s < length (id_stats eid)" "a < ET_ATTACHMENTS_MAX" for s a
    using t5 [THEN conjunct1] that by blast
  show "s < length (id_stats eid)" "sd_status (st_data (id_stats eid ! s)) = ET_STATION_ACTIVE \<longleftrightarrow> s = 0 \<or> atts_of eid s \<noteq> {}"
    if "s \<in> M" for s using t5 [THEN conjunct2] that by (blast, blast)
qed

lemma live_atts_of: "a \<in> atts_of eid s \<Longrightarrow> a \<in> live eid"
  by (simp add: atts_of_def)

lemma atts_of_disjoint: "a \<in> atts_of eid s \<Longrightarrow> a \<in> atts_of eid t \<Longrightarrow> s = t"
  by (simp add: atts_of_def)

lemma live_cong:
  assumes "map at_num (sy_attach (id_sys e')) = map at_num (sy_attach (id_sys e))"
    "map at_stat (sy_attach (id_sys e')) = map at_stat (sy_attach (id_sys e))"
  shows "live e' = live e" "atts_of e' s = atts_of e s"
proof -
  have l: "length (sy_attach (id_sys e')) = length (sy_attach (id_sys e))" using assms(1) by (metis length_map)
  have n: "at_num (sy_attach (id_sys e') ! a) = at_num (sy_attach (id_sys e) ! a)"
    "at_stat (sy_attach (id_sys e') ! a) = at_stat (sy_attach (id_sys e) ! a)" if "a < length (sy_attach (id_sys e))" for a
    using that l arg_cong [OF assms(1), of "\<lambda>xs. xs ! a"] arg_cong [OF assms(2), of "\<lambda>xs. xs ! a"] by simp_all
  show "live e' = live e" using n l by (auto simp: live_def)
  moreover have "a < length (sy_attach (id_sys e))" if "a \<in> live e" for a using that by (simp add: live_def)
  ultimately show "atts_of e' s = atts_of e s" using n(2) unfolding atts_of_def by (metis (no_types, lifting))
qed

text \<open>A table of attachments is kept by any change of other data.\<close>

lemma att_table_frame:
  assumes t: "att_table e M" and l: "length (id_stats e') = length (id_stats e)"
    and a: "map at_num (sy_attach (id_sys e')) = map at_num (sy_attach (id_sys e))"
      "map at_stat (sy_attach (id_sys e')) = map at_stat (sy_attach (id_sys e))"
      "sy_nattachments (id_sys e') = sy_nattachments (id_sys e)" "sy_config (id_sys e') = sy_config (id_sys e)"
    and d: "\<And>s. s < length (id_stats e) \<Longrightarrow> st_data (id_stats e' ! s) = st_data (id_stats e ! s)"
  shows "att_table e' M"
proof -
  have n: "length (sy_attach (id_sys e')) = length (sy_attach (id_sys e))" using a(1) by (metis length_map)
  have m: "map at_num (sy_attach (id_sys e')) ! i = map at_num (sy_attach (id_sys e)) ! i" for i using a(1) by simp
  have u: "at_num (sy_attach (id_sys e') ! i) = at_num (sy_attach (id_sys e) ! i)" if "i \<in> live e" for i
    using m [of i] that n by (simp add: live_def)
  show ?thesis
    using t unfolding att_table_def live_cong [OF a(1,2)] n l a(3,4) by (simp add: u d)
qed

lemma att_table_events_only:
  assumes "events_only e e'" "att_table e M"
  shows "att_table e' M"
proof (rule att_table_frame [OF assms(2)])
  note c = events_only_sys(6) [OF assms(1)]
  have "at_num (calm x) = at_num x" "at_stat (calm x) = at_stat x" for x by (simp_all add: calm_def)
  then have "map at_num xs = map at_num (map calm xs)" "map at_stat xs = map at_stat (map calm xs)" for xs by simp_all
  then show "map at_num (sy_attach (id_sys e')) = map at_num (sy_attach (id_sys e))"
    "map at_stat (sy_attach (id_sys e')) = map at_stat (sy_attach (id_sys e))" using c by metis+
qed (simp_all add: events_only_stat [OF assms(1)] events_only_sys [OF assms(1)]
    list_change_fields [OF events_only_stat(2) [OF assms(1)]])


end
