(* ===== verification/ET_Sessions.thy ===== *)
theory ET_Sessions
  imports ET_Attachments
begin

text \<open>
  The calls of users on stations as steps of one system: creating and removing stations, attaching,
  detaching, changing a station's configuration and moving events all keep the table of stations
  (\<open>station_table\<close>) and the table of attachments (\<open>att_table\<close>).
\<close>

section \<open>Fields\<close>

lemma add_nattachments_simps [simp]:
  "id_stats (add_nattachments n eid) = id_stats eid" "sy_attach (id_sys (add_nattachments n eid)) = sy_attach (id_sys eid)"
  "sy_nattachments (id_sys (add_nattachments n eid)) = sy_nattachments (id_sys eid) + n"
  "sy_config (id_sys (add_nattachments n eid)) = sy_config (id_sys eid)"
  "sy_nstations (id_sys (add_nattachments n eid)) = sy_nstations (id_sys eid)"
  "sy_stat_tail (id_sys (add_nattachments n eid)) = sy_stat_tail (id_sys eid)"
  "id_proc (add_nattachments n eid) = id_proc eid" "id_locality (add_nattachments n eid) = id_locality eid"
  by (simp_all add: add_nattachments_def)

lemma upd_att_simps [simp]:
  "id_stats (upd_att eid a f) = id_stats eid"
  "sy_attach (id_sys (upd_att eid a f)) = (sy_attach (id_sys eid))[a := f (sy_attach (id_sys eid) ! a)]"
  "sy_nattachments (id_sys (upd_att eid a f)) = sy_nattachments (id_sys eid)"
  "sy_config (id_sys (upd_att eid a f)) = sy_config (id_sys eid)"
  "sy_nstations (id_sys (upd_att eid a f)) = sy_nstations (id_sys eid)"
  "sy_stat_tail (id_sys (upd_att eid a f)) = sy_stat_tail (id_sys eid)"
  "id_proc (upd_att eid a f) = id_proc eid" "id_locality (upd_att eid a f) = id_locality eid"
  by (simp_all add: upd_att_def)

lemma upd_proc_simps [simp]:
  "id_stats (upd_proc eid p f) = id_stats eid" "sy_attach (id_sys (upd_proc eid p f)) = sy_attach (id_sys eid)"
  "sy_nattachments (id_sys (upd_proc eid p f)) = sy_nattachments (id_sys eid)"
  "sy_config (id_sys (upd_proc eid p f)) = sy_config (id_sys eid)"
  "sy_nstations (id_sys (upd_proc eid p f)) = sy_nstations (id_sys eid)"
  "sy_stat_tail (id_sys (upd_proc eid p f)) = sy_stat_tail (id_sys eid)"
  "id_locality (upd_proc eid p f) = id_locality eid" "id_proc (upd_proc eid p f) = id_proc eid"
  by (simp_all add: upd_proc_def)

lemma upd_stat_locality [simp]: "id_locality (upd_stat eid s f) = id_locality eid"
  by (simp add: upd_stat_def)

lemma note_att_simps [simp]:
  "st_num (note_att d a v ps) = st_num ps" "st_config (note_att d a v ps) = st_config ps" "st_name (note_att d a v ps) = st_name ps"
  "st_next (note_att d a v ps) = st_next ps" "st_prev (note_att d a v ps) = st_prev ps"
  "st_nextparallel (note_att d a v ps) = st_nextparallel ps" "st_prevparallel (note_att d a v ps) = st_prevparallel ps"
  "sd_status (st_data (note_att d a v ps)) = sd_status (st_data ps)"
  "sd_nattachments (st_data (note_att d a v ps)) = sd_nattachments (st_data ps) + d"
  "sd_att (st_data (note_att d a v ps)) = (sd_att (st_data ps))[a := v]"
  by (simp_all add: note_att_def)

lemma set_status_data [simp]:
  "sd_nattachments (st_data (set_status v ps)) = sd_nattachments (st_data ps)" "sd_att (st_data (set_status v ps)) = sd_att (st_data ps)"
  by (simp_all add: set_status_def)

definition tables :: "et_id \<Rightarrow> nat list list \<Rightarrow> bool" where
  "tables eid gs \<longleftrightarrow> id_locality eid = ET_LOCAL \<and> station_table eid gs \<and> att_table eid (set (0 # concat gs))"

lemma tables_events_only: "events_only e e' \<Longrightarrow> tables e gs \<Longrightarrow> tables e' gs"
  using station_table_events_only [of e e' gs] att_table_events_only [of e e'] by (simp add: tables_def events_only_def)

section \<open>Attaching\<close>

lemma find_att_Some:
  "find_att as i = Some k \<Longrightarrow> i \<le> k \<and> k - i < length as \<and> at_num (as ! (k - i)) = -1"
proof (induction as i rule: find_att.induct)
  case (2 a as i)
  then show ?case by (cases "k - i") (auto split: if_splits, (metis Suc_diff_Suc diff_Suc_1 less_eq_Suc_le nth_Cons_Suc)+)
qed simp

lemma find_att_None: "find_att as i = None \<longleftrightarrow> (\<forall>a \<in> set as. at_num a \<noteq> -1)"
  by (induction as i rule: find_att.induct) auto

lemma live_insert:
  assumes e: "sy_attach (id_sys eid') = (sy_attach (id_sys eid))[a := x]" and a: "a < length (sy_attach (id_sys eid))"
    and x: "at_num x = int a" "at_stat x = int s" and n: "a \<notin> live eid"
  shows "live eid' = insert a (live eid)" "atts_of eid' t = (if t = s then insert a (atts_of eid s) else atts_of eid t)"
proof -
  have i: "i \<in> live eid' \<longleftrightarrow> i = a \<or> i \<in> live eid" for i using a x(1) by (cases "i = a") (simp_all add: live_def e)
  then show "live eid' = insert a (live eid)" by auto
  have "j \<in> atts_of eid' t \<longleftrightarrow> j = a \<and> t = s \<or> j \<in> atts_of eid t" for j
  proof (cases "j = a")
    case True
    then show ?thesis using i [of a] a x(2) n by (auto simp: atts_of_def e)
  next
    case False
    then show ?thesis using i [of j] by (simp add: atts_of_def e)
  qed
  then show "atts_of eid' t = (if t = s then insert a (atts_of eid s) else atts_of eid t)"
    by (intro set_eqI) (cases "t = s", simp_all)
qed

lemma attach_att_table:
  assumes t: "att_table eid M" and s: "s \<in> M" and a: "int a < sc_nattachments (sy_config (id_sys eid))" "a \<notin> live eid"
    and e: "sy_attach (id_sys eid') = (sy_attach (id_sys eid))[a := x]" "at_num x = int a" "at_stat x = int s"
      "sy_nattachments (id_sys eid') = sy_nattachments (id_sys eid) + 1" "sy_config (id_sys eid') = sy_config (id_sys eid)"
      "id_stats eid' = (id_stats eid)[s := set_status ET_STATION_ACTIVE (note_att 1 a (int a) (id_stats eid ! s))]"
  shows "att_table eid' M"
proof -
  note d = att_tableD [OF t]
  have al: "a < length (sy_attach (id_sys eid))" using d(1) a(1) by linarith
  note lv = live_insert [OF e(1) al e(2,3) a(2)]
  have sl: "s < length (id_stats eid)" using s by (rule d(9))
  have l: "length (sy_attach (id_sys eid')) = length (sy_attach (id_sys eid))" "length (id_stats eid') = length (id_stats eid)"
    by (simp_all add: e)
  have na: "a \<notin> atts_of eid u" for u using a(2) live_atts_of by blast
  have "at_num (sy_attach (id_sys eid') ! b) = int b \<and> (\<exists>u \<in> M. b \<in> atts_of eid' u)" if "b \<in> live eid'" for b
  proof (cases "b = a")
    case True
    then show ?thesis using s al e(2) by (auto simp: e(1) lv)
  next
    case False
    then have "b \<in> live eid" using that by (simp add: lv)
    with d(4) obtain u where "u \<in> M" "b \<in> atts_of eid u" by blast
    then have "u \<in> M \<and> b \<in> atts_of eid' u" by (auto simp: lv)
    then show ?thesis using False d(3) [OF \<open>b \<in> live eid\<close>] by (auto simp: e(1))
  qed
  moreover have "sd_nattachments (st_data (id_stats eid' ! u)) = int (card (atts_of eid' u)) \<and>
      length (sd_att (st_data (id_stats eid' ! u))) = ET_ATTACHMENTS_MAX \<and>
      (\<forall>b < ET_ATTACHMENTS_MAX. sd_att (st_data (id_stats eid' ! u)) ! b = (if b \<in> atts_of eid' u then int b else -1))"
    if "u < length (id_stats eid')" for u
  proof (cases "u = s")
    case True
    then show ?thesis using d(6-8) [OF sl] na al d(2) sl
      by (auto simp: e(6) lv nth_list_update)
  next
    case False
    then show ?thesis using d(6-8) [of u] that l(2) by (simp add: e(6) lv)
  qed
  moreover have "u < length (id_stats eid') \<and>
      (sd_status (st_data (id_stats eid' ! u)) = ET_STATION_ACTIVE \<longleftrightarrow> u = 0 \<or> atts_of eid' u \<noteq> {})" if "u \<in> M" for u
    using d(9,10) [OF that] sl by (cases "u = s") (auto simp: e(6) lv)
  moreover have "sy_nattachments (id_sys eid') = int (card (live eid'))" using d(5) a(2) by (simp add: e(4) lv)
  moreover have "\<forall>b \<in> live eid'. int b < sc_nattachments (sy_config (id_sys eid))" using d(1) a(1) by (auto simp: lv)
  ultimately show ?thesis using d(1,2) unfolding att_table_def l e(5) by blast
qed

text \<open>A local call of \<open>et_station_attach\<close>: refused without effect, or one more attachment.\<close>

lemma tablesD:
  assumes "tables eid gs"
  shows "id_locality eid = ET_LOCAL" "station_table eid gs" "att_table eid (set (0 # concat gs))"
  using assms by (simp_all add: tables_def)

lemma in_table: "station_table eid gs \<Longrightarrow> s < length (id_stats eid) \<Longrightarrow> in_chain (id_stats eid ! s) \<Longrightarrow> s \<in> set (0 # concat gs)"
  using station_tableD(5) [of eid gs s] by (fastforce simp: in_chain_def)

lemma attach_cases:
  assumes t: "tables eid gs" and r: "et_station_attach etr pid host eid sid = Some (r, ao, eid')"
  shows "(r \<noteq> ET_OK \<and> ao = None \<and> eid' = eid) \<or>
    (\<exists>s a. sid = int s \<and> s \<in> set (0 # concat gs) \<and> r = ET_OK \<and> ao = Some a \<and> a < length (sy_attach (id_sys eid)) \<and> a \<notin> live eid \<and>
       live eid' = insert a (live eid) \<and> atts_of eid' s = insert a (atts_of eid s) \<and>
       (cf_user_mode (st_config (id_stats eid ! s)) > 0 \<longrightarrow> int (card (atts_of eid' s)) \<le> cf_user_mode (st_config (id_stats eid ! s))) \<and>
       tables eid' gs)"
proof (cases "r = ET_OK")
  case False
  with r tablesD(1) [OF t] show ?thesis
    by (auto simp: et_station_attach_def local_guard_def Let_def split: if_splits option.splits)
next
  case ok: True
  note d = tablesD [OF t]
  from r ok d(1) obtain s a where s: "stat_ix (id_stats eid) sid = Some s" "in_chain (id_stats eid ! s)"
    and u: "\<not> (cf_user_mode (st_config (id_stats eid ! s)) > 0 \<and>
        cf_user_mode (st_config (id_stats eid ! s)) \<le> sd_nattachments (st_data (id_stats eid ! s)))"
    and a: "find_att (take (nat (sc_nattachments (sy_config (id_sys eid)))) (sy_attach (id_sys eid))) 0 = Some a"
    and e: "ao = Some a" "eid' = upd_stat (upd_proc (upd_att (add_nattachments 1 eid) a (\<lambda>x. (et_init_attachment x)\<lparr>at_num := int a,
                                 at_proc := id_proc eid, at_stat := sid, at_status := ET_ATT_ACTIVE,
                                 at_pid := pid, at_host := host\<rparr>)) (id_proc eid) (note_proc 1 a (int a))) s
                                (\<lambda>ps. set_status ET_STATION_ACTIVE (note_att 1 a (int a) ps))"
    by (auto simp: et_station_attach_def local_guard_def Let_def in_chain_def split: if_splits option.splits)
  have sl: "sid = int s" "s < length (id_stats eid)" using s(1) by (auto simp: stat_ix_def split: if_splits)
  have sM: "s \<in> set (0 # concat gs)" by (rule in_table [OF d(2) sl(2) s(2)])
  from find_att_Some [OF a] have al: "a < length (sy_attach (id_sys eid))" "a \<notin> live eid"
    "int a < sc_nattachments (sy_config (id_sys eid))" by (auto simp: live_def)
  let ?x = "(et_init_attachment (sy_attach (id_sys eid) ! a))\<lparr>at_num := int a, at_proc := id_proc eid, at_stat := int s,
    at_status := ET_ATT_ACTIVE, at_pid := pid, at_host := host\<rparr>"
  have "sy_attach (id_sys eid') = (sy_attach (id_sys eid))[a := ?x]" by (simp add: e(2) sl(1))
  note lv = live_insert [OF this al(1) _ _ al(2), of s]
  have l: "live eid' = insert a (live eid)" "atts_of eid' s = insert a (atts_of eid s)" by (simp_all add: lv)
  have "att_table eid' (set (0 # concat gs))"
    by (rule attach_att_table [OF d(3) sM al(3,2), where x = ?x]) (simp_all add: e(2) sl(1))
  moreover have "station_table eid' gs"
  proof (rule station_table_frame [OF d(2)])
    fix u assume "u < length (id_stats eid)"
    then show "same_place (id_stats eid ! u) (id_stats eid' ! u)"
      using s(2) by (cases "u = s") (auto simp: e(2) same_place_def in_chain_def)
  qed (simp_all add: e(2))
  moreover have "id_locality eid' = ET_LOCAL" using d(1) by (simp add: e(2))
  moreover have "a \<notin> atts_of eid s" using al(2) live_atts_of by blast
  then have "card (atts_of eid' s) = Suc (card (atts_of eid s))" by (simp add: l)
  with u have "cf_user_mode (st_config (id_stats eid ! s)) > 0 \<longrightarrow> int (card (atts_of eid' s)) \<le> cf_user_mode (st_config (id_stats eid ! s))"
    using att_tableD(6) [OF d(3) sl(2)] by linarith
  ultimately show ?thesis using ok e(1) sl sM al l unfolding tables_def by blast
qed

section \<open>Detaching\<close>

lemma live_delete:
  assumes e: "sy_attach (id_sys eid') = (sy_attach (id_sys eid))[a := x]" and x: "at_num x = -1"
  shows "live eid' = live eid - {a}" "atts_of eid' t = atts_of eid t - {a}"
proof -
  have i: "i \<in> live eid' \<longleftrightarrow> i \<noteq> a \<and> i \<in> live eid" for i using x
    by (cases "i = a"; cases "a < length (sy_attach (id_sys eid))") (simp_all add: live_def e)
  then show "live eid' = live eid - {a}" by auto
  have "j \<in> atts_of eid' t \<longleftrightarrow> j \<noteq> a \<and> j \<in> atts_of eid t" for j
    using i [of j] by (cases "j = a") (simp_all add: atts_of_def e)
  then show "atts_of eid' t = atts_of eid t - {a}" by (intro set_eqI) auto
qed

lemma detach_att_table:
  assumes t: "att_table eid M" and a: "a \<in> atts_of eid s" and s: "s \<in> M"
    and e: "sy_attach (id_sys eid') = (sy_attach (id_sys eid))[a := x]" "at_num x = -1"
      "sy_nattachments (id_sys eid') = sy_nattachments (id_sys eid) - 1" "sy_config (id_sys eid') = sy_config (id_sys eid)"
      "length (id_stats eid') = length (id_stats eid)"
      "\<And>u. u < length (id_stats eid) \<Longrightarrow> u \<noteq> s \<Longrightarrow> st_data (id_stats eid' ! u) = st_data (id_stats eid ! u)"
      "sd_nattachments (st_data (id_stats eid' ! s)) = sd_nattachments (st_data (id_stats eid ! s)) - 1"
      "sd_att (st_data (id_stats eid' ! s)) = (sd_att (st_data (id_stats eid ! s)))[a := -1]"
      "sd_status (st_data (id_stats eid' ! s)) = (if sd_nattachments (st_data (id_stats eid ! s)) = 1 \<and> s \<noteq> 0
         then ET_STATION_IDLE else sd_status (st_data (id_stats eid ! s)))"
  shows "att_table eid' M"
proof -
  note d = att_tableD [OF t] and lv = live_delete [OF e(1,2)]
  have sl: "s < length (id_stats eid)" using s by (rule d(9))
  have al: "a \<in> live eid" "a < length (sy_attach (id_sys eid))" using live_atts_of [OF a] by (simp_all add: live_def)
  have l: "length (sy_attach (id_sys eid')) = length (sy_attach (id_sys eid))" by (simp add: e(1))
  have other: "atts_of eid' u = atts_of eid u" if "u \<noteq> s" for u
    using that a atts_of_disjoint [of a eid u s] unfolding lv by blast
  have c: "card (atts_of eid s - {a}) = card (atts_of eid s) - 1" "card (atts_of eid s) > 0"
    using a by (auto simp: card_gt_0_iff)
  have "at_num (sy_attach (id_sys eid') ! b) = int b \<and> (\<exists>u \<in> M. b \<in> atts_of eid' u)" if "b \<in> live eid'" for b
    using that d(3) [of b] d(4) [of b] unfolding lv by (auto simp: e(1))
  moreover have "sd_nattachments (st_data (id_stats eid' ! u)) = int (card (atts_of eid' u)) \<and>
      length (sd_att (st_data (id_stats eid' ! u))) = ET_ATTACHMENTS_MAX \<and>
      (\<forall>b < ET_ATTACHMENTS_MAX. sd_att (st_data (id_stats eid' ! u)) ! b = (if b \<in> atts_of eid' u then int b else -1))"
    if "u < length (id_stats eid)" for u
  proof (cases "u = s")
    case True
    then show ?thesis using d(6-8) [OF sl] c al d(2) by (auto simp: e(7,8) lv nth_list_update)
  next
    case False
    then show ?thesis using d(6-8) [OF that] by (simp add: e(6) [OF that False] other)
  qed
  moreover have "u < length (id_stats eid) \<and>
      (sd_status (st_data (id_stats eid' ! u)) = ET_STATION_ACTIVE \<longleftrightarrow> u = 0 \<or> atts_of eid' u \<noteq> {})" if "u \<in> M" for u
  proof (cases "u = s")
    case True
    have "sd_status (st_data (id_stats eid ! s)) = ET_STATION_ACTIVE" using d(10) [OF s] a by blast
    moreover have "card (atts_of eid s) = 1 \<longleftrightarrow> atts_of eid s - {a} = {}"
      using c card_eq_0_iff [of "atts_of eid s - {a}"] by auto
    ultimately show ?thesis using True sl d(6) [OF sl] by (simp add: e(9) lv) blast
  next
    case False
    then show ?thesis using d(9,10) [OF that] e(6) other by simp
  qed
  moreover have "sy_nattachments (id_sys eid') = int (card (live eid'))"
    using d(5) al card_gt_0_iff [of "live eid"] by (auto simp: e(3) lv)
  moreover have "\<forall>b \<in> live eid'. int b < sc_nattachments (sy_config (id_sys eid))" using d(1) by (auto simp: lv)
  ultimately show ?thesis using d(1,2) unfolding att_table_def l e(4,5) by blast
qed


lemma list_change_note_att: "list_change x y \<Longrightarrow> list_change (note_att d a v x) (note_att d a v y)"
  unfolding list_change_def note_att_def by (cases x; cases y) simp

lemma events_only_upd_both:
  assumes "events_only e e'" "\<And>x y. list_change x y \<Longrightarrow> list_change (f x) (f y)"
  shows "events_only (upd_stat e s f) (upd_stat e' s f)"
proof -
  have "list_all2 list_change (id_stats (upd_stat e s f)) (id_stats (upd_stat e' s f))"
    unfolding list_all2_conv_all_nth upd_stat_simps(1) length_list_update
  proof (intro conjI allI impI)
    fix i assume "i < length (id_stats e)"
    then show "list_change ((id_stats e)[s := f (id_stats e ! s)] ! i) ((id_stats e')[s := f (id_stats e' ! s)] ! i)"
      using events_only_stat [OF assms(1)] assms(2) by (cases "i = s") simp_all
  qed (use events_only_stat(1) [OF assms(1)] in simp)
  then show ?thesis using assms(1) by (simp add: events_only_def upd_stat_def)
qed

lemma live_events_only:
  assumes "events_only e e'"
  shows "live e' = live e"
proof -
  note c = events_only_sys(6) [OF assms]
  have "at_num (calm x) = at_num x" for x by (simp add: calm_def)
  then have "map at_num xs = map at_num (map calm xs)" for xs by simp
  then have n: "map at_num (sy_attach (id_sys e')) = map at_num (sy_attach (id_sys e))" using c by metis
  then have l: "length (sy_attach (id_sys e')) = length (sy_attach (id_sys e))" by (metis length_map)
  have "at_num (sy_attach (id_sys e') ! i) = at_num (sy_attach (id_sys e) ! i)" if "i < length (sy_attach (id_sys e))" for i
    using arg_cong [OF n, of "\<lambda>xs. xs ! i"] that l by simp
  then show ?thesis using l by (auto simp: live_def)
qed

lemma tables_upd_proc: "tables (upd_proc eid p f) gs = tables eid gs"
proof -
  have l: "live (upd_proc eid p f) = live eid" by (simp add: live_def)
  then have "atts_of (upd_proc eid p f) s = atts_of eid s" for s by (simp add: atts_of_def)
  with l show ?thesis by (simp add: tables_def station_table_def att_table_def nstations_max_def)
qed

text \<open>
  Detaching: the call accepts every number whose record still names a station, also after the
  attachment was given up, since only its number is reset. For an attachment in use the tables stay
  right.
\<close>

lemma detach_local_tables:
  assumes t: "tables eid gs" and a: "a \<in> atts_of eid s" "s \<in> set (0 # concat gs)" and r: "detach_local eid a s = Some (r, eid')"
  shows "r = ET_OK \<and> live eid' = live eid - {a} \<and> tables eid' gs"
proof -
  note d = tablesD [OF t]
  have sl: "s < length (id_stats eid)" by (rule station_tableD(7) [OF d(2) a(2)])
  let ?x = "\<lambda>x. x\<lparr>at_num := -1, at_status := ET_ATT_UNUSED\<rparr>"
  define eid1 where "eid1 = add_nattachments (-1) (upd_att eid a ?x)"
  let ?last = "sd_nattachments (st_data (id_stats eid ! s)) = 1 \<and> s \<noteq> 0"
  define eid1' where "eid1' = (if ?last then upd_stat eid1 s (set_status ET_STATION_IDLE) else eid1)"
  have e1: "id_stats eid1 = id_stats eid" by (simp add: eid1_def)
  from r obtain eid2 q eid3 where 2: "eid2 = eid1' \<or> et_flush_events eid1' a s = Some eid2"
    and 3: "et_restore_events eid2 (int a) s = Some (q, eid3)" and res: "r = ET_OK"
    and e': "eid' = (if id_cleanup eid \<noteq> 1 then upd_proc (upd_stat eid3 s (note_att (-1) a (-1))) (id_proc eid) (note_proc (-1) a (-1))
        else upd_stat eid3 s (note_att (-1) a (-1)))"
    unfolding detach_local_def Let_def eid1_def [symmetric] e1 eid1'_def
    by (auto split: option.splits if_splits prod.splits)
  have "events_only eid1' eid2" using 2 et_flush_events_only by auto
  then have eo: "events_only eid1' eid3" using et_restore_events_only [OF 3] by (rule events_only_trans)
  define m where "m = upd_stat eid1' s (note_att (-1) a (-1))"
  have m: "id_stats m = (id_stats eid)[s := note_att (-1) a (-1) (if ?last then set_status ET_STATION_IDLE (id_stats eid ! s)
      else id_stats eid ! s)]" using sl by (simp add: m_def eid1'_def e1)
  have my: "sy_attach (id_sys m) = (sy_attach (id_sys eid))[a := ?x (sy_attach (id_sys eid) ! a)]"
    "sy_nattachments (id_sys m) = sy_nattachments (id_sys eid) - 1" "sy_config (id_sys m) = sy_config (id_sys eid)"
    "sy_nstations (id_sys m) = sy_nstations (id_sys eid)" "sy_stat_tail (id_sys m) = sy_stat_tail (id_sys eid)"
    "id_locality m = id_locality eid"
    by (simp_all add: m_def eid1'_def eid1_def)
  have "att_table m (set (0 # concat gs))"
    by (rule detach_att_table [OF d(3) a my(1)]) (use sl in \<open>simp_all add: m my\<close>)
  moreover have "station_table m gs"
  proof (rule station_table_frame [OF d(2)])
    fix u assume "u < length (id_stats eid)"
    then show "same_place (id_stats eid ! u) (id_stats m ! u)"
      using station_tableD(4) [OF d(2) sl a(2)] by (cases "u = s") (auto simp: m same_place_def in_chain_def)
  qed (simp_all add: m my)
  ultimately have tm: "tables m gs" using d(1) my(6) by (simp add: tables_def)
  have e3: "events_only m (upd_stat eid3 s (note_att (-1) a (-1)))"
    unfolding m_def by (rule events_only_upd_both [OF eo list_change_note_att])
  have lm: "live m = live eid - {a}" by (rule live_delete [OF my(1)]) simp
  have "live (upd_stat eid3 s (note_att (-1) a (-1))) = live m" by (rule live_events_only [OF e3])
  moreover have "live eid' = live (upd_stat eid3 s (note_att (-1) a (-1)))" unfolding e' by (simp add: live_def)
  moreover have "tables eid' gs"
    using tables_events_only [OF e3 tm] by (simp add: e' tables_upd_proc)
  ultimately show ?thesis using res lm by simp
qed


section \<open>Creating and removing stations\<close>

lemma created_att_table:
  assumes t: "att_table eid M" and c: "created eid s eid'" and s: "s < length (id_stats eid)" "s \<notin> M" "s \<noteq> 0"
    and M': "M' = M \<or> M' = insert s M"
  shows "att_table eid' M'"
proof -
  note d = att_tableD [OF t]
  have sy: "(id_sys eid')\<lparr>sy_nstations := 0, sy_stat_tail := 0\<rparr> = (id_sys eid)\<lparr>sy_nstations := 0, sy_stat_tail := 0\<rparr>"
    and len: "length (id_stats eid') = length (id_stats eid)"
    and other: "\<And>u. u < length (id_stats eid) \<Longrightarrow> u \<noteq> s \<Longrightarrow> st_data (id_stats eid' ! u) = st_data (id_stats eid ! u)"
    and new: "sd_nattachments (st_data (id_stats eid' ! s)) = 0" "sd_att (st_data (id_stats eid' ! s)) = replicate ET_ATTACHMENTS_MAX (-1)"
      "sd_status (st_data (id_stats eid' ! s)) \<noteq> ET_STATION_ACTIVE"
    using c nolinks_eqD(3) unfolding created_def by blast+
  have at: "sy_attach (id_sys eid') = sy_attach (id_sys eid)" "sy_nattachments (id_sys eid') = sy_nattachments (id_sys eid)"
    "sy_config (id_sys eid') = sy_config (id_sys eid)"
    using arg_cong [OF sy, of sy_attach] arg_cong [OF sy, of sy_nattachments] arg_cong [OF sy, of sy_config] by simp_all
  have lv: "live eid' = live eid" by (simp add: live_def at)
  then have lv2: "atts_of eid' u = atts_of eid u" for u by (simp add: atts_of_def at)
  have none: "atts_of eid s = {}"
  proof (rule ccontr)
    assume "atts_of eid s \<noteq> {}"
    then obtain a where a: "a \<in> atts_of eid s" by blast
    obtain u where "u \<in> M" "a \<in> atts_of eid u" using d(4) [OF live_atts_of [OF a]] by blast
    with atts_of_disjoint [OF a] s(2) show False by auto
  qed
  have "\<forall>a \<in> live eid. at_num (sy_attach (id_sys eid) ! a) = int a \<and> (\<exists>u \<in> M'. a \<in> atts_of eid u)"
    using d(3,4) M' by blast
  moreover have "sd_nattachments (st_data (id_stats eid' ! u)) = int (card (atts_of eid u)) \<and>
      length (sd_att (st_data (id_stats eid' ! u))) = ET_ATTACHMENTS_MAX \<and>
      (\<forall>b < ET_ATTACHMENTS_MAX. sd_att (st_data (id_stats eid' ! u)) ! b = (if b \<in> atts_of eid u then int b else -1))"
    if "u < length (id_stats eid)" for u
    using d(6-8) [OF that] other [OF that] new none by (cases "u = s") simp_all
  moreover have "u < length (id_stats eid) \<and>
      (sd_status (st_data (id_stats eid' ! u)) = ET_STATION_ACTIVE \<longleftrightarrow> u = 0 \<or> atts_of eid u \<noteq> {})" if "u \<in> M'" for u
  proof (cases "u = s")
    case True
    then show ?thesis using new(3) none s by simp
  next
    case False
    then show ?thesis using d(9,10) [of u] other [of u] that M' by auto
  qed
  ultimately show ?thesis using d(1,2,5) unfolding att_table_def lv lv2 at len by blast
qed

lemma create_tables:
  assumes t: "tables eid gs" and nm: "name \<noteq> ''GRAND_CENTRAL''"
    and r: "et_station_create_at etr loads pid eid (Some name) sc p pp = Some (r, sid, eid')"
  shows "\<exists>gs'. tables eid' gs'"
proof -
  note d = tablesD [OF t]
  from r nm d(1) consider "eid' = eid" | sc1 where "id_alive eid" "station_create_local loads pid eid name sc1 p pp = Some (r, sid, eid')"
    unfolding et_station_create_at_def Let_def by (auto split: if_splits option.splits prod.splits)
  then show ?thesis
  proof cases
    case 1
    then show ?thesis using t by blast
  next
    case 2
    have all: "take (nat (nstations_max eid)) (id_stats eid) = id_stats eid" using station_tableD(2) [OF d(2)] by simp
    show ?thesis
    proof (cases "find_name (id_stats eid) name 0 = None \<and> \<not> sy_nstations (id_sys eid) \<ge> nstations_max eid")
      case False
      then have "eid' = eid" using 2 unfolding station_create_local_def all
        by (auto split: option.splits if_splits)
      then show ?thesis using t by blast
    next
      case True
      from create_local_new [OF d(2) 2(1) nm True [THEN conjunct1] True [THEN conjunct2], of loads pid sc1 p pp] 2(2)
      obtain s where s: "s < length (id_stats eid)" "s \<notin> set (0 # concat gs)" "created eid s eid'"
        and g: "station_table eid' gs \<or> (\<exists>gs'. insert_group (with_config (id_stats eid) s sc1) gs s p pp = Some gs' \<and> station_table eid' gs')"
        by (auto split: if_splits option.splits)
      have "id_locality eid' = id_locality eid" using s(3) arg_cong [of _ _ id_locality] by (auto simp: created_def dest: arg_cong [of _ _ id_locality])
      moreover have s0: "s \<noteq> 0" using s(2) by auto
      have "\<exists>gs'. station_table eid' gs' \<and> att_table eid' (set (0 # concat gs'))"
        using g
      proof
        assume "station_table eid' gs"
        then show ?thesis using created_att_table [OF d(3) s(3,1,2) s0] by blast
      next
        assume "\<exists>gs'. insert_group (with_config (id_stats eid) s sc1) gs s p pp = Some gs' \<and> station_table eid' gs'"
        then obtain gs' where gs': "insert_group (with_config (id_stats eid) s sc1) gs s p pp = Some gs'" "station_table eid' gs'" by blast
        have "set (0 # concat gs') = insert s (set (0 # concat gs))"
          using insert_group_set [OF gs'(1)]
          by (metis insert_commute list.simps(15) set_mset_add_mset_insert set_mset_mset)
        then show ?thesis using created_att_table [OF d(3) s(3,1,2) s0] gs'(2) by blast
      qed
      ultimately show ?thesis using d(1) unfolding tables_def by metis
    qed
  qed
qed


definition killed :: "et_station \<Rightarrow> et_station" where
  "killed ps = set_status ET_STATION_UNUSED (ps\<lparr>st_conductor := ET_THREAD_KILL\<rparr>)"

lemma killed_simps [simp]:
  "sd_status (st_data (killed ps)) = ET_STATION_UNUSED" "sd_nattachments (st_data (killed ps)) = sd_nattachments (st_data ps)"
  "sd_att (st_data (killed ps)) = sd_att (st_data ps)"
  by (simp_all add: killed_def)

lemma split_group:
  assumes "s \<in> set (concat gs)"
  obtains A G1 G2 B where "gs = A @ (G1 @ s # G2) # B"
proof -
  from assms obtain g where "g \<in> set gs" "s \<in> set g" by auto
  then show ?thesis using split_list [of g gs] split_list [of s g] that by metis
qed

lemma att_table_drop:
  assumes t: "att_table e M" and s: "atts_of e s = {}"
    and e: "id_stats e' = (id_stats e)[s := killed (id_stats e ! s)]" "sy_attach (id_sys e') = sy_attach (id_sys e)"
      "sy_nattachments (id_sys e') = sy_nattachments (id_sys e)" "sy_config (id_sys e') = sy_config (id_sys e)"
  shows "att_table e' (M - {s})"
proof -
  note d = att_tableD [OF t]
  have lv: "live e' = live e" "\<And>u. atts_of e' u = atts_of e u" by (simp_all add: live_def atts_of_def e)
  have "\<forall>a \<in> live e. at_num (sy_attach (id_sys e) ! a) = int a \<and> (\<exists>u \<in> M - {s}. a \<in> atts_of e u)"
    using d(3,4) s by blast
  moreover have "sd_nattachments (st_data (id_stats e' ! u)) = int (card (atts_of e u)) \<and>
      length (sd_att (st_data (id_stats e' ! u))) = ET_ATTACHMENTS_MAX \<and>
      (\<forall>b < ET_ATTACHMENTS_MAX. sd_att (st_data (id_stats e' ! u)) ! b = (if b \<in> atts_of e u then int b else -1))"
    if "u < length (id_stats e)" for u
    using d(6-8) [OF that] that by (cases "u = s") (simp_all add: e)
  moreover have "u < length (id_stats e) \<and>
      (sd_status (st_data (id_stats e' ! u)) = ET_STATION_ACTIVE \<longleftrightarrow> u = 0 \<or> atts_of e u \<noteq> {})" if "u \<in> M - {s}" for u
    using d(9,10) [of u] that by (simp add: e)
  ultimately show ?thesis using d(1,2,5) unfolding att_table_def lv e by simp
qed

lemma remove_works:
  assumes t: "tables eid gs" and s: "s \<in> set (concat gs)" and none: "atts_of eid s = {}" and works: "\<And>e. events_only e (works e)"
  shows "\<exists>ch gs'. station_remove (chain_of eid) s = Some ch \<and> mset (concat gs) = add_mset s (mset (concat gs')) \<and>
     tables (add_nstations (-1) (upd_stat (works (set_chain eid ch)) s killed)) gs'"
proof -
  note d = tablesD [OF t] and T = station_tableD [OF d(2)]
  obtain A G1 G2 B where gs: "gs = A @ (G1 @ s # G2) # B" by (rule split_group [OF s])
  from station_remove_chain [OF T(1) [unfolded gs]] obtain stats' tail' gs' where
    rm: "station_remove (chain_of eid) s = Some (stats', tail')" "chain_ok stats' tail' gs'"
    and gs': "gs' = A @ (if G1 @ G2 = [] then [] else [G1 @ G2]) @ B"
    unfolding chain_of_def by blast
  note nl = map_nolinks_nth [OF station_remove_nolinks [OF rm(1)], unfolded chain_of_def fst_conv]
  have ms: "mset (concat gs) = add_mset s (mset (concat gs'))" by (simp add: gs gs')
  have dist: "distinct (0 # concat gs)" using T(1) by (simp add: chain_ok_def)
  have set': "set (0 # concat gs') = set (0 # concat gs) - {s}" and s0: "s \<noteq> 0" using dist by (auto simp: gs gs')
  have out: "s \<notin> set (0 # concat gs')" unfolding set' by blast
  have sM: "s \<in> set (0 # concat gs)" using s by simp
  have sl: "s < length (id_stats eid)" by (rule T(7) [OF sM])
  define e0 where "e0 = set_chain eid (stats', tail')"
  define e' where "e' = add_nstations (-1) (upd_stat (works e0) s killed)"
  have eo: "events_only e0 (works e0)" by (rule works)
  note st = events_only_stat [OF eo] and y = events_only_sys [OF eo]
  have l: "length (id_stats e') = length (id_stats eid)" using st(1) nl(1) by (simp add: e'_def e0_def)
  have fld: "st_data (id_stats (works e0) ! u) = st_data (id_stats eid ! u)" "st_name (id_stats (works e0) ! u) = st_name (id_stats eid ! u)"
    if "u < length (id_stats eid)" for u
    using list_change_fields [OF st(2) [of u]] nolinks_eqD [OF nl(2) [OF that]] that nl(1) by (simp_all add: e0_def)
  have at: "id_stats e' ! u = (if u = s then killed (id_stats (works e0) ! s) else id_stats (works e0) ! u)" if "u < length (id_stats eid)" for u
    using that st(1) nl(1) by (simp add: e'_def e0_def)
  have sy: "sy_attach (id_sys e0) = sy_attach (id_sys eid)" "sy_nattachments (id_sys e0) = sy_nattachments (id_sys eid)"
    "sy_config (id_sys e0) = sy_config (id_sys eid)"
    by (simp_all add: e0_def set_chain_def)
  have "chain_ok (id_stats (works e0)) tail' gs'"
    by (rule chain_ok_fields [OF st(1) _ ]) (use list_change_fields [OF st(2)] rm(2) in \<open>simp_all add: e0_def\<close>)
  then have c: "chain_ok (id_stats e') (sy_stat_tail (id_sys e')) gs'"
    using chain_ok_outside [OF out] y(2) by (simp add: e'_def e0_def)
  have "length (concat gs) = Suc (length (concat gs'))" using ms by (metis size_add_mset size_mset)
  moreover have "inj_on (\<lambda>u. st_name (id_stats e' ! u)) (set (0 # concat gs'))"
  proof (rule inj_on_cong [THEN iffD1])
    show "inj_on (\<lambda>u. st_name (id_stats eid ! u)) (set (0 # concat gs'))" using T(6) set' by (metis Diff_subset inj_on_subset)
    show "st_name (id_stats eid ! u) = st_name (id_stats e' ! u)" if "u \<in> set (0 # concat gs')" for u
    proof -
      have u: "u \<noteq> s" "u < length (id_stats eid)" using that T(7) [of u] unfolding set' by blast+
      then show ?thesis using at [OF u(2)] fld(2) [OF u(2)] by simp
    qed
  qed
  moreover have "if u \<in> set (0 # concat gs') then in_chain (id_stats e' ! u)
      else sd_status (st_data (id_stats e' ! u)) = ET_STATION_UNUSED" if "u < length (id_stats eid)" for u
    using T(4,5) [OF that] at [OF that] fld(1) [OF that] unfolding set' by (cases "u = s") (auto simp: in_chain_def)
  moreover have "sy_nstations (id_sys e') = sy_nstations (id_sys eid) - 1" "nstations_max e' = nstations_max eid"
    using y(1,3) by (simp_all add: e'_def e0_def nstations_max_def add_nstations_def set_chain_def)
  ultimately have "station_table e' gs'" using c T(2,3) l unfolding station_table_def by simp
  moreover have "att_table e' (set (0 # concat gs'))"
  proof -
    have "att_table e0 (set (0 # concat gs))"
      by (rule att_table_frame [OF d(3)]) (simp_all add: sy e0_def nl(1) nolinks_eqD(3) [OF nl(2)], simp_all add: set_chain_def)
    then have w: "att_table (works e0) (set (0 # concat gs))" by (rule att_table_events_only [OF eo])
    have "atts_of (works e0) s = {}"
    proof (rule ccontr)
      assume "atts_of (works e0) s \<noteq> {}"
      then have "card (atts_of (works e0) s) \<noteq> 0" by simp
      moreover have "s < length (id_stats (works e0))" using sl st(1) nl(1) by (simp add: e0_def)
      ultimately show False using att_tableD(6) [OF w, of s] att_tableD(6) [OF d(3) sl] none fld(1) [OF sl] by simp
    qed
    from att_table_drop [OF w this, of e'] show ?thesis
      unfolding set' by (simp add: e'_def add_nstations_def)
  qed
  moreover have "id_locality e' = ET_LOCAL"
    using eo d(1) by (simp add: events_only_def e'_def e0_def set_chain_def add_nstations_def upd_stat_def)
  ultimately show ?thesis using rm(1) ms unfolding tables_def e'_def e0_def killed_def by blast
qed


lemma remove_tables:
  assumes t: "tables eid gs" and r: "et_station_remove etr works eid sid = Some (r, eid')"
    and works: "\<And>e. events_only e (works e)" and used: "\<And>s. stat_ix (id_stats eid) sid = Some s \<Longrightarrow> in_chain (id_stats eid ! s)"
  shows "\<exists>gs'. tables eid' gs'"
proof (cases "r = ET_OK")
  case False
  then have "eid' = eid" using r tablesD(1) [OF t]
    by (auto simp: et_station_remove_def local_guard_def Let_def split: if_splits option.splits)
  then show ?thesis using t by blast
next
  case True
  note d = tablesD [OF t]
  have k: "killed = (\<lambda>ps. set_status ET_STATION_UNUSED (ps\<lparr>st_conductor := ET_THREAD_KILL\<rparr>))"
    by (simp add: fun_eq_iff killed_def)
  from r True d(1) obtain s ch where s: "stat_ix (id_stats eid) sid = Some s" "sid \<noteq> 0" "\<not> sd_nattachments (st_data (id_stats eid ! s)) > 0"
    and ch: "station_remove (chain_of eid) s = Some ch" "eid' = add_nstations (-1) (upd_stat (works (set_chain eid ch)) s killed)"
    by (auto simp: et_station_remove_def local_guard_def Let_def k split: if_splits option.splits)
  have sl: "sid = int s" "s < length (id_stats eid)" using s(1) by (auto simp: stat_ix_def split: if_splits)
  have "s \<in> set (concat gs)" using in_table [OF d(2) sl(2) used [OF s(1)]] s(2) sl(1) by simp
  moreover have "atts_of eid s = {}" using att_tableD(6) [OF d(3) sl(2)] s(3) card_eq_0_iff [of "atts_of eid s"] by simp
  ultimately show ?thesis using remove_works [OF t _ _ works] ch by fastforce
qed

lemma detach_tables:
  assumes t: "tables eid gs" and r: "et_station_detach etr eid att = Some (r, eid')"
    and used: "nat att < length (sy_attach (id_sys eid)) \<Longrightarrow> nat att \<in> live eid"
  shows "tables eid' gs \<and> (r = ET_OK \<longrightarrow> live eid' = live eid - {nat att})"
proof -
  note d = tablesD [OF t]
  from r d(1) consider "eid' = eid" "r \<noteq> ET_OK" | s where "nat att < length (sy_attach (id_sys eid))"
    "stat_ix (id_stats eid) (at_stat (sy_attach (id_sys eid) ! nat att)) = Some s" "detach_local eid (nat att) s = Some (r, eid')"
    by (auto simp: et_station_detach_def local_guard_def Let_def split: if_splits option.splits)
  then show ?thesis
  proof cases
    case 2
    have a: "nat att \<in> live eid" by (rule used [OF 2(1)])
    then obtain u where u: "u \<in> set (0 # concat gs)" "nat att \<in> atts_of eid u" using att_tableD(4) [OF d(3)] by blast
    then have "u = s" using 2(2) by (auto simp: stat_ix_def atts_of_def split: if_splits)
    then show ?thesis using detach_local_tables [OF t u(2,1)] 2(3) by simp
  qed (use t in simp)
qed

section \<open>Changing a configuration\<close>

lemma set_station_tables:
  assumes t: "tables eid gs" and r: "set_station etr legal locks eid sid allowed upd = Some (r, eid')"
    and u: "\<And>c. cf_flow_mode (upd c) = cf_flow_mode c"
  shows "tables eid' gs"
proof -
  note d = tablesD [OF t]
  from r d(1) consider "eid' = eid" | s where "eid' = upd_stat eid s (\<lambda>ps. ps\<lparr>st_config := upd (st_config ps)\<rparr>)"
    by (auto simp: set_station_def local_guard_def split: if_splits option.splits)
  then show ?thesis
  proof cases
    case 2
    have p: "same_place (id_stats eid ! k) (id_stats eid' ! k) \<and> st_data (id_stats eid' ! k) = st_data (id_stats eid ! k)"
      if "k < length (id_stats eid)" for k
      using that by (cases "k = s") (simp_all add: 2 same_place_def in_chain_def u)
    have "station_table eid' gs" by (rule station_table_frame [OF d(2)]) (use p in \<open>simp_all add: 2\<close>)
    moreover have "att_table eid' (set (0 # concat gs))" by (rule att_table_frame [OF d(3)]) (use p in \<open>simp_all add: 2\<close>)
    moreover have "id_locality eid' = ET_LOCAL" using d(1) by (simp add: 2)
    ultimately show ?thesis by (simp add: tables_def)
  qed (use t in simp)
qed

section \<open>Moving a station to another place\<close>

lemma station_table_relink:
  assumes t: "station_table eid gs" and n: "map nolinks stats' = map nolinks (id_stats eid)" and c: "chain_ok stats' tail' gs'"
    and m: "mset (concat gs') = mset (concat gs)"
  shows "station_table (set_chain eid (stats', tail')) gs'"
proof -
  note T = station_tableD [OF t] and nl = map_nolinks_nth [OF n]
  have s: "set (0 # concat gs') = set (0 # concat gs)" using m by (metis list.simps(15) mset_eq_setD)
  have l: "length (concat gs') = length (concat gs)" using m by (metis size_mset)
  have "inj_on (\<lambda>u. st_name (stats' ! u)) (set (0 # concat gs))"
    using T(6) nolinks_eqD(4) [OF nl(2) [OF T(7)]] unfolding inj_on_def by metis
  then show ?thesis
    using c T(2-5) nl(1) nolinks_eqD(3) [OF nl(2)] unfolding station_table_def s l set_chain_simps nstations_max_simps fst_conv snd_conv
    by (simp add: in_chain_def del: list.set)
qed

lemma att_table_relink:
  assumes "att_table eid M" "map nolinks stats' = map nolinks (id_stats eid)"
  shows "att_table (set_chain eid (stats', tail')) M"
  by (rule att_table_frame [OF assms(1)])
    (simp_all add: map_nolinks_nth(1) [OF assms(2)] nolinks_eqD(3) [OF map_nolinks_nth(2) [OF assms(2)]], simp_all add: set_chain_def)

lemma insert_between_stale:
  assumes "previous \<noteq> s"
  shows "insert_between (stats[s := (stats ! s)\<lparr>st_next := a, st_prev := b\<rparr>], tail) s previous pnext = insert_between (stats, tail) s previous pnext"
proof -
  have "upd_at s (\<lambda>x. x\<lparr>st_next := int pnext, st_prev := v\<rparr>) (stats[s := (stats ! s)\<lparr>st_next := a, st_prev := b\<rparr>]) =
      upd_at s (\<lambda>x. x\<lparr>st_next := int pnext, st_prev := v\<rparr>) stats" for v
    by (cases "s < length stats") (simp_all add: upd_at_def list_update_beyond)
  then show ?thesis using assms by (simp add: insert_between_def Let_def)
qed

lemma move_between:
  assumes ok: "chain_ok stats tail (A @ [s] # B)" and n: "int (length (concat (A @ B))) + 2 = nstations"
    and p: "1 \<le> p" "nat p \<le> length (A @ B)" and flow: "cf_flow_mode (st_config (stats ! s)) = ET_STATION_SERIAL"
  shows "\<exists>stats' tail'. move_station nstations (stats, tail) s p pp = Some (ET_OK, (stats', tail')) \<and>
     chain_ok stats' tail' (take (nat p - 1) (A @ B) @ [s] # drop (nat p - 1) (A @ B)) \<and> map nolinks stats' = map nolinks stats"
proof -
  let ?gs = "A @ [s] # B" and ?gs' = "A @ B"
  note D = chain_okD [OF ok]
  have dist: "distinct (0 # concat ?gs)" using ok by (simp add: chain_ok_def)
  have sl: "s < length stats" using D(2) by (simp add: members_ok_def)
  have k: "length A < length ?gs" "?gs ! length A ! 0 = s" "0 < length (?gs ! length A)" by (simp_all add: nth_append)
  have "length ?gs' \<le> length (concat ?gs')"
  proof -
    have "\<forall>g \<in> set ?gs'. 1 \<le> length g" using D(4) by (auto simp: group_ok_def Suc_le_eq)
    then have "length xs \<le> length (concat xs)" if "set xs \<subseteq> set ?gs'" for xs using that by (induction xs) fastforce+
    then show ?thesis by blast
  qed
  with n p have n2: "3 \<le> nstations" by linarith
  have sf: "station_find stats nstations s = Some (ET_OK, int (length A) + 1, 0)"
    using station_find_chain [OF ok _ k(1,3)] n2 unfolding k(2) by simp
  from station_remove_chain [of stats tail A "[]" s "[]" B] ok obtain stats1 tail1 where
    r: "station_remove (stats, tail) s = Some (stats1, tail1)" "chain_ok stats1 tail1 ?gs'" by auto
  note rn = station_remove_nolinks [OF r(1), unfolded fst_conv]
  note nl = map_nolinks_nth [OF rn]
  have par: "st_nextparallel (stats1 ! s) = -1" "st_prevparallel (stats1 ! s) = -1"
  proof -
    have "unlink_main (stats, tail) s = Some (stats1, tail1)" using r(1) flow by (auto simp: station_remove_def Let_def)
    moreover have "group_ok stats [s]" using D(4) by simp
    ultimately show "st_nextparallel (stats1 ! s) = -1" "st_prevparallel (stats1 ! s) = -1"
      by (auto simp: unlink_main_def group_ok_def Let_def et_frame split: Option.bind_splits if_splits)
  qed
  have num: "st_num (stats1 ! s) = int s" "st_config (stats1 ! s) = st_config (stats ! s)"
    using nolinks_eqD(1,2) [OF nl(2) [OF sl]] D(2) by (simp_all add: members_ok_def)
  have out: "s \<notin> set (0 # concat ?gs')" using dist by auto
  let ?f = "stats1[s := (stats1 ! s)\<lparr>st_next := -1, st_prev := -1\<rparr>]"
  have okf: "chain_ok ?f tail1 ?gs'" using r(2) chain_ok_outside [OF out] by simp
  have fresh: "fresh_station ?f s" using sl nl(1) num par by (simp add: fresh_station_def)
  have ig: "insert_group ?f ?gs' s p pp = Some (take (nat p - 1) ?gs' @ [s] # drop (nat p - 1) ?gs')"
    using p flow num(2) sl nl(1) by (simp add: insert_group_def Let_def)
  from station_insert_chain [OF okf fresh out n [symmetric], of p pp, unfolded ig] obtain stats2 tail2 where
    i: "station_insert (length ?f) nstations (?f, tail1) s p pp = Some (ET_OK, (stats2, tail2))"
      "chain_ok stats2 tail2 (take (nat p - 1) ?gs' @ [s] # drop (nat p - 1) ?gs')" by auto
  note len = chain_length [OF r(2) out, unfolded nl(1), OF sl]
  have w: "insert_walk (length st) st 0 1 p = Some (Between ((0 # map hd ?gs') ! nat (p - 1)) (map hd ?gs' ! nat (p - 1)))"
    if "chain_ok st t ?gs'" "length st = length stats" for st t
  proof -
    note E = chain_okD [OF that(1)]
    have main: "dlinked (\<lambda>i. st_next (st ! i)) (\<lambda>i. st_prev (st ! i)) (0 # map hd ?gs')" "st_next (st ! last (0 # map hd ?gs')) = -1"
      using E(3) by (simp_all add: main_ok_def)
    have "\<forall>i \<in> set (0 # map hd ?gs'). i < length st" using E(2,7) unfolding members_ok_def by blast
    then have "\<forall>i \<in> set (map hd ?gs'). i < length st" by simp
    from insert_walk_spec [OF main this, of "length st" 1 p] show ?thesis using len p that(2) by (simp add: nat_diff_distrib)
  qed
  let ?pr = "(0 # map hd ?gs') ! nat (p - 1)" and ?nx = "map hd ?gs' ! nat (p - 1)"
  have "?pr \<in> set (0 # map hd ?gs')" using p by (intro nth_mem) auto
  then have prs: "?pr \<noteq> s" using chain_okD(7) [OF r(2)] out by blast
  have run: "station_insert (length st) nstations (st, t) s p pp = Some (ET_OK, insert_between (st, t) s ?pr ?nx)"
    if "chain_ok st t ?gs'" "length st = length stats" "st_config (st ! s) = st_config (stats ! s)" for st t
    using w [OF that(1,2)] n2 flow that(3) unfolding station_insert_def by simp
  have "insert_between (?f, tail1) s ?pr ?nx = (stats2, tail2)"
    using run [OF okf] i(1) nl(1) num(2) sl by simp
  then have "insert_between (stats1, tail1) s ?pr ?nx = (stats2, tail2)" unfolding insert_between_stale [OF prs] .
  with run [OF r(2) nl(1) num(2)] have i1: "station_insert (length stats1) nstations (stats1, tail1) s p pp = Some (ET_OK, (stats2, tail2))"
    by simp
  then have "move_station nstations (stats, tail) s p pp = Some (ET_OK, (stats2, tail2))"
    by (simp add: move_station_def sf r(1))
  moreover have "map nolinks stats2 = map nolinks stats" using station_insert_nolinks [OF i1] rn by simp
  ultimately show ?thesis using i(2) by blast
qed

lemma setposition_moves:
  assumes "tables eid (A @ [s] # B)" "cf_flow_mode (st_config (id_stats eid ! s)) = ET_STATION_SERIAL"
    "1 \<le> p" "nat p \<le> length (A @ B)" "id_alive eid" "\<not> id_closed eid" "pp = ET_END \<or> pp = ET_NEWHEAD \<or> 0 \<le> pp"
  shows "\<exists>eid'. et_station_setposition etr eid (int s) p pp = Some (ET_OK, eid') \<and>
     tables eid' (take (nat p - 1) (A @ B) @ [s] # drop (nat p - 1) (A @ B))"
proof -
  note d = tablesD [OF assms(1)]
  note T = station_tableD [OF d(2)]
  note D = chain_okD [OF T(1)]
  let ?gs = "take (nat p - 1) (A @ B) @ [s] # drop (nat p - 1) (A @ B)"
  have n: "int (length (concat (A @ B))) + 2 = sy_nstations (id_sys eid)" using T(3) by simp
  from move_between [OF T(1) n assms(3,4,2), of pp] obtain stats' tail' where
    m: "move_station (sy_nstations (id_sys eid)) (chain_of eid) s p pp = Some (ET_OK, (stats', tail'))"
      "chain_ok stats' tail' ?gs" "map nolinks stats' = map nolinks (id_stats eid)"
    unfolding chain_of_def by blast
  have sM: "s \<in> set (0 # concat (A @ [s] # B))" by simp
  have s: "s < length (id_stats eid)" "s \<noteq> 0" "in_chain (id_stats eid ! s)" using T(7) [OF sM] T(4) [OF _ sM] D(1) by simp_all
  have run: "et_station_setposition etr eid (int s) p pp = Some (ET_OK, set_chain eid (stats', tail'))"
    using assms(3,5-7) d(1) T(2) m(1) s by (auto simp: et_station_setposition_def local_guard_def)
  have ms: "mset (concat ?gs) = mset (concat (A @ [s] # B))"
  proof -
    have "mset (concat (take k xs @ drop k xs)) = mset (concat xs)" for k and xs :: "nat list list" by simp
    then have "mset (concat (take k xs)) + mset (concat (drop k xs)) = mset (concat xs)" for k and xs :: "nat list list"
      by (metis concat_append mset_append)
    then show ?thesis by (simp del: take_append drop_append)
  qed
  then have "set (0 # concat ?gs) = set (0 # concat (A @ [s] # B))" using ms by (metis list.simps(15) mset_eq_setD)
  then have "att_table (set_chain eid (stats', tail')) (set (0 # concat ?gs))"
    using att_table_relink [OF d(3) m(3), of tail'] by metis
  moreover have "id_locality (set_chain eid (stats', tail')) = ET_LOCAL" using d(1) by (simp add: set_chain_def)
  ultimately have "tables (set_chain eid (stats', tail')) ?gs"
    using station_table_relink [OF d(2) m(3,2) ms] unfolding tables_def by blast
  with run show ?thesis by blast
qed

text \<open>The links of the stations determine the sequence of groups.\<close>

lemma dlinked_unique:
  "dlinked nx pv (x # xs) \<Longrightarrow> nx (last (x # xs)) = -1 \<Longrightarrow> dlinked nx pv (x # ys) \<Longrightarrow> nx (last (x # ys)) = -1 \<Longrightarrow> xs = ys"
proof (induction xs arbitrary: x ys)
  case Nil
  then show ?case by (cases ys) (simp_all add: dlinked_Cons)
next
  case (Cons y xs)
  then obtain zs where ys: "ys = y # zs" by (cases ys) (simp_all add: dlinked_Cons)
  have "xs = zs" by (rule Cons.IH [of y]) (use Cons.prems ys in simp_all)
  with ys show ?case by simp
qed

lemma chain_ok_unique:
  assumes "chain_ok stats tail gs" "chain_ok stats tail' gs'"
  shows "gs = gs'"
proof -
  have heads: "map hd gs = map hd gs'"
    using assms unfolding chain_ok_def main_ok_def by (elim conjE) (rule dlinked_unique)
  have "gs ! k = gs' ! k" if k: "k < length gs" for k
  proof -
    have k': "k < length gs'" using k arg_cong [OF heads, of length] by simp
    have g: "group_ok stats (gs ! k)" "group_ok stats (gs' ! k)" using assms k k' by (simp_all add: chain_ok_def)
    moreover have "hd (gs ! k) = hd (gs' ! k)" using arg_cong [OF heads, of "\<lambda>xs. xs ! k"] k k' by simp
    ultimately obtain x xs ys where x: "gs ! k = x # xs" "gs' ! k = x # ys" by (metis group_ok_def list.collapse)
    have "xs = ys"
      by (rule dlinked_unique [of "\<lambda>i. st_nextparallel (stats ! i)" "\<lambda>i. st_prevparallel (stats ! i)" x])
        (use g x in \<open>simp_all only: group_ok_def\<close>)
    with x show ?thesis by simp
  qed
  then show ?thesis using arg_cong [OF heads, of length] by (intro nth_equalityI) simp_all
qed

text \<open>Station \<open>s\<close> is serial and is moved in front of another one, to the place \<open>p\<close>.\<close>

definition moves_between :: "et_id \<Rightarrow> int \<Rightarrow> int \<Rightarrow> bool" where
  "moves_between eid s p \<longleftrightarrow> (\<exists>k A B. s = int k \<and> chain_ok (id_stats eid) (sy_stat_tail (id_sys eid)) (A @ [k] # B) \<and>
     cf_flow_mode (st_config (id_stats eid ! k)) = ET_STATION_SERIAL \<and> 1 \<le> p \<and> nat p \<le> length (A @ B))"

lemma move_tables:
  assumes t: "tables eid gs" and r: "et_station_setposition etr eid s p pp = Some (r, eid')"
    and m: "eid' \<noteq> eid \<Longrightarrow> moves_between eid s p"
  shows "\<exists>gs'. tables eid' gs'"
proof (cases "eid' = eid")
  case False
  note d = tablesD [OF t]
  from m [OF False] obtain k A B where k: "s = int k" "chain_ok (id_stats eid) (sy_stat_tail (id_sys eid)) (A @ [k] # B)"
    "cf_flow_mode (st_config (id_stats eid ! k)) = ET_STATION_SERIAL" "1 \<le> p" "nat p \<le> length (A @ B)"
    unfolding moves_between_def by blast
  from chain_ok_unique [OF station_tableD(1) [OF d(2)] k(2)] t have "tables eid (A @ [k] # B)" by simp
  moreover have "id_alive eid" "\<not> id_closed eid" "pp = ET_END \<or> pp = ET_NEWHEAD \<or> 0 \<le> pp"
    using r False d(1) by (auto simp: et_station_setposition_def local_guard_def split: if_splits)
  ultimately show ?thesis using setposition_moves [OF _ k(3-5), where pp = pp and etr = etr] r k(1) by auto
qed (use t in blast)

section \<open>Sessions\<close>

text \<open>
  A session is a sequence of calls by local processes that share one system: each step is one call
  (by the process that is current), a change of the current process, or work that only moves events,
  which covers reading, writing, dumping and the conductors. Three things the code leaves to its
  callers are conditions of steps: a station is removed while it is in use, an attachment is given
  up while it is in use, and a station that is moved is serial and goes in front of another one.
  Theory \<open>ET_StationFaults\<close> shows what becomes of the tables when a caller does not keep to this.
\<close>

inductive session :: "et_id \<Rightarrow> et_id \<Rightarrow> bool" where
  create: "et_station_create_at etr loads pid eid (Some name) sc p pp = Some (r, sid, eid') \<Longrightarrow> name \<noteq> ''GRAND_CENTRAL'' \<Longrightarrow>
    session eid eid'"
| remove: "et_station_remove etr works eid s = Some (r', eid') \<Longrightarrow> (\<And>e. events_only e (works e)) \<Longrightarrow>
    (\<And>k. stat_ix (id_stats eid) s = Some k \<Longrightarrow> in_chain (id_stats eid ! k)) \<Longrightarrow> session eid eid'"
| attach: "et_station_attach etr' pid host eid s = Some (r, ao, eid') \<Longrightarrow> session eid eid'"
| detach: "et_station_detach etr eid att = Some (r', eid') \<Longrightarrow>
    (nat att < length (sy_attach (id_sys eid)) \<Longrightarrow> nat att \<in> live eid) \<Longrightarrow> session eid eid'"
| move: "et_station_setposition etr4 eid s p pp = Some (r', eid') \<Longrightarrow> (eid' \<noteq> eid \<Longrightarrow> moves_between eid s p) \<Longrightarrow>
    session eid eid'"
| setblock: "et_station_setblock etr'' eid s v = Some (r', eid') \<Longrightarrow> session eid eid'"
| setuser: "et_station_setuser etr'' eid s v = Some (r', eid') \<Longrightarrow> session eid eid'"
| setrestore: "et_station_setrestore etr'' eid s v = Some (r', eid') \<Longrightarrow> session eid eid'"
| setprescale: "et_station_setprescale etr'' eid s v = Some (r', eid') \<Longrightarrow> session eid eid'"
| setcue: "et_station_setcue etr'' eid s v = Some (r', eid') \<Longrightarrow> session eid eid'"
| setselectwords: "et_station_setselectwords etr3 eid s ws = Some (r', eid') \<Longrightarrow> session eid eid'"
| events: "events_only eid eid' \<Longrightarrow> session eid eid'"
| other: "session eid (eid\<lparr>id_proc := p, id_cleanup := c, id_alive := al, id_closed := cl\<rparr>)"

lemma tables_other: "tables (eid\<lparr>id_proc := p, id_cleanup := c, id_alive := al, id_closed := cl\<rparr>) gs = tables eid gs"
proof -
  let ?e = "eid\<lparr>id_proc := p, id_cleanup := c, id_alive := al, id_closed := cl\<rparr>"
  have l: "live ?e = live eid" by (simp add: live_def)
  then have "atts_of ?e s = atts_of eid s" for s by (simp add: atts_of_def)
  with l show ?thesis by (simp add: tables_def station_table_def att_table_def nstations_max_def)
qed

lemma session_tables: "session eid eid' \<Longrightarrow> tables eid gs \<Longrightarrow> \<exists>gs'. tables eid' gs'"
proof (induction rule: session.induct)
  case create then show ?case by (blast intro: create_tables)
next
  case remove then show ?case by (blast intro: remove_tables)
next
  case attach then show ?case using attach_cases by blast
next
  case detach then show ?case using detach_tables by blast
next
  case move then show ?case using move_tables by blast
next
  case events then show ?case using tables_events_only by blast
next
  case other then show ?case using tables_other by blast
qed (auto simp: et_station_setblock_def et_station_setuser_def et_station_setrestore_def et_station_setprescale_def
    et_station_setcue_def et_station_setselectwords_def intro!: exI dest: set_station_tables [rotated])


lemma sessions_tables: "session\<^sup>*\<^sup>* eid eid' \<Longrightarrow> tables eid gs \<Longrightarrow> \<exists>gs'. tables eid' gs'"
  by (induction arbitrary: gs rule: converse_rtranclp_induct) (use session_tables in blast)+

lemma station_table_count:
  assumes "station_table eid gs"
  shows "sy_nstations (id_sys eid) = int (length (filter (\<lambda>ps. sd_status (st_data ps) \<noteq> ET_STATION_UNUSED) (id_stats eid)))"
proof -
  note T = station_tableD [OF assms]
  have used: "{i. i < length (id_stats eid) \<and> sd_status (st_data (id_stats eid ! i)) \<noteq> ET_STATION_UNUSED} = set (0 # concat gs)"
  proof (rule set_eqI)
    fix i show "i \<in> {i. i < length (id_stats eid) \<and> sd_status (st_data (id_stats eid ! i)) \<noteq> ET_STATION_UNUSED} \<longleftrightarrow> i \<in> set (0 # concat gs)"
      using T(4,5,7) [of i] by (cases "i \<in> set (0 # concat gs)") (auto simp: in_chain_def simp del: list.set)
  qed
  have "length (filter (\<lambda>ps. sd_status (st_data ps) \<noteq> ET_STATION_UNUSED) (id_stats eid)) = card (set (0 # concat gs))"
    unfolding length_filter_conv_card used [symmetric] by simp
  also have "\<dots> = length (0 # concat gs)" using T(1) by (intro distinct_card) (simp add: chain_ok_def)
  finally show "sy_nstations (id_sys eid) = int (length (filter (\<lambda>ps. sd_status (st_data ps) \<noteq> ET_STATION_UNUSED) (id_stats eid)))"
    using T(3) by simp
qed

lemma att_table_count:
  assumes "att_table eid M"
  shows "sy_nattachments (id_sys eid) = (\<Sum>ps \<leftarrow> id_stats eid. sd_nattachments (st_data ps))"
proof -
  note A = att_tableD [OF assms]
  have lv: "live eid = (\<Union>s \<in> {..<length (id_stats eid)}. atts_of eid s)"
  proof (intro equalityI subsetI)
    fix a assume "a \<in> live eid"
    from A(4) [OF this] obtain s where "s \<in> M" "a \<in> atts_of eid s" by blast
    then show "a \<in> (\<Union>s \<in> {..<length (id_stats eid)}. atts_of eid s)" using A(9) by blast
  qed (use live_atts_of in blast)
  have "card (live eid) = (\<Sum>s < length (id_stats eid). card (atts_of eid s))"
    unfolding lv by (rule card_UN_disjoint) (use atts_of_disjoint in auto)
  then have "sy_nattachments (id_sys eid) = (\<Sum>s < length (id_stats eid). sd_nattachments (st_data (id_stats eid ! s)))"
    using A(5,6) by simp
  also have "\<dots> = (\<Sum>ps \<leftarrow> id_stats eid. sd_nattachments (st_data ps))"
    by (simp add: sum_list_sum_nth atLeast0LessThan)
  finally show "sy_nattachments (id_sys eid) = (\<Sum>ps \<leftarrow> id_stats eid. sd_nattachments (st_data ps))" .
qed

text \<open>GrandCentral, one more station and a free slot.\<close>

definition sample_open :: et_id where
  "sample_open = (let e = sample_id 4 [(sample_stats 3 2 ! 0)\<lparr>st_name := ''GRAND_CENTRAL''\<rparr>,
       (sample_stats 3 2 ! 1)\<lparr>st_name := ''A''\<rparr>, sample_stats 3 2 ! 2] (sample_heap []);
     e1 = upd_stat (upd_stat e 0 (set_status ET_STATION_ACTIVE)) 1 (set_status ET_STATION_IDLE)
   in e1\<lparr>id_sys := (id_sys e1)\<lparr>sy_nstations := 2, sy_stat_tail := 1\<rparr>\<rparr>)"

lemma sample_open_fields [simp]:
  "id_stats sample_open = [set_status ET_STATION_ACTIVE ((sample_stats 3 2 ! 0)\<lparr>st_name := ''GRAND_CENTRAL''\<rparr>),
     set_status ET_STATION_IDLE ((sample_stats 3 2 ! 1)\<lparr>st_name := ''A''\<rparr>), sample_stats 3 2 ! 2]"
  "sy_stat_tail (id_sys sample_open) = 1" "sy_nstations (id_sys sample_open) = 2" "sy_nattachments (id_sys sample_open) = 0"
  "sy_attach (id_sys sample_open) = [sample_attach, sample_attach, sample_attach]"
  "sc_nattachments (sy_config (id_sys sample_open)) = 3" "nstations_max sample_open = 3" "id_locality sample_open = ET_LOCAL"
  "id_alive sample_open" "\<not> id_closed sample_open" "id_cleanup sample_open = 0" "id_proc sample_open = ET_SYS"
  "nevents_max sample_open = 4" "id_events sample_open = sample_heap []"
  by (simp_all add: sample_open_def sample_id_def upd_stat_def Let_def nstations_max_def nevents_max_def)

lemma sample_station_data [simp]:
  "sd_nattachments (st_data sample_station) = 0" "sd_att (st_data sample_station) = replicate ET_ATTACHMENTS_MAX (-1)"
  "sd_status (st_data sample_station) = ET_STATION_UNUSED" "st_name sample_station = []" "at_num sample_attach = -1"
  by (simp_all add: sample_station_def et_init_station_def sample_attach_def et_init_attachment_def)

lemma sample_open_live: "live sample_open = {}" "atts_of sample_open s = {}"
proof -
  have "\<forall>a < 3. at_num ([sample_attach, sample_attach, sample_attach] ! a) = -1" by (simp add: numeral_3_eq_3 All_less_Suc)
  then show "live sample_open = {}" by (simp add: live_def)
  then show "atts_of sample_open s = {}" by (simp add: atts_of_def)
qed

lemma sample_open_tables: "tables sample_open [[1]]"
proof -
  note sample_open_live
  then have "att_table sample_open (set (0 # concat [[1]]))"
    unfolding att_table_def by (simp add: numeral_3_eq_3 All_less_Suc)
  moreover have "station_table sample_open [[1]]"
    by (auto simp: station_table_def chain_ok_def members_ok_def main_ok_def group_ok_def in_chain_def less_Suc_eq numeral_3_eq_3)
  ultimately show ?thesis by (simp add: tables_def)
qed


lemma sample_attach_ok:
  "\<exists>eid'. et_station_attach (\<lambda>i s. (ET_ERROR, None, i)) 7 ''pc'' sample_open 1 = Some (ET_OK, Some 0, eid')"
  by (simp add: et_station_attach_def local_guard_def Let_def stat_ix_def numeral_3_eq_3 sample_station_def sample_config_def
      et_init_station_def)

section \<open>Properties\<close>

text \<open>
  C4. After every sequence of calls by local processes that create stations under other names than
  GRAND_CENTRAL, remove stations in use, attach, give up attachments in use, move serial stations in
  front of others or change the configuration of stations, and of work that only moves events, the stations in use are exactly
  those linked in the chain, with distinct names and the right count, and the attachments in use, the
  counters of the system and of the stations, the stations' tables of attachments and the active or
  idle status of the stations agree. Moves of parallel stations or to the end, a second detach of the
  same attachment and the removal of an unused station are not among these calls.
\<close>

theorem sessions_keep_tables:
  assumes "session\<^sup>*\<^sup>* eid eid'" "tables eid gs"
  shows "\<exists>gs'. station_table eid' gs' \<and> att_table eid' (set (0 # concat gs'))"
  using sessions_tables [OF assms] unfolding tables_def by blast

theorem sessions_keep_tables_witness:
  "\<exists>eid'. et_station_attach (\<lambda>i s. (ET_ERROR, None, i)) 7 ''pc'' sample_open 1 = Some (ET_OK, Some 0, eid') \<and>
     (\<exists>gs'. station_table eid' gs' \<and> att_table eid' (set (0 # concat gs')))"
proof -
  obtain eid' where a: "et_station_attach (\<lambda>i s. (ET_ERROR, None, i)) 7 ''pc'' sample_open 1 = Some (ET_OK, Some 0, eid')"
    using sample_attach_ok by blast
  have "session\<^sup>*\<^sup>* sample_open eid'" using session.attach [OF a] by blast
  with a sessions_keep_tables [OF this sample_open_tables] show ?thesis by blast
qed

text \<open>
  C35. After every sequence of the same calls, without moves of parallel stations or to the end, second
  detaches and removals of unused stations, the system's station counter is the number of slots in use, its attachment
  counter is the sum of the stations' counters, and neither exceeds its configured maximum.
\<close>

theorem sessions_counters:
  assumes "session\<^sup>*\<^sup>* eid eid'" "tables eid gs"
  shows "sy_nstations (id_sys eid') =
       int (length (filter (\<lambda>ps. sd_status (st_data ps) \<noteq> ET_STATION_UNUSED) (id_stats eid'))) \<and>
     sy_nstations (id_sys eid') \<le> nstations_max eid' \<and>
     sy_nattachments (id_sys eid') = (\<Sum>ps \<leftarrow> id_stats eid'. sd_nattachments (st_data ps)) \<and>
     0 \<le> sy_nattachments (id_sys eid') \<and>
     sy_nattachments (id_sys eid') \<le> sc_nattachments (sy_config (id_sys eid'))"
proof -
  obtain gs' where t: "tables eid' gs'" using sessions_tables [OF assms] by blast
  note d = tablesD [OF t]
  have "card (live eid') \<le> card {..<nat (sc_nattachments (sy_config (id_sys eid')))}"
    using att_tableD(1) [OF d(3)] by (intro card_mono) auto
  then have "sy_nattachments (id_sys eid') \<le> sc_nattachments (sy_config (id_sys eid'))" "0 \<le> sy_nattachments (id_sys eid')"
    using att_tableD(1,5) [OF d(3)] by (simp_all add: nat_le_iff int_ops le_nat_iff)
  moreover have "length (filter (\<lambda>ps. sd_status (st_data ps) \<noteq> ET_STATION_UNUSED) (id_stats eid')) \<le> length (id_stats eid')"
    by (rule length_filter_le)
  ultimately show ?thesis using station_table_count [OF d(2)] att_table_count [OF d(3)] station_tableD(2) [OF d(2)] by linarith
qed

theorem sessions_counters_witness:
  "\<exists>eid'. et_station_attach (\<lambda>i s. (ET_ERROR, None, i)) 7 ''pc'' sample_open 1 = Some (ET_OK, Some 0, eid') \<and>
     sy_nattachments (id_sys eid') = (\<Sum>ps \<leftarrow> id_stats eid'. sd_nattachments (st_data ps)) \<and>
     sy_nattachments (id_sys eid') \<le> sc_nattachments (sy_config (id_sys eid'))"
proof -
  obtain eid' where a: "et_station_attach (\<lambda>i s. (ET_ERROR, None, i)) 7 ''pc'' sample_open 1 = Some (ET_OK, Some 0, eid')"
    using sample_attach_ok by blast
  have "session\<^sup>*\<^sup>* sample_open eid'" using session.attach [OF a] by blast
  with a sessions_counters [OF this sample_open_tables] show ?thesis by blast
qed

text \<open>
  C19. \<open>et_station_attach\<close> by a local user either refuses and changes nothing, or takes an unused
  attachment number, adds it to the attachments in use and to those of the station, and keeps the
  tables; a station limited to \<open>user_mode\<close> users never gets more.
\<close>

theorem station_attach_adds:
  assumes "tables eid gs" "et_station_attach etr pid host eid sid = Some (r, ao, eid')"
  shows "(r \<noteq> ET_OK \<and> ao = None \<and> eid' = eid) \<or>
    (\<exists>s a. sid = int s \<and> s \<in> set (0 # concat gs) \<and> r = ET_OK \<and> ao = Some a \<and> a < length (sy_attach (id_sys eid)) \<and> a \<notin> live eid \<and>
       live eid' = insert a (live eid) \<and> atts_of eid' s = insert a (atts_of eid s) \<and>
       (cf_user_mode (st_config (id_stats eid ! s)) > 0 \<longrightarrow> int (card (atts_of eid' s)) \<le> cf_user_mode (st_config (id_stats eid ! s))) \<and>
       tables eid' gs)"
  by (rule attach_cases [OF assms])

theorem station_attach_adds_witness:
  "\<exists>eid'. et_station_attach (\<lambda>i s. (ET_ERROR, None, i)) 7 ''pc'' sample_open 1 = Some (ET_OK, Some 0, eid') \<and>
     live eid' = {0} \<and> atts_of eid' 1 = {0}"
proof -
  obtain eid' where a: "et_station_attach (\<lambda>i s. (ET_ERROR, None, i)) 7 ''pc'' sample_open 1 = Some (ET_OK, Some 0, eid')"
    using sample_attach_ok by blast
  note l = sample_open_live
  from station_attach_adds [OF sample_open_tables a] obtain s where "1 = int s" "live eid' = insert 0 (live sample_open)"
    "atts_of eid' s = insert 0 (atts_of sample_open s)" by auto
  then have "live eid' = {0} \<and> atts_of eid' 1 = {0}" using l by auto
  with a show ?thesis by blast
qed


text \<open>
  C17. \<open>et_station_create_at\<close> with a new name and an accepted configuration, while a slot is free,
  takes a free slot, stores the checked configuration and the name there and links the station into
  the chain at the place \<open>insert_group\<close> names; if the station does not fit the parallel group at
  that place the call is refused and the stations are as before.
\<close>

theorem station_create_at_refines:
  assumes "tables eid gs" "id_alive eid" "\<not> id_closed eid" "length name \<le> ET_STATNAME_LENGTH - 1" "name \<noteq> ''GRAND_CENTRAL''"
    "p = ET_END \<or> 0 < p" "pp = ET_END \<or> pp = ET_NEWHEAD \<or> 0 \<le> pp" "cf_init sc = ET_STRUCT_OK"
    "et_station_config_check (id_sys eid) sc = (ET_OK, sc1)" "sy_nstations (id_sys eid) < nstations_max eid"
    "\<forall>i \<in> set (0 # concat gs). st_name (id_stats eid ! i) \<noteq> name"
    "cf_select_mode sc1 = ET_STATION_SELECT_USER \<longrightarrow> loads (cf_lib sc1) (cf_fname sc1)"
  shows "\<exists>s r sid eid'. et_station_create_at etr loads pid eid (Some name) (Some sc) p pp = Some (r, sid, eid') \<and>
     s < length (id_stats eid) \<and> s \<notin> set (0 # concat gs) \<and>
     (case insert_group (with_config (id_stats eid) s sc1) gs s p pp of
        None \<Rightarrow> r = ET_ERROR \<and> station_table eid' gs
      | Some gs' \<Rightarrow> r = ET_OK \<and> sid = Some s \<and> station_table eid' gs' \<and> st_config (id_stats eid' ! s) = sc1 \<and>
          st_name (id_stats eid' ! s) = name)"
proof -
  note d = tablesD [OF assms(1)]
  note T = station_tableD [OF d(2)]
  have "find_name (id_stats eid) name 0 = None"
    unfolding find_name_None
  proof
    fix ps assume "ps \<in> set (id_stats eid)"
    then obtain i where "i < length (id_stats eid)" "ps = id_stats eid ! i" by (auto simp: in_set_conv_nth)
    then show "sd_status (st_data ps) = ET_STATION_UNUSED \<or> st_name ps \<noteq> name"
      using T(5) [of i] assms(11) by (cases "i \<in> set (0 # concat gs)") (simp_all del: list.set)
  qed
  moreover have "\<not> sy_nstations (id_sys eid) \<ge> nstations_max eid" using assms(10) by simp
  ultimately have "\<exists>s r sid eid'. station_create_local loads pid eid name sc1 p pp = Some (r, sid, eid') \<and>
     s < length (id_stats eid) \<and> s \<notin> set (0 # concat gs) \<and> created eid s eid' \<and>
     (if cf_select_mode sc1 = ET_STATION_SELECT_USER \<and> \<not> loads (cf_lib sc1) (cf_fname sc1) then r = ET_ERROR \<and> station_table eid' gs
      else case insert_group (with_config (id_stats eid) s sc1) gs s p pp of
             None \<Rightarrow> r = ET_ERROR \<and> station_table eid' gs
           | Some gs' \<Rightarrow> r = ET_OK \<and> sid = Some s \<and> station_table eid' gs' \<and> st_config (id_stats eid' ! s) = sc1 \<and>
               st_name (id_stats eid' ! s) = name)"
    by (rule create_local_new [OF d(2) assms(2,5)])
  then obtain s r sid eid' where
    c: "station_create_local loads pid eid name sc1 p pp = Some (r, sid, eid')" "s < length (id_stats eid)" "s \<notin> set (0 # concat gs)"
      "if cf_select_mode sc1 = ET_STATION_SELECT_USER \<and> \<not> loads (cf_lib sc1) (cf_fname sc1) then r = ET_ERROR \<and> station_table eid' gs
       else case insert_group (with_config (id_stats eid) s sc1) gs s p pp of
              None \<Rightarrow> r = ET_ERROR \<and> station_table eid' gs
            | Some gs' \<Rightarrow> r = ET_OK \<and> sid = Some s \<and> station_table eid' gs' \<and> st_config (id_stats eid' ! s) = sc1 \<and>
                st_name (id_stats eid' ! s) = name"
    by blast
  have "et_station_create_at etr loads pid eid (Some name) (Some sc) p pp = Some (r, sid, eid')"
  proof -
    have "\<not> (p \<noteq> ET_END \<and> p < 0)" "p \<noteq> 0" "\<not> (pp \<noteq> ET_END \<and> pp \<noteq> ET_NEWHEAD \<and> pp < 0)" "\<not> length name > ET_STATNAME_LENGTH - 1"
      using assms(4,6,7) by linarith+
    then show ?thesis
      using c(1) by (simp only: et_station_create_at_def Let_def option.case assms(2,3,5,8,9) d(1) prod.case simp_thms if_False if_True) simp
  qed
  moreover have "\<not> (cf_select_mode sc1 = ET_STATION_SELECT_USER \<and> \<not> loads (cf_lib sc1) (cf_fname sc1))" using assms(12) by blast
  ultimately show ?thesis using c(2-4) by auto
qed

lemma sample_insert: "insert_group (with_config (id_stats sample_open) s c) [[1]] s ET_END ET_END = Some [[1], [s]]"
  by (simp add: insert_group_def)

theorem station_create_at_refines_witness:
  "\<exists>s eid'. et_station_create_at (\<lambda>i n c p pp. (ET_ERROR, None, i)) (\<lambda>l f. False) 7 sample_open (Some ''B'') (Some sample_config)
       ET_END ET_END = Some (ET_OK, Some s, eid') \<and> station_table eid' [[1], [s]] \<and> st_name (id_stats eid' ! s) = ''B''"
proof -
  have "et_station_config_check (id_sys sample_open) sample_config = (ET_OK, sample_config)"
    by (simp add: et_station_config_check_def sample_open_def sample_id_def sample_config_def upd_stat_def Let_def)
  from station_create_at_refines [OF sample_open_tables _ _ _ _ _ _ _ this, of "''B''" ET_END ET_END "\<lambda>l f. False" _ 7]
  show ?thesis unfolding sample_insert by (simp add: sample_config_def) blast
qed

text \<open>
  C18. \<open>et_station_remove\<close> by a local user of a station in use other than GrandCentral: with
  attachments it is refused; without, the station leaves the chain, its slot is free and the tables
  are right, whatever events its conductor still moves meanwhile.
\<close>

theorem station_remove_refines_tables:
  assumes "tables eid gs" "id_alive eid" "\<not> id_closed eid" "s \<in> set (concat gs)" "\<forall>e. events_only e (works e)"
  shows "if atts_of eid s \<noteq> {} then et_station_remove etr works eid (int s) = Some (ET_ERROR, eid)
     else \<exists>eid' gs'. et_station_remove etr works eid (int s) = Some (ET_OK, eid') \<and>
       mset (concat gs) = add_mset s (mset (concat gs')) \<and> tables eid' gs' \<and>
       sd_status (st_data (id_stats eid' ! s)) = ET_STATION_UNUSED"
proof -
  note d = tablesD [OF assms(1)] and T = station_tableD [OF tablesD(2) [OF assms(1)]]
  have "distinct (0 # concat gs)" using T(1) by (simp add: chain_ok_def)
  then have s0: "s \<noteq> 0" using assms(4) by (metis distinct.simps(2))
  have sl: "s < length (id_stats eid)" using T(7) [of s] assms(4) by simp
  have nm: "int s < nstations_max eid" using sl T(2) by simp
  note c = att_tableD(6) [OF d(3) sl]
  have k: "killed = (\<lambda>ps. set_status ET_STATION_UNUSED (ps\<lparr>st_conductor := ET_THREAD_KILL\<rparr>))" by (simp add: fun_eq_iff killed_def)
  show ?thesis
  proof (cases "atts_of eid s = {}")
    case False
    then have "0 < card (atts_of eid s)" by (simp add: card_gt_0_iff)
    then show ?thesis using False c assms(2,3) d(1) s0 sl nm by (simp add: et_station_remove_def local_guard_def)
  next
    case True
    from remove_works [OF assms(1,4) True, of works] assms(5) obtain ch gs' where
      r: "station_remove (chain_of eid) s = Some ch" "mset (concat gs) = add_mset s (mset (concat gs'))"
        "tables (add_nstations (-1) (upd_stat (works (set_chain eid ch)) s killed)) gs'" by blast
    have "et_station_remove etr works eid (int s) = Some (ET_OK, add_nstations (-1) (upd_stat (works (set_chain eid ch)) s killed))"
      using r(1) True c assms(2,3) d(1) s0 sl nm by (simp add: et_station_remove_def local_guard_def k)
    moreover have "s \<notin> set (0 # concat gs')"
      using \<open>distinct (0 # concat gs)\<close> r(2) s0 by (metis distinct.simps(2) list.set_intros(2) mset.simps(2) mset_eq_imp_distinct_iff set_ConsD)
    moreover have "s < length (id_stats (add_nstations (-1) (upd_stat (works (set_chain eid ch)) s killed)))"
      using events_only_stat(1) [OF assms(5) [rule_format, of "set_chain eid ch"]] map_nolinks_nth(1) [OF station_remove_nolinks [OF r(1)]] sl
      by (simp add: chain_of_def)
    ultimately show ?thesis using True r(2,3) station_tableD(5) [OF tablesD(2) [OF r(3)]] by fastforce
  qed
qed

theorem station_remove_refines_tables_witness:
  "\<exists>eid'. et_station_remove (\<lambda>i s. (ET_ERROR, i)) (\<lambda>e. e) sample_open 1 = Some (ET_OK, eid') \<and>
     sd_status (st_data (id_stats eid' ! 1)) = ET_STATION_UNUSED"
  using station_remove_refines_tables [OF sample_open_tables, of 1 "\<lambda>e. e" "\<lambda>i s. (ET_ERROR, i)"] by (auto simp: sample_open_live)


end
