(* ===== verification/ET_Recovery.thy ===== *)
theory ET_Recovery
  imports ET_Attachments
begin

text \<open>
  What the restoring routines of theory \<open>ET_Restore\<close> achieve: \<open>et_restore\<close> refines insertion in front
  of the events of the same priority, and \<open>et_restore_events\<close> returns every event an attachment owns
  to the list the station's restore mode names.
\<close>

section \<open>One list\<close>

lemma restore_num_all: "l_cnt pl + int n \<le> nev \<Longrightarrow> restore_num nev pl (int n) = int n"
  by (simp add: restore_num_def)

lemma link_only_after:
  assumes "set es \<subseteq> S" "next_only S (set_owners ev es a) ev'"
  shows "link_only S ev ev'" "ev_owner (ev' i) = (if i \<in> set es then a else ev_owner (ev i))"
  using link_only_trans [OF link_only_set_owners [OF assms(1)] link_only_next_only [OF assms(2)]] next_onlyD(3) [OF assms(2)]
  by simp_all

lemma is_high_set_owners [simp]: "is_high (set_owners ev es a) = is_high ev"
  by (simp add: is_high_def fun_eq_iff)

lemma pri_ok_set_owners [simp]: "pri_ok (set_owners ev es a) xs = pri_ok ev xs"
  by (simp add: pri_ok_def)

lemma list_ok_set_owners [simp]: "list_ok (set_owners ev es a) pl xs = list_ok ev pl xs"
  by (simp add: list_ok_def)

lemma hi_first_set_owners [simp]: "hi_first (set_owners ev es a) = hi_first ev"
  by (rule hi_first_is_high_cong) simp

lemma pri_append_set_owners [simp]: "pri_append (set_owners ev es a) = pri_append ev"
  by (rule pri_append_cong) simp

lemma et_restore_ok:
  assumes ok: "list_ok ev pl xs" "hi_first ev xs" "\<not> l_mutex pl" and es: "hi_first ev es" "pri_ok ev es" "es \<noteq> []"
    and dist: "distinct (xs @ es)" and room: "int (length (xs @ es)) \<le> nev"
  defines "R \<equiv> pri_append ev es xs"
  shows "\<exists>ev'. et_restore nev ev pl es (int (length es)) = Some (ET_OK, Some (int (length es)), ev',
       pl\<lparr>l_firstevent := Some (hd R), l_lastevent := Some (last R), l_cnt := int (length R)\<rparr>) \<and>
     linked ev' R \<and> link_only (set (xs @ es)) ev ev' \<and>
     (\<forall>i. ev_owner (ev' i) = (if i \<in> set es then ET_SYS else ev_owner (ev i)))"
proof -
  have cnt: "l_cnt pl = int (length xs)" by (rule list_okD(1) [OF ok(1)])
  let ?ev1 = "set_owners ev es ET_SYS" and ?pl1 = "pl\<lparr>l_mutex := True\<rparr>"
  have "list_ok ?ev1 ?pl1 xs" "hi_first ?ev1 xs" "hi_first ?ev1 es" "pri_ok ?ev1 es" using ok es by simp_all
  from restore_insert_ok [OF this es(3) dist] obtain ev' where
    i: "restore_insert ?ev1 ?pl1 es = Some (ev', ?pl1\<lparr>l_firstevent := Some (hd R), l_lastevent := Some (last R)\<rparr>)"
      "linked ev' R" "next_only (set (xs @ es)) ?ev1 ev'" unfolding R_def by auto
  have "0 < length es" using es(3) by simp
  then have "int (length xs) < nev" using room by (simp del: length_greater_0_conv)
  then have "et_restore nev ev pl es (int (length es)) = Some (ET_OK, Some (int (length es)), ev',
       pl\<lparr>l_firstevent := Some (hd R), l_lastevent := Some (last R), l_cnt := int (length R)\<rparr>)"
    using ok(3) cnt room es(3) i(1)
    by (simp add: et_restore_def et_llist_lock_def et_llist_unlock_def Let_def restore_num_all R_def)
  then show ?thesis using i(2) link_only_after [OF _ i(3)] by simp
qed

section \<open>The lists of a station and GrandCentral\<close>

text \<open>
  \<open>holds eid s ys zs xs\<close>: GrandCentral's input list holds \<open>ys\<close>, the input list of station \<open>s\<close> holds
  \<open>zs\<close> and its output list \<open>xs\<close>, in good order and unlocked.
\<close>

definition holds :: "et_id \<Rightarrow> nat \<Rightarrow> nat list \<Rightarrow> nat list \<Rightarrow> nat list \<Rightarrow> bool" where
  "holds eid s ys zs xs \<longleftrightarrow> 0 < s \<and> s < length (id_stats eid) \<and> distinct (ys @ zs @ xs) \<and>
     list_ok (id_events eid) (st_list_in (id_stats eid ! 0)) ys \<and> \<not> l_mutex (st_list_in (id_stats eid ! 0)) \<and>
     list_ok (id_events eid) (st_list_in (id_stats eid ! s)) zs \<and> hi_first (id_events eid) zs \<and>
     \<not> l_mutex (st_list_in (id_stats eid ! s)) \<and>
     out_ok (id_events eid) (st_list_out (id_stats eid ! s)) xs \<and> \<not> l_mutex (st_list_out (id_stats eid ! s))"

lemma holdsD:
  assumes "holds eid s ys zs xs"
  shows "0 < s" "s < length (id_stats eid)" "distinct (ys @ zs @ xs)"
    "list_ok (id_events eid) (st_list_in (id_stats eid ! 0)) ys" "\<not> l_mutex (st_list_in (id_stats eid ! 0))"
    "list_ok (id_events eid) (st_list_in (id_stats eid ! s)) zs" "hi_first (id_events eid) zs"
    "\<not> l_mutex (st_list_in (id_stats eid ! s))"
    "out_ok (id_events eid) (st_list_out (id_stats eid ! s)) xs" "\<not> l_mutex (st_list_out (id_stats eid ! s))"
  using assms by (simp_all add: holds_def)

text \<open>Only links, owners and the data status of events differ.\<close>

definition data_kept :: "evheap \<Rightarrow> evheap \<Rightarrow> bool" where
  "data_kept ev ev' \<longleftrightarrow> (\<forall>i. ev_priority (ev' i) = ev_priority (ev i) \<and> ev_age (ev' i) = ev_age (ev i))"

lemma data_kept_refl [simp]: "data_kept ev ev"
  by (simp add: data_kept_def)

lemma data_kept_trans: "data_kept a b \<Longrightarrow> data_kept b c \<Longrightarrow> data_kept a c"
  by (simp add: data_kept_def)

lemma data_kept_is_high: "data_kept ev ev' \<Longrightarrow> is_high ev' = is_high ev"
  by (simp add: data_kept_def is_high_def fun_eq_iff)

lemma data_kept_link_only: "link_only S ev ev' \<Longrightarrow> data_kept ev ev'"
proof -
  assume "link_only S ev ev'"
  then have eq: "(ev' i)\<lparr>ev_next := None, ev_owner := 0\<rparr> = (ev i)\<lparr>ev_next := None, ev_owner := 0\<rparr>" for i
    by (simp add: link_only_def)
  show ?thesis using arg_cong [OF eq, of ev_priority] arg_cong [OF eq, of ev_age] by (simp add: data_kept_def)
qed

lemma data_kept_set_owners [simp]: "data_kept ev (set_owners ev es a)"
  by (rule data_kept_link_only [OF link_only_set_owners [OF subset_refl]])

lemma mark_corrupt_fields [simp]:
  "ev_next (mark_corrupt ev es i) = ev_next (ev i)" "ev_owner (mark_corrupt ev es i) = ev_owner (ev i)"
  "ev_priority (mark_corrupt ev es i) = ev_priority (ev i)" "ev_age (mark_corrupt ev es i) = ev_age (ev i)"
  "ev_datastatus (mark_corrupt ev es i) = (if i \<in> set es then ET_DATA_POSSIBLY_CORRUPT else ev_datastatus (ev i))"
  by (induction es arbitrary: ev) auto

lemma data_kept_mark_corrupt [simp]: "data_kept ev (mark_corrupt ev es)"
  by (simp add: data_kept_def)

lemma holds_links:
  assumes "\<And>i. ev_next (ev' i) = ev_next (id_events eid i)" "data_kept (id_events eid) ev'"
  shows "holds (eid\<lparr>id_events := ev'\<rparr>) s ys zs xs = holds eid s ys zs xs"
proof -
  have "linked ev' us = linked (id_events eid) us" for us by (rule linked_cong) (rule assms(1))
  then have "list_ok ev' pl us = list_ok (id_events eid) pl us" for pl us by (simp add: list_ok_def)
  moreover have ih: "is_high ev' = is_high (id_events eid)" by (rule data_kept_is_high [OF assms(2)])
  moreover have "hi_first ev' = hi_first (id_events eid)" by (rule hi_first_is_high_cong [OF ih])
  ultimately show ?thesis by (simp add: holds_def out_ok_def)
qed

text \<open>One operation: the result, the lists, the owners of the events and what stays.\<close>

definition hands_back :: "et_id \<Rightarrow> et_id \<Rightarrow> nat list \<Rightarrow> bool" where
  "hands_back eid eid' es \<longleftrightarrow> events_only eid eid' \<and> data_kept (id_events eid) (id_events eid') \<and>
     (\<forall>e. ev_owner (id_events eid' e) = (if e \<in> set es then ET_SYS else ev_owner (id_events eid e))) \<and>
     (\<forall>e. ev_datastatus (id_events eid' e) = ev_datastatus (id_events eid e))"

lemma link_only_datastatus:
  assumes "link_only S ev ev'"
  shows "ev_datastatus (ev' i) = ev_datastatus (ev i)"
proof -
  from assms have eq: "(ev' i)\<lparr>ev_next := None, ev_owner := 0\<rparr> = (ev i)\<lparr>ev_next := None, ev_owner := 0\<rparr>"
    by (simp add: link_only_def)
  show ?thesis using arg_cong [OF eq, of ev_datastatus] by simp
qed

lemma dump_holds:
  assumes h: "holds eid s ys zs xs" and es: "es \<noteq> []" "distinct (ys @ zs @ xs @ es)" "int (length (ys @ es)) \<le> nevents_max eid"
  shows "\<exists>eid'. et_station_ndump eid es (int (length es)) = Some (ET_OK, eid') \<and> holds eid' s (ys @ es) zs xs \<and>
     hands_back eid eid' es"
proof -
  note d = holdsD [OF h]
  have "distinct (ys @ es)" using es(2) by auto
  from station_ndump_core_ok [OF d(4,5) es(1) this es(3)] obtain ev' where
    n: "station_ndump_core (nevents_max eid) es (int (length es)) (id_events eid) (id_stats eid ! 0) =
       Some (ET_OK, ev', (fix_in_dump_done (id_stats eid ! 0) (int (length ys)) (int (length es)))
         \<lparr>st_list_in := put_tail (st_list_in (id_stats eid ! 0)) (ys @ es)\<rparr>)" "linked ev' (ys @ es)"
      "link_only (set ys \<union> set es) (id_events eid) ev'"
      "\<forall>i. ev_owner (ev' i) = (if i \<in> set es then ET_SYS else ev_owner (id_events eid i))" by blast
  let ?ps = "(fix_in_dump_done (id_stats eid ! 0) (int (length ys)) (int (length es)))
         \<lparr>st_list_in := put_tail (st_list_in (id_stats eid ! 0)) (ys @ es)\<rparr>"
  let ?e = "eid\<lparr>id_stats := (id_stats eid)[0 := ?ps], id_events := ev'\<rparr>"
  have len: "0 < length (id_stats eid)" using d(2) by linarith
  have run: "et_station_ndump eid es (int (length es)) = Some (ET_OK, ?e)"
    using n(1) es(1) len by (simp add: et_station_ndump_def on_station_def)
  have "set zs \<inter> (set ys \<union> set es) = {}" "set xs \<inter> (set ys \<union> set es) = {}" using es(2) by auto
  note keep = list_ok_link_only [OF n(3) this(1)] out_ok_link_only [OF n(3) this(2)]
  have "hi_first ev' = hi_first (id_events eid)" using hi_first_is_high_cong [OF link_only_is_high [OF n(3)]] .
  then have "holds ?e s (ys @ es) zs xs"
    using d es(2) keep len n(2) by (auto simp: holds_def list_ok_def)
  moreover have "hands_back eid ?e es"
    using et_station_ndump_events_only [OF run] data_kept_link_only [OF n(3)] n(4) link_only_datastatus [OF n(3)]
    by (simp add: hands_back_def)
  ultimately show ?thesis using run by blast
qed

lemma write_holds:
  assumes h: "holds eid s ys zs xs" and es: "es \<noteq> []" "distinct (ys @ zs @ xs @ es)" "pri_ok (id_events eid) es"
    "int (length (xs @ es)) \<le> nevents_max eid"
  shows "\<exists>eid'. et_station_nwrite eid s es (int (length es)) = Some (ET_OK, eid') \<and>
     holds eid' s ys zs (pri_append (id_events eid) xs es) \<and> hands_back eid eid' es"
proof -
  note d = holdsD [OF h]
  let ?R = "pri_append (id_events eid) xs es"
  have "distinct (xs @ es)" using es(2) by auto
  from station_nwrite_core_ok [OF d(9,10) es(1) this es(3,4)] obtain ev' where
    n: "station_nwrite_core (nevents_max eid) es (int (length es)) (id_events eid) (id_stats eid ! s) =
       Some (ET_OK, ev', (fix_out_done (id_stats eid ! s) (int (length xs)) (int (length es)))
         \<lparr>st_list_out := put_list (id_events eid) (st_list_out (id_stats eid ! s)) ?R\<rparr>)" "linked ev' ?R"
      "link_only (set xs \<union> set es) (id_events eid) ev'"
      "\<forall>i. ev_owner (ev' i) = (if i \<in> set es then ET_SYS else ev_owner (id_events eid i))" by blast
  let ?ps = "(fix_out_done (id_stats eid ! s) (int (length xs)) (int (length es)))
         \<lparr>st_list_out := put_list (id_events eid) (st_list_out (id_stats eid ! s)) ?R\<rparr>"
  let ?e = "eid\<lparr>id_stats := (id_stats eid)[s := ?ps], id_events := ev'\<rparr>"
  have run: "et_station_nwrite eid s es (int (length es)) = Some (ET_OK, ?e)"
    using n(1) es(1) d(2) by (simp add: et_station_nwrite_def on_station_def)
  have "set zs \<inter> (set xs \<union> set es) = {}" "set ys \<inter> (set xs \<union> set es) = {}" using es(2) by auto
  note keep = list_ok_link_only [OF n(3) this(1)] list_ok_link_only [OF n(3) this(2)]
  have hf: "hi_first ev' = hi_first (id_events eid)" using hi_first_is_high_cong [OF link_only_is_high [OF n(3)]] .
  have dR: "distinct ?R" using \<open>distinct (xs @ es)\<close> distinct_pri_append by blast
  have "out_ok ev' (put_list (id_events eid) (st_list_out (id_stats eid ! s)) ?R) ?R"
    using out_ok_put_list_link [OF n(3) dR n(2)] hi_first_pri_append by blast
  then have "holds ?e s ys zs ?R"
    using d es(2) keep hf dR by (auto simp: holds_def)
  moreover have "hands_back eid ?e es"
    using et_station_nwrite_events_only [OF run] data_kept_link_only [OF n(3)] n(4) link_only_datastatus [OF n(3)]
    by (simp add: hands_back_def)
  ultimately show ?thesis using run by blast
qed

lemma restore_in_holds:
  assumes h: "holds eid s ys zs xs" and es: "es \<noteq> []" "distinct (ys @ zs @ xs @ es)" "pri_ok (id_events eid) es"
    "hi_first (id_events eid) es" "int (length (zs @ es)) \<le> nevents_max eid"
  shows "\<exists>ev' pl'. et_restore (nevents_max eid) (id_events eid) (st_list_in (id_stats eid ! s)) es (int (length es)) =
       Some (ET_OK, Some (int (length es)), ev', pl') \<and>
     holds ((upd_stat eid s (\<lambda>ps. ps\<lparr>st_list_in := pl'\<rparr>))\<lparr>id_events := ev'\<rparr>) s ys (pri_append (id_events eid) es zs) xs \<and>
     hands_back eid ((upd_stat eid s (\<lambda>ps. ps\<lparr>st_list_in := pl'\<rparr>))\<lparr>id_events := ev'\<rparr>) es"
proof -
  note d = holdsD [OF h]
  let ?R = "pri_append (id_events eid) es zs"
  let ?pl = "(st_list_in (id_stats eid ! s))\<lparr>l_firstevent := Some (hd ?R), l_lastevent := Some (last ?R), l_cnt := int (length ?R)\<rparr>"
  have dz: "distinct (zs @ es)" using es(2) by auto
  from et_restore_ok [OF d(6-8) es(4,3,1) dz es(5)] obtain ev' where
    n: "et_restore (nevents_max eid) (id_events eid) (st_list_in (id_stats eid ! s)) es (int (length es)) =
       Some (ET_OK, Some (int (length es)), ev', ?pl)" "linked ev' ?R" "link_only (set (zs @ es)) (id_events eid) ev'"
      "\<forall>i. ev_owner (ev' i) = (if i \<in> set es then ET_SYS else ev_owner (id_events eid i))" by blast
  let ?e = "(upd_stat eid s (\<lambda>ps. ps\<lparr>st_list_in := ?pl\<rparr>))\<lparr>id_events := ev'\<rparr>"
  have "set ys \<inter> set (zs @ es) = {}" "set xs \<inter> set (zs @ es) = {}" using es(2) by auto
  note keep = list_ok_link_only [OF n(3) this(1)] out_ok_link_only [OF n(3) this(2)]
  have hf: "hi_first ev' = hi_first (id_events eid)" using hi_first_is_high_cong [OF link_only_is_high [OF n(3)]] .
  have dR: "distinct ?R" using dz distinct_pri_append [of "id_events eid" es zs] by auto
  have "list_ok ev' ?pl ?R" using n(2) dR by (simp add: list_ok_def)
  moreover have "distinct (ys @ ?R @ xs)" using es(2) dR by auto
  ultimately have "holds ?e s ys ?R xs"
    using d keep hf hi_first_pri_append by (auto simp: holds_def)
  moreover have "events_only eid ?e" by simp (rule events_only_upd_stat, simp)
  then have "hands_back eid ?e es"
    using data_kept_link_only [OF n(3)] n(4) link_only_datastatus [OF n(3)] by (simp add: hands_back_def)
  ultimately show ?thesis using n(1) by blast
qed

section \<open>All the events of an attachment\<close>

lemma owned_by_set: "set (owned_by eid att) = {e. int e < nevents_max eid \<and> ev_owner (id_events eid e) = att}"
  by (auto simp: owned_by_def)

lemma distinct_owned_by [simp]: "distinct (owned_by eid att)"
  by (simp add: owned_by_def)

lemma high_before_low_eq: "high_before_low ev es = pri_append ev [] es"
  by (simp add: high_before_low_def pri_append_def is_high_def [abs_def])

lemma high_before_low_facts:
  "set (high_before_low ev es) = set es" "length (high_before_low ev es) = length es"
  "distinct (high_before_low ev es) = distinct es" "hi_first ev (high_before_low ev es)"
  "high_before_low ev es = [] \<longleftrightarrow> es = []"
proof -
  show "length (high_before_low ev es) = length es" unfolding high_before_low_eq by simp
  then show "high_before_low ev es = [] \<longleftrightarrow> es = []" by (metis length_0_conv)
qed (simp_all add: high_before_low_eq distinct_pri_append hi_first_pri_append)

text \<open>
  \<open>restored mode n new used (ys, zs, xs)\<close>: the three lists after the events of an attachment are
  restored, for a station with restore mode \<open>mode\<close> and \<open>n\<close> attachments.
\<close>

definition restored ::
  "evheap \<Rightarrow> int \<Rightarrow> int \<Rightarrow> nat list \<Rightarrow> nat list \<Rightarrow> nat list \<times> nat list \<times> nat list \<Rightarrow> nat list \<times> nat list \<times> nat list" where
  "restored ev mode n new used held =
     (let (ys, zs, xs) = held; es = high_before_low ev used in
      if mode = ET_STATION_RESTORE_GC then (ys @ new @ es, zs, xs)
      else if mode = ET_STATION_RESTORE_OUT \<or> n = 0 then (ys @ new, zs, pri_append ev xs es)
      else (ys @ new, pri_append ev es zs, xs))"

lemma hands_back_empty: "hands_back eid eid []"
  by (simp add: hands_back_def)

lemma hands_backD:
  assumes "hands_back eid eid' es"
  shows "events_only eid eid'" "data_kept (id_events eid) (id_events eid')"
    "ev_owner (id_events eid' e) = (if e \<in> set es then ET_SYS else ev_owner (id_events eid e))"
    "ev_datastatus (id_events eid' e) = ev_datastatus (id_events eid e)"
  using assms by (simp_all add: hands_back_def)

lemma drop_temps_holds [simp]:
  "holds (drop_temps eid es) s ys zs xs = holds eid s ys zs xs" "nevents_max (drop_temps eid es) = nevents_max eid"
  "hands_back (drop_temps eid es) eid' fs = hands_back eid eid' fs" "id_stats (drop_temps eid es) = id_stats eid"
  "id_events (drop_temps eid es) = id_events eid"
  by (simp_all add: holds_def drop_temps_def nevents_max_def hands_back_def events_only_def)

text \<open>The used events, by mode.\<close>

lemma restore_used_ok:
  assumes h: "holds eid s ys zs xs" and es: "es \<noteq> []" "distinct (ys @ zs @ xs @ es)" "pri_ok (id_events eid) es"
    "hi_first (id_events eid) es" "int (length (ys @ zs @ xs @ es)) \<le> nevents_max eid"
    and mode: "mode = cf_restore_mode (st_config (id_stats eid ! s))"
      "mode = ET_STATION_RESTORE_GC \<or> mode = ET_STATION_RESTORE_OUT \<or> mode = ET_STATION_RESTORE_IN"
    and n: "n = sd_nattachments (st_data (id_stats eid ! s))"
  shows "\<exists>eid'. restore_used eid s es = Some (ET_OK, eid') \<and> events_only eid eid' \<and>
     (if mode = ET_STATION_RESTORE_GC then holds eid' s (ys @ es) zs xs
      else if mode = ET_STATION_RESTORE_OUT \<or> n = 0 then holds eid' s ys zs (pri_append (id_events eid) xs es)
      else holds eid' s ys (pri_append (id_events eid) es zs) xs) \<and>
     (\<forall>e. ev_owner (id_events eid' e) = (if e \<in> set es then ET_SYS else ev_owner (id_events eid e))) \<and>
     (\<forall>e. ev_datastatus (id_events eid' e) = (if e \<in> set es \<and> mode \<noteq> ET_STATION_RESTORE_GC then ET_DATA_POSSIBLY_CORRUPT
        else ev_datastatus (id_events eid e)))"
proof -
  have s0: "s \<noteq> 0" using holdsD(1) [OF h] by simp
  let ?m = "eid\<lparr>id_events := mark_corrupt (id_events eid) es\<rparr>"
  have hm: "holds ?m s ys zs xs" by (subst holds_links) (use h in simp_all)
  have me: "events_only eid ?m" by simp
  have ih: "is_high (mark_corrupt (id_events eid) es) = is_high (id_events eid)" by (rule data_kept_is_high) simp
  note pa = pri_append_cong [OF ih] and hf = hi_first_is_high_cong [OF ih]
  have pm: "pri_ok (id_events ?m) es" using es(3) by (simp add: pri_ok_def)
  have nm: "nevents_max ?m = nevents_max eid" by (simp add: nevents_max_def)
  consider (gc) "mode = ET_STATION_RESTORE_GC" | (out) "mode \<noteq> ET_STATION_RESTORE_GC" "mode = ET_STATION_RESTORE_OUT \<or> n = 0"
    | (inp) "mode = ET_STATION_RESTORE_IN" "n \<noteq> 0" using mode(2) by blast
  then show ?thesis
  proof cases
    case gc
    from dump_holds [of "drop_temps eid es" s ys zs xs es] h es(1,2,5) obtain eid' where
      r: "et_station_ndump (drop_temps eid es) es (int (length es)) = Some (ET_OK, eid')" "holds eid' s (ys @ es) zs xs"
        "hands_back eid eid' es" by auto
    have "restore_used eid s es = Some (ET_OK, eid')" using r(1) gc mode(1) by (simp add: restore_used_def Let_def)
    then show ?thesis using r(2,3) gc by (simp add: hands_back_def)
  next
    case out
    from write_holds [OF hm es(1,2) pm] es(5) nm obtain eid' where
      r: "et_station_nwrite ?m s es (int (length es)) = Some (ET_OK, eid')" "holds eid' s ys zs (pri_append (id_events eid) xs es)"
        "hands_back ?m eid' es" by (auto simp: pa)
    have "restore_used eid s es = Some (ET_OK, eid')" using r(1) out mode n s0 by (auto simp: restore_used_def Let_def)
    then show ?thesis using r(2,3) out events_only_trans [OF me] by (simp add: hands_back_def)
  next
    case inp
    from restore_in_holds [OF hm es(1,2) pm] es(4,5) nm obtain ev' pl' where
      r: "et_restore (nevents_max ?m) (id_events ?m) (st_list_in (id_stats ?m ! s)) es (int (length es)) =
           Some (ET_OK, Some (int (length es)), ev', pl')"
        "holds ((upd_stat ?m s (\<lambda>ps. ps\<lparr>st_list_in := pl'\<rparr>))\<lparr>id_events := ev'\<rparr>) s ys (pri_append (id_events eid) es zs) xs"
        "hands_back ?m ((upd_stat ?m s (\<lambda>ps. ps\<lparr>st_list_in := pl'\<rparr>))\<lparr>id_events := ev'\<rparr>) es"
      by (auto simp: pa hf)
    have "restore_used eid s es = Some (ET_OK, (upd_stat ?m s (\<lambda>ps. ps\<lparr>st_list_in := pl'\<rparr>))\<lparr>id_events := ev'\<rparr>)"
      using r(1) inp mode(1) n s0 by (simp add: restore_used_def Let_def nm)
    then show ?thesis using r(2,3) inp events_only_trans [OF me] unfolding hands_back_def by fastforce
  qed
qed

lemma restored_lists:
  assumes "holds eid' s (ys @ new) zs xs" "is_high ev' = is_high ev"
    and "if mode = ET_STATION_RESTORE_GC then holds eid s (ys @ new @ es) zs xs
      else if mode = ET_STATION_RESTORE_OUT \<or> n = 0 then holds eid s (ys @ new) zs (pri_append ev' xs es)
      else holds eid s (ys @ new) (pri_append ev' es zs) xs"
    and "es = high_before_low ev used"
  shows "case restored ev mode n new used (ys, zs, xs) of (ys', zs', xs') \<Rightarrow> holds eid s ys' zs' xs'"
  using assms(3,4) pri_append_cong [OF assms(2)] by (auto simp: restored_def Let_def)

lemma restore_events_all:
  assumes "holds eid s ys zs xs" "att \<noteq> ET_SYS"
    "used = filter (\<lambda>e. ev_age (id_events eid e) \<noteq> ET_EVENT_NEW) (owned_by eid att)"
    "new = filter (\<lambda>e. ev_age (id_events eid e) = ET_EVENT_NEW) (owned_by eid att)"
    "set (ys @ zs @ xs) \<inter> set (owned_by eid att) = {}" "pri_ok (id_events eid) (owned_by eid att)"
    "int (length (ys @ zs @ xs @ owned_by eid att)) \<le> nevents_max eid"
    "mode = cf_restore_mode (st_config (id_stats eid ! s))"
    "mode = ET_STATION_RESTORE_GC \<or> mode = ET_STATION_RESTORE_OUT \<or> mode = ET_STATION_RESTORE_IN"
  shows "\<exists>eid'. et_restore_events eid att s = Some (ET_OK, eid') \<and>
     (case restored (id_events eid) mode (sd_nattachments (st_data (id_stats eid ! s))) new used (ys, zs, xs) of
        (ys', zs', xs') \<Rightarrow> holds eid' s ys' zs' xs') \<and>
     owned_by eid' att = [] \<and>
     (\<forall>e. ev_owner (id_events eid' e) = (if e \<in> set (owned_by eid att) then ET_SYS else ev_owner (id_events eid e))) \<and>
     (\<forall>e. ev_datastatus (id_events eid' e) = (if e \<in> set used \<and> mode \<noteq> ET_STATION_RESTORE_GC then ET_DATA_POSSIBLY_CORRUPT
        else ev_datastatus (id_events eid e)))"
proof -
  let ?es = "owned_by eid att" and ?ev1 = "set_owners (id_events eid) used ET_SYS"
  let ?n = "sd_nattachments (st_data (id_stats eid ! s))"
  let ?o = "high_before_low (id_events eid) used"
  have un: "set used \<union> set new = set ?es" "set used \<inter> set new = {}" "distinct used" "distinct new"
    by (auto simp: assms(3,4))
  have len: "length used + length new = length ?es"
    using sum_length_filter_compl [of "\<lambda>e. ev_age (id_events eid e) = ET_EVENT_NEW" ?es] by (simp add: assms(3,4))
  have dist: "distinct (ys @ zs @ xs)" by (rule holdsD(3) [OF assms(1)])
  define eid1 where "eid1 = eid\<lparr>id_events := ?ev1\<rparr>"
  have h1: "holds eid1 s ys zs xs" unfolding eid1_def by (subst holds_links) (use assms(1) in simp_all)
  have e1: "events_only eid eid1" by (simp add: eid1_def)
  have n1: "nevents_max eid1 = nevents_max eid" by (simp add: eid1_def nevents_max_def)
  have o: "high_before_low ?ev1 used = ?o" by (simp add: high_before_low_eq)
  note hb = high_before_low_facts [of "id_events eid" used]
  have "\<exists>eid2. (if new = [] then Some (ET_OK, eid1) else et_station_ndump (drop_temps eid1 new) new (int (length new))) = Some (ET_OK, eid2) \<and>
     holds eid2 s (ys @ new) zs xs \<and> hands_back eid1 eid2 new"
  proof (cases "new = []")
    case True
    then show ?thesis using h1 by (simp add: hands_back_empty)
  next
    case False
    have "distinct (ys @ zs @ xs @ new)" using dist un assms(5) by auto
    moreover have "int (length (ys @ new)) \<le> nevents_max (drop_temps eid1 new)" using assms(7) len n1 by simp
    ultimately show ?thesis using dump_holds [of "drop_temps eid1 new" s ys zs xs new] h1 False by simp
  qed
  then obtain eid2 where 2: "(if new = [] then Some (ET_OK, eid1) else et_station_ndump (drop_temps eid1 new) new (int (length new))) = Some (ET_OK, eid2)"
    "holds eid2 s (ys @ new) zs xs" "hands_back eid1 eid2 new" by blast
  note b2 = hands_backD [OF 2(3)]
  have own2: "ev_owner (id_events eid2 e) = (if e \<in> set ?es then ET_SYS else ev_owner (id_events eid e))" for e
    using b2(3) [of e] un(1) by (auto simp: eid1_def)
  have dat2: "ev_datastatus (id_events eid2 e) = ev_datastatus (id_events eid e)" for e
    using b2(4) [of e] link_only_datastatus [OF link_only_set_owners [OF subset_refl], of "id_events eid" used ET_SYS e]
    by (simp add: eid1_def)
  have ih: "is_high (id_events eid2) = is_high (id_events eid)"
    using data_kept_is_high [OF b2(2)] by (simp add: eid1_def)
  have e2: "events_only eid eid2" by (rule events_only_trans [OF e1 b2(1)])
  note l2 = list_change_fields [OF events_only_stat(2) [OF e2 holdsD(2) [OF assms(1)]]]
  have n2: "nevents_max eid2 = nevents_max eid" using events_only_sys(3) [OF e2] by (simp add: nevents_max_def)
  have "\<exists>eid'. (if used = [] then Some (ET_OK, eid2) else restore_used eid2 s ?o) = Some (ET_OK, eid') \<and> events_only eid eid' \<and>
     (case restored (id_events eid) mode ?n new used (ys, zs, xs) of (ys', zs', xs') \<Rightarrow> holds eid' s ys' zs' xs') \<and>
     (\<forall>e. ev_owner (id_events eid' e) = ev_owner (id_events eid2 e)) \<and>
     (\<forall>e. ev_datastatus (id_events eid' e) = (if e \<in> set used \<and> mode \<noteq> ET_STATION_RESTORE_GC then ET_DATA_POSSIBLY_CORRUPT
        else ev_datastatus (id_events eid e)))"
  proof (cases "used = []")
    case True
    then have "?o = []" using hb(5) by simp
    moreover have "case restored (id_events eid) mode ?n new used (ys, zs, xs) of (ys', zs', xs') \<Rightarrow> holds eid2 s ys' zs' xs'"
      by (rule restored_lists [OF 2(2) ih, where es = ?o])
        (use 2(2) holdsD(7,9) [OF 2(2)] \<open>?o = []\<close> in \<open>auto simp: pri_append_def out_ok_def hi_first_iff\<close>)
    ultimately show ?thesis using True e2 dat2 by simp
  next
    case False
    have po: "pri_ok (id_events eid2) ?o" using assms(6) un(1) hb(1) b2(2)
      by (auto simp: pri_ok_def data_kept_def eid1_def)
    have ho: "hi_first (id_events eid2) ?o" using hb(4) hi_first_is_high_cong [OF ih] by simp
    have ne: "?o \<noteq> []" using False hb(5) by simp
    have ln: "int (length ((ys @ new) @ zs @ xs @ ?o)) \<le> nevents_max eid2" using hb(2) assms(7) len n2 by simp
    have "set new \<subseteq> set ?es" "set ?o \<subseteq> set ?es" "set ?o \<inter> set new = {}" "distinct ?o" "distinct new"
      using un hb(1,3) by auto
    then have di: "distinct ((ys @ new) @ zs @ xs @ ?o)" using dist assms(5) by (auto simp: disjoint_iff)
    note oo = ne di ln
    have "mode = cf_restore_mode (st_config (id_stats eid2 ! s))" "?n = sd_nattachments (st_data (id_stats eid2 ! s))"
      using assms(8) l2 by simp_all
    from restore_used_ok [OF 2(2) oo(1,2) po ho oo(3) this(1) assms(9) this(2)] obtain eid' where
      r: "restore_used eid2 s ?o = Some (ET_OK, eid')" "events_only eid2 eid'"
        "if mode = ET_STATION_RESTORE_GC then holds eid' s ((ys @ new) @ ?o) zs xs
         else if mode = ET_STATION_RESTORE_OUT \<or> ?n = 0 then holds eid' s (ys @ new) zs (pri_append (id_events eid2) xs ?o)
         else holds eid' s (ys @ new) (pri_append (id_events eid2) ?o zs) xs"
        "\<forall>e. ev_owner (id_events eid' e) = (if e \<in> set ?o then ET_SYS else ev_owner (id_events eid2 e))"
        "\<forall>e. ev_datastatus (id_events eid' e) = (if e \<in> set ?o \<and> mode \<noteq> ET_STATION_RESTORE_GC then ET_DATA_POSSIBLY_CORRUPT
           else ev_datastatus (id_events eid2 e))" by blast
    have "case restored (id_events eid) mode ?n new used (ys, zs, xs) of (ys', zs', xs') \<Rightarrow> holds eid' s ys' zs' xs'"
      by (rule restored_lists [OF 2(2) ih, where es = ?o]) (rule r(3) [unfolded append_assoc], rule refl)
    moreover have "ev_owner (id_events eid' e) = ev_owner (id_events eid2 e)" for e
      using r(4) own2 [of e] un(1) hb(1) by auto
    moreover have "events_only eid eid'" by (rule events_only_trans [OF e2 r(2)])
    ultimately show ?thesis using False r(1,5) hb(1) dat2 by simp
  qed
  then obtain eid' where e': "(if used = [] then Some (ET_OK, eid2) else restore_used eid2 s ?o) = Some (ET_OK, eid')" "events_only eid eid'"
    "case restored (id_events eid) mode ?n new used (ys, zs, xs) of (ys', zs', xs') \<Rightarrow> holds eid' s ys' zs' xs'"
    "\<forall>e. ev_owner (id_events eid' e) = ev_owner (id_events eid2 e)"
    "\<forall>e. ev_datastatus (id_events eid' e) = (if e \<in> set used \<and> mode \<noteq> ET_STATION_RESTORE_GC then ET_DATA_POSSIBLY_CORRUPT
        else ev_datastatus (id_events eid e))" by (elim exE conjE) (rule that)
  have own: "ev_owner (id_events eid' e) = (if e \<in> set ?es then ET_SYS else ev_owner (id_events eid e))" for e
    using e'(4) own2 by simp
  have "owned_by eid' att = []"
  proof -
    have "nevents_max eid' = nevents_max eid" using events_only_sys(3) [OF e'(2)] by (simp add: nevents_max_def)
    then have "set (owned_by eid' att) = {}" using own assms(2) by (auto simp: owned_by_set)
    then show ?thesis by simp
  qed
  moreover have "et_restore_events eid att s = Some (ET_OK, eid')"
  proof (cases "used = [] \<and> new = []")
    case True
    then have "eid' = eid" using 2(1) e'(1) by (simp add: eid1_def)
    then show ?thesis using True by (simp add: et_restore_events_def assms(3,4) Let_def)
  next
    case False
    have "et_restore_events eid att s = (case (if new = [] then Some (ET_OK, eid1)
        else et_station_ndump (drop_temps eid1 new) new (int (length new))) of
          None \<Rightarrow> None
        | Some (status, eid2) \<Rightarrow> if used = [] then Some (status, eid2) else restore_used eid2 s (high_before_low ?ev1 used))"
    proof -
      have "id_events eid1 = ?ev1" by (simp add: eid1_def)
      then show ?thesis using False
        by (simp only: et_restore_events_def Let_def assms(3,4) [symmetric] eid1_def [symmetric] if_False)
    qed
    then show ?thesis unfolding 2(1) option.case prod.case o e'(1) .
  qed
  ultimately show ?thesis using e'(3,5) own by (intro exI [of _ eid'] conjI) simp_all
qed

section \<open>Properties\<close>

text \<open>
  C20. \<open>et_restore\<close>, given a well-formed unlocked list in priority order and a nonempty batch in
  priority order that fits, puts the new events in front of the old ones of the same priority: the
  new high, the old high, the new low and the old low priority events; it returns their number, hands
  them to the system, unlocks the list and leaves its counters alone.
\<close>

theorem et_restore_refines:
  assumes "list_ok ev pl xs" "hi_first ev xs" "\<not> l_mutex pl" "hi_first ev es" "pri_ok ev es" "es \<noteq> []"
    "distinct (xs @ es)" "int (length (xs @ es)) \<le> nev"
  shows "\<exists>ev' pl'. et_restore nev ev pl es (int (length es)) = Some (ET_OK, Some (int (length es)), ev', pl') \<and>
     list_ok ev' pl' (filter (is_high ev) es @ filter (is_high ev) xs @
       filter (\<lambda>e. \<not> is_high ev e) es @ filter (\<lambda>e. \<not> is_high ev e) xs) \<and>
     \<not> l_mutex pl' \<and> l_events_in pl' = l_events_in pl \<and> l_lasthigh pl' = l_lasthigh pl \<and>
     (\<forall>e. ev_owner (ev' e) = (if e \<in> set es then ET_SYS else ev_owner (ev e)))"
proof -
  from et_restore_ok [OF assms] obtain ev' where
    r: "et_restore nev ev pl es (int (length es)) = Some (ET_OK, Some (int (length es)), ev',
       pl\<lparr>l_firstevent := Some (hd (pri_append ev es xs)), l_lastevent := Some (last (pri_append ev es xs)),
          l_cnt := int (length (pri_append ev es xs))\<rparr>)"
      "linked ev' (pri_append ev es xs)" "\<forall>e. ev_owner (ev' e) = (if e \<in> set es then ET_SYS else ev_owner (ev e))" by blast
  have "distinct (pri_append ev es xs)" using assms(7) distinct_pri_append [of ev es xs] by auto
  with r assms(3) show ?thesis unfolding pri_append_def [symmetric] by (simp add: list_ok_def)
qed

theorem et_restore_refines_witness:
  "\<exists>ev' pl'. et_restore 4 (set_next (sample_heap [0, 2]) 0 (Some 1))
     (sample_list\<lparr>l_cnt := 2, l_firstevent := Some 0, l_lastevent := Some 1\<rparr>) [2, 3] 2 = Some (ET_OK, Some 2, ev', pl') \<and>
     list_ok ev' pl' [2, 0, 3, 1]"
proof -
  let ?ev = "set_next (sample_heap [0, 2]) 0 (Some 1)"
  let ?pl = "sample_list\<lparr>l_cnt := 2, l_firstevent := Some 0, l_lastevent := Some 1\<rparr>"
  have hi: "is_high (sample_heap [0, 2]) i \<longleftrightarrow> i = 0 \<or> i = 2" for i by (auto simp: is_high_def)
  have "list_ok ?ev ?pl [0, 1]" by (simp add: list_ok_def)
  moreover have "pri_ok ?ev [2, 3]" by (auto simp: pri_ok_def)
  moreover have "hi_first ?ev [0, 1]" "hi_first ?ev [2, 3]" by (auto simp: hi_first_sorted hi)
  ultimately show ?thesis
    using et_restore_refines [of ?ev ?pl "[0, 1]" "[2, 3]" 4] by (auto simp: hi)
qed

text \<open>
  C11. \<open>et_restore_events\<close> returns every event an attachment owns, and no other: afterwards it owns
  none, its unread new events are at the end of GrandCentral's input list, and the events it had
  read, high priority first, are where the station's restore mode says: in its output list behind
  those of the same priority (\<open>RESTORE_OUT\<close>), in its input list in front of those of the same
  priority (\<open>RESTORE_IN\<close>, when the station has attachments), or behind the new ones in
  GrandCentral's list (\<open>RESTORE_GC\<close>); unless they went to GrandCentral their data is marked as
  possibly corrupt.
\<close>

theorem et_restore_events_returns_all:
  assumes "holds eid s ys zs xs" "att \<noteq> ET_SYS"
    "used = filter (\<lambda>e. ev_age (id_events eid e) \<noteq> ET_EVENT_NEW) (owned_by eid att)"
    "new = filter (\<lambda>e. ev_age (id_events eid e) = ET_EVENT_NEW) (owned_by eid att)"
    "set (ys @ zs @ xs) \<inter> set (owned_by eid att) = {}" "pri_ok (id_events eid) (owned_by eid att)"
    "int (length (ys @ zs @ xs @ owned_by eid att)) \<le> nevents_max eid"
    "mode = cf_restore_mode (st_config (id_stats eid ! s))"
    "mode = ET_STATION_RESTORE_GC \<or> mode = ET_STATION_RESTORE_OUT \<or> mode = ET_STATION_RESTORE_IN"
  shows "\<exists>eid'. et_restore_events eid att s = Some (ET_OK, eid') \<and>
     (case restored (id_events eid) mode (sd_nattachments (st_data (id_stats eid ! s))) new used (ys, zs, xs) of
        (ys', zs', xs') \<Rightarrow> holds eid' s ys' zs' xs') \<and>
     owned_by eid' att = [] \<and>
     (\<forall>e. ev_owner (id_events eid' e) = (if e \<in> set (owned_by eid att) then ET_SYS else ev_owner (id_events eid e))) \<and>
     (\<forall>e. ev_datastatus (id_events eid' e) = (if e \<in> set used \<and> mode \<noteq> ET_STATION_RESTORE_GC then ET_DATA_POSSIBLY_CORRUPT
        else ev_datastatus (id_events eid e)))"
  by (rule restore_events_all [OF assms])

text \<open>Event 2 was read by attachment 0 of station 1.\<close>

definition sample_reading :: "et_station \<Rightarrow> et_id" where
  "sample_reading ps = sample_id 4 [sample_station, ps]
     ((sample_heap [])(2 := (sample_heap [] 2)\<lparr>ev_owner := 0, ev_age := ET_EVENT_USED\<rparr>))"

lemma sample_reading_fields [simp]:
  "id_stats (sample_reading ps) = [sample_station, ps]" "nevents_max (sample_reading ps) = 4"
  "id_events (sample_reading ps) = (sample_heap [])(2 := (sample_heap [] 2)\<lparr>ev_owner := 0, ev_age := ET_EVENT_USED\<rparr>)"
  "owned_by (sample_reading ps) 0 = [2]"
  by (simp_all add: sample_reading_def nevents_max_def owned_by_def upt_rec)

lemma sample_reading_holds:
  assumes "st_list_in ps = sample_list" "st_list_out ps = sample_list"
  shows "holds (sample_reading ps) 1 [] [] []"
  using assms by (simp add: holds_def out_ok_def hi_first_def)

theorem et_restore_events_returns_all_witness:
  "\<exists>eid'. et_restore_events (sample_reading sample_station) 0 1 = Some (ET_OK, eid') \<and> holds eid' 1 [] [] [2] \<and>
     owned_by eid' 0 = []"
proof -
  have h: "holds (sample_reading sample_station) 1 [] [] []" by (rule sample_reading_holds) simp_all
  have m: "0 = cf_restore_mode (st_config (id_stats (sample_reading sample_station) ! 1))"
    by (simp add: sample_station_def et_init_station_def)
  have "pri_ok (id_events (sample_reading sample_station)) (owned_by (sample_reading sample_station) 0)"
    by (simp add: pri_ok_def)
  from et_restore_events_returns_all [OF h _ _ _ _ this _ m, of "[2]" "[]"]
  show ?thesis by (simp add: restored_def Let_def high_before_low_def pri_append_def is_high_def) blast
qed

end
