(* ===== verification/ET_StationFaults.thy ===== *)
theory ET_StationFaults
  imports ET_Sessions ET_Recovery
begin

text \<open>
  Calls the station interface accepts although they break its tables (src/libsrc/et\_station.c): giving up an
  attachment twice, removing a station that is not in use, moving a station to the end of the chain,
  and detaching the last user of a station whose events are to go back to its input list.
\<close>

section \<open>Giving up an attachment twice\<close>

lemma detach_local_counts:
  assumes r: "detach_local eid a s = Some (r, eid')"
  shows "r = ET_OK \<and> sy_nattachments (id_sys eid') = sy_nattachments (id_sys eid) - 1 \<and> live eid' = live eid - {a}"
proof -
  let ?x = "\<lambda>x. x\<lparr>at_num := -1, at_status := ET_ATT_UNUSED\<rparr>"
  define eid1 where "eid1 = add_nattachments (-1) (upd_att eid a ?x)"
  let ?last = "sd_nattachments (st_data (id_stats eid ! s)) = 1 \<and> s \<noteq> 0"
  define eid1' where "eid1' = (if ?last then upd_stat eid1 s (set_status ET_STATION_IDLE) else eid1)"
  have e1: "id_stats eid1 = id_stats eid" by (simp add: eid1_def)
  from r obtain eid2 q eid3 where 2: "eid2 = eid1' \<or> et_flush_events eid1' a s = Some eid2"
    and 3: "et_restore_events eid2 (int a) s = Some (q, eid3)" and res: "r = ET_OK"
    and e': "eid' = (if id_cleanup eid \<noteq> 1 then upd_proc (upd_stat eid3 s (note_att (-1) a (-1))) (id_proc eid) (note_proc (-1) a (-1))
        else upd_stat eid3 s (note_att (-1) a (-1)))"
    unfolding detach_local_def Let_def eid1_def [symmetric] e1 eid1'_def
    by (auto split: option.splits if_splits prod.splits)
  have "events_only eid1' eid2" using 2 et_flush_events_only by auto
  then have eo: "events_only eid1' eid3" using et_restore_events_only [OF 3] by (rule events_only_trans)
  have "sy_attach (id_sys eid1') = (sy_attach (id_sys eid))[a := ?x (sy_attach (id_sys eid) ! a)]"
    "sy_nattachments (id_sys eid1') = sy_nattachments (id_sys eid) - 1"
    by (simp_all add: eid1'_def eid1_def)
  from live_delete(1) [OF this(1)] this(2) have
    "live eid3 = live eid - {a}" "sy_nattachments (id_sys eid3) = sy_nattachments (id_sys eid) - 1"
    using live_events_only [OF eo] events_only_sys(4) [OF eo] by simp_all
  moreover have "live eid' = live eid3" "sy_nattachments (id_sys eid') = sy_nattachments (id_sys eid3)"
    by (simp_all add: e' live_def)
  ultimately show ?thesis using res by simp
qed

text \<open>
  The record of an attachment keeps the number of its station after \<open>et_station_detach\<close>, and the
  call tests only that number: detaching an attachment that is not in use any more is accepted, and
  decrements the attachment counter of the system, which then no longer is the number of attachments
  in use.
\<close>

lemma station_detach_again:
  assumes "tables eid gs" "int a < sc_nattachments (sy_config (id_sys eid))" "a \<notin> live eid"
    "at_stat (sy_attach (id_sys eid) ! a) = int s" "s < length (id_stats eid)" "id_alive eid" "\<not> id_closed eid"
    "et_station_detach etr eid (int a) = Some (r, eid')"
  shows "r = ET_OK \<and> live eid' = live eid \<and> sy_nattachments (id_sys eid') = int (card (live eid')) - 1 \<and> \<not> att_table eid' M"
proof -
  note d = tablesD [OF assms(1)]
  have "detach_local eid a s = Some (r, eid')"
    using assms(2,4-8) d(1) att_tableD(1,2) [OF d(3)] by (auto simp: et_station_detach_def local_guard_def Let_def split: if_splits)
  from detach_local_counts [OF this] have "r = ET_OK" "live eid' = live eid"
    "sy_nattachments (id_sys eid') = int (card (live eid')) - 1"
    using assms(3) att_tableD(5) [OF d(3)] by auto
  then show ?thesis using att_tableD(5) [of eid' M] by auto
qed

definition sample_left :: et_id where
  "sample_left = upd_att sample_open 0 (\<lambda>a. a\<lparr>at_stat := 1\<rparr>)"

lemma sample_left_tables: "tables sample_left [[1]]"
proof -
  have "\<forall>a < 3. at_num ([sample_attach\<lparr>at_stat := 1\<rparr>, sample_attach, sample_attach] ! a) = -1"
    by (simp add: numeral_3_eq_3 All_less_Suc)
  then have l: "live sample_left = {}" by (simp add: live_def sample_left_def)
  then have "atts_of sample_left s = {}" for s by (simp add: atts_of_def)
  with l show ?thesis using sample_open_tables sample_open_live
    by (simp add: tables_def att_table_def station_table_def nstations_max_def sample_left_def
        del: sample_open_fields(1))
qed

section \<open>Removing a station that is not in use\<close>

text \<open>
  \<open>et_station_remove\<close> does not test whether the station is in use. When the links a free slot has
  kept from its last use are within the array, removing it again is accepted: the chain is relinked
  around it and the station counter of the system is decremented, so it no longer is the number of
  stations in use and the tables are not right for any chain.
\<close>

lemma station_remove_unused:
  assumes "tables eid gs" "s < length (id_stats eid)" "s \<notin> set (0 # concat gs)" "id_alive eid" "\<not> id_closed eid"
    "\<forall>e. events_only e (works e)" "et_station_remove etr works eid (int s) = Some (r, eid')"
  shows "r = ET_OK \<and> sy_nstations (id_sys eid') = sy_nstations (id_sys eid) - 1 \<and> \<not> station_table eid' gs'"
proof -
  note d = tablesD [OF assms(1)] and T = station_tableD [OF tablesD(2) [OF assms(1)]]
  have s0: "s \<noteq> 0" using assms(3) by auto
  have nm: "int s < nstations_max eid" using assms(2) T(2) by simp
  have none: "sd_nattachments (st_data (id_stats eid ! s)) = 0"
  proof (rule ccontr)
    assume "\<not> ?thesis"
    then obtain a where a: "a \<in> atts_of eid s" using att_tableD(6) [OF d(3) assms(2)] by fastforce
    obtain u where "u \<in> set (0 # concat gs)" "a \<in> atts_of eid u" using att_tableD(4) [OF d(3) live_atts_of [OF a]] by blast
    with atts_of_disjoint [OF a] assms(3) show False by auto
  qed
  have k: "killed = (\<lambda>ps. set_status ET_STATION_UNUSED (ps\<lparr>st_conductor := ET_THREAD_KILL\<rparr>))" by (simp add: fun_eq_iff killed_def)
  from assms(2,4,5,7) none s0 nm d(1) obtain ch where ch: "station_remove (chain_of eid) s = Some ch" "r = ET_OK"
    "eid' = add_nstations (-1) (upd_stat (works (set_chain eid ch)) s killed)"
    by (auto simp: et_station_remove_def local_guard_def k split: option.splits)
  note nl = map_nolinks_nth [OF station_remove_nolinks [OF ch(1)], unfolded chain_of_def fst_conv]
  have eo: "events_only (set_chain eid ch) (works (set_chain eid ch))" using assms(6) by blast
  note st = events_only_stat [OF eo, unfolded set_chain_simps(1) nl(1)] and y = events_only_sys [OF eo]
  have n: "sy_nstations (id_sys eid') = sy_nstations (id_sys eid) - 1" using y(1) by (simp add: ch(3))
  have same: "sd_status (st_data (id_stats eid' ! u)) = sd_status (st_data (id_stats eid ! u))" if "u < length (id_stats eid)" for u
    using list_change_fields(3) [OF st(2) [OF that]] nolinks_eqD(3) [OF nl(2) [OF that]] T(5) [OF assms(2,3)] st(1) assms(2)
    by (cases "u = s") (simp_all add: ch(3))
  have l: "length (id_stats eid') = length (id_stats eid)" using st(1) by (simp add: ch(3))
  have "map (\<lambda>ps. sd_status (st_data ps)) (id_stats eid') = map (\<lambda>ps. sd_status (st_data ps)) (id_stats eid)"
    using same l by (intro nth_equalityI) simp_all
  then have "length (filter (\<lambda>v. v \<noteq> ET_STATION_UNUSED) (map (\<lambda>ps. sd_status (st_data ps)) (id_stats eid'))) =
      length (filter (\<lambda>v. v \<noteq> ET_STATION_UNUSED) (map (\<lambda>ps. sd_status (st_data ps)) (id_stats eid)))" by simp
  then have "length (filter (\<lambda>ps. sd_status (st_data ps) \<noteq> ET_STATION_UNUSED) (id_stats eid')) =
      length (filter (\<lambda>ps. sd_status (st_data ps) \<noteq> ET_STATION_UNUSED) (id_stats eid))"
    by (simp add: filter_map o_def)
  then have "\<not> station_table eid' gs'" using station_table_count [of eid' gs'] station_table_count [OF d(2)] n by auto
  then show ?thesis using ch(2) n by simp
qed

text \<open>The free slot of this sample was between GrandCentral and station 1 before it was removed.\<close>

definition sample_stale :: et_id where
  "sample_stale = upd_stat sample_open 2 (\<lambda>ps. ps\<lparr>st_prev := 0, st_next := 1\<rparr>)"

lemma sample_stale_tables: "tables sample_stale [[1]]"
proof -
  note d = tablesD [OF sample_open_tables]
  have "station_table sample_stale [[1]]"
    by (rule station_table_outside [OF d(2), of 2 _ "(sample_stats 3 2 ! 2)\<lparr>st_prev := 0, st_next := 1\<rparr>"])
      (simp_all add: sample_stale_def nstations_max_def)
  moreover have "att_table sample_stale (set (0 # concat [[1]]))"
    by (rule att_table_frame [OF d(3)]) (auto simp: sample_stale_def less_Suc_eq numeral_3_eq_3 numeral_2_eq_2)
  ultimately show ?thesis using d(1) by (simp add: tables_def sample_stale_def)
qed

section \<open>Moving a station to the end\<close>

lemma insert_walk_cycle:
  assumes "\<And>i. i \<in> C \<Longrightarrow> \<exists>j \<in> C. st_next (stats ! i) = int j \<and> j < length stats"
    "x \<in> C" "position < c"
  shows "insert_walk fuel stats x c position = None"
  using assms(2,3)
proof (induction fuel arbitrary: x c)
  case (Suc f)
  from assms(1) [OF Suc.prems(1)] obtain j where j: "j \<in> C" "st_next (stats ! x) = int j" "j < length stats" by blast
  with Suc.IH [OF j(1), of "c + 1"] Suc.prems(2) show ?case by simp
qed simp

lemma main_successor:
  assumes "dlinked nx pv hs" "i \<in> set hs" "i \<noteq> last hs"
  shows "\<exists>j \<in> set hs. nx i = int j"
  using assms by (induction nx pv hs rule: dlinked.induct) auto

lemma upd_at_next:
  "st_next (upd_at j (\<lambda>x. x\<lparr>st_prev := v\<rparr>) stats ! i) = st_next (stats ! i)"
  "st_next (upd_at j (\<lambda>x. x\<lparr>st_next := v\<rparr>) stats ! i) = (if i = j \<and> j < length stats then v else st_next (stats ! i))"
  by (simp_all add: upd_at_nth)

text \<open>Taking a lone station that is not the last out of the chain keeps its own \<open>next\<close>.\<close>

lemma station_remove_own_next:
  assumes r: "station_remove (stats, tail) s = Some (stats1, tail1)" and t: "tail \<noteq> int s"
    and l: "st_nextparallel (stats ! s) = -1" "st_prev (stats ! s) = int p" "p \<noteq> s"
  shows "st_next (stats1 ! s) = st_next (stats ! s)"
proof -
  from r l have "unlink_main (stats, tail) s = Some (stats1, tail1)"
    by (auto simp: station_remove_def Let_def split: if_splits)
  then show ?thesis using t l(2,3)
    by (auto simp: unlink_main_def Let_def upd_at_next stat_ix_def split: Option.bind_splits if_splits)
qed

lemma dlinked_at:
  assumes "dlinked nx pv (xs @ y # z # zs)"
  shows "nx y = int z" "pv z = int y"
  using assms by (auto simp: dlinked_append)

lemma move_to_end_cycle:
  assumes ok: "chain_ok stats tail (A @ [s] # g # B)" and n: "3 \<le> nstations"
  shows "\<exists>stats' tail'. move_station nstations (stats, tail) s ET_END pp = Some (ET_OK, (stats', tail')) \<and>
     st_next (stats' ! s) = int (hd g) \<and> (\<forall>fuel. insert_walk fuel stats' 0 1 ET_END = None)"
proof -
  let ?gs = "A @ [s] # g # B" and ?gs' = "A @ g # B"
  note D = chain_okD [OF ok]
  have g: "g \<noteq> []" using D(4) [of g] by (simp add: group_ok_def)
  have lone: "st_nextparallel (stats ! s) = -1" using D(4) [of "[s]"] by (simp add: group_ok_def)
  have dl: "dlinked (\<lambda>i. st_next (stats ! i)) (\<lambda>i. st_prev (stats ! i)) ((0 # map hd A) @ s # hd g # map hd B)"
    and tl: "tail = int (last (0 # map hd ?gs))" using D(3) by (simp_all add: main_ok_def)
  have dist: "distinct (0 # concat ?gs)" using ok by (simp add: chain_ok_def)
  have ns: "st_next (stats ! s) = int (hd g)" by (rule dlinked_at(1) [OF dl])
  obtain p where p: "st_prev (stats ! s) = int p" "p \<in> set (0 # map hd A)"
  proof -
    have "st_prev (stats ! s) = int (last (0 # map hd A))" using dlinked_append [THEN iffD1, OF dl] by simp
    then show ?thesis by (rule that) (rule last_in_set, simp)
  qed
  have hA: "hd x \<in> set x" if "x \<in> set ?gs" for x using D(4) [OF that] by (simp add: group_ok_def)
  have ps: "p \<noteq> s" using p(2) dist hA by fastforce
  have "last (0 # map hd ?gs) = last (hd g # map hd B)" by simp
  moreover have "last (hd g # map hd B) \<in> set (hd g # map hd B)" by (rule last_in_set) simp
  ultimately have ts: "tail \<noteq> int s" using tl dist hA g by fastforce
  have k: "length A < length ?gs" "?gs ! length A ! 0 = s" "0 < length (?gs ! length A)" by (simp_all add: nth_append)
  have sf: "station_find stats nstations s = Some (ET_OK, int (length A) + 1, 0)"
    using station_find_chain [OF ok _ k(1,3)] n unfolding k(2) by simp
  from station_remove_chain [of stats tail A "[]" s "[]" "g # B"] ok obtain stats1 tail1 where
    r: "station_remove (stats, tail) s = Some (stats1, tail1)" "chain_ok stats1 tail1 ?gs'" by auto
  note nl = map_nolinks_nth [OF station_remove_nolinks [OF r(1)], unfolded fst_conv]
  have sl: "s < length stats" using D(2) by (simp add: members_ok_def)
  have num: "st_num (stats1 ! s) = int s" using nolinks_eqD(1) [OF nl(2) [OF sl]] D(2) by (simp add: members_ok_def)
  have own: "st_next (stats1 ! s) = int (hd g)" using station_remove_own_next [OF r(1) ts lone p(1) ps] ns by simp
  note D1 = chain_okD [OF r(2)]
  have main: "dlinked (\<lambda>i. st_next (stats1 ! i)) (\<lambda>i. st_prev (stats1 ! i)) (0 # map hd ?gs')"
    "st_next (stats1 ! last (0 # map hd ?gs')) = -1"
    using D1(3) by (simp_all add: main_ok_def)
  have bnd: "\<forall>i \<in> set (0 # map hd ?gs'). i < length stats1"
    using D1(2,7) unfolding members_ok_def by blast
  have sn: "s \<notin> set (0 # map hd ?gs')" using dist hA by fastforce
  have "s \<notin> set (0 # concat ?gs')" using dist by auto
  from chain_length [OF r(2) this] sl nl(1) have fuel: "length (map hd ?gs') < length stats1" by simp
  let ?q = "last (0 # map hd ?gs')"
  have "insert_walk (length stats1) stats1 0 1 ET_END = Some (AtEnd ?q)"
    using insert_walk_spec [OF main _ fuel, of 1 ET_END] bnd by simp
  then have ins: "station_insert (length stats1) nstations (stats1, tail1) s ET_END pp = Some (ET_OK, append_station (stats1, tail1) s ?q)"
    using n by (simp add: station_insert_def)
  obtain stats2 tail2 where st2: "append_station (stats1, tail1) s ?q = (stats2, tail2)" by fastforce
  have q: "?q \<in> set (0 # map hd ?gs')" by (rule last_in_set) simp
  have ql: "?q < length stats1" and qs: "?q \<noteq> s" using q bnd sn by metis+
  have nx: "st_next (stats2 ! i) = (if i = ?q then int s else st_next (stats1 ! i))" for i
    using st2 ql num by (auto simp: append_station_def Let_def upd_at_next et_frame)
  have len2: "length stats2 = length stats1" using st2 by (auto simp: append_station_def Let_def)
  have mv: "move_station nstations (stats, tail) s ET_END pp = Some (ET_OK, (stats2, tail2))"
    by (simp add: move_station_def sf r(1) ins [unfolded st2])
  have cyc: "\<exists>j \<in> insert s (set (0 # map hd ?gs')). st_next (stats2 ! i) = int j \<and> j < length stats2"
    if i: "i \<in> insert s (set (0 # map hd ?gs'))" for i
  proof -
    consider "i = s" | "i = ?q" | "i \<in> set (0 # map hd ?gs')" "i \<noteq> ?q" "i \<noteq> s" using i by blast
    then show ?thesis
    proof cases
      case 1
      then have "st_next (stats2 ! i) = int (hd g)" using nx qs own by auto
      moreover have "hd g \<in> set (0 # map hd ?gs')" by simp
      ultimately show ?thesis using bnd len2 by auto
    next
      case 2
      then show ?thesis using nx sl nl(1) len2 by auto
    next
      case 3
      from main_successor [OF main(1) 3(1,2)] obtain j where "j \<in> set (0 # map hd ?gs')" "st_next (stats1 ! i) = int j" by blast
      then show ?thesis using nx 3(2) bnd len2 by auto
    qed
  qed
  have "insert_walk fuel stats2 0 1 ET_END = None" for fuel
    by (rule insert_walk_cycle [OF cyc]) simp_all
  moreover have "st_next (stats2 ! s) = int (hd g)" using nx qs own by auto
  ultimately show ?thesis using mv by blast
qed


text \<open>
  C27. Moving a station that is alone at its place, and not the last of the chain, to the end
  (\<open>et_station_setposition\<close> with \<open>ET_END\<close>) succeeds, but its \<open>next\<close> still names its old successor,
  which now comes before it: the chain is a cycle, and a later insertion at the end, which walks to
  the station without a successor, never returns.
\<close>

theorem station_setposition_cycle:
  assumes "chain_ok (id_stats eid) (sy_stat_tail (id_sys eid)) (A @ [s] # g # B)" "3 \<le> sy_nstations (id_sys eid)"
    "in_chain (id_stats eid ! s)" "int s < nstations_max eid" "id_alive eid" "\<not> id_closed eid" "id_locality eid = ET_LOCAL"
    "pp = ET_END \<or> pp = ET_NEWHEAD \<or> 0 \<le> pp"
  shows "\<exists>eid'. et_station_setposition etr eid (int s) ET_END pp = Some (ET_OK, eid') \<and>
     st_next (id_stats eid' ! s) = int (hd g) \<and>
     (\<forall>fuel t q. station_insert fuel (sy_nstations (id_sys eid')) (chain_of eid') t ET_END q = None)"
proof -
  from move_to_end_cycle [OF assms(1,2), of pp] obtain stats' tail' where
    m: "move_station (sy_nstations (id_sys eid)) (chain_of eid) s ET_END pp = Some (ET_OK, (stats', tail'))"
      "st_next (stats' ! s) = int (hd g)" "\<forall>fuel. insert_walk fuel stats' 0 1 ET_END = None"
    unfolding chain_of_def by blast
  note D = chain_okD [OF assms(1)]
  have s: "s < length (id_stats eid)" "s \<noteq> 0" using D(1,2) by (simp_all add: members_ok_def)
  have "et_station_setposition etr eid (int s) ET_END pp = Some (ET_OK, set_chain eid (stats', tail'))"
    using assms(3-8) m(1) s by (auto simp: et_station_setposition_def local_guard_def)
  moreover have "station_insert fuel (sy_nstations (id_sys eid)) (stats', tail') t ET_END q = None" for fuel t q
    using m(3) assms(2) by (simp add: station_insert_def)
  ultimately show ?thesis using m(2) by (auto simp: chain_of_def)
qed

definition sample_three :: et_id where
  "sample_three = (let e = sample_id 4 [set_status ET_STATION_ACTIVE ((sample_stats 4 3 ! 0)\<lparr>st_name := ''GRAND_CENTRAL''\<rparr>),
       set_status ET_STATION_IDLE ((sample_stats 4 3 ! 1)\<lparr>st_name := ''A''\<rparr>),
       set_status ET_STATION_IDLE ((sample_stats 4 3 ! 2)\<lparr>st_name := ''B''\<rparr>), sample_stats 4 3 ! 3] (sample_heap [])
   in e\<lparr>id_sys := (id_sys e)\<lparr>sy_nstations := 3, sy_stat_tail := 2\<rparr>\<rparr>)"

theorem station_setposition_cycle_witness:
  "\<exists>eid'. et_station_setposition (\<lambda>i s p q. (ET_ERROR, i)) sample_three 1 ET_END ET_END = Some (ET_OK, eid') \<and>
     st_next (id_stats eid' ! 1) = 2"
proof -
  have "chain_ok (id_stats sample_three) (sy_stat_tail (id_sys sample_three)) ([] @ [1] # [2] # [])"
    by (simp add: sample_three_def chain_ok_def members_ok_def main_ok_def group_ok_def Let_def numeral_2_eq_2)
  moreover have "sy_nstations (id_sys sample_three) = 3" "in_chain (id_stats sample_three ! 1)" "nstations_max sample_three = 4"
    "id_alive sample_three" "\<not> id_closed sample_three" "id_locality sample_three = ET_LOCAL"
    by (simp_all add: sample_three_def in_chain_def nstations_max_def Let_def sample_id_def)
  ultimately show ?thesis
    using station_setposition_cycle [of sample_three "[]" 1 "[2]" "[]" ET_END "\<lambda>i s p q. (ET_ERROR, i)"] by auto
qed


section \<open>Moving a station to another place\<close>

text \<open>
  C26. \<open>et_station_setposition\<close> moves a serial station that is in the chain to any place that is before
  another station: the station is then linked there, all others keep their order, and the tables stay
  right.
\<close>

theorem station_setposition_moves:
  assumes "tables eid (A @ [s] # B)" "cf_flow_mode (st_config (id_stats eid ! s)) = ET_STATION_SERIAL"
    "1 \<le> p" "nat p \<le> length (A @ B)" "id_alive eid" "\<not> id_closed eid" "pp = ET_END \<or> pp = ET_NEWHEAD \<or> 0 \<le> pp"
  shows "\<exists>eid'. et_station_setposition etr eid (int s) p pp = Some (ET_OK, eid') \<and>
     tables eid' (take (nat p - 1) (A @ B) @ [s] # drop (nat p - 1) (A @ B))"
  by (rule setposition_moves [OF assms])

lemma sample_three_tables: "tables sample_three ([] @ [1] # [[2]])"
proof -
  have a: "sy_attach (id_sys sample_three) = [sample_attach, sample_attach, sample_attach]" "sy_nattachments (id_sys sample_three) = 0"
    "sc_nattachments (sy_config (id_sys sample_three)) = 3" "nstations_max sample_three = 4" "id_locality sample_three = ET_LOCAL"
    "sy_nstations (id_sys sample_three) = 3" "sy_stat_tail (id_sys sample_three) = 2"
    by (simp_all add: sample_three_def sample_id_def nstations_max_def Let_def)
  have st: "id_stats sample_three = [set_status ET_STATION_ACTIVE ((sample_stats 4 3 ! 0)\<lparr>st_name := ''GRAND_CENTRAL''\<rparr>),
       set_status ET_STATION_IDLE ((sample_stats 4 3 ! 1)\<lparr>st_name := ''A''\<rparr>),
       set_status ET_STATION_IDLE ((sample_stats 4 3 ! 2)\<lparr>st_name := ''B''\<rparr>), sample_stats 4 3 ! 3]" by (simp add: sample_three_def Let_def)
  have "\<forall>a < 3. at_num ([sample_attach, sample_attach, sample_attach] ! a) = -1" by (simp add: numeral_3_eq_3 All_less_Suc)
  then have l: "live sample_three = {}" by (simp add: live_def a)
  then have "atts_of sample_three s = {}" for s by (simp add: atts_of_def)
  with l have "att_table sample_three (set (0 # concat [[1], [2]]))"
    unfolding att_table_def by (simp add: a st eval_nat_numeral All_less_Suc)
  moreover have "station_table sample_three [[1], [2]]"
    by (auto simp: station_table_def chain_ok_def members_ok_def main_ok_def group_ok_def in_chain_def a st less_Suc_eq eval_nat_numeral)
  ultimately show ?thesis by (simp add: tables_def a)
qed

theorem station_setposition_moves_witness:
  "\<exists>eid'. et_station_setposition (\<lambda>i s p q. (ET_ERROR, i)) sample_three 2 1 ET_END = Some (ET_OK, eid') \<and> tables eid' [[2], [1]]"
proof -
  have "tables sample_three ([[1]] @ [2] # [])" using sample_three_tables by simp
  moreover have "cf_flow_mode (st_config (id_stats sample_three ! 2)) = ET_STATION_SERIAL" "id_alive sample_three" "\<not> id_closed sample_three"
    by (simp_all add: sample_three_def sample_id_def Let_def)
  ultimately show ?thesis
    using station_setposition_moves [of sample_three "[[1]]" 2 "[]" 1 ET_END "\<lambda>i s p q. (ET_ERROR, i)"] by simp
qed

section \<open>Detaching the last user of a station that restores to its input list\<close>

lemma flush_empty:
  assumes "s \<noteq> 0" "s < length (id_stats eid)" "l_cnt (st_list_in (id_stats eid ! s)) = 0" "\<not> l_mutex (st_list_in (id_stats eid ! s))"
    "att_quit eid a \<noteq> ET_ATT_QUIT" "1 \<le> nevents_max eid"
  shows "et_flush_events eid a s = Some eid"
proof -
  have "set_in_mutex (set_in_mutex eid s True) s False = eid"
  proof -
    have "(st_list_in (id_stats eid ! s))\<lparr>l_mutex := False\<rparr> = st_list_in (id_stats eid ! s)"
      using assms(4) by (cases "st_list_in (id_stats eid ! s)") simp
    then show ?thesis using assms(2) by (simp add: set_in_mutex_def upd_stat_def)
  qed
  then show ?thesis using assms
    by (simp add: et_flush_events_def et_station_nread_def read_acquire_def histogram_bump_def in_list_def set_in_mutex_def)
qed

text \<open>
  C28. \<open>et_station_detach\<close> restores the events of the attachment before it decrements the station's
  attachment counter, so the test of \<open>et_restore_events\<close> for a station without attachments, which is to
  send the events to the output list, never holds for the last user: with restore mode
  \<open>RESTORE_IN\<close> the station becomes idle, has no attachment any more, and the events that user had read
  are in its input list, where nobody reads them.
\<close>

theorem station_detach_last_strands:
  assumes "holds eid s ys [] xs" "sd_nattachments (st_data (id_stats eid ! s)) = 1"
    "cf_restore_mode (st_config (id_stats eid ! s)) = ET_STATION_RESTORE_IN" "att_quit eid a \<noteq> ET_ATT_QUIT"
    "set (ys @ xs) \<inter> set (owned_by eid (int a)) = {}" "pri_ok (id_events eid) (owned_by eid (int a))"
    "int (length (ys @ xs @ owned_by eid (int a))) \<le> nevents_max eid" "1 \<le> nevents_max eid"
    "used = filter (\<lambda>e. ev_age (id_events eid e) \<noteq> ET_EVENT_NEW) (owned_by eid (int a))"
  shows "\<exists>eid'. detach_local eid a s = Some (ET_OK, eid') \<and> sd_nattachments (st_data (id_stats eid' ! s)) = 0 \<and>
     sd_status (st_data (id_stats eid' ! s)) = ET_STATION_IDLE \<and>
     list_ok (id_events eid') (st_list_in (id_stats eid' ! s)) (high_before_low (id_events eid) used)"
proof -
  note d = holdsD [OF assms(1)]
  let ?eid1 = "add_nattachments (-1) (upd_att eid a (\<lambda>x. x\<lparr>at_num := -1, at_status := ET_ATT_UNUSED\<rparr>))"
  define e where "e = upd_stat ?eid1 s (set_status ET_STATION_IDLE)"
  have st: "id_stats e = (id_stats eid)[s := set_status ET_STATION_IDLE (id_stats eid ! s)]" "id_events e = id_events eid"
    "nevents_max e = nevents_max eid"
    by (simp_all add: e_def nevents_max_def add_nattachments_def upd_att_def)
  have ls: "st_list_in (set_status v ps) = st_list_in ps" "st_list_out (set_status v ps) = st_list_out ps" for v ps
    by (simp_all add: set_status_def)
  have h: "holds e s ys [] xs" using assms(1) by (simp add: holds_def st ls)
  have ow: "owned_by e (int a) = owned_by eid (int a)" by (simp add: owned_by_def st)
  have q: "att_quit e a \<noteq> ET_ATT_QUIT"
  proof (cases "a < length (sy_attach (id_sys eid))")
    case True
    then show ?thesis using assms(4) by (simp add: att_quit_def e_def)
  next
    case False
    then show ?thesis using assms(4) by (simp add: att_quit_def e_def list_update_beyond)
  qed
  have fl: "et_flush_events e a s = Some e"
    by (rule flush_empty [OF _ _ _ _ q]) (use d assms(8) in \<open>simp_all add: st ls list_ok_def\<close>)
  have es: "st_config (id_stats e ! s) = st_config (id_stats eid ! s)" "sd_nattachments (st_data (id_stats e ! s)) = 1"
    using d(2) assms(2) by (simp_all add: st)
  define new where "new = filter (\<lambda>x. ev_age (id_events eid x) = ET_EVENT_NEW) (owned_by eid (int a))"
  have "\<exists>eid3. et_restore_events e (int a) s = Some (ET_OK, eid3) \<and>
     (case restored (id_events e) ET_STATION_RESTORE_IN (sd_nattachments (st_data (id_stats e ! s))) new used (ys, [], xs) of
        (ys', zs', xs') \<Rightarrow> holds eid3 s ys' zs' xs')"
    using restore_events_all [OF h, of "int a" used new ET_STATION_RESTORE_IN] assms(3,5-7,9) es ow st(2,3)
    by (auto simp: new_def)
  moreover have "restored (id_events e) ET_STATION_RESTORE_IN (sd_nattachments (st_data (id_stats e ! s))) new used (ys, [], xs) =
      (ys @ new, high_before_low (id_events eid) used, xs)"
    unfolding es(2) st(2) by (simp add: restored_def pri_append_def high_before_low_eq)
  ultimately obtain eid3 where r: "et_restore_events e (int a) s = Some (ET_OK, eid3)"
    "holds eid3 s (ys @ new) (high_before_low (id_events eid) used) xs" by auto
  have eo: "events_only e eid3" by (rule et_restore_events_only [OF r(1)])
  note lc = list_change_fields [OF events_only_stat(2) [OF eo holdsD(2) [OF h]]]
  let ?eid4 = "upd_stat eid3 s (note_att (-1) a (-1))"
  let ?eid' = "if id_cleanup eid \<noteq> 1 then upd_proc ?eid4 (id_proc eid) (note_proc (-1) a (-1)) else ?eid4"
  have run: "detach_local eid a s = Some (ET_OK, ?eid')"
    using assms(2) d(1) fl r(1) by (simp add: detach_local_def Let_def e_def [symmetric])
  have s3: "s < length (id_stats eid3)" by (rule holdsD(2) [OF r(2)])
  have f: "id_stats ?eid' ! s = note_att (-1) a (-1) (id_stats eid3 ! s)" "id_events ?eid' = id_events eid3"
    using s3 by (simp_all add: upd_proc_def)
  have "st_list_in (note_att (-1) a (-1) ps) = st_list_in ps" for ps by (simp add: note_att_def)
  then have "list_ok (id_events ?eid') (st_list_in (id_stats ?eid' ! s)) (high_before_low (id_events eid) used)"
    using holdsD(6) [OF r(2)] f by simp
  moreover have "sd_nattachments (st_data (id_stats ?eid' ! s)) = 0" "sd_status (st_data (id_stats ?eid' ! s)) = ET_STATION_IDLE"
    using lc(3) es(2) d(2) by (simp_all add: f st)
  ultimately show ?thesis using run by blast
qed

theorem station_detach_last_strands_witness:
  "\<exists>eid'. detach_local (sample_reading (sample_station\<lparr>st_data := (st_data sample_station)\<lparr>sd_nattachments := 1\<rparr>,
       st_config := (st_config sample_station)\<lparr>cf_restore_mode := ET_STATION_RESTORE_IN\<rparr>\<rparr>)) 0 1 = Some (ET_OK, eid') \<and>
     sd_status (st_data (id_stats eid' ! 1)) = ET_STATION_IDLE \<and> list_ok (id_events eid') (st_list_in (id_stats eid' ! 1)) [2]"
proof -
  let ?ps = "sample_station\<lparr>st_data := (st_data sample_station)\<lparr>sd_nattachments := 1\<rparr>,
       st_config := (st_config sample_station)\<lparr>cf_restore_mode := ET_STATION_RESTORE_IN\<rparr>\<rparr>"
  have h: "holds (sample_reading ?ps) 1 [] [] []" by (rule sample_reading_holds) simp_all
  have q: "att_quit (sample_reading ?ps) 0 \<noteq> ET_ATT_QUIT"
    by (simp add: att_quit_def sample_reading_def sample_attach_def et_init_attachment_def)
  let ?e = "sample_reading ?ps"
  have "sd_nattachments (st_data (id_stats ?e ! 1)) = 1" "cf_restore_mode (st_config (id_stats ?e ! 1)) = ET_STATION_RESTORE_IN"
    "set ([] @ []) \<inter> set (owned_by ?e (int 0)) = {}" "pri_ok (id_events ?e) (owned_by ?e (int 0))"
    "int (length ([] @ [] @ owned_by ?e (int 0))) \<le> nevents_max ?e" "1 \<le> nevents_max ?e"
    "[2] = filter (\<lambda>e. ev_age (id_events ?e e) \<noteq> ET_EVENT_NEW) (owned_by ?e (int 0))"
    by (simp_all add: pri_ok_def)
  note f = this
  from station_detach_last_strands [OF h f(1,2) q f(3-7)] obtain eid' where
    r: "detach_local ?e 0 1 = Some (ET_OK, eid')" "sd_status (st_data (id_stats eid' ! 1)) = ET_STATION_IDLE"
      "list_ok (id_events eid') (st_list_in (id_stats eid' ! 1)) (high_before_low (id_events ?e) [2])" by blast
  have "high_before_low (id_events ?e) [2] = [2]" by (simp add: high_before_low_def)
  with r show ?thesis by metis
qed

end
