(* ===== verification/ET_StationLive.thy ===== *)
theory ET_StationLive
  imports ET_Sessions
begin

text \<open>
  Changing a station's configuration while the system runs: each setter is read back by its getter
  and leaves the rest alone, and the configuration keeps passing the checks made at creation, apart
  from the number of users.
\<close>

section \<open>The setters and getters, by field\<close>

datatype live_setting = LiveBlock int | LiveUser int | LiveRestore int | LivePrescale int | LiveCue int

fun live_set :: "(et_id \<Rightarrow> int \<Rightarrow> int \<Rightarrow> int \<times> et_id) \<Rightarrow> et_id \<Rightarrow> int \<Rightarrow> live_setting \<Rightarrow> (int \<times> et_id) option" where
  "live_set etr eid s (LiveBlock v) = et_station_setblock etr eid s v"
| "live_set etr eid s (LiveUser v) = et_station_setuser etr eid s v"
| "live_set etr eid s (LiveRestore v) = et_station_setrestore etr eid s v"
| "live_set etr eid s (LivePrescale v) = et_station_setprescale etr eid s v"
| "live_set etr eid s (LiveCue v) = et_station_setcue etr eid s v"

fun live_get :: "(et_id \<Rightarrow> int \<Rightarrow> int \<times> int option) \<Rightarrow> et_id \<Rightarrow> int \<Rightarrow> live_setting \<Rightarrow> int answer" where
  "live_get etr eid s (LiveBlock v) = et_station_getblock etr eid s"
| "live_get etr eid s (LiveUser v) = et_station_getuser etr eid s"
| "live_get etr eid s (LiveRestore v) = et_station_getrestore etr eid s"
| "live_get etr eid s (LivePrescale v) = et_station_getprescale etr eid s"
| "live_get etr eid s (LiveCue v) = et_station_getcue etr eid s"

fun live_value :: "live_setting \<Rightarrow> int" where
  "live_value (LiveBlock v) = v" | "live_value (LiveUser v) = v" | "live_value (LiveRestore v) = v"
| "live_value (LivePrescale v) = v" | "live_value (LiveCue v) = v"

fun same_field :: "live_setting \<Rightarrow> live_setting \<Rightarrow> bool" where
  "same_field (LiveBlock v) (LiveBlock w) \<longleftrightarrow> True" | "same_field (LiveUser v) (LiveUser w) \<longleftrightarrow> True"
| "same_field (LiveRestore v) (LiveRestore w) \<longleftrightarrow> True" | "same_field (LivePrescale v) (LivePrescale w) \<longleftrightarrow> True"
| "same_field (LiveCue v) (LiveCue w) \<longleftrightarrow> True" | "same_field _ _ \<longleftrightarrow> False"

lemmas live_defs = et_station_setblock_def et_station_setuser_def et_station_setrestore_def et_station_setprescale_def
  et_station_setcue_def et_station_getblock_def et_station_getuser_def et_station_getrestore_def
  et_station_getprescale_def et_station_getcue_def

fun live_upd :: "live_setting \<Rightarrow> et_stat_config \<Rightarrow> et_stat_config" where
  "live_upd (LiveBlock v) c = c\<lparr>cf_block_mode := v\<rparr>"
| "live_upd (LiveUser v) c = c\<lparr>cf_user_mode := v\<rparr>"
| "live_upd (LiveRestore v) c = c\<lparr>cf_restore_mode := v\<rparr>"
| "live_upd (LivePrescale v) c = c\<lparr>cf_prescale := v\<rparr>"
| "live_upd (LiveCue v) c = c\<lparr>cf_cue := v\<rparr>"

fun live_allowed :: "et_id \<Rightarrow> et_station \<Rightarrow> live_setting \<Rightarrow> bool" where
  "live_allowed eid ps (LiveBlock v) \<longleftrightarrow> (v = ET_STATION_BLOCKING \<or> v = ET_STATION_NONBLOCKING) \<and>
     \<not> (shares_out ps \<and> v = ET_STATION_NONBLOCKING)"
| "live_allowed eid ps (LiveUser v) \<longleftrightarrow> 0 \<le> v"
| "live_allowed eid ps (LiveRestore v) \<longleftrightarrow> (v = ET_STATION_RESTORE_OUT \<or> v = ET_STATION_RESTORE_IN \<or> v = ET_STATION_RESTORE_GC) \<and>
     \<not> (shares_out ps \<and> v = ET_STATION_RESTORE_IN)"
| "live_allowed eid ps (LivePrescale v) \<longleftrightarrow> 1 \<le> v \<and> \<not> (shares_out ps \<and> v \<noteq> 1)"
| "live_allowed eid ps (LiveCue v) \<longleftrightarrow> 1 \<le> v \<and> v \<le> nevents_max eid"

lemma set_station_ok:
  assumes "set_station etr legal locks eid sid allowed upd = Some (ET_OK, eid')" "id_locality eid = ET_LOCAL"
  shows "\<exists>s. sid = int s \<and> 0 < s \<and> s < length (id_stats eid) \<and> sid < nstations_max eid \<and> id_alive eid \<and> \<not> id_closed eid \<and> legal \<and>
     allowed (id_stats eid ! s) \<and> eid' = upd_stat eid s (\<lambda>ps. ps\<lparr>st_config := upd (st_config ps)\<rparr>)"
  using assms by (auto simp: set_station_def local_guard_def stat_ix_def split: if_splits option.splits intro!: exI [of _ "nat sid"])

lemma live_set_ok:
  assumes "live_set etr eid sid x = Some (ET_OK, eid')" "id_locality eid = ET_LOCAL"
  shows "\<exists>s. sid = int s \<and> 0 < s \<and> s < length (id_stats eid) \<and> sid < nstations_max eid \<and> id_alive eid \<and> \<not> id_closed eid \<and>
     live_allowed eid (id_stats eid ! s) x \<and> eid' = upd_stat eid s (\<lambda>ps. ps\<lparr>st_config := live_upd x (st_config ps)\<rparr>)"
  using assms by (cases x) (auto simp: live_defs dest!: set_station_ok)

lemma get_station_at:
  assumes "id_locality eid = ET_LOCAL" "id_alive eid" "\<not> id_closed eid" "s < length (id_stats eid)" "int s < nstations_max eid"
  shows "get_station etr eid (int s) f = f (id_stats eid ! s)"
  using assms by (simp add: get_station_def local_guard_def)

fun live_field :: "live_setting \<Rightarrow> et_stat_config \<Rightarrow> int" where
  "live_field (LiveBlock v) c = cf_block_mode c" | "live_field (LiveUser v) c = cf_user_mode c"
| "live_field (LiveRestore v) c = cf_restore_mode c" | "live_field (LivePrescale v) c = cf_prescale c"
| "live_field (LiveCue v) c = cf_cue c"

lemma live_get_field:
  "live_get etr eid sid x = get_station etr eid sid (unless_unused (\<lambda>ps. live_field x (st_config ps)))"
  by (cases x) (simp_all add: live_defs)

lemma live_field_upd: "live_field y (live_upd x c) = (if same_field x y then live_value x else live_field y c)"
  by (cases x; cases y) simp_all

section \<open>Properties\<close>

text \<open>
  C29. A successful change of a station's block, user, restore, prescale or cue value by a local user is
  read back by the getter of that field while the station is in use; all other fields, and all other
  stations, answer as before.
\<close>

theorem station_live_roundtrip:
  assumes "id_locality eid = ET_LOCAL" "live_set etr eid (int s) x = Some (ET_OK, eid')"
    "sd_status (st_data (id_stats eid ! s)) \<noteq> ET_STATION_UNUSED"
  shows "live_get etr' eid' (int s) x = Some (ET_OK, Some (live_value x)) \<and>
     (\<forall>y. \<not> same_field x y \<longrightarrow> live_get etr' eid' (int s) y = live_get etr' eid (int s) y) \<and>
     (\<forall>t y. t \<noteq> s \<and> t < length (id_stats eid) \<longrightarrow> live_get etr' eid' (int t) y = live_get etr' eid (int t) y)"
proof -
  from live_set_ok [OF assms(2,1)] have s: "s < length (id_stats eid)" "int s < nstations_max eid" "id_alive eid" "\<not> id_closed eid"
    and e: "eid' = upd_stat eid s (\<lambda>ps. ps\<lparr>st_config := live_upd x (st_config ps)\<rparr>)" by auto
  have l: "id_locality eid' = ET_LOCAL" "id_alive eid'" "\<not> id_closed eid'" "s < length (id_stats eid')" "int s < nstations_max eid'"
    using assms(1) s by (simp_all add: e upd_stat_def nstations_max_def)
  have self: "same_field x x" by (cases x) simp_all
  have "live_get etr' eid' (int t) y = live_get etr' eid (int t) y" if "t \<noteq> s" "t < length (id_stats eid)" for t y
  proof -
    have "stat_ix (id_stats eid') (int t) = Some t" "stat_ix (id_stats eid) (int t) = Some t" using that(2) by (simp_all add: e)
    then show ?thesis using that assms(1) l s by (simp add: live_get_field get_station_def local_guard_def e)
  qed
  then show ?thesis
    using assms(3) s l self unfolding live_get_field get_station_at [OF l] get_station_at [OF assms(1) s(3,4,1,2)]
    by (simp add: e unless_unused_def live_field_upd)
qed

theorem station_live_roundtrip_witness:
  "\<exists>eid'. et_station_setcue (\<lambda>i s v. (ET_ERROR, i)) sample_open 1 3 = Some (ET_OK, eid') \<and>
     et_station_getcue (\<lambda>i s. (ET_ERROR, None)) eid' 1 = Some (ET_OK, Some 3)"
proof -
  have "\<exists>eid'. live_set (\<lambda>i s v. (ET_ERROR, i)) sample_open (int 1) (LiveCue 3) = Some (ET_OK, eid')"
    by (simp add: et_station_setcue_def set_station_def local_guard_def stat_ix_def set_status_def)
  then obtain eid' where r: "live_set (\<lambda>i s v. (ET_ERROR, i)) sample_open (int 1) (LiveCue 3) = Some (ET_OK, eid')" by blast
  from station_live_roundtrip [OF _ r, of "\<lambda>i s. (ET_ERROR, None)"] r show ?thesis by auto
qed

text \<open>
  C30. A station configuration that is legal in every field and passes the checks of its creation still
  does after any successful change of one field while the system runs, provided that
  \<open>et_station_setuser\<close> is not called with more users than the system has attachments, which it does not
  test.
\<close>

theorem station_live_keeps_checked:
  assumes "id_locality eid = ET_LOCAL" "live_set etr eid (int s) x = Some (ET_OK, eid')"
    "fields_ok (st_config (id_stats eid ! s))" "cross_ok (id_sys eid) (st_config (id_stats eid ! s))"
    "\<forall>v. x = LiveUser v \<longrightarrow> v \<le> sc_nattachments (sy_config (id_sys eid))"
  shows "fields_ok (st_config (id_stats eid' ! s)) \<and> cross_ok (id_sys eid') (st_config (id_stats eid' ! s)) \<and>
     fst (et_station_config_check (id_sys eid') (st_config (id_stats eid' ! s))) = ET_OK"
proof -
  from live_set_ok [OF assms(2,1)] have s: "s < length (id_stats eid)" and a: "live_allowed eid (id_stats eid ! s) x"
    and e: "eid' = upd_stat eid s (\<lambda>ps. ps\<lparr>st_config := live_upd x (st_config ps)\<rparr>)" by auto
  let ?c = "st_config (id_stats eid ! s)"
  have c: "st_config (id_stats eid' ! s) = live_upd x ?c" "id_sys eid' = id_sys eid" using s by (simp_all add: e)
  have f: "fields_ok (live_upd x ?c)" using assms(3) a by (cases x) (auto simp: fields_ok_def)
  have "cross_ok (id_sys eid) (live_upd x ?c)"
    using assms(3-5) a by (cases x) (auto simp: cross_ok_def fields_ok_def shares_out_def distributes_def)
  with f config_check_fields_ok [OF f, of "id_sys eid"] show ?thesis by (simp add: c)
qed

theorem station_live_keeps_checked_witness:
  "\<exists>eid'. et_station_setcue (\<lambda>i s v. (ET_ERROR, i)) sample_open 1 3 = Some (ET_OK, eid') \<and> cf_cue (st_config (id_stats eid' ! 1)) = 3 \<and>
     fst (et_station_config_check (id_sys eid') (st_config (id_stats eid' ! 1))) = ET_OK"
proof -
  have "\<exists>eid'. live_set (\<lambda>i s v. (ET_ERROR, i)) sample_open (int 1) (LiveCue 3) = Some (ET_OK, eid')"
    by (simp add: et_station_setcue_def set_station_def local_guard_def stat_ix_def set_status_def)
  then obtain eid' where r: "live_set (\<lambda>i s v. (ET_ERROR, i)) sample_open (int 1) (LiveCue 3) = Some (ET_OK, eid')" by blast
  have c: "st_config (id_stats sample_open ! 1) = st_config sample_station" by (simp add: set_status_def)
  have "fields_ok (st_config (id_stats sample_open ! 1))" "cross_ok (id_sys sample_open) (st_config (id_stats sample_open ! 1))"
    unfolding c by (simp_all add: fields_ok_def cross_ok_def sample_station_def et_init_station_def distributes_def)
  from station_live_keeps_checked [OF _ r this] have k: "fst (et_station_config_check (id_sys eid') (st_config (id_stats eid' ! 1))) = ET_OK" by simp
  from live_set_ok [OF r] have "cf_cue (st_config (id_stats eid' ! 1)) = 3" by auto
  with k r show ?thesis by auto
qed

end
