(* ===== verification/ET_Cleanup.thy ===== *)
theory ET_Cleanup
  imports ET_Repair ET_Sessions
begin

text \<open>
  How the ET system process watches the processes of its users and cleans up after one that has died
  (src/libsrc/et\_system.c: \<open>et_sys_heartmonitor\<close>, \<open>et_fix_linkedlist\<close>, \<open>et_fix_stations\<close>,
  \<open>et_fix_attachments\<close>, \<open>et_fix_natts\<close>, \<open>et_fix_nprocs\<close>).

  Mutexes other than those of the event lists are no data of the model, so \<open>et_fix_mutexes\<close>, which
  unlocks the system's, the stations' and the transfer mutexes, is what other processes do while it
  waits. The walks along the links of the stations have no bound in the code: \<open>None\<close> is a walk that
  never ends or an index outside the array of stations.
\<close>

section \<open>The chain of stations\<close>

partial_function (option) fix_parallel :: "et_station list \<Rightarrow> nat \<Rightarrow> et_station list option" where
  "fix_parallel stats pstat =
     (if st_nextparallel (stats ! pstat) > -1 then
        (case stat_ix stats (st_nextparallel (stats ! pstat)) of
           None \<Rightarrow> None
         | Some nextparallel \<Rightarrow>
             fix_parallel (upd_at nextparallel (\<lambda>x. x\<lparr>st_prevparallel := st_num (stats ! pstat), st_prev := -1, st_next := -1\<rparr>)
               stats) nextparallel)
      else Some stats)"

partial_function (option) fix_main :: "et_station list \<Rightarrow> nat \<Rightarrow> (et_station list \<times> int) option" where
  "fix_main stats ps =
     (if st_next (stats ! ps) > -1 then
        (case stat_ix stats (st_next (stats ! ps)) of
           None \<Rightarrow> None
         | Some pnext \<Rightarrow>
             let stats1 = upd_at pnext (\<lambda>x. x\<lparr>st_prev := st_num (stats ! ps)\<rparr>) stats in
             case (if cf_flow_mode (st_config (stats1 ! pnext)) = ET_STATION_PARALLEL
                   then fix_parallel (upd_at pnext (\<lambda>x. x\<lparr>st_prevparallel := -1\<rparr>) stats1) pnext
                   else Some (upd_at pnext (\<lambda>x. x\<lparr>st_prevparallel := -1, st_nextparallel := -1\<rparr>) stats1)) of
               None \<Rightarrow> None
             | Some stats2 \<Rightarrow> fix_main stats2 pnext)
      else Some (stats, st_num (stats ! ps)))"

definition et_fix_linkedlist :: "et_id \<Rightarrow> et_id option" where
  "et_fix_linkedlist eid =
     (case stat_ix (id_stats eid) (sy_stat_head (id_sys eid)) of
        None \<Rightarrow> None
      | Some h \<Rightarrow> map_option (set_chain eid) (fix_main (id_stats eid) h))"

text \<open>Is a station with number \<open>num\<close> behind \<open>pstat\<close> in a parallel group, in the chain?\<close>

partial_function (option) listed_parallel :: "et_station list \<Rightarrow> int \<Rightarrow> nat \<Rightarrow> bool option" where
  "listed_parallel stats num pstat =
     (if st_nextparallel (stats ! pstat) > -1 then
        (case stat_ix stats (st_nextparallel (stats ! pstat)) of
           None \<Rightarrow> None
         | Some n \<Rightarrow> if st_num (stats ! n) = num then Some True else listed_parallel stats num n)
      else Some False)"

partial_function (option) listed :: "et_station list \<Rightarrow> int \<Rightarrow> nat \<Rightarrow> bool option" where
  "listed stats num pstat =
     (if st_next (stats ! pstat) > -1 then
        (case stat_ix stats (st_next (stats ! pstat)) of
           None \<Rightarrow> None
         | Some pnext \<Rightarrow>
             if st_num (stats ! pnext) = num then Some True
             else if cf_flow_mode (st_config (stats ! pnext)) = ET_STATION_PARALLEL then
               (case listed_parallel stats num pnext of
                  None \<Rightarrow> None
                | Some inlist \<Rightarrow> if inlist then Some True else listed stats num pnext)
             else listed stats num pnext)
      else Some False)"

text \<open>A station that is removed is told to end its conductor and is then initialised.\<close>

fun fix_stations_from :: "et_station list \<Rightarrow> nat list \<Rightarrow> int \<Rightarrow> (et_station list \<times> int) option" where
  "fix_stations_from stats [] nstats = Some (stats, nstats)"
| "fix_stations_from stats (i # is) nstats =
     (if \<not> i < length stats then None
      else
        let ps = stats ! i in
        if sd_status (st_data ps) = ET_STATION_CREATING then
          fix_stations_from (upd_at i et_init_station stats) is nstats
        else if sd_status (st_data ps) \<noteq> ET_STATION_UNUSED then
          (case listed stats (st_num ps) 0 of
             None \<Rightarrow> None
           | Some inlist \<Rightarrow>
               fix_stations_from
                 (if inlist then stats else upd_at i (\<lambda>x. et_init_station (x\<lparr>st_conductor := ET_THREAD_KILL\<rparr>)) stats)
                 is (nstats + 1))
        else fix_stations_from stats is nstats)"

definition et_fix_stations :: "et_id \<Rightarrow> et_id option" where
  "et_fix_stations eid =
     (if id_stats eid = [] then None
      else map_option (\<lambda>(stats, nstats). eid\<lparr>id_stats := stats, id_sys := (id_sys eid)\<lparr>sy_nstations := nstats\<rparr>\<rparr>)
        (fix_stations_from (id_stats eid) [1..<nat (nstations_max eid)] 1))"

section \<open>Attachments and processes\<close>

definition nattachments_max :: "et_id \<Rightarrow> nat" where
  "nattachments_max eid = nat (sc_nattachments (sy_config (id_sys eid)))"

definition nprocesses_max :: "et_id \<Rightarrow> nat" where
  "nprocesses_max eid = nat (sc_nprocesses (sy_config (id_sys eid)))"

definition station_knows :: "et_id \<Rightarrow> nat \<Rightarrow> bool" where
  "station_knows eid i \<longleftrightarrow> list_ex (\<lambda>ps. sd_att (st_data ps) ! i = int i \<and> sd_status (st_data ps) = ET_STATION_ACTIVE)
     (take (nat (nstations_max eid)) (id_stats eid))"

definition forget_att :: "nat \<Rightarrow> et_id \<Rightarrow> et_id" where
  "forget_att i eid = eid\<lparr>id_sys := (id_sys eid)\<lparr>sy_proc :=
     map (\<lambda>p. p\<lparr>pr_att := (pr_att p)[i := -1]\<rparr>) (take (nprocesses_max eid) (sy_proc (id_sys eid))) @
       drop (nprocesses_max eid) (sy_proc (id_sys eid))\<rparr>\<rparr>"

definition fix_attachment :: "nat \<Rightarrow> et_id \<Rightarrow> et_id" where
  "fix_attachment i eid =
     (if at_num (sy_attach (id_sys eid) ! i) \<noteq> -1 \<and> \<not> station_knows eid i then
        add_nattachments (-1) (upd_att (forget_att i eid) i et_init_attachment)
      else eid)"

definition et_fix_attachments :: "et_id \<Rightarrow> et_id" where
  "et_fix_attachments eid = fold fix_attachment [0..<nattachments_max eid] eid"

definition own_numbers :: "nat \<Rightarrow> int list \<Rightarrow> int" where
  "own_numbers n atts = int (length (filter (\<lambda>j. atts ! j = int j) [0..<n]))"

definition fix_station_natts :: "nat \<Rightarrow> et_station \<Rightarrow> et_station" where
  "fix_station_natts n ps =
     (if sd_status (st_data ps) \<noteq> ET_STATION_ACTIVE then ps
      else ps\<lparr>st_data := (st_data ps)\<lparr>sd_nattachments := own_numbers n (sd_att (st_data ps))\<rparr>\<rparr>)"

definition fix_proc_natts :: "nat \<Rightarrow> et_proc \<Rightarrow> et_proc" where
  "fix_proc_natts n p =
     (if pr_status p \<noteq> ET_PROC_OPEN then p else p\<lparr>pr_nattachments := own_numbers n (pr_att p)\<rparr>)"

definition et_fix_natts :: "et_id \<Rightarrow> et_id" where
  "et_fix_natts eid =
     (let n = nattachments_max eid; k = nat (nstations_max eid); stats = id_stats eid; procs = sy_proc (id_sys eid);
          active = filter (\<lambda>ps. sd_status (st_data ps) = ET_STATION_ACTIVE) (take k stats)
      in eid\<lparr>id_stats := map (fix_station_natts n) (take k stats) @ drop k stats,
           id_sys := (id_sys eid)\<lparr>
             sy_nattachments := sum_list (map (\<lambda>ps. own_numbers n (sd_att (st_data ps))) active),
             sy_proc := map (fix_proc_natts n) (take (nprocesses_max eid) procs) @ drop (nprocesses_max eid) procs\<rparr>\<rparr>)"

definition et_fix_nprocs :: "et_id \<Rightarrow> et_id" where
  "et_fix_nprocs eid = eid\<lparr>id_sys := (id_sys eid)\<lparr>sy_nprocesses :=
     int (length (filter (\<lambda>p. pr_status p = ET_PROC_OPEN) (take (nprocesses_max eid) (sy_proc (id_sys eid)))))\<rparr>\<rparr>"

section \<open>Cleaning up after a process\<close>

text \<open>
  What others do while the clean-up waits for mutexes: in \<open>et_fix_mutexes\<close>, in \<open>et_repair_gc\<close> and in
  \<open>et_repair_station\<close> for each attachment; \<open>cl_remote\<close> is the request of a remote user.
\<close>

record waits =
  cl_mutexes :: "et_id \<Rightarrow> et_id"
  cl_gc :: "(et_id \<Rightarrow> et_id) list"
  cl_in :: "nat \<Rightarrow> (et_id \<Rightarrow> et_id) list"
  cl_out :: "nat \<Rightarrow> (et_id \<Rightarrow> et_id) list"
  cl_remote :: "et_id \<Rightarrow> int \<Rightarrow> int \<times> et_id"

fun detach_all :: "waits \<Rightarrow> nat \<Rightarrow> nat list \<Rightarrow> et_id \<Rightarrow> et_id option" where
  "detach_all w i [] eid = Some eid"
| "detach_all w i (j # js) eid =
     (if pr_att (sy_proc (id_sys eid) ! i) ! j = -1 then detach_all w i js eid
      else case stat_ix (id_stats eid) (at_stat (sy_attach (id_sys eid) ! j)) of
             None \<Rightarrow> None
           | Some s \<Rightarrow>
               case et_repair_station (cl_in w j) (cl_out w j) eid s of
                 None \<Rightarrow> None
               | Some (status, eid1) \<Rightarrow>
                   case et_station_detach (cl_remote w) eid1 (int j) of
                     None \<Rightarrow> None
                   | Some (r, eid2) \<Rightarrow> detach_all w i js eid2)"

definition set_cleanup :: "int \<Rightarrow> et_id \<Rightarrow> et_id" where
  "set_cleanup v eid = eid\<lparr>id_cleanup := v\<rparr>"

definition close_proc :: "nat \<Rightarrow> et_id \<Rightarrow> et_id" where
  "close_proc i eid = eid\<lparr>id_sys := (id_sys eid)\<lparr>sy_nprocesses := sy_nprocesses (id_sys eid) - 1,
     sy_proc := (sy_proc (id_sys eid))[i := et_init_process (sy_proc (id_sys eid) ! i)]\<rparr>\<rparr>"

definition clean_process :: "waits \<Rightarrow> nat \<Rightarrow> et_id \<Rightarrow> et_id option" where
  "clean_process w i eid =
     do { eid1 \<leftarrow> et_fix_linkedlist (cl_mutexes w (set_cleanup 1 eid));
          eid2 \<leftarrow> et_fix_stations eid1;
          (status, eid3) \<leftarrow> et_repair_gc (cl_gc w) (et_fix_attachments eid2);
          eid4 \<leftarrow> detach_all w i [0..<nattachments_max eid3] eid3;
          Some (set_cleanup 0 (et_fix_natts (et_fix_nprocs (close_proc i eid4)))) }"

section \<open>Watching heartbeats\<close>

record monitor =
  mo_oldheartbt :: "32 word list"
  mo_newheartbt :: "32 word list"
  mo_oldTime :: "uint64 list"
  mo_newTime :: "uint64 list"

text \<open>The arrays of new values have no initial values in the code.\<close>

definition monitor_start :: "32 word list \<Rightarrow> uint64 list \<Rightarrow> monitor" where
  "monitor_start hb t = \<lparr>mo_oldheartbt = replicate ET_PROCESSES_MAX (-1), mo_newheartbt = hb,
     mo_oldTime = replicate ET_PROCESSES_MAX 0, mo_newTime = t\<rparr>"

definition read_proc :: "et_id \<Rightarrow> nat \<Rightarrow> monitor \<Rightarrow> monitor" where
  "read_proc eid i mo =
     (let p = sy_proc (id_sys eid) ! i in
      if pr_status p \<noteq> ET_PROC_OPEN then mo
      else mo\<lparr>mo_newTime := (mo_newTime mo)[i := pr_time p], mo_newheartbt := (mo_newheartbt mo)[i := pr_heartbeat p]\<rparr>)"

definition look_at :: "waits \<Rightarrow> nat \<Rightarrow> monitor \<times> et_id \<Rightarrow> (monitor \<times> et_id) option" where
  "look_at w i st =
     (let (mo, eid) = st in
      if pr_status (sy_proc (id_sys eid) ! i) \<noteq> ET_PROC_OPEN then Some (mo, eid)
      else if mo_oldheartbt mo ! i \<noteq> mo_newheartbt mo ! i then
        Some (mo\<lparr>mo_oldheartbt := (mo_oldheartbt mo)[i := mo_newheartbt mo ! i],
                 mo_oldTime := (mo_oldTime mo)[i := mo_newTime mo ! i]\<rparr>, eid)
      else if mo_oldTime mo ! i \<noteq> mo_newTime mo ! i then
        Some (mo\<lparr>mo_oldTime := (mo_oldTime mo)[i := mo_newTime mo ! i]\<rparr>, eid)
      else map_option (\<lambda>eid'. (mo\<lparr>mo_oldheartbt := (mo_oldheartbt mo)[i := 0]\<rparr>, eid')) (clean_process w i eid))"

fun look_all :: "(nat \<Rightarrow> waits) \<Rightarrow> nat list \<Rightarrow> monitor \<times> et_id \<Rightarrow> (monitor \<times> et_id) option" where
  "look_all w [] st = Some st"
| "look_all w (i # is) st = Option.bind (look_at (w i) i st) (look_all w is)"

text \<open>
  One round of \<open>et_sys_heartmonitor\<close>: the heartbeats are read while the system is locked, then each
  process is looked at; \<open>between\<close> is what others do after the system is unlocked.
\<close>

definition et_sys_heartmonitor ::
  "(et_id \<Rightarrow> et_id) \<Rightarrow> (nat \<Rightarrow> waits) \<Rightarrow> monitor \<times> et_id \<Rightarrow> (monitor \<times> et_id) option" where
  "et_sys_heartmonitor between w st =
     (let (mo, eid) = st; procs = [0..<nprocesses_max eid] in
      look_all w procs (fold (read_proc eid) procs mo, between eid))"

text \<open>
  One beat of \<open>et_sys_heartbeat\<close>; \<open>None\<close> is a system that ends itself because it has been told to.
\<close>

definition et_sys_heartbeat :: "et_id \<Rightarrow> et_id option" where
  "et_sys_heartbeat eid =
     (let eid1 = eid\<lparr>id_sys := (id_sys eid)\<lparr>sy_heartbeat := (sy_heartbeat (id_sys eid) + 1) mod 0xFFFFFFFF\<rparr>\<rparr> in
      if and (sy_bitInfo (id_sys eid1)) ET_KILL_MASK \<noteq> 0 then None else Some eid1)"

end
