(* ===== verification/ET_Relink.thy ===== *)
theory ET_Relink
  imports ET_Cleanup
begin

text \<open>
  The repair of the chain of stations: whatever the backward links and the tail are,
  \<open>et_fix_linkedlist\<close> makes a well-formed chain out of right forward links, and \<open>et_fix_stations\<close>
  drops the stations that are not in it. Since the routines that change the chain set the forward
  link last, a death in them leaves the old or the new chain.
\<close>

section \<open>Forward links\<close>

fun flinked :: "(nat \<Rightarrow> int) \<Rightarrow> nat list \<Rightarrow> bool" where
  "flinked nx (x # y # zs) \<longleftrightarrow> nx x = int y \<and> flinked nx (y # zs)"
| "flinked nx zs \<longleftrightarrow> True"

definition forward_group :: "et_station list \<Rightarrow> nat list \<Rightarrow> bool" where
  "forward_group stats g \<longleftrightarrow> g \<noteq> [] \<and>
     (if cf_flow_mode (st_config (stats ! hd g)) = ET_STATION_PARALLEL
      then flinked (\<lambda>i. st_nextparallel (stats ! i)) g \<and> st_nextparallel (stats ! last g) = -1 \<and>
        (\<forall>i \<in> set g. cf_flow_mode (st_config (stats ! i)) = ET_STATION_PARALLEL)
      else tl g = [])"

definition forward_ok :: "et_station list \<Rightarrow> nat list list \<Rightarrow> bool" where
  "forward_ok stats gs \<longleftrightarrow> distinct (0 # concat gs) \<and> members_ok stats (set (0 # concat gs)) \<and>
     flinked (\<lambda>i. st_next (stats ! i)) (0 # map hd gs) \<and> st_next (stats ! last (0 # map hd gs)) = -1 \<and>
     st_prev (stats ! 0) = -1 \<and> (\<forall>g \<in> set gs. forward_group stats g)"

lemma flinked_Cons: "flinked nx (x # xs) \<longleftrightarrow> flinked nx xs \<and> (xs \<noteq> [] \<longrightarrow> nx x = int (hd xs))"
  by (cases xs) auto

lemma flinked_append:
  "flinked nx (xs @ ys) \<longleftrightarrow> flinked nx xs \<and> flinked nx ys \<and> (xs \<noteq> [] \<longrightarrow> ys \<noteq> [] \<longrightarrow> nx (last xs) = int (hd ys))"
  by (induction xs) (auto simp: flinked_Cons)

lemma flinked_cong: "(\<And>x. x \<in> set (butlast xs) \<Longrightarrow> nx' x = nx x) \<Longrightarrow> flinked nx' xs = flinked nx xs"
  by (induction nx' xs rule: flinked.induct) (auto simp: flinked_Cons)

lemma dlinked_flinked: "dlinked nx pv xs \<Longrightarrow> flinked nx xs"
  by (induction nx pv xs rule: dlinked.induct) auto

section \<open>One group\<close>

definition outside :: "nat set \<Rightarrow> et_station list \<Rightarrow> et_station list \<Rightarrow> bool" where
  "outside S stats stats' \<longleftrightarrow> map nolinks stats' = map nolinks stats \<and> (\<forall>i. i \<notin> S \<longrightarrow> stats' ! i = stats ! i)"

lemma outside_refl [simp]: "outside S stats stats"
  by (simp add: outside_def)

lemma outside_trans: "outside S a b \<Longrightarrow> outside T b c \<Longrightarrow> S \<subseteq> U \<Longrightarrow> T \<subseteq> U \<Longrightarrow> outside U a c"
  unfolding outside_def by (metis subsetD)

lemma outside_upd: "(\<And>x. nolinks (f x) = nolinks x) \<Longrightarrow> i \<in> S \<Longrightarrow> outside S stats (upd_at i f stats)"
  by (auto simp: outside_def map_nolinks_upd upd_at_nth)

lemma outsideD:
  assumes "outside S stats stats'"
  shows "length stats' = length stats" "i \<notin> S \<Longrightarrow> stats' ! i = stats ! i"
    "i < length stats \<Longrightarrow> st_num (stats' ! i) = st_num (stats ! i)"
    "i < length stats \<Longrightarrow> st_config (stats' ! i) = st_config (stats ! i)"
    "members_ok stats' M = members_ok stats M"
proof -
  have m: "map nolinks stats' = map nolinks stats" using assms by (simp add: outside_def)
  show l: "length stats' = length stats" by (rule map_nolinks_nth(1) [OF m])
  show "i \<notin> S \<Longrightarrow> stats' ! i = stats ! i" using assms by (simp add: outside_def)
  have n: "i < length stats \<Longrightarrow> st_num (stats' ! i) = st_num (stats ! i)" for i
    using nolinks_eqD(1) [OF map_nolinks_nth(2) [OF m]] l by simp
  then show "i < length stats \<Longrightarrow> st_num (stats' ! i) = st_num (stats ! i)" .
  show "i < length stats \<Longrightarrow> st_config (stats' ! i) = st_config (stats ! i)"
    using nolinks_eqD(2) [OF map_nolinks_nth(2) [OF m]] l by simp
  show "members_ok stats' M = members_ok stats M" using l n by (auto simp: members_ok_def)
qed

lemma fix_parallel_run:
  assumes "flinked (\<lambda>i. st_nextparallel (stats ! i)) (x # rest)" "st_nextparallel (stats ! last (x # rest)) = -1"
    "distinct (x # rest)" "members_ok stats (set (x # rest))"
  shows "\<exists>stats'. fix_parallel stats x = Some stats' \<and> outside (set rest) stats stats' \<and>
     dlinked (\<lambda>i. st_nextparallel (stats' ! i)) (\<lambda>i. st_prevparallel (stats' ! i)) (x # rest) \<and>
     st_nextparallel (stats' ! last (x # rest)) = -1 \<and> (\<forall>i \<in> set rest. st_prev (stats' ! i) = -1 \<and> st_next (stats' ! i) = -1)"
  using assms
proof (induction rest arbitrary: stats x)
  case Nil
  then show ?case by (simp add: fix_parallel.simps [of stats x])
next
  case (Cons y rest)
  let ?f = "\<lambda>s. s\<lparr>st_prevparallel := st_num (stats ! x), st_prev := -1, st_next := -1\<rparr>"
  let ?s1 = "upd_at y ?f stats"
  have y: "y < length stats" "x \<noteq> y" "y \<notin> set rest" "x \<notin> set rest" "st_num (stats ! x) = int x" "st_nextparallel (stats ! x) = int y"
    using Cons.prems by (auto simp: members_ok_def)
  have np: "st_nextparallel (?s1 ! i) = st_nextparallel (stats ! i)" for i by (simp add: upd_at_nth)
  have "members_ok ?s1 (set (y # rest))" using Cons.prems(4) by (auto simp: members_ok_def upd_at_nth)
  then obtain stats' where r: "fix_parallel ?s1 y = Some stats'" "outside (set rest) ?s1 stats'"
    "dlinked (\<lambda>i. st_nextparallel (stats' ! i)) (\<lambda>i. st_prevparallel (stats' ! i)) (y # rest)"
    "st_nextparallel (stats' ! last (y # rest)) = -1" "\<forall>i \<in> set rest. st_prev (stats' ! i) = -1 \<and> st_next (stats' ! i) = -1"
    using Cons.IH [of ?s1 y] Cons.prems by (auto simp: np)
  have "fix_parallel stats x = Some stats'"
    using r(1) y(1,6) by (subst fix_parallel.simps) simp
  moreover have "outside (set (y # rest)) stats stats'"
    by (rule outside_trans [OF outside_upd r(2)]) (use y in auto)
  moreover have "stats' ! y = ?f (stats ! y)" "stats' ! x = stats ! x"
    using outsideD(2) [OF r(2)] y by (simp_all add: upd_at_nth)
  then have "dlinked (\<lambda>i. st_nextparallel (stats' ! i)) (\<lambda>i. st_prevparallel (stats' ! i)) (x # y # rest) \<and>
      st_nextparallel (stats' ! last (x # y # rest)) = -1 \<and>
      (\<forall>i \<in> set (y # rest). st_prev (stats' ! i) = -1 \<and> st_next (stats' ! i) = -1)"
    using r(3-5) y by simp
  ultimately show ?case by blast
qed

lemma fix_parallel_same:
  assumes "dlinked (\<lambda>i. st_nextparallel (stats ! i)) (\<lambda>i. st_prevparallel (stats ! i)) (x # rest)"
    "st_nextparallel (stats ! last (x # rest)) = -1" "members_ok stats (set (x # rest))"
    "\<forall>i \<in> set rest. st_prev (stats ! i) = -1 \<and> st_next (stats ! i) = -1"
  shows "fix_parallel stats x = Some stats"
  using assms
proof (induction rest arbitrary: x)
  case Nil
  then show ?case by (simp add: fix_parallel.simps [of stats x])
next
  case (Cons y rest)
  have y: "y < length stats" "st_num (stats ! x) = int x" "st_nextparallel (stats ! x) = int y" "st_prevparallel (stats ! y) = int x"
    "st_prev (stats ! y) = -1" "st_next (stats ! y) = -1"
    using Cons.prems by (auto simp: members_ok_def)
  have "(stats ! y)\<lparr>st_prevparallel := st_num (stats ! x), st_prev := -1, st_next := -1\<rparr> = stats ! y"
    using y by (cases "stats ! y") simp
  then have "upd_at y (\<lambda>s. s\<lparr>st_prevparallel := st_num (stats ! x), st_prev := -1, st_next := -1\<rparr>) stats = stats"
    by (simp add: upd_at_def)
  moreover have "fix_parallel stats y = Some stats" using Cons by (auto simp: members_ok_def)
  ultimately show ?case using y by (subst fix_parallel.simps) simp
qed

section \<open>The chain\<close>

lemma fix_group:
  assumes "forward_group stats g" "distinct g" "members_ok stats (set g)"
  shows "\<exists>stats'. (if cf_flow_mode (st_config (stats ! hd g)) = ET_STATION_PARALLEL
        then fix_parallel (upd_at (hd g) (\<lambda>x. x\<lparr>st_prevparallel := -1\<rparr>) stats) (hd g)
        else Some (upd_at (hd g) (\<lambda>x. x\<lparr>st_prevparallel := -1, st_nextparallel := -1\<rparr>) stats)) = Some stats' \<and>
     outside (set g) stats stats' \<and> group_ok stats' g \<and> st_prev (stats' ! hd g) = st_prev (stats ! hd g) \<and>
     st_next (stats' ! hd g) = st_next (stats ! hd g)"
proof (cases "cf_flow_mode (st_config (stats ! hd g)) = ET_STATION_PARALLEL")
  case False
  then obtain x where g: "g = [x]" using assms(1) by (cases g) (auto simp: forward_group_def)
  then have "x < length stats" using assms(3) by (simp add: members_ok_def)
  with False g show ?thesis by (auto simp: group_ok_def outside_def map_nolinks_upd upd_at_nth)
next
  case True
  then obtain x rest where g: "g = x # rest" using assms(1) by (cases g) (auto simp: forward_group_def)
  let ?s1 = "upd_at x (\<lambda>x. x\<lparr>st_prevparallel := -1\<rparr>) stats"
  have x: "x < length stats" "x \<notin> set rest" using assms(2,3) g by (auto simp: members_ok_def)
  have np: "st_nextparallel (?s1 ! i) = st_nextparallel (stats ! i)" for i by (simp add: upd_at_nth)
  have o1: "outside {x} stats ?s1" by (rule outside_upd) simp_all
  have "members_ok ?s1 (set (x # rest))" using assms(3) unfolding outsideD(5) [OF o1] g .
  then obtain stats' where r: "fix_parallel ?s1 x = Some stats'" "outside (set rest) ?s1 stats'"
    "dlinked (\<lambda>i. st_nextparallel (stats' ! i)) (\<lambda>i. st_prevparallel (stats' ! i)) (x # rest)"
    "st_nextparallel (stats' ! last (x # rest)) = -1" "\<forall>i \<in> set rest. st_prev (stats' ! i) = -1 \<and> st_next (stats' ! i) = -1"
    using fix_parallel_run [of ?s1 x rest] assms(1,2) True unfolding np forward_group_def g by auto
  have o: "outside (set g) stats stats'" by (rule outside_trans [OF o1 r(2)]) (use g in auto)
  have "stats' ! x = (stats ! x)\<lparr>st_prevparallel := -1\<rparr>" using outsideD(2) [OF r(2) x(2)] x(1) by (simp add: upd_at_nth)
  moreover have "cf_flow_mode (st_config (stats' ! i)) = ET_STATION_PARALLEL" if "i \<in> set g" for i
    using that assms(1,3) True outsideD(4) [OF o] by (auto simp: forward_group_def members_ok_def)
  ultimately show ?thesis using r o True g by (simp add: group_ok_def)
qed

lemma fix_main_run:
  assumes "flinked (\<lambda>i. st_next (stats ! i)) (p # map hd gs)" "st_next (stats ! last (p # map hd gs)) = -1"
    "distinct (p # concat gs)" "members_ok stats (set (p # concat gs))" "\<forall>g \<in> set gs. forward_group stats g"
  shows "\<exists>stats'. fix_main stats p = Some (stats', int (last (p # map hd gs))) \<and> outside (set (concat gs)) stats stats' \<and>
     dlinked (\<lambda>i. st_next (stats' ! i)) (\<lambda>i. st_prev (stats' ! i)) (p # map hd gs) \<and>
     st_next (stats' ! last (p # map hd gs)) = -1 \<and> (\<forall>g \<in> set gs. group_ok stats' g)"
  using assms
proof (induction gs arbitrary: stats p)
  case Nil
  then show ?case by (simp add: fix_main.simps [of stats p] members_ok_def)
next
  case (Cons g gs)
  let ?h = "hd g" and ?s1 = "upd_at (hd g) (\<lambda>x. x\<lparr>st_prev := st_num (stats ! p)\<rparr>) stats"
  have g: "g \<noteq> []" "?h \<in> set g" using Cons.prems(5) by (auto simp: forward_group_def)
  have m: "members_ok stats (set g)" "members_ok stats (set (?h # concat gs))" using Cons.prems(4) g by (auto simp: members_ok_def)
  have p: "st_num (stats ! p) = int p" "st_next (stats ! p) = int ?h" "?h < length stats" "p \<noteq> ?h" "p \<notin> set g" "p \<notin> set (concat gs)"
    using Cons.prems(1,3,4) g by (auto simp: members_ok_def)
  have d: "distinct g" "distinct (?h # concat gs)" "set g \<inter> set (concat gs) = {}" using Cons.prems(3) g(2) by auto
  have o1: "outside {?h} stats ?s1" by (rule outside_upd) simp_all
  have f1: "st_nextparallel (?s1 ! i) = st_nextparallel (stats ! i)" "st_config (?s1 ! i) = st_config (stats ! i)"
    "st_next (?s1 ! i) = st_next (stats ! i)" for i by (simp_all add: upd_at_nth)
  have fg: "forward_group ?s1 k = forward_group stats k" for k by (simp add: forward_group_def f1)
  have "members_ok ?s1 (set g)" unfolding outsideD(5) [OF o1] by (rule m(1))
  then obtain s2 where r: "(if cf_flow_mode (st_config (?s1 ! ?h)) = ET_STATION_PARALLEL
        then fix_parallel (upd_at ?h (\<lambda>x. x\<lparr>st_prevparallel := -1\<rparr>) ?s1) ?h
        else Some (upd_at ?h (\<lambda>x. x\<lparr>st_prevparallel := -1, st_nextparallel := -1\<rparr>) ?s1)) = Some s2"
    "outside (set g) ?s1 s2" "group_ok s2 g" "st_prev (s2 ! ?h) = st_prev (?s1 ! ?h)" "st_next (s2 ! ?h) = st_next (?s1 ! ?h)"
    using fix_group [of ?s1 g] Cons.prems(5) d(1) fg by auto
  have o2: "outside (set g) stats s2" by (rule outside_trans [OF o1 r(2)]) (use g in auto)
  have keep: "s2 ! i = stats ! i" if "i \<notin> set g" for i by (rule outsideD(2) [OF o2 that])
  have hds: "hd k \<notin> set g" "set k \<inter> set g = {}" if "k \<in> set gs" for k
  proof -
    have "k \<noteq> []" using that Cons.prems(5) by (auto simp: forward_group_def)
    then have "hd k \<in> set (concat gs)" "set k \<subseteq> set (concat gs)" using that by (auto intro!: bexI [of _ k])
    with d(3) show "hd k \<notin> set g" "set k \<inter> set g = {}" by auto
  qed
  have nx: "st_next (s2 ! i) = st_next (stats ! i)" if "i \<in> set (?h # map hd gs)" for i
    using that r(5) keep hds f1(3) by auto
  have "\<exists>stats'. fix_main s2 ?h = Some (stats', int (last (?h # map hd gs))) \<and> outside (set (concat gs)) s2 stats' \<and>
     dlinked (\<lambda>i. st_next (stats' ! i)) (\<lambda>i. st_prev (stats' ! i)) (?h # map hd gs) \<and>
     st_next (stats' ! last (?h # map hd gs)) = -1 \<and> (\<forall>g \<in> set gs. group_ok stats' g)"
  proof (rule Cons.IH)
    have "flinked (\<lambda>i. st_next (s2 ! i)) (?h # map hd gs) = flinked (\<lambda>i. st_next (stats ! i)) (?h # map hd gs)"
      by (rule flinked_cong) (rule nx, rule in_set_butlastD)
    then show "flinked (\<lambda>i. st_next (s2 ! i)) (?h # map hd gs)" using Cons.prems(1) by simp
    have "st_next (s2 ! last (?h # map hd gs)) = st_next (stats ! last (?h # map hd gs))" by (rule nx) (rule last_in_set, simp)
    then show "st_next (s2 ! last (?h # map hd gs)) = -1" using Cons.prems(2) by simp
    show "distinct (?h # concat gs)" by (rule d(2))
    show "members_ok s2 (set (?h # concat gs))" unfolding outsideD(5) [OF o2] by (rule m(2))
    show "\<forall>g \<in> set gs. forward_group s2 g"
    proof
      fix k assume k: "k \<in> set gs"
      then have fk: "forward_group stats k" using Cons.prems(5) by simp
      then have k0: "k \<noteq> []" by (simp add: forward_group_def)
      have e: "s2 ! i = stats ! i" if "i \<in> set k" for i by (rule keep) (use hds(2) [OF k] that in blast)
      have "flinked (\<lambda>i. st_nextparallel (s2 ! i)) k = flinked (\<lambda>i. st_nextparallel (stats ! i)) k"
        by (rule flinked_cong) (metis e in_set_butlastD)
      with fk k0 e show "forward_group s2 k" by (simp add: forward_group_def)
    qed
  qed
  then obtain stats' where s': "fix_main s2 ?h = Some (stats', int (last (?h # map hd gs)))" "outside (set (concat gs)) s2 stats'"
     "dlinked (\<lambda>i. st_next (stats' ! i)) (\<lambda>i. st_prev (stats' ! i)) (?h # map hd gs)"
     "st_next (stats' ! last (?h # map hd gs)) = -1" "\<forall>g \<in> set gs. group_ok stats' g" by blast
  have run: "fix_main stats p = Some (stats', int (last (p # map hd (g # gs))))"
    using p(2,3) r(1) s'(1) by (subst fix_main.simps) (simp add: Let_def)
  have out: "outside (set (concat (g # gs))) stats stats'"
    by (rule outside_trans [OF o2 s'(2)]) auto
  have e: "stats' ! i = s2 ! i" if "i \<in> set g" for i by (rule outsideD(2) [OF s'(2)]) (use d(3) that in blast)
  have "group_ok stats' g = group_ok s2 g" by (rule group_ok_cong) (simp_all add: e in_set_tlD)
  with r(3) s'(5) have gr: "\<forall>k \<in> set (g # gs). group_ok stats' k" by simp
  have "stats' ! p = stats ! p" by (rule outsideD(2) [OF out]) (use p(5,6) in simp)
  moreover have "st_prev (stats' ! ?h) = int p" using e [OF g(2)] r(4) p(1,3) by (simp add: upd_at_nth)
  ultimately have "dlinked (\<lambda>i. st_next (stats' ! i)) (\<lambda>i. st_prev (stats' ! i)) (p # map hd (g # gs))"
    using s'(3) p(2) by simp
  with run out gr s'(4) show ?case by auto
qed

lemma fix_main_chain:
  assumes "forward_ok stats gs"
  shows "\<exists>stats' tail. fix_main stats 0 = Some (stats', tail) \<and> chain_ok stats' tail gs \<and> outside (set (concat gs)) stats stats'"
proof -
  note f = assms [unfolded forward_ok_def]
  from fix_main_run [of stats 0 gs] f obtain stats' where r: "fix_main stats 0 = Some (stats', int (last (0 # map hd gs)))"
    "outside (set (concat gs)) stats stats'" "dlinked (\<lambda>i. st_next (stats' ! i)) (\<lambda>i. st_prev (stats' ! i)) (0 # map hd gs)"
    "st_next (stats' ! last (0 # map hd gs)) = -1" "\<forall>g \<in> set gs. group_ok stats' g" by auto
  have "stats' ! 0 = stats ! 0" by (rule outsideD(2) [OF r(2)]) (use f in simp)
  then have "chain_ok stats' (int (last (0 # map hd gs))) gs"
    using r f outsideD(5) [OF r(2)] by (simp add: chain_ok_def main_ok_def)
  with r(1,2) show ?thesis by blast
qed

lemma forward_of_chain:
  assumes "chain_ok stats tail gs"
  shows "forward_ok stats gs"
proof -
  note d = chain_okD [OF assms]
  have "forward_group stats g" if "g \<in> set gs" for g
  proof -
    note o = d(4) [OF that, unfolded group_ok_def]
    have "cf_flow_mode (st_config (stats ! i)) = ET_STATION_PARALLEL"
      if "cf_flow_mode (st_config (stats ! hd g)) = ET_STATION_PARALLEL" "i \<in> set g" for i
      using that o by (cases g) auto
    moreover have "tl g = []" if "cf_flow_mode (st_config (stats ! hd g)) \<noteq> ET_STATION_PARALLEL"
      using that o by (cases g) auto
    moreover have "flinked (\<lambda>i. st_nextparallel (stats ! i)) g"
      by (rule dlinked_flinked [where pv = "\<lambda>i. st_prevparallel (stats ! i)"]) (use o in blast)
    moreover have "g \<noteq> []" "st_nextparallel (stats ! last g) = -1" using o by blast+
    ultimately show ?thesis unfolding forward_group_def by auto
  qed
  moreover have "flinked (\<lambda>i. st_next (stats ! i)) (0 # map hd gs)"
    by (rule dlinked_flinked [where pv = "\<lambda>i. st_prev (stats ! i)"]) (use d(3) in \<open>simp add: main_ok_def\<close>)
  ultimately show ?thesis using d(1-3) by (simp add: forward_ok_def main_ok_def)
qed

text \<open>What the repair reads of the chain \<open>gs\<close>.\<close>

definition fwd_same :: "nat list list \<Rightarrow> et_station list \<Rightarrow> et_station list \<Rightarrow> bool" where
  "fwd_same gs stats stats' \<longleftrightarrow> length stats' = length stats \<and> st_prev (stats' ! 0) = st_prev (stats ! 0) \<and>
     (\<forall>i \<in> set (0 # concat gs). st_num (stats' ! i) = st_num (stats ! i) \<and> st_config (stats' ! i) = st_config (stats ! i) \<and>
        st_nextparallel (stats' ! i) = st_nextparallel (stats ! i)) \<and>
     (\<forall>i \<in> set (0 # map hd gs). st_next (stats' ! i) = st_next (stats ! i))"

lemma fwd_same_refl [simp]: "fwd_same gs a a"
  by (simp add: fwd_same_def)

lemma fwd_same_trans: "fwd_same gs a b \<Longrightarrow> fwd_same gs b c \<Longrightarrow> fwd_same gs a c"
  by (auto simp: fwd_same_def)

lemma fwd_same_forward:
  assumes "fwd_same gs stats stats'" "forward_ok stats gs"
  shows "forward_ok stats' gs"
proof -
  note s = assms(1) [unfolded fwd_same_def] and f = assms(2) [unfolded forward_ok_def]
  have "forward_group stats' g" if g: "g \<in> set gs" for g
  proof -
    have "forward_group stats g" using f g by blast
    moreover have "i \<in> set (0 # concat gs)" if "i \<in> set g" for i using g that by auto
    then have e: "st_nextparallel (stats' ! i) = st_nextparallel (stats ! i) \<and> st_config (stats' ! i) = st_config (stats ! i)"
      if "i \<in> set g" for i using s that by blast
    moreover have "flinked (\<lambda>i. st_nextparallel (stats' ! i)) g = flinked (\<lambda>i. st_nextparallel (stats ! i)) g"
      by (rule flinked_cong) (metis e in_set_butlastD)
    ultimately show ?thesis using e [of "hd g"] e [of "last g"] by (auto simp: forward_group_def)
  qed
  moreover have nx: "st_next (stats' ! i) = st_next (stats ! i)" if "i \<in> set (0 # map hd gs)" for i using s that by blast
  moreover have "flinked (\<lambda>i. st_next (stats' ! i)) (0 # map hd gs) = flinked (\<lambda>i. st_next (stats ! i)) (0 # map hd gs)"
    by (rule flinked_cong) (rule nx, rule in_set_butlastD)
  moreover have "st_next (stats' ! last (0 # map hd gs)) = st_next (stats ! last (0 # map hd gs))" by (rule nx) (rule last_in_set, simp)
  moreover have "members_ok stats' (set (0 # concat gs))" using s f by (simp add: members_ok_def)
  ultimately show ?thesis using s f by (simp add: forward_ok_def)
qed

section \<open>Assignments of the routines that change the chain\<close>

text \<open>
  The single assignments, in the order of the source. The numbers of stations, and the links that are
  copied, are read off the state before the first assignment; none of them changes before it is read.
\<close>

definition link_at :: "nat \<Rightarrow> (et_station \<Rightarrow> et_station) \<Rightarrow> chain \<Rightarrow> chain" where
  "link_at i f ch = (upd_at i f (fst ch), snd ch)"

definition tail_at :: "int \<Rightarrow> chain \<Rightarrow> chain" where
  "tail_at v ch = (fst ch, v)"

definition append_assigns :: "chain \<Rightarrow> nat \<Rightarrow> nat \<Rightarrow> (chain \<Rightarrow> chain) list" where
  "append_assigns ch s previous =
     (let stats = fst ch in
      [link_at s (\<lambda>x. x\<lparr>st_prev := st_num (stats ! previous)\<rparr>), tail_at (st_num (stats ! s)),
       link_at previous (\<lambda>x. x\<lparr>st_next := st_num (stats ! s)\<rparr>)])"

definition between_assigns :: "chain \<Rightarrow> nat \<Rightarrow> nat \<Rightarrow> nat \<Rightarrow> (chain \<Rightarrow> chain) list" where
  "between_assigns ch s previous pnext =
     (let stats = fst ch in
      [link_at s (\<lambda>x. x\<lparr>st_next := int pnext\<rparr>), link_at s (\<lambda>x. x\<lparr>st_prev := st_num (stats ! previous)\<rparr>),
       link_at pnext (\<lambda>x. x\<lparr>st_prev := st_num (stats ! s)\<rparr>), link_at previous (\<lambda>x. x\<lparr>st_next := st_num (stats ! s)\<rparr>)])"

definition parallel_assigns :: "chain \<Rightarrow> nat \<Rightarrow> nat \<Rightarrow> (chain \<Rightarrow> chain) list option" where
  "parallel_assigns ch s parallelStation =
     (let stats = fst ch; nextparallel = st_nextparallel (stats ! parallelStation) in
      do { second \<leftarrow>
             (if nextparallel > -1 then
                do { n \<leftarrow> stat_ix stats nextparallel; Some [link_at n (\<lambda>x. x\<lparr>st_prevparallel := st_num (stats ! s)\<rparr>)] }
              else Some []);
           Some ([link_at s (\<lambda>x. x\<lparr>st_nextparallel := nextparallel\<rparr>),
               link_at s (\<lambda>x. x\<lparr>st_prevparallel := st_num (stats ! parallelStation)\<rparr>)] @ second @
             [link_at parallelStation (\<lambda>x. x\<lparr>st_nextparallel := st_num (stats ! s)\<rparr>)]) })"

definition insert_assigns ::
  "nat \<Rightarrow> int \<Rightarrow> chain \<Rightarrow> nat \<Rightarrow> int \<Rightarrow> int \<Rightarrow> (int \<times> (chain \<Rightarrow> chain) list) option" where
  "insert_assigns fuel nstations ch s position parallelposition =
     (if nstations < 3 then Some (ET_OK, append_assigns ch s 0)
      else
        let stats = fst ch in
        case insert_walk fuel stats 0 1 position of
          None \<Rightarrow> None
        | Some (AtEnd previous) \<Rightarrow> Some (ET_OK, append_assigns ch s previous)
        | Some (Between previous pnext) \<Rightarrow>
            if cf_flow_mode (st_config (stats ! s)) = ET_STATION_PARALLEL \<and>
               cf_flow_mode (st_config (stats ! pnext)) = ET_STATION_PARALLEL \<and> parallelposition \<noteq> ET_NEWHEAD then
              if et_station_compare_parallel (st_config (stats ! pnext)) (st_config (stats ! s)) = 0 then Some (ET_ERROR, [])
              else if parallelposition = 0 then Some (ET_ERROR, [])
              else
                do { p \<leftarrow> parallel_walk fuel stats pnext 1 parallelposition;
                     code \<leftarrow> parallel_assigns ch s p;
                     Some (ET_OK, code) }
            else Some (ET_OK, between_assigns ch s previous pnext))"

definition unlink_main_assigns :: "chain \<Rightarrow> nat \<Rightarrow> (chain \<Rightarrow> chain) list option" where
  "unlink_main_assigns ch s =
     (let (stats, tail) = ch; ps = stats ! s in
      do { previous \<leftarrow> stat_ix stats (st_prev ps);
           back \<leftarrow>
             (if tail = int s then Some (tail_at (st_num (stats ! previous)))
              else do { nxt \<leftarrow> stat_ix stats (st_next ps);
                        Some (link_at nxt (\<lambda>x. x\<lparr>st_prev := st_num (stats ! previous)\<rparr>)) });
           Some [back, link_at previous (\<lambda>x. x\<lparr>st_next := st_next ps\<rparr>)] })"

definition promote_assigns :: "chain \<Rightarrow> nat \<Rightarrow> (chain \<Rightarrow> chain) list option" where
  "promote_assigns ch s =
     (let (stats, tail) = ch; ps = stats ! s in
      do { previous \<leftarrow> stat_ix stats (st_prev ps);
           nextparallel \<leftarrow> stat_ix stats (st_nextparallel ps);
           back \<leftarrow>
             (if tail = int s then Some (tail_at (st_num (stats ! nextparallel)))
              else do { nxt \<leftarrow> stat_ix stats (st_next ps);
                        Some (link_at nxt (\<lambda>x. x\<lparr>st_prev := st_nextparallel ps\<rparr>)) });
           Some [link_at nextparallel (\<lambda>x. x\<lparr>st_prev := st_prev ps\<rparr>), link_at nextparallel (\<lambda>x. x\<lparr>st_next := st_next ps\<rparr>),
             link_at nextparallel (\<lambda>x. x\<lparr>st_prevparallel := -1\<rparr>), back,
             link_at previous (\<lambda>x. x\<lparr>st_next := st_nextparallel ps\<rparr>)] })"

definition unlink_parallel_assigns :: "chain \<Rightarrow> nat \<Rightarrow> (chain \<Rightarrow> chain) list option" where
  "unlink_parallel_assigns ch s =
     (let (stats, tail) = ch; ps = stats ! s in
      do { previous \<leftarrow> stat_ix stats (st_prevparallel ps);
           back \<leftarrow>
             (if st_nextparallel ps > -1 then
                do { nxt \<leftarrow> stat_ix stats (st_nextparallel ps);
                     Some [link_at nxt (\<lambda>x. x\<lparr>st_prevparallel := st_num (stats ! previous)\<rparr>)] }
              else Some []);
           Some (back @ link_at previous (\<lambda>x. x\<lparr>st_nextparallel := st_nextparallel ps\<rparr>) #
             (if st_waslast ps = 1 then [link_at previous (\<lambda>x. x\<lparr>st_waslast := 1\<rparr>)] else [])) })"

definition remove_assigns :: "chain \<Rightarrow> nat \<Rightarrow> (chain \<Rightarrow> chain) list option" where
  "remove_assigns ch s =
     (let ps = fst ch ! s in
      if cf_flow_mode (st_config ps) = ET_STATION_PARALLEL then
        if st_prev ps > -1 then
          if st_nextparallel ps < 0 then unlink_main_assigns ch s else promote_assigns ch s
        else unlink_parallel_assigns ch s
      else unlink_main_assigns ch s)"

section \<open>One assignment makes the change\<close>

definition quiet :: "nat list list \<Rightarrow> (chain \<Rightarrow> chain) \<Rightarrow> bool" where
  "quiet gs f \<longleftrightarrow> (\<forall>ch. fwd_same gs (fst ch) (fst (f ch)))"

definition changes_once :: "(chain \<Rightarrow> chain) list \<Rightarrow> chain \<Rightarrow> nat list list \<Rightarrow> nat list list \<Rightarrow> bool" where
  "changes_once code ch gs gs' \<longleftrightarrow>
     (\<exists>c < length code. \<forall>k. forward_ok (fst (exec (take k code) ch)) (if k \<le> c then gs else gs'))"

lemma fwd_same_sym: "fwd_same gs a b \<Longrightarrow> fwd_same gs b a"
  by (auto simp: fwd_same_def)

lemma quiet_steps [simp]:
  "quiet gs (tail_at v)" "0 < i \<Longrightarrow> quiet gs (link_at i (\<lambda>x. x\<lparr>st_prev := v\<rparr>))"
  "quiet gs (link_at i (\<lambda>x. x\<lparr>st_prevparallel := v\<rparr>))" "quiet gs (link_at i (\<lambda>x. x\<lparr>st_waslast := v\<rparr>))"
  "s \<notin> set (0 # map hd gs) \<Longrightarrow> quiet gs (link_at s (\<lambda>x. x\<lparr>st_next := v\<rparr>))"
  "s \<notin> set (0 # concat gs) \<Longrightarrow> quiet gs (link_at s (\<lambda>x. x\<lparr>st_nextparallel := v\<rparr>))"
  by (auto simp: quiet_def tail_at_def link_at_def fwd_same_def upd_at_nth)

lemma exec_quiet: "\<forall>f \<in> set code. quiet gs f \<Longrightarrow> fwd_same gs (fst ch) (fst (exec code ch))"
proof (induction code arbitrary: ch)
  case (Cons f code)
  have "fwd_same gs (fst ch) (fst (f ch))" using Cons.prems by (simp add: quiet_def del: split_paired_All)
  moreover have "fwd_same gs (fst (f ch)) (fst (exec code (f ch)))" by (rule Cons.IH) (use Cons.prems in simp)
  ultimately have "fwd_same gs (fst ch) (fst (exec code (f ch)))" by (rule fwd_same_trans)
  then show ?case by (simp add: exec_def)
qed (simp add: exec_def)

lemma exec_app: "exec (a @ b) m = exec b (exec a m)"
  by (simp add: exec_def)

lemma changes_onceI:
  assumes f: "forward_ok (fst ch) gs" and pre: "\<forall>f \<in> set pre. quiet gs f" and post: "\<forall>f \<in> set post. quiet gs' f"
    and fin: "forward_ok (fst (exec (pre @ step # post) ch)) gs'"
  shows "changes_once (pre @ step # post) ch gs gs'"
  unfolding changes_once_def
proof (intro exI conjI allI)
  show "length pre < length (pre @ step # post)" by simp
  fix k
  show "forward_ok (fst (exec (take k (pre @ step # post)) ch)) (if k \<le> length pre then gs else gs')"
  proof (cases "k \<le> length pre")
    case True
    then have "fwd_same gs (fst ch) (fst (exec (take k (pre @ step # post)) ch))"
      by (intro exec_quiet) (use pre set_take_subset in fastforce)
    then show ?thesis using True fwd_same_forward [OF _ f] by simp
  next
    case False
    define j where "j = k - length pre - 1"
    then have t: "take k (pre @ step # post) = pre @ step # take j post" using False by (simp add: take_Cons')
    have "exec (pre @ step # post) ch = exec (drop j post) (exec (take k (pre @ step # post)) ch)"
      unfolding t exec_app [symmetric] by simp
    moreover have "\<forall>f \<in> set (drop j post). quiet gs' f" using post set_drop_subset by fastforce
    ultimately have "fwd_same gs' (fst (exec (take k (pre @ step # post)) ch)) (fst (exec (pre @ step # post) ch))"
      by (simp add: exec_quiet)
    then show ?thesis using False fwd_same_forward [OF fwd_same_sym fin] by simp
  qed
qed

lemma exec_append_assigns: "exec (append_assigns ch s p) ch = append_station ch s p"
  by (simp add: exec_def append_assigns_def append_station_def link_at_def tail_at_def Let_def split_beta upd_at_nth)

lemma exec_between_assigns: "exec (between_assigns ch s p n) ch = insert_between ch s p n"
proof -
  have "upd_at s (\<lambda>x. x\<lparr>st_prev := v\<rparr>) (upd_at s (\<lambda>x. x\<lparr>st_next := w\<rparr>) stats) = upd_at s (\<lambda>x. x\<lparr>st_next := w, st_prev := v\<rparr>) stats" for v w stats
    by (rule nth_equalityI) (auto simp: upd_at_nth)
  then show ?thesis
    by (simp add: exec_def between_assigns_def insert_between_def link_at_def Let_def split_beta upd_at_nth)
qed

lemma exec_parallel_assigns:
  "map_option (\<lambda>code. exec code ch) (parallel_assigns ch s p) = insert_parallel ch s p"
proof -
  have "upd_at s (\<lambda>x. x\<lparr>st_prevparallel := v\<rparr>) (upd_at s (\<lambda>x. x\<lparr>st_nextparallel := w\<rparr>) stats) =
      upd_at s (\<lambda>x. x\<lparr>st_nextparallel := w, st_prevparallel := v\<rparr>) stats" for v w stats
    by (rule nth_equalityI) (auto simp: upd_at_nth)
  then show ?thesis
    by (cases ch) (auto simp: exec_def parallel_assigns_def insert_parallel_def link_at_def Let_def upd_at_nth stat_ix_def
        split: option.splits Option.bind_splits)
qed

lemma exec_insert_assigns:
  "map_option (\<lambda>(r, code). (r, exec code ch)) (insert_assigns fuel n ch s p pp) = station_insert fuel n ch s p pp"
proof -
  have b: "Option.bind (parallel_assigns ch s q) (\<lambda>code. Some (ET_OK, exec code ch)) =
      Option.bind (insert_parallel ch s q) (\<lambda>ch1. Some (ET_OK, ch1))" for q
    unfolding exec_parallel_assigns [symmetric] by (cases "parallel_assigns ch s q") auto
  have "map_option (\<lambda>(r, code). (r, exec code ch)) (Option.bind (parallel_assigns ch s q) (\<lambda>code. Some (ET_OK, code))) =
      Option.bind (insert_parallel ch s q) (\<lambda>ch1. Some (ET_OK, ch1))" for q
    using b [of q] by (cases "parallel_assigns ch s q") simp_all
  then show ?thesis
    by (auto simp: insert_assigns_def station_insert_def Let_def exec_append_assigns exec_between_assigns exec_def [of "[]"]
        split: option.splits slot.splits Option.bind_splits)
qed

lemma insert_slot_positive:
  assumes "chain_ok stats tail gs" "s \<notin> set (0 # concat gs)" "s < length stats"
    "insert_walk (length stats) stats 0 1 position = Some (Between p n)"
  shows "0 < n"
proof -
  note d = chain_okD [OF assms(1)] and b = chain_length [OF assms(1-3)]
  have "insert_walk (length stats) stats 0 1 position =
     Some (if 1 \<le> position \<and> nat (position - 1) < length (map hd gs)
           then Between ((0 # map hd gs) ! nat (position - 1)) (map hd gs ! nat (position - 1))
           else AtEnd (last (0 # map hd gs)))"
  proof (rule insert_walk_spec)
    show "dlinked (\<lambda>i. st_next (stats ! i)) (\<lambda>i. st_prev (stats ! i)) (0 # map hd gs)"
      "st_next (stats ! last (0 # map hd gs)) = -1" using d(3) by (simp_all add: main_ok_def)
    show "\<forall>i \<in> set (map hd gs). i < length stats" using d(2,7) unfolding members_ok_def by auto
    show "length (map hd gs) < length stats" using b by simp
  qed
  with assms(4) have "n \<in> set (map hd gs)" by (auto split: if_splits)
  with d(8) show ?thesis by (cases n) auto
qed

lemma insert_changes_once:
  assumes ok: "chain_ok stats tail gs" and new: "fresh_station stats s" "s \<notin> set (0 # concat gs)"
    and n: "nstations = int (length (concat gs)) + 2" and g: "insert_group stats gs s position pp = Some gs'"
  shows "\<exists>code. insert_assigns (length stats) nstations (stats, tail) s position pp = Some (ET_OK, code) \<and>
     changes_once code (stats, tail) gs gs'"
proof -
  from station_insert_chain [OF ok new n, of position pp] g obtain stats' tail' where
    r: "station_insert (length stats) nstations (stats, tail) s position pp = Some (ET_OK, (stats', tail'))" "chain_ok stats' tail' gs'"
    by auto
  from r(1) exec_insert_assigns [of "(stats, tail)" "length stats" nstations s position pp] obtain code where
    c: "insert_assigns (length stats) nstations (stats, tail) s position pp = Some (ET_OK, code)" "exec code (stats, tail) = (stats', tail')"
    by auto
  have s: "0 < s" "s \<notin> set (0 # map hd gs)" using new(2) chain_okD(7) [OF ok] by auto
  have sl: "s < length stats" using new(1) by (simp add: fresh_station_def)
  have "\<exists>pre step. code = pre @ step # [] \<and> (\<forall>f \<in> set pre. quiet gs f)"
  proof -
    have a: ?thesis if "code = append_assigns (stats, tail) s p" for p
      using that s(1) by (intro exI [of _ "butlast code"] exI [of _ "last code"]) (simp add: append_assigns_def)
    have b: ?thesis if "code = between_assigns (stats, tail) s p n" "0 < n" for p n
      using that s by (intro exI [of _ "butlast code"] exI [of _ "last code"]) (simp add: between_assigns_def Let_def)
    have p: ?thesis if "parallel_assigns (stats, tail) s p = Some code" for p
      using that new(2) by (intro exI [of _ "butlast code"] exI [of _ "last code"])
        (auto simp: parallel_assigns_def Let_def split: if_splits Option.bind_splits)
    show ?thesis using c(1) a b p insert_slot_positive [OF ok new(2) sl]
      by (auto simp: insert_assigns_def Let_def split: if_splits option.splits slot.splits Option.bind_splits)
  qed
  then obtain pre step where p: "code = pre @ step # []" "\<forall>f \<in> set pre. quiet gs f" by blast
  have "changes_once (pre @ step # []) (stats, tail) gs gs'"
    using changes_onceI [of "(stats, tail)" gs pre "[]" gs' step] forward_of_chain [OF ok] forward_of_chain [OF r(2)] p c(2) by simp
  with c(1) p(1) show ?thesis by blast
qed

lemma exec_remove_assigns: "map_option (\<lambda>code. exec code ch) (remove_assigns ch s) = station_remove ch s"
proof -
  have u: "map_option (\<lambda>code. exec code ch) (unlink_main_assigns ch s) = unlink_main ch s"
    by (cases ch) (auto simp: exec_def unlink_main_assigns_def unlink_main_def link_at_def tail_at_def Let_def upd_at_nth
        split: option.splits Option.bind_splits)
  have j: "upd_at i (\<lambda>x. x\<lparr>st_prevparallel := -1\<rparr>) (upd_at i (\<lambda>x. x\<lparr>st_next := w\<rparr>) (upd_at i (\<lambda>x. x\<lparr>st_prev := v\<rparr>) stats)) =
      upd_at i (\<lambda>x. x\<lparr>st_prev := v, st_next := w, st_prevparallel := -1\<rparr>) stats" for i v w stats
    by (rule nth_equalityI) (auto simp: upd_at_nth)
  have p: "map_option (\<lambda>code. exec code ch) (promote_assigns ch s) = promote_parallel ch s"
    by (cases ch) (auto simp: exec_def promote_assigns_def promote_parallel_def link_at_def tail_at_def Let_def j upd_at_nth stat_ix_def
        split: option.splits Option.bind_splits)
  have q: "map_option (\<lambda>code. exec code ch) (unlink_parallel_assigns ch s) = unlink_parallel ch s"
    by (cases ch) (auto simp: exec_def unlink_parallel_assigns_def unlink_parallel_def link_at_def Let_def
        split: option.splits Option.bind_splits)
  show ?thesis by (simp add: remove_assigns_def station_remove_def Let_def u p q)
qed

lemma dlinked_next:
  assumes "dlinked nx pv xs" "x \<in> set xs" "nx (last xs) = -1" "nx x = int n"
  shows "n \<in> set (tl xs)"
  using assms by (induction nx pv xs rule: dlinked.induct) (auto split: if_splits)

lemma main_next:
  assumes "chain_ok stats tail gs" "s \<in> set (0 # map hd gs)" "stat_ix stats (st_next (stats ! s)) = Some n"
  shows "0 < n"
proof -
  note d = chain_okD [OF assms(1)]
  have "st_next (stats ! s) = int n" using assms(3) by (auto simp: stat_ix_def split: if_splits)
  then have "n \<in> set (tl (0 # map hd gs))"
    using dlinked_next [of "\<lambda>i. st_next (stats ! i)" "\<lambda>i. st_prev (stats ! i)" "0 # map hd gs" s n] assms(2) d(3)
    by (simp add: main_ok_def)
  with d(8) show ?thesis by (cases n) auto
qed

lemma group_next:
  assumes "chain_ok stats tail gs" "g \<in> set gs" "s \<in> set g" "stat_ix stats (st_nextparallel (stats ! s)) = Some n"
  shows "0 < n \<and> n \<notin> set (0 # map hd gs)"
proof -
  note d = chain_okD [OF assms(1)]
  have "st_nextparallel (stats ! s) = int n" using assms(4) by (auto simp: stat_ix_def split: if_splits)
  then have n: "n \<in> set (tl g)"
    using dlinked_next [of "\<lambda>i. st_nextparallel (stats ! i)" "\<lambda>i. st_prevparallel (stats ! i)" g s n] assms(3) d(4) [OF assms(2)]
    by (simp add: group_ok_def)
  then have "n \<in> set (concat gs)" using in_set_tlD [OF n] assms(2) by auto
  then have "n \<noteq> 0" using d(1) by (metis distinct.simps(2))
  then have "0 < n" by simp
  moreover have "n \<noteq> hd k" if "k \<in> set gs" for k
    using head_notin_tl [OF _ assms(2) that d(5) [OF that]] d(1) n by auto
  ultimately show ?thesis by auto
qed

lemma remove_changes_once:
  assumes ok: "chain_ok stats tail (A @ (G1 @ s # G2) # B)"
  shows "\<exists>code. remove_assigns (stats, tail) s = Some code \<and>
     changes_once code (stats, tail) (A @ (G1 @ s # G2) # B) (A @ (if G1 @ G2 = [] then [] else [G1 @ G2]) @ B)"
proof -
  let ?gs = "A @ (G1 @ s # G2) # B" and ?gs' = "A @ (if G1 @ G2 = [] then [] else [G1 @ G2]) @ B" and ?g = "G1 @ s # G2"
  from station_remove_chain [OF ok] obtain stats' tail' where
    r: "station_remove (stats, tail) s = Some (stats', tail')" "chain_ok stats' tail' ?gs'" by auto
  from r(1) exec_remove_assigns [of "(stats, tail)" s] obtain code where
    c: "remove_assigns (stats, tail) s = Some code" "exec code (stats, tail) = (stats', tail')" by auto
  have g: "?g \<in> set ?gs" "s \<in> set ?g" by simp_all
  note go = chain_okD(4) [OF ok g(1), unfolded group_ok_def]
  have main: "s \<in> set (0 # map hd ?gs)" if "cf_flow_mode (st_config (stats ! s)) = ET_STATION_PARALLEL \<longrightarrow> st_prev (stats ! s) > -1"
  proof -
    have "G1 = []"
    proof (rule ccontr)
      assume "G1 \<noteq> []"
      then have "s \<in> set (tl ?g)" "tl ?g \<noteq> []" by (cases G1; simp)+
      with go that g(2) show False by auto
    qed
    then show ?thesis by simp
  qed
  have "\<exists>pre step post. code = pre @ step # post \<and> (\<forall>f \<in> set pre. quiet ?gs f) \<and> (\<forall>f \<in> set post. quiet ?gs' f)"
  proof -
    have u: ?thesis if "unlink_main_assigns (stats, tail) s = Some code" "s \<in> set (0 # map hd ?gs)"
      using that main_next [OF ok that(2)]
      by (intro exI [of _ "butlast code"] exI [of _ "last code"] exI [of _ "[]"])
        (auto simp del: set_append simp: unlink_main_assigns_def Let_def split: if_splits Option.bind_splits)
    have p: ?thesis if "promote_assigns (stats, tail) s = Some code" "s \<in> set (0 # map hd ?gs)"
      using that main_next [OF ok that(2)] group_next [OF ok g]
      by (intro exI [of _ "butlast code"] exI [of _ "last code"] exI [of _ "[]"])
        (auto simp del: set_append simp: promote_assigns_def Let_def split: if_splits Option.bind_splits)
    have q: ?thesis if "unlink_parallel_assigns (stats, tail) s = Some code"
    proof -
      from that obtain p where p: "stat_ix stats (st_prevparallel (stats ! s)) = Some p"
        by (auto simp: unlink_parallel_assigns_def Let_def split: Option.bind_splits)
      define step where "step = link_at p (\<lambda>x. x\<lparr>st_nextparallel := st_nextparallel (stats ! s)\<rparr>)"
      define post where "post = (if st_waslast (stats ! s) = 1 then [link_at p (\<lambda>x. x\<lparr>st_waslast := 1\<rparr>)] else [])"
      have "\<exists>front. code = front @ step # post \<and> (\<forall>f \<in> set front. quiet ?gs f)"
      proof (cases "st_nextparallel (stats ! s) > -1")
        case True
        with that p obtain n where "code = [link_at n (\<lambda>x. x\<lparr>st_prevparallel := st_num (stats ! p)\<rparr>)] @ step # post"
          by (auto simp: unlink_parallel_assigns_def Let_def step_def post_def split: Option.bind_splits)
        then show ?thesis by (intro exI conjI, assumption) simp
      next
        case False
        with that p have "code = [] @ step # post" by (auto simp: unlink_parallel_assigns_def Let_def step_def post_def)
        then show ?thesis by (intro exI conjI, assumption) simp
      qed
      moreover have "\<forall>f \<in> set post. quiet ?gs' f" by (simp add: post_def)
      ultimately show ?thesis by blast
    qed
    show ?thesis using c(1) u p q main by (auto simp: remove_assigns_def Let_def split: if_splits)
  qed
  then obtain pre step post where p: "code = pre @ step # post" "\<forall>f \<in> set pre. quiet ?gs f" "\<forall>f \<in> set post. quiet ?gs' f" by blast
  have "changes_once (pre @ step # post) (stats, tail) ?gs ?gs'"
    by (rule changes_onceI) (use forward_of_chain [OF ok] forward_of_chain [OF r(2)] p c(2) in simp_all)
  with c(1) p(1) show ?thesis by blast
qed

section \<open>Stations that are not in the chain\<close>

lemma listed_parallel_spec:
  assumes "flinked (\<lambda>i. st_nextparallel (stats ! i)) (x # rest)" "st_nextparallel (stats ! last (x # rest)) = -1"
    "members_ok stats (set rest)"
  shows "listed_parallel stats (int t) x = Some (t \<in> set rest)"
  using assms
proof (induction rest arbitrary: x)
  case Nil
  then show ?case by (simp add: listed_parallel.simps [of stats _ x])
next
  case (Cons y rest)
  have y: "st_nextparallel (stats ! x) = int y" "y < length stats" "st_num (stats ! y) = int y"
    using Cons.prems by (auto simp: members_ok_def)
  have "listed_parallel stats (int t) y = Some (t \<in> set rest)" using Cons by (auto simp: members_ok_def)
  with y show ?case by (subst listed_parallel.simps) auto
qed

lemma listed_main_spec:
  assumes "flinked (\<lambda>i. st_next (stats ! i)) (p # map hd gs)" "st_next (stats ! last (p # map hd gs)) = -1"
    "members_ok stats (set (concat gs))" "\<forall>g \<in> set gs. forward_group stats g"
  shows "listed stats (int t) p = Some (t \<in> set (concat gs))"
  using assms
proof (induction gs arbitrary: p)
  case Nil
  then show ?case by (simp add: listed.simps [of stats _ p])
next
  case (Cons g gs)
  have "g \<noteq> []" using Cons.prems(4) by (simp add: forward_group_def)
  then obtain h rest where g: "g = h # rest" by (cases g) auto
  have h: "st_next (stats ! p) = int h" "h < length stats" "st_num (stats ! h) = int h" "members_ok stats (set rest)"
    using Cons.prems(1,3) g by (auto simp: members_ok_def)
  have "listed stats (int t) h = Some (t \<in> set (concat gs))" using Cons g by (auto simp: members_ok_def)
  moreover have "listed_parallel stats (int t) h = Some (t \<in> set rest)"
    if "cf_flow_mode (st_config (stats ! h)) = ET_STATION_PARALLEL"
    using listed_parallel_spec [OF _ _ h(4)] Cons.prems(4) g that by (simp add: forward_group_def)
  moreover have "rest = []" if "cf_flow_mode (st_config (stats ! h)) \<noteq> ET_STATION_PARALLEL"
    using Cons.prems(4) g that by (simp add: forward_group_def)
  ultimately show ?case using h g by (subst listed.simps) auto
qed

lemma listed_spec:
  assumes "chain_ok stats tail gs"
  shows "listed stats (int t) 0 = Some (t \<in> set (concat gs))"
proof -
  have "forward_ok stats gs" by (rule forward_of_chain [OF assms])
  then show ?thesis by (intro listed_main_spec) (simp_all add: forward_ok_def members_ok_def)
qed

text \<open>What \<open>et_fix_stations\<close> leaves in a slot.\<close>

definition dropped :: "nat list list \<Rightarrow> nat \<Rightarrow> et_station \<Rightarrow> et_station" where
  "dropped gs i ps =
     (if i \<in> set (0 # concat gs) \<or> sd_status (st_data ps) = ET_STATION_UNUSED then ps else et_init_station ps)"

definition counted :: "et_station \<Rightarrow> bool" where
  "counted ps \<longleftrightarrow> sd_status (st_data ps) \<noteq> ET_STATION_UNUSED \<and> sd_status (st_data ps) \<noteq> ET_STATION_CREATING"

lemma init_station_conductor [simp]: "et_init_station (x\<lparr>st_conductor := c\<rparr>) = et_init_station x"
  by (cases x) (simp add: et_init_station_def)

lemma fix_stations_from_spec:
  assumes "chain_ok stats tail gs" "distinct is" "\<forall>i \<in> set is. i < length stats \<and> 0 < i"
    "\<forall>i \<in> set is. i \<in> set (concat gs) \<longrightarrow> in_chain (stats ! i)"
    "\<forall>i \<in> set is. counted (stats ! i) \<longrightarrow> st_num (stats ! i) = int i"
  shows "\<exists>stats'. fix_stations_from stats is n = Some (stats', n + int (length (filter (\<lambda>i. counted (stats ! i)) is))) \<and>
     length stats' = length stats \<and>
     (\<forall>i < length stats. stats' ! i = (if i \<in> set is then dropped gs i (stats ! i) else stats ! i))"
  using assms
proof (induction "is" arbitrary: stats n)
  case (Cons i "is")
  let ?x = "stats ! i" and ?s1 = "stats[i := dropped gs i (stats ! i)]" and ?n = "if counted (stats ! i) then n + 1 else n"
  have i: "i < length stats" "i \<notin> set is" "0 < i" using Cons.prems by auto
  have one: "fix_stations_from stats (i # is) n = fix_stations_from ?s1 is ?n"
  proof -
    have l: "listed stats (st_num ?x) 0 = Some (i \<in> set (concat gs))" if "counted ?x"
      using that Cons.prems(5) listed_spec [OF Cons.prems(1)] by simp
    have m: "counted ?x" if "i \<in> set (concat gs)" using that Cons.prems(4) by (auto simp: counted_def in_chain_def)
    show ?thesis using i l m by (auto simp: dropped_def counted_def upd_at_def Let_def)
  qed
  have "chain_ok ?s1 tail gs"
  proof (cases "i \<in> set (0 # concat gs)")
    case False
    then show ?thesis using chain_ok_outside Cons.prems(1) by blast
  qed (use Cons.prems(1) in \<open>simp add: dropped_def\<close>)
  moreover have keep: "?s1 ! j = stats ! j" if "j \<in> set is" for j using i(2) that by (cases "j = i") auto
  ultimately obtain stats' where r: "fix_stations_from ?s1 is ?n = Some (stats', ?n + int (length (filter (\<lambda>i. counted (?s1 ! i)) is)))"
    "length stats' = length stats"
    "\<forall>j < length stats. stats' ! j = (if j \<in> set is then dropped gs j (?s1 ! j) else ?s1 ! j)"
    using Cons.IH [of ?s1 ?n] Cons.prems by auto
  have f: "filter (\<lambda>i. counted (?s1 ! i)) is = filter (\<lambda>i. counted (stats ! i)) is"
    by (rule filter_cong [OF refl]) (simp only: keep)
  have "stats' ! j = (if j \<in> set (i # is) then dropped gs j (stats ! j) else stats ! j)" if "j < length stats" for j
    using r(3) that i by (cases "j = i") auto
  moreover have "fix_stations_from stats (i # is) n = Some (stats', n + int (length (filter (\<lambda>i. counted (stats ! i)) (i # is))))"
    unfolding one r(1) f by simp
  ultimately show ?case using r(2) by blast
qed simp

lemma fix_stations_spec:
  assumes "chain_ok (id_stats eid) tail gs" "nstations_max eid = int (length (id_stats eid))"
    "\<forall>i \<in> set (concat gs). in_chain (id_stats eid ! i)"
    "\<forall>i < length (id_stats eid). counted (id_stats eid ! i) \<longrightarrow> st_num (id_stats eid ! i) = int i"
  shows "\<exists>stats'. et_fix_stations eid = Some (eid\<lparr>id_stats := stats', id_sys := (id_sys eid)\<lparr>sy_nstations :=
       1 + int (length (filter (\<lambda>i. counted (id_stats eid ! i)) [1..<length (id_stats eid)]))\<rparr>\<rparr>) \<and>
     length stats' = length (id_stats eid) \<and> (\<forall>i < length (id_stats eid). stats' ! i = dropped gs i (id_stats eid ! i))"
proof -
  let ?n = "length (id_stats eid)"
  have ne: "id_stats eid \<noteq> []" using chain_okD(2) [OF assms(1)] by (auto simp: members_ok_def)
  from fix_stations_from_spec [OF assms(1), of "[1..<?n]" 1] assms(3,4) obtain stats' where
    r: "fix_stations_from (id_stats eid) [1..<?n] 1 = Some (stats', 1 + int (length (filter (\<lambda>i. counted (id_stats eid ! i)) [1..<?n])))"
      "length stats' = ?n" "\<forall>i < ?n. stats' ! i = (if i \<in> set [1..<?n] then dropped gs i (id_stats eid ! i) else id_stats eid ! i)"
    by auto
  have "stats' ! i = dropped gs i (id_stats eid ! i)" if "i < ?n" for i
    using r(3) that by (cases "i = 0") (auto simp: dropped_def)
  with r ne assms(2) show ?thesis by (intro exI [of _ stats']) (simp add: et_fix_stations_def)
qed

section \<open>The tables after the repair\<close>

definition relink :: "et_id \<Rightarrow> et_id option" where
  "relink eid = Option.bind (et_fix_linkedlist eid) et_fix_stations"

lemma att_table_reset:
  assumes t: "att_table e M" and l: "length (id_stats e') = length (id_stats e)"
    and a: "sy_attach (id_sys e') = sy_attach (id_sys e)"
      "sy_nattachments (id_sys e') = sy_nattachments (id_sys e)" "sy_config (id_sys e') = sy_config (id_sys e)"
    and d: "\<And>s. s < length (id_stats e) \<Longrightarrow> st_data (id_stats e' ! s) = st_data (id_stats e ! s) \<or>
      s \<notin> M \<and> sd_nattachments (st_data (id_stats e' ! s)) = 0 \<and>
      sd_att (st_data (id_stats e' ! s)) = replicate ET_ATTACHMENTS_MAX (-1)"
  shows "att_table e' M"
proof -
  note D = att_tableD [OF t]
  have lv: "live e' = live e" "\<And>u. atts_of e' u = atts_of e u" by (simp_all add: live_def atts_of_def a)
  have none: "atts_of e s = {}" if "s \<notin> M" for s
    using D(4) [OF live_atts_of] atts_of_disjoint that by blast
  have "sd_nattachments (st_data (id_stats e' ! u)) = int (card (atts_of e u)) \<and>
      length (sd_att (st_data (id_stats e' ! u))) = ET_ATTACHMENTS_MAX \<and>
      (\<forall>b < ET_ATTACHMENTS_MAX. sd_att (st_data (id_stats e' ! u)) ! b = (if b \<in> atts_of e u then int b else -1))"
    if "u < length (id_stats e)" for u
    using d [OF that] D(6-8) [OF that] none [of u] by auto
  moreover have "u < length (id_stats e) \<and>
      (sd_status (st_data (id_stats e' ! u)) = ET_STATION_ACTIVE \<longleftrightarrow> u = 0 \<or> atts_of e u \<noteq> {})" if "u \<in> M" for u
    using D(9,10) [OF that] d [of u] that by auto
  moreover have "\<forall>x \<in> live e. at_num (sy_attach (id_sys e) ! x) = int x \<and> (\<exists>s \<in> M. x \<in> atts_of e s)" using D(3,4) by blast
  ultimately show ?thesis using D(1,2,5) unfolding att_table_def lv l a by simp
qed

lemma chain_ok_members:
  assumes ok: "chain_ok stats tail gs" and l: "length stats' = length stats"
    and e: "\<And>i. i \<in> set (0 # concat gs) \<Longrightarrow> stats' ! i = stats ! i"
  shows "chain_ok stats' tail gs"
proof -
  note d = chain_okD [OF ok]
  have "members_ok stats' (set (0 # concat gs))" unfolding members_ok_def
    by (intro ballI) (simp only: e l d(2) [unfolded members_ok_def, rule_format] simp_thms)
  moreover have "main_ok stats' tail (0 # map hd gs) = main_ok stats tail (0 # map hd gs)"
  proof (rule main_ok_cong)
    fix i assume "i \<in> set (0 # map hd gs)"
    then have "stats' ! i = stats ! i" by (rule e [OF subsetD [OF d(7)]])
    then show "st_next (stats' ! i) = st_next (stats ! i) \<and> st_prev (stats' ! i) = st_prev (stats ! i)" by simp
  qed
  moreover have "group_ok stats' g = group_ok stats g" if "g \<in> set gs" for g
  proof (rule group_ok_cong)
    fix i assume "i \<in> set g"
    then have "i \<in> set (0 # concat gs)" using that by auto
    then show "st_nextparallel (stats' ! i) = st_nextparallel (stats ! i) \<and>
        st_prevparallel (stats' ! i) = st_prevparallel (stats ! i) \<and>
        cf_flow_mode (st_config (stats' ! i)) = cf_flow_mode (st_config (stats ! i))" by (simp only: e simp_thms)
  next
    fix i assume "i \<in> set (tl g)"
    then have "i \<in> set (0 # concat gs)" using that in_set_tlD by fastforce
    then show "st_next (stats' ! i) = st_next (stats ! i) \<and> st_prev (stats' ! i) = st_prev (stats ! i)" by (simp only: e simp_thms)
  qed
  ultimately show ?thesis using d(1,3,4) by (simp add: chain_ok_def)
qed

lemma relink_works:
  assumes f: "forward_ok (id_stats eid) gs" and h: "sy_stat_head (id_sys eid) = 0"
    and n: "nstations_max eid = int (length (id_stats eid))"
    and m: "\<forall>i \<in> set (0 # concat gs). in_chain (id_stats eid ! i)"
    and u: "\<forall>i < length (id_stats eid). counted (id_stats eid ! i) \<longrightarrow> st_num (id_stats eid ! i) = int i"
    and D: "D = {i. i < length (id_stats eid) \<and> i \<notin> set (0 # concat gs) \<and> counted (id_stats eid ! i)}"
    and nm: "inj_on (\<lambda>t. st_name (id_stats eid ! t)) (set (0 # concat gs))"
    and att: "att_table eid (set (0 # concat gs))" and loc: "id_locality eid = ET_LOCAL"
  shows "\<exists>eid'. relink eid = Some eid' \<and> tables (add_nstations (- int (card D)) eid') gs"
proof -
  let ?n = "length (id_stats eid)"
  from fix_main_chain [OF f] obtain stats' tail where c: "fix_main (id_stats eid) 0 = Some (stats', tail)"
    "chain_ok stats' tail gs" "outside (set (concat gs)) (id_stats eid) stats'" by blast
  note O = outsideD [OF c(3)]
  have nl: "nolinks (stats' ! i) = nolinks (id_stats eid ! i)" if "i < ?n" for i
    using c(3) map_nolinks_nth(2) [of stats' "id_stats eid" i] that by (simp add: outside_def)
  note N = nolinks_eqD [OF nl]
  have M: "i < ?n" if "i \<in> set (0 # concat gs)" for i using f that by (auto simp: forward_ok_def members_ok_def)
  define e1 where "e1 = set_chain eid (stats', tail)"
  have e1: "id_stats e1 = stats'" "nstations_max e1 = nstations_max eid" by (simp_all add: e1_def set_chain_def nstations_max_def)
  have fl: "et_fix_linkedlist eid = Some e1"
    using h c(1) M [of 0] by (simp add: et_fix_linkedlist_def stat_ix_def e1_def)
  have cnt: "counted (stats' ! i) = counted (id_stats eid ! i)" if "i < ?n" for i using N(3) [OF that] by (simp add: counted_def)
  have "\<exists>stats2. et_fix_stations e1 = Some (e1\<lparr>id_stats := stats2, id_sys := (id_sys e1)\<lparr>sy_nstations :=
       1 + int (length (filter (\<lambda>i. counted (id_stats e1 ! i)) [1..<length (id_stats e1)]))\<rparr>\<rparr>) \<and>
     length stats2 = length (id_stats e1) \<and> (\<forall>i < length (id_stats e1). stats2 ! i = dropped gs i (id_stats e1 ! i))"
  proof (rule fix_stations_spec)
    show "chain_ok (id_stats e1) tail gs" using c(2) by (simp add: e1)
    show "nstations_max e1 = int (length (id_stats e1))" using n O(1) by (simp add: e1)
    show "\<forall>i \<in> set (concat gs). in_chain (id_stats e1 ! i)" using m N(3) M by (simp add: e1 in_chain_def)
    show "\<forall>i < length (id_stats e1). counted (id_stats e1 ! i) \<longrightarrow> st_num (id_stats e1 ! i) = int i"
      using u N(1) cnt O(1) by (simp add: e1)
  qed
  then obtain stats2 where s2: "et_fix_stations e1 = Some (e1\<lparr>id_stats := stats2, id_sys := (id_sys e1)\<lparr>sy_nstations :=
       1 + int (length (filter (\<lambda>i. counted (stats' ! i)) [1..<?n]))\<rparr>\<rparr>)"
     "length stats2 = ?n" "\<forall>i < ?n. stats2 ! i = dropped gs i (stats' ! i)"
    by (auto simp: e1 O(1))
  define e2 where "e2 = e1\<lparr>id_stats := stats2, id_sys := (id_sys e1)\<lparr>sy_nstations :=
       1 + int (length (filter (\<lambda>i. counted (stats' ! i)) [1..<?n]))\<rparr>\<rparr>"
  have run: "relink eid = Some e2" using fl s2(1) by (simp add: relink_def e2_def)
  have keep: "stats2 ! i = stats' ! i" if "i \<in> set (0 # concat gs)" for i
  proof -
    have "dropped gs i x = x" for x using that by (simp only: dropped_def simp_thms if_True)
    then show ?thesis using s2(3) M [OF that] by simp
  qed
  have out: "sd_status (st_data (stats2 ! i)) = ET_STATION_UNUSED" if "i < ?n" "i \<notin> set (0 # concat gs)" for i
    using s2(3) that by (simp add: dropped_def et_init_station_def)
  have count: "int (length (filter (\<lambda>i. counted (stats' ! i)) [1..<?n])) = int (length (concat gs)) + int (card D)"
  proof -
    have "length (filter (\<lambda>i. counted (stats' ! i)) [1..<?n]) = card {i. 1 \<le> i \<and> i < ?n \<and> counted (stats' ! i)}"
    proof -
      have "{i. 1 \<le> i \<and> i < ?n \<and> counted (stats' ! i)} = set (filter (\<lambda>i. counted (stats' ! i)) [1..<?n])" by auto
      then show ?thesis by (simp only: distinct_card distinct_filter distinct_upt)
    qed
    also have "{i. 1 \<le> i \<and> i < ?n \<and> counted (stats' ! i)} = set (concat gs) \<union> D"
    proof -
      have "i \<in> {i. 1 \<le> i \<and> i < ?n \<and> counted (stats' ! i)} \<longleftrightarrow> i \<in> set (concat gs) \<union> D" for i
      proof (cases "i \<in> set (concat gs)")
        case True
        moreover have "0 \<notin> set (concat gs)" using f by (simp only: forward_ok_def distinct.simps simp_thms)
        ultimately have "i \<noteq> 0" by metis
        moreover have iM: "i \<in> set (0 # concat gs)" using True by (simp only: list.set insert_iff simp_thms)
        have "i < ?n" by (rule M [OF iM])
        moreover have "counted (stats' ! i)" using cnt [OF \<open>i < ?n\<close>] bspec [OF m iM] by (auto simp: counted_def in_chain_def)
        ultimately show ?thesis using True \<open>i < ?n\<close> by (simp del: set_concat)
      next
        case False
        then show ?thesis using cnt [of i] by (cases "i = 0") (auto simp: D simp del: set_concat)
      qed
      then show ?thesis by blast
    qed
    also have "card (set (concat gs) \<union> D) = card (set (concat gs)) + card D"
      by (rule card_Un_disjoint) (auto simp: D)
    also have "card (set (concat gs)) = length (concat gs)" using f by (intro distinct_card) (simp add: forward_ok_def)
    finally show ?thesis by simp
  qed
  let ?e = "add_nstations (- int (card D)) e2"
  have E: "id_stats ?e = stats2" "sy_stat_tail (id_sys ?e) = tail" "nstations_max ?e = nstations_max eid"
    "sy_nstations (id_sys ?e) = 1 + int (length (concat gs))" "sy_attach (id_sys ?e) = sy_attach (id_sys eid)"
    "sy_nattachments (id_sys ?e) = sy_nattachments (id_sys eid)" "sy_config (id_sys ?e) = sy_config (id_sys eid)"
    "id_locality ?e = id_locality eid"
    using count by (simp_all add: add_nstations_def e2_def e1_def set_chain_def nstations_max_def)
  have "chain_ok stats2 tail gs"
    by (rule chain_ok_members [OF c(2) _ keep]) (use s2(2) O(1) in simp_all)
  then have "station_table ?e gs"
    unfolding station_table_def E s2(2) using n out keep m nm N M
    by (simp add: in_chain_def inj_on_def del: set_concat)
  moreover have "att_table ?e (set (0 # concat gs))"
  proof (rule att_table_reset [OF att])
    fix s assume s: "s < ?n"
    show "st_data (id_stats ?e ! s) = st_data (id_stats eid ! s) \<or> s \<notin> set (0 # concat gs) \<and>
      sd_nattachments (st_data (id_stats ?e ! s)) = 0 \<and> sd_att (st_data (id_stats ?e ! s)) = replicate ET_ATTACHMENTS_MAX (-1)"
      unfolding E using s2(3) s N(3) [OF s] by (auto simp: dropped_def et_init_station_def)
  qed (simp_all only: E s2(2))
  ultimately have "tables ?e gs" using loc E(8) by (simp add: tables_def)
  with run show ?thesis by blast
qed

section \<open>Death during creation and removal\<close>

lemma att_table_less:
  assumes t: "att_table e M" and s: "atts_of e s = {}"
  shows "att_table e (M - {s})"
proof -
  note D = att_tableD [OF t]
  have "\<forall>x \<in> live e. at_num (sy_attach (id_sys e) ! x) = int x \<and> (\<exists>u \<in> M - {s}. x \<in> atts_of e u)" using D(3,4) s by blast
  then show ?thesis using D(1,2,5-10) unfolding att_table_def by simp
qed

definition linking :: "(chain \<Rightarrow> chain) \<Rightarrow> bool" where
  "linking f \<longleftrightarrow> (\<forall>ch. map nolinks (fst (f ch)) = map nolinks (fst ch))"

lemma linking_steps [simp]:
  "linking (tail_at v)" "(\<And>x. nolinks (f x) = nolinks x) \<Longrightarrow> linking (link_at i f)"
  by (simp_all add: linking_def tail_at_def link_at_def map_nolinks_upd)

lemma exec_linking: "\<forall>f \<in> set code. linking f \<Longrightarrow> map nolinks (fst (exec code ch)) = map nolinks (fst ch)"
proof (induction code arbitrary: ch)
  case (Cons f code)
  then show ?case by (simp add: exec_def linking_def del: split_paired_All)
qed (simp add: exec_def)

lemma remove_assigns_linking: "remove_assigns ch s = Some code \<Longrightarrow> \<forall>f \<in> set code. linking f"
  by (cases ch) (auto simp: remove_assigns_def unlink_main_assigns_def promote_assigns_def unlink_parallel_assigns_def Let_def
      split: if_splits Option.bind_splits)

lemma insert_assigns_linking: "insert_assigns fuel n ch s p pp = Some (r, code) \<Longrightarrow> \<forall>f \<in> set code. linking f"
  by (auto simp: insert_assigns_def append_assigns_def between_assigns_def parallel_assigns_def Let_def
      split: if_splits option.splits slot.splits Option.bind_splits)

text \<open>\<open>U\<close> are the stations in use, \<open>gs\<close> those whose forward links are right.\<close>

lemma relink_after:
  assumes loc: "id_locality eid = ET_LOCAL" and h: "sy_stat_head (id_sys eid) = 0"
    and n: "nstations_max eid = int (length (id_stats eid))"
    and U: "\<And>i. i \<in> U \<Longrightarrow> in_chain (id_stats eid ! i) \<and> st_num (id_stats eid ! i) = int i"
      "\<And>i. i < length (id_stats eid) \<Longrightarrow> i \<notin> U \<Longrightarrow> sd_status (st_data (id_stats eid ! i)) = ET_STATION_UNUSED"
      "\<And>i. i \<in> U \<Longrightarrow> i < length (id_stats eid)"
    and nm: "inj_on (\<lambda>t. st_name (id_stats eid ! t)) U" and att: "att_table eid (set (0 # concat gs))"
    and nl: "map nolinks (fst ch) = map nolinks (id_stats eid)" and f: "forward_ok (fst ch) gs"
    and gs: "set (0 # concat gs) \<subseteq> U"
  shows "\<exists>eid'. relink (set_chain eid ch) = Some eid' \<and>
     tables (add_nstations (- int (card (U - set (0 # concat gs)))) eid') gs"
proof -
  let ?e = "set_chain eid ch"
  note L = map_nolinks_nth [OF nl]
  note N = nolinks_eqD [OF L(2)]
  have e: "id_stats ?e = fst ch" "nstations_max ?e = nstations_max eid" "id_locality ?e = id_locality eid"
    "sy_stat_head (id_sys ?e) = sy_stat_head (id_sys eid)"
    by (simp_all add: set_chain_def nstations_max_def)
  have cnt: "counted (fst ch ! i) \<longleftrightarrow> i \<in> U" if "i < length (id_stats eid)" for i
    using U(1,2) [of i] N(3) [OF that] that by (cases "i \<in> U") (auto simp: counted_def in_chain_def)
  show ?thesis
  proof (rule relink_works)
    show "forward_ok (id_stats ?e) gs" using f by (simp add: e)
    show "sy_stat_head (id_sys ?e) = 0" using h by (simp add: e)
    show "nstations_max ?e = int (length (id_stats ?e))" using n L(1) by (simp add: e)
    show "\<forall>i \<in> set (0 # concat gs). in_chain (id_stats ?e ! i)"
    proof
      fix i assume "i \<in> set (0 # concat gs)"
      then have "i \<in> U" using gs by blast
      then show "in_chain (id_stats ?e ! i)" using U(1) [of i] N(3) [OF U(3)] by (simp add: e in_chain_def)
    qed
    show "\<forall>i < length (id_stats ?e). counted (id_stats ?e ! i) \<longrightarrow> st_num (id_stats ?e ! i) = int i"
      using cnt U(1) N(1) L(1) by (simp add: e)
    show "U - set (0 # concat gs) =
        {i. i < length (id_stats ?e) \<and> i \<notin> set (0 # concat gs) \<and> counted (id_stats ?e ! i)}"
      unfolding e L(1) using cnt U(3) by blast
    show "inj_on (\<lambda>t. st_name (id_stats ?e ! t)) (set (0 # concat gs))"
    proof (rule inj_onI)
      fix x y assume "x \<in> set (0 # concat gs)" "y \<in> set (0 # concat gs)" "st_name (id_stats ?e ! x) = st_name (id_stats ?e ! y)"
      then show "x = y" using inj_onD [OF nm, of x y] gs N(4) [OF U(3)] unfolding e by (metis subsetD)
    qed
    show "att_table ?e (set (0 # concat gs))"
      by (rule att_table_frame [OF att]) (use N(3) L(1) in \<open>simp_all add: set_chain_def\<close>)
    show "id_locality ?e = ET_LOCAL" using loc by (simp add: e)
  qed
qed

lemma death_in_removal:
  assumes t: "tables eid gs" and h: "sy_stat_head (id_sys eid) = 0" and s: "s \<in> set (concat gs)" "atts_of eid s = {}"
  shows "\<exists>code gs'. remove_assigns (chain_of eid) s = Some code \<and> mset (concat gs) = add_mset s (mset (concat gs')) \<and>
     (\<forall>k. \<exists>eid'. relink (set_chain eid (exec (take k code) (chain_of eid))) = Some eid' \<and>
        (tables eid' gs \<or> tables (add_nstations (-1) eid') gs'))"
proof -
  note d = tablesD [OF t] and T = station_tableD [OF tablesD(2) [OF t]]
  obtain A G1 G2 B where gs: "gs = A @ (G1 @ s # G2) # B" by (rule split_group [OF s(1)])
  define gs' where "gs' = A @ (if G1 @ G2 = [] then [] else [G1 @ G2]) @ B"
  from remove_changes_once [OF T(1) [unfolded gs]] obtain code c where
    c: "remove_assigns (chain_of eid) s = Some code"
      "\<And>k. forward_ok (fst (exec (take k code) (chain_of eid))) (if k \<le> c then gs else gs')"
    unfolding chain_of_def gs gs'_def [symmetric] changes_once_def by blast
  have ms: "mset (concat gs) = add_mset s (mset (concat gs'))" by (simp add: gs gs'_def)
  have set': "set (0 # concat gs') = set (0 # concat gs) - {s}"
    using chain_okD(1) [OF T(1)] by (auto simp: gs gs'_def)
  let ?U = "set (0 # concat gs)"
  have "\<exists>eid'. relink (set_chain eid (exec (take k code) (chain_of eid))) = Some eid' \<and>
        (tables eid' gs \<or> tables (add_nstations (-1) eid') gs')" for k
  proof -
    define hs where "hs = (if k \<le> c then gs else gs')"
    have "set (take k code) \<subseteq> set code" by (rule set_take_subset)
    then have nl: "map nolinks (fst (exec (take k code) (chain_of eid))) = map nolinks (id_stats eid)"
      using exec_linking [of "take k code" "chain_of eid"] remove_assigns_linking [OF c(1)] by (auto simp: chain_of_def)
    have hs: "set (0 # concat hs) \<subseteq> ?U" "att_table eid (set (0 # concat hs))"
      using set' d(3) att_table_less [OF d(3) s(2)] by (simp_all add: hs_def del: list.set set_concat)
    have "\<exists>eid'. relink (set_chain eid (exec (take k code) (chain_of eid))) = Some eid' \<and>
       tables (add_nstations (- int (card (?U - set (0 # concat hs)))) eid') hs"
    proof (rule relink_after [OF d(1) h T(2) _ _ T(7) T(6) hs(2) nl _ hs(1)])
      show "in_chain (id_stats eid ! i) \<and> st_num (id_stats eid ! i) = int i" if "i \<in> ?U" for i
        using T(4) [OF T(7) [OF that] that] bspec [OF chain_okD(2) [OF T(1), unfolded members_ok_def] that] by simp
      show "forward_ok (fst (exec (take k code) (chain_of eid))) hs" unfolding hs_def by (rule c(2))
    qed (rule T(5))
    moreover have "card (?U - set (0 # concat hs)) = (if k \<le> c then 0 else 1)"
    proof -
      have "s \<in> ?U" using s(1) by (simp del: set_concat)
      then have "?U - (?U - {s}) = {s}" by blast
      then show ?thesis unfolding hs_def using set' by (simp del: list.set set_concat)
    qed
    moreover have "add_nstations 0 e = e" for e by (simp add: add_nstations_def)
    ultimately show ?thesis by (cases "k \<le> c") (auto simp: hs_def)
  qed
  with c(1) ms show ?thesis by blast
qed

lemma death_while_created:
  assumes t: "tables eid gs" and h: "sy_stat_head (id_sys eid) = 0" and s: "s < length (id_stats eid)" "s \<notin> set (0 # concat gs)"
    and ps: "sd_status (st_data ps) = ET_STATION_UNUSED \<or> sd_status (st_data ps) = ET_STATION_CREATING"
      "sd_nattachments (st_data ps) = 0" "sd_att (st_data ps) = replicate ET_ATTACHMENTS_MAX (-1)"
  shows "\<exists>eid'. relink (upd_stat (add_nstations v eid) s (\<lambda>_. ps)) = Some eid' \<and> tables eid' gs"
proof -
  note d = tablesD [OF t] and T = station_tableD [OF tablesD(2) [OF t]]
  let ?e = "upd_stat (add_nstations v eid) s (\<lambda>_. ps)" and ?U = "set (0 # concat gs)"
  have e: "id_stats ?e = (id_stats eid)[s := ps]" "nstations_max ?e = nstations_max eid" "id_locality ?e = id_locality eid"
    "sy_stat_head (id_sys ?e) = sy_stat_head (id_sys eid)"
    by (simp_all add: upd_stat_def add_nstations_def nstations_max_def)
  have keep: "(id_stats eid)[s := ps] ! i = id_stats eid ! i" if "i \<in> ?U" for i
  proof -
    have "i \<noteq> s" using s(2) that by metis
    then show ?thesis by simp
  qed
  have D: "{i. i < length (id_stats ?e) \<and> i \<notin> ?U \<and> counted (id_stats ?e ! i)} = {}"
  proof -
    have "\<not> counted (id_stats ?e ! i)" if "i < length (id_stats eid)" "i \<notin> ?U" for i
      using ps(1) T(5) [OF that] s(1) by (cases "i = s") (auto simp: e counted_def)
    then show ?thesis by (simp only: e length_list_update) blast
  qed
  have "\<exists>eid'. relink ?e = Some eid' \<and> tables (add_nstations (- int (card {i. i < length (id_stats ?e) \<and> i \<notin> ?U \<and> counted (id_stats ?e ! i)})) eid') gs"
  proof (rule relink_works [OF _ _ _ _ _ refl])
    show "forward_ok (id_stats ?e) gs"
      using forward_of_chain [OF iffD2 [OF chain_ok_outside [OF s(2)] T(1)]] by (simp add: e)
    show "sy_stat_head (id_sys ?e) = 0" using h by (simp only: e)
    show "nstations_max ?e = int (length (id_stats ?e))" using T(2) by (simp add: e)
    show "\<forall>i \<in> ?U. in_chain (id_stats ?e ! i)" unfolding e using keep T(4) [OF T(7)] by (simp del: list.set)
    show "\<forall>i < length (id_stats ?e). counted (id_stats ?e ! i) \<longrightarrow> st_num (id_stats ?e ! i) = int i"
    proof (intro allI impI)
      fix i assume i: "i < length (id_stats ?e)" "counted (id_stats ?e ! i)"
      with D have "i \<in> ?U" by blast
      then show "st_num (id_stats ?e ! i) = int i"
        unfolding e using keep bspec [OF chain_okD(2) [OF T(1), unfolded members_ok_def]] by (simp del: list.set)
    qed
    show "inj_on (\<lambda>t. st_name (id_stats ?e ! t)) ?U"
    proof (rule inj_onI)
      fix x y assume "x \<in> ?U" "y \<in> ?U" "st_name (id_stats ?e ! x) = st_name (id_stats ?e ! y)"
      then show "x = y" using inj_onD [OF T(6), of x y] keep unfolding e by metis
    qed
    show "att_table ?e ?U"
      by (rule att_table_reset [OF d(3)]) (use s ps(2,3) in \<open>auto simp: upd_stat_def add_nstations_def nth_list_update\<close>)
    show "id_locality ?e = ET_LOCAL" using d(1) by (simp only: e)
  qed
  moreover have "add_nstations 0 e = e" for e by (simp add: add_nstations_def)
  ultimately show ?thesis unfolding D by simp
qed

lemma death_in_insertion:
  assumes t: "tables eid gs" and h: "sy_stat_head (id_sys eid) = 0" and s: "s < length (id_stats eid)" "s \<notin> set (0 # concat gs)"
    and nm: "name \<notin> st_name ` (\<lambda>i. id_stats eid ! i) ` set (0 # concat gs)"
    and e1: "eid1 = upd_stat (add_nstations 1 eid) s (\<lambda>x. set_status ET_STATION_IDLE (new_station pid s name sc x))"
    and g: "insert_group (id_stats eid1) gs s p pp = Some gs'"
  shows "\<exists>code. insert_assigns (length (id_stats eid1)) (sy_nstations (id_sys eid1)) (chain_of eid1) s p pp = Some (ET_OK, code) \<and>
     (\<forall>k. \<exists>eid'. relink (set_chain eid1 (exec (take k code) (chain_of eid1))) = Some eid' \<and>
        (tables (add_nstations (-1) eid') gs \<or> tables eid' gs'))"
proof -
  note d = tablesD [OF t] and T = station_tableD [OF tablesD(2) [OF t]]
  let ?x = "set_status ET_STATION_IDLE (new_station pid s name sc (id_stats eid ! s))" and ?M = "set (0 # concat gs)" and ?U = "insert s (set (0 # concat gs))"
  have e: "id_stats eid1 = (id_stats eid)[s := ?x]" "nstations_max eid1 = nstations_max eid" "id_locality eid1 = id_locality eid"
    "sy_stat_head (id_sys eid1) = sy_stat_head (id_sys eid)" "chain_of eid1 = (id_stats eid1, sy_stat_tail (id_sys eid))"
    "sy_nstations (id_sys eid1) = int (length (concat gs)) + 2"
    using T(3) by (simp_all add: e1 upd_stat_def add_nstations_def nstations_max_def chain_of_def)
  have x: "in_chain ?x" "st_num ?x = int s" "st_name ?x = name" "sd_nattachments (st_data ?x) = 0"
    "sd_att (st_data ?x) = replicate ET_ATTACHMENTS_MAX (-1)" "sd_status (st_data ?x) = ET_STATION_IDLE"
    by (simp_all add: set_status_def new_station_def et_init_station_def Let_def in_chain_def)
  have s0: "s \<noteq> 0" using s(2) by auto
  have keep: "id_stats eid1 ! i = id_stats eid ! i" if "i \<in> ?M" for i
  proof -
    have "i \<noteq> s" using s(2) that by metis
    then show ?thesis by (simp add: e)
  qed
  have fr: "fresh_station (id_stats eid1) s" using s(1) by (simp add: fresh_station_def e)
  have ch: "chain_ok (id_stats eid1) (sy_stat_tail (id_sys eid)) gs" using T(1) chain_ok_outside [OF s(2)] by (simp add: e)
  from insert_changes_once [OF ch fr s(2) e(6) g] obtain code c where
    c: "insert_assigns (length (id_stats eid1)) (sy_nstations (id_sys eid1)) (chain_of eid1) s p pp = Some (ET_OK, code)"
      "\<And>k. forward_ok (fst (exec (take k code) (chain_of eid1))) (if k \<le> c then gs else gs')"
    unfolding e(5,6) changes_once_def by blast
  have set': "set (0 # concat gs') = ?U"
    using insert_group_set [OF g] by (metis insert_commute list.simps(15) set_mset_add_mset_insert set_mset_mset)
  have cr: "created eid s eid1"
    using s(1) x(4,5,6) by (auto simp: created_def e1 upd_stat_def add_nstations_def)
  have "\<exists>eid'. relink (set_chain eid1 (exec (take k code) (chain_of eid1))) = Some eid' \<and>
        (tables (add_nstations (-1) eid') gs \<or> tables eid' gs')" for k
  proof -
    define hs where "hs = (if k \<le> c then gs else gs')"
    have "set (take k code) \<subseteq> set code" by (rule set_take_subset)
    then have nl: "map nolinks (fst (exec (take k code) (chain_of eid1))) = map nolinks (id_stats eid1)"
      using exec_linking [of "take k code" "chain_of eid1"] insert_assigns_linking [OF c(1)] by (auto simp: e(5))
    have hs: "set (0 # concat hs) \<subseteq> ?U" "set (0 # concat hs) = ?M \<or> set (0 # concat hs) = ?U"
      using set' unfolding hs_def by (simp_all add: subset_insertI del: list.set set_concat)
    have att: "att_table eid1 (set (0 # concat hs))" by (rule created_att_table [OF d(3) cr s s0 hs(2)])
    have lt: "i < length (id_stats eid)" if "i \<in> ?U" for i using that s(1) T(7) by blast
    have st: "id_stats eid1 ! i = (if i = s then ?x else id_stats eid ! i)" for i using s(1) by (simp add: e)
    have r: "\<exists>eid'. relink (set_chain eid1 (exec (take k code) (chain_of eid1))) = Some eid' \<and>
       tables (add_nstations (- int (card (?U - set (0 # concat hs)))) eid') hs"
    proof (rule relink_after [OF _ _ _ _ _ _ _ att nl _ hs(1)])
      show "id_locality eid1 = ET_LOCAL" "sy_stat_head (id_sys eid1) = 0" "nstations_max eid1 = int (length (id_stats eid1))"
        using d(1) h T(2) by (simp_all add: e)
      show "in_chain (id_stats eid1 ! i) \<and> st_num (id_stats eid1 ! i) = int i" if "i \<in> ?U" for i
      proof (cases "i = s")
        case False
        then have "i \<in> ?M" using that by blast
        then show ?thesis using False T(4) [OF lt [OF that]] bspec [OF chain_okD(2) [OF T(1), unfolded members_ok_def]] unfolding st by presburger
      qed (simp add: st x)
      show "sd_status (st_data (id_stats eid1 ! i)) = ET_STATION_UNUSED" if "i < length (id_stats eid1)" "i \<notin> ?U" for i
        using T(5) [of i] that by (simp add: e del: list.set)
      show "i < length (id_stats eid1)" if "i \<in> ?U" for i using lt [OF that] by (simp add: e)
      show "inj_on (\<lambda>t. st_name (id_stats eid1 ! t)) ?U"
      proof -
        have "inj_on (\<lambda>t. st_name (id_stats eid1 ! t)) ?M" using T(6) inj_on_cong [of ?M "\<lambda>t. st_name (id_stats eid1 ! t)"] keep by (simp del: list.set)
        moreover have "name \<notin> (\<lambda>t. st_name (id_stats eid1 ! t)) ` (?M - {s})" using nm keep by (auto simp: image_image simp del: list.set)
        ultimately show ?thesis by (simp add: st x(3) del: list.set)
      qed
      show "forward_ok (fst (exec (take k code) (chain_of eid1))) hs" unfolding hs_def by (rule c(2))
    qed
    have cd: "card (?U - set (0 # concat hs)) = (if k \<le> c then 1 else 0)"
    proof -
      have "?U - ?M = {s}" using s(2) by blast
      then show ?thesis unfolding hs_def using set' by (simp del: list.set set_concat)
    qed
    have "add_nstations 0 e = e" for e by (simp add: add_nstations_def)
    then show ?thesis using r unfolding cd unfolding hs_def by (cases "k \<le> c") (simp_all, blast+)
  qed
  with c(1) show ?thesis by blast
qed

section \<open>Properties\<close>

text \<open>
  C37. A process dies while it removes a station without attachments, after any number of the single
  assignments that make up the removal. The repair of the links and of the stations ends and leaves
  right tables: with the station, or without it, and then the system's count of stations is one too
  high, for \<open>et_fix_stations\<close> counts the station it drops.
\<close>

theorem death_in_removal_repaired:
  assumes "tables eid gs" "sy_stat_head (id_sys eid) = 0" "s \<in> set (concat gs)" "atts_of eid s = {}"
  shows "\<exists>code gs'. remove_assigns (chain_of eid) s = Some code \<and>
     station_remove (chain_of eid) s = Some (exec code (chain_of eid)) \<and> mset (concat gs) = add_mset s (mset (concat gs')) \<and>
     (\<forall>k. \<exists>eid'. relink (set_chain eid (exec (take k code) (chain_of eid))) = Some eid' \<and>
        (tables eid' gs \<or> tables (add_nstations (-1) eid') gs'))"
proof -
  from death_in_removal [OF assms] obtain code gs' where c: "remove_assigns (chain_of eid) s = Some code"
     "mset (concat gs) = add_mset s (mset (concat gs'))"
     "\<forall>k. \<exists>eid'. relink (set_chain eid (exec (take k code) (chain_of eid))) = Some eid' \<and>
        (tables eid' gs \<or> tables (add_nstations (-1) eid') gs')" by blast
  have "station_remove (chain_of eid) s = Some (exec code (chain_of eid))"
    using c(1) exec_remove_assigns [of "chain_of eid" s] by simp
  with c show ?thesis by blast
qed

theorem death_in_removal_repaired_witness:
  "\<exists>code gs'. remove_assigns (chain_of sample_open) 1 = Some code \<and> mset (concat gs') = {#} \<and>
     (\<exists>eid'. relink (set_chain sample_open (exec (take 1 code) (chain_of sample_open))) = Some eid' \<and>
        (tables eid' [[1]] \<or> tables (add_nstations (-1) eid') gs'))"
proof -
  have "sy_stat_head (id_sys sample_open) = 0" by (simp add: sample_open_def sample_id_def Let_def)
  from death_in_removal_repaired [OF sample_open_tables this _ sample_open_live(2), of 1] obtain code gs' where
    c: "remove_assigns (chain_of sample_open) 1 = Some code" "mset (concat [[1]]) = add_mset 1 (mset (concat gs'))"
    "\<forall>k. \<exists>eid'. relink (set_chain sample_open (exec (take k code) (chain_of sample_open))) = Some eid' \<and>
        (tables eid' [[1]] \<or> tables (add_nstations (-1) eid') gs')" by auto
  from c(2) have "mset (concat gs') = {#}" by simp
  with c(1) c(3) [rule_format, of 1] show ?thesis by blast
qed

text \<open>
  C38. A process dies while it inserts a new station, whose conductor has started, into the chain,
  after any number of the single assignments that make up the insertion. The repair ends and leaves
  right tables: with the station at its place, or without it, and then the system's count of stations
  is one too high.
\<close>

theorem death_in_insertion_repaired:
  assumes "tables eid gs" "sy_stat_head (id_sys eid) = 0" "s < length (id_stats eid)" "s \<notin> set (0 # concat gs)"
    "name \<notin> st_name ` (\<lambda>i. id_stats eid ! i) ` set (0 # concat gs)"
    "eid1 = upd_stat (add_nstations 1 eid) s (\<lambda>x. set_status ET_STATION_IDLE (new_station pid s name sc x))"
    "insert_group (id_stats eid1) gs s p pp = Some gs'"
  shows "\<exists>code. insert_assigns (length (id_stats eid1)) (sy_nstations (id_sys eid1)) (chain_of eid1) s p pp = Some (ET_OK, code) \<and>
     station_insert (length (id_stats eid1)) (sy_nstations (id_sys eid1)) (chain_of eid1) s p pp =
       Some (ET_OK, exec code (chain_of eid1)) \<and>
     (\<forall>k. \<exists>eid'. relink (set_chain eid1 (exec (take k code) (chain_of eid1))) = Some eid' \<and>
        (tables (add_nstations (-1) eid') gs \<or> tables eid' gs'))"
proof -
  from death_in_insertion [OF assms] obtain code where
    c: "insert_assigns (length (id_stats eid1)) (sy_nstations (id_sys eid1)) (chain_of eid1) s p pp = Some (ET_OK, code)"
     "\<forall>k. \<exists>eid'. relink (set_chain eid1 (exec (take k code) (chain_of eid1))) = Some eid' \<and>
        (tables (add_nstations (-1) eid') gs \<or> tables eid' gs')" by blast
  have "station_insert (length (id_stats eid1)) (sy_nstations (id_sys eid1)) (chain_of eid1) s p pp = Some (ET_OK, exec code (chain_of eid1))"
    using c(1) exec_insert_assigns [of "chain_of eid1" "length (id_stats eid1)" "sy_nstations (id_sys eid1)" s p pp] by simp
  with c show ?thesis by blast
qed

theorem death_in_insertion_repaired_witness:
  "\<exists>eid1 code. insert_assigns 3 3 (chain_of eid1) 2 ET_END ET_END = Some (ET_OK, code) \<and>
     (\<exists>eid'. relink (set_chain eid1 (exec (take 1 code) (chain_of eid1))) = Some eid' \<and>
        (tables (add_nstations (-1) eid') [[1]] \<or> tables eid' [[1], [2]]))"
proof -
  let ?e = "upd_stat (add_nstations 1 sample_open) 2 (\<lambda>x. set_status ET_STATION_IDLE (new_station 7 2 ''B'' sample_config x))"
  have h: "sy_stat_head (id_sys sample_open) = 0" by (simp add: sample_open_def sample_id_def Let_def)
  have g: "insert_group (id_stats ?e) [[1]] 2 ET_END ET_END = Some [[1], [2]]" by (simp add: insert_group_def)
  have n: "''B'' \<notin> st_name ` (\<lambda>i. id_stats sample_open ! i) ` set (0 # concat [[1]])" by simp
  have l: "length (id_stats ?e) = 3" "sy_nstations (id_sys ?e) = 3" by (simp_all add: add_nstations_def)
  from death_in_insertion_repaired [OF sample_open_tables h _ _ n refl g] show ?thesis unfolding l by fastforce
qed

end
