(* ===== verification/ET_Detach.thy ===== *)
theory ET_Detach
  imports ET_Cycle ET_Relink ET_Recovery
begin

text \<open>
  Detaching an attachment of a dead process: flushing and restoring keep the invariant of theory
  \<open>ET_Cycle\<close>, whatever the state of the system, and afterwards the attachment owns no event.
  Stations whose restore mode is \<open>ET_STATION_RESTORE_REDIST\<close> are left out, for \<open>et_restore\<close> does not
  count the high priority events it puts into an output list.
\<close>

section \<open>Flushing\<close>

lemma nread_async_returns:
  assumes ok: "events_ok eid Q" and s: "s < length (id_stats eid)" "s \<noteq> 0" and n: "1 \<le> num"
  shows "\<exists>r es eid'. et_station_nread eid s ET_ASYNC a [] num = Some (r, es, eid') \<and> (r < 0 \<longrightarrow> es = []) \<and> (\<not> r < 0 \<longrightarrow> es \<noteq> []) \<and>
     distinct es \<and> set es \<subseteq> set (Q s) \<and> length (id_stats eid') = length (id_stats eid) \<and> nevents_max eid' = nevents_max eid \<and>
     (\<forall>i. ev_owner (id_events eid' i) = (if i \<in> set es then int a else ev_owner (id_events eid i)))"
proof -
  note l = lists_okD [OF events_okD(1) [OF ok] s(1)]
  show ?thesis
  proof (cases "att_quit eid a = ET_ATT_QUIT \<or> Q s = []")
    case True
    have l0: "l_cnt (in_list eid s) = int (length (Q s))" "\<not> l_mutex (in_list eid s)"
      using l(1,2) list_okD(1) by (auto simp: in_pl_in_list)
    have "\<exists>r eid'. read_acquire eid s ET_ASYNC a [] True = Some (r, eid', []) \<and> r < 0 \<and>
       length (id_stats eid') = length (id_stats eid) \<and> id_events eid' = id_events eid \<and> nevents_max eid' = nevents_max eid"
    proof (cases "att_quit eid a = ET_ATT_QUIT")
      case True
      then show ?thesis using l0 by (simp add: read_acquire_def set_quit_def upd_att_def nevents_max_def)
    next
      case False
      then have "Q s = []" using True by simp
      then show ?thesis using False l0 s
        by (simp add: read_acquire_def histogram_bump_def in_list_def set_in_mutex_def upd_stat_def nevents_max_def)
    qed
    then show ?thesis using s n by (auto simp: et_station_nread_def)
  next
    case False
    then have "read_ready eid ET_ASYNC a" by (simp add: read_ready_def)
    with et_station_nread_ready [OF s(1), of "Q s" ET_ASYNC a num "[]"] l(1,2) False s(2) n obtain eid2 where
      e: "et_station_nread eid s ET_ASYNC a [] num = Some (ET_OK, take (min (nat num) (length (Q s))) (Q s), eid2)"
      "id_events eid2 = set_owners (id_events eid) (take (min (nat num) (length (Q s))) (Q s)) (int a)"
      "length (id_stats eid2) = length (id_stats eid)"
      unfolding in_pl_in_list by auto
    have "events_only eid eid2" by (rule et_station_nread_async_events_only [OF e(1)])
    then have "nevents_max eid2 = nevents_max eid" by (simp add: nevents_max_def events_only_sys(3))
    moreover have "take (min (nat num) (length (Q s))) (Q s) \<noteq> []" using False n by simp
    moreover have "distinct (Q s)" using l(1) list_okD(2) by blast
    ultimately show ?thesis using e by (simp add: set_take_subset)
  qed
qed

lemma flush_keeps:
  assumes ok: "events_ok eid Q" and s: "s < length (id_stats eid)" and m: "1 \<le> nevents_max eid"
    and mode: "\<And>eid1. events_only eid eid1 \<Longrightarrow> cf_restore_mode (st_config (id_stats eid1 ! s)) \<noteq> ET_STATION_RESTORE_REDIST"
  shows "\<exists>eid' Q'. et_flush_events eid a s = Some eid' \<and> events_ok eid' Q' \<and>
     (\<forall>i. ev_owner (id_events eid' i) = ev_owner (id_events eid i))"
proof (cases "s = 0")
  case False
  from nread_async_returns [OF ok s False m, of a] obtain r es eid1 where
    r: "et_station_nread eid s ET_ASYNC a [] (nevents_max eid) = Some (r, es, eid1)" "r < 0 \<longrightarrow> es = []" "\<not> r < 0 \<longrightarrow> es \<noteq> []"
      "distinct es" "set es \<subseteq> set (Q s)" "length (id_stats eid1) = length (id_stats eid)" "nevents_max eid1 = nevents_max eid"
      "\<forall>i. ev_owner (id_events eid1 i) = (if i \<in> set es then int a else ev_owner (id_events eid i))" by blast
  note n = nread_step [OF ok r(1)] and eo = et_station_nread_async_events_only [OF r(1)]
  show ?thesis
  proof (cases "r < 0")
    case True
    then show ?thesis using r n(1) False by (auto simp: et_flush_events_def)
  next
    case nn: False
    obtain Q1 where Q1: "events_ok eid1 Q1" using n(1) by blast
    have "int i < nevents_max eid" if "i \<in> set es" for i using lists_okD(7) [OF events_okD(1) [OF ok] s] r(5) that by blast
    then have "held eid1 es" using r(4,7,8) by (simp add: held_def)
    from put_from [OF Q1 this _ _ link_only_refl, of s eid1] r nn s obtain eid2 Q2 where
      p: "et_station_nwrite eid1 s es (int (length es)) = Some (ET_OK, eid2)" "events_ok eid2 Q2"
        "\<forall>i. ev_owner (id_events eid2 i) = (if i \<in> set es then ET_SYS else ev_owner (id_events eid1 i))"
      by auto
    have "et_flush_events eid a s = Some eid2" using r(1) nn mode [OF eo] p(1) False by (simp add: et_flush_events_def)
    moreover have "ev_owner (id_events eid2 i) = ev_owner (id_events eid i)" for i
    proof (cases "i \<in> set es")
      case True
      then have "in_lists eid Q i" using r(5) s unfolding in_lists_def by (intro exI [of _ s]) auto
      then have "ev_owner (id_events eid i) = ET_SYS" using events_okD(4) [OF ok] in_lists_legal [OF events_okD(1) [OF ok]] by blast
      then show ?thesis using p(3) True by simp
    qed (use p(3) r(8) in simp)
    ultimately show ?thesis using p(2) by blast
  qed
qed (use ok in \<open>auto simp: et_flush_events_def\<close>)

section \<open>Restoring\<close>

text \<open>The heap \<open>ev\<close> with the events \<open>fs\<close> as they are in \<open>old\<close>.\<close>

definition as_in :: "evheap \<Rightarrow> nat list \<Rightarrow> evheap \<Rightarrow> evheap" where
  "as_in old fs ev = (\<lambda>i. if i \<in> set fs then old i else ev i)"

lemma link_only_as_in:
  assumes "link_only (S \<union> set fs) old ev" shows "link_only S old (as_in old fs ev)" "link_only (set fs) (as_in old fs ev) ev"
proof -
  show "link_only S old (as_in old fs ev)" using assms by (auto simp: link_only_def as_in_def)
  show "link_only (set fs) (as_in old fs ev) ev" using assms by (auto simp: link_only_def as_in_def)
qed

lemma held_append: "held eid (es @ fs) \<Longrightarrow> held eid es \<and> held eid fs \<and> set es \<inter> set fs = {}"
  by (auto simp: held_def)

text \<open>Dumping \<open>es\<close> while the owners of further events \<open>fs\<close> in the user's hands are already changed.\<close>

lemma dump_more:
  assumes ok: "events_ok eid Q" and h: "held eid (es @ fs)" and s: "0 < length (id_stats eid)" and ne: "es \<noteq> []"
    and ev: "link_only (set es \<union> set fs) (id_events eid) ev" "eid0 = eid\<lparr>id_events := ev\<rparr>"
  shows "\<exists>eid'. et_station_ndump eid0 es (int (length es)) = Some (ET_OK, eid') \<and>
    events_ok (eid'\<lparr>id_events := as_in (id_events eid) fs (id_events eid')\<rparr>) (Q(0 := Q 0 @ es)) \<and>
    link_only (set fs) (as_in (id_events eid) fs (id_events eid')) (id_events eid') \<and> length (id_stats eid') = length (id_stats eid) \<and>
    (\<forall>i. ev_owner (id_events eid' i) = (if i \<in> set es then ET_SYS else ev_owner (ev i)))"
proof -
  have ev': "link_only (set (es @ fs)) (id_events eid) ev" using ev(1) by simp
  note hs = held_append [OF h]
  note o = events_okD [OF ok] and sw = heap_swap [OF ev' ok h s]
  note l = lists_okD [OF o(1) s]
  have t: "0 < length (id_stats eid) + length (id_stats eid)" using s by simp
  note hf = held_facts [OF ok hs [THEN conjunct1]] and hff = held_facts(1) [OF ok hs [THEN conjunct2, THEN conjunct1] t]
  from station_ndump_core_ok [of ev "id_stats eid ! 0" "Q 0" es "nevents_max eid"] obtain ev2 where
    w: "station_ndump_core (nevents_max eid) es (int (length es)) ev (id_stats eid ! 0) = Some (ET_OK, ev2,
         (fix_in_dump_done (id_stats eid ! 0) (int (length (Q 0))) (int (length es)))\<lparr>st_list_in := put_tail (st_list_in (id_stats eid ! 0)) (Q 0 @ es)\<rparr>)"
      "linked ev2 (Q 0 @ es)" "link_only (set (Q 0) \<union> set es) ev ev2"
      "\<forall>i. ev_owner (ev2 i) = (if i \<in> set es then ET_SYS else ev_owner (ev i))"
    using l(2) sw(2) hf(3,4) [OF t] ne by (auto simp: in_pl_def)
  let ?ps = "(fix_in_dump_done (id_stats eid ! 0) (int (length (Q 0))) (int (length es)))\<lparr>st_list_in := put_tail (st_list_in (id_stats eid ! 0)) (Q 0 @ es)\<rparr>"
  let ?e = "eid\<lparr>id_stats := (id_stats eid)[0 := ?ps], id_events := ev2\<rparr>"
  have w3: "link_only ((set (Q 0) \<union> set es) \<union> set fs) (id_events eid) ev2"
    by (rule link_only_trans [OF link_only_mono [OF ev(1)] link_only_mono [OF w(3)]]) auto
  note g = link_only_as_in [OF w3]
  let ?gv = "as_in (id_events eid) fs ev2"
  have dis: "i \<notin> set fs" if "i \<in> set (Q 0 @ es)" for i using that hs hff by auto
  then have lk: "linked ?gv (Q 0 @ es)"
    using w(2) linked_cong [of "Q 0 @ es" ?gv ev2] in_set_butlastD [of _ "Q 0 @ es"] by (metis as_in_def)
  have go: "\<forall>i. ev_owner (?gv i) = (if i \<in> set es then ET_SYS else ev_owner (id_events eid i))"
  proof
    fix i show "ev_owner (?gv i) = (if i \<in> set es then ET_SYS else ev_owner (id_events eid i))"
      using w(4) hs link_onlyD(1) [OF ev(1), of i] by (auto simp: as_in_def)
  qed
  have "et_station_ndump eid0 es (int (length es)) = Some (ET_OK, ?e)"
    using w(1) s ne by (simp add: et_station_ndump_def on_station_def ev(2) nevents_max_def)
  moreover have "events_ok (eid\<lparr>id_stats := (id_stats eid)[0 := ?ps], id_events := ?gv\<rparr>) (Q(0 := Q 0 @ es))"
    by (rule gc_append_step [OF ok hs [THEN conjunct1] s])
      (use l(2) lk g(1) go list_ok_put_tail [OF hf(3) [OF t] lk] in \<open>auto simp: fix_in_dump_done_def in_pl_def\<close>)
  ultimately show ?thesis using g(2) w(4) by auto
qed

text \<open>Restoring into the input list of a station.\<close>

lemma restore_from:
  assumes ok: "events_ok eid Q" and h: "held eid es" and s: "s < length (id_stats eid)" and ne: "es \<noteq> []"
    and hi: "hi_first (id_events eid) es" and that: "0 < s" and ev: "link_only (set es) (id_events eid) ev"
  shows "\<exists>ev' pl. et_restore (nevents_max eid) ev (st_list_in (id_stats eid ! s)) es (int (length es)) =
      Some (ET_OK, Some (int (length es)), ev', pl) \<and>
    events_ok ((upd_stat eid s (\<lambda>ps. ps\<lparr>st_list_in := pl\<rparr>))\<lparr>id_events := ev'\<rparr>) (Q(s := pri_append (id_events eid) es (Q s))) \<and>
    (\<forall>i. ev_owner (ev' i) = (if i \<in> set es then ET_SYS else ev_owner (id_events eid i)))"
proof -
  note o = events_okD [OF ok]
  let ?n = "length (id_stats eid)"
  have t: "s < ?n + ?n" using s by simp
  note hf = held_facts [OF ok h] and sw = heap_swap [OF ev(1) ok h s] and l = lists_okD [OF o(1) s]
  note pa = pri_append_cong [OF sw(4)] and hc = hi_first_is_high_cong [OF sw(4)]
  define R where "R = pri_append (id_events eid) es (Q s)"
  have "hi_first ev (Q s)" "hi_first ev es" using l(3) that hi by (simp_all add: hc)
  with et_restore_ok [of ev "st_list_in (id_stats eid ! s)" "Q s" es "nevents_max eid"] sw(2,3) l(2) ne hf(3,4) [OF t] obtain ev' where
    w: "et_restore (nevents_max eid) ev (st_list_in (id_stats eid ! s)) es (int (length es)) = Some (ET_OK, Some (int (length es)), ev',
       (st_list_in (id_stats eid ! s))\<lparr>l_firstevent := Some (hd R), l_lastevent := Some (last R), l_cnt := int (length R)\<rparr>)"
      "linked ev' R" "link_only (set (Q s @ es)) ev ev'" "\<forall>i. ev_owner (ev' i) = (if i \<in> set es then ET_SYS else ev_owner (ev i))"
    by (auto simp: in_pl_def R_def pa)
  define pl where "pl = (st_list_in (id_stats eid ! s))\<lparr>l_firstevent := Some (hd R), l_lastevent := Some (last R), l_cnt := int (length R)\<rparr>"
  have w3: "link_only (set (Q s) \<union> set es) (id_events eid) ev'"
    by (rule link_only_trans [OF link_only_mono [OF ev(1)] link_only_mono [OF w(3)]]) auto
  have w4: "\<forall>i. ev_owner (ev' i) = (if i \<in> set es then ET_SYS else ev_owner (id_events eid i))"
    using w(4) link_onlyD(1) [OF ev(1)] by simp
  have setR: "set R = set (Q s) \<union> set es" by (auto simp: R_def pri_append_def)
  have dR: "distinct R" using hf(3) [OF t] by (simp add: R_def distinct_pri_append Int_commute)
  have Rne: "R \<noteq> []" using ne setR by auto
  let ?e = "(upd_stat eid s (\<lambda>ps. ps\<lparr>st_list_in := pl\<rparr>))\<lparr>id_events := ev'\<rparr>"
  have hR: "hi_first ev' R"
    using hi_first_is_high_cong [OF link_only_is_high [OF w3]] hi_first_pri_append unfolding R_def by metis
  have io: "in_pl ?e t = (if t = s then pl else in_pl eid t)" "out_pl ?e t = out_pl eid t" for t
    using s by (cases "t = s"; simp add: in_pl_def out_pl_def)+
  have "events_ok ?e (Q(s := R))"
  proof (rule place_step [OF ok t refl, where es = es])
    show "set (Q q) \<inter> set es = {}" if "q < ?n + ?n" for q using hf(1) [OF that] .
    show "legal_events eid R" by (rule legal_events_sub [OF hf(5) [OF t]]) (simp add: setR)
    show "ev_owner (id_events ?e e) = ET_SYS \<longleftrightarrow> e \<in> set R" if "e \<in> set (Q s) \<union> set es" for e
    proof -
      have "ev_owner (id_events eid e) = ET_SYS" if "e \<in> set (Q s)"
      proof -
        have "in_lists eid Q e" using that t unfolding in_lists_def by blast
        then show ?thesis using o(4) in_lists_legal [OF o(1)] by blast
      qed
      then show ?thesis using that w4 setR by auto
    qed
    show "list_ok (id_events ?e) (in_pl ?e s) R \<and> \<not> l_mutex (in_pl ?e s) \<and> (0 < s \<longrightarrow> hi_first (id_events ?e) R)"
    proof -
      have "\<not> l_mutex (st_list_in (id_stats eid ! s))" using l(2) by (simp add: in_pl_def)
      then show ?thesis using dR w(2) Rne hR unfolding io by (simp add: pl_def list_ok_def)
    qed
    show "out_ok (id_events ?e) (out_pl ?e t) R \<and> \<not> l_mutex (out_pl ?e t)" if "s = ?n + t" for t using that s by simp
    show "length (id_histogram ?e) = length (id_histogram eid)" by (simp add: upd_stat_def)
  qed (use w3 setR io s in \<open>auto simp: nevents_max_def\<close>)
  then show ?thesis using w(1) w4 unfolding pl_def R_def by blast
qed


lemma edit_drop_temps [simp]: "edit eid (drop_temps eid es)"
  by (simp add: edit_def drop_temps_def in_pl_def out_pl_def nevents_max_def)

lemma link_only_mark: "link_only S ev ev' \<Longrightarrow> link_only S (mark_corrupt ev es) (mark_corrupt ev' es)"
proof (induction es arbitrary: ev ev')
  case (Cons e es)
  have "(ev' e)\<lparr>ev_next := None, ev_owner := 0\<rparr> = (ev e)\<lparr>ev_next := None, ev_owner := 0\<rparr>" using Cons.prems by (simp add: link_only_def)
  then have "(ev' e)\<lparr>ev_datastatus := ET_DATA_POSSIBLY_CORRUPT, ev_next := None, ev_owner := 0\<rparr> =
      (ev e)\<lparr>ev_datastatus := ET_DATA_POSSIBLY_CORRUPT, ev_next := None, ev_owner := 0\<rparr>"
    by (cases "ev' e"; cases "ev e") simp
  with Cons.prems have "link_only S (ev(e := (ev e)\<lparr>ev_datastatus := ET_DATA_POSSIBLY_CORRUPT\<rparr>)) (ev'(e := (ev' e)\<lparr>ev_datastatus := ET_DATA_POSSIBLY_CORRUPT\<rparr>))"
    by (auto simp: link_only_def)
  from Cons.IH [OF this] show ?case by (simp only: mark_corrupt.simps)
qed simp

lemma edit_mark: "edit eid (eid\<lparr>id_events := mark_corrupt (id_events eid) es\<rparr>)"
  by (simp add: edit_def in_pl_def out_pl_def nevents_max_def legal_pri_def)

lemma link_only_temp:
  assumes "link_only S ev ev'" shows "ev_temp (ev' i) = ev_temp (ev i)"
proof -
  have "(ev' i)\<lparr>ev_next := None, ev_owner := 0\<rparr> = (ev i)\<lparr>ev_next := None, ev_owner := 0\<rparr>" using assms by (simp add: link_only_def)
  from arg_cong [OF this, of ev_temp] show ?thesis by simp
qed

lemma drop_temps_links: "link_only S (id_events g) ev \<Longrightarrow> drop_temps (g\<lparr>id_events := ev\<rparr>) es = (drop_temps g es)\<lparr>id_events := ev\<rparr>"
  by (simp add: drop_temps_def link_only_temp)

lemma restore_used_keeps:
  assumes ok: "events_ok g Q" and h: "held g es" and s: "s < length (id_stats g)" and ne: "es \<noteq> []" and hi: "hi_first (id_events g) es"
    and ev: "link_only (set es) (id_events g) ev" "eid = g\<lparr>id_events := ev\<rparr>"
    and mode: "cf_restore_mode (st_config (id_stats g ! s)) \<in> {ET_STATION_RESTORE_OUT, ET_STATION_RESTORE_IN, ET_STATION_RESTORE_GC}"
  shows "\<exists>eid' Q'. restore_used eid s es = Some (ET_OK, eid') \<and> events_ok eid' Q' \<and>
    (\<forall>i. ev_owner (id_events eid' i) = (if i \<in> set es then ET_SYS else ev_owner (id_events g i)))"
proof -
  let ?c = "cf_restore_mode (st_config (id_stats g ! s))" and ?m = "g\<lparr>id_events := mark_corrupt (id_events g) es\<rparr>"
  have m: "events_ok ?m Q" "held ?m es" by (rule edit_events_ok [OF edit_mark ok], rule edit_held [OF edit_mark h])
  have mv: "link_only (set es) (id_events ?m) (mark_corrupt ev es)" using link_only_mark [OF ev(1)] by simp
  have d: "events_ok (drop_temps eid' es) Q" "held (drop_temps eid' es) es" if "eid' = g" for eid'
    using edit_events_ok [OF edit_drop_temps ok] edit_held [OF edit_drop_temps h] that by simp_all
  have ow: "ev_owner (id_events ?m i) = ev_owner (id_events g i)" for i by simp
  consider (gc) "?c = ET_STATION_RESTORE_GC \<or> s = 0"
    | (out) "s \<noteq> 0" "?c \<noteq> ET_STATION_RESTORE_GC" "?c = ET_STATION_RESTORE_OUT \<or> sd_nattachments (st_data (id_stats g ! s)) = 0"
    | (inp) "s \<noteq> 0" "?c = ET_STATION_RESTORE_IN" "sd_nattachments (st_data (id_stats g ! s)) \<noteq> 0"
    using mode by blast
  then show ?thesis
  proof cases
    case gc
    have s0: "0 < length (id_stats (drop_temps g es))" using s by auto
    have "drop_temps eid es = (drop_temps g es)\<lparr>id_events := ev\<rparr>" unfolding ev(2) by (rule drop_temps_links [OF ev(1)])
    from dump_from [OF d [OF refl] s0 ne _ this] ev(1) obtain eid' where
      r: "et_station_ndump (drop_temps eid es) es (int (length es)) = Some (ET_OK, eid')" "events_ok eid' (Q(0 := Q 0 @ es))"
        "\<forall>i. ev_owner (id_events eid' i) = (if i \<in> set es then ET_SYS else ev_owner (id_events g i))" by auto
    have "restore_used eid s es = Some (ET_OK, eid')" using r(1) gc by (auto simp: restore_used_def Let_def ev(2))
    then show ?thesis using r(2,3) by blast
  next
    case out
    have "eid\<lparr>id_events := mark_corrupt (id_events eid) es\<rparr> = ?m\<lparr>id_events := mark_corrupt ev es\<rparr>" by (simp add: ev(2))
    from put_from [OF m _ ne mv this, of s] s obtain eid' Q' where
      r: "et_station_nwrite (eid\<lparr>id_events := mark_corrupt (id_events eid) es\<rparr>) s es (int (length es)) = Some (ET_OK, eid')" "events_ok eid' Q'"
        "\<forall>i. ev_owner (id_events eid' i) = (if i \<in> set es then ET_SYS else ev_owner (id_events ?m i))" by auto
    have "restore_used eid s es = Some (ET_OK, eid')" using r(1) out mode by (auto simp: restore_used_def Let_def ev(2))
    then show ?thesis using r(2,3) unfolding ow by blast
  next
    case inp
    have "is_high (id_events ?m) = is_high (id_events g)" by (simp add: is_high_def fun_eq_iff)
    then have hm: "hi_first (id_events ?m) es" using hi_first_is_high_cong hi by metis
    have sm: "s < length (id_stats ?m)" using s by simp
    have sp: "0 < s" using inp(1) by simp
    from restore_from [OF m sm ne hm sp mv] obtain ev' pl where
      r: "et_restore (nevents_max ?m) (mark_corrupt ev es) (st_list_in (id_stats ?m ! s)) es (int (length es)) =
            Some (ET_OK, Some (int (length es)), ev', pl)"
        "events_ok ((upd_stat ?m s (\<lambda>ps. ps\<lparr>st_list_in := pl\<rparr>))\<lparr>id_events := ev'\<rparr>) (Q(s := pri_append (id_events ?m) es (Q s)))"
        "\<forall>i. ev_owner (ev' i) = (if i \<in> set es then ET_SYS else ev_owner (id_events ?m i))" by blast
    have "(upd_stat (eid\<lparr>id_events := mark_corrupt ev es\<rparr>) s (\<lambda>ps. ps\<lparr>st_list_in := pl\<rparr>))\<lparr>id_events := ev'\<rparr> =
        (upd_stat ?m s (\<lambda>ps. ps\<lparr>st_list_in := pl\<rparr>))\<lparr>id_events := ev'\<rparr>" by (simp add: upd_stat_def ev(2))
    moreover have "nevents_max eid = nevents_max ?m" by (simp add: ev(2) nevents_max_def)
    ultimately have "restore_used eid s es = Some (ET_OK, (upd_stat ?m s (\<lambda>ps. ps\<lparr>st_list_in := pl\<rparr>))\<lparr>id_events := ev'\<rparr>)"
      using r(1) inp by (simp add: restore_used_def Let_def ev(2))
    then show ?thesis using r(2,3) unfolding ow by fastforce
  qed
qed


lemma events_ok_owned:
  "events_ok eid Q \<Longrightarrow> a \<noteq> ET_SYS \<Longrightarrow> set es \<subseteq> set (owned_by eid a) \<Longrightarrow> distinct es \<Longrightarrow> held eid es"
  by (auto simp: held_def owned_by_set subset_iff)

definition restores_ok :: "et_station \<Rightarrow> bool" where
  "restores_ok ps \<longleftrightarrow> cf_restore_mode (st_config ps) \<in> {ET_STATION_RESTORE_OUT, ET_STATION_RESTORE_IN, ET_STATION_RESTORE_GC}"

lemma restore_events_keeps:
  assumes ok: "events_ok eid Q" and a: "a \<noteq> ET_SYS" and s: "s < length (id_stats eid)" and mode: "restores_ok (id_stats eid ! s)"
  shows "\<exists>eid' Q'. et_restore_events eid a s = Some (ET_OK, eid') \<and> events_ok eid' Q' \<and>
    (\<forall>i. ev_owner (id_events eid' i) = (if i \<in> set (owned_by eid a) then ET_SYS else ev_owner (id_events eid i)))"
proof -
  define new where "new = filter (\<lambda>e. ev_age (id_events eid e) = ET_EVENT_NEW) (owned_by eid a)"
  define used where "used = filter (\<lambda>e. ev_age (id_events eid e) \<noteq> ET_EVENT_NEW) (owned_by eid a)"
  define ord where "ord = high_before_low (id_events (eid\<lparr>id_events := set_owners (id_events eid) used ET_SYS\<rparr>)) used"
  note of = high_before_low_facts [of "id_events (eid\<lparr>id_events := set_owners (id_events eid) used ET_SYS\<rparr>)" used, folded ord_def]
  have sets: "set new \<union> set used = set (owned_by eid a)" by (auto simp: new_def used_def)
  have hi: "hi_first (id_events eid) ord" using of(4) by simp
  have dis: "distinct (new @ ord)" using of(1,3) by (auto simp: new_def used_def)
  have h: "held eid (new @ ord)" by (rule events_ok_owned [OF ok a _ dis]) (use of(1) in \<open>auto simp: new_def used_def\<close>)
  note hs = held_append [OF h]
  let ?ev1 = "set_owners (id_events eid) used ET_SYS"
  have l1: "link_only (set new \<union> set ord) (id_events eid) ?ev1" "link_only (set ord) (id_events eid) ?ev1"
    by (rule link_only_set_owners, use of(1) in simp)+
  have R: "et_restore_events eid a s = (if used = [] \<and> new = [] then Some (ET_OK, eid)
      else case (if new = [] then Some (ET_OK, eid\<lparr>id_events := ?ev1\<rparr>)
        else et_station_ndump (drop_temps (eid\<lparr>id_events := ?ev1\<rparr>) new) new (int (length new))) of
          None \<Rightarrow> None
        | Some (status, eid2) \<Rightarrow> if used = [] then Some (status, eid2) else restore_used eid2 s ord)"
    unfolding et_restore_events_def Let_def ord_def used_def new_def by (rule refl)
  have oneq: "ev_owner (?ev1 i) = (if i \<in> set used then ET_SYS else ev_owner (id_events eid i))" for i by simp
  \<comment> \<open>the new events\<close>
  have "\<exists>eid2 Q2. (if new = [] then Some (ET_OK, eid\<lparr>id_events := ?ev1\<rparr>)
        else et_station_ndump (drop_temps (eid\<lparr>id_events := ?ev1\<rparr>) new) new (int (length new))) = Some (ET_OK, eid2) \<and>
      events_ok (eid2\<lparr>id_events := as_in (id_events eid) ord (id_events eid2)\<rparr>) Q2 \<and>
      link_only (set ord) (as_in (id_events eid) ord (id_events eid2)) (id_events eid2) \<and>
      length (id_stats eid2) = length (id_stats eid) \<and> nevents_max eid2 = nevents_max eid \<and>
      st_config (id_stats eid2 ! s) = st_config (id_stats eid ! s) \<and>
      (\<forall>i. ev_owner (id_events eid2 i) = (if i \<in> set new then ET_SYS else ev_owner (?ev1 i))) \<and>
      (\<forall>i \<in> set ord. is_high (id_events eid2) i = is_high (id_events eid) i)"
  proof (cases "new = []")
    case True
    have "?ev1 i = id_events eid i" if "i \<notin> set ord" for i by (rule link_onlyD(1) [OF l1(2) that])
    then have "as_in (id_events eid) ord ?ev1 = id_events eid" by (simp add: as_in_def fun_eq_iff)
    then show ?thesis using True ok l1(2) by (intro exI [of _ "eid\<lparr>id_events := ?ev1\<rparr>"] exI [of _ Q]) (simp add: nevents_max_def)
  next
    case False
    let ?g = "drop_temps eid new"
    have g: "events_ok ?g Q" "held ?g (new @ ord)" "0 < length (id_stats ?g)"
      using edit_events_ok [OF edit_drop_temps ok] edit_held [OF edit_drop_temps h] s by auto
    have gl: "link_only (set new \<union> set ord) (id_events ?g) ?ev1" using l1(1) by simp
    have "drop_temps (eid\<lparr>id_events := ?ev1\<rparr>) new = ?g\<lparr>id_events := ?ev1\<rparr>" by (rule drop_temps_links [OF l1(1)])
    from dump_more [OF g False gl this] obtain eid2 where
      r: "et_station_ndump (drop_temps (eid\<lparr>id_events := ?ev1\<rparr>) new) new (int (length new)) = Some (ET_OK, eid2)"
        "events_ok (eid2\<lparr>id_events := as_in (id_events eid) ord (id_events eid2)\<rparr>) (Q(0 := Q 0 @ new))"
        "link_only (set ord) (as_in (id_events eid) ord (id_events eid2)) (id_events eid2)"
        "length (id_stats eid2) = length (id_stats eid)" "\<forall>i. ev_owner (id_events eid2 i) = (if i \<in> set new then ET_SYS else ev_owner (?ev1 i))"
      by auto
    have eo: "events_only (drop_temps (eid\<lparr>id_events := ?ev1\<rparr>) new) eid2" by (rule et_station_ndump_events_only [OF r(1)])
    have "st_config (id_stats eid2 ! s) = st_config (id_stats eid ! s)"
      using list_change_fields [OF events_only_stat(2) [OF eo]] s by simp
    moreover have "nevents_max eid2 = nevents_max eid"
      using events_only_sys(3) [OF eo] by (simp add: nevents_max_def drop_temps_def)
    moreover have "is_high (id_events eid2) i = is_high (id_events eid) i" if "i \<in> set ord" for i
      using link_onlyD(2) [OF r(3), of i] that by (simp add: is_high_def as_in_def)
    ultimately show ?thesis using False r by auto
  qed
  then obtain eid2 Q2 where
    2: "(if new = [] then Some (ET_OK, eid\<lparr>id_events := ?ev1\<rparr>)
        else et_station_ndump (drop_temps (eid\<lparr>id_events := ?ev1\<rparr>) new) new (int (length new))) = Some (ET_OK, eid2)"
      "events_ok (eid2\<lparr>id_events := as_in (id_events eid) ord (id_events eid2)\<rparr>) Q2"
      "link_only (set ord) (as_in (id_events eid) ord (id_events eid2)) (id_events eid2)"
      "length (id_stats eid2) = length (id_stats eid)" "nevents_max eid2 = nevents_max eid"
      "st_config (id_stats eid2 ! s) = st_config (id_stats eid ! s)"
      "\<forall>i. ev_owner (id_events eid2 i) = (if i \<in> set new then ET_SYS else ev_owner (?ev1 i))"
    by blast
  show ?thesis
  proof (cases "used = []")
    case True
    then have "ord = []" using of(5) by simp
    then have e: "events_ok eid2 Q2" using 2(2) by (simp add: as_in_def)
    have o: "ev_owner (id_events eid2 i) = (if i \<in> set (owned_by eid a) then ET_SYS else ev_owner (id_events eid i))" for i
      using 2(7) sets True by auto
    show ?thesis
    proof (cases "new = []")
      case n: True
      have "owned_by eid a = []" using sets True n by simp
      then show ?thesis using n True ok by (auto simp: R)
    next
      case False
      have "et_restore_events eid a s = Some (ET_OK, eid2)" unfolding R 2(1) using True False by simp
      then show ?thesis using e o by blast
    qed
  next
    case False
    let ?g = "eid2\<lparr>id_events := as_in (id_events eid) ord (id_events eid2)\<rparr>"
    have hg: "held ?g ord" using hs 2(5) by (simp add: held_def as_in_def nevents_max_def)
    have on: "ord \<noteq> []" using False of(5) by simp
    have hig: "hi_first (id_events ?g) ord"
    proof -
      have "is_high (id_events ?g) x = is_high (id_events eid) x" if "x \<in> set ord" for x using that by (simp add: is_high_def as_in_def)
      then show ?thesis using hi_first_same(1) [of ord "id_events ?g" "id_events eid"] hi by simp
    qed
    have "eid2 = ?g\<lparr>id_events := id_events eid2\<rparr>" by simp
    from restore_used_keeps [OF 2(2) hg _ on hig _ this, of s] s 2(3,4,6) mode obtain eid' Q' where
      r: "restore_used eid2 s ord = Some (ET_OK, eid')" "events_ok eid' Q'"
        "\<forall>i. ev_owner (id_events eid' i) = (if i \<in> set ord then ET_SYS else ev_owner (id_events ?g i))"
      by (auto simp: restores_ok_def)
    have "et_restore_events eid a s = Some (ET_OK, eid')" unfolding R 2(1) using False r(1) by simp
    moreover have "ev_owner (id_events eid' i) = (if i \<in> set (owned_by eid a) then ET_SYS else ev_owner (id_events eid i))" for i
      using r(3) 2(7) sets of(1) by (auto simp: as_in_def)
    ultimately show ?thesis using r(2) by blast
  qed
qed


section \<open>Detaching\<close>

lemma edit_upd_stat:
  assumes "\<And>ps. st_list_in (f ps) = st_list_in ps \<and> st_list_out (f ps) = st_list_out ps"
  shows "edit eid (upd_stat eid s f)"
proof -
  have "st_list_in ((id_stats eid)[s := f (id_stats eid ! s)] ! t) = st_list_in (id_stats eid ! t) \<and>
      st_list_out ((id_stats eid)[s := f (id_stats eid ! s)] ! t) = st_list_out (id_stats eid ! t)" for t
    using assms by (cases "t = s"; cases "s < length (id_stats eid)") (simp_all add: list_update_beyond)
  then show ?thesis by (simp add: edit_def upd_stat_def in_pl_def out_pl_def nevents_max_def)
qed

lemma edit_detach [simp]:
  "edit eid (upd_stat eid s (set_status v))" "edit eid (upd_stat eid s (note_att d a v'))" "edit eid (add_nattachments n eid)"
  "edit eid (upd_proc eid p f)"
  by (rule edit_upd_stat, simp add: set_status_def note_att_def)+
    (simp_all add: edit_def add_nattachments_def upd_proc_def in_pl_def out_pl_def nevents_max_def)

lemma edit_owner: "edit eid eid' \<Longrightarrow> ev_owner (id_events eid' i) = ev_owner (id_events eid i)"
  by (simp add: edit_def)

lemma edit_owned: "edit eid eid' \<Longrightarrow> owned_by eid' a = owned_by eid a"
  by (simp add: edit_def owned_by_def)

lemma restores_ok_only: "events_only e e' \<Longrightarrow> s < length (id_stats e) \<Longrightarrow> restores_ok (id_stats e' ! s) = restores_ok (id_stats e ! s)"
  using list_change_fields [OF events_only_stat(2)] by (simp add: restores_ok_def)

lemma detach_local_keeps:
  assumes ok: "events_ok eid Q" and m: "1 \<le> nevents_max eid" and s: "s < length (id_stats eid)" and mode: "restores_ok (id_stats eid ! s)"
  shows "\<exists>eid' Q'. detach_local eid a s = Some (ET_OK, eid') \<and> events_ok eid' Q' \<and>
    (\<forall>i. ev_owner (id_events eid' i) = (if i \<in> set (owned_by eid (int a)) then ET_SYS else ev_owner (id_events eid i)))"
proof -
  define eid1 where "eid1 = add_nattachments (-1) (upd_att eid a (\<lambda>x. x\<lparr>at_num := -1, at_status := ET_ATT_UNUSED\<rparr>))"
  have e1: "edit eid eid1" unfolding eid1_def by (rule edit_trans [OF edit_upd_att edit_detach(3)])
  have f1: "id_stats eid1 = id_stats eid" "nevents_max eid1 = nevents_max eid" by (simp_all add: eid1_def nevents_max_def)
  note ok1 = edit_events_ok [OF e1 ok]
  let ?last = "sd_nattachments (st_data (id_stats eid1 ! s)) = 1 \<and> s \<noteq> 0"
  have "\<exists>eid2 Q2. (if ?last then et_flush_events (upd_stat eid1 s (set_status ET_STATION_IDLE)) a s else Some eid1) = Some eid2 \<and>
      events_ok eid2 Q2 \<and> (\<forall>i. ev_owner (id_events eid2 i) = ev_owner (id_events eid i)) \<and> nevents_max eid2 = nevents_max eid \<and>
      length (id_stats eid2) = length (id_stats eid) \<and> restores_ok (id_stats eid2 ! s)"
  proof (cases ?last)
    case True
    let ?e = "upd_stat eid1 s (set_status ET_STATION_IDLE)"
    have e: "edit eid1 ?e" "length (id_stats ?e) = length (id_stats eid)" "nevents_max ?e = nevents_max eid"
      by (simp_all add: f1 nevents_max_def) (use f1(2) in \<open>simp add: nevents_max_def\<close>)
    have r: "restores_ok (id_stats ?e ! s)" using mode s by (simp add: restores_ok_def f1)
    have "\<exists>eid2 Q2. et_flush_events ?e a s = Some eid2 \<and> events_ok eid2 Q2 \<and> (\<forall>i. ev_owner (id_events eid2 i) = ev_owner (id_events ?e i))"
    proof (rule flush_keeps [OF edit_events_ok [OF e(1) ok1]])
      fix x assume "events_only ?e x"
      from restores_ok_only [OF this, of s] r s e(2) show "cf_restore_mode (st_config (id_stats x ! s)) \<noteq> ET_STATION_RESTORE_REDIST"
        by (auto simp: restores_ok_def)
    qed (use s e m in simp_all)
    then obtain eid2 Q2 where 2: "et_flush_events ?e a s = Some eid2" "events_ok eid2 Q2"
      "\<forall>i. ev_owner (id_events eid2 i) = ev_owner (id_events ?e i)" by blast
    have eo: "events_only ?e eid2" by (rule et_flush_events_only [OF 2(1)])
    have "nevents_max eid2 = nevents_max eid" "length (id_stats eid2) = length (id_stats eid)"
      using events_only_sys(3) [OF eo] events_only_stat(1) [OF eo] e by (simp_all add: nevents_max_def)
    moreover have "restores_ok (id_stats eid2 ! s)" using restores_ok_only [OF eo] r s e(2) by simp
    ultimately show ?thesis using True 2 edit_owner [OF e(1)] edit_owner [OF e1] by auto
  next
    case False
    show ?thesis by (intro exI [of _ eid1] exI [of _ Q]) (use ok1 False edit_owner [OF e1] f1 mode in auto)
  qed
  then obtain eid2 Q2 where
    2: "(if ?last then et_flush_events (upd_stat eid1 s (set_status ET_STATION_IDLE)) a s else Some eid1) = Some eid2"
      "events_ok eid2 Q2" "\<forall>i. ev_owner (id_events eid2 i) = ev_owner (id_events eid i)" "nevents_max eid2 = nevents_max eid"
      "length (id_stats eid2) = length (id_stats eid)" "restores_ok (id_stats eid2 ! s)" by blast
  have ow: "owned_by eid2 (int a) = owned_by eid (int a)" by (simp add: owned_by_def 2(3,4))
  from restore_events_keeps [OF 2(2), of "int a" s] 2(5,6) s obtain eid3 Q3 where
    3: "et_restore_events eid2 (int a) s = Some (ET_OK, eid3)" "events_ok eid3 Q3"
      "\<forall>i. ev_owner (id_events eid3 i) = (if i \<in> set (owned_by eid (int a)) then ET_SYS else ev_owner (id_events eid i))"
    unfolding ow by (auto simp: 2(3))
  define eid4 where "eid4 = upd_stat eid3 s (note_att (-1) a (-1))"
  define eid5 where "eid5 = (if id_cleanup eid \<noteq> 1 then upd_proc eid4 (id_proc eid) (note_proc (-1) a (-1)) else eid4)"
  have e5: "edit eid3 eid5" unfolding eid5_def eid4_def
    by (cases "id_cleanup eid = 1") (simp_all add: edit_trans [OF edit_detach(2) edit_detach(4)])
  have "detach_local eid a s = Some (ET_OK, eid5)"
    unfolding detach_local_def Let_def eid1_def [symmetric] 2(1) eid5_def eid4_def by (simp add: 3(1))
  then show ?thesis using edit_events_ok [OF e5 3(2)] 3(3) edit_owner [OF e5] by auto
qed


text \<open>What a detach leaves alone.\<close>

definition settled :: "et_id \<Rightarrow> et_id \<Rightarrow> bool" where
  "settled e e' \<longleftrightarrow> id_alive e' = id_alive e \<and> id_closed e' = id_closed e \<and> id_locality e' = id_locality e \<and>
     id_proc e' = id_proc e \<and> id_cleanup e' = id_cleanup e \<and> sy_config (id_sys e') = sy_config (id_sys e) \<and>
     sy_nprocesses (id_sys e') = sy_nprocesses (id_sys e) \<and> map at_proc (sy_attach (id_sys e')) = map at_proc (sy_attach (id_sys e)) \<and>
     map at_stat (sy_attach (id_sys e')) = map at_stat (sy_attach (id_sys e)) \<and>
     length (id_stats e') = length (id_stats e) \<and> (\<forall>t < length (id_stats e). st_config (id_stats e' ! t) = st_config (id_stats e ! t))"

lemma settled_refl [simp]: "settled e e"
  by (simp add: settled_def)

lemma settled_trans: "settled a b \<Longrightarrow> settled b c \<Longrightarrow> settled a c"
  by (auto simp: settled_def)

lemma settled_events_only:
  assumes "events_only e e'" shows "settled e e'"
proof -
  have "at_proc (calm x) = at_proc x" "at_stat (calm x) = at_stat x" for x by (simp_all add: calm_def)
  then have "map at_proc xs = map at_proc (map calm xs)" "map at_stat xs = map at_stat (map calm xs)" for xs by simp_all
  then have "map at_proc (sy_attach (id_sys e')) = map at_proc (sy_attach (id_sys e))"
    "map at_stat (sy_attach (id_sys e')) = map at_stat (sy_attach (id_sys e))"
    using events_only_sys(6) [OF assms] by metis+
  moreover have "(id_sys e')\<lparr>sy_ntemps := 0, sy_attach := map calm (sy_attach (id_sys e'))\<rparr> =
       (id_sys e)\<lparr>sy_ntemps := 0, sy_attach := map calm (sy_attach (id_sys e))\<rparr>" using assms by (simp add: events_only_def)
  from arg_cong [OF this, of sy_nprocesses] have "sy_nprocesses (id_sys e') = sy_nprocesses (id_sys e)" by simp
  ultimately show ?thesis
    using assms events_only_sys(3) [OF assms] events_only_stat [OF assms] list_change_fields(2) by (auto simp: settled_def events_only_def)
qed

lemma settled_upd_stat:
  assumes "\<And>ps. st_config (f ps) = st_config ps" shows "settled e (upd_stat e s f)"
proof -
  have "st_config ((id_stats e)[s := f (id_stats e ! s)] ! t) = st_config (id_stats e ! t)" for t
    using assms by (cases "t = s"; cases "s < length (id_stats e)") (simp_all add: list_update_beyond)
  then show ?thesis by (simp add: settled_def upd_stat_def)
qed

lemma map_upd_same:
  assumes "f x = f (xs ! i)" shows "map f (xs[i := x]) = map f xs"
proof (cases "i < length xs")
  case True
  then show ?thesis using assms by (simp add: map_update) (metis list_update_id nth_map)
qed (simp add: list_update_beyond)

lemma settled_detach [simp]:
  "settled e (upd_stat e s (set_status v))" "settled e (upd_stat e s (note_att d a v'))" "settled e (add_nattachments n e)"
  "settled e (upd_proc e p f)" "settled e (upd_att e a (\<lambda>x. x\<lparr>at_num := k, at_status := j\<rparr>))"
  by (rule settled_upd_stat, simp add: set_status_def note_att_def)+
    (simp_all add: settled_def add_nattachments_def upd_proc_def upd_att_def map_upd_same)

lemma detach_local_settled:
  assumes "detach_local eid a s = Some (r, eid')"
  shows "settled eid eid'"
    "sy_proc (id_sys eid') = (if id_cleanup eid \<noteq> 1 then sy_proc (id_sys (upd_proc eid (id_proc eid) (note_proc (-1) a (-1))))
       else sy_proc (id_sys eid))"
proof -
  define eid1 where "eid1 = add_nattachments (-1) (upd_att eid a (\<lambda>x. x\<lparr>at_num := -1, at_status := ET_ATT_UNUSED\<rparr>))"
  define eid1' where "eid1' = (if sd_nattachments (st_data (id_stats eid1 ! s)) = 1 \<and> s \<noteq> 0
    then upd_stat eid1 s (set_status ET_STATION_IDLE) else eid1)"
  have 1: "settled eid eid1'" "sy_proc (id_sys eid1') = sy_proc (id_sys eid)" "id_proc eid1' = id_proc eid"
    unfolding eid1'_def eid1_def
    using settled_trans [OF settled_detach(5) settled_detach(3)]
      settled_trans [OF settled_trans [OF settled_detach(5) settled_detach(3)] settled_detach(1)]
    by (simp_all only: if_split simp_thms) (simp_all add: add_nattachments_def upd_att_def upd_stat_def)
  from assms obtain eid2 q eid3 where 2: "eid2 = eid1' \<or> et_flush_events eid1' a s = Some eid2"
    and 3: "et_restore_events eid2 (int a) s = Some (q, eid3)"
    and e': "eid' = (if id_cleanup eid \<noteq> 1 then upd_proc (upd_stat eid3 s (note_att (-1) a (-1))) (id_proc eid) (note_proc (-1) a (-1))
        else upd_stat eid3 s (note_att (-1) a (-1)))"
    unfolding detach_local_def Let_def eid1_def [symmetric] eid1'_def
    by (auto split: option.splits if_splits prod.splits)
  have "events_only eid1' eid2" using 2 et_flush_events_only by auto
  then have eo: "events_only eid1' eid3" using et_restore_events_only [OF 3] by (rule events_only_trans)
  have "settled eid (upd_stat eid3 s (note_att (-1) a (-1)))"
    by (rule settled_trans [OF settled_trans [OF 1(1) settled_events_only [OF eo]] settled_detach(2)])
  then show "settled eid eid'" using settled_trans [OF _ settled_detach(4)] by (simp add: e')
  have "sy_proc (id_sys (upd_stat eid3 s (note_att (-1) a (-1)))) = sy_proc (id_sys eid)"
    using events_only_sys(5) [OF eo] 1(2) by (simp add: upd_stat_def)
  then show "sy_proc (id_sys eid') = (if id_cleanup eid \<noteq> 1 then sy_proc (id_sys (upd_proc eid (id_proc eid) (note_proc (-1) a (-1))))
       else sy_proc (id_sys eid))" by (simp add: e' upd_proc_def)
qed

text \<open>
  The state in which a detach is safe: right tables, all events accounted for, and no station in use
  with restore mode \<open>ET_STATION_RESTORE_REDIST\<close>.
\<close>

definition in_order :: "et_id \<Rightarrow> nat list list \<Rightarrow> bool" where
  "in_order eid gs \<longleftrightarrow> tables eid gs \<and> (\<exists>Q. events_ok eid Q) \<and> 1 \<le> nevents_max eid \<and> id_alive eid \<and> \<not> id_closed eid \<and>
     (\<forall>s \<in> set (0 # concat gs). restores_ok (id_stats eid ! s))"

lemma station_detach_live:
  assumes ok: "in_order eid gs" and a: "a \<in> live eid"
  shows "\<exists>eid'. et_station_detach etr eid (int a) = Some (ET_OK, eid') \<and> in_order eid' gs \<and> live eid' = live eid - {a} \<and> settled eid eid' \<and>
    sy_proc (id_sys eid') = (if id_cleanup eid \<noteq> 1 then sy_proc (id_sys (upd_proc eid (id_proc eid) (note_proc (-1) a (-1))))
       else sy_proc (id_sys eid)) \<and>
    (\<forall>i. ev_owner (id_events eid' i) = (if i \<in> set (owned_by eid (int a)) then ET_SYS else ev_owner (id_events eid i)))"
proof -
  from ok obtain Q where o: "tables eid gs" "events_ok eid Q" "1 \<le> nevents_max eid" "id_alive eid" "\<not> id_closed eid"
    "\<forall>s \<in> set (0 # concat gs). restores_ok (id_stats eid ! s)" unfolding in_order_def by blast
  note d = tablesD [OF o(1)]
  obtain s where s: "s \<in> set (0 # concat gs)" "a \<in> atts_of eid s" using att_tableD(4) [OF d(3) a] by blast
  have sl: "s < length (id_stats eid)" by (rule station_tableD(7) [OF d(2) s(1)])
  from detach_local_keeps [OF o(2,3) sl] o(6) s(1) obtain eid' Q' where
    r: "detach_local eid a s = Some (ET_OK, eid')" "events_ok eid' Q'"
      "\<forall>i. ev_owner (id_events eid' i) = (if i \<in> set (owned_by eid (int a)) then ET_SYS else ev_owner (id_events eid i))" by blast
  note t = detach_local_tables [OF o(1) s(2,1) r(1)] and st = detach_local_settled [OF r(1)]
  have al: "a < length (sy_attach (id_sys eid))" "int a < sc_nattachments (sy_config (id_sys eid))" "a < ET_ATTACHMENTS_MAX"
    using att_tableD(1,2) [OF d(3)] a by (auto simp: live_def)
  have "at_stat (sy_attach (id_sys eid) ! a) = int s" using s(2) by (simp add: atts_of_def)
  then have "et_station_detach etr eid (int a) = Some (ET_OK, eid')"
    using al sl o(4,5) d(1) r(1) by (simp add: et_station_detach_def local_guard_def)
  moreover have "in_order eid' gs"
    using t r(2) o(3-6) st(1) station_tableD(7) [OF d(2)] unfolding in_order_def settled_def nevents_max_def restores_ok_def
    by (metis (no_types, lifting))
  ultimately show ?thesis using t r(3) st by blast
qed


end
