(* ===== verification/ET_Clean.thy ===== *)
theory ET_Clean
  imports ET_Detach ET_Crash
begin

text \<open>
  The clean-up after a process whose death left the tables and lists right: every repair routine
  leaves the state alone, and what changes is that the attachments of the dead process are detached,
  so that its events are again the system's and its slot is free.
\<close>

section \<open>Nothing to repair\<close>

lemma fix_main_same:
  assumes "dlinked (\<lambda>i. st_next (stats ! i)) (\<lambda>i. st_prev (stats ! i)) (p # map hd gs)" "st_next (stats ! last (p # map hd gs)) = -1"
    "members_ok stats (set (p # concat gs))" "\<forall>g \<in> set gs. group_ok stats g"
  shows "fix_main stats p = Some (stats, int (last (p # map hd gs)))"
  using assms
proof (induction gs arbitrary: p)
  case Nil
  then show ?case by (simp add: fix_main.simps [of stats p] members_ok_def)
next
  case (Cons g gs)
  note go = Cons.prems(4) [rule_format, of g, simplified, unfolded group_ok_def]
  then obtain h rest where g: "g = h # rest" by (cases g) auto
  have h: "st_next (stats ! p) = int h" "st_prev (stats ! h) = int p" "h < length stats" "st_num (stats ! p) = int p"
    "members_ok stats (set (h # rest))" "members_ok stats (set (h # concat gs))"
    using Cons.prems(1,3) g by (auto simp: members_ok_def)
  have pp: "st_prevparallel (stats ! h) = -1" using go g by simp
  have u1: "upd_at h (\<lambda>x. x\<lparr>st_prev := st_num (stats ! p)\<rparr>) stats = stats"
    and u2: "upd_at h (\<lambda>x. x\<lparr>st_prevparallel := -1\<rparr>) stats = stats"
  proof -
    have "(stats ! h)\<lparr>st_prev := st_num (stats ! p)\<rparr> = stats ! h" "(stats ! h)\<lparr>st_prevparallel := -1\<rparr> = stats ! h"
      using h(2,4) pp by (cases "stats ! h"; simp)+
    then show "upd_at h (\<lambda>x. x\<lparr>st_prev := st_num (stats ! p)\<rparr>) stats = stats" "upd_at h (\<lambda>x. x\<lparr>st_prevparallel := -1\<rparr>) stats = stats"
      by (simp_all add: upd_at_def)
  qed
  have "(if cf_flow_mode (st_config (stats ! h)) = ET_STATION_PARALLEL
        then fix_parallel (upd_at h (\<lambda>x. x\<lparr>st_prevparallel := -1\<rparr>) stats) h
        else Some (upd_at h (\<lambda>x. x\<lparr>st_prevparallel := -1, st_nextparallel := -1\<rparr>) stats)) = Some stats"
  proof (cases "cf_flow_mode (st_config (stats ! h)) = ET_STATION_PARALLEL")
    case True
    have "fix_parallel stats h = Some stats" by (rule fix_parallel_same) (use go g h(5) in auto)
    then show ?thesis using True u2 by simp
  next
    case False
    then have "rest = []" using go g by auto
    then have "st_nextparallel (stats ! h) = -1" using go g by simp
    then have "(stats ! h)\<lparr>st_prevparallel := -1, st_nextparallel := -1\<rparr> = stats ! h" using pp by (cases "stats ! h") simp
    then show ?thesis using False by (simp add: upd_at_def)
  qed
  moreover have "fix_main stats h = Some (stats, int (last (h # map hd gs)))" using Cons g h(6) by auto
  ultimately show ?case using h g u1 by (subst fix_main.simps) (simp add: Let_def)
qed

lemma fix_linkedlist_same:
  assumes "chain_ok (id_stats eid) (sy_stat_tail (id_sys eid)) gs" "sy_stat_head (id_sys eid) = 0"
  shows "et_fix_linkedlist eid = Some eid"
proof -
  note c = chain_okD [OF assms(1)] and m = chain_okD(3) [OF assms(1), unfolded main_ok_def]
  have "fix_main (id_stats eid) 0 = Some (id_stats eid, int (last (0 # map hd gs)))"
    by (rule fix_main_same) (use c m in auto)
  moreover have "0 < length (id_stats eid)" using c(2) by (auto simp: members_ok_def)
  ultimately show ?thesis using assms(2) m by (simp add: et_fix_linkedlist_def stat_ix_def set_chain_def)
qed

lemma fix_stations_same:
  assumes "station_table eid gs"
  shows "et_fix_stations eid = Some eid"
proof -
  note d = station_tableD [OF assms] and c = chain_okD(1,2) [OF station_tableD(1) [OF assms]]
  let ?n = "length (id_stats eid)"
  have ct: "counted (id_stats eid ! t) \<longleftrightarrow> t \<in> set (0 # concat gs)" if "t < ?n" for t
    using d(4,5) [OF that] by (cases "t \<in> set (0 # concat gs)") (auto simp: counted_def in_chain_def)
  have nm: "st_num (id_stats eid ! t) = int t" if "t \<in> set (0 # concat gs)" for t using c(2) that unfolding members_ok_def by blast
  have 1: "\<forall>i \<in> set (concat gs). in_chain (id_stats eid ! i)" using d(4,7) by simp
  have 2: "\<forall>i < ?n. counted (id_stats eid ! i) \<longrightarrow> st_num (id_stats eid ! i) = int i" using ct nm by simp
  from fix_stations_spec [OF d(1,2) 1 2] obtain stats' where r:
    "et_fix_stations eid = Some (eid\<lparr>id_stats := stats', id_sys := (id_sys eid)\<lparr>sy_nstations :=
       1 + int (length (filter (\<lambda>i. counted (id_stats eid ! i)) [1..<?n]))\<rparr>\<rparr>)"
    "length stats' = ?n" "\<forall>i < ?n. stats' ! i = dropped gs i (id_stats eid ! i)" by blast
  have s: "stats' = id_stats eid"
    by (rule nth_equalityI) (use r(2,3) d(5) in \<open>auto simp: dropped_def\<close>)
  have "set (filter (\<lambda>i. counted (id_stats eid ! i)) [1..<?n]) = set (concat gs)" (is "?A = ?B")
  proof (intro equalityI subsetI)
    fix t assume "t \<in> ?A"
    then show "t \<in> ?B" using ct [of t] by simp
  next
    fix t assume "t \<in> ?B"
    moreover from this have "t < ?n" using d(7) [of t] by simp
    moreover have "0 < t" using c(1) \<open>t \<in> ?B\<close> by (cases t) simp_all
    ultimately show "t \<in> ?A" using ct [of t] by simp
  qed
  then have "card ?A = card ?B" by simp
  then have "length (filter (\<lambda>i. counted (id_stats eid ! i)) [1..<?n]) = length (concat gs)"
    using c(1) distinct_card [of "concat gs"] distinct_card [of "filter (\<lambda>i. counted (id_stats eid ! i)) [1..<?n]"] by simp
  then show ?thesis using r(1) s d(3) by simp
qed

lemma fix_attachments_same:
  assumes "att_table eid M" "nstations_max eid = int (length (id_stats eid))"
    "\<forall>a \<in> live eid. \<exists>s < length (id_stats eid). a \<in> atts_of eid s \<and> sd_status (st_data (id_stats eid ! s)) = ET_STATION_ACTIVE"
  shows "et_fix_attachments eid = eid"
proof -
  note d = att_tableD [OF assms(1)]
  have f: "fix_attachment i eid = eid" if i: "i < nattachments_max eid" for i
  proof (cases "at_num (sy_attach (id_sys eid) ! i) = -1")
    case False
    have "i < length (sy_attach (id_sys eid))" using d(1) [THEN conjunct2, THEN conjunct1] i unfolding nattachments_max_def by linarith
    then have "i \<in> live eid" "i < ET_ATTACHMENTS_MAX" using False d(2) by (auto simp: live_def)
    with assms(3) obtain s where "s < length (id_stats eid)" "i \<in> atts_of eid s" "sd_status (st_data (id_stats eid ! s)) = ET_STATION_ACTIVE"
      by blast
    with d(8) [of s i] \<open>i < ET_ATTACHMENTS_MAX\<close> have "station_knows eid i"
      unfolding station_knows_def list_ex_iff assms(2) by (auto intro!: bexI [of _ "id_stats eid ! s"])
    then show ?thesis by (simp add: fix_attachment_def)
  qed (simp add: fix_attachment_def)
  have "fold fix_attachment xs eid = eid" if "\<forall>i \<in> set xs. i < nattachments_max eid" for xs
    using that f by (induction xs) simp_all
  then show ?thesis by (simp add: et_fix_attachments_def)
qed

lemma live_stations_active:
  assumes "att_table eid M" "a \<in> live eid"
  shows "\<exists>s < length (id_stats eid). a \<in> atts_of eid s \<and> sd_status (st_data (id_stats eid ! s)) = ET_STATION_ACTIVE"
  using att_tableD(4,9,10) [OF assms(1)] assms(2) by blast

section \<open>Detaching all attachments of a process\<close>

text \<open>What the clean-up never has to wait for when the locks are free.\<close>

definition no_waits :: "waits \<Rightarrow> bool" where
  "no_waits w \<longleftrightarrow> cl_mutexes w = id \<and> cl_gc w = [] \<and> (\<forall>j. cl_in w j = [] \<and> cl_out w j = [])"

text \<open>The attachments among \<open>js\<close> that process \<open>i\<close> has noted.\<close>

definition noted :: "et_id \<Rightarrow> nat \<Rightarrow> nat list \<Rightarrow> nat set" where
  "noted eid i js = {j \<in> set js. pr_att (sy_proc (id_sys eid) ! i) ! j \<noteq> -1}"

definition freed :: "nat set \<Rightarrow> et_id \<Rightarrow> et_id \<Rightarrow> bool" where
  "freed A eid eid' \<longleftrightarrow> (\<forall>e. ev_owner (id_events eid' e) =
     (if int e < nevents_max eid \<and> ev_owner (id_events eid e) \<in> int ` A then ET_SYS else ev_owner (id_events eid e)))"

lemma freed_empty: "freed {} eid eid"
  by (simp add: freed_def)

lemma freed_trans:
  assumes "freed A e1 e2" "freed B e2 e3" "nevents_max e2 = nevents_max e1"
  shows "freed (A \<union> B) e1 e3"
  using assms unfolding freed_def by auto

lemma freed_owned:
  assumes "\<forall>i. ev_owner (id_events eid' i) = (if i \<in> set (owned_by eid (int a)) then ET_SYS else ev_owner (id_events eid i))"
  shows "freed {a} eid eid'"
  using assms by (auto simp: freed_def owned_by_set)

lemma detach_all_order:
  assumes "in_order eid gs" "id_cleanup eid = 1" "no_waits w" "distinct js" "noted eid i js \<subseteq> live eid"
  shows "\<exists>eid'. detach_all w i js eid = Some eid' \<and> in_order eid' gs \<and> live eid' = live eid - noted eid i js \<and> settled eid eid' \<and>
    sy_proc (id_sys eid') = sy_proc (id_sys eid) \<and> freed (noted eid i js) eid eid'"
  using assms
proof (induction js arbitrary: eid)
  case Nil
  then show ?case by (simp add: noted_def freed_empty)
next
  case (Cons j js)
  show ?case
  proof (cases "pr_att (sy_proc (id_sys eid) ! i) ! j = -1")
    case True
    then have "noted eid i (j # js) = noted eid i js" by (auto simp: noted_def)
    then show ?thesis using Cons True by simp
  next
    case False
    then have n: "noted eid i (j # js) = insert j (noted eid i js)" by (auto simp: noted_def)
    then have j: "j \<in> live eid" using Cons.prems(5) by simp
    from Cons.prems(1) obtain Q where o: "tables eid gs" "events_ok eid Q" unfolding in_order_def by blast
    obtain s where s: "s \<in> set (0 # concat gs)" "j \<in> atts_of eid s" using att_tableD(4) [OF tablesD(3) [OF o(1)] j] by blast
    have sl: "s < length (id_stats eid)" by (rule station_tableD(7) [OF tablesD(2) [OF o(1)] s(1)])
    have ix: "stat_ix (id_stats eid) (at_stat (sy_attach (id_sys eid) ! j)) = Some s"
      using s(2) sl by (simp add: atts_of_def stat_ix_def)
    have rp: "et_repair_station (cl_in w j) (cl_out w j) eid s = Some (ET_OK, eid)"
      using repair_station_idle [OF sl] events_ok_unlocked [OF o(2) sl] Cons.prems(3) by (simp add: no_waits_def)
    from station_detach_live [OF Cons.prems(1) j, of "cl_remote w"] obtain eid1 where
      d: "et_station_detach (cl_remote w) eid (int j) = Some (ET_OK, eid1)" "in_order eid1 gs" "live eid1 = live eid - {j}" "settled eid eid1"
        "sy_proc (id_sys eid1) = sy_proc (id_sys eid)"
        "\<forall>i. ev_owner (id_events eid1 i) = (if i \<in> set (owned_by eid (int j)) then ET_SYS else ev_owner (id_events eid i))"
      using Cons.prems(2) by (metis (no_types, lifting))
    have nn: "noted eid1 i js = noted eid i js" by (simp add: noted_def d(5))
    have "id_cleanup eid1 = 1" using d(4) Cons.prems(2) by (simp add: settled_def)
    moreover have "noted eid1 i js \<subseteq> live eid1"
      using Cons.prems(4,5) n unfolding nn d(3) by (auto simp: noted_def)
    ultimately obtain eid' where r: "detach_all w i js eid1 = Some eid'" "in_order eid' gs" "live eid' = live eid1 - noted eid1 i js" "settled eid1 eid'"
      "sy_proc (id_sys eid') = sy_proc (id_sys eid1)" "freed (noted eid1 i js) eid1 eid'"
      using Cons.IH [OF d(2)] Cons.prems(3,4) by auto
    have "detach_all w i (j # js) eid = Some eid'" using False ix rp d(1) r(1) by simp
    moreover have "freed ({j} \<union> noted eid i js) eid eid'"
      using freed_trans [OF freed_owned [OF d(6)] r(6)] d(4) unfolding nn by (simp add: settled_def nevents_max_def)
    ultimately show ?thesis
      using r d settled_trans [OF d(4) r(4)] unfolding nn n by (intro exI [of _ eid']) auto
  qed
qed

section \<open>Counting again\<close>

lemma own_numbers_card:
  assumes "\<And>j. j < n \<Longrightarrow> xs ! j = (if j \<in> A then int j else -1)" "\<forall>a \<in> A. a < n"
  shows "own_numbers n xs = int (card A)"
proof -
  have "set (filter (\<lambda>j. xs ! j = int j) [0..<n]) = A"
  proof (intro set_eqI)
    fix j show "j \<in> set (filter (\<lambda>j. xs ! j = int j) [0..<n]) \<longleftrightarrow> j \<in> A"
      using assms(1) [of j] assms(2) by (cases "j < n") auto
  qed
  then show ?thesis using distinct_card [of "filter (\<lambda>j. xs ! j = int j) [0..<n]"] by (simp add: own_numbers_def)
qed

lemma fix_natts_tables:
  assumes t: "tables eid gs"
  shows "\<exists>procs. et_fix_natts eid = eid\<lparr>id_sys := (id_sys eid)\<lparr>sy_proc := procs\<rparr>\<rparr> \<and> length procs = length (sy_proc (id_sys eid)) \<and>
    (\<forall>i < length procs. pr_status (procs ! i) = pr_status (sy_proc (id_sys eid) ! i))"
proof -
  note a = att_tableD [OF tablesD(3) [OF t]] and d = station_tableD [OF tablesD(2) [OF t]]
  let ?n = "nattachments_max eid" and ?k = "length (id_stats eid)"
  have n: "?n \<le> ET_ATTACHMENTS_MAX"
    using a(1) [THEN conjunct2, THEN conjunct1] a(2) unfolding nattachments_max_def by linarith
  have own: "own_numbers ?n (sd_att (st_data (id_stats eid ! s))) = int (card (atts_of eid s))" if "s < ?k" for s
  proof (rule own_numbers_card)
    show "\<forall>x \<in> atts_of eid s. x < ?n"
      using a(1) by (auto simp: atts_of_def nattachments_max_def)
  qed (use a(8) [OF that] n in simp)
  have "fix_station_natts ?n (id_stats eid ! s) = id_stats eid ! s" if "s < ?k" for s
    using own [OF that] a(6) [OF that] by (cases "id_stats eid ! s") (simp add: fix_station_natts_def)
  then have st: "map (fix_station_natts ?n) (id_stats eid) = id_stats eid" by (intro nth_equalityI) simp_all
  let ?act = "filter (\<lambda>s. sd_status (st_data (id_stats eid ! s)) = ET_STATION_ACTIVE) [0..<?k]"
  have "filter (\<lambda>ps. sd_status (st_data ps) = ET_STATION_ACTIVE) (id_stats eid) = map (\<lambda>s. id_stats eid ! s) ?act"
    by (metis (no_types, lifting) filter_cong filter_map map_nth comp_def)
  then have "sum_list (map (\<lambda>ps. own_numbers ?n (sd_att (st_data ps))) (filter (\<lambda>ps. sd_status (st_data ps) = ET_STATION_ACTIVE) (id_stats eid))) =
      sum_list (map (\<lambda>s. own_numbers ?n (sd_att (st_data (id_stats eid ! s)))) ?act)" by (simp add: comp_def)
  also have "\<dots> = sum_list (map (\<lambda>s. int (card (atts_of eid s))) ?act)"
    by (rule arg_cong [of _ _ sum_list]) (rule map_cong, use own in auto)
  also have "\<dots> = (\<Sum>s \<in> set ?act. int (card (atts_of eid s)))" by (simp add: sum_list_distinct_conv_sum_set)
  also have "\<dots> = int (card (\<Union>s \<in> set ?act. atts_of eid s))"
    by (subst card_UN_disjoint) (auto simp: atts_of_def)
  also have "(\<Union>s \<in> set ?act. atts_of eid s) = live eid"
  proof
    show "live eid \<subseteq> (\<Union>s \<in> set ?act. atts_of eid s)"
      using live_stations_active [OF tablesD(3) [OF t]] by fastforce
  qed (auto simp: atts_of_def)
  also have "int (card (live eid)) = sy_nattachments (id_sys eid)" using a(5) by simp
  finally have na: "sum_list (map (\<lambda>ps. own_numbers ?n (sd_att (st_data ps)))
      (filter (\<lambda>ps. sd_status (st_data ps) = ET_STATION_ACTIVE) (id_stats eid))) = sy_nattachments (id_sys eid)" .
  have k: "nat (nstations_max eid) = ?k" using d(2) by simp
  have eq: "et_fix_natts eid = eid\<lparr>id_sys := (id_sys eid)\<lparr>sy_proc :=
     map (fix_proc_natts ?n) (take (nprocesses_max eid) (sy_proc (id_sys eid))) @ drop (nprocesses_max eid) (sy_proc (id_sys eid))\<rparr>\<rparr>"
    using st na by (simp add: et_fix_natts_def Let_def k)
  have "pr_status (fix_proc_natts ?n p) = pr_status p" for p by (simp add: fix_proc_natts_def)
  then have "length (map (fix_proc_natts ?n) (take m xs) @ drop m xs) = length xs \<and>
      (\<forall>i < length xs. pr_status ((map (fix_proc_natts ?n) (take m xs) @ drop m xs) ! i) = pr_status (xs ! i))" for m xs
    by (auto simp: nth_append min_def)
  then show ?thesis unfolding eq by (intro exI [of _ "map (fix_proc_natts ?n) (take (nprocesses_max eid) (sy_proc (id_sys eid))) @
      drop (nprocesses_max eid) (sy_proc (id_sys eid))"]) simp
qed


section \<open>The whole clean-up\<close>

lemma in_order_other:
  assumes "in_order eid gs" "id_stats eid' = id_stats eid" "id_events eid' = id_events eid" "id_histogram eid' = id_histogram eid"
    "id_locality eid' = id_locality eid" "id_alive eid' = id_alive eid" "id_closed eid' = id_closed eid"
    "sy_config (id_sys eid') = sy_config (id_sys eid)" "sy_attach (id_sys eid') = sy_attach (id_sys eid)"
    "sy_nattachments (id_sys eid') = sy_nattachments (id_sys eid)" "sy_nstations (id_sys eid') = sy_nstations (id_sys eid)"
    "sy_stat_tail (id_sys eid') = sy_stat_tail (id_sys eid)"
  shows "in_order eid' gs" "live eid' = live eid"
proof -
  have l: "live eid' = live eid" "atts_of eid' s = atts_of eid s" for s using assms(9) by (simp_all add: live_def atts_of_def)
  have n: "nstations_max eid' = nstations_max eid" "nevents_max eid' = nevents_max eid"
    using assms(8) by (simp_all add: nstations_max_def nevents_max_def)
  have "tables eid' gs = tables eid gs"
    unfolding tables_def station_table_def att_table_def l n assms(2,5,8-12) by (rule refl)
  moreover have "edit eid eid'" using assms(2-4) n by (simp add: edit_def in_pl_def out_pl_def)
  ultimately show "in_order eid' gs" using assms(1-8) edit_events_ok unfolding in_order_def n by metis
qed (simp add: live_def assms(9))

lemma fix_nprocs_close:
  "sy_nprocesses (id_sys (et_fix_nprocs (close_proc i eid))) = int (length (filter (\<lambda>p. pr_status p = ET_PROC_OPEN)
     (take (nprocesses_max eid) ((sy_proc (id_sys eid))[i := et_init_process (sy_proc (id_sys eid) ! i)]))))"
  by (simp add: et_fix_nprocs_def close_proc_def nprocesses_max_def)

lemma clean_process_works:
  assumes ok: "in_order eid gs" and h: "sy_stat_head (id_sys eid) = 0" and w: "no_waits w" and i: "i < length (sy_proc (id_sys eid))"
    and A: "A = noted eid i [0..<nattachments_max eid]" "A \<subseteq> live eid"
  shows "\<exists>eid'. clean_process w i eid = Some eid' \<and> in_order eid' gs \<and> live eid' = live eid - A \<and> freed A eid eid' \<and>
    length (sy_proc (id_sys eid')) = length (sy_proc (id_sys eid)) \<and>
    (\<forall>j < length (sy_proc (id_sys eid)). pr_status (sy_proc (id_sys eid') ! j) =
       (if j = i then ET_PROC_CLOSED else pr_status (sy_proc (id_sys eid) ! j))) \<and> id_cleanup eid' = 0 \<and>
    sy_nprocesses (id_sys eid') = int (length (filter (\<lambda>p. pr_status p = ET_PROC_OPEN)
      (take (nprocesses_max eid) ((sy_proc (id_sys eid))[i := et_init_process (sy_proc (id_sys eid) ! i)]))))"
proof -
  define e0 where "e0 = set_cleanup 1 eid"
  have e0: "id_stats e0 = id_stats eid" "id_events e0 = id_events eid" "id_sys e0 = id_sys eid" "id_cleanup e0 = 1" "live e0 = live eid"
    by (simp_all add: e0_def set_cleanup_def live_def)
  have ok0: "in_order e0 gs" by (rule in_order_other(1) [OF ok]) (simp_all add: e0_def set_cleanup_def)
  from ok0 obtain Q where o: "tables e0 gs" "events_ok e0 Q" unfolding in_order_def by blast
  note t = tablesD [OF o(1)] and st = station_tableD [OF tablesD(2) [OF o(1)]]
  have n0: "0 < length (id_stats e0)" using st(7) [of 0] by simp
  have f1: "et_fix_linkedlist e0 = Some e0" by (rule fix_linkedlist_same [OF st(1)]) (simp add: e0(3) h)
  have f2: "et_fix_stations e0 = Some e0" by (rule fix_stations_same [OF t(2)])
  have f3: "et_fix_attachments e0 = e0"
    by (rule fix_attachments_same [OF t(3) st(2)]) (use live_stations_active [OF t(3)] in blast)
  have f4: "et_repair_gc [] e0 = Some (ET_OK, e0)"
    by (rule repair_gc_idle [OF n0]) (use events_ok_unlocked [OF o(2) n0] in blast)
  have nm: "nattachments_max e0 = nattachments_max eid" "nprocesses_max e0 = nprocesses_max eid" "nevents_max e0 = nevents_max eid"
    by (simp_all add: nattachments_max_def nprocesses_max_def nevents_max_def e0(3))
  have A0: "noted e0 i [0..<nattachments_max e0] = A" unfolding nm A(1) by (simp add: noted_def e0(3))
  from detach_all_order [OF ok0 e0(4) w, of "[0..<nattachments_max e0]" i] A(2) obtain e4 where
    d: "detach_all w i [0..<nattachments_max e0] e0 = Some e4" "in_order e4 gs" "live e4 = live e0 - A" "settled e0 e4"
      "sy_proc (id_sys e4) = sy_proc (id_sys e0)" "freed A e0 e4" unfolding A0 e0(5) by auto
  define e5 where "e5 = et_fix_nprocs (close_proc i e4)"
  have e5: "id_stats e5 = id_stats e4" "id_events e5 = id_events e4" "sy_proc (id_sys e5) = (sy_proc (id_sys e4))[i := et_init_process (sy_proc (id_sys e4) ! i)]"
    by (simp_all add: e5_def et_fix_nprocs_def close_proc_def)
  have ok5: "in_order e5 gs" "live e5 = live e4"
    by (rule in_order_other [OF d(2)]; simp add: e5_def et_fix_nprocs_def close_proc_def)+
  from fix_natts_tables [of e5 gs] ok5(1) obtain procs where
    p: "et_fix_natts e5 = e5\<lparr>id_sys := (id_sys e5)\<lparr>sy_proc := procs\<rparr>\<rparr>" "length procs = length (sy_proc (id_sys e5))"
      "\<forall>i < length procs. pr_status (procs ! i) = pr_status (sy_proc (id_sys e5) ! i)" unfolding in_order_def by blast
  define e6 where "e6 = set_cleanup 0 (e5\<lparr>id_sys := (id_sys e5)\<lparr>sy_proc := procs\<rparr>\<rparr>)"
  have ok6: "in_order e6 gs" "live e6 = live e5"
    by (rule in_order_other [OF ok5(1)]; simp add: e6_def set_cleanup_def)+
  have run: "clean_process w i eid = Some e6"
    using w f1 f2 f3 f4 d(1) p(1) by (simp add: clean_process_def no_waits_def e0_def [symmetric] e5_def [symmetric] e6_def)
  have l6: "length (sy_proc (id_sys e6)) = length (sy_proc (id_sys eid))"
    using p(2) d(5) by (simp add: e6_def set_cleanup_def e5(3) e0(3))
  have "pr_status (sy_proc (id_sys e6) ! j) = pr_status (sy_proc (id_sys e5) ! j)" if "j < length (sy_proc (id_sys eid))" for j
    using p(2,3) that d(5) by (simp add: e6_def set_cleanup_def e5(3) e0(3))
  then have cl: "\<forall>j < length (sy_proc (id_sys eid)). pr_status (sy_proc (id_sys e6) ! j) =
       (if j = i then ET_PROC_CLOSED else pr_status (sy_proc (id_sys eid) ! j))"
    using i by (simp add: e5(3) d(5) e0(3) et_init_process_def nth_list_update)
  have np: "sy_nprocesses (id_sys e6) = sy_nprocesses (id_sys e5)" by (simp add: e6_def set_cleanup_def)
  have nm4: "nprocesses_max e4 = nprocesses_max eid" using d(4) nm(2) by (simp add: settled_def nprocesses_max_def)
  have fr: "freed A eid e6" using d(6) by (simp add: freed_def e6_def set_cleanup_def e5(2) e0(2) nm(3))
  show ?thesis
    using run ok6 ok5(2) d(3) e0(5) l6 cl np fr fix_nprocs_close [of i e4] unfolding e5_def [symmetric] nm4 d(5) e0(3)
    by (intro exI [of _ e6]) (simp add: e6_def set_cleanup_def)
qed

text \<open>
  C6. The clean-up after a dead process whose attachments are all recorded in its slot, when its death
  left no lock held and the tables and lists right and no station in use redistributes events: it
  ends, detaches exactly the attachments of the process, gives back every event they own and no other,
  keeps the invariants of the tables and of the events, frees the slot and counts the processes anew.
\<close>

theorem dead_process_cleaned:
  assumes "in_order eid gs" "sy_stat_head (id_sys eid) = 0" "no_waits w" "i < length (sy_proc (id_sys eid))"
    and "A = noted eid i [0..<nattachments_max eid]" "A \<subseteq> live eid"
  shows "\<exists>eid'. clean_process w i eid = Some eid' \<and> in_order eid' gs \<and> live eid' = live eid - A \<and> freed A eid eid' \<and>
    length (sy_proc (id_sys eid')) = length (sy_proc (id_sys eid)) \<and>
    (\<forall>j < length (sy_proc (id_sys eid)). pr_status (sy_proc (id_sys eid') ! j) =
       (if j = i then ET_PROC_CLOSED else pr_status (sy_proc (id_sys eid) ! j))) \<and> id_cleanup eid' = 0 \<and>
    sy_nprocesses (id_sys eid') = int (length (filter (\<lambda>p. pr_status p = ET_PROC_OPEN)
      (take (nprocesses_max eid) ((sy_proc (id_sys eid))[i := et_init_process (sy_proc (id_sys eid) ! i)]))))"
  by (rule clean_process_works [OF assms])


text \<open>A process with an attachment to station 1 that owns all four events.\<close>

definition sample_user :: et_proc where
  "sample_user = \<lparr>pr_num = 0, pr_att = (replicate ET_ATTACHMENTS_MAX (-1))[0 := 0], pr_time = 0, pr_nattachments = 1,
     pr_status = ET_PROC_OPEN, pr_et_status = 0, pr_heartbeat = 0, pr_pid = 7\<rparr>"

definition sample_owner :: et_attach where
  "sample_owner = sample_attach\<lparr>at_num := 0, at_stat := 1, at_status := ET_ATT_ACTIVE\<rparr>"

definition sample_dead :: et_id where
  "sample_dead = sample_open\<lparr>
     id_stats := [id_stats sample_open ! 0, note_att 1 0 0 (set_status ET_STATION_ACTIVE (id_stats sample_open ! 1)), id_stats sample_open ! 2],
     id_events := (\<lambda>i. (sample_heap [] i)\<lparr>ev_owner := 0\<rparr>),
     id_sys := (id_sys sample_open)\<lparr>sy_attach := [sample_owner, sample_attach, sample_attach], sy_nattachments := 1, sy_proc := [sample_user]\<rparr>\<rparr>"

lemma sample_dead_tables: "live sample_dead = {0}" "tables sample_dead [[1]]"
proof -
  have at: "at_num ([sample_owner, sample_attach, sample_attach] ! a) = -1 \<longleftrightarrow> a \<noteq> 0" if "a < 3" for a
    using that by (auto simp: less_Suc_eq numeral_3_eq_3 sample_owner_def)
  then show l: "live sample_dead = {0}" by (auto simp: live_def sample_dead_def sample_owner_def)
  have as: "atts_of sample_dead s = (if s = 1 then {0} else {})" for s
    unfolding atts_of_def l by (auto simp: sample_dead_def sample_owner_def)
  have "att_table sample_dead (set (0 # concat [[1]]))"
    unfolding att_table_def l as
    by (simp add: sample_dead_def numeral_3_eq_3 All_less_Suc sample_owner_def note_att_def set_status_def nth_list_update)
  moreover have "station_table sample_dead [[1]]"
    by (auto simp: sample_dead_def station_table_def chain_ok_def members_ok_def main_ok_def group_ok_def in_chain_def less_Suc_eq
        numeral_3_eq_3 note_att_def set_status_def nstations_max_def sample_open_def sample_id_def upd_stat_def Let_def)
  ultimately show "tables sample_dead [[1]]" by (simp add: tables_def sample_dead_def)
qed

lemma sample_dead_order: "in_order sample_dead [[1]]"
proof -
  have n: "nevents_max sample_dead = 4" "length (id_stats sample_dead) = 3"
    by (simp_all add: sample_dead_def sample_open_def sample_id_def nevents_max_def upd_stat_def Let_def)
  have st: "st_list_in (id_stats sample_dead ! t) = sample_list" "st_list_out (id_stats sample_dead ! t) = sample_list"
    "cf_restore_mode (st_config (id_stats sample_dead ! t)) = ET_STATION_RESTORE_OUT" if "t < 3" for t
    using that by (auto simp: sample_dead_def note_att_def set_status_def less_Suc_eq numeral_3_eq_3 sample_stats_def sample_station_def
        et_init_station_def et_init_llist_def sample_list_def sample_config_def)
  have "lists_ok sample_dead (\<lambda>_. []) []"
    using st unfolding lists_ok_def n by (simp add: in_pl_def out_pl_def list_ok_def out_ok_def hi_first_def legal_events_def pri_ok_def apart_def)
  moreover have "ev_owner (id_events sample_dead e) \<noteq> ET_SYS" "legal_pri (id_events sample_dead e)" "\<not> in_lists sample_dead (\<lambda>_. []) e" for e
    by (simp_all add: sample_dead_def in_lists_def legal_pri_def)
  moreover have "length (id_histogram sample_dead) = 5" by (simp add: sample_dead_def sample_open_def sample_id_def upd_stat_def Let_def)
  ultimately have "events_ok sample_dead (\<lambda>_. [])" by (simp add: events_ok_def n)
  moreover have "restores_ok (id_stats sample_dead ! s)" if "s \<in> set (0 # concat [[1]])" for s
    using st(3) [of s] that by (auto simp: restores_ok_def)
  moreover have "id_alive sample_dead" "\<not> id_closed sample_dead" by (simp_all add: sample_dead_def)
  ultimately show ?thesis using sample_dead_tables(2) n(1) unfolding in_order_def by auto
qed

theorem dead_process_cleaned_witness:
  "\<exists>eid'. clean_process \<lparr>cl_mutexes = id, cl_gc = [], cl_in = (\<lambda>j. []), cl_out = (\<lambda>j. []), cl_remote = (\<lambda>e a. (ET_ERROR, e))\<rparr> 0 sample_dead =
      Some eid' \<and> in_order eid' [[1]] \<and> live eid' = {} \<and> ev_owner (id_events eid' 2) = ET_SYS"
proof -
  have n: "noted sample_dead 0 [0..<nattachments_max sample_dead] = {0}"
    by (auto simp: noted_def sample_dead_def sample_user_def nattachments_max_def numeral_3_eq_3 nth_list_update split: if_splits)
  have h: "sy_stat_head (id_sys sample_dead) = 0" "0 < length (sy_proc (id_sys sample_dead))"
    by (simp_all add: sample_dead_def sample_open_def sample_id_def upd_stat_def Let_def)
  have "ev_owner (id_events sample_dead 2) = 0" "nevents_max sample_dead = 4"
    by (simp_all add: sample_dead_def sample_open_def sample_id_def upd_stat_def Let_def nevents_max_def)
  with dead_process_cleaned [OF sample_dead_order h(1) _ h(2) n [symmetric],
      of "\<lparr>cl_mutexes = id, cl_gc = [], cl_in = (\<lambda>j. []), cl_out = (\<lambda>j. []), cl_remote = (\<lambda>e a. (ET_ERROR, e))\<rparr>"]
  show ?thesis unfolding sample_dead_tables(1) by (auto simp: no_waits_def freed_def)
qed


end
