(* ===== verification/ET_SysConfig.thy ===== *)
theory ET_SysConfig
  imports ET_StatConfig
begin

unbundle bit_operations_syntax

text \<open>
  Configurations of an ET system (src/libsrc/et\_sysconfig.c, and the check of a configuration when a
  system is started, \<open>et_system_config_check\<close> of et\_system.c), and the routines that tell the user of
  an open system about it.

  Handles and results are those of theory \<open>ET_StatConfig\<close>, whose locale \<open>config_field\<close> is interpreted here
  for the fields of a system configuration. The broadcast addresses and interfaces of the host are
  not data of the model: only their number \<open>bcast\<close> matters to \<open>et_system_config_init\<close>. A string that
  is longer than the array it is copied to, or an array shorter than its size argument says, gives
  \<open>None\<close>. The requests of remote users are the parameters \<open>etr\<close>.
\<close>

abbreviation (input) "ET_ERROR_NOMEM \<equiv> (-14::int)"
abbreviation (input) "ET_SYSTEM_EVENTS \<equiv> (300::int)"
abbreviation (input) "ET_SYSTEM_NTEMPS \<equiv> (300::int)"
abbreviation (input) "ET_SYSTEM_ESIZE \<equiv> (1000::uint64)"
abbreviation (input) "ET_SYSTEM_NSTATS \<equiv> (200::int)"
abbreviation (input) "ET_UDP_PORT \<equiv> (11111::int)"
abbreviation (input) "ET_SERVER_PORT \<equiv> (11111::int)"
abbreviation (input) "ET_IPADDRSTRLEN \<equiv> (16::nat)"
abbreviation (input) "ET_MAXADDRESSES \<equiv> (10::nat)"

definition ET_EVENT_GROUPS_MAX :: nat where
  "ET_EVENT_GROUPS_MAX = 5000"

section \<open>Creation, setters and getters\<close>

definition et_system_config_init :: "nat \<Rightarrow> bool \<Rightarrow> int \<times> et_sys_config option" where
  "et_system_config_init bcast sconfig =
     (if \<not> sconfig then (ET_ERROR, None)
      else if bcast \<ge> ET_MAXADDRESSES then (ET_ERROR_NOMEM, None)
      else (ET_OK, Some \<lparr>sc_event_size = ET_SYSTEM_ESIZE, sc_init = ET_STRUCT_OK, sc_nevents = ET_SYSTEM_EVENTS,
        sc_ntemps = ET_SYSTEM_NTEMPS, sc_nstations = ET_SYSTEM_NSTATS, sc_nprocesses = int ET_PROCESSES_MAX,
        sc_nattachments = int ET_ATTACHMENTS_MAX, sc_groupCount = 1,
        sc_groups = (replicate ET_EVENT_GROUPS_MAX 0)[0 := ET_SYSTEM_EVENTS], sc_filename = [], sc_port = ET_UDP_PORT,
        sc_serverport = ET_SERVER_PORT, sc_tcpSendBufSize = 0, sc_tcpRecvBufSize = 0, sc_tcpNoDelay = 1,
        sc_mcastaddrs = []\<rparr>))"

definition note_events :: "int \<Rightarrow> et_sys_config \<Rightarrow> et_sys_config" where
  "note_events val sc =
     (let sc1 = sc\<lparr>sc_nevents := val\<rparr>;
          sc2 = (if sc_groupCount sc1 = 1 then sc1\<lparr>sc_groups := (sc_groups sc1)[0 := val]\<rparr> else sc1)
      in if sc_ntemps sc2 > val then sc2\<lparr>sc_ntemps := val\<rparr> else sc2)"

definition et_system_config_setevents :: "et_sys_config option \<Rightarrow> int \<Rightarrow> int \<times> et_sys_config option" where
  "et_system_config_setevents sconfig val = config_set sc_init sconfig (\<not> val < 1) (note_events val)"

definition et_system_config_getevents :: "et_sys_config option \<Rightarrow> bool \<Rightarrow> int \<times> int option" where
  "et_system_config_getevents sconfig val = config_get sc_init sconfig val sc_nevents"

definition et_system_config_setsize :: "et_sys_config option \<Rightarrow> uint64 \<Rightarrow> int \<times> et_sys_config option" where
  "et_system_config_setsize sconfig val = config_set sc_init sconfig (\<not> val < 1) (\<lambda>sc. sc\<lparr>sc_event_size := val\<rparr>)"

definition et_system_config_getsize :: "et_sys_config option \<Rightarrow> bool \<Rightarrow> int \<times> uint64 option" where
  "et_system_config_getsize sconfig val = config_get sc_init sconfig val sc_event_size"

definition et_system_config_settemps :: "et_sys_config option \<Rightarrow> int \<Rightarrow> int \<times> et_sys_config option" where
  "et_system_config_settemps sconfig val = config_set sc_init sconfig
     (case sconfig of None \<Rightarrow> False | Some sc \<Rightarrow> \<not> (val < 1 \<or> val > sc_nevents sc)) (\<lambda>sc. sc\<lparr>sc_ntemps := val\<rparr>)"

definition et_system_config_gettemps :: "et_sys_config option \<Rightarrow> bool \<Rightarrow> int \<times> int option" where
  "et_system_config_gettemps sconfig val = config_get sc_init sconfig val sc_ntemps"

definition et_system_config_setstations :: "et_sys_config option \<Rightarrow> int \<Rightarrow> int \<times> et_sys_config option" where
  "et_system_config_setstations sconfig val = config_set sc_init sconfig (\<not> val < 1) (\<lambda>sc. sc\<lparr>sc_nstations := val\<rparr>)"

definition et_system_config_getstations :: "et_sys_config option \<Rightarrow> bool \<Rightarrow> int \<times> int option" where
  "et_system_config_getstations sconfig val = config_get sc_init sconfig val sc_nstations"

definition at_most :: "nat \<Rightarrow> int \<Rightarrow> int" where
  "at_most m val = (if val > int m then int m else val)"

definition et_system_config_setprocs :: "et_sys_config option \<Rightarrow> int \<Rightarrow> int \<times> et_sys_config option" where
  "et_system_config_setprocs sconfig val = config_set sc_init sconfig (\<not> val < 1)
     (\<lambda>sc. sc\<lparr>sc_nprocesses := at_most ET_PROCESSES_MAX val\<rparr>)"

definition et_system_config_getprocs :: "et_sys_config option \<Rightarrow> bool \<Rightarrow> int \<times> int option" where
  "et_system_config_getprocs sconfig val = config_get sc_init sconfig val sc_nprocesses"

definition et_system_config_setattachments :: "et_sys_config option \<Rightarrow> int \<Rightarrow> int \<times> et_sys_config option" where
  "et_system_config_setattachments sconfig val = config_set sc_init sconfig (\<not> val < 1)
     (\<lambda>sc. sc\<lparr>sc_nattachments := at_most ET_ATTACHMENTS_MAX val\<rparr>)"

definition et_system_config_getattachments :: "et_sys_config option \<Rightarrow> bool \<Rightarrow> int \<times> int option" where
  "et_system_config_getattachments sconfig val = config_get sc_init sconfig val sc_nattachments"

definition et_system_config_setport :: "et_sys_config option \<Rightarrow> int \<Rightarrow> int \<times> et_sys_config option" where
  "et_system_config_setport sconfig val = config_set sc_init sconfig (\<not> (val < 1024 \<or> val > 65535))
     (\<lambda>sc. sc\<lparr>sc_port := val\<rparr>)"

definition et_system_config_getport :: "et_sys_config option \<Rightarrow> bool \<Rightarrow> int \<times> int option" where
  "et_system_config_getport sconfig val = config_get sc_init sconfig val sc_port"

definition et_system_config_setserverport :: "et_sys_config option \<Rightarrow> int \<Rightarrow> int \<times> et_sys_config option" where
  "et_system_config_setserverport sconfig val = config_set sc_init sconfig (\<not> (val < 1024 \<or> val > 65535))
     (\<lambda>sc. sc\<lparr>sc_serverport := val\<rparr>)"

definition et_system_config_getserverport :: "et_sys_config option \<Rightarrow> bool \<Rightarrow> int \<times> int option" where
  "et_system_config_getserverport sconfig val = config_get sc_init sconfig val sc_serverport"

text \<open>The loop that copies the sizes of the groups stops in the middle at a size below one.\<close>

fun copy_groups :: "nat \<Rightarrow> int list \<Rightarrow> nat \<Rightarrow> int list \<Rightarrow> (bool \<times> int list) option" where
  "copy_groups 0 groups i to = Some (True, to)"
| "copy_groups (Suc n) [] i to = None"
| "copy_groups (Suc n) (g # groups) i to =
     (if g < 1 then Some (False, to)
      else if \<not> i < length to then None
      else copy_groups n groups (Suc i) (to[i := g]))"

definition et_system_config_setgroups ::
  "et_sys_config option \<Rightarrow> int list option \<Rightarrow> int \<Rightarrow> (int \<times> et_sys_config option) option" where
  "et_system_config_setgroups sconfig groups sz =
     (case sconfig of
        None \<Rightarrow> Some (ET_ERROR, None)
      | Some sc \<Rightarrow>
          if sc_init sc \<noteq> ET_STRUCT_OK then Some (ET_ERROR, Some sc)
          else if sz = 1 then
            Some (ET_OK, Some (sc\<lparr>sc_groups := replicate ET_EVENT_GROUPS_MAX 0, sc_groupCount := 1\<rparr>))
          else case groups of
                 None \<Rightarrow> Some (ET_ERROR, Some sc)
               | Some gs \<Rightarrow>
                   if sz > int ET_EVENT_GROUPS_MAX \<or> sz < 1 then Some (ET_ERROR, Some sc)
                   else case copy_groups (nat sz) gs 0 (sc_groups sc) of
                          None \<Rightarrow> None
                        | Some (done, to) \<Rightarrow>
                            if \<not> done then Some (ET_ERROR, Some (sc\<lparr>sc_groups := to\<rparr>))
                            else Some (ET_OK, Some (sc\<lparr>sc_groups := take (nat sz) to @ replicate (ET_EVENT_GROUPS_MAX - nat sz) 0,
                                   sc_groupCount := sz\<rparr>)))"

definition et_system_config_settcp :: "et_sys_config option \<Rightarrow> int \<Rightarrow> int \<Rightarrow> int \<Rightarrow> int \<times> et_sys_config option" where
  "et_system_config_settcp sconfig rBufSize sBufSize noDelay = config_set sc_init sconfig
     (\<not> (rBufSize < 0 \<or> sBufSize < 0))
     (\<lambda>sc. sc\<lparr>sc_tcpRecvBufSize := rBufSize, sc_tcpSendBufSize := sBufSize,
        sc_tcpNoDelay := (if noDelay \<noteq> 0 then 1 else noDelay)\<rparr>)"

definition et_system_config_gettcp :: "et_sys_config option \<Rightarrow> bool \<Rightarrow> int \<times> (int \<times> int \<times> int) option" where
  "et_system_config_gettcp sconfig val = config_get sc_init sconfig val
     (\<lambda>sc. (sc_tcpRecvBufSize sc, sc_tcpSendBufSize sc, sc_tcpNoDelay sc))"

definition et_system_config_setfile :: "et_sys_config option \<Rightarrow> string option \<Rightarrow> int \<times> et_sys_config option" where
  "et_system_config_setfile sconfig val = config_set sc_init sconfig
     (val \<noteq> None \<and> \<not> length (the val) > ET_FILENAME_LENGTH - 1) (\<lambda>sc. sc\<lparr>sc_filename := the val\<rparr>)"

definition et_system_config_getfile :: "et_sys_config option \<Rightarrow> bool \<Rightarrow> int \<times> string option" where
  "et_system_config_getfile sconfig val = config_get sc_init sconfig val sc_filename"

section \<open>Multicast addresses\<close>

definition is_digit :: "char \<Rightarrow> bool" where
  "is_digit c \<longleftrightarrow> 48 \<le> (of_char c :: nat) \<and> (of_char c :: nat) \<le> 57"

definition is_space :: "char \<Rightarrow> bool" where
  "is_space c \<longleftrightarrow> (of_char c :: nat) = 32 \<or> 9 \<le> (of_char c :: nat) \<and> (of_char c :: nat) \<le> 13"

definition number :: "string \<Rightarrow> int" where
  "number s = foldl (\<lambda>n c. 10 * n + (of_char c - 48)) 0 (takeWhile is_digit s)"

definition atoi :: "string \<Rightarrow> int" where
  "atoi s =
     (let t = dropWhile is_space s in
      case t of
        [] \<Rightarrow> 0
      | c # cs \<Rightarrow> if c = CHR ''-'' then - number cs else if c = CHR ''+'' then number cs else number t)"

text \<open>The first number of an address is copied into an array of four characters.\<close>

definition firstnumber :: "string \<Rightarrow> int option" where
  "firstnumber val =
     (let len = length (takeWhile (\<lambda>c. c \<noteq> CHR ''.'') val)
      in if len > 3 then None else Some (atoi (take len val)))"

definition multicast ::
  "string list \<Rightarrow> string option \<Rightarrow> (string \<Rightarrow> int \<times> string list) \<Rightarrow> (int \<times> string list) option" where
  "multicast addrs val act =
     (case val of
        None \<Rightarrow> Some (ET_ERROR, addrs)
      | Some v \<Rightarrow>
          if length v \<ge> ET_IPADDRSTRLEN \<or> length v < 7 then Some (ET_ERROR, addrs)
          else case firstnumber v of
                 None \<Rightarrow> None
               | Some n \<Rightarrow> if n < 224 \<or> n > 239 then Some (ET_ERROR, addrs) else Some (act v))"

definition add_address :: "string list \<Rightarrow> string \<Rightarrow> int \<times> string list" where
  "add_address addrs v =
     (if List.member addrs v then (ET_OK, addrs)
      else if length addrs = ET_MAXADDRESSES then (ET_ERROR, addrs)
      else (ET_OK, addrs @ [v]))"

definition with_addrs ::
  "et_sys_config option \<Rightarrow> (string list \<Rightarrow> (int \<times> string list) option) \<Rightarrow> (int \<times> et_sys_config option) option" where
  "with_addrs sconfig f =
     (case sconfig of
        None \<Rightarrow> Some (ET_ERROR, None)
      | Some sc \<Rightarrow>
          if sc_init sc \<noteq> ET_STRUCT_OK then Some (ET_ERROR, Some sc)
          else map_option (\<lambda>(status, addrs). (status, Some (sc\<lparr>sc_mcastaddrs := addrs\<rparr>))) (f (sc_mcastaddrs sc)))"

definition et_system_config_addmulticast ::
  "et_sys_config option \<Rightarrow> string option \<Rightarrow> (int \<times> et_sys_config option) option" where
  "et_system_config_addmulticast sconfig val =
     with_addrs sconfig (\<lambda>addrs. multicast addrs val (add_address addrs))"

definition et_system_config_removemulticast ::
  "et_sys_config option \<Rightarrow> string option \<Rightarrow> (int \<times> et_sys_config option) option" where
  "et_system_config_removemulticast sconfig val =
     with_addrs sconfig (\<lambda>addrs. multicast addrs val (\<lambda>v. (ET_OK, remove1 v addrs)))"

section \<open>The check of a configuration\<close>

text \<open>
  The sizes of the groups are summed up as unbounded numbers: the sum of the code is a C \<open>int\<close>, which
  overflows (undefined behaviour) only when the sizes of the groups sum up to more than \<open>2^31 - 1\<close>.
\<close>

definition et_system_config_check :: "et_sys_config \<Rightarrow> int \<times> et_sys_config" where
  "et_system_config_check config =
     (if sc_nevents config < 1 then (ET_ERROR, config)
      else if sc_event_size config < 1 then (ET_ERROR, config)
      else if sum_list (take (nat (sc_groupCount config)) (sc_groups config)) \<noteq> sc_nevents config then (ET_ERROR, config)
      else if sc_ntemps config < 1 then (ET_ERROR, config)
      else if sc_ntemps config > sc_nevents config then (ET_ERROR, config)
      else if sc_nstations config < 1 then (ET_ERROR, config)
      else if sc_nattachments config < 1 then (ET_ERROR, config)
      else if sc_nattachments config > int ET_ATTACHMENTS_MAX then (ET_ERROR, config)
      else if sc_nprocesses config < 1 then (ET_ERROR, config)
      else if sc_nprocesses config > int ET_PROCESSES_MAX then (ET_ERROR, config)
      else (ET_OK, config\<lparr>sc_filename := take (ET_FILENAME_LENGTH - 1) (sc_filename config)\<rparr>))"

section \<open>Information about an open system\<close>

definition sys_info :: "et_id option \<Rightarrow> bool \<Rightarrow> (et_id \<Rightarrow> 'v) \<Rightarrow> int \<times> 'v option" where
  "sys_info eid val sel =
     (case eid of
        None \<Rightarrow> (ET_ERROR, None)
      | Some e \<Rightarrow> if \<not> val \<or> id_init e \<noteq> ET_STRUCT_OK then (ET_ERROR, None) else (ET_OK, Some (sel e)))"

definition sys_query :: "(et_id \<Rightarrow> int \<times> 'v option) \<Rightarrow> et_id option \<Rightarrow> bool \<Rightarrow> (et_system \<Rightarrow> 'v) \<Rightarrow> int \<times> 'v option" where
  "sys_query etr eid val sel =
     (case eid of
        None \<Rightarrow> (ET_ERROR, None)
      | Some e \<Rightarrow>
          if \<not> val \<or> id_init e \<noteq> ET_STRUCT_OK then (ET_ERROR, None)
          else if id_locality e \<noteq> ET_LOCAL then etr e
          else (ET_OK, Some (sel (id_sys e))))"

definition et_system_setgroup :: "(et_id \<Rightarrow> int \<times> int) \<Rightarrow> et_id option \<Rightarrow> int \<Rightarrow> int \<times> et_id option" where
  "et_system_setgroup etr eid grp =
     (case eid of
        None \<Rightarrow> (ET_ERROR, None)
      | Some e \<Rightarrow>
          if id_init e \<noteq> ET_STRUCT_OK then (ET_ERROR, Some e)
          else if grp = 0 then (ET_OK, Some (e\<lparr>id_group := 0\<rparr>))
          else if grp < 0 then (ET_ERROR, Some e)
          else
            let (err, groupCount) = (if id_locality e \<noteq> ET_LOCAL then etr e
                                     else (ET_OK, sc_groupCount (sy_config (id_sys e))))
            in if err \<noteq> ET_OK then (err, Some e)
               else if grp > groupCount then (ET_ERROR, Some e)
               else (ET_OK, Some (e\<lparr>id_group := grp\<rparr>)))"

definition et_system_getgroup :: "et_id option \<Rightarrow> bool \<Rightarrow> int \<times> int option" where
  "et_system_getgroup eid val = sys_info eid val id_group"

text \<open>A remote user's id has no system structure.\<close>

definition et_system_getgroupcount :: "et_id option \<Rightarrow> bool \<Rightarrow> (int \<times> int option) option" where
  "et_system_getgroupcount eid val =
     (case eid of
        None \<Rightarrow> Some (ET_ERROR, None)
      | Some e \<Rightarrow>
          if \<not> val \<or> id_init e \<noteq> ET_STRUCT_OK then Some (ET_ERROR, None)
          else if id_locality e = ET_REMOTE then None
          else Some (ET_OK, Some (sc_groupCount (sy_config (id_sys e)))))"

definition et_system_setdebug :: "et_id option \<Rightarrow> int \<Rightarrow> int \<times> et_id option" where
  "et_system_setdebug eid debug = config_set id_init eid
     (debug = ET_DEBUG_NONE \<or> debug = ET_DEBUG_SEVERE \<or> debug = ET_DEBUG_ERROR \<or> debug = ET_DEBUG_WARN \<or>
      debug = ET_DEBUG_INFO) (\<lambda>e. e\<lparr>id_debug := debug\<rparr>)"

definition et_system_getdebug :: "et_id option \<Rightarrow> bool \<Rightarrow> int \<times> int option" where
  "et_system_getdebug eid val = sys_info eid val id_debug"

definition et_system_getlocality :: "et_id option \<Rightarrow> bool \<Rightarrow> int \<times> int option" where
  "et_system_getlocality eid val = sys_info eid val id_locality"

definition et_system_getnumevents :: "et_id option \<Rightarrow> bool \<Rightarrow> int \<times> int option" where
  "et_system_getnumevents eid val = sys_info eid val id_nevents"

definition et_system_geteventsize :: "et_id option \<Rightarrow> bool \<Rightarrow> int \<times> uint64 option" where
  "et_system_geteventsize eid val = sys_info eid val id_esize"

definition et_system_gettempsmax :: "(et_id \<Rightarrow> int \<times> int option) \<Rightarrow> et_id option \<Rightarrow> bool \<Rightarrow> int \<times> int option" where
  "et_system_gettempsmax etr eid val = sys_query etr eid val (\<lambda>sys. sc_ntemps (sy_config sys))"

definition et_system_getstationsmax :: "(et_id \<Rightarrow> int \<times> int option) \<Rightarrow> et_id option \<Rightarrow> bool \<Rightarrow> int \<times> int option" where
  "et_system_getstationsmax etr eid val = sys_query etr eid val (\<lambda>sys. sc_nstations (sy_config sys))"

definition et_system_getprocsmax :: "(et_id \<Rightarrow> int \<times> int option) \<Rightarrow> et_id option \<Rightarrow> bool \<Rightarrow> int \<times> int option" where
  "et_system_getprocsmax etr eid val = sys_query etr eid val (\<lambda>sys. sc_nprocesses (sy_config sys))"

definition et_system_getattsmax :: "(et_id \<Rightarrow> int \<times> int option) \<Rightarrow> et_id option \<Rightarrow> bool \<Rightarrow> int \<times> int option" where
  "et_system_getattsmax etr eid val = sys_query etr eid val (\<lambda>sys. sc_nattachments (sy_config sys))"

definition et_system_getheartbeat :: "(et_id \<Rightarrow> int \<times> int option) \<Rightarrow> et_id option \<Rightarrow> bool \<Rightarrow> int \<times> int option" where
  "et_system_getheartbeat etr eid val = sys_query etr eid val (\<lambda>sys. sint (sy_heartbeat sys))"

definition et_system_getpid :: "(et_id \<Rightarrow> int \<times> int option) \<Rightarrow> et_id option \<Rightarrow> bool \<Rightarrow> int \<times> int option" where
  "et_system_getpid etr eid val = sys_query etr eid val sy_mainpid"

definition et_system_getprocs :: "(et_id \<Rightarrow> int \<times> int option) \<Rightarrow> et_id option \<Rightarrow> bool \<Rightarrow> int \<times> int option" where
  "et_system_getprocs etr eid val = sys_query etr eid val sy_nprocesses"

definition et_system_getattachments :: "(et_id \<Rightarrow> int \<times> int option) \<Rightarrow> et_id option \<Rightarrow> bool \<Rightarrow> int \<times> int option" where
  "et_system_getattachments etr eid val = sys_query etr eid val sy_nattachments"

definition et_system_getstations :: "(et_id \<Rightarrow> int \<times> int option) \<Rightarrow> et_id option \<Rightarrow> bool \<Rightarrow> int \<times> int option" where
  "et_system_getstations etr eid val = sys_query etr eid val sy_nstations"

definition et_system_gettemps :: "(et_id \<Rightarrow> int \<times> int option) \<Rightarrow> et_id option \<Rightarrow> bool \<Rightarrow> int \<times> int option" where
  "et_system_gettemps etr eid val = sys_query etr eid val sy_ntemps"

definition et_system_getserverport :: "et_id option \<Rightarrow> bool \<Rightarrow> int \<times> int option" where
  "et_system_getserverport eid val = sys_info eid val id_port"

definition et_system_gethost :: "et_id option \<Rightarrow> bool \<Rightarrow> int \<times> string option" where
  "et_system_gethost eid host = sys_info eid host id_ethost"

definition et_system_getlocaladdress :: "et_id option \<Rightarrow> bool \<Rightarrow> int \<times> string option" where
  "et_system_getlocaladdress eid address = sys_info eid address id_localAddr"


section \<open>The fields of a configuration\<close>

abbreviation (input) "sys_ready c \<equiv> sc_init c = ET_STRUCT_OK"

lemma note_events_simps [simp]:
  "sc_init (note_events v c) = sc_init c" "sc_nevents (note_events v c) = v"
  "sc_groupCount (note_events v c) = sc_groupCount c"
  "sc_ntemps (note_events v c) = (if sc_ntemps c > v then v else sc_ntemps c)"
  "sc_groups (note_events v c) = (if sc_groupCount c = 1 then (sc_groups c)[0 := v] else sc_groups c)"
  "sc_event_size (note_events v c) = sc_event_size c" "sc_nstations (note_events v c) = sc_nstations c"
  "sc_nattachments (note_events v c) = sc_nattachments c" "sc_nprocesses (note_events v c) = sc_nprocesses c"
  "sc_filename (note_events v c) = sc_filename c" "sc_mcastaddrs (note_events v c) = sc_mcastaddrs c"
  by (simp_all add: note_events_def Let_def)

interpretation evs: config_field "\<lambda>c. sys_ready c" et_system_config_setevents et_system_config_getevents
  "\<lambda>val. \<not> val < 1" "\<lambda>val. val"
  unfolding et_system_config_setevents_def [abs_def] et_system_config_getevents_def [abs_def]
  by (rule config_fieldI) simp_all

interpretation esize: config_field "\<lambda>c. sys_ready c" et_system_config_setsize et_system_config_getsize
  "\<lambda>val. \<not> val < 1" "\<lambda>val. val"
  unfolding et_system_config_setsize_def [abs_def] et_system_config_getsize_def [abs_def]
  by (rule config_fieldI) simp_all

interpretation stations: config_field "\<lambda>c. sys_ready c" et_system_config_setstations et_system_config_getstations
  "\<lambda>val. \<not> val < 1" "\<lambda>val. val"
  unfolding et_system_config_setstations_def [abs_def] et_system_config_getstations_def [abs_def]
  by (rule config_fieldI) simp_all

interpretation procs: config_field "\<lambda>c. sys_ready c" et_system_config_setprocs et_system_config_getprocs
  "\<lambda>val. \<not> val < 1" "at_most ET_PROCESSES_MAX"
  unfolding et_system_config_setprocs_def [abs_def] et_system_config_getprocs_def [abs_def]
  by (rule config_fieldI) simp_all

interpretation atts: config_field "\<lambda>c. sys_ready c" et_system_config_setattachments et_system_config_getattachments
  "\<lambda>val. \<not> val < 1" "at_most ET_ATTACHMENTS_MAX"
  unfolding et_system_config_setattachments_def [abs_def] et_system_config_getattachments_def [abs_def]
  by (rule config_fieldI) simp_all

interpretation port: config_field "\<lambda>c. sys_ready c" et_system_config_setport et_system_config_getport
  "\<lambda>val. \<not> (val < 1024 \<or> val > 65535)" "\<lambda>val. val"
  unfolding et_system_config_setport_def [abs_def] et_system_config_getport_def [abs_def]
  by (rule config_fieldI) simp_all

interpretation serverport: config_field "\<lambda>c. sys_ready c" et_system_config_setserverport et_system_config_getserverport
  "\<lambda>val. \<not> (val < 1024 \<or> val > 65535)" "\<lambda>val. val"
  unfolding et_system_config_setserverport_def [abs_def] et_system_config_getserverport_def [abs_def]
  by (rule config_fieldI) simp_all

interpretation tcp: config_field "\<lambda>c. sys_ready c"
  "\<lambda>c (r, s, d). et_system_config_settcp c r s d" et_system_config_gettcp
  "\<lambda>(r, s, d). \<not> (r < 0 \<or> s < 0)" "\<lambda>(r, s, d). (r, s, if d \<noteq> 0 then 1 else d)"
  unfolding et_system_config_settcp_def [abs_def] et_system_config_gettcp_def [abs_def] split_def
  by (rule config_fieldI) simp_all

interpretation sysfile: config_field "\<lambda>c. sys_ready c" et_system_config_setfile et_system_config_getfile
  "\<lambda>val. val \<noteq> None \<and> \<not> length (the val) > ET_FILENAME_LENGTH - 1" "\<lambda>val. the val"
  unfolding et_system_config_setfile_def [abs_def] et_system_config_getfile_def [abs_def]
  by (rule config_fieldI) simp_all

section \<open>Sequences of settings\<close>

datatype sys_setting = SysEvents int | SysSize uint64 | SysTemps int | SysStations int | SysProcs int
  | SysAttachments int | SysPort int | SysServerport int | SysTcp int int int | SysFile "string option"
  | SysGroups "int list option" int | SysAdd "string option" | SysRemove "string option"

fun apply_sys :: "sys_setting \<Rightarrow> et_sys_config option \<Rightarrow> (int \<times> et_sys_config option) option" where
  "apply_sys (SysEvents v) c = Some (et_system_config_setevents c v)"
| "apply_sys (SysSize v) c = Some (et_system_config_setsize c v)"
| "apply_sys (SysTemps v) c = Some (et_system_config_settemps c v)"
| "apply_sys (SysStations v) c = Some (et_system_config_setstations c v)"
| "apply_sys (SysProcs v) c = Some (et_system_config_setprocs c v)"
| "apply_sys (SysAttachments v) c = Some (et_system_config_setattachments c v)"
| "apply_sys (SysPort v) c = Some (et_system_config_setport c v)"
| "apply_sys (SysServerport v) c = Some (et_system_config_setserverport c v)"
| "apply_sys (SysTcp r s d) c = Some (et_system_config_settcp c r s d)"
| "apply_sys (SysFile v) c = Some (et_system_config_setfile c v)"
| "apply_sys (SysGroups gs sz) c = et_system_config_setgroups c gs sz"
| "apply_sys (SysAdd v) c = et_system_config_addmulticast c v"
| "apply_sys (SysRemove v) c = et_system_config_removemulticast c v"

fun apply_all :: "sys_setting list \<Rightarrow> et_sys_config option \<Rightarrow> et_sys_config option option" where
  "apply_all [] c = Some c"
| "apply_all (st # sts) c = Option.bind (apply_sys st c) (\<lambda>(status, c'). apply_all sts c')"

definition groups_total :: "et_sys_config \<Rightarrow> int" where
  "groups_total c = sum_list (take (nat (sc_groupCount c)) (sc_groups c))"

definition sys_fields_ok :: "et_sys_config \<Rightarrow> bool" where
  "sys_fields_ok c \<longleftrightarrow> sc_init c = ET_STRUCT_OK \<and> 1 \<le> sc_nevents c \<and> sc_event_size c \<noteq> 0 \<and>
     1 \<le> sc_ntemps c \<and> sc_ntemps c \<le> sc_nevents c \<and> 1 \<le> sc_nstations c \<and>
     1 \<le> sc_nattachments c \<and> sc_nattachments c \<le> int ET_ATTACHMENTS_MAX \<and>
     1 \<le> sc_nprocesses c \<and> sc_nprocesses c \<le> int ET_PROCESSES_MAX \<and>
     length (sc_groups c) = ET_EVENT_GROUPS_MAX \<and> 1 \<le> sc_groupCount c \<and> sc_groupCount c \<le> int ET_EVENT_GROUPS_MAX \<and>
     length (sc_filename c) \<le> ET_FILENAME_LENGTH - 1 \<and>
     distinct (sc_mcastaddrs c) \<and> length (sc_mcastaddrs c) \<le> ET_MAXADDRESSES"

lemmas sys_setter_defs = et_system_config_setevents_def et_system_config_setsize_def et_system_config_settemps_def
  et_system_config_setstations_def et_system_config_setprocs_def et_system_config_setattachments_def
  et_system_config_setport_def et_system_config_setserverport_def et_system_config_settcp_def
  et_system_config_setfile_def

lemma copy_groups_length: "copy_groups n gs i to = Some (b, to') \<Longrightarrow> length to' = length to"
  by (induction n gs i to rule: copy_groups.induct) (auto split: if_splits)

lemma multicast_keeps:
  assumes "multicast addrs val act = Some (status, addrs')"
    "\<And>v. P (snd (act v))" "P addrs"
  shows "P addrs'"
  using assms(1,3) assms(2) [of "the val"] by (auto simp: multicast_def split: option.splits if_splits)

lemma apply_sys_fields_ok:
  assumes "sys_fields_ok c" "apply_sys st (Some c) = Some (status, c')"
  shows "\<exists>c1. c' = Some c1 \<and> sys_fields_ok c1"
proof (cases st)
  case (SysGroups gs sz)
  then show ?thesis using assms copy_groups_length
    by (auto simp: et_system_config_setgroups_def sys_fields_ok_def split: if_splits option.splits)
next
  case (SysAdd val)
  then obtain addrs where "multicast (sc_mcastaddrs c) val (add_address (sc_mcastaddrs c)) = Some (status, addrs)"
    "c' = Some (c\<lparr>sc_mcastaddrs := addrs\<rparr>)"
    using assms by (auto simp: et_system_config_addmulticast_def with_addrs_def sys_fields_ok_def)
  moreover from multicast_keeps [OF this(1), of "\<lambda>as. distinct as \<and> length as \<le> ET_MAXADDRESSES"] assms(1)
  have "distinct addrs \<and> length addrs \<le> ET_MAXADDRESSES"
    by (simp add: add_address_def sys_fields_ok_def)
  ultimately show ?thesis using assms(1) by (simp add: sys_fields_ok_def)
next
  case (SysRemove val)
  then obtain addrs where "multicast (sc_mcastaddrs c) val (\<lambda>v. (ET_OK, remove1 v (sc_mcastaddrs c))) = Some (status, addrs)"
    "c' = Some (c\<lparr>sc_mcastaddrs := addrs\<rparr>)"
    using assms by (auto simp: et_system_config_removemulticast_def with_addrs_def sys_fields_ok_def)
  moreover have "length (remove1 v (sc_mcastaddrs c)) \<le> ET_MAXADDRESSES" for v
    using assms(1) by (auto simp: length_remove1 sys_fields_ok_def)
  with multicast_keeps [OF calculation(1), of "\<lambda>as. distinct as \<and> length as \<le> ET_MAXADDRESSES"] assms(1)
  have "distinct addrs \<and> length addrs \<le> ET_MAXADDRESSES"
    by (simp add: sys_fields_ok_def)
  ultimately show ?thesis using assms(1) by (simp add: sys_fields_ok_def)
qed (use assms in \<open>auto simp: sys_setter_defs config_set_def sys_fields_ok_def at_most_def word_less_1 split: if_splits\<close>)

lemma sys_fields_ok_init: "et_system_config_init b True = (ET_OK, Some c) \<Longrightarrow> sys_fields_ok c"
  by (auto simp: et_system_config_init_def sys_fields_ok_def ET_EVENT_GROUPS_MAX_def split: if_splits)

lemma config_check_total:
  "sys_fields_ok c \<Longrightarrow> et_system_config_check c = (if groups_total c = sc_nevents c then (ET_OK, c) else (ET_ERROR, c))"
  by (auto simp: et_system_config_check_def sys_fields_ok_def groups_total_def word_less_1)


lemma apply_all_fields_ok:
  "apply_all sts (Some c) = Some c' \<Longrightarrow> sys_fields_ok c \<Longrightarrow> \<exists>c1. c' = Some c1 \<and> sys_fields_ok c1"
proof (induction sts arbitrary: c)
  case (Cons st sts)
  from Cons.prems(1) obtain status c2 where a: "apply_sys st (Some c) = Some (status, c2)" "apply_all sts c2 = Some c'"
    by (auto simp: bind_eq_Some_conv)
  from apply_sys_fields_ok [OF Cons.prems(2) a(1)] obtain c1 where "c2 = Some c1" "sys_fields_ok c1" by blast
  with Cons.IH a(2) show ?case by blast
qed auto

text \<open>Settings other than those of groups keep a property of the group sizes and the number of events.\<close>

fun sets_groups :: "sys_setting \<Rightarrow> bool" where
  "sets_groups (SysGroups gs sz) = True" | "sets_groups _ = False"

fun sets_events :: "sys_setting \<Rightarrow> bool" where
  "sets_events (SysEvents v) = True" | "sets_events _ = False"

lemma apply_sys_groups:
  assumes "apply_sys st (Some c) = Some (status, Some c')" "\<not> sets_groups st"
  shows "sc_groupCount c' = sc_groupCount c \<and>
     (\<not> sets_events st \<longrightarrow> sc_groups c' = sc_groups c \<and> sc_nevents c' = sc_nevents c) \<and>
     (sets_events st \<longrightarrow> c' = c \<or> sc_groups c' = (if sc_groupCount c = 1 then (sc_groups c)[0 := sc_nevents c'] else sc_groups c))"
  using assms
  by (cases st) (auto simp: sys_setter_defs config_set_def et_system_config_addmulticast_def
      et_system_config_removemulticast_def with_addrs_def split: if_splits)

definition one_group :: "et_sys_config \<Rightarrow> bool" where
  "one_group c \<longleftrightarrow> sc_groupCount c = 1 \<and> sc_groups c ! 0 = sc_nevents c"

lemma groups_total_one: "sc_groupCount c = 1 \<Longrightarrow> sc_groups c \<noteq> [] \<Longrightarrow> groups_total c = sc_groups c ! 0"
  by (simp add: groups_total_def take_Suc hd_conv_nth)

lemma apply_all_invariant:
  assumes "apply_all sts (Some c) = Some (Some c')" "\<forall>st \<in> set sts. good st" "sys_fields_ok c" "P c"
    and step: "\<And>st c status c'. apply_sys st (Some c) = Some (status, Some c') \<Longrightarrow> good st \<Longrightarrow> sys_fields_ok c \<Longrightarrow>
      sys_fields_ok c' \<Longrightarrow> P c \<Longrightarrow> P c'"
  shows "P c'"
  using assms(1-4)
proof (induction sts arbitrary: c)
  case (Cons st sts)
  from Cons.prems(1) obtain status c2 where a: "apply_sys st (Some c) = Some (status, c2)" "apply_all sts c2 = Some (Some c')"
    by (auto simp: bind_eq_Some_conv)
  from apply_sys_fields_ok [OF Cons.prems(3) a(1)] obtain c1 where c1: "c2 = Some c1" "sys_fields_ok c1" by blast
  with Cons.IH a Cons.prems step [of st c status c1] show ?case by simp
qed simp

lemma groups_nonempty: "sys_fields_ok c \<Longrightarrow> sc_groups c \<noteq> []"
  by (auto simp: sys_fields_ok_def ET_EVENT_GROUPS_MAX_def)

lemma one_group_kept:
  "apply_sys st (Some c) = Some (status, Some c') \<Longrightarrow> \<not> sets_groups st \<Longrightarrow> sys_fields_ok c \<Longrightarrow> one_group c \<Longrightarrow> one_group c'"
  using apply_sys_groups [of st c status c'] groups_nonempty [of c]
  by (cases "sets_events st") (auto simp: one_group_def)

lemma no_group_kept:
  "apply_sys st (Some c) = Some (status, Some c') \<Longrightarrow> \<not> sets_groups st \<and> \<not> sets_events st \<Longrightarrow> groups_total c = 0 \<Longrightarrow>
     groups_total c' = 0"
  using apply_sys_groups [of st c status c'] by (simp add: groups_total_def)

lemma one_group_init: "et_system_config_init b True = (ET_OK, Some c) \<Longrightarrow> one_group c"
  by (auto simp: et_system_config_init_def one_group_def ET_EVENT_GROUPS_MAX_def split: if_splits)

text \<open>
  C23. A configuration made by \<open>et_system_config_init\<close> and any sequence of calls of the setters other
  than \<open>et_system_config_setgroups\<close>, with whatever arguments and order, accepted or refused, passes
  the check at the start of the system, and the check does not change it.
\<close>

theorem system_config_check_after_settings:
  assumes "et_system_config_init b True = (ET_OK, Some c0)"
    and "apply_all sts (Some c0) = Some (Some c)" and "\<forall>st \<in> set sts. \<not> sets_groups st"
  shows "et_system_config_check c = (ET_OK, c)"
proof -
  note ok0 = sys_fields_ok_init [OF assms(1)]
  from apply_all_fields_ok [OF assms(2) ok0] have ok: "sys_fields_ok c" by simp
  from assms(2,3) ok0 one_group_init [OF assms(1)] have "one_group c"
    by (rule apply_all_invariant) (rule one_group_kept)
  then show ?thesis using config_check_total [OF ok] groups_total_one [OF _ groups_nonempty [OF ok]]
    by (simp add: one_group_def)
qed

text \<open>
  A user who asks for one group of events with \<open>et_system_config_setgroups\<close> gets a configuration
  with which the system does not start, unless the number of events or the groups are set
  afterwards: the setter clears the size of the only group.
\<close>

lemma system_config_one_group_refused:
  assumes "et_system_config_init b True = (ET_OK, Some c0)"
    and "apply_all sts (Some c0) = Some (Some c1)" and "et_system_config_setgroups (Some c1) gs 1 = Some (status, Some c2)"
    and "apply_all sts' (Some c2) = Some (Some c)" and "\<forall>st \<in> set sts'. \<not> sets_groups st \<and> \<not> sets_events st"
  shows "status = ET_OK \<and> et_system_config_check c = (ET_ERROR, c)"
proof -
  from apply_all_fields_ok [OF assms(2) sys_fields_ok_init [OF assms(1)]] have ok1: "sys_fields_ok c1" by simp
  from apply_sys_fields_ok [OF ok1, of "SysGroups gs 1"] assms(3) have ok2: "sys_fields_ok c2" by simp
  from apply_all_fields_ok [OF assms(4) ok2] have ok: "sys_fields_ok c" by simp
  have "status = ET_OK" and "groups_total c2 = 0" using assms(3) ok1
    by (auto simp: et_system_config_setgroups_def sys_fields_ok_def groups_total_def take_replicate sum_list_replicate)
  moreover from assms(4,5) ok2 this(2) have "groups_total c = 0"
    by (rule apply_all_invariant [where P = "\<lambda>c. groups_total c = 0"]) (rule no_group_kept)
  ultimately show ?thesis using config_check_total [OF ok] ok by (simp add: sys_fields_ok_def)
qed

section \<open>Sample data\<close>

definition sample_sysconfig :: et_sys_config where
  "sample_sysconfig = the (snd (et_system_config_init 0 True))"

lemma sample_sysconfig: "et_system_config_init 0 True = (ET_OK, Some sample_sysconfig)"
  by (simp add: sample_sysconfig_def et_system_config_init_def)

lemma sample_sysconfig_simps [simp]:
  "sc_init sample_sysconfig = ET_STRUCT_OK" "sc_nevents sample_sysconfig = 300" "sc_groupCount sample_sysconfig = 1"
  "sc_ntemps sample_sysconfig = 300" "sc_nstations sample_sysconfig = 200" "sc_filename sample_sysconfig = []"
  by (simp_all add: sample_sysconfig_def et_system_config_init_def)

theorem system_config_check_after_settings_witness:
  "et_system_config_check (note_events 10 sample_sysconfig) = (ET_OK, note_events 10 sample_sysconfig)"
  by (rule system_config_check_after_settings [OF sample_sysconfig, of "[SysEvents 10, SysTemps 20]"])
    (simp_all add: sys_setter_defs config_set_def)

text \<open>
  An address of legal length with more than three characters before its first dot does not fit the
  array for its first number.
\<close>

lemma addmulticast_overflows:
  assumes "sys_ready sc" "7 \<le> length v" "length v < ET_IPADDRSTRLEN" "3 < length (takeWhile (\<lambda>c. c \<noteq> CHR ''.'') v)"
  shows "et_system_config_addmulticast (Some sc) (Some v) = None"
  using assms by (simp add: et_system_config_addmulticast_def with_addrs_def multicast_def firstnumber_def)

lemma addmulticast_then_remove:
  assumes "sys_fields_ok sc" "v \<notin> set (sc_mcastaddrs sc)"
    "et_system_config_addmulticast (Some sc) (Some v) = Some (ET_OK, Some sc')"
  shows "et_system_config_removemulticast (Some sc') (Some v) = Some (ET_OK, Some sc)"
proof -
  have "List.member (sc_mcastaddrs sc) v = False" using assms(2) by simp
  then show ?thesis using assms
    by (cases sc) (auto simp: et_system_config_addmulticast_def et_system_config_removemulticast_def with_addrs_def multicast_def
      add_address_def remove1_append sys_fields_ok_def split: option.splits if_splits)
qed

end
