(* ===== verification/ET_Start.thy ===== *)
theory ET_Start
  imports ET_Cycle ET_Sessions ET_SysConfig
begin

text \<open>
  The start and the end of an ET system (src/libsrc/et\_system.c: \<open>et_system_start\<close>, \<open>et_init_mem_sys\<close>,
  \<open>et_init_mem_station\<close>, \<open>et_init_mem_event\<close>, \<open>et_grandcentral_station_create\<close>, \<open>et_system_close\<close>).

  The calls that create, map and remove the file of the shared memory, the clock rate, the process
  id, the host name and whether each of the system's five threads starts in time are fields of
  \<open>start_env\<close>; \<open>en_mem\<close> is an id whose system structure, stations, histogram and events are what is in
  the mapped memory before it is initialised. Memory for the id is assumed. After a failed start
  the caller's id points to freed memory, which is \<open>None\<close> in the result.

  The main result is that a started system satisfies the invariants of theories \<open>ET_Cycle\<close> and
  \<open>ET_Sessions\<close>: all events are in GrandCentral's input list, which is the only station.
\<close>

section \<open>Initialisation of the shared memory\<close>

abbreviation (input) "ET_TEMPNAME_LENGTH \<equiv> ET_FILENAME_LENGTH + 12"

record start_env =
  en_create :: int
  en_attach :: int
  en_beats :: bool
  en_remove :: int
  en_recreate :: int
  en_mem :: et_id
  en_hz :: int
  en_pid :: int
  en_host :: "string option"
  en_loads :: "string \<Rightarrow> string \<Rightarrow> bool"
  en_etr :: "et_id \<Rightarrow> string \<Rightarrow> et_stat_config \<Rightarrow> int \<Rightarrow> int \<Rightarrow> int \<times> nat option \<times> et_id"
  en_threads :: "bool list"

definition et_init_mem_sys :: "start_env \<Rightarrow> et_id \<Rightarrow> et_sys_config \<Rightarrow> et_id option" where
  "et_init_mem_sys env eid config =
     (case en_host env of
        None \<Rightarrow> None
      | Some host \<Rightarrow>
          let sys = id_sys eid in
          Some (eid\<lparr>id_sys := sys\<lparr>sy_version := ET_VERSION, sy_nselects := int ET_STATION_SELECT_INTS, sy_hz := en_hz env,
            sy_asthread := ET_THREAD_KEEP, sy_bitInfo := ET_BIT64_MASK, sy_heartbeat := 0, sy_mainpid := en_pid env,
            sy_nstations := 0, sy_ntemps := 0, sy_nprocesses := 0, sy_nattachments := 0, sy_port := 0, sy_host := host,
            sy_stat_head := ET_GRANDCENTRAL, sy_stat_tail := ET_GRANDCENTRAL,
            sy_proc := map et_init_process (take ET_PROCESSES_MAX (sy_proc sys)) @ drop ET_PROCESSES_MAX (sy_proc sys),
            sy_attach := map et_init_attachment (take ET_ATTACHMENTS_MAX (sy_attach sys)) @ drop ET_ATTACHMENTS_MAX (sy_attach sys),
            sy_config := config\<rparr>\<rparr>))"

definition mem_station :: "et_station \<Rightarrow> et_station" where
  "mem_station ps = et_init_station (ps\<lparr>st_list_in := (st_list_in ps)\<lparr>l_mutex := False\<rparr>,
     st_list_out := (st_list_out ps)\<lparr>l_mutex := False\<rparr>\<rparr>)"

definition et_init_mem_station :: "et_id \<Rightarrow> et_id" where
  "et_init_mem_station eid =
     (let n = nat (nstations_max eid)
      in eid\<lparr>id_stats := map mem_station (take n (id_stats eid)) @ drop n (id_stats eid)\<rparr>)"

fun decimal :: "nat \<Rightarrow> string" where
  "decimal n = (if n < 10 then [char_of (48 + n)] else decimal (n div 10) @ [char_of (48 + n mod 10)])"

definition temp_name :: "string \<Rightarrow> nat \<Rightarrow> string" where
  "temp_name filename i = filename @ ''_temp'' @ decimal i"

definition mem_event :: "string \<Rightarrow> nat \<Rightarrow> et_event \<Rightarrow> et_event" where
  "mem_event filename i pe = (et_init_event pe)\<lparr>ev_filename := temp_name filename i, ev_data := DShared i, ev_place := int i\<rparr>"

definition et_init_mem_event :: "et_id \<Rightarrow> et_id option" where
  "et_init_mem_event eid =
     (let n = nat (nevents_max eid); filename = sc_filename (sy_config (id_sys eid)) in
      if list_ex (\<lambda>i. length (temp_name filename i) \<ge> ET_TEMPNAME_LENGTH) [0..<n] then None
      else Some (eid\<lparr>id_events := (\<lambda>i. if i < n then mem_event filename i (id_events eid i) else id_events eid i)\<rparr>))"

section \<open>GrandCentral\<close>

definition grandcentral_config :: et_stat_config where
  "grandcentral_config =
     (let c0 = Some et_station_config_init;
          c1 = snd (et_station_config_setuser c0 ET_STATION_USER_MULTI);
          c2 = snd (et_station_config_setrestore c1 ET_STATION_RESTORE_GC);
          c3 = snd (et_station_config_setselect c2 ET_STATION_SELECT_ALL);
          c4 = snd (et_station_config_setblock c3 ET_STATION_BLOCKING)
      in the (snd (et_station_config_setprescale c4 1)))"

text \<open>
  Filling GrandCentral's input list with events \<open>i\<close>, \<open>i + 1\<close>, ..., \<open>n\<close> of them; \<open>cnt\<close> more belong to
  group \<open>index\<close>.
\<close>

fun fill_gc :: "nat \<Rightarrow> nat \<Rightarrow> nat \<Rightarrow> int \<Rightarrow> et_id \<Rightarrow> (int \<times> et_id) option" where
  "fill_gc 0 i index cnt eid = Some (ET_OK, eid)"
| "fill_gc (Suc n) i index cnt eid =
     (let groups = sc_groups (sy_config (id_sys eid)) in
      if cnt = 0 \<and> \<not> index < length groups then None
      else
        let (cnt1, index1) = (if cnt = 0 then (groups ! index, Suc index) else (cnt, index));
            eid1 = upd_event eid i (\<lambda>pe. pe\<lparr>ev_group := int index1\<rparr>)
        in case et_llist_write_gc (nevents_max eid1) (id_events eid1) (in_pl eid1 0) [i] 1 of
             None \<Rightarrow> None
           | Some (status, ev, pl) \<Rightarrow>
               let eid2 = set_in_pl (eid1\<lparr>id_events := ev\<rparr>) 0 pl in
               if status \<noteq> ET_OK then Some (ET_ERROR, eid2) else fill_gc n (Suc i) index1 (cnt1 - 1) eid2)"

definition et_grandcentral_station_create :: "start_env \<Rightarrow> et_id \<Rightarrow> (int \<times> et_id) option" where
  "et_grandcentral_station_create env eid =
     (case et_station_create (en_etr env) (en_loads env) (en_pid env) eid (Some ''GRAND_CENTRAL'') (Some grandcentral_config) of
        None \<Rightarrow> None
      | Some (status, sid, eid1) \<Rightarrow>
          if status \<noteq> ET_OK then Some (ET_ERROR, eid1)
          else case fill_gc (nat (nevents_max eid1)) 0 0 0 eid1 of
                 None \<Rightarrow> None
               | Some (status, eid2) \<Rightarrow>
                   if status \<noteq> ET_OK then Some (ET_ERROR, eid2)
                   else Some (ET_OK, conductor_start (en_loads env) (upd_stat eid2 0 et_init_stats_station)))"

section \<open>Start and end\<close>

text \<open>
  When GrandCentral cannot be made the id is freed and the memory is unmapped twice, which has no
  result. The five threads are the heart monitor, the heartbeat, the one that adds stations and the
  two network threads.
\<close>

definition start_memory :: "start_env \<Rightarrow> et_id \<Rightarrow> et_sys_config \<Rightarrow> (int \<times> et_id option) option" where
  "start_memory env eid config =
     (case et_init_mem_sys env eid config of
        None \<Rightarrow> None
      | Some eid1 \<Rightarrow>
          case et_init_mem_event (et_init_histogram (et_init_mem_station eid1)) of
            None \<Rightarrow> None
          | Some eid2 \<Rightarrow>
              case et_grandcentral_station_create env eid2 of
                None \<Rightarrow> None
              | Some (status, eid3) \<Rightarrow>
                  if status < 0 then None
                  else if \<not> list_all id (en_threads env) then Some (ET_ERROR, None)
                  else Some (ET_OK, Some (eid3\<lparr>id_debug := ET_DEBUG_ERROR, id_alive := True\<rparr>)))"

definition et_system_start :: "start_env \<Rightarrow> et_sys_config option \<Rightarrow> (int \<times> et_id option) option" where
  "et_system_start env sconfig =
     (case sconfig of
        None \<Rightarrow> None
      | Some config \<Rightarrow>
          let eid = (et_id_init (en_mem env))\<lparr>id_nevents := sc_nevents config, id_esize := sc_event_size config,
                      id_debug := ET_DEBUG_ERROR\<rparr>;
              (status, config1) = et_system_config_check config
          in if status \<noteq> ET_OK then Some (ET_ERROR, None)
             else if en_create env \<noteq> ET_OK \<and> en_create env \<noteq> ET_ERROR_EXISTS then Some (ET_ERROR, None)
             else if en_create env = ET_ERROR_EXISTS \<and> en_attach env \<noteq> ET_OK then Some (en_attach env, None)
             else if en_create env = ET_ERROR_EXISTS \<and> en_beats env then Some (ET_ERROR, None)
             else if en_create env = ET_ERROR_EXISTS \<and> en_remove env \<noteq> ET_OK then Some (en_remove env, None)
             else if en_create env = ET_ERROR_EXISTS \<and> en_recreate env \<noteq> ET_OK then Some (en_recreate env, None)
             else start_memory env eid config1)"

text \<open>What is left in the shared memory when the system process has closed the system.\<close>

definition kill_conductor :: "et_station \<Rightarrow> et_station" where
  "kill_conductor ps =
     (if sd_status (st_data ps) \<noteq> ET_STATION_UNUSED then ps\<lparr>st_conductor := ET_THREAD_KILL\<rparr> else ps)"

definition et_system_close :: "et_id \<Rightarrow> int \<times> et_id" where
  "et_system_close eid =
     (if id_proc eid \<noteq> ET_SYS then (ET_ERROR, eid)
      else
        let n = nat (nstations_max eid) in
        (ET_OK, eid\<lparr>id_sys := (id_sys eid)\<lparr>sy_asthread := ET_THREAD_KILL\<rparr>,
           id_stats := map kill_conductor (take n (id_stats eid)) @ drop n (id_stats eid)\<rparr>))"

section \<open>Filling GrandCentral\<close>

declare decimal.simps [simp del]

text \<open>The group numbers of the events in order, for groups of sizes \<open>gs\<close> numbered from \<open>k\<close>.\<close>

fun numbered :: "nat \<Rightarrow> int list \<Rightarrow> int list" where
  "numbered k [] = []"
| "numbered k (g # gs) = replicate (nat g) (int k) @ numbered (Suc k) gs"

lemma length_numbered: "\<forall>g \<in> set gs. 1 \<le> g \<Longrightarrow> int (length (numbered k gs)) = sum_list gs"
  by (induction k gs rule: numbered.induct) auto

definition but_links :: "et_event \<Rightarrow> et_event" where
  "but_links x = x\<lparr>ev_next := None, ev_group := 0\<rparr>"

lemma but_linksD: "but_links x = but_links y \<Longrightarrow> ev_owner x = ev_owner y \<and> ev_priority x = ev_priority y"
  by (cases x; cases y) (simp add: but_links_def)

lemma next_group:
  assumes "0 \<le> cnt" "\<forall>g \<in> set G. 1 \<le> g" "cnt + sum_list (drop index G) = int (Suc n)" "G = take m groups"
  obtains cnt1 index1 where "\<not> (cnt = 0 \<and> \<not> index < length groups)"
    "(if cnt = 0 then (groups ! index, Suc index) else (cnt, index)) = (cnt1, index1)" "1 \<le> cnt1"
    "cnt1 + sum_list (drop index1 G) = int (Suc n)"
    "replicate (nat cnt) (int index) @ numbered (Suc index) (drop index G) =
       replicate (nat cnt1) (int index1) @ numbered (Suc index1) (drop index1 G)"
proof (cases "cnt = 0")
  case True
  then have i: "index < length G" using assms(3) by (cases "index < length G") simp_all
  then have dr: "drop index G = groups ! index # drop (Suc index) G" using assms(4) by (simp add: Cons_nth_drop_Suc [symmetric])
  have "1 \<le> groups ! index" using i assms(2) nth_mem [OF i] by (simp add: assms(4))
  then show ?thesis using that [of "groups ! index" "Suc index"] True i assms(3,4) dr by simp
next
  case False
  then show ?thesis using that [of cnt index] assms by simp
qed

lemma fill_gc_spec:
  assumes "id_stats eid \<noteq> []" "list_ok (id_events eid) (in_pl eid 0) [0..<i]" "nevents_max eid = int (i + n)"
    "0 \<le> cnt" "\<forall>g \<in> set G. 1 \<le> g" "cnt + sum_list (drop index G) = int n" "G = take m (sc_groups (sy_config (id_sys eid)))"
  shows "\<exists>ev pl. fill_gc n i index cnt eid =
       Some (ET_OK, eid\<lparr>id_stats := (id_stats eid)[0 := (id_stats eid ! 0)\<lparr>st_list_in := pl\<rparr>], id_events := ev\<rparr>) \<and>
     list_ok ev pl [0..<i + n] \<and> l_mutex pl = l_mutex (in_pl eid 0) \<and> (\<forall>j. but_links (ev j) = but_links (id_events eid j)) \<and>
     (\<forall>j < i. ev_group (ev j) = ev_group (id_events eid j)) \<and>
     map (\<lambda>j. ev_group (ev j)) [i..<i + n] = replicate (nat cnt) (int index) @ numbered (Suc index) (drop index G)"
  using assms
proof (induction n arbitrary: i index cnt eid)
  case 0
  have p: "\<forall>x \<in> set (drop index G). 1 \<le> x" using 0(5) set_drop_subset [of index G] by blast
  then have "0 \<le> sum_list (drop index G)" by (intro sum_list_nonneg) force
  then have c: "cnt = 0" "sum_list (drop index G) = 0" using 0(4,6) by simp_all
  have d: "drop index G = []"
  proof (cases "drop index G")
    case (Cons g gs)
    then have "1 \<le> g" "0 \<le> sum_list gs" using p by (auto intro!: sum_list_nonneg)
    then show ?thesis using c(2) Cons by simp
  qed
  have "eid = eid\<lparr>id_stats := (id_stats eid)[0 := (id_stats eid ! 0)\<lparr>st_list_in := in_pl eid 0\<rparr>], id_events := id_events eid\<rparr>"
    by (simp add: in_pl_def)
  then have "fill_gc 0 i index cnt eid = Some (ET_OK,
      eid\<lparr>id_stats := (id_stats eid)[0 := (id_stats eid ! 0)\<lparr>st_list_in := in_pl eid 0\<rparr>], id_events := id_events eid\<rparr>)"
    by (simp only: fill_gc.simps)
  moreover have "list_ok (id_events eid) (in_pl eid 0) [0..<i + 0]" using 0(2) by simp
  moreover have "map (\<lambda>j. ev_group (id_events eid j)) [i..<i + 0] = replicate (nat cnt) (int index) @ numbered (Suc index) (drop index G)"
    by (simp add: c d)
  ultimately show ?case by blast
next
  case (Suc n)
  obtain cnt1 index1 where g: "\<not> (cnt = 0 \<and> \<not> index < length (sc_groups (sy_config (id_sys eid))))"
    "(if cnt = 0 then (sc_groups (sy_config (id_sys eid)) ! index, Suc index) else (cnt, index)) = (cnt1, index1)" "1 \<le> cnt1"
    "cnt1 + sum_list (drop index1 G) = int (Suc n)"
    "replicate (nat cnt) (int index) @ numbered (Suc index) (drop index G) =
       replicate (nat cnt1) (int index1) @ numbered (Suc index1) (drop index1 G)"
    using next_group [OF Suc.prems(4-7)] by blast
  let ?e1 = "upd_event eid i (\<lambda>pe. pe\<lparr>ev_group := int index1\<rparr>)"
  have l1: "list_ok (id_events ?e1) (in_pl eid 0) [0..<i]"
    using Suc.prems(2) by (subst list_ok_same) (simp_all add: upd_event_def)
  from et_llist_write_gc_list_ok [OF this, of "[i]" "nevents_max eid"] Suc.prems(3) obtain ev pl where
    w: "et_llist_write_gc (nevents_max eid) (id_events ?e1) (in_pl eid 0) [i] 1 = Some (ET_OK, ev, pl)"
      "next_only (set ([0..<i] @ [i])) (id_events ?e1) ev" "list_ok ev pl [0..<Suc i]" "l_mutex pl = l_mutex (in_pl eid 0)"
    by (auto simp: list_ok_def)
  have c: "but_links (ev j) = but_links (id_events eid j)" for j
  proof -
    have "(ev j)\<lparr>ev_next := None\<rparr> = (id_events ?e1 j)\<lparr>ev_next := None\<rparr>" using w(2) by (simp add: next_only_def)
    from arg_cong [OF this, of "\<lambda>x. x\<lparr>ev_group := 0\<rparr>"] show ?thesis by (simp add: but_links_def upd_event_def split: if_splits)
  qed
  have gr: "ev_group (ev j) = (if j = i then int index1 else ev_group (id_events eid j))" for j
    using next_onlyD(4) [OF w(2)] by (simp add: upd_event_def)
  let ?e2 = "set_in_pl (?e1\<lparr>id_events := ev\<rparr>) 0 pl"
  have e2: "id_stats ?e2 = (id_stats eid)[0 := (id_stats eid ! 0)\<lparr>st_list_in := pl\<rparr>]" "id_events ?e2 = ev" "id_sys ?e2 = id_sys eid"
    "nevents_max ?e2 = nevents_max eid"
    by (simp_all add: set_in_pl_def upd_stat_def upd_event_def nevents_max_def)
  have p2: "in_pl ?e2 0 = pl" using Suc.prems(1) by (simp add: in_pl_def e2)
  have f: "fill_gc (Suc n) i index cnt eid = fill_gc n (Suc i) index1 (cnt1 - 1) ?e2"
    using g(1,2) w(1) by (auto simp: Let_def in_pl_def upd_event_def nevents_max_def)
  have "\<exists>ev' pl'. fill_gc n (Suc i) index1 (cnt1 - 1) ?e2 =
       Some (ET_OK, ?e2\<lparr>id_stats := (id_stats ?e2)[0 := (id_stats ?e2 ! 0)\<lparr>st_list_in := pl'\<rparr>], id_events := ev'\<rparr>) \<and>
     list_ok ev' pl' [0..<Suc i + n] \<and> l_mutex pl' = l_mutex (in_pl ?e2 0) \<and> (\<forall>j. but_links (ev' j) = but_links (id_events ?e2 j)) \<and>
     (\<forall>j < Suc i. ev_group (ev' j) = ev_group (id_events ?e2 j)) \<and>
     map (\<lambda>j. ev_group (ev' j)) [Suc i..<Suc i + n] = replicate (nat (cnt1 - 1)) (int index1) @ numbered (Suc index1) (drop index1 G)"
    by (rule Suc.IH) (use Suc.prems g(3,4) w(3) p2 e2 in simp_all)
  then obtain ev' pl' where r: "fill_gc n (Suc i) index1 (cnt1 - 1) ?e2 =
       Some (ET_OK, ?e2\<lparr>id_stats := (id_stats ?e2)[0 := (id_stats ?e2 ! 0)\<lparr>st_list_in := pl'\<rparr>], id_events := ev'\<rparr>)"
     "list_ok ev' pl' [0..<Suc i + n]" "l_mutex pl' = l_mutex (in_pl ?e2 0)" "\<forall>j. but_links (ev' j) = but_links (id_events ?e2 j)"
     "\<forall>j < Suc i. ev_group (ev' j) = ev_group (id_events ?e2 j)"
     "map (\<lambda>j. ev_group (ev' j)) [Suc i..<Suc i + n] = replicate (nat (cnt1 - 1)) (int index1) @ numbered (Suc index1) (drop index1 G)"
    by blast
  have "?e2\<lparr>id_stats := (id_stats ?e2)[0 := (id_stats ?e2 ! 0)\<lparr>st_list_in := pl'\<rparr>], id_events := ev'\<rparr> =
      eid\<lparr>id_stats := (id_stats eid)[0 := (id_stats eid ! 0)\<lparr>st_list_in := pl'\<rparr>], id_events := ev'\<rparr>"
    using Suc.prems(1) by (simp add: set_in_pl_def upd_stat_def upd_event_def)
  moreover have "map (\<lambda>j. ev_group (ev' j)) [i..<i + Suc n] = replicate (nat cnt1) (int index1) @ numbered (Suc index1) (drop index1 G)"
  proof -
    have "nat cnt1 = Suc (nat (cnt1 - 1))" using g(3) by simp
    moreover have "[i..<i + Suc n] = i # [Suc i..<Suc i + n]" by (simp add: upt_rec)
    ultimately show ?thesis using r(5,6) gr [of i] by (simp add: e2)
  qed
  moreover have "\<forall>j < i. ev_group (ev' j) = ev_group (id_events eid j)" using r(5) gr by (simp add: e2)
  ultimately show ?case using r(1-4) w(4) c unfolding f g(5)
    by (intro exI [of _ ev'] exI [of _ pl']) (simp add: e2 p2)
qed

section \<open>The started system\<close>

text \<open>
  What the theorems ask of the environment: the memory is laid out for the configuration, it could be
  created (or an abandoned file be replaced), the host has a name and all threads start.
\<close>

definition start_layout :: "start_env \<Rightarrow> et_sys_config \<Rightarrow> bool" where
  "start_layout env config \<longleftrightarrow> length (id_stats (en_mem env)) = nat (sc_nstations config) \<and>
     length (id_histogram (en_mem env)) = nat (sc_nevents config + 1) \<and>
     length (sy_proc (id_sys (en_mem env))) = ET_PROCESSES_MAX \<and> length (sy_attach (id_sys (en_mem env))) = ET_ATTACHMENTS_MAX"

definition start_possible :: "start_env \<Rightarrow> bool" where
  "start_possible env \<longleftrightarrow> en_host env \<noteq> None \<and> list_all id (en_threads env) \<and>
     (en_create env = ET_OK \<or> en_create env = ET_ERROR_EXISTS \<and> en_attach env = ET_OK \<and> \<not> en_beats env \<and>
        en_remove env = ET_OK \<and> en_recreate env = ET_OK)"

lemma decimal_length: "i < 10 ^ Suc k \<Longrightarrow> length (decimal i) \<le> Suc k"
proof (induction k arbitrary: i)
  case 0
  then show ?case by (simp add: decimal.simps [of i])
next
  case (Suc k)
  then have "length (decimal (i div 10)) \<le> Suc k" by (simp add: less_mult_imp_div_less)
  then show ?case by (subst decimal.simps) simp
qed

lemma temp_names_fit:
  assumes "length filename \<le> ET_FILENAME_LENGTH - 1" "n \<le> 10000000"
  shows "\<not> list_ex (\<lambda>i. length (temp_name filename i) \<ge> ET_TEMPNAME_LENGTH) [0..<n]"
proof -
  have "length (temp_name filename i) < ET_TEMPNAME_LENGTH" if "i < n" for i
    using decimal_length [of i 6] that assms by (simp add: temp_name_def)
  then show ?thesis unfolding list_ex_iff by (metis atLeastLessThan_iff not_le set_upt)
qed

lemma grandcentral_config_simps [simp]:
  "cf_init grandcentral_config = ET_STRUCT_OK" "cf_flow_mode grandcentral_config = ET_STATION_SERIAL"
  "cf_select_mode grandcentral_config = ET_STATION_SELECT_ALL" "cf_restore_mode grandcentral_config = ET_STATION_RESTORE_GC"
  "cf_user_mode grandcentral_config = ET_STATION_USER_MULTI" "cf_block_mode grandcentral_config = ET_STATION_BLOCKING"
  "cf_prescale grandcentral_config = 1"
  by (simp_all add: grandcentral_config_def setter_defs config_set_def et_station_config_init_def)

lemma mem_station_simps [simp]:
  "sd_status (st_data (mem_station ps)) = ET_STATION_UNUSED" "l_mutex (st_list_in (mem_station ps)) = False"
  "l_mutex (st_list_out (mem_station ps)) = False" "list_ok ev (st_list_in (mem_station ps)) []"
  "list_ok ev (st_list_out (mem_station ps)) []" "l_lasthigh (st_list_out (mem_station ps)) = 0"
  "l_cnt (st_list_in (mem_station ps)) = 0" "l_cnt (st_list_out (mem_station ps)) = 0" "sd_nattachments (st_data (mem_station ps)) = 0" "sd_att (st_data (mem_station ps)) = replicate ET_ATTACHMENTS_MAX (-1)"
  by (simp_all add: mem_station_def et_init_station_def et_init_llist_def list_ok_def)

text \<open>GrandCentral as the start leaves it, with the events in \<open>pl\<close>.\<close>

definition gc_station :: "int \<Rightarrow> et_list \<Rightarrow> et_station \<Rightarrow> et_station" where
  "gc_station pid pl ps = set_status ET_STATION_ACTIVE (et_init_stats_station
     ((new_station pid 0 ''GRAND_CENTRAL'' grandcentral_config (mem_station ps))\<lparr>st_list_in := pl\<rparr>))"

lemma gc_station_simps [simp]:
  "st_num (gc_station pid pl ps) = 0" "st_next (gc_station pid pl ps) = -1" "st_prev (gc_station pid pl ps) = -1"
  "sd_status (st_data (gc_station pid pl ps)) = ET_STATION_ACTIVE" "sd_nattachments (st_data (gc_station pid pl ps)) = 0"
  "sd_att (st_data (gc_station pid pl ps)) = replicate ET_ATTACHMENTS_MAX (-1)"
  "l_mutex (st_list_in (gc_station pid pl ps)) = l_mutex pl" "l_mutex (st_list_out (gc_station pid pl ps)) = False"
  "list_ok ev (st_list_in (gc_station pid pl ps)) xs = list_ok ev pl xs"
  "list_ok ev (st_list_out (gc_station pid pl ps)) []" "l_lasthigh (st_list_out (gc_station pid pl ps)) = 0"
  "l_cnt (st_list_out (gc_station pid pl ps)) = 0"
  by (simp_all add: gc_station_def et_init_stats_station_def set_status_def new_station_def mem_station_def et_init_station_def
      et_init_llist_def list_ok_def Let_def)

lemma create_grandcentral:
  assumes "id_stats eid = ps # stats" "sd_status (st_data ps) = ET_STATION_UNUSED" "nstations_max eid = int (length (ps # stats))"
    "sy_nstations (id_sys eid) = 0" "0 \<le> sc_nattachments (sy_config (id_sys eid))" "id_locality eid = ET_LOCAL"
    "\<not> id_alive eid" "\<not> id_closed eid"
  shows "et_station_create etr loads pid eid (Some ''GRAND_CENTRAL'') (Some grandcentral_config) =
     Some (ET_OK, None, upd_stat (add_nstations 1 eid) 0 (new_station pid 0 ''GRAND_CENTRAL'' grandcentral_config))"
  using assms
  by (simp add: et_station_create_def et_station_create_at_def et_station_config_check_def station_create_local_def)


lemma map_take_all: "length xs = n \<Longrightarrow> map f (take n xs) @ drop n xs = map f xs"
  by simp

lemma start_memory_ok:
  assumes l: "start_layout env config" and p: "en_host env \<noteq> None" "list_all id (en_threads env)"
    and c: "1 \<le> sc_nevents config" "sc_nevents config \<le> 10000000" "1 \<le> sc_nstations config" "0 \<le> sc_nattachments config"
      "sc_nattachments config \<le> int ET_ATTACHMENTS_MAX"
      "length (sc_filename config) \<le> ET_FILENAME_LENGTH - 1" "groups_total config = sc_nevents config"
      "\<forall>g \<in> set (take (nat (sc_groupCount config)) (sc_groups config)). 1 \<le> g"
    and e: "id_sys eid = id_sys (en_mem env)" "id_stats eid = id_stats (en_mem env)" "id_histogram eid = id_histogram (en_mem env)"
      "id_nevents eid = sc_nevents config" "id_locality eid = ET_LOCAL" "\<not> id_alive eid" "\<not> id_closed eid"
  shows "\<exists>eid' ev pl. start_memory env eid config = Some (ET_OK, Some eid') \<and>
     id_stats eid' = gc_station (en_pid env) pl (hd (id_stats eid)) # map mem_station (tl (id_stats eid)) \<and>
     id_events eid' = ev \<and> list_ok ev pl [0..<nat (sc_nevents config)] \<and> \<not> l_mutex pl \<and>
     (\<forall>j < nat (sc_nevents config). ev_owner (ev j) = ET_SYS \<and> ev_priority (ev j) = ET_LOW) \<and>
     map (\<lambda>j. ev_group (ev j)) [0..<nat (sc_nevents config)] = numbered 1 (take (nat (sc_groupCount config)) (sc_groups config)) \<and>
     id_histogram eid' = replicate (nat (sc_nevents config + 1)) 0 \<and> sy_config (id_sys eid') = config \<and>
     sy_nstations (id_sys eid') = 1 \<and> sy_stat_tail (id_sys eid') = 0 \<and> sy_nattachments (id_sys eid') = 0 \<and>
     sy_nprocesses (id_sys eid') = 0 \<and> sy_stat_head (id_sys eid') = 0 \<and>
     sy_proc (id_sys eid') = map et_init_process (sy_proc (id_sys eid)) \<and>
     sy_attach (id_sys eid') = map et_init_attachment (sy_attach (id_sys eid)) \<and>
     id_locality eid' = ET_LOCAL \<and> id_alive eid' \<and> \<not> id_closed eid' \<and> id_proc eid' = id_proc eid"
proof -
  let ?n = "nat (sc_nevents config)"
  obtain host where h: "en_host env = Some host" using p(1) by blast
  have len: "int (length (id_stats eid)) = sc_nstations config" using l e(2) c(3) by (simp add: start_layout_def)
  then have "id_stats eid \<noteq> []" using c(3) by auto
  then obtain ps stats where st: "id_stats eid = ps # stats" by (meson list.exhaust)
  have ln: "int (length (ps # stats)) = sc_nstations config" using len by (simp only: st)
  obtain eid1 where e1: "et_init_mem_sys env eid config = Some eid1" and
    f1: "id_stats eid1 = ps # stats" "id_histogram eid1 = id_histogram eid" "id_nevents eid1 = sc_nevents config"
      "sy_config (id_sys eid1) = config" "sy_nstations (id_sys eid1) = 0" "sy_stat_tail (id_sys eid1) = 0"
      "sy_nattachments (id_sys eid1) = 0" "sy_nprocesses (id_sys eid1) = 0" "sy_stat_head (id_sys eid1) = 0"
      "sy_proc (id_sys eid1) = map et_init_process (sy_proc (id_sys eid))"
      "sy_attach (id_sys eid1) = map et_init_attachment (sy_attach (id_sys eid))"
      "id_locality eid1 = ET_LOCAL" "\<not> id_alive eid1" "\<not> id_closed eid1" "id_proc eid1 = id_proc eid"
    using h st e l by (auto simp: et_init_mem_sys_def Let_def start_layout_def)
  have nm: "nstations_max eid1 = int (length (ps # stats))" using ln by (simp add: nstations_max_def f1)
  define eid2 where "eid2 = et_init_histogram (et_init_mem_station eid1)"
  have f2: "id_stats eid2 = map mem_station (ps # stats)" "id_histogram eid2 = replicate (nat (sc_nevents config + 1)) 0"
    "id_sys eid2 = id_sys eid1" "id_locality eid2 = ET_LOCAL" "\<not> id_alive eid2" "\<not> id_closed eid2" "id_proc eid2 = id_proc eid"
    using l e(3) by (simp_all add: eid2_def et_init_histogram_def et_init_mem_station_def nm f1 Let_def start_layout_def)
  let ?ev = "\<lambda>i. if i < ?n then mem_event (sc_filename config) i (id_events eid2 i) else id_events eid2 i"
  define eid3 where "eid3 = eid2\<lparr>id_events := ?ev\<rparr>"
  have e3: "et_init_mem_event eid2 = Some eid3"
  proof -
    have n: "nevents_max eid2 = sc_nevents config" by (simp add: nevents_max_def f1 f2)
    have "\<not> list_ex (\<lambda>i. length (temp_name (sc_filename config) i) \<ge> ET_TEMPNAME_LENGTH) [0..<?n]"
      by (rule temp_names_fit) (use c in auto)
    then show ?thesis unfolding et_init_mem_event_def Let_def n f1(4) f2(3) eid3_def by (simp only: if_False)
  qed
  define eid4 where "eid4 = upd_stat (add_nstations 1 eid3) 0 (new_station (en_pid env) 0 ''GRAND_CENTRAL'' grandcentral_config)"
  have cr: "et_station_create (en_etr env) (en_loads env) (en_pid env) eid3 (Some ''GRAND_CENTRAL'') (Some grandcentral_config) =
      Some (ET_OK, None, eid4)"
    unfolding eid4_def by (rule create_grandcentral [where ps = "mem_station ps" and stats = "map mem_station stats"])
      (use c(4) ln in \<open>simp_all add: eid3_def f1 f2 nstations_max_def\<close>)
  have f4: "id_stats eid4 = new_station (en_pid env) 0 ''GRAND_CENTRAL'' grandcentral_config (mem_station ps) # map mem_station stats"
    "id_events eid4 = ?ev" "id_histogram eid4 = replicate (nat (sc_nevents config + 1)) 0" "sy_config (id_sys eid4) = config"
    "sy_nstations (id_sys eid4) = 1" "sy_stat_tail (id_sys eid4) = 0" "sy_nattachments (id_sys eid4) = 0"
    "sy_nprocesses (id_sys eid4) = 0" "sy_stat_head (id_sys eid4) = 0"
    "sy_proc (id_sys eid4) = map et_init_process (sy_proc (id_sys eid))"
    "sy_attach (id_sys eid4) = map et_init_attachment (sy_attach (id_sys eid))" "id_locality eid4 = ET_LOCAL"
    "\<not> id_closed eid4" "id_proc eid4 = id_proc eid"
    by (simp_all add: eid4_def eid3_def add_nstations_def upd_stat_def f1 f2)
  have ip: "in_pl eid4 0 = st_list_in (mem_station ps)"
    by (simp add: in_pl_def f4 new_station_def mem_station_def et_init_station_def et_init_llist_def Let_def)
  have nv: "nevents_max eid4 = sc_nevents config" by (simp add: nevents_max_def f4)
  have "\<exists>ev pl. fill_gc ?n 0 0 0 eid4 =
       Some (ET_OK, eid4\<lparr>id_stats := (id_stats eid4)[0 := (id_stats eid4 ! 0)\<lparr>st_list_in := pl\<rparr>], id_events := ev\<rparr>) \<and>
     list_ok ev pl [0..<0 + ?n] \<and> l_mutex pl = l_mutex (in_pl eid4 0) \<and> (\<forall>j. but_links (ev j) = but_links (id_events eid4 j)) \<and>
     (\<forall>j < 0. ev_group (ev j) = ev_group (id_events eid4 j)) \<and>
     map (\<lambda>j. ev_group (ev j)) [0..<0 + ?n] = replicate (nat 0) (int 0) @
       numbered (Suc 0) (drop 0 (take (nat (sc_groupCount config)) (sc_groups config)))"
    by (rule fill_gc_spec [where m = "nat (sc_groupCount config)"])
      (use c in \<open>simp_all add: f4(1,4) ip nv groups_total_def\<close>)
  then obtain ev pl where fl: "fill_gc ?n 0 0 0 eid4 =
       Some (ET_OK, eid4\<lparr>id_stats := (id_stats eid4)[0 := (id_stats eid4 ! 0)\<lparr>st_list_in := pl\<rparr>], id_events := ev\<rparr>)"
    "list_ok ev pl [0..<?n]" "\<not> l_mutex pl" "\<And>j. but_links (ev j) = but_links (?ev j)"
    "map (\<lambda>j. ev_group (ev j)) [0..<?n] = numbered 1 (take (nat (sc_groupCount config)) (sc_groups config))"
    by (auto simp: f4(2) ip)
  let ?eid5 = "upd_stat (eid4\<lparr>id_stats := (id_stats eid4)[0 := (id_stats eid4 ! 0)\<lparr>st_list_in := pl\<rparr>], id_events := ev\<rparr>) 0
    et_init_stats_station"
  let ?gc = "et_init_stats_station ((new_station (en_pid env) 0 ''GRAND_CENTRAL'' grandcentral_config (mem_station ps))\<lparr>st_list_in := pl\<rparr>)"
  have s5: "id_stats ?eid5 = ?gc # map mem_station stats" by (simp add: f4(1))
  have k: "sd_status (st_data ?gc) = ET_STATION_CREATING" "st_config ?gc = grandcentral_config"
    by (simp_all add: et_init_stats_station_def)
  have "conductor_start (en_loads env) ?eid5 = upd_stat ?eid5 0 (set_status ET_STATION_ACTIVE)"
  proof -
    have "nat (nstations_max ?eid5) = Suc (length stats)" using ln by (simp add: nstations_max_def f4(4))
    then have "find_status (take (nat (nstations_max ?eid5)) (id_stats ?eid5)) ET_STATION_CREATING 0 = Some 0"
      by (simp add: s5 k del: upd_stat_simps)
    then show ?thesis by (simp add: conductor_start_def Let_def s5 k del: upd_stat_simps)
  qed
  then have gc: "et_grandcentral_station_create env eid3 = Some (ET_OK, upd_stat ?eid5 0 (set_status ET_STATION_ACTIVE))"
    unfolding et_grandcentral_station_create_def cr by (simp add: nv fl(1))
  let ?final = "(upd_stat ?eid5 0 (set_status ET_STATION_ACTIVE))\<lparr>id_debug := ET_DEBUG_ERROR, id_alive := True\<rparr>"
  have "start_memory env eid config = Some (ET_OK, Some ?final)"
    using e3 gc p(2) unfolding start_memory_def e1 eid2_def by simp
  moreover have "id_stats ?final = gc_station (en_pid env) pl (hd (id_stats eid)) # map mem_station (tl (id_stats eid))"
    by (simp add: f4(1) st gc_station_def)
  moreover have "ev_owner (ev j) = ET_SYS \<and> ev_priority (ev j) = ET_LOW" if "j < ?n" for j
    using but_linksD [OF fl(4) [of j]] that by (simp add: mem_event_def et_init_event_def)
  moreover have "sy_config (id_sys ?final) = config" "id_events ?final = ev" "id_histogram ?final = replicate (nat (sc_nevents config + 1)) 0"
    "sy_nstations (id_sys ?final) = 1" "sy_stat_tail (id_sys ?final) = 0" "sy_nattachments (id_sys ?final) = 0"
    "sy_nprocesses (id_sys ?final) = 0" "sy_stat_head (id_sys ?final) = 0"
    "sy_proc (id_sys ?final) = map et_init_process (sy_proc (id_sys eid))"
    "sy_attach (id_sys ?final) = map et_init_attachment (sy_attach (id_sys eid))"
    "id_locality ?final = ET_LOCAL" "id_alive ?final" "\<not> id_closed ?final" "id_proc ?final = id_proc eid"
    by (simp_all add: upd_stat_def f4)
  ultimately show ?thesis using fl(2,3,5) by (intro exI [of _ ?final] exI [of _ ev] exI [of _ pl]) blast
qed


lemma config_check_accepts:
  assumes "et_system_config_check config = (ET_OK, config1)"
  shows "config1 = config\<lparr>sc_filename := take (ET_FILENAME_LENGTH - 1) (sc_filename config)\<rparr>"
    "1 \<le> sc_nevents config" "groups_total config = sc_nevents config" "1 \<le> sc_nstations config"
    "1 \<le> sc_nattachments config" "sc_nattachments config \<le> int ET_ATTACHMENTS_MAX" "1 \<le> sc_nprocesses config"
    "sc_nprocesses config \<le> int ET_PROCESSES_MAX"
  using assms by (auto simp: et_system_config_check_def groups_total_def split: if_splits)

lemma system_start_result:
  assumes l: "start_layout env config" and p: "start_possible env"
    and c: "et_system_config_check config = (ET_OK, config1)" "sc_nevents config \<le> 10000000"
      "\<forall>g \<in> set (take (nat (sc_groupCount config)) (sc_groups config)). 1 \<le> g"
  shows "\<exists>eid ev pl. et_system_start env (Some config) = Some (ET_OK, Some eid) \<and>
     id_stats eid = gc_station (en_pid env) pl (hd (id_stats (en_mem env))) # map mem_station (tl (id_stats (en_mem env))) \<and>
     id_events eid = ev \<and> list_ok ev pl [0..<nat (sc_nevents config)] \<and> \<not> l_mutex pl \<and>
     (\<forall>j < nat (sc_nevents config). ev_owner (ev j) = ET_SYS \<and> ev_priority (ev j) = ET_LOW) \<and>
     map (\<lambda>j. ev_group (ev j)) [0..<nat (sc_nevents config)] = numbered 1 (take (nat (sc_groupCount config)) (sc_groups config)) \<and>
     id_histogram eid = replicate (nat (sc_nevents config + 1)) 0 \<and> sy_config (id_sys eid) = config1 \<and>
     sy_nstations (id_sys eid) = 1 \<and> sy_stat_tail (id_sys eid) = 0 \<and> sy_nattachments (id_sys eid) = 0 \<and>
     sy_nprocesses (id_sys eid) = 0 \<and> sy_stat_head (id_sys eid) = 0 \<and>
     sy_proc (id_sys eid) = map et_init_process (sy_proc (id_sys (en_mem env))) \<and>
     sy_attach (id_sys eid) = map et_init_attachment (sy_attach (id_sys (en_mem env))) \<and>
     id_locality eid = ET_LOCAL \<and> id_alive eid \<and> \<not> id_closed eid \<and> id_proc eid = ET_SYS"
proof -
  note k = config_check_accepts [OF c(1)]
  define eid where "eid = (et_id_init (en_mem env))\<lparr>id_nevents := sc_nevents config, id_esize := sc_event_size config,
      id_debug := ET_DEBUG_ERROR\<rparr>"
  have e: "id_sys eid = id_sys (en_mem env)" "id_stats eid = id_stats (en_mem env)" "id_histogram eid = id_histogram (en_mem env)"
    "id_nevents eid = sc_nevents config1" "id_locality eid = ET_LOCAL" "\<not> id_alive eid" "\<not> id_closed eid" "id_proc eid = ET_SYS"
    by (simp_all add: eid_def et_id_init_def k(1))
  have l1: "start_layout env config1" using l by (simp add: start_layout_def k(1))
  have s: "et_system_start env (Some config) = start_memory env eid config1"
    using p c(1) by (auto simp: et_system_start_def start_possible_def eid_def)
  have q: "en_host env \<noteq> None" "list_all id (en_threads env)" using p by (simp_all add: start_possible_def)
  have "groups_total config1 = groups_total config" by (simp add: groups_total_def k(1))
  then show ?thesis
    using start_memory_ok [OF l1 q, of eid] e k c(2,3) unfolding s by (simp add: k(1))
qed

lemma started_events_ok:
  assumes "id_stats eid = gc_station pid pl ps # map mem_station stats" "list_ok (id_events eid) pl [0..<n]" "\<not> l_mutex pl"
    "\<forall>j < n. ev_owner (id_events eid j) = ET_SYS \<and> ev_priority (id_events eid j) = ET_LOW"
    "nevents_max eid = int n" "length (id_histogram eid) = Suc n"
  shows "events_ok eid (\<lambda>t. if t = 0 then [0..<n] else [])"
proof -
  let ?Q = "\<lambda>t. if t = (0 :: nat) then [0..<n] else []"
  have legal: "legal_events eid (?Q t)" for t using assms(4,5) by (simp add: legal_events_def pri_ok_def)
  have "lists_ok eid ?Q []" unfolding lists_ok_def
  proof (intro conjI allI impI)
    fix t assume t: "t < length (id_stats eid)"
    then have "length (id_stats eid) + t \<noteq> 0" by linarith
    then have q: "?Q (length (id_stats eid) + t) = []" by (simp only: if_False)
    have hn: "hi_first ev []" for ev by (simp add: hi_first_def)
    show "list_ok (id_events eid) (in_pl eid t) (?Q t)" "\<not> l_mutex (in_pl eid t)"
      by (cases t; use t assms(1-3) in \<open>simp add: in_pl_def\<close>)+
    show "\<not> l_mutex (out_pl eid t)" by (cases t; use t assms(1) in \<open>simp add: out_pl_def\<close>)
    show "out_ok (id_events eid) (out_pl eid t) (?Q (length (id_stats eid) + t))"
      unfolding q by (cases t; use t assms(1) in \<open>simp add: out_pl_def out_ok_def hn\<close>)
    show "hi_first (id_events eid) (?Q t)" if "0 < t" using that by (simp add: hn)
  next
    show "apart (length (id_stats eid) + length (id_stats eid)) ?Q []" by (auto simp: apart_def)
  qed (use legal legal [of 1] in simp_all)
  moreover have "in_lists eid ?Q e \<longleftrightarrow> e < n" for e using assms(1) by (auto simp: in_lists_def)
  ultimately show ?thesis using assms(4-6) by (simp add: events_ok_def legal_pri_def)
qed

lemma started_tables:
  assumes "id_stats eid = gc_station pid pl ps # map mem_station stats" "nstations_max eid = int (length (id_stats eid))"
    "sy_nstations (id_sys eid) = 1" "sy_stat_tail (id_sys eid) = 0" "sy_nattachments (id_sys eid) = 0"
    "sy_attach (id_sys eid) = map et_init_attachment as" "length as = ET_ATTACHMENTS_MAX" "id_locality eid = ET_LOCAL"
    "0 \<le> sc_nattachments (sy_config (id_sys eid))" "sc_nattachments (sy_config (id_sys eid)) \<le> int ET_ATTACHMENTS_MAX"
  shows "tables eid []"
proof -
  have "live eid = {}" by (auto simp: live_def assms(6) et_init_attachment_def)
  then have lv: "live eid = {}" "\<And>s. atts_of eid s = {}" by (simp_all add: atts_of_def)
  have st: "sd_nattachments (st_data (id_stats eid ! s)) = 0 \<and> sd_att (st_data (id_stats eid ! s)) = replicate ET_ATTACHMENTS_MAX (-1)"
    if "s < length (id_stats eid)" for s using that assms(1) by (cases s) simp_all
  have "att_table eid (set (0 # concat []))"
    unfolding att_table_def lv using assms(1,5-7,9,10) st by simp
  moreover have "station_table eid []" unfolding station_table_def
  proof (intro conjI allI impI)
    show "chain_ok (id_stats eid) (sy_stat_tail (id_sys eid)) []"
      using assms(1,4) by (simp add: chain_ok_def members_ok_def main_ok_def)
    fix t assume "t < length (id_stats eid)"
    then show "if t \<in> set (0 # concat []) then in_chain (id_stats eid ! t) else sd_status (st_data (id_stats eid ! t)) = ET_STATION_UNUSED"
      using assms(1) by (cases t) (simp_all add: in_chain_def)
  qed (use assms(2,3) in simp_all)
  ultimately show ?thesis using assms(8) by (simp add: tables_def)
qed

text \<open>
  C5. Starting a system with a configuration that passes the check and has no empty group, with up to
  ten million events, when the shared memory can be made and the threads start, succeeds: the system
  is alive, GrandCentral is its only station, no attachment is in use, all events are in
  GrandCentral's input list in order and in no other, every event is the system's and has low
  priority, and the first events are in group 1, the next in group 2 and so on, as many as the
  configuration says.
\<close>

theorem system_start_establishes:
  assumes "start_layout env config" and "start_possible env"
    and "et_system_config_check config = (ET_OK, config1)" and "sc_nevents config \<le> 10000000"
    and "\<forall>g \<in> set (take (nat (sc_groupCount config)) (sc_groups config)). 1 \<le> g"
  shows "\<exists>eid. et_system_start env (Some config) = Some (ET_OK, Some eid) \<and> id_alive eid \<and> sy_config (id_sys eid) = config1 \<and>
     tables eid [] \<and> events_ok eid (\<lambda>t. if t = 0 then [0..<nat (sc_nevents config)] else []) \<and>
     (\<forall>j < nat (sc_nevents config). ev_owner (id_events eid j) = ET_SYS \<and> ev_priority (id_events eid j) = ET_LOW) \<and>
     map (\<lambda>j. ev_group (id_events eid j)) [0..<nat (sc_nevents config)] =
       numbered 1 (take (nat (sc_groupCount config)) (sc_groups config))"
proof -
  note k = config_check_accepts [OF assms(3)]
  obtain eid ev pl where s: "et_system_start env (Some config) = Some (ET_OK, Some eid)"
    "id_stats eid = gc_station (en_pid env) pl (hd (id_stats (en_mem env))) # map mem_station (tl (id_stats (en_mem env)))"
    "id_events eid = ev" "list_ok ev pl [0..<nat (sc_nevents config)]" "\<not> l_mutex pl"
    "\<forall>j < nat (sc_nevents config). ev_owner (ev j) = ET_SYS \<and> ev_priority (ev j) = ET_LOW"
    "map (\<lambda>j. ev_group (ev j)) [0..<nat (sc_nevents config)] = numbered 1 (take (nat (sc_groupCount config)) (sc_groups config))"
    "id_histogram eid = replicate (nat (sc_nevents config + 1)) 0" "sy_config (id_sys eid) = config1"
    "sy_nstations (id_sys eid) = 1" "sy_stat_tail (id_sys eid) = 0" "sy_nattachments (id_sys eid) = 0"
    "sy_attach (id_sys eid) = map et_init_attachment (sy_attach (id_sys (en_mem env)))"
    "id_locality eid = ET_LOCAL" "id_alive eid"
    using system_start_result [OF assms] by blast
  have len: "length (id_stats eid) = nat (sc_nstations config)"
    using assms(1) k(4) by (simp add: s(2) start_layout_def)
  have T: "tables eid []"
    by (rule started_tables [OF s(2) _ s(10-13)]) (use s(9,14) len k assms(1) in \<open>simp_all add: nstations_max_def start_layout_def\<close>)
  have E: "events_ok eid (\<lambda>t. if t = 0 then [0..<nat (sc_nevents config)] else [])"
  proof (rule started_events_ok [OF s(2) _ s(5)])
    show "list_ok (id_events eid) pl [0..<nat (sc_nevents config)]" unfolding s(3) by (rule s(4))
    show "\<forall>j < nat (sc_nevents config). ev_owner (id_events eid j) = ET_SYS \<and> ev_priority (id_events eid j) = ET_LOW"
      unfolding s(3) by (rule s(6))
    show "nevents_max eid = int (nat (sc_nevents config))" "length (id_histogram eid) = Suc (nat (sc_nevents config))"
      using k(2) unfolding nevents_max_def s(8,9) k(1) by (simp_all add: nat_add_distrib)
  qed
  show ?thesis by (intro exI [of _ eid] conjI s(1,9,15) T E; unfold s(3)) (rule s(6,7))+
qed


section \<open>A sample system\<close>

definition sample_proc :: et_proc where
  "sample_proc = et_init_process \<lparr>pr_num = 0, pr_att = [], pr_time = 0, pr_nattachments = 0, pr_status = 0, pr_et_status = 0,
     pr_heartbeat = 0, pr_pid = 0\<rparr>"

definition sample_startconfig :: et_sys_config where
  "sample_startconfig = sample_sysconfig\<lparr>sc_nevents := 4, sc_ntemps := 4, sc_nstations := 3, sc_groupCount := 2, sc_groups := [3, 1]\<rparr>"

definition sample_env :: start_env where
  "sample_env = \<lparr>en_create = ET_OK, en_attach = ET_OK, en_beats = False, en_remove = ET_OK, en_recreate = ET_OK,
     en_mem = (let e = sample_id 4 [sample_station, sample_station, sample_station] (sample_heap [2]) in
       e\<lparr>id_sys := (id_sys e)\<lparr>sy_proc := replicate ET_PROCESSES_MAX sample_proc, sy_attach := replicate ET_ATTACHMENTS_MAX sample_attach\<rparr>\<rparr>),
     en_hz = 100, en_pid = 1, en_host = Some ''host'', en_loads = (\<lambda>lib fname. True),
     en_etr = (\<lambda>e name sc p pp. (ET_ERROR, None, e)), en_threads = [True, True, True, True, True]\<rparr>"

lemma sample_start_ok:
  "start_layout sample_env sample_startconfig" "start_possible sample_env"
  "et_system_config_check sample_startconfig = (ET_OK, sample_startconfig)" "sc_nevents sample_startconfig \<le> 10000000"
  "\<forall>g \<in> set (take (nat (sc_groupCount sample_startconfig)) (sc_groups sample_startconfig)). 1 \<le> g"
proof -
  have f: "sc_event_size sample_sysconfig = 1000" "sc_nattachments sample_sysconfig = 100" "sc_nprocesses sample_sysconfig = 100"
    by (simp_all add: sample_sysconfig_def et_system_config_init_def)
  show "et_system_config_check sample_startconfig = (ET_OK, sample_startconfig)"
    by (simp add: et_system_config_check_def sample_startconfig_def f)
qed (simp_all add: start_layout_def start_possible_def sample_env_def sample_startconfig_def Let_def)

theorem system_start_establishes_witness:
  "\<exists>eid. et_system_start sample_env (Some sample_startconfig) = Some (ET_OK, Some eid) \<and> tables eid [] \<and>
     (\<forall>j < 4. ev_priority (id_events eid j) = ET_LOW) \<and> map (\<lambda>j. ev_group (id_events eid j)) [0..<4] = [1, 1, 1, 2]"
proof -
  have "nat (sc_nevents sample_startconfig) = 4" "numbered 1 (take (nat (sc_groupCount sample_startconfig)) (sc_groups sample_startconfig)) = [1, 1, 1, 2]"
    by (simp_all add: sample_startconfig_def numeral_2_eq_2 numeral_3_eq_3)
  with system_start_establishes [OF sample_start_ok] show ?thesis by (auto simp del: upt_rec_numeral)
qed


end
