(* ===== verification/ET_AttachAPI.thy ===== *)
theory ET_AttachAPI
  imports ET_Cleanup
begin

text \<open>
  Waking up readers and the statistics of attachments (src/libsrc/et\_attachment.c).

  The broadcasts that wake the readers are no data of the model: a woken reader looks at its \<open>quit\<close>
  flag (theory \<open>ET_StationRead\<close>). The attachment's station is read before the number of the
  attachment is checked, which is \<open>None\<close> for a number outside the array of attachments.
\<close>

section \<open>Waking up\<close>

definition asleep :: "et_attach \<Rightarrow> bool" where
  "asleep a \<longleftrightarrow> \<not> (at_blocked a = ET_ATT_UNBLOCKED \<and> at_sleep a = ET_ATT_NOSLEEP)"

definition et_wakeup_attachment ::
  "(et_id \<Rightarrow> int \<Rightarrow> int \<times> et_id) \<Rightarrow> et_id option \<Rightarrow> int \<Rightarrow> (int \<times> et_id option) option" where
  "et_wakeup_attachment etr etid att =
     (case etid of
        None \<Rightarrow> Some (ET_ERROR, None)
      | Some eid \<Rightarrow>
          if att < 0 then Some (ET_ERROR, etid)
          else if id_locality eid \<noteq> ET_LOCAL then Some (apsnd Some (etr eid att))
          else if id_closed eid then Some (ET_ERROR_CLOSED, etid)
          else if \<not> nat att < length (sy_attach (id_sys eid)) then None
          else if att \<ge> sc_nattachments (sy_config (id_sys eid)) then Some (ET_ERROR, etid)
          else if \<not> asleep (sy_attach (id_sys eid) ! nat att) then Some (ET_OK, etid)
          else Some (ET_OK, Some (upd_att eid (nat att) (\<lambda>a. a\<lparr>at_quit := ET_ATT_QUIT\<rparr>))))"

text \<open>The loop over a station's table of attachments.\<close>

fun wake_each :: "int list \<Rightarrow> et_id \<Rightarrow> et_id option" where
  "wake_each [] eid = Some eid"
| "wake_each (att # atts) eid =
     (if att \<le> -1 then wake_each atts eid
      else if \<not> nat att < length (sy_attach (id_sys eid)) then None
      else
        let a = sy_attach (id_sys eid) ! nat att in
        wake_each atts
          (if at_blocked a = ET_ATT_BLOCKED \<or> at_sleep a = ET_ATT_SLEEP
           then upd_att eid (nat att) (\<lambda>a. a\<lparr>at_quit := ET_ATT_QUIT\<rparr>) else eid))"

definition et_wakeup_all ::
  "(et_id \<Rightarrow> int \<Rightarrow> int \<times> et_id) \<Rightarrow> et_id option \<Rightarrow> int \<Rightarrow> (int \<times> et_id option) option" where
  "et_wakeup_all etr etid stat_id =
     (case etid of
        None \<Rightarrow> Some (ET_ERROR, None)
      | Some eid \<Rightarrow>
          if stat_id < 0 then Some (ET_ERROR, etid)
          else if id_locality eid \<noteq> ET_LOCAL then Some (apsnd Some (etr eid stat_id))
          else if id_closed eid then Some (ET_ERROR_CLOSED, etid)
          else if stat_id \<ge> nstations_max eid then Some (ET_ERROR, etid)
          else case stat_ix (id_stats eid) stat_id of
                 None \<Rightarrow> None
               | Some s \<Rightarrow>
                   let atts = sd_att (st_data (id_stats eid ! s)); n = nattachments_max eid in
                   if length atts < n then None
                   else map_option (\<lambda>eid'. (ET_OK, Some eid')) (wake_each (take n atts) eid))"

section \<open>Statistics\<close>

definition get_attachment :: "(et_id \<Rightarrow> int \<Rightarrow> int \<times> 'a option) \<Rightarrow> et_id \<Rightarrow> int \<Rightarrow> (et_attach \<Rightarrow> 'a) \<Rightarrow> 'a answer" where
  "get_attachment etr eid att_id f =
     (if id_locality eid = ET_REMOTE then Some (etr eid att_id)
      else local_guard eid (\<lambda>e. Some (e, None))
        (if att_id < 0 \<or> att_id \<ge> sc_nattachments (sy_config (id_sys eid)) then Some (ET_ERROR, None)
         else if \<not> nat att_id < length (sy_attach (id_sys eid)) then None
         else Some (ET_OK, Some (f (sy_attach (id_sys eid) ! nat att_id)))))"

definition et_attach_geteventsput :: "(et_id \<Rightarrow> int \<Rightarrow> int \<times> uint64 option) \<Rightarrow> et_id \<Rightarrow> int \<Rightarrow> uint64 answer" where
  "et_attach_geteventsput etr eid att_id = get_attachment etr eid att_id at_events_put"

definition et_attach_geteventsget :: "(et_id \<Rightarrow> int \<Rightarrow> int \<times> uint64 option) \<Rightarrow> et_id \<Rightarrow> int \<Rightarrow> uint64 answer" where
  "et_attach_geteventsget etr eid att_id = get_attachment etr eid att_id at_events_get"

definition et_attach_geteventsdump :: "(et_id \<Rightarrow> int \<Rightarrow> int \<times> uint64 option) \<Rightarrow> et_id \<Rightarrow> int \<Rightarrow> uint64 answer" where
  "et_attach_geteventsdump etr eid att_id = get_attachment etr eid att_id at_events_dump"

definition et_attach_geteventsmake :: "(et_id \<Rightarrow> int \<Rightarrow> int \<times> uint64 option) \<Rightarrow> et_id \<Rightarrow> int \<Rightarrow> uint64 answer" where
  "et_attach_geteventsmake etr eid att_id = get_attachment etr eid att_id at_events_make"

section \<open>Waking up ends waits\<close>

definition woken :: "et_attach \<Rightarrow> et_attach" where
  "woken a = (if at_blocked a = ET_ATT_BLOCKED \<or> at_sleep a = ET_ATT_SLEEP then a\<lparr>at_quit := ET_ATT_QUIT\<rparr> else a)"

lemma woken_woken [simp]: "woken (woken a) = woken a"
  by (simp add: woken_def)

definition set_attach :: "et_id \<Rightarrow> et_attach list \<Rightarrow> et_id" where
  "set_attach eid as = eid\<lparr>id_sys := (id_sys eid)\<lparr>sy_attach := as\<rparr>\<rparr>"

lemma wake_each_spec:
  assumes "\<forall>x \<in> set xs. x \<le> -1 \<or> nat x < length (sy_attach (id_sys eid))"
  shows "\<exists>as. wake_each xs eid = Some (set_attach eid as) \<and> length as = length (sy_attach (id_sys eid)) \<and>
    (\<forall>b < length as. as ! b = (if int b \<in> set xs then woken (sy_attach (id_sys eid) ! b) else sy_attach (id_sys eid) ! b))"
  using assms
proof (induction xs arbitrary: eid)
  case Nil
  show ?case by (intro exI [of _ "sy_attach (id_sys eid)"]) (simp add: set_attach_def)
next
  case (Cons x xs)
  show ?case
  proof (cases "x \<le> -1")
    case True
    then have "int b \<noteq> x" for b by linarith
    then show ?thesis using Cons True by simp
  next
    case False
    let ?a = "sy_attach (id_sys eid) ! nat x" and ?l = "(sy_attach (id_sys eid))[nat x := woken (sy_attach (id_sys eid) ! nat x)]"
    have x: "nat x < length (sy_attach (id_sys eid))" "int b = x \<longleftrightarrow> b = nat x" for b using Cons.prems False by auto
    have "(if at_blocked ?a = ET_ATT_BLOCKED \<or> at_sleep ?a = ET_ATT_SLEEP
           then upd_att eid (nat x) (\<lambda>a. a\<lparr>at_quit := ET_ATT_QUIT\<rparr>) else eid) = set_attach eid ?l"
      by (cases "at_blocked ?a = ET_ATT_BLOCKED \<or> at_sleep ?a = ET_ATT_SLEEP") (simp_all add: set_attach_def upd_att_def woken_def)
    then have e: "wake_each (x # xs) eid = wake_each xs (set_attach eid ?l)"
      using False x(1) by (simp only: wake_each.simps Let_def if_False not_True_eq_False)
    have "\<forall>y \<in> set xs. y \<le> -1 \<or> nat y < length (sy_attach (id_sys (set_attach eid ?l)))"
      using Cons.prems by (simp add: set_attach_def)
    from Cons.IH [OF this] obtain as where
      r: "wake_each xs (set_attach eid ?l) = Some (set_attach (set_attach eid ?l) as)" "length as = length ?l"
        "\<forall>b < length as. as ! b = (if int b \<in> set xs then woken (?l ! b) else ?l ! b)" by (auto simp: set_attach_def)
    have "set_attach (set_attach eid ?l) as = set_attach eid as" by (simp add: set_attach_def)
    moreover have "as ! b = (if int b \<in> set (x # xs) then woken (sy_attach (id_sys eid) ! b) else sy_attach (id_sys eid) ! b)"
      if "b < length as" for b
      using r(2,3) that x(1) x(2) [of b] by (cases "b = nat x") simp_all
    ultimately show ?thesis using r(1,2) unfolding e by (intro exI [of _ as]) simp
  qed
qed

lemma wakeup_all_spec:
  assumes t: "tables eid gs" and s: "s \<in> set (0 # concat gs)" and c: "\<not> id_closed eid"
  shows "\<exists>as. et_wakeup_all etr (Some eid) (int s) = Some (ET_OK, Some (set_attach eid as)) \<and>
    length as = length (sy_attach (id_sys eid)) \<and>
    (\<forall>b < length as. as ! b = (if b \<in> atts_of eid s then woken (sy_attach (id_sys eid) ! b) else sy_attach (id_sys eid) ! b))"
proof -
  note d = tablesD [OF t] and a = att_tableD [OF tablesD(3) [OF t]] and st = station_tableD [OF tablesD(2) [OF t]]
  let ?xs = "take (nattachments_max eid) (sd_att (st_data (id_stats eid ! s)))"
  have sl: "s < length (id_stats eid)" by (rule st(7) [OF s])
  have n: "nattachments_max eid \<le> length (sy_attach (id_sys eid))" "nattachments_max eid \<le> ET_ATTACHMENTS_MAX"
    using a(1) [THEN conjunct2, THEN conjunct1] a(2) unfolding nattachments_max_def by linarith+
  have x: "?xs ! k = (if k \<in> atts_of eid s then int k else -1)" if "k < nattachments_max eid" for k
    using a(8) [OF sl, of k] that n(2) by simp
  have len: "length ?xs = nattachments_max eid" using a(7) [OF sl] n(2) by simp
  have mem: "int b \<in> set ?xs \<longleftrightarrow> b \<in> atts_of eid s" for b
  proof
    assume "int b \<in> set ?xs"
    then obtain k where "k < nattachments_max eid" "?xs ! k = int b" unfolding in_set_conv_nth len by blast
    then show "b \<in> atts_of eid s" using x [of k] by (auto split: if_splits)
  next
    assume b: "b \<in> atts_of eid s"
    then have "b \<in> live eid" by (simp add: atts_of_def)
    then have "b < nattachments_max eid" using a(1) unfolding nattachments_max_def by auto
    then show "int b \<in> set ?xs" using x [of b] b len by (metis nth_mem)
  qed
  have "y \<le> -1 \<or> nat y < length (sy_attach (id_sys eid))" if y: "y \<in> set ?xs" for y
  proof -
    obtain k where "k < nattachments_max eid" "?xs ! k = y" using y unfolding in_set_conv_nth len by blast
    then show ?thesis using x [of k] n(1) by (auto split: if_splits)
  qed
  with wake_each_spec [of ?xs eid] obtain as where
    r: "wake_each ?xs eid = Some (set_attach eid as)" "length as = length (sy_attach (id_sys eid))"
      "\<forall>b < length as. as ! b = (if b \<in> atts_of eid s then woken (sy_attach (id_sys eid) ! b) else sy_attach (id_sys eid) ! b)"
    unfolding mem by blast
  have "et_wakeup_all etr (Some eid) (int s) = Some (ET_OK, Some (set_attach eid as))"
    using r(1) c d(1) sl st(2) a(7) [OF sl] n(2) by (simp add: et_wakeup_all_def stat_ix_def Let_def)
  then show ?thesis using r(2,3) by blast
qed

lemma set_attach_simps [simp]:
  "id_stats (set_attach eid as) = id_stats eid" "sy_attach (id_sys (set_attach eid as)) = as"
  "id_closed (set_attach eid as) = id_closed eid" "id_events (set_attach eid as) = id_events eid"
  "in_list (set_attach eid as) s = in_list eid s"
  by (simp_all add: set_attach_def in_list_def)

lemma tables_blocked:
  assumes "tables eid gs"
  shows "tables (set_blocked eid a v) gs" "atts_of (set_blocked eid a v) s = atts_of eid s"
proof -
  have at: "at_num (sy_attach (id_sys (set_blocked eid a v)) ! b) = at_num (sy_attach (id_sys eid) ! b)"
    "at_stat (sy_attach (id_sys (set_blocked eid a v)) ! b) = at_stat (sy_attach (id_sys eid) ! b)"
    "length (sy_attach (id_sys (set_blocked eid a v))) = length (sy_attach (id_sys eid))" for b
    by (cases "b = a"; cases "a < length (sy_attach (id_sys eid))"; simp add: set_blocked_def upd_att_def list_update_beyond)+
  then have l: "live (set_blocked eid a v) = live eid" "atts_of (set_blocked eid a v) s = atts_of eid s" for s
    by (simp_all add: live_def atts_of_def)
  show "atts_of (set_blocked eid a v) s = atts_of eid s" by (rule l(2))
  have o: "id_stats (set_blocked eid a v) = id_stats eid" "sy_config (id_sys (set_blocked eid a v)) = sy_config (id_sys eid)"
    "sy_nattachments (id_sys (set_blocked eid a v)) = sy_nattachments (id_sys eid)"
    "sy_nstations (id_sys (set_blocked eid a v)) = sy_nstations (id_sys eid)"
    "sy_stat_tail (id_sys (set_blocked eid a v)) = sy_stat_tail (id_sys eid)" "id_locality (set_blocked eid a v) = id_locality eid"
    "nstations_max (set_blocked eid a v) = nstations_max eid"
    by (simp_all add: set_blocked_def upd_att_def nstations_max_def)
  have "tables (set_blocked eid a v) gs = tables eid gs"
    unfolding tables_def station_table_def att_table_def l at o by (rule refl)
  then show "tables (set_blocked eid a v) gs" using assms by simp
qed

text \<open>
  C39. Waking up all readers of a station sets the flag of exactly the station's attachments that are
  blocked or sleeping, and a reader that waits for events in an empty list comes back with
  \<open>ET_ERROR_WAKEUP\<close>, without events, its own flag cleared again and the list unlocked.
\<close>

theorem wakeup_all_ends_wait:
  assumes "tables eid gs" and "s \<in> set (concat gs)" and "\<not> id_closed eid" and "a \<in> atts_of eid s"
    and "l_cnt (in_list eid s) < 1" and "\<not> l_mutex (in_list eid s)" and "1 \<le> num"
    and "waiting = set_blocked eid a ET_ATT_BLOCKED"
  shows "\<exists>as. et_wakeup_all etr (Some waiting) (int s) = Some (ET_OK, Some (set_attach waiting as)) \<and>
    (\<forall>b < length as. as ! b = (if b \<in> atts_of eid s then woken (sy_attach (id_sys waiting) ! b) else sy_attach (id_sys waiting) ! b)) \<and>
    et_station_nread eid s ET_SLEEP a ((0, \<lambda>e. set_attach waiting as) # ws) num =
      Some (ET_ERROR_WAKEUP, [], set_quit (set_blocked (set_attach waiting as) a ET_ATT_UNBLOCKED) a ET_ATT_CONTINUE)"
proof -
  have s: "s \<in> set (0 # concat gs)" "s < length (id_stats eid)"
    using assms(2) station_tableD(7) [OF tablesD(2) [OF assms(1)], of s] by simp_all
  have s0: "s \<noteq> 0" using assms(2) chain_okD(1) [OF station_tableD(1) [OF tablesD(2) [OF assms(1)]]]
    by (metis distinct.simps(2))
  note t = tables_blocked [OF assms(1), of a ET_ATT_BLOCKED, folded assms(8)]
  have cl: "\<not> id_closed waiting" using assms(3,8) by (simp add: set_blocked_def upd_att_def)
  from wakeup_all_spec [OF t(1) s(1) cl, of etr, unfolded t(2)] obtain as where
    w: "et_wakeup_all etr (Some waiting) (int s) = Some (ET_OK, Some (set_attach waiting as))" "length as = length (sy_attach (id_sys waiting))"
      "\<forall>b < length as. as ! b = (if b \<in> atts_of eid s then woken (sy_attach (id_sys waiting) ! b) else sy_attach (id_sys waiting) ! b)" by blast
  have al: "a < length (sy_attach (id_sys eid))" using assms(4) by (simp add: atts_of_def live_def)
  have q: "att_quit (set_blocked (set_in_mutex (set_attach waiting as) s True) a ET_ATT_UNBLOCKED) a = ET_ATT_QUIT"
    using w(2,3) assms(4,8) al by (simp add: att_quit_def set_blocked_def set_in_mutex_def upd_att_def upd_stat_def woken_def)
  have m: "\<not> l_mutex (in_list (set_attach waiting as) s)" "l_cnt (in_list (set_in_mutex eid s True) s) < 1"
    using assms(5,6,8) s(2) by (simp_all add: set_blocked_def upd_att_def in_list_def set_in_mutex_def upd_stat_def)
  have "set_in_mutex (set_blocked (set_in_mutex (set_attach waiting as) s True) a ET_ATT_UNBLOCKED) s False =
      set_blocked (set_attach waiting as) a ET_ATT_UNBLOCKED"
    using m(1) by (simp add: set_blocked_in_mutex set_in_mutex_id)
  then have "wait_scan False s a (set_in_mutex eid s True) ((0, \<lambda>e. set_attach waiting as) # ws) True =
      Some (ET_ERROR_WAKEUP, set_quit (set_blocked (set_attach waiting as) a ET_ATT_UNBLOCKED) a ET_ATT_CONTINUE, ws)"
    using m(2) q by (simp add: Let_def)
  then have "et_station_nread eid s ET_SLEEP a ((0, \<lambda>e. set_attach waiting as) # ws) num =
      Some (ET_ERROR_WAKEUP, [], set_quit (set_blocked (set_attach waiting as) a ET_ATT_UNBLOCKED) a ET_ATT_CONTINUE)"
    using assms(6,7) s s0 by (simp add: et_station_nread_def read_acquire_def histogram_bump_def)
  with w(1,3) show ?thesis by blast
qed


text \<open>Attachment 0 reads from station 1, which has no events.\<close>

definition sample_reader :: et_attach where
  "sample_reader = sample_attach\<lparr>at_num := 0, at_stat := 1, at_status := ET_ATT_ACTIVE\<rparr>"

definition sample_waiting :: et_id where
  "sample_waiting = sample_open\<lparr>
     id_stats := [id_stats sample_open ! 0, note_att 1 0 0 (set_status ET_STATION_ACTIVE (id_stats sample_open ! 1)), id_stats sample_open ! 2],
     id_sys := (id_sys sample_open)\<lparr>sy_attach := [sample_reader, sample_attach, sample_attach], sy_nattachments := 1\<rparr>\<rparr>"

lemma sample_waiting_tables: "atts_of sample_waiting 1 = {0}" "tables sample_waiting [[1]]"
proof -
  have at: "at_num ([sample_reader, sample_attach, sample_attach] ! a) = -1 \<longleftrightarrow> a \<noteq> 0" if "a < 3" for a
    using that by (auto simp: less_Suc_eq numeral_3_eq_3 sample_reader_def)
  then have l: "live sample_waiting = {0}" by (auto simp: live_def sample_waiting_def sample_reader_def)
  have as: "atts_of sample_waiting s = (if s = 1 then {0} else {})" for s
    unfolding atts_of_def l by (auto simp: sample_waiting_def sample_reader_def)
  then show "atts_of sample_waiting 1 = {0}" by simp
  have "att_table sample_waiting (set (0 # concat [[1]]))"
    unfolding att_table_def l as
    by (simp add: sample_waiting_def numeral_3_eq_3 All_less_Suc sample_reader_def note_att_def set_status_def nth_list_update)
  moreover have "station_table sample_waiting [[1]]"
    by (auto simp: sample_waiting_def station_table_def chain_ok_def members_ok_def main_ok_def group_ok_def in_chain_def less_Suc_eq
        numeral_3_eq_3 note_att_def set_status_def nstations_max_def sample_open_def sample_id_def upd_stat_def Let_def)
  ultimately show "tables sample_waiting [[1]]" by (simp add: tables_def sample_waiting_def)
qed

theorem wakeup_all_ends_wait_witness:
  "\<exists>e. et_station_nread sample_waiting 1 ET_SLEEP 0 [(0, \<lambda>_. e)] 5 =
     Some (ET_ERROR_WAKEUP, [], set_quit (set_blocked e 0 ET_ATT_UNBLOCKED) 0 ET_ATT_CONTINUE)"
proof -
  have "in_list sample_waiting 1 = sample_list" "\<not> id_closed sample_waiting"
    by (simp_all add: sample_waiting_def in_list_def note_att_def set_status_def)
  with wakeup_all_ends_wait [OF sample_waiting_tables(2), of 1 0 5 _ "\<lambda>e s. (ET_ERROR, e)" "[]"] sample_waiting_tables(1)
  show ?thesis by auto
qed


end
