(* ===== verification/ET_OpenConfig.thy ===== *)
theory ET_OpenConfig
  imports ET_SysConfig
begin

text \<open>
  Configurations for opening an ET system (src/libsrc/et\_openconfig.c, and \<open>codanetIsDottedDecimal\<close>
  of etCommonNetwork.c).

  Handles and results are those of theory \<open>ET_StatConfig\<close>; the locale \<open>config_field\<close> is interpreted for
  the fields. The linked list of broadcast addresses is a list. The broadcast addresses of the host's
  interfaces are the parameter \<open>nets\<close>, \<open>None\<close> when they cannot be found. A string that is longer than
  the array it is copied to gives \<open>None\<close>.
\<close>

abbreviation (input) "ET_OPEN_NOWAIT \<equiv> (0::int)"
abbreviation (input) "ET_OPEN_WAIT \<equiv> (1::int)"
abbreviation (input) "ET_MULTICAST \<equiv> (0::int)"
abbreviation (input) "ET_BROADCAST \<equiv> (1::int)"
abbreviation (input) "ET_DIRECT \<equiv> (2::int)"
abbreviation (input) "ET_BROADANDMULTICAST \<equiv> (3::int)"
abbreviation (input) "ET_MULTICAST_TTL \<equiv> (32::int)"
abbreviation (input) "ET_HOST_AS_REMOTE \<equiv> (0::int)"
abbreviation (input) "ET_HOST_AS_LOCAL \<equiv> (1::int)"
abbreviation (input) "ET_POLICY_FIRST \<equiv> (0::int)"
abbreviation (input) "ET_POLICY_LOCAL \<equiv> (1::int)"
abbreviation (input) "ET_POLICY_ERROR \<equiv> (2::int)"
abbreviation (input) "ET_HOST_LOCAL \<equiv> ''.local''"
abbreviation (input) "ET_HOST_REMOTE \<equiv> ''.remote''"
abbreviation (input) "ET_HOST_ANYWHERE \<equiv> ''.anywhere''"
abbreviation (input) "ET_SUBNET_ALL \<equiv> ''.subnetsAll''"

section \<open>Addresses in dot-decimal form\<close>

text \<open>
  What \<open>sscanf\<close> reads for \<open>%d\<close>: blanks, a sign, digits; \<open>None\<close> is a mismatch. Numbers that no C int
  holds are out of range here as well.
\<close>

definition scan_number :: "string \<Rightarrow> (int \<times> string) option" where
  "scan_number s =
     (let t = dropWhile is_space s;
          (neg, u) = (case t of [] \<Rightarrow> (False, []) | c # cs \<Rightarrow> if c = CHR ''-'' then (True, cs) else if c = CHR ''+'' then (False, cs) else (False, t))
      in if takeWhile is_digit u = [] then None
         else Some (if neg then - number u else number u, dropWhile is_digit u))"

fun scan_dotted :: "nat \<Rightarrow> string \<Rightarrow> int list" where
  "scan_dotted 0 s = []"
| "scan_dotted (Suc n) s =
     (case scan_number s of
        None \<Rightarrow> []
      | Some (i, rest) \<Rightarrow>
          i # (case rest of [] \<Rightarrow> [] | c # cs \<Rightarrow> if n = 0 \<or> c \<noteq> CHR ''.'' then [] else scan_dotted n cs))"

definition codanetIsDottedDecimal :: "string \<Rightarrow> int list option" where
  "codanetIsDottedDecimal ipAddress =
     (let i = scan_dotted 4 ipAddress in
      if length i = 4 \<and> list_all (\<lambda>j. \<not> (j < 0 \<or> j > 255)) i then Some i else None)"

section \<open>Creation, setters and getters\<close>

record et_open_config =
  oc_init :: int
  oc_wait :: int
  oc_cast :: int
  oc_ttl :: int
  oc_mode :: int
  oc_debug_default :: int
  oc_udpport :: int
  oc_serverport :: int
  oc_policy :: int
  oc_tcpSendBufSize :: int
  oc_tcpRecvBufSize :: int
  oc_tcpNoDelay :: int
  oc_timeout :: "int \<times> int"
  oc_host :: string
  oc_interface :: string
  oc_bcastaddrs :: "string list"
  oc_mcastaddrs :: "string list"

definition et_open_config_init :: "string list option \<Rightarrow> bool \<Rightarrow> int \<times> et_open_config option" where
  "et_open_config_init nets sconfig =
     (if \<not> sconfig then (ET_ERROR, None)
      else (ET_OK, Some \<lparr>oc_init = ET_STRUCT_OK, oc_wait = ET_OPEN_NOWAIT, oc_cast = ET_BROADCAST, oc_ttl = ET_MULTICAST_TTL,
        oc_mode = ET_HOST_AS_LOCAL, oc_debug_default = ET_DEBUG_ERROR, oc_udpport = ET_UDP_PORT, oc_serverport = ET_SERVER_PORT,
        oc_policy = ET_POLICY_FIRST, oc_tcpSendBufSize = 0, oc_tcpRecvBufSize = 0, oc_tcpNoDelay = 1, oc_timeout = (0, 0),
        oc_host = ET_HOST_LOCAL, oc_interface = [],
        oc_bcastaddrs = (case nets of None \<Rightarrow> [] | Some addrs \<Rightarrow> addrs), oc_mcastaddrs = []\<rparr>))"

definition et_open_config_setwait :: "et_open_config option \<Rightarrow> int \<Rightarrow> int \<times> et_open_config option" where
  "et_open_config_setwait sconfig val = config_set oc_init sconfig
     (\<not> (val \<noteq> ET_OPEN_NOWAIT \<and> val \<noteq> ET_OPEN_WAIT)) (\<lambda>sc. sc\<lparr>oc_wait := val\<rparr>)"

definition et_open_config_getwait :: "et_open_config option \<Rightarrow> bool \<Rightarrow> int \<times> int option" where
  "et_open_config_getwait sconfig val = config_get oc_init sconfig val oc_wait"

definition et_open_config_setcast :: "et_open_config option \<Rightarrow> int \<Rightarrow> int \<times> et_open_config option" where
  "et_open_config_setcast sconfig val = config_set oc_init sconfig
     (\<not> (val \<noteq> ET_MULTICAST \<and> val \<noteq> ET_BROADCAST \<and> val \<noteq> ET_BROADANDMULTICAST \<and> val \<noteq> ET_DIRECT)) (\<lambda>sc. sc\<lparr>oc_cast := val\<rparr>)"

definition et_open_config_getcast :: "et_open_config option \<Rightarrow> bool \<Rightarrow> int \<times> int option" where
  "et_open_config_getcast sconfig val = config_get oc_init sconfig val oc_cast"

definition et_open_config_setTTL :: "et_open_config option \<Rightarrow> int \<Rightarrow> int \<times> et_open_config option" where
  "et_open_config_setTTL sconfig val = config_set oc_init sconfig (\<not> (val < 0 \<or> val > 254)) (\<lambda>sc. sc\<lparr>oc_ttl := val\<rparr>)"

definition et_open_config_getTTL :: "et_open_config option \<Rightarrow> bool \<Rightarrow> int \<times> int option" where
  "et_open_config_getTTL sconfig val = config_get oc_init sconfig val oc_ttl"

definition et_open_config_setmode :: "et_open_config option \<Rightarrow> int \<Rightarrow> int \<times> et_open_config option" where
  "et_open_config_setmode sconfig val = config_set oc_init sconfig
     (\<not> (val \<noteq> ET_HOST_AS_LOCAL \<and> val \<noteq> ET_HOST_AS_REMOTE)) (\<lambda>sc. sc\<lparr>oc_mode := val\<rparr>)"

definition et_open_config_getmode :: "et_open_config option \<Rightarrow> bool \<Rightarrow> int \<times> int option" where
  "et_open_config_getmode sconfig val = config_get oc_init sconfig val oc_mode"

definition et_open_config_setdebugdefault :: "et_open_config option \<Rightarrow> int \<Rightarrow> int \<times> et_open_config option" where
  "et_open_config_setdebugdefault sconfig val = config_set oc_init sconfig
     (\<not> (val \<noteq> ET_DEBUG_NONE \<and> val \<noteq> ET_DEBUG_SEVERE \<and> val \<noteq> ET_DEBUG_ERROR \<and> val \<noteq> ET_DEBUG_WARN \<and> val \<noteq> ET_DEBUG_INFO))
     (\<lambda>sc. sc\<lparr>oc_debug_default := val\<rparr>)"

definition et_open_config_getdebugdefault :: "et_open_config option \<Rightarrow> bool \<Rightarrow> int \<times> int option" where
  "et_open_config_getdebugdefault sconfig val = config_get oc_init sconfig val oc_debug_default"

definition et_open_config_setport :: "et_open_config option \<Rightarrow> int \<Rightarrow> int \<times> et_open_config option" where
  "et_open_config_setport sconfig val = config_set oc_init sconfig (\<not> (val < 1024 \<or> val > 65535)) (\<lambda>sc. sc\<lparr>oc_udpport := val\<rparr>)"

definition et_open_config_getport :: "et_open_config option \<Rightarrow> bool \<Rightarrow> int \<times> int option" where
  "et_open_config_getport sconfig val = config_get oc_init sconfig val oc_udpport"

definition et_open_config_setserverport :: "et_open_config option \<Rightarrow> int \<Rightarrow> int \<times> et_open_config option" where
  "et_open_config_setserverport sconfig val = config_set oc_init sconfig (\<not> (val < 1024 \<or> val > 65535)) (\<lambda>sc. sc\<lparr>oc_serverport := val\<rparr>)"

definition et_open_config_getserverport :: "et_open_config option \<Rightarrow> bool \<Rightarrow> int \<times> int option" where
  "et_open_config_getserverport sconfig val = config_get oc_init sconfig val oc_serverport"

definition et_open_config_settimeout :: "et_open_config option \<Rightarrow> int \<times> int \<Rightarrow> int \<times> et_open_config option" where
  "et_open_config_settimeout sconfig val = config_set oc_init sconfig True (\<lambda>sc. sc\<lparr>oc_timeout := val\<rparr>)"

definition et_open_config_gettimeout :: "et_open_config option \<Rightarrow> bool \<Rightarrow> int \<times> (int \<times> int) option" where
  "et_open_config_gettimeout sconfig val = config_get oc_init sconfig val oc_timeout"

definition et_open_config_setpolicy :: "et_open_config option \<Rightarrow> int \<Rightarrow> int \<times> et_open_config option" where
  "et_open_config_setpolicy sconfig val = config_set oc_init sconfig
     (\<not> (val \<noteq> ET_POLICY_FIRST \<and> val \<noteq> ET_POLICY_LOCAL \<and> val \<noteq> ET_POLICY_ERROR)) (\<lambda>sc. sc\<lparr>oc_policy := val\<rparr>)"

definition et_open_config_getpolicy :: "et_open_config option \<Rightarrow> bool \<Rightarrow> int \<times> int option" where
  "et_open_config_getpolicy sconfig val = config_get oc_init sconfig val oc_policy"

definition et_open_config_sethost :: "et_open_config option \<Rightarrow> string option \<Rightarrow> int \<times> et_open_config option" where
  "et_open_config_sethost sconfig val = config_set oc_init sconfig
     (val \<noteq> None \<and> \<not> length (the val) > ET_FUNCNAME_LENGTH - 1) (\<lambda>sc. sc\<lparr>oc_host := the val\<rparr>)"

definition et_open_config_gethost :: "et_open_config option \<Rightarrow> bool \<Rightarrow> int \<times> string option" where
  "et_open_config_gethost sconfig val = config_get oc_init sconfig val oc_host"

definition et_open_config_setinterface :: "et_open_config option \<Rightarrow> string option \<Rightarrow> int \<times> et_open_config option" where
  "et_open_config_setinterface sconfig val = config_set oc_init sconfig
     (val \<noteq> None \<and> codanetIsDottedDecimal (the val) \<noteq> None \<and> \<not> length (the val) > ET_IPADDRSTRLEN - 1)
     (\<lambda>sc. sc\<lparr>oc_interface := the val\<rparr>)"

text \<open>
  The characters that are copied to the caller, and whether the character that ends a string is one
  of them.
\<close>

definition et_open_config_getinterface :: "et_open_config option \<Rightarrow> bool \<Rightarrow> int \<times> (string \<times> bool) option" where
  "et_open_config_getinterface sconfig val = config_get oc_init sconfig val
     (\<lambda>sc. (take (ET_IPADDRSTRLEN - 1) (oc_interface sc), length (oc_interface sc) < ET_IPADDRSTRLEN - 1))"

definition et_open_config_settcp :: "et_open_config option \<Rightarrow> int \<Rightarrow> int \<Rightarrow> int \<Rightarrow> int \<times> et_open_config option" where
  "et_open_config_settcp sconfig rBufSize sBufSize noDelay = config_set oc_init sconfig
     (\<not> (rBufSize < 0 \<or> sBufSize < 0))
     (\<lambda>sc. sc\<lparr>oc_tcpRecvBufSize := rBufSize, oc_tcpSendBufSize := sBufSize, oc_tcpNoDelay := (if noDelay \<noteq> 0 then 1 else noDelay)\<rparr>)"

definition et_open_config_gettcp :: "et_open_config option \<Rightarrow> bool \<Rightarrow> int \<times> (int \<times> int \<times> int) option" where
  "et_open_config_gettcp sconfig val = config_get oc_init sconfig val
     (\<lambda>sc. (oc_tcpRecvBufSize sc, oc_tcpSendBufSize sc, oc_tcpNoDelay sc))"

section \<open>Lists of addresses\<close>

definition with_open ::
  "et_open_config option \<Rightarrow> string option \<Rightarrow> (string \<Rightarrow> et_open_config \<Rightarrow> (int \<times> et_open_config) option) \<Rightarrow>
   (int \<times> et_open_config option) option" where
  "with_open sconfig val f =
     (case (sconfig, val) of
        (Some sc, Some v) \<Rightarrow> if oc_init sc \<noteq> ET_STRUCT_OK then Some (ET_ERROR, sconfig) else map_option (apsnd Some) (f v sc)
      | _ \<Rightarrow> Some (ET_ERROR, sconfig))"

definition et_open_config_addbroadcast ::
  "string list option \<Rightarrow> et_open_config option \<Rightarrow> string option \<Rightarrow> (int \<times> et_open_config option) option" where
  "et_open_config_addbroadcast nets sconfig val =
     with_open sconfig val (\<lambda>v sc.
       if v = ET_SUBNET_ALL then
         Some (ET_OK, sc\<lparr>oc_bcastaddrs := (case nets of None \<Rightarrow> [] | Some addrs \<Rightarrow> addrs)\<rparr>)
       else if codanetIsDottedDecimal v = None then Some (ET_ERROR, sc)
       else if List.member (oc_bcastaddrs sc) v then Some (ET_OK, sc)
       else if length v \<ge> ET_IPADDRSTRLEN then None
       else Some (ET_OK, sc\<lparr>oc_bcastaddrs := oc_bcastaddrs sc @ [v]\<rparr>))"

definition et_open_config_removebroadcast ::
  "et_open_config option \<Rightarrow> string option \<Rightarrow> (int \<times> et_open_config option) option" where
  "et_open_config_removebroadcast sconfig val =
     with_open sconfig val (\<lambda>v sc.
       if oc_bcastaddrs sc = [] then Some (ET_OK, sc)
       else if v = ET_SUBNET_ALL then Some (ET_OK, sc\<lparr>oc_bcastaddrs := []\<rparr>)
       else if codanetIsDottedDecimal v = None then Some (ET_ERROR, sc)
       else Some (ET_OK, sc\<lparr>oc_bcastaddrs := remove1 v (oc_bcastaddrs sc)\<rparr>))"

definition et_open_config_addmulticast ::
  "et_open_config option \<Rightarrow> string option \<Rightarrow> (int \<times> et_open_config option) option" where
  "et_open_config_addmulticast sconfig val =
     with_open sconfig val (\<lambda>v sc.
       if length v \<ge> ET_IPADDRSTRLEN \<or> length v < 7 then Some (ET_ERROR, sc)
       else case codanetIsDottedDecimal v of
              None \<Rightarrow> Some (ET_ERROR, sc)
            | Some intVals \<Rightarrow>
                if intVals ! 0 < 224 \<or> intVals ! 0 > 239 then Some (ET_ERROR, sc)
                else let (status, addrs) = add_address (oc_mcastaddrs sc) v in Some (status, sc\<lparr>oc_mcastaddrs := addrs\<rparr>))"

definition et_open_config_removemulticast ::
  "et_open_config option \<Rightarrow> string option \<Rightarrow> (int \<times> et_open_config option) option" where
  "et_open_config_removemulticast sconfig val =
     with_open sconfig val (\<lambda>v sc.
       map_option (\<lambda>(status, addrs). (status, sc\<lparr>oc_mcastaddrs := addrs\<rparr>))
         (multicast (oc_mcastaddrs sc) (Some v) (\<lambda>v. (ET_OK, remove1 v (oc_mcastaddrs sc)))))"

section \<open>The fields of a configuration\<close>

abbreviation (input) "open_ready c \<equiv> oc_init c = ET_STRUCT_OK"

interpretation owait: config_field "\<lambda>c. open_ready c" et_open_config_setwait et_open_config_getwait
  "\<lambda>val. \<not> (val \<noteq> ET_OPEN_NOWAIT \<and> val \<noteq> ET_OPEN_WAIT)" "\<lambda>val. val"
  unfolding et_open_config_setwait_def [abs_def] et_open_config_getwait_def [abs_def]
  by (rule config_fieldI) simp_all

interpretation ocast: config_field "\<lambda>c. open_ready c" et_open_config_setcast et_open_config_getcast
  "\<lambda>val. \<not> (val \<noteq> ET_MULTICAST \<and> val \<noteq> ET_BROADCAST \<and> val \<noteq> ET_BROADANDMULTICAST \<and> val \<noteq> ET_DIRECT)" "\<lambda>val. val"
  unfolding et_open_config_setcast_def [abs_def] et_open_config_getcast_def [abs_def]
  by (rule config_fieldI) simp_all

interpretation ottl: config_field "\<lambda>c. open_ready c" et_open_config_setTTL et_open_config_getTTL
  "\<lambda>val. \<not> (val < 0 \<or> val > 254)" "\<lambda>val. val"
  unfolding et_open_config_setTTL_def [abs_def] et_open_config_getTTL_def [abs_def]
  by (rule config_fieldI) simp_all

interpretation omode: config_field "\<lambda>c. open_ready c" et_open_config_setmode et_open_config_getmode
  "\<lambda>val. \<not> (val \<noteq> ET_HOST_AS_LOCAL \<and> val \<noteq> ET_HOST_AS_REMOTE)" "\<lambda>val. val"
  unfolding et_open_config_setmode_def [abs_def] et_open_config_getmode_def [abs_def]
  by (rule config_fieldI) simp_all

interpretation odebug: config_field "\<lambda>c. open_ready c" et_open_config_setdebugdefault et_open_config_getdebugdefault
  "\<lambda>val. \<not> (val \<noteq> ET_DEBUG_NONE \<and> val \<noteq> ET_DEBUG_SEVERE \<and> val \<noteq> ET_DEBUG_ERROR \<and> val \<noteq> ET_DEBUG_WARN \<and> val \<noteq> ET_DEBUG_INFO)"
  "\<lambda>val. val"
  unfolding et_open_config_setdebugdefault_def [abs_def] et_open_config_getdebugdefault_def [abs_def]
  by (rule config_fieldI) simp_all

interpretation oport: config_field "\<lambda>c. open_ready c" et_open_config_setport et_open_config_getport
  "\<lambda>val. \<not> (val < 1024 \<or> val > 65535)" "\<lambda>val. val"
  unfolding et_open_config_setport_def [abs_def] et_open_config_getport_def [abs_def]
  by (rule config_fieldI) simp_all

interpretation oserver: config_field "\<lambda>c. open_ready c" et_open_config_setserverport et_open_config_getserverport
  "\<lambda>val. \<not> (val < 1024 \<or> val > 65535)" "\<lambda>val. val"
  unfolding et_open_config_setserverport_def [abs_def] et_open_config_getserverport_def [abs_def]
  by (rule config_fieldI) simp_all

interpretation otime: config_field "\<lambda>c. open_ready c" et_open_config_settimeout et_open_config_gettimeout
  "\<lambda>val. True" "\<lambda>val. val"
  unfolding et_open_config_settimeout_def [abs_def] et_open_config_gettimeout_def [abs_def]
  by (rule config_fieldI) simp_all

interpretation opolicy: config_field "\<lambda>c. open_ready c" et_open_config_setpolicy et_open_config_getpolicy
  "\<lambda>val. \<not> (val \<noteq> ET_POLICY_FIRST \<and> val \<noteq> ET_POLICY_LOCAL \<and> val \<noteq> ET_POLICY_ERROR)" "\<lambda>val. val"
  unfolding et_open_config_setpolicy_def [abs_def] et_open_config_getpolicy_def [abs_def]
  by (rule config_fieldI) simp_all

interpretation ohost: config_field "\<lambda>c. open_ready c" et_open_config_sethost et_open_config_gethost
  "\<lambda>val. val \<noteq> None \<and> \<not> length (the val) > ET_FUNCNAME_LENGTH - 1" "\<lambda>val. the val"
  unfolding et_open_config_sethost_def [abs_def] et_open_config_gethost_def [abs_def]
  by (rule config_fieldI) simp_all

interpretation onet: config_field "\<lambda>c. open_ready c" et_open_config_setinterface et_open_config_getinterface
  "\<lambda>val. val \<noteq> None \<and> codanetIsDottedDecimal (the val) \<noteq> None \<and> \<not> length (the val) > ET_IPADDRSTRLEN - 1"
  "\<lambda>val. (take (ET_IPADDRSTRLEN - 1) (the val), length (the val) < ET_IPADDRSTRLEN - 1)"
  unfolding et_open_config_setinterface_def [abs_def] et_open_config_getinterface_def [abs_def]
  by (rule config_fieldI) simp_all

interpretation otcp: config_field "\<lambda>c. open_ready c"
  "\<lambda>c (r, s, d). et_open_config_settcp c r s d" et_open_config_gettcp
  "\<lambda>(r, s, d). \<not> (r < 0 \<or> s < 0)" "\<lambda>(r, s, d). (r, s, if d \<noteq> 0 then 1 else d)"
  unfolding et_open_config_settcp_def [abs_def] et_open_config_gettcp_def [abs_def] split_def
  by (rule config_fieldI) simp_all

section \<open>The contract of a list of addresses\<close>

text \<open>
  What the routines that add and remove addresses promise for an address \<open>legal\<close> to both: an address is
  listed once, a list that is \<open>full\<close> takes no new one, and removing undoes adding.
\<close>

locale address_list =
  fixes ready :: "'c \<Rightarrow> bool"
    and addrs :: "'c \<Rightarrow> string list"
    and put :: "string list \<Rightarrow> 'c \<Rightarrow> 'c"
    and add :: "'c option \<Rightarrow> string option \<Rightarrow> (int \<times> 'c option) option"
    and remove :: "'c option \<Rightarrow> string option \<Rightarrow> (int \<times> 'c option) option"
    and legal :: "string \<Rightarrow> bool"
    and full :: "string list \<Rightarrow> bool"
  assumes add_known: "ready c \<Longrightarrow> legal v \<Longrightarrow> v \<in> set (addrs c) \<Longrightarrow> add (Some c) (Some v) = Some (ET_OK, Some c)"
    and add_full: "ready c \<Longrightarrow> legal v \<Longrightarrow> v \<notin> set (addrs c) \<Longrightarrow> full (addrs c) \<Longrightarrow> add (Some c) (Some v) = Some (ET_ERROR, Some c)"
    and add_new: "ready c \<Longrightarrow> legal v \<Longrightarrow> v \<notin> set (addrs c) \<Longrightarrow> \<not> full (addrs c) \<Longrightarrow>
      add (Some c) (Some v) = Some (ET_OK, Some (put (addrs c @ [v]) c))"
    and remove_listed: "ready c \<Longrightarrow> legal v \<Longrightarrow> v \<in> set (addrs c) \<Longrightarrow>
      remove (Some c) (Some v) = Some (ET_OK, Some (put (remove1 v (addrs c)) c))"
    and remove_other: "ready c \<Longrightarrow> legal v \<Longrightarrow> v \<notin> set (addrs c) \<Longrightarrow> remove (Some c) (Some v) = Some (ET_OK, Some c)"
    and put_addrs: "addrs (put as c) = as"
    and put_put: "put as (put bs c) = put as c"
    and put_same: "put (addrs c) c = c"
    and put_ready: "ready (put as c) = ready c"
begin

lemma add_distinct:
  assumes "ready c" "legal v" "distinct (addrs c)"
  shows "\<exists>status c'. add (Some c) (Some v) = Some (status, Some c') \<and> ready c' \<and> distinct (addrs c') \<and>
    set (addrs c') = (if status = ET_OK then insert v (set (addrs c)) else set (addrs c))"
  using assms add_known add_full add_new put_addrs put_ready by (cases "v \<in> set (addrs c)"; cases "full (addrs c)") auto

lemma remove_distinct:
  assumes "ready c" "legal v" "distinct (addrs c)"
  shows "\<exists>c'. remove (Some c) (Some v) = Some (ET_OK, Some c') \<and> ready c' \<and> distinct (addrs c') \<and> set (addrs c') = set (addrs c) - {v}"
  using assms remove_listed remove_other put_addrs put_ready by (cases "v \<in> set (addrs c)") auto

lemma add_remove:
  assumes "ready c" "legal v" "v \<notin> set (addrs c)" "\<not> full (addrs c)"
  shows "Option.bind (add (Some c) (Some v)) (\<lambda>(status, c'). remove c' (Some v)) = Some (ET_OK, Some c)"
proof -
  have "remove (Some (put (addrs c @ [v]) c)) (Some v) = Some (ET_OK, Some (put (remove1 v (addrs c @ [v])) (put (addrs c @ [v]) c)))"
    using remove_listed [of "put (addrs c @ [v]) c" v] assms by (simp add: put_addrs put_ready)
  moreover have "remove1 v (addrs c @ [v]) = addrs c" using assms(3) by (simp add: remove1_append)
  ultimately show ?thesis using assms add_new by (simp add: put_put put_same)
qed

end

definition multicast_legal :: "string \<Rightarrow> bool" where
  "multicast_legal v \<longleftrightarrow> 7 \<le> length v \<and> length v < ET_IPADDRSTRLEN \<and> (\<exists>n. firstnumber v = Some n \<and> 224 \<le> n \<and> n \<le> 239)"

definition dotted_multicast :: "string \<Rightarrow> bool" where
  "dotted_multicast v \<longleftrightarrow> multicast_legal v \<and> (\<exists>i. codanetIsDottedDecimal v = Some i \<and> 224 \<le> i ! 0 \<and> i ! 0 \<le> 239)"

interpretation sys_multicast: address_list "\<lambda>c. sys_ready c" sc_mcastaddrs "\<lambda>as c. c\<lparr>sc_mcastaddrs := as\<rparr>"
  et_system_config_addmulticast et_system_config_removemulticast multicast_legal "\<lambda>as. length as = ET_MAXADDRESSES"
  by unfold_locales
    (auto simp: et_system_config_addmulticast_def et_system_config_removemulticast_def with_addrs_def multicast_def multicast_legal_def
      add_address_def remove1_idem)

interpretation open_multicast: address_list "\<lambda>c. open_ready c" oc_mcastaddrs "\<lambda>as c. c\<lparr>oc_mcastaddrs := as\<rparr>"
  et_open_config_addmulticast et_open_config_removemulticast dotted_multicast "\<lambda>as. length as = ET_MAXADDRESSES"
  by unfold_locales
    (auto simp: et_open_config_addmulticast_def et_open_config_removemulticast_def with_open_def multicast_def multicast_legal_def
      dotted_multicast_def add_address_def remove1_idem)

interpretation open_broadcast: address_list "\<lambda>c. open_ready c" oc_bcastaddrs "\<lambda>as c. c\<lparr>oc_bcastaddrs := as\<rparr>"
  "et_open_config_addbroadcast nets" et_open_config_removebroadcast
  "\<lambda>v. v \<noteq> ET_SUBNET_ALL \<and> codanetIsDottedDecimal v \<noteq> None \<and> length v < ET_IPADDRSTRLEN" "\<lambda>as. False" for nets
  by unfold_locales
    (auto simp: et_open_config_addbroadcast_def et_open_config_removebroadcast_def with_open_def remove1_idem)


section \<open>Addresses as they are documented\<close>

text \<open>Four numbers from 0 to 255 without leading zeros, with dots in between and nothing else.\<close>

definition octet :: "string \<Rightarrow> bool" where
  "octet p \<longleftrightarrow> p \<noteq> [] \<and> length p \<le> 3 \<and> list_all is_digit p \<and> number p \<le> 255 \<and> (p = ''0'' \<or> hd p \<noteq> CHR ''0'')"

definition dotted4 :: "string \<Rightarrow> string \<Rightarrow> string \<Rightarrow> string \<Rightarrow> string" where
  "dotted4 p q r s = p @ ''.'' @ q @ ''.'' @ r @ ''.'' @ s"

definition dotted :: "string \<Rightarrow> bool" where
  "dotted v \<longleftrightarrow> (\<exists>p q r s. octet p \<and> octet q \<and> octet r \<and> octet s \<and> v = dotted4 p q r s)"

definition class_d :: "string \<Rightarrow> bool" where
  "class_d v \<longleftrightarrow> (\<exists>p q r s. octet p \<and> octet q \<and> octet r \<and> octet s \<and> v = dotted4 p q r s \<and> 224 \<le> number p \<and> number p \<le> 239)"

lemma digit_dot [simp]: "\<not> is_digit (CHR ''.'')" "\<not> is_space (CHR ''.'')"
  by (simp_all add: is_digit_def is_space_def)

lemma digit_kinds: "is_digit c \<Longrightarrow> \<not> is_space c \<and> c \<noteq> CHR ''-'' \<and> c \<noteq> CHR ''+'' \<and> c \<noteq> CHR ''.''"
  by (auto simp: is_digit_def is_space_def)

lemma scan_number_octet:
  assumes "octet p" "rest = [] \<or> \<not> is_digit (hd rest)"
  shows "scan_number (p @ rest) = Some (number p, rest)"
proof -
  from assms(1) have p: "p \<noteq> []" "\<forall>x \<in> set p. is_digit x" "is_digit (hd p)" by (auto simp: octet_def list_all_iff)
  have t: "takeWhile is_digit rest = []" "dropWhile is_digit rest = rest" using assms(2) by (cases rest; simp)+
  have tw: "takeWhile is_digit (p @ rest) = p" "dropWhile is_digit (p @ rest) = rest"
    using takeWhile_append2 [of p is_digit rest] dropWhile_append2 [of p is_digit rest] p(2) t by simp_all
  have tp: "takeWhile is_digit p = p" using p(2) by (simp add: takeWhile_eq_all_conv)
  have n: "number (p @ rest) = number p" unfolding number_def tw(1) tp ..
  have d: "dropWhile is_space (p @ rest) = p @ rest" using digit_kinds [OF p(3)] p(1) by (cases p) simp_all
  have h: "(case p @ rest of [] \<Rightarrow> (False, []) | c # cs \<Rightarrow> if c = CHR ''-'' then (True, cs) else if c = CHR ''+'' then (False, cs)
      else (False, p @ rest)) = (False, p @ rest)" using digit_kinds [OF p(3)] p(1) by (cases p) simp_all
  show ?thesis unfolding scan_number_def Let_def d h by (simp only: prod.case tw n p(1) if_False)
qed

lemma number_nonneg: "0 \<le> number p"
proof -
  have digit: "(0 :: int) \<le> of_char c - 48" if "is_digit c" for c
  proof -
    have "48 \<le> (of_char c :: nat)" using that by (simp add: is_digit_def)
    then have "48 \<le> int (of_char c)" by linarith
    then show ?thesis by (simp only: of_nat_of_char diff_ge_0_iff_ge)
  qed
  have "0 \<le> foldl (\<lambda>n c. 10 * n + (of_char c - 48)) k xs" if "0 \<le> k" "\<forall>c \<in> set xs. is_digit c" for k :: int and xs
    using that
  proof (induction xs arbitrary: k)
    case (Cons c xs)
    then have "0 \<le> 10 * k + (of_char c - 48)" using digit [of c] by simp
    from Cons.IH [OF this] Cons.prems show ?case by simp
  qed simp
  moreover have "\<forall>c \<in> set (takeWhile is_digit p). is_digit c" using set_takeWhileD by fastforce
  ultimately show ?thesis unfolding number_def by blast
qed

lemma dotted4_scan:
  assumes "octet p" "octet q" "octet r" "octet s"
  shows "codanetIsDottedDecimal (dotted4 p q r s) = Some [number p, number q, number r, number s]"
proof -
  have "scan_dotted 4 (dotted4 p q r s) = [number p, number q, number r, number s]"
    using scan_number_octet [OF assms(1), of "''.'' @ q @ ''.'' @ r @ ''.'' @ s"] scan_number_octet [OF assms(2), of "''.'' @ r @ ''.'' @ s"]
      scan_number_octet [OF assms(3), of "''.'' @ s"] scan_number_octet [OF assms(4), of "[]"]
    by (simp add: dotted4_def eval_nat_numeral)
  then show ?thesis using assms number_nonneg [of p] number_nonneg [of q] number_nonneg [of r] number_nonneg [of s]
    by (simp add: codanetIsDottedDecimal_def octet_def)
qed

lemma dotted4_length:
  assumes "octet p" "octet q" "octet r" "octet s"
  shows "length (dotted4 p q r s) < ET_IPADDRSTRLEN" "7 \<le> length (dotted4 p q r s)"
proof -
  have "1 \<le> length x \<and> length x \<le> 3" if "octet x" for x using that by (cases x) (simp_all add: octet_def)
  from this [OF assms(1)] this [OF assms(2)] this [OF assms(3)] this [OF assms(4)]
  show "length (dotted4 p q r s) < ET_IPADDRSTRLEN" "7 \<le> length (dotted4 p q r s)" by (simp_all add: dotted4_def)
qed

lemma firstnumber_dotted4:
  assumes "octet p"
  shows "firstnumber (dotted4 p q r s) = Some (number p)"
proof -
  from assms obtain c cs where p: "p = c # cs" "is_digit c" "\<forall>x \<in> set p. is_digit x" by (cases p) (auto simp: octet_def list_all_iff)
  have "takeWhile (\<lambda>c. c \<noteq> CHR ''.'') (dotted4 p q r s) = p"
    using p(3) digit_kinds unfolding dotted4_def by (subst takeWhile_append2) auto
  moreover have "atoi p = number p" using p(1,2) digit_kinds [OF p(2)] by (simp add: atoi_def)
  ultimately show ?thesis using assms by (simp add: firstnumber_def octet_def dotted4_def)
qed

lemma dotted_accepted: "dotted v \<Longrightarrow> codanetIsDottedDecimal v \<noteq> None \<and> length v < ET_IPADDRSTRLEN"
  unfolding dotted_def using dotted4_scan dotted4_length by fastforce

lemma dotted_class_d:
  assumes "dotted v"
  shows "class_d v \<longleftrightarrow> (\<exists>i. codanetIsDottedDecimal v = Some i \<and> 224 \<le> i ! 0 \<and> i ! 0 \<le> 239)"
proof
  assume "class_d v"
  then show "\<exists>i. codanetIsDottedDecimal v = Some i \<and> 224 \<le> i ! 0 \<and> i ! 0 \<le> 239" unfolding class_d_def using dotted4_scan by fastforce
next
  assume r: "\<exists>i. codanetIsDottedDecimal v = Some i \<and> 224 \<le> i ! 0 \<and> i ! 0 \<le> 239"
  from assms obtain p q r s where v: "octet p" "octet q" "octet r" "octet s" "v = dotted4 p q r s" unfolding dotted_def by blast
  with r dotted4_scan [OF v(1-4)] show "class_d v" unfolding class_d_def by (intro exI [of _ p] exI [of _ q] exI [of _ r] exI [of _ s]) simp
qed

section \<open>Sequences of settings\<close>

datatype open_setting = OpenWait int | OpenCast int | OpenTTL int | OpenMode int | OpenDebug int | OpenPort int
  | OpenServerport int | OpenTimeout "int \<times> int" | OpenPolicy int | OpenHost "string option" | OpenInterface "string option"
  | OpenTcp int int int | AddBroadcast "string list option" "string option" | RemoveBroadcast "string option"
  | AddMulticast "string option" | RemoveMulticast "string option"

fun apply_open :: "open_setting \<Rightarrow> et_open_config option \<Rightarrow> (int \<times> et_open_config option) option" where
  "apply_open (OpenWait v) c = Some (et_open_config_setwait c v)"
| "apply_open (OpenCast v) c = Some (et_open_config_setcast c v)"
| "apply_open (OpenTTL v) c = Some (et_open_config_setTTL c v)"
| "apply_open (OpenMode v) c = Some (et_open_config_setmode c v)"
| "apply_open (OpenDebug v) c = Some (et_open_config_setdebugdefault c v)"
| "apply_open (OpenPort v) c = Some (et_open_config_setport c v)"
| "apply_open (OpenServerport v) c = Some (et_open_config_setserverport c v)"
| "apply_open (OpenTimeout v) c = Some (et_open_config_settimeout c v)"
| "apply_open (OpenPolicy v) c = Some (et_open_config_setpolicy c v)"
| "apply_open (OpenHost v) c = Some (et_open_config_sethost c v)"
| "apply_open (OpenInterface v) c = Some (et_open_config_setinterface c v)"
| "apply_open (OpenTcp r s d) c = Some (et_open_config_settcp c r s d)"
| "apply_open (AddBroadcast nets v) c = et_open_config_addbroadcast nets c v"
| "apply_open (RemoveBroadcast v) c = et_open_config_removebroadcast c v"
| "apply_open (AddMulticast v) c = et_open_config_addmulticast c v"
| "apply_open (RemoveMulticast v) c = et_open_config_removemulticast c v"

fun apply_opens :: "open_setting list \<Rightarrow> et_open_config option \<Rightarrow> et_open_config option option" where
  "apply_opens [] c = Some c"
| "apply_opens (st # sts) c = Option.bind (apply_open st c) (\<lambda>(status, c'). apply_opens sts c')"

text \<open>The host's broadcast addresses are in dot-decimal form and differ.\<close>

definition nets_ok :: "string list option \<Rightarrow> bool" where
  "nets_ok nets \<longleftrightarrow> (case nets of None \<Rightarrow> True | Some addrs \<Rightarrow> distinct addrs \<and> (\<forall>a \<in> set addrs. dotted a))"

text \<open>
  The arguments for which the calls keep to their documentation: an address to be added is in dot-decimal
  form or the code's test refuses it, so that it is none of the strings with something behind the
  address, or with leading zeros, which the test lets through; and the first number of an address to be
  removed fits its array.
\<close>

definition addable :: "string option \<Rightarrow> bool" where
  "addable val \<longleftrightarrow> (case val of None \<Rightarrow> True | Some a \<Rightarrow> dotted a \<or> codanetIsDottedDecimal a = None)"

fun setting_ok :: "open_setting \<Rightarrow> bool" where
  "setting_ok (AddBroadcast nets v) \<longleftrightarrow> nets_ok nets \<and> (v = Some ET_SUBNET_ALL \<or> addable v)"
| "setting_ok (AddMulticast v) \<longleftrightarrow> addable v"
| "setting_ok (RemoveMulticast v) \<longleftrightarrow> (case v of None \<Rightarrow> True | Some a \<Rightarrow> length (takeWhile (\<lambda>c. c \<noteq> CHR ''.'') a) \<le> 3)"
| "setting_ok (OpenInterface v) \<longleftrightarrow> addable v"
| "setting_ok st \<longleftrightarrow> True"

definition modes_ok :: "et_open_config \<Rightarrow> bool" where
  "modes_ok c \<longleftrightarrow> oc_init c = ET_STRUCT_OK \<and> oc_wait c \<in> {ET_OPEN_NOWAIT, ET_OPEN_WAIT} \<and>
     oc_cast c \<in> {ET_MULTICAST, ET_BROADCAST, ET_DIRECT, ET_BROADANDMULTICAST} \<and> 0 \<le> oc_ttl c \<and> oc_ttl c \<le> 254 \<and>
     oc_mode c \<in> {ET_HOST_AS_LOCAL, ET_HOST_AS_REMOTE} \<and> ET_DEBUG_NONE \<le> oc_debug_default c \<and> oc_debug_default c \<le> ET_DEBUG_INFO \<and>
     oc_policy c \<in> {ET_POLICY_FIRST, ET_POLICY_LOCAL, ET_POLICY_ERROR}"

definition net_ok :: "et_open_config \<Rightarrow> bool" where
  "net_ok c \<longleftrightarrow> 1024 \<le> oc_udpport c \<and> oc_udpport c \<le> 65535 \<and> 1024 \<le> oc_serverport c \<and> oc_serverport c \<le> 65535 \<and>
     0 \<le> oc_tcpSendBufSize c \<and> 0 \<le> oc_tcpRecvBufSize c \<and> oc_tcpNoDelay c \<in> {0, 1} \<and>
     length (oc_host c) < ET_FUNCNAME_LENGTH \<and> length (oc_interface c) < ET_IPADDRSTRLEN \<and>
     (oc_interface c \<noteq> [] \<longrightarrow> dotted (oc_interface c))"

definition addrs_ok :: "et_open_config \<Rightarrow> bool" where
  "addrs_ok c \<longleftrightarrow> distinct (oc_bcastaddrs c) \<and> (\<forall>a \<in> set (oc_bcastaddrs c). dotted a) \<and>
     distinct (oc_mcastaddrs c) \<and> length (oc_mcastaddrs c) \<le> ET_MAXADDRESSES \<and> (\<forall>a \<in> set (oc_mcastaddrs c). class_d a)"

lemmas open_setter_defs = et_open_config_setwait_def et_open_config_setcast_def et_open_config_setTTL_def
  et_open_config_setmode_def et_open_config_setdebugdefault_def et_open_config_setport_def
  et_open_config_setserverport_def et_open_config_settimeout_def et_open_config_setpolicy_def
  et_open_config_sethost_def et_open_config_setinterface_def et_open_config_settcp_def

lemma with_open_runs:
  assumes "P c" "\<And>v. val = Some v \<Longrightarrow> \<exists>status c1. f v c = Some (status, c1) \<and> P c1"
  shows "\<exists>status c1. with_open (Some c) val f = Some (status, Some c1) \<and> P c1"
proof (cases "val = None \<or> oc_init c \<noteq> ET_STRUCT_OK")
  case True
  then show ?thesis using assms(1) by (auto simp: with_open_def split: option.splits)
next
  case False
  then obtain v where v: "val = Some v" by auto
  with False show ?thesis using assms(2) [OF v] by (auto simp: with_open_def)
qed

text \<open>The routines that change the lists of addresses change nothing else.\<close>

definition new_addrs :: "et_open_config \<Rightarrow> et_open_config \<Rightarrow> bool" where
  "new_addrs c c1 \<longleftrightarrow> (\<exists>as bs. c1 = c\<lparr>oc_bcastaddrs := as, oc_mcastaddrs := bs\<rparr>)"

lemma new_addrs_simps [simp]:
  "new_addrs c c" "new_addrs c (c\<lparr>oc_bcastaddrs := as\<rparr>)" "new_addrs c (c\<lparr>oc_mcastaddrs := bs\<rparr>)"
proof -
  show "new_addrs c c" unfolding new_addrs_def by (intro exI [of _ "oc_bcastaddrs c"] exI [of _ "oc_mcastaddrs c"]) simp
  show "new_addrs c (c\<lparr>oc_bcastaddrs := as\<rparr>)" unfolding new_addrs_def by (intro exI [of _ as] exI [of _ "oc_mcastaddrs c"]) simp
  show "new_addrs c (c\<lparr>oc_mcastaddrs := bs\<rparr>)" unfolding new_addrs_def by (intro exI [of _ "oc_bcastaddrs c"] exI [of _ bs]) simp
qed

lemma new_addrsD: "new_addrs c c1 \<Longrightarrow> modes_ok c1 = modes_ok c \<and> net_ok c1 = net_ok c"
  unfolding new_addrs_def by (elim exE, hypsubst) (simp add: modes_ok_def net_ok_def)

lemma addbroadcast_ok:
  assumes "addrs_ok c" "nets_ok nets" "val = Some ET_SUBNET_ALL \<or> addable val"
  shows "\<exists>status c1. et_open_config_addbroadcast nets (Some c) val = Some (status, Some c1) \<and> addrs_ok c1 \<and> new_addrs c c1"
  unfolding et_open_config_addbroadcast_def
proof (rule with_open_runs, simp add: assms(1))
  fix v assume v: "val = Some v"
  have n: "distinct (case nets of None \<Rightarrow> [] | Some addrs \<Rightarrow> addrs)" "\<forall>a \<in> set (case nets of None \<Rightarrow> [] | Some addrs \<Rightarrow> addrs). dotted a"
    using assms(2) by (auto simp: nets_ok_def split: option.splits)
  have all: "addrs_ok (c\<lparr>oc_bcastaddrs := (case nets of None \<Rightarrow> [] | Some addrs \<Rightarrow> addrs)\<rparr>)" using assms(1) n by (simp add: addrs_ok_def)
  have add: "addrs_ok (c\<lparr>oc_bcastaddrs := oc_bcastaddrs c @ [v]\<rparr>)" if "v \<notin> set (oc_bcastaddrs c)" "dotted v"
    using assms(1) that by (simp add: addrs_ok_def)
  have "v = ET_SUBNET_ALL \<or> codanetIsDottedDecimal v = None \<or> dotted v \<and> length v < ET_IPADDRSTRLEN"
    using assms(3) v dotted_accepted by (auto simp: addable_def)
  then show "\<exists>status c1. (if v = ET_SUBNET_ALL then Some (ET_OK, c\<lparr>oc_bcastaddrs := (case nets of None \<Rightarrow> [] | Some addrs \<Rightarrow> addrs)\<rparr>)
       else if codanetIsDottedDecimal v = None then Some (ET_ERROR, c)
       else if List.member (oc_bcastaddrs c) v then Some (ET_OK, c)
       else if length v \<ge> ET_IPADDRSTRLEN then None
       else Some (ET_OK, c\<lparr>oc_bcastaddrs := oc_bcastaddrs c @ [v]\<rparr>)) = Some (status, c1) \<and> addrs_ok c1 \<and> new_addrs c c1"
    using all add assms(1) by (auto simp del: de_Morgan_conj)
qed

lemma removebroadcast_ok:
  assumes "addrs_ok c"
  shows "\<exists>status c1. et_open_config_removebroadcast (Some c) val = Some (status, Some c1) \<and> addrs_ok c1 \<and> new_addrs c c1"
  unfolding et_open_config_removebroadcast_def
proof (rule with_open_runs, simp add: assms)
  fix v
  have "addrs_ok (c\<lparr>oc_bcastaddrs := remove1 v (oc_bcastaddrs c)\<rparr>)"
    using assms set_remove1_subset [of v "oc_bcastaddrs c"] by (auto simp: addrs_ok_def)
  moreover have "addrs_ok (c\<lparr>oc_bcastaddrs := []\<rparr>)" using assms by (simp add: addrs_ok_def)
  ultimately show "\<exists>status c1. (if oc_bcastaddrs c = [] then Some (ET_OK, c)
       else if v = ET_SUBNET_ALL then Some (ET_OK, c\<lparr>oc_bcastaddrs := []\<rparr>)
       else if codanetIsDottedDecimal v = None then Some (ET_ERROR, c)
       else Some (ET_OK, c\<lparr>oc_bcastaddrs := remove1 v (oc_bcastaddrs c)\<rparr>)) = Some (status, c1) \<and> addrs_ok c1 \<and> new_addrs c c1"
    using assms by simp
qed

lemma addmulticast_ok:
  assumes "addrs_ok c" "addable val"
  shows "\<exists>status c1. et_open_config_addmulticast (Some c) val = Some (status, Some c1) \<and> addrs_ok c1 \<and> new_addrs c c1"
  unfolding et_open_config_addmulticast_def
proof (rule with_open_runs, simp add: assms(1))
  fix v assume v: "val = Some v"
  have add: "addrs_ok (c\<lparr>oc_mcastaddrs := snd (add_address (oc_mcastaddrs c) v)\<rparr>)" if "class_d v"
    using assms(1) that by (simp add: addrs_ok_def add_address_def)
  have d: "class_d v" if "codanetIsDottedDecimal v = Some i" "224 \<le> i ! 0" "i ! 0 \<le> 239" for i
    using assms(2) that v dotted_class_d [of v] by (auto simp: addable_def)
  show "\<exists>status c1. (if length v \<ge> ET_IPADDRSTRLEN \<or> length v < 7 then Some (ET_ERROR, c)
       else case codanetIsDottedDecimal v of
              None \<Rightarrow> Some (ET_ERROR, c)
            | Some intVals \<Rightarrow>
                if intVals ! 0 < 224 \<or> intVals ! 0 > 239 then Some (ET_ERROR, c)
                else let (status, addrs) = add_address (oc_mcastaddrs c) v in Some (status, c\<lparr>oc_mcastaddrs := addrs\<rparr>)) =
      Some (status, c1) \<and> addrs_ok c1 \<and> new_addrs c c1"
  proof (cases "codanetIsDottedDecimal v")
    case (Some i)
    then show ?thesis using add d [OF Some] assms(1) by (simp add: split_def Let_def not_less)
  qed (use assms(1) in simp)
qed

lemma removemulticast_ok:
  assumes "addrs_ok c" "setting_ok (RemoveMulticast val)"
  shows "\<exists>status c1. et_open_config_removemulticast (Some c) val = Some (status, Some c1) \<and> addrs_ok c1 \<and> new_addrs c c1"
  unfolding et_open_config_removemulticast_def
proof (rule with_open_runs, simp add: assms(1))
  fix v assume v: "val = Some v"
  have r: "addrs_ok (c\<lparr>oc_mcastaddrs := remove1 v (oc_mcastaddrs c)\<rparr>)" "addrs_ok (c\<lparr>oc_mcastaddrs := oc_mcastaddrs c\<rparr>)"
    using assms(1) set_remove1_subset [of v "oc_mcastaddrs c"] by (auto simp: addrs_ok_def length_remove1)
  have "firstnumber v \<noteq> None" using assms(2) v by (simp add: firstnumber_def Let_def)
  then obtain n where n: "firstnumber v = Some n" by auto
  show "\<exists>status c1. map_option (\<lambda>(status, addrs). (status, c\<lparr>oc_mcastaddrs := addrs\<rparr>))
         (multicast (oc_mcastaddrs c) (Some v) (\<lambda>v. (ET_OK, remove1 v (oc_mcastaddrs c)))) = Some (status, c1) \<and> addrs_ok c1 \<and> new_addrs c c1"
    using r n by (simp add: multicast_def)
qed

lemma config_set_runs:
  assumes "P c" "legal \<Longrightarrow> P (upd c)"
  shows "\<exists>status c1. Some (config_set ini (Some c) legal upd) = Some (status, Some c1) \<and> P c1"
  using assms by (auto simp: config_set_def)

definition open_fields_ok :: "et_open_config \<Rightarrow> bool" where
  "open_fields_ok c \<longleftrightarrow> modes_ok c \<and> net_ok c \<and> addrs_ok c"

lemma debug_levels: "\<not> (v \<noteq> ET_DEBUG_NONE \<and> v \<noteq> ET_DEBUG_SEVERE \<and> v \<noteq> ET_DEBUG_ERROR \<and> v \<noteq> ET_DEBUG_WARN \<and> v \<noteq> ET_DEBUG_INFO) \<Longrightarrow>
    ET_DEBUG_NONE \<le> v \<and> v \<le> ET_DEBUG_INFO"
  by auto

lemmas open_field_defs = open_fields_ok_def modes_ok_def net_ok_def addrs_ok_def

lemma apply_open_fields_ok:
  assumes "open_fields_ok c" "setting_ok st"
  shows "\<exists>status c1. apply_open st (Some c) = Some (status, Some c1) \<and> open_fields_ok c1"
proof (cases st)
  case (AddBroadcast nets val)
  then show ?thesis using addbroadcast_ok [of c nets val] new_addrsD assms unfolding open_fields_ok_def by fastforce
next
  case (RemoveBroadcast val)
  then show ?thesis using removebroadcast_ok [of c val] new_addrsD assms unfolding open_fields_ok_def by fastforce
next
  case (AddMulticast val)
  then show ?thesis using addmulticast_ok [of c val] new_addrsD assms unfolding open_fields_ok_def by fastforce
next
  case (RemoveMulticast val)
  then show ?thesis using removemulticast_ok [of c val] new_addrsD assms unfolding open_fields_ok_def by fastforce
next
  case (OpenDebug v)
  show ?thesis unfolding OpenDebug apply_open.simps et_open_config_setdebugdefault_def
    by (rule config_set_runs [where P = open_fields_ok, OF assms(1)]) (drule debug_levels, use assms(1) in \<open>simp add: open_field_defs\<close>)
next
  case (OpenInterface v)
  have "dotted (the v)" if "v \<noteq> None" "codanetIsDottedDecimal (the v) \<noteq> None" using assms(2) that OpenInterface by (auto simp: addable_def)
  then show ?thesis unfolding OpenInterface apply_open.simps et_open_config_setinterface_def
    by (intro config_set_runs [where P = open_fields_ok, OF assms(1)]) (use assms(1) in \<open>auto simp: open_field_defs\<close>)
next
  case (OpenWait v)
  show ?thesis unfolding OpenWait apply_open.simps et_open_config_setwait_def
    by (rule config_set_runs [where P = open_fields_ok, OF assms(1)]) (use assms(1) in \<open>(simp add: open_field_defs; fail) | auto simp: open_field_defs\<close>)
next
  case (OpenCast v)
  show ?thesis unfolding OpenCast apply_open.simps et_open_config_setcast_def
    by (rule config_set_runs [where P = open_fields_ok, OF assms(1)]) (use assms(1) in \<open>(simp add: open_field_defs; fail) | auto simp: open_field_defs\<close>)
next
  case (OpenTTL v)
  show ?thesis unfolding OpenTTL apply_open.simps et_open_config_setTTL_def
    by (rule config_set_runs [where P = open_fields_ok, OF assms(1)]) (use assms(1) in \<open>(simp add: open_field_defs; fail) | auto simp: open_field_defs\<close>)
next
  case (OpenMode v)
  show ?thesis unfolding OpenMode apply_open.simps et_open_config_setmode_def
    by (rule config_set_runs [where P = open_fields_ok, OF assms(1)]) (use assms(1) in \<open>(simp add: open_field_defs; fail) | auto simp: open_field_defs\<close>)
next
  case (OpenPort v)
  show ?thesis unfolding OpenPort apply_open.simps et_open_config_setport_def
    by (rule config_set_runs [where P = open_fields_ok, OF assms(1)]) (use assms(1) in \<open>(simp add: open_field_defs; fail) | auto simp: open_field_defs\<close>)
next
  case (OpenServerport v)
  show ?thesis unfolding OpenServerport apply_open.simps et_open_config_setserverport_def
    by (rule config_set_runs [where P = open_fields_ok, OF assms(1)]) (use assms(1) in \<open>(simp add: open_field_defs; fail) | auto simp: open_field_defs\<close>)
next
  case (OpenTimeout v)
  show ?thesis unfolding OpenTimeout apply_open.simps et_open_config_settimeout_def
    by (rule config_set_runs [where P = open_fields_ok, OF assms(1)]) (use assms(1) in \<open>(simp add: open_field_defs; fail) | auto simp: open_field_defs\<close>)
next
  case (OpenPolicy v)
  show ?thesis unfolding OpenPolicy apply_open.simps et_open_config_setpolicy_def
    by (rule config_set_runs [where P = open_fields_ok, OF assms(1)]) (use assms(1) in \<open>(simp add: open_field_defs; fail) | auto simp: open_field_defs\<close>)
next
  case (OpenHost v)
  show ?thesis unfolding OpenHost apply_open.simps et_open_config_sethost_def
    by (rule config_set_runs [where P = open_fields_ok, OF assms(1)]) (use assms(1) in \<open>(simp add: open_field_defs; fail) | auto simp: open_field_defs\<close>)
next
  case (OpenTcp r t d)
  show ?thesis unfolding OpenTcp apply_open.simps et_open_config_settcp_def
    by (rule config_set_runs [where P = open_fields_ok, OF assms(1)]) (use assms(1) in \<open>(simp add: open_field_defs; fail) | auto simp: open_field_defs\<close>)
qed

lemma apply_opens_fields_ok:
  "open_fields_ok c \<Longrightarrow> \<forall>st \<in> set sts. setting_ok st \<Longrightarrow> \<exists>c1. apply_opens sts (Some c) = Some (Some c1) \<and> open_fields_ok c1"
proof (induction sts arbitrary: c)
  case (Cons st sts)
  from apply_open_fields_ok [OF Cons.prems(1), of st] Cons.prems(2) obtain status c1 where
    "apply_open st (Some c) = Some (status, Some c1)" "open_fields_ok c1" by auto
  then show ?case using Cons.IH [of c1] Cons.prems(2) by simp
qed simp

text \<open>
  C40. Whatever sequence of calls is made on a fresh configuration for opening a system, in any order,
  accepted or refused, where every address that is added is in the documented dot-decimal form or is
  refused by the code's test, and the first number of an address to be removed fits its array: every
  call returns, the modes, ports, sizes and strings of the configuration stay in their documented
  ranges, the addresses are in dot-decimal form and listed once, and the multicast addresses start with
  224 to 239.
\<close>

theorem open_config_after_settings:
  assumes "et_open_config_init nets True = (ET_OK, Some c0)" and "nets_ok nets" and "\<forall>st \<in> set sts. setting_ok st"
  shows "\<exists>c1. apply_opens sts (Some c0) = Some (Some c1) \<and> modes_ok c1 \<and> net_ok c1 \<and> addrs_ok c1"
proof -
  have "open_fields_ok c0"
    using assms(1,2) by (auto simp: et_open_config_init_def open_fields_ok_def modes_ok_def net_ok_def addrs_ok_def nets_ok_def
        split: option.splits)
  from apply_opens_fields_ok [OF this assms(3)] show ?thesis unfolding open_fields_ok_def by blast
qed

text \<open>
  What the check of an address lets through: a string with more behind the address, and an address
  with leading zeros, which \<open>et_open_config_addmulticast\<close> accepts and with which the removal, like the
  addition of a broadcast address, overruns an array.
\<close>

lemma dotted_decimal_junk: "codanetIsDottedDecimal ''1.2.3.4 and more'' = Some [1, 2, 3, 4]"
  by code_simp

lemma dotted_decimal_zeros: "codanetIsDottedDecimal ''0224.0.0.1'' = Some [224, 0, 0, 1]"
  by code_simp

lemma addmulticast_zeros:
  assumes "open_ready c" "oc_mcastaddrs c = []"
  shows "\<exists>c'. et_open_config_addmulticast (Some c) (Some ''0224.0.0.1'') = Some (ET_OK, Some c') \<and>
    et_open_config_removemulticast (Some c') (Some ''0224.0.0.1'') = None"
  using assms dotted_decimal_zeros
  by (simp add: et_open_config_addmulticast_def et_open_config_removemulticast_def with_open_def add_address_def multicast_def firstnumber_def)

lemma addbroadcast_zeros:
  assumes "open_ready c" "''00000000000001.2.3.4'' \<notin> set (oc_bcastaddrs c)"
  shows "et_open_config_addbroadcast nets (Some c) (Some ''00000000000001.2.3.4'') = None"
proof -
  have "codanetIsDottedDecimal ''00000000000001.2.3.4'' = Some [1, 2, 3, 4]" by code_simp
  then show ?thesis using assms by (simp add: et_open_config_addbroadcast_def with_open_def)
qed

theorem open_config_after_settings_witness:
  "\<exists>c1. apply_opens [OpenWait 1, OpenCast 7, AddMulticast (Some ''239.200.0.0''), AddBroadcast None (Some ''10.0.0.255'')]
      (snd (et_open_config_init (Some [''129.57.29.255'']) True)) = Some (Some c1) \<and>
    modes_ok c1 \<and> net_ok c1 \<and> addrs_ok c1"
proof -
  let ?nets = "Some [''129.57.29.255'']"
  let ?sts = "[OpenWait 1, OpenCast 7, AddMulticast (Some ''239.200.0.0''), AddBroadcast None (Some ''10.0.0.255'')]"
  obtain c0 where c0: "et_open_config_init ?nets True = (ET_OK, Some c0)" by (simp add: et_open_config_init_def)
  have o: "octet ''129''" "octet ''57''" "octet ''29''" "octet ''255''" "octet ''239''" "octet ''200''" "octet ''0''" "octet ''10''"
    by code_simp+
  have d: "dotted (dotted4 p q r s)" if "octet p" "octet q" "octet r" "octet s" for p q r s using that unfolding dotted_def by blast
  have "dotted ''129.57.29.255''" "dotted ''239.200.0.0''" "dotted ''10.0.0.255''"
    using d [OF o(1-4)] d [OF o(5,6,7,7)] d [OF o(8,7,7,4)] by (simp_all add: dotted4_def)
  then have "nets_ok ?nets" "\<forall>st \<in> set ?sts. setting_ok st" by (simp_all add: nets_ok_def addable_def)
  from open_config_after_settings [OF c0 this] show ?thesis using c0 by simp
qed

end
