(* ===== verification/ET_Local.thy ===== *)
theory ET_Local
  imports ET_Clean ET_Start ET_AttachAPI ET_OpenConfig
begin

text \<open>
  Opening and closing an ET system by a user's process on the same host (src/libsrc/et\_local.c), and
  the calls of et\_common.c that choose between local and remote users.

  An id joins what a process has of its own with the shared memory, so that opening puts the memory
  \<open>lo_mem\<close> of the system into the id. The calls that map the file, the time, the answer to a request
  over the network, the heartbeats read while waiting, and whether the process' two threads start in
  time are fields of \<open>open_env\<close>; \<open>lo_waiting\<close> and \<open>lo_starting\<close> are what other processes do to the shared memory
  before the slot of the process is chosen and while its threads start. The code stores a process id
  it never set, \<open>lo_pid\<close>. Programs are built for 64 bits. After a call that frees the id the result
  holds what is left in the shared memory.
\<close>

section \<open>Waiting for the system\<close>

abbreviation (input) "ET_ERROR_JAVASYS \<equiv> (-19::int)"

text \<open>Times are in nanoseconds; \<open>None\<close> waits forever. The code's times are floating point numbers of seconds.\<close>

abbreviation (input) "ET_BEAT \<equiv> (500000000::int)"

fun wait_beats :: "int option \<Rightarrow> 32 word \<Rightarrow> 32 word list \<Rightarrow> int option" where
  "wait_beats totalwait oldheartbt [] = None"
| "wait_beats totalwait oldheartbt (newheartbt # beats) =
     (if oldheartbt \<noteq> newheartbt then Some ET_OK
      else if totalwait \<noteq> None \<and> the totalwait < 0 then Some ET_ERROR_TIMEOUT
      else wait_beats (map_option (\<lambda>t. t - ET_BEAT) totalwait) oldheartbt beats)"

definition et_wait_for_system :: "bool \<Rightarrow> (int \<times> int) option \<Rightarrow> 32 word list \<Rightarrow> et_id \<Rightarrow> (int \<times> et_id) option" where
  "et_wait_for_system responds timeout beats eid =
     (if responds then Some (ET_OK, eid\<lparr>id_alive := True\<rparr>)
      else if id_alive eid then Some (ET_OK, eid)
      else
        let totalwait = (case timeout of
              None \<Rightarrow> None
            | Some (sec, nsec) \<Rightarrow> if sec = 0 \<and> nsec = 0 then None else Some (1000000000 * sec + nsec))
        in case beats of
             [] \<Rightarrow> None
           | oldheartbt # bs \<Rightarrow>
               map_option (\<lambda>status. (status, if status = ET_OK then eid\<lparr>id_alive := True\<rparr> else eid))
                 (wait_beats (map_option (\<lambda>t. t - ET_BEAT) totalwait) oldheartbt bs))"

section \<open>Opening\<close>

record open_env =
  lo_tries :: "(int \<times> uint64) list"
  lo_start :: uint64
  lo_mem :: et_id
  lo_responds :: bool
  lo_beats :: "32 word list"
  lo_waiting :: "et_id \<Rightarrow> et_id"
  lo_pid :: int
  lo_heartbeat :: bool
  lo_heartmonitor :: bool
  lo_starting :: "et_id \<Rightarrow> et_id"

text \<open>Tries to map the file, each with its result and the time since the first, in microseconds.\<close>

fun attach_tries :: "int \<Rightarrow> uint64 \<Rightarrow> (int \<times> uint64) list \<Rightarrow> int option" where
  "attach_tries wait dtimeout [] = None"
| "attach_tries wait dtimeout ((err, elapsed) # tries) =
     (if err = ET_OK then Some ET_OK
      else if wait \<noteq> ET_OPEN_WAIT then Some err
      else if elapsed > dtimeout then Some err
      else attach_tries wait dtimeout tries)"

definition open_timeout :: "int \<times> int \<Rightarrow> uint64" where
  "open_timeout t =
     (let (sec, nsec) = t in
      if sec = 0 \<and> nsec = 0 then 1000000000
      else 1000000 * of_int sec + of_int (sgn nsec * (\<bar>nsec\<bar> div 1000)))"

definition map_memory :: "et_id \<Rightarrow> et_id \<Rightarrow> et_id" where
  "map_memory mem eid = eid\<lparr>id_sys := id_sys mem, id_stats := id_stats mem, id_histogram := id_histogram mem, id_events := id_events mem\<rparr>"

fun find_slot :: "et_proc list \<Rightarrow> nat \<Rightarrow> nat option" where
  "find_slot [] i = None"
| "find_slot (p # ps) i = (if pr_num p = -1 then Some i else find_slot ps (Suc i))"

definition take_slot :: "nat \<Rightarrow> uint64 \<Rightarrow> int \<Rightarrow> et_id \<Rightarrow> et_id" where
  "take_slot i dstart pid eid =
     upd_proc (eid\<lparr>id_proc := int i, id_sys := (id_sys eid)\<lparr>sy_nprocesses := sy_nprocesses (id_sys eid) + 1\<rparr>\<rparr>) (int i)
       (\<lambda>p. p\<lparr>pr_time := dstart, pr_num := int i, pr_pid := pid, pr_et_status := ET_PROC_ETOK\<rparr>)"

definition leave_slot :: "nat \<Rightarrow> et_id \<Rightarrow> et_id" where
  "leave_slot i eid = close_proc i eid"

definition open_slot :: "open_env \<Rightarrow> nat \<Rightarrow> et_id \<Rightarrow> int \<times> et_id" where
  "open_slot env i eid =
     (let eid1 = lo_starting env (take_slot i (lo_start env) (lo_pid env) eid) in
      if \<not> lo_heartbeat env then (ET_ERROR, leave_slot i eid1)
      else if \<not> lo_heartmonitor env then (ET_ERROR, leave_slot i eid1)
      else (ET_OK, upd_proc eid1 (int i) (\<lambda>p. p\<lparr>pr_status := ET_PROC_OPEN\<rparr>)))"

definition etl_open :: "open_env \<Rightarrow> et_open_config \<Rightarrow> et_id \<Rightarrow> (int \<times> et_id) option" where
  "etl_open env config eid0 =
     (let eid1 = eid0\<lparr>id_debug := oc_debug_default config\<rparr> in
      case attach_tries (oc_wait config) (open_timeout (oc_timeout config)) (lo_tries env) of
        None \<Rightarrow> None
      | Some err \<Rightarrow>
          if err \<noteq> ET_OK then Some (err, eid1)
          else
            let eid2 = map_memory (lo_mem env) eid1; sys = id_sys eid2 in
            if id_nselects eid2 \<noteq> sy_nselects sys then Some (ET_ERROR, eid2)
            else if and (sy_bitInfo sys) ET_BIT64_MASK = 0 then Some (ET_ERROR, eid2)
            else
              let eid3 = eid2\<lparr>id_locality := ET_LOCAL, id_nevents := sc_nevents (sy_config sys),
                    id_esize := sc_event_size (sy_config sys), id_port := sy_port sys, id_ethost := sy_host sys\<rparr>
              in case et_wait_for_system (lo_responds env)
                        (Some (if oc_wait config = ET_OPEN_WAIT then oc_timeout config else (2, 0))) (lo_beats env) eid3 of
                   None \<Rightarrow> None
                 | Some (status, eid4) \<Rightarrow>
                     if status \<noteq> ET_OK then Some (status, eid4)
                     else
                       let eid5 = lo_waiting env eid4; n = nprocesses_max eid5; procs = sy_proc (id_sys eid5) in
                       case find_slot (take n procs) 0 of
                         None \<Rightarrow> if length procs < n then None else Some (ET_ERROR, eid5)
                       | Some i \<Rightarrow> Some (open_slot env i eid5))"

text \<open>Looking at a system's memory without opening it; \<open>attach\<close> is the result of mapping the file.\<close>

definition et_look :: "int \<Rightarrow> et_id \<Rightarrow> bool \<Rightarrow> et_id \<Rightarrow> string option \<Rightarrow> int \<times> et_id option" where
  "et_look attach mem shared eid0 filename =
     (case filename of
        None \<Rightarrow> (ET_ERROR, Some eid0)
      | Some f \<Rightarrow>
          if length f > ET_FILENAME_LENGTH - 1 then (ET_ERROR, Some eid0)
          else
            let eid1 = et_id_init eid0 in
            if attach \<noteq> ET_OK then (attach, None)
            else
              let eid2 = map_memory mem eid1; sys = id_sys eid2 in
              if id_version eid2 \<noteq> sy_version sys then (ET_ERROR, None)
              else if id_nselects eid2 \<noteq> sy_nselects sys then (ET_ERROR, None)
              else (ET_OK, Some (eid2\<lparr>id_nevents := sc_nevents (sy_config sys), id_esize := sc_event_size (sy_config sys),
                     id_port := sy_port sys, id_ethost := sy_host sys,
                     id_locality := (if shared then ET_LOCAL else ET_LOCAL_NOSHARE)\<rparr>)))"

definition et_unlook :: "et_id \<Rightarrow> int \<times> et_id" where
  "et_unlook eid = (if id_locality eid = ET_REMOTE then (ET_ERROR, eid) else (ET_OK, eid))"

section \<open>Closing\<close>

definition own_proc :: "et_id \<Rightarrow> et_proc option" where
  "own_proc eid = (if 0 \<le> id_proc eid \<and> nat (id_proc eid) < length (sy_proc (id_sys eid))
     then Some (sy_proc (id_sys eid) ! nat (id_proc eid)) else None)"

definition etl_alive :: "et_id \<Rightarrow> bool" where
  "etl_alive eid = id_alive eid"

text \<open>The values of \<open>alive\<close> seen while waiting.\<close>

fun etl_wait_for_alive :: "bool list \<Rightarrow> int option" where
  "etl_wait_for_alive [] = None"
| "etl_wait_for_alive (alive # rest) = (if alive then Some ET_OK else etl_wait_for_alive rest)"

definition set_proc_status :: "int \<Rightarrow> et_id \<Rightarrow> et_id" where
  "set_proc_status v eid = upd_proc eid (id_proc eid) (\<lambda>p. p\<lparr>pr_status := v\<rparr>)"

text \<open>
  Closing stops the process' heartbeat and heart monitor, which takes time, and only then looks at the
  attachments: \<open>meanwhile\<close> is what the other processes do to the shared memory until then. In particular the
  system takes a process without a heartbeat for dead and cleans up after it. \<open>etl_close\<close> is a
  close nobody interferes with.
\<close>

definition etl_close_while :: "(et_id \<Rightarrow> et_id) \<Rightarrow> et_id \<Rightarrow> (int \<times> et_id) option" where
  "etl_close_while meanwhile eid0 =
     (let eid = eid0\<lparr>id_closed := True\<rparr> in
      if id_proc eid = ET_SYS then Some (et_system_close eid)
      else if own_proc eid = None then None
      else
        let eid1 = meanwhile (set_proc_status ET_PROC_OPEN (set_proc_status ET_PROC_CLOSED eid)); n = nattachments_max eid1 in
        case own_proc eid1 of
          None \<Rightarrow> None
        | Some p \<Rightarrow>
            if etl_alive eid1 \<and> length (pr_att p) < n then None
            else if etl_alive eid1 \<and> list_ex (\<lambda>i. pr_att p ! i \<noteq> -1) [0..<n] then Some (ET_ERROR, eid1)
            else Some (ET_OK, close_proc (nat (id_proc eid1)) eid1))"

definition etl_close :: "et_id \<Rightarrow> (int \<times> et_id) option" where
  "etl_close eid = etl_close_while id eid"

text \<open>The loop that detaches every attachment of the process, whatever the detaching returns.\<close>

fun detach_own :: "(et_id \<Rightarrow> int \<Rightarrow> int \<times> et_id) \<Rightarrow> nat list \<Rightarrow> et_id \<Rightarrow> et_id option" where
  "detach_own etr [] eid = Some eid"
| "detach_own etr (i # is) eid =
     (case own_proc eid of
        None \<Rightarrow> None
      | Some p \<Rightarrow>
          if \<not> i < length (pr_att p) then None
          else if pr_att p ! i = -1 then detach_own etr is eid
          else case et_station_detach etr eid (int i) of
                 None \<Rightarrow> None
               | Some (r, eid1) \<Rightarrow> detach_own etr is eid1)"

definition et_close ::
  "(et_id \<Rightarrow> (int \<times> et_id) option) \<Rightarrow> (et_id \<Rightarrow> (int \<times> et_id) option) \<Rightarrow> et_id option \<Rightarrow> (int \<times> et_id option) option" where
  "et_close etr etn etid =
     (case etid of
        None \<Rightarrow> Some (ET_ERROR, None)
      | Some eid \<Rightarrow> map_option (apsnd Some)
          (if id_locality eid = ET_REMOTE then etr eid
           else if id_locality eid = ET_LOCAL_NOSHARE then etn eid
           else etl_close eid))"

definition etl_forcedclose ::
  "(et_id \<Rightarrow> (int \<times> et_id) option) \<Rightarrow> (et_id \<Rightarrow> (int \<times> et_id) option) \<Rightarrow> (et_id \<Rightarrow> int \<Rightarrow> int \<times> et_id) \<Rightarrow> et_id \<Rightarrow>
   (int \<times> et_id option) option" where
  "etl_forcedclose etr etn etr_detach eid =
     (if id_proc eid = ET_SYS then Some (apsnd Some (et_system_close eid))
      else case (if etl_alive eid then detach_own etr_detach [0..<nattachments_max eid] eid else Some eid) of
             None \<Rightarrow> None
           | Some eid1 \<Rightarrow> et_close etr etn (Some eid1))"

definition set_kill :: "et_id \<Rightarrow> et_id" where
  "set_kill eid = eid\<lparr>id_sys := (id_sys eid)\<lparr>sy_bitInfo := or (sy_bitInfo (id_sys eid)) ET_KILL_MASK\<rparr>\<rparr>"

definition etl_kill :: "(et_id \<Rightarrow> int \<Rightarrow> int \<times> et_id) \<Rightarrow> et_id \<Rightarrow> (int \<times> et_id) option" where
  "etl_kill etr_detach eid =
     (if id_proc eid = ET_SYS then Some (ET_OK, set_kill eid)
      else case (if etl_alive eid then detach_own etr_detach [0..<nattachments_max eid] eid else Some eid) of
             None \<Rightarrow> None
           | Some eid1 \<Rightarrow>
               (case own_proc eid1 of
                  None \<Rightarrow> None
                | Some p \<Rightarrow> Some (ET_OK, close_proc (nat (id_proc eid1)) (set_kill (eid1\<lparr>id_closed := True\<rparr>)))))"

section \<open>Heartbeat and heart monitor of a process\<close>

definition et_heartbeat :: "et_id \<Rightarrow> et_id" where
  "et_heartbeat eid = upd_proc eid (id_proc eid) (\<lambda>p. p\<lparr>pr_heartbeat := (pr_heartbeat p + 1) mod 0xFFFFFFFF\<rparr>)"

definition unlock_lists :: "et_station \<Rightarrow> et_station" where
  "unlock_lists ps = ps\<lparr>st_list_out := (if l_mutex (st_list_out ps) then et_llist_unlock (st_list_out ps) else st_list_out ps),
     st_list_in := (if l_mutex (st_list_in ps) then et_llist_unlock (st_list_in ps) else st_list_in ps)\<rparr>"

text \<open>Unlocking the lists of the stations of the process, and waking its readers.\<close>

fun free_readers :: "(et_id \<Rightarrow> int \<Rightarrow> int \<times> et_id) \<Rightarrow> nat list \<Rightarrow> et_id \<Rightarrow> et_id option" where
  "free_readers etr [] eid = Some eid"
| "free_readers etr (i # is) eid =
     (case own_proc eid of
        None \<Rightarrow> None
      | Some p \<Rightarrow>
          if \<not> i < length (pr_att p) then None
          else if pr_att p ! i = -1 then free_readers etr is eid
          else if \<not> i < length (sy_attach (id_sys eid)) then None
          else case stat_ix (id_stats eid) (at_stat (sy_attach (id_sys eid) ! i)) of
                 None \<Rightarrow> None
               | Some s \<Rightarrow>
                   case et_wakeup_attachment etr (Some (upd_stat eid s unlock_lists)) (int i) of
                     Some (r, Some eid1) \<Rightarrow> free_readers etr is eid1
                   | _ \<Rightarrow> None)"

text \<open>
  One round of \<open>et_heartmonitor\<close>: whether the process takes the system for dead, the last heartbeat it saw,
  which is -1 at first, and the id.
\<close>

definition et_heartmonitor ::
  "(et_id \<Rightarrow> int \<Rightarrow> int \<times> et_id) \<Rightarrow> bool \<times> 32 word \<times> et_id \<Rightarrow> (bool \<times> 32 word \<times> et_id) option" where
  "et_heartmonitor etr st =
     (let (disconnected, oldheartbt, eid) = st; newheartbt = sy_heartbeat (id_sys eid); me = id_proc eid in
      if oldheartbt = newheartbt then
        if \<not> disconnected then
          map_option (\<lambda>eid'. (True, oldheartbt, eid'))
            (free_readers etr [0..<nattachments_max eid]
              (upd_proc (eid\<lparr>id_alive := False\<rparr>) me (\<lambda>p. p\<lparr>pr_et_status := ET_PROC_ETDEAD\<rparr>)))
        else Some st
      else if disconnected then
        Some (False, newheartbt, (upd_proc eid me (\<lambda>p. p\<lparr>pr_et_status := ET_PROC_ETOK\<rparr>))\<lparr>id_alive := True\<rparr>)
      else Some (disconnected, newheartbt, eid))"

section \<open>Calls of local and remote users\<close>

definition et_forcedclose ::
  "(et_id \<Rightarrow> (int \<times> et_id) option) \<Rightarrow> (et_id \<Rightarrow> (int \<times> et_id) option) \<Rightarrow> (et_id \<Rightarrow> (int \<times> et_id) option) \<Rightarrow>
   (et_id \<Rightarrow> (int \<times> et_id) option) \<Rightarrow> (et_id \<Rightarrow> int \<Rightarrow> int \<times> et_id) \<Rightarrow> et_id option \<Rightarrow> (int \<times> et_id option) option" where
  "et_forcedclose etrf etnf etr etn etr_detach etid =
     (case etid of
        None \<Rightarrow> Some (ET_ERROR, None)
      | Some eid \<Rightarrow>
          if id_locality eid = ET_REMOTE then map_option (apsnd Some) (etrf eid)
          else if id_locality eid = ET_LOCAL_NOSHARE then map_option (apsnd Some) (etnf eid)
          else etl_forcedclose etr etn etr_detach eid)"

definition et_kill ::
  "(et_id \<Rightarrow> (int \<times> et_id) option) \<Rightarrow> (et_id \<Rightarrow> (int \<times> et_id) option) \<Rightarrow> (et_id \<Rightarrow> int \<Rightarrow> int \<times> et_id) \<Rightarrow> et_id option \<Rightarrow>
   (int \<times> et_id option) option" where
  "et_kill etr etn etr_detach etid =
     (case etid of
        None \<Rightarrow> Some (ET_ERROR, None)
      | Some eid \<Rightarrow> map_option (apsnd Some)
          (if id_locality eid = ET_REMOTE then etr eid
           else if id_locality eid = ET_LOCAL_NOSHARE then etn eid
           else etl_kill etr_detach eid))"

definition et_alive :: "(et_id \<Rightarrow> bool) \<Rightarrow> (et_id \<Rightarrow> bool) \<Rightarrow> et_id option \<Rightarrow> bool" where
  "et_alive etr etn etid =
     (case etid of
        None \<Rightarrow> False
      | Some eid \<Rightarrow>
          if id_locality eid = ET_REMOTE then etr eid
          else if id_locality eid = ET_LOCAL_NOSHARE then etn eid
          else etl_alive eid)"

definition et_wait_for_alive ::
  "(et_id \<Rightarrow> int option) \<Rightarrow> (et_id \<Rightarrow> int option) \<Rightarrow> bool list \<Rightarrow> et_id \<Rightarrow> int option" where
  "et_wait_for_alive etr etn alives eid =
     (if id_locality eid = ET_REMOTE then etr eid
      else if id_locality eid = ET_LOCAL_NOSHARE then etn eid
      else etl_wait_for_alive alives)"

text \<open>
  Where the system is: \<open>fl_find\<close> is the result of the search by broadcast and multicast and the host that
  answered, \<open>fl_local\<close> tells whether a host is this one, \<open>fl_shared\<close> whether processes can share mutexes.
\<close>

record find_env =
  fl_find :: "int \<times> string"
  fl_local :: "string \<Rightarrow> bool"
  fl_shared :: bool

definition local_kind :: "find_env \<Rightarrow> int" where
  "local_kind fe = (if fl_shared fe then ET_LOCAL else ET_LOCAL_NOSHARE)"

definition et_findlocality :: "find_env \<Rightarrow> et_open_config \<Rightarrow> int" where
  "et_findlocality fe config =
     (if oc_mode config = ET_HOST_AS_REMOTE then ET_REMOTE
      else if oc_host config = ET_HOST_REMOTE then ET_REMOTE
      else if oc_host config = ET_HOST_LOCAL \<or> oc_host config = ''localhost'' then local_kind fe
      else if oc_host config = ET_HOST_ANYWHERE then
        let (err, ethost) = fl_find fe in
        if err = ET_ERROR \<or> err = ET_ERROR_TIMEOUT then err
        else if err = ET_ERROR_TOOMANY then err
        else if fl_local fe ethost then local_kind fe
        else ET_REMOTE
      else if fl_local fe (oc_host config) then local_kind fe
      else ET_REMOTE)"

definition et_open ::
  "(et_open_config \<Rightarrow> et_id \<Rightarrow> (int \<times> et_id) option) \<Rightarrow> (et_open_config \<Rightarrow> et_id \<Rightarrow> (int \<times> et_id) option) \<Rightarrow>
   string list option \<Rightarrow> find_env \<Rightarrow> open_env \<Rightarrow> et_id \<Rightarrow> string option \<Rightarrow> et_open_config option \<Rightarrow> (int \<times> et_id option) option" where
  "et_open etr etn nets fe env eid0 filename openconfig =
     (let config = (case openconfig of None \<Rightarrow> the (snd (et_open_config_init nets True)) | Some c \<Rightarrow> c) in
      case filename of
        None \<Rightarrow> Some (ET_ERROR, None)
      | Some f \<Rightarrow>
          if oc_init config \<noteq> ET_STRUCT_OK then Some (ET_ERROR, None)
          else if length f > ET_FILENAME_LENGTH - 1 then Some (ET_ERROR, None)
          else
            let eid1 = the (snd (et_system_setdebug (Some (et_id_init eid0)) (oc_debug_default config)));
                locality = et_findlocality fe config;
                finish = map_option (\<lambda>(status, e). (status, if status \<noteq> ET_OK then None else Some e))
            in if locality = ET_LOCAL then
                 finish (case etl_open env config eid1 of
                           None \<Rightarrow> None
                         | Some (status, e) \<Rightarrow> if status = ET_ERROR_JAVASYS then etr config e else Some (status, e))
               else if locality = ET_REMOTE then finish (etr config eid1)
               else if locality = ET_LOCAL_NOSHARE then finish (etn config eid1)
               else if locality = ET_ERROR_TOOMANY \<and> oc_policy config = ET_POLICY_ERROR then Some (ET_ERROR, None)
               else
                 finish (case (if fl_shared fe then etl_open env config eid1 else etn config eid1) of
                           None \<Rightarrow> None
                         | Some (status, e) \<Rightarrow> if status \<noteq> ET_OK then etr config e else Some (status, e)))"


section \<open>Forced close\<close>

lemma own_procI: "id_proc eid = int i \<Longrightarrow> i < length (sy_proc (id_sys eid)) \<Longrightarrow> own_proc eid = Some (sy_proc (id_sys eid) ! i)"
  by (simp add: own_proc_def)

text \<open>Slot \<open>i\<close> of \<open>e'\<close> is that of \<open>e\<close> without the attachments \<open>A\<close>, and the other slots are the same.\<close>

definition slot_without :: "nat \<Rightarrow> nat set \<Rightarrow> et_id \<Rightarrow> et_id \<Rightarrow> bool" where
  "slot_without i A e e' \<longleftrightarrow> length (sy_proc (id_sys e')) = length (sy_proc (id_sys e)) \<and>
     (\<forall>k. k \<noteq> i \<longrightarrow> sy_proc (id_sys e') ! k = sy_proc (id_sys e) ! k) \<and>
     (\<exists>n as. sy_proc (id_sys e') ! i = (sy_proc (id_sys e) ! i)\<lparr>pr_nattachments := n, pr_att := as\<rparr> \<and>
        length as = length (pr_att (sy_proc (id_sys e) ! i)) \<and>
        (\<forall>j < length as. as ! j = (if j \<in> A then -1 else pr_att (sy_proc (id_sys e) ! i) ! j)))"

lemma slot_without_empty: "slot_without i {} e e"
  unfolding slot_without_def
  by (intro conjI allI impI exI [of _ "pr_nattachments (sy_proc (id_sys e) ! i)"] exI [of _ "pr_att (sy_proc (id_sys e) ! i)"]) simp_all

lemma slot_without_trans:
  assumes "slot_without i A a b" "slot_without i B b c"
  shows "slot_without i (A \<union> B) a c"
proof -
  from assms obtain n as m bs where
    1: "length (sy_proc (id_sys b)) = length (sy_proc (id_sys a))" "\<forall>k. k \<noteq> i \<longrightarrow> sy_proc (id_sys b) ! k = sy_proc (id_sys a) ! k"
      "sy_proc (id_sys b) ! i = (sy_proc (id_sys a) ! i)\<lparr>pr_nattachments := n, pr_att := as\<rparr>" "length as = length (pr_att (sy_proc (id_sys a) ! i))"
      "\<forall>j < length as. as ! j = (if j \<in> A then -1 else pr_att (sy_proc (id_sys a) ! i) ! j)"
    and 2: "length (sy_proc (id_sys c)) = length (sy_proc (id_sys b))" "\<forall>k. k \<noteq> i \<longrightarrow> sy_proc (id_sys c) ! k = sy_proc (id_sys b) ! k"
      "sy_proc (id_sys c) ! i = (sy_proc (id_sys b) ! i)\<lparr>pr_nattachments := m, pr_att := bs\<rparr>" "length bs = length (pr_att (sy_proc (id_sys b) ! i))"
      "\<forall>j < length bs. bs ! j = (if j \<in> B then -1 else pr_att (sy_proc (id_sys b) ! i) ! j)"
    unfolding slot_without_def by blast
  have "sy_proc (id_sys c) ! i = (sy_proc (id_sys a) ! i)\<lparr>pr_nattachments := m, pr_att := bs\<rparr>" using 1(3) 2(3) by simp
  moreover have "length bs = length (pr_att (sy_proc (id_sys a) ! i))" using 1(3,4) 2(4) by simp
  moreover have "\<forall>j < length bs. bs ! j = (if j \<in> A \<union> B then -1 else pr_att (sy_proc (id_sys a) ! i) ! j)"
    using 1(3,5) 2(4,5) by simp
  moreover have "length (sy_proc (id_sys c)) = length (sy_proc (id_sys a))" "\<forall>k. k \<noteq> i \<longrightarrow> sy_proc (id_sys c) ! k = sy_proc (id_sys a) ! k"
    using 1(1,2) 2(1,2) by simp_all
  ultimately show ?thesis unfolding slot_without_def by blast
qed

lemma slot_without_note:
  assumes "i < length (sy_proc (id_sys e))" "sy_proc (id_sys e') = sy_proc (id_sys (upd_proc e (int i) (note_proc (-1) a (-1))))"
  shows "slot_without i {a} e e'"
  using assms unfolding slot_without_def upd_proc_def note_proc_def
  by (auto simp: nth_list_update intro!: exI [of _ "pr_nattachments (sy_proc (id_sys e) ! i) - 1"]
      exI [of _ "(pr_att (sy_proc (id_sys e) ! i))[a := -1]"])

lemma slot_without_att:
  "slot_without i A e e' \<Longrightarrow> j < length (pr_att (sy_proc (id_sys e) ! i)) \<Longrightarrow>
     pr_att (sy_proc (id_sys e') ! i) ! j = (if j \<in> A then -1 else pr_att (sy_proc (id_sys e) ! i) ! j)"
  "slot_without i A e e' \<Longrightarrow> length (pr_att (sy_proc (id_sys e') ! i)) = length (pr_att (sy_proc (id_sys e) ! i))"
  unfolding slot_without_def by fastforce+

lemma detach_own_order:
  assumes "in_order eid gs" "id_cleanup eid \<noteq> 1" "id_proc eid = int i" "i < length (sy_proc (id_sys eid))"
    "\<forall>j \<in> set js. j < length (pr_att (sy_proc (id_sys eid) ! i))" "distinct js" "noted eid i js \<subseteq> live eid"
  shows "\<exists>eid'. detach_own etr js eid = Some eid' \<and> in_order eid' gs \<and> live eid' = live eid - noted eid i js \<and> settled eid eid' \<and>
    slot_without i (noted eid i js) eid eid' \<and> freed (noted eid i js) eid eid'"
  using assms
proof (induction js arbitrary: eid)
  case Nil
  then show ?case by (simp add: noted_def freed_empty slot_without_empty)
next
  case (Cons j js)
  note own = own_procI [OF Cons.prems(3,4)]
  show ?case
  proof (cases "pr_att (sy_proc (id_sys eid) ! i) ! j = -1")
    case True
    then have "noted eid i (j # js) = noted eid i js" by (auto simp: noted_def)
    then show ?thesis using Cons True own by simp
  next
    case False
    then have n: "noted eid i (j # js) = insert j (noted eid i js)" by (auto simp: noted_def)
    then have j: "j \<in> live eid" using Cons.prems(7) by simp
    from station_detach_live [OF Cons.prems(1) j, of etr] obtain eid1 where
      d: "et_station_detach etr eid (int j) = Some (ET_OK, eid1)" "in_order eid1 gs" "live eid1 = live eid - {j}" "settled eid eid1"
        "sy_proc (id_sys eid1) = sy_proc (id_sys (upd_proc eid (int i) (note_proc (-1) j (-1))))"
        "\<forall>k. ev_owner (id_events eid1 k) = (if k \<in> set (owned_by eid (int j)) then ET_SYS else ev_owner (id_events eid k))"
      using Cons.prems(2,3) by (metis (no_types, lifting))
    have s1: "slot_without i {j} eid eid1" by (rule slot_without_note [OF Cons.prems(4) d(5)])
    note at = slot_without_att [OF s1]
    have nn: "noted eid1 i js = noted eid i js"
    proof -
      have "pr_att (sy_proc (id_sys eid1) ! i) ! k = pr_att (sy_proc (id_sys eid) ! i) ! k" if "k \<in> set js" for k
        using at(1) [of k] Cons.prems(5,6) that by auto
      then show ?thesis by (auto simp: noted_def)
    qed
    have p1: "id_cleanup eid1 \<noteq> 1" "id_proc eid1 = int i" "i < length (sy_proc (id_sys eid1))"
      using d(4) Cons.prems(2-4) s1 by (simp_all add: settled_def slot_without_def)
    moreover have "\<forall>k \<in> set js. k < length (pr_att (sy_proc (id_sys eid1) ! i))" using Cons.prems(5) at(2) by simp
    moreover have "noted eid1 i js \<subseteq> live eid1"
      using Cons.prems(6,7) n unfolding nn d(3) by (auto simp: noted_def)
    ultimately obtain eid' where r: "detach_own etr js eid1 = Some eid'" "in_order eid' gs" "live eid' = live eid1 - noted eid1 i js" "settled eid1 eid'"
      "slot_without i (noted eid1 i js) eid1 eid'" "freed (noted eid1 i js) eid1 eid'"
      using Cons.IH [OF d(2)] Cons.prems(6) by auto
    have "detach_own etr (j # js) eid = Some eid'" using False own d(1) r(1) Cons.prems(5) by simp
    moreover have "freed ({j} \<union> noted eid i js) eid eid'"
      using freed_trans [OF freed_owned [OF d(6)] r(6)] d(4) unfolding nn by (simp add: settled_def nevents_max_def)
    moreover have "slot_without i ({j} \<union> noted eid i js) eid eid'"
      using slot_without_trans [OF s1 r(5)] unfolding nn .
    ultimately show ?thesis
      using r(2-4) d(3) settled_trans [OF d(4) r(4)] unfolding nn n by (intro exI [of _ eid']) auto
  qed
qed

lemma close_proc_order:
  assumes "in_order eid gs"
  shows "in_order ((set_proc_status a (set_proc_status b eid))) gs" "in_order (close_proc i eid) gs" "live (close_proc i eid) = live eid"
    "live (set_proc_status a (set_proc_status b eid)) = live eid"
  by ((rule in_order_other [OF assms]; simp add: close_proc_def set_proc_status_def upd_proc_def)+)


lemma nattachments_max_settled: "settled e e' \<Longrightarrow> nattachments_max e' = nattachments_max e"
  by (simp add: settled_def nattachments_max_def)

lemma status_twice [simp]:
  "id_sys (set_proc_status a (set_proc_status b eid)) = id_sys (set_proc_status a eid)"
  "id_events (set_proc_status a eid) = id_events eid" "id_proc (set_proc_status a eid) = id_proc eid"
  "id_alive (set_proc_status a eid) = id_alive eid" "id_closed (set_proc_status a eid) = id_closed eid"
  by (cases "nat (id_proc eid) < length (sy_proc (id_sys eid))"; simp add: set_proc_status_def upd_proc_def list_update_beyond)+

lemma close_proc_sys:
  assumes "i < length (sy_proc (id_sys e))" "id_proc e = int i"
  shows "sy_proc (id_sys (close_proc i (set_proc_status a e))) = (sy_proc (id_sys e))[i := et_init_process ((sy_proc (id_sys e) ! i)\<lparr>pr_status := a\<rparr>)]"
    "sy_nprocesses (id_sys (close_proc i (set_proc_status a e))) = sy_nprocesses (id_sys e) - 1"
  using assms by (simp_all add: close_proc_def set_proc_status_def upd_proc_def)

lemma close_while_result:
  assumes "id_proc eid = int i" "i < length (sy_proc (id_sys eid))"
    and "e1 = meanwhile (set_proc_status ET_PROC_OPEN (set_proc_status ET_PROC_CLOSED (eid\<lparr>id_closed := True\<rparr>)))"
    and "id_proc e1 = int i" "i < length (sy_proc (id_sys e1))" "nattachments_max e1 \<le> length (pr_att (sy_proc (id_sys e1) ! i))"
  shows "etl_close_while meanwhile eid =
     Some (if id_alive e1 \<and> noted e1 i [0..<nattachments_max e1] \<noteq> {} then (ET_ERROR, e1) else (ET_OK, close_proc i e1))"
proof -
  have "own_proc (eid\<lparr>id_closed := True\<rparr>) \<noteq> None" using assms(1,2) by (simp add: own_proc_def)
  moreover have "list_ex (\<lambda>j. pr_att (sy_proc (id_sys e1) ! i) ! j \<noteq> -1) [0..<nattachments_max e1] \<longleftrightarrow>
      noted e1 i [0..<nattachments_max e1] \<noteq> {}" by (auto simp: noted_def list_ex_iff)
  ultimately show ?thesis
    using assms(1,4,6) own_procI [OF assms(4,5)] unfolding etl_close_while_def assms(3) [symmetric]
    by (simp add: Let_def etl_alive_def assms(3) [symmetric])
qed

text \<open>The id while it is being closed, when nobody interferes.\<close>

abbreviation "closing eid \<equiv> set_proc_status ET_PROC_OPEN (set_proc_status ET_PROC_CLOSED (eid\<lparr>id_closed := True\<rparr>))"

lemma closing_simps:
  assumes "id_proc eid = int i" "i < length (sy_proc (id_sys eid))"
  shows "id_proc (closing eid) = int i" "length (sy_proc (id_sys (closing eid))) = length (sy_proc (id_sys eid))"
    "nattachments_max (closing eid) = nattachments_max eid" "id_alive (closing eid) = id_alive eid" "id_closed (closing eid)"
    "id_locality (closing eid) = id_locality eid"
    "pr_att (sy_proc (id_sys (closing eid)) ! i) = pr_att (sy_proc (id_sys eid) ! i)" "noted (closing eid) i js = noted eid i js"
  using assms by (simp_all add: set_proc_status_def upd_proc_def nattachments_max_def noted_def)

lemma etl_close_result:
  assumes "id_proc eid = int i" "i < length (sy_proc (id_sys eid))" "nattachments_max eid \<le> length (pr_att (sy_proc (id_sys eid) ! i))"
  shows "etl_close eid = Some (if id_alive eid \<and> noted eid i [0..<nattachments_max eid] \<noteq> {} then (ET_ERROR, closing eid)
     else (ET_OK, close_proc i (closing eid)))"
proof -
  note c = closing_simps [OF assms(1,2)]
  show ?thesis unfolding etl_close_def
    using close_while_result [OF assms(1,2), of "closing eid" id] assms(2,3) unfolding c by simp
qed

lemma etl_close_done:
  assumes "id_proc eid = int i" "i < length (sy_proc (id_sys eid))" "nattachments_max eid \<le> length (pr_att (sy_proc (id_sys eid) ! i))"
    "\<not> id_alive eid \<or> noted eid i [0..<nattachments_max eid] = {}"
  shows "etl_close eid = Some (ET_OK, close_proc i (closing eid))"
  using etl_close_result [OF assms(1-3)] assms(4) by auto

lemma forcedclose_works:
  assumes ok: "in_order eid gs" and i: "id_cleanup eid \<noteq> 1" "id_proc eid = int i" "i < length (sy_proc (id_sys eid))"
    and n: "nattachments_max eid \<le> length (pr_att (sy_proc (id_sys eid) ! i))"
    and A: "A = noted eid i [0..<nattachments_max eid]" "A \<subseteq> live eid"
  shows "\<exists>eid'. etl_forcedclose etr etn etr_detach eid = Some (ET_OK, Some eid') \<and> id_closed eid' \<and> in_order (eid'\<lparr>id_closed := False\<rparr>) gs \<and>
    live eid' = live eid - A \<and> freed A eid eid' \<and> pr_num (sy_proc (id_sys eid') ! i) = -1 \<and>
    (\<forall>k. k \<noteq> i \<longrightarrow> sy_proc (id_sys eid') ! k = sy_proc (id_sys eid) ! k) \<and> sy_nprocesses (id_sys eid') = sy_nprocesses (id_sys eid) - 1"
proof -
  let ?n = "nattachments_max eid"
  have "\<forall>j \<in> set [0..<?n]. j < length (pr_att (sy_proc (id_sys eid) ! i))" using n by auto
  from detach_own_order [OF ok i this _ A(2) [unfolded A(1)], of etr_detach] obtain e1 where
    d: "detach_own etr_detach [0..<?n] eid = Some e1" "in_order e1 gs" "live e1 = live eid - A" "settled eid e1" "slot_without i A eid e1" "freed A eid e1"
    unfolding A(1) by auto
  have m: "nattachments_max e1 = ?n" by (rule nattachments_max_settled [OF d(4)])
  have p: "id_proc e1 = int i" "i < length (sy_proc (id_sys e1))" "id_locality e1 = ET_LOCAL" "id_alive eid"
    using d(2,4,5) i ok by (auto simp: settled_def slot_without_def in_order_def tables_def)
  have "noted e1 i [0..<?n] = {}"
  proof -
    have "pr_att (sy_proc (id_sys e1) ! i) ! j = -1" if "j < ?n" for j
      using slot_without_att(1) [OF d(5), of j] that n A(1) by (auto simp: noted_def split: if_splits)
    then show ?thesis by (auto simp: noted_def)
  qed
  then have c: "etl_close e1 = Some (ET_OK, close_proc i (set_proc_status ET_PROC_OPEN (set_proc_status ET_PROC_CLOSED (e1\<lparr>id_closed := True\<rparr>))))"
    using etl_close_done [OF p(1,2)] slot_without_att(2) [OF d(5)] n unfolding m by simp
  define e2 where "e2 = close_proc i (set_proc_status ET_PROC_OPEN (set_proc_status ET_PROC_CLOSED (e1\<lparr>id_closed := True\<rparr>)))"
  have s2: "sy_proc (id_sys e2) = (sy_proc (id_sys e1))[i := et_init_process ((sy_proc (id_sys e1) ! i)\<lparr>pr_status := ET_PROC_OPEN\<rparr>)]"
    "sy_nprocesses (id_sys e2) = sy_nprocesses (id_sys e1) - 1" "id_events e2 = id_events e1" "id_closed e2"
    using p(1,2) by (simp_all add: e2_def close_proc_def set_proc_status_def upd_proc_def)
  have o2: "in_order (e2\<lparr>id_closed := False\<rparr>) gs" "live (e2\<lparr>id_closed := False\<rparr>) = live e1"
    by (rule in_order_other [OF d(2)]; use d(2) in \<open>simp add: e2_def close_proc_def set_proc_status_def upd_proc_def in_order_def\<close>)+
  have "etl_forcedclose etr etn etr_detach eid = Some (ET_OK, Some e2)"
    using i(2) p(3,4) d(1) c by (simp add: etl_forcedclose_def et_close_def etl_alive_def e2_def)
  moreover have "pr_num (sy_proc (id_sys e2) ! i) = -1" using p(2) by (simp add: s2(1) et_init_process_def)
  moreover have "\<forall>k. k \<noteq> i \<longrightarrow> sy_proc (id_sys e2) ! k = sy_proc (id_sys eid) ! k" using d(5) by (simp add: s2(1) slot_without_def)
  moreover have "sy_nprocesses (id_sys e2) = sy_nprocesses (id_sys eid) - 1" using d(4) s2(2) by (simp add: settled_def)
  moreover have "freed A eid e2" using d(6) by (simp add: freed_def s2(3))
  moreover have "live e2 = live eid - A" using o2(2) d(3) by (simp add: live_def)
  ultimately show ?thesis using o2(1) s2(4) by blast
qed

text \<open>
  C7. A forced close of a process whose attachments are all recorded in its slot detaches exactly these,
  gives all events they own back to the system, frees the slot and leaves the tables and the events
  right; the other processes' slots stay as they are.
\<close>

theorem forcedclose_leaves_order:
  assumes "in_order eid gs" "id_cleanup eid \<noteq> 1" "id_proc eid = int i" "i < length (sy_proc (id_sys eid))"
    and "nattachments_max eid \<le> length (pr_att (sy_proc (id_sys eid) ! i))"
    and "A = noted eid i [0..<nattachments_max eid]" "A \<subseteq> live eid"
  shows "\<exists>eid'. etl_forcedclose etr etn etr_detach eid = Some (ET_OK, Some eid') \<and> id_closed eid' \<and> in_order (eid'\<lparr>id_closed := False\<rparr>) gs \<and>
    live eid' = live eid - A \<and> freed A eid eid' \<and> pr_num (sy_proc (id_sys eid') ! i) = -1 \<and>
    (\<forall>k. k \<noteq> i \<longrightarrow> sy_proc (id_sys eid') ! k = sy_proc (id_sys eid) ! k) \<and> sy_nprocesses (id_sys eid') = sy_nprocesses (id_sys eid) - 1"
  by (rule forcedclose_works [OF assms])

section \<open>A close that is refused\<close>

lemma detach_closed:
  assumes "id_closed eid" "id_alive eid" "id_locality eid = ET_LOCAL" "a < ET_ATTACHMENTS_MAX"
  shows "et_station_detach etr eid (int a) = Some (ET_ERROR_CLOSED, eid)"
  using assms by (simp add: et_station_detach_def local_guard_def)

lemma detach_own_closed:
  assumes "id_closed eid" "id_alive eid" "id_locality eid = ET_LOCAL" "id_proc eid = int i" "i < length (sy_proc (id_sys eid))"
    "\<forall>j \<in> set js. j < length (pr_att (sy_proc (id_sys eid) ! i)) \<and> j < ET_ATTACHMENTS_MAX"
  shows "detach_own etr js eid = Some eid"
  using assms(6) detach_closed [OF assms(1-3)] own_procI [OF assms(4,5)] by (induction js) auto

lemma forcedclose_closed:
  assumes "id_closed eid" "id_alive eid" "id_locality eid = ET_LOCAL" "id_proc eid = int i" "i < length (sy_proc (id_sys eid))"
    "nattachments_max eid \<le> length (pr_att (sy_proc (id_sys eid) ! i))" "nattachments_max eid \<le> ET_ATTACHMENTS_MAX"
  shows "\<exists>e2. etl_forcedclose etr etn etr_detach eid =
     Some (if noted eid i [0..<nattachments_max eid] = {} then ET_OK else ET_ERROR, Some e2)"
proof -
  have "detach_own etr_detach [0..<nattachments_max eid] eid = Some eid"
    by (rule detach_own_closed [OF assms(1-5)]) (use assms(6,7) in auto)
  then show ?thesis using etl_close_result [OF assms(4-6)] assms(2-4) by (simp add: etl_forcedclose_def et_close_def etl_alive_def)
qed

text \<open>
  C9. A process that calls \<open>et_close\<close> before it has detached from all stations is refused, as documented,
  but its id counts as closed from then on. Whatever happens to the shared memory afterwards, every
  later detach is refused with \<open>ET_ERROR_CLOSED\<close>, and a later \<open>et_close\<close> or \<open>et_forcedclose\<close> is refused as long as
  the slot of the process notes an attachment: the process can not close any more by what it does
  itself, only after the system has cleaned up its slot.
\<close>

theorem refused_close_is_final:
  assumes "id_proc eid = int i" "i < length (sy_proc (id_sys eid))" "nattachments_max eid \<le> length (pr_att (sy_proc (id_sys eid) ! i))"
    and "id_alive eid" "id_locality eid = ET_LOCAL" "noted eid i [0..<nattachments_max eid] \<noteq> {}"
  shows "\<exists>eid'. etl_close eid = Some (ET_ERROR, eid') \<and> id_closed eid' \<and>
    (\<forall>mem. i < length (sy_proc (id_sys mem)) \<and> nattachments_max mem \<le> length (pr_att (sy_proc (id_sys mem) ! i)) \<and>
        nattachments_max mem \<le> ET_ATTACHMENTS_MAX \<longrightarrow>
      (\<forall>etr_detach a. a < ET_ATTACHMENTS_MAX \<longrightarrow>
         et_station_detach etr_detach (map_memory mem eid') (int a) = Some (ET_ERROR_CLOSED, map_memory mem eid')) \<and>
      (\<exists>e2. etl_close_while (map_memory mem) eid' =
         Some (if noted mem i [0..<nattachments_max mem] = {} then ET_OK else ET_ERROR, e2)) \<and>
      (\<forall>etr etn etr_detach. \<exists>e2. etl_forcedclose etr etn etr_detach (map_memory mem eid') =
         Some (if noted mem i [0..<nattachments_max mem] = {} then ET_OK else ET_ERROR, Some e2)))"
proof -
  note c = closing_simps [OF assms(1,2)]
  have cl: "etl_close eid = Some (ET_ERROR, closing eid)" using etl_close_result [OF assms(1-3)] assms(4,6) by simp
  have il: "i < length (sy_proc (id_sys (closing eid)))" using assms(2) unfolding c .
  have mm: "id_closed (map_memory mem (closing eid))" "id_alive (map_memory mem (closing eid))"
    "id_locality (map_memory mem (closing eid)) = ET_LOCAL" "id_proc (map_memory mem (closing eid)) = int i"
    "nattachments_max (map_memory mem e) = nattachments_max mem" "id_sys (map_memory mem e) = id_sys mem"
    "noted (map_memory mem e) i js = noted mem i js" "id_proc (map_memory mem e) = id_proc e" "id_alive (map_memory mem e) = id_alive e" for mem e js
    using assms(1,4,5) c by (simp_all add: map_memory_def nattachments_max_def noted_def)
  have later: "\<exists>e2. etl_close_while (map_memory mem) (closing eid) =
         Some (if noted mem i [0..<nattachments_max mem] = {} then ET_OK else ET_ERROR, e2)"
    "\<exists>e2. etl_forcedclose etr etn etr_detach (map_memory mem (closing eid)) =
         Some (if noted mem i [0..<nattachments_max mem] = {} then ET_OK else ET_ERROR, Some e2)"
    if "i < length (sy_proc (id_sys mem))" "nattachments_max mem \<le> length (pr_att (sy_proc (id_sys mem) ! i))"
      "nattachments_max mem \<le> ET_ATTACHMENTS_MAX" for mem etr etn etr_detach
  proof -
    let ?e1 = "map_memory mem (closing (closing eid))"
    have "id_proc ?e1 = int i" "id_alive ?e1" using closing_simps(1,4) [OF c(1) il] assms(4) c(4) by (simp_all add: mm(8,9))
    then show "\<exists>e2. etl_close_while (map_memory mem) (closing eid) =
         Some (if noted mem i [0..<nattachments_max mem] = {} then ET_OK else ET_ERROR, e2)"
      using close_while_result [OF c(1) il, of ?e1 "map_memory mem"] that by (simp add: mm(5-7))
    show "\<exists>e2. etl_forcedclose etr etn etr_detach (map_memory mem (closing eid)) =
         Some (if noted mem i [0..<nattachments_max mem] = {} then ET_OK else ET_ERROR, Some e2)"
      using forcedclose_closed [OF mm(1-4), of mem etr etn etr_detach] that by (simp add: mm(5-7))
  qed
  have detach: "et_station_detach etr_detach (map_memory mem (closing eid)) (int a) = Some (ET_ERROR_CLOSED, map_memory mem (closing eid))"
    if "a < ET_ATTACHMENTS_MAX" for mem etr_detach a
    by (rule detach_closed [OF mm(1-3) that])
  show ?thesis
    by (rule exI [of _ "closing eid"]) (intro conjI allI impI cl c(5) detach later; simp)
qed


text \<open>The process of \<open>sample_dead\<close>, alive.\<close>

definition sample_process :: et_id where
  "sample_process = sample_dead\<lparr>id_proc := 0\<rparr>"

lemma sample_process_simps:
  "in_order sample_process [[1]]" "id_cleanup sample_process = 0" "id_proc sample_process = int 0" "0 < length (sy_proc (id_sys sample_process))"
  "nattachments_max sample_process \<le> length (pr_att (sy_proc (id_sys sample_process) ! 0))" "nattachments_max sample_process \<le> ET_ATTACHMENTS_MAX"
  "noted sample_process 0 [0..<nattachments_max sample_process] = {0}" "live sample_process = {0}"
  "id_alive sample_process" "id_locality sample_process = ET_LOCAL"
proof -
  show "in_order sample_process [[1]]" by (rule in_order_other(1) [OF sample_dead_order]) (simp_all add: sample_process_def)
  show "live sample_process = {0}" using sample_dead_tables(1) by (simp add: live_def sample_process_def)
  show "noted sample_process 0 [0..<nattachments_max sample_process] = {0}"
    by (auto simp: noted_def sample_process_def sample_dead_def sample_user_def nattachments_max_def numeral_3_eq_3 nth_list_update split: if_splits)
qed (simp_all add: sample_process_def sample_dead_def sample_user_def nattachments_max_def)

theorem forcedclose_leaves_order_witness:
  "\<exists>eid'. etl_forcedclose (\<lambda>e. None) (\<lambda>e. None) (\<lambda>e a. (ET_ERROR, e)) sample_process = Some (ET_OK, Some eid') \<and> live eid' = {} \<and>
     ev_owner (id_events eid' 2) = ET_SYS"
proof -
  have c: "id_cleanup sample_process \<noteq> 1" by (simp add: sample_process_simps(2))
  have "ev_owner (id_events sample_process 2) = 0" "nevents_max sample_process = 4"
    by (simp_all add: sample_process_def sample_dead_def sample_open_def sample_id_def upd_stat_def Let_def nevents_max_def)
  with forcedclose_leaves_order [OF sample_process_simps(1) c sample_process_simps(3-5) sample_process_simps(7) [symmetric],
      of "\<lambda>e. None" "\<lambda>e. None" "\<lambda>e a. (ET_ERROR, e)"] show ?thesis
    using sample_process_simps(8) by (auto simp: freed_def)
qed

theorem refused_close_is_final_witness:
  "\<exists>eid'. etl_close sample_process = Some (ET_ERROR, eid') \<and>
     et_station_detach (\<lambda>e a. (ET_ERROR, e)) (map_memory sample_process eid') 0 = Some (ET_ERROR_CLOSED, map_memory sample_process eid') \<and>
     (\<exists>e2. etl_close_while (map_memory sample_process) eid' = Some (ET_ERROR, e2))"
proof -
  have ne: "noted sample_process 0 [0..<nattachments_max sample_process] \<noteq> {}" by (simp add: sample_process_simps(7))
  show ?thesis using refused_close_is_final [OF sample_process_simps(3-5,9,10) ne]
  proof (elim exE conjE, goal_cases)
    case (1 eid')
    have "(\<forall>etr_detach a. a < ET_ATTACHMENTS_MAX \<longrightarrow>
         et_station_detach etr_detach (map_memory sample_process eid') (int a) = Some (ET_ERROR_CLOSED, map_memory sample_process eid')) \<and>
       (\<exists>e2. etl_close_while (map_memory sample_process) eid' = Some (ET_ERROR, e2))"
      using spec [OF 1(3), of sample_process] sample_process_simps(4-6) ne by (simp only: if_False simp_thms) blast
    then have "et_station_detach (\<lambda>e a. (ET_ERROR, e)) (map_memory sample_process eid') (int 0) =
        Some (ET_ERROR_CLOSED, map_memory sample_process eid')" "\<exists>e2. etl_close_while (map_memory sample_process) eid' = Some (ET_ERROR, e2)"
      by (metis zero_less_numeral, blast)
    then show ?case using 1(1) by (intro exI [of _ eid']) simp
  qed
qed


section \<open>Opening and closing\<close>

lemma find_slot_Some: "find_slot ps k = Some i \<Longrightarrow> k \<le> i \<and> i - k < length ps \<and> pr_num (ps ! (i - k)) = -1 \<and> (\<forall>j < i - k. pr_num (ps ! j) \<noteq> -1)"
proof (induction ps k rule: find_slot.induct)
  case (2 p ps k)
  show ?case
  proof (cases "pr_num p = -1")
    case False
    then have "find_slot ps (Suc k) = Some i" using 2(2) by simp
    from 2(1) [OF False this] have "Suc k \<le> i" "i - Suc k < length ps" "pr_num (ps ! (i - Suc k)) = -1" "\<forall>j < i - Suc k. pr_num (ps ! j) \<noteq> -1"
      by blast+
    then show ?thesis using False by (auto simp: nth_Cons split: nat.splits) (metis Suc_diff_Suc Suc_le_lessD less_Suc_eq_0_disj nat.inject)+
  qed (use 2(2) in simp)
qed simp

definition free_slot :: "et_proc \<Rightarrow> bool" where
  "free_slot p \<longleftrightarrow> et_init_process p = p"

text \<open>A system that can be opened at once: its file maps, it is of the right kind and it answers.\<close>

definition open_possible :: "open_env \<Rightarrow> et_id \<Rightarrow> bool" where
  "open_possible env eid0 \<longleftrightarrow> (\<exists>t ts. lo_tries env = (ET_OK, t) # ts) \<and> id_nselects eid0 = sy_nselects (id_sys (lo_mem env)) \<and>
     and (sy_bitInfo (id_sys (lo_mem env))) ET_BIT64_MASK \<noteq> 0 \<and> lo_responds env \<and> lo_heartbeat env \<and> lo_heartmonitor env \<and>
     lo_waiting env = id \<and> lo_starting env = id"

lemma etl_open_run:
  assumes "open_possible env eid0" "find_slot (take (nprocesses_max (lo_mem env)) (sy_proc (id_sys (lo_mem env)))) 0 = Some i"
  shows "\<exists>e1. etl_open env config eid0 = Some (ET_OK, e1) \<and> id_proc e1 = int i \<and> id_alive e1 \<and> id_locality e1 = ET_LOCAL \<and>
     id_stats e1 = id_stats (lo_mem env) \<and> id_events e1 = id_events (lo_mem env) \<and> id_closed e1 = id_closed eid0 \<and>
     id_sys e1 = (id_sys (lo_mem env))\<lparr>sy_nprocesses := sy_nprocesses (id_sys (lo_mem env)) + 1,
       sy_proc := (sy_proc (id_sys (lo_mem env)))[i := (sy_proc (id_sys (lo_mem env)) ! i)\<lparr>pr_time := lo_start env, pr_num := int i,
          pr_pid := lo_pid env, pr_et_status := ET_PROC_ETOK, pr_status := ET_PROC_OPEN\<rparr>]\<rparr>"
proof -
  have l: "i < length (sy_proc (id_sys (lo_mem env)))" using find_slot_Some [OF assms(2)] by simp
  let ?e = "(map_memory (lo_mem env) (eid0\<lparr>id_debug := oc_debug_default config\<rparr>))\<lparr>id_locality := ET_LOCAL,
    id_nevents := sc_nevents (sy_config (id_sys (lo_mem env))), id_esize := sc_event_size (sy_config (id_sys (lo_mem env))),
    id_port := sy_port (id_sys (lo_mem env)), id_ethost := sy_host (id_sys (lo_mem env)), id_alive := True\<rparr>"
  have sys: "id_sys ?e = id_sys (lo_mem env)" by (simp add: map_memory_def)
  have n: "nprocesses_max ?e = nprocesses_max (lo_mem env)" by (simp add: nprocesses_max_def sys)
  have "etl_open env config eid0 = Some (open_slot env i ?e)"
    using assms n unfolding open_possible_def by (auto simp: etl_open_def et_wait_for_system_def map_memory_def Let_def nprocesses_max_def)
  then show ?thesis using assms(1) l unfolding open_possible_def
    by (simp add: open_slot_def take_slot_def upd_proc_def map_memory_def Let_def)
qed

text \<open>
  C8. Opening a system that can be opened takes the first free slot for processes, and closing it
  again without having attached to a station is accepted and leaves the shared memory exactly as it
  was before.
\<close>

theorem open_then_close:
  assumes "open_possible env eid0" and "find_slot (take (nprocesses_max (lo_mem env)) (sy_proc (id_sys (lo_mem env)))) 0 = Some i"
    and "free_slot (sy_proc (id_sys (lo_mem env)) ! i)" and "nattachments_max (lo_mem env) \<le> ET_ATTACHMENTS_MAX"
  shows "\<exists>e1 e2. etl_open env config eid0 = Some (ET_OK, e1) \<and> id_proc e1 = int i \<and> id_alive e1 \<and>
     pr_status (sy_proc (id_sys e1) ! i) = ET_PROC_OPEN \<and> (\<forall>j < i. pr_num (sy_proc (id_sys (lo_mem env)) ! j) \<noteq> -1) \<and>
     etl_close e1 = Some (ET_OK, e2) \<and>
     id_sys e2 = id_sys (lo_mem env) \<and> id_stats e2 = id_stats (lo_mem env) \<and> id_events e2 = id_events (lo_mem env)"
proof -
  let ?m = "lo_mem env" and ?p = "sy_proc (id_sys (lo_mem env)) ! i"
  have l: "i < length (sy_proc (id_sys ?m))" "\<forall>j < i. pr_num (sy_proc (id_sys ?m) ! j) \<noteq> -1"
    using find_slot_Some [OF assms(2)] by auto
  from etl_open_run [OF assms(1,2), of config] obtain e1 where e1: "etl_open env config eid0 = Some (ET_OK, e1)" "id_proc e1 = int i" "id_alive e1"
     "id_stats e1 = id_stats ?m" "id_events e1 = id_events ?m"
     "id_sys e1 = (id_sys ?m)\<lparr>sy_nprocesses := sy_nprocesses (id_sys ?m) + 1,
       sy_proc := (sy_proc (id_sys ?m))[i := ?p\<lparr>pr_time := lo_start env, pr_num := int i,
          pr_pid := lo_pid env, pr_et_status := ET_PROC_ETOK, pr_status := ET_PROC_OPEN\<rparr>]\<rparr>" by blast
  have att: "pr_att ?p = replicate ET_ATTACHMENTS_MAX (-1)"
    using arg_cong [OF assms(3) [unfolded free_slot_def], of pr_att] by (simp add: et_init_process_def)
  have il: "i < length (sy_proc (id_sys e1))" using l(1) by (simp add: e1(6))
  have pe: "pr_att (sy_proc (id_sys e1) ! i) = replicate ET_ATTACHMENTS_MAX (-1)" "pr_status (sy_proc (id_sys e1) ! i) = ET_PROC_OPEN"
    using l(1) att by (simp_all add: e1(6))
  have nm: "nattachments_max e1 = nattachments_max ?m" by (simp add: nattachments_max_def e1(6))
  have "noted e1 i [0..<nattachments_max e1] = {}" using assms(4) by (auto simp: noted_def pe nm)
  with etl_close_done [OF e1(2) il] assms(4) have c: "etl_close e1 =
      Some (ET_OK, close_proc i (set_proc_status ET_PROC_OPEN (set_proc_status ET_PROC_CLOSED (e1\<lparr>id_closed := True\<rparr>))))"
    by (simp add: pe nm)
  let ?e2 = "close_proc i (set_proc_status ET_PROC_OPEN (set_proc_status ET_PROC_CLOSED (e1\<lparr>id_closed := True\<rparr>)))"
  have "et_init_process (x\<lparr>pr_time := a, pr_num := b, pr_pid := c', pr_et_status := d, pr_status := f\<rparr>) = et_init_process x" for x a b c' d f
    by (simp add: et_init_process_def)
  then have ini: "et_init_process ((?p\<lparr>pr_time := lo_start env, pr_num := int i, pr_pid := lo_pid env, pr_et_status := ET_PROC_ETOK,
       pr_status := ET_PROC_OPEN\<rparr>)\<lparr>pr_status := s\<rparr>) = ?p" for s
    using assms(3) by (simp add: free_slot_def et_init_process_def)
  have "id_sys ?e2 = id_sys ?m"
    using e1(2) l(1) ini by (simp add: close_proc_def set_proc_status_def upd_proc_def e1(6))
  moreover have "id_stats ?e2 = id_stats ?m" "id_events ?e2 = id_events ?m"
    by (simp_all add: close_proc_def set_proc_status_def upd_proc_def e1(4,5))
  ultimately show ?thesis using e1(1-3) pe(2) l(2) c by blast
qed

section \<open>Opening while the system cleans up\<close>

text \<open>How many of the first \<open>n\<close> slots hold an open process.\<close>

definition open_count :: "nat \<Rightarrow> et_id \<Rightarrow> int" where
  "open_count n eid = int (length (filter (\<lambda>p. pr_status p = ET_PROC_OPEN) (take n (sy_proc (id_sys eid)))))"

lemma filter_length_update:
  assumes "i < length xs" "P x" "\<not> P (xs ! i)"
  shows "length (filter P (xs[i := x])) = Suc (length (filter P xs))"
  using assms by (simp add: upd_conv_take_nth_drop) (metis append_take_drop_id filter.simps(2) filter_append id_take_nth_drop length_append
      add_Suc_right)

lemma filter_status_length:
  assumes "length xs = length ys" "\<forall>j < length xs. pr_status (xs ! j) = pr_status (ys ! j)"
  shows "length (filter (\<lambda>p. pr_status p = a) (take n xs)) = length (filter (\<lambda>p. pr_status p = a) (take n ys))"
proof -
  have "map pr_status xs = map pr_status ys" using assms by (intro nth_equalityI) simp_all
  then have "map pr_status (take n xs) = map pr_status (take n ys)" by (metis take_map)
  then have "filter (\<lambda>s. s = a) (map pr_status (take n xs)) = filter (\<lambda>s. s = a) (map pr_status (take n ys))" by simp
  then have "length (filter (\<lambda>s. s = a) (map pr_status (take n xs))) = length (filter (\<lambda>s. s = a) (map pr_status (take n ys)))" by simp
  then show ?thesis by (simp add: filter_map comp_def)
qed

lemma take_slot_order:
  assumes "in_order eid gs"
  shows "in_order (take_slot i t p eid) gs" "live (take_slot i t p eid) = live eid"
  by ((rule in_order_other [OF assms]; simp add: take_slot_def upd_proc_def Let_def)+)

lemma take_slot_sys:
  assumes "i < length (sy_proc (id_sys eid))"
  shows "sy_proc (id_sys (take_slot i t p eid)) =
      (sy_proc (id_sys eid))[i := (sy_proc (id_sys eid) ! i)\<lparr>pr_time := t, pr_num := int i, pr_pid := p, pr_et_status := ET_PROC_ETOK\<rparr>]"
    "sy_stat_head (id_sys (take_slot i t p eid)) = sy_stat_head (id_sys eid)"
    "nattachments_max (take_slot i t p eid) = nattachments_max eid" "nprocesses_max (take_slot i t p eid) = nprocesses_max eid"
  using assms by (simp_all add: take_slot_def upd_proc_def nattachments_max_def nprocesses_max_def)

text \<open>
  C10. The system counts the open processes anew when it cleans up, and a process that is just being
  opened has been counted already but is not open yet: when the clean-up comes while the threads of the
  new process start, the count of processes stays one too small after a successful open.
\<close>

theorem cleanup_while_opening:
  assumes "in_order eid gs" "sy_stat_head (id_sys eid) = 0" "no_waits w"
    and n: "nprocesses_max eid \<le> length (sy_proc (id_sys eid))" and k: "k < nprocesses_max eid" and i: "i < nprocesses_max eid" "i \<noteq> k"
    and "noted eid k [0..<nattachments_max eid] \<subseteq> live eid" and free: "pr_status (sy_proc (id_sys eid) ! i) \<noteq> ET_PROC_OPEN"
    and env: "lo_starting env = (\<lambda>e. the (clean_process w k e))" "lo_heartbeat env" "lo_heartmonitor env"
  shows "\<exists>eid'. open_slot env i eid = (ET_OK, eid') \<and> pr_status (sy_proc (id_sys eid') ! i) = ET_PROC_OPEN \<and>
    sy_nprocesses (id_sys eid') = open_count (nprocesses_max eid) eid' - 1"
proof -
  let ?n = "nprocesses_max eid" and ?O = "\<lambda>p. pr_status p = ET_PROC_OPEN"
  define e1 where "e1 = take_slot i (lo_start env) (lo_pid env) eid"
  have il: "i < length (sy_proc (id_sys eid))" "k < length (sy_proc (id_sys eid))" using n i k by simp_all
  note s1 = take_slot_sys [OF il(1), of "lo_start env" "lo_pid env", folded e1_def]
  note o1 = take_slot_order [OF assms(1), of i "lo_start env" "lo_pid env", folded e1_def]
  have "noted e1 k [0..<nattachments_max e1] = noted eid k [0..<nattachments_max eid]" using i(2) by (simp add: noted_def s1)
  then obtain e2 where c: "clean_process w k e1 = Some e2" "length (sy_proc (id_sys e2)) = length (sy_proc (id_sys e1))"
      "\<forall>j < length (sy_proc (id_sys e1)). pr_status (sy_proc (id_sys e2) ! j) =
         (if j = k then ET_PROC_CLOSED else pr_status (sy_proc (id_sys e1) ! j))"
      "sy_nprocesses (id_sys e2) = int (length (filter ?O (take ?n ((sy_proc (id_sys e1))[k := et_init_process (sy_proc (id_sys e1) ! k)]))))"
    using clean_process_works [OF o1(1) _ assms(3) _ refl, of k] assms(2,8) il(2) o1(2) s1 by auto
  let ?p2 = "sy_proc (id_sys e2)" and ?e3 = "upd_proc e2 (int i) (\<lambda>p. p\<lparr>pr_status := ET_PROC_OPEN\<rparr>)"
  have l2: "length ?p2 = length (sy_proc (id_sys eid))" by (simp add: c(2) s1(1))
  have p3: "sy_proc (id_sys ?e3) = ?p2[i := (?p2 ! i)\<lparr>pr_status := ET_PROC_OPEN\<rparr>]" "sy_nprocesses (id_sys ?e3) = sy_nprocesses (id_sys e2)"
    by (simp_all add: upd_proc_def)
  have run: "open_slot env i eid = (ET_OK, ?e3)" using env c(1) by (simp add: open_slot_def e1_def [symmetric])
  have "pr_status (?p2 ! i) = pr_status (sy_proc (id_sys eid) ! i)" using c(3) i(2) il(1) by (simp add: s1(1))
  then have "length (filter ?O ((take ?n ?p2)[i := (?p2 ! i)\<lparr>pr_status := ET_PROC_OPEN\<rparr>])) = Suc (length (filter ?O (take ?n ?p2)))"
    using filter_length_update [of i "take ?n ?p2" ?O "(?p2 ! i)\<lparr>pr_status := ET_PROC_OPEN\<rparr>"] i(1) n free l2 by simp
  moreover have "length (filter ?O (take ?n ?p2)) =
      length (filter ?O (take ?n ((sy_proc (id_sys e1))[k := et_init_process (sy_proc (id_sys e1) ! k)])))"
    by (rule filter_status_length) (use c(2,3) in \<open>simp_all add: nth_list_update et_init_process_def\<close>)
  ultimately have "open_count ?n ?e3 = sy_nprocesses (id_sys ?e3) + 1"
    by (simp add: open_count_def p3 c(4) take_update_swap)
  moreover have "pr_status (sy_proc (id_sys ?e3) ! i) = ET_PROC_OPEN" using il(1) l2 by (simp add: p3(1))
  ultimately show ?thesis using run by (intro exI [of _ ?e3]) simp
qed

text \<open>A free slot next to the one of the dead process.\<close>

definition sample_slot :: et_proc where
  "sample_slot = et_init_process sample_user"

definition sample_busy :: et_id where
  "sample_busy = sample_dead\<lparr>id_sys := (id_sys sample_dead)\<lparr>sy_proc := [sample_user, sample_slot, sample_slot]\<rparr>\<rparr>"

definition sample_env :: "et_id \<Rightarrow> (et_id \<Rightarrow> et_id) \<Rightarrow> open_env" where
  "sample_env mem starting = \<lparr>lo_tries = [(ET_OK, 0)], lo_start = 5, lo_mem = mem, lo_responds = True, lo_beats = [], lo_waiting = id,
     lo_pid = 3, lo_heartbeat = True, lo_heartmonitor = True, lo_starting = starting\<rparr>"

definition sample_wait :: waits where
  "sample_wait = \<lparr>cl_mutexes = id, cl_gc = [], cl_in = (\<lambda>j. []), cl_out = (\<lambda>j. []), cl_remote = (\<lambda>e a. (ET_ERROR, e))\<rparr>"

theorem cleanup_while_opening_witness:
  "\<exists>eid'. open_slot (sample_env sample_busy (\<lambda>e. the (clean_process sample_wait 0 e))) 1 sample_busy = (ET_OK, eid') \<and>
     pr_status (sy_proc (id_sys eid') ! 1) = ET_PROC_OPEN \<and> sy_nprocesses (id_sys eid') = open_count 3 eid' - 1"
proof -
  have o: "in_order sample_busy [[1]]" "live sample_busy = {0}"
    using in_order_other [OF sample_dead_order, of sample_busy] sample_dead_tables(1) by (simp_all add: sample_busy_def)
  have "nprocesses_max sample_busy = 3" "nattachments_max sample_busy = 3" "length (sy_proc (id_sys sample_busy)) = 3"
    "sy_stat_head (id_sys sample_busy) = 0" "pr_status (sy_proc (id_sys sample_busy) ! 1) \<noteq> ET_PROC_OPEN"
    by (simp_all add: sample_busy_def sample_dead_def sample_open_def sample_id_def upd_stat_def Let_def nprocesses_max_def nattachments_max_def
        sample_slot_def et_init_process_def)
  moreover have "noted sample_busy 0 [0..<3] \<subseteq> live sample_busy"
    unfolding o(2) by (auto simp: noted_def sample_busy_def sample_user_def numeral_3_eq_3 nth_list_update split: if_splits)
  ultimately show ?thesis
    using cleanup_while_opening [OF o(1), of sample_wait 0 1 "sample_env sample_busy (\<lambda>e. the (clean_process sample_wait 0 e))"]
    by (simp add: sample_env_def sample_wait_def no_waits_def)
qed

theorem open_then_close_witness:
  "\<exists>config e1 e2. etl_open (sample_env (sample_busy\<lparr>id_sys := (id_sys sample_busy)\<lparr>sy_bitInfo := ET_BIT64_MASK, sy_nselects := 6\<rparr>\<rparr>) id) config
      (sample_busy\<lparr>id_nselects := 6\<rparr>) = Some (ET_OK, e1) \<and> id_proc e1 = 1 \<and> etl_close e1 = Some (ET_OK, e2) \<and>
     id_sys e2 = (id_sys sample_busy)\<lparr>sy_bitInfo := ET_BIT64_MASK, sy_nselects := 6\<rparr>"
proof -
  let ?m = "sample_busy\<lparr>id_sys := (id_sys sample_busy)\<lparr>sy_bitInfo := ET_BIT64_MASK, sy_nselects := 6\<rparr>\<rparr>"
  have m: "lo_mem (sample_env ?m id) = ?m" by (simp add: sample_env_def)
  have n: "nprocesses_max ?m = 3" "nattachments_max ?m = 3"
    by (simp_all add: sample_busy_def sample_dead_def sample_open_def sample_id_def upd_stat_def Let_def nprocesses_max_def nattachments_max_def)
  have p: "sy_proc (id_sys ?m) = [sample_user, sample_slot, sample_slot]" by (simp add: sample_busy_def)
  have "open_possible (sample_env ?m id) (sample_busy\<lparr>id_nselects := 6\<rparr>)"
    by (simp add: open_possible_def sample_env_def)
  moreover have "find_slot (take 3 (sy_proc (id_sys ?m))) 0 = Some 1"
    unfolding p by (simp add: numeral_3_eq_3 sample_slot_def et_init_process_def sample_user_def)
  moreover have "free_slot (sy_proc (id_sys ?m) ! 1)" unfolding p by (simp add: free_slot_def sample_slot_def et_init_process_def)
  moreover have "(3::nat) \<le> ET_ATTACHMENTS_MAX" by simp
  ultimately obtain e1 e2 where
    "etl_open (sample_env ?m id) undefined (sample_busy\<lparr>id_nselects := 6\<rparr>) = Some (ET_OK, e1)" "id_proc e1 = int 1"
    "etl_close e1 = Some (ET_OK, e2)" "id_sys e2 = id_sys ?m"
    using open_then_close [of "sample_env ?m id" "sample_busy\<lparr>id_nselects := 6\<rparr>" 1 undefined] unfolding m n by blast
  then show ?thesis by (intro exI [of _ undefined] exI [of _ e1] exI [of _ e2]) simp
qed

end
