(* ===== verification/Spec2Isabelle.thy ===== *)
theory Spec2Isabelle
  imports ET_Crash ET_StationFaults ET_StationLive ET_Relink ET_Local
begin

text \<open>
  Verification of the ET library (C sources under src/src/libsrc).

  ET moves \<^emph>\<open>events\<close>, blocks of shared memory, through a chain of \<^emph>\<open>stations\<close>. The ET system process
  owns the shared memory. Every station has an input list and an output list of events and a
  thread, its \<^emph>\<open>conductor\<close>, that moves events from the output list to the input lists behind it in
  the chain. The first station, GrandCentral, keeps the events nobody uses. User processes attach
  to stations, get events (or new ones from GrandCentral), and put them back or dump them. A monitor
  thread cleans up after processes that die, wherever they die.

  \<^bold>\<open>Components and theories\<close>

  \<^item> \<open>ET_Prelude\<close>: conventions, theorem collections, facts about lists and options.
  \<^item> \<open>ET_Types\<close> (et.h, et\_private.h, et\_init.c): records for events, lists, stations, attachments,
    processes, the system and an id; initialisation; sample data.
  \<^item> \<open>ET_LList\<close> (et\_readwrite.c, \<open>et_llist_*\<close>): lists of events in the system process, over a heap of next
    pointers; \<open>list_ok\<close> relates a list head to the sequence of its events. The locale \<open>list_writer\<close>
    is what a conductor relies on, with both write routines as interpretations.
  \<^item> \<open>ET_StationIO\<close>, \<open>ET_StationRead\<close> (et\_readwrite.c, \<open>et_station_*\<close>): writing, dumping and reading by
    users, with lock, repair information, relinking and waits.
  \<^item> \<open>ET_StatConfig\<close> (et\_statconfig.c): configurations; the locale \<open>config_field\<close> is the contract of a
    setter and its getter.
  \<^item> \<open>ET_Chain\<close> (et\_station.c, \<open>station_insert\<close>, \<open>station_remove\<close>, \<open>station_find\<close>): the main and parallel links
    between stations; \<open>chain_ok\<close> relates them to a sequence of groups.
  \<^item> \<open>ET_ShellSort\<close>, \<open>ET_Select\<close>, \<open>ET_Distribute\<close>, \<open>ET_Conductor\<close> (et\_system.c, \<open>et_conductor\<close> and its
    helpers): one round of a conductor; \<open>ET_Conserve\<close> proves that it loses and duplicates no event
    (locale \<open>event_mover\<close>).
  \<^item> \<open>ET_Restore\<close>, \<open>ET_Recovery\<close> (et\_readwrite.c, \<open>et_restore\<close>, \<open>et_restore_events\<close>, \<open>et_flush_events\<close>):
    returning the events of a user who leaves.
  \<^item> \<open>ET_StationGetSet\<close>, \<open>ET_StationLive\<close>, \<open>ET_Station\<close>, \<open>ET_StationTable\<close>, \<open>ET_Attachments\<close>, \<open>ET_Sessions\<close>,
    \<open>ET_StationFaults\<close> (et\_station.c): the whole interface of stations, the invariant \<open>tables\<close> of the
    tables of stations and attachments, its preservation by every sequence of the calls in \<open>session\<close>
    (which removes stations in use, detaches live attachments and moves serial stations in front of others), and
    the calls that are accepted although they break it.
  \<^item> \<open>ET_Events\<close>, \<open>ET_Cycle\<close> (et\_event.c): the interface of events and the invariant \<open>events_ok\<close>: each event
    is owned by a user and in no list, or owned by the system and in one list, once. The relation
    \<open>event_step\<close> has users' calls, which may wait while others do such steps, and conductors' rounds as steps; left out are rounds in which a
    group behind the next one has a round-robin head (where \<open>et_system.c\<close> line 2128 deals events twice or loses
    them) and waits that end with an error.
  \<^item> \<open>ET_Repair\<close>, \<open>ET_CrashIO\<close>, \<open>ET_Crash\<close> (et\_readwrite.c, \<open>et_repair_*\<close>): the critical sections as lists of
    single assignments, and the repair of a list after a death between any two of them in the routines that
    write, dump and read one event or several; after a death in a group read the repair does not return.
  \<^item> \<open>ET_Cleanup\<close>, \<open>ET_Relink\<close>, \<open>ET_Detach\<close>, \<open>ET_Clean\<close> (et\_system.c, \<open>et_sys_heartmonitor\<close>, \<open>et_fix_*\<close>):
    watching heartbeats, cleaning up after a process, the repair of the chain after a death in the
    creation or removal of a station, and the detaching of what a dead process leaves behind. The
    invariant \<open>in_order\<close> joins \<open>tables\<close> and \<open>events_ok\<close>.
  \<^item> \<open>ET_SysConfig\<close> (et\_sysconfig.c, \<open>et_system_config_check\<close>): configurations of a system, again with
    \<open>config_field\<close>, and the information about an open system.
  \<^item> \<open>ET_Start\<close> (et\_system.c, \<open>et_system_start\<close>, \<open>et_system_close\<close>): initialising the shared memory and
    creating GrandCentral; a started system satisfies \<open>tables\<close> and \<open>events_ok\<close>.
  \<^item> \<open>ET_AttachAPI\<close> (et\_attachment.c): waking up readers and the statistics of attachments.
  \<^item> \<open>ET_OpenConfig\<close> (et\_openconfig.c, \<open>codanetIsDottedDecimal\<close>): configurations for opening a system; the locale
    \<open>address_list\<close> is the contract of the routines that add and remove addresses.
  \<^item> \<open>ET_Local\<close> (et\_local.c, et\_common.c): opening, looking at, closing, forcibly closing and killing a system
    as a local user, a process' heartbeat and heart monitor, and the choice between local and remote
    calls. A forced close keeps \<open>in_order\<close>, and an open followed by a close restores the shared memory.
    \<open>etl_close_while\<close> has what others do to the shared memory while the close waits for its threads.

  \<^bold>\<open>How the model reads\<close>

  \<^item> Shared memory is one record \<open>et_id\<close> that is passed along and returned changed. Indices and event
    pointers are numbers; the translation between the address spaces of processes is the identity.
  \<^item> A C \<open>int\<close> is an \<open>int\<close>, a \<open>uint64_t\<close> counter a \<open>64 word\<close> and a heartbeat a \<open>32 word\<close>.
    Sums of C \<open>int\<close>s, as that of the sizes of the groups in \<open>et_system_config_check\<close>, do not overflow in the model.
  \<^item> A function that may dereference a null pointer, leave an array, wait forever or loop forever is
    a function into \<open>option\<close>; \<open>None\<close> is "does not return". Theorems state that the result is \<open>Some\<close>.
  \<^item> Walks along the links of stations take the number of stations as a bound, which is enough for every
    chain that satisfies \<open>chain_ok\<close> (the links are distinct members of the array); the walks of the
    clean-up and the walk of \<open>et_repair_inputlist\<close> have no bound and are partial functions.
  \<^item> A wait is resolved by a list of wake-ups, each with the change others made meanwhile.
  \<^item> Mutexes of event lists are data; the system's, the stations' and the transfer mutexes make the
    modelled calls atomic and are not. In the crash theories single assignments reach the memory in
    the order of the source.

  \<^bold>\<open>Parameters\<close>: requests of remote users (\<open>etr_*\<close>, \<open>etn_*\<close>), user-defined selection functions, the time of
  day, process id and host name, operating system calls on files and mappings, the network
  interfaces of the host, the search for a system by broadcast and multicast.

  \<^bold>\<open>Not modelled\<close>: the creation of threads, signals and mmap, local users without shared mutexes
  (et\_noshare.c), the network client and server, FIFO and bridge, the monitoring data in et\_data.c, the JNI and
  Java code and the programs. \<open>MUTEX_INIT\<close>, which is not the default, and the dead code under \<open>#if 0\<close> are
  left out, as are failures of malloc and the log messages.
\<close>

end
